(* ===== verification/FOS_Prelude.thy ===== *)
theory FOS_Prelude
  imports Main "HOL-Library.Word" "HOL-Library.Monad_Syntax"
begin

text \<open>
  Shared vocabulary of the development.

  Machine integers are words of the width the source declares (\<open>uint8\<close>, \<open>uint16\<close>, \<open>uint32\<close>), so
  addition and subtraction wrap as in C.  An operation of the kernel is a function from its arguments
  and the state to \<open>('a \<times> 's) option\<close>: \<open>None\<close> is a call of \<open>panic\<close>, a failed \<open>assert\<close>, or a
  dereference of a pointer that is not valid, after which the kernel does not go on.  Operations are
  composed by the option monad of the library.

  The named collections gather the rewrite rules that the component proofs share: \<open>fos_consts\<close> holds
  the unfolding equations of the numeric constants, \<open>fos_defs\<close> those of short helper operations.
\<close>

named_theorems fos_consts
named_theorems fos_defs

type_synonym u8 = "8 word"
type_synonym u16 = "16 word"
type_synonym u32 = "32 word"

section \<open>Failure\<close>

text \<open>\<open>assert(b)\<close>, and the guards \<open>if (!b) panic(...)\<close> (\<open>inc/assert.h\<close>).\<close>

definition assert_that :: "bool \<Rightarrow> unit option" where
  "assert_that b = (if b then Some () else None)"

lemma assert_that_simps [simp]:
  "assert_that True = Some ()"
  "assert_that False = None"
  by (simp_all add: assert_that_def)

lemma assert_that_eq_Some [simp]: "assert_that b = Some u \<longleftrightarrow> b"
  by (simp add: assert_that_def)

lemma assert_that_eq_None [simp]: "assert_that b = None \<longleftrightarrow> \<not> b"
  by (simp add: assert_that_def)

lemma bind_assert_that: "assert_that b \<bind> f = (if b then f () else None)"
  by (simp add: assert_that_def)

lemma bind_SomeE:
  assumes "m \<bind> f = Some y"
  obtains x where "m = Some x" and "f x = Some y"
  using assms by (cases m) auto

lemma bind_neq_None: "(m \<bind> f) \<noteq> None \<longleftrightarrow> (\<exists>x. m = Some x \<and> f x \<noteq> None)"
  by (cases m) auto

section \<open>Lists\<close>

text \<open>The element a list begins with, and the element it ends with, as possibly null pointers.\<close>

definition first_of :: "'a list \<Rightarrow> 'a option \<Rightarrow> 'a option" where
  "first_of xs q = (case xs of [] \<Rightarrow> q | x # _ \<Rightarrow> Some x)"

definition last_of :: "'a option \<Rightarrow> 'a list \<Rightarrow> 'a option" where
  "last_of p xs = (if xs = [] then p else Some (last xs))"

lemma first_of_simps [simp]:
  "first_of [] q = q"
  "first_of (x # xs) q = Some x"
  "first_of (xs @ ys) q = first_of xs (first_of ys q)"
  by (auto simp: first_of_def split: list.splits)

lemma last_of_simps [simp]:
  "last_of p [] = p"
  "last_of p (x # xs) = last_of (Some x) xs"
  "last_of p (xs @ ys) = last_of (last_of p xs) ys"
  by (auto simp: last_of_def)

lemma first_of_None [simp]: "first_of xs None = None \<longleftrightarrow> xs = []"
  by (auto simp: first_of_def split: list.splits)

lemma first_of_Some [simp]: "first_of xs (Some a) \<noteq> None"
  by (auto simp: first_of_def split: list.splits)

lemma last_of_None [simp]: "last_of None xs = None \<longleftrightarrow> xs = []"
  by (auto simp: last_of_def)

lemma last_of_Some [simp]: "last_of (Some a) xs \<noteq> None"
  by (auto simp: last_of_def)

lemma first_of_SomeD: "first_of xs None = Some x \<Longrightarrow> \<exists>ys. xs = x # ys"
  by (auto simp: first_of_def split: list.splits)

lemma last_of_SomeD: "last_of None xs = Some x \<Longrightarrow> \<exists>ys. xs = ys @ [x]"
  by (auto simp: last_of_def split: if_splits intro: append_butlast_last_id [symmetric])

lemma remove1_split:
  assumes "distinct xs" and "x \<in> set xs"
  obtains as bs where "xs = as @ x # bs" and "x \<notin> set as" and "x \<notin> set bs"
    and "remove1 x xs = as @ bs"
proof -
  from assms(2) obtain as bs where s: "xs = as @ x # bs" and n: "x \<notin> set as"
    by (meson split_list_first)
  from s n assms(1) have "x \<notin> set bs" "remove1 x xs = as @ bs"
    by (auto simp: remove1_append)
  with s n that show thesis by blast
qed

section \<open>Words\<close>

lemma sint_of_nat_u32: "n < 2 ^ 31 \<Longrightarrow> sint (of_nat n :: u32) = int n"
  by (simp add: signed_of_nat signed_take_bit_int_eq_self)

lemma unat_of_nat_u32: "n < 2 ^ 32 \<Longrightarrow> unat (of_nat n :: u32) = n"
  by (simp add: unsigned_of_nat take_bit_nat_eq_self)

lemma unat_u32_less: "unat (x :: u32) < 4294967296"
  using unsigned_less [of x] by simp

lemma take_bit_word_self: "unat a < 2 ^ n \<Longrightarrow> take_bit n a = a"
  by (simp add: unsigned_take_bit_eq word_unat_eq_iff take_bit_nat_eq_self)

lemma unat_take_bit_less: "unat (take_bit n a) < 2 ^ n"
  by (simp add: unsigned_take_bit_eq)

section \<open>Repeating a fallible operation\<close>

text \<open>\<open>run_all\<close> performs an operation for every element of a list, in order; \<open>run_n\<close> performs one a number
  of times and collects what it returns.\<close>

primrec run_all :: "('e \<Rightarrow> 's \<Rightarrow> 's option) \<Rightarrow> 'e list \<Rightarrow> 's \<Rightarrow> 's option" where
  "run_all f [] s = Some s"
| "run_all f (e # es) s = f e s \<bind> run_all f es"

primrec run_n :: "nat \<Rightarrow> ('s \<Rightarrow> ('r \<times> 's) option) \<Rightarrow> 's \<Rightarrow> ('r list \<times> 's) option" where
  "run_n 0 f s = Some ([], s)"
| "run_n (Suc n) f s = do { (x, s1) \<leftarrow> f s; (xs, s2) \<leftarrow> run_n n f s1; Some (x # xs, s2) }"

lemma run_all_append: "run_all f (xs @ ys) s = run_all f xs s \<bind> run_all f ys"
  by (induction xs arbitrary: s) (simp_all split: Option.bind_split)

lemma run_all_invariant:
  assumes "\<And>e s s'. P s \<Longrightarrow> f e s = Some s' \<Longrightarrow> P s'"
  shows "P s \<Longrightarrow> run_all f es s = Some s' \<Longrightarrow> P s'"
  by (induction es arbitrary: s) (auto elim!: bind_SomeE dest: assms)

end
