(* ===== verification/FOS_Queue.thy ===== *)
theory FOS_Queue
  imports FOS_Prelude
begin

text \<open>
  The intrusive doubly linked lists of \<open>inc/queue.h\<close>, on which every list of the kernel is built
  (free frames, environment queues, working sets, shares).

  A list head is a record with the fields of \<open>LIST_HEAD\<close>; the links of the elements, which the C
  code stores inside the elements (\<open>prev_next_info\<close>), are a function from elements to records with
  the fields of \<open>LIST_ENTRY\<close>.  Each macro is one function on a head and the links, with its pointer
  assignments in the order of the source.  \<open>dll\<close> says which sequence of elements a head represents;
  the lemmas show that each macro acts on that sequence as the list operation its name promises.
\<close>

record 'a list_head =
  lh_first :: "'a option"
  lh_last :: "'a option"
  lh_size :: u32

record 'a list_entry =
  le_next :: "'a option"
  le_prev :: "'a option"

type_synonym 'a links = "'a \<Rightarrow> 'a list_entry"

definition set_next :: "'a \<Rightarrow> 'a option \<Rightarrow> 'a links \<Rightarrow> 'a links" where
  "set_next e v lk = lk(e := lk e\<lparr>le_next := v\<rparr>)"

definition set_prev :: "'a \<Rightarrow> 'a option \<Rightarrow> 'a links \<Rightarrow> 'a links" where
  "set_prev e v lk = lk(e := lk e\<lparr>le_prev := v\<rparr>)"

definition LIST_INIT :: "'a list_head \<Rightarrow> 'a list_head" where
  "LIST_INIT h = h\<lparr>lh_first := None, lh_last := None, lh_size := 0\<rparr>"

definition LIST_EMPTY :: "'a list_head \<Rightarrow> bool" where
  "LIST_EMPTY h \<longleftrightarrow> lh_first h = None"

text \<open>\<open>LIST_NEXT\<close> and \<open>LIST_PREV\<close> of a pointer; a null pointer has no link fields.\<close>

definition LOOP_LIST_NEXT :: "'a links \<Rightarrow> 'a option \<Rightarrow> 'a option" where
  "LOOP_LIST_NEXT lk v = (case v of None \<Rightarrow> None | Some e \<Rightarrow> le_next (lk e))"

fun LIST_INSERT_AFTER ::
  "'a option \<Rightarrow> 'a option \<Rightarrow> 'a list_head \<times> 'a links \<Rightarrow> ('a list_head \<times> 'a links) option" where
  "LIST_INSERT_AFTER (Some l) (Some e) (h, lk) =
     (let lk1 = set_next e (le_next (lk l)) lk;
          lk2 = (case le_next (lk1 e) of
                   None \<Rightarrow> lk1
                 | Some _ \<Rightarrow> (case le_next (lk1 l) of None \<Rightarrow> lk1 | Some n \<Rightarrow> set_prev n (Some e) lk1));
          lk3 = set_next l (Some e) lk2;
          lk4 = set_prev e (Some l) lk3;
          h1 = (if le_next (lk4 e) = None then h\<lparr>lh_last := Some e\<rparr> else h)
      in Some (h1\<lparr>lh_size := lh_size h1 + 1\<rparr>, lk4))"
| "LIST_INSERT_AFTER _ _ _ = None"

fun LIST_INSERT_BEFORE ::
  "'a option \<Rightarrow> 'a option \<Rightarrow> 'a list_head \<times> 'a links \<Rightarrow> ('a list_head \<times> 'a links) option" where
  "LIST_INSERT_BEFORE (Some l) (Some e) (h, lk) =
     (let lk1 = set_prev e (le_prev (lk l)) lk;
          lk2 = set_next e (Some l) lk1;
          (h1, lk3) = (case le_prev (lk2 l) of
                         Some p \<Rightarrow> (h, set_next p (Some e) lk2)
                       | None \<Rightarrow> (h\<lparr>lh_first := Some e\<rparr>, lk2));
          lk4 = set_prev l (Some e) lk3
      in Some (h1\<lparr>lh_size := lh_size h1 + 1\<rparr>, lk4))"
| "LIST_INSERT_BEFORE _ _ _ = None"

fun LIST_INSERT_HEAD ::
  "'a option \<Rightarrow> 'a list_head \<times> 'a links \<Rightarrow> ('a list_head \<times> 'a links) option" where
  "LIST_INSERT_HEAD (Some e) (h, lk) =
     (let lk1 = set_next e (lh_first h) lk;
          (h1, lk2) = (case lh_first h of
                         Some f \<Rightarrow> (h, set_prev f (Some e) lk1)
                       | None \<Rightarrow> (h\<lparr>lh_last := Some e\<rparr>, lk1));
          h2 = h1\<lparr>lh_first := Some e\<rparr>;
          lk3 = set_prev e None lk2
      in Some (h2\<lparr>lh_size := lh_size h2 + 1\<rparr>, lk3))"
| "LIST_INSERT_HEAD None _ = None"

fun LIST_INSERT_TAIL ::
  "'a option \<Rightarrow> 'a list_head \<times> 'a links \<Rightarrow> ('a list_head \<times> 'a links) option" where
  "LIST_INSERT_TAIL (Some e) (h, lk) =
     (let lk1 = set_prev e (lh_last h) lk;
          (h1, lk2) = (case lh_last h of
                         Some l \<Rightarrow> (h, set_next l (Some e) lk1)
                       | None \<Rightarrow> (h\<lparr>lh_first := Some e\<rparr>, lk1));
          h2 = h1\<lparr>lh_last := Some e\<rparr>;
          lk3 = set_next e None lk2
      in Some (h2\<lparr>lh_size := lh_size h2 + 1\<rparr>, lk3))"
| "LIST_INSERT_TAIL None _ = None"

fun LIST_REMOVE ::
  "'a option \<Rightarrow> 'a list_head \<times> 'a links \<Rightarrow> ('a list_head \<times> 'a links) option" where
  "LIST_REMOVE (Some e) (h, lk) =
     (let (h1, lk1) = (case le_next (lk e) of
                         Some n \<Rightarrow> (h, set_prev n (le_prev (lk e)) lk)
                       | None \<Rightarrow> (h\<lparr>lh_last := le_prev (lk e)\<rparr>, lk));
          (h2, lk2) = (case le_prev (lk1 e) of
                         Some p \<Rightarrow> (h1, set_next p (le_next (lk1 e)) lk1)
                       | None \<Rightarrow> (h1\<lparr>lh_first := le_next (lk1 e)\<rparr>, lk1));
          lk3 = set_next e None lk2;
          lk4 = set_prev e None lk3
      in Some (h2\<lparr>lh_size := lh_size h2 - 1\<rparr>, lk4))"
| "LIST_REMOVE None _ = None"

text \<open>
  \<open>LIST_CONCAT\<close>: the size of the second list is added after the second list was reset in the branch
  where both lists have elements, and the second list is not reset in the others.
\<close>

definition LIST_CONCAT ::
  "'a list_head \<times> 'a list_head \<times> 'a links \<Rightarrow> ('a list_head \<times> 'a list_head \<times> 'a links) option" where
  "LIST_CONCAT = (\<lambda>(h1, h2, lk).
     if lh_first h1 = None
     then (let h1' = h1\<lparr>lh_first := lh_first h2, lh_last := lh_last h2\<rparr>
           in Some (h1'\<lparr>lh_size := lh_size h1' + lh_size h2\<rparr>, h2, lk))
     else (case lh_first h2 of
             None \<Rightarrow> Some (h1\<lparr>lh_size := lh_size h1 + lh_size h2\<rparr>, h2, lk)
           | Some f \<Rightarrow>
               (case lh_last h1 of
                  None \<Rightarrow> None
                | Some l \<Rightarrow>
                    (let lk1 = set_next l (Some f) lk;
                         lk2 = set_prev f (Some l) lk1;
                         h1' = h1\<lparr>lh_last := lh_last h2\<rparr>;
                         h2' = LIST_INIT h2
                     in Some (h1'\<lparr>lh_size := lh_size h1' + lh_size h2'\<rparr>, h2', lk2)))))"

text \<open>
  The elements that \<open>LIST_FOREACH\<close> visits, in order, when its body leaves the links alone: the loop
  follows the \<open>le_next\<close> fields from \<open>lh_first\<close>.  The number bounds the iterations; on a list that
  satisfies \<open>dll\<close> its length is enough (\<open>LIST_FOREACH_visits\<close> below).
\<close>

fun LIST_FOREACH_from :: "nat \<Rightarrow> 'a links \<Rightarrow> 'a option \<Rightarrow> 'a list option" where
  "LIST_FOREACH_from n lk None = Some []"
| "LIST_FOREACH_from 0 lk (Some e) = None"
| "LIST_FOREACH_from (Suc n) lk (Some e) =
     map_option (Cons e) (LIST_FOREACH_from n lk (LOOP_LIST_NEXT lk (Some e)))"

definition LIST_FOREACH :: "nat \<Rightarrow> 'a list_head \<times> 'a links \<Rightarrow> 'a list option" where
  "LIST_FOREACH n = (\<lambda>(h, lk). LIST_FOREACH_from n lk (lh_first h))"

section \<open>The sequence a list head represents\<close>

fun dseg :: "'a links \<Rightarrow> 'a option \<Rightarrow> 'a list \<Rightarrow> 'a option \<Rightarrow> bool" where
  "dseg lk p [] q = True"
| "dseg lk p (x # xs) q \<longleftrightarrow>
     le_prev (lk x) = p \<and> le_next (lk x) = first_of xs q \<and> dseg lk (Some x) xs q"

definition dll :: "'a list \<Rightarrow> 'a list_head \<times> 'a links \<Rightarrow> bool" where
  "dll xs = (\<lambda>(h, lk). distinct xs \<and> dseg lk None xs None \<and> lh_first h = first_of xs None \<and>
     lh_last h = last_of None xs \<and> lh_size h = of_nat (length xs))"

lemma links_sel [simp]:
  "le_next (set_next e v lk x) = (if x = e then v else le_next (lk x))"
  "le_prev (set_next e v lk x) = le_prev (lk x)"
  "le_prev (set_prev e v lk x) = (if x = e then v else le_prev (lk x))"
  "le_next (set_prev e v lk x) = le_next (lk x)"
  by (simp_all add: set_next_def set_prev_def)

lemma links_other [simp]:
  "x \<noteq> e \<Longrightarrow> set_next e v lk x = lk x"
  "x \<noteq> e \<Longrightarrow> set_prev e v lk x = lk x"
  by (simp_all add: set_next_def set_prev_def)

lemma dseg_append [simp]:
  "dseg lk p (xs @ ys) q \<longleftrightarrow> dseg lk p xs (first_of ys q) \<and> dseg lk (last_of p xs) ys q"
  by (induction xs arbitrary: p) auto

lemma dseg_cong:
  "(\<And>x. x \<in> set xs \<Longrightarrow> lk' x = lk x) \<Longrightarrow> dseg lk' p xs q = dseg lk p xs q"
  by (induction xs arbitrary: p) auto

lemma dseg_frame [simp]:
  "e \<notin> set xs \<Longrightarrow> dseg (set_next e v lk) p xs q = dseg lk p xs q"
  "e \<notin> set xs \<Longrightarrow> dseg (set_prev e v lk) p xs q = dseg lk p xs q"
  by (auto intro!: dseg_cong links_other)

lemma dll_empty [simp]: "dll [] (h, lk) \<longleftrightarrow> lh_first h = None \<and> lh_last h = None \<and> lh_size h = 0"
  by (auto simp: dll_def)

lemma LIST_INIT_sel [simp]:
  "lh_first (LIST_INIT h) = None"
  "lh_last (LIST_INIT h) = None"
  "lh_size (LIST_INIT h) = 0"
  by (simp_all add: LIST_INIT_def)

lemma dll_LIST_EMPTY: "dll xs (h, lk) \<Longrightarrow> LIST_EMPTY h \<longleftrightarrow> xs = []"
  by (simp add: dll_def LIST_EMPTY_def)

lemma dll_distinct: "dll xs hl \<Longrightarrow> distinct xs"
  by (auto simp: dll_def)

section \<open>Every macro acts on the represented sequence\<close>

text \<open>
  \<open>same_links S lk lk'\<close>: the links of elements outside \<open>S\<close> did not change, so other lists threaded
  through other elements are not disturbed.
\<close>

definition same_links :: "'a set \<Rightarrow> 'a links \<Rightarrow> 'a links \<Rightarrow> bool" where
  "same_links S lk lk' \<longleftrightarrow> (\<forall>y. y \<notin> S \<longrightarrow> lk' y = lk y)"

lemma dll_same_links:
  "dll ys (h, lk) \<Longrightarrow> same_links S lk lk' \<Longrightarrow> set ys \<inter> S = {} \<Longrightarrow> dll ys (h, lk')"
  using dseg_cong [of ys lk' lk None None] by (auto simp: dll_def same_links_def)

lemma LIST_INSERT_HEAD_dll:
  assumes "dll xs (h, lk)" and "e \<notin> set xs"
  shows "\<exists>h' lk'. LIST_INSERT_HEAD (Some e) (h, lk) = Some (h', lk') \<and> dll (e # xs) (h', lk') \<and>
    same_links (insert e (set xs)) lk lk'"
  using assms by (cases xs) (auto simp: dll_def same_links_def)

lemma LIST_INSERT_TAIL_dll:
  assumes "dll xs (h, lk)" and "e \<notin> set xs"
  shows "\<exists>h' lk'. LIST_INSERT_TAIL (Some e) (h, lk) = Some (h', lk') \<and> dll (xs @ [e]) (h', lk') \<and>
    same_links (insert e (set xs)) lk lk'"
  using assms by (cases xs rule: rev_cases) (auto simp: dll_def same_links_def)

lemma LIST_INSERT_AFTER_dll:
  assumes "dll (as @ l # bs) (h, lk)" and "e \<notin> set (as @ l # bs)"
  shows "\<exists>h' lk'. LIST_INSERT_AFTER (Some l) (Some e) (h, lk) = Some (h', lk') \<and>
    dll (as @ l # e # bs) (h', lk') \<and> same_links (insert e (set (as @ l # bs))) lk lk'"
  using assms by (cases bs) (auto simp: dll_def same_links_def)

lemma LIST_INSERT_BEFORE_dll:
  assumes "dll (as @ l # bs) (h, lk)" and "e \<notin> set (as @ l # bs)"
  shows "\<exists>h' lk'. LIST_INSERT_BEFORE (Some l) (Some e) (h, lk) = Some (h', lk') \<and>
    dll (as @ e # l # bs) (h', lk') \<and> same_links (insert e (set (as @ l # bs))) lk lk'"
  using assms by (cases as rule: rev_cases) (auto simp: dll_def same_links_def)

lemma LIST_REMOVE_dll_split:
  assumes "dll (as @ e # bs) (h, lk)"
  shows "\<exists>h' lk'. LIST_REMOVE (Some e) (h, lk) = Some (h', lk') \<and> dll (as @ bs) (h', lk') \<and>
    same_links (set (as @ e # bs)) lk lk' \<and> le_next (lk' e) = None \<and> le_prev (lk' e) = None"
  using assms by (cases as rule: rev_cases; cases bs) (auto simp: dll_def same_links_def)

lemma LIST_REMOVE_dll:
  assumes "dll xs (h, lk)" and "e \<in> set xs"
  shows "\<exists>h' lk'. LIST_REMOVE (Some e) (h, lk) = Some (h', lk') \<and> dll (remove1 e xs) (h', lk') \<and>
    same_links (set xs) lk lk'"
  using dll_distinct [OF assms(1)] assms(2)
proof (rule remove1_split)
  fix as bs
  assume "xs = as @ e # bs" "remove1 e xs = as @ bs"
  with assms(1) LIST_REMOVE_dll_split [of as e bs h lk] show ?thesis by auto
qed

lemma LIST_FOREACH_from_dseg:
  "dseg lk p xs None \<Longrightarrow> length xs \<le> n \<Longrightarrow> LIST_FOREACH_from n lk (first_of xs None) = Some xs"
proof (induction xs arbitrary: p n)
  case Nil
  then show ?case by simp
next
  case (Cons x xs)
  then obtain m where "n = Suc m" "length xs \<le> m" by (cases n) auto
  with Cons show ?case by (auto simp: LOOP_LIST_NEXT_def)
qed

lemma LIST_FOREACH_dll:
  assumes "dll xs hl" and "length xs \<le> n"
  shows "LIST_FOREACH n hl = Some xs"
  using assms LIST_FOREACH_from_dseg by (auto simp: LIST_FOREACH_def dll_def split: prod.splits)

text \<open>
  \<open>LIST_CONCAT\<close> threads the elements correctly: the two chains become one and the ends of the first
  head are right.  The \<open>size\<close> field is another matter, see \<open>LIST_CONCAT_size_wrong\<close>.
\<close>

lemma LIST_CONCAT_links:
  assumes "dll xs (h1, lk)" "dll ys (h2, lk)" "set xs \<inter> set ys = {}"
  shows "\<exists>h1' h2' lk'. LIST_CONCAT (h1, h2, lk) = Some (h1', h2', lk') \<and> dseg lk' None (xs @ ys) None \<and>
    lh_first h1' = first_of (xs @ ys) None \<and> lh_last h1' = last_of None (xs @ ys) \<and>
    lh_size h1' = (if xs \<noteq> [] \<and> ys \<noteq> [] then of_nat (length xs) else of_nat (length (xs @ ys)))"
proof (cases xs rule: rev_cases)
  case Nil
  with assms show ?thesis by (simp add: LIST_CONCAT_def dll_def)
next
  case xs: (snoc xs' l)
  then have f: "lh_first h1 \<noteq> None" "lh_last h1 = Some l" using assms(1) by (simp_all add: dll_def)
  show ?thesis
  proof (cases ys)
    case Nil
    with f assms show ?thesis by (simp add: LIST_CONCAT_def dll_def)
  next
    case (Cons f' ys')
    with assms xs have "dseg (set_prev f' (Some l) (set_next l (Some f') lk)) None (xs @ ys) None"
      by (auto simp: dll_def)
    with Cons f assms(1,2) xs show ?thesis
      by (simp add: LIST_CONCAT_def dll_def LIST_INIT_def)
  qed
qed

section \<open>The interface of a list, and FIFO queues over it\<close>

text \<open>
  \<open>list_ops\<close> is what the kernel relies on when it uses a list; \<open>rep xs s\<close> reads: \<open>s\<close> represents the
  sequence \<open>xs\<close>.  \<open>fifo_ops\<close> is the contract of a FIFO queue that takes what \<open>fits\<close>.  Inserting at the head and removing the
  last element is a FIFO queue over any list (the sublocale): the queue is the list read backwards.
\<close>

locale list_ops =
  fixes rep :: "'a list \<Rightarrow> 's \<Rightarrow> bool"
    and insert_head :: "'a \<Rightarrow> 's \<Rightarrow> 's option"
    and insert_tail :: "'a \<Rightarrow> 's \<Rightarrow> 's option"
    and remove :: "'a \<Rightarrow> 's \<Rightarrow> 's option"
    and last_elem :: "'s \<Rightarrow> 'a option"
  assumes rep_distinct: "rep xs s \<Longrightarrow> distinct xs"
    and insert_head_rep: "rep xs s \<Longrightarrow> e \<notin> set xs \<Longrightarrow> \<exists>s'. insert_head e s = Some s' \<and> rep (e # xs) s'"
    and insert_tail_rep: "rep xs s \<Longrightarrow> e \<notin> set xs \<Longrightarrow> \<exists>s'. insert_tail e s = Some s' \<and> rep (xs @ [e]) s'"
    and remove_rep: "rep xs s \<Longrightarrow> e \<in> set xs \<Longrightarrow> \<exists>s'. remove e s = Some s' \<and> rep (remove1 e xs) s'"
    and last_elem_rep: "rep xs s \<Longrightarrow> last_elem s = last_of None xs"
begin

lemma insert_head_remove:
  assumes "rep xs s" "e \<notin> set xs" "insert_head e s = Some s'"
  shows "\<exists>s''. remove e s' = Some s'' \<and> rep xs s''"
proof -
  from insert_head_rep [OF assms(1,2)] assms(3) have "rep (e # xs) s'" by auto
  from remove_rep [OF this, of e] show ?thesis by auto
qed

lemma insert_tail_last:
  assumes "rep xs s" "e \<notin> set xs" "insert_tail e s = Some s'"
  shows "last_elem s' = Some e"
proof -
  from insert_tail_rep [OF assms(1,2)] assms(3) have "rep (xs @ [e]) s'" by auto
  from last_elem_rep [OF this] show ?thesis by simp
qed

lemma remove_last:
  assumes "rep (xs @ [e]) s"
  shows "\<exists>s'. last_elem s = Some e \<and> remove e s = Some s' \<and> rep xs s'"
proof -
  from rep_distinct [OF assms] have "remove1 e (xs @ [e]) = xs" by (simp add: remove1_append)
  with remove_rep [OF assms, of e] last_elem_rep [OF assms] show ?thesis by simp
qed

end

locale fifo_ops =
  fixes queue :: "'a list \<Rightarrow> 's \<Rightarrow> bool"
    and fits :: "'a list \<Rightarrow> bool"
    and enq :: "'a \<Rightarrow> 's \<Rightarrow> 's option"
    and deq :: "'s \<Rightarrow> ('a option \<times> 's) option"
  assumes fits_prefix: "fits (xs @ ys) \<Longrightarrow> fits xs"
    and enq_queue: "queue xs s \<Longrightarrow> fits (xs @ [e]) \<Longrightarrow> \<exists>s'. enq e s = Some s' \<and> queue (xs @ [e]) s'"
    and deq_empty: "queue [] s \<Longrightarrow> deq s = Some (None, s)"
    and deq_queue: "queue (x # xs) s \<Longrightarrow> \<exists>s'. deq s = Some (Some x, s') \<and> queue xs s'"
begin

lemma run_all_queue:
  "queue xs s \<Longrightarrow> fits (xs @ es) \<Longrightarrow> \<exists>s'. run_all enq es s = Some s' \<and> queue (xs @ es) s'"
proof (induction es arbitrary: xs s)
  case Nil
  then show ?case by simp
next
  case (Cons e es)
  have "fits (xs @ [e])" by (rule fits_prefix [of _ es]) (use Cons.prems(2) in simp)
  from enq_queue [OF Cons.prems(1) this] obtain s' where s': "enq e s = Some s'" "queue (xs @ [e]) s'"
    by auto
  from Cons.IH [OF s'(2)] Cons.prems s'(1) show ?case by auto
qed

lemma run_n_queue:
  "queue (xs @ ys) s \<Longrightarrow> \<exists>s'. run_n (length xs) deq s = Some (map Some xs, s') \<and> queue ys s'"
proof (induction xs arbitrary: s)
  case Nil
  then show ?case by simp
next
  case (Cons x xs)
  from Cons.prems deq_queue [of x "xs @ ys" s] obtain s1
    where "deq s = Some (Some x, s1)" "queue (xs @ ys) s1" by auto
  with Cons.IH [of s1] show ?case by auto
qed

text \<open>What is put in comes out in the same order, behind what was there.\<close>

lemma fifo:
  assumes "queue xs s" "fits (xs @ es)"
  shows "\<exists>s1 s2. run_all enq es s = Some s1 \<and> run_n (length (xs @ es)) deq s1 = Some (map Some (xs @ es), s2) \<and> queue [] s2"
  using run_all_queue [OF assms] run_n_queue [of "xs @ es" "[]"] by fastforce

end

sublocale list_ops \<subseteq> fifo: fifo_ops "\<lambda>xs. rep (rev xs)" distinct insert_head
  "\<lambda>s. case last_elem s of None \<Rightarrow> Some (None, s)
       | Some e \<Rightarrow> map_option (Pair (Some e)) (remove e s)"
proof
  fix xs ys :: "'a list"
  assume "distinct (xs @ ys)"
  then show "distinct xs" by simp
next
  fix xs s e
  assume "rep (rev xs) s" "distinct (xs @ [e])"
  with insert_head_rep show "\<exists>s'. insert_head e s = Some s' \<and> rep (rev (xs @ [e])) s'" by simp
next
  fix s
  assume "rep (rev []) s"
  with last_elem_rep show "(case last_elem s of None \<Rightarrow> Some (None, s)
      | Some e \<Rightarrow> map_option (Pair (Some e)) (remove e s)) = Some (None, s)" by simp
next
  fix x xs s
  assume "rep (rev (x # xs)) s"
  with remove_last [of "rev xs" x s]
  show "\<exists>s'. (case last_elem s of None \<Rightarrow> Some (None, s)
      | Some e \<Rightarrow> map_option (Pair (Some e)) (remove e s)) = Some (Some x, s') \<and> rep (rev xs) s'" by auto
qed

interpretation klist: list_ops dll "\<lambda>e. LIST_INSERT_HEAD (Some e)" "\<lambda>e. LIST_INSERT_TAIL (Some e)"
  "\<lambda>e. LIST_REMOVE (Some e)" "\<lambda>(h, lk). lh_last h"
proof
  fix xs :: "'a list" and s e
  show "dll xs s \<Longrightarrow> distinct xs" by (rule dll_distinct)
  show "dll xs s \<Longrightarrow> e \<notin> set xs \<Longrightarrow> \<exists>s'. LIST_INSERT_HEAD (Some e) s = Some s' \<and> dll (e # xs) s'"
    using LIST_INSERT_HEAD_dll [of xs "fst s" "snd s" e] by auto
  show "dll xs s \<Longrightarrow> e \<notin> set xs \<Longrightarrow> \<exists>s'. LIST_INSERT_TAIL (Some e) s = Some s' \<and> dll (xs @ [e]) s'"
    using LIST_INSERT_TAIL_dll [of xs "fst s" "snd s" e] by auto
  show "dll xs s \<Longrightarrow> e \<in> set xs \<Longrightarrow> \<exists>s'. LIST_REMOVE (Some e) s = Some s' \<and> dll (remove1 e xs) s'"
    using LIST_REMOVE_dll [of xs "fst s" "snd s" e] by auto
  show "dll xs s \<Longrightarrow> (case s of (h, lk) \<Rightarrow> lh_last h) = last_of None xs"
    by (auto simp: dll_def)
qed

end
