(* ===== verification/FOS_EnvQueue.thy ===== *)
theory FOS_EnvQueue
  imports FOS_Queue
begin

text \<open>
  The queue functions of \<open>kern/cpu/sched_helpers.c\<close>, on the linked lists of \<open>FOS_Queue\<close>, and the
  specification of each on finite sequences.  A queue argument is a possibly null pointer to a list
  head together with the links of the environments; environments are possibly null pointers.

  The operations with suffix \<open>_l\<close> are the specification: they act on the sequence a queue represents
  and fail exactly where the linked list would be corrupted (inserting an environment that is in the
  queue already, removing one that is not there).  The other components keep their queues as
  sequences and use the specification; the refinement lemmas here justify that.
\<close>

section \<open>The operations on linked lists\<close>

definition init_queue :: "('a list_head \<times> 'a links) option \<Rightarrow> ('a list_head \<times> 'a links) option" where
  "init_queue q = map_option (\<lambda>(h, lk). (LIST_INIT h, lk)) q"

definition queue_size :: "('a list_head \<times> 'a links) option \<Rightarrow> int" where
  "queue_size q = (case q of None \<Rightarrow> 0 | Some (h, lk) \<Rightarrow> sint (lh_size h))"

definition enqueue ::
  "('a list_head \<times> 'a links) option \<Rightarrow> 'a option \<Rightarrow> ('a list_head \<times> 'a links) option" where
  "enqueue q env = (case q of
     None \<Rightarrow> None
   | Some hl \<Rightarrow> (case env of None \<Rightarrow> Some hl | Some e \<Rightarrow> LIST_INSERT_HEAD (Some e) hl))"

definition dequeue ::
  "('a list_head \<times> 'a links) option \<Rightarrow> ('a option \<times> ('a list_head \<times> 'a links) option) option" where
  "dequeue q = (case q of
     None \<Rightarrow> Some (None, None)
   | Some (h, lk) \<Rightarrow>
       (case lh_last h of
          None \<Rightarrow> Some (None, Some (h, lk))
        | Some envItem \<Rightarrow> do {
            hl \<leftarrow> LIST_REMOVE (Some envItem) (h, lk);
            Some (Some envItem, Some hl) }))"

definition remove_from_queue ::
  "('a list_head \<times> 'a links) option \<Rightarrow> 'a option \<Rightarrow> ('a list_head \<times> 'a links) option" where
  "remove_from_queue q env = (case q of
     None \<Rightarrow> None
   | Some hl \<Rightarrow> (case env of None \<Rightarrow> Some hl | Some e \<Rightarrow> LIST_REMOVE (Some e) hl))"

text \<open>
  The loop of \<open>find_env_in_queue\<close>: \<open>idf\<close> reads the field \<open>env_id\<close>; the number bounds the iterations and
  \<open>None\<close> is a loop that has not ended by then.
\<close>

fun find_env_from :: "nat \<Rightarrow> 'a links \<Rightarrow> ('a \<Rightarrow> 'i) \<Rightarrow> 'i \<Rightarrow> 'a option \<Rightarrow> 'a option option" where
  "find_env_from n lk idf i None = Some None"
| "find_env_from 0 lk idf i (Some e) = None"
| "find_env_from (Suc n) lk idf i (Some e) =
     (if idf e = i then Some (Some e)
      else find_env_from n lk idf i (LOOP_LIST_NEXT lk (Some e)))"

definition find_env_in_queue ::
  "nat \<Rightarrow> ('a \<Rightarrow> 'i) \<Rightarrow> ('a list_head \<times> 'a links) option \<Rightarrow> 'i \<Rightarrow> 'a option option" where
  "find_env_in_queue n idf q i = (case q of
     None \<Rightarrow> Some None
   | Some (h, lk) \<Rightarrow> find_env_from n lk idf i (lh_first h))"

section \<open>Their specification on sequences\<close>

definition insert_l :: "'a \<Rightarrow> 'a list \<Rightarrow> 'a list option" where
  "insert_l e xs = (if e \<in> set xs then None else Some (e # xs))"

definition insert_tail_l :: "'a \<Rightarrow> 'a list \<Rightarrow> 'a list option" where
  "insert_tail_l e xs = (if e \<in> set xs then None else Some (xs @ [e]))"

definition remove_l :: "'a \<Rightarrow> 'a list \<Rightarrow> 'a list option" where
  "remove_l e xs = (if e \<in> set xs then Some (remove1 e xs) else None)"

definition enqueue_l :: "'a option \<Rightarrow> 'a list \<Rightarrow> 'a list option" where
  "enqueue_l env xs = (case env of None \<Rightarrow> Some xs | Some e \<Rightarrow> insert_l e xs)"

definition dequeue_l :: "'a list \<Rightarrow> 'a option \<times> 'a list" where
  "dequeue_l xs = (if xs = [] then (None, []) else (Some (last xs), butlast xs))"

definition remove_from_queue_l :: "'a option \<Rightarrow> 'a list \<Rightarrow> 'a list option" where
  "remove_from_queue_l env xs = (case env of None \<Rightarrow> Some xs | Some e \<Rightarrow> remove_l e xs)"

definition find_env_l :: "('a \<Rightarrow> 'i) \<Rightarrow> 'i \<Rightarrow> 'a list \<Rightarrow> 'a option" where
  "find_env_l idf i xs = List.find (\<lambda>e. idf e = i) xs"

lemma insert_l_distinct: "insert_l e xs = Some ys \<Longrightarrow> distinct xs \<Longrightarrow> distinct ys"
  by (auto simp: insert_l_def split: if_splits)

lemma remove_l_distinct: "remove_l e xs = Some ys \<Longrightarrow> distinct xs \<Longrightarrow> distinct ys"
  by (auto simp: remove_l_def split: if_splits)

lemma find_env_l_Some: "find_env_l idf i xs = Some e \<Longrightarrow> e \<in> set xs \<and> idf e = i"
  by (auto simp: find_env_l_def find_Some_iff)

lemma find_env_l_None: "find_env_l idf i xs = None \<longleftrightarrow> (\<forall>e\<in>set xs. idf e \<noteq> i)"
  by (auto simp: find_env_l_def find_None_iff)

text \<open>The sequence operations are a list in the sense of \<open>list_ops\<close>, hence a FIFO queue.\<close>

interpretation seqlist: list_ops "\<lambda>xs ys. ys = xs \<and> distinct xs" insert_l insert_tail_l remove_l "last_of None"
  by unfold_locales (auto simp: insert_l_def insert_tail_l_def remove_l_def last_of_def)

section \<open>Refinement\<close>

text \<open>\<open>env_queue xs q\<close>: the queue pointer \<open>q\<close> is not null and its list represents \<open>xs\<close>.\<close>

definition env_queue :: "'a list \<Rightarrow> ('a list_head \<times> 'a links) option \<Rightarrow> bool" where
  "env_queue xs q \<longleftrightarrow> (\<exists>hl. q = Some hl \<and> dll xs hl)"

lemma init_queue_refines: "q \<noteq> None \<Longrightarrow> env_queue [] (init_queue q)"
  by (auto simp: env_queue_def init_queue_def)

lemma queue_size_refines:
  assumes "env_queue xs q" "length xs < 2 ^ 31"
  shows "queue_size q = int (length xs)"
  using assms by (auto simp: env_queue_def queue_size_def dll_def sint_of_nat_u32)

lemma enqueue_refines:
  assumes "env_queue xs q" "enqueue_l env xs = Some ys"
  shows "env_queue ys (enqueue q env)"
  using assms klist.insert_head_rep [of xs]
  by (fastforce simp: env_queue_def enqueue_def enqueue_l_def insert_l_def split: option.splits if_splits)

lemma dequeue_refines:
  assumes "env_queue xs q"
  shows "\<exists>q'. dequeue q = Some (fst (dequeue_l xs), q') \<and> env_queue (snd (dequeue_l xs)) q'"
proof (cases xs rule: rev_cases)
  case Nil
  with assms show ?thesis by (auto simp: env_queue_def dequeue_def dequeue_l_def dll_def)
next
  case (snoc ys y)
  with assms obtain hl where hl: "q = Some hl" "dll (ys @ [y]) hl" by (auto simp: env_queue_def)
  from klist.remove_last [OF hl(2)] hl(1) snoc show ?thesis
    by (cases hl) (auto simp: env_queue_def dequeue_def dequeue_l_def)
qed

lemma remove_from_queue_refines:
  assumes "env_queue xs q" "remove_from_queue_l env xs = Some ys"
  shows "env_queue ys (remove_from_queue q env)"
  using assms klist.remove_rep [of xs]
  by (fastforce simp: env_queue_def remove_from_queue_def remove_from_queue_l_def remove_l_def
      split: option.splits if_splits)

lemma find_env_from_dseg:
  "dseg lk p xs None \<Longrightarrow> length xs \<le> n \<Longrightarrow>
     find_env_from n lk idf i (first_of xs None) = Some (find_env_l idf i xs)"
proof (induction xs arbitrary: p n)
  case Nil
  then show ?case by (simp add: find_env_l_def)
next
  case (Cons x xs)
  then obtain m where "n = Suc m" "length xs \<le> m" by (cases n) auto
  with Cons show ?case by (auto simp: LOOP_LIST_NEXT_def find_env_l_def)
qed

lemma find_env_in_queue_refines:
  "env_queue xs q \<Longrightarrow> length xs \<le> n \<Longrightarrow> find_env_in_queue n idf q i = Some (find_env_l idf i xs)"
  by (auto simp: env_queue_def find_env_in_queue_def dll_def find_env_from_dseg)

text \<open>\<open>enqueue\<close> and \<open>dequeue\<close> as a FIFO queue: the contract \<open>fifo_ops\<close> on the C-level operations.\<close>

interpretation env_fifo: fifo_ops "\<lambda>xs. env_queue (rev xs)" distinct "\<lambda>e q. map_option Some (enqueue q (Some e))" dequeue
proof
  fix xs ys :: "'a list"
  assume "distinct (xs @ ys)"
  then show "distinct xs" by simp
next
  fix xs :: "'a list" and s e
  assume "env_queue (rev xs) s" "distinct (xs @ [e])"
  then show "\<exists>s'. map_option Some (enqueue s (Some e)) = Some s' \<and> env_queue (rev (xs @ [e])) s'"
    using enqueue_refines [of "rev xs" s "Some e" "e # rev xs"]
    by (auto simp: enqueue_l_def insert_l_def env_queue_def)
next
  fix s :: "('a list_head \<times> 'a links) option"
  assume "env_queue (rev []) s"
  then show "dequeue s = Some (None, s)" by (auto simp: env_queue_def dequeue_def)
next
  fix x :: 'a and xs s
  assume "env_queue (rev (x # xs)) s"
  from dequeue_refines [OF this]
  show "\<exists>s'. dequeue s = Some (Some x, s') \<and> env_queue (rev xs) s'"
    by (auto simp: dequeue_l_def butlast_append)
qed

end
