(* ===== verification/FOS_Mmu.thy ===== *)
theory FOS_Mmu
  imports FOS_Prelude
begin

unbundle bit_operations_syntax

text \<open>
  The address arithmetic of \<open>inc/types.h\<close> and \<open>inc/mmu.h\<close>, the memory map of \<open>inc/memlayout.h\<close> and the
  error codes of \<open>inc/error.h\<close>.  All of it is on 32-bit words, so that the wrap-around of \<open>ROUNDUP\<close> near
  the top of the address space is the one of the C code.
\<close>

section \<open>Rounding\<close>

definition ROUNDDOWN :: "u32 \<Rightarrow> u32 \<Rightarrow> u32" where
  "ROUNDDOWN a n = a - a mod n"

definition ROUNDUP :: "u32 \<Rightarrow> u32 \<Rightarrow> u32" where
  "ROUNDUP a n = ROUNDDOWN (a + n - 1) n"

section \<open>Linear addresses\<close>

definition PPN :: "u32 \<Rightarrow> u32" where
  "PPN la = drop_bit 12 la"

definition PDX :: "u32 \<Rightarrow> u32" where
  "PDX la = drop_bit 22 la AND 0x3FF"

definition PTX :: "u32 \<Rightarrow> u32" where
  "PTX la = drop_bit 12 la AND 0x3FF"

definition PGOFF :: "u32 \<Rightarrow> u32" where
  "PGOFF la = la AND 0xFFF"

definition PGADDR :: "u32 \<Rightarrow> u32 \<Rightarrow> u32 \<Rightarrow> u32" where
  "PGADDR d t off = push_bit 22 d OR push_bit 12 t OR off"

definition EXTRACT_ADDRESS :: "u32 \<Rightarrow> u32" where
  "EXTRACT_ADDRESS entry = entry AND NOT 0xFFF"

definition PAGE_SIZE :: u32 where [fos_consts]: "PAGE_SIZE = 4096"
definition PTSIZE :: u32 where [fos_consts]: "PTSIZE = 0x400000"

section \<open>Entry flags\<close>

definition PERM_PRESENT :: u32 where [fos_consts]: "PERM_PRESENT = 0x001"
definition PERM_WRITEABLE :: u32 where [fos_consts]: "PERM_WRITEABLE = 0x002"
definition PERM_USER :: u32 where [fos_consts]: "PERM_USER = 0x004"
definition PERM_USED :: u32 where [fos_consts]: "PERM_USED = 0x020"
definition PERM_MODIFIED :: u32 where [fos_consts]: "PERM_MODIFIED = 0x040"
definition PERM_BUFFERED :: u32 where [fos_consts]: "PERM_BUFFERED = 0x200"
definition PERM_UHPAGE :: u32 where [fos_consts]: "PERM_UHPAGE = 0x400"
definition PERM_AVAILABLE :: u32 where [fos_consts]: "PERM_AVAILABLE = 0xE00"

section \<open>The memory map\<close>

definition KERNEL_BASE :: u32 where [fos_consts]: "KERNEL_BASE = 0xF0000000"
definition VPT :: u32 where [fos_consts]: "VPT = 0xEFC00000"
definition USER_LIMIT :: u32 where [fos_consts]: "USER_LIMIT = 0xEF800000"
definition UVPT :: u32 where [fos_consts]: "UVPT = 0xEF400000"
definition USER_TOP :: u32 where [fos_consts]: "USER_TOP = 0xEEC00000"
definition USTACKTOP :: u32 where [fos_consts]: "USTACKTOP = 0xEEBFE000"
definition KERNEL_HEAP_START :: u32 where [fos_consts]: "KERNEL_HEAP_START = 0xF6000000"
definition KERNEL_HEAP_MAX :: u32 where [fos_consts]: "KERNEL_HEAP_MAX = 0xFFFFF000"
definition USER_HEAP_START :: u32 where [fos_consts]: "USER_HEAP_START = 0x80000000"
definition USER_HEAP_MAX :: u32 where [fos_consts]: "USER_HEAP_MAX = 0xA0000000"
definition KERNEL_STACK_SIZE :: u32 where [fos_consts]: "KERNEL_STACK_SIZE = 8 * 4096"

section \<open>Error codes\<close>

definition E_BAD_ENV :: int where [fos_consts]: "E_BAD_ENV = -2"
definition E_INVAL :: int where [fos_consts]: "E_INVAL = -3"
definition E_NO_MEM :: int where [fos_consts]: "E_NO_MEM = -4"
definition E_NO_FREE_ENV :: int where [fos_consts]: "E_NO_FREE_ENV = -5"
definition E_NO_PAGE_FILE_SPACE :: int where [fos_consts]: "E_NO_PAGE_FILE_SPACE = -8"
definition E_PAGE_NOT_EXIST_IN_PF :: int where [fos_consts]: "E_PAGE_NOT_EXIST_IN_PF = -9"
definition E_TABLE_NOT_EXIST_IN_PF :: int where [fos_consts]: "E_TABLE_NOT_EXIST_IN_PF = -10"
definition E_NO_SHARE :: int where [fos_consts]: "E_NO_SHARE = -14"
definition E_SHARED_MEM_EXISTS :: int where [fos_consts]: "E_SHARED_MEM_EXISTS = -15"
definition E_SHARED_MEM_NOT_EXISTS :: int where [fos_consts]: "E_SHARED_MEM_NOT_EXISTS = -16"

section \<open>Rounding is what it says\<close>

lemma word_mod_le: "a mod n \<le> (a :: u32)"
  by (simp add: word_le_nat_alt unat_mod)

lemma unat_ROUNDDOWN: "unat (ROUNDDOWN a n) = unat a - unat a mod unat n"
  by (simp add: ROUNDDOWN_def unat_sub [OF word_mod_le] unat_mod)

lemma unat_ROUNDDOWN_mult: "unat (ROUNDDOWN a n) = unat n * (unat a div unat n)"
  by (simp add: unat_ROUNDDOWN minus_mod_eq_mult_div)

lemma ROUNDDOWN_le: "ROUNDDOWN a n \<le> a"
  by (simp add: word_le_nat_alt unat_ROUNDDOWN)

lemma ROUNDDOWN_dvd: "unat n dvd unat (ROUNDDOWN a n)"
  by (simp add: unat_ROUNDDOWN_mult)

lemma ROUNDDOWN_close: "n \<noteq> 0 \<Longrightarrow> unat a < unat (ROUNDDOWN a n) + unat n"
  using dividend_less_div_times [of "unat n" "unat a"]
  by (simp add: unat_ROUNDDOWN_mult unat_gt_0 algebra_simps)

lemma ROUNDDOWN_id: "unat n dvd unat a \<Longrightarrow> ROUNDDOWN a n = a"
  by (simp add: unat_ROUNDDOWN word_unat_eq_iff dvd_eq_mod_eq_0)

lemma unat_add_minus_1:
  fixes a n :: u32
  assumes "n \<noteq> 0" "unat a + unat n \<le> 2 ^ 32"
  shows "unat (a + n - 1) = unat a + unat n - 1"
proof -
  have n: "unat n \<ge> 1" using assms(1) by (simp add: unat_gt_0 Suc_le_eq)
  have "unat (n - 1) = unat n - 1" using assms(1) by (simp add: unat_minus_one)
  then have "unat a + unat (n - 1) < 2 ^ LENGTH(32)" using assms(2) n by simp
  then have "unat (a + (n - 1)) = unat a + (unat n - 1)"
    using \<open>unat (n - 1) = unat n - 1\<close> by (simp add: unat_word_ariths)
  with n show ?thesis by (simp add: algebra_simps)
qed

lemma unat_ROUNDUP:
  assumes "n \<noteq> 0" "unat a + unat n \<le> 2 ^ 32"
  shows "unat (ROUNDUP a n) = unat n * ((unat a + unat n - 1) div unat n)"
  by (simp add: ROUNDUP_def unat_ROUNDDOWN_mult unat_add_minus_1 [OF assms])

lemma ROUNDUP_dvd: "unat n dvd unat (ROUNDUP a n)"
  by (simp add: ROUNDUP_def ROUNDDOWN_dvd)

lemma ROUNDUP_ge:
  assumes "n \<noteq> 0" "unat a + unat n \<le> 2 ^ 32"
  shows "a \<le> ROUNDUP a n"
proof -
  have "unat a < unat (ROUNDUP a n) + 1"
    using ROUNDDOWN_close [OF assms(1), of "a + n - 1"] unat_add_minus_1 [OF assms]
    by (simp add: ROUNDUP_def)
  then show ?thesis by (simp add: word_le_nat_alt)
qed

lemma ROUNDUP_close:
  assumes "n \<noteq> 0" "unat a + unat n \<le> 2 ^ 32"
  shows "unat (ROUNDUP a n) < unat a + unat n"
proof -
  have "unat (ROUNDUP a n) \<le> unat a + unat n - 1"
    using ROUNDDOWN_le [of "a + n - 1" n] unat_add_minus_1 [OF assms]
    by (simp add: ROUNDUP_def word_le_nat_alt)
  then show ?thesis using assms(1) by (simp add: unat_gt_0 le_less_trans less_le_trans)
qed

section \<open>Addresses decompose and recompose\<close>

lemma mask_literals: "(0x3FF :: u32) = mask 10" "(0xFFF :: u32) = mask 12"
  by (simp_all add: mask_eq_exp_minus_1)

lemma addr_fields:
  "PDX la = take_bit 10 (drop_bit 22 la)"
  "PTX la = take_bit 10 (drop_bit 12 la)"
  "PGOFF la = take_bit 12 la"
  "EXTRACT_ADDRESS e = e AND NOT (mask 12)"
  by (simp_all only: PDX_def PTX_def PGOFF_def EXTRACT_ADDRESS_def mask_literals take_bit_eq_mask)

lemma PGADDR_fields: "PGADDR (PDX la) (PTX la) (PGOFF la) = la"
  unfolding addr_fields PGADDR_def
proof (rule bit_word_eqI)
  fix n
  assume "n < LENGTH(32)"
  then show "bit (push_bit 22 (take_bit 10 (drop_bit 22 la)) OR push_bit 12 (take_bit 10 (drop_bit 12 la)) OR
      take_bit 12 la) n = bit la n"
    by (cases "n < 12"; cases "n < 22") (auto simp: bit_simps)
qed

lemma PDX_PGADDR:
  assumes "d < 1024" "t < 1024" "off < 4096"
  shows "PDX (PGADDR d t off) = d" "PTX (PGADDR d t off) = t" "PGOFF (PGADDR d t off) = off"
proof -
  have d: "take_bit 10 d = d" and t: "take_bit 10 t = t" and off: "take_bit 12 off = off"
    using assms by (simp_all add: take_bit_word_self word_less_nat_alt)
  have bd: "bit d n \<Longrightarrow> n < 10" and bt: "bit t n \<Longrightarrow> n < 10" and bo: "bit off n \<Longrightarrow> n < 12" for n
    using d t off by (metis bit_take_bit_iff)+
  show "PDX (PGADDR d t off) = d"
    unfolding addr_fields PGADDR_def
    by (rule bit_word_eqI) (auto simp: bit_simps dest: bd bt bo)
  show "PTX (PGADDR d t off) = t"
    unfolding addr_fields PGADDR_def
    by (rule bit_word_eqI) (auto simp: bit_simps dest: bd bt bo)
  show "PGOFF (PGADDR d t off) = off"
    unfolding addr_fields PGADDR_def
    by (rule bit_word_eqI) (auto simp: bit_simps dest: bd bt bo)
qed

lemma EXTRACT_ADDRESS_OR:
  assumes "perm < 4096"
  shows "EXTRACT_ADDRESS (EXTRACT_ADDRESS pa OR perm) = EXTRACT_ADDRESS pa"
proof -
  have "take_bit 12 perm = perm" using assms by (simp add: take_bit_word_self word_less_nat_alt)
  then have "bit perm n \<Longrightarrow> n < 12" for n by (metis bit_take_bit_iff)
  then show ?thesis unfolding addr_fields by (intro bit_word_eqI) (auto simp: bit_simps)
qed

lemma PDX_less: "PDX la < 1024" and PTX_less: "PTX la < 1024" and PGOFF_less: "PGOFF la < 4096"
  using unat_take_bit_less [of 10 "drop_bit 22 la"] unat_take_bit_less [of 10 "drop_bit 12 la"]
    unat_take_bit_less [of 12 la]
  by (simp_all add: addr_fields word_less_nat_alt)

end
