(* ===== verification/FOS_Cpu.thy ===== *)
theory FOS_Cpu
  imports FOS_EnvQueue FOS_Mmu
begin

text \<open>
  The processor state of \<open>kern/cpu/cpu.c\<close>, the spin locks of \<open>kern/conc/kspinlock.c\<close> and the table of
  environments (\<open>inc/environment_definitions.h\<close>), the bottom layer of the kernel state.  The layers
  above extend the record \<open>cpu_state\<close>, so the operations here are stated for every extension.

  There is one processor (\<open>NCPUS\<close> is 1, \<open>mycpu()\<close> is always \<open>CPUS[0]\<close>), numbered 0.  The segment
  descriptors, the task state, the stack pointer and the name and caller addresses recorded in a lock
  for debugging are not part of the state.  An environment pointer is an index of \<open>envs\<close>, a pointer to
  a page directory is the number of the frame it is in, and a null pointer is \<open>None\<close>.
\<close>

section \<open>State\<close>

datatype env_status =
    ENV_FREE | ENV_READY | ENV_RUNNING | ENV_BLOCKED | ENV_NEW | ENV_EXIT | ENV_KILLED | ENV_UNKNOWN

datatype sched_status = SCH_UNINITIALIZED | SCH_STOPPED | SCH_STARTED

type_synonym env_ptr = nat
type_synonym frame = nat

text \<open>
  \<open>struct Env\<close>.  The list links are in the queues.  The working set is a list of addresses of
  \<open>WorkingSetElement\<close>s.  Of the saved registers only the entry point and the initial stack pointer are kept, and the fields no
  function of this development uses are left out.
\<close>

record WorkingSetElement =
  ws_virtual_address :: u32
  ws_empty :: bool
  time_stamp :: u32
  sweeps_counter :: u32

record env =
  env_id :: int
  env_parent_id :: int
  env_status :: env_status
  priority :: int
  prog_name :: string
  env_page_directory :: "frame option"
  env_cr3 :: u32
  initNumStackPages :: u32
  kstack :: u32
  disk_env_pgdir :: "frame option"
  disk_env_pgdir_PA :: u32
  disk_env_tabledir :: "frame option"
  disk_env_tabledir_PA :: u32
  page_WS_max_size :: u32
  page_WS_list :: "u32 list"
  page_last_WS_element :: u32
  referenceStreamList :: "u32 list"
  prepagedVAs :: "u32 list"
  ptr_pageWorkingSet :: "nat \<Rightarrow> WorkingSetElement"
  page_last_WS_index :: u32
  ptr_tws :: "nat \<Rightarrow> WorkingSetElement"
  table_last_WS_index :: u32
  ActiveList :: "u32 list"
  SecondList :: "u32 list"
  ActiveListSize :: int
  SecondListSize :: int
  percentage_of_WS_pages_to_be_removed :: u32
  tf_eip :: u32
  tf_esp :: u32
  nTicks :: u32
  pageFaultsCounter :: u32
  tableFaultsCounter :: u32
  freeingFullWSCounter :: u32
  freeingScarceMemCounter :: u32
  nModifiedPages :: u32
  nNotModifiedPages :: u32
  env_runs :: u32
  nPageIn :: u32
  nPageOut :: u32
  nNewPageAdded :: u32
  nClocks :: u32

text \<open>The spin locks of the kernel, by name; a semaphore and a sleep lock carry one each.\<close>

datatype lock_id =
    QLOCK | MFLLOCK | DFLLOCK | SHARESLOCK | CONSOLELOCK | KBDLOCK | TSTCNTLOCK | TSTCHANLOCK | SEMLOCK nat | SLEEPLK nat

record kspinlock =
  lk_locked :: u32
  lk_cpu :: "nat option"

record cpu_state =
  eflags_IF :: bool
  ncli :: int
  intena :: bool
  cpu_proc :: "env_ptr option"
  cpu_cr3 :: u32
  scheduler_status :: sched_status
  klocks :: "lock_id \<Rightarrow> kspinlock"
  envs :: "env_ptr \<Rightarrow> env"

section \<open>Interrupt nesting\<close>

definition cli :: "'z cpu_state_scheme \<Rightarrow> 'z cpu_state_scheme" where
  "cli s = s\<lparr>eflags_IF := False\<rparr>"

definition sti :: "'z cpu_state_scheme \<Rightarrow> 'z cpu_state_scheme" where
  "sti s = s\<lparr>eflags_IF := True\<rparr>"

definition pushcli :: "'z cpu_state_scheme \<Rightarrow> 'z cpu_state_scheme" where
  "pushcli s =
     (let eflags = eflags_IF s;
          s1 = cli s;
          s2 = (if ncli s1 = 0 then s1\<lparr>intena := eflags\<rparr> else s1)
      in s2\<lparr>ncli := ncli s2 + 1\<rparr>)"

definition popcli :: "'z cpu_state_scheme \<Rightarrow> 'z cpu_state_scheme option" where
  "popcli s = do {
     assert_that (\<not> eflags_IF s);
     let s1 = s\<lparr>ncli := ncli s - 1\<rparr>;
     assert_that (\<not> ncli s1 < 0);
     Some (if ncli s1 = 0 \<and> intena s1 then sti s1 else s1) }"

section \<open>The current process\<close>

definition get_cpu_proc :: "'z cpu_state_scheme \<Rightarrow> (env_ptr option \<times> 'z cpu_state_scheme) option" where
  "get_cpu_proc s = do {
     let s1 = pushcli s;
     let p = cpu_proc s1;
     s2 \<leftarrow> popcli s1;
     Some (p, s2) }"

definition set_cpu_proc :: "env_ptr option \<Rightarrow> 'z cpu_state_scheme \<Rightarrow> 'z cpu_state_scheme option" where
  "set_cpu_proc p s = do {
     let s1 = pushcli s;
     popcli (s1\<lparr>cpu_proc := p\<rparr>) }"

definition envs_upd :: "env_ptr \<Rightarrow> (env \<Rightarrow> env) \<Rightarrow> 'z cpu_state_scheme \<Rightarrow> 'z cpu_state_scheme" where
  "envs_upd p f s = s\<lparr>envs := (envs s)(p := f (envs s p))\<rparr>"

section \<open>Spin locks\<close>

definition init_kspinlock :: "lock_id \<Rightarrow> 'z cpu_state_scheme \<Rightarrow> 'z cpu_state_scheme" where
  "init_kspinlock l s = s\<lparr>klocks := (klocks s)(l := \<lparr>lk_locked = 0, lk_cpu = None\<rparr>)\<rparr>"

text \<open>The test \<open>lock->locked && lock->cpu == mycpu()\<close>, and the function that makes it with interrupts off.\<close>

definition held :: "lock_id \<Rightarrow> 'z cpu_state_scheme \<Rightarrow> bool" where
  "held l s \<longleftrightarrow> lk_locked (klocks s l) \<noteq> 0 \<and> lk_cpu (klocks s l) = Some 0"

definition holding_kspinlock :: "lock_id \<Rightarrow> 'z cpu_state_scheme \<Rightarrow> (bool \<times> 'z cpu_state_scheme) option" where
  "holding_kspinlock l s = do {
     let s1 = pushcli s;
     let r = held l s1;
     s2 \<leftarrow> popcli s1;
     Some (r, s2) }"

text \<open>
  \<open>acquire_kspinlock\<close>: with one processor nobody can release the lock while this one spins with
  interrupts off, so the loop \<open>while (xchg(&lk->locked, 1) != 0)\<close> ends at its first test or never.
\<close>

definition acquire_kspinlock :: "lock_id \<Rightarrow> 'z cpu_state_scheme \<Rightarrow> 'z cpu_state_scheme option" where
  "acquire_kspinlock l s = do {
     (h, s1) \<leftarrow> holding_kspinlock l s;
     assert_that (\<not> h);
     let s2 = pushcli s1;
     (e, s3) \<leftarrow> get_cpu_proc s2;
     assert_that (lk_locked (klocks s3 l) = 0);
     Some (s3\<lparr>klocks := (klocks s3)(l := \<lparr>lk_locked = 1, lk_cpu = Some 0\<rparr>)\<rparr>) }"

definition release_kspinlock :: "lock_id \<Rightarrow> 'z cpu_state_scheme \<Rightarrow> 'z cpu_state_scheme option" where
  "release_kspinlock l s = do {
     (h, s1) \<leftarrow> holding_kspinlock l s;
     assert_that h;
     let s2 = s1\<lparr>klocks := (klocks s1)(l := (klocks s1 l)\<lparr>lk_cpu := None\<rparr>)\<rparr>;
     let s3 = s2\<lparr>klocks := (klocks s2)(l := (klocks s2 l)\<lparr>lk_locked := 0\<rparr>)\<rparr>;
     (e, s4) \<leftarrow> get_cpu_proc s3;
     popcli s4 }"

section \<open>The discipline the kernel keeps\<close>

text \<open>
  \<open>cpu_ok\<close>: the nesting depth is not negative and interrupts are off inside a \<open>pushcli\<close>.  A lock is
  well formed when it is free or held by the one processor.
\<close>

definition cpu_ok :: "'z cpu_state_scheme \<Rightarrow> bool" where
  "cpu_ok s \<longleftrightarrow> 0 \<le> ncli s \<and> (0 < ncli s \<longrightarrow> \<not> eflags_IF s)"

definition lock_free :: "lock_id \<Rightarrow> 'z cpu_state_scheme \<Rightarrow> bool" where
  "lock_free l s \<longleftrightarrow> lk_locked (klocks s l) = 0"

definition free_lock :: kspinlock where
  "free_lock = \<lparr>lk_locked = 0, lk_cpu = None\<rparr>"

definition taken_lock :: kspinlock where
  "taken_lock = \<lparr>lk_locked = 1, lk_cpu = Some 0\<rparr>"

definition locks_ok :: "'z cpu_state_scheme \<Rightarrow> bool" where
  "locks_ok s \<longleftrightarrow> (\<forall>l. klocks s l = free_lock \<or> klocks s l = taken_lock)"

text \<open>What a \<open>pushcli\<close>/\<open>popcli\<close> pair leaves behind: only \<open>intena\<close>, and that only at nesting depth 0,
  where the next \<open>pushcli\<close> overwrites it before it is read.\<close>

definition refresh_intena :: "'z cpu_state_scheme \<Rightarrow> 'z cpu_state_scheme" where
  "refresh_intena s = (if ncli s = 0 then s\<lparr>intena := eflags_IF s\<rparr> else s)"

lemma refresh_intena_sel [simp]:
  "ncli (refresh_intena s) = ncli s"
  "eflags_IF (refresh_intena s) = eflags_IF s"
  "cpu_proc (refresh_intena s) = cpu_proc s"
  "klocks (refresh_intena s) = klocks s"
  "envs (refresh_intena s) = envs s"
  "scheduler_status (refresh_intena s) = scheduler_status s"
  "cpu_state.more (refresh_intena s) = cpu_state.more s"
  by (simp_all add: refresh_intena_def)

lemma refresh_intena_nested: "ncli s \<noteq> 0 \<Longrightarrow> refresh_intena s = s"
  by (simp add: refresh_intena_def)

lemma cpu_ok_refresh_intena [simp]: "cpu_ok (refresh_intena s) = cpu_ok s"
  by (simp add: cpu_ok_def)

lemma push_pop:
  assumes "cpu_ok s"
  shows "popcli (pushcli s) = Some (refresh_intena s)"
  using assms
  by (auto simp: pushcli_def popcli_def cli_def sti_def refresh_intena_def cpu_ok_def Let_def)

lemma pushcli_sel [simp]:
  "ncli (pushcli s) = ncli s + 1"
  "eflags_IF (pushcli s) = False"
  "cpu_proc (pushcli s) = cpu_proc s"
  "klocks (pushcli s) = klocks s"
  "envs (pushcli s) = envs s"
  "scheduler_status (pushcli s) = scheduler_status s"
  "intena (pushcli s) = (if ncli s = 0 then eflags_IF s else intena s)"
  "cpu_state.more (pushcli s) = cpu_state.more s"
  by (simp_all add: pushcli_def cli_def Let_def)

lemma held_pushcli [simp]: "held l (pushcli s) = held l s"
  by (simp add: held_def)

lemma held_refresh [simp]: "held l (refresh_intena s) = held l s"
  by (simp add: held_def)

lemma cpu_ok_pushcli [simp]: "cpu_ok s \<Longrightarrow> cpu_ok (pushcli s)"
  by (simp add: cpu_ok_def)

lemma get_cpu_proc_eq: "cpu_ok s \<Longrightarrow> get_cpu_proc s = Some (cpu_proc s, refresh_intena s)"
  by (simp add: get_cpu_proc_def push_pop)

lemma holding_kspinlock_eq: "cpu_ok s \<Longrightarrow> holding_kspinlock l s = Some (held l s, refresh_intena s)"
  by (simp add: holding_kspinlock_def push_pop)

text \<open>
  Inside a critical section (\<open>ncli > 0\<close>) both are plain reads, with no effect at all.  The operations of
  the layers above test \<open>held\<close> and read \<open>cpu_proc\<close> directly.
\<close>

lemma reads_in_critical_section:
  assumes "cpu_ok s" "0 < ncli s"
  shows "get_cpu_proc s = Some (cpu_proc s, s)" "holding_kspinlock l s = Some (held l s, s)"
  using assms by (simp_all add: get_cpu_proc_eq holding_kspinlock_eq refresh_intena_nested)

lemma pushcli_refresh [simp]: "pushcli (refresh_intena s) = pushcli s"
  by (simp add: pushcli_def refresh_intena_def cli_def Let_def)

lemma lock_sel [simp]:
  "lk_locked free_lock = 0" "lk_cpu free_lock = None" "free_lock \<noteq> taken_lock"
  "lk_locked taken_lock = 1" "lk_cpu taken_lock = Some 0" "taken_lock \<noteq> free_lock"
  by (simp_all add: free_lock_def taken_lock_def)

lemma held_taken [simp]: "klocks s l = taken_lock \<Longrightarrow> held l s"
  by (simp add: held_def)

lemma held_free [simp]: "klocks s l = free_lock \<Longrightarrow> \<not> held l s"
  by (simp add: held_def)

text \<open>\<open>entered l s\<close> and \<open>left l s\<close>: the states after a successful acquire and release.\<close>

definition entered :: "lock_id \<Rightarrow> 'z cpu_state_scheme \<Rightarrow> 'z cpu_state_scheme" where
  "entered l s = (pushcli s)\<lparr>klocks := (klocks s)(l := taken_lock)\<rparr>"

definition left :: "lock_id \<Rightarrow> 'z cpu_state_scheme \<Rightarrow> 'z cpu_state_scheme" where
  "left l s = s\<lparr>klocks := (klocks s)(l := free_lock), ncli := ncli s - 1,
     eflags_IF := (ncli s = 1 \<and> intena s)\<rparr>"

lemma acquire_kspinlock_eq:
  assumes "cpu_ok s" "locks_ok s"
  shows "acquire_kspinlock l s = (if held l s then None else Some (entered l s))"
proof -
  from assms(2) consider "klocks s l = free_lock" | "klocks s l = taken_lock"
    by (auto simp: locks_ok_def)
  then show ?thesis
    using assms(1)
    by cases (simp_all add: acquire_kspinlock_def holding_kspinlock_eq get_cpu_proc_eq
      refresh_intena_nested cpu_ok_def entered_def taken_lock_def [symmetric])
qed

lemma cleared_lock: "k\<lparr>lk_cpu := None, lk_locked := 0\<rparr> = free_lock"
  by (cases k) (simp add: free_lock_def)

lemma release_kspinlock_eq:
  assumes "cpu_ok s" "held l s" "0 < ncli s"
  shows "release_kspinlock l s = Some (left l s)"
proof -
  have "\<not> eflags_IF s" using assms by (simp add: cpu_ok_def)
  moreover have "popcli (s\<lparr>klocks := (klocks s)(l := free_lock)\<rparr>) = Some (left l s)"
    using assms(3) calculation by (cases s) (simp add: popcli_def left_def sti_def Let_def)
  ultimately show ?thesis
    using assms by (simp add: release_kspinlock_def reads_in_critical_section get_cpu_proc_eq
      refresh_intena_nested cleared_lock cpu_ok_def)
qed

lemma release_kspinlock_None: "cpu_ok s \<Longrightarrow> \<not> held l s \<Longrightarrow> release_kspinlock l s = None"
  by (simp add: release_kspinlock_def holding_kspinlock_eq)

lemma entered_sel [simp]:
  "ncli (entered l s) = ncli s + 1"
  "eflags_IF (entered l s) = False"
  "intena (entered l s) = (if ncli s = 0 then eflags_IF s else intena s)"
  "cpu_proc (entered l s) = cpu_proc s"
  "klocks (entered l s) = (klocks s)(l := taken_lock)"
  "envs (entered l s) = envs s"
  "scheduler_status (entered l s) = scheduler_status s"
  "cpu_state.more (entered l s) = cpu_state.more s"
  by (simp_all add: entered_def)

lemma left_sel [simp]:
  "ncli (left l s) = ncli s - 1"
  "eflags_IF (left l s) = (ncli s = 1 \<and> intena s)"
  "intena (left l s) = intena s"
  "cpu_proc (left l s) = cpu_proc s"
  "klocks (left l s) = (klocks s)(l := free_lock)"
  "envs (left l s) = envs s"
  "scheduler_status (left l s) = scheduler_status s"
  "cpu_state.more (left l s) = cpu_state.more s"
  by (simp_all add: left_def)

lemma cpu_ok_entered [simp]: "cpu_ok s \<Longrightarrow> cpu_ok (entered l s)"
  by (simp add: cpu_ok_def)

lemma locks_ok_entered [simp]: "locks_ok s \<Longrightarrow> locks_ok (entered l s)"
  by (simp add: locks_ok_def)

lemma held_entered [simp]: "held l' (entered l s) \<longleftrightarrow> l' = l \<or> held l' s"
  by (auto simp: held_def)

lemma cpu_ok_left [simp]: "cpu_ok s \<Longrightarrow> 0 < ncli s \<Longrightarrow> cpu_ok (left l s)"
  by (auto simp: cpu_ok_def)

lemma locks_ok_left [simp]: "locks_ok s \<Longrightarrow> locks_ok (left l s)"
  by (simp add: locks_ok_def)

lemma held_left [simp]: "held l' (left l s) \<longleftrightarrow> l' \<noteq> l \<and> held l' s"
  by (auto simp: held_def)

lemma left_entered:
  assumes "cpu_ok s" "klocks s l = free_lock"
  shows "left l (entered l s) = refresh_intena s"
  using assms by (auto simp: left_def entered_def refresh_intena_def pushcli_def cli_def cpu_ok_def
      Let_def fun_upd_idem)

text \<open>
  \<open>pushcli\<close> and \<open>popcli\<close> are matched.  After \<open>n\<close> calls of \<open>pushcli\<close>, \<open>n\<close> calls of \<open>popcli\<close> succeed and
  restore the state: the interrupt flag is what it was, on or off, and only the saved copy \<open>intena\<close> may
  differ.  One more \<open>popcli\<close> at depth 0 panics.
\<close>

theorem pushcli_popcli_matched:
  assumes "cpu_ok s"
  shows "((\<lambda>r. Option.bind r popcli) ^^ n) (Some ((pushcli ^^ n) s)) =
      Some (if n = 0 then s else refresh_intena s) \<and>
    (ncli s = 0 \<longrightarrow> popcli s = None)"
proof
  show "((\<lambda>r. Option.bind r popcli) ^^ n) (Some ((pushcli ^^ n) s)) =
      Some (if n = 0 then s else refresh_intena s)"
    using assms
  proof (induction n arbitrary: s)
    case 0
    then show ?case by simp
  next
    case (Suc n)
    have "((\<lambda>r. Option.bind r popcli) ^^ Suc n) (Some ((pushcli ^^ Suc n) s)) =
        Option.bind (((\<lambda>r. Option.bind r popcli) ^^ n) (Some ((pushcli ^^ n) (pushcli s)))) popcli"
      by (simp add: funpow_swap1)
    also have "\<dots> = Option.bind (Some (pushcli s)) popcli"
    proof -
      have "0 < ncli (pushcli s)" using Suc.prems by (simp add: cpu_ok_def)
      then show ?thesis using Suc.IH [of "pushcli s"] Suc.prems by (simp add: refresh_intena_nested)
    qed
    finally show ?case using push_pop [OF Suc.prems] by simp
  qed
  show "ncli s = 0 \<longrightarrow> popcli s = None"
    by (auto simp: popcli_def assert_that_def)
qed

text \<open>
  A critical section.  Acquiring a lock that is free succeeds, with interrupts off and the lock held;
  acquiring it again inside panics; releasing it gives back the initial state, interrupt flag included;
  releasing a lock that is not held panics.
\<close>

theorem critical_section:
  assumes "cpu_ok s" "locks_ok s" "\<not> held l s"
  shows "\<exists>s1. acquire_kspinlock l s = Some s1 \<and> held l s1 \<and> \<not> eflags_IF s1 \<and>
    acquire_kspinlock l s1 = None \<and> release_kspinlock l s1 = Some (refresh_intena s) \<and>
    release_kspinlock l s = None"
proof -
  have f: "klocks s l = free_lock" using assms by (auto simp: locks_ok_def)
  have n: "0 < ncli (entered l s)" using assms(1) by (simp add: cpu_ok_def)
  show ?thesis
    using assms f n acquire_kspinlock_eq [of "entered l s" l] release_kspinlock_eq [of "entered l s" l]
    by (simp add: acquire_kspinlock_eq left_entered release_kspinlock_None)
qed

text \<open>A state as the kernel boots: interrupts on, no lock held, no environment in use.\<close>

definition null_ws :: WorkingSetElement where
  "null_ws = \<lparr>ws_virtual_address = 0, ws_empty = False, time_stamp = 0, sweeps_counter = 0\<rparr>"

definition null_env :: env where
  "null_env = \<lparr>env_id = 0, env_parent_id = 0, env_status = ENV_FREE, priority = 0, prog_name = [],
     env_page_directory = None, env_cr3 = 0, initNumStackPages = 0, kstack = 0, disk_env_pgdir = None,
     disk_env_pgdir_PA = 0, disk_env_tabledir = None, disk_env_tabledir_PA = 0,
     page_WS_max_size = 0, page_WS_list = [], page_last_WS_element = 0, referenceStreamList = [],
     prepagedVAs = [], ptr_pageWorkingSet = (\<lambda>_. null_ws), page_last_WS_index = 0, ptr_tws = (\<lambda>_. null_ws),
     table_last_WS_index = 0, ActiveList = [], SecondList = [], ActiveListSize = 0, SecondListSize = 0,
     percentage_of_WS_pages_to_be_removed = 0, tf_eip = 0, tf_esp = 0, nTicks = 0, pageFaultsCounter = 0, tableFaultsCounter = 0, freeingFullWSCounter = 0,
     freeingScarceMemCounter = 0, nModifiedPages = 0,
     nNotModifiedPages = 0, env_runs = 0, nPageIn = 0, nPageOut = 0, nNewPageAdded = 0, nClocks = 0\<rparr>"

definition cpu_boot :: cpu_state where
  "cpu_boot = \<lparr>eflags_IF = True, ncli = 0, intena = False, cpu_proc = None, cpu_cr3 = 0,
     scheduler_status = SCH_UNINITIALIZED, klocks = (\<lambda>_. free_lock), envs = (\<lambda>_. null_env)\<rparr>"

lemma cpu_boot_ok [simp]: "cpu_ok cpu_boot" "locks_ok cpu_boot" "\<not> held l cpu_boot" "ncli cpu_boot = 0"
  by (simp_all add: cpu_boot_def cpu_ok_def locks_ok_def held_def)

theorem pushcli_popcli_matched_witness:
  "((\<lambda>r. Option.bind r popcli) ^^ 3) (Some ((pushcli ^^ 3) cpu_boot)) = Some (refresh_intena cpu_boot) \<and>
   popcli cpu_boot = None"
  using pushcli_popcli_matched [of cpu_boot 3] by (simp only: cpu_boot_ok) simp

theorem critical_section_witness:
  "\<exists>s1. acquire_kspinlock QLOCK cpu_boot = Some s1 \<and> held QLOCK s1 \<and> \<not> eflags_IF s1 \<and>
    acquire_kspinlock QLOCK s1 = None \<and> release_kspinlock QLOCK s1 = Some (refresh_intena cpu_boot) \<and>
    release_kspinlock QLOCK cpu_boot = None"
  by (rule critical_section) simp_all

end
