(* ===== verification/FOS_Memory.thy ===== *)
theory FOS_Memory
  imports FOS_Cpu
begin

unbundle bit_operations_syntax

text \<open>
  Physical frames, page tables and the functions that map and unmap pages
  (\<open>kern/mem/memory_manager.c\<close>, \<open>kern/mem/paging_helpers.c\<close>).

  Physical memory is a function from frame numbers to the 1024 words of a frame; a \<open>FrameInfo\<close> pointer
  is the number of its frame (\<open>ptr - frames_info\<close>).  A pointer to a page directory or a page table is
  represented by the number of the frame it points to; the null pointer is \<open>None\<close>.  The translation
  look-aside buffer is a partial function from page numbers to cached entries.

  Both settings of the compile-time switch \<open>USE_KHEAP\<close> are modelled: it is the field \<open>use_kheap\<close>.
  With the kernel heap, a missing page table is created by \<open>create_page_table\<close>, which calls \<open>kmalloc\<close>,
  which maps pages of the kernel heap with \<open>map_frame\<close> again; to break the knot \<open>map_frame_gen\<close> takes the
  operation that creates the table as an argument, and \<open>FOS_Kheap\<close> instantiates it.
\<close>

section \<open>State\<close>

record FrameInfo =
  kheap_mapped_va :: u32
  references :: u16
  fi_proc :: "env_ptr option"
  isBuffered :: bool

record mem_state = cpu_state +
  use_kheap :: bool
  number_of_frames :: u32
  frames_info :: "frame \<Rightarrow> FrameInfo"
  free_frame_list :: "frame list"
  modified_frame_list :: "frame list"
  phys :: "frame \<Rightarrow> u32 \<Rightarrow> u32"
  ptr_page_directory :: frame
  tlb :: "u32 \<Rightarrow> u32 option"

definition null_frame_info :: FrameInfo where
  "null_frame_info = \<lparr>kheap_mapped_va = 0, references = 0, fi_proc = None, isBuffered = False\<rparr>"

text \<open>Assignment of one word of physical memory, and \<open>memset(p, 0, PAGE_SIZE)\<close> on a frame.\<close>

definition write_phys :: "frame \<Rightarrow> u32 \<Rightarrow> u32 \<Rightarrow> 'z mem_state_scheme \<Rightarrow> 'z mem_state_scheme" where
  "write_phys f i v s = s\<lparr>phys := (phys s)(f := (phys s f)(i := v))\<rparr>"

definition clear_frame :: "frame \<Rightarrow> 'z mem_state_scheme \<Rightarrow> 'z mem_state_scheme" where
  "clear_frame f s = s\<lparr>phys := (phys s)(f := (\<lambda>_. 0))\<rparr>"

definition fi_upd :: "frame \<Rightarrow> (FrameInfo \<Rightarrow> FrameInfo) \<Rightarrow> 'z mem_state_scheme \<Rightarrow> 'z mem_state_scheme" where
  "fi_upd f g s = s\<lparr>frames_info := (frames_info s)(f := g (frames_info s f))\<rparr>"

section \<open>Addresses\<close>

definition to_frame_number :: "frame \<Rightarrow> u32" where
  "to_frame_number f = of_nat f"

definition to_physical_address :: "frame \<Rightarrow> u32" where
  "to_physical_address f = push_bit 12 (to_frame_number f)"

definition to_frame_info :: "u32 \<Rightarrow> 'z mem_state_scheme \<Rightarrow> frame option" where
  "to_frame_info pa s = (if PPN pa \<ge> number_of_frames s then None else Some (unat (PPN pa)))"

definition STATIC_KERNEL_PHYSICAL_ADDRESS :: "u32 \<Rightarrow> u32 option" where
  "STATIC_KERNEL_PHYSICAL_ADDRESS kva = (if kva < KERNEL_BASE then None else Some (kva - KERNEL_BASE))"

definition STATIC_KERNEL_VIRTUAL_ADDRESS :: "u32 \<Rightarrow> 'z mem_state_scheme \<Rightarrow> u32 option" where
  "STATIC_KERNEL_VIRTUAL_ADDRESS pa s = (if PPN pa \<ge> number_of_frames s then None else Some (pa + KERNEL_BASE))"

definition CONSTRUCT_ENTRY :: "u32 \<Rightarrow> u32 \<Rightarrow> u32" where
  "CONSTRUCT_ENTRY phys_frame_address permissions = phys_frame_address OR permissions"

definition CHECK_IF_KERNEL_ADDRESS :: "u32 \<Rightarrow> bool" where
  "CHECK_IF_KERNEL_ADDRESS va \<longleftrightarrow> va \<ge> USER_TOP \<and> va \<le> 0xFFFFFFFF"

section \<open>The translation look-aside buffer\<close>

definition invlpg :: "u32 \<Rightarrow> 'z mem_state_scheme \<Rightarrow> 'z mem_state_scheme" where
  "invlpg va s = s\<lparr>tlb := (tlb s)(PPN va := None)\<rparr>"

definition tlbflush :: "'z mem_state_scheme \<Rightarrow> 'z mem_state_scheme" where
  "tlbflush s = s\<lparr>tlb := (\<lambda>_. None)\<rparr>"

definition tlb_invalidate :: "frame option \<Rightarrow> u32 \<Rightarrow> 'z mem_state_scheme \<Rightarrow> 'z mem_state_scheme" where
  "tlb_invalidate dir va s = (case cpu_proc s of
     None \<Rightarrow> invlpg va s
   | Some e \<Rightarrow> if env_page_directory (envs s e) = dir then invlpg va s else s)"

section \<open>Free frames\<close>

definition initialize_frame_info :: "frame \<Rightarrow> 'z mem_state_scheme \<Rightarrow> 'z mem_state_scheme" where
  "initialize_frame_info f = fi_upd f (\<lambda>_. null_frame_info)"

text \<open>
  The bracket \<open>lock_already_held = holding_kspinlock(l); if (!lock_already_held) acquire(l) ... release(l)\<close>
  that several functions put around their body.
\<close>

definition with_lock ::
  "lock_id \<Rightarrow> ('z cpu_state_scheme \<Rightarrow> ('r \<times> 'z cpu_state_scheme) option) \<Rightarrow>
   'z cpu_state_scheme \<Rightarrow> ('r \<times> 'z cpu_state_scheme) option" where
  "with_lock l body s =
     (if held l s then body s
      else do {
        s1 \<leftarrow> acquire_kspinlock l s;
        (r, s2) \<leftarrow> body s1;
        s3 \<leftarrow> release_kspinlock l s2;
        Some (r, s3) })"

text \<open>\<open>allocate_frame\<close> returns 0 whenever it returns, so the result is the frame alone.\<close>

definition allocate_frame :: "'z mem_state_scheme \<Rightarrow> (frame \<times> 'z mem_state_scheme) option" where
  "allocate_frame = with_lock MFLLOCK (\<lambda>s.
     case first_of (free_frame_list s) None of
       None \<Rightarrow> None
     | Some f \<Rightarrow> do {
         l \<leftarrow> remove_l f (free_frame_list s);
         Some (f, initialize_frame_info f (s\<lparr>free_frame_list := l\<rparr>)) })"

definition free_frame :: "frame \<Rightarrow> 'z mem_state_scheme \<Rightarrow> (unit \<times> 'z mem_state_scheme) option" where
  "free_frame f = with_lock MFLLOCK (\<lambda>s. do {
     let s1 = initialize_frame_info f s;
     l \<leftarrow> insert_l f (free_frame_list s1);
     Some ((), s1\<lparr>free_frame_list := l\<rparr>) })"

definition decrement_references :: "frame \<Rightarrow> 'z mem_state_scheme \<Rightarrow> (unit \<times> 'z mem_state_scheme) option" where
  "decrement_references f s =
     (let s1 = fi_upd f (\<lambda>fi. fi\<lparr>references := references fi - 1\<rparr>) s
      in if references (frames_info s1 f) = 0 then free_frame f s1 else Some ((), s1))"

text \<open>
  \<open>initialize_paging\<close>: \<open>ranges\<close> are the frame numbers below the I/O hole and above the kernel; the
  argument is the first frame after the kernel's static data (\<open>ROUNDUP\<close> of the physical address of
  \<open>ptr_free_mem\<close>, divided by the page size).  The first 1024 bytes of the zero page and of the temporary
  page (frames 1 and 2) are cleared.  The last call, \<open>initialize_disk_page_file\<close>, belongs to the page file.
\<close>

primrec insert_free_frames :: "frame list \<Rightarrow> 'z mem_state_scheme \<Rightarrow> 'z mem_state_scheme option" where
  "insert_free_frames [] s = Some s"
| "insert_free_frames (f # fs) s = do {
     let s1 = initialize_frame_info f s;
     l \<leftarrow> insert_l f (free_frame_list s1);
     insert_free_frames fs (s1\<lparr>free_frame_list := l\<rparr>) }"

definition set_used_frames :: "frame list \<Rightarrow> 'z mem_state_scheme \<Rightarrow> 'z mem_state_scheme" where
  "set_used_frames fs s = foldr (\<lambda>f. fi_upd f (\<lambda>fi. fi\<lparr>references := 1\<rparr>)) fs s"

definition initialize_paging :: "nat \<Rightarrow> 'z mem_state_scheme \<Rightarrow> 'z mem_state_scheme option" where
  "initialize_paging kernel_end s = do {
     let s1 = init_kspinlock MFLLOCK (s\<lparr>free_frame_list := [], modified_frame_list := []\<rparr>);
     let s2 = set_used_frames [0, 1, 2] s1;
     let s2 = s2\<lparr>phys := (phys s2)(1 := (\<lambda>i. if i < 256 then 0 else phys s2 1 i),
                                 2 := (\<lambda>i. if i < 256 then 0 else phys s2 2 i))\<rparr>;
     s3 \<leftarrow> insert_free_frames [3..<0xA0] s2;
     let s4 = set_used_frames [0xA0..<0x100] s3;
     let s5 = set_used_frames [0x100..<kernel_end] s4;
     insert_free_frames [kernel_end..<unat (number_of_frames s5)] s5 }"

section \<open>Page tables\<close>

datatype table_status = TABLE_IN_MEMORY | TABLE_NOT_EXIST

text \<open>
  The pointer that \<open>kheap_virtual_address(pa)\<close> yields for the frame at \<open>pa\<close>, as used on a page table:
  null when the frame has no kernel heap page.
\<close>

definition kheap_table_ptr :: "u32 \<Rightarrow> 'z mem_state_scheme \<Rightarrow> frame option" where
  "kheap_table_ptr pa s =
     (let f = unat (pa div PAGE_SIZE)
      in if kheap_mapped_va (frames_info s f) = 0 then None else Some f)"

text \<open>
  A table that exists but is not in memory makes the code call \<open>fault_handler(NULL)\<close>, whose first use of
  its argument reads through the null pointer.
\<close>

definition get_page_table ::
  "frame \<Rightarrow> u32 \<Rightarrow> 'z mem_state_scheme \<Rightarrow> (table_status \<times> frame option) option" where
  "get_page_table dir va s =
     (let pde = phys s dir (PDX va)
      in if pde AND PERM_PRESENT = PERM_PRESENT
         then (if use_kheap s \<and> \<not> CHECK_IF_KERNEL_ADDRESS va
               then Some (TABLE_IN_MEMORY, kheap_table_ptr (EXTRACT_ADDRESS pde) s)
               else do {
                 kva \<leftarrow> STATIC_KERNEL_VIRTUAL_ADDRESS (EXTRACT_ADDRESS pde) s;
                 Some (TABLE_IN_MEMORY, Some (unat (PPN (EXTRACT_ADDRESS pde)))) })
         else if pde \<noteq> 0 then None
         else Some (TABLE_NOT_EXIST, None))"

definition static_cpt :: "frame \<Rightarrow> u32 \<Rightarrow> 'z mem_state_scheme \<Rightarrow> (frame option \<times> 'z mem_state_scheme) option" where
  "static_cpt dir va s = do {
     (f, s1) \<leftarrow> allocate_frame s;
     let pa = to_physical_address f;
     kva \<leftarrow> STATIC_KERNEL_VIRTUAL_ADDRESS pa s1;
     let s2 = fi_upd f (\<lambda>fi. fi\<lparr>references := 1\<rparr>) s1;
     let s3 = write_phys dir (PDX va) (CONSTRUCT_ENTRY pa (PERM_PRESENT OR PERM_USER OR PERM_WRITEABLE)) s2;
     Some (Some f, tlbflush (clear_frame f s3)) }"

definition get_frame_info ::
  "frame \<Rightarrow> u32 \<Rightarrow> 'z mem_state_scheme \<Rightarrow> (frame option \<times> frame option) option" where
  "get_frame_info dir va s = do {
     (r, tbl) \<leftarrow> get_page_table dir va s;
     case tbl of
       None \<Rightarrow> Some (None, None)
     | Some t \<Rightarrow>
         (let pte = phys s t (PTX va)
          in if pte AND NOT 0xFFF \<noteq> 0 \<or> pte AND (PERM_PRESENT OR PERM_BUFFERED) \<noteq> 0
             then do { f \<leftarrow> to_frame_info (EXTRACT_ADDRESS pte) s; Some (Some f, Some t) }
             else Some (None, Some t)) }"

definition unmap_frame :: "frame \<Rightarrow> u32 \<Rightarrow> 'z mem_state_scheme \<Rightarrow> (unit \<times> 'z mem_state_scheme) option" where
  "unmap_frame dir va s = do {
     (fi, tbl) \<leftarrow> get_frame_info dir va s;
     case (fi, tbl) of
       (Some f, Some t) \<Rightarrow> do {
         (u, s1) \<leftarrow> decrement_references f s;
         let pte_available_bits = phys s1 t (PTX va) AND PERM_AVAILABLE;
         let s2 = write_phys t (PTX va) pte_available_bits s1;
         Some ((), tlb_invalidate (Some dir) va s2) }
     | _ \<Rightarrow> Some ((), s) }"

text \<open>\<open>map_frame\<close>, with the creation of a missing table as the argument \<open>cpt\<close>; it returns 0 whenever it
  returns.\<close>

definition map_frame_gen ::
  "(frame \<Rightarrow> u32 \<Rightarrow> 'z mem_state_scheme \<Rightarrow> (frame option \<times> 'z mem_state_scheme) option) \<Rightarrow>
   frame \<Rightarrow> frame \<Rightarrow> u32 \<Rightarrow> u32 \<Rightarrow> 'z mem_state_scheme \<Rightarrow> (int \<times> 'z mem_state_scheme) option" where
  "map_frame_gen cpt dir f va perm s = do {
     let physical_address = to_physical_address f;
     (r, tbl) \<leftarrow> get_page_table dir va s;
     (tbl, s1) \<leftarrow> (if r = TABLE_NOT_EXIST then cpt dir va s else Some (tbl, s));
     t \<leftarrow> tbl;
     let pte = phys s1 t (PTX va);
     if pte AND PERM_PRESENT = PERM_PRESENT \<and> EXTRACT_ADDRESS pte = physical_address
     then Some (0, s1)
     else do {
       (u, s2) \<leftarrow> (if pte AND PERM_PRESENT = PERM_PRESENT then unmap_frame dir va s1 else Some ((), s1));
       let s3 = fi_upd f (\<lambda>fi. fi\<lparr>references := references fi + 1\<rparr>) s2;
       let pte_available_bits = phys s3 t (PTX va) AND PERM_AVAILABLE;
       let s4 = write_phys t (PTX va)
                  (CONSTRUCT_ENTRY physical_address (pte_available_bits OR perm OR PERM_PRESENT)) s3;
       Some (0, fi_upd f (\<lambda>fi. fi\<lparr>kheap_mapped_va := va\<rparr>) s4) } }"

definition loadtime_map_frame_gen ::
  "(frame \<Rightarrow> u32 \<Rightarrow> 'z mem_state_scheme \<Rightarrow> (frame option \<times> 'z mem_state_scheme) option) \<Rightarrow>
   frame \<Rightarrow> frame \<Rightarrow> u32 \<Rightarrow> u32 \<Rightarrow> 'z mem_state_scheme \<Rightarrow> (int \<times> 'z mem_state_scheme) option" where
  "loadtime_map_frame_gen cpt dir f va perm s = do {
     let physical_address = to_physical_address f;
     let pde = phys s dir (PDX va);
     tbl \<leftarrow> (if use_kheap s \<and> \<not> CHECK_IF_KERNEL_ADDRESS va
             then Some (kheap_table_ptr (EXTRACT_ADDRESS pde) s)
             else do {
               kva \<leftarrow> STATIC_KERNEL_VIRTUAL_ADDRESS (EXTRACT_ADDRESS pde) s;
               Some (Some (unat (PPN (EXTRACT_ADDRESS pde)))) });
     (tbl, s1) \<leftarrow> (if pde = 0 then cpt dir va s else Some (tbl, s));
     t \<leftarrow> tbl;
     let s2 = fi_upd f (\<lambda>fi. fi\<lparr>references := references fi + 1\<rparr>) s1;
     Some (0, write_phys t (PTX va) (CONSTRUCT_ENTRY physical_address (perm OR PERM_PRESENT)) s2) }"

record freeFramesCounters =
  freeBuffered :: nat
  freeNotBuffered :: nat
  modified :: nat

definition calculate_available_frames ::
  "'z mem_state_scheme \<Rightarrow> (freeFramesCounters \<times> 'z mem_state_scheme) option" where
  "calculate_available_frames = with_lock MFLLOCK (\<lambda>s.
     Some (\<lparr>freeBuffered = length (filter (\<lambda>f. isBuffered (frames_info s f)) (free_frame_list s)),
            freeNotBuffered = length (filter (\<lambda>f. \<not> isBuffered (frames_info s f)) (free_frame_list s)),
            modified = length (modified_frame_list s)\<rparr>, s))"

section \<open>Page table entries\<close>

definition pt_set_page_permissions ::
  "frame \<Rightarrow> u32 \<Rightarrow> u32 \<Rightarrow> u32 \<Rightarrow> 'z mem_state_scheme \<Rightarrow> (unit \<times> 'z mem_state_scheme) option" where
  "pt_set_page_permissions dir va to_set to_clear s = do {
     (r, tbl) \<leftarrow> get_page_table dir va s;
     t \<leftarrow> tbl;
     let s1 = write_phys t (PTX va) (phys s t (PTX va) OR to_set) s;
     let s2 = write_phys t (PTX va) (phys s1 t (PTX va) AND NOT to_clear) s1;
     Some ((), tlb_invalidate (Some dir) va s2) }"

text \<open>\<open>-1\<close> when the page has no table.\<close>

definition pt_get_page_permissions :: "frame \<Rightarrow> u32 \<Rightarrow> 'z mem_state_scheme \<Rightarrow> int option" where
  "pt_get_page_permissions dir va s = do {
     (r, tbl) \<leftarrow> get_page_table dir va s;
     case tbl of
       None \<Rightarrow> Some (-1)
     | Some t \<Rightarrow> Some (uint (phys s t (PTX va) AND 0xFFF)) }"

definition num_of_references :: "u32 \<Rightarrow> 'z mem_state_scheme \<Rightarrow> u16 option" where
  "num_of_references pa s = map_option (\<lambda>f. references (frames_info s f)) (to_frame_info pa s)"

text \<open>
  \<open>alloc_page\<close>: \<open>allocate_frame\<close> and \<open>map_frame\<close> return 0 whenever they return, so the two branches that
  give \<open>E_NO_MEM\<close> are never taken; running out of frames panics inside \<open>allocate_frame\<close>.  Clearing the
  page is a \<open>memset\<close> through the address just mapped, hence it clears the frame; the processor runs with
  \<open>CR0_WP\<close> (\<open>turn_on_paging\<close>), so on a page mapped without \<open>PERM_WRITEABLE\<close> the kernel's own write faults and
  \<open>fault_handler\<close> panics (violation of access rights).
\<close>

definition alloc_page_gen ::
  "(frame \<Rightarrow> u32 \<Rightarrow> 'z mem_state_scheme \<Rightarrow> (frame option \<times> 'z mem_state_scheme) option) \<Rightarrow>
   frame \<Rightarrow> u32 \<Rightarrow> u32 \<Rightarrow> bool \<Rightarrow> 'z mem_state_scheme \<Rightarrow> (int \<times> 'z mem_state_scheme) option" where
  "alloc_page_gen cpt dir va perms set_to_zero s = do {
     (fi, tbl) \<leftarrow> get_frame_info dir va s;
     if fi \<noteq> None then Some (1, s)
     else do {
       (f, s1) \<leftarrow> allocate_frame s;
       (ret, s2) \<leftarrow> map_frame_gen cpt dir f va perms s1;
       if ret = E_NO_MEM then do { (u, s3) \<leftarrow> free_frame f s2; Some (E_NO_MEM, s3) }
       else if \<not> set_to_zero then Some (0, s2)
       else if perms AND PERM_WRITEABLE = 0 then None
       else Some (0, clear_frame f s2) } }"

definition pd_is_table_used :: "frame \<Rightarrow> u32 \<Rightarrow> 'z mem_state_scheme \<Rightarrow> u32" where
  "pd_is_table_used dir va s = (if phys s dir (PDX va) AND PERM_USED = PERM_USED then 1 else 0)"

definition pd_set_table_unused :: "frame \<Rightarrow> u32 \<Rightarrow> 'z mem_state_scheme \<Rightarrow> 'z mem_state_scheme" where
  "pd_set_table_unused dir va s =
     tlb_invalidate None va (write_phys dir (PDX va) (phys s dir (PDX va) AND NOT PERM_USED) s)"

definition pd_clear_page_dir_entry :: "frame \<Rightarrow> u32 \<Rightarrow> 'z mem_state_scheme \<Rightarrow> 'z mem_state_scheme" where
  "pd_clear_page_dir_entry dir va s = tlbflush (write_phys dir (PDX va) 0 s)"

section \<open>What the primitive updates change\<close>

lemma write_phys_sel [simp]:
  "phys (write_phys f i v s) = (phys s)(f := (phys s f)(i := v))"
  "frames_info (write_phys f i v s) = frames_info s"
  "free_frame_list (write_phys f i v s) = free_frame_list s"
  "number_of_frames (write_phys f i v s) = number_of_frames s"
  "use_kheap (write_phys f i v s) = use_kheap s"
  "ptr_page_directory (write_phys f i v s) = ptr_page_directory s"
  "klocks (write_phys f i v s) = klocks s" "envs (write_phys f i v s) = envs s"
  "cpu_proc (write_phys f i v s) = cpu_proc s" "ncli (write_phys f i v s) = ncli s"
  "eflags_IF (write_phys f i v s) = eflags_IF s" "tlb (write_phys f i v s) = tlb s"
  by (simp_all add: write_phys_def)

lemma clear_frame_sel [simp]:
  "phys (clear_frame f s) = (phys s)(f := (\<lambda>_. 0))"
  "frames_info (clear_frame f s) = frames_info s"
  "free_frame_list (clear_frame f s) = free_frame_list s"
  "number_of_frames (clear_frame f s) = number_of_frames s"
  "use_kheap (clear_frame f s) = use_kheap s"
  "ptr_page_directory (clear_frame f s) = ptr_page_directory s"
  "klocks (clear_frame f s) = klocks s" "envs (clear_frame f s) = envs s"
  "cpu_proc (clear_frame f s) = cpu_proc s" "ncli (clear_frame f s) = ncli s"
  "eflags_IF (clear_frame f s) = eflags_IF s" "tlb (clear_frame f s) = tlb s"
  by (simp_all add: clear_frame_def)

lemma fi_upd_sel [simp]:
  "frames_info (fi_upd f g s) = (frames_info s)(f := g (frames_info s f))"
  "phys (fi_upd f g s) = phys s"
  "free_frame_list (fi_upd f g s) = free_frame_list s"
  "number_of_frames (fi_upd f g s) = number_of_frames s"
  "use_kheap (fi_upd f g s) = use_kheap s"
  "ptr_page_directory (fi_upd f g s) = ptr_page_directory s"
  "klocks (fi_upd f g s) = klocks s" "envs (fi_upd f g s) = envs s"
  "cpu_proc (fi_upd f g s) = cpu_proc s" "ncli (fi_upd f g s) = ncli s"
  "eflags_IF (fi_upd f g s) = eflags_IF s" "tlb (fi_upd f g s) = tlb s"
  by (simp_all add: fi_upd_def)

lemma tlb_ops_sel [simp]:
  "phys (tlb_invalidate d va s) = phys s" "phys (tlbflush s) = phys s"
  "frames_info (tlb_invalidate d va s) = frames_info s" "frames_info (tlbflush s) = frames_info s"
  "free_frame_list (tlb_invalidate d va s) = free_frame_list s" "free_frame_list (tlbflush s) = free_frame_list s"
  "number_of_frames (tlb_invalidate d va s) = number_of_frames s" "number_of_frames (tlbflush s) = number_of_frames s"
  "use_kheap (tlb_invalidate d va s) = use_kheap s" "use_kheap (tlbflush s) = use_kheap s"
  "ptr_page_directory (tlb_invalidate d va s) = ptr_page_directory s" "ptr_page_directory (tlbflush s) = ptr_page_directory s"
  "klocks (tlb_invalidate d va s) = klocks s" "klocks (tlbflush s) = klocks s"
  "envs (tlb_invalidate d va s) = envs s" "envs (tlbflush s) = envs s"
  "cpu_proc (tlb_invalidate d va s) = cpu_proc s" "cpu_proc (tlbflush s) = cpu_proc s"
  "ncli (tlb_invalidate d va s) = ncli s" "ncli (tlbflush s) = ncli s"
  "eflags_IF (tlb_invalidate d va s) = eflags_IF s" "eflags_IF (tlbflush s) = eflags_IF s"
  by (auto simp: tlb_invalidate_def invlpg_def tlbflush_def split: option.splits)

text \<open>
  The interrupt nesting and the locks are only changed by the locking operations, so the layers above
  carry \<open>cpu_ok\<close> and \<open>locks_ok\<close> along through these.
\<close>

lemma cpu_ok_cong: "ncli s' = ncli s \<Longrightarrow> eflags_IF s' = eflags_IF s \<Longrightarrow> cpu_ok s' = cpu_ok s"
  by (simp add: cpu_ok_def)

lemma locks_ok_cong: "klocks s' = klocks s \<Longrightarrow> locks_ok s' = locks_ok s"
  by (simp add: locks_ok_def)

lemma held_cong: "klocks s' = klocks s \<Longrightarrow> held l s' = held l s"
  by (simp add: held_def)

lemma mem_sel_locking [simp]:
  "phys (entered l s) = phys s" "phys (left l s) = phys s" "phys (refresh_intena s) = phys s"
  "frames_info (entered l s) = frames_info s" "frames_info (left l s) = frames_info s"
  "frames_info (refresh_intena s) = frames_info s"
  "free_frame_list (entered l s) = free_frame_list s" "free_frame_list (left l s) = free_frame_list s"
  "free_frame_list (refresh_intena s) = free_frame_list s"
  "number_of_frames (entered l s) = number_of_frames s" "number_of_frames (left l s) = number_of_frames s"
  "number_of_frames (refresh_intena s) = number_of_frames s"
  "use_kheap (entered l s) = use_kheap s" "use_kheap (left l s) = use_kheap s"
  "use_kheap (refresh_intena s) = use_kheap s"
  "ptr_page_directory (entered l s) = ptr_page_directory s" "ptr_page_directory (left l s) = ptr_page_directory s"
  "ptr_page_directory (refresh_intena s) = ptr_page_directory s"
  "tlb (entered l s) = tlb s" "tlb (left l s) = tlb s" "tlb (refresh_intena s) = tlb s"
  "modified_frame_list (entered l s) = modified_frame_list s"
  by (simp_all add: entered_def left_def refresh_intena_def pushcli_def cli_def Let_def)

text \<open>
  \<open>with_lock\<close> around a body that leaves locks and nesting alone does what the body does, and gives the
  locks back as they were.
\<close>

definition cpu_same :: "'z cpu_state_scheme \<Rightarrow> 'z cpu_state_scheme \<Rightarrow> bool" where
  "cpu_same s s' \<longleftrightarrow> ncli s' = ncli s \<and> eflags_IF s' = eflags_IF s \<and> klocks s' = klocks s \<and>
     cpu_proc s' = cpu_proc s \<and> envs s' = envs s \<and> scheduler_status s' = scheduler_status s"

lemma cpu_same_refl [simp]: "cpu_same s s"
  by (simp add: cpu_same_def)

lemma cpu_same_trans: "cpu_same s s1 \<Longrightarrow> cpu_same s1 s2 \<Longrightarrow> cpu_same s s2"
  by (simp add: cpu_same_def)

lemma cpu_same_ok: "cpu_same s s' \<Longrightarrow> cpu_ok s \<Longrightarrow> cpu_ok s'" "cpu_same s s' \<Longrightarrow> locks_ok s \<Longrightarrow> locks_ok s'"
  "cpu_same s s' \<Longrightarrow> held l s' = held l s"
  by (simp_all add: cpu_same_def cpu_ok_def locks_ok_def held_def)

text \<open>\<open>mem_static\<close>: the configuration, and everything the layers above add to the state, is unchanged.\<close>

definition mem_static :: "'z mem_state_scheme \<Rightarrow> 'z mem_state_scheme \<Rightarrow> bool" where
  "mem_static s s' \<longleftrightarrow> number_of_frames s' = number_of_frames s \<and> use_kheap s' = use_kheap s \<and>
     ptr_page_directory s' = ptr_page_directory s \<and> modified_frame_list s' = modified_frame_list s \<and>
     mem_state.more s' = mem_state.more s"

lemma mem_static_refl [simp]: "mem_static s s"
  by (simp add: mem_static_def)

lemma mem_static_trans: "mem_static s s1 \<Longrightarrow> mem_static s1 s2 \<Longrightarrow> mem_static s s2"
  by (simp add: mem_static_def)

lemma mem_static_simps [simp]:
  "mem_static s (write_phys f i v s') = mem_static s s'"
  "mem_static s (clear_frame f s') = mem_static s s'"
  "mem_static s (fi_upd f g s') = mem_static s s'"
  "mem_static s (tlb_invalidate d va s') = mem_static s s'"
  "mem_static s (tlbflush s') = mem_static s s'"
  "mem_static s (entered l s') = mem_static s s'"
  "mem_static s (left l s') = mem_static s s'"
  "mem_static s (refresh_intena s') = mem_static s s'"
  "mem_static s (s'\<lparr>free_frame_list := ff\<rparr>) = mem_static s s'"
  by (simp_all add: mem_static_def write_phys_def clear_frame_def fi_upd_def tlb_invalidate_def invlpg_def
      tlbflush_def entered_def left_def refresh_intena_def pushcli_def cli_def Let_def split: option.splits)

lemma cpu_same_simps [simp]:
  "cpu_same s (write_phys f i v s') = cpu_same s s'"
  "cpu_same s (clear_frame f s') = cpu_same s s'"
  "cpu_same s (fi_upd f g s') = cpu_same s s'"
  "cpu_same s (tlb_invalidate d va s') = cpu_same s s'"
  "cpu_same s (tlbflush s') = cpu_same s s'"
  "cpu_same s (refresh_intena s') = cpu_same s s'"
  "cpu_same s (s'\<lparr>free_frame_list := ff\<rparr>) = cpu_same s s'"
  by (simp_all add: cpu_same_def write_phys_def clear_frame_def fi_upd_def tlb_invalidate_def invlpg_def
      tlbflush_def split: option.splits)

lemma with_lock_body:
  assumes "cpu_ok s" "locks_ok s"
    and "body (if held l s then s else entered l s) = Some (r, b)"
    and "cpu_same (if held l s then s else entered l s) b"
    and "intena b = intena (if held l s then s else entered l s)"
  shows "\<exists>s'. with_lock l body s = Some (r, s') \<and> cpu_same s s' \<and>
    s' = (if held l s then b else left l b)"
proof (cases "held l s")
  case True
  with assms show ?thesis by (simp add: with_lock_def)
next
  case False
  then have f: "klocks s l = free_lock" using assms(2) by (auto simp: locks_ok_def)
  have c: "cpu_same (entered l s) b" "intena b = intena (entered l s)" using assms(4,5) False by simp_all
  have "cpu_ok b" "held l b" "0 < ncli b"
    using assms(1) cpu_same_ok [OF c(1)] c(1) by (simp_all add: cpu_same_def cpu_ok_def)
  then have "release_kspinlock l b = Some (left l b)" by (rule release_kspinlock_eq)
  moreover have "cpu_same s (left l b)"
    using c f assms(1) by (auto simp: cpu_same_def cpu_ok_def fun_upd_idem)
  ultimately show ?thesis
    using False assms by (simp add: with_lock_def acquire_kspinlock_eq)
qed

lemma allocate_frame_Cons:
  assumes "cpu_ok s" "locks_ok s" "free_frame_list s = f # fs"
  shows "\<exists>s'. allocate_frame s = Some (f, s') \<and> cpu_same s s' \<and> mem_static s s' \<and>
    free_frame_list s' = fs \<and> frames_info s' = (frames_info s)(f := null_frame_info) \<and>
    phys s' = phys s \<and> tlb s' = tlb s"
proof -
  let ?e = "if held MFLLOCK s then s else entered MFLLOCK s"
  let ?b = "initialize_frame_info f (?e\<lparr>free_frame_list := fs\<rparr>)"
  have "free_frame_list ?e = f # fs" using assms(3) by simp
  then have "(case first_of (free_frame_list ?e) None of None \<Rightarrow> None
     | Some f \<Rightarrow> do { l \<leftarrow> remove_l f (free_frame_list ?e);
         Some (f, initialize_frame_info f (?e\<lparr>free_frame_list := l\<rparr>)) }) = Some (f, ?b)"
    by (simp add: remove_l_def)
  moreover have "cpu_same ?e ?b" "intena ?b = intena ?e"
    by (simp_all add: initialize_frame_info_def) (simp add: fi_upd_def)
  ultimately have "\<exists>s'. allocate_frame s = Some (f, s') \<and> cpu_same s s' \<and>
      s' = (if held MFLLOCK s then ?b else left MFLLOCK ?b)"
    unfolding allocate_frame_def using assms(1,2) by (intro with_lock_body) auto
  then show ?thesis by (auto simp: initialize_frame_info_def)
qed

lemma allocate_frame_Nil:
  assumes "cpu_ok s" "locks_ok s" "free_frame_list s = []"
  shows "allocate_frame s = None"
  using assms by (simp add: allocate_frame_def with_lock_def acquire_kspinlock_eq)

lemma free_frame_new:
  assumes "cpu_ok s" "locks_ok s" "f \<notin> set (free_frame_list s)"
  shows "\<exists>s'. free_frame f s = Some ((), s') \<and> cpu_same s s' \<and> mem_static s s' \<and>
    free_frame_list s' = f # free_frame_list s \<and> frames_info s' = (frames_info s)(f := null_frame_info) \<and>
    phys s' = phys s \<and> tlb s' = tlb s"
proof -
  let ?e = "if held MFLLOCK s then s else entered MFLLOCK s"
  let ?b = "(initialize_frame_info f ?e)\<lparr>free_frame_list := f # free_frame_list s\<rparr>"
  have "do { let s1 = initialize_frame_info f ?e; l \<leftarrow> insert_l f (free_frame_list s1);
      Some ((), s1\<lparr>free_frame_list := l\<rparr>) } = Some ((), ?b)"
    using assms(3) by (simp add: insert_l_def initialize_frame_info_def)
  moreover have "cpu_same ?e ?b" "intena ?b = intena ?e"
    by (simp_all add: initialize_frame_info_def) (simp add: fi_upd_def)
  ultimately have "\<exists>s'. free_frame f s = Some ((), s') \<and> cpu_same s s' \<and>
      s' = (if held MFLLOCK s then ?b else left MFLLOCK ?b)"
    unfolding free_frame_def using assms(1,2) by (intro with_lock_body) auto
  then show ?thesis by (auto simp: initialize_frame_info_def)
qed

lemma free_frame_twice:
  assumes "cpu_ok s" "locks_ok s" "f \<in> set (free_frame_list s)"
  shows "free_frame f s = None"
  using assms
  by (simp add: free_frame_def with_lock_def acquire_kspinlock_eq insert_l_def initialize_frame_info_def)

lemma get_page_table_cong:
  assumes "phys s' dir (PDX va) = phys s dir (PDX va)" "number_of_frames s' = number_of_frames s"
    "use_kheap s' = use_kheap s"
    "kheap_table_ptr (EXTRACT_ADDRESS (phys s dir (PDX va))) s' = kheap_table_ptr (EXTRACT_ADDRESS (phys s dir (PDX va))) s"
  shows "get_page_table dir va s' = get_page_table dir va s"
  using assms by (simp add: get_page_table_def STATIC_KERNEL_VIRTUAL_ADDRESS_def Let_def)

section \<open>Reference counts\<close>

text \<open>
  \<open>T\<close> is the set of frames that hold the page tables under consideration and \<open>U\<close> the set of frames that
  are mapped through them.  \<open>refs_ok T U s\<close>: the reference count of every frame of \<open>U\<close> is the number of
  present entries of the tables that map it, no entry maps a frame outside \<open>U\<close>, no entry is marked as
  buffered and one that is not present holds no address, and every frame of \<open>U\<close> in the free
  list is unused.  In particular no page maps a free frame.
\<close>

definition maps :: "u32 \<Rightarrow> frame \<Rightarrow> bool" where
  "maps pte f \<longleftrightarrow> pte AND PERM_PRESENT = PERM_PRESENT \<and> unat (PPN pte) = f"

definition mappings :: "frame set \<Rightarrow> frame \<Rightarrow> 'z mem_state_scheme \<Rightarrow> (frame \<times> u32) set" where
  "mappings T f s = {(t, i). t \<in> T \<and> i < 1024 \<and> maps (phys s t i) f}"

definition pte_ok :: "u32 \<Rightarrow> bool" where
  "pte_ok pte \<longleftrightarrow> pte AND PERM_BUFFERED = 0 \<and> (pte AND PERM_PRESENT = PERM_PRESENT \<or> EXTRACT_ADDRESS pte = 0)"

definition refs_ok :: "frame set \<Rightarrow> frame set \<Rightarrow> 'z mem_state_scheme \<Rightarrow> bool" where
  "refs_ok T U s \<longleftrightarrow> finite T \<and> T \<inter> U = {} \<and> distinct (free_frame_list s) \<and>
     (\<forall>f\<in>U. f < unat (number_of_frames s)) \<and>
     (\<forall>t\<in>T. \<forall>i<1024. pte_ok (phys s t i)) \<and>
     (\<forall>t\<in>T. \<forall>i<1024. \<forall>f. maps (phys s t i) f \<longrightarrow> f \<in> U) \<and>
     (\<forall>f\<in>U. unat (references (frames_info s f)) = card (mappings T f s)) \<and>
     (\<forall>f\<in>U. f \<in> set (free_frame_list s) \<longrightarrow> references (frames_info s f) = 0)"

lemma finite_mappings: "finite T \<Longrightarrow> finite (mappings T f s)"
  by (rule finite_subset [of _ "T \<times> UNIV"]) (auto simp: mappings_def)

lemma mappings_cong: "phys s' = phys s \<Longrightarrow> mappings T f s' = mappings T f s"
  by (simp add: mappings_def)

lemma refs_ok_free_unmapped:
  assumes "refs_ok T U s" "f \<in> U" "f \<in> set (free_frame_list s)"
  shows "mappings T f s = {}"
  using assms finite_mappings [of T f s] by (auto simp: refs_ok_def)

text \<open>How one assignment to a table entry changes the mappings of a frame.\<close>

lemma mappings_write:
  assumes "t \<in> T" "i < 1024"
  shows "mappings T f (write_phys t i v s) =
    (if maps v f then insert (t, i) (mappings T f s) else mappings T f s - {(t, i)})"
  using assms by (auto simp: mappings_def split: if_splits)

lemma card_mappings_write:
  assumes "t \<in> T" "i < 1024" "finite T"
  shows "card (mappings T f (write_phys t i v s)) + (if maps (phys s t i) f then 1 else 0) =
    card (mappings T f s) + (if maps v f then 1 else 0)"
proof -
  have "(t, i) \<in> mappings T f s \<longleftrightarrow> maps (phys s t i) f" using assms by (simp add: mappings_def)
  moreover from this have "maps (phys s t i) f \<Longrightarrow> 0 < card (mappings T f s)"
    using finite_mappings [OF assms(3), of f s] by (auto simp: card_gt_0_iff)
  ultimately show ?thesis
    using assms finite_mappings [OF assms(3), of f s]
    by (auto simp: mappings_write card_insert_if card_Diff_singleton_if)
qed

section \<open>Entries, bit by bit\<close>

lemma present_bit: "pte AND PERM_PRESENT = PERM_PRESENT \<longleftrightarrow> bit pte 0"
proof -
  have "pte AND 1 = (if bit pte 0 then 1 else 0)" by (simp add: and_one_eq mod_2_eq_odd bit_0)
  then show ?thesis by (simp add: PERM_PRESENT_def)
qed

lemma buffered_bit: "pte AND PERM_BUFFERED = 0 \<longleftrightarrow> \<not> bit pte 9"
  using and_exp_eq_0_iff_not_bit [of pte 9] by (simp add: PERM_BUFFERED_def)

lemma present_or_buffered: "pte AND (PERM_PRESENT OR PERM_BUFFERED) \<noteq> 0 \<longleftrightarrow> bit pte 0 \<or> bit pte 9"
proof -
  have "PERM_PRESENT OR PERM_BUFFERED = (2 ^ 0 OR 2 ^ 9 :: u32)" by (simp add: fos_consts)
  then have "pte AND (PERM_PRESENT OR PERM_BUFFERED) = (pte AND 2 ^ 0) OR (pte AND 2 ^ 9)"
    by (simp only: bit.conj_disj_distrib)
  then show ?thesis
    using and_exp_eq_0_iff_not_bit [of pte 0] and_exp_eq_0_iff_not_bit [of pte 9] by (simp only: or_eq_0_iff) blast
qed

lemma PPN_EXTRACT_ADDRESS [simp]: "PPN (EXTRACT_ADDRESS e) = PPN e"
  unfolding PPN_def addr_fields by (rule bit_word_eqI) (auto simp: bit_simps dest: bit_imp_le_length)

lemma EXTRACT_ADDRESS_literal: "pte AND - 4096 = EXTRACT_ADDRESS pte"
  by (simp add: EXTRACT_ADDRESS_def)

lemma available_bits:
  "\<not> bit (pte AND PERM_AVAILABLE) 0"
  "EXTRACT_ADDRESS (pte AND PERM_AVAILABLE) = 0"
  "\<not> bit pte 9 \<Longrightarrow> \<not> bit (pte AND PERM_AVAILABLE) 9"
proof -
  have "\<not> bit PERM_AVAILABLE 0" by (simp add: PERM_AVAILABLE_def bit_0)
  then show "\<not> bit (pte AND PERM_AVAILABLE) 0" by (simp only: bit_and_iff) simp
  have "PERM_AVAILABLE AND NOT 0xFFF = 0" by (simp add: PERM_AVAILABLE_def)
  then show "EXTRACT_ADDRESS (pte AND PERM_AVAILABLE) = 0"
    by (simp add: EXTRACT_ADDRESS_def and.assoc)
qed (simp add: bit_simps)

lemma maps_iff: "maps pte f \<longleftrightarrow> bit pte 0 \<and> unat (PPN pte) = f"
  by (simp add: maps_def present_bit)

lemma pte_ok_iff: "pte_ok pte \<longleftrightarrow> \<not> bit pte 9 \<and> (bit pte 0 \<or> EXTRACT_ADDRESS pte = 0)"
  by (simp add: pte_ok_def present_bit buffered_bit)

lemma get_frame_info_pte:
  assumes "get_page_table dir va s = Some (r, Some t)" "pte_ok (phys s t (PTX va))"
    "bit (phys s t (PTX va)) 0 \<Longrightarrow> unat (PPN (phys s t (PTX va))) < unat (number_of_frames s)"
  shows "get_frame_info dir va s =
    Some (if bit (phys s t (PTX va)) 0 then Some (unat (PPN (phys s t (PTX va)))) else None, Some t)"
  using assms
  by (auto simp: get_frame_info_def present_or_buffered pte_ok_iff EXTRACT_ADDRESS_literal to_frame_info_def
      word_le_nat_alt Let_def)

end
