(* ===== verification/FOS_Refs.thy ===== *)
theory FOS_Refs
  imports FOS_Memory
begin

unbundle bit_operations_syntax

text \<open>
  Reference counting: mapping and unmapping pages keep the count of every frame equal to the number
  of page table entries that map it (\<open>refs_ok\<close>), so a frame goes back to the free list exactly when its
  last mapping is removed, and no page ever maps a free frame.
\<close>

lemma unat_plus_one_u16: "(x :: u16) \<noteq> 0xFFFF \<Longrightarrow> unat (x + 1) = unat x + 1"
proof -
  assume "x \<noteq> 0xFFFF"
  then have "unat x \<noteq> 0xFFFF" using word_unat_eq_iff [of x "0xFFFF"] by simp
  moreover have "unat x < 2 ^ 16" using unsigned_less [of x] by simp
  ultimately have "unat x + 1 < 2 ^ LENGTH(16)" by simp
  then show ?thesis by (simp add: unat_word_ariths)
qed

section \<open>Unmapping\<close>

lemma decrement_references_spec:
  assumes "cpu_ok s" "locks_ok s" "references (frames_info s f) \<noteq> 0" "f \<notin> set (free_frame_list s)"
  shows "\<exists>s'. decrement_references f s = Some ((), s') \<and> cpu_same s s' \<and> mem_static s s' \<and>
    phys s' = phys s \<and> tlb s' = tlb s \<and>
    references (frames_info s' f) = references (frames_info s f) - 1 \<and>
    (\<forall>g. g \<noteq> f \<longrightarrow> frames_info s' g = frames_info s g) \<and>
    free_frame_list s' =
      (if references (frames_info s f) = 1 then f # free_frame_list s else free_frame_list s) \<and>
    (references (frames_info s f) \<noteq> 1 \<longrightarrow> kheap_mapped_va (frames_info s' f) = kheap_mapped_va (frames_info s f))"
proof -
  let ?s1 = "fi_upd f (\<lambda>fi. fi\<lparr>references := references fi - 1\<rparr>) s"
  have ok: "cpu_ok ?s1" "locks_ok ?s1" using assms(1,2) by (simp_all add: cpu_ok_def locks_ok_def)
  have one: "references (frames_info s f) - 1 = 0 \<longleftrightarrow> references (frames_info s f) = 1" by simp
  show ?thesis
  proof (cases "references (frames_info s f) = 1")
    case True
    from free_frame_new [OF ok, of f] assms(4) obtain s' where
      s': "free_frame f ?s1 = Some ((), s')" "cpu_same ?s1 s'" "mem_static ?s1 s'"
        "free_frame_list s' = f # free_frame_list s" "frames_info s' = (frames_info ?s1)(f := null_frame_info)"
        "phys s' = phys s" "tlb s' = tlb s" by auto
    have "cpu_same s s'" using s'(2) by (rule cpu_same_trans [rotated]) simp
    moreover have "mem_static s s'" using s'(3) by (rule mem_static_trans [rotated]) simp
    ultimately show ?thesis
      using True s' by (simp add: decrement_references_def null_frame_info_def)
  next
    case False
    then show ?thesis by (simp add: decrement_references_def Let_def)
  qed
qed

lemma refs_ok_count: "refs_ok T U s \<Longrightarrow> f \<in> U \<Longrightarrow> unat (references (frames_info s f)) = card (mappings T f s)"
  by (simp add: refs_ok_def)

lemma refs_ok_present:
  assumes "refs_ok T U s" "t \<in> T" "i < 1024" "bit (phys s t i) 0"
  defines "f \<equiv> unat (PPN (phys s t i))"
  shows "f \<in> U" "f < unat (number_of_frames s)" "references (frames_info s f) \<noteq> 0"
    "f \<notin> set (free_frame_list s)"
proof -
  have m: "maps (phys s t i) f" using assms(4) by (simp add: maps_iff f_def)
  with assms(1-3) show U: "f \<in> U" by (auto simp: refs_ok_def)
  with assms(1) show "f < unat (number_of_frames s)" by (simp add: refs_ok_def)
  have "(t, i) \<in> mappings T f s" using m assms(2,3) by (simp add: mappings_def)
  with finite_mappings [of T f s] assms(1) have "card (mappings T f s) \<noteq> 0" by (auto simp: refs_ok_def)
  with refs_ok_count [OF assms(1) U] show n: "references (frames_info s f) \<noteq> 0" by auto
  with assms(1) U show "f \<notin> set (free_frame_list s)" by (auto simp: refs_ok_def)
qed

text \<open>\<open>refs_ok\<close> depends only on the tables, the counts and the free list.\<close>

lemma refs_ok_remove:
  assumes "refs_ok T U s" "t \<in> T" "i < 1024" "bit (phys s t i) 0"
    and f: "f = unat (PPN (phys s t i))"
    and v: "\<not> bit v 0" "\<not> bit v 9" "EXTRACT_ADDRESS v = 0"
    and s': "phys s' = (phys s)(t := (phys s t)(i := v))" "number_of_frames s' = number_of_frames s"
      "references (frames_info s' f) = references (frames_info s f) - 1"
      "\<forall>g. g \<noteq> f \<longrightarrow> references (frames_info s' g) = references (frames_info s g)"
      "free_frame_list s' =
        (if references (frames_info s f) = 1 then f # free_frame_list s else free_frame_list s)"
  shows "refs_ok T U s'"
proof -
  note pres = refs_ok_present [OF assms(1-4), folded f]
  have T: "finite T" using assms(1) by (simp add: refs_ok_def)
  have m: "mappings T g s' = mappings T g (write_phys t i v s)" for g
    by (rule mappings_cong) (simp add: s')
  have old: "maps (phys s t i) g \<longleftrightarrow> g = f" and new: "\<not> maps v g" for g
    using assms(4) f v by (auto simp: maps_iff)
  have cnt: "card (mappings T g s') + (if g = f then 1 else 0) = card (mappings T g s)" for g
    using card_mappings_write [OF assms(2,3) T, of g v s] by (simp add: m old new)
  have "unat (references (frames_info s f) - 1) = unat (references (frames_info s f)) - 1"
    using pres(3) by (simp add: unat_minus_one)
  then have refs: "unat (references (frames_info s' g)) = card (mappings T g s')" if "g \<in> U" for g
    using refs_ok_count [OF assms(1) that] cnt [of g] s'(3,4) by (cases "g = f") auto
  have tabs: "\<forall>t'\<in>T. \<forall>i'<1024. pte_ok (phys s' t' i') \<and> (\<forall>g. maps (phys s' t' i') g \<longrightarrow> g \<in> U)"
    using assms(1) v new unfolding refs_ok_def s'(1) by (auto simp: pte_ok_iff)
  have free: "distinct (free_frame_list s')" "\<forall>g\<in>U. g \<in> set (free_frame_list s') \<longrightarrow> references (frames_info s' g) = 0"
    using assms(1) pres s'(3,4,5) unfolding refs_ok_def by (auto split: if_splits)
  show ?thesis
    using assms(1) refs tabs free s'(2) unfolding refs_ok_def by simp
qed

lemma unmap_frame_present:
  assumes ok: "cpu_ok s" "locks_ok s" "refs_ok T U s"
    and t: "get_page_table dir va s = Some (r, Some t)" "t \<in> T" "bit (phys s t (PTX va)) 0"
  defines "f \<equiv> unat (PPN (phys s t (PTX va)))"
  shows "\<exists>s'. unmap_frame dir va s = Some ((), s') \<and> cpu_same s s' \<and> mem_static s s' \<and> refs_ok T U s' \<and>
    phys s' = (phys s)(t := (phys s t)(PTX va := phys s t (PTX va) AND PERM_AVAILABLE)) \<and>
    references (frames_info s' f) = references (frames_info s f) - 1 \<and>
    (\<forall>g. g \<noteq> f \<longrightarrow> frames_info s' g = frames_info s g) \<and>
    free_frame_list s' =
      (if references (frames_info s f) = 1 then f # free_frame_list s else free_frame_list s) \<and>
    tlb s' = (if cpu_proc s = None \<or> env_page_directory (envs s (the (cpu_proc s))) = Some dir
      then (tlb s)(PPN va := None) else tlb s)"
proof -
  have i: "PTX va < 1024" by (rule PTX_less)
  note pres = refs_ok_present [OF ok(3) t(2) i t(3), folded f_def]
  have "pte_ok (phys s t (PTX va))" using ok(3) t(2) i by (simp add: refs_ok_def)
  then have gfi: "get_frame_info dir va s = Some (Some f, Some t)"
    using t(3) pres(2) get_frame_info_pte [OF t(1)] by (simp add: f_def)
  from decrement_references_spec [OF ok(1,2) pres(3,4)] obtain s1 where
    s1: "decrement_references f s = Some ((), s1)" "cpu_same s s1" "mem_static s s1" "phys s1 = phys s"
      "tlb s1 = tlb s" "references (frames_info s1 f) = references (frames_info s f) - 1"
      "\<forall>g. g \<noteq> f \<longrightarrow> frames_info s1 g = frames_info s g"
      "free_frame_list s1 = (if references (frames_info s f) = 1 then f # free_frame_list s else free_frame_list s)"
    by auto
  let ?v = "phys s t (PTX va) AND PERM_AVAILABLE"
  let ?s' = "tlb_invalidate (Some dir) va (write_phys t (PTX va) ?v s1)"
  have un: "unmap_frame dir va s = Some ((), ?s')" using gfi s1(1,4) by (simp add: unmap_frame_def)
  have "\<not> bit (phys s t (PTX va)) 9" using \<open>pte_ok _\<close> by (simp add: pte_ok_iff)
  then have "refs_ok T U ?s'"
    using refs_ok_remove [OF ok(3) t(2) i t(3) f_def [THEN meta_eq_to_obj_eq] available_bits(1) available_bits(3)
        available_bits(2), of "phys s t (PTX va)" ?s'] s1(3,4,6-8)
    by (simp add: mem_static_def)
  moreover have "tlb ?s' = (if cpu_proc s = None \<or> env_page_directory (envs s (the (cpu_proc s))) = Some dir
      then (tlb s)(PPN va := None) else tlb s)"
    using s1(2,5) by (auto simp: tlb_invalidate_def invlpg_def cpu_same_def split: option.splits)
  ultimately show ?thesis using un s1 by simp
qed

section \<open>Mapping\<close>

lemma PPN_to_physical_address:
  assumes "f < 2 ^ 20"
  shows "unat (PPN (to_physical_address f)) = f"
proof -
  have "PPN (to_physical_address f) = take_bit 20 (of_nat f)"
    unfolding PPN_def to_physical_address_def to_frame_number_def
    by (rule bit_word_eqI) (auto simp: bit_simps)
  also have "\<dots> = of_nat f" using assms by (intro take_bit_word_self) (simp add: unat_of_nat_u32)
  finally show ?thesis using assms by (simp add: unat_of_nat_u32)
qed

lemma EXTRACT_to_physical_address [simp]: "EXTRACT_ADDRESS (to_physical_address f) = to_physical_address f"
  unfolding addr_fields to_physical_address_def by (rule bit_word_eqI) (auto simp: bit_simps)

lemma EXTRACT_ADDRESS_or: "EXTRACT_ADDRESS (a OR b) = EXTRACT_ADDRESS a OR EXTRACT_ADDRESS b"
  by (simp add: EXTRACT_ADDRESS_def bit.conj_disj_distrib2)

lemma EXTRACT_ADDRESS_eq_iff: "EXTRACT_ADDRESS a = EXTRACT_ADDRESS b \<longleftrightarrow> PPN a = PPN b"
proof
  assume "EXTRACT_ADDRESS a = EXTRACT_ADDRESS b"
  then show "PPN a = PPN b" by (metis PPN_EXTRACT_ADDRESS)
next
  assume *: "PPN a = PPN b"
  show "EXTRACT_ADDRESS a = EXTRACT_ADDRESS b"
    unfolding addr_fields
  proof (rule bit_word_eqI)
    fix n
    assume "n < LENGTH(32)"
    have "bit (PPN a) (n - 12) = bit (PPN b) (n - 12)" using * by simp
    then have "bit a (12 + (n - 12)) = bit b (12 + (n - 12))" by (simp add: PPN_def bit_drop_bit_eq)
    then show "bit (a AND NOT (mask 12)) n = bit (b AND NOT (mask 12)) n" by (cases "n < 12") (auto simp: bit_simps)
  qed
qed

text \<open>The entry \<open>map_frame\<close> writes: present, not buffered, mapping the frame.\<close>

lemma new_entry:
  assumes "f < 2 ^ 20" "\<not> bit perm 9" "EXTRACT_ADDRESS perm = 0" "\<not> bit old 9"
  defines "v \<equiv> CONSTRUCT_ENTRY (to_physical_address f) (old AND PERM_AVAILABLE OR perm OR PERM_PRESENT)"
  shows "bit v 0" "\<not> bit v 9" "unat (PPN v) = f" "pte_ok v" "maps v g \<longleftrightarrow> g = f"
proof -
  show b0: "bit v 0" by (simp only: v_def CONSTRUCT_ENTRY_def PERM_PRESENT_def bit_or_iff) simp
  have "\<not> bit (to_physical_address f) 9" by (simp add: to_physical_address_def bit_simps)
  moreover have "\<not> bit PERM_PRESENT 9" by (simp add: PERM_PRESENT_def)
  ultimately show b9: "\<not> bit v 9"
    using assms(2,4) available_bits(3) [of old] by (simp only: v_def CONSTRUCT_ENTRY_def bit_or_iff) simp
  have "EXTRACT_ADDRESS PERM_PRESENT = 0" by (simp add: EXTRACT_ADDRESS_def PERM_PRESENT_def)
  then have "EXTRACT_ADDRESS v = EXTRACT_ADDRESS (to_physical_address f)"
    using assms(3) by (simp add: v_def CONSTRUCT_ENTRY_def EXTRACT_ADDRESS_or available_bits)
  then have "PPN v = PPN (to_physical_address f)" by (simp only: EXTRACT_ADDRESS_eq_iff)
  then show u: "unat (PPN v) = f" using PPN_to_physical_address [OF assms(1)] by simp
  show "pte_ok v" using b0 b9 by (simp add: pte_ok_iff)
  show "maps v g \<longleftrightarrow> g = f" using b0 u by (auto simp: maps_iff)
qed

lemma refs_ok_add:
  assumes "refs_ok T U s" "t \<in> T" "i < 1024" "\<not> bit (phys s t i) 0"
    and f: "f \<in> U" "f \<notin> set (free_frame_list s)" "references (frames_info s f) \<noteq> 0xFFFF"
    and v: "\<And>g. maps v g \<longleftrightarrow> g = f" "pte_ok v"
    and s': "phys s' = (phys s)(t := (phys s t)(i := v))" "number_of_frames s' = number_of_frames s"
      "references (frames_info s' f) = references (frames_info s f) + 1"
      "\<forall>g. g \<noteq> f \<longrightarrow> references (frames_info s' g) = references (frames_info s g)"
      "free_frame_list s' = free_frame_list s"
  shows "refs_ok T U s'"
proof -
  have T: "finite T" using assms(1) by (simp add: refs_ok_def)
  have m: "mappings T g s' = mappings T g (write_phys t i v s)" for g
    by (rule mappings_cong) (simp add: s')
  have old: "\<not> maps (phys s t i) g" for g using assms(4) by (simp add: maps_iff)
  have cnt: "card (mappings T g s') = card (mappings T g s) + (if g = f then 1 else 0)" for g
    using card_mappings_write [OF assms(2,3) T, of g v s] by (simp add: m old v)
  have "unat (references (frames_info s f) + 1) = unat (references (frames_info s f)) + 1"
    using f(3) by (intro unat_plus_one_u16)
  then have refs: "unat (references (frames_info s' g)) = card (mappings T g s')" if "g \<in> U" for g
    using refs_ok_count [OF assms(1) that] cnt [of g] s'(3,4) by (cases "g = f") auto
  have tabs: "\<forall>t'\<in>T. \<forall>i'<1024. pte_ok (phys s' t' i') \<and> (\<forall>g. maps (phys s' t' i') g \<longrightarrow> g \<in> U)"
    using assms(1) v f(1) unfolding refs_ok_def s'(1) by auto
  show ?thesis
    using assms(1) refs tabs s'(2,4,5) f(2) unfolding refs_ok_def by (simp; metis)
qed

text \<open>The last part of \<open>map_frame\<close>, once the entry is free.\<close>

lemma map_frame_free_entry:
  fixes va :: u32
  assumes ok: "refs_ok T U s" "t \<in> T" "i < 1024" "\<not> bit (phys s t i) 0"
    and f: "f \<in> U" "f \<notin> set (free_frame_list s)" "references (frames_info s f) \<noteq> 0xFFFF" "f < 2 ^ 20"
    and perm: "\<not> bit perm 9" "EXTRACT_ADDRESS perm = 0"
  defines "s1 \<equiv> fi_upd f (\<lambda>fi. fi\<lparr>references := references fi + 1\<rparr>) s"
  defines "v \<equiv> CONSTRUCT_ENTRY (to_physical_address f) (phys s t i AND PERM_AVAILABLE OR perm OR PERM_PRESENT)"
  defines "s' \<equiv> fi_upd f (\<lambda>fi. fi\<lparr>kheap_mapped_va := va\<rparr>) (write_phys t i v s1)"
  shows "refs_ok T U s'" "maps (phys s' t i) f" "phys s' = (phys s)(t := (phys s t)(i := v))"
    "frames_info s' f = (frames_info s f)\<lparr>references := references (frames_info s f) + 1, kheap_mapped_va := va\<rparr>"
    "g \<noteq> f \<Longrightarrow> frames_info s' g = frames_info s g" "free_frame_list s' = free_frame_list s"
proof -
  have "\<not> bit (phys s t i) 9" using ok(1-3) by (simp add: refs_ok_def pte_ok_iff)
  note e = new_entry [OF f(4) perm this, folded v_def]
  show "refs_ok T U s'"
    by (rule refs_ok_add [OF ok f(1-3) e(5,4)]) (simp_all add: s'_def s1_def)
  show "maps (phys s' t i) f" using e(5) by (simp add: s'_def)
qed (simp_all add: s'_def s1_def)

lemma get_page_table_table_write:
  assumes "get_page_table dir va s = Some (r, Some t)" "dir \<noteq> t'"
    "phys s' = (phys s)(t' := p)" "mem_static s s'"
    "kheap_mapped_va (frames_info s' t) = kheap_mapped_va (frames_info s t)"
  shows "get_page_table dir va s' = Some (r, Some t)"
  using assms
  by (auto simp: mem_static_def get_page_table_def kheap_table_ptr_def STATIC_KERNEL_VIRTUAL_ADDRESS_def Let_def
      split: if_splits)

lemma map_frame_table:
  assumes ok: "cpu_ok s" "locks_ok s" "refs_ok T U s"
    and t: "get_page_table dir va s = Some (TABLE_IN_MEMORY, Some t)" "t \<in> T" "dir \<notin> T"
    and f: "f \<in> U" "f \<notin> set (free_frame_list s)" "references (frames_info s f) \<noteq> 0xFFFF" "f < 2 ^ 20"
    and perm: "\<not> bit perm 9" "EXTRACT_ADDRESS perm = 0"
  shows "\<exists>s'. map_frame_gen cpt dir f va perm s = Some (0, s') \<and>
    get_frame_info dir va s' = Some (Some f, Some t) \<and> refs_ok T U s' \<and> cpu_same s s' \<and> mem_static s s' \<and>
    (\<forall>t' i. (t', i) \<noteq> (t, PTX va) \<longrightarrow> phys s' t' i = phys s t' i)"
proof -
  let ?i = "PTX va" and ?pte = "phys s t (PTX va)"
  have i: "?i < 1024" by (rule PTX_less)
  have disj: "T \<inter> U = {}" and fn: "f < unat (number_of_frames s)" using ok(3) f(1) by (auto simp: refs_ok_def)
  have same: "EXTRACT_ADDRESS ?pte = to_physical_address f \<longleftrightarrow> unat (PPN ?pte) = f"
    using EXTRACT_ADDRESS_eq_iff [of ?pte "to_physical_address f"] PPN_to_physical_address [OF f(4)]
    by (auto simp: word_unat_eq_iff)
  have gfi: "get_frame_info dir va s' = Some (Some f, Some t)"
    if "refs_ok T U s'" "maps (phys s' t ?i) f" "phys s' = (phys s)(t := p)" "mem_static s s'"
      "frames_info s' t = frames_info s t" for s' p
  proof -
    have "get_page_table dir va s' = Some (TABLE_IN_MEMORY, Some t)"
      using get_page_table_table_write [OF t(1) _ that(3,4)] that(5) t(2,3) by fastforce
    moreover have "pte_ok (phys s' t ?i)" using that(1) t(2) i by (simp add: refs_ok_def)
    ultimately show ?thesis
      using get_frame_info_pte [of dir va s'] that(2,4) fn by (simp add: maps_iff mem_static_def)
  qed
  show ?thesis
  proof (cases "bit ?pte 0")
    case present: True
    show ?thesis
    proof (cases "unat (PPN ?pte) = f")
      case True
      with present have "maps ?pte f" by (simp add: maps_iff)
      with True present t(1) same gfi [of s "phys s t"] ok(3) show ?thesis
        by (simp add: map_frame_gen_def present_bit)
    next
      case False
      let ?g = "unat (PPN ?pte)"
      have g: "?g \<in> U" using refs_ok_present(1) [OF ok(3) t(2) i present] .
      then have tg: "t \<noteq> ?g" "t \<noteq> f" using t(2) f(1) disj by auto
      from unmap_frame_present [OF ok t(1,2) present] obtain s1 where
        s1: "unmap_frame dir va s = Some ((), s1)" "cpu_same s s1" "mem_static s s1" "refs_ok T U s1"
          "phys s1 = (phys s)(t := (phys s t)(?i := ?pte AND PERM_AVAILABLE))"
          "\<forall>h. h \<noteq> ?g \<longrightarrow> frames_info s1 h = frames_info s h"
          "free_frame_list s1 = (if references (frames_info s ?g) = 1 then ?g # free_frame_list s else free_frame_list s)"
        by auto
      have e: "\<not> bit (phys s1 t ?i) 0" using s1(5) available_bits(1) by simp
      have f1: "f \<notin> set (free_frame_list s1)" "references (frames_info s1 f) \<noteq> 0xFFFF"
        using s1(6,7) f False by (auto split: if_splits)
      note m = map_frame_free_entry [OF s1(4) t(2) i e f(1) f1 f(4) perm, where va = va]
      have "get_frame_info dir va (fi_upd f (\<lambda>fi. fi\<lparr>kheap_mapped_va := va\<rparr>) (write_phys t ?i
          (CONSTRUCT_ENTRY (to_physical_address f) (phys s1 t ?i AND PERM_AVAILABLE OR perm OR PERM_PRESENT))
          (fi_upd f (\<lambda>fi. fi\<lparr>references := references fi + 1\<rparr>) s1))) = Some (Some f, Some t)"
        using m(3) s1(3,5,6) tg by (intro gfi [OF m(1,2)]) (auto simp: fun_upd_def)
      with present False t(1) same s1 m(1) show ?thesis
        by (simp add: map_frame_gen_def present_bit)
    qed
  next
    case False
    note m = map_frame_free_entry [OF ok(3) t(2) i False f perm, where va = va]
    have "get_frame_info dir va (fi_upd f (\<lambda>fi. fi\<lparr>kheap_mapped_va := va\<rparr>) (write_phys t ?i
        (CONSTRUCT_ENTRY (to_physical_address f) (?pte AND PERM_AVAILABLE OR perm OR PERM_PRESENT))
        (fi_upd f (\<lambda>fi. fi\<lparr>references := references fi + 1\<rparr>) s))) = Some (Some f, Some t)"
      using m(3) t(2) f(1) disj by (intro gfi [OF m(1,2)]) auto
    with False t(1) m(1) show ?thesis by (simp add: map_frame_gen_def present_bit)
  qed
qed

text \<open>A free frame that is cleared and taken as a table.\<close>

lemma refs_ok_new_table:
  assumes ok: "refs_ok T U s" and p: "free_frame_list s = p # rest" "p \<in> U"
    and s': "phys s' p = (\<lambda>_. 0)" "\<And>t. t \<in> T \<Longrightarrow> phys s' t = phys s t" "number_of_frames s' = number_of_frames s"
      "\<And>g. g \<noteq> p \<Longrightarrow> frames_info s' g = frames_info s g" "free_frame_list s' = rest"
  shows "refs_ok (insert p T) (U - {p}) s'"
proof -
  have map0: "mappings T p s = {}" by (rule refs_ok_free_unmapped [OF ok p(2)]) (simp add: p(1))
  then have no: "\<not> maps (phys s t i) p" if "t \<in> T" "i < 1024" for t i using that by (auto simp: mappings_def)
  have pT: "p \<notin> T" using ok p(2) by (auto simp: refs_ok_def)
  have m0: "\<not> maps 0 g" for g by (simp add: maps_iff)
  have "mappings (insert p T) g s' = mappings T g s" for g
    unfolding mappings_def using s'(1,2) pT m0 by (intro Collect_cong) auto
  moreover have "pte_ok 0" by (simp add: pte_ok_iff EXTRACT_ADDRESS_def)
  ultimately show ?thesis
    using ok no pT m0 p s' unfolding refs_ok_def by auto
qed

text \<open>\<open>__static_cpt\<close> turns the first free frame into an empty table and enters it in the directory.\<close>

lemma static_cpt_new:
  assumes ok: "cpu_ok s" "locks_ok s" "refs_ok T U s" "\<not> use_kheap s" "dir \<notin> T" "dir \<notin> U"
    and p: "free_frame_list s = p # rest" "p \<in> U" "p < 2 ^ 20"
  shows "\<exists>s'. static_cpt dir va s = Some (Some p, s') \<and> refs_ok (insert p T) (U - {p}) s' \<and>
    get_page_table dir va s' = Some (TABLE_IN_MEMORY, Some p) \<and> cpu_same s s' \<and> mem_static s s' \<and>
    phys s' = (phys s)(dir := (phys s dir)(PDX va :=
      CONSTRUCT_ENTRY (to_physical_address p) (PERM_PRESENT OR PERM_USER OR PERM_WRITEABLE)), p := (\<lambda>_. 0)) \<and>
    frames_info s' = (frames_info s)(p := null_frame_info\<lparr>references := 1\<rparr>) \<and> free_frame_list s' = rest \<and> tlb s' = (\<lambda>_. None)"
proof -
  let ?e = "CONSTRUCT_ENTRY (to_physical_address p) (PERM_PRESENT OR PERM_USER OR PERM_WRITEABLE)"
  from allocate_frame_Cons [OF ok(1,2) p(1)] obtain s1 where
    s1: "allocate_frame s = Some (p, s1)" "cpu_same s s1" "mem_static s s1" "free_frame_list s1 = rest"
      "frames_info s1 = (frames_info s)(p := null_frame_info)" "phys s1 = phys s" by auto
  have nf: "number_of_frames s1 = number_of_frames s" "\<not> use_kheap s1" using s1(3) ok(4) by (simp_all add: mem_static_def)
  have pn: "p < unat (number_of_frames s)" and disj: "T \<inter> U = {}" using ok(3) p(2) by (auto simp: refs_ok_def)
  have pd: "dir \<noteq> p" "p \<notin> T" using ok(6) p(2) disj by auto
  let ?s' = "tlbflush (clear_frame p (write_phys dir (PDX va) ?e (fi_upd p (\<lambda>fi. fi\<lparr>references := 1\<rparr>) s1)))"
  have kva: "STATIC_KERNEL_VIRTUAL_ADDRESS (to_physical_address p) s1 = Some (to_physical_address p + KERNEL_BASE)"
    using pn nf PPN_to_physical_address [OF p(3)] by (simp add: STATIC_KERNEL_VIRTUAL_ADDRESS_def word_le_nat_alt)
  have cpt: "static_cpt dir va s = Some (Some p, ?s')" using s1(1) kva by (simp add: static_cpt_def)
  have ph: "phys ?s' = (phys s)(dir := (phys s dir)(PDX va := ?e), p := (\<lambda>_. 0))" using s1(6) by simp
  have E: "EXTRACT_ADDRESS ?e = to_physical_address p"
    by (simp add: CONSTRUCT_ENTRY_def EXTRACT_ADDRESS_or) (simp add: EXTRACT_ADDRESS_def fos_consts)
  have b0: "bit ?e 0" by (simp only: CONSTRUCT_ENTRY_def PERM_PRESENT_def bit_or_iff) simp
  have gpt: "get_page_table dir va ?s' = Some (TABLE_IN_MEMORY, Some p)"
    using nf pn pd(1) b0 E PPN_to_physical_address [OF p(3)]
    by (simp add: get_page_table_def ph present_bit STATIC_KERNEL_VIRTUAL_ADDRESS_def word_le_nat_alt Let_def)
  have keep: "phys ?s' t = phys s t" if "t \<in> T" for t using that ok(5) pd(2) unfolding ph by auto
  have "refs_ok (insert p T) (U - {p}) ?s'"
    by (rule refs_ok_new_table [OF ok(3) p(1,2) _ keep]) (use s1(4,5) nf(1) in simp_all)
  moreover have "tlb ?s' = (\<lambda>_. None)" by (simp add: tlbflush_def)
  moreover have "cpu_same s ?s'" "mem_static s ?s'" "free_frame_list ?s' = rest"
    "frames_info ?s' = (frames_info s)(p := null_frame_info\<lparr>references := 1\<rparr>)"
    using s1(2-5) by simp_all
  ultimately show ?thesis using cpt gpt ph by blast
qed

lemma map_frame_gen_table_made:
  assumes "phys s dir (PDX va) = 0" "cpt dir va s = Some (Some p, s1)" "get_page_table dir va s1 = Some (TABLE_IN_MEMORY, Some p)"
  shows "map_frame_gen cpt dir f va perm s = map_frame_gen cpt dir f va perm s1"
  using assms by (simp add: map_frame_gen_def get_page_table_def PERM_PRESENT_def)

lemma map_frame_new_table:
  assumes ok: "cpu_ok s" "locks_ok s" "refs_ok T U s" and dir: "dir \<notin> T"
    and f: "f \<in> U" "f \<notin> set (free_frame_list s)" "references (frames_info s f) \<noteq> 0xFFFF" "f < 2 ^ 20"
    and perm: "\<not> bit perm 9" "EXTRACT_ADDRESS perm = 0"
    and n: "\<not> use_kheap s" "phys s dir (PDX va) = 0" "dir \<notin> U" "free_frame_list s = p # rest" "p \<in> U" "p < 2 ^ 20"
  shows "\<exists>s'. map_frame_gen static_cpt dir f va perm s = Some (0, s') \<and>
    get_frame_info dir va s' = Some (Some f, Some p) \<and> refs_ok (insert p T) (U - {p}) s' \<and> cpu_same s s' \<and> mem_static s s' \<and>
    phys s' dir (PDX va) = CONSTRUCT_ENTRY (to_physical_address p) (PERM_PRESENT OR PERM_USER OR PERM_WRITEABLE) \<and>
    (\<forall>i. i \<noteq> PTX va \<longrightarrow> phys s' p i = 0) \<and>
    (\<forall>t' i. (t', i) \<noteq> (dir, PDX va) \<and> t' \<noteq> p \<longrightarrow> phys s' t' i = phys s t' i)"
proof -
  from static_cpt_new [OF ok n(1) dir n(3-6), of va] obtain s1 where
    s1: "static_cpt dir va s = Some (Some p, s1)" "refs_ok (insert p T) (U - {p}) s1"
      "get_page_table dir va s1 = Some (TABLE_IN_MEMORY, Some p)" "cpu_same s s1" "mem_static s s1"
      "phys s1 = (phys s)(dir := (phys s dir)(PDX va :=
        CONSTRUCT_ENTRY (to_physical_address p) (PERM_PRESENT OR PERM_USER OR PERM_WRITEABLE)), p := (\<lambda>_. 0))"
      "frames_info s1 = (frames_info s)(p := null_frame_info\<lparr>references := 1\<rparr>)" "free_frame_list s1 = rest" by auto
  have fp: "f \<noteq> p" "dir \<noteq> p" using f(2) n(3-5) by auto
  have f1: "f \<in> U - {p}" "f \<notin> set (free_frame_list s1)" "references (frames_info s1 f) \<noteq> 0xFFFF"
    using f fp n(4) s1(7,8) by auto
  have d1: "dir \<notin> insert p T" using dir fp by simp
  from map_frame_table [OF cpu_same_ok(1) [OF s1(4) ok(1)] cpu_same_ok(2) [OF s1(4) ok(2)] s1(2,3) insertI1 d1 f1 f(4) perm]
  obtain s' where s': "map_frame_gen static_cpt dir f va perm s1 = Some (0, s')" "get_frame_info dir va s' = Some (Some f, Some p)"
      "refs_ok (insert p T) (U - {p}) s'" "cpu_same s1 s'" "mem_static s1 s'"
      "\<forall>t' i. (t', i) \<noteq> (p, PTX va) \<longrightarrow> phys s' t' i = phys s1 t' i" by blast
  have "map_frame_gen static_cpt dir f va perm s = Some (0, s')"
    using map_frame_gen_table_made [of s dir va static_cpt, OF n(2) s1(1,3)] s'(1) by simp
  moreover have "phys s' dir (PDX va) = CONSTRUCT_ENTRY (to_physical_address p) (PERM_PRESENT OR PERM_USER OR PERM_WRITEABLE)"
    "\<forall>i. i \<noteq> PTX va \<longrightarrow> phys s' p i = 0" "\<forall>t' i. (t', i) \<noteq> (dir, PDX va) \<and> t' \<noteq> p \<longrightarrow> phys s' t' i = phys s t' i"
    using s'(6) s1(6) fp(2) by auto
  ultimately show ?thesis
    using s'(2,3) cpu_same_trans [OF s1(4) s'(4)] mem_static_trans [OF s1(5) s'(5)] by blast
qed


text \<open>
  C8: \<open>unmap_frame\<close> of a mapped page clears the entry up to its available bits and changes no other word of memory,
  takes one reference from the frame, and puts the frame in the free list exactly when that was the last one.  The
  cached translation of the page, and no other, is dropped when no process is running or the directory is the one of
  the running process; for another directory, the kernel's own included, the cache stays as it is.
\<close>

theorem unmap_frame_correct:
  assumes "cpu_ok s" "locks_ok s" "refs_ok T U s"
    and "get_page_table dir va s = Some (r, Some t)" "t \<in> T" "maps (phys s t (PTX va)) f"
  shows "\<exists>s'. unmap_frame dir va s = Some ((), s') \<and> refs_ok T U s' \<and>
    phys s' = (phys s)(t := (phys s t)(PTX va := phys s t (PTX va) AND PERM_AVAILABLE)) \<and>
    (\<forall>g. \<not> maps (phys s' t (PTX va)) g) \<and>
    references (frames_info s' f) = references (frames_info s f) - 1 \<and>
    (\<forall>g. g \<noteq> f \<longrightarrow> frames_info s' g = frames_info s g) \<and>
    free_frame_list s' =
      (if references (frames_info s f) = 1 then f # free_frame_list s else free_frame_list s) \<and>
    tlb s' = (if cpu_proc s = None \<or> env_page_directory (envs s (the (cpu_proc s))) = Some dir
      then (tlb s)(PPN va := None) else tlb s)"
proof -
  have f: "bit (phys s t (PTX va)) 0" "unat (PPN (phys s t (PTX va))) = f" using assms(6) by (auto simp: maps_iff)
  show ?thesis
    using unmap_frame_present [OF assms(1-5) f(1)] f(2) available_bits(1) by (auto simp: maps_iff)
qed

section \<open>An address space to evaluate on\<close>

text \<open>16 frames: directory in 10, one table in 11, frames 12 to 14 free, page 1 of the table mapped to 15.\<close>

definition mem_ex :: mem_state where
  "mem_ex = \<lparr>eflags_IF = True, ncli = 0, intena = False, cpu_proc = None, cpu_cr3 = 0,
     scheduler_status = SCH_STOPPED, klocks = (\<lambda>_. free_lock), envs = (\<lambda>_. null_env),
     use_kheap = False, number_of_frames = 16,
     frames_info = (\<lambda>_. null_frame_info)(15 := null_frame_info\<lparr>references := 1\<rparr>),
     free_frame_list = [12, 14], modified_frame_list = [],
     phys = (\<lambda>_ _. 0)(10 := (\<lambda>_. 0)(0 := 0xB007), 11 := (\<lambda>_. 0)(1 := 0xF007)),
     ptr_page_directory = 10, tlb = (\<lambda>_. None)\<rparr>"

lemma mem_ex_ok: "cpu_ok mem_ex" "locks_ok mem_ex"
  by (simp_all add: mem_ex_def cpu_ok_def locks_ok_def)

lemma mem_ex_table: "get_page_table 10 0x1000 mem_ex = Some (TABLE_IN_MEMORY, Some 11)"
  by (simp add: get_page_table_def mem_ex_def PDX_def PERM_PRESENT_def EXTRACT_ADDRESS_def PPN_def
      STATIC_KERNEL_VIRTUAL_ADDRESS_def)

lemma mem_ex_pte: "phys mem_ex 11 i = (if i = 1 then 0xF007 else 0)"
  by (simp add: mem_ex_def)

lemma mem_ex_maps: "maps (phys mem_ex 11 i) f \<longleftrightarrow> i = 1 \<and> f = 15"
  by (auto simp: mem_ex_pte maps_def PERM_PRESENT_def PPN_def)

lemma mem_ex_refs: "refs_ok {11} {12, 13, 14, 15} mem_ex"
proof -
  have "mappings {11} f mem_ex = (if f = 15 then {(11, 1)} else {})" for f
    by (auto simp: mappings_def mem_ex_maps)
  moreover have "pte_ok (phys mem_ex 11 i)" for i
    by (simp add: mem_ex_pte pte_ok_def fos_consts EXTRACT_ADDRESS_def)
  ultimately show ?thesis
    by (simp add: refs_ok_def mem_ex_maps) (simp add: mem_ex_def null_frame_info_def)
qed

lemma mem_ex_sel:
  "references (frames_info mem_ex 15) = 1" "free_frame_list mem_ex = [12, 14]" "cpu_proc mem_ex = None"
  by (simp_all add: mem_ex_def)

lemma mem_ex_PTX: "PTX 0x1000 = 1"
  by (simp add: PTX_def)

text \<open>The address \<open>0x400000\<close> has no table; the frame 12 becomes one.\<close>

lemma mem_ex_no_table: "phys mem_ex 10 (PDX 0x400000) = 0" "PDX 0x400000 = 1"
  by (simp_all add: mem_ex_def PDX_def)


theorem unmap_frame_correct_witness:
  "\<exists>s'. unmap_frame 10 0x1000 mem_ex = Some ((), s') \<and> refs_ok {11} {12, 13, 14, 15} s' \<and>
    phys s' 11 1 = 0xF007 AND PERM_AVAILABLE \<and> (\<forall>g. \<not> maps (phys s' 11 1) g) \<and>
    references (frames_info s' 15) = 0 \<and> free_frame_list s' = [15, 12, 14] \<and> tlb s' = (\<lambda>_. None)"
proof -
  have m: "maps (phys mem_ex 11 (PTX 0x1000)) 15" by (simp only: mem_ex_PTX mem_ex_maps)
  have "tlb mem_ex = (\<lambda>_. None)" by (simp add: mem_ex_def)
  then show ?thesis
    using unmap_frame_correct [OF mem_ex_ok mem_ex_refs mem_ex_table _ m]
    by (auto simp: mem_ex_PTX mem_ex_pte mem_ex_sel fun_upd_idem)
qed

end
