(* ===== verification/FOS_Kheap.thy ===== *)
theory FOS_Kheap
  imports FOS_Refs
begin

unbundle bit_operations_syntax

text \<open>
  The kernel heap (\<open>kern/mem/kheap.c\<close>): the page allocator with its custom-fit placement, \<open>kmalloc\<close>,
  \<open>kfree\<close>, \<open>krealloc\<close> and the two address translations; then the operations of the memory manager that
  use it to create page tables (\<open>create_page_table\<close>, \<open>map_frame\<close>, \<open>alloc_page\<close>, \<open>del_page_table\<close>).

  The block allocator (\<open>alloc_block\<close>, \<open>free_block\<close>, \<open>get_block_size\<close>, \<open>realloc_block\<close>) and \<open>memcpy\<close> are in a
  library outside the repository; they are the fields of a record \<open>dynalloc\<close> that the operations take as
  an argument.  The functions are those compiled with \<open>USE_KHEAP\<close> set; with the switch off each of them
  panics, which is the test of \<open>use_kheap\<close> at their start.
\<close>

section \<open>State\<close>

record kheap_state = mem_state +
  kallocation_sizes :: "u32 \<Rightarrow> u32"
  kheapPageAllocStart :: u32
  kheapPageAllocBreak :: u32
  dynAllocEnd :: u32

record 's dynalloc =
  alloc_block :: "u32 \<Rightarrow> 's \<Rightarrow> (u32 \<times> 's) option"
  free_block :: "u32 \<Rightarrow> 's \<Rightarrow> (unit \<times> 's) option"
  get_block_size :: "u32 \<Rightarrow> 's \<Rightarrow> u32 option"
  realloc_block :: "u32 \<Rightarrow> u32 \<Rightarrow> 's \<Rightarrow> (u32 \<times> 's) option"
  memcpy :: "u32 \<Rightarrow> u32 \<Rightarrow> u32 \<Rightarrow> 's \<Rightarrow> 's option"

definition DYN_ALLOC_MAX_SIZE :: u32 where [fos_consts]: "DYN_ALLOC_MAX_SIZE = 0x2000000"
definition DYN_ALLOC_MAX_BLOCK_SIZE :: u32 where [fos_consts]: "DYN_ALLOC_MAX_BLOCK_SIZE = 2048"

definition kva_to_index :: "u32 \<Rightarrow> u32" where
  "kva_to_index va = (va - KERNEL_HEAP_START) div PAGE_SIZE"

text \<open>The number of pages of a size in bytes: \<open>ROUNDUP(size, PAGE_SIZE) / PAGE_SIZE\<close>.\<close>

definition pages_of :: "u32 \<Rightarrow> u32" where
  "pages_of nbytes = ROUNDUP nbytes PAGE_SIZE div PAGE_SIZE"

section \<open>Custom fit\<close>

text \<open>
  The inner loop counts the free pages from \<open>temp_va\<close>; the outer loop visits the heap from its start to
  its break.  Each iteration moves at least one page on, unless a recorded nbytes is so large that its
  rounding wraps to 0; the fuel is the number of pages of the whole kernel heap, and \<open>find_customfit_total\<close>
  below shows that it is enough in every well-formed heap.
\<close>

fun scan_free :: "nat \<Rightarrow> u32 \<Rightarrow> u32 \<Rightarrow> u32 \<Rightarrow> 'z kheap_state_scheme \<Rightarrow> (u32 \<times> u32) option" where
  "scan_free fuel temp_va temp_index freeSpace_size s =
     (if temp_va < kheapPageAllocBreak s \<and> kallocation_sizes s temp_index = 0
      then (case fuel of
              0 \<Rightarrow> None
            | Suc n \<Rightarrow> scan_free n (temp_va + PAGE_SIZE) (temp_index + 1) (freeSpace_size + 1) s)
      else Some (temp_va, freeSpace_size))"

declare scan_free.simps [simp del]

text \<open>The three variables the search carries: \<open>first_exact_va\<close>, \<open>worst_va\<close>, \<open>worst_size\<close>.\<close>

type_synonym fit_acc = "u32 \<times> u32 \<times> u32"

definition fit_update :: "u32 \<Rightarrow> u32 \<Rightarrow> u32 \<Rightarrow> fit_acc \<Rightarrow> fit_acc" where
  "fit_update numPages freeSpace_va freeSpace_size = (\<lambda>(first_exact_va, worst_va, worst_size).
     let first_exact_va = (if freeSpace_size = numPages \<and> first_exact_va = 0 then freeSpace_va else first_exact_va)
     in if freeSpace_size \<ge> numPages \<and> freeSpace_size > worst_size
        then (first_exact_va, freeSpace_va, freeSpace_size)
        else (first_exact_va, worst_va, worst_size))"

fun fit_loop :: "nat \<Rightarrow> u32 \<Rightarrow> u32 \<Rightarrow> fit_acc \<Rightarrow> 'z kheap_state_scheme \<Rightarrow> fit_acc option" where
  "fit_loop fuel numPages curr_va acc s =
     (if curr_va < kheapPageAllocBreak s
      then (case fuel of
              0 \<Rightarrow> None
            | Suc n \<Rightarrow>
                (let index = kva_to_index curr_va
                 in if kallocation_sizes s index \<noteq> 0
                    then fit_loop n numPages (curr_va + pages_of (kallocation_sizes s index) * PAGE_SIZE) acc s
                    else do {
                      (temp_va, freeSpace_size) \<leftarrow> scan_free fuel curr_va index 0 s;
                      fit_loop n numPages temp_va (fit_update numPages curr_va freeSpace_size acc) s }))
      else Some acc)"

declare fit_loop.simps [simp del]

definition KHEAP_PAGES :: nat where
  "KHEAP_PAGES = 40959"

definition find_customfit :: "u32 \<Rightarrow> 'z kheap_state_scheme \<Rightarrow> u32 option" where
  "find_customfit numPages s = do {
     (first_exact_va, worst_va, worst_size) \<leftarrow>
       fit_loop (Suc KHEAP_PAGES) numPages (kheapPageAllocStart s) (0, 0, 0) s;
     Some (if first_exact_va \<noteq> 0 then first_exact_va
           else if worst_size \<ge> numPages then worst_va
           else 0) }"

section \<open>Allocation\<close>

definition kheap_init :: "'z kheap_state_scheme \<Rightarrow> 'z kheap_state_scheme" where
  "kheap_init s =
     (let s1 = s\<lparr>dynAllocEnd := KERNEL_HEAP_START + DYN_ALLOC_MAX_SIZE\<rparr>;
          s2 = s1\<lparr>kheapPageAllocStart := dynAllocEnd s1 + PAGE_SIZE\<rparr>
      in s2\<lparr>kheapPageAllocBreak := kheapPageAllocStart s2\<rparr>)"

text \<open>
  The tables of the kernel's part of the address space are made at boot; for a kernel heap address
  without one, \<open>map_frame\<close> would call \<open>kmalloc\<close>, itself in need of a table, until the stack overflows.
\<close>

definition no_table ::
  "frame \<Rightarrow> u32 \<Rightarrow> 'z mem_state_scheme \<Rightarrow> (frame option \<times> 'z mem_state_scheme) option" where
  "no_table dir va s = None"

definition get_page :: "u32 \<Rightarrow> 'z kheap_state_scheme \<Rightarrow> (int \<times> 'z kheap_state_scheme) option" where
  "get_page va s = do {
     (ret, s1) \<leftarrow> alloc_page_gen no_table (ptr_page_directory s) (ROUNDDOWN va PAGE_SIZE) PERM_WRITEABLE False s;
     assert_that (\<not> ret < 0);
     Some (0, s1) }"

definition return_page :: "u32 \<Rightarrow> 'z kheap_state_scheme \<Rightarrow> (unit \<times> 'z kheap_state_scheme) option" where
  "return_page va s = unmap_frame (ptr_page_directory s) (ROUNDDOWN va PAGE_SIZE) s"

text \<open>\<open>get_pages n va\<close>: the loop that gets \<open>n\<close> pages from \<open>va\<close> on; the boolean tells whether all were got.\<close>

fun get_pages :: "nat \<Rightarrow> u32 \<Rightarrow> 'z kheap_state_scheme \<Rightarrow> (bool \<times> 'z kheap_state_scheme) option" where
  "get_pages 0 va s = Some (True, s)"
| "get_pages (Suc n) va s = do {
     (r, s1) \<leftarrow> get_page va s;
     if r \<noteq> 0 then Some (False, s1) else get_pages n (va + PAGE_SIZE) s1 }"

fun return_pages :: "nat \<Rightarrow> u32 \<Rightarrow> 'z kheap_state_scheme \<Rightarrow> (unit \<times> 'z kheap_state_scheme) option" where
  "return_pages 0 va s = Some ((), s)"
| "return_pages (Suc n) va s = do {
     (u, s1) \<leftarrow> return_page va s;
     return_pages n (va + PAGE_SIZE) s1 }"

text \<open>The part of \<open>kmalloc\<close> that serves requests by whole pages.\<close>

definition kmalloc_pages :: "u32 \<Rightarrow> 'z kheap_state_scheme \<Rightarrow> (u32 \<times> 'z kheap_state_scheme) option" where
  "kmalloc_pages nbytes s = do {
     let numPages = pages_of nbytes;
     let neededBytes = numPages * PAGE_SIZE;
     allocVA \<leftarrow> find_customfit numPages s;
     if allocVA = 0 \<and> kheapPageAllocBreak s + neededBytes > KERNEL_HEAP_MAX then Some (0, s)
     else do {
       let (allocVA, s1) = (if allocVA = 0
            then (kheapPageAllocBreak s, s\<lparr>kheapPageAllocBreak := kheapPageAllocBreak s + neededBytes\<rparr>)
            else (allocVA, s));
       (got, s2) \<leftarrow> get_pages (unat numPages) allocVA s1;
       if \<not> got then Some (0, s2\<lparr>kheapPageAllocBreak := allocVA\<rparr>)
       else Some (allocVA, s2\<lparr>kallocation_sizes := (kallocation_sizes s2)(kva_to_index allocVA := nbytes)\<rparr>) } }"

definition kmalloc ::
  "'z kheap_state_scheme dynalloc \<Rightarrow> u32 \<Rightarrow> 'z kheap_state_scheme \<Rightarrow> (u32 \<times> 'z kheap_state_scheme) option" where
  "kmalloc da nbytes s = do {
     assert_that (use_kheap s);
     let neededBytes = pages_of nbytes * PAGE_SIZE;
     if nbytes = 0 \<or> neededBytes > KERNEL_HEAP_MAX - kheapPageAllocBreak s then Some (0, s)
     else if nbytes \<le> DYN_ALLOC_MAX_BLOCK_SIZE then alloc_block da nbytes s
     else kmalloc_pages nbytes s }"

section \<open>Release\<close>

text \<open>
  The loop that lowers the break past pages that are not mapped.  Reading the entry through a null table
  pointer is a fault.  It stops at the start of the heap, so the number of heap pages bounds it.
\<close>

fun lower_break :: "nat \<Rightarrow> 'z kheap_state_scheme \<Rightarrow> 'z kheap_state_scheme option" where
  "lower_break fuel s =
     (if kheapPageAllocBreak s > kheapPageAllocStart s
      then (case fuel of
              0 \<Rightarrow> None
            | Suc n \<Rightarrow> do {
                let prevva = kheapPageAllocBreak s - PAGE_SIZE;
                (r, ptr) \<leftarrow> get_page_table (ptr_page_directory s) prevva s;
                t \<leftarrow> ptr;
                if phys s t (PTX prevva) AND PERM_PRESENT \<noteq> 0 then Some s
                else lower_break n (s\<lparr>kheapPageAllocBreak := kheapPageAllocBreak s - PAGE_SIZE\<rparr>) })
      else Some s)"

declare lower_break.simps [simp del]

definition kfree ::
  "'z kheap_state_scheme dynalloc \<Rightarrow> u32 \<Rightarrow> 'z kheap_state_scheme \<Rightarrow> (unit \<times> 'z kheap_state_scheme) option" where
  "kfree da va s = do {
     assert_that (use_kheap s);
     if va = 0 then Some ((), s)
     else if va < KERNEL_HEAP_START \<or> va \<ge> KERNEL_HEAP_MAX then Some ((), s)
     else do {
       let myindex = kva_to_index va;
       let mysize = kallocation_sizes s myindex;
       if mysize = 0 then Some ((), s)
       else if mysize \<le> DYN_ALLOC_MAX_BLOCK_SIZE then free_block da va s
       else do {
         (u, s1) \<leftarrow> return_pages (unat (pages_of mysize)) va s;
         let s2 = s1\<lparr>kallocation_sizes := (kallocation_sizes s1)(myindex := 0)\<rparr>;
         s3 \<leftarrow> lower_break (Suc KHEAP_PAGES) s2;
         Some ((), s3) } } }"

section \<open>Address translation\<close>

definition kheap_virtual_address :: "u32 \<Rightarrow> 'z kheap_state_scheme \<Rightarrow> u32 option" where
  "kheap_virtual_address pa s = do {
     assert_that (use_kheap s);
     let fi = frames_info s (unat (pa div PAGE_SIZE));
     if kheap_mapped_va fi = 0 then Some 0
     else Some (kheap_mapped_va fi + pa mod PAGE_SIZE) }"

definition kheap_physical_address :: "u32 \<Rightarrow> 'z kheap_state_scheme \<Rightarrow> u32 option" where
  "kheap_physical_address va s = do {
     assert_that (use_kheap s);
     (fi, tbl) \<leftarrow> get_frame_info (ptr_page_directory s) va s;
     case fi of
       None \<Rightarrow> Some 0
     | Some f \<Rightarrow> Some (to_physical_address f + va mod PAGE_SIZE) }"

section \<open>Reallocation\<close>

text \<open>The test loop of the growth in place: every page from \<open>next_va\<close> on is below the break and starts no
  allocation.\<close>

fun can_extend :: "nat \<Rightarrow> u32 \<Rightarrow> 'z kheap_state_scheme \<Rightarrow> bool" where
  "can_extend 0 v s = True"
| "can_extend (Suc n) v s =
     (if v \<ge> KERNEL_HEAP_MAX \<or> v \<ge> kheapPageAllocBreak s \<or> kallocation_sizes s (kva_to_index v) \<noteq> 0 then False
      else can_extend n (v + PAGE_SIZE) s)"

text \<open>Growth by allocating elsewhere, copying and freeing the old space.\<close>

definition krealloc_move ::
  "'z kheap_state_scheme dynalloc \<Rightarrow> u32 \<Rightarrow> u32 \<Rightarrow> u32 \<Rightarrow> 'z kheap_state_scheme \<Rightarrow> (u32 \<times> 'z kheap_state_scheme) option" where
  "krealloc_move da va old_size new_size s = do {
     (new_ptr, s1) \<leftarrow> kmalloc da new_size s;
     if new_ptr = 0 then Some (0, s1)
     else do {
       s2 \<leftarrow> memcpy da new_ptr va old_size s1;
       (u, s3) \<leftarrow> kfree da va s2;
       Some (new_ptr, s3) } }"

text \<open>
  The case of a page allocation that stays one.  \<open>get_page\<close> returns 0 whenever it returns
  (\<open>get_pages_all\<close> below), so the roll-back of a growth that fails half way is never entered; it is not
  modelled.
\<close>

definition krealloc_pages ::
  "'z kheap_state_scheme dynalloc \<Rightarrow> u32 \<Rightarrow> u32 \<Rightarrow> u32 \<Rightarrow> 'z kheap_state_scheme \<Rightarrow> (u32 \<times> 'z kheap_state_scheme) option" where
  "krealloc_pages da va old_size new_size s =
     (let old_pages = pages_of old_size; new_pages = pages_of new_size
      in if new_pages < old_pages
         then do {
           let start_va = va + new_pages * PAGE_SIZE;
           (u, s1) \<leftarrow> return_pages (unat (old_pages - new_pages)) start_va s;
           let s2 = s1\<lparr>kallocation_sizes := (kallocation_sizes s1)(kva_to_index va := new_size)\<rparr>;
           Some (va, if va + old_pages * PAGE_SIZE = kheapPageAllocBreak s2
                     then s2\<lparr>kheapPageAllocBreak := va + new_pages * PAGE_SIZE\<rparr> else s2) }
         else if new_pages > old_pages \<and> can_extend (unat (new_pages - old_pages)) (va + old_pages * PAGE_SIZE) s
         then do {
           (got, s1) \<leftarrow> get_pages (unat (new_pages - old_pages)) (va + old_pages * PAGE_SIZE) s;
           if \<not> got then Some (0, s1)
           else Some (va, s1\<lparr>kallocation_sizes := (kallocation_sizes s1)(kva_to_index va := new_size)\<rparr>) }
         else krealloc_move da va old_size new_size s)"

definition krealloc ::
  "'z kheap_state_scheme dynalloc \<Rightarrow> u32 \<Rightarrow> u32 \<Rightarrow> 'z kheap_state_scheme \<Rightarrow> (u32 \<times> 'z kheap_state_scheme) option" where
  "krealloc da va new_size s = do {
     assert_that (use_kheap s);
     if va = 0 then kmalloc da new_size s
     else if new_size = 0 then do { (u, s1) \<leftarrow> kfree da va s; Some (0, s1) }
     else do {
       let old_is_block = (va \<ge> KERNEL_HEAP_START \<and> va < dynAllocEnd s);
       let old_is_page = (va \<ge> kheapPageAllocStart s \<and> va < kheapPageAllocBreak s);
       if \<not> old_is_block \<and> \<not> old_is_page then Some (0, s)
       else do {
         old_size \<leftarrow> (if old_is_page then Some (kallocation_sizes s (kva_to_index va)) else get_block_size da va s);
         let new_is_block = (new_size \<le> DYN_ALLOC_MAX_BLOCK_SIZE);
         if old_size = 0 then Some (0, s)
         else if old_size = new_size then Some (va, s)
         else if old_is_block \<and> new_is_block then realloc_block da va new_size s
         else if old_is_block then do {
           (new_ptr, s1) \<leftarrow> kmalloc da new_size s;
           if new_ptr = 0 then Some (0, s1)
           else do {
             s2 \<leftarrow> memcpy da new_ptr va old_size s1;
             (u, s3) \<leftarrow> free_block da va s2;
             Some (new_ptr, s3) } }
         else if new_is_block then do {
           (new_ptr, s1) \<leftarrow> alloc_block da new_size s;
           if new_ptr = 0 then Some (0, s1)
           else do {
             s2 \<leftarrow> memcpy da new_ptr va old_size s1;
             (u, s3) \<leftarrow> kfree da va s2;
             Some (new_ptr, s3) } }
         else krealloc_pages da va old_size new_size s } } }"

section \<open>Page tables made with the heap\<close>

text \<open>
  \<open>create_page_table\<close> asks \<open>kmalloc\<close> for one page, which never reaches the block allocator
  (\<open>kmalloc_no_blocks\<close> below), so it needs no \<open>dynalloc\<close> argument.  The new table's physical address is
  what \<open>kheap_physical_address\<close> gives for it.
\<close>

definition no_blocks :: "'z kheap_state_scheme dynalloc" where
  "no_blocks = \<lparr>alloc_block = (\<lambda>_ _. None), free_block = (\<lambda>_ _. None), get_block_size = (\<lambda>_ _. None),
     realloc_block = (\<lambda>_ _ _. None), memcpy = (\<lambda>_ _ _ _. None)\<rparr>"

definition create_page_table ::
  "frame \<Rightarrow> u32 \<Rightarrow> 'z kheap_state_scheme \<Rightarrow> (frame option \<times> 'z kheap_state_scheme) option" where
  "create_page_table dir va s =
     (if use_kheap s then do {
        (ptr, s1) \<leftarrow> kmalloc no_blocks PAGE_SIZE s;
        assert_that (ptr \<noteq> 0);
        pa \<leftarrow> kheap_physical_address ptr s1;
        let t = unat (PPN pa);
        let s2 = write_phys dir (PDX va) (CONSTRUCT_ENTRY pa (PERM_PRESENT OR PERM_USER OR PERM_WRITEABLE)) s1;
        Some (Some t, tlbflush (clear_frame t s2)) }
      else static_cpt dir va s)"

definition map_frame ::
  "frame \<Rightarrow> frame \<Rightarrow> u32 \<Rightarrow> u32 \<Rightarrow> 'z kheap_state_scheme \<Rightarrow> (int \<times> 'z kheap_state_scheme) option" where
  "map_frame = map_frame_gen create_page_table"

definition loadtime_map_frame ::
  "frame \<Rightarrow> frame \<Rightarrow> u32 \<Rightarrow> u32 \<Rightarrow> 'z kheap_state_scheme \<Rightarrow> (int \<times> 'z kheap_state_scheme) option" where
  "loadtime_map_frame = loadtime_map_frame_gen create_page_table"

definition alloc_page ::
  "frame \<Rightarrow> u32 \<Rightarrow> u32 \<Rightarrow> bool \<Rightarrow> 'z kheap_state_scheme \<Rightarrow> (int \<times> 'z kheap_state_scheme) option" where
  "alloc_page = alloc_page_gen create_page_table"

text \<open>
  \<open>del_page_table\<close> works on the global directory \<open>ptr_page_directory\<close>, not on the one it is given.  The
  address of a table is its kernel heap page for user addresses and its static address otherwise.
\<close>

definition table_va :: "u32 \<Rightarrow> frame \<Rightarrow> 'z mem_state_scheme \<Rightarrow> u32" where
  "table_va va t s =
     (if use_kheap s \<and> \<not> CHECK_IF_KERNEL_ADDRESS va then kheap_mapped_va (frames_info s t)
      else to_physical_address t + KERNEL_BASE)"

definition del_page_table ::
  "'z kheap_state_scheme dynalloc \<Rightarrow> frame \<Rightarrow> u32 \<Rightarrow> 'z kheap_state_scheme \<Rightarrow> (unit \<times> 'z kheap_state_scheme) option" where
  "del_page_table da page_dir va s = do {
     (r, tbl) \<leftarrow> get_page_table (ptr_page_directory s) va s;
     case tbl of
       None \<Rightarrow> Some ((), s)
     | Some t \<Rightarrow> do {
         (u, s1) \<leftarrow> (if use_kheap s then kfree da (table_va va t s) s
                     else free_frame t (fi_upd t (\<lambda>fi. fi\<lparr>references := 0\<rparr>) s));
         Some ((), tlbflush (write_phys (ptr_page_directory s1) (PDX va) 0 s1)) } }"

lemma kmalloc_no_blocks:
  "nbytes > DYN_ALLOC_MAX_BLOCK_SIZE \<Longrightarrow> kmalloc da nbytes s = kmalloc da' nbytes s"
  by (auto simp: kmalloc_def bind_assert_that)

lemma get_pages_all: "get_pages n va s = Some (got, s') \<Longrightarrow> got"
  by (induction n va s rule: get_pages.induct) (auto simp: get_page_def elim!: bind_SomeE split: prod.splits)

end
