(* ===== verification/FOS_KheapFit.thy ===== *)
theory FOS_KheapFit
  imports FOS_Kheap
begin

text \<open>
  The custom-fit search of the kernel heap meets its specification: the first hole that fits exactly,
  else the first among the largest holes that are big enough, else nothing.  The heap is seen as
  numbered pages; a page is covered when it lies in a recorded allocation, and a hole is a maximal run
  of pages that are not covered.
\<close>

section \<open>The heap as numbered pages\<close>

definition heap_ok :: "'z kheap_state_scheme \<Rightarrow> bool" where
  "heap_ok s \<longleftrightarrow> 4096 dvd unat (kheapPageAllocStart s) \<and> 4096 dvd unat (kheapPageAllocBreak s) \<and>
     KERNEL_HEAP_START \<le> kheapPageAllocStart s \<and> kheapPageAllocStart s \<le> kheapPageAllocBreak s \<and>
     kheapPageAllocBreak s \<le> KERNEL_HEAP_MAX"

definition npages :: "'z kheap_state_scheme \<Rightarrow> nat" where
  "npages s = (unat (kheapPageAllocBreak s) - unat (kheapPageAllocStart s)) div 4096"

definition pg :: "nat \<Rightarrow> 'z kheap_state_scheme \<Rightarrow> u32" where
  "pg k s = kheapPageAllocStart s + of_nat k * PAGE_SIZE"

definition sz :: "nat \<Rightarrow> 'z kheap_state_scheme \<Rightarrow> u32" where
  "sz k s = kallocation_sizes s (kva_to_index (pg k s))"

definition len :: "nat \<Rightarrow> 'z kheap_state_scheme \<Rightarrow> nat" where
  "len k s = unat (pages_of (sz k s))"

text \<open>Recorded allocations have at least a page, lie below the break and do not overlap.\<close>

definition alloc_ok :: "'z kheap_state_scheme \<Rightarrow> bool" where
  "alloc_ok s \<longleftrightarrow> (\<forall>k < npages s. sz k s \<noteq> 0 \<longrightarrow>
     0 < len k s \<and> k + len k s \<le> npages s \<and> (\<forall>j. k < j \<and> j < k + len k s \<longrightarrow> sz j s = 0))"

definition covered :: "nat \<Rightarrow> 'z kheap_state_scheme \<Rightarrow> bool" where
  "covered j s \<longleftrightarrow> (\<exists>k < npages s. sz k s \<noteq> 0 \<and> k \<le> j \<and> j < k + len k s)"

definition is_hole :: "nat \<Rightarrow> nat \<Rightarrow> 'z kheap_state_scheme \<Rightarrow> bool" where
  "is_hole a m s \<longleftrightarrow> 0 < m \<and> a + m \<le> npages s \<and> (\<forall>j. a \<le> j \<and> j < a + m \<longrightarrow> \<not> covered j s) \<and>
     (a = 0 \<or> covered (a - 1) s) \<and> (a + m = npages s \<or> covered (a + m) s)"

lemma alloc_okD:
  assumes "alloc_ok s" "k < npages s" "sz k s \<noteq> 0"
  shows "0 < len k s" "k + len k s \<le> npages s" "k < j \<Longrightarrow> j < k + len k s \<Longrightarrow> sz j s = 0"
  using assms unfolding alloc_ok_def by blast+

lemma heap_ok_bounds:
  assumes "heap_ok s"
  shows "unat (kheapPageAllocStart s) + 4096 * npages s = unat (kheapPageAllocBreak s)"
    "unat (kheapPageAllocBreak s) \<le> 0xFFFFF000" "0xF6000000 \<le> unat (kheapPageAllocStart s)"
    "npages s \<le> KHEAP_PAGES"
proof -
  have le: "unat (kheapPageAllocStart s) \<le> unat (kheapPageAllocBreak s)"
    using assms by (simp add: heap_ok_def word_le_nat_alt)
  have "4096 dvd unat (kheapPageAllocBreak s) - unat (kheapPageAllocStart s)"
    using assms by (auto simp: heap_ok_def intro: dvd_diff_nat)
  then show e: "unat (kheapPageAllocStart s) + 4096 * npages s = unat (kheapPageAllocBreak s)"
    using le by (simp add: npages_def)
  show b: "unat (kheapPageAllocBreak s) \<le> 0xFFFFF000"
    using assms by (simp add: heap_ok_def word_le_nat_alt KERNEL_HEAP_MAX_def)
  show c: "0xF6000000 \<le> unat (kheapPageAllocStart s)"
    using assms by (simp add: heap_ok_def word_le_nat_alt KERNEL_HEAP_START_def)
  show "npages s \<le> KHEAP_PAGES" using b c e by (simp add: KHEAP_PAGES_def)
qed

text \<open>The number of pages there is room for between the start of the page allocator and the heap limit.\<close>

definition maxpages :: "'z kheap_state_scheme \<Rightarrow> nat" where
  "maxpages s = (0xFFFFF000 - unat (kheapPageAllocStart s)) div 4096"

lemma npages_le_maxpages: "heap_ok s \<Longrightarrow> npages s \<le> maxpages s"
  using heap_ok_bounds(2) [of s] by (simp add: npages_def maxpages_def div_le_mono)

lemma maxpages_bound: "k \<le> maxpages s \<Longrightarrow> heap_ok s \<Longrightarrow> unat (kheapPageAllocStart s) + 4096 * k \<le> 0xFFFFF000"
  using heap_ok_bounds(1,2) [of s] by (simp add: maxpages_def less_eq_div_iff_mult_less_eq algebra_simps)

lemma unat_pg_max:
  assumes "heap_ok s" "k \<le> maxpages s"
  shows "unat (pg k s) = unat (kheapPageAllocStart s) + 4096 * k"
proof -
  have b: "unat (kheapPageAllocStart s) + 4096 * k \<le> 0xFFFFF000" by (rule maxpages_bound [OF assms(2,1)])
  then have k: "unat (of_nat k * PAGE_SIZE :: u32) = 4096 * k"
    by (simp add: PAGE_SIZE_def unat_word_ariths unat_of_nat_u32)
  have "unat (kheapPageAllocStart s) + 4096 * k < 2 ^ LENGTH(32)" using b by simp
  with k show ?thesis by (simp add: pg_def unat_word_ariths)
qed

lemma unat_pg: "heap_ok s \<Longrightarrow> k \<le> npages s \<Longrightarrow> unat (pg k s) = unat (kheapPageAllocStart s) + 4096 * k"
  using npages_le_maxpages [of s] by (simp add: unat_pg_max)

lemma pg_less_break: "heap_ok s \<Longrightarrow> k \<le> npages s \<Longrightarrow> pg k s < kheapPageAllocBreak s \<longleftrightarrow> k < npages s"
  using heap_ok_bounds(1) [of s] by (auto simp: word_less_nat_alt unat_pg)

lemma pg_nonzero: "heap_ok s \<Longrightarrow> k \<le> npages s \<Longrightarrow> pg k s \<noteq> 0"
  using heap_ok_bounds(3) [of s] unat_pg [of s k] by auto

lemma pg_inj: "heap_ok s \<Longrightarrow> j \<le> npages s \<Longrightarrow> k \<le> npages s \<Longrightarrow> pg j s = pg k s \<longleftrightarrow> j = k"
  by (simp add: word_unat_eq_iff unat_pg)

lemma pg_add: "pg k s + of_nat n * PAGE_SIZE = pg (k + n) s"
  by (simp add: pg_def algebra_simps)

lemma pg_Suc: "pg k s + PAGE_SIZE = pg (Suc k) s"
  using pg_add [of k s 1] by simp

lemma unat_kva_to_index_max:
  assumes "heap_ok s" "k \<le> maxpages s"
  shows "unat (kva_to_index (pg k s)) = (unat (kheapPageAllocStart s) - 0xF6000000) div 4096 + k"
proof -
  note b = heap_ok_bounds [OF assms(1)]
  have "KERNEL_HEAP_START \<le> pg k s"
    using b(3) by (simp add: word_le_nat_alt unat_pg_max [OF assms] KERNEL_HEAP_START_def)
  then have "unat (pg k s - KERNEL_HEAP_START) = unat (kheapPageAllocStart s) + 4096 * k - 0xF6000000"
    by (simp add: unat_sub unat_pg_max [OF assms] KERNEL_HEAP_START_def)
  also have "\<dots> = (unat (kheapPageAllocStart s) - 0xF6000000) + 4096 * k" using b(3) by simp
  finally show ?thesis by (simp add: kva_to_index_def unat_div PAGE_SIZE_def)
qed

lemma unat_kva_to_index:
  "heap_ok s \<Longrightarrow> k \<le> npages s \<Longrightarrow>
     unat (kva_to_index (pg k s)) = (unat (kheapPageAllocStart s) - 0xF6000000) div 4096 + k"
  using npages_le_maxpages [of s] by (simp add: unat_kva_to_index_max)

lemma kva_to_index_inj:
  "heap_ok s \<Longrightarrow> j \<le> maxpages s \<Longrightarrow> k \<le> maxpages s \<Longrightarrow> kva_to_index (pg j s) = kva_to_index (pg k s) \<longleftrightarrow> j = k"
  by (simp add: word_unat_eq_iff unat_kva_to_index_max)

lemma kva_to_index_Suc:
  assumes "heap_ok s" "Suc k \<le> npages s"
  shows "kva_to_index (pg k s) + 1 = kva_to_index (pg (Suc k) s)"
proof -
  have "unat (kva_to_index (pg k s)) + 1 = unat (kva_to_index (pg (Suc k) s))"
    using assms by (simp add: unat_kva_to_index)
  moreover have "unat (kva_to_index (pg (Suc k) s)) < 2 ^ LENGTH(32)" by (rule unsigned_less)
  ultimately have "unat (kva_to_index (pg k s) + 1) = unat (kva_to_index (pg (Suc k) s))"
    by (simp add: unat_word_ariths)
  then show ?thesis by (simp add: word_unat_eq_iff)
qed

section \<open>Counting free pages\<close>

text \<open>The length of the run of pages from \<open>k\<close> on that start no allocation.\<close>

definition run :: "nat \<Rightarrow> 'z kheap_state_scheme \<Rightarrow> nat" where
  "run k s = length (takeWhile (\<lambda>j. sz j s = 0) [k..<npages s])"

lemma run_end: "npages s \<le> k \<Longrightarrow> run k s = 0"
  by (simp add: run_def)

lemma run_step: "k < npages s \<Longrightarrow> run k s = (if sz k s = 0 then Suc (run (Suc k) s) else 0)"
  by (simp add: run_def upt_conv_Cons)

lemma run_props:
  assumes "k \<le> npages s"
  shows "k + run k s \<le> npages s" "\<forall>j. k \<le> j \<and> j < k + run k s \<longrightarrow> sz j s = 0"
    "k + run k s = npages s \<or> sz (k + run k s) s \<noteq> 0"
proof -
  have "k + run k s \<le> npages s \<and> (\<forall>j. k \<le> j \<and> j < k + run k s \<longrightarrow> sz j s = 0) \<and>
      (k + run k s = npages s \<or> sz (k + run k s) s \<noteq> 0)"
    using assms
  proof (induction "npages s - k" arbitrary: k)
    case 0
    then show ?case by (auto simp: run_end)
  next
    case (Suc d)
    then have k: "k < npages s" by simp
    with Suc.hyps(1) [of "Suc k"] Suc.hyps(2) have
      IH: "Suc k + run (Suc k) s \<le> npages s" "\<forall>j. Suc k \<le> j \<and> j < Suc k + run (Suc k) s \<longrightarrow> sz j s = 0"
        "Suc k + run (Suc k) s = npages s \<or> sz (Suc k + run (Suc k) s) s \<noteq> 0" by auto
    show ?case
    proof (cases "sz k s = 0")
      case True
      have "sz j s = 0" if "k \<le> j" "j < Suc (k + run (Suc k) s)" for j
        using that True IH(2) by (cases "j = k") auto
      with True IH(1,3) k show ?thesis by (simp add: run_step [OF k])
    next
      case False
      with k show ?thesis by (auto simp: run_step)
    qed
  qed
  then show "k + run k s \<le> npages s" "\<forall>j. k \<le> j \<and> j < k + run k s \<longrightarrow> sz j s = 0"
    "k + run k s = npages s \<or> sz (k + run k s) s \<noteq> 0" by blast+
qed

lemma scan_free_run:
  assumes "heap_ok s" "k \<le> npages s" "npages s - k \<le> fuel"
  shows "scan_free fuel (pg k s) (kva_to_index (pg k s)) c s = Some (pg (k + run k s) s, c + of_nat (run k s))"
  using assms(2,3)
proof (induction fuel arbitrary: k c)
  case 0
  then show ?case using assms(1) by (simp add: scan_free.simps pg_less_break run_end)
next
  case (Suc fuel)
  show ?case
  proof (cases "k < npages s \<and> sz k s = 0")
    case True
    then have "scan_free fuel (pg (Suc k) s) (kva_to_index (pg (Suc k) s)) (c + 1) s =
        Some (pg (Suc k + run (Suc k) s) s, c + 1 + of_nat (run (Suc k) s))"
      using Suc by simp
    with True assms(1) Suc.prems show ?thesis
      by (subst scan_free.simps) (simp add: pg_less_break run_step sz_def pg_Suc kva_to_index_Suc add.assoc)
  next
    case False
    then have "run k s = 0" using Suc.prems run_step [of k s] run_end [of s k] by (cases "k < npages s") auto
    with False assms(1) Suc.prems show ?thesis
      by (subst scan_free.simps) (auto simp: pg_less_break sz_def)
  qed
qed

section \<open>The search\<close>

text \<open>
  \<open>at_boundary k s\<close>: the places the search visits.  Page \<open>k\<close> is not inside an allocation, and when it
  is free the page before it is covered.
\<close>

definition at_boundary :: "nat \<Rightarrow> 'z kheap_state_scheme \<Rightarrow> bool" where
  "at_boundary k s \<longleftrightarrow> k \<le> npages s \<and> (\<forall>c < npages s. sz c s \<noteq> 0 \<and> c < k \<longrightarrow> c + len c s \<le> k) \<and>
     (k < npages s \<and> sz k s = 0 \<longrightarrow> k = 0 \<or> covered (k - 1) s)"

lemma boundary_start: "at_boundary 0 s"
  by (simp add: at_boundary_def)

lemma at_boundaryD:
  "at_boundary k s \<Longrightarrow> c < npages s \<Longrightarrow> sz c s \<noteq> 0 \<Longrightarrow> c < k \<Longrightarrow> c + len c s \<le> k"
  "at_boundary k s \<Longrightarrow> k \<le> npages s"
  by (simp_all add: at_boundary_def)

lemma boundary_used:
  assumes "alloc_ok s" "at_boundary k s" "k < npages s" "sz k s \<noteq> 0"
  shows "at_boundary (k + len k s) s" "0 < len k s"
    "\<And>b m. is_hole b m s \<Longrightarrow> b < k + len k s \<Longrightarrow> b < k"
proof -
  have l: "0 < len k s" "k + len k s \<le> npages s" "\<forall>j. k < j \<and> j < k + len k s \<longrightarrow> sz j s = 0"
    using alloc_okD [OF assms(1,3,4)] by blast+
  show "0 < len k s" by (fact l)
  have "k \<le> k + len k s - 1" "k + len k s - 1 < k + len k s" using l by simp_all
  then have "covered (k + len k s - 1) s" using assms(3,4) unfolding covered_def by blast
  moreover have "c + len c s \<le> k + len k s" if "c < npages s" "sz c s \<noteq> 0" "c < k + len k s" for c
  proof (cases c k rule: linorder_cases)
    case less
    with at_boundaryD(1) [OF assms(2) that(1,2)] show ?thesis by simp
  next
    case greater
    with l(3) that show ?thesis by simp
  qed simp
  ultimately show "at_boundary (k + len k s) s" using l by (auto simp: at_boundary_def)
  fix b m
  assume "is_hole b m s" "b < k + len k s"
  then have "\<not> covered b s" by (simp add: is_hole_def)
  with \<open>b < k + len k s\<close> assms(3,4) show "b < k" unfolding covered_def by (metis not_le)
qed

lemma boundary_free:
  assumes "alloc_ok s" "at_boundary k s" "k < npages s" "sz k s = 0"
  shows "at_boundary (k + run k s) s" "0 < run k s" "is_hole k (run k s) s"
    "\<And>b m. is_hole b m s \<Longrightarrow> b < k + run k s \<Longrightarrow> b < k \<or> b = k \<and> m = run k s"
proof -
  have r: "k + run k s \<le> npages s" "\<forall>j. k \<le> j \<and> j < k + run k s \<longrightarrow> sz j s = 0"
    "k + run k s = npages s \<or> sz (k + run k s) s \<noteq> 0" using run_props [of k s] assms(3) by auto
  show pos: "0 < run k s" using assms(3,4) by (simp add: run_step)
  have nc: "\<not> covered j s" if "k \<le> j" "j < k + run k s" for j
  proof
    assume "covered j s"
    then obtain c where c: "c < npages s" "sz c s \<noteq> 0" "c \<le> j" "j < c + len c s" by (auto simp: covered_def)
    show False
    proof (cases "c < k")
      case True
      with at_boundaryD(1) [OF assms(2) c(1,2)] c(4) that(1) show False by simp
    next
      case False
      with c that r(2) show False by auto
    qed
  qed
  have fin: "k + run k s = npages s \<or> covered (k + run k s) s"
  proof (cases "k + run k s = npages s")
    case False
    then have "k + run k s < npages s" "sz (k + run k s) s \<noteq> 0" using r by auto
    moreover from this have "0 < len (k + run k s) s" using alloc_okD(1) [OF assms(1)] by blast
    ultimately show ?thesis unfolding covered_def by (metis le_refl less_add_same_cancel1)
  qed simp
  have before: "k = 0 \<or> covered (k - 1) s" using assms(2-4) by (auto simp: at_boundary_def)
  show hole: "is_hole k (run k s) s" using r(1) pos nc fin before by (simp add: is_hole_def)
  have "c + len c s \<le> k + run k s" if "c < npages s" "sz c s \<noteq> 0" "c < k + run k s" for c
    using that r(2) at_boundaryD(1) [OF assms(2) that(1,2)] by (cases "c < k") auto
  with r show "at_boundary (k + run k s) s" by (auto simp: at_boundary_def)
  fix b m
  assume h: "is_hole b m s" "b < k + run k s"
  show "b < k \<or> b = k \<and> m = run k s"
  proof (cases "b \<le> k")
    case True
    show ?thesis
    proof (cases "b = k")
      case True
      have "\<not> m < run k s" using h True nc [of "k + m"] r(1) by (auto simp: is_hole_def)
      moreover have "\<not> run k s < m"
        using h(1) True fin by (auto simp: is_hole_def)
      ultimately show ?thesis using True by simp
    qed (use True in simp)
  next
    case False
    then have "covered (b - 1) s" using h(1) by (auto simp: is_hole_def)
    with False h(2) nc [of "b - 1"] show ?thesis by auto
  qed
qed

text \<open>
  What the three variables say when the search stands at page \<open>k\<close>: \<open>e\<close> is the first exact hole and
  \<open>w\<close>, \<open>wz\<close> the first of the largest sufficient holes, among those that start before \<open>k\<close>.
\<close>

definition exact_ok :: "nat \<Rightarrow> nat \<Rightarrow> u32 \<Rightarrow> 'z kheap_state_scheme \<Rightarrow> bool" where
  "exact_ok n k e s \<longleftrightarrow> (e = 0 \<and> (\<forall>b. is_hole b n s \<longrightarrow> k \<le> b)) \<or>
     (\<exists>a<k. e = pg a s \<and> is_hole a n s \<and> (\<forall>b. is_hole b n s \<longrightarrow> a \<le> b))"

definition worst_ok :: "nat \<Rightarrow> nat \<Rightarrow> u32 \<Rightarrow> u32 \<Rightarrow> 'z kheap_state_scheme \<Rightarrow> bool" where
  "worst_ok n k w wz s \<longleftrightarrow> (w = 0 \<and> wz = 0 \<and> (\<forall>b m. is_hole b m s \<and> b < k \<longrightarrow> m < n)) \<or>
     (\<exists>a m. a < k \<and> w = pg a s \<and> wz = of_nat m \<and> is_hole a m s \<and> n \<le> m \<and>
       (\<forall>b m'. is_hole b m' s \<and> b < k \<longrightarrow> m' < m \<or> m' = m \<and> a \<le> b))"

lemma exact_ok_none: "(\<And>b. is_hole b n s \<Longrightarrow> k \<le> b) \<Longrightarrow> exact_ok n k 0 s"
  by (simp add: exact_ok_def)

lemma exact_ok_some:
  "a < k \<Longrightarrow> is_hole a n s \<Longrightarrow> (\<And>b. is_hole b n s \<Longrightarrow> a \<le> b) \<Longrightarrow> exact_ok n k (pg a s) s"
  unfolding exact_ok_def by blast

lemma exact_okE:
  assumes "exact_ok n k e s"
  obtains "e = 0" "\<And>b. is_hole b n s \<Longrightarrow> k \<le> b"
  | a where "a < k" "e = pg a s" "is_hole a n s" "\<And>b. is_hole b n s \<Longrightarrow> a \<le> b"
  using assms unfolding exact_ok_def by blast

lemma worst_ok_none: "(\<And>b m. is_hole b m s \<Longrightarrow> b < k \<Longrightarrow> m < n) \<Longrightarrow> worst_ok n k 0 0 s"
  unfolding worst_ok_def by blast

lemma worst_ok_some:
  "a < k \<Longrightarrow> is_hole a m s \<Longrightarrow> n \<le> m \<Longrightarrow>
   (\<And>b m'. is_hole b m' s \<Longrightarrow> b < k \<Longrightarrow> m' < m \<or> m' = m \<and> a \<le> b) \<Longrightarrow> worst_ok n k (pg a s) (of_nat m) s"
  unfolding worst_ok_def by blast

lemma worst_okE:
  assumes "worst_ok n k w wz s"
  obtains "w = 0" "wz = 0" "\<And>b m. is_hole b m s \<Longrightarrow> b < k \<Longrightarrow> m < n"
  | a m where "a < k" "w = pg a s" "wz = of_nat m" "is_hole a m s" "n \<le> m"
      "\<And>b m'. is_hole b m' s \<Longrightarrow> b < k \<Longrightarrow> m' < m \<or> m' = m \<and> a \<le> b"
  using assms unfolding worst_ok_def by blast

lemma fit_ok_used:
  assumes new: "\<And>b m. is_hole b m s \<Longrightarrow> b < k' \<Longrightarrow> b < k" and "k \<le> k'"
  shows "exact_ok n k e s \<Longrightarrow> exact_ok n k' e s" "worst_ok n k w wz s \<Longrightarrow> worst_ok n k' w wz s"
proof -
  assume "exact_ok n k e s"
  then show "exact_ok n k' e s"
  proof (rule exact_okE)
    assume h: "e = 0" "\<And>b. is_hole b n s \<Longrightarrow> k \<le> b"
    have "k' \<le> b" if "is_hole b n s" for b using h(2) [OF that] new [OF that] by (meson not_le)
    with h(1) show ?thesis using exact_ok_none by blast
  next
    fix a
    assume "a < k" "e = pg a s" "is_hole a n s" "\<And>b. is_hole b n s \<Longrightarrow> a \<le> b"
    with assms(2) show ?thesis using exact_ok_some [of a k' n s] by simp
  qed
next
  assume "worst_ok n k w wz s"
  then show "worst_ok n k' w wz s"
  proof (rule worst_okE)
    assume h: "w = 0" "wz = 0" "\<And>b m. is_hole b m s \<Longrightarrow> b < k \<Longrightarrow> m < n"
    with new show ?thesis using worst_ok_none by blast
  next
    fix a m
    assume h: "a < k" "w = pg a s" "wz = of_nat m" "is_hole a m s" "n \<le> m"
      "\<And>b m'. is_hole b m' s \<Longrightarrow> b < k \<Longrightarrow> m' < m \<or> m' = m \<and> a \<le> b"
    then have "a < k'" using assms(2) by simp
    then show ?thesis unfolding h(2,3) using h(4-6) new by (intro worst_ok_some) blast+
  qed
qed

lemma of_nat_hole_le:
  assumes "heap_ok s" "is_hole a m s" "n < 2 ^ 32"
  shows "(of_nat n :: u32) \<le> of_nat m \<longleftrightarrow> n \<le> m" "(of_nat m :: u32) = of_nat n \<longleftrightarrow> m = n"
    "(of_nat n :: u32) < of_nat m \<longleftrightarrow> n < m" "m < 2 ^ 32"
proof -
  show m: "m < 2 ^ 32" using assms(2) heap_ok_bounds(4) [OF assms(1)] by (simp add: is_hole_def KHEAP_PAGES_def)
  show "(of_nat n :: u32) \<le> of_nat m \<longleftrightarrow> n \<le> m" "(of_nat m :: u32) = of_nat n \<longleftrightarrow> m = n"
    "(of_nat n :: u32) < of_nat m \<longleftrightarrow> n < m"
    using m assms(3) by (simp_all add: word_le_nat_alt word_less_nat_alt word_unat_eq_iff unat_of_nat_u32)
qed

lemma exact_ok_free:
  assumes "heap_ok s" "k \<le> npages s" "is_hole k r s" "n < 2 ^ 32"
    and new: "\<And>b m. is_hole b m s \<Longrightarrow> b < k' \<Longrightarrow> b < k \<or> b = k \<and> m = r" and "k < k'"
    and old: "exact_ok n k e s"
  shows "exact_ok n k' (if (of_nat r :: u32) = of_nat n \<and> e = 0 then pg k s else e) s"
  using old
proof (rule exact_okE)
  assume h: "e = 0" "\<And>b. is_hole b n s \<Longrightarrow> k \<le> b"
  show ?thesis
  proof (cases "r = n")
    case True
    have "exact_ok n k' (pg k s) s" using assms(3,6) True h(2) by (intro exact_ok_some) simp_all
    with True h(1) show ?thesis by simp
  next
    case False
    have "k' \<le> b" if "is_hole b n s" for b
      using h(2) [OF that] new [OF that] False by (cases "b < k'") auto
    then have "exact_ok n k' 0 s" by (rule exact_ok_none)
    with False h(1) of_nat_hole_le(2) [OF assms(1,3,4)] show ?thesis by simp
  qed
next
  fix a
  assume h: "a < k" "e = pg a s" "is_hole a n s" "\<And>b. is_hole b n s \<Longrightarrow> a \<le> b"
  have "exact_ok n k' (pg a s) s" using h assms(6) by (intro exact_ok_some) simp_all
  moreover have "pg a s \<noteq> 0" using pg_nonzero [OF assms(1), of a] h(1) assms(2) by simp
  ultimately show ?thesis using h(2) by simp
qed

lemma worst_ok_free:
  assumes "heap_ok s" "is_hole k r s" "n < 2 ^ 32"
    and new: "\<And>b m. is_hole b m s \<Longrightarrow> b < k' \<Longrightarrow> b < k \<or> b = k \<and> m = r" and "k < k'"
    and old: "worst_ok n k w wz s"
  shows "if of_nat n \<le> (of_nat r :: u32) \<and> wz < of_nat r then worst_ok n k' (pg k s) (of_nat r) s
    else worst_ok n k' w wz s"
  using old
proof (rule worst_okE)
  note le = of_nat_hole_le [OF assms(1,2,3)]
  assume h: "w = 0" "wz = 0" "\<And>b m. is_hole b m s \<Longrightarrow> b < k \<Longrightarrow> m < n"
  have z: "wz < of_nat r"
    using h(2) le(4) assms(2) by (simp add: word_less_nat_alt unat_of_nat_u32 is_hole_def)
  show ?thesis
  proof (cases "n \<le> r")
    case True
    have "m' < r \<or> m' = r \<and> k \<le> b" if "is_hole b m' s" "b < k'" for b m'
      using new [OF that] h(3) [OF that(1)] True by auto
    with True assms(2,5) have "worst_ok n k' (pg k s) (of_nat r) s" by (intro worst_ok_some) auto
    with True z le(1) show ?thesis by simp
  next
    case False
    have "m < n" if "is_hole b m s" "b < k'" for b m
      using new [OF that] h(3) [OF that(1)] False by auto
    then have "worst_ok n k' 0 0 s" by (rule worst_ok_none)
    with False le(1) h(1,2) show ?thesis by simp
  qed
next
  fix a m
  assume h: "a < k" "w = pg a s" "wz = of_nat m" "is_hole a m s" "n \<le> m"
    "\<And>b m'. is_hole b m' s \<Longrightarrow> b < k \<Longrightarrow> m' < m \<or> m' = m \<and> a \<le> b"
  have mr: "wz < of_nat r \<longleftrightarrow> m < r"
    using h(3) of_nat_hole_le(4) [OF assms(1) h(4) assms(3)] of_nat_hole_le(3) [OF assms(1,2)] by simp
  show ?thesis
  proof (cases "m < r")
    case True
    have "m' < r \<or> m' = r \<and> k \<le> b" if "is_hole b m' s" "b < k'" for b m'
      using new [OF that] h(6) [OF that(1)] True by auto
    with True h(5) assms(2,5) have "worst_ok n k' (pg k s) (of_nat r) s" by (intro worst_ok_some) auto
    with True mr of_nat_hole_le(1) [OF assms(1,2,3)] h(5) show ?thesis by simp
  next
    case False
    have "m' < m \<or> m' = m \<and> a \<le> b" if "is_hole b m' s" "b < k'" for b m'
      using new [OF that] h(1) h(6) [OF that(1)] False by auto
    with h(1,4,5) assms(5) have "worst_ok n k' (pg a s) (of_nat m) s" by (intro worst_ok_some) auto
    with False mr h(2,3) show ?thesis by simp
  qed
qed

lemma fit_loop_ok:
  assumes ok: "heap_ok s" "alloc_ok s" "n < 2 ^ 32"
  shows "at_boundary k s \<Longrightarrow> exact_ok n k e s \<Longrightarrow> worst_ok n k w wz s \<Longrightarrow> npages s - k < fuel \<Longrightarrow>
    \<exists>e' w' wz'. fit_loop fuel (of_nat n) (pg k s) (e, w, wz) s = Some (e', w', wz') \<and>
      exact_ok n (npages s) e' s \<and> worst_ok n (npages s) w' wz' s"
proof (induction fuel arbitrary: k e w wz)
  case 0
  then show ?case by simp
next
  case (Suc fuel)
  have k: "k \<le> npages s" using Suc.prems(1) by (rule at_boundaryD)
  consider (fin) "k = npages s" | (used) "k < npages s" "sz k s \<noteq> 0" | (free) "k < npages s" "sz k s = 0"
    using k by linarith
  then show ?case
  proof cases
    case fin
    with Suc.prems ok(1) show ?thesis by (subst fit_loop.simps) (simp add: pg_less_break)
  next
    case used
    note b = boundary_used [OF ok(2) Suc.prems(1) used]
    have next_va: "pg k s + pages_of (sz k s) * PAGE_SIZE = pg (k + len k s) s"
      using pg_add [of k s "len k s"] by (simp add: len_def)
    have ex: "exact_ok n (k + len k s) e s"
      using fit_ok_used(1) [of s "k + len k s" k, OF _ le_add1 Suc.prems(2)] b(3) by blast
    have wo: "worst_ok n (k + len k s) w wz s"
      using fit_ok_used(2) [of s "k + len k s" k, OF _ le_add1 Suc.prems(3)] b(3) by blast
    have "npages s - (k + len k s) < fuel" using b(2) Suc.prems(4) used(1) by linarith
    from Suc.IH [OF b(1) ex wo this] obtain e' w' wz' where
      r: "fit_loop fuel (of_nat n) (pg (k + len k s) s) (e, w, wz) s = Some (e', w', wz')"
        "exact_ok n (npages s) e' s" "worst_ok n (npages s) w' wz' s" by auto
    moreover have "fit_loop (Suc fuel) (of_nat n) (pg k s) (e, w, wz) s = Some (e', w', wz')"
      using used ok(1) k r(1) next_va by (subst fit_loop.simps) (simp add: pg_less_break sz_def)
    ultimately show ?thesis by blast
  next
    case free
    note b = boundary_free [OF ok(2) Suc.prems(1) free]
    let ?r = "of_nat (run k s) :: u32"
    let ?e = "if ?r = of_nat n \<and> e = 0 then pg k s else e"
    have scan: "scan_free (Suc fuel) (pg k s) (kva_to_index (pg k s)) 0 s = Some (pg (k + run k s) s, ?r)"
      using scan_free_run [OF ok(1) k, of "Suc fuel" 0] Suc.prems(4) by simp
    have kk: "k < k + run k s" using b(2) by simp
    have ex: "exact_ok n (k + run k s) ?e s"
      by (rule exact_ok_free [OF ok(1) k b(3) ok(3) b(4) kk Suc.prems(2)])
    obtain w1 wz1 where up: "fit_update (of_nat n) (pg k s) ?r (e, w, wz) = (?e, w1, wz1)"
      and wo: "worst_ok n (k + run k s) w1 wz1 s"
      using worst_ok_free [OF ok(1) b(3) ok(3) b(4) kk Suc.prems(3)]
      by (simp add: fit_update_def Let_def split: if_splits)
    have "npages s - (k + run k s) < fuel" using b(2) Suc.prems(4) free(1) by linarith
    from Suc.IH [OF b(1) ex wo this] obtain e' w' wz' where
      r: "fit_loop fuel (of_nat n) (pg (k + run k s) s) (?e, w1, wz1) s = Some (e', w', wz')"
        "exact_ok n (npages s) e' s" "worst_ok n (npages s) w' wz' s" by auto
    moreover have "fit_loop (Suc fuel) (of_nat n) (pg k s) (e, w, wz) s = Some (e', w', wz')"
      using free ok(1) k r(1) scan up by (subst fit_loop.simps) (simp add: pg_less_break sz_def)
    ultimately show ?thesis by blast
  qed
qed

lemma find_customfit_choice:
  assumes "heap_ok s" "alloc_ok s" "0 < n" "n < 2 ^ 32"
  shows "\<exists>va. find_customfit (of_nat n) s = Some va \<and>
    ((\<exists>a. va = pg a s \<and> is_hole a n s \<and> (\<forall>b. is_hole b n s \<longrightarrow> a \<le> b)) \<or>
     (\<forall>b. \<not> is_hole b n s) \<and>
       ((\<exists>a m. va = pg a s \<and> is_hole a m s \<and> n \<le> m \<and>
           (\<forall>b m'. is_hole b m' s \<longrightarrow> m' < m \<or> m' = m \<and> a \<le> b)) \<or>
        va = 0 \<and> (\<forall>b m. is_hole b m s \<longrightarrow> m < n)))"
proof -
  have hb: "b < npages s" if "is_hole b m s" for b m using that by (auto simp: is_hole_def)
  have "exact_ok n 0 0 s" "worst_ok n 0 0 0 s" by (simp_all add: exact_ok_def worst_ok_def)
  moreover have "npages s - 0 < Suc KHEAP_PAGES" using heap_ok_bounds(4) [OF assms(1)] by simp
  ultimately obtain e w wz where
    r: "fit_loop (Suc KHEAP_PAGES) (of_nat n) (pg 0 s) (0, 0, 0) s = Some (e, w, wz)"
      "exact_ok n (npages s) e s" "worst_ok n (npages s) w wz s"
    using fit_loop_ok [OF assms(1,2,4) boundary_start] by blast
  have "pg 0 s = kheapPageAllocStart s" by (simp add: pg_def)
  with r(1) have fc: "find_customfit (of_nat n) s =
      Some (if e \<noteq> 0 then e else if of_nat n \<le> wz then w else 0)"
    by (simp add: find_customfit_def)
  from r(2) show ?thesis
  proof (rule exact_okE)
    fix a
    assume h: "a < npages s" "e = pg a s" "is_hole a n s" "\<And>b. is_hole b n s \<Longrightarrow> a \<le> b"
    then have "e \<noteq> 0" using pg_nonzero [OF assms(1), of a] by simp
    with fc h show ?thesis by auto
  next
    assume e: "e = 0" "\<And>b. is_hole b n s \<Longrightarrow> npages s \<le> b"
    then have none: "\<forall>b. \<not> is_hole b n s" using hb by (meson not_le)
    from r(3) show ?thesis
    proof (rule worst_okE)
      assume h: "w = 0" "wz = 0" "\<And>b m. is_hole b m s \<Longrightarrow> b < npages s \<Longrightarrow> m < n"
      with fc e(1) none hb show ?thesis by (auto split: if_splits)
    next
      fix a m
      assume h: "a < npages s" "w = pg a s" "wz = of_nat m" "is_hole a m s" "n \<le> m"
        "\<And>b m'. is_hole b m' s \<Longrightarrow> b < npages s \<Longrightarrow> m' < m \<or> m' = m \<and> a \<le> b"
      then have "find_customfit (of_nat n) s = Some (pg a s)"
        using fc e(1) of_nat_hole_le(1) [OF assms(1) h(4) assms(4)] by simp
      with h hb none show ?thesis by blast
    qed
  qed
qed

text \<open>
  C6: custom fit.  In a well-formed heap the search for \<open>n\<close> pages ends; it returns the first hole of
  exactly \<open>n\<close> pages if there is one, otherwise the first of the largest holes if that has room,
  otherwise 0, and 0 only if no hole has room.
\<close>

theorem find_customfit_spec:
  assumes "heap_ok s" "alloc_ok s" "0 < n" "n < 2 ^ 32"
  shows "\<exists>va. find_customfit (of_nat n) s = Some va \<and>
    ((\<exists>a. va = pg a s \<and> is_hole a n s \<and> (\<forall>b. is_hole b n s \<longrightarrow> a \<le> b)) \<or>
     (\<forall>b. \<not> is_hole b n s) \<and>
       ((\<exists>a m. va = pg a s \<and> is_hole a m s \<and> n \<le> m \<and>
           (\<forall>b m'. is_hole b m' s \<longrightarrow> m' < m \<or> m' = m \<and> a \<le> b)) \<or>
        va = 0 \<and> (\<forall>b m. is_hole b m s \<longrightarrow> m < n)))"
  by (rule find_customfit_choice [OF assms])

end
