(* ===== verification/FOS_KheapAlloc.thy ===== *)
theory FOS_KheapAlloc
  imports FOS_KheapFit
begin

unbundle bit_operations_syntax

text \<open>
  \<open>kmalloc\<close> and \<open>kfree\<close> on whole pages keep the heap well formed: a new allocation lies in pages no
  allocation covered before, all its pages are mapped, the other allocations are untouched, and the
  reference counts of the frames stay right.
\<close>

section \<open>Getting one page\<close>

definition kernel_tables :: "frame set \<Rightarrow> 'z mem_state_scheme \<Rightarrow> bool" where
  "kernel_tables T s \<longleftrightarrow> ptr_page_directory s \<notin> T \<and> (\<forall>va. KERNEL_HEAP_START \<le> va \<longrightarrow>
     (\<exists>t\<in>T. get_page_table (ptr_page_directory s) va s = Some (TABLE_IN_MEMORY, Some t)))"

text \<open>The frames the heap lives on: what the allocator needs of them.\<close>

definition frames_ok :: "frame set \<Rightarrow> frame set \<Rightarrow> 'z mem_state_scheme \<Rightarrow> bool" where
  "frames_ok T U s \<longleftrightarrow> cpu_ok s \<and> locks_ok s \<and> refs_ok T U s \<and> kernel_tables T s \<and>
     set (free_frame_list s) \<subseteq> U \<and> number_of_frames s \<le> 0x100000"

lemma kernel_address:
  assumes "KERNEL_HEAP_START \<le> va"
  shows "CHECK_IF_KERNEL_ADDRESS va"
proof -
  have "unat va < 2 ^ 32" using unsigned_less [of va] by simp
  moreover have "0xF6000000 \<le> unat va" using assms by (simp add: KERNEL_HEAP_START_def word_le_nat_alt)
  ultimately show ?thesis by (simp add: CHECK_IF_KERNEL_ADDRESS_def USER_TOP_def word_le_nat_alt)
qed

lemma kernel_table_cong:
  assumes "KERNEL_HEAP_START \<le> va" "phys s' dir = phys s dir" "number_of_frames s' = number_of_frames s"
  shows "get_page_table dir va s' = get_page_table dir va s"
  using assms kernel_address [OF assms(1)]
  by (simp add: get_page_table_def STATIC_KERNEL_VIRTUAL_ADDRESS_def Let_def)

lemma kernel_tables_cong:
  assumes "kernel_tables T s" "phys s' (ptr_page_directory s) = phys s (ptr_page_directory s)" "mem_static s s'"
  shows "kernel_tables T s'"
  using assms kernel_table_cong [of _ s' "ptr_page_directory s" s]
  by (simp add: kernel_tables_def mem_static_def)

lemma refs_ok_allocate:
  assumes "refs_ok T U s" "free_frame_list s = f # fs" "f \<in> U"
    "free_frame_list s' = fs" "frames_info s' = (frames_info s)(f := null_frame_info)" "phys s' = phys s"
    "number_of_frames s' = number_of_frames s"
  shows "refs_ok T U s'" "f \<notin> set (free_frame_list s')" "references (frames_info s' f) = 0"
proof -
  have z: "references (frames_info s f) = 0" using assms(1-3) by (simp add: refs_ok_def)
  then have r: "references (frames_info s' g) = references (frames_info s g)" for g
    by (simp add: assms(5) null_frame_info_def)
  have m: "mappings T g s' = mappings T g s" for g by (rule mappings_cong) (rule assms(6))
  show "refs_ok T U s'" using assms(1,2,4,6,7) by (simp add: refs_ok_def r m)
  show "f \<notin> set (free_frame_list s')" using assms(1,2,4) by (simp add: refs_ok_def)
  show "references (frames_info s' f) = 0" using r z by simp
qed

lemma perm_writeable: "\<not> bit PERM_WRITEABLE 9" "EXTRACT_ADDRESS PERM_WRITEABLE = 0"
  by (simp_all add: PERM_WRITEABLE_def EXTRACT_ADDRESS_def)

text \<open>\<open>page_present va s\<close>: the kernel page at \<open>va\<close> has a present entry.\<close>

definition page_present :: "u32 \<Rightarrow> 'z mem_state_scheme \<Rightarrow> bool" where
  "page_present va s \<longleftrightarrow> (\<exists>t. get_page_table (ptr_page_directory s) va s = Some (TABLE_IN_MEMORY, Some t) \<and>
     bit (phys s t (PTX va)) 0)"

lemma alloc_page_gen_new:
  assumes ok: "frames_ok T U s" and va: "KERNEL_HEAP_START \<le> va" and np: "\<not> page_present va s"
    and free: "free_frame_list s = f # fs"
  shows "\<exists>s'. alloc_page_gen no_table (ptr_page_directory s) va PERM_WRITEABLE False s = Some (0, s') \<and>
    frames_ok T U s' \<and> cpu_same s s' \<and> mem_static s s' \<and> page_present va s' \<and>
    (\<forall>v. KERNEL_HEAP_START \<le> v \<and> page_present v s \<longrightarrow> page_present v s') \<and> free_frame_list s' = fs"
proof -
  let ?pd = "ptr_page_directory s"
  have cpu: "cpu_ok s" "locks_ok s" and refs: "refs_ok T U s" and kt: "kernel_tables T s"
    and fU: "f \<in> U" "set fs \<subseteq> U" and nf: "number_of_frames s \<le> 0x100000"
    using ok free by (auto simp: frames_ok_def)
  obtain t where t: "t \<in> T" "get_page_table ?pd va s = Some (TABLE_IN_MEMORY, Some t)" "?pd \<notin> T"
    using kt va by (auto simp: kernel_tables_def)
  have e: "\<not> bit (phys s t (PTX va)) 0" using np t(2) by (auto simp: page_present_def)
  have pok: "pte_ok (phys s t (PTX va))" using refs t(1) PTX_less by (simp add: refs_ok_def)
  have gfi: "get_frame_info ?pd va s = Some (None, Some t)"
    using get_frame_info_pte [OF t(2) pok] e by simp
  from allocate_frame_Cons [OF cpu free] obtain s1 where
    s1: "allocate_frame s = Some (f, s1)" "cpu_same s s1" "mem_static s s1" "free_frame_list s1 = fs"
      "frames_info s1 = (frames_info s)(f := null_frame_info)" "phys s1 = phys s" by auto
  have nf1: "number_of_frames s1 = number_of_frames s" and pd1: "ptr_page_directory s1 = ?pd"
    using s1(3) by (simp_all add: mem_static_def)
  note r1 = refs_ok_allocate [OF refs free fU(1) s1(4,5,6) nf1]
  have t1: "get_page_table ?pd va s1 = Some (TABLE_IN_MEMORY, Some t)"
    using kernel_table_cong [OF va, of s1 ?pd s] s1(6) nf1 t(2) by simp
  have f20: "f < 2 ^ 20" using refs fU(1) nf by (force simp: refs_ok_def word_le_nat_alt)
  from map_frame_table [OF cpu_same_ok(1) [OF s1(2) cpu(1)] cpu_same_ok(2) [OF s1(2) cpu(2)] r1(1) t1 t(1,3)
      fU(1) r1(2) _ f20 perm_writeable, of no_table] r1(3)
  obtain s2 where s2: "map_frame_gen no_table ?pd f va PERM_WRITEABLE s1 = Some (0, s2)"
    "get_frame_info ?pd va s2 = Some (Some f, Some t)" "refs_ok T U s2" "cpu_same s1 s2" "mem_static s1 s2"
    "\<forall>t' i. (t', i) \<noteq> (t, PTX va) \<longrightarrow> phys s2 t' i = phys s1 t' i" by auto
  have fl: "free_frame_list s2 = fs"
    using s2(1) t1 e s1(4,6) by (auto simp: map_frame_gen_def present_bit)
  have c: "cpu_same s s2" "mem_static s s2" using s1(2,3) s2(4,5) cpu_same_trans mem_static_trans by blast+
  have pd: "phys s2 ?pd = phys s ?pd" using s2(6) t(1,3) s1(6) by (intro ext) auto
  have kt2: "kernel_tables T s2" by (rule kernel_tables_cong [OF kt pd c(2)])
  have gpt: "get_page_table (ptr_page_directory s2) v s2 = get_page_table ?pd v s" if "KERNEL_HEAP_START \<le> v" for v
    using kernel_table_cong [OF that pd] c(2) by (simp add: mem_static_def)
  have "bit (phys s2 t (PTX va)) 0"
    using s2(2) get_frame_info_pte [of ?pd va s2 TABLE_IN_MEMORY t] gpt [OF va] t(1,2) c(2) s2(3) PTX_less
    by (auto simp: refs_ok_def mem_static_def split: if_splits)
  then have pv: "page_present va s2" using gpt [OF va] t(2) by (simp add: page_present_def)
  have mono: "page_present v s2" if v: "KERNEL_HEAP_START \<le> v" "page_present v s" for v
  proof -
    obtain t' where t': "get_page_table ?pd v s = Some (TABLE_IN_MEMORY, Some t')" "bit (phys s t' (PTX v)) 0"
      using v(2) by (auto simp: page_present_def)
    then have "bit (phys s2 t' (PTX v)) 0"
      using s2(6) s1(6) e by (cases "(t', PTX v) = (t, PTX va)") auto
    with t'(1) gpt [OF v(1)] show ?thesis by (simp add: page_present_def)
  qed
  have "frames_ok T U s2"
    using cpu_same_ok(1,2) [OF c(1)] cpu s2(3) kt2 fl fU(2) nf c(2) by (simp add: frames_ok_def mem_static_def)
  moreover have "alloc_page_gen no_table ?pd va PERM_WRITEABLE False s = Some (0, s2)"
    using gfi s1(1) s2(1) by (simp add: alloc_page_gen_def E_NO_MEM_def)
  ultimately show ?thesis using c pv mono fl by auto
qed

lemma alloc_page_gen_present:
  assumes ok: "frames_ok T U s" and va: "KERNEL_HEAP_START \<le> va" and p: "page_present va s"
  shows "alloc_page_gen no_table (ptr_page_directory s) va perms z s = Some (1, s)"
proof -
  have refs: "refs_ok T U s" and kt: "kernel_tables T s" using ok by (simp_all add: frames_ok_def)
  obtain t where t: "t \<in> T" "get_page_table (ptr_page_directory s) va s = Some (TABLE_IN_MEMORY, Some t)"
    using kt va by (auto simp: kernel_tables_def)
  have b: "bit (phys s t (PTX va)) 0" using p t(2) by (simp add: page_present_def)
  have "pte_ok (phys s t (PTX va))" using refs t(1) PTX_less by (simp add: refs_ok_def)
  then have "get_frame_info (ptr_page_directory s) va s = Some (Some (unat (PPN (phys s t (PTX va)))), Some t)"
    using get_frame_info_pte [OF t(2)] b refs_ok_present(2) [OF refs t(1) PTX_less b] by simp
  then show ?thesis by (simp add: alloc_page_gen_def)
qed

text \<open>Pages still to be mapped in a range cost at most one frame each.\<close>

lemma get_page_ok:
  assumes "frames_ok T U s" "KERNEL_HEAP_START \<le> va" "4096 dvd unat va" "free_frame_list s \<noteq> []"
  shows "\<exists>s'. get_page va s = Some (0, s') \<and> frames_ok T U s' \<and> cpu_same s s' \<and> mem_static s s' \<and>
    page_present va s' \<and> (\<forall>v. KERNEL_HEAP_START \<le> v \<and> page_present v s \<longrightarrow> page_present v s') \<and>
    length (free_frame_list s) \<le> Suc (length (free_frame_list s'))"
proof -
  have r: "ROUNDDOWN va PAGE_SIZE = va" using assms(3) by (intro ROUNDDOWN_id) (simp add: PAGE_SIZE_def)
  obtain f fs where free: "free_frame_list s = f # fs" using assms(4) by (cases "free_frame_list s") auto
  show ?thesis
  proof (cases "page_present va s")
    case True
    then show ?thesis
      using alloc_page_gen_present [OF assms(1,2) True, of PERM_WRITEABLE False] assms(1) r
      by (simp add: get_page_def)
  next
    case False
    from alloc_page_gen_new [OF assms(1,2) False free] r free show ?thesis
      by (auto simp: get_page_def)
  qed
qed

lemma get_pages_ok:
  assumes "frames_ok T U s" "KERNEL_HEAP_START \<le> va" "4096 dvd unat va" "unat va + 4096 * n \<le> 2 ^ 32"
    "n \<le> length (free_frame_list s)"
  shows "\<exists>s'. get_pages n va s = Some (True, s') \<and> frames_ok T U s' \<and> cpu_same s s' \<and> mem_static s s' \<and>
    (\<forall>k<n. page_present (va + of_nat k * PAGE_SIZE) s') \<and>
    (\<forall>v. KERNEL_HEAP_START \<le> v \<and> page_present v s \<longrightarrow> page_present v s')"
  using assms
proof (induction n arbitrary: va s)
  case 0
  then show ?case by simp
next
  case (Suc n)
  have "free_frame_list s \<noteq> []" using Suc.prems(5) by auto
  from get_page_ok [OF Suc.prems(1-3) this] obtain s1 where
    s1: "get_page va s = Some (0, s1)" "frames_ok T U s1" "cpu_same s s1" "mem_static s s1" "page_present va s1"
      "\<forall>v. KERNEL_HEAP_START \<le> v \<and> page_present v s \<longrightarrow> page_present v s1"
      "length (free_frame_list s) \<le> Suc (length (free_frame_list s1))" by blast
  show ?case
  proof (cases n)
    case 0
    with s1 show ?thesis by auto
  next
    case (Suc m)
    then have u: "unat (va + PAGE_SIZE) = unat va + 4096"
      using Suc.prems(4) by (simp add: unat_word_ariths PAGE_SIZE_def)
    have va1: "KERNEL_HEAP_START \<le> va + PAGE_SIZE" "4096 dvd unat (va + PAGE_SIZE)"
      "unat (va + PAGE_SIZE) + 4096 * n \<le> 2 ^ 32" "n \<le> length (free_frame_list s1)"
      using Suc.prems(2-5) s1(7) u by (auto simp: word_le_nat_alt)
    from Suc.IH [OF s1(2) va1] obtain s2 where
      s2: "get_pages n (va + PAGE_SIZE) s1 = Some (True, s2)" "frames_ok T U s2" "cpu_same s1 s2" "mem_static s1 s2"
        "\<forall>k<n. page_present (va + PAGE_SIZE + of_nat k * PAGE_SIZE) s2"
        "\<forall>v. KERNEL_HEAP_START \<le> v \<and> page_present v s1 \<longrightarrow> page_present v s2" by blast
    have "page_present (va + of_nat k * PAGE_SIZE) s2" if "k < Suc n" for k
    proof (cases k)
      case 0
      then show ?thesis using s1(5) s2(6) Suc.prems(2) by simp
    next
      case (Suc j)
      with that s2(5) show ?thesis by (auto simp: algebra_simps)
    qed
    with s1 s2 show ?thesis
      using cpu_same_trans [OF s1(3) s2(3)] mem_static_trans [OF s1(4) s2(4)] by auto
  qed
qed

section \<open>Placing an allocation\<close>

text \<open>\<open>tail_ok\<close>: no size is recorded for pages from the break on.\<close>

definition tail_ok :: "'z kheap_state_scheme \<Rightarrow> bool" where
  "tail_ok s \<longleftrightarrow> (\<forall>k. npages s \<le> k \<and> k < maxpages s \<longrightarrow> sz k s = 0)"

lemma uncovered_sz: "alloc_ok s \<Longrightarrow> j < npages s \<Longrightarrow> \<not> covered j s \<Longrightarrow> sz j s = 0"
  using alloc_okD(1) [of s j] unfolding covered_def by (metis le_refl less_add_same_cancel1)

lemma covered_bound: "alloc_ok s \<Longrightarrow> covered j s \<Longrightarrow> j < npages s"
  using alloc_okD(2) [of s] unfolding covered_def by (meson order.strict_trans2)

lemma alloc_insert:
  assumes ok: "heap_ok s" "alloc_ok s" "tail_ok s" "heap_ok s'"
    and st: "kheapPageAllocStart s' = kheapPageAllocStart s" "npages s \<le> npages s'"
    and new: "a \<le> npages s" "0 < n" "a + n \<le> npages s'" "\<And>j. a \<le> j \<Longrightarrow> j < a + n \<Longrightarrow> \<not> covered j s"
    and grow: "npages s' = npages s \<or> a = npages s \<and> npages s' = a + n"
    and sz': "\<And>k. k \<le> maxpages s \<Longrightarrow> sz k s' = (if k = a then nbytes else sz k s)"
    and nb: "unat (pages_of nbytes) = n" "nbytes \<noteq> 0"
  shows "alloc_ok s'" "tail_ok s'" "len a s' = n" "sz a s' = nbytes"
    "\<And>k. k < npages s \<Longrightarrow> sz k s \<noteq> 0 \<Longrightarrow> sz k s' = sz k s \<and> len k s' = len k s"
proof -
  have mp: "maxpages s' = maxpages s" using st(1) by (simp add: maxpages_def)
  have le: "npages s' \<le> maxpages s" using npages_le_maxpages [OF ok(4)] mp by simp
  have z: "sz j s = 0" if "a \<le> j" "j < a + n" for j
  proof (cases "j < npages s")
    case True
    then show ?thesis using uncovered_sz [OF ok(2)] new(4) that by blast
  next
    case False
    then show ?thesis using ok(3) that new(3) le by (simp add: tail_ok_def)
  qed
  show sza: "sz a s' = nbytes" using sz' new le by simp
  show la: "len a s' = n" using sza nb by (simp add: len_def)
  have other: "k < npages s" "sz k s' = sz k s" "len k s' = len k s" "k + len k s \<le> a \<or> a + n \<le> k"
    if k: "k < npages s'" "k \<noteq> a" "sz k s' \<noteq> 0" for k
  proof -
    show e: "sz k s' = sz k s" using sz' k le by simp
    then have nz: "sz k s \<noteq> 0" using k by simp
    show "k < npages s" using ok(3) nz k(1) le by (meson not_le order.strict_trans2 tail_ok_def)
    show "len k s' = len k s" using e by (simp add: len_def)
    show "k + len k s \<le> a \<or> a + n \<le> k"
    proof (rule ccontr)
      assume c: "\<not> (k + len k s \<le> a \<or> a + n \<le> k)"
      show False
      proof (cases "k < a")
        case True
        with c nz \<open>k < npages s\<close> have "covered a s" unfolding covered_def by (meson not_le less_imp_le)
        then show False using new(4) [of a] new(2) by simp
      next
        case False
        with c k(2) z [of k] nz show False by simp
      qed
    qed
  qed
  show "alloc_ok s'"
    unfolding alloc_ok_def
  proof (intro allI impI)
    fix k
    assume k: "k < npages s'" "sz k s' \<noteq> 0"
    show "0 < len k s' \<and> k + len k s' \<le> npages s' \<and> (\<forall>j. k < j \<and> j < k + len k s' \<longrightarrow> sz j s' = 0)"
    proof (cases "k = a")
      case True
      with la new(2,3) z sz' le show ?thesis by auto
    next
      case False
      note o = other [OF k(1) False k(2)]
      have nz: "sz k s \<noteq> 0" using o(2) k(2) by simp
      note d = alloc_okD [OF ok(2) o(1) nz]
      have "sz j s' = 0" if "k < j" "j < k + len k s" for j
        using that d(2) d(3) [OF that] sz' [of j] st(2) le o(4) new(2) by auto
      with d o(3) st(2) show ?thesis by auto
    qed
  qed
  show "tail_ok s'" using ok(3) sz' new(1-3) st(2) mp unfolding tail_ok_def by fastforce
  fix k
  assume k: "k < npages s" "sz k s \<noteq> 0"
  then have "k \<noteq> a" using new z [of a] by auto
  then show "sz k s' = sz k s \<and> len k s' = len k s"
    using sz' [of k] k le st(2) by (simp add: len_def)
qed

lemma unat_pages_of:
  assumes "unat nbytes \<le> 0xFFFFF000"
  shows "unat (pages_of nbytes) = (unat nbytes + 4095) div 4096"
    "unat (pages_of nbytes * PAGE_SIZE) = 4096 * unat (pages_of nbytes)"
    "unat nbytes \<le> 4096 * unat (pages_of nbytes)" "nbytes \<noteq> 0 \<Longrightarrow> 0 < unat (pages_of nbytes)"
proof -
  have "unat (ROUNDUP nbytes PAGE_SIZE) = 4096 * ((unat nbytes + 4095) div 4096)"
    using unat_ROUNDUP [of PAGE_SIZE nbytes] assms by (simp add: PAGE_SIZE_def)
  then show p: "unat (pages_of nbytes) = (unat nbytes + 4095) div 4096"
    by (simp add: pages_of_def unat_div PAGE_SIZE_def)
  have "4096 * unat (pages_of nbytes) < 2 ^ 32" using assms by (simp add: p)
  then show "unat (pages_of nbytes * PAGE_SIZE) = 4096 * unat (pages_of nbytes)"
    by (simp add: unat_word_ariths PAGE_SIZE_def)
  show "unat nbytes \<le> 4096 * unat (pages_of nbytes)" by (simp add: p)
  show "0 < unat (pages_of nbytes)" if "nbytes \<noteq> 0"
  proof -
    have "0 < unat nbytes" using that by (simp add: unat_gt_0)
    then show ?thesis by (simp add: p)
  qed
qed

text \<open>What an unchanged extension of the memory state means for the heap's own fields.\<close>

lemma kheap_fields_static:
  assumes "mem_static s s'"
  shows "kallocation_sizes s' = kallocation_sizes s" "kheapPageAllocStart s' = kheapPageAllocStart s"
    "kheapPageAllocBreak s' = kheapPageAllocBreak s"
  using assms by (cases s; cases s'; simp add: mem_static_def)+

lemma get_page_table_kheap [simp]:
  "get_page_table dir va (s\<lparr>kheapPageAllocBreak := b\<rparr>) = get_page_table dir va s"
  "get_page_table dir va (s\<lparr>kallocation_sizes := z\<rparr>) = get_page_table dir va s"
  by (simp_all add: get_page_table_def STATIC_KERNEL_VIRTUAL_ADDRESS_def kheap_table_ptr_def Let_def)

lemma frames_ok_kheap [simp]:
  "frames_ok T U (s\<lparr>kheapPageAllocBreak := b\<rparr>) = frames_ok T U s"
  "frames_ok T U (s\<lparr>kallocation_sizes := z\<rparr>) = frames_ok T U s"
  "page_present va (s\<lparr>kheapPageAllocBreak := b\<rparr>) = page_present va s"
  "page_present va (s\<lparr>kallocation_sizes := z\<rparr>) = page_present va s"
  by (simp_all add: frames_ok_def cpu_ok_def locks_ok_def refs_ok_def mappings_def kernel_tables_def
      page_present_def)

text \<open>
  \<open>placed a n nbytes T U s s'\<close>: from \<open>s\<close> to \<open>s'\<close> an allocation of \<open>nbytes\<close> bytes in \<open>n\<close> pages was made at
  page \<open>a\<close>, in pages free before, all mapped now; earlier allocations are untouched and the heap is
  well formed.
\<close>

definition placed ::
  "nat \<Rightarrow> nat \<Rightarrow> u32 \<Rightarrow> frame set \<Rightarrow> frame set \<Rightarrow> 'z kheap_state_scheme \<Rightarrow> 'z kheap_state_scheme \<Rightarrow> bool" where
  "placed a n nbytes T U s s' \<longleftrightarrow> sz a s' = nbytes \<and> len a s' = n \<and>
     heap_ok s' \<and> alloc_ok s' \<and> tail_ok s' \<and> frames_ok T U s' \<and>
     (\<forall>j. a \<le> j \<and> j < a + n \<longrightarrow> \<not> covered j s \<and> page_present (pg j s') s') \<and>
     (\<forall>k<npages s. sz k s \<noteq> 0 \<longrightarrow> sz k s' = sz k s \<and> len k s' = len k s)"

text \<open>The end of \<open>kmalloc\<close>: the pages are mapped and the size is recorded.\<close>

lemma kmalloc_finish:
  assumes ok: "frames_ok T U s1" "heap_ok s" "alloc_ok s" "tail_ok s" "heap_ok s1"
    and s1: "kheapPageAllocStart s1 = kheapPageAllocStart s" "kallocation_sizes s1 = kallocation_sizes s"
      "npages s \<le> npages s1" "npages s1 = npages s \<or> a = npages s \<and> npages s1 = a + n"
    and new: "a \<le> npages s" "0 < n" "a + n \<le> npages s1" "\<And>j. a \<le> j \<Longrightarrow> j < a + n \<Longrightarrow> \<not> covered j s"
    and nb: "unat (pages_of nbytes) = n" "nbytes \<noteq> 0" "n \<le> length (free_frame_list s1)"
  shows "\<exists>s2 s'. get_pages n (pg a s) s1 = Some (True, s2) \<and>
    s' = s2\<lparr>kallocation_sizes := (kallocation_sizes s2)(kva_to_index (pg a s) := nbytes)\<rparr> \<and>
    pg a s = pg a s' \<and> placed a n nbytes T U s s'"
proof -
  have pgs: "pg k s1 = pg k s" for k using s1(1) by (simp add: pg_def)
  have amax: "a \<le> maxpages s" using new(1) npages_le_maxpages [OF ok(2)] by simp
  have ua: "unat (pg a s) = unat (kheapPageAllocStart s) + 4096 * a" by (rule unat_pg [OF ok(2) new(1)])
  have "4096 dvd unat (pg a s)" using ua ok(2) by (simp add: heap_ok_def)
  moreover have "KERNEL_HEAP_START \<le> pg a s"
    using ua heap_ok_bounds(3) [OF ok(2)] by (simp add: word_le_nat_alt KERNEL_HEAP_START_def)
  moreover have "unat (pg a s) + 4096 * n \<le> 2 ^ 32"
    using ua heap_ok_bounds(1,2) [OF ok(5)] new(3) s1(1) by simp
  ultimately obtain s2 where s2: "get_pages n (pg a s) s1 = Some (True, s2)" "frames_ok T U s2"
    "mem_static s1 s2" "\<forall>k<n. page_present (pg a s + of_nat k * PAGE_SIZE) s2"
    using get_pages_ok [OF ok(1), of "pg a s" n] nb(3) by blast
  note f2 = kheap_fields_static [OF s2(3)]
  let ?s' = "s2\<lparr>kallocation_sizes := (kallocation_sizes s2)(kva_to_index (pg a s) := nbytes)\<rparr>"
  have st: "kheapPageAllocStart ?s' = kheapPageAllocStart s" "kheapPageAllocBreak ?s' = kheapPageAllocBreak s1"
    using f2 s1(1) by simp_all
  have np: "npages ?s' = npages s1" using st s1(1) by (simp add: npages_def)
  have hk: "heap_ok ?s'" using ok(5) st s1(1) by (simp add: heap_ok_def)
  have pg': "pg k ?s' = pg k s" for k using st(1) by (simp add: pg_def)
  have sz': "sz k ?s' = (if k = a then nbytes else sz k s)" if "k \<le> maxpages s" for k
    using kva_to_index_inj [OF ok(2) that amax] f2(1) s1(2) pg' by (simp add: sz_def)
  have np': "npages s \<le> npages ?s'" "a + n \<le> npages ?s'"
    "npages ?s' = npages s \<or> a = npages s \<and> npages ?s' = a + n"
    using s1(3,4) new(3) by (simp_all only: np)
  note ins = alloc_insert [OF ok(2-4) hk st(1) np'(1) new(1,2) np'(2) new(4) np'(3) sz' nb(1,2)]
  have pres: "page_present (pg j ?s') ?s'" if "a \<le> j" "j < a + n" for j
  proof -
    have "j - a < n" using that by simp
    then have "page_present (pg a s + of_nat (j - a) * PAGE_SIZE) s2" using s2(4) by blast
    moreover have "pg a s + of_nat (j - a) * PAGE_SIZE = pg j s" using that pg_add [of a s "j - a"] by simp
    ultimately show ?thesis by (simp add: pg')
  qed
  have "frames_ok T U ?s'" using s2(2) by simp
  then have "placed a n nbytes T U s ?s'" unfolding placed_def using ins hk pres new(4) by blast
  with s2(1) pg' show ?thesis by (intro exI [of _ s2] exI [of _ ?s']) simp
qed

text \<open>
  C5: \<open>kmalloc\<close>, built with the kernel heap, of more than a block and of at most \<open>0xFFFFF000\<close> bytes, in a well-formed
  heap and with as many free frames as the request has pages.  When the request does not fit between the break and the
  end of the heap it returns 0 and changes nothing.  Otherwise it returns the first page of a region that no allocation
  covered, every page of the region is mapped, the size is recorded, the earlier allocations stay as they were, and the
  heap and the reference counts are again well formed (\<open>placed\<close>).  With fewer free frames \<open>allocate_frame\<close> may panic;
  above \<open>0xFFFFF000\<close> bytes the rounding wraps around (\<open>kmalloc_wraps\<close> below).
\<close>

theorem kmalloc_correct:
  assumes "use_kheap s" "frames_ok T U s" "heap_ok s" "alloc_ok s" "tail_ok s"
    and "DYN_ALLOC_MAX_BLOCK_SIZE < nbytes" "unat nbytes \<le> 0xFFFFF000"
    and "unat (pages_of nbytes) \<le> length (free_frame_list s)"
  shows "\<exists>va s'. kmalloc da nbytes s = Some (va, s') \<and>
    (if pages_of nbytes * PAGE_SIZE > KERNEL_HEAP_MAX - kheapPageAllocBreak s then va = 0 \<and> s' = s
     else \<exists>a. va = pg a s' \<and> placed a (unat (pages_of nbytes)) nbytes T U s s')"
proof -
  let ?n = "unat (pages_of nbytes)"
  have nz: "nbytes \<noteq> 0" using assms(6) by (auto simp: DYN_ALLOC_MAX_BLOCK_SIZE_def)
  note p = unat_pages_of [OF assms(7)]
  note b = heap_ok_bounds [OF assms(3)]
  have n: "0 < ?n" "?n < 2 ^ 32" using p(4) nz unsigned_less [of "pages_of nbytes"] by auto
  show ?thesis
  proof (cases "pages_of nbytes * PAGE_SIZE > KERNEL_HEAP_MAX - kheapPageAllocBreak s")
    case True
    with assms(1) show ?thesis by (simp add: kmalloc_def)
  next
    case False
    have km: "kmalloc da nbytes s = kmalloc_pages nbytes s"
      using assms(1,6) False nz by (auto simp: kmalloc_def)
    have "kheapPageAllocBreak s \<le> KERNEL_HEAP_MAX" using assms(3) by (simp add: heap_ok_def)
    then have room: "4096 * ?n + unat (kheapPageAllocBreak s) \<le> 0xFFFFF000"
      using False p(2) b(2) by (simp add: word_less_nat_alt unat_sub KERNEL_HEAP_MAX_def)
    let ?s1 = "s\<lparr>kheapPageAllocBreak := kheapPageAllocBreak s + pages_of nbytes * PAGE_SIZE\<rparr>"
    have ub: "unat (kheapPageAllocBreak s + pages_of nbytes * PAGE_SIZE) = unat (kheapPageAllocBreak s) + 4096 * ?n"
      using room p(2) by (simp add: unat_word_ariths)
    have np1: "npages ?s1 = npages s + ?n" using ub b(1) by (simp add: npages_def)
    have hk1: "heap_ok ?s1"
      using assms(3) ub room by (auto simp: heap_ok_def word_le_nat_alt KERNEL_HEAP_MAX_def)
    from find_customfit_choice [OF assms(3,4) n] obtain va where fc: "find_customfit (of_nat ?n) s = Some va"
      and cs: "(\<exists>a m. va = pg a s \<and> is_hole a m s \<and> ?n \<le> m) \<or> va = 0" by blast
    from cs show ?thesis
    proof
      assume "\<exists>a m. va = pg a s \<and> is_hole a m s \<and> ?n \<le> m"
      then obtain a m where h: "va = pg a s" "is_hole a m s" "?n \<le> m" by blast
      then have a: "a \<le> npages s" "a + ?n \<le> npages s" "\<And>j. a \<le> j \<Longrightarrow> j < a + ?n \<Longrightarrow> \<not> covered j s"
        by (auto simp: is_hole_def)
      have nz_pg: "pg a s \<noteq> 0" by (rule pg_nonzero [OF assms(3) a(1)])
      from kmalloc_finish [OF assms(2-5,3) refl refl le_refl disjI1 [OF refl] a(1) n(1) a(2,3) refl nz assms(8)]
      obtain s2 s' where f: "get_pages ?n (pg a s) s = Some (True, s2)"
        "s' = s2\<lparr>kallocation_sizes := (kallocation_sizes s2)(kva_to_index (pg a s) := nbytes)\<rparr>"
        "pg a s = pg a s'" "placed a ?n nbytes T U s s'" by blast
      have "kmalloc da nbytes s = Some (pg a s, s')"
        using km fc h(1) nz_pg f(1) unfolding f(2) by (simp add: kmalloc_pages_def)
      with f(3,4) have "kmalloc da nbytes s = Some (pg a s', s')" by (simp only:)
      with False f(4) show ?thesis by auto
    next
      assume va: "va = 0"
      have unc: "\<not> covered j s" if "npages s \<le> j" "j < npages s + ?n" for j
        using covered_bound [OF assms(4)] that by (meson not_le)
      have brk: "pg (npages s) s = kheapPageAllocBreak s"
        using unat_pg [OF assms(3) le_refl] b(1) by (simp add: word_unat_eq_iff)
      have lim: "\<not> kheapPageAllocBreak s + pages_of nbytes * PAGE_SIZE > KERNEL_HEAP_MAX"
        using ub room by (simp add: word_less_nat_alt KERNEL_HEAP_MAX_def)
      have fo: "frames_ok T U ?s1" using assms(2) by simp
      have st: "kheapPageAllocStart ?s1 = kheapPageAllocStart s" "kallocation_sizes ?s1 = kallocation_sizes s"
        "npages s \<le> npages ?s1" "npages ?s1 = npages s \<or> npages s = npages s \<and> npages ?s1 = npages s + ?n"
        "npages s + ?n \<le> npages ?s1" "?n \<le> length (free_frame_list ?s1)"
        using np1 assms(8) by simp_all
      from kmalloc_finish [OF fo assms(3-5) hk1 st(1-4) le_refl n(1) st(5) unc refl nz st(6)]
      obtain s2 s' where f: "get_pages ?n (pg (npages s) s) ?s1 = Some (True, s2)"
        "s' = s2\<lparr>kallocation_sizes := (kallocation_sizes s2)(kva_to_index (pg (npages s) s) := nbytes)\<rparr>"
        "pg (npages s) s = pg (npages s) s'" "placed (npages s) ?n nbytes T U s s'" by blast
      have "kmalloc da nbytes s = Some (pg (npages s) s, s')"
        using km fc va lim f(1) unfolding f(2) brk by (simp add: kmalloc_pages_def)
      with f(3) have "kmalloc da nbytes s = Some (pg (npages s) s', s')" by (simp only:)
      with False f(4) show ?thesis by auto
    qed
  qed
qed

text \<open>
  Above \<open>0xFFFFF000\<close> bytes \<open>ROUNDUP\<close> wraps to 0 pages: on the empty heap the request succeeds, with no page mapped and
  its size recorded at the break.
\<close>

lemma pages_of_wraps:
  assumes "0xFFFFF000 < nbytes"
  shows "pages_of nbytes = 0"
proof -
  have "unat nbytes \<ge> 0xFFFFF001" using assms by (simp add: word_less_nat_alt)
  moreover have "nbytes + PAGE_SIZE - 1 = nbytes - 0xFFFFF001" by (simp add: PAGE_SIZE_def)
  ultimately have "unat (nbytes + PAGE_SIZE - 1) = unat nbytes - 0xFFFFF001"
    using unat_sub [of "0xFFFFF001" nbytes] by (simp only: word_le_nat_alt) simp
  then have "unat (nbytes + PAGE_SIZE - 1) < 4096" using unat_u32_less [of nbytes] by simp
  then have "unat (ROUNDUP nbytes PAGE_SIZE) = 0" by (simp add: ROUNDUP_def unat_ROUNDDOWN_mult PAGE_SIZE_def)
  then show ?thesis by (simp add: pages_of_def unat_eq_zero)
qed

lemma kmalloc_wraps:
  assumes "use_kheap s" "kheapPageAllocBreak s = kheapPageAllocStart s" "kheapPageAllocBreak s \<le> KERNEL_HEAP_MAX"
    "0xFFFFF000 < nbytes"
  shows "kmalloc da nbytes s =
    Some (kheapPageAllocBreak s, s\<lparr>kallocation_sizes := (kallocation_sizes s)(kva_to_index (kheapPageAllocBreak s) := nbytes)\<rparr>)"
proof -
  have "nbytes \<noteq> 0" "\<not> nbytes \<le> DYN_ALLOC_MAX_BLOCK_SIZE"
    using assms(4) by (auto simp: DYN_ALLOC_MAX_BLOCK_SIZE_def word_le_nat_alt word_less_nat_alt)
  moreover have "find_customfit 0 s = Some 0" using assms(2) by (simp add: find_customfit_def fit_loop.simps)
  ultimately show ?thesis
    using assms pages_of_wraps [OF assms(4)] by (simp add: kmalloc_def kmalloc_pages_def leD)
qed

section \<open>A heap to evaluate on\<close>

text \<open>
  The page allocator as \<open>kheap_init\<close> leaves it, with five pages in use: an allocation of 5000 bytes in
  the first two, a hole of two pages, and one of 4096 bytes.  Directory entry \<open>i\<close> of the kernel's part
  points to a table in frame \<open>i\<close>.
\<close>

definition kheap_ex :: kheap_state where
  "kheap_ex = \<lparr>eflags_IF = True, ncli = 0, intena = False, cpu_proc = None, cpu_cr3 = 0,
     scheduler_status = SCH_STOPPED, klocks = (\<lambda>_. free_lock), envs = (\<lambda>_. null_env),
     use_kheap = True, number_of_frames = 2048, frames_info = (\<lambda>_. null_frame_info),
     free_frame_list = [1100, 1101, 1102], modified_frame_list = [],
     phys = (\<lambda>_ _. 0)(10 := (\<lambda>i. push_bit 12 i OR 3)),
     ptr_page_directory = 10, tlb = (\<lambda>_. None),
     kallocation_sizes = (\<lambda>_. 0)(0x2001 := 5000, 0x2005 := 4096),
     kheapPageAllocStart = 0xF8001000, kheapPageAllocBreak = 0xF8006000, dynAllocEnd = 0xF8000000\<rparr>"

lemma kheap_ex_sel:
  "kallocation_sizes kheap_ex = (\<lambda>_. 0)(0x2001 := 5000, 0x2005 := 4096)"
  "kheapPageAllocStart kheap_ex = 0xF8001000" "kheapPageAllocBreak kheap_ex = 0xF8006000" "use_kheap kheap_ex"
  "free_frame_list kheap_ex = [1100, 1101, 1102]" "number_of_frames kheap_ex = 2048"
  "ptr_page_directory kheap_ex = 10" "phys kheap_ex 10 = (\<lambda>i. push_bit 12 i OR 3)"
  "t \<noteq> 10 \<Longrightarrow> phys kheap_ex t i = 0"
  by (simp_all add: kheap_ex_def)

lemma kheap_ex_heap: "heap_ok kheap_ex" "npages kheap_ex = 5" "maxpages kheap_ex = 32766"
  by (simp_all add: heap_ok_def kheap_ex_sel npages_def maxpages_def fos_consts)

lemma kheap_ex_sz: "k \<le> 32766 \<Longrightarrow> sz k kheap_ex = (if k = 0 then 5000 else if k = 4 then 4096 else 0)"
proof -
  assume k: "k \<le> 32766"
  have "unat (kva_to_index (pg k kheap_ex)) = 0x2001 + k"
    using unat_kva_to_index_max [OF kheap_ex_heap(1)] k by (simp add: kheap_ex_heap kheap_ex_sel)
  then have "kva_to_index (pg k kheap_ex) = 0x2001 \<longleftrightarrow> k = 0" "kva_to_index (pg k kheap_ex) = 0x2005 \<longleftrightarrow> k = 4"
    by (simp_all add: word_unat_eq_iff)
  then show ?thesis by (auto simp: sz_def kheap_ex_sel)
qed

lemma kheap_ex_alloc: "alloc_ok kheap_ex" "tail_ok kheap_ex"
proof -
  have "len 0 kheap_ex = 2" "len 4 kheap_ex = 1"
    by (simp_all add: len_def kheap_ex_sz unat_pages_of)
  then show "alloc_ok kheap_ex" by (auto simp: alloc_ok_def kheap_ex_heap kheap_ex_sz)
  show "tail_ok kheap_ex" by (simp add: tail_ok_def kheap_ex_heap kheap_ex_sz)
qed

lemma kheap_ex_table:
  assumes "KERNEL_HEAP_START \<le> va"
  shows "get_page_table 10 va kheap_ex = Some (TABLE_IN_MEMORY, Some (unat (PDX va)))"
    "unat (PDX va) \<in> {984..<1024}"
proof -
  have "0xF6000000 \<le> unat va" using assms by (simp add: KERNEL_HEAP_START_def word_le_nat_alt)
  moreover have "unat (drop_bit 22 va) = unat va div 2 ^ 22" by (simp add: drop_bit_eq_div unat_div)
  moreover have "PDX va = drop_bit 22 va"
  proof -
    have "unat (drop_bit 22 va) < 2 ^ 10"
      using calculation(2) unat_u32_less [of va] by (simp add: less_mult_imp_div_less)
    then show ?thesis by (simp add: addr_fields take_bit_word_self)
  qed
  ultimately show b: "unat (PDX va) \<in> {984..<1024}"
    using PDX_less [of va] by (auto simp: word_less_nat_alt less_eq_div_iff_mult_less_eq)
  let ?e = "push_bit 12 (PDX va) OR 3"
  have "PPN ?e = PDX va"
  proof -
    have d: "take_bit 20 (PDX va) = PDX va" using b by (intro take_bit_word_self) auto
    have "PPN ?e = drop_bit 12 (push_bit 12 (PDX va)) OR drop_bit 12 3" by (simp add: PPN_def drop_bit_or)
    also have "drop_bit 12 (3 :: u32) = 0" by (simp add: drop_bit_eq_div)
    also have "drop_bit 12 (push_bit 12 (PDX va)) = take_bit 20 (PDX va)"
      by (rule bit_word_eqI) (auto simp: bit_simps)
    finally show ?thesis using d by simp
  qed
  moreover have "?e AND PERM_PRESENT = PERM_PRESENT"
    unfolding present_bit by (simp only: bit_or_iff) (simp add: bit_0)
  ultimately show "get_page_table 10 va kheap_ex = Some (TABLE_IN_MEMORY, Some (unat (PDX va)))"
    using kernel_address [OF assms] b
    by (simp add: get_page_table_def kheap_ex_sel STATIC_KERNEL_VIRTUAL_ADDRESS_def word_le_nat_alt)
qed

lemma kheap_ex_frames: "frames_ok {984..<1024} {1100, 1101, 1102} kheap_ex"
proof -
  have z: "phys kheap_ex t i = 0" if "t \<in> {984..<1024}" for t i using that by (simp add: kheap_ex_sel)
  then have m: "\<not> maps (phys kheap_ex t i) f" if "t \<in> {984..<1024}" for t i f
    using that by (simp add: maps_iff)
  then have "mappings {984..<1024} f kheap_ex = {}" for f by (auto simp: mappings_def)
  moreover have "pte_ok (phys kheap_ex t i)" if "t \<in> {984..<1024}" for t i
    using z [OF that] by (simp add: pte_ok_iff EXTRACT_ADDRESS_def)
  moreover have "kernel_tables {984..<1024} kheap_ex"
    using kheap_ex_table by (simp add: kernel_tables_def kheap_ex_sel)
  ultimately show ?thesis
    using m by (simp add: frames_ok_def refs_ok_def)
      (simp add: kheap_ex_def cpu_ok_def locks_ok_def null_frame_info_def)
qed

theorem kmalloc_correct_witness:
  "\<exists>va s' a. kmalloc no_blocks 8000 kheap_ex = Some (va, s') \<and> va = pg a s' \<and>
     placed a 2 8000 {984..<1024} {1100, 1101, 1102} kheap_ex s'"
proof -
  have p: "unat (pages_of 8000) = 2" using unat_pages_of(1) [of 8000] by simp
  have "\<not> pages_of 8000 * PAGE_SIZE > KERNEL_HEAP_MAX - kheapPageAllocBreak kheap_ex"
    using p unat_pages_of(2) [of 8000] by (simp add: word_less_nat_alt fos_consts kheap_ex_sel)
  then show ?thesis
    using kmalloc_correct [OF _ kheap_ex_frames kheap_ex_heap(1) kheap_ex_alloc, of 8000 no_blocks] p
    by (auto simp: fos_consts kheap_ex_sel)
qed

theorem find_customfit_spec_witness:
  "\<exists>va. find_customfit (of_nat 2) kheap_ex = Some va \<and>
    ((\<exists>a. va = pg a kheap_ex \<and> is_hole a 2 kheap_ex \<and> (\<forall>b. is_hole b 2 kheap_ex \<longrightarrow> a \<le> b)) \<or>
     (\<forall>b. \<not> is_hole b 2 kheap_ex) \<and>
       ((\<exists>a m. va = pg a kheap_ex \<and> is_hole a m kheap_ex \<and> 2 \<le> m \<and>
           (\<forall>b m'. is_hole b m' kheap_ex \<longrightarrow> m' < m \<or> m' = m \<and> a \<le> b)) \<or>
        va = 0 \<and> (\<forall>b m. is_hole b m kheap_ex \<longrightarrow> m < 2)))"
  by (rule find_customfit_spec [OF kheap_ex_heap(1) kheap_ex_alloc(1)]) simp_all

end
