(* ===== verification/FOS_Clock.thy ===== *)
theory FOS_Clock
  imports FOS_KheapAlloc
begin

unbundle bit_operations_syntax

text \<open>
  The interrupt masks of the 8259A controllers (\<open>kern/cpu/picirq.c\<close>) and the interval timer
  (\<open>kern/cpu/kclock.c\<close>).  The state has the two mask registers and the value last loaded into counter 0.
  The count the timer has reached when it is read is an input of the operations that read it.
\<close>

record clock_state = kheap_state +
  didinit :: bool
  pic1_mask :: u8
  pic2_mask :: u8
  pit_cnt0 :: u16
  ticks :: int

section \<open>Interrupt masks\<close>

definition irq_setmask_8259A :: "u16 \<Rightarrow> 'z clock_state_scheme \<Rightarrow> 'z clock_state_scheme" where
  "irq_setmask_8259A m s =
     (if \<not> didinit s then s
      else s\<lparr>pic1_mask := ucast m, pic2_mask := ucast (drop_bit 8 m)\<rparr>)"

definition irq_set_mask :: "nat \<Rightarrow> 'z clock_state_scheme \<Rightarrow> 'z clock_state_scheme" where
  "irq_set_mask IRQline s =
     (if \<not> didinit s then s
      else if IRQline < 8 then s\<lparr>pic1_mask := pic1_mask s OR push_bit IRQline 1\<rparr>
      else s\<lparr>pic2_mask := pic2_mask s OR push_bit (IRQline - 8) 1\<rparr>)"

definition irq_clear_mask :: "nat \<Rightarrow> 'z clock_state_scheme \<Rightarrow> 'z clock_state_scheme" where
  "irq_clear_mask IRQline s =
     (if \<not> didinit s then s
      else if IRQline < 8 then s\<lparr>pic1_mask := pic1_mask s AND NOT (push_bit IRQline 1)\<rparr>
      else s\<lparr>pic2_mask := pic2_mask s AND NOT (push_bit (IRQline - 8) 1)\<rparr>)"

definition irq_get_mask :: "nat \<Rightarrow> 'z clock_state_scheme \<Rightarrow> int" where
  "irq_get_mask IRQline s =
     (if \<not> didinit s then -1
      else if IRQline < 8 then uint (pic1_mask s AND push_bit IRQline 1)
      else uint (pic2_mask s AND push_bit (IRQline - 8) 1))"

section \<open>The timer\<close>

definition TIMER_FREQ :: int where "TIMER_FREQ = 1193182"

definition TIMER_DIV :: "int \<Rightarrow> int" where
  "TIMER_DIV x = (TIMER_FREQ + x div 2) div x"

definition QUANTUM_LIMIT :: int where
  "QUANTUM_LIMIT = 1000 * 2 ^ 16 div TIMER_FREQ"

definition IS_VALID_QUANTUM :: "int \<Rightarrow> bool" where
  "IS_VALID_QUANTUM q \<longleftrightarrow> q < QUANTUM_LIMIT"

definition NUM_CLKS_PER_QUANTUM :: "int \<Rightarrow> int" where
  "NUM_CLKS_PER_QUANTUM q = TIMER_DIV (1000 div q) + TIMER_DIV (1000 div q) mod 2"

text \<open>The count is sent as two bytes with interrupts off; the timer puts them together again.\<close>

definition kclock_write_cnt0_LSB_first :: "u16 \<Rightarrow> 'z clock_state_scheme \<Rightarrow> 'z clock_state_scheme option" where
  "kclock_write_cnt0_LSB_first val s = do {
     let s1 = pushcli s;
     let lo = (ucast (val AND 0x00FF) :: u8);
     let hi = (ucast (drop_bit 8 val AND 0x00FF) :: u8);
     popcli (s1\<lparr>pit_cnt0 := ucast lo OR push_bit 8 (ucast hi)\<rparr>) }"

definition kclock_init :: "'z clock_state_scheme \<Rightarrow> 'z clock_state_scheme" where
  "kclock_init s = s\<lparr>ticks := 0\<rparr>"

definition kclock_stop :: "'z clock_state_scheme \<Rightarrow> 'z clock_state_scheme" where
  "kclock_stop s = irq_set_mask 0 s"

text \<open>A quantum of 0 passes the test and divides by zero.\<close>

definition kclock_start :: "u8 \<Rightarrow> 'z clock_state_scheme \<Rightarrow> 'z clock_state_scheme option" where
  "kclock_start q s = do {
     assert_that (IS_VALID_QUANTUM (uint q));
     assert_that (q \<noteq> 0);
     s1 \<leftarrow> kclock_write_cnt0_LSB_first (word_of_int (TIMER_DIV (1000 div uint q))) s;
     Some (irq_clear_mask 0 s1) }"

definition kclock_set_quantum :: "u8 \<Rightarrow> 'z clock_state_scheme \<Rightarrow> 'z clock_state_scheme option" where
  "kclock_set_quantum q s = do {
     assert_that (IS_VALID_QUANTUM (uint q));
     assert_that (q \<noteq> 0);
     s1 \<leftarrow> kclock_write_cnt0_LSB_first (word_of_int (NUM_CLKS_PER_QUANTUM (uint q))) s;
     Some (kclock_stop s1) }"

definition kclock_start_counter :: "u8 \<Rightarrow> 'z clock_state_scheme \<Rightarrow> 'z clock_state_scheme option" where
  "kclock_start_counter cnt0 s = do {
     s1 \<leftarrow> kclock_write_cnt0_LSB_first (ucast cnt0) s;
     Some (irq_clear_mask 0 s1) }"

text \<open>\<open>kclock_resume\<close>: \<open>cnt0\<close> is the count read from the timer.\<close>

definition resume_count :: "u16 \<Rightarrow> u16" where
  "resume_count cnt0 =
     (let cnt0 = (if cnt0 < 20 then 20 else cnt0)
      in if cnt0 mod 2 = 1 then cnt0 + 1 else cnt0)"

definition kclock_resume :: "u16 \<Rightarrow> 'z clock_state_scheme \<Rightarrow> 'z clock_state_scheme option" where
  "kclock_resume cnt0 s = do {
     s1 \<leftarrow> kclock_write_cnt0_LSB_first (resume_count cnt0) s;
     Some (irq_clear_mask 0 s1) }"

section \<open>What the timer is loaded with\<close>

lemma two_bytes: "ucast (ucast (val AND 0x00FF :: u16) :: u8) OR push_bit 8 (ucast (ucast (drop_bit 8 val AND 0x00FF :: u16) :: u8)) = (val :: u16)"
proof -
  have m: "(0x00FF :: u16) = mask 8" by (simp add: mask_eq_exp_minus_1)
  show ?thesis
    unfolding m by (rule bit_word_eqI) (auto simp: bit_simps)
qed

lemma irq_mask_sel [simp]:
  "pit_cnt0 (irq_set_mask i s) = pit_cnt0 s" "pit_cnt0 (irq_clear_mask i s) = pit_cnt0 s"
  "ncli (irq_set_mask i s) = ncli s" "ncli (irq_clear_mask i s) = ncli s"
  "eflags_IF (irq_set_mask i s) = eflags_IF s" "eflags_IF (irq_clear_mask i s) = eflags_IF s"
  "klocks (irq_set_mask i s) = klocks s" "klocks (irq_clear_mask i s) = klocks s"
  by (simp_all add: irq_set_mask_def irq_clear_mask_def)

lemma kclock_write_cnt0_eq:
  assumes "cpu_ok s"
  shows "kclock_write_cnt0_LSB_first val s = Some ((refresh_intena s)\<lparr>pit_cnt0 := val\<rparr>)"
proof -
  have "popcli ((pushcli s)\<lparr>pit_cnt0 := val\<rparr>) = map_option (\<lambda>s. s\<lparr>pit_cnt0 := val\<rparr>) (popcli (pushcli s))"
    by (simp add: popcli_def bind_assert_that sti_def Let_def)
  then show ?thesis
    using push_pop [OF assms] two_bytes [of val] by (simp add: kclock_write_cnt0_LSB_first_def Let_def)
qed

lemma set_quantum_counts: "\<forall>q \<in> {1..52}. NUM_CLKS_PER_QUANTUM q < 2 ^ 16 \<and> 0 < NUM_CLKS_PER_QUANTUM q \<and>
    even (NUM_CLKS_PER_QUANTUM q)"
  by code_simp

text \<open>
  For a quantum of 1 to 52 ms, \<open>kclock_set_quantum\<close> loads the timer with exactly the computed number
  of clocks, which is even and fits its 16 bits, and masks the timer interrupt; it panics from
  \<open>QUANTUM_LIMIT\<close> (54) on.
\<close>

theorem kclock_set_quantum_correct:
  assumes "cpu_ok s"
  shows "(1 \<le> uint q \<and> uint q \<le> 52 \<longrightarrow>
      (\<exists>s'. kclock_set_quantum q s = Some s' \<and> uint (pit_cnt0 s') = NUM_CLKS_PER_QUANTUM (uint q) \<and>
        even (uint (pit_cnt0 s')) \<and> (didinit s \<longrightarrow> irq_get_mask 0 s' \<noteq> 0))) \<and>
    (54 \<le> uint q \<longrightarrow> kclock_set_quantum q s = None)"
proof (intro conjI impI)
  assume q: "1 \<le> uint q \<and> uint q \<le> 52"
  let ?n = "NUM_CLKS_PER_QUANTUM (uint q)"
  have n: "?n < 2 ^ 16" "0 < ?n" "even ?n" using set_quantum_counts q by auto
  have "QUANTUM_LIMIT = 54" by (simp add: QUANTUM_LIMIT_def TIMER_FREQ_def)
  with q have v: "IS_VALID_QUANTUM (uint q)" "q \<noteq> 0" by (auto simp: IS_VALID_QUANTUM_def)
  have u: "uint (word_of_int ?n :: u16) = ?n" using n by (simp add: uint_word_of_int take_bit_int_eq_self)
  let ?s' = "kclock_stop ((refresh_intena s)\<lparr>pit_cnt0 := word_of_int ?n\<rparr>)"
  have r: "kclock_set_quantum q s = Some ?s'"
    using v by (simp add: kclock_set_quantum_def kclock_write_cnt0_eq [OF assms])
  have d: "didinit (refresh_intena s) = didinit s" by (simp add: refresh_intena_def)
  have "irq_get_mask 0 ?s' \<noteq> 0" if "didinit s"
  proof -
    have "bit ((pic1_mask (refresh_intena s) OR 1) AND 1) 0" by (simp only: bit_and_iff bit_or_iff) simp
    then have "(pic1_mask (refresh_intena s) OR 1) AND 1 \<noteq> 0" by (metis bit_0_eq bot_apply bot_bool_def)
    then show ?thesis using that d by (simp add: irq_get_mask_def kclock_stop_def irq_set_mask_def)
  qed
  with r u n(3) show "\<exists>s'. kclock_set_quantum q s = Some s' \<and> uint (pit_cnt0 s') = ?n \<and>
      even (uint (pit_cnt0 s')) \<and> (didinit s \<longrightarrow> irq_get_mask 0 s' \<noteq> 0)"
    by (simp add: kclock_stop_def)
next
  assume "54 \<le> uint q"
  moreover have "QUANTUM_LIMIT = 54" by (simp add: QUANTUM_LIMIT_def TIMER_FREQ_def)
  ultimately show "kclock_set_quantum q s = None" by (simp add: kclock_set_quantum_def IS_VALID_QUANTUM_def)
qed

text \<open>
  A quantum of 53 ms passes the test but needs 66288 clocks; the timer gets the low 16 bits, 752 clocks,
  less than a millisecond.
\<close>

lemma kclock_set_quantum_53: "NUM_CLKS_PER_QUANTUM 53 = 66288 \<and> IS_VALID_QUANTUM 53 \<and>
    (word_of_int (NUM_CLKS_PER_QUANTUM 53) :: u16) = 752"
  by (simp add: NUM_CLKS_PER_QUANTUM_def TIMER_DIV_def TIMER_FREQ_def IS_VALID_QUANTUM_def QUANTUM_LIMIT_def)

definition clock_ex :: clock_state where
  "clock_ex = kheap_state.extend kheap_ex (clock_state.fields True 0 0 0 0)"

lemma clock_ex_sel: "cpu_ok clock_ex" "locks_ok clock_ex" "didinit clock_ex"
  by (simp_all add: clock_ex_def kheap_ex_def kheap_state.defs clock_state.defs cpu_ok_def locks_ok_def)

theorem kclock_set_quantum_correct_witness:
  "(\<exists>s'. kclock_set_quantum 10 clock_ex = Some s' \<and> uint (pit_cnt0 s') = 11932 \<and> irq_get_mask 0 s' \<noteq> 0) \<and>
   kclock_set_quantum 60 clock_ex = None"
  using kclock_set_quantum_correct [OF clock_ex_sel(1), of 10] kclock_set_quantum_correct [OF clock_ex_sel(1), of 60]
  by (auto simp: clock_ex_sel NUM_CLKS_PER_QUANTUM_def TIMER_DIV_def TIMER_FREQ_def)

end
