(* ===== verification/FOS_Sched.thy ===== *)
theory FOS_Sched
  imports FOS_Clock
begin

text \<open>
  The process queues and the operations that move processes between them (\<open>kern/cpu/sched_helpers.c\<close>), with
  \<open>sched\<close>, \<open>env_exit\<close> and \<open>cleanup_buffers\<close> of \<open>kern/proc/user_environment.c\<close>.  The schedulers are in
  \<open>FOS_Scheduler\<close>.

  A queue is the sequence it represents (see \<open>FOS_EnvQueue\<close>); \<open>env_ready_queues\<close> is an array, and an index
  outside it is an invalid access.  A context switch does not return to its caller at once: operations
  that call \<open>sched()\<close> or \<open>fos_scheduler()\<close> are split there, and say with a \<open>control\<close> value what the
  processor does next.  Messages printed to the console are not modelled.
\<close>

datatype sched_method = SCH_RR | SCH_MLFQ | SCH_BSD | SCH_PRIRR

record sched_state = clock_state +
  scheduler_method :: sched_method
  env_new_queue :: "env_ptr list"
  env_exit_queue :: "env_ptr list"
  env_ready_queues :: "env_ptr list list"
  num_of_ready_queues :: nat
  quantums :: "u8 list"
  ready_queues_ptr :: u32
  quantums_ptr :: u32
  starvation_threshold :: u32
  buffering_enabled :: bool
  nenv :: nat
  env_free_list :: "env_ptr list"

text \<open>What happens after an operation: it returns, it enters the scheduler loop for good
  (\<open>fos_scheduler()\<close>), or the current process switches to the scheduler (\<open>sched()\<close>).\<close>

datatype control = Returns | Enter_scheduler | Switch_to_scheduler

section \<open>Ready queues\<close>

definition rq_get :: "int \<Rightarrow> 'z sched_state_scheme \<Rightarrow> env_ptr list option" where
  "rq_get i s = (if 0 \<le> i \<and> i < int (length (env_ready_queues s)) then Some (env_ready_queues s ! nat i) else None)"

definition rq_set :: "int \<Rightarrow> env_ptr list \<Rightarrow> 'z sched_state_scheme \<Rightarrow> 'z sched_state_scheme" where
  "rq_set i q s = s\<lparr>env_ready_queues := (env_ready_queues s)[nat i := q]\<rparr>"

definition set_status :: "env_ptr \<Rightarrow> env_status \<Rightarrow> 'z cpu_state_scheme \<Rightarrow> 'z cpu_state_scheme" where
  "set_status p st = envs_upd p (\<lambda>e. e\<lparr>env_status := st\<rparr>)"

definition sched_insert_ready ::
  "env_ptr option \<Rightarrow> 'z sched_state_scheme \<Rightarrow> 'z sched_state_scheme option" where
  "sched_insert_ready env s = do {
     assert_that (held QLOCK s);
     e \<leftarrow> env;
     let s1 = envs_upd e (\<lambda>x. x\<lparr>nTicks := 0\<rparr>) s;
     let s2 = set_status e ENV_READY s1;
     q \<leftarrow> rq_get (priority (envs s2 e)) s2;
     q' \<leftarrow> enqueue_l (Some e) q;
     Some (rq_set (priority (envs s2 e)) q' s2) }"

text \<open>The loop of \<open>sched_remove_ready\<close> over the queues \<open>i\<close>, \<open>i + 1\<close>, ... up to \<open>num_of_ready_queues\<close>.\<close>

fun remove_ready_from :: "nat \<Rightarrow> nat \<Rightarrow> env_ptr \<Rightarrow> 'z sched_state_scheme \<Rightarrow> 'z sched_state_scheme option" where
  "remove_ready_from 0 i e s = Some s"
| "remove_ready_from (Suc n) i e s = do {
     q \<leftarrow> rq_get (int i) s;
     if find_env_l (\<lambda>p. env_id (envs s p)) (env_id (envs s e)) q \<noteq> None
     then do {
       q' \<leftarrow> remove_l e q;
       Some (set_status e ENV_UNKNOWN (rq_set (int i) q' s)) }
     else remove_ready_from n (Suc i) e s }"

definition sched_remove_ready ::
  "env_ptr option \<Rightarrow> 'z sched_state_scheme \<Rightarrow> 'z sched_state_scheme option" where
  "sched_remove_ready env s = do {
     assert_that (held QLOCK s);
     e \<leftarrow> env;
     assert_that (env_status (envs s e) = ENV_READY);
     remove_ready_from (num_of_ready_queues s) 0 e s }"

section \<open>New and exit queues\<close>

definition sched_insert_new ::
  "env_ptr option \<Rightarrow> 'z sched_state_scheme \<Rightarrow> 'z sched_state_scheme option" where
  "sched_insert_new env s = do {
     assert_that (held QLOCK s);
     e \<leftarrow> env;
     let s1 = set_status e ENV_NEW s;
     q \<leftarrow> enqueue_l (Some e) (env_new_queue s1);
     Some (s1\<lparr>env_new_queue := q\<rparr>) }"

definition sched_remove_new ::
  "env_ptr option \<Rightarrow> 'z sched_state_scheme \<Rightarrow> 'z sched_state_scheme option" where
  "sched_remove_new env s = do {
     assert_that (held QLOCK s);
     e \<leftarrow> env;
     assert_that (env_status (envs s e) = ENV_NEW);
     q \<leftarrow> remove_l e (env_new_queue s);
     Some (set_status e ENV_UNKNOWN (s\<lparr>env_new_queue := q\<rparr>)) }"

text \<open>
  \<open>cleanup_buffers\<close>: the frames of the modified list that belong to the process are freed, in order.
\<close>

fun free_modified :: "env_ptr \<Rightarrow> frame list \<Rightarrow> 'z mem_state_scheme \<Rightarrow> 'z mem_state_scheme option" where
  "free_modified e [] s = Some s"
| "free_modified e (f # fs) s =
     (if fi_proc (frames_info s f) = Some e
      then do {
        l \<leftarrow> remove_l f (modified_frame_list s);
        (u, s1) \<leftarrow> free_frame f (s\<lparr>modified_frame_list := l\<rparr>);
        free_modified e fs s1 }
      else free_modified e fs s)"

definition cleanup_buffers :: "env_ptr \<Rightarrow> 'z mem_state_scheme \<Rightarrow> (unit \<times> 'z mem_state_scheme) option" where
  "cleanup_buffers e = with_lock MFLLOCK (\<lambda>s. do {
     s1 \<leftarrow> free_modified e (modified_frame_list s) s;
     Some ((), s1) })"

definition sched_insert_exit ::
  "env_ptr option \<Rightarrow> 'z sched_state_scheme \<Rightarrow> 'z sched_state_scheme option" where
  "sched_insert_exit env s = do {
     assert_that (held QLOCK s);
     e \<leftarrow> env;
     s1 \<leftarrow> (if buffering_enabled s then do { (u, s1) \<leftarrow> cleanup_buffers e s; Some s1 } else Some s);
     let s2 = set_status e ENV_EXIT s1;
     q \<leftarrow> enqueue_l (Some e) (env_exit_queue s2);
     Some (s2\<lparr>env_exit_queue := q\<rparr>) }"

definition sched_remove_exit ::
  "env_ptr option \<Rightarrow> 'z sched_state_scheme \<Rightarrow> 'z sched_state_scheme option" where
  "sched_remove_exit env s = do {
     assert_that (held QLOCK s);
     e \<leftarrow> env;
     assert_that (env_status (envs s e) = ENV_EXIT);
     q \<leftarrow> remove_l e (env_exit_queue s);
     Some (set_status e ENV_UNKNOWN (s\<lparr>env_exit_queue := q\<rparr>)) }"

section \<open>Moving processes between queues\<close>

definition sched_new_env :: "env_ptr option \<Rightarrow> 'z sched_state_scheme \<Rightarrow> 'z sched_state_scheme option" where
  "sched_new_env env s = do {
     s1 \<leftarrow> acquire_kspinlock QLOCK s;
     e \<leftarrow> env;
     s2 \<leftarrow> sched_insert_new (Some e) s1;
     release_kspinlock QLOCK s2 }"

text \<open>
  \<open>sched_run_env\<close>: the first process of the new queue with the given id becomes ready; when the
  scheduler is not running yet, it is entered.
\<close>

definition sched_run_env :: "int \<Rightarrow> 'z sched_state_scheme \<Rightarrow> (control \<times> 'z sched_state_scheme) option" where
  "sched_run_env envId s = do {
     s1 \<leftarrow> acquire_kspinlock QLOCK s;
     case find_env_l (\<lambda>p. env_id (envs s1 p)) envId (env_new_queue s1) of
       None \<Rightarrow> do { s2 \<leftarrow> release_kspinlock QLOCK s1; Some (Returns, s2) }
     | Some e \<Rightarrow> do {
         s2 \<leftarrow> sched_remove_new (Some e) s1;
         s3 \<leftarrow> sched_insert_ready (Some e) s2;
         s4 \<leftarrow> release_kspinlock QLOCK s3;
         Some (if scheduler_status s3 = SCH_STOPPED then Enter_scheduler else Returns, s4) } }"

text \<open>
  The search of \<open>sched_exit_env\<close> in the new queue has no \<open>break\<close>: it goes on after removing the process,
  and the loop variable is null when it ends, so \<open>ptr_env\<close> is null although \<open>found\<close> is set.
\<close>

fun exit_from_new ::
  "env_ptr list \<Rightarrow> int \<Rightarrow> bool \<Rightarrow> 'z sched_state_scheme \<Rightarrow> (bool \<times> 'z sched_state_scheme) option" where
  "exit_from_new [] envId found s = Some (found, s)"
| "exit_from_new (p # ps) envId found s =
     (if env_id (envs s p) = envId
      then do { s1 \<leftarrow> sched_remove_new (Some p) s; exit_from_new ps envId True s1 }
      else exit_from_new ps envId found s)"

text \<open>The search in the ready queues, which ends at the process it finds.\<close>

fun remove_id_from_ready ::
  "nat \<Rightarrow> nat \<Rightarrow> int \<Rightarrow> 'z sched_state_scheme \<Rightarrow> (env_ptr option \<times> 'z sched_state_scheme) option" where
  "remove_id_from_ready 0 i envId s = Some (None, s)"
| "remove_id_from_ready (Suc n) i envId s = do {
     q \<leftarrow> rq_get (int i) s;
     case find_env_l (\<lambda>p. env_id (envs s p)) envId q of
       Some e \<Rightarrow> do { q' \<leftarrow> remove_l e q; Some (Some e, rq_set (int i) q' s) }
     | None \<Rightarrow> remove_id_from_ready n (Suc i) envId s }"

text \<open>
  \<open>sched()\<close> up to the context switch: the checks, and the value of \<open>intena\<close> it keeps on the kernel
  stack of the process; \<open>sched_resume\<close> is what it does when the process runs again.
\<close>

definition sched_enter :: "'z sched_state_scheme \<Rightarrow> (bool \<times> 'z sched_state_scheme) option" where
  "sched_enter s = do {
     p \<leftarrow> cpu_proc s;
     assert_that (held QLOCK s);
     assert_that (ncli s = 1);
     assert_that (env_status (envs s p) \<noteq> ENV_RUNNING);
     assert_that (\<not> eflags_IF s);
     Some (intena s, s) }"

definition sched_resume :: "bool \<Rightarrow> 'z sched_state_scheme \<Rightarrow> 'z sched_state_scheme" where
  "sched_resume saved s = s\<lparr>intena := saved\<rparr>"

text \<open>The result of an operation that may switch: the saved \<open>intena\<close> when it does.\<close>

definition sched_exit_env :: "int \<Rightarrow> 'z sched_state_scheme \<Rightarrow> (control \<times> 'z sched_state_scheme) option" where
  "sched_exit_env envId s = do {
     let lock_already_held = held QLOCK s;
     s1 \<leftarrow> (if lock_already_held then Some s else acquire_kspinlock QLOCK s);
     (found_new, s2) \<leftarrow> exit_from_new (env_new_queue s1) envId False s1;
     (ptr_env, s3) \<leftarrow> (if found_new then Some (None, s2)
                       else remove_id_from_ready (num_of_ready_queues s2) 0 envId s2);
     cur_env \<leftarrow> cpu_proc s3;
     let found = (found_new \<or> ptr_env \<noteq> None);
     let (found, ptr_env) = (if \<not> found \<and> env_id (envs s3 cur_env) = envId then (True, Some cur_env)
                             else (found, ptr_env));
     if \<not> found
     then do {
       s4 \<leftarrow> (if lock_already_held then Some s3 else release_kspinlock QLOCK s3);
       Some (Returns, s4) }
     else do {
       s4 \<leftarrow> sched_insert_exit ptr_env s3;
       if env_id (envs s4 cur_env) = envId
       then do { (saved, s5) \<leftarrow> sched_enter s4; Some (Switch_to_scheduler, s5) }
       else do {
         s5 \<leftarrow> (if lock_already_held then Some s4 else release_kspinlock QLOCK s4);
         Some (Returns, s5) } } }"

definition env_exit :: "'z sched_state_scheme \<Rightarrow> (control \<times> 'z sched_state_scheme) option" where
  "env_exit s = do {
     cur_env \<leftarrow> cpu_proc s;
     sched_exit_env (env_id (envs s cur_env)) s }"

text \<open>The processes \<open>sched_print_all\<close> lists: of the new queue, of each ready queue, of the exit queue.\<close>

definition sched_print_all ::
  "'z sched_state_scheme \<Rightarrow> ((env_ptr list \<times> env_ptr list list \<times> env_ptr list) \<times> 'z sched_state_scheme) option" where
  "sched_print_all s = do {
     s1 \<leftarrow> acquire_kspinlock QLOCK s;
     assert_that (num_of_ready_queues s1 \<le> length (env_ready_queues s1));
     let r = (env_new_queue s1, take (num_of_ready_queues s1) (env_ready_queues s1), env_exit_queue s1);
     s2 \<leftarrow> release_kspinlock QLOCK s1;
     Some (r, s2) }"

fun move_new_to_ready :: "nat \<Rightarrow> 'z sched_state_scheme \<Rightarrow> 'z sched_state_scheme option" where
  "move_new_to_ready 0 s = Some s"
| "move_new_to_ready (Suc n) s =
     (let (p, q) = dequeue_l (env_new_queue s)
      in do {
        s1 \<leftarrow> sched_insert_ready p (s\<lparr>env_new_queue := q\<rparr>);
        move_new_to_ready n s1 })"

definition sched_run_all :: "'z sched_state_scheme \<Rightarrow> (control \<times> 'z sched_state_scheme) option" where
  "sched_run_all s = do {
     s1 \<leftarrow> acquire_kspinlock QLOCK s;
     s2 \<leftarrow> move_new_to_ready (length (env_new_queue s1)) s1;
     s3 \<leftarrow> release_kspinlock QLOCK s2;
     assert_that (scheduler_status s3 = SCH_STOPPED);
     Some (Enter_scheduler, s3) }"

fun exit_ready_list :: "env_ptr list \<Rightarrow> nat \<Rightarrow> 'z sched_state_scheme \<Rightarrow> 'z sched_state_scheme option" where
  "exit_ready_list [] i s = Some s"
| "exit_ready_list (p # ps) i s = do {
     q \<leftarrow> rq_get (int i) s;
     q' \<leftarrow> remove_l p q;
     s1 \<leftarrow> sched_insert_exit (Some p) (rq_set (int i) q' s);
     exit_ready_list ps i s1 }"

fun exit_ready_queues :: "nat \<Rightarrow> nat \<Rightarrow> 'z sched_state_scheme \<Rightarrow> 'z sched_state_scheme option" where
  "exit_ready_queues 0 i s = Some s"
| "exit_ready_queues (Suc n) i s = do {
     q \<leftarrow> rq_get (int i) s;
     s1 \<leftarrow> exit_ready_list q i s;
     exit_ready_queues n (Suc i) s1 }"

definition sched_exit_all_ready_envs :: "'z sched_state_scheme \<Rightarrow> 'z sched_state_scheme option" where
  "sched_exit_all_ready_envs s = do {
     s1 \<leftarrow> acquire_kspinlock QLOCK s;
     s2 \<leftarrow> exit_ready_queues (num_of_ready_queues s1) 0 s1;
     release_kspinlock QLOCK s2 }"

end
