(* ===== verification/FOS_Util.thy ===== *)
theory FOS_Util
  imports FOS_Prelude "HOL-Library.Signed_Division"
begin

text \<open>
  Arithmetic helpers: powers of two (\<open>kern/tests/utilities.c\<close>), which give the index mask of environment
  ids, and the fixed-point numbers of \<open>inc/fixed_point.h\<close>.
\<close>

section \<open>Powers of two\<close>

lemma unat_drop_bit_1: "unat (drop_bit 1 (x :: u32)) = unat x div 2"
  by (simp add: drop_bit_eq_div unat_div)

lemma drop_bit_1_less:
  assumes "drop_bit 1 (x :: u32) \<noteq> 0"
  shows "unat (drop_bit 1 x) < unat x"
proof -
  have "unat (drop_bit 1 x) \<noteq> 0" using assms by (metis unsigned_0 unsigned_word_eqI)
  then show ?thesis unfolding unat_drop_bit_1 by linarith
qed

function pow2_loop :: "u32 \<Rightarrow> u32 \<Rightarrow> u32" where
  "pow2_loop x pw = (let x' = drop_bit 1 x in if x' \<noteq> 0 then pow2_loop x' (push_bit 1 pw) else pw)"
  by pat_completeness auto
termination
proof (relation "measure (\<lambda>(x, p). unat x)")
  fix x pw x' :: u32
  assume "x' = drop_bit 1 x" "x' \<noteq> 0"
  then show "((x', push_bit 1 pw), x, pw) \<in> measure (\<lambda>(x, p). unat x)" using drop_bit_1_less [of x] by simp
qed simp

declare pow2_loop.simps [simp del]

function bits_loop :: "u32 \<Rightarrow> u32 \<Rightarrow> u32" where
  "bits_loop x cnt = (let x' = drop_bit 1 x in if x' \<noteq> 0 then bits_loop x' (cnt + 1) else cnt)"
  by pat_completeness auto
termination
proof (relation "measure (\<lambda>(x, p). unat x)")
  fix x cnt x' :: u32
  assume "x' = drop_bit 1 x" "x' \<noteq> 0"
  then show "((x', cnt + 1), x, cnt) \<in> measure (\<lambda>(x, p). unat x)" using drop_bit_1_less [of x] by simp
qed simp

declare bits_loop.simps [simp del]

definition nearest_pow2_ceil :: "u32 \<Rightarrow> u32" where
  "nearest_pow2_ceil x = (if x \<le> 1 then 1 else pow2_loop (x - 1) 2)"

definition log2_ceil :: "u32 \<Rightarrow> u32" where
  "log2_ceil x = (if x \<le> 1 then 1 else bits_loop (x - 1) 2)"

text \<open>Both loops shift as many times as the number has binary digits after its first.\<close>

lemma shift_loops:
  assumes "x \<noteq> 0"
  shows "\<exists>n. pow2_loop x p = push_bit n p \<and> bits_loop x c = c + of_nat n \<and> 2 ^ n \<le> unat x \<and> unat x < 2 ^ Suc n"
  using assms
proof (induction x p arbitrary: c rule: pow2_loop.induct)
  case (1 x p)
  show ?case
  proof (cases "drop_bit 1 x = 0")
    case True
    then have "unat x < 2" using unat_drop_bit_1 [of x] by (simp add: div_eq_0_iff)
    moreover have "1 \<le> unat x" using 1(2) by (simp add: unat_gt_0 Suc_le_eq)
    ultimately show ?thesis
      using True by (intro exI [of _ 0]) (simp add: pow2_loop.simps [of x] bits_loop.simps [of x])
  next
    case False
    have ih: "\<exists>n. pow2_loop (drop_bit 1 x) (push_bit 1 p) = push_bit n (push_bit 1 p) \<and>
        bits_loop (drop_bit 1 x) (c + 1) = c + 1 + of_nat n \<and>
        2 ^ n \<le> unat (drop_bit 1 x) \<and> unat (drop_bit 1 x) < 2 ^ Suc n"
      by (rule 1(1) [OF refl False False])
    from ih [unfolded unat_drop_bit_1] obtain n where
      n: "pow2_loop (drop_bit 1 x) (push_bit 1 p) = push_bit n (push_bit 1 p)"
        "bits_loop (drop_bit 1 x) (c + 1) = c + 1 + of_nat n"
        "2 ^ n \<le> unat x div 2" "unat x div 2 < 2 ^ Suc n" by blast
    have "2 ^ Suc n \<le> unat x" "unat x < 2 ^ Suc (Suc n)" using n(3,4) by auto
    with n(1,2) False show ?thesis
      by (intro exI [of _ "Suc n"]) (simp add: pow2_loop.simps [of x] bits_loop.simps [of x])
  qed
qed

lemma unat_push_bit_2: "k < 31 \<Longrightarrow> unat (push_bit k 2 :: u32) = 2 ^ Suc k"
proof -
  assume k: "k < 31"
  have "(2::nat) * 2 ^ k < 2 ^ 32" using k power_strict_increasing [of "Suc k" 32 "2::nat"] by simp
  moreover have "(push_bit k 2 :: u32) = of_nat (2 * 2 ^ k)" by (simp add: push_bit_eq_mult)
  ultimately show ?thesis using unat_of_nat_u32 [of "2 * 2 ^ k"] by (simp only: power_Suc)
qed

lemma pow2_ceil_exponent:
  assumes "x \<noteq> 0" "unat x \<le> 2 ^ 31"
  shows "\<exists>k. unat (nearest_pow2_ceil x) = 2 ^ k \<and> unat x \<le> 2 ^ k \<and> (\<forall>j. unat x \<le> 2 ^ j \<longrightarrow> k \<le> j) \<and>
    unat (log2_ceil x) = k + 1"
proof (cases "x = 1")
  case True
  then show ?thesis by (intro exI [of _ 0]) (simp add: nearest_pow2_ceil_def log2_ceil_def)
next
  case False
  then have x: "2 \<le> unat x" "\<not> x \<le> 1" using assms(1) by (auto simp: word_le_nat_alt word_unat_eq_iff)
  have u: "unat (x - 1) = unat x - 1" using assms(1) by (simp add: unat_minus_one)
  then have "x - 1 \<noteq> 0" using x(1) by (auto simp: word_unat_eq_iff)
  from shift_loops [OF this, of 2 2] obtain n where
    n: "pow2_loop (x - 1) 2 = push_bit n 2" "bits_loop (x - 1) 2 = 2 + of_nat n"
      "2 ^ n \<le> unat x - 1" "unat x - 1 < 2 ^ Suc n" using u by auto
  have "(2::nat) ^ n < 2 ^ 31" using n(3) x(1) assms(2) by linarith
  then have n31: "n < 31" by (rule power_less_imp_less_exp [rotated]) simp
  have least: "Suc n \<le> j" if "unat x \<le> 2 ^ j" for j
  proof -
    have "(2::nat) ^ n < 2 ^ j" using n(3) that x(1) by linarith
    then show ?thesis by (simp add: Suc_le_eq)
  qed
  have "unat (log2_ceil x) = Suc n + 1"
    using x(2) n(2) n31 by (simp add: log2_ceil_def unat_word_ariths unat_of_nat_u32)
  moreover have "unat (nearest_pow2_ceil x) = 2 ^ Suc n"
    using x(2) n(1) unat_push_bit_2 [OF n31] by (simp add: nearest_pow2_ceil_def)
  moreover have "unat x \<le> 2 ^ Suc n" using n(4) by linarith
  ultimately show ?thesis using least by blast
qed

text \<open>
  \<open>nearest_pow2_ceil\<close> is the least power of two that is not below its argument (up to \<open>2 ^ 31\<close>), and
  \<open>log2_ceil\<close> is one more than the exponent of that power, except for arguments of at most 1.
\<close>

theorem pow2_ceil_correct:
  assumes "x \<noteq> 0" "unat x \<le> 2 ^ 31"
  shows "\<exists>k. unat (nearest_pow2_ceil x) = 2 ^ k \<and> unat x \<le> 2 ^ k \<and> (\<forall>j. unat x \<le> 2 ^ j \<longrightarrow> k \<le> j) \<and>
    unat (log2_ceil x) = k + 1"
  using assms by (rule pow2_ceil_exponent)

theorem pow2_ceil_correct_witness:
  "\<exists>k. unat (nearest_pow2_ceil 100) = 2 ^ k \<and> unat (100 :: u32) \<le> 2 ^ k \<and>
    (\<forall>j. unat (100 :: u32) \<le> 2 ^ j \<longrightarrow> k \<le> j) \<and> unat (log2_ceil 100) = k + 1"
  by (rule pow2_ceil_correct) simp_all

section \<open>Fixed-point numbers\<close>

text \<open>
  A fixed-point number is its internal \<open>int\<close>, 14 bits of it the fraction; results are reduced to 32 bits
  as \<open>int\<close> arithmetic and the conversion to \<open>int\<close> do.  C division truncates towards zero (\<open>sdiv\<close>).
\<close>

definition FIX_F :: int where [fos_consts]: "FIX_F = 16384"
definition FIX_MAX_INT :: int where [fos_consts]: "FIX_MAX_INT = 131071"

definition mk_fix :: "int \<Rightarrow> int" where
  "mk_fix f = sint (word_of_int f :: u32)"

definition fix_int :: "int \<Rightarrow> int option" where
  "fix_int n = (if n \<ge> - FIX_MAX_INT \<and> n \<le> FIX_MAX_INT then Some (mk_fix (n * FIX_F)) else None)"

definition fix_frac :: "int \<Rightarrow> int \<Rightarrow> int option" where
  "fix_frac n d =
     (if d \<noteq> 0 \<and> n sdiv d \<ge> - FIX_MAX_INT \<and> n sdiv d \<le> FIX_MAX_INT then Some (mk_fix (n * FIX_F sdiv d)) else None)"

definition fix_round :: "int \<Rightarrow> int" where
  "fix_round x =
     (if x \<ge> 0 then mk_fix (x + FIX_F sdiv 2) sdiv FIX_F else mk_fix (x - FIX_F sdiv 2) sdiv FIX_F)"

definition fix_trunc :: "int \<Rightarrow> int" where
  "fix_trunc x = x sdiv FIX_F"

definition fix_add :: "int \<Rightarrow> int \<Rightarrow> int" where
  "fix_add x y = mk_fix (x + y)"

definition fix_sub :: "int \<Rightarrow> int \<Rightarrow> int" where
  "fix_sub x y = mk_fix (x - y)"

definition fix_mul :: "int \<Rightarrow> int \<Rightarrow> int" where
  "fix_mul x y = mk_fix (x * y sdiv FIX_F)"

definition fix_scale :: "int \<Rightarrow> int \<Rightarrow> int option" where
  "fix_scale x n = (if n \<ge> 0 then Some (mk_fix (x * n)) else None)"

definition fix_div :: "int \<Rightarrow> int \<Rightarrow> int option" where
  "fix_div x y = (if y = 0 then None else Some (mk_fix (x * FIX_F sdiv y)))"

definition fix_unscale :: "int \<Rightarrow> int \<Rightarrow> int option" where
  "fix_unscale x n = (if n > 0 then Some (mk_fix (x sdiv n)) else None)"

definition fix_inv :: "int \<Rightarrow> int option" where
  "fix_inv x = fix_int 1 \<bind> (\<lambda>f. fix_div f x)"

definition fix_compare :: "int \<Rightarrow> int \<Rightarrow> int" where
  "fix_compare x y = (if x < y then -1 else if x > y then 1 else 0)"

lemma mk_fix_id: "- (2 ^ 31) \<le> f \<Longrightarrow> f < 2 ^ 31 \<Longrightarrow> mk_fix f = f"
  by (simp add: mk_fix_def sint_word_ariths signed_take_bit_int_eq_self signed_of_int)

lemma sdiv_pos: "0 \<le> a \<Longrightarrow> 0 < b \<Longrightarrow> (a :: int) sdiv b = a div b"
  by (simp add: signed_divide_int_def sgn_if)

lemma sdiv_neg: "a < 0 \<Longrightarrow> 0 < b \<Longrightarrow> (a :: int) sdiv b = - ((- a) div b)"
  by (simp add: signed_divide_int_def sgn_if)

text \<open>
  Integers survive the conversion to fixed point and back, by rounding and by truncation, over the
  whole range that \<open>fix_int\<close> accepts; addition of fixed-point integers is exact while it stays in range.
\<close>

theorem fix_int_roundtrip:
  assumes "- FIX_MAX_INT \<le> n" "n \<le> FIX_MAX_INT"
  shows "\<exists>f. fix_int n = Some f \<and> fix_round f = n \<and> fix_trunc f = n \<and>
    (\<forall>m g. fix_int m = Some g \<and> \<bar>n + m\<bar> \<le> FIX_MAX_INT \<longrightarrow> fix_int (n + m) = Some (fix_add f g))"
proof -
  have id: "mk_fix (k * 16384) = k * 16384" if "\<bar>k\<bar> \<le> 131071" for k using that by (intro mk_fix_id) auto
  have f: "fix_int n = Some (n * 16384)" using assms id [of n] by (simp add: fix_int_def fos_consts)
  have "fix_round (n * 16384) = n" "fix_trunc (n * 16384) = n"
    using assms
    by (cases "0 \<le> n"; simp add: fix_round_def fix_trunc_def fos_consts sdiv_pos sdiv_neg mk_fix_id)+
  moreover have "fix_int (n + m) = Some (fix_add (n * 16384) g)"
    if "fix_int m = Some g" "\<bar>n + m\<bar> \<le> FIX_MAX_INT" for m g
  proof -
    have "g = m * 16384" using that(1) id [of m] by (auto simp: fix_int_def fos_consts split: if_splits)
    then show ?thesis using that(2) id [of "n + m"] by (auto simp: fix_add_def fix_int_def fos_consts algebra_simps abs_le_iff)
  qed
  ultimately show ?thesis using f by blast
qed

theorem fix_int_roundtrip_witness:
  "\<exists>f. fix_int (-42) = Some f \<and> fix_round f = -42 \<and> fix_trunc f = -42 \<and>
    (\<forall>m g. fix_int m = Some g \<and> \<bar>-42 + m\<bar> \<le> FIX_MAX_INT \<longrightarrow> fix_int (-42 + m) = Some (fix_add f g))"
  by (rule fix_int_roundtrip) (simp_all add: fos_consts)

end
