(* ===== verification/FOS_Scheduler.thy ===== *)
theory FOS_Scheduler
  imports FOS_Sched FOS_Util
begin

unbundle bit_operations_syntax

text \<open>
  The schedulers (\<open>kern/cpu/sched.c\<close>), the operations on priorities, and the functions of
  \<open>kern/proc/user_environment.c\<close> by which a process gets and gives up the processor.

  \<open>fos_scheduler\<close> never returns, and it runs processes by a context switch.  It is modelled by its
  sections between the points where something else may run: \<open>fos_scheduler_enter\<close> up to its outer loop,
  \<open>fos_scheduler_lock\<close> from \<open>sti\<close> to the lock, \<open>fos_scheduler_pick\<close> from the choice of a process to the context
  switch or to the end of an outer iteration, and \<open>fos_scheduler_back\<close> after the switch back.
\<close>

section \<open>The table of environments\<close>

primrec env_init_from :: "nat \<Rightarrow> 'z sched_state_scheme \<Rightarrow> 'z sched_state_scheme option" where
  "env_init_from 0 s = Some s"
| "env_init_from (Suc i) s = do {
     let s1 = envs_upd i (\<lambda>e. e\<lparr>env_status := ENV_FREE, env_id := 0\<rparr>) s;
     l \<leftarrow> insert_l i (env_free_list s1);
     env_init_from i (s1\<lparr>env_free_list := l\<rparr>) }"

definition env_init :: "'z sched_state_scheme \<Rightarrow> 'z sched_state_scheme option" where
  "env_init s = env_init_from (nenv s) s"

definition allocate_environment ::
  "'z sched_state_scheme \<Rightarrow> (int \<times> env_ptr option) \<times> 'z sched_state_scheme" where
  "allocate_environment s = (case first_of (env_free_list s) None of
     None \<Rightarrow> ((E_NO_FREE_ENV, None), s)
   | Some e \<Rightarrow> ((0, Some e), set_status e ENV_UNKNOWN s))"

definition free_environment :: "env_ptr \<Rightarrow> 'z sched_state_scheme \<Rightarrow> 'z sched_state_scheme option" where
  "free_environment e s = do {
     let s1 = envs_upd e (\<lambda>_. null_env) s;
     let s2 = set_status e ENV_FREE s1;
     l \<leftarrow> insert_l e (env_free_list s2);
     Some (s2\<lparr>env_free_list := l\<rparr>) }"

definition ENVX :: "int \<Rightarrow> 'z sched_state_scheme \<Rightarrow> nat" where
  "ENVX envid s = unat ((word_of_int envid :: u32) AND (nearest_pow2_ceil (of_nat (nenv s)) - 1))"

text \<open>The result code and \<open>*env_store\<close>.  An index outside the table is an invalid access.\<close>

definition envid2env :: "int \<Rightarrow> bool \<Rightarrow> 'z sched_state_scheme \<Rightarrow> (int \<times> env_ptr option) option" where
  "envid2env envid checkperm s =
     (if envid = 0 then Some (0, cpu_proc s)
      else do {
        let e = ENVX envid s;
        assert_that (e < nenv s);
        if env_status (envs s e) = ENV_FREE \<or> env_id (envs s e) \<noteq> envid then Some (E_BAD_ENV, None)
        else if checkperm \<and> Some e \<noteq> cpu_proc s
        then do {
          c \<leftarrow> cpu_proc s;
          if env_parent_id (envs s e) \<noteq> env_id (envs s c) then Some (E_BAD_ENV, None) else Some (0, Some e) }
        else Some (0, Some e) })"

section \<open>Initialisation of the schedulers\<close>

definition INIT_QUANTUM_IN_MS :: u8 where "INIT_QUANTUM_IN_MS = 10"
definition SIZEOF_ENV_QUEUE :: u32 where "SIZEOF_ENV_QUEUE = 16"

definition sched_delete_ready_queues ::
  "'z sched_state_scheme dynalloc \<Rightarrow> 'z sched_state_scheme \<Rightarrow> 'z sched_state_scheme option" where
  "sched_delete_ready_queues da s = do {
     s1 \<leftarrow> acquire_kspinlock QLOCK s;
     (u, s2) \<leftarrow> (if ready_queues_ptr s1 \<noteq> 0 then kfree da (ready_queues_ptr s1) s1 else Some ((), s1));
     (u, s3) \<leftarrow> (if quantums_ptr s2 \<noteq> 0 then kfree da (quantums_ptr s2) s2 else Some ((), s2));
     release_kspinlock QLOCK s3 }"

text \<open>
  New arrays of \<open>n\<close> ready queues and \<open>m\<close> quantums: from the kernel heap, or without it the static arrays
  of one element.  Writing through a null pointer or past the static array is invalid.
\<close>

definition new_ready_queues ::
  "'z sched_state_scheme dynalloc \<Rightarrow> nat \<Rightarrow> nat \<Rightarrow> 'z sched_state_scheme \<Rightarrow> 'z sched_state_scheme option" where
  "new_ready_queues da n m s =
     (if use_kheap s
      then do {
        s1 \<leftarrow> sched_delete_ready_queues da s;
        (p, s2) \<leftarrow> kmalloc da (of_nat n * SIZEOF_ENV_QUEUE) s1;
        let s2 = s2\<lparr>ready_queues_ptr := p\<rparr>;
        (q, s3) \<leftarrow> kmalloc da (of_nat m) s2;
        let s3 = s3\<lparr>quantums_ptr := q\<rparr>;
        assert_that (q \<noteq> 0 \<and> (0 < n \<longrightarrow> p \<noteq> 0));
        Some s3 }
      else do { assert_that (n \<le> 1); Some s })"

definition sched_init_RR ::
  "'z sched_state_scheme dynalloc \<Rightarrow> u8 \<Rightarrow> 'z sched_state_scheme \<Rightarrow> 'z sched_state_scheme option" where
  "sched_init_RR da quantum s = do {
     s1 \<leftarrow> new_ready_queues da 1 1 (s\<lparr>num_of_ready_queues := 1\<rparr>);
     let s2 = s1\<lparr>quantums := [quantum]\<rparr>;
     s3 \<leftarrow> kclock_set_quantum quantum s2;
     let s4 = s3\<lparr>env_ready_queues := [[]]\<rparr>;
     Some (s4\<lparr>scheduler_status := SCH_STOPPED, scheduler_method := SCH_RR\<rparr>) }"

definition sched_init_PRIRR ::
  "'z sched_state_scheme dynalloc \<Rightarrow> u8 \<Rightarrow> u8 \<Rightarrow> u32 \<Rightarrow> 'z sched_state_scheme \<Rightarrow> 'z sched_state_scheme option" where
  "sched_init_PRIRR da numOfPriorities quantum starvThresh s = do {
     let s0 = s\<lparr>num_of_ready_queues := unat numOfPriorities, starvation_threshold := starvThresh\<rparr>;
     s1 \<leftarrow> new_ready_queues da (unat numOfPriorities) 1 s0;
     let s2 = s1\<lparr>quantums := [quantum]\<rparr>;
     s3 \<leftarrow> kclock_set_quantum quantum s2;
     let s4 = s3\<lparr>env_ready_queues := replicate (unat numOfPriorities) []\<rparr>;
     Some (s4\<lparr>scheduler_status := SCH_STOPPED, scheduler_method := SCH_PRIRR\<rparr>) }"

definition sched_init_MLFQ :: "u8 \<Rightarrow> u8 list \<Rightarrow> 'z sched_state_scheme \<Rightarrow> 'z sched_state_scheme option" where
  "sched_init_MLFQ numOfLevels quantumOfEachLevel s = None"

definition sched_init_BSD :: "u8 \<Rightarrow> u8 \<Rightarrow> 'z sched_state_scheme \<Rightarrow> 'z sched_state_scheme option" where
  "sched_init_BSD numOfLevels quantum s = None"

definition sched_init ::
  "'z sched_state_scheme dynalloc \<Rightarrow> 'z sched_state_scheme \<Rightarrow> 'z sched_state_scheme option" where
  "sched_init da s = do {
     s1 \<leftarrow> sched_init_RR da INIT_QUANTUM_IN_MS s;
     let s2 = s1\<lparr>env_new_queue := [], env_exit_queue := [], scheduler_status := SCH_STOPPED\<rparr>;
     Some (init_kspinlock QLOCK s2) }"

section \<open>Choosing the next process\<close>

definition enqueue_cur :: "(env_ptr \<Rightarrow> int) \<Rightarrow> 'z sched_state_scheme \<Rightarrow> 'z sched_state_scheme option" where
  "enqueue_cur level s = (case cpu_proc s of
     None \<Rightarrow> Some s
   | Some e \<Rightarrow> do {
       q \<leftarrow> rq_get (level e) s;
       q' \<leftarrow> enqueue_l (Some e) q;
       Some (rq_set (level e) q' s) })"

definition set_first_quantum :: "'z sched_state_scheme \<Rightarrow> 'z sched_state_scheme option" where
  "set_first_quantum s = (case quantums s of [] \<Rightarrow> None | q # _ \<Rightarrow> kclock_set_quantum q s)"

definition fos_scheduler_RR :: "'z sched_state_scheme \<Rightarrow> (env_ptr option \<times> 'z sched_state_scheme) option" where
  "fos_scheduler_RR s = do {
     assert_that (held QLOCK s);
     s1 \<leftarrow> enqueue_cur (\<lambda>_. 0) s;
     q \<leftarrow> rq_get 0 s1;
     let (next_env, q') = dequeue_l q;
     s2 \<leftarrow> set_first_quantum (rq_set 0 q' s1);
     Some (next_env, s2) }"

text \<open>The loop over the ready queues \<open>i\<close>, \<open>i + 1\<close>, ... of \<open>fos_scheduler_PRIRR\<close>.\<close>

fun dequeue_first :: "nat \<Rightarrow> nat \<Rightarrow> 'z sched_state_scheme \<Rightarrow> (env_ptr option \<times> 'z sched_state_scheme) option" where
  "dequeue_first 0 i s = Some (None, s)"
| "dequeue_first (Suc n) i s = do {
     q \<leftarrow> rq_get (int i) s;
     if q = [] then dequeue_first n (Suc i) s
     else (let (next_env, q') = dequeue_l q in Some (next_env, rq_set (int i) q' s)) }"

definition fos_scheduler_PRIRR :: "'z sched_state_scheme \<Rightarrow> (env_ptr option \<times> 'z sched_state_scheme) option" where
  "fos_scheduler_PRIRR s = do {
     assert_that (held QLOCK s);
     s1 \<leftarrow> enqueue_cur (\<lambda>e. priority (envs s e)) s;
     (next_env, s2) \<leftarrow> dequeue_first (num_of_ready_queues s1) 0 s1;
     s3 \<leftarrow> set_first_quantum s2;
     Some (next_env, s3) }"

definition fos_scheduler_MLFQ :: "'z sched_state_scheme \<Rightarrow> (env_ptr option \<times> 'z sched_state_scheme) option" where
  "fos_scheduler_MLFQ s = None"

definition fos_scheduler_BSD :: "'z sched_state_scheme \<Rightarrow> (env_ptr option \<times> 'z sched_state_scheme) option" where
  "fos_scheduler_BSD s = None"

definition sched_next :: "'z sched_state_scheme \<Rightarrow> (env_ptr option \<times> 'z sched_state_scheme) option" where
  "sched_next s = (case scheduler_method s of
     SCH_RR \<Rightarrow> fos_scheduler_RR s
   | SCH_MLFQ \<Rightarrow> fos_scheduler_MLFQ s
   | SCH_BSD \<Rightarrow> fos_scheduler_BSD s
   | SCH_PRIRR \<Rightarrow> fos_scheduler_PRIRR s)"

section \<open>Address spaces\<close>

definition lcr3 :: "u32 \<Rightarrow> 'z mem_state_scheme \<Rightarrow> 'z mem_state_scheme" where
  "lcr3 cr3 s = tlbflush (s\<lparr>cpu_cr3 := cr3\<rparr>)"

definition switchkvm :: "'z mem_state_scheme \<Rightarrow> 'z mem_state_scheme" where
  "switchkvm s = lcr3 (to_physical_address (ptr_page_directory s)) s"

definition switchuvm :: "env_ptr option \<Rightarrow> 'z mem_state_scheme \<Rightarrow> 'z mem_state_scheme option" where
  "switchuvm proc s = do {
     p \<leftarrow> proc;
     assert_that (kstack (envs s p) \<noteq> 0);
     assert_that (env_page_directory (envs s p) \<noteq> None);
     let s1 = (pushcli s)\<lparr>cpu_proc := Some p\<rparr>;
     popcli (lcr3 (env_cr3 (envs s1 p)) s1) }"

section \<open>The scheduler loop\<close>

definition fos_scheduler_enter :: "'z sched_state_scheme \<Rightarrow> 'z sched_state_scheme option" where
  "fos_scheduler_enter s = do {
     assert_that (\<not> eflags_IF s);
     Some (s\<lparr>cpu_proc := None, scheduler_status := SCH_STARTED\<rparr>) }"

definition fos_scheduler_lock :: "'z sched_state_scheme \<Rightarrow> 'z sched_state_scheme option" where
  "fos_scheduler_lock s = acquire_kspinlock QLOCK (sti s)"

text \<open>
  After the choice the scheduler switches to a process; with nothing to run it releases the lock, and
  goes round again when some process is blocked, or to the command prompt.
\<close>

datatype pick = Run env_ptr | Idle_blocked | Into_prompt

definition is_any_blocked :: "'z sched_state_scheme \<Rightarrow> bool" where
  "is_any_blocked s \<longleftrightarrow> list_ex (\<lambda>i. env_status (envs s i) = ENV_BLOCKED) [0..<nenv s]"

definition fos_scheduler_pick :: "'z sched_state_scheme \<Rightarrow> (pick \<times> 'z sched_state_scheme) option" where
  "fos_scheduler_pick s = do {
     (next_env, s1) \<leftarrow> sched_next s;
     case next_env of
       Some e \<Rightarrow> do {
         s2 \<leftarrow> set_cpu_proc (Some e) s1;
         s3 \<leftarrow> switchuvm (Some e) s2;
         Some (Run e, set_status e ENV_RUNNING s3) }
     | None \<Rightarrow> do {
         let blocked = is_any_blocked s1;
         s2 \<leftarrow> release_kspinlock QLOCK s1;
         Some (if blocked then Idle_blocked else Into_prompt, s2) } }"

definition fos_scheduler_back :: "'z sched_state_scheme \<Rightarrow> 'z sched_state_scheme option" where
  "fos_scheduler_back s = do {
     assert_that (held QLOCK s);
     let s1 = kclock_stop s;
     p \<leftarrow> cpu_proc s1;
     let status = env_status (envs s1 p);
     assert_that (status \<noteq> ENV_RUNNING);
     if status = ENV_READY then Some s1 else set_cpu_proc None (switchkvm s1) }"

section \<open>Giving up the processor\<close>

text \<open>\<open>yield\<close> up to the context switch, with the \<open>intena\<close> that \<open>sched\<close> saves, and from there on.\<close>

definition yield_enter :: "'z sched_state_scheme \<Rightarrow> (bool \<times> 'z sched_state_scheme) option" where
  "yield_enter s = do {
     s1 \<leftarrow> acquire_kspinlock QLOCK s;
     p \<leftarrow> cpu_proc s1;
     sched_enter (set_status p ENV_READY s1) }"

definition yield_leave :: "bool \<Rightarrow> 'z sched_state_scheme \<Rightarrow> 'z sched_state_scheme option" where
  "yield_leave saved s = release_kspinlock QLOCK (sched_resume saved s)"

text \<open>The first section of a new process, which begins with the lock the scheduler holds.\<close>

definition env_start :: "'z sched_state_scheme \<Rightarrow> 'z sched_state_scheme option" where
  "env_start s = release_kspinlock QLOCK s"

section \<open>Priorities and ageing\<close>

text \<open>
  Moving a ready process to the queue of another priority: the lock is taken twice, and the priority is
  changed between the two critical sections.
\<close>

definition requeue :: "env_ptr \<Rightarrow> int \<Rightarrow> 'z sched_state_scheme \<Rightarrow> 'z sched_state_scheme option" where
  "requeue e newprio s = do {
     s1 \<leftarrow> acquire_kspinlock QLOCK s;
     q \<leftarrow> rq_get (priority (envs s1 e)) s1;
     q' \<leftarrow> remove_from_queue_l (Some e) q;
     s2 \<leftarrow> release_kspinlock QLOCK (rq_set (priority (envs s1 e)) q' s1);
     let s3 = envs_upd e (\<lambda>x. x\<lparr>priority := newprio\<rparr>) s2;
     s4 \<leftarrow> acquire_kspinlock QLOCK s3;
     s5 \<leftarrow> sched_insert_ready (Some e) s4;
     release_kspinlock QLOCK s5 }"

definition env_set_priority :: "int \<Rightarrow> int \<Rightarrow> 'z sched_state_scheme \<Rightarrow> 'z sched_state_scheme option" where
  "env_set_priority envID newprio s = do {
     assert_that (\<not> (newprio < 0 \<or> newprio \<ge> int (num_of_ready_queues s)));
     (r, env) \<leftarrow> envid2env envID False s;
     if r \<noteq> 0 then Some s
     else do {
       e \<leftarrow> env;
       if env_status (envs s e) = ENV_READY then requeue e newprio s
       else Some (envs_upd e (\<lambda>x. x\<lparr>priority := newprio\<rparr>) s) } }"

definition sched_set_starv_thresh :: "u32 \<Rightarrow> 'z sched_state_scheme \<Rightarrow> 'z sched_state_scheme" where
  "sched_set_starv_thresh starvThresh s = s\<lparr>starvation_threshold := starvThresh\<rparr>"

text \<open>What the clock interrupt does for one ready process.\<close>

definition age_env :: "env_ptr \<Rightarrow> 'z sched_state_scheme \<Rightarrow> 'z sched_state_scheme option" where
  "age_env e s =
     (if priority (envs s e) = 0 then Some s
      else if nTicks (envs s e) > starvation_threshold s
      then do {
        s1 \<leftarrow> requeue e (priority (envs s e) - 1) s;
        Some (envs_upd e (\<lambda>x. x\<lparr>nTicks := 0\<rparr>) s1) }
      else Some (envs_upd e (\<lambda>x. x\<lparr>nTicks := nTicks x + 1\<rparr>) s))"

text \<open>
  The two loops of the handler.  \<open>LIST_FOREACH\<close> reads the successor before the body runs, and the body
  moves only the current process, to a queue the outer loop has passed.
\<close>

fun age_queues :: "nat \<Rightarrow> nat \<Rightarrow> 'z sched_state_scheme \<Rightarrow> 'z sched_state_scheme option" where
  "age_queues 0 i s = Some s"
| "age_queues (Suc n) i s = do {
     q \<leftarrow> rq_get (int i) s;
     s1 \<leftarrow> run_all age_env q s;
     age_queues n (Suc i) s1 }"

text \<open>
  \<open>clock_interrupt_handler\<close> up to the context switch of \<open>yield\<close>.  \<open>stamps\<close> is \<open>update_WS_time_stamps\<close> when the
  replacement policy is the LRU approximation, and nothing otherwise.
\<close>

definition clock_interrupt_handler ::
  "('z sched_state_scheme \<Rightarrow> 'z sched_state_scheme option) \<Rightarrow>
   'z sched_state_scheme \<Rightarrow> (bool option \<times> 'z sched_state_scheme) option" where
  "clock_interrupt_handler stamps s = do {
     s1 \<leftarrow> (if scheduler_method s = SCH_PRIRR then age_queues (num_of_ready_queues s) 0 s else Some s);
     let s2 = s1\<lparr>ticks := ticks s1 + 1\<rparr>;
     case cpu_proc s2 of
       None \<Rightarrow> Some (None, s2)
     | Some p \<Rightarrow> do {
         s3 \<leftarrow> stamps (envs_upd p (\<lambda>e. e\<lparr>nClocks := nClocks e + 1\<rparr>) s2);
         (saved, s4) \<leftarrow> yield_enter s3;
         Some (Some saved, s4) } }"

end
