(* ===== verification/FOS_SchedInv.thy ===== *)
theory FOS_SchedInv
  imports FOS_Scheduler
begin

text \<open>
  Correctness of the process queues and of the schedulers: the invariant \<open>queues_ok\<close>, the order in which
  round robin and priority round robin run processes, and ageing.
\<close>

lemma nth_list_update_at: "j < length xs \<Longrightarrow> xs[i := y] ! j = (if i = j then y else xs ! j)"
  by (cases "i = j") auto

section \<open>The invariant of the queues\<close>

text \<open>
  Every process is in at most one queue, once, and its status says in which: the new queue, the exit
  queue, or the ready queue of its priority.  The process on the processor is in no queue, and its
  priority is a valid index.
\<close>

definition in_ready :: "env_ptr \<Rightarrow> 'z sched_state_scheme \<Rightarrow> bool" where
  "in_ready e s \<longleftrightarrow> (\<exists>q \<in> set (env_ready_queues s). e \<in> set q)"

definition in_queue :: "env_ptr \<Rightarrow> 'z sched_state_scheme \<Rightarrow> bool" where
  "in_queue e s \<longleftrightarrow> e \<in> set (env_new_queue s) \<or> e \<in> set (env_exit_queue s) \<or> in_ready e s"

definition ready_ok :: "'z sched_state_scheme \<Rightarrow> bool" where
  "ready_ok s \<longleftrightarrow> length (env_ready_queues s) = num_of_ready_queues s \<and>
     (\<forall>i < num_of_ready_queues s. distinct (env_ready_queues s ! i) \<and>
        (\<forall>e \<in> set (env_ready_queues s ! i). env_status (envs s e) = ENV_READY \<and> priority (envs s e) = int i))"

definition new_ok :: "'z sched_state_scheme \<Rightarrow> bool" where
  "new_ok s \<longleftrightarrow> distinct (env_new_queue s) \<and> (\<forall>e \<in> set (env_new_queue s). env_status (envs s e) = ENV_NEW)"

definition exit_ok :: "'z sched_state_scheme \<Rightarrow> bool" where
  "exit_ok s \<longleftrightarrow> distinct (env_exit_queue s) \<and> (\<forall>e \<in> set (env_exit_queue s). env_status (envs s e) = ENV_EXIT)"

definition prio_ok :: "env_ptr \<Rightarrow> 'z sched_state_scheme \<Rightarrow> bool" where
  "prio_ok e s \<longleftrightarrow> 0 \<le> priority (envs s e) \<and> priority (envs s e) < int (num_of_ready_queues s)"

definition queues_ok :: "'z sched_state_scheme \<Rightarrow> bool" where
  "queues_ok s \<longleftrightarrow> ready_ok s \<and> new_ok s \<and> exit_ok s"

text \<open>The scheduler's critical section.\<close>

definition in_qlock :: "'z cpu_state_scheme \<Rightarrow> bool" where
  "in_qlock s \<longleftrightarrow> cpu_ok s \<and> locks_ok s \<and> held QLOCK s \<and> 0 < ncli s"

lemma ready_ok_length: "ready_ok s \<Longrightarrow> length (env_ready_queues s) = num_of_ready_queues s"
  by (simp add: ready_ok_def)

lemma ready_okD:
  assumes "ready_ok s" "e \<in> set (env_ready_queues s ! i)" "i < num_of_ready_queues s"
  shows "env_status (envs s e) = ENV_READY" "priority (envs s e) = int i" "prio_ok e s"
  using assms unfolding ready_ok_def prio_ok_def by auto

lemma in_readyE:
  assumes "ready_ok s" "in_ready e s"
  obtains i where "i < num_of_ready_queues s" "e \<in> set (env_ready_queues s ! i)"
  using assms unfolding ready_ok_def in_ready_def by (metis in_set_conv_nth)

lemma in_ready_nth: "ready_ok s \<Longrightarrow> i < num_of_ready_queues s \<Longrightarrow> e \<in> set (env_ready_queues s ! i) \<Longrightarrow> in_ready e s"
  unfolding ready_ok_def in_ready_def by (metis nth_mem)

lemma in_ready_iff:
  assumes "ready_ok s"
  shows "in_ready e s \<longleftrightarrow> env_status (envs s e) = ENV_READY \<and> prio_ok e s \<and>
    e \<in> set (env_ready_queues s ! nat (priority (envs s e)))"
proof
  assume "in_ready e s"
  from in_readyE [OF assms this] obtain i where i: "i < num_of_ready_queues s" "e \<in> set (env_ready_queues s ! i)" .
  from ready_okD [OF assms i(2,1)] i(2) show "env_status (envs s e) = ENV_READY \<and> prio_ok e s \<and>
    e \<in> set (env_ready_queues s ! nat (priority (envs s e)))" by simp
next
  assume r: "env_status (envs s e) = ENV_READY \<and> prio_ok e s \<and> e \<in> set (env_ready_queues s ! nat (priority (envs s e)))"
  then have "nat (priority (envs s e)) < num_of_ready_queues s" by (simp add: prio_ok_def) linarith
  with r show "in_ready e s" by (blast intro: in_ready_nth [OF assms])
qed

lemma queue_statusD:
  assumes "queues_ok s"
  shows "e \<in> set (env_new_queue s) \<Longrightarrow> env_status (envs s e) = ENV_NEW"
    "e \<in> set (env_exit_queue s) \<Longrightarrow> env_status (envs s e) = ENV_EXIT"
    "in_ready e s \<Longrightarrow> env_status (envs s e) = ENV_READY"
  using assms in_ready_iff by (auto simp: queues_ok_def new_ok_def exit_ok_def)

lemma not_in_queue_by_status:
  assumes "queues_ok s" "env_status (envs s e) \<notin> {ENV_NEW, ENV_READY, ENV_EXIT}"
  shows "\<not> in_queue e s"
  using assms queue_statusD [OF assms(1)] by (auto simp: in_queue_def)

lemma rq_get_ok: "ready_ok s \<Longrightarrow> 0 \<le> i \<Longrightarrow> i < int (num_of_ready_queues s) \<Longrightarrow>
    rq_get i s = Some (env_ready_queues s ! nat i)"
  by (simp add: rq_get_def ready_ok_def)

lemma set_status_sel [simp]:
  "env_ready_queues (set_status e st s) = env_ready_queues s"
  "env_new_queue (set_status e st s) = env_new_queue s"
  "env_exit_queue (set_status e st s) = env_exit_queue s"
  "num_of_ready_queues (set_status e st s) = num_of_ready_queues s"
  "klocks (set_status e st s) = klocks s" "ncli (set_status e st s) = ncli s"
  "eflags_IF (set_status e st s) = eflags_IF s" "intena (set_status e st s) = intena s"
  "cpu_proc (set_status e st s) = cpu_proc s"
  "envs (set_status e st s) = (envs s)(e := (envs s e)\<lparr>env_status := st\<rparr>)"
  "quantums (set_status e st s) = quantums s" "scheduler_method (set_status e st s) = scheduler_method s" "nenv (set_status e st s) = nenv s"
  "buffering_enabled (set_status e st s) = buffering_enabled s" "scheduler_status (set_status e st s) = scheduler_status s"
  "starvation_threshold (set_status e st s) = starvation_threshold s" "sched_state.more (set_status e st s) = sched_state.more s"
  by (simp_all add: set_status_def envs_upd_def)

lemma envs_upd_sel [simp]:
  "env_ready_queues (envs_upd e f s) = env_ready_queues s"
  "env_new_queue (envs_upd e f s) = env_new_queue s"
  "env_exit_queue (envs_upd e f s) = env_exit_queue s"
  "num_of_ready_queues (envs_upd e f s) = num_of_ready_queues s"
  "klocks (envs_upd e f s) = klocks s" "ncli (envs_upd e f s) = ncli s"
  "eflags_IF (envs_upd e f s) = eflags_IF s" "intena (envs_upd e f s) = intena s"
  "cpu_proc (envs_upd e f s) = cpu_proc s"
  "envs (envs_upd e f s) = (envs s)(e := f (envs s e))"
  "quantums (envs_upd e f s) = quantums s" "scheduler_method (envs_upd e f s) = scheduler_method s" "nenv (envs_upd e f s) = nenv s"
  "buffering_enabled (envs_upd e f s) = buffering_enabled s" "scheduler_status (envs_upd e f s) = scheduler_status s"
  "starvation_threshold (envs_upd e f s) = starvation_threshold s" "sched_state.more (envs_upd e f s) = sched_state.more s"
  by (simp_all add: envs_upd_def)

lemma rq_set_sel [simp]:
  "env_ready_queues (rq_set i q s) = (env_ready_queues s)[nat i := q]"
  "env_new_queue (rq_set i q s) = env_new_queue s"
  "env_exit_queue (rq_set i q s) = env_exit_queue s"
  "num_of_ready_queues (rq_set i q s) = num_of_ready_queues s"
  "klocks (rq_set i q s) = klocks s" "ncli (rq_set i q s) = ncli s"
  "eflags_IF (rq_set i q s) = eflags_IF s" "intena (rq_set i q s) = intena s"
  "cpu_proc (rq_set i q s) = cpu_proc s" "envs (rq_set i q s) = envs s"
  "quantums (rq_set i q s) = quantums s" "scheduler_method (rq_set i q s) = scheduler_method s" "nenv (rq_set i q s) = nenv s"
  "buffering_enabled (rq_set i q s) = buffering_enabled s" "scheduler_status (rq_set i q s) = scheduler_status s"
  "starvation_threshold (rq_set i q s) = starvation_threshold s" "sched_state.more (rq_set i q s) = sched_state.more s"
  by (simp_all add: rq_set_def)

text \<open>Changes of an environment that is in no queue keep the invariant.\<close>

lemma queues_ok_upd_env:
  assumes "queues_ok s" "\<not> in_queue e s"
  shows "queues_ok (envs_upd e f s)" "in_queue e' (envs_upd e f s) = in_queue e' s"
proof -
  have r: "ready_ok s" using assms(1) by (simp add: queues_ok_def)
  have "e \<notin> set (env_ready_queues s ! i)" if "i < num_of_ready_queues s" for i
    using assms(2) in_ready_nth [OF r that] by (auto simp: in_queue_def)
  moreover have "e \<notin> set (env_new_queue s)" "e \<notin> set (env_exit_queue s)" using assms(2) by (auto simp: in_queue_def)
  ultimately show "queues_ok (envs_upd e f s)"
    using assms(1) unfolding queues_ok_def ready_ok_def new_ok_def exit_ok_def by auto
  show "in_queue e' (envs_upd e f s) = in_queue e' s" by (simp add: in_queue_def in_ready_def)
qed

text \<open>Insertion into a queue and removal from it.\<close>

lemma ready_ok_set:
  assumes "ready_ok s" "i < num_of_ready_queues s" "distinct q"
    "\<And>e. e \<in> set q \<Longrightarrow> env_status (envs s e) = ENV_READY \<and> priority (envs s e) = int i"
  shows "ready_ok (rq_set (int i) q s)"
  using assms unfolding ready_ok_def by (auto simp: nth_list_update)

lemma queues_ok_ready_set:
  assumes "queues_ok s" "i < num_of_ready_queues s" "distinct q"
    "\<And>e. e \<in> set q \<Longrightarrow> env_status (envs s e) = ENV_READY \<and> priority (envs s e) = int i"
  shows "queues_ok (rq_set (int i) q s)"
  using assms ready_ok_set [of s i q] by (simp add: queues_ok_def new_ok_def exit_ok_def)

lemma queues_ok_insert_ready:
  assumes "queues_ok s" "\<not> in_queue e s" "env_status (envs s e) = ENV_READY" "prio_ok e s"
  shows "queues_ok (rq_set (priority (envs s e)) (e # env_ready_queues s ! nat (priority (envs s e))) s)"
proof -
  obtain i where i: "priority (envs s e) = int i" "i < num_of_ready_queues s"
    using assms(4) by (metis prio_ok_def nonneg_int_cases of_nat_less_iff)
  have r: "ready_ok s" using assms(1) by (simp add: queues_ok_def)
  have "e \<notin> set (env_ready_queues s ! i)"
    using assms(2) in_ready_nth [OF r i(2)] by (auto simp: in_queue_def)
  moreover have "distinct (env_ready_queues s ! i)" using r i(2) by (simp add: ready_ok_def)
  ultimately have "queues_ok (rq_set (int i) (e # env_ready_queues s ! i) s)"
    using assms(3) i ready_okD [OF r _ i(2)] by (intro queues_ok_ready_set [OF assms(1) i(2)]) auto
  then show ?thesis by (simp add: i(1))
qed

lemma queues_ok_remove_ready:
  assumes "queues_ok s" "i < num_of_ready_queues s" "e \<in> set (env_ready_queues s ! i)"
  shows "queues_ok (rq_set (int i) (remove1 e (env_ready_queues s ! i)) s)"
    "\<not> in_queue e (rq_set (int i) (remove1 e (env_ready_queues s ! i)) s)"
proof -
  let ?q = "env_ready_queues s ! i" and ?s = "rq_set (int i) (remove1 e (env_ready_queues s ! i)) s"
  have r: "ready_ok s" using assms(1) by (simp add: queues_ok_def)
  have d: "distinct ?q" using r assms(2) by (simp add: ready_ok_def)
  show ok: "queues_ok ?s"
    using d ready_okD [OF r _ assms(2)] set_remove1_subset [of e ?q]
    by (intro queues_ok_ready_set [OF assms(1,2)]) auto
  have e: "env_status (envs s e) = ENV_READY" "priority (envs s e) = int i"
    using ready_okD [OF r assms(3,2)] by auto
  have "\<not> in_ready e ?s"
  proof
    have r': "ready_ok ?s" using ok by (simp add: queues_ok_def)
    assume "in_ready e ?s"
    from in_readyE [OF r' this] obtain j where j: "j < num_of_ready_queues ?s" "e \<in> set (env_ready_queues ?s ! j)" .
    have "j = i" using ready_okD(2) [OF r' j(2,1)] e(2) by simp
    with j d assms(2) r show False by (simp add: ready_ok_def)
  qed
  moreover have "e \<notin> set (env_new_queue s)" "e \<notin> set (env_exit_queue s)"
    using queue_statusD [OF assms(1), of e] e(1) by auto
  ultimately show "\<not> in_queue e ?s" by (simp add: in_queue_def)
qed

lemma queues_ok_new:
  assumes "queues_ok s" "distinct q" "\<And>e. e \<in> set q \<Longrightarrow> env_status (envs s e) = ENV_NEW"
  shows "queues_ok (s\<lparr>env_new_queue := q\<rparr>)"
  using assms by (simp add: queues_ok_def ready_ok_def new_ok_def exit_ok_def)

lemma queues_ok_exit:
  assumes "queues_ok s" "distinct q" "\<And>e. e \<in> set q \<Longrightarrow> env_status (envs s e) = ENV_EXIT"
  shows "queues_ok (s\<lparr>env_exit_queue := q\<rparr>)"
  using assms by (simp add: queues_ok_def ready_ok_def new_ok_def exit_ok_def)

lemma queues_ok_remove_new:
  assumes "queues_ok s" "e \<in> set (env_new_queue s)"
  shows "queues_ok (s\<lparr>env_new_queue := remove1 e (env_new_queue s)\<rparr>)"
    "\<not> in_queue e (s\<lparr>env_new_queue := remove1 e (env_new_queue s)\<rparr>)"
proof -
  have d: "distinct (env_new_queue s)" using assms(1) by (simp add: queues_ok_def new_ok_def)
  show "queues_ok (s\<lparr>env_new_queue := remove1 e (env_new_queue s)\<rparr>)"
    using d queue_statusD(1) [OF assms(1)] set_remove1_subset [of e "env_new_queue s"]
    by (intro queues_ok_new [OF assms(1)]) auto
  have "\<not> in_ready e s" "e \<notin> set (env_exit_queue s)"
    using queue_statusD [OF assms(1), of e] assms(2) by auto
  then show "\<not> in_queue e (s\<lparr>env_new_queue := remove1 e (env_new_queue s)\<rparr>)"
    using d by (simp add: in_queue_def in_ready_def)
qed

section \<open>Sets of held locks\<close>

text \<open>\<open>holds L s\<close>: the processor holds exactly the spin locks \<open>L\<close>, and is nested as deep as they are many.\<close>

definition holds :: "lock_id set \<Rightarrow> 'z cpu_state_scheme \<Rightarrow> bool" where
  "holds L s \<longleftrightarrow> finite L \<and> cpu_ok s \<and> ncli s = int (card L) \<and>
     (\<forall>l. klocks s l = (if l \<in> L then taken_lock else free_lock))"

lemma holds_basic:
  assumes "holds L s"
  shows "cpu_ok s" "locks_ok s" "held l s \<longleftrightarrow> l \<in> L" "ncli s = int (card L)" "l \<in> L \<Longrightarrow> 0 < ncli s"
proof -
  show "0 < ncli s" if "l \<in> L" using assms that card_gt_0_iff [of L] by (auto simp: holds_def)
qed (use assms in \<open>auto simp: holds_def locks_ok_def held_def\<close>)

lemma holds_cong:
  assumes "ncli s' = ncli s" "eflags_IF s' = eflags_IF s" "klocks s' = klocks s"
  shows "holds L s' = holds L s"
  using assms by (simp add: holds_def cpu_ok_def)

lemma acquire_holds:
  assumes "holds L s" "l \<notin> L"
  shows "acquire_kspinlock l s = Some (entered l s)" "holds (insert l L) (entered l s)"
proof -
  show "acquire_kspinlock l s = Some (entered l s)"
    using assms holds_basic [OF assms(1)] by (simp add: acquire_kspinlock_eq)
  show "holds (insert l L) (entered l s)"
    using assms cpu_ok_entered by (auto simp: holds_def)
qed

lemma release_holds:
  assumes "holds L s" "l \<in> L"
  shows "release_kspinlock l s = Some (left l s)" "holds (L - {l}) (left l s)"
proof -
  have b: "cpu_ok s" "held l s" "0 < ncli s" using assms holds_basic [OF assms(1)] by auto
  then show "release_kspinlock l s = Some (left l s)" by (rule release_kspinlock_eq)
  have f: "finite L" using assms(1) by (simp add: holds_def)
  have "int (card L) = int (card (L - {l})) + 1"
    using card.remove [OF f assms(2)] by simp
  then have "ncli (left l s) = int (card (L - {l}))" using assms(1) by (simp add: holds_def)
  moreover have "klocks (left l s) k = (if k \<in> L - {l} then taken_lock else free_lock)" for k
    using assms(1) by (simp add: holds_def)
  ultimately show "holds (L - {l}) (left l s)"
    using f cpu_ok_left [OF b(1,3), of l] unfolding holds_def by blast
qed

lemma holds_acquire_None: "holds L s \<Longrightarrow> l \<in> L \<Longrightarrow> acquire_kspinlock l s = None"
  using holds_basic(1,2) [of L s] holds_basic(3) [of L s l] by (simp add: acquire_kspinlock_eq)

lemma entered_sched_sel [simp]:
  "env_ready_queues (entered l s) = env_ready_queues s" "env_new_queue (entered l s) = env_new_queue s"
  "env_exit_queue (entered l s) = env_exit_queue s" "num_of_ready_queues (entered l s) = num_of_ready_queues s"
  "quantums (entered l s) = quantums s" "scheduler_method (entered l s) = scheduler_method s"
  "nenv (entered l s) = nenv s" "buffering_enabled (entered l s) = buffering_enabled s"
  "starvation_threshold (entered l s) = starvation_threshold s" "sched_state.more (entered l s) = sched_state.more s"
  by (simp_all add: entered_def pushcli_def cli_def Let_def)

lemma left_sched_sel [simp]:
  "env_ready_queues (left l s) = env_ready_queues s" "env_new_queue (left l s) = env_new_queue s"
  "env_exit_queue (left l s) = env_exit_queue s" "num_of_ready_queues (left l s) = num_of_ready_queues s"
  "quantums (left l s) = quantums s" "scheduler_method (left l s) = scheduler_method s"
  "nenv (left l s) = nenv s" "buffering_enabled (left l s) = buffering_enabled s"
  "starvation_threshold (left l s) = starvation_threshold s" "sched_state.more (left l s) = sched_state.more s"
  by (simp_all add: left_def)

lemma queues_ok_cong:
  assumes "env_ready_queues s' = env_ready_queues s" "env_new_queue s' = env_new_queue s"
    "env_exit_queue s' = env_exit_queue s" "num_of_ready_queues s' = num_of_ready_queues s" "envs s' = envs s"
  shows "queues_ok s' = queues_ok s" "in_queue e s' = in_queue e s" "prio_ok e s' = prio_ok e s" "in_ready e s' = in_ready e s"
  using assms by (simp_all add: queues_ok_def ready_ok_def new_ok_def exit_ok_def in_queue_def in_ready_def prio_ok_def)

lemma queues_ok_lock [simp]:
  "queues_ok (entered l s) = queues_ok s" "in_queue e (entered l s) = in_queue e s"
  "prio_ok e (entered l s) = prio_ok e s" "in_ready e (entered l s) = in_ready e s"
  "queues_ok (left l s) = queues_ok s" "in_queue e (left l s) = in_queue e s"
  "prio_ok e (left l s) = prio_ok e s" "in_ready e (left l s) = in_ready e s"
  by (intro queues_ok_cong; simp)+

section \<open>What the queue operations do\<close>

text \<open>The states after a successful \<open>sched_insert_ready\<close>, \<open>sched_insert_new\<close> and \<open>sched_remove_new\<close>.\<close>

definition ready_put :: "env_ptr \<Rightarrow> 'z sched_state_scheme \<Rightarrow> 'z sched_state_scheme" where
  "ready_put e s = rq_set (priority (envs s e)) (e # env_ready_queues s ! nat (priority (envs s e)))
     (set_status e ENV_READY (envs_upd e (\<lambda>x. x\<lparr>nTicks := 0\<rparr>) s))"

definition new_put :: "env_ptr \<Rightarrow> 'z sched_state_scheme \<Rightarrow> 'z sched_state_scheme" where
  "new_put e s = (set_status e ENV_NEW s)\<lparr>env_new_queue := e # env_new_queue s\<rparr>"

definition new_taken :: "env_ptr \<Rightarrow> 'z sched_state_scheme \<Rightarrow> 'z sched_state_scheme" where
  "new_taken e s = set_status e ENV_UNKNOWN (s\<lparr>env_new_queue := remove1 e (env_new_queue s)\<rparr>)"

lemma ready_put_sel [simp]:
  "env_new_queue (ready_put e s) = env_new_queue s" "env_exit_queue (ready_put e s) = env_exit_queue s"
  "num_of_ready_queues (ready_put e s) = num_of_ready_queues s"
  "klocks (ready_put e s) = klocks s" "ncli (ready_put e s) = ncli s"
  "eflags_IF (ready_put e s) = eflags_IF s" "intena (ready_put e s) = intena s" "cpu_proc (ready_put e s) = cpu_proc s"
  "quantums (ready_put e s) = quantums s" "scheduler_method (ready_put e s) = scheduler_method s" "nenv (ready_put e s) = nenv s"
  "buffering_enabled (ready_put e s) = buffering_enabled s" "scheduler_status (ready_put e s) = scheduler_status s"
  "starvation_threshold (ready_put e s) = starvation_threshold s" "sched_state.more (ready_put e s) = sched_state.more s"
  "env_ready_queues (ready_put e s) = (env_ready_queues s)
     [nat (priority (envs s e)) := e # env_ready_queues s ! nat (priority (envs s e))]"
  "envs (ready_put e s) = (envs s)(e := (envs s e)\<lparr>nTicks := 0, env_status := ENV_READY\<rparr>)"
  by (simp_all add: ready_put_def)

lemma new_put_sel [simp]:
  "env_new_queue (new_put e s) = e # env_new_queue s" "env_exit_queue (new_put e s) = env_exit_queue s"
  "num_of_ready_queues (new_put e s) = num_of_ready_queues s"
  "klocks (new_put e s) = klocks s" "ncli (new_put e s) = ncli s"
  "eflags_IF (new_put e s) = eflags_IF s" "intena (new_put e s) = intena s" "cpu_proc (new_put e s) = cpu_proc s"
  "env_ready_queues (new_put e s) = env_ready_queues s"
  "envs (new_put e s) = (envs s)(e := (envs s e)\<lparr>env_status := ENV_NEW\<rparr>)"
  "quantums (new_put e s) = quantums s" "scheduler_method (new_put e s) = scheduler_method s" "nenv (new_put e s) = nenv s"
  "buffering_enabled (new_put e s) = buffering_enabled s" "scheduler_status (new_put e s) = scheduler_status s"
  "starvation_threshold (new_put e s) = starvation_threshold s" "sched_state.more (new_put e s) = sched_state.more s"
  by (simp_all add: new_put_def)

lemma new_taken_sel [simp]:
  "env_new_queue (new_taken e s) = remove1 e (env_new_queue s)" "env_exit_queue (new_taken e s) = env_exit_queue s"
  "num_of_ready_queues (new_taken e s) = num_of_ready_queues s"
  "klocks (new_taken e s) = klocks s" "ncli (new_taken e s) = ncli s"
  "eflags_IF (new_taken e s) = eflags_IF s" "intena (new_taken e s) = intena s" "cpu_proc (new_taken e s) = cpu_proc s"
  "env_ready_queues (new_taken e s) = env_ready_queues s"
  "envs (new_taken e s) = (envs s)(e := (envs s e)\<lparr>env_status := ENV_UNKNOWN\<rparr>)"
  "quantums (new_taken e s) = quantums s" "scheduler_method (new_taken e s) = scheduler_method s" "nenv (new_taken e s) = nenv s"
  "buffering_enabled (new_taken e s) = buffering_enabled s" "scheduler_status (new_taken e s) = scheduler_status s"
  "starvation_threshold (new_taken e s) = starvation_threshold s" "sched_state.more (new_taken e s) = sched_state.more s"
  by (simp_all add: new_taken_def)

lemma sched_insert_ready_eq:
  assumes "queues_ok s" "held QLOCK s" "\<not> in_queue e s" "prio_ok e s"
  shows "sched_insert_ready (Some e) s = Some (ready_put e s)" "queues_ok (ready_put e s)"
    "in_queue x (ready_put e s) \<longleftrightarrow> x = e \<or> in_queue x s"
proof -
  let ?t = "set_status e ENV_READY (envs_upd e (\<lambda>x. x\<lparr>nTicks := 0\<rparr>) s)" and ?i = "priority (envs s e)"
  have r: "ready_ok s" using assms(1) by (simp add: queues_ok_def)
  have i: "0 \<le> ?i" "?i < int (num_of_ready_queues s)" "nat ?i < num_of_ready_queues s"
    using assms(4) by (auto simp: prio_ok_def)
  have g: "rq_get ?i ?t = Some (env_ready_queues s ! nat ?i)"
    using i ready_ok_length [OF r] by (simp add: rq_get_def)
  have n: "e \<notin> set (env_ready_queues s ! nat ?i)" using assms(3) in_ready_nth [OF r i(3)] by (auto simp: in_queue_def)
  have p: "priority (envs ?t e) = ?i" by simp
  show "sched_insert_ready (Some e) s = Some (ready_put e s)"
    using assms(2) g n p by (simp add: sched_insert_ready_def ready_put_def Let_def enqueue_l_def insert_l_def del: envs_upd_sel set_status_sel)
  have t: "queues_ok ?t" "\<not> in_queue e ?t"
    using queues_ok_upd_env [OF assms(1,3)] queues_ok_upd_env [of "envs_upd e (\<lambda>x. x\<lparr>nTicks := 0\<rparr>) s" e] assms(3)
    by (simp_all add: set_status_def)
  show "queues_ok (ready_put e s)"
    using queues_ok_insert_ready [OF t] assms(4) by (simp add: ready_put_def prio_ok_def)
  have l: "nat ?i < length (env_ready_queues s)" using i ready_ok_length [OF r] by simp
  have "in_ready x (ready_put e s) \<longleftrightarrow> x = e \<or> in_ready x s"
  proof -
    have "insert (env_ready_queues s ! nat ?i) (set (env_ready_queues s)) = set (env_ready_queues s)"
      using l by (simp add: insert_absorb)
    moreover have "(\<exists>q \<in> set ((env_ready_queues s)[nat ?i := e # env_ready_queues s ! nat ?i]). x \<in> set q) \<longleftrightarrow>
        (\<exists>j < length (env_ready_queues s). x \<in> set ((env_ready_queues s)[nat ?i := e # env_ready_queues s ! nat ?i] ! j))"
      by (metis in_set_conv_nth length_list_update)
    moreover have "\<dots> \<longleftrightarrow> x = e \<or> (\<exists>j < length (env_ready_queues s). x \<in> set (env_ready_queues s ! j))"
      using l by (auto simp: nth_list_update split: if_splits)
    moreover have "\<dots> \<longleftrightarrow> x = e \<or> (\<exists>q \<in> set (env_ready_queues s). x \<in> set q)" by (metis in_set_conv_nth)
    ultimately show ?thesis by (simp only: in_ready_def ready_put_sel)
  qed
  then show "in_queue x (ready_put e s) \<longleftrightarrow> x = e \<or> in_queue x s" by (auto simp: in_queue_def)
qed

lemma sched_insert_new_eq:
  assumes "queues_ok s" "held QLOCK s" "\<not> in_queue e s"
  shows "sched_insert_new (Some e) s = Some (new_put e s)" "queues_ok (new_put e s)"
    "in_queue x (new_put e s) \<longleftrightarrow> x = e \<or> in_queue x s"
proof -
  have n: "e \<notin> set (env_new_queue s)" using assms(3) by (simp add: in_queue_def)
  show "sched_insert_new (Some e) s = Some (new_put e s)"
    using assms(2) n by (simp add: sched_insert_new_def new_put_def Let_def enqueue_l_def insert_l_def)
  have t: "queues_ok (set_status e ENV_NEW s)" using queues_ok_upd_env [OF assms(1,3)] by (simp add: set_status_def)
  show "queues_ok (new_put e s)"
    unfolding new_put_def using n assms(1) queue_statusD(1) [OF assms(1)]
    by (intro queues_ok_new [OF t]) (auto simp: queues_ok_def new_ok_def)
  show "in_queue x (new_put e s) \<longleftrightarrow> x = e \<or> in_queue x s" by (auto simp: in_queue_def in_ready_def)
qed

lemma sched_remove_new_eq:
  assumes "queues_ok s" "held QLOCK s" "e \<in> set (env_new_queue s)"
  shows "sched_remove_new (Some e) s = Some (new_taken e s)" "queues_ok (new_taken e s)"
    "in_queue x (new_taken e s) \<longleftrightarrow> x \<noteq> e \<and> in_queue x s"
proof -
  have st: "env_status (envs s e) = ENV_NEW" using queue_statusD(1) [OF assms(1,3)] .
  show "sched_remove_new (Some e) s = Some (new_taken e s)"
    using assms(2,3) st by (simp add: sched_remove_new_def new_taken_def remove_l_def)
  note r = queues_ok_remove_new [OF assms(1,3)]
  show "queues_ok (new_taken e s)"
    using queues_ok_upd_env [OF r] by (simp add: new_taken_def set_status_def)
  have d: "distinct (env_new_queue s)" using assms(1) by (simp add: queues_ok_def new_ok_def)
  have "\<not> in_ready e s" "e \<notin> set (env_exit_queue s)" using queue_statusD [OF assms(1), of e] st by auto
  then show "in_queue x (new_taken e s) \<longleftrightarrow> x \<noteq> e \<and> in_queue x s"
    using d by (auto simp: in_queue_def in_ready_def)
qed

section \<open>The choice of the next process\<close>

definition quantum_ok :: "'z sched_state_scheme \<Rightarrow> bool" where
  "quantum_ok s \<longleftrightarrow> quantums s \<noteq> [] \<and> hd (quantums s) \<noteq> 0 \<and> IS_VALID_QUANTUM (uint (hd (quantums s)))"

text \<open>The effect of \<open>kclock_set_quantum(quantums[0])\<close>.\<close>

definition reload :: "'z sched_state_scheme \<Rightarrow> 'z sched_state_scheme" where
  "reload s = kclock_stop (s\<lparr>pit_cnt0 := word_of_int (NUM_CLKS_PER_QUANTUM (uint (hd (quantums s))))\<rparr>)"

lemma reload_sel [simp]:
  "env_ready_queues (reload s) = env_ready_queues s" "env_new_queue (reload s) = env_new_queue s"
  "env_exit_queue (reload s) = env_exit_queue s" "num_of_ready_queues (reload s) = num_of_ready_queues s"
  "quantums (reload s) = quantums s" "scheduler_method (reload s) = scheduler_method s"
  "klocks (reload s) = klocks s" "ncli (reload s) = ncli s" "eflags_IF (reload s) = eflags_IF s"
  "intena (reload s) = intena s" "cpu_proc (reload s) = cpu_proc s" "envs (reload s) = envs s" "nenv (reload s) = nenv s"
  "scheduler_status (reload s) = scheduler_status s" "buffering_enabled (reload s) = buffering_enabled s"
  "starvation_threshold (reload s) = starvation_threshold s" "sched_state.more (reload s) = sched_state.more s"
  by (simp_all add: reload_def kclock_stop_def irq_set_mask_def)

lemma queues_ok_reload [simp]:
  "queues_ok (reload s) = queues_ok s" "in_queue e (reload s) = in_queue e s"
  "prio_ok e (reload s) = prio_ok e s" "in_ready e (reload s) = in_ready e s"
  by (intro queues_ok_cong; simp)+

lemma set_first_quantum_eq:
  assumes "cpu_ok s" "0 < ncli s" "quantum_ok s"
  shows "set_first_quantum s = Some (reload s)"
  using assms
  by (cases "quantums s") (simp_all add: set_first_quantum_def quantum_ok_def kclock_set_quantum_def
      kclock_write_cnt0_eq refresh_intena_nested reload_def)

text \<open>
  The ready queues once the current process, if any, is back in the queue of its priority; the process
  it returns must be ready, and in no queue.
\<close>

definition cur_ok :: "'z sched_state_scheme \<Rightarrow> bool" where
  "cur_ok s \<longleftrightarrow> (\<forall>e. cpu_proc s = Some e \<longrightarrow> env_status (envs s e) = ENV_READY \<and> \<not> in_queue e s \<and> prio_ok e s)"

definition runnable :: "env_ptr \<Rightarrow> 'z sched_state_scheme \<Rightarrow> bool" where
  "runnable e s \<longleftrightarrow> in_ready e s \<or> cpu_proc s = Some e"

definition requeued :: "'z sched_state_scheme \<Rightarrow> 'z sched_state_scheme" where
  "requeued s = (case cpu_proc s of None \<Rightarrow> s
   | Some e \<Rightarrow> rq_set (priority (envs s e)) (e # env_ready_queues s ! nat (priority (envs s e))) s)"

lemma requeued_sel [simp]:
  "env_new_queue (requeued s) = env_new_queue s" "env_exit_queue (requeued s) = env_exit_queue s"
  "num_of_ready_queues (requeued s) = num_of_ready_queues s" "klocks (requeued s) = klocks s"
  "ncli (requeued s) = ncli s" "eflags_IF (requeued s) = eflags_IF s" "intena (requeued s) = intena s"
  "cpu_proc (requeued s) = cpu_proc s" "envs (requeued s) = envs s" "quantums (requeued s) = quantums s"
  "scheduler_method (requeued s) = scheduler_method s" "nenv (requeued s) = nenv s"
  "buffering_enabled (requeued s) = buffering_enabled s" "scheduler_status (requeued s) = scheduler_status s"
  "starvation_threshold (requeued s) = starvation_threshold s" "sched_state.more (requeued s) = sched_state.more s"
  by (auto simp: requeued_def split: option.splits)

lemma enqueue_cur_eq:
  assumes "queues_ok s" "cur_ok s" "\<And>e. cpu_proc s = Some e \<Longrightarrow> level e = priority (envs s e)"
  shows "enqueue_cur level s = Some (requeued s)" "queues_ok (requeued s)" "in_ready x (requeued s) \<longleftrightarrow> runnable x s"
proof -
  have "enqueue_cur level s = Some (requeued s) \<and> queues_ok (requeued s) \<and> (in_ready x (requeued s) \<longleftrightarrow> runnable x s)"
  proof (cases "cpu_proc s")
    case None
    then show ?thesis using assms(1) by (simp add: enqueue_cur_def requeued_def runnable_def)
  next
    case (Some e)
    let ?i = "priority (envs s e)"
    have e: "env_status (envs s e) = ENV_READY" "\<not> in_queue e s" "prio_ok e s" using assms(2) Some by (auto simp: cur_ok_def)
    have r: "ready_ok s" using assms(1) by (simp add: queues_ok_def)
    have i: "0 \<le> ?i" "?i < int (num_of_ready_queues s)" "nat ?i < num_of_ready_queues s" using e(3) by (auto simp: prio_ok_def)
    have n: "e \<notin> set (env_ready_queues s ! nat ?i)" using e(2) in_ready_nth [OF r i(3)] by (auto simp: in_queue_def)
    have "enqueue_cur level s = Some (requeued s)"
      using Some n rq_get_ok [OF r i(1,2)] assms(3) [OF Some]
      by (simp add: enqueue_cur_def requeued_def enqueue_l_def insert_l_def)
    moreover have ok: "queues_ok (requeued s)" using queues_ok_insert_ready [OF assms(1) e(2,1,3)] Some by (simp add: requeued_def)
    moreover have "in_ready x (requeued s) \<longleftrightarrow> runnable x s"
    proof -
      have r': "ready_ok (requeued s)" using ok by (simp add: queues_ok_def)
      have "in_ready x (requeued s) \<longleftrightarrow> env_status (envs s x) = ENV_READY \<and> prio_ok x s \<and>
          x \<in> set (env_ready_queues (requeued s) ! nat (priority (envs s x)))"
        using in_ready_iff [OF r', of x] by (simp add: prio_ok_def)
      also have "\<dots> \<longleftrightarrow> x = e \<or> in_ready x s"
      proof (cases "x = e")
        case True
        then show ?thesis using e i Some ready_ok_length [OF r] by (simp add: requeued_def)
      next
        case False
        have "nat (priority (envs s x)) < length (env_ready_queues s) \<or> \<not> prio_ok x s"
          using ready_ok_length [OF r] by (auto simp: prio_ok_def)
        then have "prio_ok x s \<longrightarrow> x \<in> set (env_ready_queues (requeued s) ! nat (priority (envs s x))) \<longleftrightarrow>
            x \<in> set (env_ready_queues s ! nat (priority (envs s x)))"
          using False Some by (auto simp: requeued_def nth_list_update_at split: if_splits)
        then show ?thesis using False in_ready_iff [OF r, of x] by auto
      qed
      finally show ?thesis using Some by (auto simp: runnable_def)
    qed
    ultimately show ?thesis by blast
  qed
  then show "enqueue_cur level s = Some (requeued s)" "queues_ok (requeued s)" "in_ready x (requeued s) \<longleftrightarrow> runnable x s"
    by blast+
qed

text \<open>The loop over the queues stops at the first that is not empty.\<close>

lemma dequeue_first_eq:
  assumes "ready_ok s"
  shows "i + n = num_of_ready_queues s \<Longrightarrow>
    (\<forall>j. i \<le> j \<and> j < i + n \<longrightarrow> env_ready_queues s ! j = []) \<and> dequeue_first n i s = Some (None, s) \<or>
    (\<exists>j. i \<le> j \<and> j < i + n \<and> env_ready_queues s ! j \<noteq> [] \<and> (\<forall>k. i \<le> k \<and> k < j \<longrightarrow> env_ready_queues s ! k = []) \<and>
       dequeue_first n i s = Some (Some (last (env_ready_queues s ! j)), rq_set (int j) (butlast (env_ready_queues s ! j)) s))"
proof (induction n arbitrary: i)
  case 0
  then show ?case by auto
next
  case (Suc n)
  have g: "rq_get (int i) s = Some (env_ready_queues s ! i)" using rq_get_ok [OF assms, of "int i"] Suc.prems by simp
  show ?case
  proof (cases "env_ready_queues s ! i = []")
    case False
    then show ?thesis using g by (intro disjI2 exI [of _ i]) (auto simp: dequeue_l_def)
  next
    case True
    have step: "dequeue_first (Suc n) i s = dequeue_first n (Suc i) s" using True g by simp
    from Suc.IH [of "Suc i"] Suc.prems consider
      "\<forall>j. Suc i \<le> j \<and> j < Suc i + n \<longrightarrow> env_ready_queues s ! j = []" "dequeue_first n (Suc i) s = Some (None, s)"
    | j where "Suc i \<le> j" "j < Suc i + n" "env_ready_queues s ! j \<noteq> []"
        "\<forall>k. Suc i \<le> k \<and> k < j \<longrightarrow> env_ready_queues s ! k = []"
        "dequeue_first n (Suc i) s = Some (Some (last (env_ready_queues s ! j)), rq_set (int j) (butlast (env_ready_queues s ! j)) s)"
      by auto
    then show ?thesis
    proof cases
      case 1
      then show ?thesis using step True by (metis Suc_leI add_Suc add_Suc_right le_neq_implies_less)
    next
      case 2
      then show ?thesis using step True
        by (intro disjI2 exI [of _ j]) (metis Suc_leD Suc_leI add_Suc add_Suc_right le_neq_implies_less)
    qed
  qed
qed

lemma last_of_ready:
  assumes "queues_ok s" "j < num_of_ready_queues s" "env_ready_queues s ! j \<noteq> []"
  defines "e \<equiv> last (env_ready_queues s ! j)"
  shows "rq_set (int j) (butlast (env_ready_queues s ! j)) s = rq_set (int j) (remove1 e (env_ready_queues s ! j)) s"
    "e \<in> set (env_ready_queues s ! j)"
proof -
  have "distinct (butlast (env_ready_queues s ! j) @ [e])"
    using assms by (simp add: queues_ok_def ready_ok_def)
  then have "remove1 e (butlast (env_ready_queues s ! j) @ [e]) = butlast (env_ready_queues s ! j)" by (simp add: remove1_append)
  then show "rq_set (int j) (butlast (env_ready_queues s ! j)) s = rq_set (int j) (remove1 e (env_ready_queues s ! j)) s"
    using assms(3) by (simp add: e_def)
  show "e \<in> set (env_ready_queues s ! j)" using assms(3) by (simp add: e_def)
qed

lemma in_ready_removed:
  assumes "queues_ok s" "j < num_of_ready_queues s" "e \<in> set (env_ready_queues s ! j)"
  shows "in_ready x (rq_set (int j) (remove1 e (env_ready_queues s ! j)) s) \<longleftrightarrow> x \<noteq> e \<and> in_ready x s"
proof -
  let ?s = "rq_set (int j) (remove1 e (env_ready_queues s ! j)) s"
  have r: "ready_ok s" "ready_ok ?s" using assms(1) queues_ok_remove_ready [OF assms] by (simp_all add: queues_ok_def)
  show ?thesis
  proof (cases "x = e")
    case True
    then show ?thesis using queues_ok_remove_ready(2) [OF assms] by (simp add: in_queue_def)
  next
    case False
    have "x \<in> set (env_ready_queues ?s ! i) \<longleftrightarrow> x \<in> set (env_ready_queues s ! i)" if "i < num_of_ready_queues s" for i
      using False that ready_ok_length [OF r(1)] by (auto simp: nth_list_update_at)
    then show ?thesis using False in_readyE [OF r(1), of x] in_readyE [OF r(2), of x]
        in_ready_nth [OF r(1), of _ x] in_ready_nth [OF r(2), of _ x] by (metis rq_set_sel(4))
  qed
qed

text \<open>\<open>chosen s n u\<close>: from \<open>s\<close>, the choice of \<open>n\<close> leaves the queues of \<open>u\<close>.\<close>

definition chosen :: "'z sched_state_scheme \<Rightarrow> env_ptr \<Rightarrow> 'z sched_state_scheme \<Rightarrow> bool" where
  "chosen s n u \<longleftrightarrow> (\<exists>j. u = rq_set (int j) (remove1 n (env_ready_queues (requeued s) ! j)) (requeued s)) \<and>
     queues_ok u \<and> \<not> in_queue n u \<and> runnable n s \<and> (\<forall>m. in_ready m u \<longleftrightarrow> runnable m s \<and> n \<noteq> m) \<and>
     (\<forall>m. runnable m s \<longrightarrow> priority (envs s n) \<le> priority (envs s m)) \<and>
     n = last (env_ready_queues (requeued s) ! nat (priority (envs s n)))"

lemma fos_scheduler_PRIRR_cases:
  assumes "in_qlock s" "queues_ok s" "cur_ok s" "quantum_ok s"
  shows "(\<forall>m. \<not> runnable m s) \<and> fos_scheduler_PRIRR s = Some (None, reload (requeued s)) \<or>
    (\<exists>n u. fos_scheduler_PRIRR s = Some (Some n, reload u) \<and> chosen s n u)"
proof -
  let ?t = "requeued s"
  note q = enqueue_cur_eq [OF assms(2,3), of "\<lambda>e. priority (envs s e)", OF refl]
  have r: "ready_ok ?t" using q(2) by (simp add: queues_ok_def)
  have c: "cpu_ok s" "held QLOCK s" "0 < ncli s" using assms(1) by (auto simp: in_qlock_def)
  have sq: "set_first_quantum u = Some (reload u)"
    if "ncli u = ncli s" "eflags_IF u = eflags_IF s" "quantums u = quantums s" for u :: "'a sched_state_scheme"
    using that c assms(4) by (intro set_first_quantum_eq) (auto simp: cpu_ok_def quantum_ok_def)
  have run: "fos_scheduler_PRIRR s = (case dequeue_first (num_of_ready_queues ?t) 0 ?t of None \<Rightarrow> None
      | Some (n, u) \<Rightarrow> set_first_quantum u \<bind> (\<lambda>v. Some (n, v)))"
    using c(2) q(1) by (simp add: fos_scheduler_PRIRR_def split: option.splits prod.splits)
  from dequeue_first_eq [OF r, of 0] consider
    "\<forall>j < num_of_ready_queues ?t. env_ready_queues ?t ! j = []"
      "dequeue_first (num_of_ready_queues ?t) 0 ?t = Some (None, ?t)"
  | j where "j < num_of_ready_queues ?t" "env_ready_queues ?t ! j \<noteq> []" "\<forall>k < j. env_ready_queues ?t ! k = []"
      "dequeue_first (num_of_ready_queues ?t) 0 ?t =
        Some (Some (last (env_ready_queues ?t ! j)), rq_set (int j) (butlast (env_ready_queues ?t ! j)) ?t)" by auto
  then show ?thesis
  proof cases
    case 1
    have "\<not> runnable m s" for m using 1(1) q(3) [of m] in_readyE [OF r, of m] by (metis empty_iff empty_set)
    then show ?thesis using run 1(2) sq [of ?t] by simp
  next
    case 2
    define n where "n = last (env_ready_queues ?t ! j)"
    let ?u = "rq_set (int j) (remove1 n (env_ready_queues ?t ! j)) ?t"
    note n = last_of_ready [OF q(2) 2(1,2), folded n_def]
    have "fos_scheduler_PRIRR s = Some (Some n, reload ?u)"
      using run 2(4) n(1) sq [of ?u] by (simp add: n_def)
    moreover have "queues_ok ?u" "\<not> in_queue n ?u" using queues_ok_remove_ready [OF q(2) 2(1) n(2)] by blast+
    moreover have pn: "priority (envs s n) = int j" "runnable n s"
      using ready_okD(2) [OF r n(2) 2(1)] in_ready_nth [OF r 2(1) n(2)] q(3) by simp_all
    moreover have "priority (envs s n) \<le> priority (envs s m)" if m: "runnable m s" for m
    proof -
      from in_readyE [OF r] q(3) [of m] m obtain i where i: "i < num_of_ready_queues ?t" "m \<in> set (env_ready_queues ?t ! i)" by metis
      then have "j \<le> i" using 2(3) by (metis empty_iff empty_set not_le_imp_less)
      then show ?thesis using ready_okD(2) [OF r i(2,1)] pn(1) by simp
    qed
    moreover have "in_ready m ?u \<longleftrightarrow> runnable m s \<and> n \<noteq> m" for m
      using in_ready_removed [OF q(2) 2(1) n(2), of m] q(3) [of m] by auto
    moreover have "n = last (env_ready_queues ?t ! nat (priority (envs s n)))" using pn(1) by (simp add: n_def)
    ultimately show ?thesis unfolding chosen_def by blast
  qed
qed

text \<open>
  C9: priority round robin.  When the current process (if any) gave up the processor ready,
  \<open>fos_scheduler_PRIRR\<close> returns a process exactly when one is runnable; it is runnable, no runnable process
  has a smaller priority number, and among those of its priority it is the one that has waited longest
  (the last of its queue).  All other runnable processes are in the ready queues afterwards, and the queues
  are well formed.
\<close>

theorem fos_scheduler_PRIRR_correct:
  assumes "in_qlock s" "queues_ok s" "cur_ok s" "quantum_ok s"
  shows "\<exists>next s'. fos_scheduler_PRIRR s = Some (next, s') \<and> queues_ok s' \<and>
    (next = None \<longleftrightarrow> (\<forall>m. \<not> runnable m s)) \<and>
    (\<forall>n. next = Some n \<longrightarrow> runnable n s \<and> (\<forall>m. runnable m s \<longrightarrow> priority (envs s n) \<le> priority (envs s m)) \<and>
       n = last (env_ready_queues (requeued s) ! nat (priority (envs s n)))) \<and>
    (\<forall>m. in_ready m s' \<longleftrightarrow> runnable m s \<and> next \<noteq> Some m)"
proof -
  note q = enqueue_cur_eq [OF assms(2,3), of "\<lambda>e. priority (envs s e)", OF refl]
  from fos_scheduler_PRIRR_cases [OF assms] show ?thesis
  proof
    assume n: "(\<forall>m. \<not> runnable m s) \<and> fos_scheduler_PRIRR s = Some (None, reload (requeued s))"
    then show ?thesis using q by (intro exI [of _ None] exI [of _ "reload (requeued s)"]) auto
  next
    assume "\<exists>n u. fos_scheduler_PRIRR s = Some (Some n, reload u) \<and> chosen s n u"
    then obtain n u where "fos_scheduler_PRIRR s = Some (Some n, reload u)" "chosen s n u" by blast
    then show ?thesis by (intro exI [of _ "Some n"] exI [of _ "reload u"]) (auto simp: chosen_def)
  qed
qed

end
