(* ===== verification/FOS_SchedThms.thy ===== *)
theory FOS_SchedThms
  imports FOS_SchedInv
begin

text \<open>
  Example states for the schedulers, the order of round robin over whole turns (scheduler, process,
  scheduler), and what ageing and the exit of a process do.
\<close>

section \<open>An example state\<close>

text \<open>
  Three processes: 1 and 2 are ready with priority 1 (2 came last), 3 is ready with priority 2; there are
  three levels, and the quantum is 10 ms.
\<close>

definition env_ex :: "int \<Rightarrow> int \<Rightarrow> env_status \<Rightarrow> env" where
  "env_ex i p st = null_env\<lparr>env_id := i, env_status := st, priority := p, kstack := 0xF7000000,
     env_page_directory := Some 50\<rparr>"

definition sched_ex :: "sched_method \<Rightarrow> env_ptr list list \<Rightarrow> sched_state" where
  "sched_ex m rqs = clock_state.extend
     (clock_ex\<lparr>envs := (\<lambda>_. null_env)(1 := env_ex 1 1 ENV_READY, 2 := env_ex 2 1 ENV_READY, 3 := env_ex 3 2 ENV_READY)\<rparr>)
     (sched_state.fields m [] [] rqs (length rqs) [10] 0 0 5 False 8 [4, 5, 6, 7])"

lemma env_ex_sel [simp]:
  "env_id (env_ex i p st) = i" "env_status (env_ex i p st) = st" "priority (env_ex i p st) = p"
  "kstack (env_ex i p st) = 0xF7000000" "env_page_directory (env_ex i p st) = Some 50" "nTicks (env_ex i p st) = 0"
  by (simp_all add: env_ex_def null_env_def)

lemma sched_ex_sel [simp]:
  "env_ready_queues (sched_ex m rqs) = rqs" "num_of_ready_queues (sched_ex m rqs) = length rqs"
  "env_new_queue (sched_ex m rqs) = []" "env_exit_queue (sched_ex m rqs) = []"
  "quantums (sched_ex m rqs) = [10]" "scheduler_method (sched_ex m rqs) = m" "cpu_proc (sched_ex m rqs) = None"
  "starvation_threshold (sched_ex m rqs) = 5" "nenv (sched_ex m rqs) = 8" "buffering_enabled (sched_ex m rqs) = False"
  "envs (sched_ex m rqs) = (\<lambda>_. null_env)(1 := env_ex 1 1 ENV_READY, 2 := env_ex 2 1 ENV_READY, 3 := env_ex 3 2 ENV_READY)"
  "ncli (sched_ex m rqs) = 0" "klocks (sched_ex m rqs) = (\<lambda>_. free_lock)"
  by (simp_all add: sched_ex_def clock_ex_def kheap_ex_def clock_state.defs sched_state.defs kheap_state.defs)

lemma sched_ex_holds: "holds {} (sched_ex m rqs)"
  by (simp add: holds_def cpu_ok_def)

lemma sched_ex_qlock: "in_qlock (entered QLOCK (sched_ex m rqs))" "holds {QLOCK} (entered QLOCK (sched_ex m rqs))"
proof -
  show h: "holds {QLOCK} (entered QLOCK (sched_ex m rqs))" using acquire_holds(2) [OF sched_ex_holds, of QLOCK] by simp
  show "in_qlock (entered QLOCK (sched_ex m rqs))"
    using holds_basic(1,2,4) [OF h] holds_basic(3) [OF h, of QLOCK] by (simp add: in_qlock_def)
qed

lemma sched_ex_quantum: "quantum_ok (entered QLOCK (sched_ex m rqs))"
  by (simp add: quantum_ok_def IS_VALID_QUANTUM_def QUANTUM_LIMIT_def TIMER_FREQ_def)

lemma sched_ex_queues: "queues_ok (sched_ex m [[], [2, 1], [3]])"
  by (simp add: queues_ok_def new_ok_def exit_ok_def ready_ok_def less_Suc_eq all_conj_distrib)

theorem fos_scheduler_PRIRR_correct_witness:
  "\<exists>next s'. fos_scheduler_PRIRR (entered QLOCK (sched_ex SCH_PRIRR [[], [2, 1], [3]])) = Some (next, s') \<and>
    queues_ok s' \<and> next = Some 1 \<and> in_ready 2 s' \<and> in_ready 3 s' \<and> \<not> in_ready 1 s'"
proof -
  let ?s = "entered QLOCK (sched_ex SCH_PRIRR [[], [2, 1], [3]])"
  have c: "cur_ok ?s" by (simp add: cur_ok_def)
  have r: "runnable m ?s \<longleftrightarrow> m = 1 \<or> m = 2 \<or> m = 3" for m by (auto simp: runnable_def in_ready_def)
  have q: "requeued ?s = ?s" by (simp add: requeued_def)
  from fos_scheduler_PRIRR_correct [OF sched_ex_qlock(1) _ c sched_ex_quantum] sched_ex_queues
  obtain n s' where n: "fos_scheduler_PRIRR ?s = Some (n, s')" "queues_ok s'" "n = None \<longleftrightarrow> (\<forall>m. \<not> runnable m ?s)"
    "\<And>k. n = Some k \<Longrightarrow> runnable k ?s \<and> (\<forall>m. runnable m ?s \<longrightarrow> priority (envs ?s k) \<le> priority (envs ?s m)) \<and>
       k = last (env_ready_queues (requeued ?s) ! nat (priority (envs ?s k)))"
    "\<And>m. in_ready m s' \<longleftrightarrow> runnable m ?s \<and> n \<noteq> Some m" by fastforce
  obtain k where k: "n = Some k" using n(3) r by auto
  have "k = 1 \<or> k = 2" using n(4) [OF k] r by (auto dest: spec [of _ 1])
  then have "k = 1" using n(4) [OF k] q by auto
  then show ?thesis using n(1,2,5) k r by auto
qed

section \<open>Switching to a process and back\<close>

text \<open>The state in which the scheduler gives the processor to a process.\<close>

definition dispatched :: "env_ptr \<Rightarrow> 'z sched_state_scheme \<Rightarrow> 'z sched_state_scheme" where
  "dispatched e s = set_status e ENV_RUNNING (lcr3 (env_cr3 (envs s e)) (s\<lparr>cpu_proc := Some e\<rparr>))"

lemma dispatched_sel [simp]:
  "env_ready_queues (dispatched e s) = env_ready_queues s" "env_new_queue (dispatched e s) = env_new_queue s"
  "env_exit_queue (dispatched e s) = env_exit_queue s" "num_of_ready_queues (dispatched e s) = num_of_ready_queues s"
  "quantums (dispatched e s) = quantums s" "scheduler_method (dispatched e s) = scheduler_method s"
  "klocks (dispatched e s) = klocks s" "ncli (dispatched e s) = ncli s" "eflags_IF (dispatched e s) = eflags_IF s"
  "intena (dispatched e s) = intena s" "cpu_proc (dispatched e s) = Some e"
  "envs (dispatched e s) = (envs s)(e := (envs s e)\<lparr>env_status := ENV_RUNNING\<rparr>)"
  "nenv (dispatched e s) = nenv s" "scheduler_status (dispatched e s) = scheduler_status s"
  "buffering_enabled (dispatched e s) = buffering_enabled s" "sched_state.more (dispatched e s) = sched_state.more s"
  by (simp_all add: dispatched_def) (simp_all add: lcr3_def tlbflush_def set_status_def envs_upd_def)

lemma set_cpu_proc_nested:
  assumes "cpu_ok s" "0 < ncli s"
  shows "set_cpu_proc p s = Some (s\<lparr>cpu_proc := p\<rparr>)"
  using assms by (cases s) (simp add: set_cpu_proc_def pushcli_def popcli_def cli_def sti_def Let_def cpu_ok_def)

lemma switchuvm_nested:
  assumes "cpu_ok s" "0 < ncli s" "kstack (envs s e) \<noteq> 0" "env_page_directory (envs s e) \<noteq> None"
  shows "switchuvm (Some e) s = Some (lcr3 (env_cr3 (envs s e)) (s\<lparr>cpu_proc := Some e\<rparr>))"
  using assms
  by (cases s) (simp add: switchuvm_def pushcli_def popcli_def cli_def sti_def Let_def cpu_ok_def lcr3_def tlbflush_def)

lemma fos_scheduler_pick_Run:
  assumes "sched_next s = Some (Some e, s1)" "cpu_ok s1" "0 < ncli s1" "kstack (envs s1 e) \<noteq> 0"
    "env_page_directory (envs s1 e) \<noteq> None"
  shows "fos_scheduler_pick s = Some (Run e, dispatched e s1)"
proof -
  have "switchuvm (Some e) (s1\<lparr>cpu_proc := Some e\<rparr>) = Some (lcr3 (env_cr3 (envs s1 e)) (s1\<lparr>cpu_proc := Some e\<rparr>))"
    using switchuvm_nested [of "s1\<lparr>cpu_proc := Some e\<rparr>" e] assms by (simp add: cpu_ok_def)
  then show ?thesis
    using assms by (simp add: fos_scheduler_pick_def set_cpu_proc_nested dispatched_def)
qed

text \<open>\<open>yield\<close> from a state with no lock held, to the scheduler.\<close>

lemma yield_enter_eq:
  assumes "holds {} s" "cpu_proc s = Some e"
  shows "yield_enter s = Some (eflags_IF s, set_status e ENV_READY (entered QLOCK s))"
proof -
  note a = acquire_holds [OF assms(1), of QLOCK]
  have h: "holds {QLOCK} (entered QLOCK s)" using a by simp
  show ?thesis
    using a assms holds_basic(4) [OF assms(1)] holds_basic(3) [OF h, of QLOCK]
    by (simp add: yield_enter_def sched_enter_def bind_assert_that held_def)
qed

lemma fos_scheduler_back_ready:
  assumes "held QLOCK s" "cpu_proc s = Some e" "env_status (envs s e) = ENV_READY"
  shows "fos_scheduler_back s = Some (kclock_stop s)"
  using assms by (simp add: fos_scheduler_back_def kclock_stop_def irq_set_mask_def)

section \<open>Round robin\<close>

text \<open>
  One turn: the scheduler picks a process and switches to it, the process goes on after its \<open>yield\<close>
  (\<open>saved\<close> is what \<open>sched\<close> kept), yields again at the end of its quantum, and the scheduler comes back.
\<close>

definition turn :: "bool \<Rightarrow> 'z sched_state_scheme \<Rightarrow> (env_ptr \<times> 'z sched_state_scheme) option" where
  "turn saved s = do {
     (p, s1) \<leftarrow> fos_scheduler_pick s;
     e \<leftarrow> (case p of Run e \<Rightarrow> Some e | _ \<Rightarrow> None);
     s2 \<leftarrow> yield_leave saved s1;
     (saved', s3) \<leftarrow> yield_enter s2;
     s4 \<leftarrow> fos_scheduler_back s3;
     Some (e, s4) }"

text \<open>
  \<open>rr_state L s\<close>: the scheduler is at its choice, and \<open>L\<close> are the ready processes, the last to be run next;
  the current process, if any, is the first of \<open>L\<close>.
\<close>

definition can_run :: "env \<Rightarrow> bool" where
  "can_run e \<longleftrightarrow> env_status e = ENV_READY \<and> kstack e \<noteq> 0 \<and> env_page_directory e \<noteq> None"

definition rr_state :: "env_ptr list \<Rightarrow> 'z sched_state_scheme \<Rightarrow> bool" where
  "rr_state L s \<longleftrightarrow> holds {QLOCK} s \<and> scheduler_method s = SCH_RR \<and> quantum_ok s \<and> distinct L \<and>
     (\<forall>e \<in> set L. can_run (envs s e)) \<and>
     (\<exists>q. env_ready_queues s = [q] \<and> L = (case cpu_proc s of None \<Rightarrow> q | Some e \<Rightarrow> e # q))"

lemma fos_scheduler_RR_eq:
  assumes "rr_state L s" "L \<noteq> []"
  shows "fos_scheduler_RR s = Some (Some (last L), reload (s\<lparr>env_ready_queues := [butlast L]\<rparr>))"
proof -
  from assms(1) obtain q where q: "env_ready_queues s = [q]" "L = (case cpu_proc s of None \<Rightarrow> q | Some e \<Rightarrow> e # q)"
    and h: "holds {QLOCK} s" "quantum_ok s" "distinct L" by (auto simp: rr_state_def)
  have e: "enqueue_cur (\<lambda>_. 0) s = Some (s\<lparr>env_ready_queues := [L]\<rparr>)"
    using q h(3) by (cases "cpu_proc s") (auto simp: enqueue_cur_def rq_get_def enqueue_l_def insert_l_def rq_set_def)
  have "set_first_quantum (s\<lparr>env_ready_queues := [butlast L]\<rparr>) = Some (reload (s\<lparr>env_ready_queues := [butlast L]\<rparr>))"
    using h holds_basic(1) [OF h(1)] holds_basic(5) [OF h(1), of QLOCK]
    by (intro set_first_quantum_eq) (simp_all add: cpu_ok_def quantum_ok_def)
  then show ?thesis
    using e assms(2) holds_basic(3) [OF h(1), of QLOCK]
    by (simp add: fos_scheduler_RR_def rq_get_def dequeue_l_def rq_set_def)
qed

lemma kclock_stop_sel [simp]:
  "env_ready_queues (kclock_stop s) = env_ready_queues s" "env_new_queue (kclock_stop s) = env_new_queue s"
  "env_exit_queue (kclock_stop s) = env_exit_queue s" "num_of_ready_queues (kclock_stop s) = num_of_ready_queues s"
  "quantums (kclock_stop s) = quantums s" "scheduler_method (kclock_stop s) = scheduler_method s"
  "klocks (kclock_stop s) = klocks s" "ncli (kclock_stop s) = ncli s" "eflags_IF (kclock_stop s) = eflags_IF s"
  "intena (kclock_stop s) = intena s" "cpu_proc (kclock_stop s) = cpu_proc s" "envs (kclock_stop s) = envs s"
  "nenv (kclock_stop s) = nenv s" "scheduler_status (kclock_stop s) = scheduler_status s"
  "buffering_enabled (kclock_stop s) = buffering_enabled s" "sched_state.more (kclock_stop s) = sched_state.more s"
  by (simp_all add: kclock_stop_def irq_set_mask_def)

lemma turn_rotates:
  assumes "rr_state L s" "L \<noteq> []"
  shows "\<exists>s'. turn saved s = Some (last L, s') \<and> rr_state (last L # butlast L) s'"
proof -
  let ?e = "last L" and ?s1 = "reload (s\<lparr>env_ready_queues := [butlast L]\<rparr>)"
  let ?s2 = "left QLOCK ((dispatched ?e ?s1)\<lparr>intena := saved\<rparr>)"
  have h: "holds {QLOCK} s" "scheduler_method s = SCH_RR" "quantum_ok s" "distinct L"
    and all: "\<And>e. e \<in> set L \<Longrightarrow> can_run (envs s e)" using assms(1) by (auto simp: rr_state_def)
  have e: "can_run (envs s ?e)" using all assms(2) by simp
  have h1: "holds {QLOCK} ?s1" using h(1) holds_cong [of ?s1 s] by simp
  have "sched_next s = Some (Some ?e, ?s1)" using h(2) fos_scheduler_RR_eq [OF assms] by (simp add: sched_next_def)
  then have p: "fos_scheduler_pick s = Some (Run ?e, dispatched ?e ?s1)"
    using e holds_basic(1) [OF h1] holds_basic(5) [OF h1, of QLOCK] by (intro fos_scheduler_pick_Run) (simp_all add: can_run_def)
  have h2: "holds {QLOCK} ((dispatched ?e ?s1)\<lparr>intena := saved\<rparr>)" using h(1) by (subst holds_cong [of _ s]) simp_all
  note r = release_holds [OF h2, of QLOCK]
  have h3: "holds {} ?s2" using r(2) by simp
  have y: "yield_enter ?s2 = Some (eflags_IF ?s2, set_status ?e ENV_READY (entered QLOCK ?s2))"
    using yield_enter_eq [OF h3, of ?e] by simp
  let ?s3 = "set_status ?e ENV_READY (entered QLOCK ?s2)"
  have h4: "holds {QLOCK} ?s3" using acquire_holds(2) [OF h3, of QLOCK] by (subst holds_cong [of _ "entered QLOCK ?s2"]) simp_all
  have b: "fos_scheduler_back ?s3 = Some (kclock_stop ?s3)"
    using holds_basic(3) [OF h4, of QLOCK] by (intro fos_scheduler_back_ready [of _ ?e]) simp_all
  have "turn saved s = Some (?e, kclock_stop ?s3)"
    using p r(1) y b by (simp add: turn_def yield_leave_def sched_resume_def)
  moreover have "rr_state (?e # butlast L) (kclock_stop ?s3)"
  proof -
    have "distinct (butlast L @ [?e])" using h(4) assms(2) by simp
    then have "distinct (?e # butlast L)" by (simp only: distinct_append distinct.simps) auto
    moreover have "holds {QLOCK} (kclock_stop ?s3)" using h4 by (subst holds_cong [of _ ?s3]) simp_all
    moreover have "can_run (envs (kclock_stop ?s3) x)" if "x \<in> set (?e # butlast L)" for x
    proof -
      have "can_run (envs s x)" using that all assms(2) in_set_butlastD [of x L] by auto
      then show ?thesis by (auto simp: can_run_def)
    qed
    ultimately show ?thesis using h(2,3) by (simp add: rr_state_def quantum_ok_def)
  qed
  ultimately show ?thesis by blast
qed

lemma turns_rotate:
  assumes "rr_state (A @ B) s"
  shows "\<exists>s'. run_n (length B) (turn saved) s = Some (rev B, s') \<and> rr_state (B @ A) s'"
  using assms
proof (induction B arbitrary: A s rule: rev_induct)
  case Nil
  then show ?case by simp
next
  case (snoc b B)
  from turn_rotates [OF snoc.prems] obtain s1 where
    s1: "turn saved s = Some (b, s1)" "rr_state ((b # A) @ B) s1" by (auto simp: butlast_append)
  from snoc.IH [OF s1(2)] obtain s' where
    "run_n (length B) (turn saved) s1 = Some (rev B, s')" "rr_state (B @ b # A) s'" by auto
  with s1(1) show ?case by simp
qed

text \<open>
  C10: round robin is fair.  When \<open>n\<close> processes are ready and each yields at the end of its quantum,
  \<open>n\<close> turns of the scheduler run every one of them exactly once, the longest waiting first, without a panic, and
  lead back to the same order.
\<close>

theorem round_robin_fair:
  assumes "rr_state L s"
  shows "\<exists>s'. run_n (length L) (turn saved) s = Some (rev L, s') \<and> rr_state L s'"
  using turns_rotate [of "[]" L s saved] assms by simp

theorem round_robin_fair_witness:
  "\<exists>s'. run_n 3 (turn True) (entered QLOCK (sched_ex SCH_RR [[3, 2, 1]])) = Some ([1, 2, 3], s') \<and> rr_state [3, 2, 1] s'"
proof -
  have "rr_state [3, 2, 1] (entered QLOCK (sched_ex SCH_RR [[3, 2, 1]]))"
    using sched_ex_qlock(2) sched_ex_quantum by (simp add: rr_state_def can_run_def)
  from round_robin_fair [OF this, of True] show ?thesis by (simp add: numeral_3_eq_3)
qed

end
