(* ===== verification/FOS_Ageing.thy ===== *)
theory FOS_Ageing
  imports FOS_SchedThms
begin

text \<open>
  Ageing, the part of \<open>clock_interrupt_handler\<close> that raises the priority of processes that wait too long
  (\<open>kern/cpu/sched.c\<close>): its effect on every ready process, and that no process starves.
\<close>

text \<open>What a tick does to a ready process, as a function of its record.\<close>

definition aged :: "u32 \<Rightarrow> env \<Rightarrow> env" where
  "aged thr x = (if priority x = 0 then x
     else if nTicks x > thr then x\<lparr>priority := priority x - 1, nTicks := 0\<rparr>
     else x\<lparr>nTicks := nTicks x + 1\<rparr>)"

lemma aged_status [simp]: "env_status (aged thr x) = env_status x"
  by (simp add: aged_def)

text \<open>The configuration and the state of the layers above, which ageing does not touch.\<close>

definition same_rest :: "'z sched_state_scheme \<Rightarrow> 'z sched_state_scheme \<Rightarrow> bool" where
  "same_rest s s' \<longleftrightarrow> nenv s' = nenv s \<and> quantums s' = quantums s \<and> scheduler_method s' = scheduler_method s \<and>
     buffering_enabled s' = buffering_enabled s \<and> scheduler_status s' = scheduler_status s \<and>
     sched_state.more s' = sched_state.more s"

section \<open>One process\<close>

lemma requeue_eq:
  assumes "queues_ok s" "holds {} s" "in_ready e s" "0 \<le> p" "p < int (num_of_ready_queues s)"
  shows "\<exists>s'. requeue e p s = Some s' \<and> queues_ok s' \<and> holds {} s' \<and> num_of_ready_queues s' = num_of_ready_queues s \<and>
    starvation_threshold s' = starvation_threshold s \<and> env_new_queue s' = env_new_queue s \<and>
    env_exit_queue s' = env_exit_queue s \<and> (\<forall>x. in_ready x s' = in_ready x s) \<and>
    envs s' = (envs s)(e := (envs s e)\<lparr>priority := p, nTicks := 0\<rparr>) \<and> cpu_proc s' = cpu_proc s \<and> same_rest s s'"
proof -
  let ?i = "priority (envs s e)"
  have r: "ready_ok s" using assms(1) by (simp add: queues_ok_def)
  from in_ready_iff [OF r, of e] assms(3) have e: "env_status (envs s e) = ENV_READY" "prio_ok e s"
    "e \<in> set (env_ready_queues s ! nat ?i)" by auto
  have i: "0 \<le> ?i" "?i < int (num_of_ready_queues s)" "nat ?i < num_of_ready_queues s" "int (nat ?i) = ?i"
    using e(2) by (auto simp: prio_ok_def)
  let ?s1 = "entered QLOCK s"
  let ?q = "remove1 e (env_ready_queues s ! nat ?i)"
  let ?s2 = "left QLOCK (rq_set ?i ?q ?s1)"
  let ?s3 = "envs_upd e (\<lambda>x. x\<lparr>priority := p\<rparr>) ?s2"
  let ?s4 = "entered QLOCK ?s3"
  have a: "acquire_kspinlock QLOCK s = Some ?s1" "holds {QLOCK} ?s1" using acquire_holds [OF assms(2), of QLOCK] by simp_all
  have h2: "holds {QLOCK} (rq_set ?i ?q ?s1)" using a(2) by (subst holds_cong [of _ ?s1]) simp_all
  have q1: "queues_ok (rq_set ?i ?q ?s1)" "\<not> in_queue e (rq_set ?i ?q ?s1)"
    "\<And>x. in_ready x (rq_set ?i ?q ?s1) \<longleftrightarrow> x \<noteq> e \<and> in_ready x s"
    using queues_ok_remove_ready [of ?s1 "nat ?i" e] in_ready_removed [of ?s1 "nat ?i" e] assms(1) i e(3) by simp_all
  have g: "rq_get ?i ?s1 = Some (env_ready_queues s ! nat ?i)" using i(1,2) ready_ok_length [OF r] by (simp add: rq_get_def)
  have b: "release_kspinlock QLOCK (rq_set ?i ?q ?s1) = Some ?s2" "holds {} ?s2" using release_holds [OF h2, of QLOCK] by simp_all
  have q3: "queues_ok ?s3" "\<not> in_queue e ?s3"
    using queues_ok_upd_env(1) [of ?s2 e "\<lambda>x. x\<lparr>priority := p\<rparr>"] queues_ok_upd_env(2) [of ?s2 e e "\<lambda>x. x\<lparr>priority := p\<rparr>"] q1(1,2)
    by simp_all
  have h3: "holds {} ?s3" using b(2) by (subst holds_cong [of _ ?s2]) simp_all
  have c: "acquire_kspinlock QLOCK ?s3 = Some ?s4" "holds {QLOCK} ?s4" using acquire_holds [OF h3, of QLOCK] by simp_all
  have p4: "prio_ok e ?s4" using assms(4,5) by (simp add: prio_ok_def)
  have q4: "sched_insert_ready (Some e) ?s4 = Some (ready_put e ?s4)" "queues_ok (ready_put e ?s4)"
    "\<And>x. in_queue x (ready_put e ?s4) \<longleftrightarrow> x = e \<or> in_queue x ?s4"
    using sched_insert_ready_eq [of ?s4 e] q3 holds_basic(3) [OF c(2), of QLOCK] p4 by simp_all
  have h5: "holds {QLOCK} (ready_put e ?s4)" using c(2) by (subst holds_cong [of _ ?s4]) simp_all
  note d = release_holds [OF h5, of QLOCK]
  let ?s6 = "left QLOCK (ready_put e ?s4)"
  have res: "requeue e p s = Some ?s6"
    using a(1) g b(1) c(1) q4(1) d(1) e(3) by (simp add: requeue_def remove_from_queue_l_def remove_l_def)
  have st: "envs ?s6 = (envs s)(e := (envs s e)\<lparr>priority := p, nTicks := 0\<rparr>)"
    using e(1) by (simp add: fun_eq_iff)
  have q6: "queues_ok ?s6" using q4(2) by simp
  have "in_ready x ?s6 = in_ready x s" for x
  proof -
    have "in_ready x ?s6 \<longleftrightarrow> in_queue x ?s6 \<and> x \<notin> set (env_new_queue ?s6) \<and> x \<notin> set (env_exit_queue ?s6)"
      using queue_statusD [OF q6, of x] by (auto simp: in_queue_def)
    also have "\<dots> \<longleftrightarrow> (x = e \<or> in_queue x (rq_set ?i ?q ?s1)) \<and> x \<notin> set (env_new_queue s) \<and> x \<notin> set (env_exit_queue s)"
      using q4(3) [of x] queues_ok_upd_env(2) [of ?s2 e x "\<lambda>x. x\<lparr>priority := p\<rparr>"] q1(1,2) by simp
    also have "\<dots> \<longleftrightarrow> in_ready x s"
      using q1(3) [of x] queue_statusD [OF assms(1), of x] assms(3) by (auto simp: in_queue_def)
    finally show ?thesis .
  qed
  then show ?thesis using res q6 d(2) st by (intro exI [of _ ?s6]) (simp add: same_rest_def)
qed

text \<open>\<open>aged_state A s s'\<close>: from \<open>s\<close> to \<open>s'\<close> the processes of \<open>A\<close> were aged, and nothing else that the queues
  depend on has changed.\<close>

definition aged_state :: "env_ptr set \<Rightarrow> 'z sched_state_scheme \<Rightarrow> 'z sched_state_scheme \<Rightarrow> bool" where
  "aged_state A s s' \<longleftrightarrow> queues_ok s' \<and> holds {} s' \<and> num_of_ready_queues s' = num_of_ready_queues s \<and>
     starvation_threshold s' = starvation_threshold s \<and> (\<forall>x. in_ready x s' = in_ready x s) \<and>
     envs s' = (\<lambda>x. if x \<in> A then aged (starvation_threshold s) (envs s x) else envs s x) \<and>
     env_new_queue s' = env_new_queue s \<and> env_exit_queue s' = env_exit_queue s \<and> cpu_proc s' = cpu_proc s \<and> same_rest s s'"

lemma aged_state_trans:
  "aged_state A s s1 \<Longrightarrow> aged_state B s1 s2 \<Longrightarrow> A \<inter> B = {} \<Longrightarrow> aged_state (A \<union> B) s s2"
  unfolding aged_state_def same_rest_def by (auto simp: fun_eq_iff)

lemma queues_ok_same_status:
  assumes "env_ready_queues s' = env_ready_queues s" "env_new_queue s' = env_new_queue s"
    "env_exit_queue s' = env_exit_queue s" "num_of_ready_queues s' = num_of_ready_queues s"
    "\<And>e. env_status (envs s' e) = env_status (envs s e)" "\<And>e. priority (envs s' e) = priority (envs s e)"
  shows "queues_ok s' = queues_ok s" "in_ready x s' = in_ready x s"
  using assms by (simp_all add: queues_ok_def ready_ok_def new_ok_def exit_ok_def in_ready_def)

lemma queues_ok_nTicks:
  "queues_ok (envs_upd e (\<lambda>x. x\<lparr>nTicks := f x\<rparr>) s) = queues_ok s"
  "in_ready x (envs_upd e (\<lambda>x. x\<lparr>nTicks := f x\<rparr>) s) = in_ready x s"
  by (intro queues_ok_same_status; simp)+

lemma age_env_eq:
  assumes "queues_ok s" "holds {} s" "in_ready e s"
  shows "\<exists>s'. age_env e s = Some s' \<and> aged_state {e} s s'"
proof -
  have r: "ready_ok s" using assms(1) by (simp add: queues_ok_def)
  from in_ready_iff [OF r, of e] assms(3) have e: "prio_ok e s" by auto
  consider "priority (envs s e) = 0"
    | "priority (envs s e) \<noteq> 0" "nTicks (envs s e) > starvation_threshold s"
    | "priority (envs s e) \<noteq> 0" "\<not> nTicks (envs s e) > starvation_threshold s" by blast
  then show ?thesis
  proof cases
    case 1
    then show ?thesis using assms by (auto simp: age_env_def aged_state_def aged_def fun_eq_iff same_rest_def)
  next
    case 2
    have "0 \<le> priority (envs s e) - 1" "priority (envs s e) - 1 < int (num_of_ready_queues s)"
      using e 2(1) by (auto simp: prio_ok_def)
    from requeue_eq [OF assms this] obtain s1 where
      s1: "requeue e (priority (envs s e) - 1) s = Some s1" "queues_ok s1" "holds {} s1"
        "num_of_ready_queues s1 = num_of_ready_queues s" "starvation_threshold s1 = starvation_threshold s"
        "env_new_queue s1 = env_new_queue s" "env_exit_queue s1 = env_exit_queue s" "\<And>x. in_ready x s1 = in_ready x s"
        "envs s1 = (envs s)(e := (envs s e)\<lparr>priority := priority (envs s e) - 1, nTicks := 0\<rparr>)" "cpu_proc s1 = cpu_proc s" "same_rest s s1"
      by blast
    let ?s2 = "envs_upd e (\<lambda>x. x\<lparr>nTicks := 0\<rparr>) s1"
    have h: "holds {} ?s2" using s1(3) by (subst holds_cong [of _ s1]) simp_all
    have "age_env e s = Some ?s2" using 2 s1(1) by (simp add: age_env_def)
    moreover have E: "envs ?s2 = (\<lambda>x. if x \<in> {e} then aged (starvation_threshold s) (envs s x) else envs s x)"
      using 2 s1(9) by (simp add: aged_def fun_eq_iff)
    moreover have "aged_state {e} s ?s2"
      unfolding aged_state_def E
      using s1(2-8,10,11) h queues_ok_nTicks(1) [of e "\<lambda>_. 0" s1] queues_ok_nTicks(2) [of _ e "\<lambda>_. 0" s1]
      by (simp add: same_rest_def)
    ultimately show ?thesis by blast
  next
    case 3
    let ?s2 = "envs_upd e (\<lambda>x. x\<lparr>nTicks := nTicks x + 1\<rparr>) s"
    have h: "holds {} ?s2" using assms(2) by (subst holds_cong [of _ s]) simp_all
    have "age_env e s = Some ?s2" using 3 by (simp add: age_env_def)
    moreover have E: "envs ?s2 = (\<lambda>x. if x \<in> {e} then aged (starvation_threshold s) (envs s x) else envs s x)"
      using 3 by (simp add: aged_def fun_eq_iff)
    moreover have "aged_state {e} s ?s2"
      unfolding aged_state_def E
      using h assms queues_ok_nTicks(1) [of e "\<lambda>x. nTicks x + 1" s] queues_ok_nTicks(2) [of _ e "\<lambda>x. nTicks x + 1" s]
      by (simp add: same_rest_def)
    ultimately show ?thesis by blast
  qed
qed

section \<open>All processes\<close>

lemma age_list_eq:
  assumes "queues_ok s" "holds {} s" "distinct q" "\<And>e. e \<in> set q \<Longrightarrow> in_ready e s"
  shows "\<exists>s'. run_all age_env q s = Some s' \<and> aged_state (set q) s s'"
  using assms
proof (induction q arbitrary: s)
  case Nil
  then show ?case by (simp add: aged_state_def same_rest_def)
next
  case (Cons e q)
  from age_env_eq [OF Cons.prems(1,2)] Cons.prems(4) obtain s1 where s1: "age_env e s = Some s1" "aged_state {e} s s1" by auto
  have "\<exists>s'. run_all age_env q s1 = Some s' \<and> aged_state (set q) s1 s'"
    using s1(2) Cons.prems by (intro Cons.IH) (auto simp: aged_state_def)
  then obtain s2 where s2: "run_all age_env q s1 = Some s2" "aged_state (set q) s1 s2" by blast
  from aged_state_trans [OF s1(2) s2(2)] Cons.prems(3) have "aged_state (set (e # q)) s s2" by simp
  with s1(1) s2(1) show ?case by auto
qed

lemma age_queues_eq:
  assumes "queues_ok s" "holds {} s" "i + n = num_of_ready_queues s"
  shows "\<exists>s'. age_queues n i s = Some s' \<and> aged_state {e. in_ready e s \<and> int i \<le> priority (envs s e)} s s'"
  using assms
proof (induction n arbitrary: i s)
  case 0
  have "ready_ok s" using "0.prems"(1) by (simp add: queues_ok_def)
  then have "\<not> int i \<le> priority (envs s e)" if "in_ready e s" for e
    using in_ready_iff [of s e] that "0.prems"(3) by (auto simp: prio_ok_def)
  then have "{e. in_ready e s \<and> int i \<le> priority (envs s e)} = {}" by auto
  then show ?case using "0.prems" by (simp only: age_queues.simps) (simp add: aged_state_def same_rest_def)
next
  case (Suc n)
  let ?q = "env_ready_queues s ! i"
  have r: "ready_ok s" using Suc.prems(1) by (simp add: queues_ok_def)
  have i: "i < num_of_ready_queues s" using Suc.prems(3) by simp
  have g: "rq_get (int i) s = Some ?q" using rq_get_ok [OF r, of "int i"] i by simp
  have d: "distinct ?q" using r i by (simp add: ready_ok_def)
  have m: "e \<in> set ?q \<longleftrightarrow> in_ready e s \<and> priority (envs s e) = int i" for e
    using in_ready_iff [OF r, of e] in_ready_nth [OF r i, of e] ready_okD(2) [OF r _ i, of e] by auto
  from age_list_eq [OF Suc.prems(1,2) d] m obtain s1 where
    s1: "run_all age_env ?q s = Some s1" "aged_state (set ?q) s s1" by blast
  have "\<exists>s'. age_queues n (Suc i) s1 = Some s' \<and> aged_state {e. in_ready e s1 \<and> int (Suc i) \<le> priority (envs s1 e)} s1 s'"
    using s1(2) Suc.prems(3) by (intro Suc.IH) (simp_all add: aged_state_def)
  then obtain s2 where
    s2: "age_queues n (Suc i) s1 = Some s2" "aged_state {e. in_ready e s1 \<and> int (Suc i) \<le> priority (envs s1 e)} s1 s2" by blast
  have B: "{e. in_ready e s1 \<and> int (Suc i) \<le> priority (envs s1 e)} = {e. in_ready e s \<and> int (Suc i) \<le> priority (envs s e)}"
  proof -
    have "int (Suc i) \<le> priority (envs s1 e) \<longleftrightarrow> int (Suc i) \<le> priority (envs s e)" if "in_ready e s" for e
      using s1(2) m [of e] that by (auto simp: aged_state_def aged_def)
    moreover have "in_ready e s1 = in_ready e s" for e using s1(2) by (simp add: aged_state_def)
    ultimately show ?thesis by blast
  qed
  have Q: "set ?q = {e. in_ready e s \<and> priority (envs s e) = int i}" using m by blast
  have "set ?q \<inter> {e. in_ready e s \<and> int (Suc i) \<le> priority (envs s e)} = {}" unfolding Q by auto
  moreover have "set ?q \<union> {e. in_ready e s \<and> int (Suc i) \<le> priority (envs s e)} = {e. in_ready e s \<and> int i \<le> priority (envs s e)}"
    unfolding Q by auto
  ultimately have "aged_state {e. in_ready e s \<and> int i \<le> priority (envs s e)} s s2"
    using aged_state_trans [OF s1(2) s2(2) [unfolded B]] by simp
  then show ?case using g s1(1) s2(1) by simp
qed

text \<open>
  One tick of ageing.  The handler visits every ready process exactly once, although it moves processes
  between the queues while it goes over them: afterwards each ready process is as \<open>aged\<close> says (one level up and
  its count reset when it waited longer than the threshold, its count increased otherwise, unchanged at level
  0), the others are unchanged, the same processes are ready, and the queues are well formed.
\<close>

theorem ageing_tick:
  assumes "queues_ok s" "holds {} s"
  shows "\<exists>s'. age_queues (num_of_ready_queues s) 0 s = Some s' \<and> queues_ok s' \<and>
    (\<forall>e. in_ready e s' = in_ready e s) \<and>
    envs s' = (\<lambda>e. if in_ready e s then aged (starvation_threshold s) (envs s e) else envs s e)"
proof -
  have r: "ready_ok s" using assms(1) by (simp add: queues_ok_def)
  have "in_ready e s \<and> int 0 \<le> priority (envs s e) \<longleftrightarrow> in_ready e s" for e
    using in_ready_iff [OF r, of e] by (auto simp: prio_ok_def)
  then show ?thesis using age_queues_eq [OF assms, of 0 "num_of_ready_queues s"] by (auto simp: aged_state_def)
qed

section \<open>No starvation\<close>

definition tick_age :: "'z sched_state_scheme \<Rightarrow> 'z sched_state_scheme option" where
  "tick_age s = age_queues (num_of_ready_queues s) 0 s"

lemma tick_age_iterate:
  assumes "queues_ok s" "holds {} s"
  shows "\<exists>s'. ((\<lambda>r. r \<bind> tick_age) ^^ k) (Some s) = Some s' \<and> queues_ok s' \<and> holds {} s' \<and>
    num_of_ready_queues s' = num_of_ready_queues s \<and> starvation_threshold s' = starvation_threshold s \<and>
    (\<forall>e. in_ready e s' = in_ready e s) \<and>
    (\<forall>e. in_ready e s \<longrightarrow> envs s' e = (aged (starvation_threshold s) ^^ k) (envs s e))"
proof (induction k)
  case 0
  then show ?case using assms by simp
next
  case (Suc k)
  then obtain s1 where s1: "((\<lambda>r. r \<bind> tick_age) ^^ k) (Some s) = Some s1" "queues_ok s1" "holds {} s1"
    "num_of_ready_queues s1 = num_of_ready_queues s" "starvation_threshold s1 = starvation_threshold s"
    "\<And>e. in_ready e s1 = in_ready e s"
    "\<And>e. in_ready e s \<Longrightarrow> envs s1 e = (aged (starvation_threshold s) ^^ k) (envs s e)" by blast
  have r: "ready_ok s1" using s1(2) by (simp add: queues_ok_def)
  have p: "in_ready e s1 \<and> int 0 \<le> priority (envs s1 e) \<longleftrightarrow> in_ready e s" for e
    using in_ready_iff [OF r, of e] s1(6) [of e] by (auto simp: prio_ok_def)
  from age_queues_eq [OF s1(2,3), of 0 "num_of_ready_queues s1"] obtain s2 where
    s2: "tick_age s1 = Some s2" "aged_state {e. in_ready e s} s1 s2" unfolding p tick_age_def by auto
  then show ?case using s1 by (intro exI [of _ s2]) (auto simp: aged_state_def)
qed

text \<open>
  A process that waits.  \<open>waits e k s s'\<close>: from \<open>s\<close> to \<open>s'\<close> there were \<open>k\<close> ticks of ageing, and between them anything
  that leaves the queues in order and \<open>e\<close> where it is in them: other processes may be chosen, run, give up the
  processor, be queued, change their priority, block or end.
\<close>

definition left_waiting :: "env_ptr \<Rightarrow> 'z sched_state_scheme \<Rightarrow> 'z sched_state_scheme \<Rightarrow> bool" where
  "left_waiting e s s' \<longleftrightarrow> queues_ok s' \<and> holds {} s' \<and> in_ready e s' \<and>
     starvation_threshold s' = starvation_threshold s \<and>
     priority (envs s' e) = priority (envs s e) \<and> nTicks (envs s' e) = nTicks (envs s e)"

inductive waits :: "env_ptr \<Rightarrow> nat \<Rightarrow> 'z sched_state_scheme \<Rightarrow> 'z sched_state_scheme \<Rightarrow> bool" for e where
  waits_start: "waits e 0 s s"
| waits_tick: "waits e k s s1 \<Longrightarrow> tick_age s1 = Some s2 \<Longrightarrow> waits e (Suc k) s s2"
| waits_other: "waits e k s s1 \<Longrightarrow> left_waiting e s1 s2 \<Longrightarrow> waits e k s s2"

text \<open>The number of ticks a process is from level 0; each tick takes one.\<close>

definition ticks_left :: "u32 \<Rightarrow> env \<Rightarrow> nat" where
  "ticks_left thr x = nat (priority x) * (unat thr + 2) - min (unat (nTicks x)) (unat thr + 1)"

lemma ticks_left_aged:
  assumes "unat thr + 1 < 2 ^ 32" "0 \<le> priority x"
  shows "ticks_left thr (aged thr x) = ticks_left thr x - 1"
proof (cases "priority x = 0")
  case True
  then show ?thesis by (simp add: aged_def ticks_left_def)
next
  case False
  then obtain p where p: "nat (priority x) = Suc p" "nat (priority x - 1) = p" using assms(2)
    by (metis Suc_nat_eq_nat_zadd1 add.commute diff_add_cancel int_one_le_iff_zero_less order_le_less zle_diff1_eq not_le nat_0_le zero_le_imp_eq_int nat_int)
  show ?thesis
  proof (cases "nTicks x > thr")
    case True
    then have "min (unat (nTicks x)) (unat thr + 1) = unat thr + 1" by (simp add: word_less_nat_alt)
    then show ?thesis using False True p by (simp add: aged_def ticks_left_def)
  next
    case le: False
    then have n: "unat (nTicks x) \<le> unat thr" by (simp add: word_less_nat_alt)
    then have "unat (nTicks x + 1) = unat (nTicks x) + 1" using assms(1) by (simp add: unat_word_ariths)
    then show ?thesis using False le p n by (simp add: aged_def ticks_left_def)
  qed
qed

lemma tick_age_step:
  assumes "queues_ok s" "holds {} s" "in_ready e s"
  shows "\<exists>s'. tick_age s = Some s' \<and> queues_ok s' \<and> holds {} s' \<and> in_ready e s' \<and>
    starvation_threshold s' = starvation_threshold s \<and> envs s' e = aged (starvation_threshold s) (envs s e)"
  using tick_age_iterate [OF assms(1,2), of 1] assms(3) by auto

lemma waits_invariant:
  assumes "waits e k s s'" "queues_ok s" "holds {} s" "in_ready e s" "unat (starvation_threshold s) + 1 < 2 ^ 32"
  shows "queues_ok s' \<and> holds {} s' \<and> in_ready e s' \<and> starvation_threshold s' = starvation_threshold s \<and>
    ticks_left (starvation_threshold s) (envs s' e) = ticks_left (starvation_threshold s) (envs s e) - k"
  using assms
proof (induction rule: waits.induct)
  case (waits_start s)
  then show ?case by simp
next
  case (waits_tick k s s1 s2)
  from tick_age_step [of s1 e] waits_tick have s2: "queues_ok s2" "holds {} s2" "in_ready e s2"
    "starvation_threshold s2 = starvation_threshold s1" "envs s2 e = aged (starvation_threshold s1) (envs s1 e)" by auto
  have "ready_ok s1" using waits_tick by (simp add: queues_ok_def)
  then have "0 \<le> priority (envs s1 e)" using in_ready_iff [of s1 e] waits_tick by (simp add: prio_ok_def)
  then show ?case using s2 waits_tick ticks_left_aged [OF waits_tick.prems(4)] by simp
next
  case (waits_other k s s1 s2)
  then show ?case by (simp add: left_waiting_def ticks_left_def)
qed

text \<open>
  C11: no starvation.  With a threshold \<open>t\<close> below the largest 32-bit number, a process that is ready with priority \<open>p\<close>,
  whatever its waiting count, and that stays in the ready queues with nobody but the ageing changing its priority or
  count, is at the highest priority, 0, and in the ready queue of level 0, after \<open>p * (t + 2)\<close> clock ticks (or more),
  whatever the other processes and the scheduler do between the ticks; and no tick on the way fails.
\<close>

theorem ageing_no_starvation:
  assumes "queues_ok s" "holds {} s" "in_ready e s" "starvation_threshold s \<noteq> - 1"
    and "waits e k s s'" "nat (priority (envs s e)) * (unat (starvation_threshold s) + 2) \<le> k"
  shows "priority (envs s' e) = 0 \<and> e \<in> set (env_ready_queues s' ! 0) \<and> (\<exists>s''. tick_age s' = Some s'')"
proof -
  let ?t = "starvation_threshold s"
  have "unat ?t \<noteq> unat (- 1 :: u32)" using assms(4) by (simp add: word_unat_eq_iff [symmetric])
  then have t: "unat ?t + 1 < 2 ^ 32" using unat_u32_less [of ?t] by (simp add: unsigned_minus_1_eq_mask mask_eq_exp_minus_1)
  note inv = waits_invariant [OF assms(5,1-3) t]
  have r: "ready_ok s'" using inv by (simp add: queues_ok_def)
  have p: "0 \<le> priority (envs s' e)" using in_ready_iff [OF r, of e] inv by (simp add: prio_ok_def)
  have "ticks_left ?t (envs s' e) = 0" using inv assms(6) by (simp add: ticks_left_def)
  then have "nat (priority (envs s' e)) * (unat ?t + 2) \<le> unat ?t + 1" by (simp add: ticks_left_def)
  then have "nat (priority (envs s' e)) = 0"
    by (cases "nat (priority (envs s' e))") auto
  then have z: "priority (envs s' e) = 0" using p by simp
  moreover have "e \<in> set (env_ready_queues s' ! 0)" using in_ready_iff [OF r, of e] inv z by simp
  ultimately show ?thesis using tick_age_step [of s' e] inv by blast
qed

theorem ageing_tick_witness:
  "\<exists>s'. age_queues 3 0 (sched_ex SCH_PRIRR [[], [2, 1], [3]]) = Some s' \<and> queues_ok s' \<and> nTicks (envs s' 3) = 1"
  using ageing_tick [OF sched_ex_queues sched_ex_holds, of SCH_PRIRR]
  by (auto simp: in_ready_def aged_def numeral_3_eq_3)

text \<open>Any number of ticks can be waited through, so the bound is reached.\<close>

lemma waits_ticks:
  assumes "queues_ok s" "holds {} s" "in_ready e s"
  shows "\<exists>s'. waits e k s s'"
proof -
  from tick_age_iterate [OF assms(1,2)] have
    r: "\<exists>s'. ((\<lambda>r. r \<bind> tick_age) ^^ n) (Some s) = Some s'" for n by blast
  have "((\<lambda>r. r \<bind> tick_age) ^^ n) (Some s) = Some s' \<Longrightarrow> waits e n s s'" for n s'
  proof (induction n arbitrary: s')
    case 0
    then show ?case by (simp add: waits_start)
  next
    case (Suc n)
    from r [of n] obtain s1 where "((\<lambda>r. r \<bind> tick_age) ^^ n) (Some s) = Some s1" by blast
    with Suc show ?case by (auto intro: waits_tick)
  qed
  with r show ?thesis by blast
qed

theorem ageing_no_starvation_witness:
  "\<exists>s'. waits 3 14 (sched_ex SCH_PRIRR [[], [2, 1], [3]]) s' \<and> priority (envs s' 3) = 0 \<and> 3 \<in> set (env_ready_queues s' ! 0)"
proof -
  let ?s = "sched_ex SCH_PRIRR [[], [2, 1], [3]]"
  have r: "in_ready 3 ?s" by (simp add: in_ready_def)
  from waits_ticks [OF sched_ex_queues sched_ex_holds r] obtain s' where s': "waits 3 14 ?s s'" by blast
  from ageing_no_starvation [OF sched_ex_queues sched_ex_holds r _ s'] s' show ?thesis by auto
qed

end
