(* ===== verification/FOS_Conc.thy ===== *)
theory FOS_Conc
  imports FOS_Ageing
begin

text \<open>
  Blocking synchronisation: channels (\<open>kern/conc/channel.c\<close>), semaphores (\<open>kern/conc/ksemaphore.c\<close>) and
  sleep locks (\<open>kern/conc/sleeplock.c\<close>).  Semaphores and sleep locks are numbered; each has its own channel
  and spin lock.

  \<open>sleep\<close> contains a context switch, so it is the pair \<open>sleep_enter\<close> (up to the switch, with the \<open>intena\<close>
  that \<open>sched\<close> saves) and \<open>sleep_leave\<close> (from the switch back).  An operation that may sleep is its code up to
  the sleep, \<open>Blocked saved\<close>, or to its end, \<open>Done\<close>, and a second function for what it does when it is resumed.
\<close>

datatype chan = KBD_CHAN | TST_CHAN | SEM_CHAN nat | SLK_CHAN nat

record conc_state = sched_state +
  chan_queue :: "chan \<Rightarrow> env_ptr list"
  sem_count :: "nat \<Rightarrow> int"
  slk_locked :: "nat \<Rightarrow> bool"
  slk_pid :: "nat \<Rightarrow> int"

datatype progress = Done | Blocked bool

section \<open>Channels\<close>

definition set_chan :: "chan \<Rightarrow> env_ptr list \<Rightarrow> 'z conc_state_scheme \<Rightarrow> 'z conc_state_scheme" where
  "set_chan c q s = s\<lparr>chan_queue := (chan_queue s)(c := q)\<rparr>"

definition init_channel :: "chan \<Rightarrow> 'z conc_state_scheme \<Rightarrow> 'z conc_state_scheme" where
  "init_channel c s = set_chan c [] s"

definition sleep_enter :: "chan \<Rightarrow> lock_id \<Rightarrow> 'z conc_state_scheme \<Rightarrow> (bool \<times> 'z conc_state_scheme) option" where
  "sleep_enter c lk s = do {
     s1 \<leftarrow> acquire_kspinlock QLOCK s;
     let block = cpu_proc s1;
     s2 \<leftarrow> release_kspinlock lk s1;
     b \<leftarrow> block;
     let s3 = set_status b ENV_BLOCKED s2;
     q \<leftarrow> enqueue_l (Some b) (chan_queue s3 c);
     sched_enter (set_chan c q s3) }"

definition sleep_leave :: "lock_id \<Rightarrow> bool \<Rightarrow> 'z conc_state_scheme \<Rightarrow> 'z conc_state_scheme option" where
  "sleep_leave lk saved s = do {
     let s1 = sched_resume saved s;
     s2 \<leftarrow> acquire_kspinlock lk s1;
     release_kspinlock QLOCK s2 }"

definition wake :: "chan \<Rightarrow> 'z conc_state_scheme \<Rightarrow> 'z conc_state_scheme option" where
  "wake c s = (let (block, q) = dequeue_l (chan_queue s c) in sched_insert_ready block (set_chan c q s))"

definition wakeup_one :: "chan \<Rightarrow> 'z conc_state_scheme \<Rightarrow> 'z conc_state_scheme option" where
  "wakeup_one c s = do {
     s1 \<leftarrow> acquire_kspinlock QLOCK s;
     s2 \<leftarrow> (if length (chan_queue s1 c) > 0 then wake c s1 else Some s1);
     release_kspinlock QLOCK s2 }"

fun wake_n :: "nat \<Rightarrow> chan \<Rightarrow> 'z conc_state_scheme \<Rightarrow> 'z conc_state_scheme option" where
  "wake_n 0 c s = Some s"
| "wake_n (Suc n) c s = do { s1 \<leftarrow> wake c s; wake_n n c s1 }"

definition wakeup_all :: "chan \<Rightarrow> 'z conc_state_scheme \<Rightarrow> 'z conc_state_scheme option" where
  "wakeup_all c s = do {
     s1 \<leftarrow> acquire_kspinlock QLOCK s;
     s2 \<leftarrow> wake_n (length (chan_queue s1 c)) c s1;
     release_kspinlock QLOCK s2 }"

section \<open>Semaphores\<close>

text \<open>The value of a semaphore is an \<open>int\<close> of 32 bits; \<open>wrap32\<close> is its arithmetic.\<close>

definition wrap32 :: "int \<Rightarrow> int" where
  "wrap32 x = sint (word_of_int x :: u32)"

definition init_ksemaphore :: "nat \<Rightarrow> int \<Rightarrow> 'z conc_state_scheme \<Rightarrow> 'z conc_state_scheme" where
  "init_ksemaphore n value s =
     (let s1 = init_channel (SEM_CHAN n) s;
          s2 = init_kspinlock (SEMLOCK n) s1
      in s2\<lparr>sem_count := (sem_count s2)(n := wrap32 value)\<rparr>)"

text \<open>The test of the loop of \<open>wait_ksemaphore\<close>, and what follows it up to a sleep or the end.\<close>

definition wait_test :: "nat \<Rightarrow> 'z conc_state_scheme \<Rightarrow> (progress \<times> 'z conc_state_scheme) option" where
  "wait_test n s =
     (if sem_count s n \<le> 0
      then do { (saved, s1) \<leftarrow> sleep_enter (SEM_CHAN n) (SEMLOCK n) s; Some (Blocked saved, s1) }
      else do {
        let s1 = s\<lparr>sem_count := (sem_count s)(n := sem_count s n - 1)\<rparr>;
        s2 \<leftarrow> release_kspinlock (SEMLOCK n) s1;
        Some (Done, s2) })"

definition wait_ksemaphore :: "nat \<Rightarrow> 'z conc_state_scheme \<Rightarrow> (progress \<times> 'z conc_state_scheme) option" where
  "wait_ksemaphore n s = do {
     s1 \<leftarrow> acquire_kspinlock (SEMLOCK n) s;
     wait_test n s1 }"

definition wait_ksemaphore_resume ::
  "nat \<Rightarrow> bool \<Rightarrow> 'z conc_state_scheme \<Rightarrow> (progress \<times> 'z conc_state_scheme) option" where
  "wait_ksemaphore_resume n saved s = do {
     s1 \<leftarrow> sleep_leave (SEMLOCK n) saved s;
     wait_test n s1 }"

definition signal_ksemaphore :: "nat \<Rightarrow> 'z conc_state_scheme \<Rightarrow> 'z conc_state_scheme option" where
  "signal_ksemaphore n s = do {
     s1 \<leftarrow> acquire_kspinlock (SEMLOCK n) s;
     let s2 = s1\<lparr>sem_count := (sem_count s1)(n := wrap32 (sem_count s1 n + 1))\<rparr>;
     s3 \<leftarrow> (if length (chan_queue s2 (SEM_CHAN n)) > 0 then wakeup_all (SEM_CHAN n) s2 else Some s2);
     release_kspinlock (SEMLOCK n) s3 }"

section \<open>Sleep locks\<close>

definition init_sleeplock :: "nat \<Rightarrow> 'z conc_state_scheme \<Rightarrow> 'z conc_state_scheme" where
  "init_sleeplock n s =
     (let s1 = init_channel (SLK_CHAN n) s;
          s2 = init_kspinlock (SLEEPLK n) s1
      in s2\<lparr>slk_locked := (slk_locked s2)(n := False), slk_pid := (slk_pid s2)(n := 0)\<rparr>)"

definition slk_test :: "nat \<Rightarrow> 'z conc_state_scheme \<Rightarrow> (progress \<times> 'z conc_state_scheme) option" where
  "slk_test n s =
     (if slk_locked s n
      then do { (saved, s1) \<leftarrow> sleep_enter (SLK_CHAN n) (SLEEPLK n) s; Some (Blocked saved, s1) }
      else do {
        let s1 = s\<lparr>slk_locked := (slk_locked s)(n := True)\<rparr>;
        s2 \<leftarrow> release_kspinlock (SLEEPLK n) s1;
        Some (Done, s2) })"

definition acquire_sleeplock :: "nat \<Rightarrow> 'z conc_state_scheme \<Rightarrow> (progress \<times> 'z conc_state_scheme) option" where
  "acquire_sleeplock n s = do {
     s1 \<leftarrow> acquire_kspinlock (SLEEPLK n) s;
     slk_test n s1 }"

definition acquire_sleeplock_resume ::
  "nat \<Rightarrow> bool \<Rightarrow> 'z conc_state_scheme \<Rightarrow> (progress \<times> 'z conc_state_scheme) option" where
  "acquire_sleeplock_resume n saved s = do {
     s1 \<leftarrow> sleep_leave (SLEEPLK n) saved s;
     slk_test n s1 }"

definition release_sleeplock :: "nat \<Rightarrow> 'z conc_state_scheme \<Rightarrow> 'z conc_state_scheme option" where
  "release_sleeplock n s = do {
     s1 \<leftarrow> acquire_kspinlock (SLEEPLK n) s;
     s2 \<leftarrow> (if length (chan_queue s1 (SLK_CHAN n)) > 0 then wakeup_all (SLK_CHAN n) s1 else Some s1);
     let s3 = s2\<lparr>slk_locked := (slk_locked s2)(n := False)\<rparr>;
     release_kspinlock (SLEEPLK n) s3 }"

text \<open>\<open>acquire_sleeplock\<close> does not set \<open>pid\<close>, so this compares the current id with 0.\<close>

definition holding_sleeplock :: "nat \<Rightarrow> 'z conc_state_scheme \<Rightarrow> (bool \<times> 'z conc_state_scheme) option" where
  "holding_sleeplock n s = do {
     s1 \<leftarrow> acquire_kspinlock (SLEEPLK n) s;
     r \<leftarrow> (if slk_locked s1 n then do { p \<leftarrow> cpu_proc s1; Some (slk_pid s1 n = env_id (envs s1 p)) } else Some False);
     s2 \<leftarrow> release_kspinlock (SLEEPLK n) s1;
     Some (r, s2) }"

end
