(* ===== verification/FOS_System.thy ===== *)
theory FOS_System
  imports FOS_Conc
begin

text \<open>
  The kernel as a system of interleaved processes.  A state has the kernel state, what the processor is
  executing (\<open>mode\<close>), and for each process that is not running the point where its kernel code goes on
  (\<open>kcont\<close>, the contents of its kernel stack).

  With one processor, code that runs with interrupts off is not interleaved with anything.  Every spin lock
  turns interrupts off, so the only points where another process or an interrupt gets in are the context
  switches and the points where no spin lock is held; the steps below go from one such point to the next.
\<close>

datatype res = SEM nat | SLK nat

datatype kcont = K_start | K_irq bool | K_res res bool | K_dead

datatype mode = At_prompt | At_outer | At_choice | At_back | Resuming env_ptr | Running env_ptr

text \<open>
  The last four components record the history of each synchronisation object: the processes that have
  acquired a sleep lock and not released it yet, whether a process has ever released it without having acquired it, which
  \<open>release_sleeplock\<close> does not prevent, and how often a semaphore was signalled and passed.
\<close>

record sys =
  st :: conc_state
  mode :: mode
  kcont :: "env_ptr \<Rightarrow> kcont"
  inside :: "nat \<Rightarrow> env_ptr list"
  foreign :: "nat \<Rightarrow> bool"
  signals :: "nat \<Rightarrow> int"
  waits :: "nat \<Rightarrow> int"

section \<open>The operations on both kinds of objects\<close>

definition res_acquire :: "res \<Rightarrow> 'z conc_state_scheme \<Rightarrow> (progress \<times> 'z conc_state_scheme) option" where
  "res_acquire r s = (case r of SEM n \<Rightarrow> wait_ksemaphore n s | SLK n \<Rightarrow> acquire_sleeplock n s)"

definition res_resume :: "res \<Rightarrow> bool \<Rightarrow> 'z conc_state_scheme \<Rightarrow> (progress \<times> 'z conc_state_scheme) option" where
  "res_resume r saved s = (case r of SEM n \<Rightarrow> wait_ksemaphore_resume n saved s | SLK n \<Rightarrow> acquire_sleeplock_resume n saved s)"

definition res_release :: "res \<Rightarrow> 'z conc_state_scheme \<Rightarrow> 'z conc_state_scheme option" where
  "res_release r s = (case r of SEM n \<Rightarrow> signal_ksemaphore n s | SLK n \<Rightarrow> release_sleeplock n s)"

definition note_acquired :: "res \<Rightarrow> env_ptr \<Rightarrow> sys \<Rightarrow> sys" where
  "note_acquired r e y = (case r of
     SEM n \<Rightarrow> y\<lparr>waits := (waits y)(n := waits y n + 1)\<rparr>
   | SLK n \<Rightarrow> y\<lparr>inside := (inside y)(n := e # inside y n)\<rparr>)"

definition note_released :: "res \<Rightarrow> env_ptr \<Rightarrow> sys \<Rightarrow> sys" where
  "note_released r e y = (case r of
     SEM n \<Rightarrow> y\<lparr>signals := (signals y)(n := signals y n + 1)\<rparr>
   | SLK n \<Rightarrow> y\<lparr>inside := (inside y)(n := remove1 e (inside y n)), foreign := (foreign y)(n := foreign y n \<or> e \<notin> set (inside y n))\<rparr>)"

text \<open>\<open>get_into_prompt\<close>: the processor state is reset.\<close>

definition get_into_prompt :: "'z sched_state_scheme \<Rightarrow> 'z sched_state_scheme" where
  "get_into_prompt s = (switchkvm (cli s))\<lparr>ncli := 0, intena := False, scheduler_status := SCH_STOPPED, cpu_proc := None\<rparr>"

text \<open>What a process does when the scheduler has switched to it.\<close>

definition resume :: "kcont \<Rightarrow> 'z conc_state_scheme \<Rightarrow> (progress \<times> 'z conc_state_scheme) option" where
  "resume k s = (case k of
     K_start \<Rightarrow> do { s1 \<leftarrow> env_start s; Some (Done, s1) }
   | K_irq saved \<Rightarrow> do { s1 \<leftarrow> yield_leave saved s; Some (Done, sti s1) }
   | K_res r saved \<Rightarrow> res_resume r saved s
   | K_dead \<Rightarrow> None)"

text \<open>The clock interrupt: the gate turns interrupts off.\<close>

definition clock_irq :: "'z conc_state_scheme \<Rightarrow> (bool option \<times> 'z conc_state_scheme) option" where
  "clock_irq s = clock_interrupt_handler Some (cli s)"

text \<open>
  \<open>prepared e s\<close>: \<open>env_create\<close> has filled in the environment \<open>e\<close>, with an id no other environment has; it is in
  no queue yet.
\<close>

definition sound_env :: "nat \<Rightarrow> env \<Rightarrow> bool" where
  "sound_env nq x \<longleftrightarrow> kstack x \<noteq> 0 \<and> env_page_directory x \<noteq> None \<and> 0 \<le> priority x \<and> priority x < int nq"

definition prepared :: "env_ptr \<Rightarrow> 'z sched_state_scheme \<Rightarrow> bool" where
  "prepared e s \<longleftrightarrow> env_status (envs s e) = ENV_UNKNOWN \<and> e < nenv s \<and> sound_env (num_of_ready_queues s) (envs s e) \<and>
     list_all (\<lambda>i. i = e \<or> env_id (envs s i) \<noteq> env_id (envs s e)) [0..<nenv s]"

section \<open>Steps\<close>

inductive sys_step :: "sys \<Rightarrow> sys \<Rightarrow> bool" where
  prompt_new:
    "\<lbrakk> mode y = At_prompt; prepared e (st y); sched_new_env (Some e) (st y) = Some s \<rbrakk>
     \<Longrightarrow> sys_step y (y\<lparr>st := s, kcont := (kcont y)(e := K_start)\<rparr>)"
| prompt_run_env:
    "\<lbrakk> mode y = At_prompt; sched_run_env i (st y) = Some (Returns, s) \<rbrakk> \<Longrightarrow> sys_step y (y\<lparr>st := s\<rparr>)"
| prompt_run_env_enter:
    "\<lbrakk> mode y = At_prompt; sched_run_env i (st y) = Some (Enter_scheduler, s); fos_scheduler_enter s = Some s' \<rbrakk>
     \<Longrightarrow> sys_step y (y\<lparr>st := s', mode := At_outer\<rparr>)"
| prompt_run_all:
    "\<lbrakk> mode y = At_prompt; sched_run_all (st y) = Some (Enter_scheduler, s); fos_scheduler_enter s = Some s' \<rbrakk>
     \<Longrightarrow> sys_step y (y\<lparr>st := s', mode := At_outer\<rparr>)"
| sched_lock:
    "\<lbrakk> mode y = At_outer; fos_scheduler_lock (st y) = Some s \<rbrakk> \<Longrightarrow> sys_step y (y\<lparr>st := s, mode := At_choice\<rparr>)"
| pick_run:
    "\<lbrakk> mode y = At_choice; fos_scheduler_pick (st y) = Some (Run e, s) \<rbrakk>
     \<Longrightarrow> sys_step y (y\<lparr>st := s, mode := Resuming e\<rparr>)"
| pick_idle:
    "\<lbrakk> mode y = At_choice; fos_scheduler_pick (st y) = Some (Idle_blocked, s) \<rbrakk>
     \<Longrightarrow> sys_step y (y\<lparr>st := s, mode := At_outer\<rparr>)"
| pick_prompt:
    "\<lbrakk> mode y = At_choice; fos_scheduler_pick (st y) = Some (Into_prompt, s) \<rbrakk>
     \<Longrightarrow> sys_step y (y\<lparr>st := get_into_prompt s, mode := At_prompt\<rparr>)"
| switch_back:
    "\<lbrakk> mode y = At_back; fos_scheduler_back (st y) = Some s \<rbrakk> \<Longrightarrow> sys_step y (y\<lparr>st := s, mode := At_choice\<rparr>)"
| resume_done:
    "\<lbrakk> mode y = Resuming e; resume (kcont y e) (st y) = Some (Done, s);
       y' = (case kcont y e of K_res r saved \<Rightarrow> note_acquired r e y | _ \<Rightarrow> y) \<rbrakk>
     \<Longrightarrow> sys_step y (y'\<lparr>st := s, mode := Running e\<rparr>)"
| resume_blocked:
    "\<lbrakk> mode y = Resuming e; kcont y e = K_res r saved; resume (kcont y e) (st y) = Some (Blocked saved', s) \<rbrakk>
     \<Longrightarrow> sys_step y (y\<lparr>st := s, mode := At_back, kcont := (kcont y)(e := K_res r saved')\<rparr>)"
| clock_tick:
    "\<lbrakk> mode y = Running e; eflags_IF (st y); clock_irq (st y) = Some (Some saved, s) \<rbrakk>
     \<Longrightarrow> sys_step y (y\<lparr>st := s, mode := At_back, kcont := (kcont y)(e := K_irq saved)\<rparr>)"
| acquire_done:
    "\<lbrakk> mode y = Running e; res_acquire r (st y) = Some (Done, s) \<rbrakk>
     \<Longrightarrow> sys_step y ((note_acquired r e y)\<lparr>st := s\<rparr>)"
| acquire_blocked:
    "\<lbrakk> mode y = Running e; res_acquire r (st y) = Some (Blocked saved, s) \<rbrakk>
     \<Longrightarrow> sys_step y (y\<lparr>st := s, mode := At_back, kcont := (kcont y)(e := K_res r saved)\<rparr>)"
| release_res:
    "\<lbrakk> mode y = Running e; res_release r (st y) = Some s \<rbrakk>
     \<Longrightarrow> sys_step y ((note_released r e y)\<lparr>st := s\<rparr>)"
| running_exit:
    "\<lbrakk> mode y = Running e; env_exit (st y) = Some (Switch_to_scheduler, s) \<rbrakk>
     \<Longrightarrow> sys_step y (y\<lparr>st := s, mode := At_back, kcont := (kcont y)(e := K_dead)\<rparr>)"
| running_new:
    "\<lbrakk> mode y = Running e; prepared e' (st y); sched_new_env (Some e') (st y) = Some s \<rbrakk>
     \<Longrightarrow> sys_step y (y\<lparr>st := s, kcont := (kcont y)(e' := K_start)\<rparr>)"
| running_run_env:
    "\<lbrakk> mode y = Running e; sched_run_env i (st y) = Some (Returns, s) \<rbrakk> \<Longrightarrow> sys_step y (y\<lparr>st := s\<rparr>)"

inductive sys_reach :: "sys \<Rightarrow> sys \<Rightarrow> bool" where
  sys_start: "sys_reach y y"
| sys_more: "sys_reach y z \<Longrightarrow> sys_step z z' \<Longrightarrow> sys_reach y z'"

end
