(* ===== verification/FOS_SystemInv.thy ===== *)
theory FOS_SystemInv
  imports FOS_System
begin

text \<open>
  The invariant of the system, and that every operation keeps it and does not panic.
\<close>

section \<open>The invariant\<close>

text \<open>Processes on channels are blocked, each on one channel, once.\<close>

definition blocked_ok :: "(chan \<Rightarrow> env_ptr list) \<Rightarrow> (env_ptr \<Rightarrow> env) \<Rightarrow> bool" where
  "blocked_ok ch ev \<longleftrightarrow> (\<forall>c. distinct (ch c)) \<and> (\<forall>c. \<forall>e \<in> set (ch c). env_status (ev e) = ENV_BLOCKED) \<and>
     (\<forall>c c' e. e \<in> set (ch c) \<and> e \<in> set (ch c') \<longrightarrow> c = c')"

definition active :: "env \<Rightarrow> bool" where
  "active x \<longleftrightarrow> env_status x \<noteq> ENV_FREE \<and> env_status x \<noteq> ENV_UNKNOWN"

definition live_ok :: "nat \<Rightarrow> nat \<Rightarrow> (env_ptr \<Rightarrow> env) \<Rightarrow> bool" where
  "live_ok n nq ev \<longleftrightarrow> (\<forall>e. active (ev e) \<longrightarrow> e < n \<and> sound_env nq (ev e))"

definition ids_ok :: "(env_ptr \<Rightarrow> env) \<Rightarrow> bool" where
  "ids_ok ev \<longleftrightarrow> (\<forall>e e'. active (ev e) \<and> active (ev e') \<and> env_id (ev e) = env_id (ev e') \<longrightarrow> e = e')"

text \<open>Every process is where its status says; \<open>p\<close> is the process on the processor.\<close>

definition at_place :: "env_ptr option \<Rightarrow> 'z conc_state_scheme \<Rightarrow> env_ptr \<Rightarrow> bool" where
  "at_place p s e \<longleftrightarrow> (case env_status (envs s e) of
     ENV_NEW \<Rightarrow> e \<in> set (env_new_queue s)
   | ENV_EXIT \<Rightarrow> e \<in> set (env_exit_queue s)
   | ENV_READY \<Rightarrow> in_ready e s \<or> p = Some e
   | ENV_BLOCKED \<Rightarrow> (\<exists>c. e \<in> set (chan_queue s c))
   | ENV_RUNNING \<Rightarrow> p = Some e
   | _ \<Rightarrow> True)"

definition all_placed :: "env_ptr option \<Rightarrow> 'z conc_state_scheme \<Rightarrow> bool" where
  "all_placed p s \<longleftrightarrow> (\<forall>e. at_place p s e)"

lemma all_placedI:
  assumes "all_placed p s"
    "\<And>x. x \<noteq> e \<Longrightarrow> env_status (envs s' x) = env_status (envs s x)"
    "\<And>x. x \<noteq> e \<Longrightarrow> x \<in> set (env_new_queue s) \<Longrightarrow> x \<in> set (env_new_queue s')"
    "\<And>x. x \<noteq> e \<Longrightarrow> x \<in> set (env_exit_queue s) \<Longrightarrow> x \<in> set (env_exit_queue s')"
    "\<And>x. x \<noteq> e \<Longrightarrow> in_ready x s \<Longrightarrow> in_ready x s'"
    "\<And>x c. x \<noteq> e \<Longrightarrow> x \<in> set (chan_queue s c) \<Longrightarrow> x \<in> set (chan_queue s' c)"
    "\<And>x. x \<noteq> e \<Longrightarrow> p = Some x \<Longrightarrow> p' = Some x" "at_place p' s' e"
  shows "all_placed p' s'"
  unfolding all_placed_def
proof
  fix x
  show "at_place p' s' x"
  proof (cases "x = e")
    case True
    with assms(8) show ?thesis by simp
  next
    case False
    have "at_place p s x" using assms(1) by (simp add: all_placed_def)
    then show ?thesis
      using assms(2-7) [OF False] unfolding at_place_def by (cases "env_status (envs s x)") auto
  qed
qed

text \<open>No process waits for an object that is available.\<close>

definition waits_ok :: "(chan \<Rightarrow> env_ptr list) \<Rightarrow> (nat \<Rightarrow> int) \<Rightarrow> (nat \<Rightarrow> bool) \<Rightarrow> bool" where
  "waits_ok ch cnt lkd \<longleftrightarrow> ch KBD_CHAN = [] \<and> (\<forall>n. ch (SEM_CHAN n) \<noteq> [] \<longrightarrow> cnt n \<le> 0) \<and>
     (\<forall>n. ch (SLK_CHAN n) \<noteq> [] \<longrightarrow> lkd n)"

definition conf_ok :: "'z sched_state_scheme \<Rightarrow> bool" where
  "conf_ok s \<longleftrightarrow> quantum_ok s \<and> \<not> buffering_enabled s \<and> 0 < num_of_ready_queues s \<and>
     (scheduler_method s = SCH_PRIRR \<or> scheduler_method s = SCH_RR \<and> num_of_ready_queues s = 1)"

definition sched_inv :: "env_ptr option \<Rightarrow> 'z conc_state_scheme \<Rightarrow> bool" where
  "sched_inv p s \<longleftrightarrow> queues_ok s \<and> blocked_ok (chan_queue s) (envs s) \<and>
     live_ok (nenv s) (num_of_ready_queues s) (envs s) \<and> ids_ok (envs s) \<and> all_placed p s \<and> conf_ok s"

lemma sched_invD:
  assumes "sched_inv p s"
  shows "queues_ok s" "blocked_ok (chan_queue s) (envs s)" "live_ok (nenv s) (num_of_ready_queues s) (envs s)"
    "ids_ok (envs s)" "all_placed p s" "conf_ok s" "ready_ok s"
  using assms by (simp_all add: sched_inv_def queues_ok_def)

lemma sched_inv_cong:
  assumes "env_ready_queues s' = env_ready_queues s" "env_new_queue s' = env_new_queue s"
    "env_exit_queue s' = env_exit_queue s" "num_of_ready_queues s' = num_of_ready_queues s" "envs s' = envs s"
    "chan_queue s' = chan_queue s" "nenv s' = nenv s" "quantums s' = quantums s" "scheduler_method s' = scheduler_method s"
    "buffering_enabled s' = buffering_enabled s"
  shows "sched_inv p s' = sched_inv p s"
  using queues_ok_cong [OF assms(1-5)] assms
  by (simp add: sched_inv_def all_placed_def at_place_def conf_ok_def quantum_ok_def cong: env_status.case_cong)

section \<open>Changes of one process\<close>

lemma blocked_ok_other:
  assumes "blocked_ok ch ev" "env_status (ev e) \<noteq> ENV_BLOCKED"
  shows "blocked_ok ch (ev(e := x))" "e \<notin> set (ch c)"
  using assms unfolding blocked_ok_def by (metis fun_upd_apply)+

lemma blocked_ok_insert:
  assumes "blocked_ok ch ev" "env_status (ev e) \<noteq> ENV_BLOCKED" "env_status x = ENV_BLOCKED"
  shows "blocked_ok (ch(c := e # ch c)) (ev(e := x))"
proof -
  have n: "e \<notin> set (ch c)" for c using blocked_ok_other [OF assms(1,2)] by blast
  have "env_status (ev a) = ENV_BLOCKED" if "a \<in> set (ch c)" for a c using assms(1) that by (auto simp: blocked_ok_def)
  moreover have "c1 = c2" if "a \<in> set (ch c1)" "a \<in> set (ch c2)" for a c1 c2 using assms(1) that unfolding blocked_ok_def by blast
  moreover have "distinct (ch c)" for c using assms(1) by (auto simp: blocked_ok_def)
  ultimately show ?thesis using n assms(3) unfolding blocked_ok_def by (auto split: if_splits)
qed

lemma blocked_ok_remove:
  assumes "blocked_ok ch ev" "e \<in> set (ch c)"
  shows "blocked_ok (ch(c := remove1 e (ch c))) (ev(e := x))" "\<And>c'. e \<notin> set ((ch(c := remove1 e (ch c))) c')"
proof -
  have d: "distinct (ch c)" for c using assms(1) by (auto simp: blocked_ok_def)
  have u: "c1 = c2" if "a \<in> set (ch c1)" "a \<in> set (ch c2)" for a c1 c2 using assms(1) that unfolding blocked_ok_def by blast
  show n: "\<And>c'. e \<notin> set ((ch(c := remove1 e (ch c))) c')" using d u assms(2) by (auto split: if_splits)
  have sub: "a \<in> set (ch c1)" if "a \<in> set ((ch(c := remove1 e (ch c))) c1)" for a c1
    using that set_remove1_subset [of e "ch c"] by (cases "c1 = c") auto
  have "distinct ((ch(c := remove1 e (ch c))) c1)" for c1 using d by simp
  moreover have "env_status ((ev(e := x)) a) = ENV_BLOCKED" if "a \<in> set ((ch(c := remove1 e (ch c))) c1)" for a c1
  proof -
    have "a \<noteq> e" using that n [of c1] by blast
    moreover have "env_status (ev a) = ENV_BLOCKED" using sub [OF that] assms(1) unfolding blocked_ok_def by blast
    ultimately show ?thesis by simp
  qed
  ultimately show "blocked_ok (ch(c := remove1 e (ch c))) (ev(e := x))" using sub u unfolding blocked_ok_def by blast
qed

lemma live_ok_upd:
  assumes "live_ok n nq ev" "e < n" "sound_env nq x"
  shows "live_ok n nq (ev(e := x))"
  using assms by (auto simp: live_ok_def)

lemma ids_ok_upd:
  assumes "ids_ok ev" "active (ev e)" "env_id x = env_id (ev e)"
  shows "ids_ok (ev(e := x))"
proof -
  have i: "env_id ((ev(e := x)) a) = env_id (ev a)" for a using assms(3) by simp
  have a: "active (ev a)" if "active ((ev(e := x)) a)" for a using assms(2) that by (cases "a = e") simp_all
  show ?thesis unfolding ids_ok_def i using assms(1) a unfolding ids_ok_def by blast
qed

lemma active_of_status: "env_status x \<in> {ENV_NEW, ENV_READY, ENV_RUNNING, ENV_BLOCKED, ENV_EXIT} \<Longrightarrow> active x"
  by (auto simp: active_def)

lemma live_okD: "live_ok n nq ev \<Longrightarrow> active (ev e) \<Longrightarrow> e < n \<and> sound_env nq (ev e)"
  by (simp add: live_ok_def)

lemma sound_prio: "sound_env (num_of_ready_queues s) (envs s e) \<Longrightarrow> prio_ok e s"
  by (simp add: sound_env_def prio_ok_def)

section \<open>Selectors\<close>

text \<open>What the lower layers leave alone of the synchronisation objects.\<close>

lemma conc_sel [simp]:
  "chan_queue (entered l s) = chan_queue s" "sem_count (entered l s) = sem_count s" "slk_locked (entered l s) = slk_locked s"
  "chan_queue (left l s) = chan_queue s" "sem_count (left l s) = sem_count s" "slk_locked (left l s) = slk_locked s"
  "chan_queue (set_status e v s) = chan_queue s" "sem_count (set_status e v s) = sem_count s" "slk_locked (set_status e v s) = slk_locked s"
  "chan_queue (envs_upd e f s) = chan_queue s" "sem_count (envs_upd e f s) = sem_count s" "slk_locked (envs_upd e f s) = slk_locked s"
  "chan_queue (rq_set i q s) = chan_queue s" "sem_count (rq_set i q s) = sem_count s" "slk_locked (rq_set i q s) = slk_locked s"
  "chan_queue (reload s) = chan_queue s" "sem_count (reload s) = sem_count s" "slk_locked (reload s) = slk_locked s"
  "chan_queue (kclock_stop s) = chan_queue s" "sem_count (kclock_stop s) = sem_count s" "slk_locked (kclock_stop s) = slk_locked s"
  by (simp_all add: entered_def pushcli_def cli_def Let_def left_def set_status_def envs_upd_def rq_set_def
      reload_def kclock_stop_def irq_set_mask_def)

lemma conc_sel_put [simp]:
  "chan_queue (ready_put e s) = chan_queue s" "sem_count (ready_put e s) = sem_count s" "slk_locked (ready_put e s) = slk_locked s"
  "chan_queue (new_put e s) = chan_queue s" "sem_count (new_put e s) = sem_count s" "slk_locked (new_put e s) = slk_locked s"
  "chan_queue (new_taken e s) = chan_queue s" "sem_count (new_taken e s) = sem_count s" "slk_locked (new_taken e s) = slk_locked s"
  "chan_queue (dispatched e s) = chan_queue s" "sem_count (dispatched e s) = sem_count s" "slk_locked (dispatched e s) = slk_locked s"
  by (simp_all add: ready_put_def new_put_def new_taken_def dispatched_def)
    (simp_all add: set_status_def envs_upd_def lcr3_def tlbflush_def)

lemma set_chan_sel [simp]:
  "env_ready_queues (set_chan c q s) = env_ready_queues s" "env_new_queue (set_chan c q s) = env_new_queue s"
  "env_exit_queue (set_chan c q s) = env_exit_queue s" "num_of_ready_queues (set_chan c q s) = num_of_ready_queues s"
  "klocks (set_chan c q s) = klocks s" "ncli (set_chan c q s) = ncli s" "eflags_IF (set_chan c q s) = eflags_IF s"
  "intena (set_chan c q s) = intena s" "cpu_proc (set_chan c q s) = cpu_proc s" "envs (set_chan c q s) = envs s"
  "nenv (set_chan c q s) = nenv s" "quantums (set_chan c q s) = quantums s" "scheduler_method (set_chan c q s) = scheduler_method s"
  "buffering_enabled (set_chan c q s) = buffering_enabled s" "scheduler_status (set_chan c q s) = scheduler_status s"
  "chan_queue (set_chan c q s) = (chan_queue s)(c := q)" "sem_count (set_chan c q s) = sem_count s"
  "slk_locked (set_chan c q s) = slk_locked s" "starvation_threshold (set_chan c q s) = starvation_threshold s"
  by (simp_all add: set_chan_def)

lemma sched_inv_lock [simp]: "sched_inv p (entered l s) = sched_inv p s" "sched_inv p (left l s) = sched_inv p s"
  by (intro sched_inv_cong; simp)+

lemma in_queue_set_chan [simp]:
  "in_queue e (set_chan c q s) = in_queue e s" "queues_ok (set_chan c q s) = queues_ok s" "prio_ok e (set_chan c q s) = prio_ok e s"
  "in_ready e (set_chan c q s) = in_ready e s"
  by (intro queues_ok_cong; simp)+

section \<open>Moves of one process\<close>

text \<open>A blocked process becomes ready.\<close>

lemma ready_in_ready:
  assumes "queues_ok s" "held QLOCK s" "\<not> in_queue e s" "prio_ok e s"
  shows "in_ready x (ready_put e s) \<longleftrightarrow> x = e \<or> in_ready x s"
proof -
  note r = sched_insert_ready_eq [OF assms]
  have "in_ready e (ready_put e s)"
    using r(3) [of e] queue_statusD [OF r(2), of e] assms(3) by (auto simp: in_queue_def)
  moreover have "in_ready x (ready_put e s) \<longleftrightarrow> in_ready x s" if "x \<noteq> e"
  proof -
    have "in_ready x (ready_put e s) \<longleftrightarrow> in_queue x (ready_put e s) \<and> x \<notin> set (env_new_queue s) \<and> x \<notin> set (env_exit_queue s)"
      using queue_statusD [OF r(2), of x] by (auto simp: in_queue_def)
    also have "\<dots> \<longleftrightarrow> in_ready x s" using r(3) [of x] that queue_statusD [OF assms(1), of x] by (auto simp: in_queue_def)
    finally show ?thesis .
  qed
  ultimately show ?thesis by blast
qed

lemma wake_inv:
  assumes "sched_inv p s" "held QLOCK s" "e \<in> set (chan_queue s c)"
  defines "t \<equiv> set_chan c (remove1 e (chan_queue s c)) s"
  shows "sched_insert_ready (Some e) t = Some (ready_put e t)" "sched_inv p (ready_put e t)"
proof -
  note i = sched_invD [OF assms(1)]
  have b: "env_status (envs s e) = ENV_BLOCKED" using i(2) assms(3) unfolding blocked_ok_def by blast
  have a: "active (envs s e)" using b by (simp add: active_def)
  have so: "e < nenv s" "sound_env (num_of_ready_queues s) (envs s e)" using live_okD [OF i(3) a] by auto
  have q: "queues_ok t" "held QLOCK t" "\<not> in_queue e t" "prio_ok e t"
    using i(1) assms(2) not_in_queue_by_status [OF i(1), of e] b sound_prio [OF so(2)] by (simp_all add: t_def held_def)
  note r = sched_insert_ready_eq [OF q]
  show "sched_insert_ready (Some e) t = Some (ready_put e t)" by (rule r(1))
  let ?x = "(envs s e)\<lparr>nTicks := 0, env_status := ENV_READY\<rparr>"
  have bo: "blocked_ok ((chan_queue s)(c := remove1 e (chan_queue s c))) ((envs s)(e := ?x))"
    by (rule blocked_ok_remove(1) [OF i(2) assms(3)])
  have lo: "live_ok (nenv s) (num_of_ready_queues s) ((envs s)(e := ?x))"
    using so by (intro live_ok_upd [OF i(3)]) (simp_all add: sound_env_def)
  have io: "ids_ok ((envs s)(e := ?x))" by (rule ids_ok_upd [OF i(4) a]) simp
  have ch: "x \<in> set (chan_queue s c') \<Longrightarrow> x \<noteq> e \<Longrightarrow> x \<in> set (((chan_queue s)(c := remove1 e (chan_queue s c))) c')" for x c'
    by (cases "c' = c") auto
  have "all_placed p (ready_put e t)"
    using ch ready_in_ready [OF q] by (intro all_placedI [OF i(5), of e]) (simp_all add: t_def at_place_def)
  then show "sched_inv p (ready_put e t)"
    using r(2) bo lo io i(6) unfolding sched_inv_def by (simp add: t_def conf_ok_def quantum_ok_def)
qed

text \<open>What an operation on the queues leaves alone.\<close>

definition same_objects :: "'z conc_state_scheme \<Rightarrow> 'z conc_state_scheme \<Rightarrow> bool" where
  "same_objects s s' \<longleftrightarrow> cpu_proc s' = cpu_proc s \<and> scheduler_status s' = scheduler_status s \<and>
     sem_count s' = sem_count s \<and> slk_locked s' = slk_locked s \<and>
     (\<forall>x. env_status (envs s x) \<noteq> ENV_BLOCKED \<longrightarrow> env_status (envs s' x) = env_status (envs s x)) \<and>
     (\<forall>x. env_status (envs s' x) = env_status (envs s x) \<or> env_status (envs s x) = ENV_BLOCKED \<and> env_status (envs s' x) = ENV_READY)"

lemma same_objects_refl: "same_objects s s"
  by (simp add: same_objects_def)

lemma same_objects_trans: "same_objects s t \<Longrightarrow> same_objects t u \<Longrightarrow> same_objects s u"
  unfolding same_objects_def by (metis env_status.distinct)

definition same_locks :: "'z cpu_state_scheme \<Rightarrow> 'z cpu_state_scheme \<Rightarrow> bool" where
  "same_locks s s' \<longleftrightarrow> klocks s' = klocks s \<and> ncli s' = ncli s \<and> eflags_IF s' = eflags_IF s \<and> intena s' = intena s"

lemma wake_eq:
  assumes "sched_inv p s" "held QLOCK s" "chan_queue s c \<noteq> []"
  shows "\<exists>s'. wake c s = Some s' \<and> sched_inv p s' \<and> chan_queue s' = (chan_queue s)(c := butlast (chan_queue s c)) \<and>
    same_objects s s' \<and> same_locks s s'"
proof -
  let ?e = "last (chan_queue s c)"
  let ?t = "set_chan c (remove1 ?e (chan_queue s c)) s"
  have e: "?e \<in> set (chan_queue s c)" using assms(3) by simp
  have d: "distinct (butlast (chan_queue s c) @ [?e])" using sched_invD(2) [OF assms(1)] assms(3) by (simp add: blocked_ok_def)
  then have r: "remove1 ?e (chan_queue s c) = butlast (chan_queue s c)"
    using assms(3) by (metis append_butlast_last_id append_Nil2 distinct_append not_distinct_conv_prefix remove1_append remove1.simps list.set_intros(1) disjoint_insert(1) list.simps(15))
  note w = wake_inv [OF assms(1,2) e]
  have b: "env_status (envs s ?e) = ENV_BLOCKED" using sched_invD(2) [OF assms(1)] e unfolding blocked_ok_def by blast
  have "wake c s = Some (ready_put ?e ?t)" using w(1) assms(3) r by (simp add: wake_def dequeue_l_def)
  then show ?thesis using w(2) r b by (intro exI [of _ "ready_put ?e ?t"]) (simp add: same_objects_def same_locks_def)
qed

lemma wake_n_eq:
  assumes "sched_inv p s" "held QLOCK s" "n = length (chan_queue s c)"
  shows "\<exists>s'. wake_n n c s = Some s' \<and> sched_inv p s' \<and> chan_queue s' = (chan_queue s)(c := []) \<and>
    same_objects s s' \<and> same_locks s s'"
  using assms
proof (induction n arbitrary: s)
  case 0
  then have "(chan_queue s)(c := []) = chan_queue s" by (simp add: fun_eq_iff)
  then show ?case using "0.prems" by (simp add: same_objects_refl same_locks_def)
next
  case (Suc n)
  then have "chan_queue s c \<noteq> []" by auto
  from wake_eq [OF Suc.prems(1,2) this] obtain s1 where
    s1: "wake c s = Some s1" "sched_inv p s1" "chan_queue s1 = (chan_queue s)(c := butlast (chan_queue s c))"
      "same_objects s s1" "same_locks s s1" by blast
  have "\<exists>s'. wake_n n c s1 = Some s' \<and> sched_inv p s' \<and> chan_queue s' = (chan_queue s1)(c := []) \<and>
    same_objects s1 s' \<and> same_locks s1 s'"
    using s1 Suc.prems by (intro Suc.IH) (auto simp: same_locks_def held_def)
  then obtain s2 where "wake_n n c s1 = Some s2" "sched_inv p s2" "chan_queue s2 = (chan_queue s1)(c := [])"
    "same_objects s1 s2" "same_locks s1 s2" by blast
  then show ?case using s1 same_objects_trans [of s s1 s2] by (intro exI [of _ s2]) (simp add: same_locks_def)
qed

lemma same_objects_lock: "same_objects s (entered l s)" "same_objects s (left l s)"
  by (simp_all add: same_objects_def)

lemma same_locks_holds: "same_locks s s' \<Longrightarrow> holds L s' = holds L s"
  by (rule holds_cong) (simp_all add: same_locks_def)

lemma wakeup_all_eq:
  assumes "sched_inv p s" "holds L s" "QLOCK \<notin> L"
  shows "\<exists>s'. wakeup_all c s = Some s' \<and> sched_inv p s' \<and> chan_queue s' = (chan_queue s)(c := []) \<and>
    same_objects s s' \<and> holds L s' \<and> (L \<noteq> {} \<longrightarrow> intena s' = intena s)"
proof -
  note a = acquire_holds [OF assms(2,3)]
  have q: "held QLOCK (entered QLOCK s)" "sched_inv p (entered QLOCK s)" using assms(1) by simp_all
  from wake_n_eq [OF q(2,1) refl, of c] obtain s2 where
    s2: "wake_n (length (chan_queue s c)) c (entered QLOCK s) = Some s2" "sched_inv p s2"
      "chan_queue s2 = (chan_queue s)(c := [])" "same_objects (entered QLOCK s) s2" "same_locks (entered QLOCK s) s2" by auto
  have h2: "holds (insert QLOCK L) s2" using same_locks_holds [OF s2(5)] a(2) by simp
  note r = release_holds [OF h2, of QLOCK]
  have "holds L (left QLOCK s2)" using r(2) assms(3) by simp
  moreover have "wakeup_all c s = Some (left QLOCK s2)" using a(1) s2(1) r(1) by (simp add: wakeup_all_def)
  moreover have "same_objects s (left QLOCK s2)"
    using same_objects_trans [OF same_objects_lock(1) same_objects_trans [OF s2(4) same_objects_lock(2)]] .
  moreover have "intena s2 = intena s" if "L \<noteq> {}"
  proof -
    have "0 < ncli s" using assms(2) that card_gt_0_iff [of L] by (auto simp: holds_def)
    then show ?thesis using s2(5) by (simp add: same_locks_def)
  qed
  ultimately show ?thesis using s2(2,3) by (intro exI [of _ "left QLOCK s2"]) simp
qed

text \<open>The running process goes to sleep.\<close>

lemma sleep_enter_eq:
  assumes "sched_inv (Some e) s" "holds {lk} s" "lk \<noteq> QLOCK" "cpu_proc s = Some e" "env_status (envs s e) = ENV_RUNNING"
  shows "\<exists>s'. sleep_enter c lk s = Some (intena s, s') \<and> sched_inv (Some e) s' \<and> holds {QLOCK} s' \<and>
    chan_queue s' = (chan_queue s)(c := e # chan_queue s c) \<and> cpu_proc s' = Some e \<and>
    envs s' = (envs s)(e := (envs s e)\<lparr>env_status := ENV_BLOCKED\<rparr>) \<and>
    sem_count s' = sem_count s \<and> slk_locked s' = slk_locked s \<and> scheduler_status s' = scheduler_status s"
proof -
  note i = sched_invD [OF assms(1)]
  have l: "QLOCK \<notin> {lk}" using assms(3) by auto
  note a = acquire_holds [OF assms(2) l]
  have "lk \<in> insert QLOCK {lk}" by simp
  note r = release_holds [OF a(2) this]
  have h: "holds {QLOCK} (left lk (entered QLOCK s))" using r(2) assms(3) by (simp add: insert_Diff_if)
  have en: "e \<notin> set (chan_queue s c)" using blocked_ok_other(2) [OF i(2)] assms(5) by simp
  let ?s3 = "set_status e ENV_BLOCKED (left lk (entered QLOCK s))"
  let ?s4 = "set_chan c (e # chan_queue s c) ?s3"
  have h4: "holds {QLOCK} ?s4" using h by (subst holds_cong [of _ "left lk (entered QLOCK s)"]) simp_all
  have nc: "ncli s = 1" using holds_basic(4) [OF assms(2)] by simp
  have b4: "held QLOCK ?s4" "ncli ?s4 = 1" "\<not> eflags_IF ?s4"
    using holds_basic(3) [OF h4, of QLOCK] holds_basic(4) [OF h4] holds_basic(1) [OF h4] by (simp_all add: cpu_ok_def)
  have "sleep_enter c lk s = Some (intena s, ?s4)"
    using a(1) r(1) assms(4) en b4 nc
    by (simp add: sleep_enter_def enqueue_l_def insert_l_def sched_enter_def bind_assert_that held_def)
  moreover have "sched_inv (Some e) ?s4"
  proof -
    let ?x = "(envs s e)\<lparr>env_status := ENV_BLOCKED\<rparr>"
    have a: "active (envs s e)" using assms(5) by (simp add: active_def)
    have so: "e < nenv s" "sound_env (num_of_ready_queues s) (envs s e)" using live_okD [OF i(3) a] by auto
    have nq: "\<not> in_queue e s" using not_in_queue_by_status [OF i(1), of e] assms(5) by simp
    have "queues_ok ?s4" using queues_ok_upd_env(1) [of "left lk (entered QLOCK s)" e] i(1) nq by (simp add: set_status_def)
    moreover have "blocked_ok ((chan_queue s)(c := e # chan_queue s c)) ((envs s)(e := ?x))"
      using assms(5) by (intro blocked_ok_insert [OF i(2)]) simp_all
    moreover have "live_ok (nenv s) (num_of_ready_queues s) ((envs s)(e := ?x))"
      using so by (intro live_ok_upd [OF i(3)]) (simp_all add: sound_env_def)
    moreover have "ids_ok ((envs s)(e := ?x))" by (rule ids_ok_upd [OF i(4) a]) simp
    moreover have "all_placed (Some e) ?s4"
      by (rule all_placedI [OF i(5), of e]) (auto simp: at_place_def in_ready_def)
    ultimately show ?thesis using i(6) unfolding sched_inv_def by (simp add: conf_ok_def quantum_ok_def)
  qed
  ultimately show ?thesis using h4 assms(4) by (intro exI [of _ ?s4]) simp
qed

lemma sleep_leave_eq:
  assumes "sched_inv p s" "holds {QLOCK} s" "lk \<noteq> QLOCK"
  shows "\<exists>s'. sleep_leave lk saved s = Some s' \<and> sched_inv p s' \<and> holds {lk} s' \<and> intena s' = saved \<and>
    chan_queue s' = chan_queue s \<and> cpu_proc s' = cpu_proc s \<and> envs s' = envs s \<and>
    sem_count s' = sem_count s \<and> slk_locked s' = slk_locked s \<and> scheduler_status s' = scheduler_status s"
proof -
  let ?s1 = "s\<lparr>intena := saved\<rparr>"
  have h1: "holds {QLOCK} ?s1" using assms(2) by (subst holds_cong [of _ s]) simp_all
  have i1: "sched_inv p ?s1" using assms(1) by (subst sched_inv_cong [of _ s]) simp_all
  have l: "lk \<notin> {QLOCK}" using assms(3) by auto
  note a = acquire_holds [OF h1 l]
  have "QLOCK \<in> insert lk {QLOCK}" by simp
  note r = release_holds [OF a(2) this]
  have "holds {lk} (left QLOCK (entered lk ?s1))" using r(2) assms(3) by (simp add: insert_Diff_if)
  moreover have "ncli s = 1" using holds_basic(4) [OF assms(2)] by simp
  ultimately show ?thesis
    using a(1) r(1) i1 by (intro exI [of _ "left QLOCK (entered lk ?s1)"]) (simp add: sleep_leave_def sched_resume_def)
qed

end
