(* ===== verification/FOS_Resource.thy ===== *)
theory FOS_Resource
  imports FOS_SystemInv
begin

text \<open>
  The contract that semaphores and sleep locks share: an object with a spin lock, a channel and a test of
  availability; a process that finds it unavailable sleeps on the channel, and giving it back wakes all
  sleepers.  The locale \<open>blocking_object\<close> states the shape of the operations; its lemmas are proved once, and
  the interpretations \<open>sem\<close> and \<open>slk\<close> give them for every semaphore and every sleep lock.
\<close>

text \<open>An update of the counts and flags of the objects.\<close>

definition upd_obj ::
  "((nat \<Rightarrow> int) \<Rightarrow> nat \<Rightarrow> int) \<Rightarrow> ((nat \<Rightarrow> bool) \<Rightarrow> nat \<Rightarrow> bool) \<Rightarrow> 'z conc_state_scheme \<Rightarrow> 'z conc_state_scheme" where
  "upd_obj fc fl s = s\<lparr>sem_count := fc (sem_count s), slk_locked := fl (slk_locked s)\<rparr>"

lemma upd_obj_sel [simp]:
  "env_ready_queues (upd_obj fc fl s) = env_ready_queues s" "env_new_queue (upd_obj fc fl s) = env_new_queue s"
  "env_exit_queue (upd_obj fc fl s) = env_exit_queue s" "num_of_ready_queues (upd_obj fc fl s) = num_of_ready_queues s"
  "klocks (upd_obj fc fl s) = klocks s" "ncli (upd_obj fc fl s) = ncli s" "eflags_IF (upd_obj fc fl s) = eflags_IF s"
  "intena (upd_obj fc fl s) = intena s" "cpu_proc (upd_obj fc fl s) = cpu_proc s" "envs (upd_obj fc fl s) = envs s"
  "nenv (upd_obj fc fl s) = nenv s" "quantums (upd_obj fc fl s) = quantums s"
  "scheduler_method (upd_obj fc fl s) = scheduler_method s" "buffering_enabled (upd_obj fc fl s) = buffering_enabled s"
  "scheduler_status (upd_obj fc fl s) = scheduler_status s" "chan_queue (upd_obj fc fl s) = chan_queue s"
  "sem_count (upd_obj fc fl s) = fc (sem_count s)" "slk_locked (upd_obj fc fl s) = fl (slk_locked s)"
  by (simp_all add: upd_obj_def)

lemma upd_obj_simps:
  "upd_obj id id s = s" "\<And>fc s. s\<lparr>sem_count := fc (sem_count s)\<rparr> = upd_obj fc id s"
  "\<And>fl s. s\<lparr>slk_locked := fl (slk_locked s)\<rparr> = upd_obj id fl s"
  by (simp_all add: upd_obj_def)

lemma sched_inv_upd_obj [simp]: "sched_inv p (upd_obj fc fl s) = sched_inv p s"
  by (intro sched_inv_cong) simp_all

lemma holds_upd_obj [simp]: "holds L (upd_obj fc fl s) = holds L s"
  by (rule holds_cong) simp_all

text \<open>\<open>running e s\<close>: the process \<open>e\<close> is on the processor, outside every critical section.\<close>

definition running :: "env_ptr \<Rightarrow> 'z conc_state_scheme \<Rightarrow> bool" where
  "running e s \<longleftrightarrow> sched_inv (Some e) s \<and> holds {} s \<and> cpu_proc s = Some e \<and> env_status (envs s e) = ENV_RUNNING"

text \<open>\<open>asleep e c s\<close>: the process \<open>e\<close> has just gone to sleep on \<open>c\<close>, and the scheduler is about to go on.\<close>

definition asleep :: "env_ptr \<Rightarrow> chan \<Rightarrow> 'z conc_state_scheme \<Rightarrow> bool" where
  "asleep e c s \<longleftrightarrow> sched_inv (Some e) s \<and> holds {QLOCK} s \<and> cpu_proc s = Some e \<and> e \<in> set (chan_queue s c)"

text \<open>The two outcomes of an attempt to take an object: the process has it, or it sleeps.\<close>

definition got ::
  "env_ptr \<Rightarrow> bool \<Rightarrow> ((nat \<Rightarrow> int) \<Rightarrow> nat \<Rightarrow> int) \<Rightarrow> ((nat \<Rightarrow> bool) \<Rightarrow> nat \<Rightarrow> bool) \<Rightarrow>
   'z conc_state_scheme \<Rightarrow> 'z conc_state_scheme \<Rightarrow> bool" where
  "got e ien fc fl s s' \<longleftrightarrow> running e s' \<and> eflags_IF s' = ien \<and> chan_queue s' = chan_queue s \<and> envs s' = envs s \<and>
     scheduler_status s' = scheduler_status s \<and> sem_count s' = fc (sem_count s) \<and> slk_locked s' = fl (slk_locked s)"

definition slept :: "env_ptr \<Rightarrow> chan \<Rightarrow> 'z conc_state_scheme \<Rightarrow> 'z conc_state_scheme \<Rightarrow> bool" where
  "slept e c s s' \<longleftrightarrow> asleep e c s' \<and> chan_queue s' = (chan_queue s)(c := e # chan_queue s c) \<and>
     scheduler_status s' = scheduler_status s \<and> envs s' = (envs s)(e := (envs s e)\<lparr>env_status := ENV_BLOCKED\<rparr>) \<and>
     sem_count s' = sem_count s \<and> slk_locked s' = slk_locked s"

locale blocking_object =
  fixes lk :: lock_id and c :: chan
    and avail :: "(nat \<Rightarrow> int) \<Rightarrow> (nat \<Rightarrow> bool) \<Rightarrow> bool"
    and tc pc qc :: "(nat \<Rightarrow> int) \<Rightarrow> nat \<Rightarrow> int"
    and tl pl ql :: "(nat \<Rightarrow> bool) \<Rightarrow> nat \<Rightarrow> bool"
    and acq :: "'z conc_state_scheme \<Rightarrow> (progress \<times> 'z conc_state_scheme) option"
    and res :: "bool \<Rightarrow> 'z conc_state_scheme \<Rightarrow> (progress \<times> 'z conc_state_scheme) option"
    and try_it :: "'z conc_state_scheme \<Rightarrow> (progress \<times> 'z conc_state_scheme) option"
    and give :: "'z conc_state_scheme \<Rightarrow> 'z conc_state_scheme option"
  assumes own_lock: "lk \<noteq> QLOCK"
    and acq_eq: "acq s = acquire_kspinlock lk s \<bind> try_it"
    and res_eq: "res saved s = sleep_leave lk saved s \<bind> try_it"
    and try_eq: "try_it s =
      (if avail (sem_count s) (slk_locked s)
       then do { s1 \<leftarrow> release_kspinlock lk (upd_obj tc tl s); Some (Done, s1) }
       else do { (saved, s1) \<leftarrow> sleep_enter c lk s; Some (Blocked saved, s1) })"
    and give_eq: "give s = do {
      s1 \<leftarrow> acquire_kspinlock lk s;
      s2 \<leftarrow> (if length (chan_queue s1 c) > 0 then wakeup_all c (upd_obj pc pl s1) else Some (upd_obj pc pl s1));
      release_kspinlock lk (upd_obj qc ql s2) }"
begin

lemma try_it_cases:
  assumes "sched_inv (Some e) s" "holds {lk} s" "cpu_proc s = Some e" "env_status (envs s e) = ENV_RUNNING"
  shows "if avail (sem_count s) (slk_locked s)
    then \<exists>s'. try_it s = Some (Done, s') \<and> got e (intena s) tc tl s s'
    else \<exists>s'. try_it s = Some (Blocked (intena s), s') \<and> slept e c s s'"
proof (cases "avail (sem_count s) (slk_locked s)")
  case True
  have h: "holds {lk} (upd_obj tc tl s)" using assms(2) by simp
  note r = release_holds [OF h, of lk]
  have "ncli s = 1" using holds_basic(4) [OF assms(2)] by simp
  then show ?thesis
    using True r assms by (simp add: try_eq got_def running_def)
next
  case False
  from sleep_enter_eq [OF assms(1,2) own_lock assms(3,4), of c] obtain s' where
    s': "sleep_enter c lk s = Some (intena s, s')" "sched_inv (Some e) s'" "holds {QLOCK} s'"
      "chan_queue s' = (chan_queue s)(c := e # chan_queue s c)" "cpu_proc s' = Some e"
      "envs s' = (envs s)(e := (envs s e)\<lparr>env_status := ENV_BLOCKED\<rparr>)"
      "sem_count s' = sem_count s" "slk_locked s' = slk_locked s" "scheduler_status s' = scheduler_status s" by blast
  then show ?thesis using False by (simp add: try_eq slept_def asleep_def)
qed

lemma acquire_cases:
  assumes "running e s"
  shows "if avail (sem_count s) (slk_locked s)
    then \<exists>s'. acq s = Some (Done, s') \<and> got e (eflags_IF s) tc tl s s'
    else \<exists>s'. acq s = Some (Blocked (eflags_IF s), s') \<and> slept e c s s'"
proof -
  have h: "holds {} s" and n: "ncli s = 0" using assms holds_basic(4) [of "{}" s] by (auto simp: running_def)
  note a = acquire_holds [OF h, of lk]
  have "holds {lk} (entered lk s)" "sched_inv (Some e) (entered lk s)" "cpu_proc (entered lk s) = Some e"
    "env_status (envs (entered lk s) e) = ENV_RUNNING" using a(2) assms by (simp_all add: running_def)
  from try_it_cases [OF this(2,1,3,4)] show ?thesis using a(1) n by (simp add: acq_eq got_def slept_def split: if_splits)
qed

lemma resume_cases:
  assumes "sched_inv (Some e) s" "holds {QLOCK} s" "cpu_proc s = Some e" "env_status (envs s e) = ENV_RUNNING"
  shows "if avail (sem_count s) (slk_locked s)
    then \<exists>s'. res saved s = Some (Done, s') \<and> got e saved tc tl s s'
    else \<exists>s'. res saved s = Some (Blocked saved, s') \<and> slept e c s s'"
proof -
  from sleep_leave_eq [OF assms(1,2) own_lock, of saved] obtain t where
    t: "sleep_leave lk saved s = Some t" "sched_inv (Some e) t" "holds {lk} t" "intena t = saved"
      "chan_queue t = chan_queue s" "cpu_proc t = cpu_proc s" "envs t = envs s"
      "sem_count t = sem_count s" "slk_locked t = slk_locked s" "scheduler_status t = scheduler_status s" by blast
  from try_it_cases [OF t(2,3)] t assms(3,4) show ?thesis by (simp add: res_eq got_def slept_def split: if_splits)
qed

lemma give_ok:
  assumes "running e s"
  shows "\<exists>s'. give s = Some s' \<and> running e s' \<and> eflags_IF s' = eflags_IF s \<and> chan_queue s' = (chan_queue s)(c := []) \<and>
    scheduler_status s' = scheduler_status s \<and> sem_count s' = qc (pc (sem_count s)) \<and> slk_locked s' = ql (pl (slk_locked s)) \<and>
    (\<forall>x. env_status (envs s' x) = env_status (envs s x) \<or>
      env_status (envs s x) = ENV_BLOCKED \<and> env_status (envs s' x) = ENV_READY)"
proof -
  have r: "sched_inv (Some e) s" "holds {} s" "cpu_proc s = Some e" "env_status (envs s e) = ENV_RUNNING" "ncli s = 0"
    using assms holds_basic(4) [of "{}" s] by (auto simp: running_def)
  note a = acquire_holds [OF r(2), of lk]
  let ?s1 = "upd_obj pc pl (entered lk s)"
  have i1: "sched_inv (Some e) ?s1" "holds {lk} ?s1" using r(1) a(2) by simp_all
  have "\<exists>s2. (if length (chan_queue (entered lk s) c) > 0 then wakeup_all c ?s1 else Some ?s1) = Some s2 \<and>
    sched_inv (Some e) s2 \<and> chan_queue s2 = (chan_queue s)(c := []) \<and> same_objects ?s1 s2 \<and> holds {lk} s2 \<and> intena s2 = intena ?s1"
  proof (cases "length (chan_queue (entered lk s) c) > 0")
    case True
    then show ?thesis using wakeup_all_eq [OF i1, of c] own_lock by auto
  next
    case False
    then have "(chan_queue s)(c := []) = chan_queue s" by (simp add: fun_eq_iff)
    then show ?thesis using False i1 by (simp add: same_objects_refl)
  qed
  then obtain s2 where
    s2: "(if length (chan_queue (entered lk s) c) > 0 then wakeup_all c ?s1 else Some ?s1) = Some s2"
      "sched_inv (Some e) s2" "chan_queue s2 = (chan_queue s)(c := [])" "same_objects ?s1 s2" "holds {lk} s2"
      "intena s2 = intena ?s1" by blast
  have h3: "holds {lk} (upd_obj qc ql s2)" using s2(5) by simp
  note l = release_holds [OF h3, of lk]
  have "ncli s2 = 1" using holds_basic(4) [OF s2(5)] by simp
  then show ?thesis
    using a(1) s2 l r by (simp add: give_eq running_def same_objects_def)
qed

end

section \<open>Semaphores and sleep locks\<close>

interpretation sem: blocking_object "SEMLOCK n" "SEM_CHAN n" "\<lambda>cnt lkd. 0 < cnt n"
  "\<lambda>cnt. cnt(n := cnt n - 1)" "\<lambda>cnt. cnt(n := wrap32 (cnt n + 1))" id id id id
  "wait_ksemaphore n" "wait_ksemaphore_resume n" "wait_test n" "signal_ksemaphore n" for n
proof
  fix s :: "'a conc_state_scheme"
  show "wait_test n s = (if 0 < sem_count s n
      then do { s1 \<leftarrow> release_kspinlock (SEMLOCK n) (upd_obj (\<lambda>cnt. cnt(n := cnt n - 1)) id s); Some (Done, s1) }
      else do { (saved, s1) \<leftarrow> sleep_enter (SEM_CHAN n) (SEMLOCK n) s; Some (Blocked saved, s1) })"
    using upd_obj_simps(2) [of "\<lambda>cnt. cnt(n := cnt n - 1)" s] by (simp add: wait_test_def not_le)
qed (simp_all add: wait_ksemaphore_def wait_ksemaphore_resume_def signal_ksemaphore_def Let_def upd_obj_def cong: if_cong)

interpretation slk: blocking_object "SLEEPLK n" "SLK_CHAN n" "\<lambda>cnt lkd. \<not> lkd n"
  id id id "\<lambda>lkd. lkd(n := True)" id "\<lambda>lkd. lkd(n := False)"
  "acquire_sleeplock n" "acquire_sleeplock_resume n" "slk_test n" "release_sleeplock n" for n
proof
  fix s :: "'a conc_state_scheme"
  show "slk_test n s = (if \<not> slk_locked s n
      then do { s1 \<leftarrow> release_kspinlock (SLEEPLK n) (upd_obj id (\<lambda>lkd. lkd(n := True)) s); Some (Done, s1) }
      else do { (saved, s1) \<leftarrow> sleep_enter (SLK_CHAN n) (SLEEPLK n) s; Some (Blocked saved, s1) })"
    using upd_obj_simps(3) [of "\<lambda>lkd. lkd(n := True)" s] by (simp add: slk_test_def)
qed (simp_all add: acquire_sleeplock_def acquire_sleeplock_resume_def release_sleeplock_def Let_def upd_obj_def cong: if_cong)

end
