(* ===== verification/FOS_SystemOps.thy ===== *)
theory FOS_SystemOps
  imports FOS_Resource
begin

text \<open>
  The remaining operations of the system, on states that satisfy the invariant: creating and starting
  processes, the sections of the scheduler, the clock interrupt and exit.  Each lemma shows that the
  operation does not panic and what it leads to.
\<close>

section \<open>New processes\<close>

lemma sched_new_env_ok:
  assumes "sched_inv p s" "holds {} s" "prepared e s"
  defines "s' \<equiv> left QLOCK (new_put e (entered QLOCK s))"
  shows "sched_new_env (Some e) s = Some s'" "sched_inv p s'" "holds {} s'"
proof -
  note i = sched_invD [OF assms(1)]
  note a = acquire_holds [OF assms(2), of QLOCK]
  have pr: "env_status (envs s e) = ENV_UNKNOWN" "e < nenv s" "sound_env (num_of_ready_queues s) (envs s e)"
    "\<And>x. x < nenv s \<Longrightarrow> x = e \<or> env_id (envs s x) \<noteq> env_id (envs s e)"
    using assms(3) by (auto simp: prepared_def list_all_iff)
  have nq: "\<not> in_queue e (entered QLOCK s)" using not_in_queue_by_status [OF i(1), of e] pr(1) by simp
  note n = sched_insert_new_eq [of "entered QLOCK s" e, OF _ _ nq]
  have n1: "sched_insert_new (Some e) (entered QLOCK s) = Some (new_put e (entered QLOCK s))"
    "queues_ok (new_put e (entered QLOCK s))" using n i(1) by simp_all
  have h: "holds {QLOCK} (new_put e (entered QLOCK s))" using a(2) by (subst holds_cong [of _ "entered QLOCK s"]) simp_all
  note r = release_holds [OF h, of QLOCK]
  show "sched_new_env (Some e) s = Some s'" using a(1) n1(1) r(1) by (simp add: sched_new_env_def s'_def)
  show "holds {} s'" using r(2) by (simp add: s'_def)
  let ?x = "(envs s e)\<lparr>env_status := ENV_NEW\<rparr>"
  have "blocked_ok (chan_queue s) ((envs s)(e := ?x))" using blocked_ok_other(1) [OF i(2), of e] pr(1) by simp
  moreover have "live_ok (nenv s) (num_of_ready_queues s) ((envs s)(e := ?x))"
    using pr by (intro live_ok_upd [OF i(3)]) (simp_all add: sound_env_def)
  moreover have "ids_ok ((envs s)(e := ?x))"
  proof -
    have o: "x = e \<or> env_id (envs s x) \<noteq> env_id (envs s e)" if "active (envs s x)" for x
      using pr(4) live_okD [OF i(3) that] by blast
    have "x = y" if "active (((envs s)(e := ?x)) x)" "active (((envs s)(e := ?x)) y)"
      "env_id (((envs s)(e := ?x)) x) = env_id (((envs s)(e := ?x)) y)" for x y
      using that o [of x] o [of y] i(4) unfolding ids_ok_def by (cases "x = e"; cases "y = e") auto
    then show ?thesis unfolding ids_ok_def by blast
  qed
  moreover have "all_placed p (new_put e (entered QLOCK s))"
    by (rule all_placedI [OF i(5), of e]) (auto simp: at_place_def in_ready_def)
  ultimately have "sched_inv p (new_put e (entered QLOCK s))"
    using n1(2) i(6) by (simp add: sched_inv_def conf_ok_def quantum_ok_def)
  then show "sched_inv p s'" by (simp add: s'_def)
qed

text \<open>A new process becomes ready; \<open>t\<close> is the state in which it has left the new queue.\<close>

lemma new_to_ready:
  assumes "sched_inv p s" "held QLOCK s" "e \<in> set (env_new_queue s)"
    and t: "env_ready_queues t = env_ready_queues s" "env_new_queue t = remove1 e (env_new_queue s)"
      "env_exit_queue t = env_exit_queue s" "num_of_ready_queues t = num_of_ready_queues s"
      "envs t = (envs s)(e := (envs s e)\<lparr>env_status := v\<rparr>)" "chan_queue t = chan_queue s" "nenv t = nenv s"
      "quantums t = quantums s" "scheduler_method t = scheduler_method s" "buffering_enabled t = buffering_enabled s"
      "klocks t = klocks s" "v \<in> {ENV_NEW, ENV_UNKNOWN}"
  shows "sched_insert_ready (Some e) t = Some (ready_put e t)" "sched_inv p (ready_put e t)"
proof -
  note i = sched_invD [OF assms(1)]
  have st: "env_status (envs s e) = ENV_NEW" using queue_statusD(1) [OF i(1) assms(3)] .
  have a: "active (envs s e)" using st by (simp add: active_def)
  have so: "e < nenv s" "sound_env (num_of_ready_queues s) (envs s e)" using live_okD [OF i(3) a] by auto
  have d: "distinct (env_new_queue s)" using i(1) by (simp add: queues_ok_def new_ok_def)
  have nr: "\<not> in_ready e s" "e \<notin> set (env_exit_queue s)" using queue_statusD [OF i(1), of e] st by auto
  let ?u = "s\<lparr>env_new_queue := remove1 e (env_new_queue s)\<rparr>"
  note u = queues_ok_remove_new [OF i(1) assms(3)]
  have u2: "queues_ok (envs_upd e (\<lambda>x. x\<lparr>env_status := v\<rparr>) ?u)" "\<not> in_queue e (envs_upd e (\<lambda>x. x\<lparr>env_status := v\<rparr>) ?u)"
    using queues_ok_upd_env [OF u] u(2) by blast+
  have c: "queues_ok t" "\<not> in_queue e t"
    using u2 queues_ok_cong [of t "envs_upd e (\<lambda>x. x\<lparr>env_status := v\<rparr>) ?u"] t by simp_all
  have p: "prio_ok e t" using sound_prio [OF so(2)] t by (simp add: prio_ok_def)
  have hl: "held QLOCK t" using assms(2) t by (simp add: held_def)
  note r = sched_insert_ready_eq [OF c(1) hl c(2) p]
  show "sched_insert_ready (Some e) t = Some (ready_put e t)" by (rule r(1))
  let ?x = "(envs t e)\<lparr>nTicks := 0, env_status := ENV_READY\<rparr>"
  have ev: "envs (ready_put e t) = (envs s)(e := ?x)" using t by simp
  have "blocked_ok (chan_queue s) ((envs s)(e := ?x))" using blocked_ok_other(1) [OF i(2), of e] st by simp
  moreover have "live_ok (nenv s) (num_of_ready_queues s) ((envs s)(e := ?x))"
    using so t by (intro live_ok_upd [OF i(3)]) (simp_all add: sound_env_def)
  moreover have "ids_ok ((envs s)(e := ?x))" using t by (intro ids_ok_upd [OF i(4) a]) simp
  moreover have "all_placed p (ready_put e t)"
  proof (rule all_placedI [OF i(5), of e])
    show "in_ready x (ready_put e t)" if "x \<noteq> e" "in_ready x s" for x
      using ready_in_ready [OF c(1) hl c(2) p, of x] that t(1) by (simp add: in_ready_def)
    show "at_place p (ready_put e t) e"
      using ready_in_ready [OF c(1) hl c(2) p, of e] by (simp add: at_place_def)
  qed (use t in auto)
  ultimately show "sched_inv p (ready_put e t)"
    using r(2) ev t i(6) unfolding sched_inv_def by (simp add: conf_ok_def quantum_ok_def)
qed

lemma sched_run_env_ok:
  assumes "sched_inv p s" "holds {} s"
  shows "\<exists>s' found. sched_run_env i s = Some (if found \<and> scheduler_status s = SCH_STOPPED then Enter_scheduler else Returns, s') \<and>
    sched_inv p s' \<and> holds {} s' \<and> eflags_IF s' = eflags_IF s \<and> cpu_proc s' = cpu_proc s \<and> scheduler_status s' = scheduler_status s \<and>
    chan_queue s' = chan_queue s \<and> sem_count s' = sem_count s \<and> slk_locked s' = slk_locked s \<and>
    (\<forall>x. env_status (envs s' x) = env_status (envs s x) \<or>
      env_status (envs s x) = ENV_NEW \<and> env_status (envs s' x) = ENV_READY)"
proof -
  let ?s1 = "entered QLOCK s"
  note a = acquire_holds [OF assms(2), of QLOCK]
  have n0: "ncli s = 0" using holds_basic(4) [OF assms(2)] by simp
  have i1: "sched_inv p ?s1" "held QLOCK ?s1" using assms(1) by simp_all
  show ?thesis
  proof (cases "find_env_l (\<lambda>p. env_id (envs ?s1 p)) i (env_new_queue ?s1)")
    case None
    note r = release_holds [OF a(2), of QLOCK]
    have "sched_run_env i s = Some (Returns, left QLOCK ?s1)"
      using a(1) r(1) None by (simp add: sched_run_env_def)
    then show ?thesis using r(2) assms(1) n0
      by (intro exI [of _ "left QLOCK ?s1"] exI [of _ False]) simp
  next
    case (Some e)
    have e: "e \<in> set (env_new_queue ?s1)" using find_env_l_Some [OF Some] by simp
    let ?t = "new_taken e ?s1" and ?s3 = "ready_put e (new_taken e ?s1)"
    note m = sched_remove_new_eq [OF sched_invD(1) [OF i1(1)] i1(2) e]
    have w: "sched_insert_ready (Some e) ?t = Some ?s3" "sched_inv p ?s3"
      using new_to_ready [OF i1 e, of ?t ENV_UNKNOWN] by simp_all
    have h3: "holds {QLOCK} ?s3" using a(2) by (subst holds_cong [of _ ?s1]) simp_all
    note r = release_holds [OF h3, of QLOCK]
    have st: "env_status (envs s e) = ENV_NEW" using queue_statusD(1) [OF sched_invD(1) [OF i1(1)] e] by simp
    have "sched_run_env i s = Some (if scheduler_status s = SCH_STOPPED then Enter_scheduler else Returns, left QLOCK ?s3)"
      using a(1) Some m(1) w(1) r(1) by (simp add: sched_run_env_def)
    then show ?thesis using r(2) w(2) n0 st
      by (intro exI [of _ "left QLOCK ?s3"] exI [of _ True]) simp
  qed
qed

lemma move_new_to_ready_ok:
  assumes "sched_inv p s" "held QLOCK s" "n = length (env_new_queue s)"
  shows "\<exists>s'. move_new_to_ready n s = Some s' \<and> sched_inv p s' \<and> same_locks s s' \<and> cpu_proc s' = cpu_proc s \<and>
    scheduler_status s' = scheduler_status s \<and> env_new_queue s' = [] \<and>
    chan_queue s' = chan_queue s \<and> sem_count s' = sem_count s \<and> slk_locked s' = slk_locked s \<and>
    (\<forall>x. env_status (envs s' x) = env_status (envs s x) \<or>
      env_status (envs s x) = ENV_NEW \<and> env_status (envs s' x) = ENV_READY)"
  using assms
proof (induction n arbitrary: s)
  case 0
  then show ?case by (simp add: same_locks_def)
next
  case (Suc n)
  let ?e = "last (env_new_queue s)" and ?q = "butlast (env_new_queue s)"
  have ne: "env_new_queue s \<noteq> []" using Suc.prems(3) by auto
  then have e: "?e \<in> set (env_new_queue s)" by simp
  note i = sched_invD [OF Suc.prems(1)]
  have st: "env_status (envs s ?e) = ENV_NEW" using queue_statusD(1) [OF i(1) e] .
  have "distinct (?q @ [?e])" using i(1) ne by (simp add: queues_ok_def new_ok_def)
  then have "remove1 ?e (?q @ [?e]) = ?q" by (simp add: remove1_append)
  then have rm: "remove1 ?e (env_new_queue s) = ?q" using ne by simp
  let ?t = "s\<lparr>env_new_queue := ?q\<rparr>"
  have "(envs s ?e)\<lparr>env_status := ENV_NEW\<rparr> = envs s ?e" using st by (cases "envs s ?e") simp
  then have ev: "envs s = (envs s)(?e := (envs s ?e)\<lparr>env_status := ENV_NEW\<rparr>)" by simp
  have w: "sched_insert_ready (Some ?e) ?t = Some (ready_put ?e ?t)" "sched_inv p (ready_put ?e ?t)"
    using new_to_ready [OF Suc.prems(1,2) e, of ?t ENV_NEW] rm ev by simp_all
  have "\<exists>s'. move_new_to_ready n (ready_put ?e ?t) = Some s' \<and> sched_inv p s' \<and> same_locks (ready_put ?e ?t) s' \<and>
    cpu_proc s' = cpu_proc (ready_put ?e ?t) \<and> scheduler_status s' = scheduler_status (ready_put ?e ?t) \<and> env_new_queue s' = [] \<and>
    chan_queue s' = chan_queue (ready_put ?e ?t) \<and> sem_count s' = sem_count (ready_put ?e ?t) \<and>
    slk_locked s' = slk_locked (ready_put ?e ?t) \<and>
    (\<forall>x. env_status (envs s' x) = env_status (envs (ready_put ?e ?t) x) \<or>
      env_status (envs (ready_put ?e ?t) x) = ENV_NEW \<and> env_status (envs s' x) = ENV_READY)"
    using Suc.prems(2,3) w(2) ne by (intro Suc.IH) (simp_all add: held_def)
  then obtain s' where
    s': "move_new_to_ready n (ready_put ?e ?t) = Some s'" "sched_inv p s'" "same_locks (ready_put ?e ?t) s'"
      "cpu_proc s' = cpu_proc s" "scheduler_status s' = scheduler_status s" "env_new_queue s' = []"
      "chan_queue s' = chan_queue s" "sem_count s' = sem_count s" "slk_locked s' = slk_locked s"
      "\<And>x. env_status (envs s' x) = env_status (envs (ready_put ?e ?t) x) \<or>
        env_status (envs (ready_put ?e ?t) x) = ENV_NEW \<and> env_status (envs s' x) = ENV_READY" by auto
  have "env_status (envs s' x) = env_status (envs s x) \<or>
      env_status (envs s x) = ENV_NEW \<and> env_status (envs s' x) = ENV_READY" for x
    using s'(10) [of x] st by (cases "x = ?e") auto
  then show ?case using s'(1-9) w(1) ne by (simp add: dequeue_l_def same_locks_def)
qed

lemma sched_run_all_ok:
  assumes "sched_inv p s" "holds {} s" "scheduler_status s = SCH_STOPPED"
  shows "\<exists>s'. sched_run_all s = Some (Enter_scheduler, s') \<and>
    sched_inv p s' \<and> holds {} s' \<and> eflags_IF s' = eflags_IF s \<and> cpu_proc s' = cpu_proc s \<and> scheduler_status s' = scheduler_status s \<and>
    chan_queue s' = chan_queue s \<and> sem_count s' = sem_count s \<and> slk_locked s' = slk_locked s \<and>
    (\<forall>x. env_status (envs s' x) = env_status (envs s x) \<or>
      env_status (envs s x) = ENV_NEW \<and> env_status (envs s' x) = ENV_READY)"
proof -
  let ?s1 = "entered QLOCK s"
  note a = acquire_holds [OF assms(2), of QLOCK]
  have n0: "ncli s = 0" using holds_basic(4) [OF assms(2)] by simp
  have i1: "sched_inv p ?s1" "held QLOCK ?s1" using assms(1) by simp_all
  from move_new_to_ready_ok [OF i1 refl] obtain s2 where
    s2: "move_new_to_ready (length (env_new_queue ?s1)) ?s1 = Some s2" "sched_inv p s2" "same_locks ?s1 s2"
      "cpu_proc s2 = cpu_proc s" "scheduler_status s2 = scheduler_status s"
      "chan_queue s2 = chan_queue s" "sem_count s2 = sem_count s" "slk_locked s2 = slk_locked s"
      "\<And>x. env_status (envs s2 x) = env_status (envs s x) \<or>
        env_status (envs s x) = ENV_NEW \<and> env_status (envs s2 x) = ENV_READY" by auto
  have h2: "holds {QLOCK} s2" using same_locks_holds [OF s2(3)] a(2) by simp
  note r = release_holds [OF h2, of QLOCK]
  have "sched_run_all s = Some (Enter_scheduler, left QLOCK s2)"
    using a(1) s2(1,5) r(1) assms(3) by (simp add: sched_run_all_def)
  then show ?thesis using s2 r(2) n0 by (intro exI [of _ "left QLOCK s2"]) (simp add: same_locks_def)
qed

section \<open>The scheduler\<close>

lemma holds_in_qlock: "holds {QLOCK} s \<Longrightarrow> in_qlock s"
  using holds_basic(1,2) [of "{QLOCK}" s] holds_basic(3,5) [of "{QLOCK}" s QLOCK] by (simp add: in_qlock_def)

text \<open>With one level, priority round robin is round robin.\<close>

lemma RR_is_PRIRR:
  assumes "queues_ok s" "cur_ok s" "num_of_ready_queues s = 1"
  shows "fos_scheduler_RR s = fos_scheduler_PRIRR s"
proof -
  have lvl: "(0::int) = priority (envs s e)" if "cpu_proc s = Some e" for e
    using assms(2,3) that by (auto simp: cur_ok_def prio_ok_def)
  note q0 = enqueue_cur_eq [OF assms(1,2), of "\<lambda>_. 0", OF lvl]
  note q = enqueue_cur_eq [OF assms(1,2), of "\<lambda>e. priority (envs s e)", OF refl]
  have r: "ready_ok (requeued s)" using q(2) by (simp add: queues_ok_def)
  obtain l where l: "env_ready_queues (requeued s) = [l]"
    using ready_ok_length [OF r] assms(3) by (cases "env_ready_queues (requeued s)") auto
  have g: "rq_get 0 (requeued s) = Some l" using l by (simp add: rq_get_def)
  have "rq_set 0 [] (requeued s) = requeued s" if "l = []" using l that by (simp add: rq_set_def)
  then show ?thesis
    using q0(1) q(1) g assms(3)
    by (cases "held QLOCK s") (simp_all add: fos_scheduler_RR_def fos_scheduler_PRIRR_def dequeue_l_def)
qed

lemma sched_next_cases:
  assumes "sched_inv p s" "holds {QLOCK} s" "cur_ok s"
  shows "(\<forall>m. \<not> runnable m s) \<and> sched_next s = Some (None, reload (requeued s)) \<or>
    (\<exists>n u. sched_next s = Some (Some n, reload u) \<and> chosen s n u)"
proof -
  note i = sched_invD [OF assms(1)]
  have "sched_next s = fos_scheduler_PRIRR s"
    using i(6) RR_is_PRIRR [OF i(1) assms(3)] by (auto simp: sched_next_def conf_ok_def)
  then show ?thesis
    using fos_scheduler_PRIRR_cases [OF holds_in_qlock [OF assms(2)] i(1) assms(3)] i(6) by (simp add: conf_ok_def)
qed

lemma chosen_inv:
  assumes "sched_inv (cpu_proc s) s" "cur_ok s" "chosen s n u"
  shows "sched_inv (Some n) (dispatched n (reload u))" "env_status (envs s n) = ENV_READY"
    "sound_env (num_of_ready_queues s) (envs s n)"
proof -
  note i = sched_invD [OF assms(1)]
  from assms(3) obtain j where u: "u = rq_set (int j) (remove1 n (env_ready_queues (requeued s) ! j)) (requeued s)"
    "queues_ok u" "\<not> in_queue n u" "runnable n s" "\<And>m. in_ready m u \<longleftrightarrow> runnable m s \<and> n \<noteq> m"
    by (auto simp: chosen_def)
  show st: "env_status (envs s n) = ENV_READY"
    using u(4) assms(2) queue_statusD(3) [OF i(1)] by (auto simp: runnable_def cur_ok_def)
  have a: "active (envs s n)" using st by (simp add: active_def)
  have so: "n < nenv s" "sound_env (num_of_ready_queues s) (envs s n)" using live_okD [OF i(3) a] by auto
  show "sound_env (num_of_ready_queues s) (envs s n)" by (rule so(2))
  let ?x = "(envs s n)\<lparr>env_status := ENV_RUNNING\<rparr>" and ?d = "dispatched n (reload u)"
  have ev: "envs ?d = (envs s)(n := ?x)" "chan_queue ?d = chan_queue s" "nenv ?d = nenv s"
    "num_of_ready_queues ?d = num_of_ready_queues s" "env_new_queue ?d = env_new_queue s" "env_exit_queue ?d = env_exit_queue s"
    "quantums ?d = quantums s" "scheduler_method ?d = scheduler_method s" "buffering_enabled ?d = buffering_enabled s"
    by (simp_all add: u(1)) (auto simp: requeued_def split: option.splits)
  have ir: "in_ready m ?d \<longleftrightarrow> in_ready m u" for m by (simp add: in_ready_def)
  have "queues_ok ?d"
  proof -
    have "queues_ok (envs_upd n (\<lambda>x. x\<lparr>env_status := ENV_RUNNING\<rparr>) u)" by (rule queues_ok_upd_env(1) [OF u(2,3)])
    then show ?thesis by (subst queues_ok_cong(1) [of _ "envs_upd n (\<lambda>x. x\<lparr>env_status := ENV_RUNNING\<rparr>) u"]) simp_all
  qed
  moreover have "blocked_ok (chan_queue s) ((envs s)(n := ?x))" using blocked_ok_other(1) [OF i(2), of n] st by simp
  moreover have "live_ok (nenv s) (num_of_ready_queues s) ((envs s)(n := ?x))"
    using so by (intro live_ok_upd [OF i(3)]) (simp_all add: sound_env_def)
  moreover have "ids_ok ((envs s)(n := ?x))" by (rule ids_ok_upd [OF i(4) a]) simp
  moreover have "all_placed (Some n) ?d"
    unfolding all_placed_def
  proof
    fix x
    show "at_place (Some n) ?d x"
    proof (cases "x = n")
      case True
      then show ?thesis by (simp add: at_place_def)
    next
      case False
      have "at_place (cpu_proc s) s x" using i(5) by (simp add: all_placed_def)
      moreover have "in_ready x ?d" if "in_ready x s \<or> cpu_proc s = Some x"
        using u(5) [of x] ir [of x] that False by (auto simp: runnable_def)
      moreover have "cpu_proc s \<noteq> Some x" if "env_status (envs s x) = ENV_RUNNING" using assms(2) that by (auto simp: cur_ok_def)
      ultimately show ?thesis
        using False unfolding at_place_def ev(1,2,5,6) by (cases "env_status (envs s x)") auto
    qed
  qed
  ultimately show "sched_inv (Some n) ?d"
    using i(6) unfolding sched_inv_def conf_ok_def quantum_ok_def ev by simp
qed

text \<open>The synchronisation objects, and the state of the scheduler loop, as an operation of the scheduler keeps them.\<close>

definition same_sync :: "'z conc_state_scheme \<Rightarrow> 'z conc_state_scheme \<Rightarrow> bool" where
  "same_sync s s' \<longleftrightarrow> chan_queue s' = chan_queue s \<and> sem_count s' = sem_count s \<and> slk_locked s' = slk_locked s \<and>
     scheduler_status s' = scheduler_status s"

lemma fos_scheduler_pick_ok:
  assumes "sched_inv (cpu_proc s) s" "holds {QLOCK} s" "cur_ok s"
  shows "(\<exists>e s'. fos_scheduler_pick s = Some (Run e, s') \<and> sched_inv (Some e) s' \<and> holds {QLOCK} s' \<and> cpu_proc s' = Some e \<and>
      env_status (envs s e) = ENV_READY \<and> envs s' = (envs s)(e := (envs s e)\<lparr>env_status := ENV_RUNNING\<rparr>) \<and> same_sync s s') \<or>
    (\<exists>r s'. fos_scheduler_pick s = Some (r, s') \<and> r = (if is_any_blocked s then Idle_blocked else Into_prompt) \<and>
      sched_inv None s' \<and> holds {} s' \<and> cpu_proc s' = None \<and> envs s' = envs s \<and> same_sync s s' \<and> (\<forall>m. \<not> runnable m s))"
proof -
  from sched_next_cases [OF assms] consider
    "\<forall>m. \<not> runnable m s" "sched_next s = Some (None, reload (requeued s))"
  | n u where "sched_next s = Some (Some n, reload u)" "chosen s n u" by blast
  then show ?thesis
  proof cases
    case 1
    have c: "cpu_proc s = None" using 1(1) by (cases "cpu_proc s") (auto simp: runnable_def)
    then have q: "requeued s = s" by (simp add: requeued_def)
    have h: "holds {QLOCK} (reload s)" using assms(2) by (subst holds_cong [of _ s]) simp_all
    have i: "sched_inv None (reload s)" using assms(1) c by (subst sched_inv_cong [of _ s]) simp_all
    note r = release_holds [OF h, of QLOCK]
    have "fos_scheduler_pick s = Some (if is_any_blocked s then Idle_blocked else Into_prompt, left QLOCK (reload s))"
      using 1(2) q r(1) by (simp add: fos_scheduler_pick_def is_any_blocked_def Let_def)
    then show ?thesis using r(2) i c 1(1) by (intro disjI2) (simp add: same_sync_def)
  next
    case 2
    note ch = chosen_inv [OF assms(1,3) 2(2)]
    obtain j where u: "u = rq_set (int j) (remove1 n (env_ready_queues (requeued s) ! j)) (requeued s)"
      using 2(2) by (auto simp: chosen_def)
    have ev: "envs (reload u) = envs s" by (simp add: u)
    have h: "holds {QLOCK} (reload u)" using assms(2) by (subst holds_cong [of _ s]) (simp_all add: u)
    have "fos_scheduler_pick s = Some (Run n, dispatched n (reload u))"
      using 2(1) holds_basic(1) [OF h] holds_basic(5) [OF h, of QLOCK] ch(3) ev
      by (intro fos_scheduler_pick_Run) (simp_all add: sound_env_def)
    moreover have "holds {QLOCK} (dispatched n (reload u))" using h by (subst holds_cong [of _ "reload u"]) simp_all
    moreover have "same_sync s (dispatched n (reload u))"
      by (simp add: same_sync_def u) (auto simp: requeued_def split: option.splits)
    ultimately show ?thesis using ch ev by (intro disjI1) simp
  qed
qed

text \<open>
  \<open>gave_up e s\<close>: the process \<open>e\<close> has just switched to the scheduler, ready (and in no queue), asleep on a
  channel, or in the exit queue.
\<close>

definition gave_up :: "env_ptr \<Rightarrow> 'z conc_state_scheme \<Rightarrow> bool" where
  "gave_up e s \<longleftrightarrow> sched_inv (Some e) s \<and> holds {QLOCK} s \<and> cpu_proc s = Some e \<and>
     (env_status (envs s e) = ENV_READY \<and> \<not> in_queue e s \<or> env_status (envs s e) = ENV_BLOCKED \<or> env_status (envs s e) = ENV_EXIT)"

lemma switchkvm_sel [simp]:
  "env_ready_queues (switchkvm s) = env_ready_queues s" "env_new_queue (switchkvm s) = env_new_queue s"
  "env_exit_queue (switchkvm s) = env_exit_queue s" "num_of_ready_queues (switchkvm s) = num_of_ready_queues s"
  "klocks (switchkvm s) = klocks s" "ncli (switchkvm s) = ncli s" "eflags_IF (switchkvm s) = eflags_IF s"
  "intena (switchkvm s) = intena s" "cpu_proc (switchkvm s) = cpu_proc s" "envs (switchkvm s) = envs s"
  "nenv (switchkvm s) = nenv s" "quantums (switchkvm s) = quantums s" "scheduler_method (switchkvm s) = scheduler_method s"
  "buffering_enabled (switchkvm s) = buffering_enabled s" "scheduler_status (switchkvm s) = scheduler_status s"
  "chan_queue (switchkvm s) = chan_queue s" "sem_count (switchkvm s) = sem_count s" "slk_locked (switchkvm s) = slk_locked s"
  by (simp_all add: switchkvm_def lcr3_def tlbflush_def)

lemma all_placed_None:
  assumes "all_placed (Some e) s" "env_status (envs s e) \<notin> {ENV_READY, ENV_RUNNING}"
    "env_ready_queues s' = env_ready_queues s" "env_new_queue s' = env_new_queue s" "env_exit_queue s' = env_exit_queue s"
    "envs s' = envs s" "chan_queue s' = chan_queue s"
  shows "all_placed None s'"
  unfolding all_placed_def
proof
  fix x
  have "at_place (Some e) s x" using assms(1) by (simp add: all_placed_def)
  then show "at_place None s' x"
    using assms(2-) unfolding at_place_def in_ready_def by (cases "env_status (envs s x)") auto
qed

lemma fos_scheduler_back_ok:
  assumes "gave_up e s"
  shows "\<exists>s'. fos_scheduler_back s = Some s' \<and> sched_inv (cpu_proc s') s' \<and> holds {QLOCK} s' \<and> cur_ok s' \<and>
    envs s' = envs s \<and> same_sync s s'"
proof -
  have g: "sched_inv (Some e) s" "holds {QLOCK} s" "cpu_proc s = Some e" using assms by (simp_all add: gave_up_def)
  note i = sched_invD [OF g(1)]
  have b: "held QLOCK s" "cpu_ok s" "0 < ncli s"
    using holds_basic(3,5) [OF g(2), of QLOCK] holds_basic(1) [OF g(2)] by simp_all
  show ?thesis
  proof (cases "env_status (envs s e) = ENV_READY")
    case True
    have nq: "\<not> in_queue e s" using assms True by (auto simp: gave_up_def)
    have so: "prio_ok e s" using live_okD [OF i(3), of e] True sound_prio [of s e] by (simp add: active_def)
    have c: "cur_ok (kclock_stop s)"
      using True nq so g(3) queues_ok_cong(2,3) [of "kclock_stop s" s e] by (simp add: cur_ok_def)
    have "sched_inv (Some e) (kclock_stop s)" using g(1) by (subst sched_inv_cong [of _ s]) simp_all
    moreover have "holds {QLOCK} (kclock_stop s)" using g(2) by (subst holds_cong [of _ s]) simp_all
    ultimately show ?thesis
      using fos_scheduler_back_ready [OF b(1) g(3) True] c g(3) by (simp add: same_sync_def)
  next
    case False
    then have st: "env_status (envs s e) \<notin> {ENV_READY, ENV_RUNNING}" using assms by (auto simp: gave_up_def)
    let ?t = "switchkvm (kclock_stop s)"
    have t: "cpu_ok ?t" "0 < ncli ?t" using b by (simp_all add: cpu_ok_def)
    let ?s' = "?t\<lparr>cpu_proc := None\<rparr>"
    have "fos_scheduler_back s = Some ?s'"
      using b(1) g(3) st set_cpu_proc_nested [OF t, of None] by (simp add: fos_scheduler_back_def)
    moreover have "all_placed None ?s'" by (rule all_placed_None [OF i(5) st]) simp_all
    moreover have "queues_ok ?s'" using i(1) by (subst queues_ok_cong(1) [of _ s]) simp_all
    moreover have "holds {QLOCK} ?s'" using g(2) by (subst holds_cong [of _ s]) simp_all
    ultimately show ?thesis
      using i unfolding sched_inv_def by (intro exI [of _ ?s']) (simp add: cur_ok_def same_sync_def conf_ok_def quantum_ok_def)
  qed
qed

section \<open>The clock interrupt\<close>

lemma more_sel:
  assumes "sched_state.more s' = sched_state.more s"
  shows "chan_queue s' = chan_queue s" "sem_count s' = sem_count s" "slk_locked s' = slk_locked s"
  using assms by (cases s; cases s'; simp)+

text \<open>Changes of the records that keep status, id and soundness.\<close>

lemma sched_inv_envs:
  assumes "sched_inv p s" "queues_ok s'" "\<And>x. in_ready x s' = in_ready x s"
    "env_new_queue s' = env_new_queue s" "env_exit_queue s' = env_exit_queue s" "chan_queue s' = chan_queue s"
    "nenv s' = nenv s" "num_of_ready_queues s' = num_of_ready_queues s" "quantums s' = quantums s"
    "scheduler_method s' = scheduler_method s" "buffering_enabled s' = buffering_enabled s"
    and ev: "\<And>x. env_status (envs s' x) = env_status (envs s x)" "\<And>x. env_id (envs s' x) = env_id (envs s x)"
      "\<And>x. sound_env (num_of_ready_queues s) (envs s x) \<Longrightarrow> sound_env (num_of_ready_queues s) (envs s' x)"
  shows "sched_inv p s'"
proof -
  note i = sched_invD [OF assms(1)]
  have a: "active (envs s' x) = active (envs s x)" for x by (simp add: active_def ev)
  have "blocked_ok (chan_queue s') (envs s')" using i(2) unfolding blocked_ok_def assms(6) ev .
  moreover have "live_ok (nenv s') (num_of_ready_queues s') (envs s')"
    using i(3) ev(3) unfolding live_ok_def assms(7,8) a by blast
  moreover have "ids_ok (envs s')" using i(4) unfolding ids_ok_def a ev .
  moreover have "all_placed p s'" using i(5) unfolding all_placed_def at_place_def ev assms(3-6) .
  ultimately show ?thesis using assms(2,8-11) i(6) by (simp add: sched_inv_def conf_ok_def quantum_ok_def)
qed

lemma sound_aged: "sound_env n x \<Longrightarrow> sound_env n (aged thr x)"
  by (auto simp: sound_env_def aged_def)

lemma aged_inv:
  assumes "sched_inv p s" "aged_state A s s'"
  shows "sched_inv p s'"
proof -
  have m: "sched_state.more s' = sched_state.more s" using assms(2) by (simp add: aged_state_def same_rest_def)
  have f: "queues_ok s'" "\<And>x. in_ready x s' = in_ready x s" "env_new_queue s' = env_new_queue s"
    "env_exit_queue s' = env_exit_queue s" "nenv s' = nenv s" "num_of_ready_queues s' = num_of_ready_queues s"
    "quantums s' = quantums s" "scheduler_method s' = scheduler_method s" "buffering_enabled s' = buffering_enabled s"
    "\<And>x. envs s' x = (if x \<in> A then aged (starvation_threshold s) (envs s x) else envs s x)"
    using assms(2) by (simp_all add: aged_state_def same_rest_def)
  have "env_id (aged thr x) = env_id x" for thr x by (simp add: aged_def)
  then show ?thesis using f more_sel(1) [OF m] sound_aged by (intro sched_inv_envs [OF assms(1)]) simp_all
qed

lemma sched_inv_status:
  assumes "sched_inv p s" "env_status (envs s e) = ENV_RUNNING"
  shows "queues_ok (set_status e v s)" "blocked_ok (chan_queue s) (envs (set_status e v s))"
    "live_ok (nenv s) (num_of_ready_queues s) (envs (set_status e v s))" "ids_ok (envs (set_status e v s))"
    "\<not> in_queue e (set_status e v s)"
proof -
  note i = sched_invD [OF assms(1)]
  have a: "active (envs s e)" using assms(2) by (simp add: active_def)
  have so: "e < nenv s" "sound_env (num_of_ready_queues s) (envs s e)" using live_okD [OF i(3) a] by auto
  have nq: "\<not> in_queue e s" using not_in_queue_by_status [OF i(1), of e] assms(2) by simp
  show "queues_ok (set_status e v s)" "\<not> in_queue e (set_status e v s)"
    using queues_ok_upd_env [OF i(1) nq] nq by (simp_all add: set_status_def)
  show "blocked_ok (chan_queue s) (envs (set_status e v s))" using blocked_ok_other(1) [OF i(2), of e] assms(2) by simp
  show "live_ok (nenv s) (num_of_ready_queues s) (envs (set_status e v s))"
    using live_ok_upd [OF i(3) so(1), of "(envs s e)\<lparr>env_status := v\<rparr>"] so(2) by (simp add: sound_env_def)
  show "ids_ok (envs (set_status e v s))" using ids_ok_upd [OF i(4) a, of "(envs s e)\<lparr>env_status := v\<rparr>"] by simp
qed

lemma yield_gives_up:
  assumes "running e s"
  shows "yield_enter s = Some (eflags_IF s, set_status e ENV_READY (entered QLOCK s))"
    "gave_up e (set_status e ENV_READY (entered QLOCK s))"
proof -
  have r: "sched_inv (Some e) s" "holds {} s" "cpu_proc s = Some e" "env_status (envs s e) = ENV_RUNNING"
    using assms by (auto simp: running_def)
  let ?u = "entered QLOCK s"
  show "yield_enter s = Some (eflags_IF s, set_status e ENV_READY ?u)" by (rule yield_enter_eq [OF r(2,3)])
  have h: "holds {QLOCK} (set_status e ENV_READY ?u)"
    using acquire_holds(2) [OF r(2), of QLOCK] by (subst holds_cong [of _ ?u]) simp_all
  have i: "sched_inv (Some e) ?u" using r(1) by simp
  note v = sched_inv_status [OF i, of e ENV_READY]
  have "all_placed (Some e) (set_status e ENV_READY ?u)"
    by (rule all_placedI [OF sched_invD(5) [OF i], of e]) (simp_all add: at_place_def in_ready_def)
  then have "sched_inv (Some e) (set_status e ENV_READY ?u)"
    using v r(4) sched_invD(6) [OF r(1)] by (simp add: sched_inv_def conf_ok_def quantum_ok_def)
  then show "gave_up e (set_status e ENV_READY ?u)" using h v(5) r(3,4) by (simp add: gave_up_def)
qed

lemma clock_irq_ok:
  assumes "running e s"
  shows "\<exists>saved s'. clock_irq s = Some (Some saved, s') \<and> gave_up e s' \<and> same_sync s s' \<and>
    (\<forall>x. env_status (envs s' x) = (if x = e then ENV_READY else env_status (envs s x)))"
proof -
  have r: "sched_inv (Some e) s" "holds {} s" "cpu_proc s = Some e" "env_status (envs s e) = ENV_RUNNING"
    using assms by (auto simp: running_def)
  let ?t = "cli s"
  have ht: "holds {} ?t" using r(2) by (simp add: holds_def cpu_ok_def cli_def)
  have it: "sched_inv (Some e) ?t" using r(1) by (subst sched_inv_cong [of _ s]) (simp_all add: cli_def)
  have "\<exists>s1. (if scheduler_method ?t = SCH_PRIRR then age_queues (num_of_ready_queues ?t) 0 ?t else Some ?t) = Some s1 \<and>
    sched_inv (Some e) s1 \<and> holds {} s1 \<and> cpu_proc s1 = Some e \<and> same_sync s s1 \<and>
    (\<forall>x. env_status (envs s1 x) = env_status (envs s x))"
  proof (cases "scheduler_method ?t = SCH_PRIRR")
    case True
    from age_queues_eq [OF sched_invD(1) [OF it] ht, of 0 "num_of_ready_queues ?t"] obtain s1 A where
      s1: "age_queues (num_of_ready_queues ?t) 0 ?t = Some s1" "aged_state A ?t s1" by auto
    have m: "sched_state.more s1 = sched_state.more ?t" using s1(2) by (simp add: aged_state_def same_rest_def)
    have "\<forall>x. env_status (envs s1 x) = env_status (envs s x)" using s1(2) by (simp add: aged_state_def cli_def)
    moreover have "same_sync s s1" using more_sel [OF m] s1(2) by (simp add: same_sync_def aged_state_def same_rest_def cli_def)
    ultimately show ?thesis using True s1 aged_inv [OF it s1(2)] r(3) by (simp add: aged_state_def cli_def)
  next
    case False
    then show ?thesis using it ht r(3) by (simp add: same_sync_def cli_def)
  qed
  then obtain s1 where
    s1: "(if scheduler_method ?t = SCH_PRIRR then age_queues (num_of_ready_queues ?t) 0 ?t else Some ?t) = Some s1"
      "sched_inv (Some e) s1" "holds {} s1" "cpu_proc s1 = Some e" "same_sync s s1"
      "\<And>x. env_status (envs s1 x) = env_status (envs s x)" by blast
  let ?s3 = "envs_upd e (\<lambda>x. x\<lparr>nClocks := nClocks x + 1\<rparr>) (s1\<lparr>ticks := ticks s1 + 1\<rparr>)"
  have q: "queues_ok ?s3" "\<And>x. in_ready x ?s3 = in_ready x s1"
    using sched_invD(1) [OF s1(2)] queues_ok_same_status [of ?s3 s1] by simp_all
  have "sched_inv (Some e) ?s3"
    by (rule sched_inv_envs [OF s1(2) q]) (auto simp: sound_env_def)
  moreover have "holds {} ?s3" using s1(3) by (subst holds_cong [of _ s1]) simp_all
  ultimately have run: "running e ?s3" using s1(4,6) r(4) by (simp add: running_def)
  note y = yield_gives_up [OF run]
  have "clock_irq s = Some (Some (eflags_IF ?s3), set_status e ENV_READY (entered QLOCK ?s3))"
    using s1(1,4) y(1) by (simp add: clock_irq_def clock_interrupt_handler_def)
  moreover have "same_sync s (set_status e ENV_READY (entered QLOCK ?s3))" using s1(5) by (simp add: same_sync_def)
  ultimately show ?thesis using y(2) s1(6) by auto
qed

section \<open>Exit\<close>

lemma exit_from_new_none:
  assumes "\<And>x. x \<in> set q \<Longrightarrow> env_id (envs s x) \<noteq> i"
  shows "exit_from_new q i found s = Some (found, s)"
  using assms by (induction q) auto

lemma remove_id_none:
  assumes "ready_ok s" "k + n = num_of_ready_queues s" "\<And>x. in_ready x s \<Longrightarrow> env_id (envs s x) \<noteq> i"
  shows "remove_id_from_ready n k i s = Some (None, s)"
  using assms(2)
proof (induction n arbitrary: k)
  case 0
  then show ?case by simp
next
  case (Suc n)
  have k: "k < num_of_ready_queues s" using Suc.prems by simp
  have "rq_get (int k) s = Some (env_ready_queues s ! k)" using rq_get_ok [OF assms(1), of "int k"] k by simp
  moreover have "find_env_l (\<lambda>p. env_id (envs s p)) i (env_ready_queues s ! k) = None"
    using assms(3) in_ready_nth [OF assms(1) k] by (simp add: find_env_l_None)
  ultimately show ?case using Suc.IH [of "Suc k"] Suc.prems by simp
qed

lemma env_exit_ok:
  assumes "running e s"
  shows "\<exists>s'. env_exit s = Some (Switch_to_scheduler, s') \<and> gave_up e s' \<and> same_sync s s' \<and>
    (\<forall>x. env_status (envs s' x) = (if x = e then ENV_EXIT else env_status (envs s x)))"
proof -
  have r: "sched_inv (Some e) s" "holds {} s" "cpu_proc s = Some e" "env_status (envs s e) = ENV_RUNNING"
    using assms by (auto simp: running_def)
  let ?s1 = "entered QLOCK s" and ?i = "env_id (envs s e)"
  note a = acquire_holds [OF r(2), of QLOCK]
  have i: "sched_inv (Some e) ?s1" using r(1) by simp
  note d = sched_invD [OF i]
  have nid: "env_id (envs s x) \<noteq> ?i" if "env_status (envs s x) \<in> {ENV_NEW, ENV_READY}" for x
  proof -
    have "active (envs s x)" "active (envs s e)" using that r(4) by (auto simp: active_def)
    moreover have "x \<noteq> e" using that r(4) by auto
    ultimately show ?thesis using d(4) unfolding ids_ok_def by auto
  qed
  have new: "exit_from_new (env_new_queue ?s1) ?i False ?s1 = Some (False, ?s1)"
    using nid queue_statusD(1) [OF d(1)] by (intro exit_from_new_none) auto
  have rdy: "remove_id_from_ready (num_of_ready_queues ?s1) 0 ?i ?s1 = Some (None, ?s1)"
    using nid queue_statusD(3) [OF d(1)] by (intro remove_id_none [OF d(7)]) auto
  let ?s2 = "set_status e ENV_EXIT ?s1"
  let ?s3 = "?s2\<lparr>env_exit_queue := e # env_exit_queue s\<rparr>"
  note v = sched_inv_status [OF i, of e ENV_EXIT]
  have ne: "e \<notin> set (env_exit_queue s)" using queue_statusD(2) [OF d(1), of e] r(4) by auto
  have buf: "\<not> buffering_enabled s" using d(6) by (simp add: conf_ok_def)
  have ins: "sched_insert_exit (Some e) ?s1 = Some ?s3"
    using ne buf by (simp add: sched_insert_exit_def enqueue_l_def insert_l_def Let_def)
  have h: "holds {QLOCK} ?s3" using a(2) by (subst holds_cong [of _ ?s1]) simp_all
  have b: "held QLOCK ?s3" "ncli ?s3 = 1" "\<not> eflags_IF ?s3"
    using holds_basic(3) [OF h, of QLOCK] holds_basic(4) [OF h] holds_basic(1) [OF h] by (simp_all add: cpu_ok_def)
  have en: "sched_enter ?s3 = Some (intena ?s3, ?s3)" using b r(3) by (simp add: sched_enter_def)
  have "\<not> held QLOCK s" using holds_basic(3) [OF r(2), of QLOCK] by simp
  then have "env_exit s = Some (Switch_to_scheduler, ?s3)"
    using a(1) new rdy ins en r(3) by (simp add: env_exit_def sched_exit_env_def Let_def)
  moreover have "gave_up e ?s3"
  proof -
    have "queues_ok ?s3"
      using v(1) r(4) ne queue_statusD(2) [OF d(1)] d(1)
      by (intro queues_ok_exit) (auto simp: queues_ok_def exit_ok_def)
    moreover have "all_placed (Some e) ?s3"
      by (rule all_placedI [OF d(5), of e]) (simp_all add: at_place_def in_ready_def)
    ultimately have "sched_inv (Some e) ?s3"
      using v(2-4) r(4) d(6) by (simp add: sched_inv_def conf_ok_def quantum_ok_def)
    then show ?thesis using h r(3) by (simp add: gave_up_def)
  qed
  ultimately show ?thesis by (intro exI [of _ ?s3]) (simp add: same_sync_def)
qed

end
