(* ===== verification/FOS_SystemThms.thy ===== *)
theory FOS_SystemThms
  imports FOS_SystemOps
begin

text \<open>
  The theorems about all runs of the system: the invariant holds in every reachable state, the kernel never
  panics in its sections, sleep locks exclude each other, semaphores count, and no process sleeps while what
  it waits for is available.
\<close>

section \<open>The synchronisation objects\<close>

definition chan_of :: "res \<Rightarrow> chan" where
  "chan_of r = (case r of SEM n \<Rightarrow> SEM_CHAN n | SLK n \<Rightarrow> SLK_CHAN n)"

definition available :: "res \<Rightarrow> (nat \<Rightarrow> int) \<Rightarrow> (nat \<Rightarrow> bool) \<Rightarrow> bool" where
  "available r cnt lkd = (case r of SEM n \<Rightarrow> 0 < cnt n | SLK n \<Rightarrow> \<not> lkd n)"

definition taken_c :: "res \<Rightarrow> (nat \<Rightarrow> int) \<Rightarrow> nat \<Rightarrow> int" where
  "taken_c r cnt = (case r of SEM n \<Rightarrow> cnt(n := cnt n - 1) | SLK n \<Rightarrow> cnt)"

definition taken_l :: "res \<Rightarrow> (nat \<Rightarrow> bool) \<Rightarrow> nat \<Rightarrow> bool" where
  "taken_l r lkd = (case r of SEM n \<Rightarrow> lkd | SLK n \<Rightarrow> lkd(n := True))"

definition given_c :: "res \<Rightarrow> (nat \<Rightarrow> int) \<Rightarrow> nat \<Rightarrow> int" where
  "given_c r cnt = (case r of SEM n \<Rightarrow> cnt(n := wrap32 (cnt n + 1)) | SLK n \<Rightarrow> cnt)"

definition given_l :: "res \<Rightarrow> (nat \<Rightarrow> bool) \<Rightarrow> nat \<Rightarrow> bool" where
  "given_l r lkd = (case r of SEM n \<Rightarrow> lkd | SLK n \<Rightarrow> lkd(n := False))"

lemmas res_defs = chan_of_def available_def taken_c_def taken_l_def given_c_def given_l_def

lemma res_acquire_cases:
  assumes "running e s"
  shows "if available r (sem_count s) (slk_locked s)
    then \<exists>s'. res_acquire r s = Some (Done, s') \<and> got e (eflags_IF s) (taken_c r) (taken_l r) s s'
    else \<exists>s'. res_acquire r s = Some (Blocked (eflags_IF s), s') \<and> slept e (chan_of r) s s'"
proof (cases r)
  case (SEM n)
  then show ?thesis using sem.acquire_cases [OF assms, of n] by (simp add: res_acquire_def res_defs got_def split: if_splits)
next
  case (SLK n)
  then show ?thesis using slk.acquire_cases [OF assms, of n] by (simp add: res_acquire_def res_defs got_def split: if_splits)
qed

lemma res_resume_cases:
  assumes "sched_inv (Some e) s" "holds {QLOCK} s" "cpu_proc s = Some e" "env_status (envs s e) = ENV_RUNNING"
  shows "if available r (sem_count s) (slk_locked s)
    then \<exists>s'. res_resume r saved s = Some (Done, s') \<and> got e saved (taken_c r) (taken_l r) s s'
    else \<exists>s'. res_resume r saved s = Some (Blocked saved, s') \<and> slept e (chan_of r) s s'"
proof (cases r)
  case (SEM n)
  then show ?thesis using sem.resume_cases [OF assms, of n saved] by (simp add: res_resume_def res_defs got_def split: if_splits)
next
  case (SLK n)
  then show ?thesis using slk.resume_cases [OF assms, of n saved] by (simp add: res_resume_def res_defs got_def split: if_splits)
qed

lemma res_release_ok:
  assumes "running e s"
  shows "\<exists>s'. res_release r s = Some s' \<and> running e s' \<and> chan_queue s' = (chan_queue s)(chan_of r := []) \<and>
    scheduler_status s' = scheduler_status s \<and> sem_count s' = given_c r (sem_count s) \<and> slk_locked s' = given_l r (slk_locked s) \<and>
    (\<forall>x. env_status (envs s' x) = env_status (envs s x) \<or>
      env_status (envs s x) = ENV_BLOCKED \<and> env_status (envs s' x) = ENV_READY)"
proof (cases r)
  case (SEM n)
  then show ?thesis using sem.give_ok [OF assms, of n] by (auto simp: res_release_def res_defs)
next
  case (SLK n)
  then show ?thesis using slk.give_ok [OF assms, of n] by (auto simp: res_release_def res_defs)
qed

text \<open>
  Counts are what the history says, modulo the width of the counter and exactly while the signals cannot overflow it; a sleep lock
  that only its holders have released is locked exactly when one process has it; and only objects that are not available have
  sleepers.
\<close>

lemma wrap32_id: "- (2 ^ 31) \<le> x \<Longrightarrow> x < 2 ^ 31 \<Longrightarrow> wrap32 x = x"
  by (simp add: wrap32_def signed_of_int signed_take_bit_int_eq_self)

lemma wrap32_range: "- (2 ^ 31) \<le> wrap32 x" "wrap32 x < 2 ^ 31"
  using sint_ge [of "word_of_int x :: u32"] sint_lt [of "word_of_int x :: u32"] by (simp_all add: wrap32_def)

lemma wrap32_add: "wrap32 (wrap32 x + y) = wrap32 (x + y)"
  by (simp add: wrap32_def)

lemma wrap32_pred: "0 < wrap32 x \<Longrightarrow> wrap32 x - 1 = wrap32 (x - 1)"
  using wrap32_add [of x "- 1"] wrap32_id [of "wrap32 x - 1"] wrap32_range [of x] by simp

definition counted :: "int \<Rightarrow> int \<Rightarrow> int \<Rightarrow> int \<Rightarrow> bool" where
  "counted c cnt sg wt \<longleftrightarrow> 0 \<le> wt \<and> cnt = wrap32 (c + sg - wt) \<and>
     (- (2 ^ 31) \<le> c \<and> c + sg < 2 ^ 31 \<longrightarrow> cnt = c + sg - wt \<and> min c 0 \<le> cnt)"

lemma counted_wait: "counted c cnt sg wt \<Longrightarrow> 0 < cnt \<Longrightarrow> counted c (cnt - 1) sg (wt + 1)"
  using wrap32_pred [of "c + sg - wt"] by (auto simp: counted_def algebra_simps)

lemma counted_signal:
  assumes "counted c cnt sg wt"
  shows "counted c (wrap32 (cnt + 1)) (sg + 1) wt"
proof -
  have "wrap32 (cnt + 1) = wrap32 (c + sg - wt + 1)" using assms wrap32_add by (simp add: counted_def)
  moreover have "wrap32 (cnt + 1) = cnt + 1" if "- (2 ^ 31) \<le> c" "c + (sg + 1) < 2 ^ 31"
    using assms that by (intro wrap32_id) (auto simp: counted_def)
  ultimately show ?thesis using assms by (auto simp: counted_def algebra_simps)
qed

definition objects_ok ::
  "(nat \<Rightarrow> int) \<Rightarrow> (chan \<Rightarrow> env_ptr list) \<Rightarrow> (nat \<Rightarrow> int) \<Rightarrow> (nat \<Rightarrow> bool) \<Rightarrow>
   (nat \<Rightarrow> env_ptr list) \<Rightarrow> (nat \<Rightarrow> bool) \<Rightarrow> (nat \<Rightarrow> int) \<Rightarrow> (nat \<Rightarrow> int) \<Rightarrow> bool" where
  "objects_ok c0 ch cnt lkd ins fr sg wt \<longleftrightarrow> waits_ok ch cnt lkd \<and> (\<forall>n. counted (c0 n) (cnt n) (sg n) (wt n)) \<and>
     (\<forall>n. \<not> fr n \<longrightarrow> length (ins n) \<le> 1 \<and> (ins n \<noteq> [] \<longleftrightarrow> lkd n))"

definition sys_objects :: "(nat \<Rightarrow> int) \<Rightarrow> sys \<Rightarrow> bool" where
  "sys_objects c0 y \<longleftrightarrow> objects_ok c0 (chan_queue (st y)) (sem_count (st y)) (slk_locked (st y)) (inside y) (foreign y) (signals y) (waits y)"

lemma sys_objects_got:
  assumes "sys_objects c0 y" "available r (sem_count (st y)) (slk_locked (st y))" "got e ien (taken_c r) (taken_l r) (st y) s"
  shows "sys_objects c0 ((note_acquired r e y)\<lparr>st := s, mode := m\<rparr>)" "sys_objects c0 ((note_acquired r e y)\<lparr>st := s\<rparr>)"
proof -
  have "objects_ok c0 (chan_queue s) (sem_count s) (slk_locked s) (inside (note_acquired r e y))
      (foreign (note_acquired r e y)) (signals (note_acquired r e y)) (waits (note_acquired r e y))"
  proof (cases r)
    case (SEM n)
    have "chan_queue (st y) (SEM_CHAN n) = []"
      using assms(1,2) SEM by (auto simp: sys_objects_def objects_ok_def waits_ok_def available_def)
    moreover have "counted (c0 n) (sem_count (st y) n - 1) (signals y n) (waits y n + 1)"
      using assms(1,2) SEM by (intro counted_wait) (simp_all add: sys_objects_def objects_ok_def available_def)
    ultimately show ?thesis
      using assms SEM by (auto simp: sys_objects_def objects_ok_def waits_ok_def got_def res_defs note_acquired_def)
  next
    case (SLK n)
    have "chan_queue (st y) (SLK_CHAN n) = []" "\<not> foreign y n \<Longrightarrow> inside y n = []"
      using assms(1,2) SLK by (auto simp: sys_objects_def objects_ok_def waits_ok_def available_def)
    then show ?thesis
      using assms SLK by (auto simp: sys_objects_def objects_ok_def waits_ok_def got_def res_defs note_acquired_def)
  qed
  then show "sys_objects c0 ((note_acquired r e y)\<lparr>st := s, mode := m\<rparr>)" "sys_objects c0 ((note_acquired r e y)\<lparr>st := s\<rparr>)"
    by (simp_all add: sys_objects_def)
qed

lemma sys_objects_slept:
  assumes "sys_objects c0 y" "\<not> available r (sem_count (st y)) (slk_locked (st y))" "slept e (chan_of r) (st y) s"
  shows "sys_objects c0 (y\<lparr>st := s, mode := m, kcont := k\<rparr>)"
proof -
  have s: "chan_queue s = (chan_queue (st y))(chan_of r := e # chan_queue (st y) (chan_of r))"
    "sem_count s = sem_count (st y)" "slk_locked s = slk_locked (st y)" using assms(3) by (simp_all add: slept_def)
  have "waits_ok (chan_queue s) (sem_count s) (slk_locked s)"
    using assms(1,2) unfolding s by (cases r) (auto simp: sys_objects_def objects_ok_def waits_ok_def res_defs)
  then show ?thesis using assms(1) s(2,3) by (simp add: sys_objects_def objects_ok_def)
qed

lemma sys_objects_released:
  assumes "sys_objects c0 y" "chan_queue s = (chan_queue (st y))(chan_of r := [])"
    "sem_count s = given_c r (sem_count (st y))" "slk_locked s = given_l r (slk_locked (st y))"
  shows "sys_objects c0 ((note_released r e y)\<lparr>st := s\<rparr>)"
proof (cases r)
  case (SEM n)
  have "counted (c0 n) (wrap32 (sem_count (st y) n + 1)) (signals y n + 1) (waits y n)"
    using assms(1) by (intro counted_signal) (simp add: sys_objects_def objects_ok_def)
  then show ?thesis
    using assms SEM by (auto simp: sys_objects_def objects_ok_def waits_ok_def res_defs note_released_def)
next
  case (SLK n)
  have "inside y n = [e]" if "\<not> foreign y n" "e \<in> set (inside y n)"
    using assms(1) that by (cases "inside y n") (auto simp: sys_objects_def objects_ok_def)
  then show ?thesis
    using assms SLK by (auto simp: sys_objects_def objects_ok_def waits_ok_def res_defs note_released_def)
qed

lemma sys_objects_same:
  assumes "sys_objects c0 y" "chan_queue s = chan_queue (st y)" "sem_count s = sem_count (st y)" "slk_locked s = slk_locked (st y)"
  shows "sys_objects c0 (y\<lparr>st := s, mode := m, kcont := k\<rparr>)" "sys_objects c0 (y\<lparr>st := s, mode := m\<rparr>)"
    "sys_objects c0 (y\<lparr>st := s, kcont := k\<rparr>)" "sys_objects c0 (y\<lparr>st := s\<rparr>)"
  using assms by (simp_all add: sys_objects_def)

section \<open>The invariant\<close>

definition not_dead :: "sys \<Rightarrow> bool" where
  "not_dead y \<longleftrightarrow> (\<forall>e. env_status (envs (st y) e) \<in> {ENV_NEW, ENV_READY, ENV_BLOCKED} \<longrightarrow> kcont y e \<noteq> K_dead)"

definition mode_ok :: "mode \<Rightarrow> (env_ptr \<Rightarrow> kcont) \<Rightarrow> conc_state \<Rightarrow> bool" where
  "mode_ok m k s = (case m of
     At_prompt \<Rightarrow> sched_inv None s \<and> holds {} s \<and> cpu_proc s = None \<and> \<not> eflags_IF s \<and> scheduler_status s = SCH_STOPPED
   | At_outer \<Rightarrow> sched_inv None s \<and> holds {} s \<and> cpu_proc s = None \<and> scheduler_status s = SCH_STARTED
   | At_choice \<Rightarrow> sched_inv (cpu_proc s) s \<and> holds {QLOCK} s \<and> cur_ok s \<and> scheduler_status s = SCH_STARTED
   | At_back \<Rightarrow> (\<exists>e. gave_up e s) \<and> scheduler_status s = SCH_STARTED
   | Resuming e \<Rightarrow> sched_inv (Some e) s \<and> holds {QLOCK} s \<and> cpu_proc s = Some e \<and>
       env_status (envs s e) = ENV_RUNNING \<and> scheduler_status s = SCH_STARTED \<and> k e \<noteq> K_dead
   | Running e \<Rightarrow> running e s \<and> scheduler_status s = SCH_STARTED)"

definition sys_ok :: "(nat \<Rightarrow> int) \<Rightarrow> sys \<Rightarrow> bool" where
  "sys_ok c0 y \<longleftrightarrow> mode_ok (mode y) (kcont y) (st y) \<and> sys_objects c0 y \<and> not_dead y"

text \<open>What a resumed process does: it goes on, or sleeps again.\<close>

lemma resume_ok:
  assumes "sched_inv (Some e) s" "holds {QLOCK} s" "cpu_proc s = Some e" "env_status (envs s e) = ENV_RUNNING" "k \<noteq> K_dead"
  shows "(\<exists>s'. resume k s = Some (Done, s') \<and> running e s' \<and> scheduler_status s' = scheduler_status s \<and> envs s' = envs s \<and>
      (case k of K_res r saved \<Rightarrow> available r (sem_count s) (slk_locked s) \<and> got e saved (taken_c r) (taken_l r) s s'
       | _ \<Rightarrow> chan_queue s' = chan_queue s \<and> sem_count s' = sem_count s \<and> slk_locked s' = slk_locked s)) \<or>
    (\<exists>r saved s'. k = K_res r saved \<and> resume k s = Some (Blocked saved, s') \<and>
      \<not> available r (sem_count s) (slk_locked s) \<and> slept e (chan_of r) s s')"
proof (cases k)
  case K_start
  note r = release_holds [OF assms(2), of QLOCK]
  then show ?thesis using assms K_start by (intro disjI1 exI [of _ "left QLOCK s"]) (simp add: resume_def env_start_def running_def)
next
  case (K_irq saved)
  let ?s1 = "s\<lparr>intena := saved\<rparr>"
  have h: "holds {QLOCK} ?s1" using assms(2) by (subst holds_cong [of _ s]) simp_all
  have i: "sched_inv (Some e) ?s1" using assms(1) by (subst sched_inv_cong [of _ s]) simp_all
  note r = release_holds [OF h, of QLOCK]
  have h0: "holds {} (sti (left QLOCK ?s1))" using r(2) by (simp add: holds_def cpu_ok_def sti_def)
  have i0: "sched_inv (Some e) (sti (left QLOCK ?s1))"
    using i by (subst sched_inv_cong [of _ ?s1]) (simp_all add: sti_def)
  show ?thesis
    using r(1) h0 i0 assms(3,4) K_irq
    by (intro disjI1 exI [of _ "sti (left QLOCK ?s1)"])
      (simp add: resume_def yield_leave_def sched_resume_def running_def sti_def)
next
  case (K_res r saved)
  then show ?thesis
    using res_resume_cases [OF assms(1-4), of r saved]
    by (cases "available r (sem_count s) (slk_locked s)") (auto simp: resume_def got_def)
next
  case K_dead
  then show ?thesis using assms(5) by simp
qed

lemma fos_scheduler_enter_ok:
  assumes "sched_inv None s" "holds {} s" "cpu_proc s = None" "\<not> eflags_IF s"
  shows "\<exists>s'. fos_scheduler_enter s = Some s' \<and> mode_ok At_outer k s' \<and> envs s' = envs s \<and>
    chan_queue s' = chan_queue s \<and> sem_count s' = sem_count s \<and> slk_locked s' = slk_locked s"
proof -
  let ?s' = "s\<lparr>cpu_proc := None, scheduler_status := SCH_STARTED\<rparr>"
  have "sched_inv None ?s'" using assms(1) by (subst sched_inv_cong [of _ s]) simp_all
  moreover have "holds {} ?s'" using assms(2) by (subst holds_cong [of _ s]) simp_all
  ultimately show ?thesis using assms(4) by (simp add: fos_scheduler_enter_def mode_ok_def)
qed

lemma fos_scheduler_lock_ok:
  assumes "mode_ok At_outer k s"
  shows "\<exists>s'. fos_scheduler_lock s = Some s' \<and> mode_ok At_choice k s' \<and> envs s' = envs s \<and> same_sync s s'"
proof -
  have a: "sched_inv None s" "holds {} s" "cpu_proc s = None" "scheduler_status s = SCH_STARTED" using assms by (simp_all add: mode_ok_def)
  have h: "holds {} (sti s)" using a(2) by (simp add: holds_def cpu_ok_def sti_def)
  have i: "sched_inv None (sti s)" using a(1) by (subst sched_inv_cong [of _ s]) (simp_all add: sti_def)
  note q = acquire_holds [OF h, of QLOCK]
  then show ?thesis
    using i a(3,4) by (simp add: fos_scheduler_lock_def mode_ok_def cur_ok_def same_sync_def sti_def)
qed

lemma get_into_prompt_ok:
  assumes "sched_inv None s" "holds {} s"
  shows "mode_ok At_prompt k (get_into_prompt s)" "envs (get_into_prompt s) = envs s"
    "chan_queue (get_into_prompt s) = chan_queue s" "sem_count (get_into_prompt s) = sem_count s"
    "slk_locked (get_into_prompt s) = slk_locked s"
proof -
  let ?s' = "get_into_prompt s"
  have "sched_inv None ?s'" using assms(1) by (subst sched_inv_cong [of _ s]) (simp_all add: get_into_prompt_def cli_def)
  moreover have "holds {} ?s'" using assms(2) by (simp add: holds_def cpu_ok_def get_into_prompt_def cli_def)
  ultimately show "mode_ok At_prompt k ?s'" by (simp add: mode_ok_def get_into_prompt_def cli_def)
qed (simp_all add: get_into_prompt_def cli_def)

section \<open>Every step keeps the invariant\<close>

lemma asleep_gave_up: "slept e c s s' \<Longrightarrow> gave_up e s'"
  by (auto simp: slept_def asleep_def gave_up_def)

lemma not_deadI:
  assumes "not_dead y" "\<And>e. env_status (envs (st y') e) \<in> {ENV_NEW, ENV_READY, ENV_BLOCKED} \<Longrightarrow>
      kcont y' e \<noteq> K_dead \<or> kcont y' e = kcont y e \<and> env_status (envs (st y) e) \<in> {ENV_NEW, ENV_READY, ENV_BLOCKED}"
  shows "not_dead y'"
  using assms unfolding not_dead_def by metis

lemma not_dead_moves:
  assumes "not_dead y" "kcont y' = kcont y"
    "\<And>x. env_status (envs (st y') x) = env_status (envs (st y) x) \<or>
      env_status (envs (st y) x) = ENV_NEW \<or> env_status (envs (st y) x) = ENV_READY \<or> env_status (envs (st y) x) = ENV_BLOCKED"
  shows "not_dead y'"
proof (rule not_deadI [OF assms(1)])
  fix e
  assume "env_status (envs (st y') e) \<in> {ENV_NEW, ENV_READY, ENV_BLOCKED}"
  then have "env_status (envs (st y) e) \<in> {ENV_NEW, ENV_READY, ENV_BLOCKED}" using assms(3) [of e] by auto
  then show "kcont y' e \<noteq> K_dead \<or> kcont y' e = kcont y e \<and> env_status (envs (st y) e) \<in> {ENV_NEW, ENV_READY, ENV_BLOCKED}"
    using assms(2) by simp
qed

lemma step_new:
  assumes "sys_ok c0 y" "prepared e (st y)" "sched_new_env (Some e) (st y) = Some s"
    "mode y = At_prompt \<or> (\<exists>x. mode y = Running x)"
  shows "sys_ok c0 (y\<lparr>st := s, kcont := (kcont y)(e := K_start)\<rparr>)"
proof -
  let ?s' = "left QLOCK (new_put e (entered QLOCK (st y)))"
  have m: "mode_ok (mode y) (kcont y) (st y)" "sys_objects c0 y" "not_dead y" using assms(1) by (simp_all add: sys_ok_def)
  obtain p where p: "sched_inv p (st y)" "holds {} (st y)" "mode y = At_prompt \<and> p = None \<or> (\<exists>x. mode y = Running x \<and> p = Some x)"
    using m(1) assms(4) by (auto simp: mode_ok_def running_def)
  have u: "env_status (envs (st y) e) = ENV_UNKNOWN" using assms(2) by (simp add: prepared_def)
  note n = sched_new_env_ok [OF p(1,2) assms(2)]
  have s: "s = ?s'" using n(1) assms(3) by simp
  have n0: "ncli (st y) = 0" using holds_basic(4) [OF p(2)] by simp
  have "mode_ok (mode y) ((kcont y)(e := K_start)) s"
    using m(1) p(3) n(2,3) n0 u unfolding s by (auto simp: mode_ok_def running_def)
  moreover have "sys_objects c0 (y\<lparr>st := s, kcont := (kcont y)(e := K_start)\<rparr>)"
    by (rule sys_objects_same(3) [OF m(2)]) (simp_all add: s)
  moreover have "not_dead (y\<lparr>st := s, kcont := (kcont y)(e := K_start)\<rparr>)"
    by (rule not_deadI [OF m(3)]) (auto simp: s)
  ultimately show ?thesis by (simp add: sys_ok_def)
qed

lemma step_run_env:
  assumes "sys_ok c0 y" "sched_run_env i (st y) = Some (c, s)" "mode y = At_prompt \<or> (\<exists>x. mode y = Running x)"
  shows "c = Returns \<Longrightarrow> sys_ok c0 (y\<lparr>st := s\<rparr>)"
    "c = Enter_scheduler \<Longrightarrow> fos_scheduler_enter s = Some s' \<Longrightarrow> mode y = At_prompt \<Longrightarrow> sys_ok c0 (y\<lparr>st := s', mode := At_outer\<rparr>)"
proof -
  have m: "mode_ok (mode y) (kcont y) (st y)" "sys_objects c0 y" "not_dead y" using assms(1) by (simp_all add: sys_ok_def)
  obtain p where p: "sched_inv p (st y)" "holds {} (st y)" "mode y = At_prompt \<and> p = None \<or> (\<exists>x. mode y = Running x \<and> p = Some x)"
    using m(1) assms(3) by (auto simp: mode_ok_def running_def)
  from sched_run_env_ok [OF p(1,2), of i] assms(2) have
    r: "sched_inv p s" "holds {} s" "eflags_IF s = eflags_IF (st y)" "cpu_proc s = cpu_proc (st y)"
      "scheduler_status s = scheduler_status (st y)" "chan_queue s = chan_queue (st y)" "sem_count s = sem_count (st y)"
      "slk_locked s = slk_locked (st y)" "\<And>x. env_status (envs s x) = env_status (envs (st y) x) \<or>
      env_status (envs (st y) x) = ENV_NEW \<and> env_status (envs s x) = ENV_READY" by auto
  have nd: "not_dead (y\<lparr>st := t, mode := k\<rparr>)" "not_dead (y\<lparr>st := t\<rparr>)" if "envs t = envs s" for t k
  proof -
    have "env_status (envs t x) = env_status (envs (st y) x) \<or> env_status (envs (st y) x) = ENV_NEW" for x
      using r(9) [of x] that by auto
    then show "not_dead (y\<lparr>st := t, mode := k\<rparr>)" "not_dead (y\<lparr>st := t\<rparr>)" by (intro not_dead_moves [OF m(3)]; auto)+
  qed
  {
    have "mode_ok (mode y) (kcont y) s" using m(1) p(3) r
      by (auto simp: mode_ok_def running_def) (metis env_status.distinct)+
    then show "sys_ok c0 (y\<lparr>st := s\<rparr>)" using sys_objects_same(4) [OF m(2) r(6-8)] nd(2) [OF refl] by (simp add: sys_ok_def)
  next
    assume e: "fos_scheduler_enter s = Some s'" "mode y = At_prompt"
    have "p = None" "cpu_proc s = None" "\<not> eflags_IF s" using e(2) p(3) m(1) r(3,4) by (auto simp: mode_ok_def)
    with fos_scheduler_enter_ok [of s "kcont y"] r(1,2) e(1) have
      t: "mode_ok At_outer (kcont y) s'" "envs s' = envs s" "chan_queue s' = chan_queue (st y)"
        "sem_count s' = sem_count (st y)" "slk_locked s' = slk_locked (st y)" using r(6-8) by auto
    then show "sys_ok c0 (y\<lparr>st := s', mode := At_outer\<rparr>)"
      using sys_objects_same(2) [OF m(2) t(3-5)] nd(1) [OF t(2)] by (simp add: sys_ok_def)
  }
qed

lemma step_run_all:
  assumes "sys_ok c0 y" "mode y = At_prompt" "sched_run_all (st y) = Some (Enter_scheduler, s)" "fos_scheduler_enter s = Some s'"
  shows "sys_ok c0 (y\<lparr>st := s', mode := At_outer\<rparr>)"
proof -
  have m: "mode_ok At_prompt (kcont y) (st y)" "sys_objects c0 y" "not_dead y" using assms(1,2) by (simp_all add: sys_ok_def)
  have p: "sched_inv None (st y)" "holds {} (st y)" "scheduler_status (st y) = SCH_STOPPED" "cpu_proc (st y) = None" "\<not> eflags_IF (st y)"
    using m(1) by (simp_all add: mode_ok_def)
  from sched_run_all_ok [OF p(1-3)] assms(3) have
    r: "sched_inv None s" "holds {} s" "eflags_IF s = eflags_IF (st y)" "cpu_proc s = cpu_proc (st y)"
      "chan_queue s = chan_queue (st y)" "sem_count s = sem_count (st y)"
      "slk_locked s = slk_locked (st y)" "\<And>x. env_status (envs s x) = env_status (envs (st y) x) \<or>
      env_status (envs (st y) x) = ENV_NEW \<and> env_status (envs s x) = ENV_READY" by auto
  from fos_scheduler_enter_ok [OF r(1,2), of "kcont y"] r(3-7) p(4,5) assms(4) have
    t: "mode_ok At_outer (kcont y) s'" "envs s' = envs s" "chan_queue s' = chan_queue (st y)"
      "sem_count s' = sem_count (st y)" "slk_locked s' = slk_locked (st y)" by auto
  have "env_status (envs s' x) = env_status (envs (st y) x) \<or> env_status (envs (st y) x) = ENV_NEW" for x
    using r(8) [of x] t(2) by auto
  then have "not_dead (y\<lparr>st := s', mode := At_outer\<rparr>)" by (intro not_dead_moves [OF m(3)]) auto
  then show ?thesis using t(1) sys_objects_same(2) [OF m(2) t(3-5)] by (simp add: sys_ok_def)
qed

lemma step_pick:
  assumes "sys_ok c0 y" "mode y = At_choice" "fos_scheduler_pick (st y) = Some (c, s)"
  shows "c = Run e \<Longrightarrow> sys_ok c0 (y\<lparr>st := s, mode := Resuming e\<rparr>)"
    "c = Idle_blocked \<Longrightarrow> sys_ok c0 (y\<lparr>st := s, mode := At_outer\<rparr>)"
    "c = Into_prompt \<Longrightarrow> sys_ok c0 (y\<lparr>st := get_into_prompt s, mode := At_prompt\<rparr>)"
proof -
  have m: "mode_ok At_choice (kcont y) (st y)" "sys_objects c0 y" "not_dead y" using assms(1,2) by (simp_all add: sys_ok_def)
  have p: "sched_inv (cpu_proc (st y)) (st y)" "holds {QLOCK} (st y)" "cur_ok (st y)" "scheduler_status (st y) = SCH_STARTED"
    using m(1) by (simp_all add: mode_ok_def)
  note pk = fos_scheduler_pick_ok [OF p(1-3)]
  {
    assume c: "c = Run e"
    with pk assms(3) have r: "sched_inv (Some e) s" "holds {QLOCK} s" "cpu_proc s = Some e"
      "env_status (envs (st y) e) = ENV_READY" "envs s = (envs (st y))(e := (envs (st y) e)\<lparr>env_status := ENV_RUNNING\<rparr>)"
      "same_sync (st y) s" by (auto split: if_splits)
    have k: "kcont y e \<noteq> K_dead" using m(3) r(4) by (simp add: not_dead_def)
    have "not_dead (y\<lparr>st := s, mode := Resuming e\<rparr>)" using r(4,5) by (intro not_dead_moves [OF m(3)]) auto
    moreover have "mode_ok (Resuming e) (kcont y) s" using r k p(4) by (simp add: mode_ok_def same_sync_def)
    ultimately show "sys_ok c0 (y\<lparr>st := s, mode := Resuming e\<rparr>)"
      using r(6) sys_objects_same(2) [OF m(2), of s] by (simp add: sys_ok_def same_sync_def)
  next
    assume c: "c = Idle_blocked"
    with pk assms(3) have r: "sched_inv None s" "holds {} s" "cpu_proc s = None" "envs s = envs (st y)" "same_sync (st y) s" by auto
    have "not_dead (y\<lparr>st := s, mode := At_outer\<rparr>)" using r(4) by (intro not_dead_moves [OF m(3)]) auto
    then show "sys_ok c0 (y\<lparr>st := s, mode := At_outer\<rparr>)"
      using r p(4) sys_objects_same(2) [OF m(2), of s] by (simp add: sys_ok_def same_sync_def mode_ok_def)
  next
    assume c: "c = Into_prompt"
    with pk assms(3) have r: "sched_inv None s" "holds {} s" "envs s = envs (st y)" "same_sync (st y) s" by auto
    note g = get_into_prompt_ok [OF r(1,2)]
    have "not_dead (y\<lparr>st := get_into_prompt s, mode := At_prompt\<rparr>)" using r(3) g(2) by (intro not_dead_moves [OF m(3)]) auto
    then show "sys_ok c0 (y\<lparr>st := get_into_prompt s, mode := At_prompt\<rparr>)"
      using r(4) g sys_objects_same(2) [OF m(2), of "get_into_prompt s"] by (simp add: sys_ok_def same_sync_def)
  }
qed

lemma step_lock:
  assumes "sys_ok c0 y" "mode y = At_outer" "fos_scheduler_lock (st y) = Some s"
  shows "sys_ok c0 (y\<lparr>st := s, mode := At_choice\<rparr>)"
proof -
  have m: "mode_ok At_outer (kcont y) (st y)" "sys_objects c0 y" "not_dead y" using assms(1,2) by (simp_all add: sys_ok_def)
  from fos_scheduler_lock_ok [OF m(1)] assms(3) have
    r: "mode_ok At_choice (kcont y) s" "envs s = envs (st y)" "same_sync (st y) s" by auto
  have "not_dead (y\<lparr>st := s, mode := At_choice\<rparr>)" using r(2) by (intro not_dead_moves [OF m(3)]) auto
  then show ?thesis using r sys_objects_same(2) [OF m(2), of s] by (simp add: sys_ok_def same_sync_def)
qed

lemma step_back:
  assumes "sys_ok c0 y" "mode y = At_back" "fos_scheduler_back (st y) = Some s"
  shows "sys_ok c0 (y\<lparr>st := s, mode := At_choice\<rparr>)"
proof -
  have m: "mode_ok At_back (kcont y) (st y)" "sys_objects c0 y" "not_dead y" using assms(1,2) by (simp_all add: sys_ok_def)
  then obtain e where e: "gave_up e (st y)" "scheduler_status (st y) = SCH_STARTED" by (auto simp: mode_ok_def)
  from fos_scheduler_back_ok [OF e(1)] assms(3) have
    r: "sched_inv (cpu_proc s) s" "holds {QLOCK} s" "cur_ok s" "envs s = envs (st y)" "same_sync (st y) s" by auto
  have "not_dead (y\<lparr>st := s, mode := At_choice\<rparr>)" using r(4) by (intro not_dead_moves [OF m(3)]) auto
  then show ?thesis using r e(2) sys_objects_same(2) [OF m(2), of s] by (simp add: sys_ok_def same_sync_def mode_ok_def)
qed

text \<open>A running or resumed process takes an object, or sleeps.\<close>

lemma note_acquired_sel [simp]:
  "st (note_acquired r e y) = st y" "kcont (note_acquired r e y) = kcont y" "mode (note_acquired r e y) = mode y"
  "st (note_released r e y) = st y" "kcont (note_released r e y) = kcont y" "mode (note_released r e y) = mode y"
  by (cases r; simp add: note_acquired_def note_released_def)+

lemma step_got:
  assumes "sys_objects c0 y" "not_dead y" "available r (sem_count (st y)) (slk_locked (st y))"
    "got e ien (taken_c r) (taken_l r) (st y) s" "scheduler_status (st y) = SCH_STARTED"
  shows "sys_ok c0 ((note_acquired r e y)\<lparr>st := s, mode := Running e\<rparr>)"
    "mode y = Running e \<Longrightarrow> sys_ok c0 ((note_acquired r e y)\<lparr>st := s\<rparr>)"
proof -
  have ev: "envs s = envs (st y)" "running e s" "scheduler_status s = SCH_STARTED" using assms(4,5) by (simp_all add: got_def)
  note o = sys_objects_got [OF assms(1,3,4)]
  have "not_dead ((note_acquired r e y)\<lparr>st := s, mode := Running e\<rparr>)" "not_dead ((note_acquired r e y)\<lparr>st := s\<rparr>)"
    using ev(1) by (intro not_dead_moves [OF assms(2)]; simp)+
  then show "sys_ok c0 ((note_acquired r e y)\<lparr>st := s, mode := Running e\<rparr>)"
    "mode y = Running e \<Longrightarrow> sys_ok c0 ((note_acquired r e y)\<lparr>st := s\<rparr>)"
    using o ev by (simp_all add: sys_ok_def mode_ok_def)
qed

lemma step_slept:
  assumes "sys_objects c0 y" "not_dead y" "\<not> available r (sem_count (st y)) (slk_locked (st y))"
    "slept e (chan_of r) (st y) s" "scheduler_status (st y) = SCH_STARTED"
  shows "sys_ok c0 (y\<lparr>st := s, mode := At_back, kcont := (kcont y)(e := K_res r saved)\<rparr>)"
proof -
  have s: "envs s = (envs (st y))(e := (envs (st y) e)\<lparr>env_status := ENV_BLOCKED\<rparr>)" "scheduler_status s = SCH_STARTED"
    using assms(4,5) by (simp_all add: slept_def)
  have "not_dead (y\<lparr>st := s, mode := At_back, kcont := (kcont y)(e := K_res r saved)\<rparr>)"
    by (rule not_deadI [OF assms(2)]) (auto simp: s)
  then show ?thesis
    using sys_objects_slept [OF assms(1,3,4)] asleep_gave_up [OF assms(4)] s(2) by (auto simp: sys_ok_def mode_ok_def)
qed

lemma step_resume:
  assumes "sys_ok c0 y" "mode y = Resuming e" "resume (kcont y e) (st y) = Some (pr, s)"
  shows "pr = Done \<Longrightarrow> y' = (case kcont y e of K_res r saved \<Rightarrow> note_acquired r e y | _ \<Rightarrow> y) \<Longrightarrow>
      sys_ok c0 (y'\<lparr>st := s, mode := Running e\<rparr>)"
    "pr = Blocked saved' \<Longrightarrow> kcont y e = K_res r saved \<Longrightarrow>
      sys_ok c0 (y\<lparr>st := s, mode := At_back, kcont := (kcont y)(e := K_res r saved')\<rparr>)"
proof -
  have m: "mode_ok (Resuming e) (kcont y) (st y)" "sys_objects c0 y" "not_dead y" using assms(1,2) by (simp_all add: sys_ok_def)
  have p: "sched_inv (Some e) (st y)" "holds {QLOCK} (st y)" "cpu_proc (st y) = Some e" "env_status (envs (st y) e) = ENV_RUNNING"
    "kcont y e \<noteq> K_dead" "scheduler_status (st y) = SCH_STARTED" using m(1) by (simp_all add: mode_ok_def)
  note ro = resume_ok [OF p(1-5)]
  {
    assume d: "pr = Done" and y': "y' = (case kcont y e of K_res r saved \<Rightarrow> note_acquired r e y | _ \<Rightarrow> y)"
    from ro assms(3) d have r: "running e s" "scheduler_status s = scheduler_status (st y)" "envs s = envs (st y)"
      "case kcont y e of K_res r saved \<Rightarrow> available r (sem_count (st y)) (slk_locked (st y)) \<and> got e saved (taken_c r) (taken_l r) (st y) s
       | _ \<Rightarrow> chan_queue s = chan_queue (st y) \<and> sem_count s = sem_count (st y) \<and> slk_locked s = slk_locked (st y)" by auto
    show "sys_ok c0 (y'\<lparr>st := s, mode := Running e\<rparr>)"
    proof (cases "\<exists>r saved. kcont y e = K_res r saved")
      case True
      then show ?thesis using r(4) y' step_got(1) [OF m(2,3)] p(6) by auto
    next
      case False
      then have y: "y' = y" "chan_queue s = chan_queue (st y)" "sem_count s = sem_count (st y)" "slk_locked s = slk_locked (st y)"
        using y' r(4) by (auto split: kcont.splits)
      have "not_dead (y\<lparr>st := s, mode := Running e\<rparr>)" using r(3) by (intro not_dead_moves [OF m(3)]) simp_all
      then show ?thesis using y r(1,2) p(6) sys_objects_same(2) [OF m(2) y(2-4)] by (simp add: sys_ok_def mode_ok_def)
    qed
  next
    assume "pr = Blocked saved'" "kcont y e = K_res r saved"
    with ro assms(3) have "\<not> available r (sem_count (st y)) (slk_locked (st y))" "slept e (chan_of r) (st y) s" by auto
    from step_slept [OF m(2,3) this p(6)]
    show "sys_ok c0 (y\<lparr>st := s, mode := At_back, kcont := (kcont y)(e := K_res r saved')\<rparr>)" .
  }
qed

lemma step_acquire:
  assumes "sys_ok c0 y" "mode y = Running e" "res_acquire r (st y) = Some (pr, s)"
  shows "pr = Done \<Longrightarrow> sys_ok c0 ((note_acquired r e y)\<lparr>st := s\<rparr>)"
    "pr = Blocked saved \<Longrightarrow> sys_ok c0 (y\<lparr>st := s, mode := At_back, kcont := (kcont y)(e := K_res r saved)\<rparr>)"
proof -
  have m: "running e (st y)" "scheduler_status (st y) = SCH_STARTED" "sys_objects c0 y" "not_dead y"
    using assms(1,2) by (simp_all add: sys_ok_def mode_ok_def)
  note c = res_acquire_cases [OF m(1), of r]
  {
    assume "pr = Done"
    with c assms(3) have "available r (sem_count (st y)) (slk_locked (st y))" "got e (eflags_IF (st y)) (taken_c r) (taken_l r) (st y) s"
      by (auto split: if_splits)
    from step_got(2) [OF m(3,4) this m(2) assms(2)] show "sys_ok c0 ((note_acquired r e y)\<lparr>st := s\<rparr>)" .
  next
    assume "pr = Blocked saved"
    with c assms(3) have "\<not> available r (sem_count (st y)) (slk_locked (st y))" "slept e (chan_of r) (st y) s"
      by (auto split: if_splits)
    from step_slept [OF m(3,4) this m(2)] show "sys_ok c0 (y\<lparr>st := s, mode := At_back, kcont := (kcont y)(e := K_res r saved)\<rparr>)" .
  }
qed

lemma step_release:
  assumes "sys_ok c0 y" "mode y = Running e" "res_release r (st y) = Some s"
  shows "sys_ok c0 ((note_released r e y)\<lparr>st := s\<rparr>)"
proof -
  have m: "running e (st y)" "scheduler_status (st y) = SCH_STARTED" "sys_objects c0 y" "not_dead y"
    using assms(1,2) by (simp_all add: sys_ok_def mode_ok_def)
  from res_release_ok [OF m(1), of r] assms(3) have r: "running e s" "chan_queue s = (chan_queue (st y))(chan_of r := [])"
    "scheduler_status s = scheduler_status (st y)" "sem_count s = given_c r (sem_count (st y))"
    "slk_locked s = given_l r (slk_locked (st y))" "\<And>x. env_status (envs s x) = env_status (envs (st y) x) \<or>
      env_status (envs (st y) x) = ENV_BLOCKED \<and> env_status (envs s x) = ENV_READY" by auto
  have "env_status (envs s x) = env_status (envs (st y) x) \<or> env_status (envs (st y) x) = ENV_BLOCKED" for x using r(6) [of x] by auto
  then have "not_dead ((note_released r e y)\<lparr>st := s\<rparr>)" by (intro not_dead_moves [OF m(4)]) auto
  then show ?thesis
    using r(1,3) m(2) assms(2) sys_objects_released [OF m(3) r(2,4,5)] by (simp add: sys_ok_def mode_ok_def)
qed

lemma step_gave_up:
  assumes "sys_objects c0 y" "not_dead y" "gave_up e s" "same_sync (st y) s" "scheduler_status (st y) = SCH_STARTED"
    "\<And>x. env_status (envs s x) = (if x = e then v else env_status (envs (st y) x))" "k = K_dead \<longrightarrow> v = ENV_EXIT"
  shows "sys_ok c0 (y\<lparr>st := s, mode := At_back, kcont := (kcont y)(e := k)\<rparr>)"
proof -
  have "not_dead (y\<lparr>st := s, mode := At_back, kcont := (kcont y)(e := k)\<rparr>)"
    using assms(7) by (intro not_deadI [OF assms(2)]) (auto simp: assms(6) split: if_splits)
  then show ?thesis
    using assms(3-5) sys_objects_same(1) [OF assms(1), of s] by (auto simp: sys_ok_def mode_ok_def same_sync_def)
qed

lemma sys_ok_step:
  assumes "sys_step y y'" "sys_ok c0 y"
  shows "sys_ok c0 y'"
  using assms
proof cases
  case (clock_tick e saved s)
  then have m: "running e (st y)" "scheduler_status (st y) = SCH_STARTED" "sys_objects c0 y" "not_dead y"
    using assms(2) by (simp_all add: sys_ok_def mode_ok_def)
  from clock_irq_ok [OF m(1)] clock_tick have "gave_up e s" "same_sync (st y) s"
    "\<And>x. env_status (envs s x) = (if x = e then ENV_READY else env_status (envs (st y) x))" by auto
  then show ?thesis using step_gave_up [OF m(3,4) _ _ m(2)] clock_tick by auto
next
  case (running_exit e s)
  then have m: "running e (st y)" "scheduler_status (st y) = SCH_STARTED" "sys_objects c0 y" "not_dead y"
    using assms(2) by (simp_all add: sys_ok_def mode_ok_def)
  from env_exit_ok [OF m(1)] running_exit have "gave_up e s" "same_sync (st y) s"
    "\<And>x. env_status (envs s x) = (if x = e then ENV_EXIT else env_status (envs (st y) x))" by auto
  then show ?thesis using step_gave_up [OF m(3,4) _ _ m(2)] running_exit by auto
next
  case prompt_new
  then show ?thesis using step_new [OF assms(2)] by auto
next
  case prompt_run_env
  then show ?thesis using step_run_env(1) [OF assms(2)] by auto
next
  case prompt_run_env_enter
  then show ?thesis using step_run_env(2) [OF assms(2)] by auto
next
  case prompt_run_all
  then show ?thesis using step_run_all [OF assms(2)] by auto
next
  case sched_lock
  then show ?thesis using step_lock [OF assms(2)] by auto
next
  case pick_run
  then show ?thesis using step_pick(1) [OF assms(2)] by auto
next
  case pick_idle
  then show ?thesis using step_pick(2) [OF assms(2)] by auto
next
  case pick_prompt
  then show ?thesis using step_pick(3) [OF assms(2)] by auto
next
  case switch_back
  then show ?thesis using step_back [OF assms(2)] by auto
next
  case resume_done
  then show ?thesis using step_resume(1) [OF assms(2)] by auto
next
  case resume_blocked
  then show ?thesis using step_resume(2) [OF assms(2)] by auto
next
  case acquire_done
  then show ?thesis using step_acquire(1) [OF assms(2)] by auto
next
  case acquire_blocked
  then show ?thesis using step_acquire(2) [OF assms(2)] by auto
next
  case release_res
  then show ?thesis using step_release [OF assms(2)] by auto
next
  case running_new
  then show ?thesis using step_new [OF assms(2)] by auto
next
  case running_run_env
  then show ?thesis using step_run_env(1) [OF assms(2)] by auto
qed

lemma sys_ok_reach: "sys_reach y y' \<Longrightarrow> sys_ok c0 y \<Longrightarrow> sys_ok c0 y'"
  by (induction rule: sys_reach.induct) (auto intro: sys_ok_step)

section \<open>An example run\<close>

definition sys_ex :: sys where
  "sys_ex = \<lparr>st = (sched_state.extend (sched_ex SCH_PRIRR [[], [2, 1], [3]])
       (conc_state.fields (\<lambda>_. []) (\<lambda>_. 0) (\<lambda>_. False) (\<lambda>_. 0)))\<lparr>eflags_IF := False, scheduler_status := SCH_STOPPED\<rparr>,
     mode = At_prompt, kcont = (\<lambda>_. K_start), inside = (\<lambda>_. []), foreign = (\<lambda>_. False), signals = (\<lambda>_. 0), waits = (\<lambda>_. 0)\<rparr>"

lemma extend_sel [simp]:
  "env_ready_queues (sched_state.extend s x) = env_ready_queues s" "env_new_queue (sched_state.extend s x) = env_new_queue s"
  "env_exit_queue (sched_state.extend s x) = env_exit_queue s" "num_of_ready_queues (sched_state.extend s x) = num_of_ready_queues s"
  "envs (sched_state.extend s x) = envs s" "nenv (sched_state.extend s x) = nenv s" "quantums (sched_state.extend s x) = quantums s"
  "scheduler_method (sched_state.extend s x) = scheduler_method s" "buffering_enabled (sched_state.extend s x) = buffering_enabled s"
  "klocks (sched_state.extend s x) = klocks s" "ncli (sched_state.extend s x) = ncli s" "cpu_proc (sched_state.extend s x) = cpu_proc s"
  by (simp_all add: sched_state.defs)

lemma sys_ex_sel [simp]:
  "mode sys_ex = At_prompt" "kcont sys_ex = (\<lambda>_. K_start)" "inside sys_ex = (\<lambda>_. [])" "foreign sys_ex = (\<lambda>_. False)" "signals sys_ex = (\<lambda>_. 0)" "waits sys_ex = (\<lambda>_. 0)"
  "chan_queue (st sys_ex) = (\<lambda>_. [])" "sem_count (st sys_ex) = (\<lambda>_. 0)" "slk_locked (st sys_ex) = (\<lambda>_. False)"
  "eflags_IF (st sys_ex) = False" "scheduler_status (st sys_ex) = SCH_STOPPED" "cpu_proc (st sys_ex) = None"
  by (simp_all add: sys_ex_def) (simp_all add: sched_state.defs conc_state.defs)

lemma sys_ex_ok: "sys_ok (\<lambda>_. 0) sys_ex"
proof -
  let ?s = "st sys_ex" and ?t = "sched_ex SCH_PRIRR [[], [2, 1], [3]]"
  have e: "envs ?s = envs ?t" "env_ready_queues ?s = env_ready_queues ?t" "env_new_queue ?s = []" "env_exit_queue ?s = []"
    "num_of_ready_queues ?s = 3" "nenv ?s = 8" "quantums ?s = [10]" "scheduler_method ?s = SCH_PRIRR" "buffering_enabled ?s = False"
    "klocks ?s = (\<lambda>_. free_lock)" "ncli ?s = 0"
    by (simp_all add: sys_ex_def)
  have st: "env_status (envs ?t x) = (if x \<in> {1, 2, 3} then ENV_READY else ENV_FREE)" for x by (auto simp: null_env_def)
  have a: "active (envs ?t x) \<longleftrightarrow> x \<in> {1, 2, 3}" for x by (auto simp: active_def null_env_def)
  have q: "queues_ok ?s"
    using e by (simp add: queues_ok_def ready_ok_def new_ok_def exit_ok_def numeral_3_eq_3 less_Suc_eq all_conj_distrib)
  have sd: "x < 8 \<and> sound_env 3 (envs ?t x)" if "x \<in> {1, 2, 3}" for x using that by (auto simp: sound_env_def)
  have l: "live_ok 8 3 (envs ?t)" unfolding live_ok_def a using sd by blast
  have id: "env_id (envs ?t x) = int x" if "x \<in> {1, 2, 3}" for x using that by auto
  have i: "ids_ok (envs ?t)" unfolding ids_ok_def a using id by force
  have p: "all_placed None ?s"
    unfolding all_placed_def
  proof
    fix x
    have "in_ready x ?s" if "x \<in> {1, 2, 3}" using that e(2) by (auto simp: in_ready_def)
    then show "at_place None ?s x" unfolding at_place_def e(1) st by auto
  qed
  have c: "conf_ok ?s" using e sched_ex_quantum [of SCH_PRIRR] by (simp add: conf_ok_def quantum_ok_def)
  have "sched_inv None ?s" using q l i p c e by (simp add: sched_inv_def blocked_ok_def)
  moreover have "holds {} ?s" using e by (simp add: holds_def cpu_ok_def)
  moreover have "not_dead sys_ex" by (simp add: not_dead_def)
  moreover have "sys_objects (\<lambda>_. 0) sys_ex" by (simp add: sys_objects_def objects_ok_def waits_ok_def counted_def wrap32_def)
  ultimately show ?thesis by (simp add: sys_ok_def mode_ok_def)
qed

text \<open>From here to a running process: run all, lock, choose, start.\<close>

lemma sys_ex_runs:
  "\<exists>y e. sys_reach sys_ex y \<and> mode y = Running e \<and> running e (st y) \<and> inside y = (\<lambda>_. []) \<and>
    slk_locked (st y) = (\<lambda>_. False) \<and> sem_count (st y) = (\<lambda>_. 0) \<and> foreign y = (\<lambda>_. False) \<and> signals y = (\<lambda>_. 0)"
proof -
  have m0: "sched_inv None (st sys_ex)" "holds {} (st sys_ex)" using sys_ex_ok by (simp_all add: sys_ok_def mode_ok_def)
  have r1: "env_status (envs (st sys_ex) 1) = ENV_READY" by (simp add: sys_ex_def)
  from sched_run_all_ok [OF m0 sys_ex_sel(11)] obtain s1 where
    s1: "sched_run_all (st sys_ex) = Some (Enter_scheduler, s1)" "sched_inv None s1" "holds {} s1" "\<not> eflags_IF s1" "cpu_proc s1 = None"
      "slk_locked s1 = (\<lambda>_. False)" "sem_count s1 = (\<lambda>_. 0)"
    and a1: "\<forall>x. env_status (envs s1 x) = env_status (envs (st sys_ex) x) \<or>
      env_status (envs (st sys_ex) x) = ENV_NEW \<and> env_status (envs s1 x) = ENV_READY" by auto
  have e1: "env_status (envs s1 1) = ENV_READY" using spec [OF a1, of 1] r1 by auto
  from fos_scheduler_enter_ok [OF s1(2,3,5,4), of "kcont sys_ex"] obtain s2 where
    s2: "fos_scheduler_enter s1 = Some s2" "mode_ok At_outer (kcont sys_ex) s2" "envs s2 = envs s1" "slk_locked s2 = (\<lambda>_. False)"
      "sem_count s2 = (\<lambda>_. 0)" using s1(6,7) by auto
  let ?y2 = "sys_ex\<lparr>st := s2, mode := At_outer\<rparr>"
  have t2: "sys_reach sys_ex ?y2" using prompt_run_all [OF _ s1(1) s2(1)] by (auto intro: sys_more sys_start)
  from fos_scheduler_lock_ok [OF s2(2)] obtain s3 where
    s3: "fos_scheduler_lock s2 = Some s3" "mode_ok At_choice (kcont sys_ex) s3" "envs s3 = envs s2" "same_sync s2 s3" by auto
  let ?y3 = "?y2\<lparr>st := s3, mode := At_choice\<rparr>"
  have t3: "sys_reach sys_ex ?y3" using sys_more [OF t2 sched_lock [of ?y2 s3]] s3(1) by simp
  have c: "sched_inv (cpu_proc s3) s3" "holds {QLOCK} s3" "cur_ok s3" using s3(2) by (simp_all add: mode_ok_def)
  have "env_status (envs s3 1) = ENV_READY" using s3(3) s2(3) e1 by simp
  moreover have "at_place (cpu_proc s3) s3 1" using sched_invD(5) [OF c(1)] by (simp add: all_placed_def)
  ultimately have "runnable 1 s3" by (auto simp: at_place_def runnable_def)
  then obtain e s4 where
    s4: "fos_scheduler_pick s3 = Some (Run e, s4)" "sched_inv (Some e) s4" "holds {QLOCK} s4" "cpu_proc s4 = Some e"
      "envs s4 = (envs s3)(e := (envs s3 e)\<lparr>env_status := ENV_RUNNING\<rparr>)" "same_sync s3 s4"
    using fos_scheduler_pick_ok [OF c] by blast
  let ?y4 = "?y3\<lparr>st := s4, mode := Resuming e\<rparr>"
  have t4: "sys_reach sys_ex ?y4" using sys_more [OF t3 pick_run [of ?y3 e s4]] s4(1) by simp
  have r4: "env_status (envs s4 e) = ENV_RUNNING" using s4(5) by simp
  from resume_ok [OF s4(2-4) r4, of K_start] obtain s5 where
    s5: "resume K_start s4 = Some (Done, s5)" "running e s5" "slk_locked s5 = slk_locked s4" "sem_count s5 = sem_count s4" by auto
  let ?y5 = "?y4\<lparr>st := s5, mode := Running e\<rparr>"
  have t5: "sys_reach sys_ex ?y5" using sys_more [OF t4 resume_done [of ?y4 e s5 ?y4]] s5(1) by simp
  then show ?thesis using s5 s4(6) s3(4) s2(4,5) by (intro exI [of _ ?y5] exI [of _ e]) (simp add: same_sync_def)
qed

text \<open>It takes sleep lock 0, or sleeps on a semaphore whose value is 0.\<close>

lemma sys_ex_acquires: "\<exists>y e. sys_reach sys_ex y \<and> mode y = Running e \<and> inside y 0 = [e] \<and> \<not> foreign y 0 \<and> signals y 0 = 0"
proof -
  from sys_ex_runs obtain y e where y: "sys_reach sys_ex y" "mode y = Running e" "running e (st y)" "inside y = (\<lambda>_. [])"
    "slk_locked (st y) = (\<lambda>_. False)" "foreign y = (\<lambda>_. False)" "signals y = (\<lambda>_. 0)" by blast
  from res_acquire_cases [OF y(3), of "SLK 0"] y(5) obtain s where s: "res_acquire (SLK 0) (st y) = Some (Done, s)"
    by (auto simp: available_def)
  show ?thesis
    using sys_more [OF y(1) acquire_done [OF y(2) s]] y(2,4,6,7)
    by (intro exI [of _ "(note_acquired (SLK 0) e y)\<lparr>st := s\<rparr>"] exI [of _ e]) (simp add: note_acquired_def)
qed

lemma sys_ex_sleeps: "\<exists>y e. sys_reach sys_ex y \<and> e \<in> set (chan_queue (st y) (chan_of (SEM 0)))"
proof -
  from sys_ex_runs obtain y e where y: "sys_reach sys_ex y" "mode y = Running e" "running e (st y)" "sem_count (st y) = (\<lambda>_. 0)" by blast
  from res_acquire_cases [OF y(3), of "SEM 0"] y(4) obtain s where
    s: "res_acquire (SEM 0) (st y) = Some (Blocked (eflags_IF (st y)), s)" "slept e (chan_of (SEM 0)) (st y) s"
    by (auto simp: available_def)
  show ?thesis
    using sys_more [OF y(1) acquire_blocked [OF y(2) s(1)]] s(2)
    by (intro exI [of _ "y\<lparr>st := s, mode := At_back, kcont := (kcont y)(e := K_res (SEM 0) (eflags_IF (st y)))\<rparr>"] exI [of _ e])
      (simp add: slept_def)
qed

section \<open>Theorems\<close>



lemma foreign_release_opens:
  assumes "running e s"
  shows "\<exists>s1 s2. release_sleeplock n s = Some s1 \<and> acquire_sleeplock n s1 = Some (Done, s2)"
proof -
  from res_release_ok [OF assms, of "SLK n"] obtain s1 where s1: "res_release (SLK n) s = Some s1" "running e s1" "\<not> slk_locked s1 n"
    by (auto simp: given_l_def)
  then show ?thesis using res_acquire_cases [OF s1(2), of "SLK n"] by (auto simp: res_release_def res_acquire_def available_def)
qed

text \<open>
  C2: mutual exclusion.  In every reachable state at most one process has acquired a sleep lock and not
  released it, and the lock is marked as locked exactly when there is one, provided that no process has ever released it without having
  acquired it.  \<open>release_sleeplock\<close> does not check that: after such a release whoever runs gets the lock
  (\<open>foreign_release_opens\<close>).
\<close>

theorem sleeplock_mutual_exclusion:
  assumes "sys_ok c0 y0" "sys_reach y0 y"
  shows "\<not> foreign y n \<longrightarrow> length (inside y n) \<le> 1 \<and> (slk_locked (st y) n \<longleftrightarrow> inside y n \<noteq> [])"
  using sys_ok_reach [OF assms(2,1)] by (auto simp: sys_ok_def sys_objects_def objects_ok_def)

theorem sleeplock_mutual_exclusion_witness:
  "\<exists>y e. sys_reach sys_ex y \<and> mode y = Running e \<and> inside y 0 = [e] \<and> slk_locked (st y) 0"
proof -
  from sys_ex_acquires obtain y e where y: "sys_reach sys_ex y" "mode y = Running e" "inside y 0 = [e]" "\<not> foreign y 0" by blast
  show ?thesis using sleeplock_mutual_exclusion [OF sys_ex_ok y(1), of 0] y by (intro exI [of _ y] exI [of _ e]) simp
qed

text \<open>
  C3: semaphores count.  In every reachable state the value of a semaphore is its initial value plus the
  number of signals minus the number of waits that have returned, in the arithmetic of the 32-bit counter.  As long as the initial
  value and the signals together stay below \<open>2 ^ 31\<close> this holds of the integers, and the value does not fall below 0 or below a negative
  initial value.
\<close>

theorem semaphore_counts:
  assumes "sys_ok c0 y0" "sys_reach y0 y"
  shows "sem_count (st y) n = wrap32 (c0 n + signals y n - waits y n) \<and>
    (- (2 ^ 31) \<le> c0 n \<and> c0 n + signals y n < 2 ^ 31 \<longrightarrow>
      sem_count (st y) n = c0 n + signals y n - waits y n \<and> min (c0 n) 0 \<le> sem_count (st y) n)"
proof -
  have "counted (c0 n) (sem_count (st y) n) (signals y n) (waits y n)"
    using sys_ok_reach [OF assms(2,1)] by (simp add: sys_ok_def sys_objects_def objects_ok_def)
  then show ?thesis unfolding counted_def by blast
qed

theorem semaphore_counts_witness:
  "\<exists>y e. sys_reach sys_ex y \<and> mode y = Running e \<and> sem_count (st y) 0 = signals y 0 - waits y 0 \<and> 0 \<le> sem_count (st y) 0"
proof -
  from sys_ex_acquires obtain y e where y: "sys_reach sys_ex y" "mode y = Running e" "signals y 0 = 0" by blast
  show ?thesis using semaphore_counts [OF sys_ex_ok y(1), of 0] y by (intro exI [of _ y] exI [of _ e]) simp
qed

text \<open>
  C4: no lost wake-up.  A process sleeps on a semaphore only while its value is 0, and on a sleep lock only
  while the lock is held; when the object is released, every process that slept on it is in a ready queue.
\<close>

theorem no_lost_wakeup:
  assumes "sys_ok c0 y0" "sys_reach y0 y" "x \<in> set (chan_queue (st y) (chan_of r))"
  shows "\<not> available r (sem_count (st y)) (slk_locked (st y)) \<and>
    (\<forall>e. mode y = Running e \<longrightarrow> (\<exists>s'. res_release r (st y) = Some s' \<and> in_ready x s'))"
proof (intro conjI allI impI)
  have ok: "sys_ok c0 y" by (rule sys_ok_reach [OF assms(2,1)])
  have "chan_queue (st y) (chan_of r) \<noteq> []" using assms(3) by auto
  with ok show "\<not> available r (sem_count (st y)) (slk_locked (st y))"
    by (cases r) (auto simp: sys_ok_def sys_objects_def objects_ok_def waits_ok_def res_defs dest: leD)
  fix e
  assume "mode y = Running e"
  then have r: "running e (st y)" using ok by (simp add: sys_ok_def mode_ok_def)
  from res_release_ok [OF r, of r] obtain s' where
    s': "res_release r (st y) = Some s'" "running e s'" "chan_queue s' = (chan_queue (st y))(chan_of r := [])"
      "env_status (envs s' x) = env_status (envs (st y) x) \<or>
        env_status (envs (st y) x) = ENV_BLOCKED \<and> env_status (envs s' x) = ENV_READY" by auto
  have b: "blocked_ok (chan_queue (st y)) (envs (st y))" using r sched_invD(2) by (auto simp: running_def)
  have p: "all_placed (Some e) s'" using s'(2) sched_invD(5) by (auto simp: running_def)
  have x: "env_status (envs (st y) x) = ENV_BLOCKED" using b assms(3) unfolding blocked_ok_def by blast
  have u: "c = chan_of r" if "x \<in> set (chan_queue (st y) c)" for c
    using b that assms(3) unfolding blocked_ok_def by blast
  have "x \<notin> set (chan_queue s' c)" for c using u [of c] s'(3) by auto
  then have rd: "env_status (envs s' x) = ENV_READY"
    using p s'(4) x by (auto simp: all_placed_def at_place_def dest!: spec [of _ x])
  then have "x \<noteq> e" using s'(2) by (auto simp: running_def)
  then have "in_ready x s'" using p rd by (auto simp: all_placed_def at_place_def dest!: spec [of _ x])
  then show "\<exists>s'. res_release r (st y) = Some s' \<and> in_ready x s'" using s'(1) by blast
qed

theorem no_lost_wakeup_witness:
  "\<exists>y e. sys_reach sys_ex y \<and> e \<in> set (chan_queue (st y) (SEM_CHAN 0)) \<and> \<not> 0 < sem_count (st y) 0"
proof -
  from sys_ex_sleeps obtain y e where y: "sys_reach sys_ex y" "e \<in> set (chan_queue (st y) (chan_of (SEM 0)))" by blast
  show ?thesis using no_lost_wakeup [OF sys_ex_ok y] y by (intro exI [of _ y] exI [of _ e]) (simp add: res_defs)
qed

end
