(* ===== verification/FOS_Disk.thy ===== *)
theory FOS_Disk
  imports FOS_Conc
begin

unbundle bit_operations_syntax

text \<open>
  The page file (\<open>kern/disk/pagefile_manager.c\<close>): the free list of disk frames, the disk page directory and
  tables of each process, and the operations that add, update, read and remove pages.

  The sector transfers \<open>ide_read\<close> and \<open>ide_write\<close> are outside the repository: they are the fields of a record
  that the operations take as an argument.  A page of memory is read or written through the processor's
  page tables, \<open>mmu_walk\<close> (cached translations agree with them); an access that would fault inside the kernel
  is \<open>None\<close>.  A disk directory or
  table is represented by the frame it is in, like a page directory.
\<close>

section \<open>State\<close>

text \<open>The contents of the disk are indexed by the first sector of a page.\<close>

record disk_state = conc_state +
  disk_free_frame_list :: "nat list"
  disk_pages :: "u32 \<Rightarrow> u32 \<Rightarrow> u32"

record 's ide_ops =
  ide_read :: "u32 \<Rightarrow> u32 \<Rightarrow> u32 \<Rightarrow> 's \<Rightarrow> (int \<times> 's) option"
  ide_write :: "u32 \<Rightarrow> u32 \<Rightarrow> u32 \<Rightarrow> 's \<Rightarrow> (int \<times> 's) option"

definition E_NO_VM :: int where [fos_consts]: "E_NO_VM = -20"
definition SECTOR_SIZE :: u32 where [fos_consts]: "SECTOR_SIZE = 512"
definition PAGE_FILE_START_SECTOR :: u32 where "PAGE_FILE_START_SECTOR = push_bit 20 20 div SECTOR_SIZE"
definition SECTOR_PER_PAGE :: u32 where "SECTOR_PER_PAGE = PAGE_SIZE div SECTOR_SIZE"
definition PAGE_FILE_SIZE :: u32 where "PAGE_FILE_SIZE = push_bit 20 520"
definition PAGES_PER_FILE :: u32 where "PAGES_PER_FILE = PAGE_FILE_SIZE div PAGE_SIZE"

text \<open>
  The product wraps: \<open>24 * USER_TOP\<close> does not fit 32 bits, so the stack may grow further down than the
  comment in \<open>inc/memlayout.h\<close> shows.
\<close>

definition SIZEOF_WS :: u32 where [fos_consts]: "SIZEOF_WS = 24"
definition USER_PAGES_WS_MAX :: u32 where "USER_PAGES_WS_MAX = USER_HEAP_MAX + SIZEOF_WS * USER_TOP div PAGE_SIZE"
definition USTACKBOTTOM :: u32 where "USTACKBOTTOM = ROUNDUP USER_PAGES_WS_MAX PAGE_SIZE"
definition ptr_zero_page :: u32 where "ptr_zero_page = KERNEL_BASE + PAGE_SIZE"

section \<open>Memory as the processor sees it\<close>

text \<open>The table and the entry that the processor finds for an address in the current address space.\<close>

definition mmu_table :: "u32 \<Rightarrow> 'z mem_state_scheme \<Rightarrow> frame option" where
  "mmu_table va s =
     (let pde = phys s (unat (PPN (cpu_cr3 s))) (PDX va)
      in if pde AND PERM_PRESENT = 0 then None else Some (unat (PPN pde)))"

definition mmu_walk :: "u32 \<Rightarrow> 'z mem_state_scheme \<Rightarrow> frame option" where
  "mmu_walk va s = do {
     t \<leftarrow> mmu_table va s;
     let pte = phys s t (PTX va);
     if pte AND PERM_PRESENT = 0 then None else Some (unat (PPN pte)) }"

text \<open>Writing to a page sets the bits \<open>PERM_USED\<close> and \<open>PERM_MODIFIED\<close> of its entry.\<close>

definition mmu_touch :: "u32 \<Rightarrow> 'z mem_state_scheme \<Rightarrow> 'z mem_state_scheme option" where
  "mmu_touch va s = do {
     t \<leftarrow> mmu_table va s;
     Some (write_phys t (PTX va) (phys s t (PTX va) OR PERM_USED OR PERM_MODIFIED) s) }"

section \<open>Disk frames\<close>

definition disk_sector :: "u32 \<Rightarrow> u32" where
  "disk_sector dfn = PAGE_FILE_START_SECTOR + dfn * SECTOR_PER_PAGE"

definition read_disk_page ::
  "'z disk_state_scheme ide_ops \<Rightarrow> u32 \<Rightarrow> u32 \<Rightarrow> 'z disk_state_scheme \<Rightarrow> (int \<times> 'z disk_state_scheme) option" where
  "read_disk_page ide dfn va s = ide_read ide (disk_sector dfn) va SECTOR_PER_PAGE s"

definition write_disk_page ::
  "'z disk_state_scheme ide_ops \<Rightarrow> u32 \<Rightarrow> u32 \<Rightarrow> 'z disk_state_scheme \<Rightarrow> (int \<times> 'z disk_state_scheme) option" where
  "write_disk_page ide dfn va s = do {
     (success, s1) \<leftarrow> ide_write ide (disk_sector dfn) va SECTOR_PER_PAGE s;
     assert_that (success = 0);
     Some (success, s1) }"

text \<open>\<open>initialize_frame_info\<close> on a disk frame only resets fields that no function reads.\<close>

primrec insert_disk_frames :: "nat list \<Rightarrow> 'z disk_state_scheme \<Rightarrow> 'z disk_state_scheme option" where
  "insert_disk_frames [] s = Some s"
| "insert_disk_frames (i # is) s = do {
     l \<leftarrow> insert_l i (disk_free_frame_list s);
     insert_disk_frames is (s\<lparr>disk_free_frame_list := l\<rparr>) }"

definition initialize_disk_page_file :: "'z disk_state_scheme \<Rightarrow> 'z disk_state_scheme option" where
  "initialize_disk_page_file s = do {
     s1 \<leftarrow> insert_disk_frames [1..<unat PAGES_PER_FILE] (s\<lparr>disk_free_frame_list := []\<rparr>);
     Some (init_kspinlock DFLLOCK s1) }"

definition allocate_disk_frame :: "'z disk_state_scheme \<Rightarrow> ((int \<times> u32) \<times> 'z disk_state_scheme) option" where
  "allocate_disk_frame s = do {
     s1 \<leftarrow> acquire_kspinlock DFLLOCK s;
     (r, s2) \<leftarrow> (case first_of (disk_free_frame_list s1) None of
        None \<Rightarrow> Some ((E_NO_PAGE_FILE_SPACE, 0), s1)
      | Some f \<Rightarrow> do {
          l \<leftarrow> remove_l f (disk_free_frame_list s1);
          Some ((0, of_nat f), s1\<lparr>disk_free_frame_list := l\<rparr>) });
     s3 \<leftarrow> release_kspinlock DFLLOCK s2;
     Some (r, s3) }"

definition free_disk_frame :: "u32 \<Rightarrow> 'z disk_state_scheme \<Rightarrow> 'z disk_state_scheme option" where
  "free_disk_frame dfn s =
     (if dfn = 0 then Some s
      else do {
        s1 \<leftarrow> acquire_kspinlock DFLLOCK s;
        l \<leftarrow> insert_l (unat dfn) (disk_free_frame_list s1);
        release_kspinlock DFLLOCK (s1\<lparr>disk_free_frame_list := l\<rparr>) })"

section \<open>Disk directories and tables\<close>

text \<open>
  One page for a directory or table: from the kernel heap, or without it a frame.  The result is the
  pointer (null when the heap is full) and the physical address.
\<close>

definition new_disk_page :: "'z disk_state_scheme \<Rightarrow> ((frame option \<times> u32) \<times> 'z disk_state_scheme) option" where
  "new_disk_page s =
     (if use_kheap s then do {
        (ptr, s1) \<leftarrow> kmalloc no_blocks PAGE_SIZE s;
        if ptr = 0 then Some ((None, 0), s1)
        else do {
          pa \<leftarrow> kheap_physical_address ptr s1;
          Some ((Some (unat (PPN pa)), pa), s1) } }
      else do {
        (f, s1) \<leftarrow> allocate_frame s;
        let s2 = fi_upd f (\<lambda>fi. fi\<lparr>references := 1\<rparr>) s1;
        kva \<leftarrow> STATIC_KERNEL_VIRTUAL_ADDRESS (to_physical_address f) s2;
        Some ((Some f, to_physical_address f), s2) })"

definition free_disk_page ::
  "'z disk_state_scheme dynalloc \<Rightarrow> frame \<Rightarrow> u32 \<Rightarrow> 'z disk_state_scheme \<Rightarrow> 'z disk_state_scheme option" where
  "free_disk_page da f pa s =
     (if use_kheap s then do {
        (u, s1) \<leftarrow> kfree da (kheap_mapped_va (frames_info s f)) s;
        Some s1 }
      else do {
        g \<leftarrow> to_frame_info pa s;
        (u, s1) \<leftarrow> decrement_references g s;
        Some s1 })"

text \<open>The pointer to a table: by the kernel heap for user addresses, by the static mapping otherwise.\<close>

definition disk_table_ptr :: "u32 \<Rightarrow> u32 \<Rightarrow> 'z mem_state_scheme \<Rightarrow> frame option option" where
  "disk_table_ptr va pa s =
     (if use_kheap s \<and> \<not> CHECK_IF_KERNEL_ADDRESS va then Some (kheap_table_ptr pa s)
      else do {
        kva \<leftarrow> STATIC_KERNEL_VIRTUAL_ADDRESS pa s;
        Some (Some (unat (PPN pa))) })"

definition get_disk_page_directory :: "env_ptr \<Rightarrow> 'z disk_state_scheme \<Rightarrow> (int \<times> 'z disk_state_scheme) option" where
  "get_disk_page_directory e s =
     (case disk_env_pgdir (envs s e) of
        Some d \<Rightarrow> Some (0, s)
      | None \<Rightarrow> do {
          ((p, pa), s1) \<leftarrow> new_disk_page s;
          case p of
            None \<Rightarrow> Some (E_NO_VM, s1)
          | Some f \<Rightarrow>
              Some (0, clear_frame f (envs_upd e (\<lambda>x. x\<lparr>disk_env_pgdir := Some f, disk_env_pgdir_PA := pa\<rparr>) s1)) })"

definition get_disk_page_table ::
  "frame \<Rightarrow> u32 \<Rightarrow> bool \<Rightarrow> 'z disk_state_scheme \<Rightarrow> ((int \<times> frame option) \<times> 'z disk_state_scheme) option" where
  "get_disk_page_table dir va create s = do {
     let entry = phys s dir (PDX va);
     tbl \<leftarrow> disk_table_ptr va (EXTRACT_ADDRESS entry) s;
     if entry \<noteq> 0 then Some ((0, tbl), s)
     else if create then do {
       ((p, pa), s1) \<leftarrow> new_disk_page s;
       case p of
         None \<Rightarrow> Some ((E_NO_VM, None), s1)
       | Some t \<Rightarrow>
           Some ((0, Some t), clear_frame t (write_phys dir (PDX va) (CONSTRUCT_ENTRY pa PERM_PRESENT) s1)) }
     else Some ((0, None), s) }"

text \<open>
  What \<open>pf_add_empty_env_page\<close> and \<open>pf_add_env_page\<close> share: the table of the page is found or made, and
  the page gets a disk frame when it has none.  The callers ignore the result of the two \<open>get\<close>
  functions, so without memory they read through a null pointer.
\<close>

definition pf_assign_frame :: "env_ptr \<Rightarrow> u32 \<Rightarrow> 'z disk_state_scheme \<Rightarrow> ((int \<times> u32) \<times> 'z disk_state_scheme) option" where
  "pf_assign_frame e va s = do {
     assert_that (va < KERNEL_BASE);
     (r, s1) \<leftarrow> get_disk_page_directory e s;
     dir \<leftarrow> disk_env_pgdir (envs s1 e);
     ((r, tbl), s2) \<leftarrow> get_disk_page_table dir va True s1;
     t \<leftarrow> tbl;
     let dfn = phys s2 t (PTX va);
     if dfn = 0
     then do {
       ((r, dfn), s3) \<leftarrow> allocate_disk_frame s2;
       if r = E_NO_PAGE_FILE_SPACE then Some ((E_NO_PAGE_FILE_SPACE, 0), s3)
       else Some ((0, dfn), write_phys t (PTX va) dfn s3) }
     else Some ((0, dfn), s2) }"

section \<open>Pages of a process\<close>

definition pf_add_env_page ::
  "'z disk_state_scheme ide_ops \<Rightarrow> env_ptr \<Rightarrow> u32 \<Rightarrow> u32 \<Rightarrow> 'z disk_state_scheme \<Rightarrow> (int \<times> 'z disk_state_scheme) option" where
  "pf_add_env_page ide e va dataSrc s = do {
     ((r, dfn), s1) \<leftarrow> pf_assign_frame e va s;
     if r = E_NO_PAGE_FILE_SPACE then Some (E_NO_PAGE_FILE_SPACE, s1)
     else write_disk_page ide dfn dataSrc s1 }"

definition pf_add_empty_env_page ::
  "'z disk_state_scheme ide_ops \<Rightarrow> env_ptr \<Rightarrow> u32 \<Rightarrow> bool \<Rightarrow> 'z disk_state_scheme \<Rightarrow> (int \<times> 'z disk_state_scheme) option" where
  "pf_add_empty_env_page ide e va initializeByZero s =
     (if initializeByZero
      then pf_add_env_page ide e va ptr_zero_page
             (if va > USTACKBOTTOM \<and> va < USTACKTOP - initNumStackPages (envs s e) * PAGE_SIZE
              then envs_upd e (\<lambda>x. x\<lparr>nNewPageAdded := nNewPageAdded x + 1\<rparr>) s else s)
      else do {
        ((r, dfn), s1) \<leftarrow> pf_assign_frame e va s;
        Some (if r = E_NO_PAGE_FILE_SPACE then E_NO_PAGE_FILE_SPACE else 0, s1) })"

text \<open>The addresses at which a page may appear that the program file does not have.\<close>

definition in_heap_or_stack :: "u32 \<Rightarrow> bool" where
  "in_heap_or_stack va \<longleftrightarrow> (va \<ge> USER_HEAP_START \<and> va < USER_HEAP_MAX) \<or> (va \<ge> USTACKBOTTOM \<and> va < USTACKTOP)"

text \<open>
  Writing the page out: with the kernel heap through its own address, with \<open>PERM_PRESENT\<close> set for the
  time of the transfer and \<open>PERM_MODIFIED\<close> cleared afterwards; otherwise through the static mapping.
\<close>

definition pf_write_back ::
  "'z disk_state_scheme ide_ops \<Rightarrow> env_ptr \<Rightarrow> u32 \<Rightarrow> frame option \<Rightarrow> u32 \<Rightarrow> 'z disk_state_scheme \<Rightarrow> (int \<times> 'z disk_state_scheme) option" where
  "pf_write_back ide e va frm dfn s =
     (if use_kheap s then do {
        dir \<leftarrow> env_page_directory (envs s e);
        (r, tbl) \<leftarrow> get_page_table dir va s;
        t \<leftarrow> tbl;
        let origPerms = phys s t (PTX va) AND 0xFFF;
        let s1 = (if origPerms AND PERM_PRESENT = 0 then write_phys t (PTX va) (phys s t (PTX va) OR PERM_PRESENT) s else s);
        (ret, s2) \<leftarrow> write_disk_page ide dfn (ROUNDDOWN va PAGE_SIZE) s1;
        let s3 = write_phys t (PTX va) (phys s2 t (PTX va) AND 0xFFFFF000) s2;
        let s4 = write_phys t (PTX va) (phys s3 t (PTX va) OR origPerms) s3;
        let s5 = write_phys t (PTX va) (phys s4 t (PTX va) AND NOT PERM_MODIFIED) s4;
        Some (ret, s5) }
      else do {
        f \<leftarrow> frm;
        kva \<leftarrow> STATIC_KERNEL_VIRTUAL_ADDRESS (to_physical_address f) s;
        write_disk_page ide dfn kva s })"

definition pf_update_env_page ::
  "'z disk_state_scheme ide_ops \<Rightarrow> env_ptr \<Rightarrow> u32 \<Rightarrow> frame option \<Rightarrow> 'z disk_state_scheme \<Rightarrow> (int \<times> 'z disk_state_scheme) option" where
  "pf_update_env_page ide e va modified_page_frame_info s = do {
     assert_that (va < KERNEL_BASE);
     (r, s1) \<leftarrow> get_disk_page_directory e s;
     dir \<leftarrow> disk_env_pgdir (envs s1 e);
     ((r, tbl), s2) \<leftarrow> get_disk_page_table dir va False s1;
     s3 \<leftarrow> (if (case tbl of None \<Rightarrow> True | Some t \<Rightarrow> phys s2 t (PTX va) = 0)
            then do {
              assert_that (in_heap_or_stack va);
              (ret, s3) \<leftarrow> pf_add_empty_env_page ide e va False s2;
              assert_that (ret \<noteq> E_NO_PAGE_FILE_SPACE);
              Some (envs_upd e (\<lambda>x. x\<lparr>nNewPageAdded := nNewPageAdded x + 1\<rparr>) s3) }
            else Some s2);
     dir \<leftarrow> disk_env_pgdir (envs s3 e);
     ((r, tbl), s4) \<leftarrow> get_disk_page_table dir va False s3;
     t \<leftarrow> tbl;
     (ret, s5) \<leftarrow> pf_write_back ide e va modified_page_frame_info (phys s4 t (PTX va)) s4;
     Some (ret, envs_upd e (\<lambda>x. x\<lparr>nPageOut := nPageOut x + 1\<rparr>) s5) }"

definition pf_read_env_page ::
  "'z disk_state_scheme ide_ops \<Rightarrow> env_ptr \<Rightarrow> u32 \<Rightarrow> 'z disk_state_scheme \<Rightarrow> (int \<times> 'z disk_state_scheme) option" where
  "pf_read_env_page ide e virtual_address s =
     (let va = ROUNDDOWN virtual_address PAGE_SIZE
      in case disk_env_pgdir (envs s e) of
           None \<Rightarrow> Some (E_PAGE_NOT_EXIST_IN_PF, s)
         | Some dir \<Rightarrow> do {
             ((r, tbl), s1) \<leftarrow> get_disk_page_table dir va False s;
             case tbl of
               None \<Rightarrow> Some (E_PAGE_NOT_EXIST_IN_PF, s1)
             | Some t \<Rightarrow>
                 if phys s1 t (PTX va) = 0 then Some (E_PAGE_NOT_EXIST_IN_PF, s1)
                 else do {
                   (disk_read_error, s2) \<leftarrow> read_disk_page ide (phys s1 t (PTX va)) va s1;
                   pd \<leftarrow> env_page_directory (envs s2 e);
                   (u, s3) \<leftarrow> pt_set_page_permissions pd va 0 PERM_MODIFIED s2;
                   Some (disk_read_error, envs_upd e (\<lambda>x. x\<lparr>nPageIn := nPageIn x + 1\<rparr>) s3) } })"

definition pf_remove_env_page :: "env_ptr \<Rightarrow> u32 \<Rightarrow> 'z disk_state_scheme \<Rightarrow> 'z disk_state_scheme option" where
  "pf_remove_env_page e va s =
     (case disk_env_pgdir (envs s e) of
        None \<Rightarrow> Some s
      | Some dir \<Rightarrow> do {
          ((r, tbl), s1) \<leftarrow> get_disk_page_table dir va False s;
          case tbl of
            None \<Rightarrow> Some s1
          | Some t \<Rightarrow> free_disk_frame (phys s1 t (PTX va)) (write_phys t (PTX va) 0 s1) })"

section \<open>Freeing and counting\<close>

text \<open>The words of a frame, in order: the disk frames they hold are released and the words cleared.\<close>

fun free_entries :: "frame \<Rightarrow> nat list \<Rightarrow> 'z disk_state_scheme \<Rightarrow> 'z disk_state_scheme option" where
  "free_entries t [] s = Some s"
| "free_entries t (i # is) s = do {
     s1 \<leftarrow> free_disk_frame (phys s t (of_nat i)) (write_phys t (of_nat i) 0 s);
     free_entries t is s1 }"

text \<open>The pointer to a present table, as the loops over a disk directory compute it.\<close>

definition present_table :: "u32 \<Rightarrow> 'z mem_state_scheme \<Rightarrow> frame option" where
  "present_table entry s =
     (if use_kheap s then kheap_table_ptr (EXTRACT_ADDRESS entry) s
      else do {
        kva \<leftarrow> STATIC_KERNEL_VIRTUAL_ADDRESS (EXTRACT_ADDRESS entry) s;
        Some (unat (PPN (EXTRACT_ADDRESS entry))) })"

fun free_disk_tables ::
  "'z disk_state_scheme dynalloc \<Rightarrow> frame \<Rightarrow> nat list \<Rightarrow> 'z disk_state_scheme \<Rightarrow> 'z disk_state_scheme option" where
  "free_disk_tables da dir [] s = Some s"
| "free_disk_tables da dir (pdeno # is) s =
     (let entry = phys s dir (of_nat pdeno)
      in if entry AND PERM_PRESENT = 0 then free_disk_tables da dir is s
         else do {
           t \<leftarrow> present_table entry s;
           s1 \<leftarrow> free_entries t [0..<1024] s;
           let s2 = write_phys dir (of_nat pdeno) 0 s1;
           s3 \<leftarrow> free_disk_page da t (EXTRACT_ADDRESS entry) s2;
           free_disk_tables da dir is s3 })"

definition pf_remove_env_all_tables :: "env_ptr \<Rightarrow> 'z disk_state_scheme \<Rightarrow> 'z disk_state_scheme option" where
  "pf_remove_env_all_tables e s =
     (case disk_env_tabledir (envs s e) of
        None \<Rightarrow> Some s
      | Some d \<Rightarrow> free_entries d [0..<unat (PDX USER_TOP)] s)"

definition pf_free_env ::
  "'z disk_state_scheme dynalloc \<Rightarrow> env_ptr \<Rightarrow> 'z disk_state_scheme \<Rightarrow> 'z disk_state_scheme option" where
  "pf_free_env da e s = do {
     dir \<leftarrow> disk_env_pgdir (envs s e);
     s1 \<leftarrow> free_disk_tables da dir [0..<unat (PDX USER_TOP)] s;
     s2 \<leftarrow> free_disk_page da dir (disk_env_pgdir_PA (envs s1 e)) s1;
     let s3 = envs_upd e (\<lambda>x. x\<lparr>disk_env_pgdir := None, disk_env_pgdir_PA := 0\<rparr>) s2;
     case disk_env_tabledir (envs s3 e) of
       None \<Rightarrow> Some s3
     | Some d \<Rightarrow> do {
         s4 \<leftarrow> pf_remove_env_all_tables e s3;
         s5 \<leftarrow> free_disk_page da d (disk_env_tabledir_PA (envs s4 e)) s4;
         Some (envs_upd e (\<lambda>x. x\<lparr>disk_env_tabledir := None, disk_env_tabledir_PA := 0\<rparr>) s5) } }"

definition count_entries :: "frame \<Rightarrow> 'z mem_state_scheme \<Rightarrow> nat" where
  "count_entries t s = length (filter (\<lambda>i. phys s t (of_nat i) \<noteq> 0) [0..<1024])"

fun count_tables :: "frame \<Rightarrow> nat list \<Rightarrow> 'z mem_state_scheme \<Rightarrow> nat option" where
  "count_tables dir [] s = Some 0"
| "count_tables dir (i # is) s =
     (let entry = phys s dir (of_nat i)
      in if entry AND PERM_PRESENT = 0 then count_tables dir is s
         else do {
           t \<leftarrow> present_table entry s;
           n \<leftarrow> count_tables dir is s;
           Some (count_entries t s + n) })"

definition pf_calculate_allocated_pages :: "env_ptr \<Rightarrow> 'z disk_state_scheme \<Rightarrow> nat option" where
  "pf_calculate_allocated_pages e s = do {
     dir \<leftarrow> disk_env_pgdir (envs s e);
     count_tables dir [0..<unat (PDX USER_TOP)] s }"

definition pf_calculate_free_frames :: "'z disk_state_scheme \<Rightarrow> (nat \<times> 'z disk_state_scheme) option" where
  "pf_calculate_free_frames s = do {
     s1 \<leftarrow> acquire_kspinlock DFLLOCK s;
     let totalFreeDiskFrames = length (disk_free_frame_list s1);
     s2 \<leftarrow> release_kspinlock DFLLOCK s1;
     Some (totalFreeDiskFrames, s2) }"

section \<open>The table file\<close>

definition get_disk_table_directory :: "env_ptr \<Rightarrow> 'z disk_state_scheme \<Rightarrow> (int \<times> 'z disk_state_scheme) option" where
  "get_disk_table_directory e s =
     (case disk_env_tabledir (envs s e) of
        Some d \<Rightarrow> Some (0, s)
      | None \<Rightarrow> do {
          ((p, pa), s1) \<leftarrow> new_disk_page s;
          case p of
            None \<Rightarrow> Some (E_NO_VM, s1)
          | Some f \<Rightarrow>
              Some (0, clear_frame f (envs_upd e (\<lambda>x. x\<lparr>disk_env_tabledir := Some f, disk_env_tabledir_PA := pa\<rparr>) s1)) })"

definition pf_write_env_table ::
  "'z disk_state_scheme ide_ops \<Rightarrow> env_ptr \<Rightarrow> u32 \<Rightarrow> u32 \<Rightarrow> 'z disk_state_scheme \<Rightarrow> (int \<times> 'z disk_state_scheme) option" where
  "pf_write_env_table ide e va tableKVirtualAddress s = do {
     assert_that (va < KERNEL_BASE);
     (r, s1) \<leftarrow> get_disk_table_directory e s;
     d \<leftarrow> disk_env_tabledir (envs s1 e);
     let dfn = phys s1 d (PDX va);
     ((r, dfn), s2) \<leftarrow> (if dfn = 0
        then do {
          ((r, dfn), s2) \<leftarrow> allocate_disk_frame s1;
          if r = E_NO_PAGE_FILE_SPACE then Some ((r, dfn), s2)
          else Some ((r, dfn), write_phys d (PDX va) dfn s2) }
        else Some ((0, dfn), s1));
     if r = E_NO_PAGE_FILE_SPACE then Some (E_NO_PAGE_FILE_SPACE, s2)
     else write_disk_page ide dfn tableKVirtualAddress s2 }"

definition pf_read_env_table ::
  "'z disk_state_scheme ide_ops \<Rightarrow> env_ptr \<Rightarrow> u32 \<Rightarrow> u32 \<Rightarrow> 'z disk_state_scheme \<Rightarrow> (int \<times> 'z disk_state_scheme) option" where
  "pf_read_env_table ide e va tableKVirtualAddress s =
     (case disk_env_tabledir (envs s e) of
        None \<Rightarrow> Some (E_TABLE_NOT_EXIST_IN_PF, s)
      | Some d \<Rightarrow>
          if phys s d (PDX va) = 0 then Some (E_TABLE_NOT_EXIST_IN_PF, s)
          else read_disk_page ide (phys s d (PDX va)) tableKVirtualAddress s)"

definition pf_remove_env_table :: "env_ptr \<Rightarrow> u32 \<Rightarrow> 'z disk_state_scheme \<Rightarrow> 'z disk_state_scheme option" where
  "pf_remove_env_table e va s =
     (case disk_env_tabledir (envs s e) of
        None \<Rightarrow> Some s
      | Some d \<Rightarrow> free_disk_frame (phys s d (PDX va)) (write_phys d (PDX va) 0 s))"

end
