(* ===== verification/FOS_WorkingSet.thy ===== *)
theory FOS_WorkingSet
  imports FOS_Disk
begin

unbundle bit_operations_syntax

text \<open>
  Working sets (\<open>kern/mem/working_set_manager.c\<close>) and the time stamps of their elements
  (\<open>update_WS_time_stamps\<close> of \<open>kern/cpu/sched.c\<close>).

  With the kernel heap a working set is a list of elements allocated there; an element is known by its
  address, and \<open>ws_elems\<close> maps addresses to contents.  Without it, it is an array in the environment.  The
  working set of page tables is an array in both configurations.
\<close>

datatype page_rep =
    PG_REP_NONE | PG_REP_LRU_TIME_APPROX | PG_REP_LRU_LISTS_APPROX | PG_REP_CLOCK | PG_REP_FIFO
  | PG_REP_MODIFIEDCLOCK | PG_REP_NchanceCLOCK | PG_REP_DYNAMIC_LOCAL | PG_REP_OPTIMAL

record vm_state = disk_state +
  ws_elems :: "u32 \<Rightarrow> WorkingSetElement"
  PageRepAlgoType :: page_rep
  page_WS_max_sweeps :: int
  FASTNchanceCLOCK :: bool
  EnableModifiedBuffer :: u32
  ModifiedBufferLength :: u32
  page_active_WS_list :: "u32 list"
  optimal_initialized :: bool
  last_eip :: u32
  before_last_eip :: u32
  last_fault_va :: u32
  before_last_fault_va :: u32
  num_repeated_fault :: int
  last_faulted_env :: "env_ptr option"

definition TWS_MAX_SIZE :: nat where [fos_consts]: "TWS_MAX_SIZE = 50"

text \<open>A test of a permission bit on the result of \<open>pt_get_page_permissions\<close>, which is -1 without a table.\<close>

definition has_perm :: "int \<Rightarrow> u32 \<Rightarrow> bool" where
  "has_perm perms p \<longleftrightarrow> (word_of_int perms :: u32) AND p \<noteq> 0"

definition env_dir :: "env_ptr \<Rightarrow> 'z cpu_state_scheme \<Rightarrow> frame option" where
  "env_dir e s = env_page_directory (envs s e)"

section \<open>Working set elements\<close>

text \<open>Reading an element through the null pointer is a fault.\<close>

definition ws_va :: "u32 \<Rightarrow> 'z vm_state_scheme \<Rightarrow> u32 option" where
  "ws_va p s = (if p = 0 then None else Some (ws_virtual_address (ws_elems s p)))"

definition env_page_ws_list_create_element ::
  "'z vm_state_scheme dynalloc \<Rightarrow> u32 \<Rightarrow> 'z vm_state_scheme \<Rightarrow> (u32 \<times> 'z vm_state_scheme) option" where
  "env_page_ws_list_create_element da virtual_address s = do {
     assert_that (virtual_address < USER_TOP);
     (wse, s1) \<leftarrow> kmalloc da SIZEOF_WS s;
     assert_that (wse \<noteq> 0);
     Some (wse, s1\<lparr>ws_elems := (ws_elems s1)(wse := (ws_elems s1 wse)
       \<lparr>ws_virtual_address := ROUNDDOWN virtual_address PAGE_SIZE, sweeps_counter := 0, time_stamp := 0\<rparr>)\<rparr>) }"

text \<open>The search loops: the first element of a list for the page of an address.\<close>

definition find_ws :: "u32 \<Rightarrow> u32 list \<Rightarrow> 'z vm_state_scheme \<Rightarrow> u32 option" where
  "find_ws va ws s =
     find (\<lambda>p. ROUNDDOWN (ws_virtual_address (ws_elems s p)) PAGE_SIZE = ROUNDDOWN va PAGE_SIZE) ws"

text \<open>\<open>LIST_NEXT\<close>: the element after a given one, 0 after the last.\<close>

fun next_of :: "u32 \<Rightarrow> u32 list \<Rightarrow> u32" where
  "next_of p [] = 0"
| "next_of p (q # qs) = (if p = q then (case qs of [] \<Rightarrow> 0 | r # _ \<Rightarrow> r) else next_of p qs)"

text \<open>The body of the loop for the two lists of the LRU approximation.\<close>

definition invalidate_lists ::
  "'z vm_state_scheme dynalloc \<Rightarrow> env_ptr \<Rightarrow> u32 \<Rightarrow> 'z vm_state_scheme \<Rightarrow> 'z vm_state_scheme option" where
  "invalidate_lists da e va s =
     (case find_ws va (ActiveList (envs s e)) s of
       Some p \<Rightarrow> do {
         dir \<leftarrow> env_dir e s;
         let tmp = first_of (SecondList (envs s e)) None;
         (u, s1) \<leftarrow> unmap_frame dir (ws_virtual_address (ws_elems s p)) s;
         l \<leftarrow> remove_l p (ActiveList (envs s1 e));
         (u, s2) \<leftarrow> kfree da p (envs_upd e (\<lambda>x. x\<lparr>ActiveList := l\<rparr>) s1);
         case tmp of
           None \<Rightarrow> Some s2
         | Some q \<Rightarrow> do {
             l2 \<leftarrow> remove_l q (SecondList (envs s2 e));
             l1 \<leftarrow> insert_tail_l q (ActiveList (envs s2 e));
             let s3 = envs_upd e (\<lambda>x. x\<lparr>SecondList := l2, ActiveList := l1\<rparr>) s2;
             (u, s4) \<leftarrow> pt_set_page_permissions dir (ws_virtual_address (ws_elems s3 q)) PERM_PRESENT 0 s3;
             Some s4 } }
     | None \<Rightarrow>
         (case find_ws va (SecondList (envs s e)) s of
            None \<Rightarrow> Some s
          | Some p \<Rightarrow> do {
              dir \<leftarrow> env_dir e s;
              (u, s1) \<leftarrow> unmap_frame dir (ws_virtual_address (ws_elems s p)) s;
              l \<leftarrow> remove_l p (SecondList (envs s1 e));
              (u, s2) \<leftarrow> kfree da p (envs_upd e (\<lambda>x. x\<lparr>SecondList := l\<rparr>) s1);
              Some s2 }))"

definition invalidate_list ::
  "'z vm_state_scheme dynalloc \<Rightarrow> env_ptr \<Rightarrow> u32 \<Rightarrow> 'z vm_state_scheme \<Rightarrow> 'z vm_state_scheme option" where
  "invalidate_list da e va s =
     (case find_ws va (page_WS_list (envs s e)) s of
        None \<Rightarrow> Some s
      | Some p \<Rightarrow> do {
          dir \<leftarrow> env_dir e s;
          (u, s1) \<leftarrow> unmap_frame dir (ws_virtual_address (ws_elems s p)) s;
          let s2 = (if page_last_WS_element (envs s1 e) = p
                    then envs_upd e (\<lambda>x. x\<lparr>page_last_WS_element := next_of p (page_WS_list x)\<rparr>) s1 else s1);
          l \<leftarrow> remove_l p (page_WS_list (envs s2 e));
          (u, s3) \<leftarrow> kfree da p (envs_upd e (\<lambda>x. x\<lparr>page_WS_list := l\<rparr>) s2);
          Some s3 })"

section \<open>The array of the configuration without kernel heap\<close>

definition env_page_ws_get_size :: "env \<Rightarrow> nat" where
  "env_page_ws_get_size x = length (filter (\<lambda>i. \<not> ws_empty (ptr_pageWorkingSet x i)) [0..<unat (page_WS_max_size x)])"

definition env_page_ws_clear_entry :: "env_ptr \<Rightarrow> nat \<Rightarrow> 'z cpu_state_scheme \<Rightarrow> 'z cpu_state_scheme option" where
  "env_page_ws_clear_entry e i s = do {
     assert_that (i < unat (page_WS_max_size (envs s e)));
     Some (envs_upd e (\<lambda>x. x\<lparr>ptr_pageWorkingSet := (ptr_pageWorkingSet x)(i := (ptr_pageWorkingSet x i)
       \<lparr>ws_virtual_address := 0, ws_empty := True, time_stamp := 0\<rparr>)\<rparr>) s) }"

definition env_page_ws_set_entry :: "env_ptr \<Rightarrow> nat \<Rightarrow> u32 \<Rightarrow> 'z cpu_state_scheme \<Rightarrow> 'z cpu_state_scheme option" where
  "env_page_ws_set_entry e i va s = do {
     assert_that (i < unat (page_WS_max_size (envs s e)));
     assert_that (va < USER_TOP);
     Some (envs_upd e (\<lambda>x. x\<lparr>ptr_pageWorkingSet := (ptr_pageWorkingSet x)(i := (ptr_pageWorkingSet x i)
       \<lparr>ws_virtual_address := ROUNDDOWN va PAGE_SIZE, ws_empty := False, time_stamp := 0\<rparr>)\<rparr>) s) }"

definition env_page_ws_get_virtual_address :: "env_ptr \<Rightarrow> nat \<Rightarrow> 'z cpu_state_scheme \<Rightarrow> u32 option" where
  "env_page_ws_get_virtual_address e i s = do {
     assert_that (i < unat (page_WS_max_size (envs s e)));
     Some (ROUNDDOWN (ws_virtual_address (ptr_pageWorkingSet (envs s e) i)) PAGE_SIZE) }"

definition env_page_ws_get_time_stamp :: "env_ptr \<Rightarrow> nat \<Rightarrow> 'z cpu_state_scheme \<Rightarrow> u32 option" where
  "env_page_ws_get_time_stamp e i s = do {
     assert_that (i < unat (page_WS_max_size (envs s e)));
     Some (time_stamp (ptr_pageWorkingSet (envs s e) i)) }"

definition env_page_ws_is_entry_empty :: "env_ptr \<Rightarrow> nat \<Rightarrow> 'z cpu_state_scheme \<Rightarrow> bool" where
  "env_page_ws_is_entry_empty e i s = ws_empty (ptr_pageWorkingSet (envs s e) i)"

definition invalidate_array :: "env_ptr \<Rightarrow> u32 \<Rightarrow> 'z cpu_state_scheme \<Rightarrow> 'z cpu_state_scheme option" where
  "invalidate_array e va s =
     (case find (\<lambda>i. ROUNDDOWN (ws_virtual_address (ptr_pageWorkingSet (envs s e) i)) PAGE_SIZE = ROUNDDOWN va PAGE_SIZE)
             [0..<unat (page_WS_max_size (envs s e))] of
        None \<Rightarrow> Some s
      | Some i \<Rightarrow> env_page_ws_clear_entry e i s)"

definition env_page_ws_invalidate ::
  "'z vm_state_scheme dynalloc \<Rightarrow> env_ptr \<Rightarrow> u32 \<Rightarrow> 'z vm_state_scheme \<Rightarrow> 'z vm_state_scheme option" where
  "env_page_ws_invalidate da e va s =
     (if \<not> use_kheap s then invalidate_array e va s
      else if PageRepAlgoType s = PG_REP_LRU_LISTS_APPROX then invalidate_lists da e va s
      else invalidate_list da e va s)"

section \<open>The working set of page tables\<close>

definition env_table_ws_get_size :: "env \<Rightarrow> nat" where
  "env_table_ws_get_size x = length (filter (\<lambda>i. \<not> ws_empty (ptr_tws x i)) [0..<TWS_MAX_SIZE])"

definition env_table_ws_clear_entry :: "env_ptr \<Rightarrow> nat \<Rightarrow> 'z cpu_state_scheme \<Rightarrow> 'z cpu_state_scheme option" where
  "env_table_ws_clear_entry e i s = do {
     assert_that (i < TWS_MAX_SIZE);
     Some (envs_upd e (\<lambda>x. x\<lparr>ptr_tws := (ptr_tws x)(i := (ptr_tws x i)
       \<lparr>ws_virtual_address := 0, ws_empty := True, time_stamp := 0\<rparr>)\<rparr>) s) }"

definition env_table_ws_invalidate :: "env_ptr \<Rightarrow> u32 \<Rightarrow> 'z cpu_state_scheme \<Rightarrow> 'z cpu_state_scheme option" where
  "env_table_ws_invalidate e va s =
     (case find (\<lambda>i. ROUNDDOWN (ws_virtual_address (ptr_tws (envs s e) i)) (PAGE_SIZE * 1024) = ROUNDDOWN va (PAGE_SIZE * 1024))
             [0..<TWS_MAX_SIZE] of
        None \<Rightarrow> Some s
      | Some i \<Rightarrow> env_table_ws_clear_entry e i s)"

definition env_table_ws_set_entry :: "env_ptr \<Rightarrow> nat \<Rightarrow> u32 \<Rightarrow> 'z cpu_state_scheme \<Rightarrow> 'z cpu_state_scheme option" where
  "env_table_ws_set_entry e i va s = do {
     assert_that (i < TWS_MAX_SIZE);
     assert_that (va < USER_TOP);
     Some (envs_upd e (\<lambda>x. x\<lparr>ptr_tws := (ptr_tws x)(i := (ptr_tws x i)
       \<lparr>ws_virtual_address := ROUNDDOWN va (PAGE_SIZE * 1024), ws_empty := False, time_stamp := 0\<rparr>)\<rparr>) s) }"

definition env_table_ws_get_virtual_address :: "env_ptr \<Rightarrow> nat \<Rightarrow> 'z cpu_state_scheme \<Rightarrow> u32 option" where
  "env_table_ws_get_virtual_address e i s = do {
     assert_that (i < TWS_MAX_SIZE);
     Some (ROUNDDOWN (ws_virtual_address (ptr_tws (envs s e) i)) (PAGE_SIZE * 1024)) }"

definition env_table_ws_get_time_stamp :: "env_ptr \<Rightarrow> nat \<Rightarrow> 'z cpu_state_scheme \<Rightarrow> u32 option" where
  "env_table_ws_get_time_stamp e i s = do {
     assert_that (i < TWS_MAX_SIZE);
     Some (time_stamp (ptr_tws (envs s e) i)) }"

definition env_table_ws_is_entry_empty :: "env_ptr \<Rightarrow> nat \<Rightarrow> 'z cpu_state_scheme \<Rightarrow> bool" where
  "env_table_ws_is_entry_empty e i s = ws_empty (ptr_tws (envs s e) i)"

section \<open>Time stamps\<close>

text \<open>One element: the stamp moves right by a bit, with the used bit, which is then cleared, as its new top bit.\<close>

definition stamp_element :: "frame \<Rightarrow> u32 \<Rightarrow> 'z vm_state_scheme \<Rightarrow> 'z vm_state_scheme option" where
  "stamp_element dir p s = do {
     let va = ws_virtual_address (ws_elems s p);
     let stamp = time_stamp (ws_elems s p);
     permisson \<leftarrow> pt_get_page_permissions dir va s;
     if has_perm permisson PERM_USED
     then do {
       let s1 = s\<lparr>ws_elems := (ws_elems s)(p := (ws_elems s p)\<lparr>time_stamp := drop_bit 1 stamp OR 0x80000000\<rparr>)\<rparr>;
       (u, s2) \<leftarrow> pt_set_page_permissions dir va 0 PERM_USED s1;
       Some s2 }
     else Some (s\<lparr>ws_elems := (ws_elems s)(p := (ws_elems s p)\<lparr>time_stamp := drop_bit 1 stamp\<rparr>)\<rparr>) }"

definition update_WS_time_stamps :: "'z vm_state_scheme \<Rightarrow> 'z vm_state_scheme option" where
  "update_WS_time_stamps s = do {
     assert_that (use_kheap s);
     case cpu_proc s of
       None \<Rightarrow> Some s
     | Some e \<Rightarrow> do {
         dir \<leftarrow> (if page_WS_list (envs s e) = [] then Some 0 else env_dir e s);
         run_all (stamp_element dir) (page_WS_list (envs s e)) s } }"

end
