(* ===== verification/FOS_Share.thy ===== *)
theory FOS_Share
  imports FOS_WorkingSet
begin

unbundle bit_operations_syntax

text \<open>
  Shared memory objects (\<open>kern/mem/shared_memory_manager.c\<close>) and the user heap in the kernel
  (\<open>kern/mem/chunk_operations.c\<close>).

  A \<open>Share\<close> is known by its address in the kernel heap, and so is its array of frame pointers; \<open>shares\<close> and
  \<open>frames_storages\<close> map addresses to contents.  The array is a list of the length it was allocated with, so an
  access past its end has no result.  The name is the array of 64 bytes, whose bytes after the ones that
  \<open>strncpy\<close> writes are what the memory held before.
\<close>

section \<open>State\<close>

record Share =
  share_ID :: int
  ownerID :: int
  share_name :: "char list"
  share_size :: u32
  share_references :: u32
  isWritable :: u8
  framesStorage :: u32

record share_state = vm_state +
  shares :: "u32 \<Rightarrow> Share"
  frames_storages :: "u32 \<Rightarrow> frame option list"
  shares_list :: "u32 list"

definition SIZEOF_SHARE :: u32 where [fos_consts]: "SIZEOF_SHARE = 96"

definition NUL :: char where "NUL = CHR 0x00"

text \<open>
  \<open>strncpy\<close> into an array, padding with zeros; the test \<open>strcmp(a, b) == 0\<close> on two arrays, without a result when
  it reads past the end of one.
\<close>

definition strncpy :: "char list \<Rightarrow> char list \<Rightarrow> nat \<Rightarrow> char list" where
  "strncpy dst src n = take n (src @ replicate n NUL) @ drop n dst"

fun strcmp_same :: "char list \<Rightarrow> char list \<Rightarrow> bool option" where
  "strcmp_same (a # as) (b # bs) = (if a \<noteq> b then Some False else if a = NUL then Some True else strcmp_same as bs)"
| "strcmp_same _ _ = None"

section \<open>Operations\<close>

definition sharing_init :: "'z share_state_scheme \<Rightarrow> 'z share_state_scheme option" where
  "sharing_init s = do {
     assert_that (use_kheap s);
     Some (init_kspinlock SHARESLOCK (s\<lparr>shares_list := []\<rparr>)) }"

fun search_share :: "int \<Rightarrow> char list \<Rightarrow> u32 list \<Rightarrow> (u32 \<Rightarrow> Share) \<Rightarrow> u32 option" where
  "search_share owner name [] sh = Some 0"
| "search_share owner name (p # ps) sh =
     (if ownerID (sh p) \<noteq> owner then search_share owner name ps sh
      else do {
        same \<leftarrow> strcmp_same (name @ [NUL]) (share_name (sh p));
        if same then Some p else search_share owner name ps sh })"

definition find_share :: "int \<Rightarrow> char list \<Rightarrow> 'z share_state_scheme \<Rightarrow> (u32 \<times> 'z share_state_scheme) option" where
  "find_share owner name s = do {
     assert_that (use_kheap s);
     with_lock SHARESLOCK (\<lambda>s. do { p \<leftarrow> search_share owner name (shares_list s) (shares s); Some (p, s) }) s }"

definition size_of_shared_object :: "int \<Rightarrow> char list \<Rightarrow> 'z share_state_scheme \<Rightarrow> (int \<times> 'z share_state_scheme) option" where
  "size_of_shared_object owner shareName s = do {
     (ptr_share, s1) \<leftarrow> find_share owner shareName s;
     Some (if ptr_share = 0 then E_SHARED_MEM_NOT_EXISTS else sint (share_size (shares s1 ptr_share)), s1) }"

definition AllocFramesStorage ::
  "'z share_state_scheme dynalloc \<Rightarrow> u32 \<Rightarrow> 'z share_state_scheme \<Rightarrow> (u32 \<times> 'z share_state_scheme) option" where
  "AllocFramesStorage da framesNum s = do {
     assert_that (use_kheap s);
     if sint framesNum \<le> 0 then Some (0, s)
     else do {
       (frames_storage, s1) \<leftarrow> kmalloc da (framesNum * 4) s;
       if frames_storage = 0 then Some (0, s1)
       else Some (frames_storage,
         s1\<lparr>frames_storages := (frames_storages s1)(frames_storage := replicate (unat framesNum) None)\<rparr>) } }"

text \<open>The identifier is the address without its top four bits, which is not negative as a signed number.\<close>

definition share_id_of :: "u32 \<Rightarrow> int" where
  "share_id_of p = sint (p AND 0x0FFFFFFF)"

definition alloc_share ::
  "'z share_state_scheme dynalloc \<Rightarrow> int \<Rightarrow> char list \<Rightarrow> u32 \<Rightarrow> u8 \<Rightarrow> 'z share_state_scheme \<Rightarrow> (u32 \<times> 'z share_state_scheme) option" where
  "alloc_share da owner shareName nbytes writable s = do {
     assert_that (use_kheap s);
     (p, s1) \<leftarrow> kmalloc da SIZEOF_SHARE s;
     if p = 0 then Some (0, s1)
     else do {
       let s2 = s1\<lparr>shares := (shares s1)(p := (shares s1 p)\<lparr>ownerID := owner,
             share_name := strncpy (share_name (shares s1 p)) shareName 63, share_size := nbytes, isWritable := writable,
             share_references := 1, share_ID := share_id_of p\<rparr>)\<rparr>;
       (storage, s3) \<leftarrow> AllocFramesStorage da (pages_of nbytes) s2;
       let s4 = s3\<lparr>shares := (shares s3)(p := (shares s3 p)\<lparr>framesStorage := storage\<rparr>)\<rparr>;
       if storage = 0 then do { (u, s5) \<leftarrow> kfree da p s4; Some (0, s5) }
       else Some (p, s4) } }"

text \<open>The loop over the pages of a new object: a fresh frame each, mapped at the creator and stored.\<close>

definition store_frame :: "u32 \<Rightarrow> nat \<Rightarrow> frame \<Rightarrow> 'z share_state_scheme \<Rightarrow> 'z share_state_scheme option" where
  "store_frame p i f s = (let a = framesStorage (shares s p) in do {
     assert_that (i < length (frames_storages s a));
     Some (s\<lparr>frames_storages := (frames_storages s)(a := (frames_storages s a)[i := Some f])\<rparr>) })"

definition create_page :: "u32 \<Rightarrow> frame \<Rightarrow> u32 \<Rightarrow> nat \<Rightarrow> 'z share_state_scheme \<Rightarrow> 'z share_state_scheme option" where
  "create_page p dir va i s = do {
     (f, s1) \<leftarrow> allocate_frame s;
     (r, s2) \<leftarrow> map_frame dir f (va + of_nat i * PAGE_SIZE) (PERM_USER OR PERM_PRESENT OR PERM_WRITEABLE) s1;
     store_frame p i f s2 }"

definition create_shared_object ::
  "'z share_state_scheme dynalloc \<Rightarrow> int \<Rightarrow> char list \<Rightarrow> u32 \<Rightarrow> u8 \<Rightarrow> u32 \<Rightarrow> 'z share_state_scheme \<Rightarrow> (int \<times> 'z share_state_scheme) option" where
  "create_shared_object da owner shareName nbytes writable va s = do {
     assert_that (use_kheap s);
     let myenv = cpu_proc s;
     s1 \<leftarrow> acquire_kspinlock SHARESLOCK s;
     (found, s2) \<leftarrow> find_share owner shareName s1;
     if found \<noteq> 0 then do { s3 \<leftarrow> release_kspinlock SHARESLOCK s2; Some (E_SHARED_MEM_EXISTS, s3) }
     else do {
       (p, s3) \<leftarrow> alloc_share da owner shareName nbytes writable s2;
       if p = 0
       then do { s4 \<leftarrow> release_kspinlock SHARESLOCK s3; (u, s5) \<leftarrow> kfree da p s4; Some (E_NO_SHARE, s5) }
       else do {
         e \<leftarrow> myenv;
         dir \<leftarrow> env_dir e s3;
         s4 \<leftarrow> run_all (create_page p dir va) [0..<unat (pages_of nbytes)] s3;
         l \<leftarrow> insert_tail_l p (shares_list s4);
         s5 \<leftarrow> release_kspinlock SHARESLOCK (s4\<lparr>shares_list := l\<rparr>);
         Some (share_ID (shares s5 p), s5) } } }"

definition share_perms :: "Share \<Rightarrow> u32" where
  "share_perms x = (if isWritable x \<noteq> 0 then PERM_USER OR PERM_WRITEABLE else PERM_USER)"

definition get_page_of_share :: "u32 \<Rightarrow> frame \<Rightarrow> u32 \<Rightarrow> nat \<Rightarrow> 'z share_state_scheme \<Rightarrow> 'z share_state_scheme option" where
  "get_page_of_share p dir va i s = (let st = frames_storages s (framesStorage (shares s p)) in do {
     assert_that (i < length st);
     f \<leftarrow> st ! i;
     (r, s1) \<leftarrow> map_frame dir f (va + of_nat i * PAGE_SIZE) (share_perms (shares s p)) s;
     Some s1 })"

definition get_shared_object :: "int \<Rightarrow> char list \<Rightarrow> u32 \<Rightarrow> 'z share_state_scheme \<Rightarrow> (int \<times> 'z share_state_scheme) option" where
  "get_shared_object owner shareName va s = do {
     assert_that (use_kheap s);
     let myenv = cpu_proc s;
     s1 \<leftarrow> acquire_kspinlock SHARESLOCK s;
     (p, s2) \<leftarrow> find_share owner shareName s1;
     if p = 0 then do { s3 \<leftarrow> release_kspinlock SHARESLOCK s2; Some (E_SHARED_MEM_NOT_EXISTS, s3) }
     else do {
       e \<leftarrow> myenv;
       dir \<leftarrow> env_dir e s2;
       s3 \<leftarrow> run_all (get_page_of_share p dir va) [0..<unat (pages_of (share_size (shares s2 p)))] s2;
       let s4 = s3\<lparr>shares := (shares s3)(p := (shares s3 p)\<lparr>share_references := share_references (shares s3 p) + 1\<rparr>)\<rparr>;
       s5 \<leftarrow> release_kspinlock SHARESLOCK s4;
       Some (share_ID (shares s5 p), s5) } }"

text \<open>The loop of \<open>free_share\<close> looks for a null pointer at the end of the frames.\<close>

fun free_frames :: "frame option list \<Rightarrow> 'z share_state_scheme \<Rightarrow> 'z share_state_scheme option" where
  "free_frames [] s = None"
| "free_frames (None # fs) s = Some s"
| "free_frames (Some f # fs) s = do { (u, s1) \<leftarrow> free_frame f s; free_frames fs s1 }"

definition free_share :: "'z share_state_scheme dynalloc \<Rightarrow> u32 \<Rightarrow> 'z share_state_scheme \<Rightarrow> 'z share_state_scheme option" where
  "free_share da p s = do {
     assert_that (use_kheap s);
     s1 \<leftarrow> acquire_kspinlock SHARESLOCK s;
     l \<leftarrow> remove_l p (shares_list s1);
     s2 \<leftarrow> release_kspinlock SHARESLOCK (s1\<lparr>shares_list := l\<rparr>);
     s3 \<leftarrow> (if share_references (shares s2 p) = 1
            then free_frames (frames_storages s2 (framesStorage (shares s2 p))) s2 else Some s2);
     (u, s4) \<leftarrow> kfree da (framesStorage (shares s3 p)) s3;
     (u, s5) \<leftarrow> kfree da p s4;
     Some s5 }"

section \<open>The user heap\<close>

text \<open>
  The pages of \<open>[va, va + nbytes)\<close> as the loop \<open>for (c = va; c < va + nbytes; c += PAGE_SIZE)\<close> visits them in 32-bit
  arithmetic.  A page at the top of the address space makes the loop variable wrap around below the bound, and
  the loop goes on for ever; \<open>fuel\<close> bounds the number of rounds, and no result is left when it is used up.
\<close>

fun each_page :: "nat \<Rightarrow> (u32 \<Rightarrow> 's \<Rightarrow> 's option) \<Rightarrow> u32 \<Rightarrow> u32 \<Rightarrow> 's \<Rightarrow> 's option" where
  "each_page fuel f c bnd s =
     (if c < bnd
      then (case fuel of 0 \<Rightarrow> None | Suc n \<Rightarrow> do { s1 \<leftarrow> f c s; each_page n f (c + PAGE_SIZE) bnd s1 })
      else Some s)"

declare each_page.simps [simp del]

definition PAGES_32 :: nat where "PAGES_32 = 2 ^ 20"

definition mark_user_page :: "frame \<Rightarrow> u32 \<Rightarrow> 'z share_state_scheme \<Rightarrow> 'z share_state_scheme option" where
  "mark_user_page dir c s = do {
     (r, tbl) \<leftarrow> get_page_table dir c s;
     s1 \<leftarrow> (if r = TABLE_NOT_EXIST then do { (t, s1) \<leftarrow> create_page_table dir c s; Some s1 } else Some s);
     (u, s2) \<leftarrow> pt_set_page_permissions dir c PERM_UHPAGE PERM_PRESENT s1;
     Some s2 }"

definition allocate_user_mem :: "env_ptr \<Rightarrow> u32 \<Rightarrow> u32 \<Rightarrow> 'z share_state_scheme \<Rightarrow> 'z share_state_scheme option" where
  "allocate_user_mem e va nbytes s = do {
     assert_that (use_kheap s);
     if nbytes = 0 then Some s
     else if (va \<ge> USER_HEAP_START \<and> va + nbytes \<le> USER_HEAP_MAX) \<or> va \<ge> USTACKBOTTOM \<or> va < USTACKTOP
     then do { dir \<leftarrow> env_dir e s; each_page PAGES_32 (mark_user_page dir) va (va + nbytes) s }
     else Some s }"

definition release_user_page ::
  "'z share_state_scheme dynalloc \<Rightarrow> 'z share_state_scheme ide_ops \<Rightarrow> env_ptr \<Rightarrow> frame \<Rightarrow> u32 \<Rightarrow> 'z share_state_scheme \<Rightarrow> 'z share_state_scheme option" where
  "release_user_page da ide e dir c s = do {
     (u, s1) \<leftarrow> pt_set_page_permissions dir c 0 PERM_UHPAGE s;
     (r, s2) \<leftarrow> pf_read_env_page ide e c s1;
     s3 \<leftarrow> (if r = 0 then pf_remove_env_page e c s2 else Some s2);
     env_page_ws_invalidate da e c s3 }"

definition free_user_mem ::
  "'z share_state_scheme dynalloc \<Rightarrow> 'z share_state_scheme ide_ops \<Rightarrow> env_ptr \<Rightarrow> u32 \<Rightarrow> u32 \<Rightarrow> 'z share_state_scheme \<Rightarrow> 'z share_state_scheme option" where
  "free_user_mem da ide e va nbytes s = do {
     assert_that (use_kheap s);
     if va < va + nbytes
     then do { dir \<leftarrow> env_dir e s; each_page PAGES_32 (release_user_page da ide e dir) va (va + nbytes) s }
     else Some s }"

end
