(* ===== verification/FOS_Fault.thy ===== *)
theory FOS_Fault
  imports FOS_WorkingSet
begin

unbundle bit_operations_syntax

text \<open>
  The fault handler (\<open>kern/trap/fault_handler.c\<close>): the settings of the replacement strategy, the main handler,
  placement and the replacement strategies, and the number of faults of the optimal strategy.

  A handler that calls \<open>env_exit\<close> does not come back: the process is in the exit queue and is not scheduled
  again.  The result says whether the handler resumes the process or has left it.
\<close>

datatype fault_end = Resumes | Leaves

section \<open>Settings\<close>

definition setPageReplacmentAlgorithmLRU :: "page_rep \<Rightarrow> 'z vm_state_scheme \<Rightarrow> 'z vm_state_scheme option" where
  "setPageReplacmentAlgorithmLRU LRU_TYPE s = do {
     assert_that (LRU_TYPE = PG_REP_LRU_TIME_APPROX \<or> LRU_TYPE = PG_REP_LRU_LISTS_APPROX);
     Some (s\<lparr>PageRepAlgoType := LRU_TYPE\<rparr>) }"

definition setPageReplacmentAlgorithmCLOCK :: "'z vm_state_scheme \<Rightarrow> 'z vm_state_scheme" where
  "setPageReplacmentAlgorithmCLOCK s = s\<lparr>PageRepAlgoType := PG_REP_CLOCK\<rparr>"

definition setPageReplacmentAlgorithmFIFO :: "'z vm_state_scheme \<Rightarrow> 'z vm_state_scheme" where
  "setPageReplacmentAlgorithmFIFO s = s\<lparr>PageRepAlgoType := PG_REP_FIFO\<rparr>"

definition setPageReplacmentAlgorithmModifiedCLOCK :: "'z vm_state_scheme \<Rightarrow> 'z vm_state_scheme" where
  "setPageReplacmentAlgorithmModifiedCLOCK s = s\<lparr>PageRepAlgoType := PG_REP_MODIFIEDCLOCK\<rparr>"

definition setPageReplacmentAlgorithmDynamicLocal :: "'z vm_state_scheme \<Rightarrow> 'z vm_state_scheme" where
  "setPageReplacmentAlgorithmDynamicLocal s = s\<lparr>PageRepAlgoType := PG_REP_DYNAMIC_LOCAL\<rparr>"

definition setPageReplacmentAlgorithmNchanceCLOCK :: "int \<Rightarrow> 'z vm_state_scheme \<Rightarrow> 'z vm_state_scheme" where
  "setPageReplacmentAlgorithmNchanceCLOCK PageWSMaxSweeps s =
     s\<lparr>PageRepAlgoType := PG_REP_NchanceCLOCK, page_WS_max_sweeps := PageWSMaxSweeps\<rparr>"

definition setFASTNchanceCLOCK :: "bool \<Rightarrow> 'z vm_state_scheme \<Rightarrow> 'z vm_state_scheme" where
  "setFASTNchanceCLOCK fast s = s\<lparr>FASTNchanceCLOCK := fast\<rparr>"

definition setPageReplacmentAlgorithmOPTIMAL :: "'z vm_state_scheme \<Rightarrow> 'z vm_state_scheme" where
  "setPageReplacmentAlgorithmOPTIMAL s = s\<lparr>PageRepAlgoType := PG_REP_OPTIMAL\<rparr>"

definition enableModifiedBuffer :: "u32 \<Rightarrow> 'z vm_state_scheme \<Rightarrow> 'z vm_state_scheme" where
  "enableModifiedBuffer enableIt s = s\<lparr>EnableModifiedBuffer := enableIt\<rparr>"

text \<open>\<open>isBufferingEnabled\<close> returns the low byte of the setting; \<open>buffering_enabled\<close> is its value as a condition.\<close>

definition enableBuffering :: "u32 \<Rightarrow> 'z vm_state_scheme \<Rightarrow> 'z vm_state_scheme" where
  "enableBuffering enableIt s = s\<lparr>buffering_enabled := ((ucast enableIt :: u8) \<noteq> 0)\<rparr>"

definition setModifiedBufferLength :: "u32 \<Rightarrow> 'z vm_state_scheme \<Rightarrow> 'z vm_state_scheme" where
  "setModifiedBufferLength n s = s\<lparr>ModifiedBufferLength := n\<rparr>"

definition fault_handler_init :: "'z vm_state_scheme \<Rightarrow> 'z vm_state_scheme" where
  "fault_handler_init s =
     setModifiedBufferLength 1000 (enableModifiedBuffer 0 (enableBuffering 0 (setPageReplacmentAlgorithmCLOCK s)))"

section \<open>The optimal strategy\<close>

text \<open>
  \<open>get_optimal_num_faults\<close>.  \<open>next_use p refs\<close> is the number of references before the next one to \<open>p\<close>;
  \<open>farthest\<close> is the loop over the working set that keeps the first index with the largest distance.
\<close>

fun next_use :: "u32 \<Rightarrow> u32 list \<Rightarrow> nat option" where
  "next_use p [] = None"
| "next_use p (r # rs) = (if p = r then Some 0 else map_option Suc (next_use p rs))"

definition distance :: "u32 \<Rightarrow> u32 list \<Rightarrow> nat" where
  "distance p refs = (case next_use p refs of None \<Rightarrow> 1000000000 | Some n \<Rightarrow> n)"

fun farthest :: "u32 list \<Rightarrow> nat \<Rightarrow> u32 list \<Rightarrow> nat \<Rightarrow> nat \<Rightarrow> nat" where
  "farthest [] k refs ws_Maxsteps ws_Maxsteps_index = ws_Maxsteps_index"
| "farthest (p # ps) k refs ws_Maxsteps ws_Maxsteps_index =
     (if distance p refs > ws_Maxsteps then farthest ps (Suc k) refs (distance p refs) k
      else farthest ps (Suc k) refs ws_Maxsteps ws_Maxsteps_index)"

fun optimal_faults :: "nat \<Rightarrow> u32 list \<Rightarrow> u32 list \<Rightarrow> nat" where
  "optimal_faults maxWSSize ws [] = 0"
| "optimal_faults maxWSSize ws (r # refs) =
     (if r \<in> set ws then optimal_faults maxWSSize ws refs
      else if length ws = maxWSSize then Suc (optimal_faults maxWSSize (ws[farthest ws 0 refs 0 0 := r]) refs)
      else Suc (optimal_faults maxWSSize (ws @ [r]) refs))"

text \<open>The copies of the two lists; the array for the references is not freed.  An array of size 0 is invalid.\<close>

definition get_optimal_num_faults ::
  "'z vm_state_scheme dynalloc \<Rightarrow> u32 list \<Rightarrow> nat \<Rightarrow> u32 list \<Rightarrow> 'z vm_state_scheme \<Rightarrow> (nat \<times> 'z vm_state_scheme) option" where
  "get_optimal_num_faults da initWorkingSet maxWSSize pageReferences s = do {
     assert_that (use_kheap s);
     assert_that (0 < maxWSSize);
     let ws_copy = take maxWSSize (map (\<lambda>p. ws_virtual_address (ws_elems s p)) initWorkingSet);
     (ref_stream_copy, s1) \<leftarrow> kmalloc da (4 * of_nat (length pageReferences)) s;
     assert_that (ref_stream_copy \<noteq> 0);
     Some (optimal_faults maxWSSize ws_copy pageReferences, s1) }"

definition is_page_in_ws :: "u32 list \<Rightarrow> u32 \<Rightarrow> 'z vm_state_scheme \<Rightarrow> bool" where
  "is_page_in_ws ws page_va s \<longleftrightarrow> list_ex (\<lambda>p. ws_virtual_address (ws_elems s p) = page_va) ws"

section \<open>Placement\<close>

text \<open>A frame for the page, with its contents from the page file when it is there.\<close>

definition load_page ::
  "'z vm_state_scheme ide_ops \<Rightarrow> env_ptr \<Rightarrow> u32 \<Rightarrow> u32 \<Rightarrow> 'z vm_state_scheme \<Rightarrow> ((int \<times> frame) \<times> 'z vm_state_scheme) option" where
  "load_page ide e fault_va perms s = do {
     (f, s1) \<leftarrow> allocate_frame s;
     dir \<leftarrow> env_dir e s1;
     (r, s2) \<leftarrow> map_frame dir f fault_va perms s1;
     (pf_errorCode, s3) \<leftarrow> pf_read_env_page ide e fault_va s2;
     Some ((pf_errorCode, f), s3) }"

text \<open>
  A page that is not in the page file may only be a new page of the heap or the stack; otherwise the frame is
  given back, by \<open>unmap_frame\<close> and then once more by \<open>free_frame\<close>, and the process leaves.
\<close>

definition check_new_page :: "env_ptr \<Rightarrow> u32 \<Rightarrow> int \<Rightarrow> frame \<Rightarrow> 'z vm_state_scheme \<Rightarrow> (fault_end \<times> 'z vm_state_scheme) option" where
  "check_new_page e fault_va pf_errorCode f s =
     (if pf_errorCode = E_PAGE_NOT_EXIST_IN_PF \<and> \<not> in_heap_or_stack fault_va
      then do {
        dir \<leftarrow> env_dir e s;
        (u, s1) \<leftarrow> unmap_frame dir fault_va s;
        (u, s2) \<leftarrow> free_frame f s1;
        (c, s3) \<leftarrow> env_exit s2;
        Some (Leaves, s3) }
      else Some (Resumes, s))"

definition add_ws_tail ::
  "'z vm_state_scheme dynalloc \<Rightarrow> env_ptr \<Rightarrow> u32 \<Rightarrow> 'z vm_state_scheme \<Rightarrow> 'z vm_state_scheme option" where
  "add_ws_tail da e fault_va s = do {
     (ws_elem, s1) \<leftarrow> env_page_ws_list_create_element da fault_va s;
     l \<leftarrow> insert_tail_l ws_elem (page_WS_list (envs s1 e));
     Some (envs_upd e (\<lambda>x. x\<lparr>page_WS_list := l\<rparr>) s1) }"

definition placement ::
  "'z vm_state_scheme dynalloc \<Rightarrow> 'z vm_state_scheme ide_ops \<Rightarrow> env_ptr \<Rightarrow> u32 \<Rightarrow> 'z vm_state_scheme \<Rightarrow> (fault_end \<times> 'z vm_state_scheme) option" where
  "placement da ide e fault_va s = do {
     ((pf_errorCode, f), s1) \<leftarrow> load_page ide e fault_va (PERM_USER OR PERM_PRESENT OR PERM_WRITEABLE) s;
     (fe, s2) \<leftarrow> check_new_page e fault_va pf_errorCode f s1;
     if fe = Leaves then Some (Leaves, s2)
     else do {
       s3 \<leftarrow> add_ws_tail da e fault_va s2;
       Some (Resumes, envs_upd e (\<lambda>x. x\<lparr>page_last_WS_element :=
          (if of_nat (length (page_WS_list x)) = page_WS_max_size x
           then (case page_WS_list x of [] \<Rightarrow> 0 | p # _ \<Rightarrow> p) else 0)\<rparr>) s3) } }"

section \<open>Replacement\<close>

text \<open>A modified victim is written to the page file, its frame is unmapped.\<close>

definition evict :: "'z vm_state_scheme ide_ops \<Rightarrow> env_ptr \<Rightarrow> u32 \<Rightarrow> 'z vm_state_scheme \<Rightarrow> 'z vm_state_scheme option" where
  "evict ide e victim s = do {
     dir \<leftarrow> env_dir e s;
     va \<leftarrow> ws_va victim s;
     perms \<leftarrow> pt_get_page_permissions dir va s;
     s1 \<leftarrow> (if has_perm perms PERM_MODIFIED
            then do {
              (fi, pt) \<leftarrow> get_frame_info dir va s;
              (r, s1) \<leftarrow> pf_update_env_page ide e va fi s;
              Some s1 }
            else Some s);
     (u, s2) \<leftarrow> unmap_frame dir va s1;
     Some s2 }"

text \<open>The loop that moves elements from the head to the tail until the victim is the head.\<close>

fun rotate_until :: "nat \<Rightarrow> u32 \<Rightarrow> u32 list \<Rightarrow> u32 list option" where
  "rotate_until n v [] = None"
| "rotate_until n v (c # cs) =
     (if c = v then Some (c # cs)
      else case n of 0 \<Rightarrow> None | Suc m \<Rightarrow> rotate_until m v (cs @ [c]))"

definition remove_victim ::
  "'z vm_state_scheme dynalloc \<Rightarrow> env_ptr \<Rightarrow> u32 \<Rightarrow> 'z vm_state_scheme \<Rightarrow> 'z vm_state_scheme option" where
  "remove_victim da e victim s = do {
     l \<leftarrow> rotate_until (length (page_WS_list (envs s e))) victim (page_WS_list (envs s e));
     l' \<leftarrow> remove_l victim l;
     (u, s1) \<leftarrow> kfree da victim (envs_upd e (\<lambda>x. x\<lparr>page_WS_list := l'\<rparr>) s);
     Some s1 }"

text \<open>The successor of an element in the circular order of the working set.\<close>

definition ws_succ :: "u32 \<Rightarrow> u32 list \<Rightarrow> u32" where
  "ws_succ p ws = (if next_of p ws = 0 then (case ws of [] \<Rightarrow> 0 | q # _ \<Rightarrow> q) else next_of p ws)"

text \<open>
  The hand of the clock: from \<open>page_last_WS_element\<close> on, used bits are cleared until a page without one is
  found.  After one round every bit is clear, so one more step than there are elements is enough.
\<close>

fun clock_hand :: "nat \<Rightarrow> frame \<Rightarrow> env_ptr \<Rightarrow> 'z vm_state_scheme \<Rightarrow> (u32 \<times> 'z vm_state_scheme) option" where
  "clock_hand fuel dir e s = do {
     let hand = page_last_WS_element (envs s e);
     va \<leftarrow> ws_va hand s;
     perm \<leftarrow> pt_get_page_permissions dir va s;
     if has_perm perm PERM_USED
     then (case fuel of
             0 \<Rightarrow> None
           | Suc n \<Rightarrow> do {
               (u, s1) \<leftarrow> pt_set_page_permissions dir va 0 PERM_USED s;
               clock_hand n dir e
                 (envs_upd e (\<lambda>x. x\<lparr>page_last_WS_element := ws_succ hand (page_WS_list x)\<rparr>) s1) })
     else Some (hand, s) }"

declare clock_hand.simps [simp del]

text \<open>The element with the smallest time stamp, the first of them; none when all stamps are the largest number.\<close>

fun oldest :: "u32 list \<Rightarrow> u32 \<Rightarrow> u32 \<Rightarrow> 'z vm_state_scheme \<Rightarrow> u32" where
  "oldest [] minStamp victim s = victim"
| "oldest (p # ps) minStamp victim s =
     (if time_stamp (ws_elems s p) < minStamp then oldest ps (time_stamp (ws_elems s p)) p s
      else oldest ps minStamp victim s)"

definition replace_LRU ::
  "'z vm_state_scheme dynalloc \<Rightarrow> 'z vm_state_scheme ide_ops \<Rightarrow> env_ptr \<Rightarrow> u32 \<Rightarrow> 'z vm_state_scheme \<Rightarrow> (fault_end \<times> 'z vm_state_scheme) option" where
  "replace_LRU da ide e fault_va s = do {
     let victim = oldest (page_WS_list (envs s e)) 0xFFFFFFFF 0 s;
     s1 \<leftarrow> evict ide e victim s;
     l \<leftarrow> remove_l victim (page_WS_list (envs s1 e));
     (u, s2) \<leftarrow> kfree da victim (envs_upd e (\<lambda>x. x\<lparr>page_WS_list := l\<rparr>) s1);
     ((pf_errorCode, f), s3) \<leftarrow> load_page ide e fault_va (PERM_USER OR PERM_PRESENT OR PERM_WRITEABLE OR PERM_USED) s2;
     (fe, s4) \<leftarrow> check_new_page e fault_va pf_errorCode f s3;
     if fe = Leaves then Some (Leaves, s4)
     else do { s5 \<leftarrow> add_ws_tail da e fault_va s4; Some (Resumes, s5) } }"

text \<open>
  The two passes of the modified clock over \<open>ws_size\<close> elements: the first looks for a page that is neither used
  nor modified, the second clears used bits and takes the first page that is not used.
\<close>

fun mod_try1 :: "nat \<Rightarrow> frame \<Rightarrow> env_ptr \<Rightarrow> u32 \<Rightarrow> 'z vm_state_scheme \<Rightarrow> (u32 \<times> 'z vm_state_scheme) option" where
  "mod_try1 0 dir e p s = Some (0, s)"
| "mod_try1 (Suc n) dir e p s = do {
     va \<leftarrow> ws_va p s;
     perms \<leftarrow> pt_get_page_permissions dir va s;
     if \<not> has_perm perms PERM_USED \<and> \<not> has_perm perms PERM_MODIFIED then Some (p, s)
     else do {
       let q = ws_succ p (page_WS_list (envs s e));
       mod_try1 n dir e q (envs_upd e (\<lambda>x. x\<lparr>page_last_WS_element := q\<rparr>) s) } }"

fun mod_try2 :: "nat \<Rightarrow> frame \<Rightarrow> env_ptr \<Rightarrow> u32 \<Rightarrow> 'z vm_state_scheme \<Rightarrow> (u32 \<times> 'z vm_state_scheme) option" where
  "mod_try2 0 dir e p s = Some (0, s)"
| "mod_try2 (Suc n) dir e p s = do {
     va \<leftarrow> ws_va p s;
     perms \<leftarrow> pt_get_page_permissions dir va s;
     if has_perm perms PERM_USED
     then do {
       (u, s1) \<leftarrow> pt_set_page_permissions dir va 0 PERM_USED s;
       let q = ws_succ p (page_WS_list (envs s1 e));
       mod_try2 n dir e q (envs_upd e (\<lambda>x. x\<lparr>page_last_WS_element := q\<rparr>) s1) }
     else Some (p, s) }"

text \<open>The outer loop; after one second pass no page is used any more, so three rounds are enough.\<close>

fun mod_search :: "nat \<Rightarrow> nat \<Rightarrow> frame \<Rightarrow> env_ptr \<Rightarrow> 'z vm_state_scheme \<Rightarrow> (u32 \<times> 'z vm_state_scheme) option" where
  "mod_search 0 ws_size dir e s = None"
| "mod_search (Suc n) ws_size dir e s = do {
     (v, s1) \<leftarrow> mod_try1 ws_size dir e (page_last_WS_element (envs s e)) s;
     if v \<noteq> 0 then Some (v, s1)
     else do {
       (v, s2) \<leftarrow> mod_try2 ws_size dir e (page_last_WS_element (envs s1 e)) s1;
       if v \<noteq> 0 then Some (v, s2) else mod_search n ws_size dir e s2 } }"

text \<open>
  The page of the hand is marked as used when the faulted page is in \<open>page_active_WS_list\<close>, the list of the
  optimal strategy.
\<close>

definition mark_hand :: "env_ptr \<Rightarrow> 'z vm_state_scheme \<Rightarrow> (fault_end \<times> 'z vm_state_scheme) option" where
  "mark_hand e s = do {
     dir \<leftarrow> env_dir e s;
     va \<leftarrow> ws_va (page_last_WS_element (envs s e)) s;
     (u, s1) \<leftarrow> pt_set_page_permissions dir va PERM_USED 0 s;
     Some (Resumes, s1) }"

section \<open>Collecting the reference stream\<close>

primrec copy_active ::
  "'z vm_state_scheme dynalloc \<Rightarrow> u32 list \<Rightarrow> 'z vm_state_scheme \<Rightarrow> 'z vm_state_scheme option" where
  "copy_active da [] s = Some s"
| "copy_active da (p # ps) s = do {
     (copy, s1) \<leftarrow> env_page_ws_list_create_element da (ws_virtual_address (ws_elems s p)) s;
     l \<leftarrow> insert_tail_l copy (page_active_WS_list s1);
     copy_active da ps (s1\<lparr>page_active_WS_list := l\<rparr>) }"

primrec hide_active :: "frame \<Rightarrow> u32 list \<Rightarrow> 'z vm_state_scheme \<Rightarrow> 'z vm_state_scheme option" where
  "hide_active dir [] s = Some s"
| "hide_active dir (p # ps) s = do {
     (u, s1) \<leftarrow> pt_set_page_permissions dir (ws_virtual_address (ws_elems s p)) 0 PERM_PRESENT s;
     l \<leftarrow> remove_l p (page_active_WS_list s1);
     hide_active dir ps (s1\<lparr>page_active_WS_list := l\<rparr>) }"

definition SIZEOF_REF :: u32 where [fos_consts]: "SIZEOF_REF = 12"

definition fault_optimal ::
  "'z vm_state_scheme dynalloc \<Rightarrow> 'z vm_state_scheme ide_ops \<Rightarrow> env_ptr \<Rightarrow> u32 \<Rightarrow> 'z vm_state_scheme \<Rightarrow> (fault_end \<times> 'z vm_state_scheme) option" where
  "fault_optimal da ide e fault_va s = do {
     s1 \<leftarrow> (if \<not> optimal_initialized s
            then copy_active da (page_WS_list (envs s e)) (s\<lparr>optimal_initialized := True, page_active_WS_list := []\<rparr>)
            else Some s);
     let page_va = ROUNDDOWN fault_va PAGE_SIZE;
     dir \<leftarrow> env_dir e s1;
     perms \<leftarrow> pt_get_page_permissions dir fault_va s1;
     s2 \<leftarrow> (if \<not> has_perm perms PERM_PRESENT
            then do {
              (fi, pt) \<leftarrow> get_frame_info dir page_va s1;
              if fi = None
              then do {
                (r, s2) \<leftarrow> load_page ide e fault_va (PERM_USER OR PERM_PRESENT OR PERM_WRITEABLE) s1;
                Some s2 }
              else do {
                (u, s2) \<leftarrow> pt_set_page_permissions dir page_va PERM_PRESENT 0 s1;
                Some s2 } }
            else Some s1);
     if is_page_in_ws (page_active_WS_list s2) page_va s2 then Some (Resumes, s2)
     else do {
       s3 \<leftarrow> (if of_nat (length (page_active_WS_list s2)) = page_WS_max_size (envs s2 e)
              then hide_active dir (page_active_WS_list s2) s2 else Some s2);
       (ws_elem, s4) \<leftarrow> env_page_ws_list_create_element da fault_va s3;
       l \<leftarrow> insert_tail_l ws_elem (page_active_WS_list s4);
       (ref, s5) \<leftarrow> kmalloc da SIZEOF_REF (s4\<lparr>page_active_WS_list := l\<rparr>);
       assert_that (ref \<noteq> 0);
       Some (Resumes, envs_upd e (\<lambda>x. x\<lparr>referenceStreamList := referenceStreamList x @ [page_va]\<rparr>) s5) } }"

section \<open>The handlers\<close>

text \<open>
  The clock strategies remove a victim and call the handler again; each call shortens the working set, whose
  length bounds the calls.  With a strategy that has no branch nothing happens.
\<close>

fun page_fault_loop ::
  "nat \<Rightarrow> 'z vm_state_scheme dynalloc \<Rightarrow> 'z vm_state_scheme ide_ops \<Rightarrow> env_ptr \<Rightarrow> u32 \<Rightarrow> 'z vm_state_scheme \<Rightarrow> (fault_end \<times> 'z vm_state_scheme) option" where
  "page_fault_loop fuel da ide e fault_va s =
     (if PageRepAlgoType s = PG_REP_OPTIMAL then fault_optimal da ide e fault_va s
      else do {
        let wsSize = (of_nat (length (page_WS_list (envs s e))) :: u32);
        let page_va = ROUNDDOWN fault_va PAGE_SIZE;
        if wsSize < page_WS_max_size (envs s e) then placement da ide e fault_va s
        else case PageRepAlgoType s of
          PG_REP_CLOCK \<Rightarrow>
            if is_page_in_ws (page_active_WS_list s) page_va s then mark_hand e s
            else (case fuel of
              0 \<Rightarrow> None
            | Suc n \<Rightarrow> do {
                dir \<leftarrow> env_dir e s;
                (victim, s1) \<leftarrow> clock_hand (length (page_WS_list (envs s e))) dir e s;
                s2 \<leftarrow> evict ide e victim s1;
                s3 \<leftarrow> remove_victim da e victim s2;
                page_fault_loop n da ide e fault_va s3 })
        | PG_REP_LRU_TIME_APPROX \<Rightarrow> replace_LRU da ide e fault_va s
        | PG_REP_MODIFIEDCLOCK \<Rightarrow>
            if is_page_in_ws (page_active_WS_list s) page_va s then mark_hand e s
            else (case fuel of
              0 \<Rightarrow> None
            | Suc n \<Rightarrow> do {
                dir \<leftarrow> env_dir e s;
                (victim, s1) \<leftarrow> mod_search 3 (unat (page_WS_max_size (envs s e))) dir e s;
                let next = ws_succ victim (page_WS_list (envs s1 e));
                s2 \<leftarrow> evict ide e victim (envs_upd e (\<lambda>x. x\<lparr>page_last_WS_element := next\<rparr>) s1);
                s3 \<leftarrow> remove_victim da e victim s2;
                page_fault_loop n da ide e fault_va s3 })
        | _ \<Rightarrow> Some (Resumes, s) })"

declare page_fault_loop.simps [simp del]

definition page_fault_handler ::
  "'z vm_state_scheme dynalloc \<Rightarrow> 'z vm_state_scheme ide_ops \<Rightarrow> env_ptr \<Rightarrow> u32 \<Rightarrow> 'z vm_state_scheme \<Rightarrow> (fault_end \<times> 'z vm_state_scheme) option" where
  "page_fault_handler da ide e fault_va s =
     (if use_kheap s then page_fault_loop (length (page_WS_list (envs s e))) da ide e fault_va s else Some (Resumes, s))"

definition table_fault_handler :: "env_ptr \<Rightarrow> u32 \<Rightarrow> 'z vm_state_scheme \<Rightarrow> 'z vm_state_scheme option" where
  "table_fault_handler e fault_va s = do {
     dir \<leftarrow> env_dir e s;
     (t, s1) \<leftarrow> create_page_table dir fault_va s;
     Some s1 }"

text \<open>The bookkeeping at the start: the third repetition of a fault at one address by one process panics.\<close>

definition note_fault :: "u32 \<Rightarrow> u32 \<Rightarrow> 'z vm_state_scheme \<Rightarrow> 'z vm_state_scheme option" where
  "note_fault fault_va eip s = do {
     s1 \<leftarrow> (if last_fault_va s = fault_va \<and> last_faulted_env s = cpu_proc s
            then do {
              assert_that (num_repeated_fault s + 1 \<noteq> 3);
              Some (s\<lparr>num_repeated_fault := num_repeated_fault s + 1\<rparr>) }
            else Some (s\<lparr>before_last_fault_va := last_fault_va s, before_last_eip := last_eip s, num_repeated_fault := 0\<rparr>));
     Some (s1\<lparr>last_eip := eip, last_fault_va := fault_va, last_faulted_env := cpu_proc s1\<rparr>) }"

text \<open>
  \<open>fault_handler\<close>: \<open>fault_va\<close> is the contents of the register \<open>CR2\<close>, \<open>userTrap\<close> says whether the fault came from
  user mode, and \<open>stack\<close> is the address of the processor's own kernel stack.
\<close>

definition stack_ok :: "bool \<Rightarrow> u32 \<Rightarrow> u32 \<Rightarrow> 'z vm_state_scheme \<Rightarrow> bool" where
  "stack_ok userTrap stack fault_va s \<longleftrightarrow>
     (if \<not> userTrap
      then \<not> (case cpu_proc s of None \<Rightarrow> False
               | Some e \<Rightarrow> fault_va \<ge> kstack (envs s e) \<and> fault_va < kstack (envs s e) + PAGE_SIZE) \<and>
           \<not> (fault_va \<ge> stack \<and> fault_va < stack + PAGE_SIZE) \<and>
           \<not> (use_kheap s \<and> fault_va \<ge> KERNEL_HEAP_MAX)
      else \<not> (fault_va \<ge> USTACKTOP \<and> fault_va < USER_TOP))"

definition invalid_pointer :: "u32 \<Rightarrow> int \<Rightarrow> bool" where
  "invalid_pointer fault_va perms \<longleftrightarrow> fault_va \<ge> USTACKTOP \<or>
     (\<not> has_perm perms PERM_UHPAGE \<and> fault_va \<ge> USER_HEAP_START \<and> fault_va < USER_HEAP_MAX) \<or>
     (has_perm perms PERM_PRESENT \<and> \<not> has_perm perms PERM_WRITEABLE)"

definition fault_handler ::
  "'z vm_state_scheme dynalloc \<Rightarrow> 'z vm_state_scheme ide_ops \<Rightarrow> u32 \<Rightarrow> bool \<Rightarrow> u32 \<Rightarrow> u32 \<Rightarrow> 'z vm_state_scheme \<Rightarrow> (fault_end \<times> 'z vm_state_scheme) option" where
  "fault_handler da ide stack userTrap eip fault_va s = do {
     s1 \<leftarrow> note_fault fault_va eip s;
     assert_that (stack_ok userTrap stack fault_va s1);
     e \<leftarrow> cpu_proc s1;
     dir \<leftarrow> env_dir e s1;
     if phys s1 dir (PDX fault_va) AND PERM_PRESENT \<noteq> PERM_PRESENT
     then do {
       s2 \<leftarrow> table_fault_handler e fault_va (envs_upd e (\<lambda>x. x\<lparr>tableFaultsCounter := tableFaultsCounter x + 1\<rparr>) s1);
       Some (Resumes, tlbflush s2) }
     else do {
       perms \<leftarrow> pt_get_page_permissions dir fault_va s1;
       if userTrap \<and> invalid_pointer fault_va perms
       then do { (c, s2) \<leftarrow> env_exit s1; Some (Leaves, s2) }
       else do {
         assert_that (\<not> has_perm perms PERM_PRESENT);
         let s2 = envs_upd e (\<lambda>x. x\<lparr>pageFaultsCounter := pageFaultsCounter x + 1\<rparr>) s1;
         assert_that (\<not> buffering_enabled s2);
         (fe, s3) \<leftarrow> page_fault_handler da ide e fault_va s2;
         Some (fe, if fe = Resumes then tlbflush s3 else s3) } } }"

end
