(* ===== verification/FOS_DiskThms.thy ===== *)
theory FOS_DiskThms
  imports FOS_Disk FOS_SystemThms
begin

unbundle bit_operations_syntax

text \<open>
  What the page file promises: no disk frame belongs to two pages or to a page and the free list, a page
  that was added is read back unchanged, and running out of space is reported.
\<close>

section \<open>Locks and disk fields\<close>

lemma disk_sel_locking [simp]:
  "disk_free_frame_list (entered l s) = disk_free_frame_list s" "disk_free_frame_list (left l s) = disk_free_frame_list s"
  "disk_free_frame_list (refresh_intena s) = disk_free_frame_list s"
  "disk_pages (refresh_intena s) = disk_pages s" "cpu_cr3 (refresh_intena s) = cpu_cr3 s"
  by (simp_all add: entered_def left_def refresh_intena_def pushcli_def cli_def Let_def)

lemma left_entered_upd:
  assumes "cpu_ok s" "locks_ok s" "\<not> held l s"
  shows "left l ((entered l s)\<lparr>disk_free_frame_list := x\<rparr>) = (refresh_intena s)\<lparr>disk_free_frame_list := x\<rparr>"
proof -
  have "left l ((entered l s)\<lparr>disk_free_frame_list := x\<rparr>) = (left l (entered l s))\<lparr>disk_free_frame_list := x\<rparr>"
    by (simp add: left_def)
  moreover have "klocks s l = free_lock" using assms(2,3) by (auto simp: locks_ok_def held_def taken_lock_def)
  ultimately show ?thesis using left_entered [OF assms(1)] by simp
qed

text \<open>Between acquire and release of the list's lock, only the list changes.\<close>

lemma release_after_entered:
  assumes "cpu_ok s" "locks_ok s" "\<not> held l s"
  shows "release_kspinlock l ((entered l s)\<lparr>disk_free_frame_list := x\<rparr>) = Some ((refresh_intena s)\<lparr>disk_free_frame_list := x\<rparr>)"
proof -
  let ?t = "(entered l s)\<lparr>disk_free_frame_list := x\<rparr>"
  have "cpu_ok ?t" using cpu_ok_entered [OF assms(1), of l] by (simp add: cpu_ok_def)
  moreover have "held l ?t" by (simp add: held_def taken_lock_def)
  moreover have "0 < ncli ?t" using assms(1) by (simp add: cpu_ok_def)
  ultimately show ?thesis using release_kspinlock_eq [of ?t l] left_entered_upd [OF assms] by simp
qed

lemma allocate_disk_frame_eq:
  assumes "cpu_ok s" "locks_ok s" "\<not> held DFLLOCK s"
  shows "allocate_disk_frame s = (case disk_free_frame_list s of
      [] \<Rightarrow> Some ((E_NO_PAGE_FILE_SPACE, 0), refresh_intena s)
    | f # fs \<Rightarrow> Some ((0, of_nat f), (refresh_intena s)\<lparr>disk_free_frame_list := fs\<rparr>))"
proof -
  have nil: "(entered DFLLOCK s)\<lparr>disk_free_frame_list := disk_free_frame_list s\<rparr> = entered DFLLOCK s"
    "(refresh_intena s)\<lparr>disk_free_frame_list := disk_free_frame_list s\<rparr> = refresh_intena s"
    by simp_all
  note r = release_after_entered [OF assms]
  show ?thesis
    using assms r [of "disk_free_frame_list s"] r
    by (simp add: allocate_disk_frame_def acquire_kspinlock_eq nil first_of_def remove_l_def split: list.splits)
qed

lemma free_disk_frame_eq:
  assumes "cpu_ok s" "locks_ok s" "\<not> held DFLLOCK s" "dfn \<noteq> 0" "unat dfn \<notin> set (disk_free_frame_list s)"
  shows "free_disk_frame dfn s = Some ((refresh_intena s)\<lparr>disk_free_frame_list := unat dfn # disk_free_frame_list s\<rparr>)"
  using assms release_after_entered [OF assms(1-3)]
  by (simp add: free_disk_frame_def acquire_kspinlock_eq insert_l_def)

section \<open>Pages with a disk table\<close>

definition disk_table :: "env_ptr \<Rightarrow> u32 \<Rightarrow> 'z disk_state_scheme \<Rightarrow> frame option" where
  "disk_table e va s = do {
     dir \<leftarrow> disk_env_pgdir (envs s e);
     let entry = phys s dir (PDX va);
     assert_that (entry \<noteq> 0);
     p \<leftarrow> disk_table_ptr va (EXTRACT_ADDRESS entry) s;
     p }"

lemma disk_table_found:
  assumes "disk_table e va s = Some t"
  shows "\<exists>dir. disk_env_pgdir (envs s e) = Some dir \<and> (\<forall>c. get_disk_page_table dir va c s = Some ((0, Some t), s)) \<and>
    get_disk_page_directory e s = Some (0, s)"
  using assms
  by (auto simp: disk_table_def get_disk_page_table_def get_disk_page_directory_def bind_assert_that Let_def
      split: if_splits elim!: bind_SomeE)

text \<open>\<open>page_file_ok T s\<close>: the entries of the disk tables \<open>T\<close> and the free list hold each disk frame at most once.\<close>

definition page_file_ok :: "frame set \<Rightarrow> 'z disk_state_scheme \<Rightarrow> bool" where
  "page_file_ok T s \<longleftrightarrow> distinct (disk_free_frame_list s) \<and>
     (\<forall>f \<in> set (disk_free_frame_list s). 0 < f \<and> f < unat PAGES_PER_FILE) \<and>
     (\<forall>t \<in> T. \<forall>i. phys s t i \<noteq> 0 \<longrightarrow> unat (phys s t i) < unat PAGES_PER_FILE \<and> unat (phys s t i) \<notin> set (disk_free_frame_list s)) \<and>
     (\<forall>t \<in> T. \<forall>t' \<in> T. \<forall>i i'. phys s t i \<noteq> 0 \<and> phys s t i = phys s t' i' \<longrightarrow> t = t' \<and> i = i')"

lemma page_file_cong:
  "phys s' = phys s \<Longrightarrow> disk_free_frame_list s' = disk_free_frame_list s \<Longrightarrow> page_file_ok T s' = page_file_ok T s"
  by (simp add: page_file_ok_def)

lemma page_file_okD:
  assumes "page_file_ok T s"
  shows "distinct (disk_free_frame_list s)"
    and "f \<in> set (disk_free_frame_list s) \<Longrightarrow> 0 < f \<and> f < unat PAGES_PER_FILE"
    and "t \<in> T \<Longrightarrow> phys s t i \<noteq> 0 \<Longrightarrow> unat (phys s t i) < unat PAGES_PER_FILE"
    and "t \<in> T \<Longrightarrow> phys s t i \<noteq> 0 \<Longrightarrow> unat (phys s t i) \<notin> set (disk_free_frame_list s)"
    and "t \<in> T \<Longrightarrow> t' \<in> T \<Longrightarrow> phys s t i \<noteq> 0 \<Longrightarrow> phys s t i = phys s t' i' \<Longrightarrow> t = t' \<and> i = i'"
  using assms unfolding page_file_ok_def by blast+

lemma PAGES_PER_FILE_val: "unat PAGES_PER_FILE = 133120"
  by (simp add: PAGES_PER_FILE_def PAGE_FILE_SIZE_def PAGE_SIZE_def)

lemma page_file_okI:
  assumes "distinct (disk_free_frame_list s)"
    and "\<And>f. f \<in> set (disk_free_frame_list s) \<Longrightarrow> 0 < f \<and> f < unat PAGES_PER_FILE"
    and "\<And>t i. t \<in> T \<Longrightarrow> phys s t i \<noteq> 0 \<Longrightarrow>
      unat (phys s t i) < unat PAGES_PER_FILE \<and> unat (phys s t i) \<notin> set (disk_free_frame_list s)"
    and "\<And>t t' i i'. t \<in> T \<Longrightarrow> t' \<in> T \<Longrightarrow> phys s t i \<noteq> 0 \<Longrightarrow> phys s t i = phys s t' i' \<Longrightarrow> t = t' \<and> i = i'"
  shows "page_file_ok T s"
  using assms unfolding page_file_ok_def by blast

lemma page_file_take:
  assumes "page_file_ok T s" "disk_free_frame_list s = f # fs" "t \<in> T" "phys s t i = 0"
    and "phys s' = (phys s)(t := (phys s t)(i := of_nat f))" "disk_free_frame_list s' = fs"
  shows "page_file_ok T s' \<and> (of_nat f :: u32) \<noteq> 0"
proof -
  note D = page_file_okD [OF assms(1)]
  have mem: "f \<in> set (disk_free_frame_list s)" "set fs \<subseteq> set (disk_free_frame_list s)" using assms(2) by auto
  have f: "0 < f" "f < 133120" "f \<notin> set fs" using D(1) D(2) [OF mem(1)] assms(2) by (simp_all add: PAGES_PER_FILE_val)
  have u: "unat (of_nat f :: u32) = f" using f(2) by (simp add: unat_of_nat)
  have nz: "(of_nat f :: u32) \<noteq> 0" using u f(1) by (metis unat_0 less_numeral_extra(3))
  have other: "phys s a j \<noteq> of_nat f" if "a \<in> T" for a j
  proof
    assume "phys s a j = of_nat f"
    with D(4) [OF that, of j] nz u mem(1) show False by simp
  qed
  have new: "phys s' a j = (if a = t \<and> j = i then of_nat f else phys s a j)" for a j using assms(5) by simp
  have "page_file_ok T s'"
  proof (rule page_file_okI)
    show "distinct (disk_free_frame_list s')" using D(1) assms(2,6) by simp
    show "0 < g \<and> g < unat PAGES_PER_FILE" if "g \<in> set (disk_free_frame_list s')" for g
      using D(2) [of g] that mem(2) assms(6) by auto
    fix a j
    assume a: "a \<in> T" "phys s' a j \<noteq> 0"
    show "unat (phys s' a j) < unat PAGES_PER_FILE \<and> unat (phys s' a j) \<notin> set (disk_free_frame_list s')"
    proof (cases "a = t \<and> j = i")
      case True
      then show ?thesis using new u f(2,3) assms(6) by (simp add: PAGES_PER_FILE_val)
    next
      case False
      then have e: "phys s' a j = phys s a j" using new by auto
      show ?thesis using D(3,4) [OF a(1), of j] a(2) mem(2) assms(6) unfolding e by auto
    qed
  next
    fix a b j k
    assume a: "a \<in> T" "b \<in> T" "phys s' a j \<noteq> 0" "phys s' a j = phys s' b k"
    show "a = b \<and> j = k"
      using a other [OF a(1), of j] other [OF a(2), of k] D(5) [OF a(1,2), of j k] unfolding new by (auto split: if_splits)
  qed
  with nz show ?thesis by simp
qed

lemma page_file_give:
  assumes "page_file_ok T s" "t \<in> T" "phys s t i = dfn" "dfn \<noteq> 0"
    and "phys s' = (phys s)(t := (phys s t)(i := 0))" "disk_free_frame_list s' = unat dfn # disk_free_frame_list s"
  shows "page_file_ok T s'"
proof -
  note D = page_file_okD [OF assms(1)]
  have d: "unat dfn < unat PAGES_PER_FILE" "unat dfn \<notin> set (disk_free_frame_list s)" "0 < unat dfn"
    using D(3,4) [OF assms(2), of i] assms(3,4) by (simp_all add: unat_gt_0)
  have new: "phys s' a j = (if a = t \<and> j = i then 0 else phys s a j)" for a j using assms(5) by simp
  show ?thesis
  proof (rule page_file_okI)
    show "distinct (disk_free_frame_list s')" using d D(1) assms(6) by simp
    show "0 < g \<and> g < unat PAGES_PER_FILE" if "g \<in> set (disk_free_frame_list s')" for g
      using d D(2) [of g] that assms(6) by auto
    fix a j
    assume a: "a \<in> T" "phys s' a j \<noteq> 0"
    then have p: "phys s' a j = phys s a j" "\<not> (a = t \<and> j = i)" "phys s a j \<noteq> 0" using new by (auto split: if_splits)
    have "phys s a j \<noteq> dfn" using D(5) [OF a(1) assms(2) p(3), of i] p(2) assms(3) by auto
    then have "unat (phys s a j) \<noteq> unat dfn" by (simp add: word_unat_eq_iff)
    then show "unat (phys s' a j) < unat PAGES_PER_FILE \<and> unat (phys s' a j) \<notin> set (disk_free_frame_list s')"
      using D(3,4) [OF a(1) p(3)] assms(6) unfolding p(1) by simp
  next
    fix a b j k
    assume a: "a \<in> T" "b \<in> T" "phys s' a j \<noteq> 0" "phys s' a j = phys s' b k"
    then show "a = b \<and> j = k" using D(5) [OF a(1,2), of j k] unfolding new by (auto split: if_splits)
  qed
qed

lemma pf_assign_frame_eq:
  assumes "cpu_ok s" "locks_ok s" "\<not> held DFLLOCK s" "va < KERNEL_BASE" "disk_table e va s = Some t"
  shows "pf_assign_frame e va s =
    (if phys s t (PTX va) \<noteq> 0 then Some ((0, phys s t (PTX va)), s)
     else case disk_free_frame_list s of
       [] \<Rightarrow> Some ((E_NO_PAGE_FILE_SPACE, 0), refresh_intena s)
     | f # fs \<Rightarrow> Some ((0, of_nat f), write_phys t (PTX va) (of_nat f) ((refresh_intena s)\<lparr>disk_free_frame_list := fs\<rparr>)))"
proof -
  from disk_table_found [OF assms(5)] obtain dir where d: "disk_env_pgdir (envs s e) = Some dir"
    "get_disk_page_table dir va True s = Some ((0, Some t), s)" "get_disk_page_directory e s = Some (0, s)" by blast
  show ?thesis
    using assms(4) d allocate_disk_frame_eq [OF assms(1-3)]
    by (simp add: pf_assign_frame_def Let_def E_NO_PAGE_FILE_SPACE_def split: list.splits)
qed

text \<open>
  C13: the page file hands out each disk frame once.  When a page of a process has a disk table, adding the page
  succeeds unless it has no disk frame and none is free, which is reported and changes nothing; the page then
  has a disk frame of its own.  Removing the page gives its disk frame back.  In every case no disk
  frame is in two table entries, or in an entry and the free list.
\<close>

theorem page_file_frames:
  assumes "cpu_ok s" "locks_ok s" "\<not> held DFLLOCK s" "va < KERNEL_BASE" "disk_table e va s = Some t"
    and "page_file_ok T s" "t \<in> T"
  shows "(\<exists>r s'. pf_add_empty_env_page ide e va False s = Some (r, s') \<and> page_file_ok T s' \<and>
      (if phys s t (PTX va) = 0 \<and> disk_free_frame_list s = []
       then r = E_NO_PAGE_FILE_SPACE \<and> phys s' = phys s
       else r = 0 \<and> phys s' t (PTX va) \<noteq> 0)) \<and>
    (\<exists>s'. pf_remove_env_page e va s = Some s' \<and> page_file_ok T s' \<and> phys s' t (PTX va) = 0 \<and>
      length (disk_free_frame_list s') = length (disk_free_frame_list s) + (if phys s t (PTX va) = 0 then 0 else 1))"
proof
  let ?d = "phys s t (PTX va)" and ?fl = "disk_free_frame_list s"
  have nE: "E_NO_PAGE_FILE_SPACE \<noteq> 0" by (simp add: E_NO_PAGE_FILE_SPACE_def)
  have r: "page_file_ok T (refresh_intena s)" using assms(6) by (subst page_file_cong [of _ s]) simp_all
  note eq = pf_assign_frame_eq [OF assms(1-5)]
  have add: "pf_add_empty_env_page ide e va False s = Some (r, s')"
    if "pf_assign_frame e va s = Some ((r, x), s')" "r = 0 \<or> r = E_NO_PAGE_FILE_SPACE" for r x s'
    using that by (auto simp: pf_add_empty_env_page_def)
  show "\<exists>r s'. pf_add_empty_env_page ide e va False s = Some (r, s') \<and> page_file_ok T s' \<and>
      (if ?d = 0 \<and> ?fl = [] then r = E_NO_PAGE_FILE_SPACE \<and> phys s' = phys s else r = 0 \<and> phys s' t (PTX va) \<noteq> 0)"
  proof (cases "?d = 0")
    case False
    then show ?thesis using add [of 0 ?d s] eq assms(6) by auto
  next
    case True
    show ?thesis
    proof (cases ?fl)
      case Nil
      then show ?thesis using True add [of E_NO_PAGE_FILE_SPACE 0 "refresh_intena s"] eq r by auto
    next
      case (Cons f fs)
      let ?s' = "write_phys t (PTX va) (of_nat f) ((refresh_intena s)\<lparr>disk_free_frame_list := fs\<rparr>)"
      have "page_file_ok T ?s' \<and> (of_nat f :: u32) \<noteq> 0"
        by (rule page_file_take [OF assms(6) Cons assms(7) True]) (simp_all add: write_phys_def)
      then show ?thesis using True Cons add [of 0 "of_nat f" ?s'] eq by auto
    qed
  qed
  from disk_table_found [OF assms(5)] obtain dir where d: "disk_env_pgdir (envs s e) = Some dir"
    "get_disk_page_table dir va False s = Some ((0, Some t), s)" by blast
  let ?w = "write_phys t (PTX va) 0 s"
  have w: "cpu_ok ?w" "locks_ok ?w" "\<not> held DFLLOCK ?w" "disk_free_frame_list ?w = ?fl"
    using assms(1-3) by (simp_all add: cpu_ok_def locks_ok_def held_def write_phys_def)
  have rem: "pf_remove_env_page e va s = free_disk_frame ?d ?w" using d by (simp add: pf_remove_env_page_def)
  show "\<exists>s'. pf_remove_env_page e va s = Some s' \<and> page_file_ok T s' \<and> phys s' t (PTX va) = 0 \<and>
      length (disk_free_frame_list s') = length ?fl + (if ?d = 0 then 0 else 1)"
  proof (cases "?d = 0")
    case True
    then have "(phys s)(t := (phys s t)(PTX va := 0)) = phys s" by (simp add: fun_eq_iff)
    then have "page_file_ok T ?w" using assms(6) w(4) by (subst page_file_cong [of _ s]) simp_all
    then show ?thesis using True rem w(4) by (simp add: free_disk_frame_def)
  next
    case False
    have nf: "unat ?d \<notin> set ?fl" by (rule page_file_okD(4) [OF assms(6,7) False])
    let ?s' = "(refresh_intena ?w)\<lparr>disk_free_frame_list := unat ?d # ?fl\<rparr>"
    have "page_file_ok T ?s'" by (rule page_file_give [OF assms(6,7) refl False]) simp_all
    then show ?thesis using False rem free_disk_frame_eq [OF w(1-3) False] nf w(4) by auto
  qed
qed

section \<open>Reading back what was written\<close>

text \<open>
  The contract of the disk driver for one aligned page: a write stores the page that the address
  translates to, a read puts the stored page there, and both return 0.
\<close>

locale ide_disk =
  fixes ide :: "'z disk_state_scheme ide_ops"
  assumes ide_write_page:
      "PGOFF va = 0 \<Longrightarrow> mmu_walk va s = Some f \<Longrightarrow>
       ide_write ide sec va SECTOR_PER_PAGE s = Some (0, s\<lparr>disk_pages := (disk_pages s)(sec := phys s f)\<rparr>)"
    and ide_read_page:
      "PGOFF va = 0 \<Longrightarrow> mmu_walk va s = Some f \<Longrightarrow> mmu_touch va s = Some s' \<Longrightarrow>
       ide_read ide sec va SECTOR_PER_PAGE s = Some (0, s'\<lparr>phys := (phys s')(f := disk_pages s sec)\<rparr>)"
begin

lemma write_disk_page_stores:
  "PGOFF va = 0 \<Longrightarrow> mmu_walk va s = Some f \<Longrightarrow>
   write_disk_page ide dfn va s = Some (0, s\<lparr>disk_pages := (disk_pages s)(disk_sector dfn := phys s f)\<rparr>)"
  by (simp add: write_disk_page_def ide_write_page)

lemma read_disk_page_loads:
  assumes "PGOFF va = 0" "mmu_walk va s = Some f" "mmu_table va s = Some pt"
  shows "read_disk_page ide dfn va s =
    Some (0, (write_phys pt (PTX va) (phys s pt (PTX va) OR PERM_USED OR PERM_MODIFIED) s)
      \<lparr>phys := ((phys s)(pt := (phys s pt)(PTX va := phys s pt (PTX va) OR PERM_USED OR PERM_MODIFIED)))
        (f := disk_pages s (disk_sector dfn))\<rparr>)"
proof -
  let ?s' = "write_phys pt (PTX va) (phys s pt (PTX va) OR PERM_USED OR PERM_MODIFIED) s"
  have "mmu_touch va s = Some ?s'" using assms(3) by (simp add: mmu_touch_def)
  from ide_read_page [OF assms(1,2) this] show ?thesis by (simp add: read_disk_page_def)
qed

end

text \<open>A frame that the current translation does not go through.\<close>

definition mmu_private :: "frame \<Rightarrow> 'z mem_state_scheme \<Rightarrow> bool" where
  "mmu_private t s \<longleftrightarrow> t \<noteq> unat (PPN (cpu_cr3 s)) \<and> (\<forall>va. mmu_table va s \<noteq> Some t)"

lemma mmu_walk_other:
  assumes "mmu_private t s" "cpu_cr3 s' = cpu_cr3 s" "\<And>f. f \<noteq> t \<Longrightarrow> phys s' f = phys s f"
  shows "mmu_table va s' = mmu_table va s" "mmu_walk va s' = mmu_walk va s"
proof -
  have c: "phys s' (unat (PPN (cpu_cr3 s))) = phys s (unat (PPN (cpu_cr3 s)))" using assms(1,3) by (simp add: mmu_private_def)
  then show m: "mmu_table va s' = mmu_table va s" by (simp add: mmu_table_def assms(2) Let_def)
  have "phys s' p = phys s p" if "mmu_table va s = Some p" for p using assms(1,3) that unfolding mmu_private_def by metis
  then show "mmu_walk va s' = mmu_walk va s" using m by (cases "mmu_table va s") (simp_all add: mmu_walk_def)
qed

lemma PPN_EXTRACT: "PPN (EXTRACT_ADDRESS x) = PPN x" "unat (EXTRACT_ADDRESS x div PAGE_SIZE) = unat (PPN x)"
proof -
  show p: "PPN (EXTRACT_ADDRESS x) = PPN x" by (rule EXTRACT_ADDRESS_eq_iff [THEN iffD1]) (simp add: EXTRACT_ADDRESS_def)
  have "EXTRACT_ADDRESS x div PAGE_SIZE = PPN (EXTRACT_ADDRESS x)"
    by (simp add: PPN_def PAGE_SIZE_def drop_bit_eq_div)
  with p show "unat (EXTRACT_ADDRESS x div PAGE_SIZE) = unat (PPN x)" by simp
qed

lemma get_page_table_mmu:
  assumes "get_page_table (unat (PPN (cpu_cr3 s))) va s = Some (TABLE_IN_MEMORY, Some pt)"
  shows "mmu_table va s = Some pt"
  using assms
  by (auto simp: get_page_table_def mmu_table_def kheap_table_ptr_def Let_def PPN_EXTRACT PERM_PRESENT_def
      split: if_splits elim!: bind_SomeE)

lemma get_page_table_same:
  assumes "phys s' dir (PDX va) = phys s dir (PDX va)" "use_kheap s' = use_kheap s" "frames_info s' = frames_info s"
    and "number_of_frames s' = number_of_frames s"
  shows "get_page_table dir va s' = get_page_table dir va s"
  using assms by (simp add: get_page_table_def kheap_table_ptr_def STATIC_KERNEL_VIRTUAL_ADDRESS_def Let_def)

lemma disk_table_cong:
  assumes "disk_env_pgdir (envs s' e) = disk_env_pgdir (envs s e)" "\<And>d. disk_env_pgdir (envs s e) = Some d \<Longrightarrow> phys s' d = phys s d"
    and "use_kheap s' = use_kheap s" "frames_info s' = frames_info s" "number_of_frames s' = number_of_frames s"
  shows "disk_table e va s' = disk_table e va s"
  using assms
  by (cases "disk_env_pgdir (envs s e)")
    (simp_all add: disk_table_def disk_table_ptr_def kheap_table_ptr_def STATIC_KERNEL_VIRTUAL_ADDRESS_def Let_def cong: if_cong)

lemma ROUNDDOWN_aligned: "PGOFF va = 0 \<Longrightarrow> ROUNDDOWN va PAGE_SIZE = va"
proof -
  assume "PGOFF va = 0"
  then have "va AND mask 12 = 0" by (simp add: PGOFF_def mask_eq_exp_minus_1)
  then have "va mod 2 ^ 12 = 0" by (simp only: take_bit_eq_mask [symmetric] take_bit_eq_mod)
  then show ?thesis by (simp add: ROUNDDOWN_def PAGE_SIZE_def)
qed

lemma pt_set_page_permissions_eq:
  assumes "get_page_table dir va s = Some (r, Some t)"
  shows "\<exists>s'. pt_set_page_permissions dir va a b s = Some ((), s') \<and>
    phys s' = (phys s)(t := (phys s t)(PTX va := (phys s t (PTX va) OR a) AND NOT b)) \<and>
    frames_info s' = frames_info s \<and> envs s' = envs s \<and> mem_state.more s' = mem_state.more s \<and> cpu_cr3 s' = cpu_cr3 s"
  using assms
  by (auto simp: pt_set_page_permissions_def Let_def tlb_invalidate_def invlpg_def write_phys_def split: option.splits)

text \<open>
  C12: pages survive the way through the page file.  A page of a process that has a disk table is added from the
  address \<open>src\<close>; when the process reads it back to its own page, the frame there holds the words that were at
  \<open>src\<close>, the modified bit of the entry is clear, and no other page of the disk has changed.
\<close>

theorem page_file_roundtrip:
  assumes "ide_disk ide" "cpu_ok s" "locks_ok s" "\<not> held DFLLOCK s" "page_file_ok T s" "t \<in> T"
    and "va < KERNEL_BASE" "PGOFF va = 0" "PGOFF src = 0"
    and "disk_table e va s = Some t" "disk_env_pgdir (envs s e) \<noteq> Some t" "mmu_private t s"
    and "phys s t (PTX va) \<noteq> 0 \<or> disk_free_frame_list s \<noteq> []"
    and "env_page_directory (envs s e) = Some pd" "pd = unat (PPN (cpu_cr3 s))"
    and "get_page_table pd va s = Some (TABLE_IN_MEMORY, Some pt)"
    and "mmu_walk va s = Some f" "mmu_walk src s = Some g" "g \<noteq> t" "f \<notin> {pd, pt, t}" "pt \<noteq> pd"
  shows "\<exists>s1 s2. pf_add_env_page ide e va src s = Some (0, s1) \<and> pf_read_env_page ide e va s1 = Some (0, s2) \<and>
    phys s2 f = phys s g \<and> phys s2 pt (PTX va) AND PERM_MODIFIED = 0 \<and>
    (\<forall>sec. sec \<noteq> disk_sector (phys s2 t (PTX va)) \<longrightarrow> disk_pages s2 sec = disk_pages s sec)"
proof -
  note eq = pf_assign_frame_eq [OF assms(2-4,7,10)]
  have "\<exists>dfn s0. pf_assign_frame e va s = Some ((0, dfn), s0) \<and> dfn \<noteq> 0 \<and> phys s0 = (phys s)(t := (phys s t)(PTX va := dfn)) \<and>
      envs s0 = envs s \<and> cpu_cr3 s0 = cpu_cr3 s \<and> use_kheap s0 = use_kheap s \<and> frames_info s0 = frames_info s \<and>
      number_of_frames s0 = number_of_frames s \<and> disk_pages s0 = disk_pages s"
  proof (cases "phys s t (PTX va) = 0")
    case False
    then show ?thesis using eq by (auto simp: fun_eq_iff)
  next
    case True
    then obtain x xs where fl: "disk_free_frame_list s = x # xs" using assms(13) by (cases "disk_free_frame_list s") auto
    let ?s0 = "write_phys t (PTX va) (of_nat x) ((refresh_intena s)\<lparr>disk_free_frame_list := xs\<rparr>)"
    have "(of_nat x :: u32) \<noteq> 0" using page_file_take [OF assms(5) fl assms(6) True, of ?s0] by (simp add: write_phys_def)
    then show ?thesis using True fl eq by (intro exI [of _ "of_nat x"] exI [of _ ?s0]) (simp add: write_phys_def)
  qed
  then obtain dfn s0 where a: "pf_assign_frame e va s = Some ((0, dfn), s0)" "dfn \<noteq> 0"
    and p0: "phys s0 = (phys s)(t := (phys s t)(PTX va := dfn))"
    and r0: "envs s0 = envs s" "cpu_cr3 s0 = cpu_cr3 s" "use_kheap s0 = use_kheap s" "frames_info s0 = frames_info s"
      "number_of_frames s0 = number_of_frames s" "disk_pages s0 = disk_pages s" by blast
  have w0: "mmu_walk v s0 = mmu_walk v s" "mmu_table v s0 = mmu_table v s" for v
    using mmu_walk_other [OF assms(12) r0(2)] p0 by simp_all
  let ?s1 = "s0\<lparr>disk_pages := (disk_pages s0)(disk_sector dfn := phys s0 g)\<rparr>"
  have src: "mmu_walk src s0 = Some g" using w0(1) assms(18) by simp
  have add: "pf_add_env_page ide e va src s = Some (0, ?s1)"
    using a(1) ide_disk.write_disk_page_stores [OF assms(1,9) src] by (simp add: pf_add_env_page_def E_NO_PAGE_FILE_SPACE_def)
  have m1: "mmu_walk v ?s1 = mmu_walk v s0" "mmu_table v ?s1 = mmu_table v s0" for v by (simp_all add: mmu_walk_def mmu_table_def Let_def)
  have mt: "mmu_table va s = Some pt" using get_page_table_mmu [of s va pt] assms(15,16) by simp
  have ptt: "pt \<noteq> t" using assms(12) mt by (auto simp: mmu_private_def)
  have dt: "disk_table e va ?s1 = Some t"
    using assms(10,11) p0 r0 by (subst disk_table_cong [of _ _ s]) auto
  from disk_table_found [OF dt] obtain dir where d: "disk_env_pgdir (envs ?s1 e) = Some dir"
    "get_disk_page_table dir va False ?s1 = Some ((0, Some t), ?s1)" by blast
  let ?v = "phys s0 pt (PTX va) OR PERM_USED OR PERM_MODIFIED"
  let ?ph = "((phys s0)(pt := (phys s0 pt)(PTX va := ?v)))(f := phys s0 g)"
  let ?s2 = "(write_phys pt (PTX va) ?v ?s1)\<lparr>phys := ?ph\<rparr>"
  have rd: "read_disk_page ide dfn va ?s1 = Some (0, ?s2)"
    using ide_disk.read_disk_page_loads [OF assms(1,8), of ?s1 f pt dfn] m1 w0 mt assms(17) by simp
  have gp: "get_page_table pd va ?s2 = Some (TABLE_IN_MEMORY, Some pt)"
    unfolding assms(16) [symmetric]
    by (rule get_page_table_same)
      (use p0 r0 assms(12,15,20,21) in \<open>auto simp: write_phys_def mmu_private_def\<close>)
  obtain s3 where s3: "pt_set_page_permissions pd va 0 PERM_MODIFIED ?s2 = Some ((), s3)"
    "phys s3 = ?ph(pt := (?ph pt)(PTX va := (?ph pt (PTX va) OR 0) AND NOT PERM_MODIFIED))"
    "mem_state.more s3 = mem_state.more ?s2"
    using pt_set_page_permissions_eq [OF gp, of 0 PERM_MODIFIED] by (auto simp: write_phys_def)
  have dp: "disk_pages s3 = disk_pages ?s1"
    using s3(3) by (cases s3; cases s0) (simp add: write_phys_def)
  let ?s4 = "envs_upd e (\<lambda>x. x\<lparr>nPageIn := nPageIn x + 1\<rparr>) s3"
  have read: "pf_read_env_page ide e va ?s1 = Some (0, ?s4)"
    using d rd s3(1) a(2) p0 r0(1) assms(14) ROUNDDOWN_aligned [OF assms(8)]
    by (simp add: pf_read_env_page_def write_phys_def)
  have u: "phys ?s4 = phys s3" "disk_pages ?s4 = disk_pages s3" by (simp_all add: envs_upd_def)
  have "phys s3 f = phys s g" using s3(2) p0 assms(19,20) by auto
  moreover have "phys s3 pt (PTX va) AND PERM_MODIFIED = 0"
    using s3(2) by (simp add: bit_eq_iff bit_simps)
  moreover have "phys s3 t (PTX va) = dfn" using s3(2) p0 assms(20) ptt by auto
  ultimately show ?thesis
    using add read u dp r0(6) by (intro exI [of _ ?s1] exI [of _ ?s4]) simp
qed

section \<open>An example\<close>

text \<open>A driver that moves one page at a time meets the contract.\<close>

definition pio_disk :: "'z disk_state_scheme ide_ops" where
  "pio_disk = \<lparr>
     ide_read = (\<lambda>sec va n s. do {
       f \<leftarrow> mmu_walk va s;
       s' \<leftarrow> mmu_touch va s;
       Some (0, s'\<lparr>phys := (phys s')(f := disk_pages s sec)\<rparr>) }),
     ide_write = (\<lambda>sec va n s. do {
       f \<leftarrow> mmu_walk va s;
       Some (0, s\<lparr>disk_pages := (disk_pages s)(sec := phys s f)\<rparr>) })\<rparr>"

interpretation pio: ide_disk pio_disk
  by unfold_locales (simp_all add: pio_disk_def)

text \<open>
  Process 2 has the page directory 50 with the page table 51, its pages 1 and 2 in the frames 52 and 53, and
  the disk directory 60 with the empty disk table 61; the disk frames 7 and 8 are free.
\<close>

definition disk_phys :: "frame \<Rightarrow> u32 \<Rightarrow> u32" where
  "disk_phys f i =
     (if f = 50 \<and> i = 0 then 0x33001 else if f = 51 \<and> i = 1 then 0x34001 else if f = 51 \<and> i = 2 then 0x35001
      else if f = 53 then i + 5 else if f = 60 \<and> i = 0 then 0x3D001 else 0)"

definition disk_ex :: disk_state where
  "disk_ex = conc_state.extend ((st sys_ex)\<lparr>use_kheap := False, number_of_frames := 100, phys := disk_phys, cpu_cr3 := 0x32000,
       envs := (envs (st sys_ex))(2 := (env_ex 2 1 ENV_READY)\<lparr>disk_env_pgdir := Some 60\<rparr>)\<rparr>)
     (disk_state.fields [7, 8] (\<lambda>_ _. 0))"

lemma disk_ex_sel [simp]:
  "use_kheap disk_ex = False" "number_of_frames disk_ex = 100" "phys disk_ex = disk_phys" "cpu_cr3 disk_ex = 0x32000"
  "envs disk_ex 2 = (env_ex 2 1 ENV_READY)\<lparr>disk_env_pgdir := Some 60\<rparr>" "disk_free_frame_list disk_ex = [7, 8]"
  "klocks disk_ex = (\<lambda>_. free_lock)" "ncli disk_ex = 0"
  by (simp_all add: disk_ex_def conc_state.defs disk_state.defs) (simp_all add: sys_ex_def sched_state.defs conc_state.defs)

lemma disk_ex_fields: "PDX 0x1000 = 0" "PTX 0x1000 = 1" "PDX 0x2000 = 0" "PTX 0x2000 = 2" "PPN 0x32000 = 50" "PPN 0x33001 = 51"
  "PPN 0x34001 = 52" "PPN 0x35001 = 53" "PGOFF 0x1000 = 0" "PGOFF 0x2000 = 0" "EXTRACT_ADDRESS 0x3D001 = 0x3D000" "PPN 0x3D000 = 61" "PPN 0x3D001 = 61"
  "EXTRACT_ADDRESS 0x33001 = 0x33000" "PPN 0x33000 = 51"
  by (simp_all add: PDX_def PTX_def PPN_def PGOFF_def EXTRACT_ADDRESS_def drop_bit_eq_div)

lemma disk_ex_facts:
  "disk_table 2 0x1000 disk_ex = Some 61" "mmu_private 61 disk_ex" "page_file_ok {61} disk_ex"
  "mmu_walk 0x1000 disk_ex = Some 52" "mmu_walk 0x2000 disk_ex = Some 53"
  "get_page_table 50 0x1000 disk_ex = Some (TABLE_IN_MEMORY, Some 51)"
  "cpu_ok disk_ex" "locks_ok disk_ex" "\<not> held DFLLOCK disk_ex"
proof -
  show "disk_table 2 0x1000 disk_ex = Some 61"
    by (simp add: disk_table_def disk_ex_fields disk_phys_def disk_table_ptr_def STATIC_KERNEL_VIRTUAL_ADDRESS_def)
  show "mmu_private 61 disk_ex"
    by (auto simp: mmu_private_def mmu_table_def disk_ex_fields disk_phys_def Let_def)
  show "page_file_ok {61} disk_ex" by (simp add: page_file_ok_def disk_phys_def PAGES_PER_FILE_val)
  show "mmu_walk 0x1000 disk_ex = Some 52" "mmu_walk 0x2000 disk_ex = Some 53"
    by (simp_all add: mmu_walk_def mmu_table_def disk_ex_fields disk_phys_def Let_def PERM_PRESENT_def)
  show "get_page_table 50 0x1000 disk_ex = Some (TABLE_IN_MEMORY, Some 51)"
    by (simp add: get_page_table_def disk_ex_fields disk_phys_def Let_def PERM_PRESENT_def STATIC_KERNEL_VIRTUAL_ADDRESS_def)
  show "cpu_ok disk_ex" "locks_ok disk_ex" "\<not> held DFLLOCK disk_ex"
    by (simp_all add: cpu_ok_def locks_ok_def held_def free_lock_def)
qed

theorem page_file_frames_witness:
  "(\<exists>s'. pf_add_empty_env_page pio_disk 2 0x1000 False disk_ex = Some (0, s') \<and> page_file_ok {61} s' \<and> phys s' 61 1 \<noteq> 0) \<and>
   (\<exists>s'. pf_remove_env_page 2 0x1000 disk_ex = Some s' \<and> page_file_ok {61} s')"
proof -
  have k: "(0x1000 :: u32) < KERNEL_BASE" by (simp add: KERNEL_BASE_def)
  show ?thesis
    using page_file_frames [OF disk_ex_facts(7-9) k disk_ex_facts(1,3) insertI1, of pio_disk] by (auto simp: disk_ex_fields)
qed

theorem page_file_roundtrip_witness:
  "\<exists>s1 s2. pf_add_env_page pio_disk 2 0x1000 0x2000 disk_ex = Some (0, s1) \<and> pf_read_env_page pio_disk 2 0x1000 s1 = Some (0, s2) \<and>
    phys s2 52 9 = 14"
proof -
  have k: "(0x1000 :: u32) < KERNEL_BASE" by (simp add: KERNEL_BASE_def)
  have pd: "50 = unat (PPN (cpu_cr3 disk_ex))" by (simp add: disk_ex_fields)
  have r: "disk_env_pgdir (envs disk_ex 2) \<noteq> Some 61" "env_page_directory (envs disk_ex 2) = Some 50"
    "phys disk_ex 61 (PTX 0x1000) \<noteq> 0 \<or> disk_free_frame_list disk_ex \<noteq> []" by simp_all
  have n: "(53 :: frame) \<noteq> 61" "(52 :: frame) \<notin> {50, 51, 61}" "(51 :: frame) \<noteq> 50" by simp_all
  from page_file_roundtrip [OF pio.ide_disk_axioms disk_ex_facts(7-9,3) insertI1 k disk_ex_fields(9,10) disk_ex_facts(1) r(1)
      disk_ex_facts(2) r(3,2) pd disk_ex_facts(6,4,5) n]
  obtain s1 s2 where "pf_add_env_page pio_disk 2 0x1000 0x2000 disk_ex = Some (0, s1)"
    "pf_read_env_page pio_disk 2 0x1000 s1 = Some (0, s2)" "phys s2 52 = phys disk_ex 53" by blast
  then show ?thesis by (intro exI [of _ s1] exI [of _ s2]) (simp add: disk_phys_def)
qed

end
