(* ===== verification/FOS_Optimal.thy ===== *)
theory FOS_Optimal
  imports FOS_Fault FOS_DiskThms
begin

text \<open>
  The number that \<open>get_optimal_num_faults\<close> computes is the least number of page faults of any replacement strategy.
  A strategy is any way to serve the references with at most \<open>m\<close> pages in which a page is loaded only when it
  is referenced; pages may be dropped at any time.  \<open>serves m S refs n\<close> says that some strategy that starts
  with the pages \<open>S\<close> serves \<open>refs\<close> with \<open>n\<close> faults.
\<close>

inductive serves :: "nat \<Rightarrow> u32 set \<Rightarrow> u32 list \<Rightarrow> nat \<Rightarrow> bool" where
  serves_end: "serves m S [] 0"
| serves_step:
    "r \<in> S' \<Longrightarrow> S' \<subseteq> insert r S \<Longrightarrow> card S' \<le> m \<Longrightarrow> serves m S' refs n \<Longrightarrow>
     serves m S (r # refs) (n + (if r \<in> S then 0 else 1))"

inductive_simps serves_Nil: "serves m S [] n"
inductive_cases serves_ConsE: "serves m S (r # refs) n"

section \<open>Comparing two sets of pages\<close>

text \<open>More pages are not worse.\<close>

lemma serves_mono:
  assumes "serves m A refs n" "A \<subseteq> B"
  shows "\<exists>k \<le> n. serves m B refs k"
proof (cases refs)
  case Nil
  then show ?thesis using assms(1) by (auto simp: serves_Nil)
next
  case (Cons r rs)
  with assms(1) obtain A' k where a: "r \<in> A'" "A' \<subseteq> insert r A" "card A' \<le> m" "serves m A' rs k"
    "n = k + (if r \<in> A then 0 else 1)" by (auto elim: serves_ConsE)
  have "serves m B refs (k + (if r \<in> B then 0 else 1))"
    unfolding Cons by (rule serves_step [OF a(1) _ a(3,4)]) (use a(2) assms(2) in auto)
  moreover have "k + (if r \<in> B then 0 else 1) \<le> n" using a(5) assms(2) by auto
  ultimately show ?thesis by blast
qed

lemma finite_step: "S' \<subseteq> insert r S \<Longrightarrow> finite S \<Longrightarrow> finite S'"
  by (auto intro: finite_subset)

lemma card_swap: "finite S \<Longrightarrow> a \<in> S \<Longrightarrow> card (insert b (S - {a})) \<le> card S"
  using card_Suc_Diff1 [of S a] by (simp add: card_insert_if)

text \<open>Another page in the place of one costs at most one fault.\<close>

lemma serves_differ:
  assumes "serves m (insert a C) refs n" "finite C"
  shows "\<exists>k \<le> Suc n. serves m (insert b C) refs k"
  using assms
proof (induction refs arbitrary: C n)
  case Nil
  then show ?case by (auto simp: serves_Nil)
next
  case (Cons r rs)
  then obtain A' k where s: "r \<in> A'" "A' \<subseteq> insert r (insert a C)" "card A' \<le> m" "serves m A' rs k"
    "n = k + (if r \<in> insert a C then 0 else 1)" by (auto elim: serves_ConsE)
  have fin: "finite A'" using finite_step [OF s(2)] Cons.prems(2) by simp
  show ?case
  proof (cases "a \<in> A' \<and> r \<noteq> a")
    case False
    then have "A' \<subseteq> insert r (insert b C)" using s(1,2) by auto
    from serves_step [OF s(1) this s(3,4)] show ?thesis
      using s(5) by (intro exI [of _ "k + (if r \<in> insert b C then 0 else 1)"]) auto
  next
    case True
    let ?B = "insert b (A' - {a})"
    have A': "insert a (A' - {a}) = A'" using True by auto
    from Cons.IH [of "A' - {a}" k] s(4) fin obtain j where j: "j \<le> Suc k" "serves m ?B rs j" unfolding A' by auto
    have "card ?B \<le> m" using card_swap [OF fin, of a b] True s(3) by auto
    moreover have "r \<in> ?B" "?B \<subseteq> insert r (insert b C)" using s(1,2) True by auto
    ultimately have "serves m (insert b C) (r # rs) (j + (if r \<in> insert b C then 0 else 1))"
      using j(2) by (intro serves_step)
    then show ?thesis using j(1) s(5) True by (intro exI [of _ "j + (if r \<in> insert b C then 0 else 1)"]) auto
  qed
qed

text \<open>\<open>sooner b a refs\<close>: \<open>b\<close> is used no later than \<open>a\<close>.\<close>

definition sooner :: "u32 \<Rightarrow> u32 \<Rightarrow> u32 list \<Rightarrow> bool" where
  "sooner b a refs \<longleftrightarrow> (case next_use a refs of None \<Rightarrow> True
     | Some k \<Rightarrow> (case next_use b refs of None \<Rightarrow> False | Some j \<Rightarrow> j \<le> k))"

lemma sooner_Cons: "sooner b a (r # rs) \<Longrightarrow> r \<noteq> a \<Longrightarrow> r \<noteq> b \<Longrightarrow> sooner b a rs"
  by (auto simp: sooner_def split: option.splits)

lemma sooner_now: "sooner b a (a # rs) \<Longrightarrow> b = a"
  by (auto simp: sooner_def split: option.splits if_splits)

text \<open>A page that is used sooner, in the place of one that is used later, costs nothing.\<close>

lemma serves_exchange:
  assumes "serves m (insert a C) refs n" "finite C" "b \<notin> C" "sooner b a refs"
  shows "\<exists>k \<le> n. serves m (insert b C) refs k"
  using assms
proof (induction refs arbitrary: C n)
  case Nil
  then show ?case by (auto simp: serves_Nil)
next
  case (Cons r rs)
  then obtain A' k where s: "r \<in> A'" "A' \<subseteq> insert r (insert a C)" "card A' \<le> m" "serves m A' rs k"
    "n = k + (if r \<in> insert a C then 0 else 1)" by (auto elim: serves_ConsE)
  have fin: "finite A'" using finite_step [OF s(2)] Cons.prems(2) by simp
  consider "a = b" | "a \<noteq> b" "a \<notin> A'" | "a \<noteq> b" "a \<in> A'" "r = b" | "a \<in> A'" "r \<noteq> a" "r \<noteq> b"
    using sooner_now [of b a rs] Cons.prems(4) by blast
  then show ?case
  proof cases
    case 1
    then show ?thesis using Cons.prems(1) by blast
  next
    case 2
    then have "A' \<subseteq> insert r (insert b C)" "r \<noteq> a" using s(1,2) by auto
    then have "serves m (insert b C) (r # rs) (k + (if r \<in> insert b C then 0 else 1))"
      using s(1,3,4) by (intro serves_step)
    then show ?thesis using s(5) \<open>r \<noteq> a\<close> by (intro exI [of _ "k + (if r \<in> insert b C then 0 else 1)"]) auto
  next
    case 3
    let ?B = "A' - {a}"
    have A': "insert a ?B = A'" "insert b ?B = ?B" using 3 s(1) by auto
    from serves_differ [of m a ?B rs k b] s(4) fin obtain j where j: "j \<le> Suc k" "serves m ?B rs j" unfolding A' by auto
    have c: "card ?B \<le> m" using s(3) card_Diff1_le [of A' a] by linarith
    have "serves m (insert b C) (r # rs) (j + (if r \<in> insert b C then 0 else 1))"
      by (rule serves_step [OF _ _ c j(2)]) (use 3 s(1,2) in auto)
    then show ?thesis using j(1) s(5) 3 Cons.prems(3) by (intro exI [of _ j]) auto
  next
    case 4
    let ?B = "insert b (A' - {a})"
    have A': "insert a (A' - {a}) = A'" using 4 by auto
    have nb: "b \<notin> A' - {a}" using s(2) Cons.prems(3) 4 by auto
    from Cons.IH [of "A' - {a}" k] s(4) fin nb sooner_Cons [OF Cons.prems(4) 4(2,3)]
    obtain j where j: "j \<le> k" "serves m ?B rs j" unfolding A' by auto
    have "card ?B \<le> m" using card_swap [OF fin 4(1), of b] s(3) by auto
    moreover have "r \<in> ?B" "?B \<subseteq> insert r (insert b C)" using s(1,2) 4 by auto
    ultimately have "serves m (insert b C) (r # rs) (j + (if r \<in> insert b C then 0 else 1))"
      using j(2) by (intro serves_step)
    then show ?thesis using j(1) s(5) 4 by (intro exI [of _ "j + (if r \<in> insert b C then 0 else 1)"]) auto
  qed
qed

section \<open>The page whose next use is farthest away\<close>

lemma farthest_spec:
  "farthest ps k refs mx idx = idx \<and> (\<forall>p \<in> set ps. distance p refs \<le> mx) \<or>
   (\<exists>i < length ps. farthest ps k refs mx idx = k + i \<and> mx < distance (ps ! i) refs \<and>
     (\<forall>p \<in> set ps. distance p refs \<le> distance (ps ! i) refs))"
proof (induction ps arbitrary: k mx idx)
  case Nil
  then show ?case by simp
next
  case (Cons p ps)
  show ?case
  proof (cases "distance p refs > mx")
    case True
    from Cons.IH [of "Suc k" "distance p refs" k] show ?thesis
    proof
      assume "farthest ps (Suc k) refs (distance p refs) k = k \<and> (\<forall>q \<in> set ps. distance q refs \<le> distance p refs)"
      then show ?thesis using True by (intro disjI2 exI [of _ 0]) simp
    next
      assume "\<exists>i < length ps. farthest ps (Suc k) refs (distance p refs) k = Suc k + i \<and> distance p refs < distance (ps ! i) refs \<and>
        (\<forall>q \<in> set ps. distance q refs \<le> distance (ps ! i) refs)"
      then obtain i where "i < length ps" "farthest ps (Suc k) refs (distance p refs) k = Suc k + i"
        "distance p refs < distance (ps ! i) refs" "\<forall>q \<in> set ps. distance q refs \<le> distance (ps ! i) refs" by blast
      then show ?thesis using True by (intro disjI2 exI [of _ "Suc i"]) auto
    qed
  next
    case False
    from Cons.IH [of "Suc k" mx idx] show ?thesis
    proof
      assume "farthest ps (Suc k) refs mx idx = idx \<and> (\<forall>q \<in> set ps. distance q refs \<le> mx)"
      then show ?thesis using False by simp
    next
      assume "\<exists>i < length ps. farthest ps (Suc k) refs mx idx = Suc k + i \<and> mx < distance (ps ! i) refs \<and>
        (\<forall>q \<in> set ps. distance q refs \<le> distance (ps ! i) refs)"
      then obtain i where "i < length ps" "farthest ps (Suc k) refs mx idx = Suc k + i" "mx < distance (ps ! i) refs"
        "\<forall>q \<in> set ps. distance q refs \<le> distance (ps ! i) refs" by blast
      then show ?thesis using False by (intro disjI2 exI [of _ "Suc i"]) auto
    qed
  qed
qed

lemma next_use_bound: "next_use p refs = Some k \<Longrightarrow> k < length refs"
  by (induction refs arbitrary: k) (auto split: if_splits)

lemma farthest_sooner:
  assumes "ws \<noteq> []" "length refs < 1000000000" "v \<in> set ws"
  shows "farthest ws 0 refs 0 0 < length ws \<and> sooner v (ws ! farthest ws 0 refs 0 0) refs"
proof -
  let ?i = "farthest ws 0 refs 0 0"
  have i: "?i < length ws \<and> (\<forall>p \<in> set ws. distance p refs \<le> distance (ws ! ?i) refs)"
    using farthest_spec [of ws 0 refs 0 0] assms(1) by fastforce
  then have d: "distance v refs \<le> distance (ws ! ?i) refs" using assms(3) by blast
  have "sooner v (ws ! ?i) refs"
    using d next_use_bound [of v refs] next_use_bound [of "ws ! ?i" refs] assms(2)
    by (auto simp: sooner_def distance_def split: option.splits)
  then show ?thesis using i by blast
qed

section \<open>Optimality\<close>

lemma optimal_faults_serves:
  assumes "distinct ws" "length ws \<le> m" "0 < m"
  shows "serves m (set ws) refs (optimal_faults m ws refs)"
  using assms
proof (induction refs arbitrary: ws)
  case Nil
  then show ?case by (simp add: serves_end)
next
  case (Cons r rs)
  let ?i = "farthest ws 0 rs 0 0"
  consider "r \<in> set ws" | "r \<notin> set ws" "length ws = m" | "r \<notin> set ws" "length ws < m" using Cons.prems(2) by linarith
  then show ?case
  proof cases
    case 1
    have "serves m (set ws) (r # rs) (optimal_faults m ws rs + (if r \<in> set ws then 0 else 1))"
      by (rule serves_step [OF 1 _ _ Cons.IH [OF Cons.prems]]) (use Cons.prems in \<open>auto simp: distinct_card\<close>)
    then show ?thesis using 1 by simp
  next
    case 2
    then have ne: "ws \<noteq> []" using Cons.prems(3) by auto
    have i: "?i < length ws" using farthest_spec [of ws 0 rs 0 0] ne by fastforce
    let ?w = "ws[?i := r]"
    have w: "distinct ?w" "length ?w \<le> m" using Cons.prems(1) 2 by (simp_all add: distinct_list_update)
    have "serves m (set ws) (r # rs) (optimal_faults m ?w rs + (if r \<in> set ws then 0 else 1))"
      by (rule serves_step [OF _ _ _ Cons.IH [OF w Cons.prems(3)]])
        (use i w 2 set_update_subset_insert [of ws ?i r] in \<open>auto simp: distinct_card set_update_memI\<close>)
    then show ?thesis using 2 by simp
  next
    case 3
    let ?w = "ws @ [r]"
    have w: "distinct ?w" "length ?w \<le> m" using Cons.prems 3 by simp_all
    have c: "card (set ?w) \<le> m" using w distinct_card [OF w(1)] by linarith
    have "serves m (set ws) (r # rs) (optimal_faults m ?w rs + (if r \<in> set ws then 0 else 1))"
      by (rule serves_step [OF _ _ c Cons.IH [OF w Cons.prems(3)]]) auto
    then show ?thesis using 3 by simp
  qed
qed

lemma optimal_faults_least:
  assumes "distinct ws" "length ws \<le> m" "0 < m" "length refs < 1000000000" "serves m (set ws) refs n"
  shows "optimal_faults m ws refs \<le> n"
  using assms
proof (induction refs arbitrary: ws n)
  case Nil
  then show ?case by simp
next
  case (Cons r rs)
  then obtain S' k where s: "r \<in> S'" "S' \<subseteq> insert r (set ws)" "card S' \<le> m" "serves m S' rs k"
    "n = k + (if r \<in> set ws then 0 else 1)" by (auto elim: serves_ConsE)
  have len: "length rs < 1000000000" using Cons.prems(4) by simp
  have IH: "optimal_faults m w rs \<le> k" if "distinct w" "length w \<le> m" "\<exists>j \<le> k. serves m (set w) rs j" for w
    using that Cons.IH [OF that(1,2) Cons.prems(3) len] by (meson le_trans)
  consider "r \<in> set ws" | "r \<notin> set ws" "length ws = m" | "r \<notin> set ws" "length ws < m" using Cons.prems(2) by linarith
  then show ?case
  proof cases
    case 1
    then have "S' \<subseteq> set ws" using s(2) by auto
    then show ?thesis using IH [OF Cons.prems(1,2) serves_mono [OF s(4)]] s(5) 1 by simp
  next
    case 2
    let ?i = "farthest ws 0 rs 0 0"
    have ne: "ws \<noteq> []" using 2 Cons.prems(3) by auto
    have "card (insert r (set ws)) = Suc m" using 2 Cons.prems(1) by (simp add: distinct_card)
    then obtain v where v: "v \<in> set ws" "v \<notin> S'" using s(1,2,3) by (metis Suc_n_not_le_n insert_absorb insert_subset subsetI subset_antisym insertE)
    note f = farthest_sooner [OF ne len v(1)]
    let ?x = "ws ! ?i"
    have x: "?x \<in> set ws" using f by simp
    have w: "distinct (ws[?i := r])" "length (ws[?i := r]) \<le> m" using Cons.prems(1) 2 by (simp_all add: distinct_list_update)
    have sw: "set (ws[?i := r]) = insert r (set ws - {?x})" using Cons.prems(1) f by (simp add: set_update_distinct)
    have S': "S' \<subseteq> insert r (set ws - {v})" using s(2) v(2) by auto
    have "\<exists>j \<le> k. serves m (set (ws[?i := r])) rs j"
    proof (cases "v = ?x")
      case True
      then show ?thesis using serves_mono [OF s(4) S'] sw by simp
    next
      case False
      let ?C = "insert r (set ws - {v, ?x})"
      have e: "insert r (set ws - {v}) = insert ?x ?C" "insert r (set ws - {?x}) = insert v ?C" using False v(1) x by auto
      from serves_mono [OF s(4) S'] obtain j where j: "j \<le> k" "serves m (insert ?x ?C) rs j" unfolding e by blast
      have nv: "v \<notin> ?C" using 2 v(1) by auto
      from serves_exchange [OF j(2) _ nv] f obtain i where "i \<le> j" "serves m (insert v ?C) rs i" by auto
      then show ?thesis using j(1) unfolding sw e by (meson le_trans)
    qed
    from IH [OF w this] show ?thesis using 2 s(5) by simp
  next
    case 3
    have w: "distinct (ws @ [r])" "length (ws @ [r]) \<le> m" using Cons.prems 3 by simp_all
    have "S' \<subseteq> set (ws @ [r])" using s(2) by auto
    then show ?thesis using IH [OF w serves_mono [OF s(4)]] s(5) 3 by simp
  qed
qed

text \<open>
  C14: the optimal strategy is optimal.  When the kernel heap has room for the copy of the references,
  \<open>get_optimal_num_faults\<close> returns the number of faults of some replacement strategy that starts with the given
  working set and keeps to its size, and no such strategy has fewer faults.
\<close>

theorem get_optimal_num_faults_optimal:
  assumes "use_kheap s" "0 < maxWSSize" "length pageReferences < 1000000000"
    and "distinct (map (\<lambda>p. ws_virtual_address (ws_elems s p)) initWorkingSet)"
    and "kmalloc da (4 * of_nat (length pageReferences)) s = Some (p, s1)" "p \<noteq> 0"
    and "S = set (take maxWSSize (map (\<lambda>p. ws_virtual_address (ws_elems s p)) initWorkingSet))"
  shows "\<exists>n. get_optimal_num_faults da initWorkingSet maxWSSize pageReferences s = Some (n, s1) \<and>
    serves maxWSSize S pageReferences n \<and> (\<forall>k. serves maxWSSize S pageReferences k \<longrightarrow> n \<le> k)"
proof -
  let ?w = "take maxWSSize (map (\<lambda>p. ws_virtual_address (ws_elems s p)) initWorkingSet)"
  have w: "distinct ?w" "length ?w \<le> maxWSSize" using assms(4) by (simp_all add: distinct_take)
  have "get_optimal_num_faults da initWorkingSet maxWSSize pageReferences s = Some (optimal_faults maxWSSize ?w pageReferences, s1)"
    using assms(1,2,5,6) by (simp add: get_optimal_num_faults_def)
  then show ?thesis
    using optimal_faults_serves [OF w assms(2)] optimal_faults_least [OF w assms(2,3)] assms(7) by blast
qed

section \<open>An example\<close>

text \<open>A block allocator that always answers with the same block, and a state with two working set elements.\<close>

definition da_ex :: "'s dynalloc" where
  "da_ex = \<lparr>alloc_block = (\<lambda>_ s. Some (0xF6000020, s)), free_block = (\<lambda>_ s. Some ((), s)), get_block_size = (\<lambda>_ _. None),
     realloc_block = (\<lambda>_ _ _. None), memcpy = (\<lambda>_ _ _ _. None)\<rparr>"

definition vm_ex :: vm_state where
  "vm_ex = disk_state.extend (disk_ex\<lparr>use_kheap := True, kheapPageAllocBreak := 0xF8001000,
       phys := disk_phys(51 := (disk_phys 51)(1 := 0x34021)), frames_info := (\<lambda>_. null_frame_info\<lparr>kheap_mapped_va := 0xF8000000\<rparr>),
       envs := (envs disk_ex)(2 := (envs disk_ex 2)\<lparr>page_WS_list := [0xF6000080, 0xF60000C0],
         page_last_WS_element := 0xF6000080, page_WS_max_size := 2\<rparr>)\<rparr>)
     (vm_state.fields (\<lambda>p. null_ws\<lparr>ws_virtual_address := (if p = 0xF6000080 then 0x1000 else 0x2000)\<rparr>)
       PG_REP_CLOCK 0 False 0 1000 [] False 0 0 0 0 0 None)"

lemma vm_ex_sel [simp]:
  "use_kheap vm_ex = True" "kheapPageAllocBreak vm_ex = 0xF8001000"
  "ws_elems vm_ex = (\<lambda>p. null_ws\<lparr>ws_virtual_address := (if p = 0xF6000080 then 0x1000 else 0x2000)\<rparr>)"
  "phys vm_ex = disk_phys(51 := (disk_phys 51)(1 := 0x34021))" "number_of_frames vm_ex = 100"
  "frames_info vm_ex = (\<lambda>_. null_frame_info\<lparr>kheap_mapped_va := 0xF8000000\<rparr>)"
  "page_WS_list (envs vm_ex 2) = [0xF6000080, 0xF60000C0]" "page_last_WS_element (envs vm_ex 2) = 0xF6000080"
  "num_repeated_fault vm_ex = 0" "last_fault_va vm_ex = 0"
  by (simp_all add: vm_ex_def disk_state.defs vm_state.defs)

lemma vm_ex_kmalloc: "kmalloc da_ex 12 vm_ex = Some (0xF6000020, vm_ex)"
  by (simp add: kmalloc_def da_ex_def pages_of_def ROUNDUP_def ROUNDDOWN_def fos_consts)

theorem get_optimal_num_faults_optimal_witness:
  "\<exists>n. get_optimal_num_faults da_ex [0xF6000080, 0xF60000C0] 2 [0x3000, 0x1000, 0x2000] vm_ex = Some (n, vm_ex) \<and>
    serves 2 {0x1000, 0x2000} [0x3000, 0x1000, 0x2000] n"
proof -
  have k: "kmalloc da_ex (4 * of_nat (length [0x3000, 0x1000, 0x2000 :: u32])) vm_ex = Some (0xF6000020, vm_ex)"
    using vm_ex_kmalloc by simp
  show ?thesis
    using get_optimal_num_faults_optimal [OF _ _ _ _ k _ refl, of 2 "[0xF6000080, 0xF60000C0]"]
    by (auto simp: null_ws_def)
qed

end
