(* ===== verification/FOS_FaultThms.thy ===== *)
theory FOS_FaultThms
  imports FOS_Optimal
begin

unbundle bit_operations_syntax

text \<open>
  What the parts of the fault handler do: the clock hand, the choice of the least recently used page, the
  detection of repeated faults, and the path of an invalid address.
\<close>

section \<open>The circular order of a working set\<close>

lemma next_of_nth:
  assumes "distinct L" "i < length L"
  shows "next_of (L ! i) L = (if Suc i < length L then L ! Suc i else 0)"
  using assms
proof (induction L arbitrary: i)
  case Nil
  then show ?case by simp
next
  case (Cons p ps)
  show ?case
  proof (cases i)
    case 0
    then show ?thesis by (cases ps) auto
  next
    case (Suc k)
    then have "ps ! k \<noteq> p" using Cons.prems by auto
    then show ?thesis using Cons.IH [of k] Cons.prems Suc by auto
  qed
qed

lemma ws_succ_nth:
  assumes "distinct L" "0 \<notin> set L" "i < length L"
  shows "ws_succ (L ! i) L = L ! (Suc i mod length L)"
proof (cases "Suc i < length L")
  case True
  then have "L ! Suc i \<noteq> 0" using assms(2) nth_mem by metis
  then show ?thesis using next_of_nth [OF assms(1,3)] True by (simp add: ws_succ_def)
next
  case False
  then have "Suc i = length L" using assms(3) by simp
  then show ?thesis using next_of_nth [OF assms(1,3)] assms(3) by (cases L) (simp_all add: ws_succ_def)
qed

lemma mod_shift_inj: "(i + k) mod n = (i + l) mod n \<Longrightarrow> k < n \<Longrightarrow> \<not> l < (k :: nat)"
proof
  assume "(i + k) mod n = (i + l) mod n" "k < n" "l < k"
  then have "n dvd (i + k) - (i + l)" by (subst mod_eq_dvd_iff_nat [symmetric]) simp_all
  with \<open>l < k\<close> \<open>k < n\<close> show False by (auto dest: dvd_imp_le)
qed

lemma rotate_until_spec:
  "v \<in> set L \<Longrightarrow> length (takeWhile (\<lambda>x. x \<noteq> v) L) \<le> n \<Longrightarrow>
   rotate_until n v L = Some (dropWhile (\<lambda>x. x \<noteq> v) L @ takeWhile (\<lambda>x. x \<noteq> v) L)"
proof (induction "length (takeWhile (\<lambda>x. x \<noteq> v) L)" arbitrary: L n)
  case 0
  then show ?case by (cases L) (auto split: if_splits)
next
  case (Suc k)
  then obtain c cs where L: "L = c # cs" "c \<noteq> v" by (cases L) (auto split: if_splits)
  obtain m where m: "n = Suc m" using Suc.prems(2) L by (cases n) auto
  have v: "v \<in> set cs" using Suc.prems(1) L by auto
  have tw: "takeWhile (\<lambda>x. x \<noteq> v) (cs @ [c]) = takeWhile (\<lambda>x. x \<noteq> v) cs"
    "dropWhile (\<lambda>x. x \<noteq> v) (cs @ [c]) = dropWhile (\<lambda>x. x \<noteq> v) cs @ [c]"
    using v by (simp_all add: takeWhile_append1 dropWhile_append1)
  have "rotate_until m v (cs @ [c]) = Some (dropWhile (\<lambda>x. x \<noteq> v) (cs @ [c]) @ takeWhile (\<lambda>x. x \<noteq> v) (cs @ [c]))"
    by (rule Suc.hyps(1)) (use Suc.hyps(2) Suc.prems L m v tw in auto)
  then show ?case using L m tw by simp
qed

section \<open>The clock hand\<close>

text \<open>
  The table entry of a page.  \<open>clock_ok\<close>: the elements of the working set are distinct, their pages have
  tables apart from the directory, and no two of them share an entry.
\<close>

definition ws_slot :: "frame \<Rightarrow> u32 \<Rightarrow> 'z vm_state_scheme \<Rightarrow> (frame \<times> u32) option" where
  "ws_slot dir p s =
     (case get_page_table dir (ws_virtual_address (ws_elems s p)) s of
        Some (_, Some t) \<Rightarrow> Some (t, PTX (ws_virtual_address (ws_elems s p)))
      | _ \<Rightarrow> None)"

definition used :: "frame \<Rightarrow> u32 \<Rightarrow> 'z vm_state_scheme \<Rightarrow> bool" where
  "used dir p s \<longleftrightarrow> (case ws_slot dir p s of None \<Rightarrow> False | Some (t, i) \<Rightarrow> phys s t i AND PERM_USED \<noteq> 0)"

definition clock_ok :: "frame \<Rightarrow> env_ptr \<Rightarrow> 'z vm_state_scheme \<Rightarrow> bool" where
  "clock_ok dir e s \<longleftrightarrow> (let L = page_WS_list (envs s e) in
     distinct L \<and> 0 \<notin> set L \<and>
     (\<forall>p \<in> set L. \<exists>t i. ws_slot dir p s = Some (t, i) \<and> t \<noteq> dir) \<and>
     (\<forall>p \<in> set L. \<forall>q \<in> set L. p \<noteq> q \<longrightarrow> ws_slot dir p s \<noteq> ws_slot dir q s))"

lemma has_perm_pte: "has_perm (uint (x AND 0xFFF :: u32)) PERM_USED \<longleftrightarrow> x AND PERM_USED \<noteq> 0"
proof -
  have "(x AND 0xFFF) AND PERM_USED = x AND PERM_USED" by (simp add: PERM_USED_def and.assoc)
  then show ?thesis by (simp add: has_perm_def)
qed

lemma clear_used: "((x :: u32) AND NOT PERM_USED) AND PERM_USED = 0"
  by (simp add: bit_eq_iff bit_simps)

lemma ws_slot_cong:
  assumes "ws_elems s' = ws_elems s" "phys s' dir = phys s dir" "use_kheap s' = use_kheap s" "frames_info s' = frames_info s"
    and "number_of_frames s' = number_of_frames s"
  shows "ws_slot dir p s' = ws_slot dir p s"
proof -
  have "get_page_table dir va s' = get_page_table dir va s" for va by (rule get_page_table_same) (simp_all add: assms)
  then show ?thesis unfolding ws_slot_def assms(1) by simp
qed

text \<open>
  \<open>swept P h e s s'\<close>: all that a sweep of the hand does.  The entries of \<open>P\<close> lose their used bit, the hand of the process
  \<open>e\<close> is at \<open>h\<close>, translations may have been dropped from the cache, and everything else in the state is the same.
\<close>

definition swept :: "(frame \<times> u32) set \<Rightarrow> u32 \<Rightarrow> env_ptr \<Rightarrow> 'z vm_state_scheme \<Rightarrow> 'z vm_state_scheme \<Rightarrow> bool" where
  "swept P h e s s' \<longleftrightarrow> (\<exists>c. (\<forall>v. c v = None \<or> c v = tlb s v) \<and>
     s' = s\<lparr>phys := (\<lambda>t i. if (t, i) \<in> P then phys s t i AND NOT PERM_USED else phys s t i),
            envs := (envs s)(e := (envs s e)\<lparr>page_last_WS_element := h\<rparr>), tlb := c\<rparr>)"

lemma swept_none: "page_last_WS_element (envs s e) = h \<Longrightarrow> swept {} h e s s"
  by (auto simp: swept_def intro!: exI [of _ "tlb s"])

lemma swept_trans:
  assumes "swept P h e s s1" "swept Q h' e s1 s2"
  shows "swept (P \<union> Q) h' e s s2"
proof -
  from assms(1) obtain c where c: "\<And>v. c v = None \<or> c v = tlb s v" and
    s1: "s1 = s\<lparr>phys := (\<lambda>t i. if (t, i) \<in> P then phys s t i AND NOT PERM_USED else phys s t i),
            envs := (envs s)(e := (envs s e)\<lparr>page_last_WS_element := h\<rparr>), tlb := c\<rparr>" by (auto simp: swept_def)
  from assms(2) obtain c' where c': "\<And>v. c' v = None \<or> c' v = tlb s1 v" and
    s2: "s2 = s1\<lparr>phys := (\<lambda>t i. if (t, i) \<in> Q then phys s1 t i AND NOT PERM_USED else phys s1 t i),
            envs := (envs s1)(e := (envs s1 e)\<lparr>page_last_WS_element := h'\<rparr>), tlb := c'\<rparr>" by (auto simp: swept_def)
  have "c' v = None \<or> c' v = tlb s v" for v using c [of v] c' [of v] by (auto simp: s1)
  moreover have "(\<lambda>t i. if (t, i) \<in> Q then phys s1 t i AND NOT PERM_USED else phys s1 t i) =
      (\<lambda>t i. if (t, i) \<in> P \<union> Q then phys s t i AND NOT PERM_USED else phys s t i)"
    by (auto simp: s1 fun_eq_iff and.assoc)
  ultimately show ?thesis unfolding swept_def s2 by (intro exI [of _ c']) (simp add: s1)
qed

lemma tlb_invalidate_form: "\<exists>c. (\<forall>v. c v = None \<or> c v = tlb s v) \<and> tlb_invalidate d va s = s\<lparr>tlb := c\<rparr>"
proof -
  have "tlb_invalidate d va s = s\<lparr>tlb := tlb (tlb_invalidate d va s)\<rparr>"
    "\<forall>v. tlb (tlb_invalidate d va s) v = None \<or> tlb (tlb_invalidate d va s) v = tlb s v"
    by (auto simp: tlb_invalidate_def invlpg_def split: option.splits)
  then show ?thesis by blast
qed

text \<open>One step of the hand over a used page.\<close>

lemma clock_step:
  assumes "clock_ok dir e s" "page_last_WS_element (envs s e) = h" "h \<in> set (page_WS_list (envs s e))" "used dir h s"
  shows "\<exists>s1. clock_hand (Suc n) dir e s = clock_hand n dir e s1 \<and> clock_ok dir e s1 \<and>
    page_WS_list (envs s1 e) = page_WS_list (envs s e) \<and>
    page_last_WS_element (envs s1 e) = ws_succ h (page_WS_list (envs s e)) \<and>
    (\<forall>p \<in> set (page_WS_list (envs s e)). used dir p s1 \<longleftrightarrow> used dir p s \<and> p \<noteq> h) \<and>
    ws_elems s1 = ws_elems s \<and> frames_info s1 = frames_info s \<and>
    swept {sl. ws_slot dir h s = Some sl} (ws_succ h (page_WS_list (envs s e))) e s s1 \<and>
    (\<forall>p. ws_slot dir p s1 = ws_slot dir p s)"
proof -
  let ?L = "page_WS_list (envs s e)" and ?va = "ws_virtual_address (ws_elems s h)"
  from assms(1,3) obtain t i where ti: "ws_slot dir h s = Some (t, i)" "t \<noteq> dir" by (auto simp: clock_ok_def Let_def)
  then obtain r where g: "get_page_table dir ?va s = Some (r, Some t)" "i = PTX ?va"
    by (auto simp: ws_slot_def split: option.splits prod.splits)
  have h0: "h \<noteq> 0" using assms(1,3) by (auto simp: clock_ok_def Let_def)
  have u: "phys s t i AND PERM_USED \<noteq> 0" using assms(4) ti(1) by (simp add: used_def)
  obtain c where c: "\<forall>v. c v = None \<or> c v = tlb s v"
    and inv: "tlb_invalidate (Some dir) ?va (write_phys t i (phys s t i AND NOT PERM_USED) s) =
      write_phys t i (phys s t i AND NOT PERM_USED) s\<lparr>tlb := c\<rparr>"
    using tlb_invalidate_form [where d = "Some dir" and va = ?va and s = "write_phys t i (phys s t i AND NOT PERM_USED) s"] by auto
  let ?ph = "(phys s)(t := (phys s t)(i := phys s t i AND NOT PERM_USED))"
  define s0 where "s0 = s\<lparr>phys := ?ph, tlb := c\<rparr>"
  have set: "pt_set_page_permissions dir ?va 0 PERM_USED s = Some ((), s0)"
    using g inv by (simp add: pt_set_page_permissions_def Let_def s0_def write_phys_def)
  have ph: "phys s0 = ?ph"
    and s0: "ws_elems s0 = ws_elems s" "envs s0 = envs s" "frames_info s0 = frames_info s" "use_kheap s0 = use_kheap s"
      "number_of_frames s0 = number_of_frames s" by (simp_all add: s0_def)
  let ?s1 = "envs_upd e (\<lambda>x. x\<lparr>page_last_WS_element := ws_succ h (page_WS_list x)\<rparr>) s0"
  have s1: "phys ?s1 = phys s0" "ws_elems ?s1 = ws_elems s" "frames_info ?s1 = frames_info s"
    "use_kheap ?s1 = use_kheap s" "number_of_frames ?s1 = number_of_frames s"
    "page_WS_list (envs ?s1 e) = ?L" "page_last_WS_element (envs ?s1 e) = ws_succ h ?L"
    using s0 by (simp_all add: envs_upd_def)
  have sl: "ws_slot dir p ?s1 = ws_slot dir p s" for p
    using ti(2) by (intro ws_slot_cong) (simp_all add: s1 ph)
  have "?ph = (\<lambda>t' i'. if (t', i') \<in> {sl. ws_slot dir h s = Some sl} then phys s t' i' AND NOT PERM_USED else phys s t' i')"
    using ti(1) by (auto simp: fun_eq_iff)
  then have "swept {sl. ws_slot dir h s = Some sl} (ws_succ h ?L) e s ?s1"
    unfolding swept_def using c by (intro exI [of _ c]) (simp add: envs_upd_def s0_def)
  moreover have "clock_ok dir e ?s1" using assms(1) unfolding clock_ok_def s1(6) sl by simp
  moreover have "used dir p ?s1 \<longleftrightarrow> used dir p s \<and> p \<noteq> h" if "p \<in> set ?L" for p
  proof -
    from assms(1) that obtain t' i' where p: "ws_slot dir p s = Some (t', i')" by (auto simp: clock_ok_def Let_def)
    have "p \<noteq> h \<Longrightarrow> (t', i') \<noteq> (t, i)" using assms(1,3) that p ti(1) unfolding clock_ok_def Let_def by metis
    then show ?thesis
      using p ti(1) sl [of p] clear_used [of "phys s t i"] ph by (cases "p = h") (auto simp: used_def s1(1))
  qed
  moreover have "clock_hand (Suc n) dir e s = clock_hand n dir e ?s1"
    using assms(2) h0 g u set has_perm_pte [of "phys s t i"]
    by (subst clock_hand.simps) (simp add: ws_va_def pt_get_page_permissions_def Let_def)
  ultimately show ?thesis using s1 sl by (intro exI [of _ ?s1]) simp
qed

lemma clock_stop:
  assumes "clock_ok dir e s" "page_last_WS_element (envs s e) = h" "h \<in> set (page_WS_list (envs s e))" "\<not> used dir h s"
  shows "clock_hand n dir e s = Some (h, s)"
proof -
  let ?va = "ws_virtual_address (ws_elems s h)"
  from assms(1,3) have "\<exists>t i. ws_slot dir h s = Some (t, i) \<and> t \<noteq> dir" "h \<noteq> 0" by (auto simp: clock_ok_def Let_def)
  then obtain t i where ti: "ws_slot dir h s = Some (t, i)" "h \<noteq> 0" by blast
  then obtain r where g: "get_page_table dir ?va s = Some (r, Some t)" "i = PTX ?va"
    by (auto simp: ws_slot_def split: option.splits prod.splits)
  have "phys s t i AND PERM_USED = 0" using assms(4) ti(1) by (simp add: used_def)
  then show ?thesis
    using assms(2) ti(2) g has_perm_pte [of "phys s t i"]
    by (subst clock_hand.simps) (simp add: ws_va_def pt_get_page_permissions_def Let_def)
qed

text \<open>
  C15: the clock algorithm finds its victim within one round.  From the hand on, in the circular order of the
  working set, the pages up to the first that is not used lose their used bit, and that page is the victim; when
  all pages are used, all lose the bit and the victim is the page the hand was at.  Otherwise the sweep only moves the
  hand to the victim and drops translations from the cache: no other bit of memory and no other part of the state
  changes.
\<close>

theorem clock_hand_correct:
  assumes "clock_ok dir e s" "L = page_WS_list (envs s e)" "i < length L" "page_last_WS_element (envs s e) = L ! i"
  shows "\<exists>j s'. j \<le> length L \<and> clock_hand (length L) dir e s = Some (L ! ((i + j) mod length L), s') \<and>
    (\<forall>k < j. used dir (L ! ((i + k) mod length L)) s) \<and>
    (if j < length L then \<not> used dir (L ! ((i + j) mod length L)) s else (i + j) mod length L = i) \<and>
    (\<forall>p \<in> set L. used dir p s' \<longleftrightarrow> used dir p s \<and> (\<forall>k < j. p \<noteq> L ! ((i + k) mod length L))) \<and>
    page_WS_list (envs s' e) = L \<and> ws_elems s' = ws_elems s \<and> frames_info s' = frames_info s \<and>
    (\<exists>c. (\<forall>v. c v = None \<or> c v = tlb s v) \<and>
       s' = s\<lparr>phys := (\<lambda>t x. if \<exists>k < j. ws_slot dir (L ! ((i + k) mod length L)) s = Some (t, x)
                            then phys s t x AND NOT PERM_USED else phys s t x),
              envs := (envs s)(e := (envs s e)\<lparr>page_last_WS_element := L ! ((i + j) mod length L)\<rparr>), tlb := c\<rparr>)"
proof -
  let ?n = "length L" and ?at = "\<lambda>k. L ! ((i + k) mod length L)"
  have n: "0 < ?n" using assms(3) by linarith
  have mem: "?at k \<in> set L" for k using n by simp
  have L: "distinct L" "0 \<notin> set L" using assms(1,2) by (auto simp: clock_ok_def Let_def)
  have succ: "ws_succ (?at k) L = ?at (Suc k)" for k
    using ws_succ_nth [OF L, of "(i + k) mod ?n"] n by (simp add: mod_Suc_eq)
  have run: "\<exists>s'. clock_hand (k + m) dir e s = clock_hand m dir e s' \<and> clock_ok dir e s' \<and> page_WS_list (envs s' e) = L \<and>
      page_last_WS_element (envs s' e) = ?at k \<and> (\<forall>p \<in> set L. used dir p s' \<longleftrightarrow> used dir p s \<and> (\<forall>l < k. p \<noteq> ?at l)) \<and>
      ws_elems s' = ws_elems s \<and> frames_info s' = frames_info s \<and>
      swept {sl. \<exists>l < k. ws_slot dir (?at l) s = Some sl} (?at k) e s s' \<and> (\<forall>p. ws_slot dir p s' = ws_slot dir p s)"
    if "k \<le> ?n" "\<forall>l < k. used dir (?at l) s" for k m
    using that
  proof (induction k arbitrary: m)
    case 0
    then show ?case using assms swept_none [of s e "L ! i"] by (intro exI [of _ s]) auto
  next
    case (Suc k)
    then obtain s1 where s1: "clock_hand (k + Suc m) dir e s = clock_hand (Suc m) dir e s1" "clock_ok dir e s1"
      "page_WS_list (envs s1 e) = L" "page_last_WS_element (envs s1 e) = ?at k"
      "\<forall>p \<in> set L. used dir p s1 \<longleftrightarrow> used dir p s \<and> (\<forall>l < k. p \<noteq> ?at l)" "ws_elems s1 = ws_elems s" "frames_info s1 = frames_info s"
      "swept {sl. \<exists>l < k. ws_slot dir (?at l) s = Some sl} (?at k) e s s1" "\<forall>p. ws_slot dir p s1 = ws_slot dir p s"
      using Suc.IH [of "Suc m"] by auto
    have "?at k \<noteq> ?at l" if "l < k" for l
    proof
      assume "?at k = ?at l"
      then have "(i + k) mod ?n = (i + l) mod ?n" using nth_eq_iff_index_eq [OF L(1)] n by simp
      with that Suc.prems(1) show False using mod_shift_inj [of i k ?n l] by simp
    qed
    then have u: "used dir (?at k) s1" using s1(5) Suc.prems(2) mem by auto
    from clock_step [OF s1(2,4), of m] mem u s1(3) obtain s2 where
      s2: "clock_hand (Suc m) dir e s1 = clock_hand m dir e s2" "clock_ok dir e s2" "page_WS_list (envs s2 e) = L"
        "page_last_WS_element (envs s2 e) = ws_succ (?at k) L" "\<forall>p \<in> set L. used dir p s2 \<longleftrightarrow> used dir p s1 \<and> p \<noteq> ?at k"
        "ws_elems s2 = ws_elems s1" "frames_info s2 = frames_info s1"
        "swept {sl. ws_slot dir (?at k) s1 = Some sl} (ws_succ (?at k) L) e s1 s2" "\<forall>p. ws_slot dir p s2 = ws_slot dir p s1" by auto
    have "{sl. \<exists>l < Suc k. ws_slot dir (?at l) s = Some sl} =
        {sl. \<exists>l < k. ws_slot dir (?at l) s = Some sl} \<union> {sl. ws_slot dir (?at k) s1 = Some sl}"
      using s1(9) by (auto simp: less_Suc_eq)
    then have "swept {sl. \<exists>l < Suc k. ws_slot dir (?at l) s = Some sl} (?at (Suc k)) e s s2"
      using swept_trans [OF s1(8) s2(8)] succ [of k] by simp
    moreover have "used dir p s2 \<longleftrightarrow> used dir p s \<and> (\<forall>l < Suc k. p \<noteq> ?at l)" if "p \<in> set L" for p
      using s2(5) s1(5) that by (auto simp: less_Suc_eq)
    ultimately show ?case using s1 s2 succ [of k] by (intro exI [of _ s2]) simp
  qed
  show ?thesis
  proof (cases "\<forall>l < ?n. used dir (?at l) s")
    case True
    from run [OF le_refl True, of 0] obtain s' where s': "clock_hand ?n dir e s = clock_hand 0 dir e s'" "clock_ok dir e s'"
      "page_WS_list (envs s' e) = L" "page_last_WS_element (envs s' e) = ?at ?n"
      "\<forall>p \<in> set L. used dir p s' \<longleftrightarrow> used dir p s \<and> (\<forall>l < ?n. p \<noteq> ?at l)" "ws_elems s' = ws_elems s" "frames_info s' = frames_info s"
      "swept {sl. \<exists>l < ?n. ws_slot dir (?at l) s = Some sl} (?at ?n) e s s'"
      by auto
    have at: "(i + ?n) mod ?n = i" using assms(3) by simp
    have "\<not> used dir (?at ?n) s'" using s'(5) mem n at by (metis add.right_neutral mod_less assms(3))
    moreover have "?at ?n \<in> set (page_WS_list (envs s' e))" using mem [of ?n] unfolding s'(3) .
    ultimately have "clock_hand 0 dir e s' = Some (?at ?n, s')" using clock_stop [OF s'(2,4)] by blast
    then show ?thesis using s' True at s'(8) [unfolded swept_def mem_Collect_eq] by (intro exI [of _ ?n] exI [of _ s']) simp
  next
    case False
    then have "\<exists>l. l < ?n \<and> \<not> used dir (?at l) s" by blast
    then obtain j where "j < ?n \<and> \<not> used dir (?at j) s" "\<forall>l < j. \<not> (l < ?n \<and> \<not> used dir (?at l) s)"
      using exists_least_iff [of "\<lambda>l. l < ?n \<and> \<not> used dir (?at l) s"] by blast
    then have j: "j < ?n" "\<not> used dir (?at j) s" "\<forall>l < j. used dir (?at l) s" by auto
    from run [of j "?n - j"] j obtain s' where s': "clock_hand ?n dir e s = clock_hand (?n - j) dir e s'" "clock_ok dir e s'"
      "page_WS_list (envs s' e) = L" "page_last_WS_element (envs s' e) = ?at j"
      "\<forall>p \<in> set L. used dir p s' \<longleftrightarrow> used dir p s \<and> (\<forall>l < j. p \<noteq> ?at l)" "ws_elems s' = ws_elems s" "frames_info s' = frames_info s"
      "swept {sl. \<exists>l < j. ws_slot dir (?at l) s = Some sl} (?at j) e s s'"
      by auto
    have "\<not> used dir (?at j) s'" using s'(5) mem j(2) by blast
    then have "clock_hand (?n - j) dir e s' = Some (?at j, s')" using clock_stop [OF s'(2,4)] mem s'(3) by simp
    then show ?thesis using s' j s'(8) [unfolded swept_def mem_Collect_eq] by (intro exI [of _ j] exI [of _ s']) simp
  qed
qed

lemma vm_ex_clock: "clock_ok 50 2 vm_ex"
  by (simp add: clock_ok_def Let_def ws_slot_def get_page_table_def disk_ex_fields disk_phys_def PERM_PRESENT_def
      kheap_table_ptr_def CHECK_IF_KERNEL_ADDRESS_def fos_consts)

theorem clock_hand_correct_witness:
  "clock_ok 50 2 vm_ex \<and> (\<exists>s'. clock_hand 2 50 2 vm_ex = Some (0xF60000C0, s') \<and> \<not> used 50 0xF6000080 s')"
proof -
  let ?L = "[0xF6000080, 0xF60000C0 :: u32]"
  have u: "used 50 0xF6000080 vm_ex" "\<not> used 50 0xF60000C0 vm_ex"
    by (simp_all add: used_def ws_slot_def get_page_table_def disk_ex_fields disk_phys_def Let_def PERM_PRESENT_def PERM_USED_def
        kheap_table_ptr_def CHECK_IF_KERNEL_ADDRESS_def fos_consts)
  have L: "?L = page_WS_list (envs vm_ex 2)" "0 < length ?L" "page_last_WS_element (envs vm_ex 2) = ?L ! 0" by simp_all
  have two: "length ?L = 2" by simp
  from clock_hand_correct [OF vm_ex_clock L, unfolded two add_0] obtain j s' where
    j: "j \<le> 2" "clock_hand 2 50 2 vm_ex = Some (?L ! (j mod 2), s')" "\<forall>k < j. used 50 (?L ! (k mod 2)) vm_ex"
      "if j < 2 then \<not> used 50 (?L ! (j mod 2)) vm_ex else j mod 2 = 0"
      "\<forall>p \<in> set ?L. used 50 p s' \<longleftrightarrow> used 50 p vm_ex \<and> (\<forall>k < j. p \<noteq> ?L ! (k mod 2))"
    by blast
  have "j = 0 \<or> j = 1 \<or> j = 2" using j(1) by linarith
  moreover have "j \<noteq> 0" using j(4) u by (cases "j = 0") auto
  moreover have "j \<noteq> 2" using j(3) u by (auto dest: spec [of _ 1])
  ultimately show ?thesis using j vm_ex_clock by auto
qed

section \<open>The least recently used page\<close>

lemma oldest_spec:
  "oldest L mn v s = v \<and> (\<forall>p \<in> set L. mn \<le> time_stamp (ws_elems s p)) \<or>
   (\<exists>A p B. L = A @ p # B \<and> oldest L mn v s = p \<and> time_stamp (ws_elems s p) < mn \<and>
     (\<forall>q \<in> set A. time_stamp (ws_elems s p) < time_stamp (ws_elems s q)) \<and>
     (\<forall>q \<in> set B. time_stamp (ws_elems s p) \<le> time_stamp (ws_elems s q)))"
proof (induction L arbitrary: mn v)
  case Nil
  then show ?case by simp
next
  case (Cons x xs)
  let ?t = "\<lambda>p. time_stamp (ws_elems s p)"
  show ?case
  proof (cases "?t x < mn")
    case True
    from Cons.IH [of "?t x" x] show ?thesis
    proof
      assume "oldest xs (?t x) x s = x \<and> (\<forall>p \<in> set xs. ?t x \<le> ?t p)"
      then show ?thesis using True by (intro disjI2 exI [of _ "[]"] exI [of _ x] exI [of _ xs]) simp
    next
      assume "\<exists>A p B. xs = A @ p # B \<and> oldest xs (?t x) x s = p \<and> ?t p < ?t x \<and> (\<forall>q \<in> set A. ?t p < ?t q) \<and> (\<forall>q \<in> set B. ?t p \<le> ?t q)"
      then obtain A p B where "xs = A @ p # B" "oldest xs (?t x) x s = p" "?t p < ?t x" "\<forall>q \<in> set A. ?t p < ?t q" "\<forall>q \<in> set B. ?t p \<le> ?t q"
        by blast
      then show ?thesis using True by (intro disjI2 exI [of _ "x # A"] exI [of _ p] exI [of _ B]) auto
    qed
  next
    case False
    from Cons.IH [of mn v] show ?thesis
    proof
      assume "oldest xs mn v s = v \<and> (\<forall>p \<in> set xs. mn \<le> ?t p)"
      then show ?thesis using False leI [OF False] by simp
    next
      assume "\<exists>A p B. xs = A @ p # B \<and> oldest xs mn v s = p \<and> ?t p < mn \<and> (\<forall>q \<in> set A. ?t p < ?t q) \<and> (\<forall>q \<in> set B. ?t p \<le> ?t q)"
      then obtain A p B where "xs = A @ p # B" "oldest xs mn v s = p" "?t p < mn" "\<forall>q \<in> set A. ?t p < ?t q" "\<forall>q \<in> set B. ?t p \<le> ?t q"
        by blast
      then show ?thesis using False by (intro disjI2 exI [of _ "x # A"] exI [of _ p] exI [of _ B]) auto
    qed
  qed
qed

text \<open>
  The LRU approximation evicts a page with the smallest time stamp, the first of these in the working set.
  When every stamp is the largest 32-bit number it finds none, and the handler reads through the null pointer.
\<close>

theorem replace_LRU_victim:
  "(\<exists>A p B. page_WS_list (envs s e) = A @ p # B \<and> oldest (page_WS_list (envs s e)) 0xFFFFFFFF 0 s = p \<and>
      list_all (\<lambda>q. time_stamp (ws_elems s p) < time_stamp (ws_elems s q)) A \<and>
      list_all (\<lambda>q. time_stamp (ws_elems s p) \<le> time_stamp (ws_elems s q)) B) \<or>
   (list_all (\<lambda>p. time_stamp (ws_elems s p) = 0xFFFFFFFF) (page_WS_list (envs s e)) \<and> replace_LRU da ide e fault_va s = None)"
proof -
  let ?L = "page_WS_list (envs s e)"
  have lt: "unat x < 4294967296" for x :: u32 by (rule order.strict_trans2 [OF unsigned_less]) simp
  have mx: "(0xFFFFFFFF :: u32) \<le> x \<longleftrightarrow> x = 0xFFFFFFFF" for x
    using lt [of x] by (auto simp: word_le_nat_alt word_unat_eq_iff)
  have none: "replace_LRU da ide e fault_va s = None" if "oldest ?L 0xFFFFFFFF 0 s = 0"
    using that by (simp add: replace_LRU_def Let_def evict_def ws_va_def)
  from oldest_spec [where L = ?L and mn = "0xFFFFFFFF" and v = 0 and s = s]
  show ?thesis using none unfolding mx list_all_iff by blast
qed

text \<open>
  A fault that repeats is not retried for ever.  After a first fault at an address and two repetitions by the same
  process, the third repetition panics, whatever else the state is; a fault at another address starts the count
  again.
\<close>

theorem repeated_fault_panics:
  assumes "num_repeated_fault s = 0" "cpu_proc s = p" "last_fault_va s \<noteq> va"
  shows "\<exists>s1 s2 s3. note_fault va eip1 s = Some s1 \<and> note_fault va eip2 s1 = Some s2 \<and> note_fault va eip3 s2 = Some s3 \<and>
    fault_handler da ide stack userTrap eip va s3 = None \<and>
    (va' \<noteq> va \<longrightarrow> (\<exists>t. note_fault va' eip s3 = Some t \<and> num_repeated_fault t = 0))"
  using assms by (simp add: note_fault_def fault_handler_def)

theorem repeated_fault_panics_witness:
  "\<exists>s1 s2 s3. note_fault 0x5000 0 vm_ex = Some s1 \<and> note_fault 0x5000 0 s1 = Some s2 \<and> note_fault 0x5000 0 s2 = Some s3 \<and>
    fault_handler da_ex pio_disk 0 True 0 0x5000 s3 = None"
  using repeated_fault_panics [of vm_ex "cpu_proc vm_ex" "0x5000" 0 0 0 da_ex pio_disk 0 True 0 0] by auto

section \<open>An invalid address\<close>

text \<open>
  A page that is neither in the page file nor in the user heap or stack ends its process only after its frame
  is released twice.  \<open>unmap_frame\<close> drops the last reference and puts the frame in the free list, and
  \<open>free_frame\<close> inserts the same element again, which has no defined result on a linked list.
\<close>

theorem check_new_page_double_free:
  assumes "cpu_ok s" "locks_ok s" "env_dir e s = Some dir" "\<not> in_heap_or_stack va"
    and "get_frame_info dir va s = Some (Some f, Some t)" "references (frames_info s f) = 1" "f \<notin> set (free_frame_list s)"
  shows "(\<exists>s1. unmap_frame dir va s = Some ((), s1) \<and> f \<in> set (free_frame_list s1)) \<and>
    check_new_page e va E_PAGE_NOT_EXIST_IN_PF f s = None"
proof -
  from decrement_references_spec [OF assms(1,2) _ assms(7)] assms(6) obtain s1 where
    s1: "decrement_references f s = Some ((), s1)" "cpu_same s s1" "free_frame_list s1 = f # free_frame_list s" by auto
  let ?s1 = "tlb_invalidate (Some dir) va (write_phys t (PTX va) (phys s1 t (PTX va) AND PERM_AVAILABLE) s1)"
  have un: "unmap_frame dir va s = Some ((), ?s1)" using assms(5) s1(1) by (simp add: unmap_frame_def)
  have "cpu_same s ?s1" using s1(2) by simp
  note ok = cpu_same_ok(1) [OF this assms(1)] cpu_same_ok(2) [OF this assms(2)]
  have "f \<in> set (free_frame_list ?s1)" using s1(3) by simp
  then show ?thesis using free_frame_twice [OF ok, of f] un assms(3,4) by (simp add: check_new_page_def)
qed

theorem check_new_page_double_free_witness:
  "check_new_page 2 0x1000 E_PAGE_NOT_EXIST_IN_PF 52
     (vm_ex\<lparr>use_kheap := False, frames_info := (\<lambda>_. null_frame_info\<lparr>references := 1\<rparr>), free_frame_list := []\<rparr>) = None"
proof -
  let ?s = "vm_ex\<lparr>use_kheap := False, frames_info := (\<lambda>_. null_frame_info\<lparr>references := 1\<rparr>), free_frame_list := []\<rparr>"
  have h: "\<not> in_heap_or_stack 0x1000"
    by (simp add: in_heap_or_stack_def fos_consts USTACKBOTTOM_def USER_PAGES_WS_MAX_def ROUNDUP_def ROUNDDOWN_def)
  have g: "get_frame_info 50 0x1000 ?s = Some (Some 52, Some 51)"
    by (simp add: get_frame_info_def get_page_table_def disk_ex_fields disk_phys_def Let_def PERM_PRESENT_def
        STATIC_KERNEL_VIRTUAL_ADDRESS_def to_frame_info_def EXTRACT_ADDRESS_def PPN_def drop_bit_eq_div)
  have "cpu_ok ?s" "locks_ok ?s" "env_dir 2 ?s = Some 50"
    by (simp_all add: cpu_ok_def locks_ok_def env_dir_def env_ex_def vm_ex_def disk_state.defs)
  with check_new_page_double_free [of ?s 2 50 "0x1000" 52 51] h g show ?thesis by simp
qed

end
