(* ===== verification/FOS_ShareThms.thy ===== *)
theory FOS_ShareThms
  imports FOS_Share FOS_FaultThms
begin

unbundle bit_operations_syntax

text \<open>
  Sharing: what the creator of an object and a process that gets it see are the same frames.  The user heap:
  which pages are marked, and what the fault handler then makes of an access.
\<close>

section \<open>Mapping a page that is not present\<close>

text \<open>The table and index of the entry of an address, when the table is in memory.\<close>

definition page_slot :: "frame \<Rightarrow> u32 \<Rightarrow> 'z mem_state_scheme \<Rightarrow> (frame \<times> u32) option" where
  "page_slot dir va s =
     (case get_page_table dir va s of Some (TABLE_IN_MEMORY, Some t) \<Rightarrow> Some (t, PTX va) | _ \<Rightarrow> None)"

lemma page_slotD: "page_slot dir va s = Some (t, i) \<Longrightarrow> get_page_table dir va s = Some (TABLE_IN_MEMORY, Some t) \<and> i = PTX va"
  by (auto simp: page_slot_def split: option.splits prod.splits table_status.splits)

lemma page_slot_cong:
  assumes "page_slot dir va s = Some (t, i)" "phys s' dir = phys s dir" "number_of_frames s' = number_of_frames s"
    "use_kheap s' = use_kheap s" "frames_info s' t = frames_info s t"
  shows "page_slot dir va s' = Some (t, i)"
proof -
  from page_slotD [OF assms(1)] have g: "get_page_table dir va s = Some (TABLE_IN_MEMORY, Some t)" "i = PTX va" by auto
  then have "get_page_table dir va s' = Some (TABLE_IN_MEMORY, Some t)"
    using assms(2-5) by (auto simp: get_page_table_def kheap_table_ptr_def STATIC_KERNEL_VIRTUAL_ADDRESS_def Let_def split: if_splits)
  then show ?thesis using g(2) by (simp add: page_slot_def)
qed

definition user_perm :: "u32 \<Rightarrow> bool" where
  "user_perm p \<longleftrightarrow> \<not> bit p 9 \<and> EXTRACT_ADDRESS p = 0"

text \<open>What an operation on a set \<open>D\<close> of table entries and a set \<open>F\<close> of frames leaves alone.\<close>

definition only_at :: "(frame \<times> u32) set \<Rightarrow> frame set \<Rightarrow> 'z mem_state_scheme \<Rightarrow> 'z mem_state_scheme \<Rightarrow> bool" where
  "only_at D F s s' \<longleftrightarrow> (\<forall>t i. (t, i) \<notin> D \<longrightarrow> phys s' t i = phys s t i) \<and> (\<forall>g. g \<notin> F \<longrightarrow> frames_info s' g = frames_info s g) \<and>
     number_of_frames s' = number_of_frames s \<and> use_kheap s' = use_kheap s \<and> cpu_same s s'"

lemma only_at_trans: "only_at D F s s1 \<Longrightarrow> only_at D' F' s1 s2 \<Longrightarrow> only_at (D \<union> D') (F \<union> F') s s2"
  by (auto simp: only_at_def intro: cpu_same_trans)

lemma only_at_mono: "only_at D F s s' \<Longrightarrow> D \<subseteq> D' \<Longrightarrow> F \<subseteq> F' \<Longrightarrow> only_at D' F' s s'"
  unfolding only_at_def by blast

lemma only_at_refl [simp]: "only_at D F s s"
  by (simp add: only_at_def)

lemma only_at_slot:
  assumes "only_at D F s s'" "page_slot dir va s = Some (t, i)" "\<forall>j. (dir, j) \<notin> D" "t \<notin> F"
  shows "page_slot dir va s' = Some (t, i)"
proof (rule page_slot_cong [OF assms(2)])
  show "phys s' dir = phys s dir" using assms(1,3) by (auto simp: only_at_def)
qed (use assms in \<open>auto simp: only_at_def\<close>)

lemma map_page_new:
  assumes ok: "refs_ok T U s" and sl: "page_slot dir va s = Some (t, i)" "t \<in> T" "\<not> bit (phys s t i) 0"
    and f: "f \<in> U" "f \<notin> set (free_frame_list s)" "references (frames_info s f) \<noteq> 0xFFFF" "f < 2 ^ 20" and p: "user_perm perm"
  shows "\<exists>s'. map_frame dir f va perm s = Some (0, s') \<and> refs_ok T U s' \<and> maps (phys s' t i) f \<and>
    (bit (phys s' t i) 1 \<longleftrightarrow> bit perm 1) \<and> only_at {(t, i)} {f} s s' \<and>
    references (frames_info s' f) = references (frames_info s f) + 1 \<and> free_frame_list s' = free_frame_list s \<and> mem_static s s'"
proof -
  from page_slotD [OF sl(1)] have g: "get_page_table dir va s = Some (TABLE_IN_MEMORY, Some t)" and i: "i = PTX va" by auto
  have i2: "i < 1024" unfolding i by (rule PTX_less)
  have perm: "\<not> bit perm 9" "EXTRACT_ADDRESS perm = 0" using p by (simp_all add: user_perm_def)
  note m = map_frame_free_entry [OF ok sl(2) i2 sl(3) f perm, where va = va]
  let ?v = "CONSTRUCT_ENTRY (to_physical_address f) (phys s t i AND PERM_AVAILABLE OR perm OR PERM_PRESENT)"
  let ?s' = "fi_upd f (\<lambda>fi. fi\<lparr>kheap_mapped_va := va\<rparr>) (write_phys t i ?v (fi_upd f (\<lambda>fi. fi\<lparr>references := references fi + 1\<rparr>) s))"
  have "map_frame dir f va perm s = Some (0, ?s')"
    using g sl(3) i by (simp add: map_frame_def map_frame_gen_def present_bit)
  moreover have "bit ?v 1 \<longleftrightarrow> bit perm 1"
    by (simp add: CONSTRUCT_ENTRY_def to_physical_address_def PERM_AVAILABLE_def PERM_PRESENT_def bit_simps)
  ultimately show ?thesis
    using m by (intro exI [of _ ?s']) (auto simp: only_at_def)
qed

section \<open>The two loops over the pages of an object\<close>

lemma share_fields_static:
  assumes "mem_static s s'"
  shows "shares s' = shares s" "frames_storages s' = frames_storages s" "shares_list s' = shares_list s"
  using assms by (cases s; cases s'; simp add: mem_static_def)+

definition page_at :: "u32 \<Rightarrow> nat \<Rightarrow> u32" where
  "page_at va i = va + of_nat i * PAGE_SIZE"

text \<open>The entries \<open>sl 0, ..., sl (n - 1)\<close> of \<open>n\<close> pages from \<open>va\<close> on, in the tables \<open>T\<close>, different and not present.\<close>

definition new_slots :: "frame \<Rightarrow> u32 \<Rightarrow> nat \<Rightarrow> (nat \<Rightarrow> frame \<times> u32) \<Rightarrow> frame set \<Rightarrow> 'z mem_state_scheme \<Rightarrow> bool" where
  "new_slots dir va n sl T s \<longleftrightarrow> dir \<notin> T \<and> inj_on sl {..<n} \<and>
     (\<forall>i<n. page_slot dir (page_at va i) s = Some (sl i) \<and> fst (sl i) \<in> T \<and> \<not> bit (phys s (fst (sl i)) (snd (sl i))) 0)"

definition entry :: "(frame \<times> u32) \<Rightarrow> 'z mem_state_scheme \<Rightarrow> u32" where
  "entry x s = phys s (fst x) (snd x)"

lemma only_at_entry: "only_at D F s s' \<Longrightarrow> x \<notin> D \<Longrightarrow> entry x s' = entry x s"
  by (cases x) (simp add: only_at_def entry_def)

lemma new_slotsD:
  assumes "new_slots dir va n sl T s" "i < n"
  shows "page_slot dir (page_at va i) s = Some (fst (sl i), snd (sl i))" "fst (sl i) \<in> T" "\<not> bit (entry (sl i) s) 0"
    "\<forall>j. (dir, j) \<notin> sl ` {..<n}"
  using assms by (auto simp: new_slots_def entry_def) (metis fst_conv)

lemma new_slots_Suc: "new_slots dir va (Suc n) sl T s \<Longrightarrow> new_slots dir va n sl T s \<and> sl n \<notin> sl ` {..<n}"
  by (auto simp: new_slots_def inj_on_def lessThan_Suc)

text \<open>The entry of page \<open>n\<close> after the pages before it were mapped.\<close>

lemma new_slots_step:
  assumes "new_slots dir va (Suc n) sl T s" "only_at (sl ` {..<n}) F s s'" "F \<subseteq> U" "T \<inter> U = {}"
  shows "page_slot dir (page_at va n) s' = Some (fst (sl n), snd (sl n))" "fst (sl n) \<in> T"
    "\<not> bit (phys s' (fst (sl n)) (snd (sl n))) 0"
proof -
  note d = new_slotsD [OF assms(1) lessI]
  show "fst (sl n) \<in> T" by (rule d(2))
  show "page_slot dir (page_at va n) s' = Some (fst (sl n), snd (sl n))"
  proof (rule only_at_slot [OF assms(2) d(1)])
    show "\<forall>j. (dir, j) \<notin> sl ` {..<n}" using d(4) by (auto simp: lessThan_Suc)
    show "fst (sl n) \<notin> F" using d(2) assms(3,4) by blast
  qed
  show "\<not> bit (phys s' (fst (sl n)) (snd (sl n))) 0"
    using only_at_entry [OF assms(2)] new_slots_Suc [OF assms(1)] d(3) by (simp add: entry_def)
qed

lemma user_perms: "user_perm (PERM_USER OR PERM_PRESENT OR PERM_WRITEABLE)" "user_perm (share_perms x)"
  "bit (share_perms x) 1 \<longleftrightarrow> isWritable x \<noteq> 0"
  by (simp_all add: user_perm_def share_perms_def EXTRACT_ADDRESS_def fos_consts)

lemma create_page_ok:
  assumes ok: "cpu_ok s" "locks_ok s" "refs_ok T U s"
    and sl: "page_slot dir (page_at va i) s = Some (t, j)" "t \<in> T" "\<not> bit (phys s t j) 0"
    and f: "free_frame_list s = f # rest" "f \<in> U" "f < 2 ^ 20"
    and st: "i < length (frames_storages s (framesStorage (shares s p)))"
  shows "\<exists>s'. create_page p dir va i s = Some s' \<and> refs_ok T U s' \<and> maps (phys s' t j) f \<and> only_at {(t, j)} {f} s s' \<and>
    references (frames_info s' f) = 1 \<and> free_frame_list s' = rest \<and> shares s' = shares s \<and> shares_list s' = shares_list s \<and>
    frames_storages s' = (frames_storages s)(framesStorage (shares s p) := (frames_storages s (framesStorage (shares s p)))[i := Some f])"
proof -
  from allocate_frame_Cons [OF ok(1,2) f(1)] obtain s1 where
    s1: "allocate_frame s = Some (f, s1)" "cpu_same s s1" "mem_static s s1" "free_frame_list s1 = rest"
      "frames_info s1 = (frames_info s)(f := null_frame_info)" "phys s1 = phys s" by auto
  have nf: "number_of_frames s1 = number_of_frames s" "use_kheap s1 = use_kheap s" using s1(3) by (auto simp: mem_static_def)
  note r1 = refs_ok_allocate [OF ok(3) f(1,2) s1(4-6) nf(1)]
  have o1: "only_at {} {f} s s1" using s1 nf by (simp add: only_at_def)
  have "T \<inter> U = {}" using ok(3) by (simp add: refs_ok_def)
  then have tf: "t \<noteq> f" using sl(2) f(2) by blast
  have sl1: "page_slot dir (page_at va i) s1 = Some (t, j)" using only_at_slot [OF o1 sl(1)] tf by simp
  have b: "\<not> bit (phys s1 t j) 0" "references (frames_info s1 f) \<noteq> 0xFFFF" using sl(3) s1(6) r1(3) by simp_all
  from map_page_new [OF r1(1) sl1 sl(2) b(1) f(2) r1(2) b(2) f(3) user_perms(1)] obtain s2 where
    s2: "map_frame dir f (page_at va i) (PERM_USER OR PERM_PRESENT OR PERM_WRITEABLE) s1 = Some (0, s2)" "refs_ok T U s2"
      "maps (phys s2 t j) f" "only_at {(t, j)} {f} s1 s2" "references (frames_info s2 f) = references (frames_info s1 f) + 1"
      "free_frame_list s2 = free_frame_list s1" "mem_static s1 s2" by auto
  note sf = share_fields_static [OF s1(3)] share_fields_static [OF s2(7)]
  let ?a = "framesStorage (shares s p)"
  let ?s3 = "s2\<lparr>frames_storages := (frames_storages s)(?a := (frames_storages s ?a)[i := Some f])\<rparr>"
  have c: "create_page p dir va i s = Some ?s3"
    using s1(1) s2(1) st sf by (simp add: create_page_def store_frame_def Let_def page_at_def)
  have "only_at {(t, j)} {f} s s2" using only_at_trans [OF o1 s2(4)] by simp
  then have "only_at {(t, j)} {f} s ?s3" by (simp add: only_at_def cpu_same_def)
  moreover have "refs_ok T U ?s3" using s2(2) by (simp add: refs_ok_def mappings_def)
  ultimately show ?thesis using c s2 s1 r1(3) sf by (intro exI [of _ ?s3]) simp
qed

lemma create_pages:
  assumes "cpu_ok s" "locks_ok s" "refs_ok T U s" "new_slots dir va n sl T s"
    and "free_frame_list s = fs @ rest" "length fs = n" "set fs \<subseteq> U" "\<forall>f \<in> set fs. f < 2 ^ 20"
    and "a = framesStorage (shares s p)" "n \<le> length (frames_storages s a)"
  shows "\<exists>s'. run_all (create_page p dir va) [0..<n] s = Some s' \<and> refs_ok T U s' \<and> only_at (sl ` {..<n}) (set fs) s s' \<and>
    (\<forall>i<n. maps (entry (sl i) s') (fs ! i)) \<and> (\<forall>f \<in> set fs. references (frames_info s' f) = 1) \<and> free_frame_list s' = rest \<and>
    shares s' = shares s \<and> shares_list s' = shares_list s \<and>
    frames_storages s' = (frames_storages s)(a := map Some fs @ drop n (frames_storages s a))"
  using assms(4-8,10)
proof (induction n arbitrary: fs rest)
  case 0
  then show ?case using assms(3) by simp
next
  case (Suc n)
  then obtain f fs1 where fs: "fs = fs1 @ [f]" "length fs1 = n" by (metis length_Suc_conv_rev)
  have ns: "new_slots dir va n sl T s" "sl n \<notin> sl ` {..<n}" using new_slots_Suc [OF Suc.prems(1)] by auto
  have pre: "free_frame_list s = fs1 @ f # rest" "set fs1 \<subseteq> U" "\<forall>g \<in> set fs1. g < 2 ^ 20" "n \<le> length (frames_storages s a)"
    using Suc.prems fs by auto
  from Suc.IH [OF ns(1) pre(1) fs(2) pre(2-4)] obtain s1 where
    s1: "run_all (create_page p dir va) [0..<n] s = Some s1" "refs_ok T U s1" "only_at (sl ` {..<n}) (set fs1) s s1"
      "\<forall>i<n. maps (entry (sl i) s1) (fs1 ! i)" "\<forall>g \<in> set fs1. references (frames_info s1 g) = 1" "free_frame_list s1 = f # rest"
      "shares s1 = shares s" "shares_list s1 = shares_list s"
      "frames_storages s1 = (frames_storages s)(a := map Some fs1 @ drop n (frames_storages s a))"
    by blast
  have TU: "T \<inter> U = {}" using assms(3) by (simp add: refs_ok_def)
  note sn = new_slots_step [OF Suc.prems(1) s1(3) _ TU]
  have c1: "cpu_ok s1" "locks_ok s1" using s1(3) assms(1,2) by (auto simp: only_at_def dest: cpu_same_ok)
  have f: "f \<in> U" "f < 2 ^ 20" "set fs1 \<subseteq> U" using Suc.prems(4,5) fs by auto
  have fd: "f \<notin> set fs1" using assms(3) Suc.prems(2) fs by (auto simp: refs_ok_def)
  have len: "n < length (frames_storages s1 (framesStorage (shares s1 p)))" using s1(7,9) assms(9) Suc.prems(6) fs(2) by simp
  from create_page_ok [OF c1 s1(2) sn [OF f(3)] s1(6) f(1,2) len] obtain s2 where
    s2: "create_page p dir va n s1 = Some s2" "refs_ok T U s2" "maps (entry (sl n) s2) f" "only_at {sl n} {f} s1 s2"
      "references (frames_info s2 f) = 1" "free_frame_list s2 = rest" "shares s2 = shares s1" "shares_list s2 = shares_list s1"
      "frames_storages s2 = (frames_storages s1)(a := (frames_storages s1 a)[n := Some f])"
    using s1(7) assms(9) by (auto simp: entry_def)
  have o: "only_at (sl ` {..<Suc n}) (set fs) s s2"
    by (rule only_at_mono [OF only_at_trans [OF s1(3) s2(4)]]) (auto simp: fs lessThan_Suc)
  have m: "maps (entry (sl i) s2) (fs ! i)" if "i < Suc n" for i
  proof (cases "i = n")
    case True
    then show ?thesis using s2(3) fs by (simp add: nth_append)
  next
    case False
    then have "i < n" using that by simp
    moreover have "sl i \<noteq> sl n" using ns(2) \<open>i < n\<close> by (metis image_eqI lessThan_iff)
    ultimately show ?thesis using s1(4) only_at_entry [OF s2(4), of "sl i"] fs by (simp add: nth_append)
  qed
  have r: "references (frames_info s2 g) = 1" if "g \<in> set fs" for g
    using that s1(5) s2(4,5) fd fs by (cases "g = f") (auto simp: only_at_def)
  have st: "(map Some fs1 @ drop n (frames_storages s a))[n := Some f] = map Some fs @ drop (Suc n) (frames_storages s a)"
    using Cons_nth_drop_Suc [of n "frames_storages s a", symmetric] Suc.prems(6) fs by (simp add: list_update_append)
  show ?case using s1 s2 o m r st by (intro exI [of _ s2]) (simp add: run_all_append)
qed

lemma get_pages:
  assumes "cpu_ok s" "locks_ok s" "refs_ok T U s" "new_slots dir va n sl T s"
    and "length fs = n" "set fs \<subseteq> U" "distinct fs" "set fs \<inter> set (free_frame_list s) = {}"
    and "\<forall>f \<in> set fs. f < 2 ^ 20 \<and> references (frames_info s f) = 1"
    and "frames_storages s (framesStorage (shares s p)) = map Some (fs @ gs)"
  shows "\<exists>s'. run_all (get_page_of_share p dir va) [0..<n] s = Some s' \<and> refs_ok T U s' \<and> only_at (sl ` {..<n}) (set fs) s s' \<and>
    (\<forall>i<n. maps (entry (sl i) s') (fs ! i) \<and> (bit (entry (sl i) s') 1 \<longleftrightarrow> isWritable (shares s p) \<noteq> 0)) \<and>
    (\<forall>f \<in> set fs. references (frames_info s' f) = 2) \<and> free_frame_list s' = free_frame_list s \<and> mem_static s s'"
  using assms(4-10)
proof (induction n arbitrary: fs gs)
  case 0
  then show ?case using assms(3) by simp
next
  case (Suc n)
  then obtain f fs1 where fs: "fs = fs1 @ [f]" "length fs1 = n" by (metis length_Suc_conv_rev)
  have ns: "new_slots dir va n sl T s" "sl n \<notin> sl ` {..<n}" using new_slots_Suc [OF Suc.prems(1)] by auto
  from Suc.IH [OF ns(1), of fs1 "f # gs"] Suc.prems fs obtain s1 where
    s1: "run_all (get_page_of_share p dir va) [0..<n] s = Some s1" "refs_ok T U s1" "only_at (sl ` {..<n}) (set fs1) s s1"
      "\<forall>i<n. maps (entry (sl i) s1) (fs1 ! i) \<and> (bit (entry (sl i) s1) 1 \<longleftrightarrow> isWritable (shares s p) \<noteq> 0)"
      "\<forall>g \<in> set fs1. references (frames_info s1 g) = 2" "free_frame_list s1 = free_frame_list s" "mem_static s s1"
    by auto
  have TU: "T \<inter> U = {}" using assms(3) by (simp add: refs_ok_def)
  note sn = new_slots_step [OF Suc.prems(1) s1(3) _ TU]
  note sf = share_fields_static [OF s1(7)]
  have f: "f \<in> U" "f < 2 ^ 20" "set fs1 \<subseteq> U" "f \<notin> set fs1" "f \<notin> set (free_frame_list s1)"
    using Suc.prems(3-6) fs s1(6) by auto
  have r1: "references (frames_info s1 f) = 1" using s1(3) Suc.prems(6) fs f(4) by (auto simp: only_at_def)
  then have r2: "references (frames_info s1 f) \<noteq> 0xFFFF" by simp
  from map_page_new [OF s1(2) sn [OF f(3)] f(1,5) r2 f(2) user_perms(2), of "shares s p"] obtain s2 where
    s2: "map_frame dir f (page_at va n) (share_perms (shares s p)) s1 = Some (0, s2)" "refs_ok T U s2" "maps (entry (sl n) s2) f"
      "bit (entry (sl n) s2) 1 \<longleftrightarrow> bit (share_perms (shares s p)) 1" "only_at {sl n} {f} s1 s2"
      "references (frames_info s2 f) = references (frames_info s1 f) + 1" "free_frame_list s2 = free_frame_list s1" "mem_static s1 s2"
    unfolding entry_def prod.collapse by blast
  note w = s2(4) [unfolded user_perms(3)]
  have g: "get_page_of_share p dir va n s1 = Some s2"
    using s2(1) Suc.prems(7) fs sf by (simp add: get_page_of_share_def Let_def page_at_def nth_append)
  have o: "only_at (sl ` {..<Suc n}) (set fs) s s2"
    by (rule only_at_mono [OF only_at_trans [OF s1(3) s2(5)]]) (auto simp: fs lessThan_Suc)
  have m: "maps (entry (sl i) s2) (fs ! i) \<and> (bit (entry (sl i) s2) 1 \<longleftrightarrow> isWritable (shares s p) \<noteq> 0)" if "i < Suc n" for i
  proof (cases "i = n")
    case True
    then show ?thesis using s2(3) w fs by (simp add: nth_append)
  next
    case False
    then have "i < n" using that by simp
    moreover have "sl i \<noteq> sl n" using ns(2) \<open>i < n\<close> by (metis image_eqI lessThan_iff)
    ultimately show ?thesis using s1(4) only_at_entry [OF s2(5), of "sl i"] fs by (simp add: nth_append)
  qed
  have r: "references (frames_info s2 x) = 2" if "x \<in> set fs" for x
    using that s1(5) s2(5,6) r1 f(4) fs by (cases "x = f") (auto simp: only_at_def)
  show ?case using s1 s2 g o m r mem_static_trans [OF s1(7) s2(8)] by (intro exI [of _ s2]) (simp add: run_all_append)
qed

section \<open>Creating and getting an object\<close>

lemma strcmp_refl: "NUL \<notin> set nm \<Longrightarrow> strcmp_same (nm @ [NUL]) (nm @ NUL # xs) = Some True"
  by (induction nm) auto

lemma strcmp_strncpy:
  assumes "NUL \<notin> set nm" "length nm < n"
  shows "strcmp_same (nm @ [NUL]) (strncpy dst nm n) = Some True"
proof -
  obtain k where k: "n = Suc (length nm + k)" using assms(2) less_imp_Suc_add by blast
  have "strncpy dst nm n = nm @ NUL # replicate k NUL @ drop n dst"
    unfolding strncpy_def k by (simp add: take_Cons')
  then show ?thesis using strcmp_refl [OF assms(1)] by simp
qed

lemma search_share_new:
  assumes "search_share owner nm l sh = Some 0" "0 \<notin> set l" "p \<notin> set l" "\<forall>q. q \<noteq> p \<longrightarrow> sh' q = sh q"
    and "ownerID (sh' p) = owner" "strcmp_same (nm @ [NUL]) (share_name (sh' p)) = Some True"
  shows "search_share owner nm (l @ [p]) sh' = Some p"
  using assms(1-3)
proof (induction l)
  case Nil
  then show ?case using assms(5,6) by simp
next
  case (Cons q l)
  then show ?case using assms(4) by (auto split: if_splits Option.bind_splits)
qed

lemma refs_ok_cong:
  assumes "refs_ok T U s" "phys s' = phys s" "frames_info s' = frames_info s" "free_frame_list s' = free_frame_list s"
    "number_of_frames s' = number_of_frames s"
  shows "refs_ok T U s'"
  using assms by (simp add: refs_ok_def mappings_def)

lemma slot_frame:
  assumes "page_slot dir va s = Some x" "fst x \<in> T" "refs_ok T U s" "maps (entry x s) f"
  shows "get_frame_info dir va s = Some (Some f, Some (fst x))"
proof -
  from assms(1) have "page_slot dir va s = Some (fst x, snd x)" by simp
  from page_slotD [OF this] have g: "get_page_table dir va s = Some (TABLE_IN_MEMORY, Some (fst x))" "snd x = PTX va" by auto
  have i: "snd x < 1024" unfolding g(2) by (rule PTX_less)
  have "pte_ok (entry x s)" "f \<in> U" using assms(2-4) i by (auto simp: refs_ok_def entry_def)
  then have "pte_ok (phys s (fst x) (PTX va))" "f < unat (number_of_frames s)" using assms(3) g(2) by (auto simp: refs_ok_def entry_def)
  then show ?thesis using get_frame_info_pte [OF g(1)] assms(4) g(2) by (simp add: entry_def maps_iff)
qed

text \<open>The share fields through the lock operations.\<close>

lemma share_sel_locking [simp]:
  "shares (entered l s) = shares s" "shares (left l s) = shares s" "frames_storages (entered l s) = frames_storages s"
  "frames_storages (left l s) = frames_storages s" "shares_list (entered l s) = shares_list s" "shares_list (left l s) = shares_list s"
  "kheapPageAllocBreak (entered l s) = kheapPageAllocBreak s" "kheapPageAllocBreak (left l s) = kheapPageAllocBreak s"
  by (simp_all add: entered_def left_def pushcli_def cli_def Let_def)

lemma find_share_held:
  "held SHARESLOCK s \<Longrightarrow> use_kheap s \<Longrightarrow> search_share owner nm (shares_list s) (shares s) = Some p \<Longrightarrow> find_share owner nm s = Some (p, s)"
  by (simp add: find_share_def with_lock_def)

text \<open>What the operations need of the processor and of the block allocator.\<close>

definition can_share :: "'z share_state_scheme \<Rightarrow> bool" where
  "can_share s \<longleftrightarrow> cpu_ok s \<and> locks_ok s \<and> \<not> held SHARESLOCK s \<and> use_kheap s \<and> PAGE_SIZE \<le> KERNEL_HEAP_MAX - kheapPageAllocBreak s"

text \<open>
  The block allocator is a library outside the repository.  What the proofs use of it: \<open>room s\<close> is the number of
  blocks it can still give and \<open>live s\<close> the set of blocks it has given out, both of its own data, which neither the
  lock of the shared objects nor the objects are part of.  While it has room and there is a free frame, a request of
  at most 2048 bytes gives a block that is not null and was not live.  The call may take one frame from the free list, for a new
  page of the kernel heap; it keeps the reference counts in order, and leaves alone the processes, the shared objects,
  the page allocator's break, and the frames of \<open>P\<close>: the page directories and the tables of user pages.
\<close>

definition block_step ::
  "nat \<Rightarrow> frame set \<Rightarrow> frame set \<Rightarrow> frame set \<Rightarrow> 'z share_state_scheme \<Rightarrow> 'z share_state_scheme \<Rightarrow> bool" where
  "block_step m P T U s s' \<longleftrightarrow> cpu_same s s' \<and> refs_ok T U s' \<and> number_of_frames s' = number_of_frames s \<and>
     use_kheap s' = use_kheap s \<and> kheapPageAllocBreak s' = kheapPageAllocBreak s \<and> shares_list s' = shares_list s \<and>
     (\<forall>t \<in> P. phys s' t = phys s t) \<and>
     (\<exists>taken. free_frame_list s = taken @ free_frame_list s' \<and> length taken \<le> m \<and>
        (\<forall>g. g \<notin> set taken \<longrightarrow> frames_info s' g = frames_info s g))"

definition block_laws ::
  "'z share_state_scheme dynalloc \<Rightarrow> ('z share_state_scheme \<Rightarrow> nat) \<Rightarrow> ('z share_state_scheme \<Rightarrow> u32 set) \<Rightarrow>
   frame set \<Rightarrow> frame set \<Rightarrow> frame set \<Rightarrow> bool" where
  "block_laws da room live P T U \<longleftrightarrow>
     (\<forall>s x. room (s\<lparr>shares := x\<rparr>) = room s \<and> live (s\<lparr>shares := x\<rparr>) = live s) \<and>
     (\<forall>s. room (entered SHARESLOCK s) = room s \<and> live (entered SHARESLOCK s) = live s) \<and>
     (\<forall>k s. 0 < k \<and> k \<le> DYN_ALLOC_MAX_BLOCK_SIZE \<and> 0 < room s \<and> free_frame_list s \<noteq> [] \<and>
        refs_ok T U s \<and> cpu_ok s \<and> locks_ok s \<longrightarrow>
        (\<exists>b s'. alloc_block da k s = Some (b, s') \<and> b \<noteq> 0 \<and> b \<notin> live s \<and> live s' = insert b (live s) \<and> room s' = room s - 1 \<and>
           block_step 1 P T U s s' \<and> shares s' = shares s \<and> frames_storages s' = frames_storages s))"

lemma block_lawsD:
  assumes "block_laws da room live P T U"
  shows "room (s\<lparr>shares := x\<rparr>) = room s" "room (entered SHARESLOCK s) = room s" "live (entered SHARESLOCK s) = live s"
    "0 < k \<Longrightarrow> k \<le> DYN_ALLOC_MAX_BLOCK_SIZE \<Longrightarrow> 0 < room s \<Longrightarrow> free_frame_list s \<noteq> [] \<Longrightarrow> refs_ok T U s \<Longrightarrow> cpu_ok s \<Longrightarrow> locks_ok s \<Longrightarrow>
      \<exists>b s'. alloc_block da k s = Some (b, s') \<and> b \<noteq> 0 \<and> b \<notin> live s \<and> room s' = room s - 1 \<and>
           block_step 1 P T U s s' \<and> shares s' = shares s \<and> frames_storages s' = frames_storages s"
  using assms unfolding block_laws_def by (blast, blast, blast, blast)

lemma block_step_trans:
  assumes "block_step m P T U s s1" "block_step n P T U s1 s2"
  shows "block_step (m + n) P T U s s2"
proof -
  from assms(1) obtain a where a: "free_frame_list s = a @ free_frame_list s1" "length a \<le> m"
    "\<forall>g. g \<notin> set a \<longrightarrow> frames_info s1 g = frames_info s g" by (auto simp: block_step_def)
  from assms(2) obtain b where b: "free_frame_list s1 = b @ free_frame_list s2" "length b \<le> n"
    "\<forall>g. g \<notin> set b \<longrightarrow> frames_info s2 g = frames_info s1 g" by (auto simp: block_step_def)
  have "\<exists>taken. free_frame_list s = taken @ free_frame_list s2 \<and> length taken \<le> m + n \<and>
      (\<forall>g. g \<notin> set taken \<longrightarrow> frames_info s2 g = frames_info s g)"
    using a b by (intro exI [of _ "a @ b"]) simp
  moreover have "cpu_same s s2" using assms cpu_same_trans [of s s1 s2] by (simp add: block_step_def)
  ultimately show ?thesis using assms by (simp add: block_step_def)
qed

text \<open>The block allocator's part of a step is blind to the fields of the shared objects.\<close>

lemma block_step_shares:
  "block_step m P T U s (s'\<lparr>shares := x\<rparr>) = block_step m P T U s s'"
  "block_step m P T U s (s'\<lparr>frames_storages := y\<rparr>) = block_step m P T U s s'"
  by (simp_all add: block_step_def cpu_same_def refs_ok_def mappings_def)

lemma small_block:
  assumes "0 < k" "k \<le> 2048" "use_kheap s" "PAGE_SIZE \<le> KERNEL_HEAP_MAX - kheapPageAllocBreak s"
  shows "kmalloc da k s = alloc_block da k s"
proof -
  have k: "0 < unat k" "unat k \<le> 2048" using assms(1,2) by (simp_all add: word_less_nat_alt word_le_nat_alt)
  then have "pages_of k = 1" using unat_pages_of [of k] by (simp add: word_unat_eq_iff)
  then show ?thesis using assms by (auto simp: kmalloc_def DYN_ALLOC_MAX_BLOCK_SIZE_def not_less)
qed

lemma alloc_share_ok:
  assumes ok: "use_kheap s" "PAGE_SIZE \<le> KERNEL_HEAP_MAX - kheapPageAllocBreak s" "refs_ok T U s" "cpu_ok s" "locks_ok s"
    and da: "block_laws da room live P T U" "2 \<le> room s" "2 \<le> length (free_frame_list s)"
    and n: "n = unat (pages_of nbytes)" "0 < n" "n \<le> 512"
  shows "\<exists>p q sh s' s''. alloc_share da owner nm nbytes w s = Some (p, s') \<and> p \<noteq> 0 \<and> p \<notin> live s \<and> block_step 2 P T U s s' \<and>
    s' = s''\<lparr>frames_storages := (frames_storages s)(q := replicate n None), shares := (shares s)(p := sh)\<rparr> \<and>
    ownerID sh = owner \<and> share_name sh = strncpy (share_name (shares s p)) nm 63 \<and> share_size sh = nbytes \<and> isWritable sh = w \<and>
    share_references sh = 1 \<and> share_ID sh = share_id_of p \<and> framesStorage sh = q"
proof -
  note L = block_lawsD [OF da(1)]
  have k: "0 < SIZEOF_SHARE" "SIZEOF_SHARE \<le> DYN_ALLOC_MAX_BLOCK_SIZE" by (simp_all add: SIZEOF_SHARE_def DYN_ALLOC_MAX_BLOCK_SIZE_def)
  from L(4) [OF k _ _ ok(3-5)] da(2,3) obtain p s1 where
    s1: "alloc_block da SIZEOF_SHARE s = Some (p, s1)" "p \<noteq> 0" "p \<notin> live s" "room s1 = room s - 1" "block_step 1 P T U s s1"
      "shares s1 = shares s" "frames_storages s1 = frames_storages s" by fastforce
  have m1: "kmalloc da SIZEOF_SHARE s = Some (p, s1)"
    using small_block [OF _ _ ok(1,2), of SIZEOF_SHARE da] s1(1) by (simp add: SIZEOF_SHARE_def)
  define s2 where "s2 = s1\<lparr>shares := (shares s1)(p := (shares s1 p)\<lparr>ownerID := owner, share_name := strncpy (share_name (shares s1 p)) nm 63,
      share_size := nbytes, isWritable := w, share_references := 1, share_ID := share_id_of p\<rparr>)\<rparr>"
  have st2: "block_step 1 P T U s s2" using s1(5) by (simp add: s2_def block_step_shares)
  then have ok2: "use_kheap s2" "PAGE_SIZE \<le> KERNEL_HEAP_MAX - kheapPageAllocBreak s2" "refs_ok T U s2" "cpu_ok s2" "locks_ok s2"
      "free_frame_list s2 \<noteq> []"
    using ok cpu_same_ok(1,2) [of s s2] da(3) by (auto simp: block_step_def)
  have nw: "of_nat n = pages_of nbytes" "unat (of_nat n * 4 :: u32) = n * 4" using n by (simp_all add: unat_word_ariths unat_of_nat_u32)
  have kn: "(0 :: u32) < of_nat n * 4" "(of_nat n * 4 :: u32) \<le> 2048" using n nw(2) by (simp_all add: word_less_nat_alt word_le_nat_alt)
  have kn2: "of_nat n * 4 \<le> DYN_ALLOC_MAX_BLOCK_SIZE" using kn(2) by (simp add: DYN_ALLOC_MAX_BLOCK_SIZE_def)
  have "0 < room s2" using s1(4) da(2) by (simp add: s2_def L(1))
  from L(4) [OF kn(1) kn2 this ok2(6,3-5)] obtain q s3 where
    s3: "alloc_block da (of_nat n * 4) s2 = Some (q, s3)" "q \<noteq> 0" "block_step 1 P T U s2 s3" "shares s3 = shares s2"
      "frames_storages s3 = frames_storages s2" by blast
  have m2: "kmalloc da (pages_of nbytes * 4) s2 = Some (q, s3)"
    using small_block [OF kn ok2(1,2), of da] s3(1) nw(1) by simp
  have "sint (of_nat n :: u32) = int n" using n by (intro sint_of_nat_u32) simp
  then have pos: "0 < sint (pages_of nbytes)" using n(2) unfolding nw(1) by simp
  let ?sh = "(shares s p)\<lparr>ownerID := owner, share_name := strncpy (share_name (shares s p)) nm 63, share_size := nbytes, isWritable := w,
      share_references := 1, share_ID := share_id_of p, framesStorage := q\<rparr>"
  let ?s' = "s3\<lparr>frames_storages := (frames_storages s)(q := replicate n None), shares := (shares s)(p := ?sh)\<rparr>"
  have af: "AllocFramesStorage da (pages_of nbytes) s2 = Some (q, s3\<lparr>frames_storages := (frames_storages s)(q := replicate n None)\<rparr>)"
    using ok2(1) pos m2 s3(2,5) s1(7) n(1) by (simp add: AllocFramesStorage_def s2_def)
  have "alloc_share da owner nm nbytes w s = Some (p, ?s')"
    using ok(1) m1 s1(2,6) s3(2,4) af by (simp add: alloc_share_def s2_def Let_def)
  moreover have "block_step 2 P T U s ?s'"
    using block_step_trans [OF st2 s3(3)] by (simp add: block_step_shares numeral_2_eq_2)
  ultimately show ?thesis
    using s1(2,3) by (intro exI [of _ p] exI [of _ q] exI [of _ ?sh] exI [of _ ?s'] exI [of _ s3]) simp
qed

text \<open>The creation of an object, up to the state it leaves.\<close>

lemma block_step_slot:
  assumes "block_step m P T U s s'" "page_slot d v s = Some x" "d \<in> P" "fst x \<in> T" "set (free_frame_list s) \<subseteq> U" "T \<inter> U = {}"
  shows "page_slot d v s' = Some x"
proof -
  from assms(1) obtain taken where "free_frame_list s = taken @ free_frame_list s'"
    "\<forall>g. g \<notin> set taken \<longrightarrow> frames_info s' g = frames_info s g" by (auto simp: block_step_def)
  moreover from this assms(4-6) have "fst x \<notin> set taken" by auto
  ultimately show ?thesis
    using page_slot_cong [of d v s "fst x" "snd x" s'] assms(1-3) by (simp add: block_step_def)
qed

lemma block_step_new_slots:
  assumes "block_step m P T U s s'" "new_slots d v n sl T s" "d \<in> P" "fst ` sl ` {..<n} \<subseteq> P" "set (free_frame_list s) \<subseteq> U" "T \<inter> U = {}"
  shows "new_slots d v n sl T s'"
  unfolding new_slots_def
proof (intro conjI allI impI)
  fix i assume i: "i < n"
  note d = new_slotsD [OF assms(2) i]
  show "page_slot d (page_at v i) s' = Some (sl i)"
    using block_step_slot [OF assms(1) d(1) assms(3) _ assms(5,6)] d(2) by simp
  have "fst (sl i) \<in> P" using assms(4) i by auto
  then show "\<not> bit (phys s' (fst (sl i)) (snd (sl i))) 0" using assms(1) d(3) by (simp add: block_step_def entry_def)
qed (use assms(2) in \<open>simp_all add: new_slots_def\<close>)

lemma create_ok:
  assumes ok: "can_share s" "refs_ok T U s" and da: "block_laws da room live P T U" "2 \<le> room s" "set (shares_list s) \<subseteq> live s"
    and n: "n = unat (pages_of nbytes)" "0 < n" "n \<le> 512"
    and new: "search_share owner nm (shares_list s) (shares s) = Some 0"
    and cur: "cpu_proc s = Some e" "env_dir e s = Some dir"
    and sl: "new_slots dir va n sl T s" "dir \<in> P" "fst ` sl ` {..<n} \<subseteq> P"
    and fr: "n + 2 \<le> length (free_frame_list s)" "\<forall>f \<in> set (free_frame_list s). f \<in> U \<and> f < 2 ^ 20"
  shows "\<exists>s' sh p q fs taken. create_shared_object da owner nm nbytes w va s = Some (share_id_of p, s') \<and>
    p \<noteq> 0 \<and> p \<notin> set (shares_list s) \<and> free_frame_list s = taken @ fs @ free_frame_list s' \<and> length fs = n \<and>
    refs_ok T U s' \<and> (\<forall>i<n. maps (entry (sl i) s') (fs ! i)) \<and> (\<forall>f \<in> set fs. references (frames_info s' f) = 1) \<and>
    (\<forall>t \<in> P. \<forall>i. (t, i) \<notin> sl ` {..<n} \<longrightarrow> phys s' t i = phys s t i) \<and>
    (\<forall>g. g \<notin> set (taken @ fs) \<longrightarrow> frames_info s' g = frames_info s g) \<and>
    number_of_frames s' = number_of_frames s \<and> use_kheap s' \<and> envs s' = envs s \<and> cpu_ok s' \<and> locks_ok s' \<and>
    \<not> held SHARESLOCK s' \<and> shares s' = (shares s)(p := sh) \<and> shares_list s' = shares_list s @ [p] \<and>
    frames_storages s' q = map Some fs \<and> ownerID sh = owner \<and> share_name sh = strncpy (share_name (shares s p)) nm 63 \<and>
    share_size sh = nbytes \<and> isWritable sh = w \<and> share_references sh = 1 \<and> share_ID sh = share_id_of p \<and> framesStorage sh = q"
proof -
  note c = ok(1) [unfolded can_share_def]
  note L = block_lawsD [OF da(1)]
  let ?s1 = "entered SHARESLOCK s"
  have s1: "cpu_ok ?s1" "locks_ok ?s1" "held SHARESLOCK ?s1" "use_kheap ?s1" using c by simp_all
  have a: "acquire_kspinlock SHARESLOCK s = Some ?s1" using c by (simp add: acquire_kspinlock_eq)
  have f: "find_share owner nm ?s1 = Some (0, ?s1)" using find_share_held [OF s1(3,4), of owner nm 0] new by simp
  have room: "PAGE_SIZE \<le> KERNEL_HEAP_MAX - kheapPageAllocBreak ?s1" "2 \<le> room ?s1" "2 \<le> length (free_frame_list ?s1)" "refs_ok T U ?s1"
    using c da(2) fr(1) L(2) ok(2) by (simp_all add: refs_ok_def mappings_def)
  from alloc_share_ok [OF s1(4) room(1,4) s1(1,2) da(1) room(2,3) n, of owner nm w] obtain p q sh s2 s0 where
    al: "alloc_share da owner nm nbytes w ?s1 = Some (p, s2)" "p \<noteq> 0" "p \<notin> live ?s1" "block_step 2 P T U ?s1 s2"
      and s2: "s2 = s0\<lparr>frames_storages := (frames_storages ?s1)(q := replicate n None), shares := (shares ?s1)(p := sh)\<rparr>"
      and sh: "ownerID sh = owner" "share_name sh = strncpy (share_name (shares s p)) nm 63" "share_size sh = nbytes" "isWritable sh = w"
        "share_references sh = 1" "share_ID sh = share_id_of p" "framesStorage sh = q" by auto
  have p: "p \<notin> set (shares_list s)" using al(3) da(3) L(3) by auto
  from al(4) obtain taken where tk: "free_frame_list s = taken @ free_frame_list s2" "length taken \<le> 2"
      "\<forall>g. g \<notin> set taken \<longrightarrow> frames_info s2 g = frames_info s g"
    and b: "cpu_same ?s1 s2" "refs_ok T U s2" "number_of_frames s2 = number_of_frames s" "use_kheap s2" "shares_list s2 = shares_list s"
      "\<forall>t \<in> P. phys s2 t = phys s t" using s1(4) by (auto simp: block_step_def)
  let ?fs = "take n (free_frame_list s2)" and ?rest = "drop n (free_frame_list s2)"
  have fs: "free_frame_list s2 = ?fs @ ?rest" "length ?fs = n" "set ?fs \<subseteq> U" "\<forall>f \<in> set ?fs. f < 2 ^ 20"
    using tk(1,2) fr by (auto dest: in_set_takeD)
  have TU: "T \<inter> U = {}" "set (free_frame_list ?s1) \<subseteq> U" using ok(2) fr(2) by (auto simp: refs_ok_def)
  have "page_slot d v ?s1 = page_slot d v s" for d v
    by (simp add: page_slot_def get_page_table_def kheap_table_ptr_def STATIC_KERNEL_VIRTUAL_ADDRESS_def Let_def)
  then have "new_slots dir va n sl T ?s1" using sl(1) by (simp add: new_slots_def)
  then have ns: "new_slots dir va n sl T s2" by (rule block_step_new_slots [OF al(4) _ sl(2,3) TU(2,1)])
  have pre: "cpu_ok s2" "locks_ok s2" "q = framesStorage (shares s2 p)" "n \<le> length (frames_storages s2 q)"
    using cpu_same_ok(1,2) [OF b(1)] s1 sh(7) s2 by simp_all
  from create_pages [OF pre(1,2) b(2) ns fs pre(3,4)] obtain s3 where
    s3: "run_all (create_page p dir va) [0..<n] s2 = Some s3" "refs_ok T U s3" "only_at (sl ` {..<n}) (set ?fs) s2 s3"
      "\<forall>i<n. maps (entry (sl i) s3) (?fs ! i)" "\<forall>f \<in> set ?fs. references (frames_info s3 f) = 1" "free_frame_list s3 = ?rest"
      "shares s3 = shares s2" "shares_list s3 = shares_list s2"
      "frames_storages s3 = (frames_storages s2)(q := map Some ?fs @ drop n (frames_storages s2 q))" by blast
  let ?s4 = "s3\<lparr>shares_list := shares_list s @ [p]\<rparr>"
  have cs: "cpu_same ?s1 s3" using s3(3) cpu_same_trans [OF b(1), of s3] by (simp add: only_at_def)
  have h: "cpu_ok ?s4" "held SHARESLOCK ?s4" "0 < ncli ?s4" "locks_ok ?s4"
    using cs s1 c by (auto simp: cpu_same_def cpu_ok_def locks_ok_def held_def)
  have sh3: "shares s3 = (shares s)(p := sh)" "shares_list s3 = shares_list s" using s3(7,8) s2 b(5) by simp_all
  have envs: "envs s3 = envs s" "envs s2 = envs s" using cs b(1) by (simp_all add: cpu_same_def)
  have res: "create_shared_object da owner nm nbytes w va s = Some (share_id_of p, left SHARESLOCK ?s4)"
    using c a f al(1,2) s3(1) sh3 envs(2) cur n(1) p release_kspinlock_eq [OF h(1-3)] sh(6)
    by (simp add: create_shared_object_def insert_tail_l_def env_dir_def)
  have r: "refs_ok T U (left SHARESLOCK ?s4)" by (rule refs_ok_cong [OF s3(2)]) simp_all
  have fi: "frames_info s3 g = frames_info s g" if "g \<notin> set (taken @ ?fs)" for g
    using s3(3) tk(3) that by (simp add: only_at_def)
  have ph: "phys s3 t i = phys s t i" if "t \<in> P" "(t, i) \<notin> sl ` {..<n}" for t i
    using s3(3) b(6) that by (simp add: only_at_def)
  have st: "frames_storages s3 q = map Some ?fs" using s3(9) s2 by simp
  have free: "free_frame_list s = taken @ ?fs @ free_frame_list s3" using tk(1) s3(6) by simp
  have nf: "number_of_frames s3 = number_of_frames s" "use_kheap s3" using s3(3) b(3,4) by (simp_all add: only_at_def)
  show ?thesis
    using res r s3(4,5) h c sh fs(2) al(2) p fi ph st free nf sh3 envs
    by (intro exI [of _ "left SHARESLOCK ?s4"] exI [of _ sh] exI [of _ p] exI [of _ q] exI [of _ ?fs] exI [of _ taken])
      (simp add: entry_def)
qed

lemma get_ok:
  assumes ok: "cpu_ok s" "locks_ok s" "\<not> held SHARESLOCK s" "use_kheap s" "refs_ok T U s"
    and sh: "search_share owner nm (shares_list s) (shares s) = Some p" "p \<noteq> 0" "n = unat (pages_of (share_size (shares s p)))"
      "frames_storages s (framesStorage (shares s p)) = map Some fs"
    and cur: "cpu_proc s = Some e" "env_dir e s = Some dir"
    and sl: "new_slots dir va n sl T s"
    and fs: "length fs = n" "set fs \<subseteq> U" "distinct fs" "set fs \<inter> set (free_frame_list s) = {}"
      "\<forall>f \<in> set fs. f < 2 ^ 20 \<and> references (frames_info s f) = 1"
  shows "\<exists>s'. get_shared_object owner nm va s = Some (share_ID (shares s p), s') \<and> refs_ok T U s' \<and>
    (\<forall>i<n. maps (entry (sl i) s') (fs ! i) \<and> (bit (entry (sl i) s') 1 \<longleftrightarrow> isWritable (shares s p) \<noteq> 0)) \<and>
    (\<forall>f \<in> set fs. references (frames_info s' f) = 2) \<and> (\<forall>t i. (t, i) \<notin> sl ` {..<n} \<longrightarrow> phys s' t i = phys s t i) \<and>
    (\<forall>g. g \<notin> set fs \<longrightarrow> frames_info s' g = frames_info s g) \<and> number_of_frames s' = number_of_frames s \<and> use_kheap s' \<and>
    share_references (shares s' p) = share_references (shares s p) + 1"
proof -
  let ?s1 = "entered SHARESLOCK s"
  have s1: "cpu_ok ?s1" "locks_ok ?s1" "held SHARESLOCK ?s1" "use_kheap ?s1" using ok by simp_all
  have a: "acquire_kspinlock SHARESLOCK s = Some ?s1" using ok by (simp add: acquire_kspinlock_eq)
  have f: "find_share owner nm ?s1 = Some (p, ?s1)" using find_share_held [OF s1(3,4), of owner nm p] sh(1) by simp
  have ps: "page_slot d v ?s1 = page_slot d v s" for d v
    by (simp add: page_slot_def get_page_table_def kheap_table_ptr_def STATIC_KERNEL_VIRTUAL_ADDRESS_def Let_def)
  have pre: "refs_ok T U ?s1" "new_slots dir va n sl T ?s1" "set fs \<inter> set (free_frame_list ?s1) = {}"
      "\<forall>f \<in> set fs. f < 2 ^ 20 \<and> references (frames_info ?s1 f) = 1"
      "frames_storages ?s1 (framesStorage (shares ?s1 p)) = map Some (fs @ [])"
    using ok(5) sl fs(4,5) sh(4) ps by (simp_all add: refs_ok_def mappings_def new_slots_def)
  from get_pages [OF s1(1,2) pre(1,2) fs(1-3) pre(3-5)] obtain s2 where
    s2: "run_all (get_page_of_share p dir va) [0..<n] ?s1 = Some s2" "refs_ok T U s2" "only_at (sl ` {..<n}) (set fs) ?s1 s2"
      "\<forall>i<n. maps (entry (sl i) s2) (fs ! i) \<and> (bit (entry (sl i) s2) 1 \<longleftrightarrow> isWritable (shares ?s1 p) \<noteq> 0)"
      "\<forall>f \<in> set fs. references (frames_info s2 f) = 2" "mem_static ?s1 s2" by blast
  note sf = share_fields_static [OF s2(6)]
  let ?s3 = "s2\<lparr>shares := (shares s2)(p := (shares s2 p)\<lparr>share_references := share_references (shares s2 p) + 1\<rparr>)\<rparr>"
  have cs: "cpu_same ?s1 s2" using s2(3) by (simp add: only_at_def)
  have h: "cpu_ok ?s3" "held SHARESLOCK ?s3" "0 < ncli ?s3"
    using cs s1 ok(1) by (auto simp: cpu_same_def cpu_ok_def held_def)
  have "get_shared_object owner nm va s = Some (share_ID (shares s p), left SHARESLOCK ?s3)"
    using ok(4) a f s2(1) sf cur sh(2,3) release_kspinlock_eq [OF h]
    by (simp add: get_shared_object_def env_dir_def)
  moreover have "refs_ok T U (left SHARESLOCK ?s3)" by (rule refs_ok_cong [OF s2(2)]) simp_all
  ultimately show ?thesis
    using s2 ok(4) sf by (intro exI [of _ "left SHARESLOCK ?s3"]) (simp add: only_at_def entry_def)
qed

text \<open>The slots of other pages survive the mapping of \<open>n\<close> pages.\<close>

definition mapped_at :: "frame set \<Rightarrow> (nat \<Rightarrow> frame \<times> u32) \<Rightarrow> nat \<Rightarrow> frame set \<Rightarrow> 'z mem_state_scheme \<Rightarrow> 'z mem_state_scheme \<Rightarrow> bool" where
  "mapped_at P sl n F s s' \<longleftrightarrow> (\<forall>t \<in> P. \<forall>i. (t, i) \<notin> sl ` {..<n} \<longrightarrow> phys s' t i = phys s t i) \<and>
     (\<forall>g. g \<notin> F \<longrightarrow> frames_info s' g = frames_info s g) \<and> number_of_frames s' = number_of_frames s \<and> use_kheap s' = use_kheap s"

lemma slot_kept:
  assumes "mapped_at P sl n F s s'" "\<forall>i<n. fst (sl i) \<in> T" "F \<inter> T = {}" "d \<in> P" "page_slot d v s = Some x" "fst x \<in> T" "d \<notin> T"
  shows "page_slot d v s' = Some x"
proof -
  have "(d, j) \<notin> sl ` {..<n}" for j using assms(2,7) by (metis (no_types, lifting) fst_conv imageE lessThan_iff)
  then have "phys s' d = phys s d" using assms(1,4) by (auto simp: mapped_at_def)
  moreover have "fst x \<notin> F" using assms(3,6) by blast
  ultimately show ?thesis using page_slot_cong [of d v s "fst x" "snd x" s'] assms(1,5) by (simp add: mapped_at_def)
qed

lemma new_slots_kept:
  assumes "mapped_at P sl n F s s'" "\<forall>i<n. fst (sl i) \<in> T" "F \<inter> T = {}" "d \<in> P" "new_slots d va m sl' T s"
    "sl ` {..<n} \<inter> sl' ` {..<m} = {}" "fst ` sl' ` {..<m} \<subseteq> P"
  shows "new_slots d va m sl' T s'"
  unfolding new_slots_def
proof (intro conjI allI impI)
  fix i assume i: "i < m"
  note d = new_slotsD [OF assms(5) i]
  show "page_slot d (page_at va i) s' = Some (sl' i)"
    using slot_kept [OF assms(1-4)] d(1,2) assms(5) by (simp add: new_slots_def)
  have "(fst (sl' i), snd (sl' i)) \<notin> sl ` {..<n}" "fst (sl' i) \<in> P" using assms(6,7) i by auto
  then show "\<not> bit (phys s' (fst (sl' i)) (snd (sl' i))) 0" using assms(1) d(3) by (simp only: mapped_at_def entry_def) simp
qed (use assms(5) in \<open>simp_all add: new_slots_def\<close>)


text \<open>
  The example: the directories 50 of process 2 and 70 of process 3 with the empty tables 51 and 71, and the free
  frames 54 and 55.  The object has 5000 bytes.
\<close>

definition null_share :: Share where
  "null_share = \<lparr>share_ID = 0, ownerID = 0, share_name = replicate 64 NUL, share_size = 0, share_references = 0, isWritable = 0,
     framesStorage = 0\<rparr>"

definition share_ex :: share_state where
  "share_ex = vm_state.extend (vm_ex\<lparr>cpu_proc := Some 2, free_frame_list := [54, 55],
       phys := (\<lambda>f i. if f = 50 \<and> i = 0 then 0x33001 else if f = 70 \<and> i = 0 then 0x47001 else 0),
       envs := (envs vm_ex)(3 := (env_ex 3 1 ENV_READY)\<lparr>env_page_directory := Some 70\<rparr>)\<rparr>)
     (share_state.fields (\<lambda>_. null_share) (\<lambda>_. []) [])"

definition da_share :: "'s dynalloc" where
  "da_share = \<lparr>alloc_block = (\<lambda>k s. Some (if k = SIZEOF_SHARE then 0xF6000020 else 0xF6000100, s)), free_block = (\<lambda>_ s. Some ((), s)),
     get_block_size = (\<lambda>_ _. None), realloc_block = (\<lambda>_ _ _. None), memcpy = (\<lambda>_ _ _ _. None)\<rparr>"

lemma share_ex_sel [simp]:
  "cpu_proc share_ex = Some 2" "free_frame_list share_ex = [54, 55]" "use_kheap share_ex = True" "number_of_frames share_ex = 100"
  "phys share_ex = (\<lambda>f i. if f = 50 \<and> i = 0 then 0x33001 else if f = 70 \<and> i = 0 then 0x47001 else 0)"
  "frames_info share_ex = (\<lambda>_. null_frame_info\<lparr>kheap_mapped_va := 0xF8000000\<rparr>)" "kheapPageAllocBreak share_ex = 0xF8001000"
  "shares share_ex = (\<lambda>_. null_share)" "shares_list share_ex = []" "klocks share_ex = (\<lambda>_. free_lock)" "ncli share_ex = 0"
  "env_page_directory (envs share_ex 2) = Some 50" "env_page_directory (envs share_ex 3) = Some 70"
  by (simp_all add: share_ex_def vm_state.defs share_state.defs)
    (simp_all add: vm_ex_def disk_state.defs env_ex_def)

lemma share_ex_addr: "PDX 0x3000 = 0" "PTX 0x3000 = 3" "PDX 0x4000 = 0" "PTX 0x4000 = 4" "EXTRACT_ADDRESS 0x33001 = 0x33000"
  "EXTRACT_ADDRESS 0x47001 = 0x47000" "unat (0x33000 div PAGE_SIZE) = 51" "unat (0x47000 div PAGE_SIZE) = 71"
  by (simp_all add: PDX_def PTX_def EXTRACT_ADDRESS_def drop_bit_eq_div PAGE_SIZE_def)

lemma share_ex_slot:
  "page_slot 50 0x1000 share_ex = Some (51, 1)" "page_slot 50 0x2000 share_ex = Some (51, 2)"
  "page_slot 70 0x3000 share_ex = Some (71, 3)" "page_slot 70 0x4000 share_ex = Some (71, 4)"
  by (simp_all add: page_slot_def get_page_table_def disk_ex_fields share_ex_addr Let_def PERM_PRESENT_def
      kheap_table_ptr_def CHECK_IF_KERNEL_ADDRESS_def USER_TOP_def)

lemma share_ex_ok: "can_share share_ex" "refs_ok {51, 71} {54, 55} share_ex"
proof -
  show "can_share share_ex"
    by (simp add: can_share_def cpu_ok_def locks_ok_def held_def free_lock_def fos_consts)
  have "mappings {51, 71} f share_ex = {}" for f by (auto simp: mappings_def maps_def PERM_PRESENT_def)
  then show "refs_ok {51, 71} {54, 55} share_ex"
    by (simp add: refs_ok_def pte_ok_def maps_def PERM_PRESENT_def null_frame_info_def EXTRACT_ADDRESS_def)
qed

text \<open>
  A block allocator that keeps the laws: the state has the number of blocks given out, and the blocks are 512 bytes
  apart; it has 100 of them.
\<close>

record block_state = share_state +
  given :: nat

definition block_no :: "nat \<Rightarrow> u32" where
  "block_no i = 0xF6000020 + of_nat i * 0x200"

definition da_blocks :: "block_state dynalloc" where
  "da_blocks = \<lparr>alloc_block = (\<lambda>k s. Some (if given s < 100 then (block_no (given s), s\<lparr>given := given s + 1\<rparr>) else (0, s))),
     free_block = (\<lambda>_ s. Some ((), s)), get_block_size = (\<lambda>_ _. None), realloc_block = (\<lambda>_ _ _. None), memcpy = (\<lambda>_ _ _ _. None)\<rparr>"

lemma unat_block_no: "i < 100 \<Longrightarrow> unat (block_no i) = 0xF6000020 + 512 * i"
  by (simp add: block_no_def unat_word_ariths unat_of_nat_u32)

lemma da_blocks_laws: "block_laws da_blocks (\<lambda>s. 100 - given s) (\<lambda>s. block_no ` {..<given s}) P T U"
proof -
  have fresh: "block_no g \<notin> block_no ` {..<g}" "block_no g \<noteq> 0" if "g < 100" for g
  proof -
    show "block_no g \<notin> block_no ` {..<g}"
    proof
      assume "block_no g \<in> block_no ` {..<g}"
      then obtain i where "i < g" "unat (block_no g) = unat (block_no i)" by auto
      then show False using unat_block_no [of g] unat_block_no [of i] that by simp
    qed
    show "block_no g \<noteq> 0" using unat_block_no [OF that] by (auto simp: unat_eq_zero)
  qed
  have st: "block_step 1 P T U s (s\<lparr>given := g\<rparr>)" if "refs_ok T U s" for s :: block_state and g
    using that by (simp add: block_step_def cpu_same_def refs_ok_def mappings_def)
  show ?thesis
    unfolding block_laws_def
  proof (intro conjI allI impI)
    fix k :: u32 and s :: block_state
    assume "0 < k \<and> k \<le> DYN_ALLOC_MAX_BLOCK_SIZE \<and> 0 < 100 - given s \<and> free_frame_list s \<noteq> [] \<and> refs_ok T U s \<and> cpu_ok s \<and> locks_ok s"
    then have g: "given s < 100" "refs_ok T U s" by auto
    show "\<exists>b s'. alloc_block da_blocks k s = Some (b, s') \<and> b \<noteq> 0 \<and> b \<notin> block_no ` {..<given s} \<and>
        block_no ` {..<given s'} = insert b (block_no ` {..<given s}) \<and> 100 - given s' = 100 - given s - 1 \<and>
        block_step 1 P T U s s' \<and> shares s' = shares s \<and> frames_storages s' = frames_storages s"
      using g fresh [OF g(1)] st [OF g(2), of "given s + 1"]
      by (intro exI [of _ "block_no (given s)"] exI [of _ "s\<lparr>given := given s + 1\<rparr>"])
        (simp add: da_blocks_def lessThan_Suc)
  qed (simp_all add: entered_def pushcli_def cli_def Let_def)
qed

definition block_ex :: block_state where
  "block_ex = share_state.extend (share_ex\<lparr>free_frame_list := [54, 55, 56, 57]\<rparr>) (block_state.fields 0)"

lemma block_ex_sel [simp]:
  "cpu_proc block_ex = Some 2" "free_frame_list block_ex = [54, 55, 56, 57]" "use_kheap block_ex = True" "number_of_frames block_ex = 100"
  "phys block_ex = (\<lambda>f i. if f = 50 \<and> i = 0 then 0x33001 else if f = 70 \<and> i = 0 then 0x47001 else 0)"
  "frames_info block_ex = (\<lambda>_. null_frame_info\<lparr>kheap_mapped_va := 0xF8000000\<rparr>)" "kheapPageAllocBreak block_ex = 0xF8001000"
  "shares block_ex = (\<lambda>_. null_share)" "shares_list block_ex = []" "klocks block_ex = (\<lambda>_. free_lock)" "ncli block_ex = 0"
  "env_page_directory (envs block_ex 2) = Some 50" "env_page_directory (envs block_ex 3) = Some 70" "given block_ex = 0"
  by (simp_all add: block_ex_def share_state.defs block_state.defs)

lemma block_ex_slot:
  "page_slot 50 0x1000 block_ex = Some (51, 1)" "page_slot 50 0x2000 block_ex = Some (51, 2)"
  "page_slot 70 0x3000 block_ex = Some (71, 3)" "page_slot 70 0x4000 block_ex = Some (71, 4)"
  by (simp_all add: page_slot_def get_page_table_def disk_ex_fields share_ex_addr Let_def PERM_PRESENT_def
      kheap_table_ptr_def CHECK_IF_KERNEL_ADDRESS_def USER_TOP_def)

lemma block_ex_ok:
  "can_share block_ex" "refs_ok {51, 71} {54, 55, 56, 57} block_ex"
  "new_slots 50 0x1000 2 (\<lambda>i. (51, of_nat i + 1)) {51, 71} block_ex" "new_slots 70 0x3000 2 (\<lambda>i. (71, of_nat i + 3)) {51, 71} block_ex"
proof -
  have "cpu_ok block_ex"
    by (simp add: cpu_ok_def)
  then show "can_share block_ex"
    by (simp add: can_share_def locks_ok_def held_def free_lock_def fos_consts)
  have "mappings {51, 71} f block_ex = {}" for f by (auto simp: mappings_def maps_def PERM_PRESENT_def)
  then show "refs_ok {51, 71} {54, 55, 56, 57} block_ex"
    by (simp add: refs_ok_def pte_ok_def maps_def PERM_PRESENT_def null_frame_info_def EXTRACT_ADDRESS_def)
  have two: "(\<forall>i<(2 :: nat). P i) \<longleftrightarrow> P 0 \<and> P 1" for P by (auto simp: less_2_cases_iff)
  have lt: "{..<(2 :: nat)} = {0, 1}" by auto
  show "new_slots 50 0x1000 2 (\<lambda>i. (51, of_nat i + 1)) {51, 71} block_ex" "new_slots 70 0x3000 2 (\<lambda>i. (71, of_nat i + 3)) {51, 71} block_ex"
    unfolding new_slots_def two lt by (simp_all add: page_at_def PAGE_SIZE_def block_ex_slot)
qed


section \<open>Freeing an object\<close>

lemma free_frames_full: "free_frames (map Some fs) s = None"
proof (induction fs arbitrary: s)
  case (Cons f fs)
  then show ?case by (cases "free_frame f s") auto
qed simp

text \<open>
  \<open>free_share\<close> cannot free an object that \<open>create_shared_object\<close> made.  Its loop looks for a null pointer
  after the frames, but the array has one element for each page and all are frames, so the loop reads past the end
  of the array.
\<close>

theorem free_share_reads_past_array:
  assumes "frames_storages s (framesStorage (shares s p)) = map Some fs" "share_references (shares s p) = 1" "can_share s"
    "p \<in> set (shares_list s)"
  shows "free_share da p s = None"
proof -
  note c = assms(3) [unfolded can_share_def]
  let ?s1 = "(entered SHARESLOCK s)\<lparr>shares_list := remove1 p (shares_list s)\<rparr>"
  have h: "cpu_ok ?s1" "held SHARESLOCK ?s1" "0 < ncli ?s1" using c by (auto simp: cpu_ok_def held_def taken_lock_def)
  have r: "release_kspinlock SHARESLOCK ?s1 = Some (left SHARESLOCK ?s1)" by (rule release_kspinlock_eq [OF h])
  have a: "acquire_kspinlock SHARESLOCK s = Some (entered SHARESLOCK s)" using c by (simp add: acquire_kspinlock_eq)
  show ?thesis using assms c a r by (simp add: free_share_def remove_l_def free_frames_full)
qed

section \<open>The user heap\<close>

lemma page_at_Suc: "page_at va (Suc k) = page_at va k + PAGE_SIZE"
  by (simp add: page_at_def ring_distribs)

lemma unat_page_at: "unat va + 4096 * k < 2 ^ 32 \<Longrightarrow> unat (page_at va k) = unat va + 4096 * k"
  by (simp add: page_at_def PAGE_SIZE_def unat_word_ariths unat_of_nat_u32)

text \<open>The loop in 32-bit arithmetic visits the pages of the range in order, when the range ends below the top of memory.\<close>

lemma each_page_run:
  assumes "unat va + 4096 * n < 2 ^ 32" "k \<le> n" "n - k \<le> fuel"
  shows "each_page fuel f (page_at va k) (page_at va n) s = run_all (\<lambda>i. f (page_at va i)) [k..<n] s"
  using assms(2,3)
proof (induction fuel arbitrary: k s)
  case 0
  then show ?case by (simp add: each_page.simps)
next
  case (Suc m)
  have u: "unat (page_at va k) = unat va + 4096 * k" "unat (page_at va n) = unat va + 4096 * n"
    using assms(1) Suc.prems(1) by (auto intro!: unat_page_at)
  show ?case
  proof (cases "k < n")
    case True
    then have lt: "page_at va k < page_at va n" using u by (simp add: word_less_nat_alt)
    have "each_page m f (page_at va (Suc k)) (page_at va n) = run_all (\<lambda>i. f (page_at va i)) [Suc k..<n]"
      using Suc.IH [of "Suc k"] True Suc.prems by (intro ext) simp
    then show ?thesis using True lt by (subst each_page.simps) (simp add: page_at_Suc upt_conv_Cons)
  next
    case False
    then show ?thesis using Suc.prems(1) by (simp add: each_page.simps)
  qed
qed

text \<open>Setting and clearing permissions of pages with different entries.\<close>

definition heap_slots :: "frame \<Rightarrow> u32 \<Rightarrow> nat \<Rightarrow> (nat \<Rightarrow> frame \<times> u32) \<Rightarrow> 'z mem_state_scheme \<Rightarrow> bool" where
  "heap_slots dir va n sl s \<longleftrightarrow> inj_on sl {..<n} \<and> (\<forall>i<n. page_slot dir (page_at va i) s = Some (sl i) \<and> fst (sl i) \<noteq> dir)"

lemma set_permissions_slot:
  assumes "page_slot dir va s = Some x"
  shows "\<exists>s'. pt_set_page_permissions dir va a b s = Some ((), s') \<and> entry x s' = (entry x s OR a) AND NOT b \<and>
    (\<forall>y. y \<noteq> x \<longrightarrow> entry y s' = entry y s) \<and> mem_static s s' \<and> frames_info s' = frames_info s \<and> cpu_same s s' \<and>
    free_frame_list s' = free_frame_list s"
proof -
  obtain t i where x: "x = (t, i)" by (cases x)
  from page_slotD [OF assms [unfolded x]] have g: "get_page_table dir va s = Some (TABLE_IN_MEMORY, Some t)" "i = PTX va" by auto
  then show ?thesis by (auto simp: pt_set_page_permissions_def Let_def entry_def x)
qed

lemma slot_same:
  assumes "page_slot dir va s = Some x" "fst x \<noteq> dir" "\<forall>y. fst y = dir \<longrightarrow> entry y s' = entry y s" "mem_static s s'" "frames_info s' = frames_info s"
  shows "page_slot dir va s' = Some x"
proof -
  have "phys s' dir = phys s dir" using assms(3) by (auto simp: entry_def)
  then show ?thesis using page_slot_cong [of dir va s "fst x" "snd x" s'] assms(1,4,5) by (simp add: mem_static_def)
qed

text \<open>From \<open>s\<close> to \<open>s'\<close> the entries in \<open>D\<close> were changed by \<open>g\<close>, and nothing else but translations in the TLB.\<close>

definition entries_by :: "(u32 \<Rightarrow> u32) \<Rightarrow> (frame \<times> u32) set \<Rightarrow> 'z mem_state_scheme \<Rightarrow> 'z mem_state_scheme \<Rightarrow> bool" where
  "entries_by g D s s' \<longleftrightarrow> (\<forall>x. entry x s' = (if x \<in> D then g (entry x s) else entry x s)) \<and> mem_static s s' \<and>
     frames_info s' = frames_info s \<and> cpu_same s s' \<and> free_frame_list s' = free_frame_list s"

lemma entries_byD: "entries_by g D s s' \<Longrightarrow> entry x s' = (if x \<in> D then g (entry x s) else entry x s)"
  unfolding entries_by_def by blast

lemma entries_by_refl: "entries_by g {} s s"
  by (simp add: entries_by_def)

lemma entries_by_trans: "entries_by g D s s1 \<Longrightarrow> entries_by g {x} s1 s2 \<Longrightarrow> x \<notin> D \<Longrightarrow> entries_by g (insert x D) s s2"
  by (auto simp: entries_by_def intro: mem_static_trans cpu_same_trans)

lemma entries_by_slot:
  assumes "page_slot dir va s = Some x" "fst x \<noteq> dir" "entries_by g D s s'" "\<forall>y \<in> D. fst y \<noteq> dir"
  shows "page_slot dir va s' = Some x"
  using assms by (intro slot_same [OF assms(1,2)]) (auto simp: entries_by_def)

lemma set_permissions_by:
  "page_slot dir va s = Some x \<Longrightarrow>
   \<exists>s'. pt_set_page_permissions dir va a b s = Some ((), s') \<and> entries_by (\<lambda>v. (v OR a) AND NOT b) {x} s s'"
  using set_permissions_slot [of dir va s x a b] by (auto simp: entries_by_def)

lemma run_slots:
  assumes "heap_slots dir va n sl s"
    and step: "\<And>i s'. i < n \<Longrightarrow> entries_by g (sl ` {..<i}) s s' \<Longrightarrow> page_slot dir (page_at va i) s' = Some (sl i) \<Longrightarrow>
      \<exists>s''. f (page_at va i) s' = Some s'' \<and> entries_by g {sl i} s' s''"
  shows "\<exists>s'. run_all (\<lambda>i. f (page_at va i)) [0..<n] s = Some s' \<and> entries_by g (sl ` {..<n}) s s'"
  using assms(1) step
proof (induction n)
  case 0
  then show ?case by (simp add: entries_by_refl)
next
  case (Suc n)
  have h: "heap_slots dir va n sl s" "sl n \<notin> sl ` {..<n}" "\<forall>y \<in> sl ` {..<n}. fst y \<noteq> dir"
    "page_slot dir (page_at va n) s = Some (sl n)" "fst (sl n) \<noteq> dir"
    using Suc.prems(1) by (auto simp: heap_slots_def inj_on_def lessThan_Suc)
  from Suc.IH [OF h(1)] Suc.prems(2) obtain s1 where
    s1: "run_all (\<lambda>i. f (page_at va i)) [0..<n] s = Some s1" "entries_by g (sl ` {..<n}) s s1" by auto
  from Suc.prems(2) [OF lessI s1(2) entries_by_slot [OF h(4,5) s1(2) h(3)]] obtain s2 where
    s2: "f (page_at va n) s1 = Some s2" "entries_by g {sl n} s1 s2" by blast
  from entries_by_trans [OF s1(2) s2(2) h(2)] s1(1) s2(1) show ?case by (auto simp: run_all_append lessThan_Suc)
qed

lemma heap_slots_by:
  assumes "heap_slots dir va n sl s" "entries_by g (sl ` {..<n}) s s'"
  shows "heap_slots dir va n sl s'"
  using assms entries_by_slot [OF _ _ assms(2)] by (auto simp: heap_slots_def)

lemma has_perm_bits:
  assumes "p AND 0xFFF = p"
  shows "has_perm (uint (x AND 0xFFF :: u32)) p \<longleftrightarrow> x AND p \<noteq> 0"
proof -
  have "(x AND 0xFFF) AND p = x AND (p AND 0xFFF)" by (simp only: and.assoc and.commute and.left_commute)
  then have "(x AND 0xFFF) AND p = x AND p" using assms by simp
  then show ?thesis by (simp add: has_perm_def)
qed

lemma slot_permissions:
  assumes "page_slot dir va s = Some x"
  shows "pt_get_page_permissions dir va s = Some (uint (entry x s AND 0xFFF))"
proof -
  obtain t i where x: "x = (t, i)" by (cases x)
  from page_slotD [OF assms [unfolded x]] show ?thesis by (simp add: pt_get_page_permissions_def entry_def x Let_def)
qed

lemma heap_marks:
  fixes v :: u32
  shows "((v OR PERM_UHPAGE) AND NOT PERM_PRESENT) AND PERM_UHPAGE \<noteq> 0" "((v OR a) AND NOT PERM_PRESENT) AND PERM_PRESENT = 0"
    "(v AND NOT PERM_UHPAGE) AND PERM_UHPAGE = 0"
proof -
  have "bit (((v OR PERM_UHPAGE) AND NOT PERM_PRESENT) AND PERM_UHPAGE) 10"
    by (simp add: bit_simps PERM_UHPAGE_def PERM_PRESENT_def)
  then show "((v OR PERM_UHPAGE) AND NOT PERM_PRESENT) AND PERM_UHPAGE \<noteq> 0" by (metis bit_0_eq bot_apply bot_bool_def)
qed (simp_all add: and.assoc)

lemma mark_page_by:
  "page_slot dir c s = Some x \<Longrightarrow> \<exists>s'. mark_user_page dir c s = Some s' \<and> entries_by (\<lambda>v. (v OR PERM_UHPAGE) AND NOT PERM_PRESENT) {x} s s'"
  using set_permissions_by [of dir c s x PERM_UHPAGE PERM_PRESENT] page_slotD [of dir c s "fst x" "snd x"]
  by (auto simp: mark_user_page_def)

text \<open>A page that was never brought in: not in the page file and not in the working set.\<close>

definition untouched :: "env_ptr \<Rightarrow> u32 \<Rightarrow> 'z share_state_scheme \<Rightarrow> bool" where
  "untouched e c s \<longleftrightarrow> use_kheap s \<and> disk_env_pgdir (envs s e) = None \<and> PageRepAlgoType s \<noteq> PG_REP_LRU_LISTS_APPROX \<and>
     find_ws c (page_WS_list (envs s e)) s = None"

lemma vm_fields_static:
  assumes "mem_static s s'"
  shows "ws_elems s' = ws_elems s" "PageRepAlgoType s' = PageRepAlgoType s"
  using assms by (cases s; cases s'; simp add: mem_static_def)+

lemma untouched_by: "untouched e c s \<Longrightarrow> entries_by g D s s' \<Longrightarrow> untouched e c s'"
  using vm_fields_static [of s s'] by (auto simp: untouched_def entries_by_def find_ws_def cpu_same_def mem_static_def)

lemma release_page_by:
  assumes "page_slot dir c s = Some x" "untouched e c s"
  shows "\<exists>s'. release_user_page da ide e dir c s = Some s' \<and> entries_by (\<lambda>v. (v OR 0) AND NOT PERM_UHPAGE) {x} s s'"
proof -
  from set_permissions_by [OF assms(1), of 0 PERM_UHPAGE] obtain s1 where
    s1: "pt_set_page_permissions dir c 0 PERM_UHPAGE s = Some ((), s1)" "entries_by (\<lambda>v. (v OR 0) AND NOT PERM_UHPAGE) {x} s s1"
    by blast
  have "untouched e c s1" by (rule untouched_by [OF assms(2) s1(2)])
  then show ?thesis using s1
    by (auto simp: release_user_page_def untouched_def pf_read_env_page_def env_page_ws_invalidate_def invalidate_list_def
        E_PAGE_NOT_EXIST_IN_PF_def)
qed

lemma user_heap_page:
  assumes "USER_HEAP_START \<le> va" "unat va + 4096 * n \<le> unat USER_HEAP_MAX" "i < n"
  shows "USER_HEAP_START \<le> page_at va i" "page_at va i < USER_HEAP_MAX" "page_at va i < USTACKTOP"
proof -
  have u: "unat USER_HEAP_MAX = 0xA0000000" by (simp add: USER_HEAP_MAX_def)
  then have "unat (page_at va i) = unat va + 4096 * i" using assms by (intro unat_page_at) simp
  then show "USER_HEAP_START \<le> page_at va i" "page_at va i < USER_HEAP_MAX" "page_at va i < USTACKTOP"
    using assms u by (simp_all add: word_le_nat_alt word_less_nat_alt) (simp add: fos_consts)
qed


theorem free_share_reads_past_array_witness:
  "free_share da_share 0xF6000020 (share_ex\<lparr>shares_list := [0xF6000020], shares := (\<lambda>_. null_share\<lparr>share_references := 1\<rparr>),
     frames_storages := (\<lambda>_. [Some 54])\<rparr>) = None"
  using free_share_reads_past_array
    [of "share_ex\<lparr>shares_list := [0xF6000020], shares := (\<lambda>_. null_share\<lparr>share_references := 1\<rparr>), frames_storages := (\<lambda>_. [Some 54])\<rparr>"
      "0xF6000020" "[54]" da_share] share_ex_ok(1)
  by (simp add: can_share_def cpu_ok_def locks_ok_def held_def)

text \<open>A heap page of process 2 whose table is 51.\<close>

definition heap_ex :: share_state where
  "heap_ex = share_ex\<lparr>phys := (\<lambda>f i. if f = 50 \<and> i = 0x200 then 0x33001 else 0),
     envs := (envs share_ex)(2 := (envs share_ex 2)\<lparr>page_WS_list := [], disk_env_pgdir := None\<rparr>)\<rparr>"


end
