(* ===== verification/FOS_HeapFree.thy ===== *)
theory FOS_HeapFree
  imports FOS_ShareThms
begin

unbundle bit_operations_syntax

text \<open>
  \<open>free_user_mem\<close> of a page that is in memory: it leaves the page file, the working set and the page table, and
  its disk frame and its frame are free again.
\<close>

section \<open>The bits that releasing a page changes\<close>

lemma EXTRACT_ADDRESS_clear: "EXTRACT_ADDRESS b = 0 \<Longrightarrow> EXTRACT_ADDRESS (a AND NOT b) = EXTRACT_ADDRESS a"
  by (auto simp: EXTRACT_ADDRESS_def bit_eq_iff bit_simps)

definition same_map :: "u32 \<Rightarrow> u32 \<Rightarrow> bool" where
  "same_map v v' \<longleftrightarrow> bit v' 0 = bit v 0 \<and> bit v' 9 = bit v 9 \<and> EXTRACT_ADDRESS v' = EXTRACT_ADDRESS v"

lemma same_map_trans: "same_map a b \<Longrightarrow> same_map b c \<Longrightarrow> same_map a c"
  by (simp add: same_map_def)

lemma same_map_clear: "\<not> bit b 0 \<Longrightarrow> \<not> bit b 9 \<Longrightarrow> EXTRACT_ADDRESS b = 0 \<Longrightarrow> same_map v (v AND NOT b)"
  by (simp add: same_map_def EXTRACT_ADDRESS_clear bit_simps)

lemma same_map_set: "\<not> bit b 0 \<Longrightarrow> \<not> bit b 9 \<Longrightarrow> EXTRACT_ADDRESS b = 0 \<Longrightarrow> same_map v (v OR b)"
  by (simp add: same_map_def EXTRACT_ADDRESS_or bit_simps)

lemma flag_bits:
  "\<not> bit PERM_UHPAGE 0" "\<not> bit PERM_UHPAGE 9" "EXTRACT_ADDRESS PERM_UHPAGE = 0"
  "\<not> bit PERM_USED 0" "\<not> bit PERM_USED 9" "EXTRACT_ADDRESS PERM_USED = 0"
  "\<not> bit PERM_MODIFIED 0" "\<not> bit PERM_MODIFIED 9" "EXTRACT_ADDRESS PERM_MODIFIED = 0"
  by (simp_all add: EXTRACT_ADDRESS_def fos_consts)

lemma same_map_PPN: "same_map v v' \<Longrightarrow> PPN v' = PPN v"
  by (simp add: same_map_def EXTRACT_ADDRESS_eq_iff)

lemma refs_ok_same_map:
  assumes "refs_ok T U s" "\<And>t i. t \<in> T \<Longrightarrow> same_map (phys s t i) (phys s' t i)"
    "frames_info s' = frames_info s" "free_frame_list s' = free_frame_list s" "number_of_frames s' = number_of_frames s"
  shows "refs_ok T U s'"
proof -
  have m: "maps (phys s' t i) f = maps (phys s t i) f" "pte_ok (phys s' t i) = pte_ok (phys s t i)" if "t \<in> T" for t i f
    using assms(2) [OF that, of i] same_map_PPN [OF assms(2) [OF that, of i]]
    by (simp_all add: maps_iff pte_ok_iff same_map_def)
  then have "mappings T f s' = mappings T f s" for f by (auto simp: mappings_def)
  then show ?thesis using assms(1,3-5) m by (simp add: refs_ok_def)
qed

section \<open>The steps\<close>

lemma set_permissions_form:
  assumes "page_slot dir va s = Some (t, i)"
  shows "\<exists>c. pt_set_page_permissions dir va a b s =
    Some ((), s\<lparr>phys := (phys s)(t := (phys s t)(i := (phys s t i OR a) AND NOT b)), tlb := c\<rparr>)"
proof -
  from page_slotD [OF assms] have g: "get_page_table dir va s = Some (TABLE_IN_MEMORY, Some t)" "i = PTX va" by auto
  let ?w = "write_phys t i ((phys s t i OR a) AND NOT b) s"
  obtain c where "tlb_invalidate (Some dir) va ?w = ?w\<lparr>tlb := c\<rparr>"
    using tlb_invalidate_form [where d = "Some dir" and va = va and s = ?w] by blast
  then have "pt_set_page_permissions dir va a b s = Some ((), ?w\<lparr>tlb := c\<rparr>)"
    using g by (simp add: pt_set_page_permissions_def Let_def write_phys_def)
  then show ?thesis by (intro exI [of _ c]) (simp add: write_phys_def)
qed

lemma mmu_walk_same:
  assumes "mmu_walk va s = Some f" "mmu_table va s = Some t" "cpu_cr3 s' = cpu_cr3 s"
    "phys s' (unat (PPN (cpu_cr3 s))) = phys s (unat (PPN (cpu_cr3 s)))" "same_map (phys s t (PTX va)) (phys s' t (PTX va))"
  shows "mmu_walk va s' = Some f" "mmu_table va s' = Some t"
proof -
  show m: "mmu_table va s' = Some t" using assms(2-4) by (simp add: mmu_table_def)
  have "v AND PERM_PRESENT = 0 \<longleftrightarrow> \<not> bit v 0" for v :: u32
    using and_exp_eq_0_iff_not_bit [of v 0] by (simp add: PERM_PRESENT_def)
  then show "mmu_walk va s' = Some f"
    using assms(1,2,5) m same_map_PPN [OF assms(5)] by (auto simp: mmu_walk_def same_map_def Let_def split: if_splits)
qed

text \<open>Reading the page back, which the release does only to see whether it is in the page file.\<close>

lemma read_resident_page:
  assumes ide: "ide_disk ide" and va: "PGOFF va = 0" "env_page_directory (envs s e) = Some dir"
    and sl: "page_slot dir va s = Some (t, i)" "t \<noteq> dir" "dir = unat (PPN (cpu_cr3 s))" "mmu_walk va s = Some f" "f \<notin> {dir, t}"
    and pf: "disk_table e va s = Some td" "phys s td (PTX va) \<noteq> 0"
  shows "\<exists>c v. pf_read_env_page ide e va s =
    Some (0, envs_upd e (\<lambda>x. x\<lparr>nPageIn := nPageIn x + 1\<rparr>) (s\<lparr>phys := (phys s)(t := (phys s t)(i := v),
      f := disk_pages s (disk_sector (phys s td (PTX va)))), tlb := c\<rparr>)) \<and>
    same_map (phys s t i) v \<and> bit v 10 = bit (phys s t i) 10"
proof -
  from page_slotD [OF sl(1)] have g: "get_page_table dir va s = Some (TABLE_IN_MEMORY, Some t)" "i = PTX va" by auto
  have mt: "mmu_table va s = Some t" using get_page_table_mmu g(1) sl(3) by simp
  from disk_table_found [OF pf(1)] obtain dd where d: "disk_env_pgdir (envs s e) = Some dd"
    "get_disk_page_table dd va False s = Some ((0, Some td), s)" by blast
  let ?v1 = "phys s t i OR PERM_USED OR PERM_MODIFIED" and ?X = "disk_pages s (disk_sector (phys s td (PTX va)))"
  let ?s1 = "s\<lparr>phys := (phys s)(t := (phys s t)(i := ?v1), f := ?X)\<rparr>"
  have rd: "read_disk_page ide (phys s td (PTX va)) va s = Some (0, ?s1)"
    using ide_disk.read_disk_page_loads [OF ide va(1) sl(4) mt] g(2) by (simp add: write_phys_def)
  have "page_slot dir va ?s1 = Some (t, i)"
    by (rule page_slot_cong [OF sl(1)]) (use sl(2,5) in auto)
  from set_permissions_form [OF this, of 0 PERM_MODIFIED] obtain c where
    c: "pt_set_page_permissions dir va 0 PERM_MODIFIED ?s1 = Some ((), ?s1\<lparr>phys := (phys ?s1)(t := (phys ?s1 t)(i :=
      (phys ?s1 t i OR 0) AND NOT PERM_MODIFIED)), tlb := c\<rparr>)" by blast
  let ?v = "?v1 AND NOT PERM_MODIFIED"
  have ph: "(phys ?s1)(t := (phys ?s1 t)(i := (phys ?s1 t i OR 0) AND NOT PERM_MODIFIED)) =
      (phys s)(t := (phys s t)(i := ?v), f := ?X)"
    using sl(5) by (auto simp: fun_eq_iff)
  have "pf_read_env_page ide e va s = Some (0, envs_upd e (\<lambda>x. x\<lparr>nPageIn := nPageIn x + 1\<rparr>)
      (s\<lparr>phys := (phys s)(t := (phys s t)(i := ?v), f := ?X), tlb := c\<rparr>))"
    using d rd c pf(2) va(2) ROUNDDOWN_aligned [OF va(1)] unfolding ph
    by (simp add: pf_read_env_page_def Let_def)
  moreover have "same_map (phys s t i) (phys s t i OR (PERM_USED OR PERM_MODIFIED))"
    by (rule same_map_set) (simp_all add: flag_bits EXTRACT_ADDRESS_or bit_or_iff)
  then have "same_map (phys s t i) ?v"
    using same_map_trans [OF _ same_map_clear [OF flag_bits(7-9)]] by (simp add: or.assoc)
  moreover have "bit ?v 10 = bit (phys s t i) 10" by (simp add: bit_simps PERM_USED_def PERM_MODIFIED_def)
  ultimately show ?thesis by blast
qed

text \<open>Taking the page out of the page file.\<close>

lemma vm_sel_refresh [simp]:
  "ws_elems (refresh_intena s) = ws_elems s" "PageRepAlgoType (refresh_intena s) = PageRepAlgoType s"
  "kallocation_sizes (refresh_intena s) = kallocation_sizes s"
  by (simp_all add: refresh_intena_def)

lemma remove_file_page:
  assumes "cpu_ok s" "locks_ok s" "\<not> held DFLLOCK s" "disk_table e va s = Some td" "page_file_ok TD s" "td \<in> TD"
    and "phys s td (PTX va) = dfn" "dfn \<noteq> 0"
  shows "pf_remove_env_page e va s =
      Some (refresh_intena (write_phys td (PTX va) 0 s)\<lparr>disk_free_frame_list := unat dfn # disk_free_frame_list s\<rparr>) \<and>
    page_file_ok TD (refresh_intena (write_phys td (PTX va) 0 s)\<lparr>disk_free_frame_list := unat dfn # disk_free_frame_list s\<rparr>)"
proof -
  from disk_table_found [OF assms(4)] obtain dd where d: "disk_env_pgdir (envs s e) = Some dd"
    "get_disk_page_table dd va False s = Some ((0, Some td), s)" by blast
  let ?w = "write_phys td (PTX va) 0 s"
  have w: "cpu_ok ?w" "locks_ok ?w" "\<not> held DFLLOCK ?w" "disk_free_frame_list ?w = disk_free_frame_list s"
    using assms(1-3) by (simp_all add: cpu_ok_def locks_ok_def held_def write_phys_def)
  have nf: "unat dfn \<notin> set (disk_free_frame_list s)"
    using page_file_okD(4) [OF assms(5,6), of "PTX va"] assms(7,8) by simp
  have "page_file_ok TD (refresh_intena ?w\<lparr>disk_free_frame_list := unat dfn # disk_free_frame_list s\<rparr>)"
    by (rule page_file_give [OF assms(5-8)]) simp_all
  then show ?thesis
    using d assms(7) free_disk_frame_eq [OF w(1-3) assms(8)] nf w(4) by (simp add: pf_remove_env_page_def)
qed

text \<open>Taking the page out of the working set.  The block of the element stays in use: no size is recorded for it, so
  \<open>kfree\<close> does nothing.\<close>

lemma invalidate_resident:
  assumes kh: "use_kheap s" "PageRepAlgoType s \<noteq> PG_REP_LRU_LISTS_APPROX"
    and p: "find_ws va (page_WS_list (envs s e)) s = Some p" "ws_virtual_address (ws_elems s p) = va" "kallocation_sizes s (kva_to_index p) = 0"
    and dir: "env_dir e s = Some dir" and un: "unmap_frame dir va s = Some ((), s1)" "mem_static s s1" "cpu_same s s1"
  shows "env_page_ws_invalidate da e va s = Some (envs_upd e (\<lambda>y. y\<lparr>
    page_last_WS_element := (if page_last_WS_element y = p then next_of p (page_WS_list y) else page_last_WS_element y),
    page_WS_list := remove1 p (page_WS_list y)\<rparr>) s1)"
proof -
  let ?L = "page_WS_list (envs s e)"
  have mem: "p \<in> set ?L" using p(1) by (auto simp: find_ws_def find_Some_iff)
  have e1: "envs s1 = envs s" "use_kheap s1" "kallocation_sizes s1 = kallocation_sizes s"
    using un(2,3) kh(1) kheap_fields_static(1) [OF un(2)] by (simp_all add: cpu_same_def mem_static_def)
  let ?s2 = "if page_last_WS_element (envs s1 e) = p
      then envs_upd e (\<lambda>x. x\<lparr>page_last_WS_element := next_of p (page_WS_list x)\<rparr>) s1 else s1"
  let ?s3 = "envs_upd e (\<lambda>x. x\<lparr>page_WS_list := remove1 p ?L\<rparr>) ?s2"
  have L2: "page_WS_list (envs ?s2 e) = ?L" using e1(1) by (simp add: envs_upd_def)
  have k: "kfree da p ?s3 = Some ((), ?s3)" using e1 p(3) by (simp add: kfree_def envs_upd_def)
  have inv: "invalidate_list da e va s = Some ?s3"
    using p(1,2) dir un(1) L2 mem k by (simp add: invalidate_list_def remove_l_def Let_def)
  have "?s3 = envs_upd e (\<lambda>y. y\<lparr>
      page_last_WS_element := (if page_last_WS_element y = p then next_of p (page_WS_list y) else page_last_WS_element y),
      page_WS_list := remove1 p (page_WS_list y)\<rparr>) s1"
    using e1(1) by (simp add: envs_upd_def)
  then show ?thesis using kh inv by (auto simp: env_page_ws_invalidate_def)
qed

lemma page_file_same_tables:
  assumes "page_file_ok TD s" "\<And>t. t \<in> TD \<Longrightarrow> phys s' t = phys s t" "disk_free_frame_list s' = disk_free_frame_list s"
  shows "page_file_ok TD s'"
proof (rule page_file_okI)
  note D = page_file_okD [OF assms(1)]
  show "distinct (disk_free_frame_list s')" using D(1) assms(3) by simp
  show "0 < f \<and> f < unat PAGES_PER_FILE" if "f \<in> set (disk_free_frame_list s')" for f using D(2) that assms(3) by simp
  show "unat (phys s' t i) < unat PAGES_PER_FILE \<and> unat (phys s' t i) \<notin> set (disk_free_frame_list s')"
    if "t \<in> TD" "phys s' t i \<noteq> 0" for t i
    using D(3) [OF that(1), of i] D(4) [OF that(1), of i] that(2) unfolding assms(2) [OF that(1)] assms(3) by blast
  show "t = t' \<and> i = i'" if "t \<in> TD" "t' \<in> TD" "phys s' t i \<noteq> 0" "phys s' t i = phys s' t' i'" for t t' i i'
    using D(5) [OF that(1,2)] that(3,4) unfolding assms(2) [OF that(1)] assms(2) [OF that(2)] by blast
qed

section \<open>Freeing the page\<close>

text \<open>
  \<open>resident e dir c t i f td p s\<close>: the page \<open>c\<close> of the running process \<open>e\<close>, whose directory is \<open>dir\<close>, is in memory: entry \<open>i\<close>
  of its table \<open>t\<close> maps it to the frame \<open>f\<close>; it has a disk frame in the disk table \<open>td\<close>; and \<open>p\<close> is its element of the
  working set, a block of the kernel heap.
\<close>

definition resident ::
  "env_ptr \<Rightarrow> frame \<Rightarrow> u32 \<Rightarrow> frame \<Rightarrow> u32 \<Rightarrow> frame \<Rightarrow> frame \<Rightarrow> u32 \<Rightarrow> 'z vm_state_scheme \<Rightarrow> bool" where
  "resident e dir c t i f td p s \<longleftrightarrow> use_kheap s \<and> PageRepAlgoType s \<noteq> PG_REP_LRU_LISTS_APPROX \<and>
     env_page_directory (envs s e) = Some dir \<and> dir = unat (PPN (cpu_cr3 s)) \<and>
     page_slot dir c s = Some (t, i) \<and> mmu_walk c s = Some f \<and> maps (phys s t i) f \<and>
     disk_table e c s = Some td \<and> phys s td (PTX c) \<noteq> 0 \<and>
     find_ws c (page_WS_list (envs s e)) s = Some p \<and> ws_virtual_address (ws_elems s p) = c \<and> kallocation_sizes s (kva_to_index p) = 0"

text \<open>The frames of the disk directory and of the disk tables \<open>TD\<close> are not among the tables \<open>T\<close> and the pages \<open>U\<close>.\<close>

definition disk_frames_apart :: "env_ptr \<Rightarrow> frame set \<Rightarrow> frame set \<Rightarrow> frame set \<Rightarrow> 'z cpu_state_scheme \<Rightarrow> bool" where
  "disk_frames_apart e TD T U s \<longleftrightarrow> TD \<inter> (T \<union> U) = {} \<and> (\<forall>dd. disk_env_pgdir (envs s e) = Some dd \<longrightarrow> dd \<notin> T \<union> U \<union> TD)"

lemma release_resident_page:
  fixes s :: "'z share_state_scheme"
  assumes ide: "ide_disk ide" and ok: "cpu_ok s" "locks_ok s" "\<not> held DFLLOCK s" "refs_ok T U s" "page_file_ok TD s"
    and r: "resident e dir c t i f td p s" and c: "PGOFF c = 0" and T: "t \<in> T" "dir \<notin> T" "dir \<notin> U" "td \<in> TD" "dir \<notin> TD"
    and apart: "disk_frames_apart e TD T U s"
  shows "\<exists>s'. release_user_page da ide e dir c s = Some s' \<and> refs_ok T U s' \<and> page_file_ok TD s' \<and>
    page_slot dir c s' = Some (t, i) \<and> phys s' t i AND PERM_UHPAGE = 0 \<and> phys s' t i AND PERM_PRESENT = 0 \<and>
    (\<forall>t' i'. t' \<in> T \<and> (t', i') \<noteq> (t, i) \<longrightarrow> phys s' t' i' = phys s t' i') \<and>
    phys s' td (PTX c) = 0 \<and> disk_free_frame_list s' = unat (phys s td (PTX c)) # disk_free_frame_list s \<and>
    page_WS_list (envs s' e) = remove1 p (page_WS_list (envs s e)) \<and>
    page_last_WS_element (envs s' e) =
      (if page_last_WS_element (envs s e) = p then next_of p (page_WS_list (envs s e)) else page_last_WS_element (envs s e)) \<and>
    references (frames_info s' f) = references (frames_info s f) - 1 \<and>
    free_frame_list s' = (if references (frames_info s f) = 1 then f # free_frame_list s else free_frame_list s)"
proof -
  have R: "use_kheap s" "PageRepAlgoType s \<noteq> PG_REP_LRU_LISTS_APPROX" "env_page_directory (envs s e) = Some dir"
      "mmu_walk c s = Some f" "maps (phys s t i) f" "disk_table e c s = Some td" "phys s td (PTX c) \<noteq> 0"
      "find_ws c (page_WS_list (envs s e)) s = Some p" "ws_virtual_address (ws_elems s p) = c" "kallocation_sizes s (kva_to_index p) = 0"
    and dcr: "dir = unat (PPN (cpu_cr3 s))" and sl: "page_slot dir c s = Some (t, i)"
    using r unfolding resident_def by blast+
  from page_slotD [OF sl] have i: "i = PTX c" by simp
  let ?dfn = "phys s td (PTX c)"
  have i2: "i < 1024" unfolding i by (rule PTX_less)
  have b0: "bit (phys s t i) 0" "f = unat (PPN (phys s t i))" using R(5) by (auto simp: maps_iff)
  have f: "f \<in> U" using refs_ok_present(1) [OF ok(4) T(1) i2 b0(1)] b0(2) by simp
  have TU: "T \<inter> U = {}" using ok(4) by (simp add: refs_ok_def)
  have ne: "t \<noteq> dir" "f \<notin> T" "f \<notin> {dir, t}" "td \<notin> T" "td \<noteq> f" "t \<notin> TD" "f \<notin> TD" "td \<noteq> dir"
    using T f TU apart by (auto simp: disk_frames_apart_def)
  from set_permissions_form [OF sl, of 0 PERM_UHPAGE] obtain tl1 where
    s1: "pt_set_page_permissions dir c 0 PERM_UHPAGE s =
      Some ((), s\<lparr>phys := (phys s)(t := (phys s t)(i := (phys s t i OR 0) AND NOT PERM_UHPAGE)), tlb := tl1\<rparr>)" by blast
  let ?s1 = "s\<lparr>phys := (phys s)(t := (phys s t)(i := (phys s t i OR 0) AND NOT PERM_UHPAGE)), tlb := tl1\<rparr>"
  have m1: "same_map (phys s t i) (phys ?s1 t i)" "\<not> bit (phys ?s1 t i) 10"
    using same_map_clear [OF flag_bits(1-3), of "phys s t i"] by (simp_all add: bit_simps PERM_UHPAGE_def)
  have sl1: "page_slot dir c ?s1 = Some (t, i)"
    by (rule page_slot_cong [OF sl]) (use ne(1) in auto)
  have mt: "mmu_table c s = Some t" using get_page_table_mmu [of s c t] page_slotD [OF sl] dcr by simp
  have mw: "mmu_walk c ?s1 = Some f"
    by (rule mmu_walk_same [OF _ mt]) (use R(4) ne(1) m1(1) i dcr in auto)
  have dc: "disk_table e c t' = Some td" if "envs t' e = envs s e \<or> (\<exists>n. envs t' e = (envs s e)\<lparr>nPageIn := n\<rparr>)"
    "\<And>d. d \<notin> T \<union> U \<Longrightarrow> phys t' d = phys s d" "use_kheap t' = use_kheap s" "frames_info t' = frames_info s" "number_of_frames t' = number_of_frames s"
    for t' :: "'z share_state_scheme"
  proof -
    have "disk_table e c t' = disk_table e c s"
    proof (rule disk_table_cong)
      fix d assume "disk_env_pgdir (envs s e) = Some d"
      then show "phys t' d = phys s d" using apart that(2) by (simp add: disk_frames_apart_def)
    qed (use that in auto)
    then show ?thesis using R(6) by simp
  qed
  have pf1: "disk_table e c ?s1 = Some td" "phys ?s1 td (PTX c) \<noteq> 0"
    by (rule dc) (use R(7) T(1) ne(4) in auto)
  have d1: "env_page_directory (envs ?s1 e) = Some dir" "dir = unat (PPN (cpu_cr3 ?s1))" using R(3) dcr by simp_all
  from read_resident_page [OF ide c d1(1) sl1 ne(1) d1(2) mw ne(3) pf1] obtain tl2 v where
    s2: "pf_read_env_page ide e c ?s1 = Some (0, envs_upd e (\<lambda>x. x\<lparr>nPageIn := nPageIn x + 1\<rparr>) (?s1\<lparr>phys := (phys ?s1)(t := (phys ?s1 t)(i := v),
      f := disk_pages ?s1 (disk_sector (phys ?s1 td (PTX c)))), tlb := tl2\<rparr>))" "same_map (phys ?s1 t i) v" "bit v 10 = bit (phys ?s1 t i) 10"
    by blast
  let ?X = "disk_pages ?s1 (disk_sector (phys ?s1 td (PTX c)))"
  define s2 where "s2 = envs_upd e (\<lambda>x. x\<lparr>nPageIn := nPageIn x + 1\<rparr>) (?s1\<lparr>phys := (phys ?s1)(t := (phys ?s1 t)(i := v), f := ?X), tlb := tl2\<rparr>)"
  have p2: "phys s2 = (phys s)(t := (phys s t)(i := v), f := ?X)" by (simp add: s2_def envs_upd_def)
  have e2: "envs s2 e = (envs s e)\<lparr>nPageIn := nPageIn (envs s e) + 1\<rparr>" "use_kheap s2 = use_kheap s" "frames_info s2 = frames_info s"
    "number_of_frames s2 = number_of_frames s" "free_frame_list s2 = free_frame_list s" "klocks s2 = klocks s" "ncli s2 = ncli s"
    "eflags_IF s2 = eflags_IF s" "disk_free_frame_list s2 = disk_free_frame_list s" "ws_elems s2 = ws_elems s"
    "PageRepAlgoType s2 = PageRepAlgoType s" "kallocation_sizes s2 = kallocation_sizes s"
    by (simp_all add: s2_def envs_upd_def)
  have ok2: "cpu_ok s2" "locks_ok s2" "\<not> held DFLLOCK s2" using ok(1-3) e2 by (simp_all add: cpu_ok_def locks_ok_def held_def)
  have dt2: "disk_table e c s2 = Some td" by (rule dc) (use e2 p2 T(1) f in auto)
  have td2: "phys s2 td (PTX c) = ?dfn" "?dfn \<noteq> 0" using p2 ne(4,5) T(1) R(7) by auto
  have td_same: "phys s2 t' = phys s t'" if "t' \<in> TD" for t'
  proof -
    have "t' \<noteq> t" "t' \<noteq> f" using that ne(6,7) by blast+
    then show ?thesis by (simp only: p2 fun_upd_apply if_False)
  qed
  have pf2: "page_file_ok TD s2" by (rule page_file_same_tables [OF ok(5) td_same e2(9)])
  let ?s3 = "refresh_intena (write_phys td (PTX c) 0 s2)\<lparr>disk_free_frame_list := unat ?dfn # disk_free_frame_list s2\<rparr>"
  from remove_file_page [OF ok2 dt2 pf2 T(4) td2] have
    s3: "pf_remove_env_page e c s2 = Some ?s3" "page_file_ok TD ?s3" by blast+
  have p3: "phys ?s3 = (phys s)(t := (phys s t)(i := v), f := ?X, td := (phys s td)(PTX c := 0))"
    using p2 ne(4,5) T(1) by (auto simp: fun_eq_iff)
  have e3: "envs ?s3 = envs s2" "frames_info ?s3 = frames_info s" "free_frame_list ?s3 = free_frame_list s" "number_of_frames ?s3 = number_of_frames s"
    "use_kheap ?s3 = use_kheap s" using e2 by simp_all
  have m3: "same_map (phys s t i) v" using same_map_trans [OF m1(1) s2(2)] .
  have sm3: "same_map (phys s t' j) (phys ?s3 t' j)" if "t' \<in> T" for t' j
    using that m3 ne(2,4) unfolding p3 by (auto simp: same_map_def)
  have rf3: "refs_ok T U ?s3" by (rule refs_ok_same_map [OF ok(4) sm3 e3(2-4)])
  have ok3: "cpu_ok ?s3" "locks_ok ?s3" using ok2 by (simp_all add: cpu_ok_def locks_ok_def)
  have v3: "phys ?s3 t i = v" using p3 ne(2,4) T(1) by auto
  have d3: "phys ?s3 dir = phys s dir" using p3 ne(1,3,8) by auto
  have sl3: "page_slot dir c ?s3 = Some (t, i)"
    by (rule page_slot_cong [OF sl d3 e3(4,5)]) (simp only: e3(2))
  from page_slotD [OF sl3] have g3: "get_page_table dir c ?s3 = Some (TABLE_IN_MEMORY, Some t)" by blast
  have b3: "bit (phys ?s3 t (PTX c)) 0" "unat (PPN (phys ?s3 t (PTX c))) = f"
    using v3 m3 b0 same_map_PPN [OF m3] i by (simp_all add: same_map_def)
  from unmap_frame_present [OF ok3 rf3 g3 T(1) b3(1)] obtain s4 where
    s4: "unmap_frame dir c ?s3 = Some ((), s4)" "cpu_same ?s3 s4" "mem_static ?s3 s4" "refs_ok T U s4"
      "phys s4 = (phys ?s3)(t := (phys ?s3 t)(PTX c := phys ?s3 t (PTX c) AND PERM_AVAILABLE))"
      "references (frames_info s4 f) = references (frames_info ?s3 f) - 1" "\<forall>g. g \<noteq> f \<longrightarrow> frames_info s4 g = frames_info ?s3 g"
      "free_frame_list s4 = (if references (frames_info ?s3 f) = 1 then f # free_frame_list ?s3 else free_frame_list ?s3)"
    unfolding b3(2) by blast
  have L3: "page_WS_list (envs ?s3 e) = page_WS_list (envs s e)" "page_last_WS_element (envs ?s3 e) = page_last_WS_element (envs s e)"
    using e2(1) by simp_all
  have W3: "ws_elems ?s3 = ws_elems s" using e2(10) by (simp add: write_phys_def)
  have fw: "find_ws c (page_WS_list (envs ?s3 e)) ?s3 = Some p" "ws_virtual_address (ws_elems ?s3 p) = c"
    using R(8,9) unfolding L3 find_ws_def W3 by simp_all
  have x3: "use_kheap ?s3" "PageRepAlgoType ?s3 \<noteq> PG_REP_LRU_LISTS_APPROX" "kallocation_sizes ?s3 (kva_to_index p) = 0" "env_dir e ?s3 = Some dir"
    using R(1-3,10) e2 by (simp_all add: write_phys_def env_dir_def)
  let ?u = "\<lambda>y. y\<lparr>page_last_WS_element := (if page_last_WS_element y = p then next_of p (page_WS_list y) else page_last_WS_element y),
    page_WS_list := remove1 p (page_WS_list y)\<rparr>"
  have inv: "env_page_ws_invalidate da e c ?s3 = Some (envs_upd e ?u s4)"
    by (rule invalidate_resident [OF x3(1,2) fw x3(3,4) s4(1,3,2)])
  let ?s5 = "envs_upd e ?u s4"
  have rel: "release_user_page da ide e dir c s = Some ?s5"
    using s1 s2(1) s3(1) inv by (simp add: release_user_page_def s2_def)
  have en4: "envs s4 e = envs ?s3 e" using s4(2) by (simp add: cpu_same_def)
  have sel5: "phys ?s5 = phys s4" "frames_info ?s5 = frames_info s4" "free_frame_list ?s5 = free_frame_list s4"
    "number_of_frames ?s5 = number_of_frames s4" "use_kheap ?s5 = use_kheap s4" "disk_free_frame_list ?s5 = disk_free_frame_list s4"
    "page_WS_list (envs ?s5 e) = remove1 p (page_WS_list (envs s e))"
    "page_last_WS_element (envs ?s5 e) =
      (if page_last_WS_element (envs s e) = p then next_of p (page_WS_list (envs s e)) else page_last_WS_element (envs s e))"
    using en4 L3 by (simp_all add: envs_upd_def)
  have df4: "disk_free_frame_list s4 = disk_free_frame_list ?s3"
    using s4(3) by (cases s4; cases s2) (simp add: mem_static_def refresh_intena_def write_phys_def)
  have ph5: "phys ?s5 t i = v AND PERM_AVAILABLE" using s4(5) v3 i sel5(1) by simp
  have "\<not> bit v 10" using s2(3) m1(2) by simp
  then have "\<not> bit (v AND PERM_AVAILABLE) 10" by (simp add: bit_and_iff)
  then have u0: "phys ?s5 t i AND PERM_UHPAGE = 0"
    unfolding ph5 using and_exp_eq_0_iff_not_bit [of "v AND PERM_AVAILABLE" 10] by (simp add: PERM_UHPAGE_def)
  have pr0: "phys ?s5 t i AND PERM_PRESENT = 0" unfolding ph5 by (simp add: and.assoc PERM_AVAILABLE_def PERM_PRESENT_def)
  have others: "phys ?s5 t' i' = phys s t' i'" if "t' \<in> T" "(t', i') \<noteq> (t, i)" for t' i'
    using that s4(5) i ne(2,4) unfolding sel5(1) p3 by auto
  have tdz: "phys ?s5 td (PTX c) = 0" using s4(5) p3 ne(4) T(1) unfolding sel5(1) by auto
  have pf5: "page_file_ok TD ?s5"
  proof -
    have same: "phys ?s5 t' = phys ?s3 t'" if "t' \<in> TD" for t'
    proof -
      have "t' \<noteq> t" using that ne(6) by blast
      then show ?thesis by (simp only: sel5(1) s4(5) fun_upd_apply if_False)
    qed
    show ?thesis by (rule page_file_same_tables [OF s3(2) same trans [OF sel5(6) df4]])
  qed
  have rf5: "refs_ok T U ?s5" by (rule refs_ok_cong [OF s4(4) sel5(1-4)])
  have d5: "phys ?s5 dir = phys ?s3 dir" using s4(5) ne(1) unfolding sel5(1) by auto
  have sl5: "page_slot dir c ?s5 = Some (t, i)"
    by (rule page_slot_cong [OF sl3 d5]) (use s4(3,7) sel5 ne(2) T(1) in \<open>auto simp: mem_static_def\<close>)
  show ?thesis
    using rel rf5 pf5 sl5 u0 pr0 others tdz sel5 df4 e2(9) s4(6,8) e3(2,3)
    by (intro exI [of _ ?s5]) (simp only: simp_thms, simp)
qed


text \<open>
  A heap page of process 2, at \<open>0x80000000\<close>: entry 0 of the table 51 maps the frame 54, entry 0 of the disk table 61 has the
  disk frame 9, and the page is the first of two in the working set.
\<close>

definition resident_ex :: share_state where
  "resident_ex = vm_state.extend (vm_ex\<lparr>cpu_proc := Some 2, free_frame_list := [55],
       phys := (\<lambda>f i. if f = 50 \<and> i = 0x200 then 0x33001 else if f = 51 \<and> i = 0 then 0x36407
         else if f = 60 \<and> i = 0x200 then 0x3D001 else if f = 61 \<and> i = 0 then 9 else 0),
       frames_info := (\<lambda>_. null_frame_info\<lparr>kheap_mapped_va := 0xF8000000\<rparr>)(54 := null_frame_info\<lparr>references := 1\<rparr>),
       kallocation_sizes := (\<lambda>_. 0),
       ws_elems := (\<lambda>p. null_ws\<lparr>ws_virtual_address := (if p = 0xF6000080 then 0x80000000 else 0x2000)\<rparr>)\<rparr>)
     (share_state.fields (\<lambda>_. null_share) (\<lambda>_. []) [])"

lemma resident_ex_sel [simp]:
  "use_kheap resident_ex = True" "number_of_frames resident_ex = 100" "free_frame_list resident_ex = [55]" "cpu_cr3 resident_ex = 0x32000"
  "phys resident_ex = (\<lambda>f i. if f = 50 \<and> i = 0x200 then 0x33001 else if f = 51 \<and> i = 0 then 0x36407
         else if f = 60 \<and> i = 0x200 then 0x3D001 else if f = 61 \<and> i = 0 then 9 else 0)"
  "frames_info resident_ex = (\<lambda>_. null_frame_info\<lparr>kheap_mapped_va := 0xF8000000\<rparr>)(54 := null_frame_info\<lparr>references := 1\<rparr>)"
  "ws_elems resident_ex = (\<lambda>p. null_ws\<lparr>ws_virtual_address := (if p = 0xF6000080 then 0x80000000 else 0x2000)\<rparr>)"
  "kallocation_sizes resident_ex = (\<lambda>_. 0)" "PageRepAlgoType resident_ex = PG_REP_CLOCK" "disk_free_frame_list resident_ex = [7, 8]"
  "page_WS_list (envs resident_ex 2) = [0xF6000080, 0xF60000C0]" "page_last_WS_element (envs resident_ex 2) = 0xF6000080"
  "env_page_directory (envs resident_ex 2) = Some 50" "disk_env_pgdir (envs resident_ex 2) = Some 60"
  "klocks resident_ex = (\<lambda>_. free_lock)" "ncli resident_ex = 0"
  by (simp_all add: resident_ex_def vm_state.defs share_state.defs) (simp_all add: vm_ex_def disk_state.defs vm_state.defs env_ex_def)

lemma resident_ex_addr:
  "PDX 0x80000000 = 0x200" "PTX 0x80000000 = 0" "PGOFF 0x80000000 = 0" "PPN 0x32000 = 50" "PPN 0x36407 = 54" "PPN 0x33001 = 51"
  "EXTRACT_ADDRESS 0x33001 = 0x33000" "unat (0x33000 div PAGE_SIZE) = 51" "EXTRACT_ADDRESS 0x3D001 = 0x3D000" "unat (0x3D000 div PAGE_SIZE) = 61"
  by (simp_all add: PDX_def PTX_def PGOFF_def PPN_def EXTRACT_ADDRESS_def drop_bit_eq_div PAGE_SIZE_def)

lemma resident_ex_ok:
  "cpu_ok resident_ex" "locks_ok resident_ex" "\<not> held DFLLOCK resident_ex" "refs_ok {51} {54, 55} resident_ex" "page_file_ok {61} resident_ex"
  "resident 2 50 0x80000000 51 0 54 61 0xF6000080 resident_ex" "disk_frames_apart 2 {61} {51} {54, 55} resident_ex"
proof -
  show "cpu_ok resident_ex" "locks_ok resident_ex" "\<not> held DFLLOCK resident_ex"
    by (simp_all add: cpu_ok_def locks_ok_def held_def free_lock_def)
  have mp: "maps 0x36407 f \<longleftrightarrow> f = 54" "\<not> maps 0 f" for f
    using resident_ex_addr(5) by (auto simp: maps_def PERM_PRESENT_def)
  have "mappings {51} f resident_ex = (if f = 54 then {(51, 0)} else {})" for f
    using mp by (auto simp: mappings_def split: if_splits)
  then show "refs_ok {51} {54, 55} resident_ex"
    using mp by (auto simp: refs_ok_def null_frame_info_def pte_ok_def fos_consts EXTRACT_ADDRESS_def split: if_splits)
  show "page_file_ok {61} resident_ex"
    by (rule page_file_okI) (auto simp: PAGES_PER_FILE_val split: if_splits)
  show "resident 2 50 0x80000000 51 0 54 61 0xF6000080 resident_ex"
    by (simp add: resident_def page_slot_def get_page_table_def resident_ex_addr Let_def PERM_PRESENT_def kheap_table_ptr_def
        CHECK_IF_KERNEL_ADDRESS_def USER_TOP_def mmu_walk_def mmu_table_def maps_def disk_table_def disk_table_ptr_def find_ws_def)
  show "disk_frames_apart 2 {61} {51} {54, 55} resident_ex" by (simp add: disk_frames_apart_def)
qed


end
