(* ===== verification/FOS_Env.thy ===== *)
theory FOS_Env
  imports FOS_Share FOS_Fault
begin

unbundle bit_operations_syntax

text \<open>
  Creating and freeing a process (\<open>kern/proc/user_environment.c\<close>, \<open>kern/proc/user_programs.c\<close>): looking up a
  program, the page directory and the kernel stack, the identifier, and loading the segments of the program into
  memory and into the page file.

  The programs are binaries linked into the kernel.  Their table is the list \<open>progs\<close>, and what the kernel reads
  of a binary at an address is the function \<open>elf\<close>; the bytes of the segments are read from memory.  The contents
  of the trap frame and of the context are kept as the fields \<open>tf_eip\<close> and \<open>tf_esp\<close> of the process.
\<close>

section \<open>Bytes in memory\<close>

definition byte_of :: "u32 \<Rightarrow> u32 \<Rightarrow> u8" where
  "byte_of w k = ucast (drop_bit (8 * unat k) w)"

definition put_byte :: "u32 \<Rightarrow> u32 \<Rightarrow> u8 \<Rightarrow> u32" where
  "put_byte w k b = (w AND NOT (push_bit (8 * unat k) 0xFF)) OR push_bit (8 * unat k) (ucast b)"

definition mmu_get_byte :: "u32 \<Rightarrow> 'z mem_state_scheme \<Rightarrow> u8 option" where
  "mmu_get_byte va s = do {
     f \<leftarrow> mmu_walk va s;
     Some (byte_of (phys s f (PGOFF va div 4)) (PGOFF va mod 4)) }"

definition mmu_put_byte :: "u32 \<Rightarrow> u8 \<Rightarrow> 'z mem_state_scheme \<Rightarrow> 'z mem_state_scheme option" where
  "mmu_put_byte va b s = do {
     f \<leftarrow> mmu_walk va s;
     s1 \<leftarrow> mmu_touch va s;
     Some (write_phys f (PGOFF va div 4) (put_byte (phys s1 f (PGOFF va div 4)) (PGOFF va mod 4) b) s1) }"

text \<open>\<open>memset(va, 0, PAGE_SIZE)\<close> at the start of a page.\<close>

definition mmu_clear_page :: "u32 \<Rightarrow> 'z mem_state_scheme \<Rightarrow> 'z mem_state_scheme option" where
  "mmu_clear_page va s = do {
     f \<leftarrow> mmu_walk va s;
     s1 \<leftarrow> mmu_touch va s;
     Some (clear_frame f s1) }"

text \<open>
  The loops that copy and clear bytes up to an address.  The destination is below the limit, so its increment
  never wraps around.
\<close>

lemma unat_limit_decreases: "(dst :: u32) < lim \<Longrightarrow> unat (lim - (dst + 1)) < unat (lim - dst)"
proof -
  assume "dst < lim"
  then have d: "unat dst < unat lim" by (simp add: word_less_nat_alt)
  have "unat lim < 4294967296" by (rule order.strict_trans2 [OF unsigned_less]) simp
  with d have "unat (dst + 1) = unat dst + 1" by (simp add: unat_word_ariths)
  with d have "unat (lim - (dst + 1)) = unat lim - (unat dst + 1)" "unat (lim - dst) = unat lim - unat dst"
    by (simp_all add: unat_sub_if')
  with d show ?thesis by simp
qed

function copy_bytes :: "u32 \<Rightarrow> u32 \<Rightarrow> u32 \<Rightarrow> 'z mem_state_scheme \<Rightarrow> 'z mem_state_scheme option" where
  "copy_bytes dst src lim s =
     (if dst < lim
      then do { b \<leftarrow> mmu_get_byte src s; s1 \<leftarrow> mmu_put_byte dst b s; copy_bytes (dst + 1) (src + 1) lim s1 }
      else Some s)"
  by pat_completeness auto
termination
  by (relation "measure (\<lambda>(dst, src, lim, s). unat (lim - dst))") (auto intro: unat_limit_decreases)

declare copy_bytes.simps [simp del]

function zero_bytes :: "u32 \<Rightarrow> u32 \<Rightarrow> 'z mem_state_scheme \<Rightarrow> 'z mem_state_scheme option" where
  "zero_bytes dst lim s = (if dst < lim then do { s1 \<leftarrow> mmu_put_byte dst 0 s; zero_bytes (dst + 1) lim s1 } else Some s)"
  by pat_completeness auto
termination
  by (relation "measure (\<lambda>(dst, lim, s). unat (lim - dst))") (auto intro: unat_limit_decreases)

declare zero_bytes.simps [simp del]

section \<open>Programs and their segments\<close>

record UserProgramInfo =
  up_name :: string
  up_start :: u32

definition get_user_program_info :: "UserProgramInfo list \<Rightarrow> string \<Rightarrow> UserProgramInfo option" where
  "get_user_program_info progs user_program_name = find (\<lambda>p. up_name p = user_program_name) progs"

definition get_user_program_info_by_env :: "UserProgramInfo list \<Rightarrow> env \<Rightarrow> UserProgramInfo option" where
  "get_user_program_info_by_env progs e = find (\<lambda>p. up_name p = prog_name e) progs"

record Proghdr =
  p_type :: u32
  p_offset :: u32
  p_va :: u32
  p_filesz :: u32
  p_memsz :: u32

record Elf =
  e_magic :: u32
  e_entry :: u32
  e_phnum :: u16
  e_ph :: "nat \<Rightarrow> Proghdr"

definition ELF_MAGIC :: u32 where "ELF_MAGIC = 0x464C457F"
definition ELF_PROG_LOAD :: u32 where "ELF_PROG_LOAD = 1"

record ProgramSegment =
  seg_ptr_start :: u32
  size_in_file :: u32
  size_in_memory :: u32
  seg_virtual_address :: u32
  segment_id :: nat

text \<open>
  The search for the next header to load from index \<open>i\<close> on.  It stops at the number of headers, so that many
  steps are enough.
\<close>

fun skip_headers :: "nat \<Rightarrow> Elf \<Rightarrow> nat \<Rightarrow> nat" where
  "skip_headers fuel h i =
     (if p_type (e_ph h i) \<noteq> ELF_PROG_LOAD \<and> i < unat (e_phnum h)
      then (case fuel of 0 \<Rightarrow> i | Suc n \<Rightarrow> skip_headers n h (Suc i)) else i)"

declare skip_headers.simps [simp del]

definition segment_at :: "Elf \<Rightarrow> u32 \<Rightarrow> nat \<Rightarrow> ProgramSegment option" where
  "segment_at h ptr_program_start index =
     (if index < unat (e_phnum h)
      then Some \<lparr>seg_ptr_start = ptr_program_start + p_offset (e_ph h index), size_in_file = p_filesz (e_ph h index),
        size_in_memory = p_memsz (e_ph h index), seg_virtual_address = p_va (e_ph h index), segment_id = index\<rparr>
      else None)"

text \<open>A wrong magic number panics; the inner option is the null pointer at the end of the headers.\<close>

definition PROGRAM_SEGMENT_FIRST :: "Elf \<Rightarrow> u32 \<Rightarrow> ProgramSegment option option" where
  "PROGRAM_SEGMENT_FIRST h ptr_program_start = do {
     assert_that (e_magic h = ELF_MAGIC);
     Some (segment_at h ptr_program_start (skip_headers (unat (e_phnum h)) h 0)) }"

definition PROGRAM_SEGMENT_NEXT :: "ProgramSegment \<Rightarrow> Elf \<Rightarrow> u32 \<Rightarrow> ProgramSegment option option" where
  "PROGRAM_SEGMENT_NEXT seg h ptr_program_start = do {
     assert_that (e_magic h = ELF_MAGIC);
     Some (segment_at h ptr_program_start (skip_headers (unat (e_phnum h)) h (Suc (segment_id seg)))) }"

text \<open>The loop \<open>PROGRAM_SEGMENT_FOREACH\<close>; each round moves to a later header.\<close>

fun foreach_segment ::
  "nat \<Rightarrow> Elf \<Rightarrow> u32 \<Rightarrow> (ProgramSegment \<Rightarrow> 's \<Rightarrow> 's option) \<Rightarrow> ProgramSegment option \<Rightarrow> 's \<Rightarrow> 's option" where
  "foreach_segment fuel h p body None s = Some s"
| "foreach_segment 0 h p body (Some seg) s = None"
| "foreach_segment (Suc n) h p body (Some seg) s = do {
     s1 \<leftarrow> body seg s;
     nxt \<leftarrow> PROGRAM_SEGMENT_NEXT seg h p;
     foreach_segment n h p body nxt s1 }"

definition PROGRAM_SEGMENT_FOREACH :: "Elf \<Rightarrow> u32 \<Rightarrow> (ProgramSegment \<Rightarrow> 's \<Rightarrow> 's option) \<Rightarrow> 's \<Rightarrow> 's option" where
  "PROGRAM_SEGMENT_FOREACH h p body s = do {
     fst_seg \<leftarrow> PROGRAM_SEGMENT_FIRST h p;
     foreach_segment (unat (e_phnum h)) h p body fst_seg s }"

section \<open>Directory, kernel stack, identifier\<close>

definition create_user_directory ::
  "'z share_state_scheme dynalloc \<Rightarrow> 'z share_state_scheme \<Rightarrow> (u32 \<times> 'z share_state_scheme) option" where
  "create_user_directory da s = do {
     (ptr, s1) \<leftarrow> kmalloc da PAGE_SIZE s;
     assert_that (ptr \<noteq> 0);
     Some (ptr, s1) }"

text \<open>
  The bottom page of the stack is the guard page.  The address is advanced once before the loop and then once in
  each round before the page is mapped.
\<close>

definition map_stack_page :: "frame \<Rightarrow> u32 \<Rightarrow> nat \<Rightarrow> 'z share_state_scheme \<Rightarrow> 'z share_state_scheme option" where
  "map_stack_page dir bottomVA i s = do {
     (f, s1) \<leftarrow> allocate_frame s;
     (r, s2) \<leftarrow> map_frame dir f (bottomVA + PAGE_SIZE + of_nat (Suc i) * PAGE_SIZE) (PERM_WRITEABLE OR PERM_USER OR PERM_PRESENT) s1;
     Some s2 }"

definition create_user_kern_stack ::
  "'z share_state_scheme dynalloc \<Rightarrow> frame \<Rightarrow> 'z share_state_scheme \<Rightarrow> (u32 \<times> 'z share_state_scheme) option" where
  "create_user_kern_stack da dir s = do {
     assert_that (use_kheap s);
     (bottomVA, s1) \<leftarrow> kmalloc da KERNEL_STACK_SIZE s;
     let numPages = KERNEL_STACK_SIZE div PAGE_SIZE;
     (u, s2) \<leftarrow> pt_set_page_permissions dir bottomVA 0 PERM_PRESENT s1;
     s3 \<leftarrow> run_all (map_stack_page dir bottomVA) [0..<unat numPages] s2;
     Some (bottomVA, s3) }"

definition release_stack_page :: "frame \<Rightarrow> u32 \<Rightarrow> 'z share_state_scheme \<Rightarrow> 'z share_state_scheme option" where
  "release_stack_page dir va s = do {
     (fi, t) \<leftarrow> get_frame_info dir va s;
     case fi of
       None \<Rightarrow> Some s
     | Some f \<Rightarrow> do { (u, s1) \<leftarrow> unmap_frame dir va s; (u, s2) \<leftarrow> free_frame f s1; Some s2 } }"

definition delete_user_kern_stack ::
  "'z share_state_scheme dynalloc \<Rightarrow> env_ptr \<Rightarrow> 'z share_state_scheme \<Rightarrow> 'z share_state_scheme option" where
  "delete_user_kern_stack da e s = do {
     assert_that (use_kheap s);
     let va_start = kstack (envs s e);
     if va_start = 0 then Some s
     else do {
       dir \<leftarrow> env_dir e s;
       s1 \<leftarrow> each_page PAGES_32 (release_stack_page dir) va_start (va_start + KERNEL_STACK_SIZE) s;
       (u, s2) \<leftarrow> kfree da va_start s1;
       Some (envs_upd e (\<lambda>x. x\<lparr>kstack := 0\<rparr>) s2) } }"

text \<open>The next identifier of slot \<open>index\<close> after \<open>old_id\<close>, in 32-bit arithmetic.\<close>

definition next_env_id :: "int \<Rightarrow> nat \<Rightarrow> nat \<Rightarrow> int" where
  "next_env_id old_id n index =
     (let shift = unat (log2_ceil (of_nat n));
          generation = ((word_of_int old_id :: u32) + push_bit shift 1) AND NOT (nearest_pow2_ceil (of_nat n) - 1);
          generation = (if sint generation \<le> 0 then push_bit shift 1 else generation)
      in sint (generation OR of_nat index))"

definition complete_environment_initialization :: "env_ptr \<Rightarrow> 'z share_state_scheme \<Rightarrow> 'z share_state_scheme option" where
  "complete_environment_initialization e s = do {
     dir \<leftarrow> env_dir e s;
     let cr3 = env_cr3 (envs s e);
     let s1 = write_phys dir (PDX VPT) (cr3 OR PERM_PRESENT OR PERM_WRITEABLE) s;
     let s2 = write_phys dir (PDX UVPT) (cr3 OR PERM_PRESENT OR PERM_USER) s1;
     let s3 = envs_upd e (\<lambda>x. x\<lparr>disk_env_pgdir := None, disk_env_pgdir_PA := 0, disk_env_tabledir := None, disk_env_tabledir_PA := 0,
            env_id := next_env_id (env_id x) (nenv s) e\<rparr>) s2;
     let parent = (case cpu_proc s3 of None \<Rightarrow> 0 | Some c \<Rightarrow> env_id (envs s3 c));
     let s4 = envs_upd e (\<lambda>x. x\<lparr>env_parent_id := parent, env_status := ENV_NEW, env_runs := 0, tf_eip := 0, tf_esp := USTACKTOP\<rparr>) s3;
     l \<leftarrow> remove_l e (env_free_list s4);
     Some (s4\<lparr>env_free_list := l\<rparr>) }"

text \<open>The user part of the directory is cleared and the kernel part copied from the kernel's directory.\<close>

definition init_directory :: "frame \<Rightarrow> 'z mem_state_scheme \<Rightarrow> 'z mem_state_scheme" where
  "init_directory dir s = s\<lparr>phys := (phys s)(dir := (\<lambda>i. if i < PDX USER_TOP then 0
     else if i < 1024 then phys s (ptr_page_directory s) i else phys s dir i))\<rparr>"

definition initialize_environment ::
  "'z share_state_scheme dynalloc \<Rightarrow> env_ptr \<Rightarrow> frame \<Rightarrow> u32 \<Rightarrow> 'z share_state_scheme \<Rightarrow> 'z share_state_scheme option" where
  "initialize_environment da e dir phys_user_page_directory s = do {
     let s1 = init_directory dir (envs_upd e (\<lambda>x. x\<lparr>env_page_directory := Some dir, env_cr3 := phys_user_page_directory\<rparr>) s);
     (stk, s2) \<leftarrow> create_user_kern_stack da dir s1;
     let s3 = envs_upd e (\<lambda>x. x\<lparr>kstack := stk, page_WS_list := [], referenceStreamList := [],
            ptr_tws := (\<lambda>i. if i < TWS_MAX_SIZE
              then (ptr_tws x i)\<lparr>ws_virtual_address := 0, ws_empty := True, time_stamp := 0\<rparr> else ptr_tws x i),
            table_last_WS_index := 0, pageFaultsCounter := 0, tableFaultsCounter := 0, freeingFullWSCounter := 0,
            freeingScarceMemCounter := 0, nModifiedPages := 0, nNotModifiedPages := 0, nClocks := 0, nPageIn := 0,
            nPageOut := 0, nNewPageAdded := 0\<rparr>) s2;
     complete_environment_initialization e s3 }"

definition set_environment_entry_point :: "env_ptr \<Rightarrow> Elf \<Rightarrow> 'z share_state_scheme \<Rightarrow> 'z share_state_scheme option" where
  "set_environment_entry_point e h s = do {
     assert_that (e_magic h = ELF_MAGIC);
     Some (envs_upd e (\<lambda>x. x\<lparr>tf_eip := e_entry h\<rparr>) s) }"

section \<open>Loading the segments\<close>

text \<open>
  With the lists of the LRU approximation an element goes to the active list while that has fewer than \<open>lim\<close>
  elements, as unsigned numbers, and else to the second list.
\<close>

definition move_to_lru :: "env_ptr \<Rightarrow> u32 \<Rightarrow> int \<Rightarrow> 'z share_state_scheme \<Rightarrow> 'z share_state_scheme option" where
  "move_to_lru e wse lim s =
     (if PageRepAlgoType s \<noteq> PG_REP_LRU_LISTS_APPROX then Some s
      else do {
        l \<leftarrow> remove_l wse (page_WS_list (envs s e));
        let s1 = envs_upd e (\<lambda>x. x\<lparr>page_WS_list := l\<rparr>) s;
        if (of_nat (length (ActiveList (envs s1 e))) :: u32) < word_of_int lim
        then do { a \<leftarrow> insert_l wse (ActiveList (envs s1 e)); Some (envs_upd e (\<lambda>x. x\<lparr>ActiveList := a\<rparr>) s1) }
        else do { a \<leftarrow> insert_l wse (SecondList (envs s1 e)); Some (envs_upd e (\<lambda>x. x\<lparr>SecondList := a\<rparr>) s1) } })"

definition set_last_ws :: "env_ptr \<Rightarrow> 'z share_state_scheme \<Rightarrow> 'z share_state_scheme" where
  "set_last_ws e = envs_upd e (\<lambda>x. x\<lparr>page_last_WS_element :=
     (if of_nat (length (page_WS_list x)) = page_WS_max_size x then (case page_WS_list x of [] \<Rightarrow> 0 | p # _ \<Rightarrow> p) else 0)\<rparr>)"

text \<open>A new page table is recorded in the working set of tables, which must not become full.\<close>

definition note_table :: "env_ptr \<Rightarrow> u32 \<Rightarrow> u32 \<Rightarrow> 'z share_state_scheme \<Rightarrow> (u32 \<times> 'z share_state_scheme) option" where
  "note_table e iVA lastTableNumber s =
     (if PDX iVA = lastTableNumber then Some (lastTableNumber, s)
      else do {
        let i = table_last_WS_index (envs s e);
        let s1 = envs_upd e (\<lambda>x. x\<lparr>ptr_tws := (ptr_tws x)(unat i := (ptr_tws x (unat i))
            \<lparr>ws_virtual_address := ROUNDDOWN iVA (PAGE_SIZE * 1024), ws_empty := False, time_stamp := 0\<rparr>),
            table_last_WS_index := (i + 1) mod of_nat TWS_MAX_SIZE\<rparr>) s;
        assert_that (table_last_WS_index (envs s1 e) \<noteq> 0);
        Some (PDX iVA, s1) })"

fun alloc_segment_pages ::
  "nat \<Rightarrow> 'z share_state_scheme dynalloc \<Rightarrow> env_ptr \<Rightarrow> u32 \<Rightarrow> u32 \<Rightarrow> u32 \<Rightarrow> u32 \<Rightarrow> 'z share_state_scheme \<Rightarrow> ((u32 \<times> u32) \<times> 'z share_state_scheme) option" where
  "alloc_segment_pages 0 da e iVA end_vaddr allocated_pages lastTableNumber s = Some ((allocated_pages, lastTableNumber), s)"
| "alloc_segment_pages (Suc n) da e iVA end_vaddr allocated_pages lastTableNumber s =
     (if iVA < end_vaddr then do {
        (p, s1) \<leftarrow> allocate_frame s;
        dir \<leftarrow> env_dir e s1;
        (r, s2) \<leftarrow> loadtime_map_frame dir p iVA (PERM_USER OR PERM_WRITEABLE) s1;
        (wse, s3) \<leftarrow> env_page_ws_list_create_element da iVA s2;
        l \<leftarrow> insert_tail_l wse (page_WS_list (envs s3 e));
        s4 \<leftarrow> move_to_lru e wse (ActiveListSize (envs s3 e) - 1) (envs_upd e (\<lambda>x. x\<lparr>page_WS_list := l\<rparr>) s3);
        (lastTableNumber, s5) \<leftarrow> note_table e iVA lastTableNumber (set_last_ws e s4);
        alloc_segment_pages n da e (iVA + PAGE_SIZE) end_vaddr (allocated_pages + 1) lastTableNumber s5 }
      else Some ((allocated_pages, lastTableNumber), s))"

text \<open>How many pages of a segment may be loaded at once.\<close>

definition segment_quota :: "string \<Rightarrow> u32 \<Rightarrow> u32 \<Rightarrow> u32" where
  "segment_quota name iVA remaining_ws_pages =
     (let n = (if iVA = 0x200000 then 0 else remaining_ws_pages)
      in if iVA = 0x803000 \<and> name \<in> {''tpp'', ''tia'', ''tia_slave1'', ''tia_slave2'', ''tia_slave3'', ''tia_slave4''}
         then (if n < 9 then n else 9) else n)"

definition program_segment_alloc_map_copy_workingset ::
  "'z share_state_scheme dynalloc \<Rightarrow> env_ptr \<Rightarrow> ProgramSegment \<Rightarrow> u32 \<Rightarrow> u32 \<Rightarrow> 'z share_state_scheme \<Rightarrow> ((u32 \<times> u32) \<times> 'z share_state_scheme) option" where
  "program_segment_alloc_map_copy_workingset da e seg remaining_ws_pages lastTableNumber s = do {
     let vaddr = seg_virtual_address seg;
     let end_vaddr = ROUNDUP (vaddr + size_in_memory seg) PAGE_SIZE;
     let iVA = ROUNDDOWN vaddr PAGE_SIZE;
     ((allocated_pages, lastTableNumber), s1) \<leftarrow>
        alloc_segment_pages (unat (segment_quota (prog_name (envs s e)) iVA remaining_ws_pages)) da e iVA end_vaddr 0 lastTableNumber s;
     let lim = iVA + allocated_pages * PAGE_SIZE;
     let copy_end = min lim (vaddr + size_in_file seg);
     s2 \<leftarrow> copy_bytes vaddr (seg_ptr_start seg) copy_end s1;
     s3 \<leftarrow> zero_bytes (max vaddr copy_end) lim s2;
     Some ((allocated_pages, lastTableNumber), s3) }"

text \<open>
  The segment in the page file: its first page when it does not start at a page boundary, the pages in between, the
  last page, and empty pages up to its size in memory.  The first and the last page are put together in a
  temporary page.
\<close>

definition ptr_temp_page :: u32 where "ptr_temp_page = KERNEL_BASE + 2 * PAGE_SIZE"

definition add_page ::
  "'z share_state_scheme ide_ops \<Rightarrow> env_ptr \<Rightarrow> u32 \<Rightarrow> u32 \<Rightarrow> 'z share_state_scheme \<Rightarrow> 'z share_state_scheme option" where
  "add_page ide e va src s = do {
     (r, s1) \<leftarrow> pf_add_env_page ide e va src s;
     assert_that (r \<noteq> E_NO_PAGE_FILE_SPACE);
     Some s1 }"

definition add_empty_page ::
  "'z share_state_scheme ide_ops \<Rightarrow> env_ptr \<Rightarrow> u32 \<Rightarrow> 'z share_state_scheme \<Rightarrow> 'z share_state_scheme option" where
  "add_empty_page ide e va s = do {
     (r, s1) \<leftarrow> pf_add_empty_env_page ide e va True s;
     assert_that (r \<noteq> E_NO_PAGE_FILE_SPACE);
     Some s1 }"

definition copy_range :: "u32 \<Rightarrow> u32 \<Rightarrow> u32 \<Rightarrow> u32 \<Rightarrow> 'z mem_state_scheme \<Rightarrow> 'z mem_state_scheme option" where
  "copy_range dst src lo hi s = (if lo < hi then copy_bytes dst src (dst + (hi - lo)) s else Some s)"

text \<open>The bytes after the page that holds the end of the file part, rounded up to pages.\<close>

definition remaining_bytes :: "ProgramSegment \<Rightarrow> u32" where
  "remaining_bytes seg =
     (let start_remaining_area = ROUNDUP (seg_virtual_address seg + size_in_file seg) PAGE_SIZE;
          remainingLength = (seg_virtual_address seg + size_in_memory seg) - start_remaining_area
      in ROUNDUP remainingLength PAGE_SIZE)"

definition segment_to_page_file ::
  "'z share_state_scheme ide_ops \<Rightarrow> env_ptr \<Rightarrow> ProgramSegment \<Rightarrow> 'z share_state_scheme \<Rightarrow> 'z share_state_scheme option" where
  "segment_to_page_file ide e seg s = do {
     let src = seg_ptr_start seg;
     let seg_va = seg_virtual_address seg;
     let start_first_page = ROUNDDOWN seg_va PAGE_SIZE;
     let end_first_page = ROUNDUP seg_va PAGE_SIZE;
     let offset_first_page = seg_va - start_first_page;
     s1 \<leftarrow> (if offset_first_page \<noteq> 0
            then do {
              s1 \<leftarrow> mmu_clear_page ptr_temp_page s;
              s2 \<leftarrow> copy_range (ptr_temp_page + offset_first_page) src seg_va end_first_page s1;
              add_page ide e start_first_page ptr_temp_page s2 }
            else Some s);
     let src1 = (if offset_first_page \<noteq> 0 \<and> seg_va < end_first_page then src + (end_first_page - seg_va) else src);
     let start_last_page = ROUNDDOWN (seg_va + size_in_file seg) PAGE_SIZE;
     let end_last_page = seg_va + size_in_file seg;
     s2 \<leftarrow> each_page PAGES_32 (\<lambda>i. add_page ide e i (src1 + (i - end_first_page))) end_first_page start_last_page s1;
     let src2 = (if end_first_page < start_last_page then src1 + (start_last_page - end_first_page) else src1);
     s3 \<leftarrow> mmu_clear_page ptr_temp_page s2;
     s4 \<leftarrow> copy_range ptr_temp_page src2 start_last_page end_last_page s3;
     s5 \<leftarrow> add_page ide e start_last_page ptr_temp_page s4;
     let start_remaining_area = ROUNDUP (seg_va + size_in_file seg) PAGE_SIZE;
     each_page PAGES_32 (\<lambda>i. add_empty_page ide e (start_remaining_area + i)) 0 (remaining_bytes seg) s5 }"

definition load_segment ::
  "'z share_state_scheme dynalloc \<Rightarrow> 'z share_state_scheme ide_ops \<Rightarrow> env_ptr \<Rightarrow> ProgramSegment \<Rightarrow>
   (u32 \<times> u32) \<times> 'z share_state_scheme \<Rightarrow> ((u32 \<times> u32) \<times> 'z share_state_scheme) option" where
  "load_segment da ide e seg = (\<lambda>((remaining_ws_pages, lastTableNumber), s). do {
     ((allocated_pages, lastTableNumber), s1) \<leftarrow>
        program_segment_alloc_map_copy_workingset da e seg remaining_ws_pages lastTableNumber s;
     s2 \<leftarrow> segment_to_page_file ide e seg s1;
     Some ((remaining_ws_pages - allocated_pages, lastTableNumber), s2) })"

section \<open>Creating and freeing a process\<close>

definition clear_modified :: "frame \<Rightarrow> u32 \<Rightarrow> 'z share_state_scheme \<Rightarrow> 'z share_state_scheme option" where
  "clear_modified dir wse s = do {
     let va = ws_virtual_address (ws_elems s wse);
     (r, tbl) \<leftarrow> get_page_table dir va s;
     t \<leftarrow> tbl;
     Some (write_phys t (PTX va) (phys s t (PTX va) AND NOT PERM_MODIFIED) s) }"

text \<open>The page of the initial stack; the loop around it runs once.\<close>

definition create_stack_page ::
  "'z share_state_scheme dynalloc \<Rightarrow> 'z share_state_scheme ide_ops \<Rightarrow> env_ptr \<Rightarrow> 'z share_state_scheme \<Rightarrow> 'z share_state_scheme option" where
  "create_stack_page da ide e s = do {
     let stackVa = USTACKTOP - PAGE_SIZE;
     (pp, s1) \<leftarrow> allocate_frame s;
     dir \<leftarrow> env_dir e s1;
     (r, s2) \<leftarrow> loadtime_map_frame dir pp stackVa (PERM_USER OR PERM_WRITEABLE) s1;
     s3 \<leftarrow> mmu_clear_page stackVa s2;
     (wse, s4) \<leftarrow> env_page_ws_list_create_element da stackVa s3;
     l \<leftarrow> insert_tail_l wse (page_WS_list (envs s4 e));
     let s5 = set_last_ws e (envs_upd e (\<lambda>x. x\<lparr>page_WS_list := l\<rparr>) s4);
     s6 \<leftarrow> move_to_lru e wse (ActiveListSize (envs s5 e)) s5;
     (r, s7) \<leftarrow> pf_add_empty_env_page ide e stackVa True s6;
     Some s7 }"

definition hide_second_list :: "env_ptr \<Rightarrow> 'z share_state_scheme \<Rightarrow> 'z share_state_scheme option" where
  "hide_second_list e s =
     (if PageRepAlgoType s \<noteq> PG_REP_LRU_LISTS_APPROX then Some s
      else do {
        dir \<leftarrow> env_dir e s;
        run_all (\<lambda>p s. do {
          (u, s1) \<leftarrow> pt_set_page_permissions dir (ws_virtual_address (ws_elems s p)) 0 PERM_PRESENT s;
          Some s1 }) (SecondList (envs s e)) s })"

definition init_sizes :: "env_ptr \<Rightarrow> string \<Rightarrow> u32 \<Rightarrow> u32 \<Rightarrow> u32 \<Rightarrow> 'z share_state_scheme \<Rightarrow> 'z share_state_scheme" where
  "init_sizes e name page_WS_size LRU_second_list_size percent_WS_pages_to_remove s =
     envs_upd e (\<lambda>x. x\<lparr>prog_name := (if length name < 64 then name else take 63 name), page_WS_max_size := page_WS_size,
       SecondListSize := (if PageRepAlgoType s = PG_REP_LRU_LISTS_APPROX then sint LRU_second_list_size else SecondListSize x),
       ActiveListSize := (if PageRepAlgoType s = PG_REP_LRU_LISTS_APPROX
                          then sint (page_WS_size - LRU_second_list_size) else ActiveListSize x),
       percentage_of_WS_pages_to_be_removed :=
         (if percent_WS_pages_to_remove = 0 then 10 else percent_WS_pages_to_remove)\<rparr>) s"

text \<open>Steps 6 to 11: in the address space of the new process, its segments and its stack are loaded.\<close>

definition load_program ::
  "'z share_state_scheme dynalloc \<Rightarrow> 'z share_state_scheme ide_ops \<Rightarrow> Elf \<Rightarrow> u32 \<Rightarrow> env_ptr \<Rightarrow> 'z share_state_scheme \<Rightarrow> 'z share_state_scheme option" where
  "load_program da ide h start e s = do {
     let cur_phys_pgdir = cpu_cr3 s;
     let s1 = s\<lparr>cpu_cr3 := env_cr3 (envs s e)\<rparr>;
     (r, s2) \<leftarrow> PROGRAM_SEGMENT_FOREACH h start (load_segment da ide e) ((page_WS_max_size (envs s1 e) - 1, 0xFFFFFFFF), s1);
     dir \<leftarrow> env_dir e s2;
     s3 \<leftarrow> run_all (clear_modified dir) (page_WS_list (envs s2 e)) s2;
     s4 \<leftarrow> set_environment_entry_point e h s3;
     s5 \<leftarrow> create_stack_page da ide e (envs_upd e (\<lambda>x. x\<lparr>initNumStackPages := 1\<rparr>) s4);
     s6 \<leftarrow> hide_second_list e s5;
     Some (s6\<lparr>cpu_cr3 := cur_phys_pgdir\<rparr>) }"

text \<open>The null pointer is \<open>None\<close>.  Without the kernel heap \<open>create_user_kern_stack\<close> panics, so no process can be created.\<close>

definition env_create ::
  "'z share_state_scheme dynalloc \<Rightarrow> 'z share_state_scheme ide_ops \<Rightarrow> UserProgramInfo list \<Rightarrow> (u32 \<Rightarrow> Elf) \<Rightarrow>
   string \<Rightarrow> u32 \<Rightarrow> u32 \<Rightarrow> u32 \<Rightarrow> 'z share_state_scheme \<Rightarrow> (env_ptr option \<times> 'z share_state_scheme) option" where
  "env_create da ide progs elf name page_WS_size LRU_second_list_size percent s = do {
     let s1 = pushcli s;
     case get_user_program_info progs name of
       None \<Rightarrow> do { s2 \<leftarrow> popcli s1; Some (None, s2) }
     | Some info \<Rightarrow> do {
         let ((r, eo), s2) = allocate_environment s1;
         case eo of
           None \<Rightarrow> do { s3 \<leftarrow> popcli s2; Some (None, s3) }
         | Some e \<Rightarrow> do {
             assert_that (use_kheap s2);
             (ptr, s3) \<leftarrow> create_user_directory da s2;
             pa \<leftarrow> kheap_physical_address ptr s3;
             let s4 = init_sizes e (up_name info) page_WS_size LRU_second_list_size percent s3;
             s5 \<leftarrow> initialize_environment da e (unat (PPN pa)) pa s4;
             s6 \<leftarrow> load_program da ide (elf (up_start info)) (up_start info) e s5;
             s7 \<leftarrow> popcli s6;
             let vas = map (\<lambda>p. ws_virtual_address (ws_elems s7 p)) (page_WS_list (envs s7 e));
             (p, s8) \<leftarrow> kmalloc da (4 * of_nat (length vas)) s7;
             assert_that (p \<noteq> 0 \<or> vas = []);
             Some (Some e, envs_upd e (\<lambda>x. x\<lparr>prepagedVAs := vas\<rparr>) s8) } } }"

text \<open>\<open>env_free\<close> ends in a panic after it has given back the pages of the page file and the slot.\<close>

definition env_free :: "'z share_state_scheme dynalloc \<Rightarrow> env_ptr \<Rightarrow> 'z share_state_scheme \<Rightarrow> 'z share_state_scheme option" where
  "env_free da e s = do {
     s1 \<leftarrow> pf_free_env da e s;
     s2 \<leftarrow> free_environment e s1;
     assert_that False;
     Some s2 }"

section \<open>Killing processes\<close>

text \<open>Taking a process out of its queue and freeing it, with or without the lock; the loops run over the queue as it was.\<close>

definition kill_one ::
  "'z share_state_scheme dynalloc \<Rightarrow> env_ptr \<Rightarrow> 'z share_state_scheme \<Rightarrow> 'z share_state_scheme option" where
  "kill_one da e s = do { s1 \<leftarrow> delete_user_kern_stack da e s; env_free da e s1 }"

definition sched_kill_env ::
  "'z share_state_scheme dynalloc \<Rightarrow> int \<Rightarrow> 'z share_state_scheme \<Rightarrow> (control \<times> 'z share_state_scheme) option" where
  "sched_kill_env da envId s = do {
     s1 \<leftarrow> acquire_kspinlock QLOCK s;
     (ptr_env, s2) \<leftarrow> (case find_env_l (\<lambda>p. env_id (envs s1 p)) envId (env_new_queue s1) of
         Some e \<Rightarrow> do { s2 \<leftarrow> sched_remove_new (Some e) s1; Some (Some e, s2) }
       | None \<Rightarrow> remove_id_from_ready (num_of_ready_queues s1) 0 envId s1);
     (ptr_env, s3) \<leftarrow> (case ptr_env of
         Some e \<Rightarrow> Some (Some e, s2)
       | None \<Rightarrow> (case find_env_l (\<lambda>p. env_id (envs s2 p)) envId (env_exit_queue s2) of
           Some e \<Rightarrow> do { s3 \<leftarrow> sched_remove_exit (Some e) s2; Some (Some e, s3) }
         | None \<Rightarrow> Some (None, s2)));
     s4 \<leftarrow> release_kspinlock QLOCK s3;
     case ptr_env of
       Some e \<Rightarrow> do { s5 \<leftarrow> kill_one da e s4; Some (Returns, s5) }
     | None \<Rightarrow> do {
         cur_env \<leftarrow> cpu_proc s4;
         if env_id (envs s4 cur_env) \<noteq> envId then Some (Returns, s4)
         else do {
           assert_that (env_status (envs s4 cur_env) = ENV_RUNNING);
           s5 \<leftarrow> kill_one da cur_env s4;
           s6 \<leftarrow> acquire_kspinlock QLOCK s5;
           (saved, s7) \<leftarrow> sched_enter s6;
           Some (Switch_to_scheduler, s7) } } }"

fun kill_ready :: "'z share_state_scheme dynalloc \<Rightarrow> nat \<Rightarrow> nat \<Rightarrow> 'z share_state_scheme \<Rightarrow> 'z share_state_scheme option" where
  "kill_ready da 0 i s = Some s"
| "kill_ready da (Suc n) i s = do {
     q \<leftarrow> rq_get (int i) s;
     s1 \<leftarrow> run_all (\<lambda>p s. do {
        q \<leftarrow> rq_get (int i) s;
        q' \<leftarrow> remove_l p q;
        kill_one da p (rq_set (int i) q' s) }) q s;
     kill_ready da n (Suc i) s1 }"

text \<open>Up to the call of \<open>get_into_prompt\<close>, or to the switch when there is a current process.\<close>

definition sched_kill_all ::
  "'z share_state_scheme dynalloc \<Rightarrow> 'z share_state_scheme \<Rightarrow> (control \<times> 'z share_state_scheme) option" where
  "sched_kill_all da s = do {
     s1 \<leftarrow> acquire_kspinlock QLOCK s;
     s2 \<leftarrow> run_all (\<lambda>p s. do { s1 \<leftarrow> sched_remove_new (Some p) s; kill_one da p s1 }) (env_new_queue s1) s1;
     s3 \<leftarrow> kill_ready da (num_of_ready_queues s2) 0 s2;
     s4 \<leftarrow> run_all (\<lambda>p s. do { s1 \<leftarrow> sched_remove_exit (Some p) s; kill_one da p s1 }) (env_exit_queue s3) s3;
     case cpu_proc s4 of
       None \<Rightarrow> do { s5 \<leftarrow> release_kspinlock QLOCK s4; Some (Returns, s5) }
     | Some c \<Rightarrow> do {
         assert_that (env_status (envs s4 c) = ENV_RUNNING);
         s5 \<leftarrow> kill_one da c s4;
         (saved, s6) \<leftarrow> sched_enter s5;
         Some (Switch_to_scheduler, s6) } }"

end
