(* ===== verification/FOS_Console.thy ===== *)
theory FOS_Console
  imports FOS_Queue
begin

unbundle bit_operations_syntax

text \<open>
  The console (\<open>kern/cons/console.c\<close>): the screen of the CGA adapter with its cursor, the keyboard decoder and the
  circular input buffer.  The devices are part of the state: video memory, the cursor registers, the bytes the
  keyboard controller and the serial port have ready, and what went to the parallel port.
\<close>

record console =
  cons_buf :: "u8 list"
  rpos :: u32
  wpos :: u32
  serial_exists :: bool
  crt_buf :: "nat \<Rightarrow> u16"
  crt_pos :: u16
  cursor :: "u8 \<times> u8"
  text_length :: int
  current_text_color :: u32
  kbd_shift :: u32
  kbd_data :: "u8 list"
  serial_data :: "u8 list"
  lpt_out :: "u8 list"

definition CRT_COLS :: nat where "CRT_COLS = 80"
definition CRT_SIZE :: nat where "CRT_SIZE = 25 * CRT_COLS"
definition CONSBUFSIZE :: nat where "CONSBUFSIZE = 512"

definition KEY_LF :: u32 where "KEY_LF = 0xE4"
definition KEY_RT :: u32 where "KEY_RT = 0xE5"
definition KEY_DEL :: int where "KEY_DEL = 0xE9"

section \<open>The screen\<close>

definition lpt_putc :: "u32 \<Rightarrow> console \<Rightarrow> console" where
  "lpt_putc c s = s\<lparr>lpt_out := lpt_out s @ [ucast c]\<rparr>"

text \<open>The character with its colour, as \<open>cga_putc\<close> completes it.\<close>

definition cga_attr :: "u32 \<Rightarrow> console \<Rightarrow> u32" where
  "cga_attr c s =
     (if c AND NOT 0xFF = 0 then c OR (if current_text_color s = 0 then 0x700 else current_text_color s) else c)"

text \<open>The switch of \<open>cga_putc\<close> without the tab.\<close>

definition cga_cell :: "u32 \<Rightarrow> console \<Rightarrow> console" where
  "cga_cell c s =
     (let k = c AND 0xFF; p = unat (crt_pos s)
      in if k = 8 then
           (if crt_pos s > 0
            then s\<lparr>crt_pos := crt_pos s - 1, crt_buf := (crt_buf s)(p - 1 := ucast (c AND NOT 0xFF OR 0x20))\<rparr> else s)
         else if k = 10 then
           (let q = crt_pos s + of_nat CRT_COLS in s\<lparr>crt_pos := q - q mod of_nat CRT_COLS, text_length := 0\<rparr>)
         else if k = 13 then s\<lparr>crt_pos := crt_pos s - crt_pos s mod of_nat CRT_COLS\<rparr>
         else if k = KEY_LF then (if crt_pos s > 0 then s\<lparr>crt_pos := crt_pos s - 1\<rparr> else s)
         else if k = KEY_RT then (if p < CRT_SIZE then s\<lparr>crt_pos := crt_pos s + 1\<rparr> else s)
         else if c \<noteq> KEY_LF \<and> c \<noteq> KEY_RT then
           (let s1 = s\<lparr>crt_buf := (crt_buf s)(p := ucast c), crt_pos := crt_pos s + 1\<rparr>
            in if int (unat (crt_pos s1)) > 1920 + text_length s1 then s1\<lparr>text_length := text_length s1 + 1\<rparr> else s1)
         else s)"

text \<open>Scrolling when the position is behind the screen, and the cursor registers.\<close>

definition cga_scroll :: "console \<Rightarrow> console" where
  "cga_scroll s =
     (if CRT_SIZE \<le> unat (crt_pos s)
      then s\<lparr>crt_buf := (\<lambda>i. if i < CRT_SIZE - CRT_COLS then crt_buf s (i + CRT_COLS)
                             else if i < CRT_SIZE then 0x0720 else crt_buf s i),
             crt_pos := crt_pos s - of_nat CRT_COLS\<rparr>
      else s)"

definition cga_finish :: "console \<Rightarrow> console" where
  "cga_finish s =
     (let s1 = cga_scroll s in s1\<lparr>cursor := (ucast (drop_bit 8 (crt_pos s1)), ucast (crt_pos s1))\<rparr>)"

definition cga_putc1 :: "u32 \<Rightarrow> console \<Rightarrow> console" where
  "cga_putc1 c s = cga_finish (cga_cell (cga_attr c s) s)"

text \<open>A tab is five blanks, each put on the console like any character.\<close>

definition cga_putc :: "u32 \<Rightarrow> console \<Rightarrow> console" where
  "cga_putc c s =
     (if cga_attr c s AND 0xFF = 9 then cga_finish (((\<lambda>s. cga_putc1 0x20 (lpt_putc 0x20 s)) ^^ 5) s) else cga_putc1 c s)"

definition cons_putc :: "u32 \<Rightarrow> console \<Rightarrow> console" where
  "cons_putc c s = cga_putc c (lpt_putc c s)"

text \<open>The screen is written through a pointer to 32-bit words, two cells for each character.\<close>

definition clear_screen_buffer :: "console \<Rightarrow> console" where
  "clear_screen_buffer s =
     s\<lparr>crt_buf := (\<lambda>j. if j < 2 * CRT_SIZE then (if even j then 0x0720 else 0) else crt_buf s j), crt_pos := 0\<rparr>"

text \<open>At start the position comes from the cursor registers; the probe for the adapter leaves the screen as it was.\<close>

definition cga_init :: "console \<Rightarrow> console" where
  "cga_init s = s\<lparr>crt_pos := push_bit 8 (ucast (fst (cursor s))) OR ucast (snd (cursor s))\<rparr>"

section \<open>The keyboard\<close>

definition SHIFT :: u32 where "SHIFT = 1"
definition CTL :: u32 where "CTL = 2"
definition ALT :: u32 where "ALT = 4"
definition CAPSLOCK :: u32 where "CAPSLOCK = 8"
definition NUMLOCK :: u32 where "NUMLOCK = 16"
definition SCROLLLOCK :: u32 where "SCROLLLOCK = 32"
definition E0ESC :: u32 where "E0ESC = 64"

text \<open>A table of 256 bytes: its leading elements, and those given by index.\<close>

definition table :: "nat list \<Rightarrow> (nat \<times> nat) list \<Rightarrow> nat \<Rightarrow> nat" where
  "table xs ix i = (case map_of ix i of Some v \<Rightarrow> v | None \<Rightarrow> if i < length xs then xs ! i else 0)"

definition codes :: "string \<Rightarrow> nat list" where
  "codes s = map of_char s"

definition shiftcode :: "u8 \<Rightarrow> u32" where
  "shiftcode d = of_nat (table [] [(0x1D, 2), (0x2A, 1), (0x36, 1), (0x38, 4), (0x9D, 2), (0xB8, 4)] (unat d))"

definition togglecode :: "u8 \<Rightarrow> u32" where
  "togglecode d = of_nat (table [] [(0x3A, 8), (0x45, 16), (0x46, 32)] (unat d))"

definition special_keys :: "(nat \<times> nat) list" where
  "special_keys = [(0x97, 0xE0), (0xC8, 0xE2), (0xC9, 0xE6), (0xCB, 0xE4), (0xCD, 0xE5), (0xCF, 0xE1), (0xD0, 0xE3),
     (0xD1, 0xE7), (0xD2, 0xE8), (0xD3, 0xE9)]"

definition keypad :: "nat list" where
  "keypad = [0, 32, 0, 0, 0, 0, 0, 0, 0, 0, 0, 0, 0, 0, 0] @ codes ''789-456+1230.'' @ [0, 0, 0, 0]"

definition normalmap :: "nat \<Rightarrow> nat" where
  "normalmap = table
     ([0, 0x1B] @ codes ''1234567890-='' @ [8, 9] @ codes ''qwertyuiop[]'' @ [10, 0] @ codes ''asdfghjkl;'' @ [39, 96, 0, 92] @
      codes ''zxcvbnm,./'' @ [0, 42] @ keypad)
     ([(0x9C, 10), (0xB5, 47)] @ special_keys)"

definition shiftmap :: "nat \<Rightarrow> nat" where
  "shiftmap = table
     ([0, 0x1B] @ codes ''!@#$%^&*()_+'' @ [8, 9] @ codes ''QWERTYUIOP{}'' @ [10, 0] @ codes ''ASDFGHJKL:'' @ [34, 126, 0, 124] @
      codes ''ZXCVBNM<>?'' @ [0, 42] @ keypad)
     ([(0x9C, 10), (0xB5, 47)] @ special_keys)"

definition ctrl :: "string \<Rightarrow> nat list" where
  "ctrl s = map (\<lambda>c. of_char c - 64) s"

definition ctlmap :: "nat \<Rightarrow> nat" where
  "ctlmap = table
     (replicate 16 0 @ ctrl ''QWERTYUIOP'' @ [0, 0, 13, 0] @ ctrl ''ASDFGHJKL'' @ [0, 0, 0, 0, 28] @
      ctrl ''ZXCVBNM'' @ [0, 0, 239, 0, 0])
     ([(0x39, 0xFF), (0xB5, 239)] @ special_keys)"

definition charcode :: "u32 \<Rightarrow> u8 \<Rightarrow> int" where
  "charcode m d = int ((if m = 0 then normalmap else if m = 1 then shiftmap else ctlmap) (unat d))"

text \<open>The delete key moves the rest of the line one cell to the left.\<close>

fun shift_left :: "nat \<Rightarrow> nat \<Rightarrow> (nat \<Rightarrow> u16) \<Rightarrow> nat \<Rightarrow> u16" where
  "shift_left 0 i b = b"
| "shift_left (Suc n) i b = shift_left n (Suc i) (b(i := b (i + 1)))"

definition delete_key :: "console \<Rightarrow> int \<times> console" where
  "delete_key s =
     (if text_length s > 0 then
        (if int (unat (crt_pos s)) = 1920 + text_length s then (0, s)
         else (let tl = text_length s - 1; crt_pos_Length = int (unat (crt_pos s)) - 1925
               in (KEY_DEL, s\<lparr>text_length := tl,
                     crt_buf := shift_left (nat (tl - crt_pos_Length + 1)) (unat (crt_pos s)) (crt_buf s)\<rparr>)))
      else (0, s))"

definition apply_capslock :: "u32 \<Rightarrow> int \<Rightarrow> int" where
  "apply_capslock sh c =
     (if sh AND CAPSLOCK \<noteq> 0
      then (if 97 \<le> c \<and> c \<le> 122 then c - 32 else if 65 \<le> c \<and> c \<le> 90 then c + 32 else c) else c)"

text \<open>Digits of the keypad give nothing when only num lock is on; the test for the reboot keys is never reached.\<close>

definition special_key :: "u32 \<Rightarrow> int \<Rightarrow> int" where
  "special_key sh c = (if sh = NUMLOCK \<and> 48 \<le> c \<and> c \<le> 57 then 0 else if c = 255 then 0 else c)"

text \<open>A key that was pressed, with its code completed to eight bits.\<close>

definition key_pressed :: "u8 \<Rightarrow> console \<Rightarrow> int \<times> console" where
  "key_pressed data s =
     (let sh = (kbd_shift s OR shiftcode data) XOR togglecode data;
          s1 = s\<lparr>kbd_shift := sh\<rparr>;
          c = charcode (sh AND (CTL OR SHIFT)) data
      in if c = KEY_DEL then delete_key s1
         else (special_key sh (apply_capslock sh c), s1))"

definition kbd_proc_data :: "console \<Rightarrow> int \<times> console" where
  "kbd_proc_data s =
     (case kbd_data s of [] \<Rightarrow> (-1, s)
      | data # rest \<Rightarrow>
        (let s = s\<lparr>kbd_data := rest\<rparr>
         in if data = 0xE0 then (0, s\<lparr>kbd_shift := kbd_shift s OR E0ESC\<rparr>)
            else if data AND 0x80 \<noteq> 0 then
              (let data = (if kbd_shift s AND E0ESC \<noteq> 0 then data else data AND 0x7F)
               in (0, s\<lparr>kbd_shift := kbd_shift s AND NOT (shiftcode data OR E0ESC)\<rparr>))
            else if kbd_shift s AND E0ESC \<noteq> 0 then
              key_pressed (data OR 0x80) (s\<lparr>kbd_shift := kbd_shift s AND NOT E0ESC\<rparr>)
            else key_pressed data s))"

definition serial_proc_data :: "console \<Rightarrow> int \<times> console" where
  "serial_proc_data s = (case serial_data s of [] \<Rightarrow> (-1, s) | d # rest \<Rightarrow> (uint d, s\<lparr>serial_data := rest\<rparr>))"

section \<open>The input buffer\<close>

text \<open>One character that the device routine returned.\<close>

definition cons_store :: "int \<Rightarrow> console \<Rightarrow> console option" where
  "cons_store c s =
     (if c = 0 then Some s
      else do {
        assert_that (unat (wpos s) < CONSBUFSIZE);
        let w = wpos s + 1;
        Some (s\<lparr>cons_buf := (cons_buf s)[unat (wpos s) := word_of_int c], wpos := if w = of_nat CONSBUFSIZE then 0 else w\<rparr>) })"

fun cons_intr :: "nat \<Rightarrow> (console \<Rightarrow> int \<times> console) \<Rightarrow> console \<Rightarrow> console option" where
  "cons_intr 0 proc s = None"
| "cons_intr (Suc n) proc s =
     (let (c, s1) = proc s in if c = -1 then Some s1 else do { s2 \<leftarrow> cons_store c s1; cons_intr n proc s2 })"

definition kbd_intr :: "console \<Rightarrow> console option" where
  "kbd_intr s = cons_intr (Suc (length (kbd_data s))) kbd_proc_data s"

definition serial_intr :: "console \<Rightarrow> console option" where
  "serial_intr s = (if serial_exists s then cons_intr (Suc (length (serial_data s))) serial_proc_data s else Some s)"

definition cons_getc2 :: "console \<Rightarrow> (int \<times> console) option" where
  "cons_getc2 s =
     (if rpos s \<noteq> wpos s
      then do {
        assert_that (unat (rpos s) < CONSBUFSIZE);
        let r = rpos s + 1;
        Some (uint (cons_buf s ! unat (rpos s)), s\<lparr>rpos := if r = of_nat CONSBUFSIZE then 0 else r\<rparr>) }
      else Some (0, s))"

definition cons_getc :: "console \<Rightarrow> (int \<times> console) option" where
  "cons_getc s = do {
     s1 \<leftarrow> serial_intr s;
     s2 \<leftarrow> kbd_intr s1;
     cons_getc2 s2 }"

text \<open>\<open>getchar\<close> polls until a character is there; \<open>arrivals\<close> is what reaches the two devices before each poll.\<close>

fun getchar :: "(u8 list \<times> u8 list) list \<Rightarrow> console \<Rightarrow> (int \<times> console) option" where
  "getchar [] s = None"
| "getchar ((ser, kbd) # arrivals) s = do {
     (c, s1) \<leftarrow> cons_getc (s\<lparr>serial_data := serial_data s @ ser, kbd_data := kbd_data s @ kbd\<rparr>);
     if c = 0 then getchar arrivals s1 else Some (c, s1) }"

end
