(* ===== verification/FOS_Syscall.thy ===== *)
theory FOS_Syscall
  imports FOS_Env FOS_Console
begin

unbundle bit_operations_syntax

text \<open>
  The system calls (\<open>kern/trap/syscall.c\<close>) with the console lock and the keyboard interrupt
  (\<open>kern/cons/console.c\<close>) and the counter of the test programs (\<open>kern/tests/utilities.c\<close>), which complete the state
  of the kernel.

  A call returns a word, or it switches to the scheduler for good, or it sleeps in the middle (with the interrupt
  flag that \<open>sched\<close> saved), or it goes round its loop once more (\<open>Polls\<close>).  A user address is read through the page
  tables; a page that is not in memory would fault, which has no result here.
\<close>

named_theorems sys_consts

datatype lock_method = LCK_INT | LCK_SLEEP | LCK_SEMAPHORE

datatype outcome = Ret u32 | Switches control | Sleeps bool | Polls

record Trapframe =
  reg_edi :: u32
  reg_esi :: u32
  reg_ebx :: u32
  reg_edx :: u32
  reg_ecx :: u32
  reg_eax :: u32
  tf_trapno :: u32
  tf_ip :: u32
  tf_cs :: u16
  tf_eflags :: u32

record kernel_state = share_state +
  console_state :: console
  CONS_LCK_METHOD :: lock_method
  KBD_INT_BLK_METHOD :: lock_method
  trapframes :: "u32 \<Rightarrow> Trapframe"
  bypassInstrLength :: u8
  UHeapPlacementStrategy :: u32
  tstcnt :: u32
  memory_scarce_threshold_percentage :: u32

definition FL_IF :: u32 where [fos_consts]: "FL_IF = 0x200"
definition E_ENV_CREATION_ERROR :: int where [fos_consts]: "E_ENV_CREATION_ERROR = -17"
definition TEXT_DEFAULT_CLR :: u32 where [fos_consts]: "TEXT_DEFAULT_CLR = 0x700"

text \<open>The trap frame of a process is at the top of its kernel stack.\<close>

definition env_tf :: "env_ptr \<Rightarrow> 'z cpu_state_scheme \<Rightarrow> u32" where
  "env_tf e s = kstack (envs s e) + KERNEL_STACK_SIZE - 0x44"

definition tf_upd :: "u32 \<Rightarrow> (Trapframe \<Rightarrow> Trapframe) \<Rightarrow> 'z kernel_state_scheme \<Rightarrow> 'z kernel_state_scheme" where
  "tf_upd a f s = s\<lparr>trapframes := (trapframes s)(a := f (trapframes s a))\<rparr>"

text \<open>The semaphores and the sleep lock of the console, by number.\<close>

definition conslock :: nat where "conslock = 0"
definition conssem :: nat where "conssem = 0"
definition KBDsem :: nat where "KBDsem = 1"

section \<open>The console lock and the keyboard interrupt\<close>

definition progress_outcome :: "progress \<times> 's \<Rightarrow> outcome \<times> 's" where
  "progress_outcome = (\<lambda>(p, s). (case p of Done \<Rightarrow> Ret 0 | Blocked saved \<Rightarrow> Sleeps saved, s))"

definition set_user_IF :: "bool \<Rightarrow> 'z kernel_state_scheme \<Rightarrow> 'z kernel_state_scheme option" where
  "set_user_IF on s = do {
     let s1 = cli (kclock_stop s);
     p \<leftarrow> cpu_proc s1;
     Some (tf_upd (env_tf p s1) (\<lambda>tf. tf\<lparr>tf_eflags := if on then tf_eflags tf OR FL_IF else tf_eflags tf AND NOT FL_IF\<rparr>) s1) }"

definition cons_lock :: "'z kernel_state_scheme \<Rightarrow> (outcome \<times> 'z kernel_state_scheme) option" where
  "cons_lock s =
     (case CONS_LCK_METHOD s of
        LCK_INT \<Rightarrow> do { s1 \<leftarrow> set_user_IF False s; Some (Ret 0, s1) }
      | LCK_SLEEP \<Rightarrow> map_option progress_outcome (acquire_sleeplock conslock s)
      | LCK_SEMAPHORE \<Rightarrow> map_option progress_outcome (wait_ksemaphore conssem s))"

definition cons_unlock :: "'z kernel_state_scheme \<Rightarrow> 'z kernel_state_scheme option" where
  "cons_unlock s =
     (case CONS_LCK_METHOD s of
        LCK_INT \<Rightarrow> set_user_IF True s
      | LCK_SLEEP \<Rightarrow> release_sleeplock conslock s
      | LCK_SEMAPHORE \<Rightarrow> signal_ksemaphore conssem s)"

definition keyboard_interrupt_handler :: "'z kernel_state_scheme \<Rightarrow> 'z kernel_state_scheme option" where
  "keyboard_interrupt_handler s = do {
     c \<leftarrow> kbd_intr (console_state s);
     let s1 = s\<lparr>console_state := c\<rparr>;
     if rpos c \<noteq> wpos c
     then (case KBD_INT_BLK_METHOD s1 of
             LCK_INT \<Rightarrow> Some s1
           | LCK_SLEEP \<Rightarrow> wakeup_one KBD_CHAN s1
           | LCK_SEMAPHORE \<Rightarrow> signal_ksemaphore KBDsem s1)
     else Some s1 }"

definition serial_interrupt_handler :: "'z kernel_state_scheme \<Rightarrow> 'z kernel_state_scheme option" where
  "serial_interrupt_handler s = do { c \<leftarrow> serial_intr (console_state s); Some (s\<lparr>console_state := c\<rparr>) }"

section \<open>User memory\<close>

partial_function (option) user_string :: "u32 \<Rightarrow> 'z mem_state_scheme \<Rightarrow> char list option" where
  "user_string va s = do {
     b \<leftarrow> mmu_get_byte va s;
     if b = 0 then Some [NUL]
     else do { cs \<leftarrow> user_string (va + 1) s; Some (char_of (unat b) # cs) } }"

primrec user_bytes :: "nat \<Rightarrow> u32 \<Rightarrow> 'z mem_state_scheme \<Rightarrow> u8 list option" where
  "user_bytes 0 va s = Some []"
| "user_bytes (Suc n) va s = do {
     b \<leftarrow> mmu_get_byte va s;
     if b = 0 then Some [] else do { bs \<leftarrow> user_bytes n (va + 1) s; Some (b # bs) } }"

definition put_word :: "u32 \<Rightarrow> u32 \<Rightarrow> 'z mem_state_scheme \<Rightarrow> 'z mem_state_scheme option" where
  "put_word va w s = do {
     s1 \<leftarrow> mmu_put_byte va (byte_of w 0) s;
     s2 \<leftarrow> mmu_put_byte (va + 1) (byte_of w 1) s1;
     s3 \<leftarrow> mmu_put_byte (va + 2) (byte_of w 2) s2;
     mmu_put_byte (va + 3) (byte_of w 3) s3 }"

section \<open>Input and output\<close>

definition print_bytes :: "u8 list \<Rightarrow> console \<Rightarrow> console" where
  "print_bytes bs c = fold (\<lambda>b. cons_putc (ucast b)) bs c"

text \<open>\<open>prefix\<close> is the formatted text \<open>[name id]\<close>; with a precision the string ends at the length or at its end.\<close>

definition sys_cputs ::
  "(string \<Rightarrow> int \<Rightarrow> u8 list) \<Rightarrow> u32 \<Rightarrow> u32 \<Rightarrow> u8 \<Rightarrow> u32 \<Rightarrow> 'z kernel_state_scheme \<Rightarrow> 'z kernel_state_scheme option" where
  "sys_cputs prefix va n printProgName color s = do {
     cur_env \<leftarrow> cpu_proc s;
     let s1 = pushcli s;
     txt \<leftarrow> user_bytes (unat n) va s1;
     let out = (if printProgName \<noteq> 0 then prefix (prog_name (envs s1 cur_env)) (env_id (envs s1 cur_env)) else []) @ txt;
     let c = print_bytes out ((console_state s1)\<lparr>current_text_color := color\<rparr>);
     popcli (s1\<lparr>console_state := c\<lparr>current_text_color := TEXT_DEFAULT_CLR\<rparr>\<rparr>) }"

definition sys_cputc :: "u8 \<Rightarrow> 'z kernel_state_scheme \<Rightarrow> 'z kernel_state_scheme" where
  "sys_cputc c s = s\<lparr>console_state := cons_putc (ucast c) (console_state s)\<rparr>"

text \<open>
  One round of the loop of \<open>sys_cgetc\<close>.  With interrupts on it looks only at the buffer, and between the look and
  the sleep nothing excludes the keyboard interrupt; with interrupts off it polls the devices.
\<close>

definition sys_cgetc :: "'z kernel_state_scheme \<Rightarrow> (outcome \<times> 'z kernel_state_scheme) option" where
  "sys_cgetc s =
     (if eflags_IF s
      then do {
        (c, con) \<leftarrow> cons_getc2 (console_state s);
        let s1 = s\<lparr>console_state := con\<rparr>;
        if c \<noteq> 0 then Some (Ret (word_of_int c), s1)
        else (case KBD_INT_BLK_METHOD s1 of
                LCK_INT \<Rightarrow> Some (Polls, s1)
              | LCK_SLEEP \<Rightarrow> do {
                  s2 \<leftarrow> acquire_kspinlock KBDLOCK s1;
                  (saved, s3) \<leftarrow> sleep_enter KBD_CHAN KBDLOCK s2;
                  Some (Sleeps saved, s3) }
              | LCK_SEMAPHORE \<Rightarrow> do {
                  (p, s2) \<leftarrow> wait_ksemaphore KBDsem s1;
                  Some (case p of Done \<Rightarrow> Polls | Blocked saved \<Rightarrow> Sleeps saved, s2) }) }
      else do {
        (c, con) \<leftarrow> cons_getc (console_state s);
        Some (if c \<noteq> 0 then Ret (word_of_int c) else Polls, s\<lparr>console_state := con\<rparr>) })"

text \<open>A call that was woken goes round the loop again, or sleeps again in the loop of the semaphore.\<close>

definition sys_cgetc_resume :: "bool \<Rightarrow> 'z kernel_state_scheme \<Rightarrow> (outcome \<times> 'z kernel_state_scheme) option" where
  "sys_cgetc_resume saved s =
     (if KBD_INT_BLK_METHOD s = LCK_SLEEP
      then do { s1 \<leftarrow> sleep_leave KBDLOCK saved s; s2 \<leftarrow> release_kspinlock KBDLOCK s1; Some (Polls, s2) }
      else do {
        (p, s1) \<leftarrow> wait_ksemaphore_resume KBDsem saved s;
        Some (case p of Done \<Rightarrow> Polls | Blocked saved \<Rightarrow> Sleeps saved, s1) })"

section \<open>Memory\<close>

definition sys_allocate_page :: "u32 \<Rightarrow> u32 \<Rightarrow> 'z kernel_state_scheme \<Rightarrow> (int \<times> 'z kernel_state_scheme) option" where
  "sys_allocate_page va perm s =
     (case cpu_proc s of
        None \<Rightarrow> Some (E_BAD_ENV, s)
      | Some cur_env \<Rightarrow>
          if va \<ge> USER_TOP \<or> va mod PAGE_SIZE \<noteq> 0 then Some (E_INVAL, s)
          else if perm AND (NOT PERM_AVAILABLE AND NOT PERM_WRITEABLE) \<noteq> PERM_USER then Some (E_INVAL, s)
          else do {
            dir \<leftarrow> env_dir cur_env s;
            (ret, s1) \<leftarrow> alloc_page dir va perm True s;
            if ret = E_NO_MEM then Some (ret, s1) else Some (0, s1) })"

definition sys_unmap_frame :: "u32 \<Rightarrow> 'z kernel_state_scheme \<Rightarrow> (int \<times> 'z kernel_state_scheme) option" where
  "sys_unmap_frame va s =
     (case cpu_proc s of
        None \<Rightarrow> Some (E_BAD_ENV, s)
      | Some cur_env \<Rightarrow>
          if va \<ge> USER_TOP \<or> va mod PAGE_SIZE \<noteq> 0 then Some (E_INVAL, s)
          else do {
            dir \<leftarrow> env_dir cur_env s;
            (u, s1) \<leftarrow> unmap_frame dir va s;
            Some (0, s1) })"

definition sys_calculate_free_frames :: "'z kernel_state_scheme \<Rightarrow> (nat \<times> 'z kernel_state_scheme) option" where
  "sys_calculate_free_frames s = do {
     (counters, s1) \<leftarrow> calculate_available_frames s;
     Some (freeBuffered counters + freeNotBuffered counters, s1) }"

definition sys_calculate_modified_frames :: "'z kernel_state_scheme \<Rightarrow> (nat \<times> 'z kernel_state_scheme) option" where
  "sys_calculate_modified_frames s = do { (counters, s1) \<leftarrow> calculate_available_frames s; Some (modified counters, s1) }"

definition sys_calculate_notmod_frames :: "'z kernel_state_scheme \<Rightarrow> (nat \<times> 'z kernel_state_scheme) option" where
  "sys_calculate_notmod_frames s = do { (counters, s1) \<leftarrow> calculate_available_frames s; Some (freeBuffered counters, s1) }"

fun allocate_frames :: "nat \<Rightarrow> 'z mem_state_scheme \<Rightarrow> 'z mem_state_scheme option" where
  "allocate_frames 0 s = Some s"
| "allocate_frames (Suc n) s = do { (f, s1) \<leftarrow> allocate_frame s; allocate_frames n s1 }"

definition sys_clearFFL :: "'z kernel_state_scheme \<Rightarrow> 'z kernel_state_scheme option" where
  "sys_clearFFL s = do {
     s1 \<leftarrow> acquire_kspinlock MFLLOCK s;
     s2 \<leftarrow> allocate_frames (length (free_frame_list s1)) s1;
     release_kspinlock MFLLOCK s2 }"

text \<open>Allocates frames until the share that the threshold leaves is in use; all of it in unsigned arithmetic.\<close>

definition scarce_memory :: "'z kernel_state_scheme \<Rightarrow> 'z kernel_state_scheme option" where
  "scarce_memory s = do {
     let prod = (100 - memory_scarce_threshold_percentage s) * number_of_frames s;
     let total = (if prod mod 100 > 0 then prod div 100 + 1 else prod div 100);
     s1 \<leftarrow> acquire_kspinlock MFLLOCK s;
     let already = number_of_frames s1 - of_nat (length (free_frame_list s1));
     s2 \<leftarrow> allocate_frames (Suc (unat (total - already))) s1;
     release_kspinlock MFLLOCK s2 }"

text \<open>The number of pages that the cleaning of working sets would remove, in unsigned arithmetic as in C.\<close>

definition ws_size :: "env \<Rightarrow> 'z mem_state_scheme \<Rightarrow> u32" where
  "ws_size e s = of_nat (if use_kheap s then length (page_WS_list e) else env_page_ws_get_size e)"

definition pages_to_remove :: "u32 \<Rightarrow> u32 \<Rightarrow> u32" where
  "pages_to_remove percentage n = (let p = percentage * n in if p mod 100 > 0 then p div 100 + 1 else p div 100)"

definition calc_no_pages_tobe_removed_from_ready_exit_queues ::
  "u32 \<Rightarrow> 'z kernel_state_scheme \<Rightarrow> (u32 \<times> 'z kernel_state_scheme) option" where
  "calc_no_pages_tobe_removed_from_ready_exit_queues WS_or_MEMORY_flag s = do {
     cur_env \<leftarrow> cpu_proc s;
     let pc = percentage_of_WS_pages_to_be_removed (envs s cur_env);
     let own = pages_to_remove pc (ws_size (envs s cur_env) s);
     if WS_or_MEMORY_flag = 1
     then do {
       s1 \<leftarrow> acquire_kspinlock QLOCK s;
       let ready = sum_list (map (\<lambda>p. pages_to_remove pc (ws_size (envs s1 p) s1))
              (concat (take (num_of_ready_queues s1) (env_ready_queues s1))));
       let ext = sum_list (map (\<lambda>p. ws_size (envs s1 p) s1) (env_exit_queue s1));
       s2 \<leftarrow> release_kspinlock QLOCK s1;
       Some (own + ready + ext, s2) }
     else Some (own, s) }"

section \<open>The user heap and shared objects\<close>

definition bad_heap_range :: "u32 \<Rightarrow> u32 \<Rightarrow> bool" where
  "bad_heap_range va nbytes \<longleftrightarrow> va = 0 \<or> va \<ge> USER_HEAP_MAX \<or> va < USER_HEAP_START \<or>
     va + nbytes \<ge> USER_HEAP_MAX \<or> va + nbytes < USER_HEAP_START"

text \<open>A process with a bad range exits; only if \<open>env_exit\<close> came back would the call go on.\<close>

definition guarded_heap_call ::
  "(env_ptr \<Rightarrow> 'z kernel_state_scheme \<Rightarrow> 'z kernel_state_scheme option) \<Rightarrow> u32 \<Rightarrow> u32 \<Rightarrow>
   'z kernel_state_scheme \<Rightarrow> (outcome \<times> 'z kernel_state_scheme) option" where
  "guarded_heap_call body va nbytes s = do {
     cur_env \<leftarrow> cpu_proc s;
     (c, s1) \<leftarrow> (if bad_heap_range va nbytes then env_exit s else Some (Returns, s));
     if c \<noteq> Returns then Some (Switches c, s1)
     else do { s2 \<leftarrow> body cur_env s1; Some (Ret 0, s2) } }"

text \<open>The variant with buffering only panics.\<close>

definition sys_free_user_mem ::
  "'z kernel_state_scheme dynalloc \<Rightarrow> 'z kernel_state_scheme ide_ops \<Rightarrow> u32 \<Rightarrow> u32 \<Rightarrow>
   'z kernel_state_scheme \<Rightarrow> (outcome \<times> 'z kernel_state_scheme) option" where
  "sys_free_user_mem da ide va nbytes = guarded_heap_call (\<lambda>e s. do {
     assert_that (\<not> buffering_enabled s);
     free_user_mem da ide e va nbytes s }) va nbytes"

definition sys_allocate_user_mem ::
  "u32 \<Rightarrow> u32 \<Rightarrow> 'z kernel_state_scheme \<Rightarrow> (outcome \<times> 'z kernel_state_scheme) option" where
  "sys_allocate_user_mem va nbytes = guarded_heap_call (\<lambda>e s. allocate_user_mem e va nbytes s) va nbytes"

definition sys_create_shared_object ::
  "'z kernel_state_scheme dynalloc \<Rightarrow> u32 \<Rightarrow> u32 \<Rightarrow> u8 \<Rightarrow> u32 \<Rightarrow> 'z kernel_state_scheme \<Rightarrow> (int \<times> 'z kernel_state_scheme) option" where
  "sys_create_shared_object da shareName nbytes writable va s = do {
     cur_env \<leftarrow> cpu_proc s;
     name \<leftarrow> user_string shareName s;
     create_shared_object da (env_id (envs s cur_env)) name nbytes writable va s }"

definition sys_size_of_shared_object :: "int \<Rightarrow> u32 \<Rightarrow> 'z kernel_state_scheme \<Rightarrow> (int \<times> 'z kernel_state_scheme) option" where
  "sys_size_of_shared_object owner shareName s = do {
     name \<leftarrow> user_string shareName s;
     size_of_shared_object owner name s }"

definition sys_get_shared_object :: "int \<Rightarrow> u32 \<Rightarrow> u32 \<Rightarrow> 'z kernel_state_scheme \<Rightarrow> (int \<times> 'z kernel_state_scheme) option" where
  "sys_get_shared_object owner shareName va s = do {
     name \<leftarrow> user_string shareName s;
     get_shared_object owner name va s }"

section \<open>Processes\<close>

definition sys_getenvid :: "'z cpu_state_scheme \<Rightarrow> int option" where
  "sys_getenvid s = map_option (\<lambda>e. env_id (envs s e)) (cpu_proc s)"

definition sys_getenvindex :: "'z cpu_state_scheme \<Rightarrow> int option" where
  "sys_getenvindex s = map_option int (cpu_proc s)"

definition sys_getparentenvid :: "'z cpu_state_scheme \<Rightarrow> int option" where
  "sys_getparentenvid s = map_option (\<lambda>e. env_parent_id (envs s e)) (cpu_proc s)"

definition control_outcome :: "control \<times> 's \<Rightarrow> outcome \<times> 's" where
  "control_outcome = (\<lambda>(c, s). (if c = Returns then Ret 0 else Switches c, s))"

definition sys_destroy_env ::
  "'z kernel_state_scheme dynalloc \<Rightarrow> int \<Rightarrow> 'z kernel_state_scheme \<Rightarrow> (outcome \<times> 'z kernel_state_scheme) option" where
  "sys_destroy_env da envid s = do {
     cur_env \<leftarrow> cpu_proc s;
     (r, e) \<leftarrow> (if envid = 0 then Some (0, Some cur_env) else envid2env envid False s);
     if r < 0 then Some (Ret (word_of_int r), s)
     else do {
       e \<leftarrow> e;
       map_option control_outcome (sched_kill_env da (env_id (envs s e)) s) } }"

definition sys_exit_env :: "'z kernel_state_scheme \<Rightarrow> (outcome \<times> 'z kernel_state_scheme) option" where
  "sys_exit_env s = map_option control_outcome (env_exit s)"

definition sys_create_env ::
  "'z kernel_state_scheme dynalloc \<Rightarrow> 'z kernel_state_scheme ide_ops \<Rightarrow> UserProgramInfo list \<Rightarrow> (u32 \<Rightarrow> Elf) \<Rightarrow>
   u32 \<Rightarrow> u32 \<Rightarrow> u32 \<Rightarrow> u32 \<Rightarrow> 'z kernel_state_scheme \<Rightarrow> (int \<times> 'z kernel_state_scheme) option" where
  "sys_create_env da ide progs elf programName page_WS_size LRU_second_list_size percent s = do {
     name \<leftarrow> user_string programName s;
     (env, s1) \<leftarrow> env_create da ide progs elf (butlast name) page_WS_size LRU_second_list_size percent s;
     case env of
       None \<Rightarrow> Some (E_ENV_CREATION_ERROR, s1)
     | Some e \<Rightarrow> do {
         s2 \<leftarrow> sched_new_env (Some e) s1;
         Some (env_id (envs s2 e), s2) } }"

definition sys_run_env :: "int \<Rightarrow> 'z kernel_state_scheme \<Rightarrow> (outcome \<times> 'z kernel_state_scheme) option" where
  "sys_run_env envId s = map_option control_outcome (sched_run_env envId s)"

text \<open>The working set must still be the one that was loaded; reading past the array of its addresses is an error.\<close>

fun same_pages :: "u32 list \<Rightarrow> u32 list \<Rightarrow> bool" where
  "same_pages [] vs = True"
| "same_pages (w # ws) [] = False"
| "same_pages (w # ws) (v # vs) \<longleftrightarrow> ROUNDDOWN w PAGE_SIZE = ROUNDDOWN v PAGE_SIZE \<and> same_pages ws vs"

definition sys_get_optimal_num_faults ::
  "'z kernel_state_scheme dynalloc \<Rightarrow> 'z kernel_state_scheme \<Rightarrow> (nat \<times> 'z kernel_state_scheme) option" where
  "sys_get_optimal_num_faults da s = do {
     assert_that (use_kheap s);
     cur_env \<leftarrow> cpu_proc s;
     let e = envs s cur_env;
     assert_that (same_pages (map (\<lambda>p. ws_virtual_address (ws_elems s p)) (page_WS_list e)) (prepagedVAs e));
     get_optimal_num_faults da (page_WS_list e) (unat (page_WS_max_size e)) (referenceStreamList e) s }"

section \<open>The counter of the test programs\<close>

definition locked_tstcnt :: "(u32 \<Rightarrow> u32) \<Rightarrow> 'z kernel_state_scheme \<Rightarrow> 'z kernel_state_scheme option" where
  "locked_tstcnt f s = do {
     s1 \<leftarrow> acquire_kspinlock TSTCNTLOCK s;
     release_kspinlock TSTCNTLOCK (s1\<lparr>tstcnt := f (tstcnt s1)\<rparr>) }"

definition rsttst :: "'z kernel_state_scheme \<Rightarrow> 'z kernel_state_scheme option" where
  "rsttst s = locked_tstcnt (\<lambda>_. 0) (init_kspinlock TSTCNTLOCK s)"

definition inctst :: "'z kernel_state_scheme \<Rightarrow> 'z kernel_state_scheme option" where
  "inctst s = locked_tstcnt (\<lambda>n. n + 1) s"

definition tst_holds :: "u32 \<Rightarrow> u32 \<Rightarrow> u32 \<Rightarrow> char \<Rightarrow> bool \<Rightarrow> bool" where
  "tst_holds n v1 v2 c neg \<longleftrightarrow>
     (if c = CHR ''l'' then n < v1 \<or> neg
      else if c = CHR ''g'' then n > v1 \<or> neg
      else if c = CHR ''e'' then n = v1 \<or> neg
      else if c = CHR ''b'' then n \<ge> v1 \<and> n \<le> v2
      else False)"

definition tst :: "u32 \<Rightarrow> u32 \<Rightarrow> u32 \<Rightarrow> char \<Rightarrow> bool \<Rightarrow> 'z kernel_state_scheme \<Rightarrow> 'z kernel_state_scheme option" where
  "tst n v1 v2 c neg s = do { assert_that (tst_holds n v1 v2 c neg); inctst s }"

definition chktst :: "u32 \<Rightarrow> 'z kernel_state_scheme \<Rightarrow> 'z kernel_state_scheme option" where
  "chktst n s = do {
     s1 \<leftarrow> locked_tstcnt (\<lambda>k. k) s;
     assert_that (tstcnt s1 = n);
     Some s1 }"

section \<open>The dispatcher\<close>

text \<open>The numbers of the system calls, in the order of \<open>inc/syscall.h\<close>.\<close>

definition SYS_cputs :: u32 where [sys_consts]: "SYS_cputs = 0"
definition SYS_cputc :: u32 where [sys_consts]: "SYS_cputc = 1"
definition SYS_cgetc :: u32 where [sys_consts]: "SYS_cgetc = 2"
definition SYS_lock_cons :: u32 where [sys_consts]: "SYS_lock_cons = 3"
definition SYS_unlock_cons :: u32 where [sys_consts]: "SYS_unlock_cons = 4"
definition SYS_getenvid :: u32 where [sys_consts]: "SYS_getenvid = 5"
definition SYS_getenvindex :: u32 where [sys_consts]: "SYS_getenvindex = 6"
definition SYS_getparentenvid :: u32 where [sys_consts]: "SYS_getparentenvid = 7"
definition SYS_allocate_page :: u32 where [sys_consts]: "SYS_allocate_page = 8"
definition SYS_map_frame :: u32 where [sys_consts]: "SYS_map_frame = 9"
definition SYS_unmap_frame :: u32 where [sys_consts]: "SYS_unmap_frame = 10"
definition SYS_calc_req_frames :: u32 where [sys_consts]: "SYS_calc_req_frames = 11"
definition SYS_calc_free_frames :: u32 where [sys_consts]: "SYS_calc_free_frames = 12"
definition SYS_calc_modified_frames :: u32 where [sys_consts]: "SYS_calc_modified_frames = 13"
definition SYS_calc_notmod_frames :: u32 where [sys_consts]: "SYS_calc_notmod_frames = 14"
definition SYS_pf_calc_allocated_pages :: u32 where [sys_consts]: "SYS_pf_calc_allocated_pages = 15"
definition SYS_calculate_pages_tobe_removed_ready_exit :: u32 where [sys_consts]: "SYS_calculate_pages_tobe_removed_ready_exit = 16"
definition SYS_scarce_memory :: u32 where [sys_consts]: "SYS_scarce_memory = 17"
definition SYS_allocate_chunk_in_mem :: u32 where [sys_consts]: "SYS_allocate_chunk_in_mem = 18"
definition SYS_move_user_mem :: u32 where [sys_consts]: "SYS_move_user_mem = 19"
definition SYS_clearFFL :: u32 where [sys_consts]: "SYS_clearFFL = 20"
definition SYS_create_shared_object :: u32 where [sys_consts]: "SYS_create_shared_object = 21"
definition SYS_get_size_of_shared_object :: u32 where [sys_consts]: "SYS_get_size_of_shared_object = 22"
definition SYS_get_shared_object :: u32 where [sys_consts]: "SYS_get_shared_object = 23"
definition SYS_free_shared_object :: u32 where [sys_consts]: "SYS_free_shared_object = 24"
definition SYS_create_env :: u32 where [sys_consts]: "SYS_create_env = 25"
definition SYS_run_env :: u32 where [sys_consts]: "SYS_run_env = 26"
definition SYS_destroy_env :: u32 where [sys_consts]: "SYS_destroy_env = 27"
definition SYS_exit_env :: u32 where [sys_consts]: "SYS_exit_env = 28"
definition SYS_get_virtual_time :: u32 where [sys_consts]: "SYS_get_virtual_time = 29"
definition SYS_rcr2 :: u32 where [sys_consts]: "SYS_rcr2 = 30"
definition SYS_bypassPageFault :: u32 where [sys_consts]: "SYS_bypassPageFault = 31"
definition SYS_testNum :: u32 where [sys_consts]: "SYS_testNum = 32"
definition SYS_rsttst :: u32 where [sys_consts]: "SYS_rsttst = 33"
definition SYS_chktst :: u32 where [sys_consts]: "SYS_chktst = 34"
definition SYS_inctst :: u32 where [sys_consts]: "SYS_inctst = 35"
definition SYS_gettst :: u32 where [sys_consts]: "SYS_gettst = 36"
definition SYS_get_heap_strategy :: u32 where [sys_consts]: "SYS_get_heap_strategy = 37"
definition SYS_set_heap_strategy :: u32 where [sys_consts]: "SYS_set_heap_strategy = 38"
definition SYS_check_LRU_lists :: u32 where [sys_consts]: "SYS_check_LRU_lists = 39"
definition SYS_check_LRU_lists_free :: u32 where [sys_consts]: "SYS_check_LRU_lists_free = 40"
definition SYS_check_WS_list :: u32 where [sys_consts]: "SYS_check_WS_list = 41"
definition SYS_utilities :: u32 where [sys_consts]: "SYS_utilities = 42"
definition SYS_get_optimal_num_faults :: u32 where [sys_consts]: "SYS_get_optimal_num_faults = 43"
definition SYS_allocate_user_mem :: u32 where [sys_consts]: "SYS_allocate_user_mem = 44"
definition SYS_free_user_mem :: u32 where [sys_consts]: "SYS_free_user_mem = 45"
definition SYS_env_set_priority :: u32 where [sys_consts]: "SYS_env_set_priority = 46"
definition NSYSCALLS :: u32 where [sys_consts]: "NSYSCALLS = 47"

text \<open>
  What the system calls take from outside: the block allocator, the disk, the programs, the formatted prefix of
  printed lines, the registers \<open>CR2\<close> and the time stamp counter, and the calls that run the checks of \<open>kern/tests/\<close>.
\<close>

record 's sysenv =
  sys_da :: "'s dynalloc"
  sys_ide :: "'s ide_ops"
  sys_progs :: "UserProgramInfo list"
  sys_elf :: "u32 \<Rightarrow> Elf"
  sys_prefix :: "string \<Rightarrow> int \<Rightarrow> u8 list"
  sys_cr2 :: u32
  sys_tsc :: "u32 \<times> u32"
  sys_tests :: "u32 \<Rightarrow> u32 list \<Rightarrow> 's \<Rightarrow> (outcome \<times> 's) option"

definition ret0 :: "'s option \<Rightarrow> (outcome \<times> 's) option" where
  "ret0 = map_option (Pair (Ret 0))"

definition ret_int :: "(int \<times> 's) option \<Rightarrow> (outcome \<times> 's) option" where
  "ret_int = map_option (\<lambda>(r, s). (Ret (word_of_int r), s))"

definition ret_nat :: "(nat \<times> 's) option \<Rightarrow> (outcome \<times> 's) option" where
  "ret_nat = map_option (\<lambda>(r, s). (Ret (of_nat r), s))"

text \<open>The calls without a body in the source (\<open>panic\<close>) are \<open>None\<close>.\<close>

definition syscall ::
  "'z kernel_state_scheme sysenv \<Rightarrow> u32 \<Rightarrow> u32 \<Rightarrow> u32 \<Rightarrow> u32 \<Rightarrow> u32 \<Rightarrow> u32 \<Rightarrow>
   'z kernel_state_scheme \<Rightarrow> (outcome \<times> 'z kernel_state_scheme) option" where
  "syscall v n a1 a2 a3 a4 a5 s = do {
     cur_env \<leftarrow> cpu_proc s;
     if n = SYS_allocate_user_mem then sys_allocate_user_mem a1 a2 s
     else if n = SYS_free_user_mem then sys_free_user_mem (sys_da v) (sys_ide v) a1 a2 s
     else if n = SYS_cputs then ret0 (sys_cputs (sys_prefix v) a1 a2 (ucast a3) a4 s)
     else if n = SYS_cgetc then sys_cgetc s
     else if n = SYS_cputc then Some (Ret 0, sys_cputc (ucast a1) s)
     else if n = SYS_lock_cons then cons_lock s
     else if n = SYS_unlock_cons then ret0 (cons_unlock s)
     else if n = SYS_calc_req_frames then None
     else if n = SYS_calc_free_frames then ret_nat (sys_calculate_free_frames s)
     else if n = SYS_calc_modified_frames then ret_nat (sys_calculate_modified_frames s)
     else if n = SYS_calc_notmod_frames then ret_nat (sys_calculate_notmod_frames s)
     else if n = SYS_pf_calc_allocated_pages then do { e \<leftarrow> cpu_proc s; n \<leftarrow> pf_calculate_allocated_pages e s; Some (Ret (of_nat n), s) }
     else if n = SYS_calculate_pages_tobe_removed_ready_exit then map_option (\<lambda>(r, s). (Ret r, s)) (calc_no_pages_tobe_removed_from_ready_exit_queues a1 s)
     else if n = SYS_scarce_memory then ret0 (scarce_memory s)
     else if n = SYS_allocate_chunk_in_mem then None
     else if n = SYS_allocate_page then ret_int (sys_allocate_page a1 a2 s)
     else if n = SYS_map_frame then None
     else if n = SYS_unmap_frame then ret_int (sys_unmap_frame a1 s)
     else if n = SYS_clearFFL then ret0 (sys_clearFFL s)
     else if n = SYS_create_shared_object then ret_int (sys_create_shared_object (sys_da v) a1 a2 (ucast a3) a4 s)
     else if n = SYS_get_shared_object then ret_int (sys_get_shared_object (sint a1) a2 a3 s)
     else if n = SYS_free_shared_object then None
     else if n = SYS_get_size_of_shared_object then ret_int (sys_size_of_shared_object (sint a1) a2 s)
     else if n = SYS_create_env then ret_int (sys_create_env (sys_da v) (sys_ide v) (sys_progs v) (sys_elf v) a1 a2 a3 a4 s)
     else if n = SYS_run_env then sys_run_env (sint a1) s
     else if n = SYS_getenvindex then ret_int (map_option (\<lambda>r. (r, s)) (sys_getenvindex s))
     else if n = SYS_getenvid then ret_int (map_option (\<lambda>r. (r, s)) (sys_getenvid s))
     else if n = SYS_getparentenvid then ret_int (map_option (\<lambda>r. (r, s)) (sys_getparentenvid s))
     else if n = SYS_destroy_env then sys_destroy_env (sys_da v) (sint a1) s
     else if n = SYS_exit_env then sys_exit_env s
     else if n = SYS_get_virtual_time then ret0 (do { s1 \<leftarrow> put_word a1 (fst (sys_tsc v)) s; put_word a2 (snd (sys_tsc v)) s1 })
     else if n = SYS_move_user_mem then None
     else if n = SYS_rcr2 then Some (Ret (sys_cr2 v), s)
     else if n = SYS_bypassPageFault then Some (Ret 0, s\<lparr>bypassInstrLength := ucast a1\<rparr>)
     else if n = SYS_rsttst then ret0 (rsttst s)
     else if n = SYS_inctst then ret0 (inctst s)
     else if n = SYS_chktst then ret0 (chktst a1 s)
     else if n = SYS_gettst then Some (Ret (tstcnt s), s)
     else if n = SYS_testNum then ret0 (tst a1 a2 a3 (char_of (unat (ucast a4 :: u8))) (a5 \<noteq> 0) s)
     else if n = SYS_get_heap_strategy then Some (Ret (UHeapPlacementStrategy s), s)
     else if n = SYS_set_heap_strategy then Some (Ret 0, s\<lparr>UHeapPlacementStrategy := a1\<rparr>)
     else if n = SYS_get_optimal_num_faults then ret_nat (sys_get_optimal_num_faults (sys_da v) s)
     else if n = SYS_check_LRU_lists then sys_tests v SYS_check_LRU_lists [a1, a2, a3, a4] s
     else if n = SYS_check_LRU_lists_free then sys_tests v SYS_check_LRU_lists_free [a1, a2] s
     else if n = SYS_check_WS_list then sys_tests v SYS_check_WS_list [a1, a2, a3, a4] s
     else if n = SYS_utilities then sys_tests v SYS_utilities [a1, a2] s
     else Some (Ret (word_of_int (- E_INVAL)), s) }"

end
