(* ===== verification/FOS_Trap.thy ===== *)
theory FOS_Trap
  imports FOS_Syscall
begin

unbundle bit_operations_syntax

text \<open>
  Traps (\<open>kern/trap/trap.c\<close>): the table of interrupt handlers, the dispatch of interrupts, page faults and system
  calls, and the bracket that stops the clock and checks the interrupt flag.  The counts that the timer has reached when the
  clock is resumed are inputs, as is the address of the processor's own kernel stack.
\<close>

datatype irq_handler = Clock_handler | Keyboard_handler | Serial_handler

record trap_state = kernel_state +
  irq_handlers :: "nat \<Rightarrow> irq_handler option"

definition IRQ_OFFSET :: u32 where [fos_consts]: "IRQ_OFFSET = 32"
definition MAX_IRQS :: u32 where [fos_consts]: "MAX_IRQS = 16"
definition T_PGFLT :: u32 where [fos_consts]: "T_PGFLT = 14"
definition T_SYSCALL :: u32 where [fos_consts]: "T_SYSCALL = 48"

definition irq_install_handler :: "nat \<Rightarrow> irq_handler \<Rightarrow> 'z trap_state_scheme \<Rightarrow> 'z trap_state_scheme" where
  "irq_install_handler irq h s = s\<lparr>irq_handlers := (irq_handlers s)(irq := Some h)\<rparr>"

definition irq_uninstall_handler :: "nat \<Rightarrow> 'z trap_state_scheme \<Rightarrow> 'z trap_state_scheme" where
  "irq_uninstall_handler irq s = s\<lparr>irq_handlers := (irq_handlers s)(irq := None)\<rparr>"

text \<open>The trap came back, or its process left the processor in it.\<close>

datatype trap_end = Trap_returns | Trap_leaves outcome

text \<open>\<open>update_WS_time_stamps\<close> under the strategy that needs them.\<close>

definition lru_stamps :: "'z vm_state_scheme \<Rightarrow> 'z vm_state_scheme option" where
  "lru_stamps s = (if PageRepAlgoType s = PG_REP_LRU_TIME_APPROX then update_WS_time_stamps s else Some s)"

definition run_handler :: "irq_handler \<Rightarrow> 'z trap_state_scheme \<Rightarrow> (trap_end \<times> 'z trap_state_scheme) option" where
  "run_handler h s =
     (case h of
        Clock_handler \<Rightarrow> do {
          (saved, s1) \<leftarrow> clock_interrupt_handler lru_stamps s;
          Some (case saved of None \<Rightarrow> Trap_returns | Some b \<Rightarrow> Trap_leaves (Sleeps b), s1) }
      | Keyboard_handler \<Rightarrow> do { s1 \<leftarrow> keyboard_interrupt_handler s; Some (Trap_returns, s1) }
      | Serial_handler \<Rightarrow> do { s1 \<leftarrow> serial_interrupt_handler s; Some (Trap_returns, s1) })"

definition irq_dispatch :: "u32 \<Rightarrow> 'z trap_state_scheme \<Rightarrow> (trap_end \<times> 'z trap_state_scheme) option" where
  "irq_dispatch tf s =
     (case irq_handlers s (unat (tf_trapno (trapframes s tf) - IRQ_OFFSET)) of
        Some h \<Rightarrow> run_handler h s
      | None \<Rightarrow> Some (Trap_returns, s))"

text \<open>A system call runs with interrupts and clock on when the caller had them on.\<close>

definition enter_syscall :: "u16 \<Rightarrow> Trapframe \<Rightarrow> 'z clock_state_scheme \<Rightarrow> 'z clock_state_scheme option" where
  "enter_syscall cnt f s = (if tf_eflags f AND FL_IF \<noteq> 0 then kclock_resume cnt (sti s) else Some s)"

definition serve_syscall ::
  "'z trap_state_scheme sysenv \<Rightarrow> u16 \<Rightarrow> u32 \<Rightarrow> 'z trap_state_scheme \<Rightarrow> (trap_end \<times> 'z trap_state_scheme) option" where
  "serve_syscall v cnt tf s = do {
     let f = trapframes s tf;
     s1 \<leftarrow> enter_syscall cnt f s;
     (out, s2) \<leftarrow> syscall v (reg_eax f) (reg_edx f) (reg_ecx f) (reg_ebx f) (reg_edi f) (reg_esi f) s1;
     case out of
       Ret r \<Rightarrow>
         (let s3 = tf_upd tf (\<lambda>f. f\<lparr>reg_eax := r\<rparr>) s2
          in Some (Trap_returns, if eflags_IF s3 then kclock_stop (cli s3) else s3))
     | out \<Rightarrow> Some (Trap_leaves out, s2) }"

text \<open>Every other trap panics.\<close>

definition trap_dispatch ::
  "'z trap_state_scheme sysenv \<Rightarrow> u32 \<Rightarrow> u16 \<Rightarrow> u32 \<Rightarrow> 'z trap_state_scheme \<Rightarrow> (trap_end \<times> 'z trap_state_scheme) option" where
  "trap_dispatch v stack cnt tf s =
     (let f = trapframes s tf
      in if tf_trapno f = T_PGFLT then
           (if bypassInstrLength s \<noteq> 0
            then Some (Trap_returns, tf_upd tf (\<lambda>f. f\<lparr>tf_ip := tf_ip f + ucast (bypassInstrLength s)\<rparr>) s)
            else do {
              s1 \<leftarrow> lru_stamps s;
              (fe, s2) \<leftarrow> fault_handler (sys_da v) (sys_ide v) stack (tf_cs f AND 3 = 3) (tf_ip f) (sys_cr2 v) s1;
              Some (if fe = Resumes then Trap_returns else Trap_leaves (Switches Switch_to_scheduler), s2) })
         else if tf_trapno f = T_SYSCALL then serve_syscall v cnt tf s
         else None)"

definition trap ::
  "'z trap_state_scheme sysenv \<Rightarrow> u32 \<Rightarrow> u16 \<Rightarrow> u16 \<Rightarrow> u32 \<Rightarrow> 'z trap_state_scheme \<Rightarrow> (trap_end \<times> 'z trap_state_scheme) option" where
  "trap v stack cnt cnt_end tf s = do {
     let s1 = kclock_stop s;
     assert_that (\<not> eflags_IF s1);
     let f = trapframes s1 tf;
     u \<leftarrow> (if tf_cs f AND 3 = 3
           then do {
             cur_env \<leftarrow> cpu_proc s1;
             assert_that (env_status (envs s1 cur_env) = ENV_RUNNING);
             assert_that (env_tf cur_env s1 = tf) }
           else Some ());
     (te, s2) \<leftarrow> (if IRQ_OFFSET \<le> tf_trapno f \<and> tf_trapno f < IRQ_OFFSET + MAX_IRQS
                 then irq_dispatch tf s1 else trap_dispatch v stack cnt tf s1);
     case te of
       Trap_leaves out \<Rightarrow> Some (te, s2)
     | Trap_returns \<Rightarrow> do {
         assert_that (\<not> eflags_IF s2);
         s3 \<leftarrow> kclock_resume cnt_end s2;
         Some (te, s3) } }"

end
