(* ===== verification/FOS_Boot.thy ===== *)
theory FOS_Boot
  imports FOS_Trap
begin

unbundle bit_operations_syntax

text \<open>
  Start of the kernel: the descriptor tables (\<open>inc/mmu.h\<close>, \<open>seg_init\<close>, \<open>idt_init\<close>, \<open>ts_init\<close>), the detection of memory and
  the kernel's part of the address space (\<open>kern/mem/boot_memory_manager.c\<close>, with its own check \<open>check_boot_pgdir\<close> of
  \<open>kern/tests/utilities.c\<close>), the interrupt controller and the sequence of \<open>FOS_initialize\<close>.

  While the tables are built, paging is off and the segment base maps the address \<open>KERNEL_BASE + x\<close> to the physical address \<open>x\<close>;
  a pointer to a page table is the number of its frame, as everywhere else.  The addresses that the linker and the compiler
  choose (the end of the kernel, the boot stack, the sizes of two structures, the entry points of traps) are arguments.
\<close>

section \<open>Segment and gate descriptors\<close>

record Segdesc =
  sd_lim_15_0 :: u16
  sd_base_15_0 :: u16
  sd_base_23_16 :: u8
  sd_type :: "4 word"
  sd_s :: "1 word"
  sd_dpl :: "2 word"
  sd_p :: "1 word"
  sd_lim_19_16 :: "4 word"
  sd_avl :: "1 word"
  sd_rsv1 :: "1 word"
  sd_db :: "1 word"
  sd_g :: "1 word"
  sd_base_31_24 :: u8

definition SEG_NULL :: Segdesc where
  "SEG_NULL = \<lparr>sd_lim_15_0 = 0, sd_base_15_0 = 0, sd_base_23_16 = 0, sd_type = 0, sd_s = 0, sd_dpl = 0, sd_p = 0, sd_lim_19_16 = 0,
     sd_avl = 0, sd_rsv1 = 0, sd_db = 0, sd_g = 0, sd_base_31_24 = 0\<rparr>"

definition SEG :: "4 word \<Rightarrow> u32 \<Rightarrow> u32 \<Rightarrow> 2 word \<Rightarrow> Segdesc" where
  "SEG type base lim dpl =
     \<lparr>sd_lim_15_0 = ucast (drop_bit 12 lim AND 0xFFFF), sd_base_15_0 = ucast (base AND 0xFFFF),
      sd_base_23_16 = ucast (drop_bit 16 base AND 0xFF), sd_type = type, sd_s = 1, sd_dpl = dpl, sd_p = 1,
      sd_lim_19_16 = ucast (drop_bit 28 lim), sd_avl = 0, sd_rsv1 = 0, sd_db = 1, sd_g = 1, sd_base_31_24 = ucast (drop_bit 24 base)\<rparr>"

definition SEG16 :: "4 word \<Rightarrow> u32 \<Rightarrow> u32 \<Rightarrow> 2 word \<Rightarrow> Segdesc" where
  "SEG16 type base lim dpl =
     \<lparr>sd_lim_15_0 = ucast (lim AND 0xFFFF), sd_base_15_0 = ucast (base AND 0xFFFF),
      sd_base_23_16 = ucast (drop_bit 16 base AND 0xFF), sd_type = type, sd_s = 1, sd_dpl = dpl, sd_p = 1,
      sd_lim_19_16 = ucast (drop_bit 16 lim), sd_avl = 0, sd_rsv1 = 0, sd_db = 1, sd_g = 0, sd_base_31_24 = ucast (drop_bit 24 base)\<rparr>"

definition STA_X :: "4 word" where "STA_X = 8"
definition STA_W :: "4 word" where "STA_W = 2"
definition STA_R :: "4 word" where "STA_R = 2"
definition STS_T32A :: "4 word" where "STS_T32A = 9"
definition STS_IG32 :: "4 word" where "STS_IG32 = 14"
definition STS_TG32 :: "4 word" where "STS_TG32 = 15"

definition GD_KT :: u16 where [fos_consts]: "GD_KT = 0x08"
definition GD_KD :: u16 where [fos_consts]: "GD_KD = 0x10"
definition GD_UT :: u16 where [fos_consts]: "GD_UT = 0x18"
definition GD_UD :: u16 where [fos_consts]: "GD_UD = 0x20"
definition GD_TSS :: u16 where [fos_consts]: "GD_TSS = 0x28"

record Gatedesc =
  gd_off_15_0 :: u16
  gd_ss :: u16
  gd_args :: "5 word"
  gd_rsv1 :: "3 word"
  gd_type :: "4 word"
  gd_s :: "1 word"
  gd_dpl :: "2 word"
  gd_p :: "1 word"
  gd_off_31_16 :: u16

definition SETGATE :: "bool \<Rightarrow> u16 \<Rightarrow> u32 \<Rightarrow> 2 word \<Rightarrow> Gatedesc" where
  "SETGATE istrap sel off dpl =
     \<lparr>gd_off_15_0 = ucast (off AND 0xFFFF), gd_ss = sel, gd_args = 0, gd_rsv1 = 0, gd_type = (if istrap then STS_TG32 else STS_IG32),
      gd_s = 0, gd_dpl = dpl, gd_p = 1, gd_off_31_16 = ucast (drop_bit 16 off)\<rparr>"

section \<open>The state at boot\<close>

record Taskstate =
  ts_esp0 :: u32
  ts_ss0 :: u16

record segment_registers =
  seg_cs :: u16
  seg_ds :: u16
  seg_es :: u16
  seg_ss :: u16
  seg_fs :: u16
  seg_gs :: u16
  seg_ldt :: u16

record boot_layout =
  end_of_kernel :: u32
  ptr_stack_bottom :: u32
  sizeof_FrameInfo :: u32
  sizeof_Env :: u32
  entry_points :: "nat \<Rightarrow> u32"
  addr_of_ts :: u32
  sizeof_Taskstate :: u32

record boot_state = trap_state +
  ptr_free_mem :: u32
  frames_info_at :: u32
  disk_frames_info_at :: u32
  envs_at :: u32
  cr0 :: u32
  gdt :: "u16 \<Rightarrow> Segdesc"
  idt :: "nat \<Rightarrow> Gatedesc option"
  gdtr :: "(u16 \<Rightarrow> Segdesc) option"
  idtr :: "(nat \<Rightarrow> Gatedesc option) option"
  task_reg :: u16
  seg_regs :: segment_registers
  cpu_ts :: Taskstate
  cpu_stack :: u32
  started :: bool
  pic_vectors :: "u8 \<times> u8"

definition NCPUS :: u32 where [fos_consts]: "NCPUS = 1"
definition KERN_STACK_TOP :: u32 where [fos_consts]: "KERN_STACK_TOP = VPT"
definition UENVS :: u32 where [fos_consts]: "UENVS = UVPT - 2 * PTSIZE"
definition PHYS_EXTENDED_MEM :: u32 where [fos_consts]: "PHYS_EXTENDED_MEM = 0x100000"
definition NPDENTRIES :: nat where "NPDENTRIES = 1024"

section \<open>Processor set-up\<close>

definition seg_init :: "'z boot_state_scheme \<Rightarrow> 'z boot_state_scheme option" where
  "seg_init s = do {
     let s1 = pushcli s;
     popcli (s1\<lparr>gdt := (gdt s1)
       (0 := SEG_NULL,
        drop_bit 3 GD_KT := SEG (STA_X OR STA_R) 0 0xFFFFFFFF 0,
        drop_bit 3 GD_KD := SEG STA_W 0 0xFFFFFFFF 0,
        drop_bit 3 GD_UT := SEG (STA_X OR STA_R) 0 0xFFFFFFFF 3,
        drop_bit 3 GD_UD := SEG STA_W 0 0xFFFFFFFF 3,
        drop_bit 3 GD_TSS := SEG_NULL)\<rparr>) }"

text \<open>
  The gates in the order of \<open>idt_init\<close>: the vector, whether it is a trap gate, and the privilege that may raise it with the
  instruction \<open>int\<close>.
\<close>

definition idt_gates :: "(nat \<times> bool \<times> 2 word) list" where
  "idt_gates =
     [(8, False, 0), (14, False, 0), (32, False, 3), (33, False, 3), (48, False, 3),
      (0, False, 3), (1, True, 3), (2, False, 3), (3, True, 3), (4, True, 3), (5, False, 3), (6, False, 3), (7, False, 3),
      (10, False, 3), (11, False, 3), (12, False, 3), (13, False, 3),
      (16, False, 3), (17, False, 3), (18, False, 3), (19, False, 3),
      (34, False, 3), (35, False, 3), (36, False, 3), (37, False, 3), (38, False, 3), (39, False, 3), (40, False, 3),
      (41, False, 3), (42, False, 3), (43, False, 3), (44, False, 3), (45, False, 3), (46, False, 3), (47, False, 3)]"

definition idt_init :: "boot_layout \<Rightarrow> 'z boot_state_scheme \<Rightarrow> 'z boot_state_scheme" where
  "idt_init L s =
     (let t = fold (\<lambda>(v, istrap, dpl) t. t(v := Some (SETGATE istrap GD_KT (entry_points L v) dpl))) idt_gates (idt s)
      in s\<lparr>idt := t, idtr := Some t\<rparr>)"

definition cpu_init :: "boot_layout \<Rightarrow> u32 \<Rightarrow> 'z boot_state_scheme \<Rightarrow> 'z boot_state_scheme option" where
  "cpu_init L cpuIndx s = do {
     let s1 = s\<lparr>cpu_proc := None, ncli := 0, intena := eflags_IF s, scheduler_status := SCH_UNINITIALIZED,
                cpu_stack := KERN_STACK_TOP - (cpuIndx + 1) * KERNEL_STACK_SIZE\<rparr>;
     s2 \<leftarrow> seg_init s1;
     let s3 = idt_init L s2;
     Some (s3\<lparr>cpu_ts := \<lparr>ts_esp0 = 0, ts_ss0 = 0\<rparr>, started := True\<rparr>) }"

definition ts_init :: "boot_layout \<Rightarrow> 'z boot_state_scheme \<Rightarrow> 'z boot_state_scheme option" where
  "ts_init L s = do {
     let s1 = pushcli s;
     let s2 = s1\<lparr>cpu_ts := \<lparr>ts_esp0 = 0, ts_ss0 = GD_KD\<rparr>,
                 gdt := (gdt s1)(drop_bit 3 GD_TSS := (SEG16 STS_T32A (addr_of_ts L) (sizeof_Taskstate L) 0)\<lparr>sd_s := 0\<rparr>)\<rparr>;
     s3 \<leftarrow> popcli s2;
     Some (s3\<lparr>task_reg := GD_TSS\<rparr>) }"

section \<open>Memory at boot\<close>

text \<open>\<open>nvram_read\<close> reads two bytes of the memory of the clock chip, which is an argument.\<close>

definition nvram_read :: "(u8 \<Rightarrow> u8) \<Rightarrow> u8 \<Rightarrow> u32" where
  "nvram_read cmos r = ucast (cmos r) OR push_bit 8 (ucast (cmos (r + 1)))"

definition detect_memory :: "(u8 \<Rightarrow> u8) \<Rightarrow> 'z boot_state_scheme \<Rightarrow> 'z boot_state_scheme option" where
  "detect_memory cmos s = do {
     let size_of_extended_mem = ROUNDDOWN (nvram_read cmos 0x17 * 1024) PAGE_SIZE;
     let size_of_other_mem = ROUNDDOWN (nvram_read cmos 0x34 * 1024 * 64) PAGE_SIZE;
     let maxpa = (if size_of_other_mem > 0 then size_of_other_mem + 16 * 1024 * 1024
                  else if size_of_extended_mem \<noteq> 0 then PHYS_EXTENDED_MEM + size_of_extended_mem else size_of_extended_mem);
     let kernel_virtual_area = (0xFFFFFFFF - KERNEL_BASE) + 1;
     assert_that (\<not> (\<not> use_kheap s \<and> maxpa > kernel_virtual_area));
     Some (s\<lparr>number_of_frames := maxpa div PAGE_SIZE\<rparr>) }"

text \<open>\<open>memset(p, 0, n)\<close> on the physical bytes from \<open>pa\<close>: the bytes of every word that are in the range are cleared.\<close>

definition kept_byte :: "u32 \<Rightarrow> u32 \<Rightarrow> nat \<Rightarrow> nat \<Rightarrow> u32" where
  "kept_byte pa n a b = (if unat pa \<le> a + b \<and> a + b < unat pa + unat n then 0 else push_bit (8 * b) 0xFF)"

definition zero_phys :: "u32 \<Rightarrow> u32 \<Rightarrow> 'z mem_state_scheme \<Rightarrow> 'z mem_state_scheme" where
  "zero_phys pa n s = s\<lparr>phys := (\<lambda>f i.
     let a = 4096 * f + 4 * unat i in
     if i < 1024
     then phys s f i AND (kept_byte pa n a 0 OR kept_byte pa n a 1 OR kept_byte pa n a 2 OR kept_byte pa n a 3)
     else phys s f i)\<rparr>"

definition boot_allocate_space :: "boot_layout \<Rightarrow> u32 \<Rightarrow> u32 \<Rightarrow> 'z boot_state_scheme \<Rightarrow> u32 \<times> 'z boot_state_scheme" where
  "boot_allocate_space L nbytes align s =
     (let p = (if ptr_free_mem s = 0 then end_of_kernel L else ptr_free_mem s);
          a = ROUNDUP p align
      in (a, zero_phys (a - KERNEL_BASE) nbytes (s\<lparr>ptr_free_mem := a + nbytes\<rparr>)))"

definition boot_get_page_table ::
  "boot_layout \<Rightarrow> frame \<Rightarrow> u32 \<Rightarrow> bool \<Rightarrow> 'z boot_state_scheme \<Rightarrow> (frame option \<times> 'z boot_state_scheme) option" where
  "boot_get_page_table L dir va create s = do {
     let pa = EXTRACT_ADDRESS (phys s dir (PDX va));
     kva \<leftarrow> STATIC_KERNEL_VIRTUAL_ADDRESS pa s;
     if pa = 0
     then if create
          then do {
            let (a, s1) = boot_allocate_space L PAGE_SIZE PAGE_SIZE s;
            tpa \<leftarrow> STATIC_KERNEL_PHYSICAL_ADDRESS a;
            Some (Some (unat (PPN tpa)), write_phys dir (PDX va) (CONSTRUCT_ENTRY tpa (PERM_PRESENT OR PERM_WRITEABLE)) s1) }
          else Some (None, s)
     else Some (Some (unat (PPN pa)), s) }"

definition boot_map_page :: "boot_layout \<Rightarrow> frame \<Rightarrow> u32 \<Rightarrow> u32 \<Rightarrow> u32 \<Rightarrow> u32 \<Rightarrow> 'z boot_state_scheme \<Rightarrow> 'z boot_state_scheme option" where
  "boot_map_page L dir va pa perm i s = do {
     (tbl, s1) \<leftarrow> boot_get_page_table L dir (va + i) True s;
     t \<leftarrow> tbl;
     Some (write_phys t (PTX (va + i)) (CONSTRUCT_ENTRY (pa + i) (perm OR PERM_PRESENT)) s1) }"

definition boot_map_range ::
  "boot_layout \<Rightarrow> frame \<Rightarrow> u32 \<Rightarrow> u32 \<Rightarrow> u32 \<Rightarrow> u32 \<Rightarrow> 'z boot_state_scheme \<Rightarrow> 'z boot_state_scheme option" where
  "boot_map_range L dir va nbytes pa perm s = each_page PAGES_32 (boot_map_page L dir va pa perm) 0 nbytes s"

section \<open>The kernel's part of the address space\<close>

definition boot_table :: "boot_layout \<Rightarrow> frame \<Rightarrow> nat \<Rightarrow> 'z boot_state_scheme \<Rightarrow> 'z boot_state_scheme option" where
  "boot_table L dir k s = do { (t, s1) \<leftarrow> boot_get_page_table L dir (KERNEL_BASE + of_nat k * PTSIZE) True s; Some s1 }"

definition setup_listing_to_all_page_tables_entries :: "'z mem_state_scheme \<Rightarrow> 'z mem_state_scheme" where
  "setup_listing_to_all_page_tables_entries s =
     (let dir = ptr_page_directory s; pa = to_physical_address dir;
          s1 = write_phys dir (PDX VPT) (CONSTRUCT_ENTRY pa (PERM_PRESENT OR PERM_WRITEABLE)) s
      in write_phys dir (PDX UVPT) (pa OR PERM_USER OR PERM_PRESENT) s1)"

definition check_va2pa :: "frame \<Rightarrow> u32 \<Rightarrow> 'z mem_state_scheme \<Rightarrow> u32 option" where
  "check_va2pa dir va s =
     (let pde = phys s dir (PDX va) in
      if pde AND PERM_PRESENT = 0 then Some (NOT 0)
      else do {
        kva \<leftarrow> STATIC_KERNEL_VIRTUAL_ADDRESS (EXTRACT_ADDRESS pde) s;
        let pte = phys s (unat (PPN (EXTRACT_ADDRESS pde))) (PTX va);
        if pte AND PERM_PRESENT = 0 then Some (NOT 0) else Some (EXTRACT_ADDRESS pte) })"

text \<open>
  The assertions of \<open>check_boot_pgdir\<close>.  The loop over the kernel's memory runs up to \<open>ptr_free_mem\<close> with the kernel heap and up to
  the end of the address space without it.
\<close>

definition check_boot_page :: "u32 \<Rightarrow> u32 \<Rightarrow> u32 \<Rightarrow> 'z mem_state_scheme \<Rightarrow> bool" where
  "check_boot_page va pa i s \<longleftrightarrow> check_va2pa (ptr_page_directory s) (va + i) s = Some (pa + i)"

definition check_boot_pde :: "u32 \<Rightarrow> 'z mem_state_scheme \<Rightarrow> bool" where
  "check_boot_pde i s \<longleftrightarrow>
     (if i \<in> {PDX VPT, PDX UVPT, PDX (KERN_STACK_TOP - 1), PDX UENVS} \<or> i \<ge> PDX KERNEL_BASE
      then phys s (ptr_page_directory s) i \<noteq> 0 else phys s (ptr_page_directory s) i = 0)"

definition check_boot_pgdir :: "boot_layout \<Rightarrow> 'z boot_state_scheme \<Rightarrow> 'z boot_state_scheme option" where
  "check_boot_pgdir L s = do {
     s1 \<leftarrow> (if use_kheap s
       then each_page PAGES_32 (\<lambda>va s. do { assert_that (check_boot_page va (va - KERNEL_BASE) 0 s); Some s }) KERNEL_BASE (ptr_free_mem s) s
       else do {
         assert_that (\<forall>k \<in> set [0..<65536]. check_boot_page KERNEL_BASE 0 (of_nat k * PAGE_SIZE) s);
         Some s });
     stk \<leftarrow> STATIC_KERNEL_PHYSICAL_ADDRESS (ptr_stack_bottom L);
     assert_that (\<forall>k \<in> set [0..<8]. let i = of_nat k * PAGE_SIZE in
       i mod KERNEL_STACK_SIZE = 0 \<or> check_boot_page (KERN_STACK_TOP - NCPUS * KERNEL_STACK_SIZE) stk i s1);
     assert_that (\<forall>k \<in> set [0..<NPDENTRIES]. check_boot_pde (of_nat k) s1);
     Some s1 }"

text \<open>
  \<open>turn_on_paging\<close>: the entries of the kernel are copied to the start of the directory for the instructions between the load of \<open>cr0\<close>
  and the reload of the segments, and cleared after it.
\<close>

definition CR0_SET :: u32 where "CR0_SET = 0x8005002F"
definition CR0_CLEAR :: u32 where "CR0_CLEAR = 0x0000000C"

definition low_entries :: "'z boot_state_scheme \<Rightarrow> nat" where
  "low_entries s = unat (PDX (ptr_free_mem s)) - unat (PDX KERNEL_BASE)"

definition turn_on_paging :: "'z boot_state_scheme \<Rightarrow> 'z boot_state_scheme option" where
  "turn_on_paging s = do {
     let dir = ptr_page_directory s;
     let s1 = fold (\<lambda>j s. write_phys dir (of_nat j) (phys s dir (PDX KERNEL_BASE + of_nat j)) s) [0..<low_entries s] s;
     let s2 = lcr3 (to_physical_address dir) s1;
     let s3 = s2\<lparr>cr0 := (cr0 s2 OR CR0_SET) AND NOT CR0_CLEAR\<rparr>;
     let s4 = pushcli s3;
     s5 \<leftarrow> popcli (s4\<lparr>gdtr := Some (gdt s4)\<rparr>);
     let s6 = s5\<lparr>seg_regs := \<lparr>seg_cs = GD_KT, seg_ds = GD_KD, seg_es = GD_KD, seg_ss = GD_KD,
                              seg_fs = GD_UD OR 3, seg_gs = GD_UD OR 3, seg_ldt = 0\<rparr>\<rparr>;
     let s7 = fold (\<lambda>j s. write_phys dir (of_nat j) 0 s) [0..<low_entries s6] s6;
     Some (lcr3 (to_physical_address dir) s7) }"

definition NENV_of :: "boot_layout \<Rightarrow> nat" where
  "NENV_of L = unat ((PTSIZE div 4) div sizeof_Env L)"

definition initialize_kernel_VM :: "boot_layout \<Rightarrow> 'z boot_state_scheme \<Rightarrow> 'z boot_state_scheme option" where
  "initialize_kernel_VM L s = do {
     let (a, s1) = boot_allocate_space L PAGE_SIZE PAGE_SIZE s;
     pd \<leftarrow> STATIC_KERNEL_PHYSICAL_ADDRESS a;
     let dir = unat (PPN pd);
     let s2 = s1\<lparr>ptr_page_directory := dir\<rparr>;
     assert_that (NCPUS * KERNEL_STACK_SIZE < PTSIZE);
     stk \<leftarrow> STATIC_KERNEL_PHYSICAL_ADDRESS (ptr_stack_bottom L);
     s3 \<leftarrow> boot_map_range L dir (KERN_STACK_TOP - NCPUS * KERNEL_STACK_SIZE) (NCPUS * KERNEL_STACK_SIZE) stk PERM_WRITEABLE s2;
     (u, s4) \<leftarrow> pt_set_page_permissions dir (KERN_STACK_TOP - KERNEL_STACK_SIZE) 0 PERM_PRESENT s3;
     s5 \<leftarrow> run_all (boot_table L dir) [0..<64] s4;
     let (fi, s6) = boot_allocate_space L (number_of_frames s5 * sizeof_FrameInfo L) PAGE_SIZE s5;
     let s7 = s6\<lparr>frames_info_at := fi, frames_info := (\<lambda>_. null_frame_info)\<rparr>;
     let (dfi, s8) = boot_allocate_space L (PAGES_PER_FILE * sizeof_FrameInfo L) PAGE_SIZE s7;
     let s9 = setup_listing_to_all_page_tables_entries (s8\<lparr>disk_frames_info_at := dfi\<rparr>);
     let envs_size = of_nat (NENV_of L) * sizeof_Env L;
     let (ea, s10) = boot_allocate_space L envs_size PAGE_SIZE s9;
     let s11 = s10\<lparr>envs_at := ea, envs := (\<lambda>_. null_env), nenv := NENV_of L\<rparr>;
     epa \<leftarrow> STATIC_KERNEL_PHYSICAL_ADDRESS ea;
     s12 \<leftarrow> boot_map_range L dir UENVS envs_size epa PERM_USER s11;
     let s13 = write_phys dir (PDX UENVS)
                 (phys s12 dir (PDX UENVS) OR (PERM_USER OR (PERM_PRESENT AND NOT PERM_WRITEABLE))) s12;
     s14 \<leftarrow> (if use_kheap s13
        then boot_map_range L dir KERNEL_BASE (ptr_free_mem s13 - KERNEL_BASE) 0 PERM_WRITEABLE s13
        else boot_map_range L dir KERNEL_BASE (0xFFFFFFFF - KERNEL_BASE) 0 PERM_WRITEABLE s13);
     s15 \<leftarrow> check_boot_pgdir L s14;
     turn_on_paging (s15\<lparr>memory_scarce_threshold_percentage := 25\<rparr>) }"

section \<open>Devices and the order of the start\<close>

text \<open>
  \<open>pic_init\<close>: the initialisation words set the vectors of the two controllers and clear their masks; then the initial mask
  leaves only the line of the second controller open.
\<close>

definition irq_init_mask_8259A :: u16 where "irq_init_mask_8259A = 0xFFFB"

definition pic_init :: "'z boot_state_scheme \<Rightarrow> 'z boot_state_scheme" where
  "pic_init s =
     (let s1 = s\<lparr>didinit := True, pic_vectors := (ucast IRQ_OFFSET, ucast IRQ_OFFSET + 8), pic1_mask := 0, pic2_mask := 0\<rparr>
      in if irq_init_mask_8259A \<noteq> 0xFFFF then irq_setmask_8259A irq_init_mask_8259A s1 else s1)"

definition kbd_init :: "'z boot_state_scheme \<Rightarrow> 'z boot_state_scheme" where
  "kbd_init s =
     (let s1 = irq_install_handler 1 Keyboard_handler s
      in case KBD_INT_BLK_METHOD s1 of
           LCK_INT \<Rightarrow> s1
         | LCK_SLEEP \<Rightarrow> init_kspinlock KBDLOCK (init_channel KBD_CHAN s1)
         | LCK_SEMAPHORE \<Rightarrow> init_ksemaphore KBDsem 0 s1)"

text \<open>\<open>serial_init\<close> finds a port when its status register does not read as 0xFF.\<close>

definition serial_init :: "u8 \<Rightarrow> 'z boot_state_scheme \<Rightarrow> 'z boot_state_scheme" where
  "serial_init lsr s =
     irq_install_handler 4 Serial_handler (s\<lparr>console_state := (console_state s)\<lparr>serial_exists := lsr \<noteq> 0xFF\<rparr>\<rparr>)"

definition cons_init :: "u8 \<Rightarrow> 'z boot_state_scheme \<Rightarrow> 'z boot_state_scheme" where
  "cons_init lsr s =
     (let s1 = s\<lparr>console_state := cga_init (console_state s)\<rparr>;
          s2 = serial_init lsr (kbd_init s1)
      in case CONS_LCK_METHOD s2 of
           LCK_INT \<Rightarrow> s2
         | LCK_SLEEP \<Rightarrow> init_sleeplock conslock s2
         | LCK_SEMAPHORE \<Rightarrow> init_ksemaphore conssem 1 s2)"

text \<open>
  \<open>FOS_initialize\<close> from the cleared global data to the first prompt.  The set-up of the block allocator in \<open>kheap_init\<close> and
  \<open>ide_init\<close> are outside the repository.
\<close>

definition FOS_initialize ::
  "boot_layout \<Rightarrow> (u8 \<Rightarrow> u8) \<Rightarrow> u8 \<Rightarrow> 'z boot_state_scheme dynalloc \<Rightarrow> ('z boot_state_scheme \<Rightarrow> 'z boot_state_scheme option) \<Rightarrow>
   'z boot_state_scheme \<Rightarrow> 'z boot_state_scheme option" where
  "FOS_initialize L cmos lsr da ide_init s = do {
     s1 \<leftarrow> cpu_init L 0 (cons_init lsr s);
     s2 \<leftarrow> detect_memory cmos s1;
     s3 \<leftarrow> initialize_kernel_VM L s2;
     kend \<leftarrow> STATIC_KERNEL_PHYSICAL_ADDRESS (ptr_free_mem s3);
     s4 \<leftarrow> initialize_paging (unat (ROUNDUP kend PAGE_SIZE div PAGE_SIZE)) s3;
     s5 \<leftarrow> initialize_disk_page_file s4;
     s6 \<leftarrow> (if use_kheap s5 then sharing_init (kheap_init s5) else Some s5);
     s7 \<leftarrow> ide_init ((fault_handler_init s6)\<lparr>UHeapPlacementStrategy := 5\<rparr>);
     s8 \<leftarrow> env_init s7;
     s9 \<leftarrow> ts_init L s8;
     let s10 = irq_clear_mask 14 (irq_clear_mask 4 (irq_clear_mask 1 (irq_clear_mask 0 (pic_init s9))));
     sched_init da (kclock_init s10) }"

end
