(* ===== verification/FOS_Command.thy ===== *)
theory FOS_Command
  imports FOS_Boot
begin

unbundle bit_operations_syntax

text \<open>
  The commands of the kernel's prompt (\<open>kern/cmd/commands.c\<close>) and their dispatch (\<open>kern/cmd/command_prompt.c\<close>).

  A command gets its arguments, the first one being its own name, and returns a number or leaves the prompt for the scheduler.
  Reading an argument that is not there is \<open>None\<close>.  What a command itself prints is kept as the list of its calls of \<open>cprintf\<close>, the
  format and the values.  \<open>strtol\<close>, \<open>strsplit\<close> and \<open>readline\<close> are not in the repository: they are fields of \<open>cmdenv\<close>, and so are the
  test handler and the addresses that the linker gives.
\<close>

section \<open>State and parameters\<close>

datatype parg = PN u32 | PS string

record prompt_state = boot_state +
  kheapPlacementStrategy :: u32
  chkstatus :: u8
  numOfKheapVACalls :: u32
  foundCommands :: "nat list"
  printed :: "(string \<times> parg list) list"

datatype cmd_end = Cmd_ret int | Cmd_leaves control

record 's cmdenv =
  ce_da :: "'s dynalloc"
  ce_ide :: "'s ide_ops"
  ce_progs :: "UserProgramInfo list"
  ce_elf :: "u32 \<Rightarrow> Elf"
  ce_desc :: "UserProgramInfo \<Rightarrow> string"
  ce_strtol :: "string \<Rightarrow> nat \<Rightarrow> int"
  ce_strsplit :: "string \<Rightarrow> string list"
  ce_readline :: string
  ce_tst_handler :: "string list \<Rightarrow> 's \<Rightarrow> (int \<times> 's) option"
  ce_start_of_kernel :: u32
  ce_end_of_kernel_code_section :: u32
  ce_start_of_uninitialized_data_section :: u32
  ce_end_of_kernel :: u32

type_synonym 's command = "'s cmdenv \<Rightarrow> string list \<Rightarrow> 's \<Rightarrow> (cmd_end \<times> 's) option"

definition cprintf :: "string \<Rightarrow> parg list \<Rightarrow> 'z prompt_state_scheme \<Rightarrow> 'z prompt_state_scheme" where
  "cprintf fmt xs s = s\<lparr>printed := printed s @ [(fmt, xs)]\<rparr>"

definition cmd_ok :: "'s \<Rightarrow> (cmd_end \<times> 's) option" where
  "cmd_ok s = Some (Cmd_ret 0, s)"

definition argument :: "string list \<Rightarrow> nat \<Rightarrow> string option" where
  "argument args k = (if k < length args then Some (args ! k) else None)"

definition char_at0 :: "string \<Rightarrow> char" where
  "char_at0 x = (case x of [] \<Rightarrow> CHR 0x00 | c # _ \<Rightarrow> c)"

text \<open>An argument as a number: \<open>(uint32)strtol(arguments[k], NULL, base)\<close>.\<close>

definition num_arg :: "'s cmdenv \<Rightarrow> string list \<Rightarrow> nat \<Rightarrow> nat \<Rightarrow> u32 option" where
  "num_arg ce args k base = do { a \<leftarrow> argument args k; Some (word_of_int (ce_strtol ce a base)) }"

definition env_arg :: "'z prompt_state_scheme cmdenv \<Rightarrow> string list \<Rightarrow> nat \<Rightarrow> 'z prompt_state_scheme \<Rightarrow> env_ptr option option" where
  "env_arg ce args k s = do { envId \<leftarrow> num_arg ce args k 10; (r, env) \<leftarrow> envid2env (sint envId) False s; Some env }"

section \<open>Helpers that the commands call\<close>

definition KHP_PLACE_CONTALLOC :: u32 where "KHP_PLACE_CONTALLOC = 0"
definition KHP_PLACE_FIRSTFIT :: u32 where "KHP_PLACE_FIRSTFIT = 1"
definition KHP_PLACE_BESTFIT :: u32 where "KHP_PLACE_BESTFIT = 2"
definition KHP_PLACE_NEXTFIT :: u32 where "KHP_PLACE_NEXTFIT = 3"
definition KHP_PLACE_WORSTFIT :: u32 where "KHP_PLACE_WORSTFIT = 4"
definition KHP_PLACE_CUSTOMFIT :: u32 where "KHP_PLACE_CUSTOMFIT = 5"

definition UHP_PLACE_FIRSTFIT :: u32 where "UHP_PLACE_FIRSTFIT = 1"
definition UHP_PLACE_BESTFIT :: u32 where "UHP_PLACE_BESTFIT = 2"
definition UHP_PLACE_NEXTFIT :: u32 where "UHP_PLACE_NEXTFIT = 3"
definition UHP_PLACE_WORSTFIT :: u32 where "UHP_PLACE_WORSTFIT = 4"
definition UHP_PLACE_CUSTOMFIT :: u32 where "UHP_PLACE_CUSTOMFIT = 5"

lemmas place_consts = KHP_PLACE_CONTALLOC_def KHP_PLACE_FIRSTFIT_def KHP_PLACE_BESTFIT_def KHP_PLACE_NEXTFIT_def KHP_PLACE_WORSTFIT_def
  KHP_PLACE_CUSTOMFIT_def UHP_PLACE_FIRSTFIT_def UHP_PLACE_BESTFIT_def UHP_PLACE_NEXTFIT_def UHP_PLACE_WORSTFIT_def UHP_PLACE_CUSTOMFIT_def

definition set_kheap_strategy :: "u32 \<Rightarrow> 'z prompt_state_scheme \<Rightarrow> 'z prompt_state_scheme" where
  "set_kheap_strategy strategy s = s\<lparr>kheapPlacementStrategy := strategy\<rparr>"

definition set_uheap_strategy :: "u32 \<Rightarrow> 'z prompt_state_scheme \<Rightarrow> 'z prompt_state_scheme" where
  "set_uheap_strategy strategy s = s\<lparr>UHeapPlacementStrategy := strategy\<rparr>"

text \<open>The conversions of addresses, the shared page and the count of free pages are exercises without a body: they panic.\<close>

definition virtual_to_physical :: "frame \<Rightarrow> u32 \<Rightarrow> 'z mem_state_scheme \<Rightarrow> u32 option" where
  "virtual_to_physical dir va s = None"

definition physical_to_virtual :: "frame \<Rightarrow> u32 \<Rightarrow> 'z mem_state_scheme \<Rightarrow> u32 option" where
  "physical_to_virtual dir pa s = None"

definition alloc_shared_page :: "frame \<Rightarrow> u32 \<Rightarrow> frame \<Rightarrow> u32 \<Rightarrow> u32 \<Rightarrow> 'z mem_state_scheme \<Rightarrow> (int \<times> 'z mem_state_scheme) option" where
  "alloc_shared_page page_dir1 va1 page_dir2 va2 perms s = None"

definition calculate_free_space :: "frame \<Rightarrow> u32 \<Rightarrow> u32 \<Rightarrow> 'z mem_state_scheme \<Rightarrow> u32 option" where
  "calculate_free_space dir sva eva s = None"

definition clone_kern_dir :: "'z mem_state_scheme \<Rightarrow> (frame \<times> 'z mem_state_scheme) option" where
  "clone_kern_dir s = do {
     (f, s1) \<leftarrow> allocate_frame s;
     let dir_pa = to_physical_address f;
     dir_ptr \<leftarrow> STATIC_KERNEL_VIRTUAL_ADDRESS dir_pa s1;
     d \<leftarrow> mmu_walk dir_ptr s1;
     let kern = phys s1 (ptr_page_directory s1);
     let s2 = s1\<lparr>phys := (phys s1)(d := (\<lambda>i. if i < 1024 then kern i else phys s1 d i))\<rparr>;
     Some (d, lcr3 dir_pa s2) }"

definition chksch :: "u8 \<Rightarrow> 'z prompt_state_scheme \<Rightarrow> 'z prompt_state_scheme option" where
  "chksch onoff s = do {
     assert_that (scheduler_method s \<noteq> SCH_BSD);
     Some (s\<lparr>chkstatus := onoff\<rparr>) }"

section \<open>The table of commands\<close>

text \<open>Name, description and number of arguments; the functions follow in the same order as \<open>command_functions\<close>.\<close>

definition command_infos :: "(string \<times> string \<times> int) list" where
  "command_infos =
     [(''help'', ''Display this list of commands'', 0),
      (''kernel_info'', ''Display information about the kernel'', 0),
      (''ikb'', ''Lab3.Example: shows mapping info of KERNEL_BASE'', 0),
      (''dkb'', ''Lab3.Example: delete the mapping of KERNEL_BASE'', 0),
      (''meminfo'', ''display info about RAM'', 0),
      (''sched?'', ''print current scheduler algorithm'', 0),
      (''runall'', ''run all loaded programs'', 0),
      (''printall'', ''print all loaded programs'', 0),
      (''killall'', ''kill all environments in the system'', 0),
      (''fifo'', ''set replacement algorithm to FIFO'', 0),
      (''clock'', ''set replacement algorithm to CLOCK'', 0),
      (''modclock'', ''set replacement algorithm to modified CLOCK'', 0),
      (''optimal'', ''set replacement algorithm to OPTIMAL'', 0),
      (''rep?'', ''print current replacement algorithm'', 0),
      (''uhfirstfit'', ''set USER heap placement strategy to FIRST FIT'', 0),
      (''uhbestfit'', ''set USER heap placement strategy to BEST FIT'', 0),
      (''uhnextfit'', ''set USER heap placement strategy to NEXT FIT'', 0),
      (''uhworstfit'', ''set USER heap placement strategy to WORST FIT'', 0),
      (''uhcustomfit'', ''set USER heap placement strategy to CUSTOM FIT'', 0),
      (''uheap?'', ''print current USER heap placement strategy'', 0),
      (''khcontalloc'', ''set KERNEL heap placement strategy to CONTINUOUS ALLOCATION'', 0),
      (''khfirstfit'', ''set KERNEL heap placement strategy to FIRST FIT'', 0),
      (''khbestfit'', ''set KERNEL heap placement strategy to BEST FIT'', 0),
      (''khnextfit'', ''set KERNEL heap placement strategy to NEXT FIT'', 0),
      (''khworstfit'', ''set KERNEL heap placement strategy to WORST FIT'', 0),
      (''khcustomfit'', ''set KERNEL heap placement strategy to CUSTOM FIT'', 0),
      (''kheap?'', ''print current KERNEL heap placement strategy'', 0),
      (''nobuff'', ''disable buffering'', 0),
      (''buff'', ''enable buffering'', 0),
      (''nomodbuff'', ''disable modified buffer'', 0),
      (''modbuff'', ''enable modified buffer'', 0),
      (''modbufflength?'', ''get modified buffer length'', 0),
      (''cls'', ''clear screen'', 0),
      (''rm'', ''Lab2.Example: reads one byte from specific physical location'', 1),
      (''gpt'', ''Lab3.Example: get/create page table at the given VA'', 1),
      (''nr'', ''Lab4.Example: show the number of references of the physical frame'', 1),
      (''fp'', ''Lab4.Example: free one page in the user space at the given virtual address'', 1),
      (''p2v'', ''Lab5.HandsOn: find virtual address that's corresponding to the given physical address'', 1),
      (''v2p'', ''Lab5.HandsOn: find physical address that's corresponding to the given virtual address'', 1),
      (''sm'', ''Lab5.HandsOn: display the mapping info for the given virtual address'', 1),
      (''ft'', ''Lab6.Example: free (remove) the page table at the given VA'', 1),
      (''kill'', ''kill the given environment (by its ID) from the system'', 1),
      (''schedRR'', ''switch the scheduler to RR with given quantum'', 1),
      (''schedTest'', ''Used for turning on/off the scheduler test'', 1),
      (''lru'', ''set replacement algorithm to LRU'', 1),
      (''modbufflength'', ''set the length of the modified buffer'', 1),
      (''setStarvThr'', ''set the the starvation threshold of priority scheduler'', 1),
      (''wm'', ''Lab2.Example: writes one byte to specific physical location'', 2),
      (''shr'', ''Lab3.Example: share one page on another'', 2),
      (''asp'', ''Lab5.HandsOn: allocate shared page with the given two virtual addresses'', 2),
      (''cfp'', ''Lab5.HandsOn: count the number of free pages in the given range'', 2),
      (''rut'', ''remove a page table at the given VA from the given user environment ID'', 2),
      (''schedBSD'', ''switch the scheduler to BSD with given # queues & quantum'', 2),
      (''setPri'', ''set the priority of the given environment (by its ID)'', 2),
      (''nclock'', ''set replacement algorithm to Nth chance CLOCK (type=1: NORMAL Ver. type=2: MODIFIED Ver.'', 2),
      (''rub'', ''reads block of bytes from specific location in given environment'', 3),
      (''schedPRIRR'', ''switch the scheduler to PRIORITY RR with given #priorities, quantum and starvation threshold'', 3),
      (''ap'', ''Lab4.Example: allocate one page [if not exists] in the user space and optionally initialize it by 0s'', -1),
      (''sp'', ''Lab5.HandsOn: set the desired permission to a given virtual address page'', -1),
      (''sr'', ''Lab5.HandsOn: shares the physical frames of the first virtual range with the 2nd virtual range'', -1),
      (''run'', ''runs a single user program'', -1),
      (''wum'', ''writes one byte to specific location in kernel or a given environment'', -1),
      (''rum'', ''reads one byte from specific location in kernel or a given environment'', -1),
      (''aup'', ''allocate a user page with the given r/w permission'', -1),
      (''schedMLFQ'', ''switch the scheduler to MLFQ with given # queues & quantums'', -1),
      (''load'', ''load a single user program to mem with status = NEW'', -1),
      (''tst'', ''run the given test'', -1)]"

section \<open>Basic commands\<close>

definition command_help :: "'z prompt_state_scheme command" where
  "command_help ce args s = do {
     let s1 = fold (\<lambda>(n, d, k). cprintf ''%s - %s\<newline>'' [PS n, PS d]) command_infos s;
     let s2 = cprintf ''-------------------\<newline>'' [] s1;
     cmd_ok (fold (\<lambda>p. cprintf ''run %s - %s [User Program]\<newline>'' [PS (up_name p), PS (ce_desc ce p)]) (ce_progs ce) s2) }"

definition print_symbol :: "string \<Rightarrow> u32 \<Rightarrow> 'z prompt_state_scheme \<Rightarrow> 'z prompt_state_scheme" where
  "print_symbol fmt a = cprintf fmt [PN a, PN (a - KERNEL_BASE)]"

definition command_kernel_info :: "'z prompt_state_scheme command" where
  "command_kernel_info ce args s = do {
     let s1 = cprintf ''Special kernel symbols:\<newline>'' [] s;
     let s2 = print_symbol ''  Start Address of the kernel 			%08x (virt)  %08x (phys)\<newline>'' (ce_start_of_kernel ce) s1;
     let s3 = print_symbol ''  End address of kernel code  			%08x (virt)  %08x (phys)\<newline>'' (ce_end_of_kernel_code_section ce) s2;
     let s4 = print_symbol ''  Start addr. of uninitialized data section 	%08x (virt)  %08x (phys)\<newline>''
                (ce_start_of_uninitialized_data_section ce) s3;
     let s5 = print_symbol ''  End address of the kernel   			%08x (virt)  %08x (phys)\<newline>'' (ce_end_of_kernel ce) s4;
     let footprint = sint (ce_end_of_kernel ce - ce_start_of_kernel ce + 1023);
     cmd_ok (cprintf ''Kernel executable memory footprint: %d KB\<newline>'' [PN (word_of_int (footprint sdiv 1024))] s5) }"

section \<open>Laboratory commands\<close>

text \<open>The bytes of the string are written to consecutive addresses.\<close>

fun write_string :: "u32 \<Rightarrow> string \<Rightarrow> 'z mem_state_scheme \<Rightarrow> 'z mem_state_scheme option" where
  "write_string a [] s = Some s"
| "write_string a (c # cs) s = do { s1 \<leftarrow> mmu_put_byte a (of_char c) s; write_string (a + 1) cs s1 }"

definition command_writemem_k :: "'z prompt_state_scheme command" where
  "command_writemem_k ce args s = do {
     address \<leftarrow> num_arg ce args 1 16;
     text \<leftarrow> argument args 2;
     s1 \<leftarrow> write_string (address + KERNEL_BASE) text s;
     cmd_ok s1 }"

definition command_readmem_k :: "'z prompt_state_scheme command" where
  "command_readmem_k ce args s = do {
     address \<leftarrow> num_arg ce args 1 16;
     let ptr = address + KERNEL_BASE;
     b \<leftarrow> mmu_get_byte ptr s;
     cmd_ok (cprintf ''value at virtual address %x = %c\<newline>'' [PN ptr, PN (ucast b)] s) }"

text \<open>Seven exercises without a body.\<close>

definition command_get_page_table :: "'z prompt_state_scheme command" where "command_get_page_table ce args s = None"
definition command_kernel_base_info :: "'z prompt_state_scheme command" where "command_kernel_base_info ce args s = None"
definition command_del_kernel_base :: "'z prompt_state_scheme command" where "command_del_kernel_base ce args s = None"
definition command_share_page :: "'z prompt_state_scheme command" where "command_share_page ce args s = None"
definition command_shmp :: "'z prompt_state_scheme command" where "command_shmp ce args s = None"
definition command_scp :: "'z prompt_state_scheme command" where "command_scp ce args s = None"
definition command_shrr :: "'z prompt_state_scheme command" where "command_shrr ce args s = None"

definition command_nr :: "'z prompt_state_scheme command" where
  "command_nr ce args s = do {
     pa \<leftarrow> num_arg ce args 1 16;
     n \<leftarrow> num_of_references pa s;
     cmd_ok (cprintf ''Num of ref's @ pa %x = %d\<newline>'' [PN pa, PN (ucast n)] s) }"

definition command_ap :: "'z prompt_state_scheme command" where
  "command_ap ce args s = do {
     va \<leftarrow> num_arg ce args 1 16;
     let set_to_zero = (length args = 3 \<and> char_at0 (args ! 2) = CHR ''0'');
     (ret, s1) \<leftarrow> alloc_page (ptr_page_directory s) va (PERM_USER OR PERM_WRITEABLE) set_to_zero s;
     cmd_ok (if ret = 1 then cprintf ''Page @ va %x already exists!\<newline>'' [PN va] s1
             else if ret = E_NO_MEM then cprintf ''No enough memory!\<newline>'' [] s1
             else (let s2 = cprintf ''New page is allocated @ va %x\<newline>'' [PN va] s1
                   in if set_to_zero then cprintf ''and initialized by ZERO\<newline>'' [] s2 else s2)) }"

definition command_fp :: "'z prompt_state_scheme command" where
  "command_fp ce args s = do {
     va \<leftarrow> num_arg ce args 1 16;
     (u, s1) \<leftarrow> unmap_frame (ptr_page_directory s) va s;
     cmd_ok s1 }"

definition command_cfp :: "'z prompt_state_scheme command" where
  "command_cfp ce args s = do {
     (dir, s1) \<leftarrow> clone_kern_dir s;
     va1 \<leftarrow> num_arg ce args 1 16;
     va2 \<leftarrow> num_arg ce args 2 16;
     n \<leftarrow> calculate_free_space dir va1 va2 s1;
     cmd_ok (cprintf ''Num of free pages in va range [%x, %x) = %d\<newline>'' [PN va1, PN va2, PN n] s1) }"

definition command_asp :: "'z prompt_state_scheme command" where
  "command_asp ce args s = do {
     (dir, s1) \<leftarrow> clone_kern_dir s;
     va1 \<leftarrow> num_arg ce args 1 16;
     va2 \<leftarrow> num_arg ce args 2 16;
     (ret, s2) \<leftarrow> alloc_shared_page dir va1 dir va2 (PERM_USER OR PERM_WRITEABLE) s1;
     cmd_ok (if ret = E_NO_MEM then cprintf ''No enough memory!\<newline>'' [] s2 else s2) }"

definition command_v2p :: "'z prompt_state_scheme command" where
  "command_v2p ce args s = do {
     va \<leftarrow> num_arg ce args 1 16;
     pa \<leftarrow> virtual_to_physical (ptr_page_directory s) va s;
     cmd_ok (if pa = 0xFFFFFFFF then cprintf ''NOT FOUND\<newline>'' [] s else cprintf ''PA of VA %x = %x\<newline>'' [PN va, PN pa] s) }"

definition command_p2v :: "'z prompt_state_scheme command" where
  "command_p2v ce args s = do {
     pa \<leftarrow> num_arg ce args 1 16;
     va \<leftarrow> physical_to_virtual (ptr_page_directory s) pa s;
     cmd_ok (if va = 0xFFFFFFFF then cprintf ''NOT FOUND\<newline>'' [] s else cprintf ''VA of PA %x = %x\<newline>'' [PN pa, PN va] s) }"

definition command_ft :: "'z prompt_state_scheme command" where
  "command_ft ce args s = do {
     va \<leftarrow> num_arg ce args 1 16;
     (u, s1) \<leftarrow> del_page_table (ce_da ce) (ptr_page_directory s) va s;
     cmd_ok s1 }"

section \<open>Memory of processes\<close>

text \<open>Work in the address space of a process: its directory is loaded and the old one is loaded again afterwards.\<close>

definition in_env_space ::
  "env_ptr \<Rightarrow> ('z mem_state_scheme \<Rightarrow> 'z mem_state_scheme option) \<Rightarrow> 'z mem_state_scheme \<Rightarrow> 'z mem_state_scheme option" where
  "in_env_space e act s = do {
     let oldDir = cpu_cr3 s;
     s1 \<leftarrow> act (lcr3 (env_cr3 (envs s e)) s);
     Some (lcr3 oldDir s1) }"

definition command_writeusermem :: "'z prompt_state_scheme command" where
  "command_writeusermem ce args s =
     (if length args = 3 then do {
        address \<leftarrow> num_arg ce args 1 16;
        s1 \<leftarrow> mmu_put_byte address (of_char (char_at0 (args ! 2))) s;
        cmd_ok s1 }
      else if length args = 4 then do {
        env \<leftarrow> env_arg ce args 1 s;
        address \<leftarrow> num_arg ce args 2 16;
        case env of
          None \<Rightarrow> cmd_ok s
        | Some e \<Rightarrow> do {
            s1 \<leftarrow> in_env_space e (mmu_put_byte address (of_char (char_at0 (args ! 3)))) s;
            cmd_ok s1 } }
      else cmd_ok (cprintf ''wum command: invalid number of arguments\<newline>'' [] s))"

definition print_value :: "u32 \<Rightarrow> 'z prompt_state_scheme \<Rightarrow> 'z prompt_state_scheme option" where
  "print_value address s = do {
     b \<leftarrow> mmu_get_byte address s;
     Some (cprintf ''value at address %x = %c\<newline>'' [PN address, PN (ucast b)] s) }"

definition command_readusermem :: "'z prompt_state_scheme command" where
  "command_readusermem ce args s =
     (if length args = 2 then do {
        address \<leftarrow> num_arg ce args 1 16;
        s1 \<leftarrow> print_value address s;
        cmd_ok s1 }
      else if length args = 3 then do {
        env \<leftarrow> env_arg ce args 1 s;
        address \<leftarrow> num_arg ce args 2 16;
        case env of
          None \<Rightarrow> cmd_ok s
        | Some e \<Rightarrow> do { s1 \<leftarrow> in_env_space e (print_value address) s; cmd_ok s1 } }
      else cmd_ok (cprintf ''rum command: invalid number of arguments\<newline>'' [] s))"

fun print_block :: "nat \<Rightarrow> u32 \<Rightarrow> 'z prompt_state_scheme \<Rightarrow> 'z prompt_state_scheme option" where
  "print_block 0 ptr s = Some s"
| "print_block (Suc n) ptr s = do {
     b \<leftarrow> mmu_get_byte ptr s;
     print_block n (ptr + 1) (cprintf ''%08x : %02x  %c\<newline>'' [PN ptr, PN (ucast b), PN (ucast b)] s) }"

definition command_readuserblock :: "'z prompt_state_scheme command" where
  "command_readuserblock ce args s = do {
     env \<leftarrow> env_arg ce args 1 s;
     address \<leftarrow> num_arg ce args 2 16;
     nBytes \<leftarrow> num_arg ce args 3 10;
     case env of
       None \<Rightarrow> cmd_ok s
     | Some e \<Rightarrow> do { s1 \<leftarrow> in_env_space e (print_block (nat (sint nBytes)) address) s; cmd_ok s1 } }"

definition command_remove_table :: "'z prompt_state_scheme command" where
  "command_remove_table ce args s = do {
     env \<leftarrow> env_arg ce args 1 s;
     case env of
       None \<Rightarrow> cmd_ok s
     | Some e \<Rightarrow> do {
         address \<leftarrow> num_arg ce args 2 16;
         dir \<leftarrow> env_page_directory (envs s e);
         let table_pa = phys s dir (PDX address) AND 0xFFFFF000;
         (u, s1) \<leftarrow> (if use_kheap s \<and> \<not> CHECK_IF_KERNEL_ADDRESS address
            then do { va \<leftarrow> kheap_virtual_address table_pa s; kfree (ce_da ce) va s }
            else do { t \<leftarrow> to_frame_info table_pa s; free_frame t (fi_upd t (\<lambda>fi. fi\<lparr>references := 0\<rparr>) s) });
         let s2 = write_phys dir (PDX address) (phys s1 dir (PDX address) AND NOT PERM_PRESENT) s1;
         cmd_ok (tlbflush s2) } }"

text \<open>The permission in the fourth argument; a wrong one is reported and taken as writable.\<close>

definition aup_perm :: "string \<Rightarrow> u32 \<times> bool" where
  "aup_perm a =
     (let c = char_at0 a in
      if c = CHR ''r'' \<or> c = CHR ''R'' then (0, True)
      else if c = CHR ''w'' \<or> c = CHR ''W'' then (PERM_WRITEABLE, True)
      else (PERM_WRITEABLE, False))"

definition command_allocuserpage :: "'z prompt_state_scheme command" where
  "command_allocuserpage ce args s =
     (if length args < 3 \<or> length args > 4
      then cmd_ok (cprintf ''aup command: invalid number of arguments\<newline>'' [] s)
      else do {
        env \<leftarrow> env_arg ce args 1 s;
        case env of
          None \<Rightarrow> cmd_ok s
        | Some e \<Rightarrow> do {
            va \<leftarrow> num_arg ce args 2 16;
            (f, s1) \<leftarrow> allocate_frame s;
            let (rw, known) = (if length args = 3 then (PERM_WRITEABLE, True) else aup_perm (args ! 3));
            let s2 = (if known then s1
                      else cprintf ''aup command: wrong permission (r/w)... will continue as writable\<newline>'' [] s1);
            dir \<leftarrow> env_page_directory (envs s2 e);
            (r, s3) \<leftarrow> map_frame dir f va (rw OR PERM_USER) s2;
            cmd_ok s3 } })"

definition command_meminfo :: "'z prompt_state_scheme command" where
  "command_meminfo ce args s = do {
     (c, s1) \<leftarrow> calculate_available_frames s;
     let s2 = cprintf ''Total available frames = %d\<newline>Free Buffered = %d\<newline>Free Not Buffered = %d\<newline>Modified = %d\<newline>''
                [PN (of_nat (freeBuffered c + freeNotBuffered c + freeFramesCounters.modified c)), PN (of_nat (freeBuffered c)),
                 PN (of_nat (freeNotBuffered c)), PN (of_nat (freeFramesCounters.modified c))] s1;
     cmd_ok (cprintf ''Num of calls for kheap_virtual_address [in last run] = %d\<newline>'' [PN (numOfKheapVACalls s2)] s2) }"

section \<open>Running programs\<close>

definition PWS_MAX_SIZE :: u32 where "PWS_MAX_SIZE = 5000"
definition LRU_SNDLST_SIZE :: u32 where "LRU_SNDLST_SIZE = 500"

text \<open>
  The sizes and the scheduling argument that \<open>CreateEnv\<close> takes from its arguments; \<open>Inl\<close> is the message of a refusal.
  \<open>BSDSchedNiceVal\<close> is -100 and \<open>PRIRRSchedPriority\<close> is 0 when they are not given.
\<close>

record create_args =
  pageWSSize :: u32
  LRUSecondListSize :: u32
  percent_WS_pages_to_remove :: u32
  BSDSchedNiceVal :: int
  PRIRRSchedPriority :: int

definition default_create_args :: create_args where
  "default_create_args = \<lparr>pageWSSize = PWS_MAX_SIZE, LRUSecondListSize = 0, percent_WS_pages_to_remove = 0,
     BSDSchedNiceVal = -100, PRIRRSchedPriority = 0\<rparr>"

definition sched_arg :: "sched_method \<Rightarrow> u32 \<Rightarrow> create_args \<Rightarrow> create_args" where
  "sched_arg m x a =
     (if m = SCH_BSD then a\<lparr>BSDSchedNiceVal := sint x\<rparr> else if m = SCH_PRIRR then a\<lparr>PRIRRSchedPriority := sint x\<rparr> else a)"

definition create_args_kheap ::
  "'z prompt_state_scheme cmdenv \<Rightarrow> string list \<Rightarrow> 'z prompt_state_scheme \<Rightarrow> (string + create_args) option" where
  "create_args_kheap ce args s = do {
     let lists = (PageRepAlgoType s = PG_REP_LRU_LISTS_APPROX);
     let n = length args;
     let a = default_create_args;
     r \<leftarrow> (if n = 5 then
        if \<not> lists then Some (Inl ''ERROR: Current Replacement is NOT LRU LISTS, invalid number of args\<newline>Usage: <command> <prog_name> <page_WS_size> [<LRU_second_list_size>] [<BSD_Sched_Nice>]\<newline>aborting...\<newline>'')
        else do {
          x \<leftarrow> num_arg ce args 4 10; l \<leftarrow> num_arg ce args 3 10; w \<leftarrow> num_arg ce args 2 10;
          Some (Inr ((sched_arg (scheduler_method s) x a)\<lparr>LRUSecondListSize := l, pageWSSize := w\<rparr>)) }
      else if n = 4 then do {
        x \<leftarrow> num_arg ce args 3 10; w \<leftarrow> num_arg ce args 2 10;
        Some (Inr ((if lists then a\<lparr>LRUSecondListSize := x\<rparr> else sched_arg (scheduler_method s) x a)\<lparr>pageWSSize := w\<rparr>)) }
      else if n = 3 then
        if lists then Some (Inl ''ERROR: Current Replacement is LRU LISTS, Please specify a working set size in the 3rd arg and LRU second list size in the 4th arg, aborting.\<newline>'')
        else do { w \<leftarrow> num_arg ce args 2 10; Some (Inr (a\<lparr>pageWSSize := w\<rparr>)) }
      else Some (Inl ''ERROR: invalid number of args\<newline>Usage: <command> <prog_name> <page_WS_size> [<LRU_second_list_size>] [<DYN_LOC_SCOPE_percent_WS_to_remove>]\<newline>aborting...\<newline>''));
     case r of
       Inl m \<Rightarrow> Some (Inl m)
     | Inr c \<Rightarrow>
         if lists \<and> LRUSecondListSize c > pageWSSize c - 1
         then Some (Inl ''ERROR: size of LRU second list can't equal/exceed the size of the page WS... aborting\<newline>'')
         else Some (Inr c) }"

definition create_args_static ::
  "'z prompt_state_scheme cmdenv \<Rightarrow> string list \<Rightarrow> 'z prompt_state_scheme \<Rightarrow> (string + create_args) option" where
  "create_args_static ce args s = do {
     let a = default_create_args\<lparr>LRUSecondListSize := (if PageRepAlgoType s = PG_REP_LRU_LISTS_APPROX then LRU_SNDLST_SIZE else 0)\<rparr>;
     if length args = 3 then do { p \<leftarrow> num_arg ce args 2 10; Some (Inr (a\<lparr>percent_WS_pages_to_remove := p\<rparr>)) }
     else if length args = 2 then Some (Inr a)
     else Some (Inl ''ERROR: invalid number of args\<newline>Usage: <command> <prog_name> [<DYN_LOC_SCOPE_percent_WS_to_remove>]\<newline>aborting...\<newline>'') }"

text \<open>\<open>env_set_nice\<close> is an exercise without a body.  Under priority scheduling the new process is read even when there is none.\<close>

definition CreateEnv ::
  "'z prompt_state_scheme cmdenv \<Rightarrow> string list \<Rightarrow> 'z prompt_state_scheme \<Rightarrow> (env_ptr option \<times> 'z prompt_state_scheme) option" where
  "CreateEnv ce args s = do {
     r \<leftarrow> (if use_kheap s then create_args_kheap ce args s else create_args_static ce args s);
     case r of
       Inl m \<Rightarrow> Some (None, cprintf m [] s)
     | Inr a \<Rightarrow> do {
         assert_that (percent_WS_pages_to_remove a \<le> 100);
         name \<leftarrow> argument args 1;
         (env, s1) \<leftarrow> env_create (ce_da ce) (ce_ide ce) (ce_progs ce) (ce_elf ce) name
                        (pageWSSize a) (LRUSecondListSize a) (percent_WS_pages_to_remove a) s;
         assert_that (BSDSchedNiceVal a = -100);
         if scheduler_method s1 = SCH_PRIRR
         then do { e \<leftarrow> env; s2 \<leftarrow> env_set_priority (env_id (envs s1 e)) (PRIRRSchedPriority a) s1; Some (env, s2) }
         else Some (env, s1) } }"

definition command_run_program :: "'z prompt_state_scheme command" where
  "command_run_program ce args s = do {
     (env, s1) \<leftarrow> CreateEnv ce args s;
     case env of
       None \<Rightarrow> cmd_ok s1
     | Some e \<Rightarrow> do {
         let s2 = cprintf ''\<newline>Environment Id= %d\<newline>'' [PN (word_of_int (env_id (envs s1 e)))] s1;
         s3 \<leftarrow> sched_new_env (Some e) s2;
         (c, s4) \<leftarrow> sched_run_env (env_id (envs s3 e)) (s3\<lparr>numOfKheapVACalls := 0\<rparr>);
         Some (if c = Returns then Cmd_ret 0 else Cmd_leaves c, s4) } }"

definition command_kill_program :: "'z prompt_state_scheme command" where
  "command_kill_program ce args s = do {
     envId \<leftarrow> num_arg ce args 1 10;
     (c, s1) \<leftarrow> sched_kill_env (ce_da ce) (sint envId) s;
     Some (if c = Returns then Cmd_ret 0 else Cmd_leaves c, s1) }"

definition commnad_load_env :: "'z prompt_state_scheme command" where
  "commnad_load_env ce args s = do {
     (env, s1) \<leftarrow> CreateEnv ce args s;
     case env of
       None \<Rightarrow> cmd_ok s1
     | Some e \<Rightarrow> do {
         s2 \<leftarrow> sched_new_env (Some e) s1;
         cmd_ok (cprintf ''\<newline>Environment Id= %d\<newline>'' [PN (word_of_int (env_id (envs s2 e)))] s2) } }"

definition command_run_all :: "'z prompt_state_scheme command" where
  "command_run_all ce args s = do {
     (c, s1) \<leftarrow> sched_run_all (s\<lparr>numOfKheapVACalls := 0\<rparr>);
     Some (if c = Returns then Cmd_ret 0 else Cmd_leaves c, s1) }"

text \<open>The listing of the queues is not kept.\<close>

definition command_print_all :: "'z prompt_state_scheme command" where
  "command_print_all ce args s = do { (r, s1) \<leftarrow> sched_print_all s; cmd_ok s1 }"

text \<open>\<open>sched_kill_all\<close> ends in the prompt again when no process is current, so it never returns.\<close>

definition command_kill_all :: "'z prompt_state_scheme command" where
  "command_kill_all ce args s = do {
     (c, s1) \<leftarrow> sched_kill_all (ce_da ce) s;
     Some (Cmd_leaves c, s1) }"

section \<open>Replacement strategies\<close>

definition command_set_page_rep_LRU :: "'z prompt_state_scheme command" where
  "command_set_page_rep_LRU ce args s =
     (if length args < 2
      then cmd_ok (cprintf ''ERROR: please specify the LRU Approx Type (1: TimeStamp Approx, 2: Lists Approx), aborting...\<newline>'' [] s)
      else do {
        LRU_TYPE \<leftarrow> num_arg ce args 1 10;
        if LRU_TYPE = 1 then do {
          s1 \<leftarrow> setPageReplacmentAlgorithmLRU PG_REP_LRU_TIME_APPROX s;
          cmd_ok (cprintf ''Page replacement algorithm is now LRU with TimeStamp approximation\<newline>'' [] s1) }
        else if LRU_TYPE = 2 then do {
          s1 \<leftarrow> setPageReplacmentAlgorithmLRU PG_REP_LRU_LISTS_APPROX s;
          cmd_ok (cprintf ''Page replacement algorithm is now LRU with LISTS approximation\<newline>'' [] s1) }
        else cmd_ok (cprintf ''ERROR: Invalid LRU Approx Type (1: TimeStamp Approx, 2: Lists Approx), aborting...\<newline>'' [] s) })"

text \<open>The number of sweeps is unsigned, so the test for a positive number refuses 0 only.\<close>

definition command_set_page_rep_nthCLOCK :: "'z prompt_state_scheme command" where
  "command_set_page_rep_nthCLOCK ce args s = do {
     PageWSMaxSweeps \<leftarrow> num_arg ce args 1 10;
     t \<leftarrow> num_arg ce args 2 10;
     let type = (ucast t :: u8);
     if PageWSMaxSweeps \<le> 0 then cmd_ok (cprintf ''Invalid number of sweeps! it should be +ve.\<newline>'' [] s)
     else if type = 1 \<or> type = 2 then do {
       let n = (if type = 1 then PageWSMaxSweeps * 1 else PageWSMaxSweeps * -1);
       cmd_ok (cprintf ''Page replacement algorithm is now N chance CLOCK\<newline>'' []
         (setPageReplacmentAlgorithmNchanceCLOCK (sint n) s)) }
     else cmd_ok (cprintf ''Invalid type!\<newline>	type=1: NORMAL Ver. type=2: MODIFIED Ver.\<newline>'' [] s) }"

definition command_set_page_rep_CLOCK :: "'z prompt_state_scheme command" where
  "command_set_page_rep_CLOCK ce args s =
     cmd_ok (cprintf ''Page replacement algorithm is now CLOCK\<newline>'' [] (setPageReplacmentAlgorithmCLOCK s))"

definition command_set_page_rep_FIFO :: "'z prompt_state_scheme command" where
  "command_set_page_rep_FIFO ce args s =
     cmd_ok (cprintf ''Page replacement algorithm is now FIFO\<newline>'' [] (setPageReplacmentAlgorithmFIFO s))"

definition command_set_page_rep_ModifiedCLOCK :: "'z prompt_state_scheme command" where
  "command_set_page_rep_ModifiedCLOCK ce args s =
     cmd_ok (cprintf ''Page replacement algorithm is now Modified CLOCK\<newline>'' [] (setPageReplacmentAlgorithmModifiedCLOCK s))"

definition command_set_page_rep_OPTIMAL :: "'z prompt_state_scheme command" where
  "command_set_page_rep_OPTIMAL ce args s =
     cmd_ok (cprintf ''Page replacement algorithm is now OPTIMAL\<newline>'' [] (setPageReplacmentAlgorithmOPTIMAL s))"

definition command_print_page_rep :: "'z prompt_state_scheme command" where
  "command_print_page_rep ce args s = cmd_ok (case PageRepAlgoType s of
       PG_REP_CLOCK \<Rightarrow> cprintf ''Page replacement algorithm is CLOCK\<newline>'' [] s
     | PG_REP_LRU_TIME_APPROX \<Rightarrow> cprintf ''Page replacement algorithm is LRU with TimeStamp approximation\<newline>'' [] s
     | PG_REP_LRU_LISTS_APPROX \<Rightarrow> cprintf ''Page replacement algorithm is LRU with LISTS approximation\<newline>'' [] s
     | PG_REP_FIFO \<Rightarrow> cprintf ''Page replacement algorithm is FIFO\<newline>'' [] s
     | PG_REP_MODIFIEDCLOCK \<Rightarrow> cprintf ''Page replacement algorithm is Modified CLOCK\<newline>'' [] s
     | PG_REP_OPTIMAL \<Rightarrow> cprintf ''Page replacement algorithm is OPTIMAL\<newline>'' [] s
     | PG_REP_NchanceCLOCK \<Rightarrow>
         (let s1 = cprintf ''Page replacement algorithm is Nth Chance CLOCK '' [] s
          in if page_WS_max_sweeps s1 > 0 then cprintf ''[NORMAL ver]\<newline>'' [] s1
             else if page_WS_max_sweeps s1 < 0 then cprintf ''[MODIFIED ver]\<newline>'' [] s1 else s1)
     | _ \<Rightarrow> cprintf ''Page replacement algorithm is UNDEFINED\<newline>'' [] s)"

section \<open>Schedulers\<close>

definition first_quantum :: "'z sched_state_scheme \<Rightarrow> u32 option" where
  "first_quantum s = (case quantums s of [] \<Rightarrow> None | q # _ \<Rightarrow> Some (ucast q))"

definition print_quantums :: "'z prompt_state_scheme \<Rightarrow> 'z prompt_state_scheme option" where
  "print_quantums s = do {
     assert_that (num_of_ready_queues s \<le> length (quantums s));
     Some (cprintf ''\<newline>'' [] (fold (\<lambda>q. cprintf ''%d   '' [PN (ucast q)]) (take (num_of_ready_queues s) (quantums s)) s)) }"

definition command_sch_RR :: "'z prompt_state_scheme command" where
  "command_sch_RR ce args s = do {
     quantum \<leftarrow> num_arg ce args 1 10;
     s1 \<leftarrow> sched_init_RR (ce_da ce) (ucast quantum) s;
     q \<leftarrow> first_quantum s1;
     cmd_ok (cprintf ''Scheduler is now set to Round Robin with quantum %d ms\<newline>'' [PN q] s1) }"

fun quantum_args :: "'s cmdenv \<Rightarrow> string list \<Rightarrow> u8 list" where
  "quantum_args ce [] = []"
| "quantum_args ce (a # as) = word_of_int (ce_strtol ce a 10) # quantum_args ce as"

definition command_sch_MLFQ :: "'z prompt_state_scheme command" where
  "command_sch_MLFQ ce args s = do {
     numOfLevels \<leftarrow> num_arg ce args 1 10;
     let quantumOfEachLevel = quantum_args ce (drop 2 args);
     s1 \<leftarrow> sched_init_MLFQ (ucast numOfLevels) quantumOfEachLevel s;
     s2 \<leftarrow> print_quantums (cprintf ''Scheduler is now set to MLFQ with quantums: '' [] s1);
     cmd_ok s2 }"

definition command_sch_BSD :: "'z prompt_state_scheme command" where
  "command_sch_BSD ce args s = do {
     numOfLevels \<leftarrow> num_arg ce args 1 10;
     quantum \<leftarrow> num_arg ce args 2 10;
     s1 \<leftarrow> sched_init_BSD (ucast numOfLevels) (ucast quantum) s;
     cmd_ok (cprintf ''\<newline>'' [] (cprintf ''Scheduler is now set to BSD with %d levels & quantum = %d\<newline>''
       [PN (ucast (ucast numOfLevels :: u8)), PN (ucast (ucast quantum :: u8))] s1)) }"

definition command_sch_PRIRR :: "'z prompt_state_scheme command" where
  "command_sch_PRIRR ce args s = do {
     numOfLevels \<leftarrow> num_arg ce args 1 10;
     quantum \<leftarrow> num_arg ce args 2 10;
     starvThresh \<leftarrow> num_arg ce args 3 10;
     s1 \<leftarrow> sched_init_PRIRR (ce_da ce) (ucast numOfLevels) (ucast quantum) starvThresh s;
     cmd_ok (cprintf ''\<newline>'' []
       (cprintf ''Scheduler is now set to PRIORITY RR with %d priorities, quantum = %d and starvation thresh %d\<newline>''
         [PN (ucast (ucast numOfLevels :: u8)), PN (ucast (ucast quantum :: u8)), PN starvThresh] s1)) }"

definition command_set_starve_thresh :: "'z prompt_state_scheme command" where
  "command_set_starve_thresh ce args s = do {
     starvationThresh \<leftarrow> num_arg ce args 1 10;
     cmd_ok (sched_set_starv_thresh starvationThresh s) }"

definition command_set_priority :: "'z prompt_state_scheme command" where
  "command_set_priority ce args s = do {
     envId \<leftarrow> num_arg ce args 1 10;
     priority \<leftarrow> num_arg ce args 2 10;
     s1 \<leftarrow> env_set_priority (sint envId) (sint priority) s;
     cmd_ok s1 }"

definition command_print_sch_method :: "'z prompt_state_scheme command" where
  "command_print_sch_method ce args s = (case scheduler_method s of
       SCH_MLFQ \<Rightarrow> do {
         s1 \<leftarrow> print_quantums (cprintf ''Current scheduler method is MLFQ with quantums: '' [] s);
         cmd_ok s1 }
     | SCH_RR \<Rightarrow> do {
         q \<leftarrow> first_quantum s;
         cmd_ok (cprintf ''Current scheduler method is Round Robin with quantum %d ms\<newline>'' [PN q] s) }
     | SCH_BSD \<Rightarrow> do {
         q \<leftarrow> first_quantum s;
         cmd_ok (cprintf ''Scheduler is now set to BSD with %d levels & quantum = %d\<newline>'' [PN (of_nat (num_of_ready_queues s)), PN q] s) }
     | SCH_PRIRR \<Rightarrow> do {
         q \<leftarrow> first_quantum s;
         cmd_ok (cprintf ''Scheduler is now set to PRIORITY RR with %d priorities & quantum = %d\<newline>''
           [PN (of_nat (num_of_ready_queues s)), PN q] s) })"

definition command_sch_test :: "'z prompt_state_scheme command" where
  "command_sch_test ce args s = do {
     status \<leftarrow> num_arg ce args 1 10;
     s1 \<leftarrow> chksch (ucast status) s;
     cmd_ok (if status = 0 then cprintf ''Testing the scheduler is TURNED OFF\<newline>'' [] s1
             else if status = 1 then cprintf ''Testing the scheduler is TURNED ON\<newline>'' [] s1 else s1) }"

section \<open>Placement strategies\<close>

definition command_set_uheap_plac_FIRSTFIT :: "'z prompt_state_scheme command" where
  "command_set_uheap_plac_FIRSTFIT ce args s =
     cmd_ok (cprintf ''User Heap placement strategy is now FIRST FIT\<newline>'' [] (set_uheap_strategy UHP_PLACE_FIRSTFIT s))"

definition command_set_uheap_plac_BESTFIT :: "'z prompt_state_scheme command" where
  "command_set_uheap_plac_BESTFIT ce args s =
     cmd_ok (cprintf ''User Heap placement strategy is now BEST FIT\<newline>'' [] (set_uheap_strategy UHP_PLACE_BESTFIT s))"

definition command_set_uheap_plac_NEXTFIT :: "'z prompt_state_scheme command" where
  "command_set_uheap_plac_NEXTFIT ce args s =
     cmd_ok (cprintf ''User Heap placement strategy is now NEXT FIT\<newline>'' [] (set_uheap_strategy UHP_PLACE_NEXTFIT s))"

definition command_set_uheap_plac_WORSTFIT :: "'z prompt_state_scheme command" where
  "command_set_uheap_plac_WORSTFIT ce args s =
     cmd_ok (cprintf ''User Heap placement strategy is now WORST FIT\<newline>'' [] (set_uheap_strategy UHP_PLACE_WORSTFIT s))"

definition command_set_uheap_plac_CUSTOMFIT :: "'z prompt_state_scheme command" where
  "command_set_uheap_plac_CUSTOMFIT ce args s =
     cmd_ok (cprintf ''User Heap placement strategy is now CUSTOM FIT\<newline>'' [] (set_uheap_strategy UHP_PLACE_CUSTOMFIT s))"

definition command_print_uheap_plac :: "'z prompt_state_scheme command" where
  "command_print_uheap_plac ce args s =
     (let strategy = UHeapPlacementStrategy s
      in cmd_ok (if strategy = UHP_PLACE_FIRSTFIT then cprintf ''User Heap placement strategy is FIRST FIT\<newline>'' [] s
        else if strategy = UHP_PLACE_NEXTFIT then cprintf ''User Heap placement strategy is NEXT FIT\<newline>'' [] s
        else if strategy = UHP_PLACE_BESTFIT then cprintf ''User Heap placement strategy is BEST FIT\<newline>'' [] s
        else if strategy = UHP_PLACE_WORSTFIT then cprintf ''User Heap placement strategy is WORST FIT\<newline>'' [] s
        else if strategy = UHP_PLACE_CUSTOMFIT then cprintf ''User Heap placement strategy is CUSTOM FIT\<newline>'' [] s
        else cprintf ''User Heap placement strategy is UNDEFINED\<newline>'' [] s))"

definition command_set_kheap_plac_CONTALLOC :: "'z prompt_state_scheme command" where
  "command_set_kheap_plac_CONTALLOC ce args s =
     cmd_ok (cprintf ''Kernel Heap placement strategy is now FIRST FIT\<newline>'' [] (set_kheap_strategy KHP_PLACE_CONTALLOC s))"

definition command_set_kheap_plac_FIRSTFIT :: "'z prompt_state_scheme command" where
  "command_set_kheap_plac_FIRSTFIT ce args s =
     cmd_ok (cprintf ''Kernel Heap placement strategy is now FIRST FIT\<newline>'' [] (set_kheap_strategy KHP_PLACE_FIRSTFIT s))"

definition command_set_kheap_plac_BESTFIT :: "'z prompt_state_scheme command" where
  "command_set_kheap_plac_BESTFIT ce args s =
     cmd_ok (cprintf ''Kernel Heap placement strategy is now BEST FIT\<newline>'' [] (set_kheap_strategy KHP_PLACE_BESTFIT s))"

definition command_set_kheap_plac_NEXTFIT :: "'z prompt_state_scheme command" where
  "command_set_kheap_plac_NEXTFIT ce args s =
     cmd_ok (cprintf ''Kernel Heap placement strategy is now NEXT FIT\<newline>'' [] (set_kheap_strategy KHP_PLACE_NEXTFIT s))"

definition command_set_kheap_plac_WORSTFIT :: "'z prompt_state_scheme command" where
  "command_set_kheap_plac_WORSTFIT ce args s =
     cmd_ok (cprintf ''Kernel Heap placement strategy is now WORST FIT\<newline>'' [] (set_kheap_strategy KHP_PLACE_WORSTFIT s))"

definition command_set_kheap_plac_CUSTOMFIT :: "'z prompt_state_scheme command" where
  "command_set_kheap_plac_CUSTOMFIT ce args s =
     cmd_ok (cprintf ''Kernel Heap placement strategy is now CUSTOM FIT\<newline>'' [] (set_kheap_strategy KHP_PLACE_CUSTOMFIT s))"

definition command_print_kheap_plac :: "'z prompt_state_scheme command" where
  "command_print_kheap_plac ce args s =
     (let strategy = kheapPlacementStrategy s
      in cmd_ok (if strategy = KHP_PLACE_CONTALLOC then cprintf ''Kernel Heap placement strategy is CONTINUOUS ALLOCATION\<newline>'' [] s
        else if strategy = KHP_PLACE_FIRSTFIT then cprintf ''Kernel Heap placement strategy is FIRST FIT\<newline>'' [] s
        else if strategy = KHP_PLACE_NEXTFIT then cprintf ''Kernel Heap placement strategy is NEXT FIT\<newline>'' [] s
        else if strategy = KHP_PLACE_BESTFIT then cprintf ''Kernel Heap placement strategy is BEST FIT\<newline>'' [] s
        else if strategy = KHP_PLACE_WORSTFIT then cprintf ''Kernel Heap placement strategy is WORST FIT\<newline>'' [] s
        else if strategy = KHP_PLACE_CUSTOMFIT then cprintf ''Kernel Heap placement strategy is CUSTOM FIT\<newline>'' [] s
        else cprintf ''Kernel Heap placement strategy is UNDEFINED\<newline>'' [] s))"

section \<open>Buffering\<close>

definition modified_buffer_enabled :: "'z vm_state_scheme \<Rightarrow> bool" where
  "modified_buffer_enabled s \<longleftrightarrow> (ucast (EnableModifiedBuffer s) :: u8) \<noteq> 0"

definition command_disable_modified_buffer :: "'z prompt_state_scheme command" where
  "command_disable_modified_buffer ce args s = cmd_ok
     (if \<not> buffering_enabled s then cprintf ''Buffering is not enabled. Please enable buffering first.\<newline>'' [] s
      else cprintf ''Modified Buffer is now DISABLED\<newline>'' [] (enableModifiedBuffer 0 s))"

definition command_enable_modified_buffer :: "'z prompt_state_scheme command" where
  "command_enable_modified_buffer ce args s = cmd_ok
     (if \<not> buffering_enabled s then cprintf ''Buffering is not enabled. Please enable buffering first.\<newline>'' [] s
      else cprintf ''Modified Buffer is now ENABLED\<newline>'' [] (enableModifiedBuffer 1 s))"

definition command_disable_buffering :: "'z prompt_state_scheme command" where
  "command_disable_buffering ce args s =
     cmd_ok (cprintf ''Buffering is now DISABLED\<newline>'' [] (enableModifiedBuffer 0 (enableBuffering 0 s)))"

definition command_enable_buffering :: "'z prompt_state_scheme command" where
  "command_enable_buffering ce args s =
     (let s1 = enableModifiedBuffer 1 (enableBuffering 1 s);
          s2 = (if ModifiedBufferLength s1 = 0
                then (let s2 = setModifiedBufferLength (word_of_int (ce_strtol ce (ce_readline ce) 10))
                                 (cprintf ''Modified buffer enabled but with length = 0\<newline>'' [] s1)
                      in cprintf ''Modified buffer length updated = %d\<newline>'' [PN (ModifiedBufferLength s2)] s2)
                else s1)
      in cmd_ok (cprintf ''Buffering is now ENABLED\<newline>'' [] s2))"

definition buffer_warnings :: "'z prompt_state_scheme \<Rightarrow> 'z prompt_state_scheme" where
  "buffer_warnings s =
     (if \<not> buffering_enabled s then cprintf ''Buffering is not enabled. Please enable buffering to use the modified buffer.\<newline>'' [] s
      else if \<not> modified_buffer_enabled s
      then cprintf ''Modified Buffering is not enabled. Please enable modified buffering.\<newline>'' [] s else s)"

definition command_set_modified_buffer_length :: "'z prompt_state_scheme command" where
  "command_set_modified_buffer_length ce args s = do {
     n \<leftarrow> num_arg ce args 1 10;
     let s1 = setModifiedBufferLength n (buffer_warnings s);
     cmd_ok (cprintf ''Modified buffer length updated = %d\<newline>'' [PN (ModifiedBufferLength s1)] s1) }"

definition command_get_modified_buffer_length :: "'z prompt_state_scheme command" where
  "command_get_modified_buffer_length ce args s =
     (let s1 = buffer_warnings s
      in cmd_ok (cprintf ''Modified buffer length = %d\<newline>'' [PN (ModifiedBufferLength s1)] s1))"

definition command_tst :: "'z prompt_state_scheme command" where
  "command_tst ce args s = map_option (\<lambda>(r, s1). (Cmd_ret r, s1)) (ce_tst_handler ce args s)"

definition command_cls :: "'z prompt_state_scheme command" where
  "command_cls ce args s = cmd_ok (s\<lparr>console_state := clear_screen_buffer (console_state s)\<rparr>)"

section \<open>Dispatch\<close>

definition command_functions :: "'z prompt_state_scheme command list" where
  "command_functions =
     [command_help, command_kernel_info, command_kernel_base_info, command_del_kernel_base,
      command_meminfo, command_print_sch_method, command_run_all, command_print_all,
      command_kill_all, command_set_page_rep_FIFO, command_set_page_rep_CLOCK, command_set_page_rep_ModifiedCLOCK,
      command_set_page_rep_OPTIMAL, command_print_page_rep, command_set_uheap_plac_FIRSTFIT, command_set_uheap_plac_BESTFIT,
      command_set_uheap_plac_NEXTFIT, command_set_uheap_plac_WORSTFIT, command_set_uheap_plac_CUSTOMFIT, command_print_uheap_plac,
      command_set_kheap_plac_CONTALLOC, command_set_kheap_plac_FIRSTFIT, command_set_kheap_plac_BESTFIT, command_set_kheap_plac_NEXTFIT,
      command_set_kheap_plac_WORSTFIT, command_set_kheap_plac_CUSTOMFIT, command_print_kheap_plac, command_disable_buffering,
      command_enable_buffering, command_disable_modified_buffer, command_enable_modified_buffer, command_get_modified_buffer_length,
      command_cls, command_readmem_k, command_get_page_table, command_nr,
      command_fp, command_p2v, command_v2p, command_shmp,
      command_ft, command_kill_program, command_sch_RR, command_sch_test,
      command_set_page_rep_LRU, command_set_modified_buffer_length, command_set_starve_thresh, command_writemem_k,
      command_share_page, command_asp, command_cfp, command_remove_table,
      command_sch_BSD, command_set_priority, command_set_page_rep_nthCLOCK, command_readuserblock,
      command_sch_PRIRR, command_ap, command_scp, command_shrr,
      command_run_program, command_writeusermem, command_readusermem, command_allocuserpage,
      command_sch_MLFQ, commnad_load_env, command_tst]"

definition NUM_OF_COMMANDS :: nat where
  "NUM_OF_COMMANDS = length command_infos"

datatype cmd_match = CMD_INVALID | CMD_INV_NUM_ARGS | CMD_MATCHED | Cmd_index nat

fun find_command :: "string \<Rightarrow> (string \<times> string \<times> int) list \<Rightarrow> nat \<Rightarrow> cmd_match" where
  "find_command a [] i = CMD_INVALID"
| "find_command a ((name, d, n) # infos) i = (if a = name then Cmd_index i else find_command a infos (Suc i))"

text \<open>The number of arguments is not compared with the one that the command declares.\<close>

definition process_command :: "string list \<Rightarrow> cmd_match" where
  "process_command args = find_command (hd args) command_infos 0"

text \<open>
  The choice among the commands of \<open>foundCommands\<close>: digits are read while the number they form is that of a command.  \<open>keys\<close> is what is
  typed; waiting for a key that does not come has no result.
\<close>

fun read_selection :: "int \<Rightarrow> int \<Rightarrow> u8 list \<Rightarrow> int option" where
  "read_selection n selection [] = None"
| "read_selection n selection (c # keys) =
     (if 48 \<le> c \<and> c \<le> 57
      then (let sel = selection * 10 + (uint c - 48)
            in if sel < 1 \<or> sel > n then Some sel else read_selection n sel keys)
      else Some selection)"

definition found_info :: "nat \<Rightarrow> 'z prompt_state_scheme \<Rightarrow> string \<times> string \<times> int" where
  "found_info k s = command_infos ! (foundCommands s ! k)"

definition select_command ::
  "'z prompt_state_scheme cmdenv \<Rightarrow> u8 list \<Rightarrow> string list \<Rightarrow> 'z prompt_state_scheme \<Rightarrow> (cmd_end \<times> 'z prompt_state_scheme) option" where
  "select_command ce keys args s = do {
     let n = length (foundCommands s);
     assert_that (n \<noteq> 0);
     let s1 = fold (\<lambda>k s. cprintf ''[%d] %s\<newline>'' [PN (of_nat k + 1), PS (fst (found_info k s))] s) [0..<n] s;
     let s2 = cprintf ''Please select the required command [1] to [%d] and press enter? or press any other key to cancel: '' [PN (of_nat n)] s1;
     sel \<leftarrow> read_selection (int n) 0 keys;
     if 1 \<le> sel \<and> sel \<le> int n
     then (let (name, d, k) = found_info (nat sel - 1) s2 in
           if k = 0 then (command_functions ! (foundCommands s2 ! (nat sel - 1))) ce args (cprintf ''FOS> %s\<newline>'' [PS name] s2)
           else cmd_ok (cprintf ''%s: %s\<newline>'' [PS name, PS d] s2))
     else cmd_ok s2 }"

definition execute_command ::
  "'z prompt_state_scheme cmdenv \<Rightarrow> u8 list \<Rightarrow> string \<Rightarrow> 'z prompt_state_scheme \<Rightarrow> (cmd_end \<times> 'z prompt_state_scheme) option" where
  "execute_command ce keys command_string s =
     (let args = ce_strsplit ce command_string in
      if args = [] then cmd_ok s
      else (case process_command args of
          CMD_INVALID \<Rightarrow> cmd_ok (cprintf ''Unknown command '%s'\<newline>'' [PS (hd args)] s)
        | CMD_INV_NUM_ARGS \<Rightarrow> do {
            assert_that (length (foundCommands s) = 1);
            let (name, d, k) = found_info 0 s;
            cmd_ok (cprintf ''%s: invalid number of args.\<newline>Description: %s\<newline>'' [PS name, PS d] s) }
        | CMD_MATCHED \<Rightarrow> select_command ce keys args s
        | Cmd_index i \<Rightarrow> (command_functions ! i) ce args s))"

text \<open>
  \<open>run_command_prompt\<close> on the lines that are typed: it goes on until a command returns a negative number, leaves for the scheduler, or no
  more lines come.
\<close>

fun prompt_loop ::
  "'z prompt_state_scheme cmdenv \<Rightarrow> (u8 list \<times> string) list \<Rightarrow> 'z prompt_state_scheme \<Rightarrow> (cmd_end \<times> 'z prompt_state_scheme) option" where
  "prompt_loop ce [] s = Some (Cmd_ret 0, s)"
| "prompt_loop ce ((keys, line) # rest) s = do {
     (r, s1) \<leftarrow> execute_command ce keys line s;
     case r of
       Cmd_ret n \<Rightarrow> if n < 0 then Some (Cmd_ret n, s1) else prompt_loop ce rest s1
     | Cmd_leaves c \<Rightarrow> Some (Cmd_leaves c, s1) }"

definition run_command_prompt ::
  "'z prompt_state_scheme cmdenv \<Rightarrow> (u8 list \<times> string) list \<Rightarrow> 'z prompt_state_scheme \<Rightarrow> (cmd_end \<times> 'z prompt_state_scheme) option" where
  "run_command_prompt ce lines s = prompt_loop ce lines (s\<lparr>foundCommands := []\<rparr>)"

end
