(* ===== verification/FOS_CommandThms.thy ===== *)
theory FOS_CommandThms
  imports FOS_Command
begin

text \<open>
  The dispatch of commands, what a missing argument does, and the settings: a query answers what the last setting was.
\<close>

section \<open>The table\<close>

lemma command_table: "length command_infos = 67" "length command_functions = 67"
  by (simp_all add: command_infos_def command_functions_def)

lemma command_names_distinct: "distinct (map fst command_infos)"
  by (simp add: command_infos_def)

lemma find_command_hit:
  "i < length infos \<Longrightarrow> distinct (map fst infos) \<Longrightarrow> fst (infos ! i) = a \<Longrightarrow> find_command a infos k = Cmd_index (k + i)"
proof (induction a infos k arbitrary: i rule: find_command.induct)
  case (2 a name d n infos k)
  show ?case
  proof (cases i)
    case (Suc j)
    then have "a \<in> set (map fst infos)" using 2(2,4) by (auto intro: nth_mem)
    then have "a \<noteq> name" using 2(3) by auto
    then show ?thesis using 2 Suc by auto
  qed (use 2 in auto)
qed simp

lemma find_command_miss: "a \<notin> set (map fst infos) \<Longrightarrow> find_command a infos k = CMD_INVALID"
  by (induction a infos k rule: find_command.induct) auto

text \<open>
  C26: A line whose first word is the name of a command runs the function of that command on its words, for every command of the table and
  every number of words; a line whose first word is no command changes nothing but the output, and an empty line nothing at all.
\<close>

theorem execute_command_correct:
  assumes "args = ce_strsplit ce line"
  shows "(args = [] \<longrightarrow> execute_command ce keys line s = Some (Cmd_ret 0, s)) \<and>
    (args \<noteq> [] \<and> i < NUM_OF_COMMANDS \<and> hd args = fst (command_infos ! i) \<longrightarrow>
      execute_command ce keys line s = (command_functions ! i) ce args s) \<and>
    (args \<noteq> [] \<and> hd args \<notin> set (map fst command_infos) \<longrightarrow>
      execute_command ce keys line s = Some (Cmd_ret 0, cprintf ''Unknown command '%s'\<newline>'' [PS (hd args)] s))"
  using assms find_command_hit [OF _ command_names_distinct, of i "hd args" 0] find_command_miss [of "hd args" command_infos 0]
  by (auto simp: execute_command_def process_command_def cmd_ok_def NUM_OF_COMMANDS_def Let_def)

text \<open>Words of lines without spaces.\<close>

definition cmdenv_ex :: "'s cmdenv" where
  "cmdenv_ex = \<lparr>ce_da = \<lparr>alloc_block = (\<lambda>_ _. None), free_block = (\<lambda>_ _. None), get_block_size = (\<lambda>_ _. None), realloc_block = (\<lambda>_ _ _. None),
       memcpy = (\<lambda>_ _ _ _. None)\<rparr>,
     ce_ide = \<lparr>ide_read = (\<lambda>a b n s. Some (0, s)), ide_write = (\<lambda>a b n s. Some (0, s))\<rparr>, ce_progs = [],
     ce_elf = (\<lambda>_. \<lparr>e_magic = 0, e_entry = 0, e_phnum = 0, e_ph = (\<lambda>_. \<lparr>p_type = 0, p_offset = 0, p_va = 0, p_filesz = 0, p_memsz = 0\<rparr>)\<rparr>),
     ce_desc = (\<lambda>_. []), ce_strtol = (\<lambda>_ _. 0), ce_strsplit = (\<lambda>l. if l = [] then [] else [l]), ce_readline = [],
     ce_tst_handler = (\<lambda>_ s. Some (0, s)), ce_start_of_kernel = 0, ce_end_of_kernel_code_section = 0,
     ce_start_of_uninitialized_data_section = 0, ce_end_of_kernel = 0\<rparr>"

theorem execute_command_correct_witness:
  "\<forall>s :: prompt_state.
    execute_command cmdenv_ex [] [] s = Some (Cmd_ret 0, s) \<and>
    execute_command cmdenv_ex [] ''fifo'' s = command_set_page_rep_FIFO cmdenv_ex [''fifo''] s \<and>
    execute_command cmdenv_ex [] ''fofi'' s = Some (Cmd_ret 0, cprintf ''Unknown command '%s'\<newline>'' [PS ''fofi''] s)"
proof (intro allI conjI)
  fix s :: prompt_state
  have e: "ce_strsplit cmdenv_ex [] = []" "ce_strsplit cmdenv_ex ''fifo'' = [''fifo'']" "ce_strsplit cmdenv_ex ''fofi'' = [''fofi'']"
    by (simp_all add: cmdenv_ex_def)
  have i: "9 < NUM_OF_COMMANDS" "fst (command_infos ! 9) = ''fifo''" "command_functions ! 9 = (command_set_page_rep_FIFO :: prompt_state command)"
    "''fofi'' \<notin> set (map fst command_infos)"
    by (simp_all add: NUM_OF_COMMANDS_def command_table command_infos_def command_functions_def)
  show "execute_command cmdenv_ex [] [] s = Some (Cmd_ret 0, s)"
    using execute_command_correct [where i = 0 and keys = "[]" and s = s, OF e(1) [symmetric]] by simp
  show "execute_command cmdenv_ex [] ''fifo'' s = command_set_page_rep_FIFO cmdenv_ex [''fifo''] s"
    using execute_command_correct [where i = 9 and keys = "[]" and s = s, OF e(2) [symmetric]] i(1-3) by simp
  show "execute_command cmdenv_ex [] ''fofi'' s = Some (Cmd_ret 0, cprintf ''Unknown command '%s'\<newline>'' [PS ''fofi''] s)"
    using execute_command_correct [where i = 0 and keys = "[]" and s = s, OF e(3) [symmetric]] i(4) by simp
qed

section \<open>Missing arguments\<close>

lemma argument_missing: "length args \<le> k \<Longrightarrow> argument args k = None"
  by (simp add: argument_def)

lemma num_arg_missing: "length args \<le> k \<Longrightarrow> num_arg ce args k base = None"
  by (simp add: num_arg_def argument_missing)

lemma env_arg_missing: "length args \<le> k \<Longrightarrow> env_arg ce args k s = None"
  by (simp add: env_arg_def num_arg_missing)

lemmas one_argument_defs = command_readmem_k_def command_nr_def command_fp_def command_p2v_def
  command_v2p_def command_ft_def command_kill_program_def command_sch_RR_def command_sch_test_def
  command_set_modified_buffer_length_def command_set_starve_thresh_def

lemmas more_arguments_defs = command_writemem_k_def command_asp_def command_cfp_def command_remove_table_def
  command_sch_BSD_def command_set_priority_def command_set_page_rep_nthCLOCK_def command_readuserblock_def command_sch_PRIRR_def

definition unimplemented_commands :: "string set" where
  "unimplemented_commands = {''gpt'', ''sm'', ''shr''}"

lemma missing_arguments_table:
  "list_all2 (\<lambda>(n, d, k) f. 1 \<le> k \<and> n \<noteq> ''lru'' \<and> n \<notin> unimplemented_commands \<longrightarrow> f ce [n] s = None) command_infos
    (command_functions :: 'z prompt_state_scheme command list)"
  by (simp add: command_infos_def command_functions_def one_argument_defs more_arguments_defs num_arg_missing env_arg_missing
    unimplemented_commands_def split: bind_splits)

lemma unimplemented_table:
  "list_all2 (\<lambda>(n, d, k) f. (n \<in> unimplemented_commands \<longrightarrow> f ce args s = None) \<and> (n = ''lru'' \<longrightarrow> f = command_set_page_rep_LRU)) command_infos
    (command_functions :: 'z prompt_state_scheme command list)"
  by (simp add: command_infos_def command_functions_def unimplemented_commands_def command_get_page_table_def command_shmp_def command_share_page_def)



section \<open>Settings\<close>

lemma cprintf_sel [simp]:
  "printed (cprintf m xs s) = printed s @ [(m, xs)]" "kheapPlacementStrategy (cprintf m xs s) = kheapPlacementStrategy s"
  "UHeapPlacementStrategy (cprintf m xs s) = UHeapPlacementStrategy s" "PageRepAlgoType (cprintf m xs s) = PageRepAlgoType s"
  "page_WS_max_sweeps (cprintf m xs s) = page_WS_max_sweeps s" "quantums (cprintf m xs s) = quantums s"
  "scheduler_method (cprintf m xs s) = scheduler_method s" "num_of_ready_queues (cprintf m xs s) = num_of_ready_queues s"
  "ModifiedBufferLength (cprintf m xs s) = ModifiedBufferLength s" "buffering_enabled (cprintf m xs s) = buffering_enabled s"
  "EnableModifiedBuffer (cprintf m xs s) = EnableModifiedBuffer s"
  by (simp_all add: cprintf_def)

text \<open>The last line that the second command prints after the first one.\<close>

definition answer_after ::
  "'z prompt_state_scheme command \<Rightarrow> 'z prompt_state_scheme command \<Rightarrow> 'z prompt_state_scheme cmdenv \<Rightarrow> string list \<Rightarrow> 'z prompt_state_scheme \<Rightarrow>
   (string \<times> parg list) option" where
  "answer_after c q ce args s = do { (r, s1) \<leftarrow> c ce args s; (r, s2) \<leftarrow> q ce [] s1; Some (last (printed s2)) }"

lemma page_rep_answers:
  "answer_after command_set_page_rep_FIFO command_print_page_rep ce args s = Some (''Page replacement algorithm is FIFO\<newline>'', [])"
  "answer_after command_set_page_rep_CLOCK command_print_page_rep ce args s = Some (''Page replacement algorithm is CLOCK\<newline>'', [])"
  "answer_after command_set_page_rep_ModifiedCLOCK command_print_page_rep ce args s =
     Some (''Page replacement algorithm is Modified CLOCK\<newline>'', [])"
  "answer_after command_set_page_rep_OPTIMAL command_print_page_rep ce args s = Some (''Page replacement algorithm is OPTIMAL\<newline>'', [])"
  by (simp_all add: answer_after_def command_print_page_rep_def cmd_ok_def command_set_page_rep_FIFO_def command_set_page_rep_CLOCK_def
    command_set_page_rep_ModifiedCLOCK_def command_set_page_rep_OPTIMAL_def setPageReplacmentAlgorithmFIFO_def
    setPageReplacmentAlgorithmCLOCK_def setPageReplacmentAlgorithmModifiedCLOCK_def setPageReplacmentAlgorithmOPTIMAL_def)

lemma uheap_answers:
  "answer_after command_set_uheap_plac_FIRSTFIT command_print_uheap_plac ce args s = Some (''User Heap placement strategy is FIRST FIT\<newline>'', [])"
  "answer_after command_set_uheap_plac_BESTFIT command_print_uheap_plac ce args s = Some (''User Heap placement strategy is BEST FIT\<newline>'', [])"
  "answer_after command_set_uheap_plac_NEXTFIT command_print_uheap_plac ce args s = Some (''User Heap placement strategy is NEXT FIT\<newline>'', [])"
  "answer_after command_set_uheap_plac_WORSTFIT command_print_uheap_plac ce args s = Some (''User Heap placement strategy is WORST FIT\<newline>'', [])"
  "answer_after command_set_uheap_plac_CUSTOMFIT command_print_uheap_plac ce args s = Some (''User Heap placement strategy is CUSTOM FIT\<newline>'', [])"
  by (simp_all add: answer_after_def command_print_uheap_plac_def cmd_ok_def set_uheap_strategy_def place_consts
    command_set_uheap_plac_FIRSTFIT_def command_set_uheap_plac_BESTFIT_def command_set_uheap_plac_NEXTFIT_def
    command_set_uheap_plac_WORSTFIT_def command_set_uheap_plac_CUSTOMFIT_def)

lemma kheap_answers:
  "answer_after command_set_kheap_plac_CONTALLOC command_print_kheap_plac ce args s =
     Some (''Kernel Heap placement strategy is CONTINUOUS ALLOCATION\<newline>'', [])"
  "answer_after command_set_kheap_plac_FIRSTFIT command_print_kheap_plac ce args s = Some (''Kernel Heap placement strategy is FIRST FIT\<newline>'', [])"
  "answer_after command_set_kheap_plac_BESTFIT command_print_kheap_plac ce args s = Some (''Kernel Heap placement strategy is BEST FIT\<newline>'', [])"
  "answer_after command_set_kheap_plac_NEXTFIT command_print_kheap_plac ce args s = Some (''Kernel Heap placement strategy is NEXT FIT\<newline>'', [])"
  "answer_after command_set_kheap_plac_WORSTFIT command_print_kheap_plac ce args s = Some (''Kernel Heap placement strategy is WORST FIT\<newline>'', [])"
  "answer_after command_set_kheap_plac_CUSTOMFIT command_print_kheap_plac ce args s = Some (''Kernel Heap placement strategy is CUSTOM FIT\<newline>'', [])"
  by (simp_all add: answer_after_def command_print_kheap_plac_def cmd_ok_def set_kheap_strategy_def place_consts
    command_set_kheap_plac_CONTALLOC_def command_set_kheap_plac_FIRSTFIT_def command_set_kheap_plac_BESTFIT_def
    command_set_kheap_plac_NEXTFIT_def command_set_kheap_plac_WORSTFIT_def command_set_kheap_plac_CUSTOMFIT_def)

text \<open>The command for continuous allocation itself announces first fit.\<close>

lemma khcontalloc_announces_first_fit:
  "\<exists>s'. command_set_kheap_plac_CONTALLOC ce args s = Some (Cmd_ret 0, s') \<and> kheapPlacementStrategy s' = KHP_PLACE_CONTALLOC \<and>
    last (printed s') = (''Kernel Heap placement strategy is now FIRST FIT\<newline>'', [])"
  by (simp add: command_set_kheap_plac_CONTALLOC_def cmd_ok_def set_kheap_strategy_def)

text \<open>A negative number of sweeps is accepted and turns the normal version of the strategy into the modified one.\<close>

lemma nclock_accepts_negative:
  assumes "ce_strtol ce ''-1'' 10 = -1" "ce_strtol ce ''1'' 10 = 1"
  shows "\<exists>s'. command_set_page_rep_nthCLOCK ce [''nclock'', ''-1'', ''1''] s = Some (Cmd_ret 0, s') \<and> page_WS_max_sweeps s' = -1 \<and>
    PageRepAlgoType s' = PG_REP_NchanceCLOCK"
  using assms by (simp add: command_set_page_rep_nthCLOCK_def num_arg_def argument_def cmd_ok_def setPageReplacmentAlgorithmNchanceCLOCK_def)

section \<open>Running a program that does not exist\<close>

lemma env_create_unknown:
  "get_user_program_info progs name = None \<Longrightarrow> env_create da ide progs elf name w l p s = Some (r, s1) \<Longrightarrow>
    r = None \<and> scheduler_method s1 = scheduler_method s"
  by (auto simp: env_create_def Let_def pushcli_def popcli_def cli_def sti_def assert_that_def bind_eq_Some_conv split: if_splits)

lemma CreateEnv_unknown:
  assumes "use_kheap s" "get_user_program_info (ce_progs ce) name = None" "PageRepAlgoType s \<noteq> PG_REP_LRU_LISTS_APPROX"
  shows "CreateEnv ce [cmd, name, ws] s =
    (case env_create (ce_da ce) (ce_ide ce) (ce_progs ce) (ce_elf ce) name (word_of_int (ce_strtol ce ws 10)) 0 0 s of
       None \<Rightarrow> None
     | Some (r, s1) \<Rightarrow> if scheduler_method s = SCH_PRIRR then None else Some (None, s1))"
  using assms
  by (auto simp: CreateEnv_def create_args_kheap_def num_arg_def argument_def default_create_args_def split: option.splits
    dest!: env_create_unknown [OF assms(2)])

text \<open>Under priority scheduling the null pointer of the failed creation is read; under the other schedulers the command returns 0.\<close>

lemma run_unknown_program_PRIRR:
  assumes "use_kheap s" "get_user_program_info (ce_progs ce) name = None" "PageRepAlgoType s \<noteq> PG_REP_LRU_LISTS_APPROX"
    and "scheduler_method s = SCH_PRIRR"
  shows "command_run_program ce [cmd, name, ws] s = None"
  using CreateEnv_unknown [OF assms(1-3)] assms(4) by (simp add: command_run_program_def split: option.splits)

lemma run_unknown_program_other:
  assumes "use_kheap s" "get_user_program_info (ce_progs ce) name = None" "PageRepAlgoType s \<noteq> PG_REP_LRU_LISTS_APPROX"
    and "scheduler_method s \<noteq> SCH_PRIRR" "command_run_program ce [cmd, name, ws] s = Some (r, s')"
  shows "r = Cmd_ret 0"
  using CreateEnv_unknown [OF assms(1-3)] assms(4,5)
  by (auto simp: command_run_program_def cmd_ok_def split: option.splits)

end
