(* ===== verification/FOS_Readline.thy ===== *)
theory FOS_Readline
  imports FOS_Command
begin

text \<open>
  The line editor of the prompt (\<open>kern/cmd/command_readline.c\<close>): insertion, cursor keys, deletion, the history of the last 20 lines and the
  completion of names with the tabulator.

  A line is edited in a buffer of \<open>BUFLEN\<close> bytes.  A key is the number that \<open>getchar\<close> returns; what \<open>cputchar\<close> gets is kept in \<open>echoed\<close>.  A write outside the buffer is \<open>None\<close>.
  The code compares the first line of a session with the bytes before the history, and after 20 lines the down key shows the bytes behind it: these
  bytes are \<open>re_before\<close> and \<open>re_after\<close>.  \<open>last_c\<close> and the number of completions have no initial value, so they are
  arguments of the start.  \<open>strsplit\<close>, which is not in the repository, gives the string that it leaves behind and the words.
\<close>

definition BUFLEN :: nat where "BUFLEN = 1024"
definition HISTORY_MAX :: int where "HISTORY_MAX = 19"

record readline_env =
  re_split :: "u8 list \<Rightarrow> u8 list \<times> u8 list list"
  re_programs :: "u8 list list"
  re_tests :: "u8 list list"
  re_before :: "u8 list"
  re_after :: "u8 list"

record line_state =
  buf :: "u8 list"
  cursor :: int
  lastIndex :: int
  commandidx :: int
  prefixes :: "u8 list list"
  prefix_list_idx :: int
  prefix_list_size :: int
  last_c :: int
  is_run_cmd :: bool
  is_tst_cmd :: bool
  command_history :: "u8 list list"
  last_command_idx :: int
  echoed :: "int list"

section \<open>Buffers\<close>

definition empty_buf :: "u8 list" where
  "empty_buf = replicate BUFLEN 0"

definition cstr :: "u8 list \<Rightarrow> u8 list" where
  "cstr b = takeWhile (\<lambda>c. c \<noteq> 0) b"

definition buf_get :: "u8 list \<Rightarrow> int \<Rightarrow> u8 option" where
  "buf_get b k = (if 0 \<le> k \<and> k < int (length b) then Some (b ! nat k) else None)"

definition buf_put :: "u8 list \<Rightarrow> int \<Rightarrow> u8 \<Rightarrow> u8 list option" where
  "buf_put b k x = (if 0 \<le> k \<and> k < int (length b) then Some (b[nat k := x]) else None)"

text \<open>Copying a string to the start of a buffer, without its end (the copying loops) and with it (\<open>strcpy\<close>).\<close>

definition buf_copy :: "u8 list \<Rightarrow> u8 list \<Rightarrow> u8 list option" where
  "buf_copy w b = (if length w \<le> length b then Some (w @ drop (length w) b) else None)"

definition bytes_of :: "string \<Rightarrow> u8 list" where
  "bytes_of x = map of_char x"

definition cputchar :: "int \<Rightarrow> line_state \<Rightarrow> line_state" where
  "cputchar c s = s\<lparr>echoed := echoed s @ [c]\<rparr>"

definition rub_out :: "int \<Rightarrow> line_state \<Rightarrow> line_state" where
  "rub_out n s = s\<lparr>echoed := echoed s @ replicate (nat n) 8\<rparr>"

section \<open>History\<close>

definition history :: "readline_env \<Rightarrow> int \<Rightarrow> line_state \<Rightarrow> u8 list option" where
  "history re k s =
     (if 0 \<le> k \<and> k < int (length (command_history s)) then Some (command_history s ! nat k)
      else if k = -1 then Some (re_before re)
      else if k = int (length (command_history s)) then Some (re_after re)
      else None)"

text \<open>The string replaces the line on the screen and in the buffer, and the cursor is behind it.\<close>

definition show_line :: "int \<Rightarrow> u8 list \<Rightarrow> line_state \<Rightarrow> line_state option" where
  "show_line n w s = do {
     b \<leftarrow> buf_copy w empty_buf;
     let s1 = rub_out n s;
     Some (s1\<lparr>echoed := echoed s1 @ map sint w, buf := b, cursor := int (length w), lastIndex := int (length w)\<rparr>) }"

definition clearandwritecommand :: "readline_env \<Rightarrow> line_state \<Rightarrow> line_state option" where
  "clearandwritecommand re s = do {
     h \<leftarrow> history re (commandidx s) s;
     show_line (cursor s) (cstr h) s }"

definition RoundAutoCompleteCommandWithTheSamePrefix :: "int \<Rightarrow> u8 list \<Rightarrow> line_state \<Rightarrow> line_state option" where
  "RoundAutoCompleteCommandWithTheSamePrefix old_buf_len prefix_element s = show_line old_buf_len prefix_element s"

text \<open>Once the history is full its lines move down and the line is kept whatever it is; before, it is kept when it is not the last one.\<close>

definition keep_line :: "readline_env \<Rightarrow> line_state \<Rightarrow> line_state option" where
  "keep_line re s =
     (if last_command_idx s = HISTORY_MAX
      then Some (s\<lparr>command_history := tl (command_history s) @ [buf s]\<rparr>)
      else do {
        h \<leftarrow> history re (last_command_idx s) s;
        if cstr h \<noteq> cstr (buf s)
        then do {
          let k = last_command_idx s + 1;
          assert_that (0 \<le> k \<and> k < int (length (command_history s)));
          Some (s\<lparr>command_history := (command_history s)[nat k := buf s], last_command_idx := k\<rparr>) }
        else Some s })"

section \<open>Completion\<close>

definition is_prefix :: "u8 list \<Rightarrow> u8 list \<Rightarrow> bool" where
  "is_prefix p w \<longleftrightarrow> take (length p) w = p"

definition clear_prefix_list :: "line_state \<Rightarrow> line_state" where
  "clear_prefix_list s = s\<lparr>prefixes := []\<rparr>"

text \<open>The completions of the word \<open>w\<close> among \<open>names\<close>, each behind the start \<open>p\<close> of the line; there is room for 100 of 1023 bytes.\<close>

definition completions :: "u8 list \<Rightarrow> u8 list \<Rightarrow> u8 list list \<Rightarrow> u8 list list option" where
  "completions p w names = do {
     let l = map (\<lambda>n. p @ n) (filter (is_prefix w) names);
     assert_that (length l \<le> 100 \<and> (\<forall>x \<in> set l. length x < 1024));
     Some l }"

definition command_words :: "u8 list list" where
  "command_words = map (\<lambda>i. bytes_of (fst i)) command_infos"

text \<open>The names that the words of the line select, from the words and the flags.\<close>

definition candidate_names :: "readline_env \<Rightarrow> nat \<Rightarrow> line_state \<Rightarrow> u8 list list" where
  "candidate_names re n s =
     (if n = 1 then command_words else if is_run_cmd s then re_programs re else if is_tst_cmd s then re_tests re else [])"

text \<open>
  With more than one word the last one is cut off the line before it is looked up, and stays cut off when nothing completes it; the cursor and
  the end of the line are not moved then.
\<close>

definition complete_words :: "readline_env \<Rightarrow> u8 list \<Rightarrow> u8 list list \<Rightarrow> line_state \<Rightarrow> line_state option" where
  "complete_words re rest words s = do {
     let line = cstr (buf s);
     let n = length words;
     let start = (if n > 1 then take (length line - length (last words)) line else []);
     s1 \<leftarrow> (if n > 1 then do { b \<leftarrow> buf_copy (start @ [0]) (buf s); Some (s\<lparr>buf := b\<rparr>) } else Some s);
     l \<leftarrow> completions start (if n > 1 then last words else rest) (candidate_names re n s1);
     let s2 = s1\<lparr>prefixes := l, prefix_list_size := int (length l)\<rparr>;
     case l of
       [] \<Rightarrow> Some s2
     | w # _ \<Rightarrow> do {
         b \<leftarrow> buf_copy w (buf s2);
         let s3 = rub_out (int (length line)) (s2\<lparr>buf := b, prefix_list_idx := 0\<rparr>);
         let k = int (length (cstr b));
         Some (s3\<lparr>echoed := echoed s3 @ map sint (cstr b), cursor := k, lastIndex := k\<rparr>) } }"

definition SPACE :: u8 where "SPACE = 32"

text \<open>The result says whether the tabulator is remembered as the last key.\<close>

definition first_tab :: "readline_env \<Rightarrow> line_state \<Rightarrow> (bool \<times> line_state) option" where
  "first_tab re s = do {
     let s1 = clear_prefix_list s;
     let line = cstr (buf s1);
     if line = [] \<or> last_c s1 = 255 then Some (False, s1)
     else do {
       let s2 = s1\<lparr>prefix_list_size := 0\<rparr>;
       if last line = SPACE then Some (False, s2)
       else do {
         let (rest, words) = re_split re line;
         let n = length words;
         let tst = (n > 1 \<and> hd words = bytes_of ''tst'');
         if n > 1 \<and> hd words \<notin> {bytes_of ''run'', bytes_of ''load'', bytes_of ''tst''} then Some (False, s2)
         else do {
           s3 \<leftarrow> complete_words re rest words
             (s2\<lparr>is_tst_cmd := (is_tst_cmd s2 \<or> tst), is_run_cmd := (is_run_cmd s2 \<or> n > 1 \<and> \<not> tst)\<rparr>);
           Some (True, s3) } } } }"

definition next_tab :: "line_state \<Rightarrow> line_state option" where
  "next_tab s =
     (if prefix_list_size s > 0
      then do {
        let prev = prefix_list_idx s;
        let k = (prev + 1) mod prefix_list_size s;
        assert_that (nat prev < length (prefixes s) \<and> nat k < length (prefixes s));
        RoundAutoCompleteCommandWithTheSamePrefix (int (length (prefixes s ! nat prev))) (prefixes s ! nat k)
          (s\<lparr>prefix_list_idx := k\<rparr>) }
      else Some s)"

section \<open>Editing\<close>

text \<open>The loop of the delete key moves the bytes from the cursor to the end of the line down by one.\<close>

fun shift_down :: "nat \<Rightarrow> int \<Rightarrow> u8 list \<Rightarrow> u8 list option" where
  "shift_down 0 k b = Some b"
| "shift_down (Suc n) k b = do { x \<leftarrow> buf_get b (k + 1); b1 \<leftarrow> buf_put b k x; shift_down n (k + 1) b1 }"

definition delete_key :: "line_state \<Rightarrow> line_state option" where
  "delete_key s = do {
     b \<leftarrow> shift_down (nat (lastIndex s - cursor s + 1)) (cursor s) (buf s);
     Some (s\<lparr>buf := b, lastIndex := lastIndex s - 1\<rparr>) }"

definition insert_key :: "int \<Rightarrow> line_state \<Rightarrow> line_state option" where
  "insert_key c s = do {
     b \<leftarrow> buf_put (buf s) (cursor s) (word_of_int c);
     Some ((cputchar c s)\<lparr>buf := b, cursor := cursor s + 1, lastIndex := lastIndex s + 1\<rparr>) }"

definition backspace_key :: "int \<Rightarrow> line_state \<Rightarrow> line_state option" where
  "backspace_key c s = do {
     x \<leftarrow> buf_get (buf s) (cursor s);
     b \<leftarrow> buf_put (buf s) (cursor s - 1) x;
     Some ((cputchar c s)\<lparr>buf := b, cursor := cursor s - 1\<rparr>) }"

definition enter_key :: "readline_env \<Rightarrow> int \<Rightarrow> line_state \<Rightarrow> line_state option" where
  "enter_key re c s = do {
     b \<leftarrow> buf_put (buf s) (lastIndex s) 0;
     keep_line re ((cputchar c s)\<lparr>buf := b\<rparr>) }"

definition up_key :: "readline_env \<Rightarrow> line_state \<Rightarrow> line_state option" where
  "up_key re s = clearandwritecommand re (if commandidx s \<noteq> 0 then s\<lparr>commandidx := commandidx s - 1\<rparr> else s)"

definition down_key :: "readline_env \<Rightarrow> line_state \<Rightarrow> line_state option" where
  "down_key re s =
     (let s1 = (if commandidx s < last_command_idx s then s\<lparr>commandidx := commandidx s + 1\<rparr> else s)
      in if last_command_idx s1 \<ge> 0 then clearandwritecommand re s1 else Some s1)"

text \<open>One round of the loop: the key is handled, and the result says whether the line is complete.\<close>

definition remembering :: "int \<Rightarrow> line_state option \<Rightarrow> (bool \<times> line_state) option" where
  "remembering c r = map_option (\<lambda>s. (False, s\<lparr>last_c := c\<rparr>)) r"

definition readline_key :: "readline_env \<Rightarrow> int \<Rightarrow> line_state \<Rightarrow> (bool \<times> line_state) option" where
  "readline_key re c s0 =
     (let s = (if cursor s0 > lastIndex s0 then s0\<lparr>lastIndex := cursor s0\<rparr> else s0)
      in if c < 0 then Some (True, s)
         else if c = 226 then remembering c (up_key re s)
         else if c = 227 then remembering c (down_key re s)
         else if c = 9 then
           (if last_c s \<noteq> 9
            then do { (known, s1) \<leftarrow> first_tab re s; Some (False, if known then s1\<lparr>last_c := c\<rparr> else s1) }
            else remembering c (next_tab s))
         else if c = 228 then remembering c (Some (if cursor s > 0 then (cputchar c s)\<lparr>cursor := cursor s - 1\<rparr> else s))
         else if c = 229 then remembering c (Some (if cursor s < lastIndex s then (cputchar c s)\<lparr>cursor := cursor s + 1\<rparr> else s))
         else if c = 0xE9 \<and> cursor s > 0 then remembering c (delete_key s)
         else if c \<ge> 32 \<and> cursor s < int BUFLEN - 1 then remembering c (insert_key c s)
         else if c = 8 \<and> cursor s > 0 then remembering c (backspace_key c s)
         else if c = 10 \<or> c = 13 then map_option (Pair True) (enter_key re c s)
         else remembering c (Some s))"

fun readline_loop :: "readline_env \<Rightarrow> int list \<Rightarrow> line_state \<Rightarrow> (bool \<times> line_state) option" where
  "readline_loop re [] s = Some (False, s)"
| "readline_loop re (c # keys) s = do {
     (fin, s1) \<leftarrow> readline_key re c s;
     if fin then Some (True, s1) else readline_loop re keys s1 }"

text \<open>
  \<open>run_command_prompt\<close> clears the buffer before each line.  The flag of the result is whether the line is complete after the keys that came.
\<close>

definition readline_start :: "int \<Rightarrow> int \<Rightarrow> u8 list list \<Rightarrow> u8 list list \<Rightarrow> int \<Rightarrow> line_state" where
  "readline_start c0 size0 prefs hist k =
     \<lparr>buf = empty_buf, cursor = 0, lastIndex = 0, commandidx = k + 1, prefixes = prefs, prefix_list_idx = 0, prefix_list_size = size0,
      last_c = c0, is_run_cmd = False, is_tst_cmd = False, command_history = hist, last_command_idx = k, echoed = []\<rparr>"

definition command_prompt_readline ::
  "readline_env \<Rightarrow> int \<Rightarrow> int \<Rightarrow> u8 list list \<Rightarrow> u8 list list \<Rightarrow> int \<Rightarrow> int list \<Rightarrow> (bool \<times> line_state) option" where
  "command_prompt_readline re c0 size0 prefs hist k keys = readline_loop re keys (readline_start c0 size0 prefs hist k)"

end
