(* ===== verification/FOS_ReadlineThms.thy ===== *)
theory FOS_ReadlineThms
  imports FOS_Readline
begin

text \<open>
  The line editor: a line that is only typed is returned and kept in the history; edited lines stay inside the buffer as long as the recalled line
  and the keys pressed are together shorter than it, and two ways to leave it: a key and the backspace pressed alternately for longer than that, and
  a character inserted into a recalled line that fills the buffer.
\<close>

section \<open>Typing\<close>

lemma length_empty_buf [simp]: "length empty_buf = 1024"
  by (simp add: empty_buf_def BUFLEN_def)

definition plain_key :: "int \<Rightarrow> bool" where
  "plain_key c \<longleftrightarrow> 32 \<le> c \<and> c < 226"

lemma readline_key_plain:
  assumes "plain_key c" "cursor s \<le> lastIndex s" "cursor s < 1023"
  shows "readline_key re c s = remembering c (insert_key c s)"
  using assms by (simp add: readline_key_def plain_key_def BUFLEN_def Let_def)

definition typed :: "u8 list \<Rightarrow> line_state \<Rightarrow> bool" where
  "typed w s \<longleftrightarrow> buf s = w @ replicate (1024 - length w) 0 \<and> cursor s = int (length w) \<and> lastIndex s = int (length w) \<and> length w \<le> 1023"

lemma typed_insert:
  assumes "typed w s" "length w < 1023"
  obtains s1 where "insert_key c s = Some s1" "typed (w @ [word_of_int c]) s1" "echoed s1 = echoed s @ [c]"
    "command_history s1 = command_history s" "last_command_idx s1 = last_command_idx s"
proof -
  have r: "replicate (1024 - length w) (0 :: u8) = 0 # replicate (1023 - length w) 0"
    using assms(2) by (simp add: Suc_diff_le replicate_Suc [symmetric] del: replicate_Suc)
  have "buf_put (buf s) (cursor s) (word_of_int c) = Some ((w @ [word_of_int c]) @ replicate (1023 - length w) 0)"
    using assms by (simp add: typed_def buf_put_def r list_update_append)
  then have "insert_key c s = Some ((cputchar c s)\<lparr>buf := (w @ [word_of_int c]) @ replicate (1023 - length w) 0,
      cursor := cursor s + 1, lastIndex := lastIndex s + 1\<rparr>)" by (simp add: insert_key_def)
  then show ?thesis by (rule that) (use assms in \<open>simp_all add: typed_def cputchar_def\<close>)
qed

lemma typing:
  assumes "typed w s" "length w + length ks \<le> 1023" "\<forall>c \<in> set ks. plain_key c"
  shows "\<exists>s1. readline_loop re (ks @ rest) s = readline_loop re rest s1 \<and> typed (w @ map word_of_int ks) s1 \<and> echoed s1 = echoed s @ ks \<and>
    command_history s1 = command_history s \<and> last_command_idx s1 = last_command_idx s"
  using assms
proof (induction ks arbitrary: w s)
  case (Cons c ks)
  obtain s1 where s1: "insert_key c s = Some s1" "typed (w @ [word_of_int c]) s1" "echoed s1 = echoed s @ [c]"
    "command_history s1 = command_history s" "last_command_idx s1 = last_command_idx s"
    by (rule typed_insert [OF Cons.prems(1)]) (use Cons.prems(2) in simp_all)
  have "readline_key re c s = Some (False, s1\<lparr>last_c := c\<rparr>)"
    using readline_key_plain [of c s re] Cons.prems s1(1) by (simp add: typed_def remembering_def)
  moreover have "typed (w @ [word_of_int c]) (s1\<lparr>last_c := c\<rparr>)" using s1(2) by (simp add: typed_def)
  from Cons.IH [OF this] Cons.prems obtain s2 where
    "readline_loop re (ks @ rest) (s1\<lparr>last_c := c\<rparr>) = readline_loop re rest s2" "typed ((w @ [word_of_int c]) @ map word_of_int ks) s2"
    "echoed s2 = echoed s1 @ ks" "command_history s2 = command_history s1" "last_command_idx s2 = last_command_idx s1"
    by auto
  ultimately show ?case using s1 by auto
qed auto

lemma plain_byte: "plain_key c \<Longrightarrow> (word_of_int c :: u8) \<noteq> 0"
  by (auto simp: plain_key_def word_of_int_eq_0_iff elim!: dvdE) presburger

lemma cstr_typed: "typed w s \<Longrightarrow> 0 \<notin> set w \<Longrightarrow> cstr (buf s) = w"
proof -
  assume t: "typed w s" and z: "0 \<notin> set w"
  have "takeWhile (\<lambda>c. c \<noteq> 0) (replicate (1024 - length w) (0 :: u8)) = []" by (cases "1024 - length w") simp_all
  moreover have "takeWhile (\<lambda>c. c \<noteq> 0) (w @ replicate (1024 - length w) 0) = w @ takeWhile (\<lambda>c. c \<noteq> 0) (replicate (1024 - length w) 0)"
    by (rule takeWhile_append2) (use z in auto)
  ultimately show ?thesis using t by (simp add: typed_def cstr_def)
qed

section \<open>Inside the buffer\<close>

text \<open>
  The cursor and the end of the line are at most \<open>n\<close>; when the history may be used (\<open>h\<close>) its lines have at most \<open>M\<close> characters, and so have the
  bytes behind it, which the down key can show.
\<close>

definition lines_below :: "readline_env \<Rightarrow> nat \<Rightarrow> u8 list list \<Rightarrow> bool" where
  "lines_below re M hist \<longleftrightarrow> (\<forall>w \<in> insert (re_after re) (set hist). length (cstr w) \<le> M)"

definition line_ok :: "readline_env \<Rightarrow> bool \<Rightarrow> nat \<Rightarrow> int \<Rightarrow> line_state \<Rightarrow> bool" where
  "line_ok re h M n s \<longleftrightarrow> int M \<le> n \<and> 0 \<le> commandidx s \<and> commandidx s \<le> 20 \<and> (h \<longrightarrow> lines_below re M (command_history s)) \<and> length (buf s) = 1024 \<and> length (command_history s) = 20 \<and> -1 \<le> last_command_idx s \<and> last_command_idx s \<le> 19 \<and>
     0 \<le> cursor s \<and> 0 \<le> lastIndex s \<and> cursor s \<le> n \<and> lastIndex s \<le> n"

lemma shift_down_runs:
  "0 \<le> k \<Longrightarrow> k + int n < int (length b) \<Longrightarrow> \<exists>b1. shift_down n k b = Some b1 \<and> length b1 = length b"
proof (induction n k b rule: shift_down.induct)
  case (2 n k b)
  have "buf_get b (k + 1) = Some (b ! nat (k + 1))" "buf_put b k (b ! nat (k + 1)) = Some (b[nat k := b ! nat (k + 1)])"
    using 2(2,3) by (simp_all add: buf_get_def buf_put_def)
  then show ?case using 2(1) [of "b ! nat (k + 1)" "b[nat k := b ! nat (k + 1)]"] 2(2,3) by simp
qed simp

lemma keep_line_runs: "line_ok re h M n s \<Longrightarrow> \<exists>s1. keep_line re s = Some s1"
  by (auto simp: keep_line_def line_ok_def HISTORY_MAX_def history_def Let_def)

text \<open>A line of the history replaces the line that is edited.\<close>

lemma recall_runs:
  assumes "line_ok re h M n s" "h" "n \<le> 1022"
  shows "\<exists>s1. clearandwritecommand re s = Some s1 \<and> line_ok re h M (n + 1) s1"
proof -
  have k: "0 \<le> commandidx s" "commandidx s \<le> 20" "length (command_history s) = 20" "lines_below re M (command_history s)" "int M \<le> n"
    using assms by (simp_all add: line_ok_def)
  obtain w where w: "history re (commandidx s) s = Some w" "w \<in> insert (re_after re) (set (command_history s))"
    using k(1-3) by (cases "commandidx s = 20") (auto simp: history_def)
  then have "length (cstr w) \<le> M" using k(4) by (auto simp: lines_below_def)
  then have "length (cstr w) \<le> 1024" "int (length (cstr w)) \<le> n" using k(5) assms(3) by linarith+
  then show ?thesis
    using assms w(1) by (auto simp: clearandwritecommand_def show_line_def buf_copy_def rub_out_def line_ok_def)
qed

lemma readline_key_ok:
  assumes "line_ok re h M n s" "n \<le> 1022" "c \<noteq> 9" "c \<in> {226, 227} \<longrightarrow> h"
  shows "\<exists>fin s1. readline_key re c s = Some (fin, s1) \<and> (\<not> fin \<longrightarrow> line_ok re h M (n + 1) s1)"
    (is "?Q (readline_key re c s)")
proof -
  define t where "t = (if cursor s > lastIndex s then s\<lparr>lastIndex := cursor s\<rparr> else s)"
  have t: "line_ok re h M n t" "cursor t \<le> lastIndex t" using assms(1) by (auto simp: t_def line_ok_def)
  note T = t [unfolded line_ok_def]
  have del: "\<exists>s1. delete_key t = Some s1 \<and> line_ok re h M (n + 1) s1" if "cursor t > 0"
    using shift_down_runs [of "cursor t" "nat (lastIndex t - cursor t + 1)" "buf t"] T assms(2) that
    by (auto simp: delete_key_def line_ok_def)
  have ins: "\<exists>s1. insert_key c t = Some s1 \<and> line_ok re h M (n + 1) s1" if "cursor t < 1023"
    using T that by (auto simp: insert_key_def buf_put_def cputchar_def line_ok_def)
  have bks: "\<exists>s1. backspace_key c t = Some s1 \<and> line_ok re h M (n + 1) s1" if "cursor t > 0"
    using T that assms(2) by (auto simp: backspace_key_def buf_put_def buf_get_def cputchar_def line_ok_def)
  have ent: "\<exists>s1. enter_key re c t = Some s1"
    using T assms(2) keep_line_runs [of re h M n "(cputchar c t)\<lparr>buf := (buf t)[nat (lastIndex t) := 0]\<rparr>"]
    by (auto simp: enter_key_def buf_put_def cputchar_def line_ok_def)
  have same: "line_ok re h M (n + 1) (t\<lparr>last_c := c\<rparr>)" using T by (simp add: line_ok_def)
  have mem: "\<exists>fin s1. remembering c r = Some (fin, s1) \<and> (\<not> fin \<longrightarrow> line_ok re h M (n + 1) s1)" if "\<exists>s1. r = Some s1 \<and> line_ok re h M (n + 1) s1" for r
    using that by (auto simp: remembering_def line_ok_def)
  have lft: "\<exists>s1. Some (if cursor t > 0 then (cputchar c t)\<lparr>cursor := cursor t - 1\<rparr> else t) = Some s1 \<and> line_ok re h M (n + 1) s1"
    using T by (auto simp: line_ok_def cputchar_def)
  have rgt: "\<exists>s1. Some (if cursor t < lastIndex t then (cputchar c t)\<lparr>cursor := cursor t + 1\<rparr> else t) = Some s1 \<and> line_ok re h M (n + 1) s1"
    using T by (auto simp: line_ok_def cputchar_def)
  have keep: "\<exists>s1. Some t = Some s1 \<and> line_ok re h M (n + 1) s1" using T by (simp add: line_ok_def)
  have up: "\<exists>s1. up_key re t = Some s1 \<and> line_ok re h M (n + 1) s1" if "c = 226"
    unfolding up_key_def by (rule recall_runs) (use t assms(2,4) that in \<open>auto simp: line_ok_def\<close>)
  have down: "\<exists>s1. down_key re t = Some s1 \<and> line_ok re h M (n + 1) s1" if "c = 227"
  proof -
    let ?t = "if commandidx t < last_command_idx t then t\<lparr>commandidx := commandidx t + 1\<rparr> else t"
    have "line_ok re h M n ?t" using t by (auto simp: line_ok_def)
    moreover have "line_ok re h M (n + 1) ?t" using t by (auto simp: line_ok_def)
    ultimately show ?thesis
      using recall_runs [of re h M n ?t] assms(2,4) that unfolding down_key_def Let_def by auto
  qed
  have key: "readline_key re c s =
     (if c < 0 then Some (True, t)
      else if c = 226 then remembering c (up_key re t)
      else if c = 227 then remembering c (down_key re t)
      else if c = 228 then remembering c (Some (if cursor t > 0 then (cputchar c t)\<lparr>cursor := cursor t - 1\<rparr> else t))
      else if c = 229 then remembering c (Some (if cursor t < lastIndex t then (cputchar c t)\<lparr>cursor := cursor t + 1\<rparr> else t))
      else if c = 0xE9 \<and> cursor t > 0 then remembering c (delete_key t)
      else if c \<ge> 32 \<and> cursor t < 1023 then remembering c (insert_key c t)
      else if c = 8 \<and> cursor t > 0 then remembering c (backspace_key c t)
      else if c = 10 \<or> c = 13 then map_option (Pair True) (enter_key re c t)
      else remembering c (Some t))"
    using assms(3) by (simp add: readline_key_def Let_def t_def [symmetric] BUFLEN_def)
  have step: "(b \<Longrightarrow> ?Q x) \<Longrightarrow> (\<not> b \<Longrightarrow> ?Q y) \<Longrightarrow> ?Q (if b then x else y)" for b x y by simp
  have fin: "?Q (Some (True, t))" "?Q (map_option (Pair True) (enter_key re c t))" using ent by auto
  show ?thesis
    unfolding key
    by (rule step [OF fin(1) step [OF mem [OF up] step [OF mem [OF down] step [OF mem [OF lft] step [OF mem [OF rgt] step [OF mem [OF del] step [OF mem [OF ins]
      step [OF mem [OF bks] step [OF fin(2) mem [OF keep]]]]]]]]]]) simp_all
qed

lemma readline_loop_ok:
  "line_ok re h M n s \<Longrightarrow> n + int (length keys) \<le> 1023 \<Longrightarrow> \<forall>c \<in> set keys. c \<noteq> 9 \<and> (c \<in> {226, 227} \<longrightarrow> h) \<Longrightarrow> readline_loop re keys s \<noteq> None"
proof (induction keys arbitrary: n s)
  case (Cons c keys)
  from readline_key_ok [of re h M n s c] Cons.prems obtain fin s1 where
    s1: "readline_key re c s = Some (fin, s1)" "\<not> fin \<longrightarrow> line_ok re h M (n + 1) s1" by auto
  show ?case using Cons.IH [of "n + 1" s1] s1 Cons.prems by (cases fin) auto
qed simp

section \<open>Outside the buffer\<close>

text \<open>A character and the backspace leave the line empty but its end one further on.\<close>

definition empty_with_end :: "int \<Rightarrow> line_state \<Rightarrow> bool" where
  "empty_with_end k s \<longleftrightarrow> buf s = empty_buf \<and> cursor s = 0 \<and> lastIndex s = k"

lemma type_and_erase:
  assumes "empty_with_end k s" "0 \<le> k"
  shows "\<exists>s1. readline_loop re ([97, 8] @ rest) s = readline_loop re rest s1 \<and> empty_with_end (k + 1) s1"
proof -
  let ?s1 = "(cputchar 97 s)\<lparr>buf := empty_buf[0 := 97], cursor := 1, lastIndex := k + 1, last_c := 97\<rparr>"
  let ?s2 = "(cputchar 8 ?s1)\<lparr>buf := empty_buf, cursor := 0, last_c := 8\<rparr>"
  have b: "empty_buf ! Suc 0 = 0" "empty_buf[0 := 0] = empty_buf"
    by (simp_all add: empty_buf_def BUFLEN_def list_eq_iff_nth_eq nth_list_update)
  have "readline_key re 97 s = Some (False, ?s1)"
    using assms by (simp add: readline_key_def empty_with_end_def BUFLEN_def insert_key_def buf_put_def remembering_def cputchar_def)
  moreover have "readline_key re 8 ?s1 = Some (False, ?s2)"
    using assms b by (simp add: readline_key_def BUFLEN_def backspace_key_def buf_put_def buf_get_def remembering_def cputchar_def)
  ultimately have "readline_loop re ([97, 8] @ rest) s = readline_loop re rest ?s2" by simp
  then show ?thesis by (intro exI [of _ ?s2] conjI) (simp_all add: empty_with_end_def cputchar_def)
qed

lemma erase_many:
  assumes "empty_with_end k s" "0 \<le> k"
  shows "\<exists>s1. readline_loop re (concat (replicate n [97, 8]) @ rest) s = readline_loop re rest s1 \<and> empty_with_end (k + int n) s1"
  using assms
proof (induction n arbitrary: k s)
  case (Suc n)
  from type_and_erase [OF Suc.prems, of re "concat (replicate n [97, 8]) @ rest"] obtain s1 where
    s1: "readline_loop re ([97, 8] @ concat (replicate n [97, 8]) @ rest) s = readline_loop re (concat (replicate n [97, 8]) @ rest) s1"
    "empty_with_end (k + 1) s1" by blast
  from Suc.IH [OF s1(2)] Suc.prems(2) s1(1) show ?case by (auto simp: algebra_simps)
qed auto

text \<open>A recalled line that fills the buffer: the insertion before its last character moves its end behind the buffer.\<close>

lemma recall_insert:
  assumes "length hist = 20" "0 \<le> k" "k \<le> 19" "length (cstr (hist ! nat k)) = 1023" "32 \<le> c" "c < 226"
  shows "command_prompt_readline re c0 z prefs hist k [226, 228, c, 10] = None"
proof -
  let ?s = "readline_start c0 z prefs hist k" and ?w = "cstr (hist ! nat k)"
  have h: "history re k (?s\<lparr>commandidx := k\<rparr>) = Some (hist ! nat k)" using assms(1-3) by (simp add: history_def readline_start_def)
  obtain s1 where s1: "up_key re ?s = Some s1" "cursor s1 = 1023" "lastIndex s1 = 1023" "length (buf s1) = 1024"
    using h assms(2,4) by (simp add: up_key_def clearandwritecommand_def show_line_def buf_copy_def rub_out_def readline_start_def)
  let ?s2 = "(cputchar 228 (s1\<lparr>last_c := 226\<rparr>))\<lparr>cursor := 1022, last_c := 228\<rparr>"
  let ?s3 = "(cputchar c ?s2)\<lparr>buf := (buf s1)[1022 := word_of_int c], cursor := 1023, lastIndex := 1024, last_c := c\<rparr>"
  have "cursor ?s = 0" "lastIndex ?s = 0" by (simp_all add: readline_start_def)
  then have "readline_key re 226 ?s = Some (False, s1\<lparr>last_c := 226\<rparr>)" using s1(1) by (simp add: readline_key_def remembering_def)
  moreover have "readline_key re 228 (s1\<lparr>last_c := 226\<rparr>) = Some (False, ?s2)"
    using s1 by (simp add: readline_key_def remembering_def cputchar_def)
  moreover have "readline_key re c ?s2 = Some (False, ?s3)"
    using s1 assms(5,6) by (simp add: readline_key_def remembering_def insert_key_def buf_put_def cputchar_def BUFLEN_def)
  moreover have "readline_key re 10 ?s3 = None" using s1 by (simp add: readline_key_def enter_key_def buf_put_def cputchar_def)
  ultimately show ?thesis by (simp add: command_prompt_readline_def)
qed

text \<open>
  C28: the line buffer of 1024 bytes.  The editor writes inside it whatever keys but the tabulator are pressed, as long as the number of keys, and of
  the characters \<open>M\<close> of the longest line that the cursor keys up and down can recall when they are used, is at most 1023.  The limits are needed: after a
  character and the backspace 1024 times, which leave an empty line, the enter key writes behind the buffer, and so it does after a character is
  inserted before the last one of a recalled line of 1023 characters.
\<close>

theorem readline_buffer_bounds:
  assumes "length hist = 20" "-1 \<le> k" "k \<le> 19"
  shows "(9 \<notin> set keys \<and> M + length keys \<le> 1023 \<and> (set keys \<inter> {226, 227} \<noteq> {} \<longrightarrow> lines_below re M hist) \<longrightarrow>
      command_prompt_readline re c0 z prefs hist k keys \<noteq> None) \<and>
    (1024 \<le> n \<longrightarrow> command_prompt_readline re c0 z prefs hist k (concat (replicate n [97, 8]) @ [10]) = None) \<and>
    (0 \<le> k \<and> length (cstr (hist ! nat k)) = 1023 \<and> 32 \<le> c \<and> c < 226 \<longrightarrow>
      command_prompt_readline re c0 z prefs hist k [226, 228, c, 10] = None)"
proof (intro conjI)
  let ?s = "readline_start c0 z prefs hist k" and ?h = "set keys \<inter> {226, 227} \<noteq> {}"
  show "9 \<notin> set keys \<and> M + length keys \<le> 1023 \<and> (?h \<longrightarrow> lines_below re M hist) \<longrightarrow> command_prompt_readline re c0 z prefs hist k keys \<noteq> None"
  proof
    assume keys: "9 \<notin> set keys \<and> M + length keys \<le> 1023 \<and> (?h \<longrightarrow> lines_below re M hist)"
    then have l: "line_ok re ?h M (int M) ?s" using assms by (simp add: line_ok_def readline_start_def)
    have "\<forall>c \<in> set keys. c \<noteq> 9 \<and> (c \<in> {226, 227} \<longrightarrow> ?h)" using keys by auto
    with readline_loop_ok [OF l] keys show "command_prompt_readline re c0 z prefs hist k keys \<noteq> None"
      unfolding command_prompt_readline_def by auto
  qed
  show "1024 \<le> n \<longrightarrow> command_prompt_readline re c0 z prefs hist k (concat (replicate n [97, 8]) @ [10]) = None"
  proof
    assume "1024 \<le> n"
    have "empty_with_end 0 ?s" by (simp add: empty_with_end_def readline_start_def)
    from erase_many [OF this order_refl, of re n "[10]"] obtain s1 where
      s1: "readline_loop re (concat (replicate n [97, 8]) @ [10]) ?s = readline_loop re [10] s1" "empty_with_end (0 + int n) s1" by blast
    moreover have "readline_key re 10 s1 = None"
      using s1(2) \<open>1024 \<le> n\<close> by (simp add: readline_key_def empty_with_end_def enter_key_def buf_put_def)
    ultimately show "command_prompt_readline re c0 z prefs hist k (concat (replicate n [97, 8]) @ [10]) = None"
      by (simp add: command_prompt_readline_def)
  qed
  show "0 \<le> k \<and> length (cstr (hist ! nat k)) = 1023 \<and> 32 \<le> c \<and> c < 226 \<longrightarrow> command_prompt_readline re c0 z prefs hist k [226, 228, c, 10] = None"
    using recall_insert assms by blast
qed

definition readline_env_ex :: readline_env where
  "readline_env_ex = \<lparr>re_split = (\<lambda>w. (w, [w])), re_programs = [], re_tests = [], re_before = [], re_after = []\<rparr>"

theorem readline_buffer_bounds_witness:
  "command_prompt_readline readline_env_ex 0 0 [] (replicate 20 empty_buf) (-1) [104, 105, 226, 228, 0xE9, 10] \<noteq> None \<and>
   command_prompt_readline readline_env_ex 0 0 [] (replicate 20 empty_buf) (-1) (concat (replicate 1024 [97, 8]) @ [10]) = None \<and>
   command_prompt_readline readline_env_ex 0 0 [] (replicate 20 (replicate 1023 97 @ [0])) 3 [226, 228, 98, 10] = None"
proof (intro conjI)
  have e: "cstr empty_buf = []" "cstr [] = []" by (simp_all add: cstr_def empty_buf_def BUFLEN_def)
  have f: "length (cstr (replicate 20 (replicate 1023 97 @ [0]) ! nat 3)) = 1023"
    using takeWhile_append2 [of "replicate 1023 97" "\<lambda>c. c \<noteq> 0" "[0 :: u8]"] by (simp add: cstr_def)
  have "lines_below readline_env_ex 0 (replicate 20 empty_buf)" by (simp add: lines_below_def e readline_env_ex_def)
  then show "command_prompt_readline readline_env_ex 0 0 [] (replicate 20 empty_buf) (-1) [104, 105, 226, 228, 0xE9, 10] \<noteq> None"
    using readline_buffer_bounds [of "replicate 20 empty_buf" "-1" "[104, 105, 226, 228, 0xE9, 10]" 0 readline_env_ex 0 0 "[]"] by simp
  show "command_prompt_readline readline_env_ex 0 0 [] (replicate 20 empty_buf) (-1) (concat (replicate 1024 [97, 8]) @ [10]) = None"
    using readline_buffer_bounds [of "replicate 20 empty_buf" "-1", where n = 1024 and re = readline_env_ex and ?c0.0 = 0 and z = 0 and prefs = "[]"] by simp
  show "command_prompt_readline readline_env_ex 0 0 [] (replicate 20 (replicate 1023 97 @ [0])) 3 [226, 228, 98, 10] = None"
    using readline_buffer_bounds [of "replicate 20 (replicate 1023 97 @ [0])" 3, where c = 98 and re = readline_env_ex and ?c0.0 = 0 and z = 0 and prefs = "[]"] f by simp
qed

section \<open>A line of text\<close>

text \<open>
  C29: A line of up to 1023 characters that is typed and ended with the enter key is echoed, is the string in the buffer, and becomes the newest line
  of the history: of the full history the oldest line goes, and a line equal to the last one is not kept twice before the history is full.
\<close>

theorem readline_line:
  assumes "\<forall>c \<in> set ks. 32 \<le> c \<and> c < 226" "length ks \<le> 1023" "length hist = 20" "-1 \<le> k" "k \<le> 19"
  shows "\<exists>s. command_prompt_readline re c0 z prefs hist k (ks @ [10]) = Some (True, s) \<and> echoed s = ks @ [10] \<and>
    cstr (buf s) = map word_of_int ks \<and>
    (let newest = (if k = -1 then re_before re else hist ! nat k) in
     (command_history s, last_command_idx s) =
       (if k = 19 then (tl hist @ [buf s], 19)
        else if cstr newest = map word_of_int ks then (hist, k)
        else (hist[nat (k + 1) := buf s], k + 1)))"
proof -
  let ?w = "map word_of_int ks :: u8 list" and ?s = "readline_start c0 z prefs hist k"
  have "typed [] ?s" by (simp add: typed_def readline_start_def empty_buf_def BUFLEN_def)
  from typing [OF this, of ks re "[10]"] assms(1,2) obtain s1 where
    s1: "readline_loop re (ks @ [10]) ?s = readline_loop re [10] s1" "typed ?w s1" "echoed s1 = ks"
    "command_history s1 = hist" "last_command_idx s1 = k"
    by (auto simp: plain_key_def readline_start_def)
  have put: "buf_put (buf s1) (lastIndex s1) 0 = Some (buf s1)"
    using s1(2) assms(2) by (simp add: typed_def buf_put_def list_update_append list_update_id nth_append
      list_eq_iff_nth_eq nth_list_update)
  have nz: "0 \<notin> set ?w" using assms(1) plain_byte by (auto simp: plain_key_def)
  define t where "t = (cputchar 10 s1)\<lparr>buf := buf s1\<rparr>"
  have t: "buf t = buf s1" "echoed t = ks @ [10]" "command_history t = hist" "last_command_idx t = k" "cstr (buf s1) = ?w"
    using s1 cstr_typed [OF s1(2) nz] by (simp_all add: t_def cputchar_def)
  have "history re k t = Some (if k = -1 then re_before re else hist ! nat k)" if "k \<noteq> 19"
    using that assms(3-5) t(3) by (auto simp: history_def)
  then have "\<exists>s. keep_line re t = Some s \<and> buf s = buf s1 \<and> echoed s = ks @ [10] \<and> (command_history s, last_command_idx s) =
       (if k = 19 then (tl hist @ [buf s], 19)
        else if cstr (if k = -1 then re_before re else hist ! nat k) = ?w then (hist, k)
        else (hist[nat (k + 1) := buf s], k + 1))"
    using t assms(3-5) by (auto simp: keep_line_def HISTORY_MAX_def Let_def)
  then obtain s where s: "keep_line re t = Some s" "buf s = buf s1" "echoed s = ks @ [10]" "(command_history s, last_command_idx s) =
       (if k = 19 then (tl hist @ [buf s], 19)
        else if cstr (if k = -1 then re_before re else hist ! nat k) = ?w then (hist, k)
        else (hist[nat (k + 1) := buf s], k + 1))" by blast
  have "readline_key re 10 s1 = Some (True, s)"
    using s1(2) put s(1) by (simp add: readline_key_def enter_key_def typed_def t_def)
  then have "command_prompt_readline re c0 z prefs hist k (ks @ [10]) = Some (True, s)"
    using s1(1) by (simp add: command_prompt_readline_def)
  then show ?thesis using s t(5) by (auto simp: Let_def)
qed

theorem readline_line_witness:
  "\<exists>s. command_prompt_readline readline_env_ex 0 0 [] (replicate 20 empty_buf) (-1) [104, 105, 10] = Some (True, s) \<and>
    cstr (buf s) = [104, 105] \<and> last_command_idx s = 0"
  using readline_line [of "[104, 105]" "replicate 20 empty_buf" "-1" readline_env_ex 0 0 "[]"]
  by (auto simp: readline_env_ex_def cstr_def)

end
