(* ===== verification/FOS_EnvThms.thy ===== *)
theory FOS_EnvThms
  imports FOS_Env FOS_ShareThms
begin

unbundle bit_operations_syntax

text \<open>
  Identifiers of processes, the enumeration of the segments of a program, and the part of a segment that has no
  bytes in the file.
\<close>

section \<open>Identifiers\<close>

lemma and_not_mask_u32:
  fixes x :: u32
  shows "x AND NOT (mask k) = push_bit k (drop_bit k x)" "unat (push_bit k (drop_bit k x)) = unat x - unat x mod 2 ^ k"
proof -
  show "x AND NOT (mask k) = push_bit k (drop_bit k x)"
    by (rule bit_word_eqI) (auto simp: bit_simps)
  have "push_bit k (drop_bit k x) = x - take_bit k x" by (metis bits_ident add_diff_cancel_right')
  moreover have u: "unat (take_bit k x) = unat x mod 2 ^ k" by (simp only: unsigned_take_bit_eq take_bit_nat_def)
  moreover have "take_bit k x \<le> x" unfolding word_le_nat_alt u by simp
  ultimately show "unat (push_bit k (drop_bit k x)) = unat x - unat x mod 2 ^ k" by (simp add: unat_sub)
qed

lemma or_low_bits:
  fixes x y :: u32
  assumes "unat y < 2 ^ k"
  shows "push_bit k x OR y = push_bit k x + y"
proof -
  have "take_bit k (unat y) = unat y" using assms by (simp add: take_bit_nat_eq_self_iff)
  then have "take_bit k y = y" by (metis unsigned_take_bit_eq word_unat_eq_iff)
  then have "\<not> bit (push_bit k x) n \<or> \<not> bit y n" for n
    by (metis bit_push_bit_iff bit_take_bit_iff not_le)
  then show ?thesis by (simp add: disjunctive_add)
qed

lemma sint_u32_neg:
  fixes w :: u32
  assumes "2 ^ 31 \<le> unat w"
  shows "sint w < 0"
proof -
  have "unat w < 4294967296" by (rule order.strict_trans2 [OF unsigned_less]) simp
  then have "unat w div 2 ^ 31 = 1" using assms by (intro div_nat_eqI) simp_all
  then have "bit (unat w) 31" by (simp add: bit_iff_odd)
  then have "bit (uint w) 31" by (simp add: bit_unsigned_iff)
  then show ?thesis by (simp add: sint_uint)
qed

lemma sint_u32_pos: "unat (w :: u32) < 2 ^ 31 \<Longrightarrow> sint w = int (unat w)"
  using sint_of_nat_u32 [of "unat w"] by simp

lemma env_table_size:
  assumes "0 < n" "n \<le> 2 ^ 20"
  obtains k where "nearest_pow2_ceil (of_nat n) - 1 = mask k" "unat (log2_ceil (of_nat n)) = k + 1" "n \<le> 2 ^ k" "k \<le> 20"
proof -
  have u: "unat (of_nat n :: u32) = n" using assms by (simp add: unat_of_nat_u32)
  then have "(of_nat n :: u32) \<noteq> 0" "unat (of_nat n :: u32) \<le> 2 ^ 31" using assms by (auto simp: word_unat_eq_iff)
  from pow2_ceil_exponent [OF this] u obtain k where
    k: "unat (nearest_pow2_ceil (of_nat n)) = 2 ^ k" "n \<le> 2 ^ k" "\<forall>j. n \<le> 2 ^ j \<longrightarrow> k \<le> j" "unat (log2_ceil (of_nat n)) = k + 1"
    by auto
  have k20: "k \<le> 20" using k(3) assms(2) by blast
  have "(2 :: nat) ^ k \<le> 2 ^ 20" using k20 by (rule power_increasing) simp
  then have "unat (2 ^ k :: u32) = 2 ^ k" using unat_of_nat_u32 [of "2 ^ k"] by simp
  then have "nearest_pow2_ceil (of_nat n) = 2 ^ k" using k(1) by (simp add: word_unat_eq_iff)
  then have "nearest_pow2_ceil (of_nat n) - 1 = mask k" by (simp add: mask_eq_exp_minus_1)
  then show thesis using that k k20 by blast
qed

text \<open>The generation that a slot gets, as a number.\<close>

lemma unat_generation:
  fixes a :: nat
  assumes "a < 2 ^ 31" "k \<le> 20"
  shows "unat (((of_nat a :: u32) + push_bit (k + 1) 1) AND NOT (mask k)) = a - a mod 2 ^ k + 2 ^ (k + 1)"
proof -
  have p: "(2 :: nat) ^ (k + 1) \<le> 2 ^ 21" using assms(2) by (intro power_increasing) simp_all
  have "unat (push_bit (k + 1) 1 :: u32) = 2 ^ (k + 1)"
    using unat_of_nat_u32 [of "2 ^ (k + 1)"] p by (simp add: push_bit_eq_mult)
  then have x: "unat ((of_nat a :: u32) + push_bit (k + 1) 1) = a + 2 ^ (k + 1)"
    using assms(1) p by (simp add: unat_word_ariths unat_of_nat_u32)
  have "(a + 2 ^ (k + 1)) mod 2 ^ k = a mod 2 ^ k" by simp
  then show ?thesis using and_not_mask_u32 [where k = k and x = "of_nat a + push_bit (k + 1) 1"] x by simp
qed

lemma next_env_id_facts:
  assumes "0 < n" "n \<le> 2 ^ 20" "index < n" "0 \<le> old" "old < 2 ^ 31"
  shows "0 < next_env_id old n index \<and> next_env_id old n index < 2 ^ 31 \<and> next_env_id old n index \<noteq> old \<and>
    (nenv s = n \<longrightarrow> ENVX (next_env_id old n index) s = index)"
proof -
  from env_table_size [OF assms(1,2)] obtain k where
    k: "nearest_pow2_ceil (of_nat n) - 1 = mask k" "unat (log2_ceil (of_nat n)) = k + 1" "n \<le> 2 ^ k" "k \<le> 20" by blast
  define a where "a = nat old"
  have a: "a < 2 ^ 31" "word_of_int old = (of_nat a :: u32)" "old = int a" using assms(4,5) by (auto simp: a_def)
  define g where "g = a - a mod 2 ^ k + 2 ^ (k + 1)"
  have p: "(2 :: nat) ^ (k + 1) \<le> 2 ^ 21" by (rule power_increasing) (use k(4) in simp_all)
  have ix: "index < 2 ^ k" using k(3) assms(3) by simp
  have dv: "2 ^ k dvd g" unfolding g_def by (intro dvd_add dvd_minus_mod le_imp_power_dvd) simp
  let ?gen = "((of_nat a :: u32) + push_bit (k + 1) 1) AND NOT (mask k)"
  define G where "G = (if sint ?gen \<le> 0 then push_bit (k + 1) 1 else ?gen)"
  have ug: "unat ?gen = g" unfolding g_def by (rule unat_generation [OF a(1) k(4)])
  have u1: "unat (push_bit (k + 1) 1 :: u32) = 2 ^ (k + 1)"
    using unat_of_nat_u32 [of "2 ^ (k + 1)"] p by (simp add: push_bit_eq_mult)
  have gpos: "0 < g" unfolding g_def by (rule trans_less_add2) simp
  have uG: "unat G = (if g < 2 ^ 31 then g else 2 ^ (k + 1))"
  proof (cases "g < 2 ^ 31")
    case True
    then have "sint ?gen = int g" using sint_u32_pos [of ?gen] ug by (simp only:)
    then have "\<not> sint ?gen \<le> 0" using gpos by linarith
    then show ?thesis using True ug unfolding G_def by (simp only: if_False if_True)
  next
    case False
    then have "sint ?gen \<le> 0" using sint_u32_neg [of ?gen] ug by (simp only: not_less less_imp_le)
    then show ?thesis using False u1 unfolding G_def by (simp only: if_False if_True)
  qed
  have id: "next_env_id old n index = sint (G OR of_nat index)"
    by (simp add: next_env_id_def Let_def k(1,2) a(2) G_def)
  have "(push_bit (k + 1) 1 :: u32) = push_bit k 2" by (simp add: push_bit_eq_mult)
  then obtain x where x: "G = push_bit k x"
    using and_not_mask_u32(1) [where k = k and x = "of_nat a + push_bit (k + 1) 1"] unfolding G_def by (metis (full_types))
  have ui: "unat (of_nat index :: u32) = index" using assms(2,3) by (simp add: unat_of_nat_u32)
  have dG: "2 ^ k dvd unat G" using dv by (simp add: uG)
  have small: "unat G + index < 2 ^ 31"
  proof (cases "g < 2 ^ 31")
    case True
    have "(2 :: nat) ^ k dvd 2 ^ 31" using k(4) by (intro le_imp_power_dvd) simp
    then have "2 ^ k dvd 2 ^ 31 - g" using dv by (rule dvd_diff_nat)
    then have "2 ^ k \<le> 2 ^ 31 - g" using True by (intro dvd_imp_le) simp_all
    then show ?thesis using True ix uG by simp
  next
    case False
    then show ?thesis using uG p ix by simp
  qed
  have ne: "unat G + index \<noteq> a"
  proof (cases "g < 2 ^ 31")
    case True
    have "a mod 2 ^ k < 2 ^ (k + 1)" by (rule less_trans [of _ "2 ^ k"]) simp_all
    then have "a < g" using mod_less_eq_dividend [of a "2 ^ k"] by (simp add: g_def)
    then show ?thesis using True uG by simp
  next
    case False
    have "g \<le> a + 2 ^ (k + 1)" by (simp add: g_def)
    then show ?thesis using False uG p ix by simp
  qed
  have w: "G OR of_nat index = G + of_nat index" unfolding x by (rule or_low_bits) (simp add: ui ix)
  have uw: "unat (G OR of_nat index) = unat G + index" using small ui by (simp add: w unat_word_ariths)
  then have num: "next_env_id old n index = int (unat G + index)" using sint_u32_pos [of "G OR of_nat index"] small id by simp
  have "(word_of_int (int (unat G + index)) :: u32) = G OR of_nat index" using w by simp
  then have "unat ((word_of_int (int (unat G + index)) :: u32) AND mask k) = (unat G + index) mod 2 ^ k"
    using uw by (simp only: take_bit_eq_mask [symmetric] unsigned_take_bit_eq take_bit_nat_def)
  also have "\<dots> = index" using dG ix by (simp add: mod_add_left_eq [symmetric])
  finally have "nenv s = n \<longrightarrow> ENVX (next_env_id old n index) s = index" by (simp add: ENVX_def num k(1))
  moreover have "0 < unat G" using gpos uG by (simp split: if_splits)
  then have "0 < int (unat G + index)" by linarith
  moreover have "int (unat G + index) < 2 ^ 31" using small by (metis of_nat_less_iff of_nat_numeral of_nat_power)
  moreover have "int (unat G + index) \<noteq> old" using ne unfolding a(3) by (simp only: of_nat_eq_iff not_False_eq_True)
  ultimately show ?thesis unfolding num by (intro conjI)
qed

lemma next_env_id_slots:
  assumes "0 < n" "n \<le> 2 ^ 20" "index < n" "0 \<le> old" "old < 2 ^ 31"
  shows "\<forall>j old'. j < n \<and> j \<noteq> index \<and> 0 \<le> old' \<and> old' < 2 ^ 31 \<longrightarrow> next_env_id old' n j \<noteq> next_env_id old n index"
proof (intro allI impI)
  fix j :: nat and old' :: int
  assume j: "j < n \<and> j \<noteq> index \<and> 0 \<le> old' \<and> old' < 2 ^ 31"
  let ?s = "sched_ex SCH_RR []\<lparr>nenv := n\<rparr>"
  have "ENVX (next_env_id old' n j) ?s = j" "ENVX (next_env_id old n index) ?s = index"
    using next_env_id_facts [of n j old' ?s] next_env_id_facts [OF assms, of ?s] j assms(1,2) by simp_all
  then show "next_env_id old' n j \<noteq> next_env_id old n index" using j by metis
qed

text \<open>
  C18: the identifiers of processes.  When slot \<open>index\<close> of a table of \<open>n\<close> processes is initialised and its field
  \<open>env_id\<close> still holds \<open>old\<close>, the new identifier is positive, its low bits are the slot, so that \<open>ENVX\<close> finds the slot
  again, and it differs from \<open>old\<close>, also when the generation wraps around; and it is no identifier that any other slot
  can get, whatever that slot holds.  This is not uniqueness over time: \<open>free_environment\<close> clears the field, so that a
  freed slot starts again from \<open>old = 0\<close> and gets the identifier of its first process again (\<open>env_id_reused\<close> below).
\<close>

theorem next_env_id_correct:
  assumes "0 < n" "n \<le> 2 ^ 20" "index < n" "0 \<le> old" "old < 2 ^ 31"
  shows "0 < next_env_id old n index \<and> next_env_id old n index < 2 ^ 31 \<and> next_env_id old n index \<noteq> old \<and>
      (nenv s = n \<longrightarrow> ENVX (next_env_id old n index) s = index) \<and>
    (\<forall>j old'. j < n \<and> j \<noteq> index \<and> 0 \<le> old' \<and> old' < 2 ^ 31 \<longrightarrow> next_env_id old' n j \<noteq> next_env_id old n index)"
  using next_env_id_facts [OF assms] next_env_id_slots [OF assms] by blast

theorem next_env_id_correct_witness:
  "0 < next_env_id 0 5 3 \<and> next_env_id 0 5 3 \<noteq> 0 \<and> ENVX (next_env_id 0 5 3) (sched_ex SCH_RR []\<lparr>nenv := 5\<rparr>) = 3 \<and>
    next_env_id 7 5 2 \<noteq> next_env_id 0 5 3"
  using next_env_id_correct [of 5 3 0 "sched_ex SCH_RR []\<lparr>nenv := 5\<rparr>"] by simp

text \<open>
  An identifier outlives its process.  The comment of \<open>envid2env\<close> says that an identifier is checked not to be
  stale, but freeing a process clears its slot, and with it the generation.  The next process in the slot gets the same
  identifier again, and \<open>envid2env\<close> gives it to whoever still holds the identifier of the old process.
\<close>

theorem env_id_reused:
  assumes "0 < nenv s" "nenv s \<le> 2 ^ 20" "e < nenv s" "e \<notin> set (env_free_list s)" "env_id (envs s e) = next_env_id 0 (nenv s) e"
  shows "\<exists>s1 s2. free_environment e s = Some s1 \<and>
    complete_environment_initialization e (envs_upd e (\<lambda>x. x\<lparr>env_page_directory := Some dir, env_cr3 := cr3\<rparr>) s1) = Some s2 \<and>
    env_status (envs s2 e) = ENV_NEW \<and> env_id (envs s2 e) = env_id (envs s e) \<and>
    envid2env (env_id (envs s e)) False s2 = Some (0, Some e)"
proof -
  let ?s0 = "set_status e ENV_FREE (envs_upd e (\<lambda>_. null_env) s)"
  let ?s1 = "?s0\<lparr>env_free_list := e # env_free_list s\<rparr>"
  have f: "free_environment e s = Some ?s1"
    using assms(4) by (simp add: free_environment_def insert_l_def set_status_def envs_upd_def)
  have n: "nenv ?s1 = nenv s" "envs ?s1 e = null_env\<lparr>env_status := ENV_FREE\<rparr>" by (simp_all add: set_status_def envs_upd_def)
  let ?t = "envs_upd e (\<lambda>x. x\<lparr>env_page_directory := Some dir, env_cr3 := cr3\<rparr>) ?s1"
  have t: "envs ?t e = null_env\<lparr>env_status := ENV_FREE, env_page_directory := Some dir, env_cr3 := cr3\<rparr>" "nenv ?t = nenv s"
    "env_free_list ?t = e # env_free_list s" using n by (simp_all add: envs_upd_def)
  have "env_id null_env = 0" by (simp add: null_env_def)
  then obtain s2 where s2: "complete_environment_initialization e ?t = Some s2" "env_id (envs s2 e) = next_env_id 0 (nenv s) e"
    "env_status (envs s2 e) = ENV_NEW" "nenv s2 = nenv s"
    using t by (auto simp: complete_environment_initialization_def env_dir_def envs_upd_def remove_l_def write_phys_def Let_def)
  have "0 < next_env_id 0 (nenv s) e" "ENVX (next_env_id 0 (nenv s) e) s2 = e"
    using next_env_id_facts [OF assms(1-3), of 0 s2] s2(4) by auto
  then have "envid2env (env_id (envs s e)) False s2 = Some (0, Some e)"
    using s2 assms(3,5) by (simp add: envid2env_def)
  then show ?thesis using f s2(1-3) unfolding assms(5) by (intro exI [of _ ?s1] exI [of _ s2] conjI)
qed

theorem env_id_reused_witness:
  "\<exists>s1 s2. free_environment 3 (share_ex\<lparr>nenv := 5, env_free_list := [], envs := (envs share_ex)(3 := null_env\<lparr>env_id := next_env_id 0 5 3\<rparr>)\<rparr>) = Some s1 \<and>
    complete_environment_initialization 3 (envs_upd 3 (\<lambda>x. x\<lparr>env_page_directory := Some 70, env_cr3 := 0\<rparr>) s1) = Some s2 \<and>
    env_id (envs s2 3) = next_env_id 0 5 3 \<and> envid2env (next_env_id 0 5 3) False s2 = Some (0, Some 3)"
  using env_id_reused [of "share_ex\<lparr>nenv := 5, env_free_list := [], envs := (envs share_ex)(3 := null_env\<lparr>env_id := next_env_id 0 5 3\<rparr>)\<rparr>" 3 0 70]
  by auto

section \<open>The segments of a program\<close>

text \<open>The segments to load, in the order of the headers.\<close>

definition segments :: "Elf \<Rightarrow> u32 \<Rightarrow> nat \<Rightarrow> ProgramSegment list" where
  "segments h p i = map (\<lambda>j. the (segment_at h p j)) (filter (\<lambda>j. p_type (e_ph h j) = ELF_PROG_LOAD) [i..<unat (e_phnum h)])"

lemma skip_headers_spec:
  assumes "i \<le> unat (e_phnum h)" "unat (e_phnum h) - i \<le> fuel"
  shows "i \<le> skip_headers fuel h i \<and> skip_headers fuel h i \<le> unat (e_phnum h) \<and>
    (skip_headers fuel h i < unat (e_phnum h) \<longrightarrow> p_type (e_ph h (skip_headers fuel h i)) = ELF_PROG_LOAD) \<and>
    (\<forall>j. i \<le> j \<and> j < skip_headers fuel h i \<longrightarrow> p_type (e_ph h j) \<noteq> ELF_PROG_LOAD)"
  using assms
proof (induction fuel arbitrary: i)
  case 0
  then show ?case by (subst (1 2 3 4 5) skip_headers.simps) auto
next
  case (Suc n)
  show ?case
  proof (cases "p_type (e_ph h i) \<noteq> ELF_PROG_LOAD \<and> i < unat (e_phnum h)")
    case True
    then have e: "skip_headers (Suc n) h i = skip_headers n h (Suc i)" by (subst skip_headers.simps) simp
    have "Suc i \<le> unat (e_phnum h)" "unat (e_phnum h) - Suc i \<le> n" using True Suc.prems by auto
    note ih = Suc.IH [OF this]
    have "p_type (e_ph h j) \<noteq> ELF_PROG_LOAD" if "i \<le> j" "j < skip_headers n h (Suc i)" for j
      using ih True that by (cases "j = i") auto
    then show ?thesis using ih unfolding e by auto
  next
    case False
    then have "skip_headers (Suc n) h i = i" by (subst skip_headers.simps) auto
    then show ?thesis using False Suc.prems by auto
  qed
qed

primrec in_order :: "('a \<Rightarrow> 's \<Rightarrow> 's option) \<Rightarrow> 'a list \<Rightarrow> 's \<Rightarrow> 's option" where
  "in_order body [] s = Some s"
| "in_order body (x # xs) s = Option.bind (body x s) (in_order body xs)"

text \<open>The segments from header \<open>i\<close> on are the one that the search finds and those behind it.\<close>

lemma segments_skip:
  assumes "i \<le> unat (e_phnum h)"
  shows "segments h p i = (case segment_at h p (skip_headers (unat (e_phnum h)) h i) of None \<Rightarrow> [] |
    Some seg \<Rightarrow> seg # segments h p (Suc (segment_id seg)))"
proof -
  let ?n = "unat (e_phnum h)" and ?k = "skip_headers (unat (e_phnum h)) h i" and ?P = "\<lambda>j. p_type (e_ph h j) = ELF_PROG_LOAD"
  have k: "i \<le> ?k" "?k \<le> ?n" "?k < ?n \<longrightarrow> ?P ?k" "\<forall>j. i \<le> j \<and> j < ?k \<longrightarrow> \<not> ?P j"
    using skip_headers_spec [OF assms, of ?n] by auto
  have "[i..<?n] = [i..<?k] @ [?k..<?n]" using upt_add_eq_append [of i ?k "?n - ?k"] k(1,2) by simp
  moreover have "filter ?P [i..<?k] = []" using k(4) by (auto simp: filter_empty_conv)
  ultimately have f: "filter ?P [i..<?n] = filter ?P [?k..<?n]" by simp
  show ?thesis
  proof (cases "?k < ?n")
    case True
    then have "filter ?P [?k..<?n] = ?k # filter ?P [Suc ?k..<?n]" using k(3) by (simp add: upt_conv_Cons)
    moreover have "segment_at h p ?k = Some (the (segment_at h p ?k))" "segment_id (the (segment_at h p ?k)) = ?k"
      using True by (simp_all add: segment_at_def)
    ultimately show ?thesis using f True by (simp add: segments_def segment_at_def)
  next
    case False
    then have "segment_at h p ?k = None" "[?k..<?n] = []" by (simp_all add: segment_at_def)
    then show ?thesis using f by (simp only: segments_def filter.simps list.map option.case)
  qed
qed

lemma foreach_segment_in_order:
  assumes "e_magic h = ELF_MAGIC" "i \<le> unat (e_phnum h)" "unat (e_phnum h) - i \<le> fuel"
  shows "foreach_segment fuel h p body (segment_at h p (skip_headers (unat (e_phnum h)) h i)) s = in_order body (segments h p i) s"
  using assms(2,3)
proof (induction fuel arbitrary: i s)
  case 0
  then have "segments h p i = []" by (simp add: segments_def)
  then have "segment_at h p (skip_headers (unat (e_phnum h)) h i) = None"
    using segments_skip [OF 0(1), of p] by (simp split: option.splits)
  then show ?case using \<open>segments h p i = []\<close> by simp
next
  case (Suc n)
  let ?k = "skip_headers (unat (e_phnum h)) h i"
  show ?case
  proof (cases "segment_at h p ?k")
    case None
    then show ?thesis using segments_skip [OF Suc.prems(1), of p] by simp
  next
    case (Some seg)
    then have k: "?k < unat (e_phnum h)" "segment_id seg = ?k" by (auto simp: segment_at_def split: if_splits)
    have "i \<le> ?k" using skip_headers_spec [OF Suc.prems(1), of "unat (e_phnum h)"] by simp
    then have "Suc ?k \<le> unat (e_phnum h)" "unat (e_phnum h) - Suc ?k \<le> n" using k(1) Suc.prems by simp_all
    note ih = Suc.IH [OF this]
    have "PROGRAM_SEGMENT_NEXT seg h p = Some (segment_at h p (skip_headers (unat (e_phnum h)) h (Suc ?k)))"
      using assms(1) k(2) by (simp add: PROGRAM_SEGMENT_NEXT_def)
    then show ?thesis using segments_skip [OF Suc.prems(1), of p] Some k(2) ih by (auto intro: Option.bind_cong)
  qed
qed

text \<open>
  The enumeration of segments.  On an image with the right magic number the loop of the loader ends, and it runs its
  body on exactly the loadable segments, once each and in the order of the program headers, until one of them fails; an
  image with another magic number panics.
\<close>

theorem PROGRAM_SEGMENT_FOREACH_correct:
  "PROGRAM_SEGMENT_FOREACH h p body s = (if e_magic h = ELF_MAGIC then in_order body (segments h p 0) s else None)"
  using foreach_segment_in_order [of h 0 "unat (e_phnum h)" p body s]
  by (simp add: PROGRAM_SEGMENT_FOREACH_def PROGRAM_SEGMENT_FIRST_def)

section \<open>Segments that are larger in memory than in the file\<close>

text \<open>
  The pages behind the end of a segment's file data.  The loader subtracts the rounded end of the file data from the
  end of the segment in memory, which is negative, and so wraps, when the segment ends in the last page that has file
  data.  The rounding wraps back: the number of bytes to fill with zero pages is always the distance between the two
  rounded ends.
\<close>

theorem remaining_bytes_correct:
  assumes "size_in_file seg \<le> size_in_memory seg"
    and "unat (seg_virtual_address seg) + unat (size_in_memory seg) + 4096 < 2 ^ 32"
  shows "unat (remaining_bytes seg) =
    unat (ROUNDUP (seg_virtual_address seg + size_in_memory seg) PAGE_SIZE) -
    unat (ROUNDUP (seg_virtual_address seg + size_in_file seg) PAGE_SIZE)"
proof -
  let ?v = "unat (seg_virtual_address seg)" and ?f = "unat (size_in_file seg)" and ?m = "unat (size_in_memory seg)"
  have fm: "?f \<le> ?m" using assms(1) by (simp add: word_le_nat_alt)
  have vf: "unat (seg_virtual_address seg + size_in_file seg) = ?v + ?f"
    and vm: "unat (seg_virtual_address seg + size_in_memory seg) = ?v + ?m"
    using fm assms(2) by (simp_all add: unat_word_ariths)
  let ?a = "ROUNDUP (seg_virtual_address seg + size_in_file seg) PAGE_SIZE"
  let ?e = "seg_virtual_address seg + size_in_memory seg"
  have a: "unat ?a = 4096 * ((?v + ?f + 4095) div 4096)"
    using unat_ROUNDUP [of PAGE_SIZE "seg_virtual_address seg + size_in_file seg"] vf fm assms(2) by (simp add: PAGE_SIZE_def)
  have e: "unat (ROUNDUP ?e PAGE_SIZE) = 4096 * ((?v + ?m + 4095) div 4096)"
    using unat_ROUNDUP [of PAGE_SIZE ?e] vm assms(2) by (simp add: PAGE_SIZE_def)
  have d: "unat (ROUNDUP x PAGE_SIZE) = 4096 * (unat (x + 4095) div 4096)" for x :: u32
  proof -
    have "x + PAGE_SIZE - 1 = x + 4095" "unat PAGE_SIZE = 4096" by (simp_all add: PAGE_SIZE_def)
    then show ?thesis by (simp only: ROUNDUP_def unat_ROUNDDOWN_mult)
  qed
  have "unat (?e - ?a + 4095) = ?v + ?m + 4095 - unat ?a"
  proof -
    have le: "unat ?a \<le> ?v + ?m + 4095" using a fm by linarith
    have "unat (?e + 4095) = ?v + ?m + 4095" using vm assms(2) by (simp add: unat_word_ariths)
    then have "unat (?e + 4095 - ?a) = ?v + ?m + 4095 - unat ?a" using le by (simp add: unat_sub word_le_nat_alt)
    then show ?thesis by (simp add: algebra_simps)
  qed
  then have "unat (ROUNDUP (?e - ?a) PAGE_SIZE) = 4096 * ((?v + ?m + 4095 - unat ?a) div 4096)" using d by simp
  also have "\<dots> = 4096 * ((?v + ?m + 4095) div 4096) - unat ?a" 
  proof -
    obtain b where "?v + ?m + 4095 = b + 4096 * ((?v + ?f + 4095) div 4096)"
    proof -
      have "4096 * ((?v + ?f + 4095) div 4096) \<le> ?v + ?m + 4095" using fm by linarith
      from le_Suc_ex [OF this] show thesis using that by (auto simp: add.commute)
    qed
    then show ?thesis unfolding a by (simp add: diff_mult_distrib2)
  qed
  finally show ?thesis using e by (simp add: remaining_bytes_def Let_def)
qed

theorem remaining_bytes_correct_witness:
  "remaining_bytes \<lparr>seg_ptr_start = 0, size_in_file = 0x10, size_in_memory = 0x20, seg_virtual_address = 0x800000, segment_id = 0\<rparr> = 0 \<and>
   remaining_bytes \<lparr>seg_ptr_start = 0, size_in_file = 0x10, size_in_memory = 0x2020, seg_virtual_address = 0x800000, segment_id = 0\<rparr> = 0x2000"
  using remaining_bytes_correct [of "\<lparr>seg_ptr_start = 0, size_in_file = 0x10, size_in_memory = 0x20, seg_virtual_address = 0x800000, segment_id = 0\<rparr>"]
    remaining_bytes_correct [of "\<lparr>seg_ptr_start = 0, size_in_file = 0x10, size_in_memory = 0x2020, seg_virtual_address = 0x800000, segment_id = 0\<rparr>"]
  by (simp add: word_unat_eq_iff unat_ROUNDUP PAGE_SIZE_def)

end
