(* ===== verification/FOS_ConsoleThms.thy ===== *)
theory FOS_ConsoleThms
  imports FOS_Console
begin

unbundle bit_operations_syntax

text \<open>
  The circular input buffer is a queue of bytes as long as it does not overflow, the screen position never leaves the
  screen, and the operations of the console keep it well formed.
\<close>

section \<open>The input buffer as a queue\<close>

definition cons_ok :: "console \<Rightarrow> bool" where
  "cons_ok s \<longleftrightarrow> length (cons_buf s) = CONSBUFSIZE \<and> unat (rpos s) < CONSBUFSIZE \<and> unat (wpos s) < CONSBUFSIZE"

text \<open>The number of bytes that wait, and the bytes, oldest first.\<close>

definition waiting :: "console \<Rightarrow> nat" where
  "waiting s = (unat (wpos s) + CONSBUFSIZE - unat (rpos s)) mod CONSBUFSIZE"

definition pending :: "console \<Rightarrow> u8 list" where
  "pending s = map (\<lambda>i. cons_buf s ! ((unat (rpos s) + i) mod CONSBUFSIZE)) [0..<waiting s]"

lemma length_pending [simp]: "length (pending s) = waiting s"
  by (simp add: pending_def)

lemma step_index:
  assumes "unat (r :: u32) < CONSBUFSIZE"
  shows "unat (if r + 1 = of_nat CONSBUFSIZE then 0 else r + 1) = (unat r + 1) mod CONSBUFSIZE"
proof -
  have u: "unat (r + 1) = unat r + 1" using assms by (simp add: CONSBUFSIZE_def unat_word_ariths)
  moreover have "r + 1 = of_nat CONSBUFSIZE \<longleftrightarrow> unat (r + 1) = 512" by (simp add: word_unat_eq_iff CONSBUFSIZE_def)
  ultimately show ?thesis using assms by (auto simp: CONSBUFSIZE_def)
qed

lemma ring_distance:
  assumes "w < N" "r < (N :: nat)"
  shows "(w + N - r) mod N = (if r \<le> w then w - r else w + N - r)"
proof (cases "r \<le> w")
  case True
  then have e: "w + N - r = w - r + N" by simp
  have "(w + N - r) mod N = (w - r) mod N" unfolding e by (rule mod_add_self2)
  then show ?thesis using True assms by simp
qed (use assms in simp)

lemma ring_succ: "w < N \<Longrightarrow> (w + 1) mod N = (if w + 1 = N then 0 else w + (1 :: nat))"
  by simp

lemma ring_put:
  assumes "w < N" "r < (N :: nat)"
  shows "((w + 1) mod N + N - r) mod N = ((w + N - r) mod N + 1) mod N"
proof -
  have "(w + 1) mod N < N" "(w + N - r) mod N < N" using assms by simp_all
  then show ?thesis unfolding ring_distance [OF \<open>(w + 1) mod N < N\<close> assms(2)] ring_succ [OF \<open>(w + N - r) mod N < N\<close>]
    unfolding ring_distance [OF assms] ring_succ [OF assms(1)] using assms by auto
qed

lemma ring_get:
  assumes "w < N" "r < (N :: nat)" "w \<noteq> r"
  shows "(w + N - r) mod N = Suc ((w + N - (r + 1) mod N) mod N)"
proof -
  have "(r + 1) mod N < N" using assms by simp
  then show ?thesis unfolding ring_distance [OF assms(1) \<open>(r + 1) mod N < N\<close>] ring_distance [OF assms(1,2)]
    unfolding ring_succ [OF assms(2)] using assms by auto
qed

lemma ring_cell:
  assumes "r < N" "i < (N :: nat)"
  shows "(r + i) mod N = (if r + i < N then r + i else r + i - N)"
proof (cases "r + i < N")
  case False
  then have "(r + i) mod N = (r + i - N) mod N" by (simp add: le_mod_geq)
  then show ?thesis using False assms by simp
qed simp

text \<open>The cell that is written next is the one behind the last waiting byte.\<close>

lemma ring_write:
  assumes "w < N" "r < (N :: nat)"
  shows "(r + (w + N - r) mod N) mod N = w"
proof -
  have "(w + N - r) mod N < N" using assms by simp
  then show ?thesis unfolding ring_cell [OF assms(2) \<open>(w + N - r) mod N < N\<close>] unfolding ring_distance [OF assms]
    using assms by auto
qed

lemma ring_other:
  assumes "w < N" "r < (N :: nat)" "i < (w + N - r) mod N"
  shows "(r + i) mod N \<noteq> w"
proof -
  have "i < N" by (rule less_trans [OF assms(3)]) (use assms(1) in simp)
  then show ?thesis using assms(3) unfolding ring_cell [OF assms(2) \<open>i < N\<close>] ring_distance [OF assms(1,2)]
    using assms(1,2) by (auto split: if_splits)
qed

lemma cons_store_ok:
  assumes "cons_ok s" "c \<noteq> 0"
  shows "\<exists>s'. cons_store c s = Some s' \<and> cons_ok s' \<and> rpos s' = rpos s \<and> waiting s' = (waiting s + 1) mod CONSBUFSIZE \<and>
    kbd_data s' = kbd_data s \<and> serial_data s' = serial_data s \<and> crt_pos s' = crt_pos s \<and>
    cons_buf s' = (cons_buf s)[unat (wpos s) := word_of_int c]"
proof -
  let ?s = "s\<lparr>cons_buf := (cons_buf s)[unat (wpos s) := word_of_int c], wpos := if wpos s + 1 = of_nat CONSBUFSIZE then 0 else wpos s + 1\<rparr>"
  have w: "unat (wpos s) < CONSBUFSIZE" "unat (rpos s) < CONSBUFSIZE" using assms(1) by (simp_all add: cons_ok_def)
  have e: "cons_store c s = Some ?s" using assms(2) w by (simp add: cons_store_def Let_def)
  have n: "unat (wpos ?s) = (unat (wpos s) + 1) mod CONSBUFSIZE" using step_index [OF w(1)] by simp
  have "cons_ok ?s" using assms(1) n by (simp only: cons_ok_def) (simp add: CONSBUFSIZE_def)
  moreover have "waiting ?s = (waiting s + 1) mod CONSBUFSIZE"
    unfolding waiting_def n using ring_put [OF w] by simp
  ultimately show ?thesis using e by auto
qed

lemma cons_store_pending:
  assumes "cons_ok s" "c \<noteq> 0" "waiting s + 1 < CONSBUFSIZE"
  shows "\<exists>s'. cons_store c s = Some s' \<and> cons_ok s' \<and> pending s' = pending s @ [word_of_int c] \<and>
    kbd_data s' = kbd_data s \<and> serial_data s' = serial_data s \<and> crt_pos s' = crt_pos s"
proof -
  from cons_store_ok [OF assms(1,2)] obtain s' where s': "cons_store c s = Some s'" "cons_ok s'" "rpos s' = rpos s"
    "waiting s' = waiting s + 1" "kbd_data s' = kbd_data s" "serial_data s' = serial_data s" "crt_pos s' = crt_pos s"
    "cons_buf s' = (cons_buf s)[unat (wpos s) := word_of_int c]" using assms(3) by auto
  have w: "unat (wpos s) < CONSBUFSIZE" "unat (rpos s) < CONSBUFSIZE" "length (cons_buf s) = CONSBUFSIZE"
    using assms(1) by (simp_all add: cons_ok_def)
  have "cons_buf s' ! ((unat (rpos s) + i) mod CONSBUFSIZE) = cons_buf s ! ((unat (rpos s) + i) mod CONSBUFSIZE)"
    if "i < waiting s" for i
    using ring_other [OF w(1,2) that [unfolded waiting_def]] by (simp add: s'(8))
  moreover have "cons_buf s' ! ((unat (rpos s) + waiting s) mod CONSBUFSIZE) = word_of_int c"
    unfolding waiting_def ring_write [OF w(1,2)] using w by (simp add: s'(8))
  ultimately have "pending s' = pending s @ [word_of_int c]" by (simp add: pending_def s'(3,4))
  then show ?thesis using s' by auto
qed

lemma cons_getc2_ok:
  assumes "cons_ok s"
  shows "\<exists>s'. cons_getc2 s = Some (if pending s = [] then 0 else uint (hd (pending s)), s') \<and> cons_ok s' \<and>
    pending s' = tl (pending s) \<and> crt_pos s' = crt_pos s"
proof (cases "rpos s = wpos s")
  case True
  then have "pending s = []" by (simp add: pending_def waiting_def)
  then show ?thesis using True assms by (simp add: cons_getc2_def)
next
  case False
  let ?s = "s\<lparr>rpos := if rpos s + 1 = of_nat CONSBUFSIZE then 0 else rpos s + 1\<rparr>"
  have w: "unat (wpos s) < CONSBUFSIZE" "unat (rpos s) < CONSBUFSIZE" "length (cons_buf s) = CONSBUFSIZE"
    using assms by (simp_all add: cons_ok_def)
  have ne: "unat (wpos s) \<noteq> unat (rpos s)" using False by (simp add: word_unat_eq_iff)
  have e: "cons_getc2 s = Some (uint (cons_buf s ! unat (rpos s)), ?s)" using False w by (simp add: cons_getc2_def Let_def)
  have n: "unat (rpos ?s) = (unat (rpos s) + 1) mod CONSBUFSIZE" using step_index [OF w(2)] by simp
  have k: "waiting s = Suc (waiting ?s)" unfolding waiting_def n using ring_get [OF w(1,2) ne] by simp
  have "pending s = cons_buf s ! unat (rpos s) # pending ?s"
    using w(2) unfolding pending_def k n upt_conv_Cons [OF zero_less_Suc] map_Suc_upt [symmetric]
    by (simp add: mod_simps)
  moreover have "cons_ok ?s" using assms n by (simp only: cons_ok_def) (simp add: CONSBUFSIZE_def)
  ultimately show ?thesis using e by simp
qed

lemma empty_iff_equal:
  assumes "cons_ok s"
  shows "pending s = [] \<longleftrightarrow> rpos s = wpos s"
  using ring_distance [of "unat (wpos s)" CONSBUFSIZE "unat (rpos s)"] assms
  by (auto simp: pending_def waiting_def cons_ok_def word_unat_eq_iff split: if_splits)

text \<open>The contract of a queue holds for bytes other than zero and less than 512 of them.\<close>

interpretation consbuf: fifo_ops "\<lambda>xs s. cons_ok s \<and> pending s = xs \<and> 0 \<notin> set xs" "\<lambda>xs. length xs < CONSBUFSIZE \<and> 0 \<notin> set xs"
  "\<lambda>b. cons_store (uint b)" "\<lambda>s. map_option (\<lambda>(c, s'). (if c = 0 then None else Some (word_of_int c), s')) (cons_getc2 s)"
proof
  fix xs ys :: "u8 list"
  assume "length (xs @ ys) < CONSBUFSIZE \<and> 0 \<notin> set (xs @ ys)"
  then show "length xs < CONSBUFSIZE \<and> 0 \<notin> set xs" by simp
next
  fix xs s and e :: u8
  assume a: "cons_ok s \<and> pending s = xs \<and> 0 \<notin> set xs" "length (xs @ [e]) < CONSBUFSIZE \<and> 0 \<notin> set (xs @ [e])"
  then have "uint e \<noteq> 0" "waiting s + 1 < CONSBUFSIZE" by (auto simp: unsigned_eq_0_iff)
  with a show "\<exists>s'. cons_store (uint e) s = Some s' \<and> cons_ok s' \<and> pending s' = xs @ [e] \<and> 0 \<notin> set (xs @ [e])"
    using cons_store_pending [of s "uint e"] by auto
next
  fix s
  assume "cons_ok s \<and> pending s = [] \<and> 0 \<notin> set ([] :: u8 list)"
  then have "rpos s = wpos s" using empty_iff_equal by blast
  then show "map_option (\<lambda>(c, s'). (if c = 0 then None else Some (word_of_int c), s')) (cons_getc2 s) = Some (None :: u8 option, s)"
    by (simp add: cons_getc2_def)
next
  fix x :: u8 and xs s
  assume a: "cons_ok s \<and> pending s = x # xs \<and> 0 \<notin> set (x # xs)"
  then obtain s' where "cons_getc2 s = Some (uint x, s')" "cons_ok s'" "pending s' = xs" "uint x \<noteq> 0"
    using cons_getc2_ok [of s] by (auto simp: unsigned_eq_0_iff)
  with a show "\<exists>s'. map_option (\<lambda>(c, s'). (if c = 0 then None else Some (word_of_int c), s')) (cons_getc2 s) = Some (Some x, s') \<and>
    cons_ok s' \<and> pending s' = xs \<and> 0 \<notin> set xs"
    by simp
qed

section \<open>Interrupts\<close>

text \<open>
  What the console asks of a device routine: it takes one byte at a time from its device and returns a code that is
  not negative, it returns -1 when there is none, and it does not look at the input buffer.
\<close>

primrec produced :: "nat \<Rightarrow> (console \<Rightarrow> int \<times> console) \<Rightarrow> console \<Rightarrow> int list" where
  "produced 0 proc s = []"
| "produced (Suc n) proc s = fst (proc s) # produced n proc (snd (proc s))"

definition set_ring :: "u8 list \<Rightarrow> u32 \<Rightarrow> console \<Rightarrow> console" where
  "set_ring b w s = s\<lparr>cons_buf := b, wpos := w\<rparr>"

definition stored :: "int list \<Rightarrow> u8 list" where
  "stored cs = map word_of_int (filter (\<lambda>c. c \<noteq> 0) cs)"

lemma set_ring_same: "set_ring (cons_buf s) (wpos s) s = s"
  by (simp add: set_ring_def)

lemma cons_store_ring:
  assumes "cons_store c s = Some s'"
  shows "\<exists>b w. s' = set_ring b w s"
proof (cases "c = 0")
  case True
  then show ?thesis using assms set_ring_same [of s, symmetric] by (auto simp: cons_store_def)
next
  case False
  then show ?thesis using assms by (auto simp: cons_store_def set_ring_def Let_def bind_eq_Some_conv)
qed

locale input_device =
  fixes proc :: "console \<Rightarrow> int \<times> console" and data :: "console \<Rightarrow> u8 list"
  assumes no_data: "data s = [] \<Longrightarrow> proc s = (-1, s)"
    and some_data: "data s \<noteq> [] \<Longrightarrow> 0 \<le> fst (proc s)"
    and one_byte: "data (snd (proc s)) = tl (data s)"
    and keeps: "cons_buf (snd (proc s)) = cons_buf s" "rpos (snd (proc s)) = rpos s" "wpos (snd (proc s)) = wpos s"
      "crt_pos (snd (proc s)) = crt_pos s"
    and ring_data: "data (set_ring b w s) = data s"
    and ring_proc: "proc (set_ring b w s) = map_prod id (set_ring b w) (proc s)"
begin

lemma produced_ring: "produced n proc (set_ring b w s) = produced n proc s"
  by (induction n arbitrary: s) (simp_all add: ring_proc)

lemma keeps_ok: "cons_ok (snd (proc s)) = cons_ok s" "waiting (snd (proc s)) = waiting s" "pending (snd (proc s)) = pending s"
  by (simp_all add: cons_ok_def waiting_def pending_def keeps)

text \<open>The loop ends, with the device empty and the buffer well formed.\<close>

lemma intr_ok:
  assumes "cons_ok s" "length (data s) \<le> n"
  shows "\<exists>s'. cons_intr (Suc n) proc s = Some s' \<and> cons_ok s' \<and> data s' = [] \<and> crt_pos s' = crt_pos s"
  using assms
proof (induction n arbitrary: s)
  case 0
  then show ?case by (simp add: no_data)
next
  case (Suc n)
  show ?case
  proof (cases "data s = []")
    case True
    then show ?thesis using Suc.prems by (simp add: no_data)
  next
    case False
    let ?c = "fst (proc s)" and ?t = "snd (proc s)"
    obtain s2 where s2: "cons_store ?c ?t = Some s2" "cons_ok s2" "crt_pos s2 = crt_pos ?t"
      using cons_store_ok [of ?t ?c] Suc.prems(1) by (cases "?c = 0") (auto simp: keeps_ok cons_store_def)
    from cons_store_ring [OF s2(1)] have "length (data s2) \<le> n" using Suc.prems(2) False by (auto simp: ring_data one_byte)
    from Suc.IH [OF s2(2) this] s2 some_data [OF False] show ?thesis
      by (auto simp: case_prod_beta keeps)
  qed
qed

lemma intr_fifo:
  assumes "cons_ok s" "waiting s + length (data s) < CONSBUFSIZE" "length (data s) \<le> n"
  shows "\<exists>s'. cons_intr (Suc n) proc s = Some s' \<and> cons_ok s' \<and> pending s' = pending s @ stored (produced (length (data s)) proc s)"
  using assms
proof (induction n arbitrary: s)
  case 0
  then show ?case by (simp add: no_data stored_def)
next
  case (Suc n)
  show ?case
  proof (cases "data s = []")
    case True
    then show ?thesis using Suc.prems by (simp add: no_data stored_def)
  next
    case False
    let ?c = "fst (proc s)" and ?t = "snd (proc s)"
    have l: "length (data s) = Suc (length (data ?t))" using False by (simp add: one_byte)
    obtain s2 where s2: "cons_store ?c ?t = Some s2" "cons_ok s2" "pending s2 = pending s @ stored [?c]"
      using cons_store_pending [of ?t ?c] Suc.prems(1,2) l
      by (cases "?c = 0") (auto simp: keeps_ok cons_store_def stored_def)
    from cons_store_ring [OF s2(1)] obtain b w where r: "s2 = set_ring b w ?t" by blast
    have "waiting s2 \<le> waiting s + 1" using arg_cong [OF s2(3), of length] by (simp add: stored_def)
    then have "waiting s2 + length (data s2) < CONSBUFSIZE" "length (data s2) \<le> n"
      using Suc.prems(2,3) l by (auto simp: r ring_data)
    from Suc.IH [OF s2(2) this] obtain s' where s': "cons_intr (Suc n) proc s2 = Some s'" "cons_ok s'"
      "pending s' = pending s2 @ stored (produced (length (data ?t)) proc ?t)" by (auto simp: r ring_data produced_ring)
    have "cons_intr (Suc (Suc n)) proc s = Some s'"
      using s'(1) s2(1) some_data [OF False] by (simp add: case_prod_beta)
    moreover have "pending s' = pending s @ stored (produced (length (data s)) proc s)"
      using s'(3) s2(3) by (simp add: l stored_def)
    ultimately show ?thesis using s'(2) by auto
  qed
qed

end

lemma delete_key_keeps:
  "kbd_data (snd (delete_key s)) = kbd_data s" "cons_buf (snd (delete_key s)) = cons_buf s" "rpos (snd (delete_key s)) = rpos s"
  "wpos (snd (delete_key s)) = wpos s" "crt_pos (snd (delete_key s)) = crt_pos s" "0 \<le> fst (delete_key s)"
  "delete_key (set_ring b w s) = map_prod id (set_ring b w) (delete_key s)"
  by (simp_all add: delete_key_def Let_def KEY_DEL_def set_ring_def)

lemma apply_capslock_pos: "0 \<le> c \<Longrightarrow> 0 \<le> apply_capslock sh c"
  by (simp add: apply_capslock_def)

lemma charcode_pos: "0 \<le> charcode m d"
  by (simp add: charcode_def)

lemma key_pressed_keeps:
  "kbd_data (snd (key_pressed d s)) = kbd_data s" "cons_buf (snd (key_pressed d s)) = cons_buf s" "rpos (snd (key_pressed d s)) = rpos s"
  "wpos (snd (key_pressed d s)) = wpos s" "crt_pos (snd (key_pressed d s)) = crt_pos s" "0 \<le> fst (key_pressed d s)"
  by (simp_all add: key_pressed_def Let_def delete_key_keeps apply_capslock_pos charcode_pos special_key_def)

lemma set_ring_sel [simp]:
  "kbd_data (set_ring b w s) = kbd_data s" "kbd_shift (set_ring b w s) = kbd_shift s" "serial_data (set_ring b w s) = serial_data s"
  "(set_ring b w s)\<lparr>kbd_data := x\<rparr> = set_ring b w (s\<lparr>kbd_data := x\<rparr>)"
  "(set_ring b w s)\<lparr>kbd_shift := y\<rparr> = set_ring b w (s\<lparr>kbd_shift := y\<rparr>)"
  "(set_ring b w s)\<lparr>serial_data := z\<rparr> = set_ring b w (s\<lparr>serial_data := z\<rparr>)"
  by (simp_all add: set_ring_def)

lemma key_pressed_ring: "key_pressed d (set_ring b w s) = map_prod id (set_ring b w) (key_pressed d s)"
  by (simp add: key_pressed_def Let_def delete_key_keeps(7))

interpretation kbd: input_device kbd_proc_data kbd_data
proof
  fix s b w
  show "kbd_data s = [] \<Longrightarrow> kbd_proc_data s = (-1, s)" by (simp add: kbd_proc_data_def)
  show "kbd_data s \<noteq> [] \<Longrightarrow> 0 \<le> fst (kbd_proc_data s)"
    "kbd_data (snd (kbd_proc_data s)) = tl (kbd_data s)"
    "cons_buf (snd (kbd_proc_data s)) = cons_buf s" "rpos (snd (kbd_proc_data s)) = rpos s" "wpos (snd (kbd_proc_data s)) = wpos s"
    "crt_pos (snd (kbd_proc_data s)) = crt_pos s"
    by (simp_all add: kbd_proc_data_def Let_def key_pressed_keeps split: list.split)
  show "kbd_data (set_ring b w s) = kbd_data s" by simp
  show "kbd_proc_data (set_ring b w s) = map_prod id (set_ring b w) (kbd_proc_data s)"
    by (simp add: kbd_proc_data_def Let_def key_pressed_ring split: list.split)
qed

interpretation ser: input_device serial_proc_data serial_data
  by unfold_locales (simp_all add: serial_proc_data_def split: list.split)

text \<open>The characters that the waiting scan codes stand for.\<close>

definition keys :: "console \<Rightarrow> u8 list" where
  "keys s = stored (produced (length (kbd_data s)) kbd_proc_data s)"

lemma run_getc2:
  assumes "cons_ok s"
  shows "\<exists>s'. run_n (length (pending s)) cons_getc2 s = Some (map uint (pending s), s') \<and> cons_ok s' \<and> pending s' = []"
  using assms
proof (induction "pending s" arbitrary: s)
  case Nil
  then show ?case by simp
next
  case (Cons x xs)
  from cons_getc2_ok [OF Cons.prems] Cons(2) obtain s1 where s1: "cons_getc2 s = Some (uint x, s1)" "cons_ok s1" "pending s1 = xs"
    by (metis list.discI list.sel(1,3))
  from Cons(1) [OF s1(3) [symmetric] s1(2)] s1 Cons(2) show ?case by (auto simp del: length_pending simp flip: Cons(2))
qed

definition cons_ex :: console where
  "cons_ex = \<lparr>cons_buf = replicate 512 0, rpos = 0, wpos = 0, serial_exists = True, crt_buf = (\<lambda>_. 0x0720), crt_pos = 1999,
     cursor = (7, 0xCF), text_length = 0, current_text_color = 0, kbd_shift = 0, kbd_data = [], serial_data = [], lpt_out = []\<rparr>"

text \<open>
  C19: from the keyboard to the reader.  The keyboard interrupt takes every scan code that waits in the controller,
  whatever the codes are, and ends.  As long as the bytes that wait and the codes that arrive are fewer than the size of
  the buffer, the buffer then holds what was waiting followed by the decoded keys in the order they were pressed, and
  reading it returns exactly these characters in this order and leaves it empty.
\<close>

theorem keyboard_input_fifo:
  assumes "cons_ok s" "length (pending s) + length (kbd_data s) < CONSBUFSIZE"
  shows "\<exists>s1 s2. kbd_intr s = Some s1 \<and> pending s1 = pending s @ keys s \<and>
    run_n (length (pending s @ keys s)) cons_getc2 s1 = Some (map uint (pending s @ keys s), s2) \<and> pending s2 = []"
proof -
  obtain s1 where s1: "kbd_intr s = Some s1" "cons_ok s1" "pending s1 = pending s @ keys s"
    using kbd.intr_fifo [OF assms(1), of "length (kbd_data s)"] assms(2) by (auto simp: kbd_intr_def keys_def)
  then show ?thesis using run_getc2 [OF s1(2)] by auto
qed

theorem keyboard_input_fifo_witness:
  "\<exists>s1 s2. kbd_intr (cons_ex\<lparr>kbd_data := [0x2A, 0x23, 0xAA, 0x17, 0xE0]\<rparr>) = Some s1 \<and> pending s1 = [72, 105] \<and>
    run_n 2 cons_getc2 s1 = Some ([72, 105], s2) \<and> pending s2 = []"
proof -
  let ?s = "cons_ex\<lparr>kbd_data := [0x2A, 0x23, 0xAA, 0x17, 0xE0]\<rparr>"
  have k: "keys ?s = [72, 105]" by code_simp
  have p: "pending ?s = []" by (simp add: cons_ex_def pending_def waiting_def)
  have l: "length ([] @ [72, 105 :: u8]) = 2" "map uint ([] @ [72, 105 :: u8]) = [72, 105]" by simp_all
  have "cons_ok ?s" by (simp add: cons_ex_def cons_ok_def CONSBUFSIZE_def)
  moreover have "length (pending ?s) + length (kbd_data ?s) < CONSBUFSIZE" unfolding p by (simp add: CONSBUFSIZE_def)
  ultimately show ?thesis using keyboard_input_fifo [of ?s, unfolded k p l] by simp
qed

text \<open>
  An overflow of the input buffer.  The writer does not look at the position of the reader: the byte that fills
  the last cell makes the two positions equal, which means empty, so that all 512 characters are lost at once.
\<close>

theorem cons_buffer_overflow:
  assumes "cons_ok s" "0 \<notin> set bs" "length (pending s) + length bs = CONSBUFSIZE"
  shows "\<exists>s'. run_all (\<lambda>b. cons_store (uint b)) bs s = Some s' \<and> pending s' = [] \<and> cons_getc2 s' = Some (0, s')"
proof -
  have "\<exists>s'. run_all (\<lambda>b. cons_store (uint b)) bs s = Some s' \<and> cons_ok s' \<and> waiting s' = (waiting s + length bs) mod CONSBUFSIZE"
    using assms(1,2)
  proof (induction bs arbitrary: s)
    case Nil
    then show ?case by (simp add: waiting_def CONSBUFSIZE_def)
  next
    case (Cons b bs)
    then have "uint b \<noteq> 0" by (auto simp: unsigned_eq_0_iff)
    from cons_store_ok [OF Cons.prems(1) this] obtain s1 where
      s1: "cons_store (uint b) s = Some s1" "cons_ok s1" "waiting s1 = (waiting s + 1) mod CONSBUFSIZE" by auto
    from Cons.IH [OF s1(2)] Cons.prems(2) s1 show ?case by (auto simp: mod_simps)
  qed
  then obtain s' where s': "run_all (\<lambda>b. cons_store (uint b)) bs s = Some s'" "cons_ok s'" "pending s' = []"
    using assms(3) by (auto simp: pending_def)
  then have "rpos s' = wpos s'" using empty_iff_equal by blast
  then show ?thesis using s' by (simp add: cons_getc2_def)
qed

theorem cons_buffer_overflow_witness:
  "\<exists>s'. run_all (\<lambda>b. cons_store (uint b)) (replicate 512 (65 :: u8)) cons_ex = Some s' \<and> pending s' = [] \<and> cons_getc2 s' = Some (0, s')"
  by (rule cons_buffer_overflow [where bs = "replicate 512 (65 :: u8)"]) (simp_all add: cons_ex_def cons_ok_def waiting_def CONSBUFSIZE_def)

section \<open>The screen\<close>

lemma unat_dec: "(0 :: u16) < p \<Longrightarrow> unat (p - 1) = unat p - 1"
  by (simp add: unat_minus_one word_gt_0)

lemma unat_inc: "unat (p :: u16) < CRT_SIZE \<Longrightarrow> unat (p + 1) = unat p + 1"
  by (simp add: unat_word_ariths CRT_SIZE_def CRT_COLS_def)

lemma line_start_le: "unat (p - p mod q) \<le> unat (p :: u16)"
proof -
  have "p mod q \<le> p" by (simp add: word_le_nat_alt unat_mod_distrib)
  then show ?thesis by (simp add: unat_sub)
qed

lemma cga_cell_bounds:
  assumes "unat (crt_pos s) < CRT_SIZE"
  shows "unat (crt_pos (cga_cell c s)) < CRT_SIZE + CRT_COLS"
    and "\<forall>i \<ge> CRT_SIZE. crt_buf (cga_cell c s) i = crt_buf s i"
    and "cons_ok (cga_cell c s) = cons_ok s"
proof -
  have n: "unat (crt_pos s + of_nat CRT_COLS) = unat (crt_pos s) + CRT_COLS"
    using assms by (simp add: unat_word_ariths CRT_SIZE_def CRT_COLS_def)
  have l: "unat (p - p mod of_nat CRT_COLS) < CRT_SIZE + CRT_COLS" if "unat p < CRT_SIZE + CRT_COLS" for p :: u16
    using le_less_trans [OF line_start_le that] .
  have d: "unat (crt_pos s - 1) < CRT_SIZE + CRT_COLS" if "0 < crt_pos s" using unat_dec [OF that] assms by simp
  have i: "unat (crt_pos s + 1) < CRT_SIZE + CRT_COLS" using unat_inc [OF assms] assms by (simp add: CRT_COLS_def)
  have "unat (crt_pos s) < CRT_SIZE + CRT_COLS" "unat (crt_pos s + of_nat CRT_COLS) < CRT_SIZE + CRT_COLS" using assms n by simp_all
  then show "unat (crt_pos (cga_cell c s)) < CRT_SIZE + CRT_COLS"
    using d i l [of "crt_pos s"] l [of "crt_pos s + of_nat CRT_COLS"] by (simp add: cga_cell_def Let_def)
  show "\<forall>i \<ge> CRT_SIZE. crt_buf (cga_cell c s) i = crt_buf s i" "cons_ok (cga_cell c s) = cons_ok s"
    using assms by (auto simp: cga_cell_def Let_def cons_ok_def)
qed

text \<open>The parts of the console that the screen functions leave alone, and where they write.\<close>

definition console_ok :: "console \<Rightarrow> bool" where
  "console_ok s \<longleftrightarrow> cons_ok s \<and> unat (crt_pos s) < CRT_SIZE"

definition on_screen :: "console \<Rightarrow> console \<Rightarrow> bool" where
  "on_screen s s' \<longleftrightarrow> console_ok s' \<and> (\<forall>i \<ge> CRT_SIZE. crt_buf s' i = crt_buf s i)"

lemma on_screen_trans: "on_screen s s' \<Longrightarrow> on_screen s' s'' \<Longrightarrow> on_screen s s''"
  by (simp add: on_screen_def)

lemma cga_finish_ok:
  assumes "cons_ok s" "unat (crt_pos s) < CRT_SIZE + CRT_COLS"
  shows "on_screen s (cga_finish s)"
    and "cursor (cga_finish s) = (ucast (drop_bit 8 (crt_pos (cga_finish s))), ucast (crt_pos (cga_finish s)))"
proof -
  have "unat (crt_pos s - of_nat CRT_COLS) = unat (crt_pos s) - CRT_COLS" if "CRT_SIZE \<le> unat (crt_pos s)"
    using that by (simp add: unat_sub word_le_nat_alt CRT_SIZE_def CRT_COLS_def)
  moreover have "0 < CRT_SIZE" by (simp add: CRT_SIZE_def CRT_COLS_def)
  ultimately have "unat (crt_pos (cga_scroll s)) < CRT_SIZE" using assms(2) by (auto simp: cga_scroll_def)
  moreover have "cons_ok (cga_scroll s)" "\<forall>i \<ge> CRT_SIZE. crt_buf (cga_scroll s) i = crt_buf s i"
    using assms(1) by (auto simp: cga_scroll_def cons_ok_def)
  ultimately show "on_screen s (cga_finish s)" by (simp add: on_screen_def console_ok_def cga_finish_def Let_def cons_ok_def)
qed (simp add: cga_finish_def Let_def)

lemma cga_putc1_ok:
  assumes "console_ok s"
  shows "on_screen s (cga_putc1 c s)"
proof -
  let ?t = "cga_cell (cga_attr c s) s"
  have "cons_ok ?t" "unat (crt_pos ?t) < CRT_SIZE + CRT_COLS" "\<forall>i \<ge> CRT_SIZE. crt_buf ?t i = crt_buf s i"
    using assms cga_cell_bounds [of s] by (auto simp: console_ok_def)
  then show ?thesis using cga_finish_ok(1) [of ?t] by (simp add: cga_putc1_def on_screen_def)
qed

lemma lpt_putc_ok [simp]: "console_ok (lpt_putc c s) = console_ok s" "on_screen (lpt_putc c s) s' = on_screen s s'"
  by (simp_all add: lpt_putc_def console_ok_def cons_ok_def on_screen_def)

lemma blanks_ok:
  "console_ok s \<Longrightarrow> on_screen s (((\<lambda>s. cga_putc1 0x20 (lpt_putc 0x20 s)) ^^ n) s)"
proof (induction n)
  case 0
  then show ?case by (simp add: on_screen_def)
next
  case (Suc n)
  then have "on_screen s (((\<lambda>s. cga_putc1 0x20 (lpt_putc 0x20 s)) ^^ n) s)" by simp
  moreover from this have "on_screen (((\<lambda>s. cga_putc1 0x20 (lpt_putc 0x20 s)) ^^ n) s) (((\<lambda>s. cga_putc1 0x20 (lpt_putc 0x20 s)) ^^ Suc n) s)"
    using cga_putc1_ok [of "lpt_putc 0x20 (((\<lambda>s. cga_putc1 0x20 (lpt_putc 0x20 s)) ^^ n) s)" "0x20"] by (simp add: on_screen_def [of s])
  ultimately show ?case by (rule on_screen_trans)
qed

lemma cga_putc_ok:
  assumes "console_ok s"
  shows "on_screen s (cga_putc c s)"
    and "cursor (cga_putc c s) = (ucast (drop_bit 8 (crt_pos (cga_putc c s))), ucast (crt_pos (cga_putc c s)))"
proof -
  let ?b = "((\<lambda>s. cga_putc1 0x20 (lpt_putc 0x20 s)) ^^ 5) s"
  have b: "on_screen s ?b" by (rule blanks_ok [OF assms])
  then have "on_screen ?b (cga_finish ?b)" by (intro cga_finish_ok) (simp_all add: on_screen_def console_ok_def)
  with b have "on_screen s (cga_finish ?b)" by (rule on_screen_trans)
  then show "on_screen s (cga_putc c s)" using cga_putc1_ok [OF assms] by (simp add: cga_putc_def)
  show "cursor (cga_putc c s) = (ucast (drop_bit 8 (crt_pos (cga_putc c s))), ucast (crt_pos (cga_putc c s)))"
    by (simp add: cga_putc_def cga_putc1_def cga_finish_def Let_def)
qed

lemma cursor_roundtrip: "push_bit 8 (ucast (ucast (drop_bit 8 p) :: u8)) OR ucast (ucast p :: u8) = (p :: u16)"
  by (rule bit_word_eqI) (auto simp: bit_simps)

text \<open>
  C20: the screen.  Printing any text, with any control characters in it, keeps the position on the screen and
  writes no cell of video memory behind it; after each character the cursor registers hold the position, so that
  reading them back, as the initialisation does, gives it again.
\<close>

theorem screen_output_bounded:
  assumes "console_ok s"
  shows "console_ok (fold cons_putc cs s) \<and> (\<forall>i \<ge> CRT_SIZE. crt_buf (fold cons_putc cs s) i = crt_buf s i) \<and>
    cga_init (cons_putc c s) = cons_putc c s"
proof -
  have "on_screen s (fold cons_putc cs s)" using assms
  proof (induction cs arbitrary: s)
    case Nil
    then show ?case by (simp add: on_screen_def)
  next
    case (Cons c cs)
    have "on_screen s (cons_putc c s)" using cga_putc_ok(1) [of "lpt_putc c s" c] Cons.prems by (simp add: cons_putc_def)
    moreover from this have "on_screen (cons_putc c s) (fold cons_putc (c # cs) s)" using Cons.IH by (simp add: on_screen_def)
    ultimately show ?case by (rule on_screen_trans)
  qed
  moreover have "cga_init (cons_putc c s) = cons_putc c s"
    using cga_putc_ok(2) [of "lpt_putc c s" c] assms by (simp add: cga_init_def cons_putc_def cursor_roundtrip)
  ultimately show ?thesis by (simp add: on_screen_def)
qed

theorem screen_output_bounded_witness:
  "console_ok (fold cons_putc [10, 72, 105, 9, 10] cons_ex) \<and> crt_buf (fold cons_putc [10, 72, 105, 9, 10] cons_ex) 2000 = 0x0720 \<and>
   cga_init (cons_putc 33 cons_ex) = cons_putc 33 cons_ex"
  using screen_output_bounded [of cons_ex "[10, 72, 105, 9, 10]" 33]
  by (simp add: cons_ex_def console_ok_def cons_ok_def CRT_SIZE_def CRT_COLS_def CONSBUFSIZE_def)

lemma serial_intr_ok:
  assumes "cons_ok s"
  shows "\<exists>s'. serial_intr s = Some s' \<and> cons_ok s' \<and> crt_pos s' = crt_pos s \<and> (serial_exists s \<longrightarrow> serial_data s' = [])"
  using ser.intr_ok [OF assms, of "length (serial_data s)"] assms by (auto simp: serial_intr_def)

lemma kbd_intr_serial:
  assumes "cons_intr n kbd_proc_data s = Some s'"
  shows "serial_data s' = serial_data s"
  using assms
proof (induction n arbitrary: s)
  case (Suc n)
  have k: "serial_data (snd (kbd_proc_data s)) = serial_data s"
    by (simp add: kbd_proc_data_def key_pressed_def delete_key_def Let_def split: list.split)
  have "serial_data s2 = serial_data s1" if "cons_store c s1 = Some s2" for c s1 s2
    using cons_store_ring [OF that] by auto
  then show ?case using Suc k by (auto simp: case_prod_beta bind_eq_Some_conv split: if_splits)
qed simp

text \<open>
  C21: reading is type safe.  Whatever bytes the keyboard controller and the serial port deliver, \<open>cons_getc\<close> drains
  both devices and returns a character of eight bits, or 0 when there is none; it never leaves the buffer and
  keeps the console well formed.
\<close>

theorem cons_getc_type:
  assumes "console_ok s"
  shows "\<exists>c s'. cons_getc s = Some (c, s') \<and> 0 \<le> c \<and> c < 256 \<and> console_ok s' \<and> kbd_data s' = [] \<and>
    (serial_exists s \<longrightarrow> serial_data s' = [])"
proof -
  from assms have s: "cons_ok s" "unat (crt_pos s) < CRT_SIZE" by (simp_all add: console_ok_def)
  from serial_intr_ok [OF s(1)] obtain s1 where s1: "serial_intr s = Some s1" "cons_ok s1" "crt_pos s1 = crt_pos s"
    "serial_exists s \<longrightarrow> serial_data s1 = []" by blast
  from kbd.intr_ok [OF s1(2) order_refl] obtain s2 where s2: "kbd_intr s1 = Some s2" "cons_ok s2" "kbd_data s2 = []"
    "crt_pos s2 = crt_pos s1" by (auto simp: kbd_intr_def)
  have "serial_data s2 = serial_data s1" using kbd_intr_serial s2(1) by (simp add: kbd_intr_def del: cons_intr.simps)
  moreover from cons_getc2_ok [OF s2(2)] obtain c s3 where s3: "cons_getc2 s2 = Some (c, s3)" "cons_ok s3" "crt_pos s3 = crt_pos s2"
    "c = (if pending s2 = [] then 0 else uint (hd (pending s2)))" by blast
  moreover have "kbd_data s3 = kbd_data s2" "serial_data s3 = serial_data s2"
    using s3(1) by (auto simp: cons_getc2_def Let_def bind_eq_Some_conv split: if_splits)
  moreover have "0 \<le> c" "c < 256" using s3(4) unsigned_less [of "hd (pending s2)"] by (auto split: if_splits)
  ultimately show ?thesis using s1 s2 s by (simp add: cons_getc_def console_ok_def)
qed

theorem cons_getc_type_witness:
  "\<exists>c s'. cons_getc (cons_ex\<lparr>kbd_data := [0xE0, 0x53, 0xFF, 0x1E]\<rparr>) = Some (c, s') \<and> 0 \<le> c \<and> c < 256 \<and> console_ok s' \<and> kbd_data s' = []"
  using cons_getc_type [of "cons_ex\<lparr>kbd_data := [0xE0, 0x53, 0xFF, 0x1E]\<rparr>"]
  by (fastforce simp: cons_ex_def console_ok_def cons_ok_def CRT_SIZE_def CRT_COLS_def CONSBUFSIZE_def)

end
