(* ===== verification/FOS_TrapThms.thy ===== *)
theory FOS_TrapThms
  imports FOS_Trap FOS_EnvThms FOS_ConsoleThms
begin

unbundle bit_operations_syntax

text \<open>
  The path of a system call through \<open>trap\<close>, numbers without a call, and the calls that map and unmap a page.
\<close>

section \<open>System calls through the trap\<close>

lemma kclock_resume_eq:
  assumes "cpu_ok s"
  shows "kclock_resume cnt s = Some (irq_clear_mask 0 ((refresh_intena s)\<lparr>pit_cnt0 := resume_count cnt\<rparr>))"
  using kclock_write_cnt0_eq [OF assms] by (simp add: kclock_resume_def)

lemma irq_clear_mask_sel [simp]:
  "cpu_proc (irq_clear_mask i s) = cpu_proc s" "envs (irq_clear_mask i s) = envs s" "didinit (irq_clear_mask i s) = didinit s"
  "trapframes (irq_clear_mask i t) = trapframes t" "phys (irq_clear_mask i s) = phys s"
  "cpu_proc (irq_set_mask i s) = cpu_proc s" "envs (irq_set_mask i s) = envs s" "didinit (irq_set_mask i s) = didinit s"
  "trapframes (irq_set_mask i t) = trapframes t" "phys (irq_set_mask i s) = phys s"
  by (simp_all add: irq_clear_mask_def irq_set_mask_def)

lemma irq0_cleared: "didinit s \<Longrightarrow> \<not> bit (pic1_mask (irq_clear_mask 0 s)) 0"
  by (simp add: irq_clear_mask_def bit_simps)

lemma cpu_ok_irq [simp]: "cpu_ok (irq_set_mask i s) = cpu_ok s" "cpu_ok (irq_clear_mask i s) = cpu_ok s"
  by (simp_all add: cpu_ok_def)

lemma sti_sel [simp]: "ncli (sti s) = ncli s" "eflags_IF (sti s)" "cpu_proc (sti s) = cpu_proc s" "envs (sti s) = envs s"
  "didinit (sti c) = didinit c" "trapframes (sti t) = trapframes t"
  by (simp_all add: sti_def)

lemma refresh_intena_more [simp]: "didinit (refresh_intena c) = didinit c" "trapframes (refresh_intena t) = trapframes t"
  by (simp_all add: refresh_intena_def)

text \<open>
  C22: the path of a system call.  A system call from user mode finds interrupts and the clock on exactly when the caller
  had them on.  Whatever the call does, if it returns with the interrupt nesting in order, the trap returns without a
  panic: the value is in the caller's \<open>eax\<close>, the rest of its registers is what the call left, interrupts are off for
  the return, and the clock interrupt is unmasked again.
\<close>

theorem trap_syscall_correct:
  fixes s :: "'z trap_state_scheme"
  assumes "\<not> eflags_IF s" "ncli s = 0" "didinit s"
    and "cpu_proc s = Some e" "env_status (envs s e) = ENV_RUNNING" "env_tf e s = tf"
    and f: "f = trapframes s tf" "tf_trapno f = T_SYSCALL" "tf_cs f AND 3 = 3"
  shows "\<exists>s2. enter_syscall cnt f (kclock_stop s) = Some s2 \<and> (eflags_IF s2 \<longleftrightarrow> tf_eflags f AND FL_IF \<noteq> 0) \<and>
    (eflags_IF s2 \<longrightarrow> \<not> bit (pic1_mask s2) 0) \<and> trapframes s2 = trapframes s \<and> cpu_proc s2 = Some e \<and>
    (\<forall>r s3. syscall v (reg_eax f) (reg_edx f) (reg_ecx f) (reg_ebx f) (reg_edi f) (reg_esi f) s2 = Some (Ret r, s3) \<and>
        cpu_ok s3 \<and> ncli s3 = 0 \<and> didinit s3 \<longrightarrow>
      (\<exists>s'. trap v stack cnt cnt_end tf s = Some (Trap_returns, s') \<and>
         trapframes s' = (trapframes s3)(tf := (trapframes s3 tf)\<lparr>reg_eax := r\<rparr>) \<and> envs s' = envs s3 \<and> phys s' = phys s3 \<and>
         \<not> eflags_IF s' \<and> ncli s' = 0 \<and> \<not> bit (pic1_mask s') 0))"
proof -
  let ?s1 = "kclock_stop s"
  have k: "kclock_stop s = irq_set_mask 0 s" for s :: "'z trap_state_scheme" by (simp add: kclock_stop_def)
  have s1: "\<not> eflags_IF ?s1" "ncli ?s1 = 0" "didinit ?s1" "cpu_ok ?s1" "cpu_proc ?s1 = Some e" "trapframes ?s1 = trapframes s"
    "envs ?s1 = envs s" using assms by (simp_all add: k cpu_ok_def)
  have okst: "cpu_ok (sti ?s1)" using s1(2) by (simp add: cpu_ok_def)
  obtain s2 where s2: "enter_syscall cnt f ?s1 = Some s2" "eflags_IF s2 \<longleftrightarrow> tf_eflags f AND FL_IF \<noteq> 0"
    "eflags_IF s2 \<longrightarrow> \<not> bit (pic1_mask s2) 0" "trapframes s2 = trapframes s" "cpu_proc s2 = Some e"
  proof (cases "tf_eflags f AND FL_IF \<noteq> 0")
    case True
    let ?s2 = "irq_clear_mask 0 ((refresh_intena (sti ?s1))\<lparr>pit_cnt0 := resume_count cnt\<rparr>)"
    have "enter_syscall cnt f ?s1 = Some ?s2" using True kclock_resume_eq [OF okst] by (simp add: enter_syscall_def)
    moreover have "\<not> bit (pic1_mask ?s2) 0" using s1(3) by (intro irq0_cleared) simp
    ultimately show ?thesis using True s1 that [of ?s2] by simp
  next
    case False
    then show ?thesis using s1 that [of ?s1] by (simp add: enter_syscall_def)
  qed
  have n: "\<not> (IRQ_OFFSET \<le> tf_trapno f \<and> tf_trapno f < IRQ_OFFSET + MAX_IRQS)" "tf_trapno f \<noteq> T_PGFLT"
    using f(2) by (simp_all add: fos_consts)
  have "\<exists>s'. trap v stack cnt cnt_end tf s = Some (Trap_returns, s') \<and>
         trapframes s' = (trapframes s3)(tf := (trapframes s3 tf)\<lparr>reg_eax := r\<rparr>) \<and> envs s' = envs s3 \<and> phys s' = phys s3 \<and>
         \<not> eflags_IF s' \<and> ncli s' = 0 \<and> \<not> bit (pic1_mask s') 0"
    if c: "syscall v (reg_eax f) (reg_edx f) (reg_ecx f) (reg_ebx f) (reg_edi f) (reg_esi f) s2 = Some (Ret r, s3)"
      "cpu_ok s3" "ncli s3 = 0" "didinit s3" for r s3
  proof -
    let ?s4 = "tf_upd tf (\<lambda>f. f\<lparr>reg_eax := r\<rparr>) s3"
    let ?s5 = "if eflags_IF ?s4 then kclock_stop (cli ?s4) else ?s4"
    have t4: "eflags_IF ?s4 = eflags_IF s3" "ncli ?s4 = 0" "didinit ?s4" "envs ?s4 = envs s3" "phys ?s4 = phys s3"
      using c by (simp_all add: tf_upd_def)
    have s5: "\<not> eflags_IF ?s5" "ncli ?s5 = 0" "didinit ?s5" "envs ?s5 = envs s3" "phys ?s5 = phys s3" "cpu_ok ?s5"
      "trapframes ?s5 = (trapframes s3)(tf := (trapframes s3 tf)\<lparr>reg_eax := r\<rparr>)"
      using t4 c by (simp_all add: k cli_def tf_upd_def cpu_ok_def)
    have "serve_syscall v cnt tf ?s1 = Some (Trap_returns, ?s5)"
      using s2(1) c(1) f(1) s1(6) by (simp add: serve_syscall_def Let_def)
    then have d: "trap_dispatch v stack cnt tf ?s1 = Some (Trap_returns, ?s5)"
      using n(2) f(1,2) s1(6) by (simp add: trap_dispatch_def Let_def)
    let ?s' = "irq_clear_mask 0 ((refresh_intena ?s5)\<lparr>pit_cnt0 := resume_count cnt_end\<rparr>)"
    have tf: "env_tf e ?s1 = tf" using assms(6) s1(7) by (simp add: env_tf_def)
    have "trap v stack cnt cnt_end tf s = Some (Trap_returns, ?s')"
      using d s1 assms(5) tf f(1,3) n(1) s5(1) kclock_resume_eq [OF s5(6)] by (simp only: trap_def Let_def) simp
    moreover have "\<not> bit (pic1_mask ?s') 0" using s5(3) by (intro irq0_cleared) simp
    ultimately show ?thesis using s5 by (intro exI [of _ ?s']) simp
  qed
  then show ?thesis using s2 by blast
qed

definition idle_da :: "'s dynalloc" where
  "idle_da = \<lparr>alloc_block = (\<lambda>n s. Some (0, s)), free_block = (\<lambda>a s. Some ((), s)), get_block_size = (\<lambda>a s. Some 0),
     realloc_block = (\<lambda>a n s. Some (0, s)), memcpy = (\<lambda>a b n s. Some s)\<rparr>"

definition sysenv_ex :: "'s sysenv" where
  "sysenv_ex = \<lparr>sys_da = idle_da, sys_ide = \<lparr>ide_read = (\<lambda>a b n s. Some (0, s)), ide_write = (\<lambda>a b n s. Some (0, s))\<rparr>, sys_progs = [],
     sys_elf = (\<lambda>_. \<lparr>e_magic = 0, e_entry = 0, e_phnum = 0, e_ph = (\<lambda>_. \<lparr>p_type = 0, p_offset = 0, p_va = 0, p_filesz = 0, p_memsz = 0\<rparr>)\<rparr>),
     sys_prefix = (\<lambda>_ _. []), sys_cr2 = 0, sys_tsc = (0, 0), sys_tests = (\<lambda>_ _ s. None)\<rparr>"

definition frame_ex :: Trapframe where
  "frame_ex = \<lparr>reg_edi = 0, reg_esi = 0, reg_ebx = 0, reg_edx = 0, reg_ecx = 0, reg_eax = SYS_getenvid, tf_trapno = T_SYSCALL, tf_ip = 0x800020,
     tf_cs = 0x1B, tf_eflags = FL_IF\<rparr>"

definition trap_ex :: trap_state where
  "trap_ex = kernel_state.extend
     (share_state.extend
       (share_ex\<lparr>didinit := True, eflags_IF := False,
          envs := (envs share_ex)(2 := (envs share_ex 2)\<lparr>env_id := 0x1002, env_status := ENV_RUNNING, kstack := 0xF8000000\<rparr>)\<rparr>)
       (kernel_state.fields cons_ex LCK_INT LCK_INT (\<lambda>_. frame_ex) 0 0 0 25))
     (trap_state.fields (\<lambda>_. None))"

lemma trap_ex_sel [simp]:
  "\<not> eflags_IF trap_ex" "ncli trap_ex = 0" "didinit trap_ex" "cpu_proc trap_ex = Some 2" "trapframes trap_ex = (\<lambda>_. frame_ex)"
  "envs trap_ex = (envs share_ex)(2 := (envs share_ex 2)\<lparr>env_id := 0x1002, env_status := ENV_RUNNING, kstack := 0xF8000000\<rparr>)"
  "phys trap_ex = phys share_ex" "free_frame_list trap_ex = [54, 55]" "use_kheap trap_ex" "number_of_frames trap_ex = 100"
  "frames_info trap_ex = frames_info share_ex" "klocks trap_ex = (\<lambda>_. free_lock)"
  by (simp_all add: trap_ex_def kernel_state.defs share_state.defs trap_state.defs)

lemma syscall_getenvid:
  assumes "cpu_proc s = Some e"
  shows "syscall v SYS_getenvid a1 a2 a3 a4 a5 s = Some (Ret (word_of_int (env_id (envs s e))), s)"
  using assms by (simp add: syscall_def sys_consts ret_int_def sys_getenvid_def)

theorem trap_syscall_correct_witness:
  "\<exists>s'. trap sysenv_ex 0 100 200 0xF8007FBC trap_ex = Some (Trap_returns, s') \<and> reg_eax (trapframes s' 0xF8007FBC) = 0x1002 \<and>
    \<not> eflags_IF s' \<and> \<not> bit (pic1_mask s') 0"
proof -
  have tf: "env_tf 2 trap_ex = 0xF8007FBC" by (simp add: env_tf_def KERNEL_STACK_SIZE_def)
  have u: "tf_trapno frame_ex = T_SYSCALL" "tf_cs frame_ex AND 3 = 3" "reg_eax frame_ex = SYS_getenvid" by (simp_all add: frame_ex_def)
  from trap_syscall_correct [of trap_ex 2 "0xF8007FBC" frame_ex 100 sysenv_ex 0 200] tf u obtain s2 where
    s2: "enter_syscall 100 frame_ex (kclock_stop trap_ex) = Some s2" "cpu_proc s2 = Some 2"
      "\<forall>r s3. syscall sysenv_ex (reg_eax frame_ex) (reg_edx frame_ex) (reg_ecx frame_ex) (reg_ebx frame_ex) (reg_edi frame_ex)
          (reg_esi frame_ex) s2 = Some (Ret r, s3) \<and> cpu_ok s3 \<and> ncli s3 = 0 \<and> didinit s3 \<longrightarrow>
        (\<exists>s'. trap sysenv_ex 0 100 200 0xF8007FBC trap_ex = Some (Trap_returns, s') \<and>
           trapframes s' = (trapframes s3)(0xF8007FBC := (trapframes s3 0xF8007FBC)\<lparr>reg_eax := r\<rparr>) \<and> envs s' = envs s3 \<and>
           phys s' = phys s3 \<and> \<not> eflags_IF s' \<and> ncli s' = 0 \<and> \<not> bit (pic1_mask s') 0)" by auto
  have okst: "cpu_ok (sti (kclock_stop trap_ex))" by (simp add: cpu_ok_def kclock_stop_def)
  have "s2 = irq_clear_mask 0 ((refresh_intena (sti (kclock_stop trap_ex)))\<lparr>pit_cnt0 := resume_count 100\<rparr>)"
    using s2(1) kclock_resume_eq [OF okst] by (simp add: enter_syscall_def frame_ex_def FL_IF_def)
  then have f: "cpu_ok s2" "ncli s2 = 0" "didinit s2" "envs s2 = envs trap_ex"
    by (simp_all add: cpu_ok_def kclock_stop_def)
  have "syscall sysenv_ex (reg_eax frame_ex) (reg_edx frame_ex) (reg_ecx frame_ex) (reg_ebx frame_ex) (reg_edi frame_ex)
      (reg_esi frame_ex) s2 = Some (Ret 0x1002, s2)" using syscall_getenvid [OF s2(2)] f(4) u(3) by simp
  then show ?thesis using s2(3) f(1-3) by fastforce
qed

text \<open>
  Numbers without a call.  Every number from \<open>SYS_env_set_priority\<close> on has no case in the dispatcher and leaves the state
  alone, but what it returns is not an error: \<open>E_INVAL\<close> is already negative, so its negation is 3, and a caller
  that tests for a negative result takes it for success.
\<close>

theorem syscall_unknown_number:
  assumes "cpu_proc s = Some e" "SYS_env_set_priority \<le> n"
  shows "syscall v n a1 a2 a3 a4 a5 s = Some (Ret 3, s) \<and> \<not> sint (3 :: u32) < 0"
proof -
  have "\<not> n < 46" using assms(2) by (simp add: SYS_env_set_priority_def not_less)
  then have "n \<noteq> w" if "w < 46" for w using that by auto
  then show ?thesis using assms(1) by (simp add: syscall_def sys_consts fos_consts)
qed

theorem syscall_unknown_number_witness:
  "syscall sysenv_ex SYS_env_set_priority 5 1 0 0 0 trap_ex = Some (Ret 3, trap_ex) \<and> syscall sysenv_ex 0xFFFFFFFF 0 0 0 0 0 trap_ex = Some (Ret 3, trap_ex)"
  using syscall_unknown_number [of trap_ex 2 SYS_env_set_priority sysenv_ex 5 1 0 0 0]
    syscall_unknown_number [of trap_ex 2 "0xFFFFFFFF" sysenv_ex 0 0 0 0 0] by (simp add: SYS_env_set_priority_def)

section \<open>Mapping and unmapping a page\<close>

lemma valid_perm:
  assumes "perm AND (NOT PERM_AVAILABLE AND NOT PERM_WRITEABLE) = PERM_USER" "\<not> bit perm 9"
  shows "user_perm perm"
proof -
  have "perm AND NOT 0xFFF = (perm AND (NOT PERM_AVAILABLE AND NOT PERM_WRITEABLE)) AND NOT 0xFFF"
    by (simp add: and.assoc fos_consts)
  then have "perm AND NOT 0xFFF = PERM_USER AND NOT 0xFFF" by (simp only: assms(1))
  then have "perm AND NOT 0xFFF = 0" by (simp add: fos_consts)
  then show ?thesis using assms(2) by (simp add: user_perm_def EXTRACT_ADDRESS_literal)
qed

lemma clear_frame_refs:
  assumes "refs_ok T U s" "f \<in> U"
  shows "refs_ok T U (clear_frame f s)"
proof -
  have "\<forall>t \<in> T. t \<noteq> f" using assms by (auto simp: refs_ok_def)
  then have p: "\<forall>t \<in> T. phys (clear_frame f s) t = phys s t" by (simp add: clear_frame_def)
  then have "mappings T g (clear_frame f s) = mappings T g s" for g by (auto simp: mappings_def)
  then show ?thesis using assms(1) p by (simp add: refs_ok_def clear_frame_def)
qed

lemma alloc_page_new:
  assumes ok: "cpu_ok s" "locks_ok s" "refs_ok T U s"
    and sl: "page_slot dir va s = Some (t, j)" "t \<in> T" "dir \<notin> U" "\<not> bit (phys s t j) 0"
    and f: "free_frame_list s = f # rest" "f \<in> U" "f < 2 ^ 20" and p: "user_perm perm" "perm AND PERM_WRITEABLE \<noteq> 0"
  shows "\<exists>s'. alloc_page dir va perm True s = Some (0, s') \<and> refs_ok T U s' \<and> maps (phys s' t j) f \<and> phys s' f = (\<lambda>_. 0) \<and>
    (\<forall>t' i. (t', i) \<noteq> (t, j) \<and> t' \<noteq> f \<longrightarrow> phys s' t' i = phys s t' i) \<and> references (frames_info s' f) = 1 \<and>
    (\<forall>g. g \<noteq> f \<longrightarrow> frames_info s' g = frames_info s g) \<and> free_frame_list s' = rest \<and> cpu_same s s' \<and> mem_static s s'"
proof -
  from page_slotD [OF sl(1)] have g: "get_page_table dir va s = Some (TABLE_IN_MEMORY, Some t)" and j: "j = PTX va" by auto
  have pte: "pte_ok (phys s t (PTX va))" using ok(3) sl(2) PTX_less by (simp add: refs_ok_def)
  have gfi: "get_frame_info dir va s = Some (None, Some t)" using get_frame_info_pte [OF g pte] sl(4) j by simp
  from allocate_frame_Cons [OF ok(1,2) f(1)] obtain s1 where
    s1: "allocate_frame s = Some (f, s1)" "cpu_same s s1" "mem_static s s1" "free_frame_list s1 = rest"
      "frames_info s1 = (frames_info s)(f := null_frame_info)" "phys s1 = phys s" by auto
  have nf: "number_of_frames s1 = number_of_frames s" "use_kheap s1 = use_kheap s" using s1(3) by (auto simp: mem_static_def)
  note r1 = refs_ok_allocate [OF ok(3) f(1,2) s1(4-6) nf(1)]
  have tf: "t \<noteq> f" using ok(3) sl(2) f(2) by (auto simp: refs_ok_def)
  have sl1: "page_slot dir va s1 = Some (t, j)"
    by (rule page_slot_cong [OF sl(1)]) (use s1(5,6) nf tf in simp_all)
  have b: "\<not> bit (phys s1 t j) 0" "references (frames_info s1 f) \<noteq> 0xFFFF" using sl(4) s1(6) r1(3) by simp_all
  from map_page_new [OF r1(1) sl1 sl(2) b(1) f(2) r1(2) b(2) f(3) p(1)] obtain s2 where
    s2: "map_frame dir f va perm s1 = Some (0, s2)" "refs_ok T U s2" "maps (phys s2 t j) f" "only_at {(t, j)} {f} s1 s2"
      "references (frames_info s2 f) = references (frames_info s1 f) + 1" "free_frame_list s2 = free_frame_list s1" "mem_static s1 s2"
    by auto
  let ?s' = "clear_frame f s2"
  have "alloc_page dir va perm True s = Some (0, ?s')"
    using gfi s1(1) s2(1) p(2) by (simp add: alloc_page_def alloc_page_gen_def map_frame_def E_NO_MEM_def)
  moreover have "\<forall>t' i. (t', i) \<noteq> (t, j) \<and> t' \<noteq> f \<longrightarrow> phys ?s' t' i = phys s t' i"
    using s2(4) s1(6) by (auto simp: only_at_def clear_frame_def)
  moreover have "cpu_same s ?s'" "mem_static s ?s'"
    using cpu_same_trans [OF s1(2), of s2] mem_static_trans [OF s1(3) s2(7)] s2(4)
    by (simp_all add: only_at_def clear_frame_def cpu_same_def mem_static_def)
  moreover have "\<forall>g. g \<noteq> f \<longrightarrow> frames_info ?s' g = frames_info s g"
    using s2(4) s1(5) by (simp add: only_at_def clear_frame_def)
  ultimately show ?thesis
    using clear_frame_refs [OF s2(2) f(2)] s2(3,5,6) s1(4) r1(3) tf by (intro exI [of _ ?s']) (auto simp: clear_frame_def)
qed

text \<open>
  A page asked for without \<open>PERM_WRITEABLE\<close> panics: \<open>alloc_page\<close> maps it and then clears it through the address, and the
  kernel's write to a read-only page faults.
\<close>

lemma map_frame_gen_ret: "map_frame_gen cpt dir f va perm s = Some (ret, s') \<Longrightarrow> ret = 0"
  by (auto simp: map_frame_gen_def Let_def bind_eq_Some_conv split: if_splits)

lemma sys_allocate_page_read_only:
  assumes "cpu_proc s = Some e" "env_dir e s = Some dir" "va < USER_TOP" "va mod PAGE_SIZE = 0"
    "perm AND (NOT PERM_AVAILABLE AND NOT PERM_WRITEABLE) = PERM_USER" "perm AND PERM_WRITEABLE = 0"
    "get_frame_info dir va s = Some (None, tbl)"
  shows "sys_allocate_page va perm s = None"
proof -
  have "alloc_page dir va perm True s = None"
  proof (cases "allocate_frame s")
    case None
    then show ?thesis using assms(7) by (simp add: alloc_page_def alloc_page_gen_def)
  next
    case (Some p)
    then show ?thesis
      using assms(6,7) map_frame_gen_ret [of create_page_table dir "fst p" va perm "snd p"]
      by (cases p; cases "map_frame_gen create_page_table dir (fst p) va perm (snd p)") (auto simp: alloc_page_def alloc_page_gen_def map_frame_def E_NO_MEM_def)
  qed
  then show ?thesis using assms(1-5) by (simp add: sys_allocate_page_def fos_consts not_le)
qed

text \<open>
  C23: a page that a process maps and unmaps again.  For an aligned address below \<open>USER_TOP\<close> whose table is in memory and that
  has no page, and valid permissions with \<open>PERM_WRITEABLE\<close> and without the available bit that \<open>PERM_BUFFERED\<close> uses,
  \<open>sys_allocate_page\<close> maps the first free frame, filled with zeros, and changes no other page; unmapping the address
  returns the frame to the head of the free list, and the reference counts are in order at both points.  Without
  \<open>PERM_WRITEABLE\<close> it panics (\<open>sys_allocate_page_read_only\<close>).
\<close>

theorem sys_page_roundtrip:
  fixes s :: "'z kernel_state_scheme"
  assumes ok: "cpu_ok s" "locks_ok s" "refs_ok T U s"
    and e: "cpu_proc s = Some e" "env_page_directory (envs s e) = Some dir" "dir \<notin> U" "dir \<notin> T"
    and va: "va < USER_TOP" "va mod PAGE_SIZE = 0"
    and perm: "perm AND (NOT PERM_AVAILABLE AND NOT PERM_WRITEABLE) = PERM_USER" "\<not> bit perm 9" "perm AND PERM_WRITEABLE \<noteq> 0"
    and sl: "page_slot dir va s = Some (t, j)" "t \<in> T" "\<not> bit (phys s t j) 0"
    and f: "free_frame_list s = f # rest" "f \<in> U" "f < 2 ^ 20"
  shows "\<exists>s1 s2. sys_allocate_page va perm s = Some (0, s1) \<and> maps (phys s1 t j) f \<and> phys s1 f = (\<lambda>_. 0) \<and> free_frame_list s1 = rest \<and>
    refs_ok T U s1 \<and> (\<forall>t' i. (t', i) \<noteq> (t, j) \<and> t' \<noteq> f \<longrightarrow> phys s1 t' i = phys s t' i) \<and>
    sys_unmap_frame va s1 = Some (0, s2) \<and> \<not> bit (phys s2 t j) 0 \<and> free_frame_list s2 = f # rest \<and> refs_ok T U s2"
proof -
  from alloc_page_new [OF ok sl(1,2) e(3) sl(3) f valid_perm [OF perm(1,2)] perm(3)] obtain s1 where
    s1: "alloc_page dir va perm True s = Some (0, s1)" "refs_ok T U s1" "maps (phys s1 t j) f" "phys s1 f = (\<lambda>_. 0)"
      "\<forall>t' i. (t', i) \<noteq> (t, j) \<and> t' \<noteq> f \<longrightarrow> phys s1 t' i = phys s t' i" "references (frames_info s1 f) = 1"
      "\<forall>g. g \<noteq> f \<longrightarrow> frames_info s1 g = frames_info s g" "free_frame_list s1 = rest" "cpu_same s s1" "mem_static s s1" by auto
  have d: "env_dir e s = Some dir" "env_dir e s1 = Some dir" using e(2) s1(9) by (simp_all add: env_dir_def cpu_same_def)
  have al: "sys_allocate_page va perm s = Some (0, s1)"
    using e(1) d(1) va perm(1) s1(1) by (simp add: sys_allocate_page_def fos_consts not_le)
  have ok1: "cpu_ok s1" "locks_ok s1" using ok(1,2) s1(9) by (simp_all add: cpu_same_def cpu_ok_def locks_ok_def)
  have tf: "t \<noteq> f" "dir \<noteq> f" "dir \<noteq> t" using ok(3) sl(2) f(2) e(3,4) by (auto simp: refs_ok_def)
  have "page_slot dir va s1 = Some (t, j)"
  proof (rule page_slot_cong [OF sl(1)])
    show "phys s1 dir = phys s dir" using s1(5) tf by auto
  qed (use s1(7,10) tf in \<open>auto simp: mem_static_def\<close>)
  then have g: "get_page_table dir va s1 = Some (TABLE_IN_MEMORY, Some t)" "j = PTX va" using page_slotD by blast+
  have b: "bit (phys s1 t (PTX va)) 0" "unat (PPN (phys s1 t (PTX va))) = f" using s1(3) g(2) by (auto simp: maps_iff)
  from unmap_frame_present [OF ok1 s1(2) g(1) sl(2) b(1)] obtain s2 where
    s2: "unmap_frame dir va s1 = Some ((), s2)" "refs_ok T U s2"
      "phys s2 = (phys s1)(t := (phys s1 t)(PTX va := phys s1 t (PTX va) AND PERM_AVAILABLE))" "free_frame_list s2 = f # rest"
    using b(2) s1(6,8) by auto
  have "sys_unmap_frame va s1 = Some (0, s2)"
    using e(1) d(2) va s1(9) s2(1) by (simp add: sys_unmap_frame_def cpu_same_def fos_consts not_le)
  moreover have "\<not> bit (phys s2 t j) 0" by (simp add: s2(3) g(2) PERM_AVAILABLE_def bit_simps)
  ultimately show ?thesis using al s1 s2 by blast
qed

lemma trap_ex_mem:
  "cpu_ok trap_ex" "locks_ok trap_ex" "refs_ok {51, 71} {54, 55} trap_ex" "page_slot 50 0x1000 trap_ex = Some (51, 1)"
proof -
  show "cpu_ok trap_ex" "locks_ok trap_ex" by (simp_all add: cpu_ok_def locks_ok_def free_lock_def)
  have "mappings {51, 71} f trap_ex = mappings {51, 71} f share_ex" for f by (simp add: mappings_def)
  then show "refs_ok {51, 71} {54, 55} trap_ex" using share_ex_ok(2) by (simp add: refs_ok_def)
  show "page_slot 50 0x1000 trap_ex = Some (51, 1)" by (rule page_slot_cong [OF share_ex_slot(1)]) simp_all
qed

theorem sys_page_roundtrip_witness:
  "\<exists>s1 s2. sys_allocate_page 0x1000 (PERM_USER OR PERM_WRITEABLE) trap_ex = Some (0, s1) \<and> maps (phys s1 51 1) 54 \<and> phys s1 54 = (\<lambda>_. 0) \<and>
    free_frame_list s1 = [55] \<and> sys_unmap_frame 0x1000 s1 = Some (0, s2) \<and> \<not> bit (phys s2 51 1) 0 \<and> free_frame_list s2 = [54, 55]"
proof -
  have "env_page_directory (envs trap_ex 2) = Some 50" "50 \<notin> {54, 55 :: frame}" "50 \<notin> {51, 71 :: frame}" by simp_all
  note e = this
  have va: "(0x1000 :: u32) < USER_TOP" "(0x1000 :: u32) mod PAGE_SIZE = 0" by (simp_all add: fos_consts)
  have perm: "(PERM_USER OR PERM_WRITEABLE) AND (NOT PERM_AVAILABLE AND NOT PERM_WRITEABLE) = PERM_USER"
    "\<not> bit (PERM_USER OR PERM_WRITEABLE) 9" "(PERM_USER OR PERM_WRITEABLE) AND PERM_WRITEABLE \<noteq> 0" by (simp_all add: fos_consts)
  have fr: "(51 :: frame) \<in> {51, 71}" "\<not> bit (phys trap_ex 51 1) 0" "free_frame_list trap_ex = 54 # [55]" "(54 :: frame) \<in> {54, 55}"
    "(54 :: frame) < 2 ^ 20" by simp_all
  show ?thesis
    using sys_page_roundtrip [OF trap_ex_mem(1-3) trap_ex_sel(4) e va perm trap_ex_mem(4) fr] by blast
qed

end
