(* ===== verification/FOS_BootThms.thy ===== *)
theory FOS_BootThms
  imports FOS_Boot FOS_TrapThms
begin

unbundle bit_operations_syntax

text \<open>
  The kernel's address space at boot.  \<open>boot_ok\<close> is the invariant of the tables built by \<open>boot_get_page_table\<close>: they are below
  \<open>ptr_free_mem\<close>, different from each other and from the directory.  \<open>bentry\<close> is the abstract view of the tables, a map from
  pages to entries, and \<open>boot_map_range\<close> refines the update of this map.  At the end \<open>initialize_kernel_VM\<close> passes its own
  check and the kernel, its stack and the table of processes are mapped.
\<close>

section \<open>Bytes and addresses\<close>

definition up :: "nat \<Rightarrow> nat" where
  "up n = (n + 4095) div 4096 * 4096"

lemma up_bounds: "n \<le> up n" "up n < n + 4096" "4096 dvd up n"
proof -
  have "up n = n + 4095 - (n + 4095) mod 4096" by (simp add: up_def minus_mod_eq_div_mult)
  moreover have "(n + 4095) mod 4096 < 4096" by simp
  ultimately show "n \<le> up n" "up n < n + 4096" by linarith+
qed (simp add: up_def)

lemma up_id: "4096 dvd n \<Longrightarrow> up n = n"
  unfolding up_def by (elim dvdE) simp

lemma page_below: "4096 dvd n \<Longrightarrow> n < 2 ^ 32 \<Longrightarrow> n + 4096 \<le> (2 ^ 32 :: nat)"
  by (elim dvdE) simp

lemma all_bytes: "x AND (0xFFFFFFFF :: u32) = x"
proof -
  have "(0xFFFFFFFF :: u32) = - 1" by simp
  then show ?thesis by (simp only: and.right_neutral)
qed

lemma zero_phys_sel [simp]:
  "ptr_page_directory (zero_phys pa n s) = ptr_page_directory s" "number_of_frames (zero_phys pa n s) = number_of_frames s"
  by (simp_all add: zero_phys_def)

lemma write_phys_boot_sel [simp]: "ptr_free_mem (write_phys f i v s) = ptr_free_mem s"
  by (simp add: write_phys_def)

lemma zero_phys_out:
  assumes "4096 * f + 4096 \<le> unat pa \<or> unat pa + unat n \<le> 4096 * f"
  shows "phys (zero_phys pa n s) f i = phys s f i"
proof (cases "i < 1024")
  case True
  then have "unat i < 1024" by (simp add: word_less_nat_alt)
  then have "kept_byte pa n (4096 * f + 4 * unat i) b = push_bit (8 * b) 0xFF" if "b < 4" for b
    using assms that unfolding kept_byte_def by auto
  from this [of 0] this [of 1] this [of 2] this [of 3] show ?thesis by (simp add: zero_phys_def Let_def all_bytes)
qed (simp add: zero_phys_def)

lemma zero_phys_in:
  assumes "unat pa \<le> 4096 * f" "4096 * f + 4096 \<le> unat pa + unat n" "i < 1024"
  shows "phys (zero_phys pa n s) f i = 0"
proof -
  have "unat i < 1024" using assms(3) by (simp add: word_less_nat_alt)
  then have "kept_byte pa n (4096 * f + 4 * unat i) b = 0" if "b < 4" for b
    using assms that unfolding kept_byte_def by auto
  from this [of 0] this [of 1] this [of 2] this [of 3] show ?thesis using assms(3) by (simp add: zero_phys_def Let_def)
qed

lemma unat_ROUNDUP_page:
  assumes "unat p + 4096 \<le> 2 ^ 32"
  shows "unat (ROUNDUP p PAGE_SIZE) = up (unat p)"
  using unat_ROUNDUP [of PAGE_SIZE p] assms by (simp add: PAGE_SIZE_def up_def)

lemma boot_allocate:
  fixes s :: "'z boot_state_scheme"
  assumes p: "p = unat (if ptr_free_mem s = 0 then end_of_kernel L else ptr_free_mem s)" "0xF0000000 \<le> p"
    and room: "up p + unat n < 2 ^ 32"
  shows "\<exists>a pa. boot_allocate_space L n PAGE_SIZE s = (a, zero_phys pa n (s\<lparr>ptr_free_mem := a + n\<rparr>)) \<and>
    unat a = up p \<and> unat pa = up p - 0xF0000000 \<and> unat (a + n) = up p + unat n \<and> a - KERNEL_BASE = pa \<and> KERNEL_BASE \<le> a"
proof -
  let ?p = "if ptr_free_mem s = 0 then end_of_kernel L else ptr_free_mem s"
  let ?a = "ROUNDUP ?p PAGE_SIZE"
  have "unat ?p + 4096 \<le> 2 ^ 32" using page_below [OF up_bounds(3) [of p]] room up_bounds(1) [of p] unfolding p(1) by linarith
  then have a: "unat ?a = up p" using unat_ROUNDUP_page p(1) by simp
  then have k: "KERNEL_BASE \<le> ?a" using p(2) up_bounds(1) [of p] by (simp add: word_le_nat_alt KERNEL_BASE_def)
  then have "unat (?a - KERNEL_BASE) = up p - 0xF0000000" using a by (simp add: unat_sub KERNEL_BASE_def)
  moreover have "unat (?a + n) = up p + unat n" using a room by (simp add: unat_add_lem [THEN iffD1])
  ultimately show ?thesis using a k by (auto simp: boot_allocate_space_def Let_def)
qed

section \<open>The tables built at boot\<close>

text \<open>
  The directory entries 0x3BD and 0x3BF list the directory itself; all others are 0 or point to a table.
\<close>

definition boot_used :: "frame \<Rightarrow> 'z mem_state_scheme \<Rightarrow> u32 set" where
  "boot_used d s = {i. i < 1024 \<and> i \<noteq> 0x3BD \<and> i \<noteq> 0x3BF \<and> phys s d i \<noteq> 0}"

definition btable :: "frame \<Rightarrow> 'z mem_state_scheme \<Rightarrow> u32 \<Rightarrow> frame" where
  "btable d s i = unat (PPN (phys s d i))"

definition btop :: "'z boot_state_scheme \<Rightarrow> nat" where
  "btop s = unat (ptr_free_mem s) - 0xF0000000"

definition below_top :: "frame \<Rightarrow> 'z boot_state_scheme \<Rightarrow> bool" where
  "below_top f s \<longleftrightarrow> 4096 * f + 4096 \<le> btop s"

definition boot_ok :: "frame \<Rightarrow> 'z boot_state_scheme \<Rightarrow> bool" where
  "boot_ok d s \<longleftrightarrow> 0xF0000000 < unat (ptr_free_mem s) \<and> btop s \<le> 4096 * unat (number_of_frames s) \<and> below_top d s \<and>
     inj_on (btable d s) (boot_used d s) \<and>
     (\<forall>i \<in> boot_used d s. bit (phys s d i) 0 \<and> 0 < btable d s i \<and> btable d s i \<noteq> d \<and> below_top (btable d s i) s)"

definition bentry :: "frame \<Rightarrow> u32 \<Rightarrow> 'z mem_state_scheme \<Rightarrow> u32" where
  "bentry d va s = (if phys s d (PDX va) = 0 then 0 else phys s (btable d s (PDX va)) (PTX va))"

definition in_tables :: "u32 \<Rightarrow> bool" where
  "in_tables va \<longleftrightarrow> PDX va \<noteq> 0x3BD \<and> PDX va \<noteq> 0x3BF"

lemma boot_okD:
  assumes "boot_ok d s"
  shows "0xF0000000 < unat (ptr_free_mem s)" "btop s \<le> 4096 * unat (number_of_frames s)" "below_top d s" "inj_on (btable d s) (boot_used d s)"
    and "i \<in> boot_used d s \<Longrightarrow> bit (phys s d i) 0" "i \<in> boot_used d s \<Longrightarrow> 0 < btable d s i" "i \<in> boot_used d s \<Longrightarrow> btable d s i \<noteq> d"
    and "i \<in> boot_used d s \<Longrightarrow> below_top (btable d s i) s"
  using assms by (auto simp: boot_ok_def)

lemma usedI: "in_tables va \<Longrightarrow> phys s d (PDX va) \<noteq> 0 \<Longrightarrow> PDX va \<in> boot_used d s"
  by (simp add: boot_used_def in_tables_def PDX_less)

lemma PPN_in_range:
  assumes "below_top f s" "btop s \<le> 4096 * unat (number_of_frames s)" "unat (PPN e) = f"
  shows "\<not> number_of_frames s \<le> PPN e"
  using assms by (simp add: below_top_def word_le_nat_alt)

lemma EXTRACT_zero_PPN: "EXTRACT_ADDRESS e = 0 \<longleftrightarrow> PPN e = 0"
  using EXTRACT_ADDRESS_eq_iff [of e 0] by (simp add: EXTRACT_ADDRESS_def PPN_def)

text \<open>A table that exists is returned without a change.\<close>

lemma boot_get_existing:
  assumes "boot_ok d s" "in_tables va" "phys s d (PDX va) \<noteq> 0"
  shows "boot_get_page_table L d va True s = Some (Some (btable d s (PDX va)), s)"
proof -
  note D = boot_okD [OF assms(1)] and u = usedI [OF assms(2,3)]
  have "PPN (phys s d (PDX va)) \<noteq> 0" using D(6) [OF u] by (auto simp: btable_def)
  moreover have "\<not> number_of_frames s \<le> PPN (phys s d (PDX va))" by (rule PPN_in_range [OF D(8) [OF u] D(2)]) (simp add: btable_def)
  ultimately show ?thesis
    by (simp add: boot_get_page_table_def STATIC_KERNEL_VIRTUAL_ADDRESS_def Let_def EXTRACT_zero_PPN btable_def)
qed

text \<open>What the memory below \<open>ptr_free_mem\<close> keeps, the tables keep.\<close>

definition same_below :: "'z boot_state_scheme \<Rightarrow> 'z boot_state_scheme \<Rightarrow> bool" where
  "same_below s s' \<longleftrightarrow> (\<forall>f. below_top f s \<longrightarrow> phys s' f = phys s f) \<and> unat (ptr_free_mem s) \<le> unat (ptr_free_mem s') \<and>
     btop s' \<le> 4096 * unat (number_of_frames s')"

lemma same_below_keeps:
  assumes "boot_ok d s" "same_below s s'"
  shows "boot_ok d s'" "in_tables v \<Longrightarrow> bentry d v s' = bentry d v s" "phys s' d = phys s d"
proof -
  note D = boot_okD [OF assms(1)]
  have ph: "phys s' f = phys s f" if "below_top f s" for f using assms(2) that by (simp add: same_below_def)
  have top: "btop s \<le> btop s'" using assms(2) by (simp add: same_below_def btop_def diff_le_mono)
  then have b: "below_top f s \<Longrightarrow> below_top f s'" for f by (simp add: below_top_def)
  show d: "phys s' d = phys s d" by (rule ph [OF D(3)])
  then have e: "boot_used d s' = boot_used d s" "btable d s' = btable d s" by (simp_all add: boot_used_def btable_def fun_eq_iff)
  show "boot_ok d s'"
    unfolding boot_ok_def e using D assms(2) b d by (auto simp: same_below_def)
  assume v: "in_tables v"
  show "bentry d v s' = bentry d v s"
    using ph [OF D(8) [OF usedI [OF v]]] by (simp add: bentry_def d e)
qed

lemma boot_allocate_keeps:
  fixes s :: "'z boot_state_scheme"
  assumes "boot_ok d s" "up (unat (ptr_free_mem s)) + unat n < 2 ^ 32"
    and "up (unat (ptr_free_mem s)) + unat n \<le> 0xF0000000 + 4096 * unat (number_of_frames s)"
  shows "\<exists>a pa. boot_allocate_space L n PAGE_SIZE s = (a, zero_phys pa n (s\<lparr>ptr_free_mem := a + n\<rparr>)) \<and>
    unat pa = up (unat (ptr_free_mem s)) - 0xF0000000 \<and> unat (a + n) = up (unat (ptr_free_mem s)) + unat n \<and>
    a - KERNEL_BASE = pa \<and> KERNEL_BASE \<le> a \<and> same_below s (zero_phys pa n (s\<lparr>ptr_free_mem := a + n\<rparr>)) \<and> btop s \<le> unat pa"
proof -
  note D = boot_okD [OF assms(1)]
  have z: "ptr_free_mem s \<noteq> 0" using D(1) by auto
  have p: "unat (ptr_free_mem s) = unat (if ptr_free_mem s = 0 then end_of_kernel L else ptr_free_mem s)" using z by simp
  from boot_allocate [OF p _ assms(2)] D(1) obtain a pa where
    a: "boot_allocate_space L n PAGE_SIZE s = (a, zero_phys pa n (s\<lparr>ptr_free_mem := a + n\<rparr>))"
      "unat a = up (unat (ptr_free_mem s))" "unat pa = up (unat (ptr_free_mem s)) - 0xF0000000"
      "unat (a + n) = up (unat (ptr_free_mem s)) + unat n" "a - KERNEL_BASE = pa" "KERNEL_BASE \<le> a" by auto
  let ?s' = "zero_phys pa n (s\<lparr>ptr_free_mem := a + n\<rparr>)"
  have pt: "ptr_free_mem ?s' = a + n" by (simp add: zero_phys_def)
  have le: "btop s \<le> unat pa" using a(3) up_bounds(1) by (simp add: btop_def diff_le_mono)
  have "phys ?s' f = phys s f" if "below_top f s" for f
    using zero_phys_out [of f pa n "s\<lparr>ptr_free_mem := a + n\<rparr>"] that le by (intro ext) (simp add: below_top_def)
  moreover have "unat (ptr_free_mem s) \<le> unat (ptr_free_mem ?s')"
    using a(4) up_bounds(1) [of "unat (ptr_free_mem s)"] by (simp add: pt)
  moreover have "btop ?s' \<le> 4096 * unat (number_of_frames ?s')" using a(4) assms(3) by (simp add: btop_def pt)
  ultimately have "same_below s ?s'" by (simp add: same_below_def)
  then show ?thesis using a le by blast
qed

text \<open>A new entry of the directory for a table of zeros.\<close>

lemma install_table:
  assumes ok: "boot_ok d s" and i: "i < 1024" "i \<noteq> 0x3BD" "i \<noteq> 0x3BF" "phys s d i = 0"
    and v: "bit v 0" "unat (PPN v) = t" "0 < t" "t \<noteq> d" "below_top t s" "t \<notin> btable d s ` boot_used d s" "\<forall>j < 1024. phys s t j = 0"
  shows "boot_ok d (write_phys d i v s)" "in_tables w \<Longrightarrow> bentry d w (write_phys d i v s) = bentry d w s"
proof -
  let ?s = "write_phys d i v s"
  note D = boot_okD [OF ok]
  have "v \<noteq> 0" using v(1) by auto
  then have u: "boot_used d ?s = insert i (boot_used d s)" using i by (auto simp: boot_used_def)
  have ni: "i \<notin> boot_used d s" using i(4) by (simp add: boot_used_def)
  have bt: "btable d ?s j = (if j = i then t else btable d s j)" for j using v(2) by (simp add: btable_def)
  have top: "below_top f ?s = below_top f s" "btop ?s = btop s" "ptr_free_mem ?s = ptr_free_mem s" for f
    by (simp_all add: below_top_def btop_def write_phys_def)
  have "inj_on (btable d ?s) (boot_used d ?s)"
    unfolding u using D(4) v(6) ni by (auto simp: inj_on_def bt image_iff)
  then show "boot_ok d ?s"
    using D v by (auto simp: boot_ok_def u bt top)
  assume w: "in_tables w"
  show "bentry d w ?s = bentry d w s"
  proof (cases "PDX w = i")
    case True
    then show ?thesis using i(4) v \<open>v \<noteq> 0\<close> by (simp add: bentry_def btable_def PTX_less)
  next
    case False
    then show ?thesis using D(7) [OF usedI [OF w]] by (auto simp: bentry_def bt)
  qed
qed

definition boot_step :: "'z boot_state_scheme \<Rightarrow> 'z boot_state_scheme \<Rightarrow> bool" where
  "boot_step s s' \<longleftrightarrow> number_of_frames s' = number_of_frames s \<and> use_kheap s' = use_kheap s \<and> ptr_page_directory s' = ptr_page_directory s \<and>
     eflags_IF s' = eflags_IF s \<and> ncli s' = ncli s \<and> intena s' = intena s \<and> cpu_proc s' = cpu_proc s \<and> envs_at s' = envs_at s \<and> cr0 s' = cr0 s"

lemma boot_step_refl: "boot_step s s"
  by (simp add: boot_step_def)

lemma boot_step_trans: "boot_step s1 s2 \<Longrightarrow> boot_step s2 s3 \<Longrightarrow> boot_step s1 s3"
  by (simp add: boot_step_def)

lemma boot_step_write: "boot_step s (write_phys f i v s)"
  by (simp add: boot_step_def write_phys_def)

lemma boot_step_zero: "boot_step s (zero_phys pa n (s\<lparr>ptr_free_mem := p\<rparr>))"
  by (simp add: boot_step_def zero_phys_def)

lemma PPN_OR: "PPN perm = 0 \<Longrightarrow> PPN (a OR perm) = PPN a"
  unfolding PPN_def by (simp add: drop_bit_or)

lemma table_entry:
  assumes "4096 dvd unat pa"
  shows "bit (CONSTRUCT_ENTRY pa (PERM_PRESENT OR PERM_WRITEABLE)) 0" "unat (PPN (CONSTRUCT_ENTRY pa (PERM_PRESENT OR PERM_WRITEABLE))) = unat pa div 4096"
    "unat (PPN pa) = unat pa div 4096"
proof -
  show p: "unat (PPN pa) = unat pa div 4096" by (simp only: PPN_def unat_drop_bit_eq) (simp add: drop_bit_eq_div)
  have "PPN (PERM_PRESENT OR PERM_WRITEABLE) = 0" by (simp add: PPN_def PERM_PRESENT_def PERM_WRITEABLE_def)
  then show "unat (PPN (CONSTRUCT_ENTRY pa (PERM_PRESENT OR PERM_WRITEABLE))) = unat pa div 4096"
    using PPN_OR p by (simp add: CONSTRUCT_ENTRY_def)
  show "bit (CONSTRUCT_ENTRY pa (PERM_PRESENT OR PERM_WRITEABLE)) 0"
    by (simp add: CONSTRUCT_ENTRY_def PERM_PRESENT_def PERM_WRITEABLE_def bit_simps)
qed

lemma boot_get_new:
  assumes ok: "boot_ok d s" and v: "in_tables va" "phys s d (PDX va) = 0"
    and room: "up (unat (ptr_free_mem s)) + 4096 < 2 ^ 32"
      "up (unat (ptr_free_mem s)) + 4096 \<le> 0xF0000000 + 4096 * unat (number_of_frames s)"
  shows "\<exists>t s'. boot_get_page_table L d va True s = Some (Some t, s') \<and> boot_ok d s' \<and> boot_step s s' \<and> phys s' d (PDX va) \<noteq> 0 \<and>
    btable d s' (PDX va) = t \<and> (\<forall>i. i \<noteq> PDX va \<longrightarrow> phys s' d i = phys s d i) \<and> (\<forall>w. in_tables w \<longrightarrow> bentry d w s' = bentry d w s) \<and>
    unat (ptr_free_mem s') = up (unat (ptr_free_mem s)) + 4096"
proof -
  note D = boot_okD [OF ok]
  let ?p = "unat (ptr_free_mem s)"
  have ps: "unat PAGE_SIZE = 4096" by (simp add: PAGE_SIZE_def)
  from boot_allocate_keeps [OF ok, of PAGE_SIZE L] room ps obtain a pa where
    a: "boot_allocate_space L PAGE_SIZE PAGE_SIZE s = (a, zero_phys pa PAGE_SIZE (s\<lparr>ptr_free_mem := a + PAGE_SIZE\<rparr>))"
      "unat pa = up ?p - 0xF0000000" "unat (a + PAGE_SIZE) = up ?p + 4096" "a - KERNEL_BASE = pa" "KERNEL_BASE \<le> a"
      "same_below s (zero_phys pa PAGE_SIZE (s\<lparr>ptr_free_mem := a + PAGE_SIZE\<rparr>))" "btop s \<le> unat pa" by auto
  let ?s1 = "zero_phys pa PAGE_SIZE (s\<lparr>ptr_free_mem := a + PAGE_SIZE\<rparr>)"
  let ?e = "CONSTRUCT_ENTRY pa (PERM_PRESENT OR PERM_WRITEABLE)"
  let ?t = "unat pa div 4096"
  have pt: "ptr_free_mem ?s1 = a + PAGE_SIZE" by (simp add: zero_phys_def)
  have dv: "4096 dvd unat pa" using up_bounds(3) [of ?p] unfolding a(2) by (intro dvd_diff_nat) auto
  then have t: "4096 * ?t = unat pa" by simp
  note k = same_below_keeps [OF ok a(6)]
  have bel: "f \<noteq> ?t" if "below_top f s" for f using that t a(7) by (auto simp: below_top_def)
  have tb: "below_top ?t ?s1" unfolding below_top_def t using a(2,3) up_bounds(1) [of ?p] D(1) by (simp add: btop_def pt)
  have z: "\<forall>j < 1024. phys ?s1 ?t j = 0"
  proof (intro allI impI zero_phys_in)
    show "unat pa \<le> 4096 * ?t" "4096 * ?t + 4096 \<le> unat pa + unat PAGE_SIZE" unfolding t ps by simp_all
  qed
  have e: "boot_used d ?s1 = boot_used d s" "btable d ?s1 = btable d s" using k(3) by (simp_all add: boot_used_def btable_def fun_eq_iff)
  have fresh: "?t \<notin> btable d ?s1 ` boot_used d ?s1" unfolding e
  proof
    assume "?t \<in> btable d s ` boot_used d s"
    then obtain j where "?t = btable d s j" "j \<in> boot_used d s" by (rule imageE)
    then show False using bel [OF D(8), of j] by simp
  qed
  have "0 < ?t" using a(7) D(3) t by (auto simp: below_top_def intro: Nat.gr0I)
  moreover have "PDX va < 1024" "PDX va \<noteq> 0x3BD" "PDX va \<noteq> 0x3BF" "phys ?s1 d (PDX va) = 0"
    using v PDX_less k(3) by (simp_all add: in_tables_def)
  note i = this
  moreover have "?t \<noteq> d" using bel [OF D(3)] by simp
  ultimately have w: "boot_ok d (write_phys d (PDX va) ?e ?s1)" "in_tables w \<Longrightarrow> bentry d w (write_phys d (PDX va) ?e ?s1) = bentry d w ?s1" for w
    using install_table [OF k(1) i table_entry(1,2) [OF dv]] tb fresh z by blast+
  have nz: "number_of_frames s \<noteq> 0" using D(2,3) by (auto simp: below_top_def)
  have "boot_get_page_table L d va True s = Some (Some ?t, write_phys d (PDX va) ?e ?s1)"
    using v(2) a(1,4,5) nz table_entry(3) [OF dv]
    by (simp add: boot_get_page_table_def STATIC_KERNEL_VIRTUAL_ADDRESS_def STATIC_KERNEL_PHYSICAL_ADDRESS_def EXTRACT_ADDRESS_def PPN_def not_le)
  moreover have "boot_step s (write_phys d (PDX va) ?e ?s1)" by (rule boot_step_trans [OF boot_step_zero boot_step_write])
  moreover have "phys (write_phys d (PDX va) ?e ?s1) d (PDX va) \<noteq> 0" using table_entry(1) [OF dv] by auto
  moreover have "btable d (write_phys d (PDX va) ?e ?s1) (PDX va) = ?t" using table_entry(2) [OF dv] by (simp add: btable_def)
  moreover have "\<forall>i. i \<noteq> PDX va \<longrightarrow> phys (write_phys d (PDX va) ?e ?s1) d i = phys s d i" using k(3) by simp
  moreover have "unat (ptr_free_mem (write_phys d (PDX va) ?e ?s1)) = up ?p + 4096" using a(3) by (simp add: write_phys_def pt)
  moreover have "\<forall>w. in_tables w \<longrightarrow> bentry d w (write_phys d (PDX va) ?e ?s1) = bentry d w s" using w(2) k(2) by simp
  ultimately show ?thesis using w(1) by blast
qed

section \<open>Mapping a range\<close>

lemma PPN_eq_iff: "PPN w = PPN v \<longleftrightarrow> PDX w = PDX v \<and> PTX w = PTX v"
proof
  assume e: "PPN w = PPN v"
  have "PDX x = take_bit 10 (drop_bit 10 (PPN x))" "PTX x = take_bit 10 (PPN x)" for x
    by (simp_all add: addr_fields PPN_def)
  then show "PDX w = PDX v \<and> PTX w = PTX v" using e by simp
next
  have p: "PPN x = push_bit 10 (PDX x) OR PTX x" for x
    unfolding PPN_def addr_fields by (rule bit_word_eqI) (auto simp: bit_simps dest: bit_imp_le_length)
  assume "PDX w = PDX v \<and> PTX w = PTX v"
  then show "PPN w = PPN v" by (simp add: p)
qed

lemma set_boot_page:
  assumes ok: "boot_ok d s" and va: "in_tables va" "phys s d (PDX va) \<noteq> 0"
  shows "boot_ok d (write_phys (btable d s (PDX va)) (PTX va) v s)" "phys (write_phys (btable d s (PDX va)) (PTX va) v s) d = phys s d"
    and "in_tables w \<Longrightarrow> bentry d w (write_phys (btable d s (PDX va)) (PTX va) v s) = (if PPN w = PPN va then v else bentry d w s)"
proof -
  let ?t = "btable d s (PDX va)" and ?s = "write_phys (btable d s (PDX va)) (PTX va) v s"
  note D = boot_okD [OF ok] and u = usedI [OF va]
  have td: "?t \<noteq> d" by (rule D(7) [OF u])
  then show d: "phys ?s d = phys s d" by simp
  then have e: "boot_used d ?s = boot_used d s" "btable d ?s = btable d s" by (simp_all add: boot_used_def btable_def fun_eq_iff)
  have top: "below_top f ?s = below_top f s" "btop ?s = btop s" "ptr_free_mem ?s = ptr_free_mem s" for f
    by (simp_all add: below_top_def btop_def write_phys_def)
  show "boot_ok d ?s" unfolding boot_ok_def e top d using D by auto
  assume w: "in_tables w"
  show "bentry d w ?s = (if PPN w = PPN va then v else bentry d w s)"
  proof (cases "phys s d (PDX w) = 0")
    case True
    then show ?thesis using va(2) td by (auto simp: bentry_def PPN_eq_iff)
  next
    case False
    have "btable d s (PDX w) = ?t \<longleftrightarrow> PDX w = PDX va" using inj_onD [OF D(4) _ usedI [OF w False] u] by auto
    then show ?thesis using False td va(2) by (auto simp: bentry_def e PPN_eq_iff)
  qed
qed

lemma each_page_inv:
  assumes "\<And>k s. k < n \<Longrightarrow> P k s \<Longrightarrow> \<exists>s'. f (page_at c k) s = Some s' \<and> P (Suc k) s'"
    and "\<And>k. k < n \<Longrightarrow> page_at c k < bnd" "\<not> page_at c n < bnd"
  shows "k \<le> n \<Longrightarrow> n - k \<le> fuel \<Longrightarrow> P k s \<Longrightarrow> \<exists>s'. each_page fuel f (page_at c k) bnd s = Some s' \<and> P n s'"
proof (induction fuel arbitrary: k s)
  case 0
  then show ?case using assms(3) by (simp add: each_page.simps)
next
  case (Suc m)
  show ?case
  proof (cases "k < n")
    case True
    with assms(1) Suc.prems(3) obtain s1 where s1: "f (page_at c k) s = Some s1" "P (Suc k) s1" by blast
    have "n - Suc k \<le> m" using True Suc.prems(2) by linarith
    from Suc.IH [OF _ this s1(2)] True obtain s' where "each_page m f (page_at c (Suc k)) bnd s1 = Some s'" "P n s'" by auto
    then show ?thesis using s1(1) assms(2) [OF True] by (subst each_page.simps) (simp add: page_at_Suc)
  next
    case False
    then show ?thesis using assms(3) Suc.prems by (simp add: each_page.simps)
  qed
qed

lemma each_page_first: "c < bnd \<Longrightarrow> each_page (Suc m) f c bnd s = f c s \<bind> each_page m f (c + PAGE_SIZE) bnd"
  by (subst each_page.simps) simp

lemma find_equal: "k \<in> set xs \<Longrightarrow> find (\<lambda>j. j = k) xs = Some k"
  by (induction xs) auto

definition pages :: "u32 \<Rightarrow> nat" where
  "pages n = (unat n + 4095) div 4096"

lemma pages_bounds: "k < pages n \<longleftrightarrow> 4096 * k < unat n"
  unfolding pages_def by (simp add: less_eq_div_iff_mult_less_eq less_Suc_eq_le Suc_le_eq [symmetric] mult.commute)

lemma boot_map_range_maps:
  assumes ok: "boot_ok d s" and n: "unat n + 4096 \<le> 2 ^ 32"
    and tb: "\<And>k. k < pages n \<Longrightarrow> in_tables (page_at va k) \<and> phys s d (PDX (page_at va k)) \<noteq> 0"
  shows "\<exists>s'. boot_map_range L d va n pa perm s = Some s' \<and> boot_ok d s' \<and> boot_step s s' \<and> phys s' d = phys s d \<and>
    ptr_free_mem s' = ptr_free_mem s \<and>
    (\<forall>w. in_tables w \<longrightarrow> bentry d w s' = (case find (\<lambda>k. PPN w = PPN (page_at va k)) (rev [0..<pages n]) of
       None \<Rightarrow> bentry d w s | Some k \<Rightarrow> page_at pa k OR (perm OR PERM_PRESENT)))"
  (is "\<exists>s'. _ \<and> ?P (pages n) s'")
proof -
  have "\<exists>s'. each_page PAGES_32 (boot_map_page L d va pa perm) (page_at 0 0) n s = Some s' \<and> ?P (pages n) s'"
  proof (rule each_page_inv [where n = "pages n" and P = ?P])
    fix k s1
    assume k: "k < pages n" and P: "?P k s1"
    then have va: "in_tables (page_at va k)" "phys s1 d (PDX (page_at va k)) \<noteq> 0" using tb [OF k] by simp_all
    let ?s2 = "write_phys (btable d s1 (PDX (page_at va k))) (PTX (page_at va k)) (page_at pa k OR (perm OR PERM_PRESENT)) s1"
    have "boot_map_page L d va pa perm (page_at 0 k) s1 = Some ?s2"
      using boot_get_existing [of d s1 "page_at va k" L] P va by (simp add: boot_map_page_def page_at_def CONSTRUCT_ENTRY_def)
    moreover have "boot_step s ?s2" using P boot_step_trans [OF _ boot_step_write] by blast
    moreover have "bentry d w ?s2 = (case find (\<lambda>k. PPN w = PPN (page_at va k)) (rev [0..<Suc k]) of
       None \<Rightarrow> bentry d w s | Some k \<Rightarrow> page_at pa k OR (perm OR PERM_PRESENT))" if "in_tables w" for w
      using set_boot_page(3) [of d s1 "page_at va k" w] P va that by simp
    moreover have "boot_ok d ?s2" "phys ?s2 d = phys s d" using set_boot_page(1,2) [of d s1 "page_at va k"] P va by simp_all
    ultimately show "\<exists>s'. boot_map_page L d va pa perm (page_at 0 k) s1 = Some s' \<and> ?P (Suc k) s'"
      using P by (intro exI [of _ ?s2] conjI allI impI) simp_all
  next
    fix k assume "k < pages n"
    then show "page_at 0 k < n" using n by (simp add: pages_bounds word_less_nat_alt unat_page_at)
  next
    show "\<not> page_at 0 (pages n) < n"
      using n pages_bounds [of "pages n" n] up_bounds(2) [of "unat n"] by (simp add: word_less_nat_alt unat_page_at pages_def up_def)
  qed (use n ok boot_step_refl in \<open>auto simp: PAGES_32_def pages_def\<close>)
  then show ?thesis by (simp add: boot_map_range_def page_at_def)
qed

lemma unat_PPN: "unat (PPN w) = unat w div 4096"
  by (simp only: PPN_def unat_drop_bit_eq) (simp add: drop_bit_eq_div)

lemma PPN_page_at:
  assumes "unat va + 4096 * n \<le> 2 ^ 32" "k < n"
  shows "unat (PPN (page_at va k)) = unat va div 4096 + k"
proof -
  have "unat va + 4096 * k < 2 ^ 32" using assms by linarith
  then show ?thesis by (simp add: unat_PPN unat_page_at)
qed

text \<open>The view of a range: its pages have the new entries and all others keep theirs.\<close>

definition range_mapped :: "frame \<Rightarrow> u32 \<Rightarrow> nat \<Rightarrow> (nat \<Rightarrow> u32) \<Rightarrow> 'z mem_state_scheme \<Rightarrow> 'z mem_state_scheme \<Rightarrow> bool" where
  "range_mapped d va n e s s' \<longleftrightarrow> (\<forall>k < n. bentry d (page_at va k) s' = e k) \<and>
     (\<forall>w. in_tables w \<longrightarrow> (\<forall>k < n. PPN w \<noteq> PPN (page_at va k)) \<longrightarrow> bentry d w s' = bentry d w s)"

lemma boot_map_range_view:
  assumes ok: "boot_ok d s" and n: "unat n + 4096 \<le> 2 ^ 32" "unat va + 4096 * pages n \<le> 2 ^ 32"
    and tb: "\<And>k. k < pages n \<Longrightarrow> in_tables (page_at va k) \<and> phys s d (PDX (page_at va k)) \<noteq> 0"
  shows "\<exists>s'. boot_map_range L d va n pa perm s = Some s' \<and> boot_ok d s' \<and> boot_step s s' \<and> phys s' d = phys s d \<and>
    ptr_free_mem s' = ptr_free_mem s \<and> range_mapped d va (pages n) (\<lambda>k. page_at pa k OR (perm OR PERM_PRESENT)) s s'"
proof -
  let ?e = "\<lambda>k. page_at pa k OR (perm OR PERM_PRESENT)"
  from boot_map_range_maps [OF ok n(1) tb, of L pa perm] obtain s' where
    s': "boot_map_range L d va n pa perm s = Some s'" "boot_ok d s'" "boot_step s s'" "phys s' d = phys s d" "ptr_free_mem s' = ptr_free_mem s"
      "\<forall>w. in_tables w \<longrightarrow> bentry d w s' = (case find (\<lambda>k. PPN w = PPN (page_at va k)) (rev [0..<pages n]) of None \<Rightarrow> bentry d w s | Some k \<Rightarrow> ?e k)"
    by blast
  have "find (\<lambda>j. PPN (page_at va k) = PPN (page_at va j)) (rev [0..<pages n]) = Some k" if "k < pages n" for k
  proof -
    have "PPN (page_at va k) = PPN (page_at va j) \<longleftrightarrow> j = k" if "j < pages n" for j
      using PPN_page_at [OF n(2) that] PPN_page_at [OF n(2) \<open>k < pages n\<close>] by (auto simp: word_unat_eq_iff)
    then have "find (\<lambda>j. PPN (page_at va k) = PPN (page_at va j)) (rev [0..<pages n]) = find (\<lambda>j. j = k) (rev [0..<pages n])"
      by (intro find_cong) auto
    also have "\<dots> = Some k" using that by (intro find_equal) simp
    finally show ?thesis .
  qed
  then have "\<forall>k < pages n. bentry d (page_at va k) s' = ?e k" using s'(6) tb by simp
  moreover have "bentry d w s' = bentry d w s" if "in_tables w" "\<forall>k < pages n. PPN w \<noteq> PPN (page_at va k)" for w
  proof -
    have "find (\<lambda>k. PPN w = PPN (page_at va k)) (rev [0..<pages n]) = None" using that(2) by (simp add: find_None_iff)
    then show ?thesis using s'(6) that(1) by simp
  qed
  ultimately have "range_mapped d va (pages n) ?e s s'" by (simp add: range_mapped_def)
  then show ?thesis using s' by blast
qed

text \<open>The first page of a range in a missing table creates the table.\<close>

lemma boot_map_range_create:
  assumes "boot_get_page_table L d va True s = Some (Some t, s1)" "boot_ok d s1" "in_tables va" "phys s1 d (PDX va) \<noteq> 0"
    and "btable d s1 (PDX va) = t" "n \<noteq> 0"
  shows "boot_map_range L d va n pa perm s = boot_map_range L d va n pa perm s1"
proof -
  have z: "0 < n" using assms(6) by (simp add: word_gt_0)
  have f: "PAGES_32 = Suc (PAGES_32 - 1)" by (simp add: PAGES_32_def)
  have "boot_map_page L d va pa perm 0 s = boot_map_page L d va pa perm 0 s1"
    using boot_get_existing [OF assms(2-4), of L] assms(1,5) by (simp add: boot_map_page_def)
  then show ?thesis unfolding boot_map_range_def by (subst (1 2) f) (simp add: each_page_first [OF z])
qed

section \<open>The steps of \<open>initialize_kernel_VM\<close>\<close>

text \<open>\<open>dir_entries d I s\<close>: the entries of the directory that are not 0 are those of \<open>I\<close>.\<close>

definition dir_entries :: "frame \<Rightarrow> u32 set \<Rightarrow> 'z mem_state_scheme \<Rightarrow> bool" where
  "dir_entries d I s \<longleftrightarrow> (\<forall>i < 1024. phys s d i \<noteq> 0 \<longleftrightarrow> i \<in> I)"

definition room :: "nat \<Rightarrow> u32 \<Rightarrow> bool" where
  "room p nf \<longleftrightarrow> p \<le> 0xFFFFF000 \<and> p \<le> 0xF0000000 + 4096 * unat nf"

lemma room_mono: "room p nf \<Longrightarrow> q \<le> p \<Longrightarrow> room q nf"
  by (auto simp: room_def)

lemma boot_directory:
  fixes s :: "'z boot_state_scheme"
  assumes "ptr_free_mem s = 0" "0xF0000000 \<le> unat (end_of_kernel L)" "room (up (unat (end_of_kernel L)) + 4096) (number_of_frames s)"
  shows "\<exists>a s1 pd. boot_allocate_space L PAGE_SIZE PAGE_SIZE s = (a, s1) \<and> STATIC_KERNEL_PHYSICAL_ADDRESS a = Some pd \<and>
    boot_ok (unat (PPN pd)) (s1\<lparr>ptr_page_directory := unat (PPN pd)\<rparr>) \<and> dir_entries (unat (PPN pd)) {} (s1\<lparr>ptr_page_directory := unat (PPN pd)\<rparr>) \<and>
    boot_step s (s1\<lparr>ptr_page_directory := ptr_page_directory s\<rparr>) \<and> unat (ptr_free_mem s1) = up (unat (end_of_kernel L)) + 4096"
proof -
  let ?p = "unat (end_of_kernel L)"
  have ps: "unat PAGE_SIZE = 4096" by (simp add: PAGE_SIZE_def)
  from boot_allocate [of ?p s L PAGE_SIZE] assms ps obtain a pa where
    a: "boot_allocate_space L PAGE_SIZE PAGE_SIZE s = (a, zero_phys pa PAGE_SIZE (s\<lparr>ptr_free_mem := a + PAGE_SIZE\<rparr>))"
      "unat pa = up ?p - 0xF0000000" "unat (a + PAGE_SIZE) = up ?p + 4096" "a - KERNEL_BASE = pa" "KERNEL_BASE \<le> a"
    by (auto simp: room_def)
  let ?s1 = "zero_phys pa PAGE_SIZE (s\<lparr>ptr_free_mem := a + PAGE_SIZE\<rparr>)" and ?d = "unat (PPN pa)"
  have dv: "4096 dvd unat pa" using up_bounds(3) [of ?p] unfolding a(2) by (intro dvd_diff_nat) auto
  then have d: "4096 * ?d = unat pa" by (simp add: unat_PPN)
  have z: "phys ?s1 ?d i = 0" if "i < 1024" for i by (rule zero_phys_in) (use that in \<open>simp_all add: d ps\<close>)
  have pt: "ptr_free_mem ?s1 = a + PAGE_SIZE" by (simp add: zero_phys_def)
  have "boot_used ?d (?s1\<lparr>ptr_page_directory := ?d\<rparr>) = {}" using z by (simp add: boot_used_def)
  then have "boot_ok ?d (?s1\<lparr>ptr_page_directory := ?d\<rparr>)"
    using a(2,3) assms(2,3) up_bounds(1) [of ?p] d by (auto simp: boot_ok_def btop_def below_top_def pt room_def)
  moreover have "dir_entries ?d {} (?s1\<lparr>ptr_page_directory := ?d\<rparr>)" using z by (simp add: dir_entries_def)
  moreover have "boot_step s (?s1\<lparr>ptr_page_directory := ptr_page_directory s\<rparr>)" by (simp add: boot_step_def zero_phys_def)
  ultimately show ?thesis using a pt by (auto simp: STATIC_KERNEL_PHYSICAL_ADDRESS_def not_less)
qed

lemma boot_new_table:
  assumes "boot_ok d s" "in_tables va" "dir_entries d I s" "PDX va \<notin> I" "room (up (unat (ptr_free_mem s)) + 4096) (number_of_frames s)"
  shows "\<exists>t s'. boot_get_page_table L d va True s = Some (Some t, s') \<and> boot_ok d s' \<and> boot_step s s' \<and> phys s' d (PDX va) \<noteq> 0 \<and>
    btable d s' (PDX va) = t \<and> dir_entries d (insert (PDX va) I) s' \<and> (\<forall>w. in_tables w \<longrightarrow> bentry d w s' = bentry d w s) \<and>
    unat (ptr_free_mem s') = up (unat (ptr_free_mem s)) + 4096"
proof -
  have z: "phys s d (PDX va) = 0" using assms(3,4) PDX_less by (auto simp: dir_entries_def)
  from boot_get_new [OF assms(1,2) z, of L] assms(5) obtain t s' where
    s': "boot_get_page_table L d va True s = Some (Some t, s')" "boot_ok d s'" "boot_step s s'" "phys s' d (PDX va) \<noteq> 0"
      "btable d s' (PDX va) = t" "\<forall>i. i \<noteq> PDX va \<longrightarrow> phys s' d i = phys s d i" "\<forall>w. in_tables w \<longrightarrow> bentry d w s' = bentry d w s"
      "unat (ptr_free_mem s') = up (unat (ptr_free_mem s)) + 4096" by (auto simp: room_def)
  have "dir_entries d (insert (PDX va) I) s'"
    unfolding dir_entries_def
  proof (intro allI impI)
    fix i :: u32 assume "i < 1024"
    then show "phys s' d i \<noteq> 0 \<longleftrightarrow> i \<in> insert (PDX va) I" using s'(4,6) assms(3) by (cases "i = PDX va") (auto simp: dir_entries_def)
  qed
  then show ?thesis using s' by blast
qed

text \<open>A range inside one table that does not exist yet.\<close>

lemma boot_map_new_table:
  assumes ok: "boot_ok d s" "dir_entries d I s" and i: "i \<notin> I" "i \<noteq> 0x3BD" "i \<noteq> 0x3BF"
    and n: "unat n + 4096 \<le> 2 ^ 32" "unat va + 4096 * pages n \<le> 2 ^ 32" "n \<noteq> 0"
    and va: "\<And>k. k < pages n \<Longrightarrow> PDX (page_at va k) = i"
    and r: "room (up (unat (ptr_free_mem s)) + 4096) (number_of_frames s)"
  shows "\<exists>s'. boot_map_range L d va n pa perm s = Some s' \<and> boot_ok d s' \<and> boot_step s s' \<and> dir_entries d (insert i I) s' \<and>
    unat (ptr_free_mem s') = up (unat (ptr_free_mem s)) + 4096 \<and>
    range_mapped d va (pages n) (\<lambda>k. page_at pa k OR (perm OR PERM_PRESENT)) s s'"
proof -
  have "0 < unat n" using n(3) by (simp add: unat_gt_0)
  then have "PDX (page_at va 0) = i" using va [of 0] pages_bounds [of 0 n] by simp
  then have v0: "PDX va = i" by (simp add: page_at_def)
  then have it: "in_tables va" using i by (simp add: in_tables_def)
  from boot_new_table [OF ok(1) it ok(2) _ r, of L] v0 i(1) obtain t s1 where
    s1: "boot_get_page_table L d va True s = Some (Some t, s1)" "boot_ok d s1" "boot_step s s1" "phys s1 d i \<noteq> 0" "btable d s1 i = t"
      "dir_entries d (insert i I) s1" "\<forall>w. in_tables w \<longrightarrow> bentry d w s1 = bentry d w s"
      "unat (ptr_free_mem s1) = up (unat (ptr_free_mem s)) + 4096" by auto
  note c = boot_map_range_create [OF s1(1,2) it, unfolded v0, OF s1(4,5) n(3), of pa perm]
  have tb: "in_tables (page_at va k) \<and> phys s1 d (PDX (page_at va k)) \<noteq> 0" if "k < pages n" for k
    using va [OF that] i s1(4) by (simp add: in_tables_def)
  from boot_map_range_view [OF s1(2) n(1,2) tb, of L pa perm] obtain s2 where
    s2: "boot_map_range L d va n pa perm s1 = Some s2" "boot_ok d s2" "boot_step s1 s2" "phys s2 d = phys s1 d" "ptr_free_mem s2 = ptr_free_mem s1"
      "range_mapped d va (pages n) (\<lambda>k. page_at pa k OR (perm OR PERM_PRESENT)) s1 s2" by blast
  have "range_mapped d va (pages n) (\<lambda>k. page_at pa k OR (perm OR PERM_PRESENT)) s s2"
    using s2(6) s1(7) by (simp add: range_mapped_def)
  moreover have "dir_entries d (insert i I) s2" using s1(6) s2(4) by (simp add: dir_entries_def)
  moreover have "boot_step s s2" by (rule boot_step_trans [OF s1(3) s2(3)])
  ultimately show ?thesis using c s2(1,2,5) s1(8) by (intro exI [of _ s2]) simp
qed

lemma boot_cong:
  assumes "phys s' = phys s" "ptr_free_mem s' = ptr_free_mem s" "number_of_frames s' = number_of_frames s"
  shows "boot_ok d s' = boot_ok d s" "bentry d w s' = bentry d w s" "dir_entries d I s' = dir_entries d I s"
  using assms by (simp_all add: boot_ok_def bentry_def btable_def boot_used_def btop_def below_top_def dir_entries_def inj_on_def)

lemma tlb_invalidate_boot:
  "ptr_free_mem (tlb_invalidate dir va s) = ptr_free_mem s" "boot_step s (tlb_invalidate dir va s)" "phys (tlb_invalidate dir va s) = phys s"
  "number_of_frames (tlb_invalidate dir va s) = number_of_frames s"
  by (simp_all add: tlb_invalidate_def invlpg_def boot_step_def split: option.split)

lemma boot_guard_page:
  assumes ok: "boot_ok d s" "in_tables va" "phys s d (PDX va) \<noteq> 0" and k: "CHECK_IF_KERNEL_ADDRESS va"
  shows "\<exists>s'. pt_set_page_permissions d va 0 PERM_PRESENT s = Some ((), s') \<and> boot_ok d s' \<and> boot_step s s' \<and> phys s' d = phys s d \<and>
    ptr_free_mem s' = ptr_free_mem s \<and>
    (\<forall>w. in_tables w \<longrightarrow> bentry d w s' = (if PPN w = PPN va then bentry d va s AND NOT PERM_PRESENT else bentry d w s))"
proof -
  let ?t = "btable d s (PDX va)"
  note D = boot_okD [OF ok(1)] and u = usedI [OF ok(2,3)]
  have "\<not> number_of_frames s \<le> PPN (phys s d (PDX va))" by (rule PPN_in_range [OF D(8) [OF u] D(2)]) (simp add: btable_def)
  then have g: "get_page_table d va s = Some (TABLE_IN_MEMORY, Some ?t)"
    using D(5) [OF u] k by (simp add: get_page_table_def STATIC_KERNEL_VIRTUAL_ADDRESS_def Let_def present_bit btable_def)
  let ?s1 = "write_phys ?t (PTX va) (bentry d va s AND NOT PERM_PRESENT) s"
  have "write_phys ?t (PTX va) (bentry d va s AND NOT PERM_PRESENT) (write_phys ?t (PTX va) (phys s ?t (PTX va) OR 0) s) = ?s1"
    by (simp add: write_phys_def)
  then have "pt_set_page_permissions d va 0 PERM_PRESENT s = Some ((), tlb_invalidate (Some d) va ?s1)"
    using g ok(3) by (simp add: pt_set_page_permissions_def bentry_def)
  note r = this and w = set_boot_page [OF ok, where v = "bentry d va s AND NOT PERM_PRESENT"]
  let ?s' = "tlb_invalidate (Some d) va ?s1"
  note c = boot_cong [of ?s' ?s1, OF tlb_invalidate_boot(3,1,4)]
  have "boot_step s ?s'" by (rule boot_step_trans [OF boot_step_write tlb_invalidate_boot(2)])
  then show ?thesis using r w c by (intro exI [of _ ?s']) (simp add: tlb_invalidate_boot)
qed

lemma unat_PDX: "unat (PDX va) = unat va div 4194304"
proof -
  have "unat (drop_bit 22 va) = unat va div 4194304" by (simp only: unat_drop_bit_eq) (simp add: drop_bit_eq_div)
  moreover have "unat va div 4194304 < 1024" using unat_u32_less [of va] by linarith
  ultimately show ?thesis by (simp add: addr_fields unsigned_take_bit_eq take_bit_nat_def)
qed

lemma PDX_kernel_table:
  assumes "k < 64"
  shows "PDX (KERNEL_BASE + of_nat k * PTSIZE) = 0x3C0 + of_nat k"
proof -
  have "unat (KERNEL_BASE + of_nat k * PTSIZE) = 0xF0000000 + k * 4194304"
    using assms by (simp add: KERNEL_BASE_def PTSIZE_def unat_word_ariths unat_of_nat_u32)
  moreover have "unat (0x3C0 + of_nat k :: u32) = 0x3C0 + k" using assms by (simp add: unat_word_ariths unat_of_nat_u32)
  ultimately show ?thesis by (simp add: word_unat_eq_iff unat_PDX)
qed

lemma boot_kernel_tables:
  assumes ok: "boot_ok d s" "dir_entries d {0x3BE} s" "4096 dvd unat (ptr_free_mem s)"
    and r: "room (unat (ptr_free_mem s) + 4096 * 64) (number_of_frames s)"
  shows "n \<le> 64 \<Longrightarrow> \<exists>s'. run_all (boot_table L d) [0..<n] s = Some s' \<and> boot_ok d s' \<and> boot_step s s' \<and>
    dir_entries d ({0x3BE} \<union> (\<lambda>k. 0x3C0 + of_nat k) ` {..<n}) s' \<and> (\<forall>w. in_tables w \<longrightarrow> bentry d w s' = bentry d w s) \<and>
    unat (ptr_free_mem s') = unat (ptr_free_mem s) + 4096 * n"
proof (induction n)
  case 0
  then show ?case using ok boot_step_refl by simp
next
  case (Suc n)
  then obtain s1 where s1: "run_all (boot_table L d) [0..<n] s = Some s1" "boot_ok d s1" "boot_step s s1"
    "dir_entries d ({0x3BE} \<union> (\<lambda>k. 0x3C0 + of_nat k) ` {..<n}) s1" "\<forall>w. in_tables w \<longrightarrow> bentry d w s1 = bentry d w s"
    "unat (ptr_free_mem s1) = unat (ptr_free_mem s) + 4096 * n" by auto
  let ?va = "KERNEL_BASE + of_nat n * PTSIZE"
  have px: "PDX ?va = 0x3C0 + of_nat n" using Suc.prems by (intro PDX_kernel_table) simp
  have un: "unat (0x3C0 + of_nat k :: u32) = 0x3C0 + k" if "k < 64" for k using that by (simp add: unat_word_ariths unat_of_nat_u32)
  have it: "in_tables ?va" unfolding in_tables_def px using un [of n] Suc.prems by (auto simp: word_unat_eq_iff)
  have new: "PDX ?va \<notin> {0x3BE} \<union> (\<lambda>k. 0x3C0 + of_nat k) ` {..<n}"
    unfolding px using un [of n] un Suc.prems by (auto simp: word_unat_eq_iff)
  have up: "up (unat (ptr_free_mem s1)) = unat (ptr_free_mem s) + 4096 * n" using s1(6) ok(3) by (simp add: up_id)
  have r1: "room (up (unat (ptr_free_mem s1)) + 4096) (number_of_frames s1)"
    using room_mono [OF r] Suc.prems s1(3) unfolding up by (simp add: boot_step_def)
  from boot_new_table [OF s1(2) it s1(4) new r1, of L] obtain t s2 where
    s2: "boot_get_page_table L d ?va True s1 = Some (Some t, s2)" "boot_ok d s2" "boot_step s1 s2"
      "dir_entries d (insert (PDX ?va) ({0x3BE} \<union> (\<lambda>k. 0x3C0 + of_nat k) ` {..<n})) s2" "\<forall>w. in_tables w \<longrightarrow> bentry d w s2 = bentry d w s1"
      "unat (ptr_free_mem s2) = up (unat (ptr_free_mem s1)) + 4096" by blast
  have "run_all (boot_table L d) [0..<Suc n] s = Some s2" using s1(1) s2(1) by (simp add: run_all_append boot_table_def)
  moreover have "boot_step s s2" by (rule boot_step_trans [OF s1(3) s2(3)])
  moreover have "dir_entries d ({0x3BE} \<union> (\<lambda>k. 0x3C0 + of_nat k) ` {..<Suc n}) s2"
    using s2(4) by (simp add: px lessThan_Suc insert_commute)
  ultimately show ?case using s2(2,5,6) s1(5) up by (intro exI [of _ s2]) simp
qed

lemma boot_write_listing:
  assumes ok: "boot_ok d s" "dir_entries d I s" and i: "i = 0x3BD \<or> i = 0x3BF" and v: "v \<noteq> 0"
  shows "boot_ok d (write_phys d i v s)" "dir_entries d (insert i I) (write_phys d i v s)"
    and "in_tables w \<Longrightarrow> bentry d w (write_phys d i v s) = bentry d w s"
proof -
  let ?s = "write_phys d i v s"
  note D = boot_okD [OF ok(1)]
  have u: "boot_used d ?s = boot_used d s" using i by (auto simp: boot_used_def)
  have bt: "btable d ?s j = btable d s j" if "j \<in> boot_used d s" for j using that i by (auto simp: btable_def boot_used_def)
  have top: "below_top f ?s = below_top f s" "btop ?s = btop s" for f by (simp_all add: below_top_def btop_def)
  have "inj_on (btable d ?s) (boot_used d s)" using D(4) bt by (simp add: inj_on_def)
  moreover have "phys ?s d j = phys s d j" if "j \<in> boot_used d s" for j using that i by (auto simp: boot_used_def)
  ultimately show "boot_ok d ?s" using D bt by (simp add: boot_ok_def u top)
  show "dir_entries d (insert i I) ?s" using ok(2) v by (auto simp: dir_entries_def)
  assume w: "in_tables w"
  then have "PDX w \<noteq> i" using i by (auto simp: in_tables_def)
  then show "bentry d w ?s = bentry d w s" using bt [OF usedI [OF w]] D(7) [OF usedI [OF w]] by (auto simp: bentry_def)
qed

lemma boot_write_pde:
  assumes ok: "boot_ok d s" "dir_entries d I s" and v: "PPN v = PPN (phys s d i)" "bit v 0" "phys s d i \<noteq> 0"
  shows "boot_ok d (write_phys d i v s)" "dir_entries d I (write_phys d i v s)"
    and "in_tables w \<Longrightarrow> bentry d w (write_phys d i v s) = bentry d w s"
proof -
  let ?s = "write_phys d i v s"
  note D = boot_okD [OF ok(1)]
  have vz: "v \<noteq> 0" using v(2) by auto
  then have u: "boot_used d ?s = boot_used d s" using v(3) by (auto simp: boot_used_def)
  have bt: "btable d ?s = btable d s" using v(1) by (simp add: btable_def fun_eq_iff)
  have top: "below_top f ?s = below_top f s" "btop ?s = btop s" for f by (simp_all add: below_top_def btop_def)
  show "boot_ok d ?s" using D v(2) by (auto simp: boot_ok_def u top bt)
  show "dir_entries d I ?s" using ok(2) v(3) vz by (auto simp: dir_entries_def)
  assume w: "in_tables w"
  show "bentry d w ?s = bentry d w s" using v(3) vz D(7) [OF usedI [OF w]] by (auto simp: bentry_def bt)
qed

lemma boot_array:
  assumes "boot_ok d s" "dir_entries d I s" "room (up (unat (ptr_free_mem s)) + unat n) (number_of_frames s)"
  shows "\<exists>a s'. boot_allocate_space L n PAGE_SIZE s = (a, s') \<and> boot_ok d s' \<and> dir_entries d I s' \<and> boot_step s s' \<and>
    (\<forall>w. in_tables w \<longrightarrow> bentry d w s' = bentry d w s) \<and> unat (ptr_free_mem s') = up (unat (ptr_free_mem s)) + unat n \<and> KERNEL_BASE \<le> a \<and>
    4096 dvd unat (a - KERNEL_BASE)"
proof -
  from boot_allocate_keeps [OF assms(1), of n L] assms(3) obtain a pa where
    a: "boot_allocate_space L n PAGE_SIZE s = (a, zero_phys pa n (s\<lparr>ptr_free_mem := a + n\<rparr>))"
      "unat pa = up (unat (ptr_free_mem s)) - 0xF0000000" "unat (a + n) = up (unat (ptr_free_mem s)) + unat n" "a - KERNEL_BASE = pa" "KERNEL_BASE \<le> a"
      "same_below s (zero_phys pa n (s\<lparr>ptr_free_mem := a + n\<rparr>))" by (auto simp: room_def)
  let ?s' = "zero_phys pa n (s\<lparr>ptr_free_mem := a + n\<rparr>)"
  note k = same_below_keeps [OF assms(1) a(6)]
  have "4096 dvd unat pa" unfolding a(2) using up_bounds(3) by (intro dvd_diff_nat) auto
  moreover have "dir_entries d I ?s'" using assms(2) k(3) by (simp add: dir_entries_def)
  moreover have "unat (ptr_free_mem ?s') = up (unat (ptr_free_mem s)) + unat n" using a(3) by (simp add: zero_phys_def)
  ultimately show ?thesis using a(1,4,5) k(1,2) boot_step_zero by blast
qed

section \<open>The check of the directory\<close>

lemma aligned_push: 
  assumes "4096 dvd unat (a :: u32)"
  obtains x where "a = push_bit 12 x"
proof -
  from assms obtain k where "unat a = 4096 * k" by (rule dvdE)
  moreover have "of_nat (unat a) = a" by simp
  ultimately have "a = of_nat (4096 * k)" by metis
  then have "a = push_bit 12 (of_nat k)" by (simp add: push_bit_eq_mult mult.commute)
  then show ?thesis using that by blast
qed

lemma EXTRACT_aligned:
  assumes "4096 dvd unat a" "EXTRACT_ADDRESS perm = 0"
  shows "EXTRACT_ADDRESS (a OR perm) = a"
proof -
  from aligned_push [OF assms(1)] obtain x where x: "a = push_bit 12 x" .
  have "EXTRACT_ADDRESS a = a" unfolding x addr_fields by (rule bit_word_eqI) (auto simp: bit_simps)
  then show ?thesis using assms(2) by (simp add: EXTRACT_ADDRESS_or)
qed

lemma aligned_page_at:
  assumes "4096 dvd unat a"
  shows "4096 dvd unat (page_at a k)"
proof -
  have "(4096 :: nat) dvd 2 ^ 32" by simp
  moreover have "unat (page_at a k) = (unat a + unat (of_nat k * PAGE_SIZE :: u32)) mod 2 ^ 32" by (simp add: page_at_def unat_word_ariths)
  moreover have "unat (of_nat k * PAGE_SIZE :: u32) = (unat (of_nat k :: u32) * 4096) mod 2 ^ 32" by (simp add: unat_word_ariths PAGE_SIZE_def)
  ultimately show ?thesis using assms by (metis dvd_add dvd_mod dvd_triv_right)
qed

lemma present_zero: "pte AND PERM_PRESENT = 0 \<longleftrightarrow> \<not> bit pte 0"
proof -
  have "pte AND 1 = (if bit pte 0 then 1 else 0)" by (simp add: and_one_eq mod_2_eq_odd bit_0)
  then show ?thesis by (simp add: PERM_PRESENT_def)
qed

lemma check_va2pa_bentry:
  assumes "boot_ok d s" "in_tables va" "phys s d (PDX va) \<noteq> 0"
  shows "check_va2pa d va s = Some (if bit (bentry d va s) 0 then EXTRACT_ADDRESS (bentry d va s) else NOT 0)"
proof -
  note D = boot_okD [OF assms(1)] and u = usedI [OF assms(2,3)]
  have "\<not> number_of_frames s \<le> PPN (phys s d (PDX va))" by (rule PPN_in_range [OF D(8) [OF u] D(2)]) (simp add: btable_def)
  then show ?thesis using D(5) [OF u] assms(3)
    by (simp add: check_va2pa_def STATIC_KERNEL_VIRTUAL_ADDRESS_def Let_def present_zero bentry_def btable_def)
qed

lemma check_boot_entry:
  assumes "boot_ok d s" "in_tables (page_at va k)" "phys s d (PDX (page_at va k)) \<noteq> 0"
    and "bentry d (page_at va k) s = page_at pa k OR (perm OR PERM_PRESENT)" "4096 dvd unat pa" "EXTRACT_ADDRESS perm = 0"
  shows "check_va2pa d (page_at va k) s = Some (page_at pa k)"
proof -
  have "EXTRACT_ADDRESS (perm OR PERM_PRESENT) = 0" using assms(6) by (simp add: EXTRACT_ADDRESS_or) (simp add: EXTRACT_ADDRESS_def PERM_PRESENT_def)
  note e = EXTRACT_aligned [OF aligned_page_at [OF assms(5), of k] this]
  have "bit (page_at pa k OR (perm OR PERM_PRESENT)) 0" by (simp add: bit_simps PERM_PRESENT_def)
  then show ?thesis using check_va2pa_bentry [OF assms(1-3)] e assms(4) by simp
qed

text \<open>
  What the kernel's part of the address space is: the stack of the processor above a guard page, the table of
  processes for the users to read, and the kernel itself at \<open>KERNEL_BASE\<close>.
\<close>

definition STACK_BOTTOM :: u32 where "STACK_BOTTOM = KERN_STACK_TOP - NCPUS * KERNEL_STACK_SIZE"

definition kernel_entries :: "u32 set" where
  "kernel_entries = {0x3BE} \<union> (\<lambda>k. 0x3C0 + of_nat k) ` {..<64}"

definition stack_entries :: "frame \<Rightarrow> u32 \<Rightarrow> 'z mem_state_scheme \<Rightarrow> bool" where
  "stack_entries d stk s \<longleftrightarrow> \<not> bit (bentry d STACK_BOTTOM s) 0 \<and>
     (\<forall>k \<in> {1..<8}. bentry d (page_at STACK_BOTTOM k) s = page_at stk k OR (PERM_WRITEABLE OR PERM_PRESENT))"

lemma STACK_pages:
  assumes "k < 8"
  shows "PDX (page_at STACK_BOTTOM k) = 0x3BE" "unat (PPN (page_at STACK_BOTTOM k)) = 0xEFBF8 + k"
proof -
  have "unat STACK_BOTTOM = 0xEFBF8000" by (simp add: STACK_BOTTOM_def KERN_STACK_TOP_def VPT_def NCPUS_def KERNEL_STACK_SIZE_def)
  then have u: "unat (page_at STACK_BOTTOM k) = 0xEFBF8000 + 4096 * k" using assms by (simp add: unat_page_at)
  then show "unat (PPN (page_at STACK_BOTTOM k)) = 0xEFBF8 + k" by (simp add: unat_PPN)
  have "(0xEFBF8000 + 4096 * k) div 4194304 = 0x3BE" using assms by (intro div_nat_eqI) simp_all
  then show "PDX (page_at STACK_BOTTOM k) = 0x3BE" by (simp add: word_unat_eq_iff unat_PDX u)
qed

lemma boot_stack:
  assumes ok: "boot_ok d s" "dir_entries d {} s" and r: "room (up (unat (ptr_free_mem s)) + 4096) (number_of_frames s)"
  shows "\<exists>s3 s4. boot_map_range L d STACK_BOTTOM (NCPUS * KERNEL_STACK_SIZE) stk PERM_WRITEABLE s = Some s3 \<and>
    pt_set_page_permissions d STACK_BOTTOM 0 PERM_PRESENT s3 = Some ((), s4) \<and> boot_ok d s4 \<and> dir_entries d {0x3BE} s4 \<and> boot_step s s4 \<and>
    stack_entries d stk s4 \<and> unat (ptr_free_mem s4) = up (unat (ptr_free_mem s)) + 4096"
proof -
  let ?n = "NCPUS * KERNEL_STACK_SIZE"
  have n: "pages ?n = 8" "unat ?n + 4096 \<le> 2 ^ 32" "?n \<noteq> 0" by (simp_all add: pages_def NCPUS_def KERNEL_STACK_SIZE_def)
  have b: "unat STACK_BOTTOM = 0xEFBF8000" by (simp add: STACK_BOTTOM_def KERN_STACK_TOP_def VPT_def NCPUS_def KERNEL_STACK_SIZE_def)
  have v: "unat STACK_BOTTOM + 4096 * pages ?n \<le> 2 ^ 32" by (simp add: b n(1))
  from boot_map_new_table [OF ok, of "0x3BE" ?n STACK_BOTTOM L stk PERM_WRITEABLE] n v STACK_pages(1) r obtain s3 where
    s3: "boot_map_range L d STACK_BOTTOM ?n stk PERM_WRITEABLE s = Some s3" "boot_ok d s3" "boot_step s s3" "dir_entries d {0x3BE} s3"
      "unat (ptr_free_mem s3) = up (unat (ptr_free_mem s)) + 4096"
      "range_mapped d STACK_BOTTOM 8 (\<lambda>k. page_at stk k OR (PERM_WRITEABLE OR PERM_PRESENT)) s s3" by auto
  have p0: "page_at STACK_BOTTOM 0 = STACK_BOTTOM" by (simp add: page_at_def)
  have it: "in_tables (page_at STACK_BOTTOM k)" if "k < 8" for k using STACK_pages(1) [OF that] by (simp add: in_tables_def)
  have sb: "in_tables STACK_BOTTOM" "phys s3 d (PDX STACK_BOTTOM) \<noteq> 0" "CHECK_IF_KERNEL_ADDRESS STACK_BOTTOM"
    using it [of 0] STACK_pages(1) [of 0] s3(4) b
    by (simp_all add: p0 dir_entries_def CHECK_IF_KERNEL_ADDRESS_def word_le_nat_alt USER_TOP_def)
  from boot_guard_page [OF s3(2) sb] obtain s4 where
    s4: "pt_set_page_permissions d STACK_BOTTOM 0 PERM_PRESENT s3 = Some ((), s4)" "boot_ok d s4" "boot_step s3 s4" "phys s4 d = phys s3 d"
      "ptr_free_mem s4 = ptr_free_mem s3"
      "\<forall>w. in_tables w \<longrightarrow> bentry d w s4 = (if PPN w = PPN STACK_BOTTOM then bentry d STACK_BOTTOM s3 AND NOT PERM_PRESENT else bentry d w s3)" by blast
  have "bentry d (page_at STACK_BOTTOM k) s4 = page_at stk k OR (PERM_WRITEABLE OR PERM_PRESENT)" if "k \<in> {1..<8}" for k
  proof -
    have k: "k < 8" using that by simp
    have "PPN (page_at STACK_BOTTOM k) \<noteq> PPN STACK_BOTTOM"
      using STACK_pages(2) [OF k] STACK_pages(2) [of 0] that by (auto simp: p0 word_unat_eq_iff)
    then show ?thesis using s4(6) it [OF k] s3(6) k by (simp add: range_mapped_def)
  qed
  moreover have "\<not> bit (bentry d STACK_BOTTOM s4) 0" using s4(6) sb(1) by (simp add: bit_simps PERM_PRESENT_def)
  ultimately have "stack_entries d stk s4" by (simp add: stack_entries_def)
  moreover have "dir_entries d {0x3BE} s4" using s3(4) s4(4) by (simp add: dir_entries_def)
  ultimately show ?thesis using s3(1,5) s4(1,2,5) boot_step_trans [OF s3(3) s4(3)] by auto
qed

lemma UENVS_pages:
  assumes "k < 256"
  shows "PDX (page_at UENVS k) = 0x3BB" "unat (PPN (page_at UENVS k)) = 0xEEC00 + k"
proof -
  have "unat UENVS = 0xEEC00000" by (simp add: UENVS_def UVPT_def PTSIZE_def)
  then have u: "unat (page_at UENVS k) = 0xEEC00000 + 4096 * k" using assms by (simp add: unat_page_at)
  then show "unat (PPN (page_at UENVS k)) = 0xEEC00 + k" by (simp add: unat_PPN)
  have "(0xEEC00000 + 4096 * k) div 4194304 = 0x3BB" using assms by (intro div_nat_eqI) simp_all
  then show "PDX (page_at UENVS k) = 0x3BB" by (simp add: word_unat_eq_iff unat_PDX u)
qed

lemma KERNEL_pages:
  assumes "k < 65536"
  shows "PDX (page_at KERNEL_BASE k) \<in> kernel_entries" "in_tables (page_at KERNEL_BASE k)" "unat (PPN (page_at KERNEL_BASE k)) = 0xF0000 + k"
proof -
  have "unat KERNEL_BASE = 0xF0000000" by (simp add: KERNEL_BASE_def)
  then have u: "unat (page_at KERNEL_BASE k) = 0xF0000000 + 4096 * k" using assms by (simp add: unat_page_at)
  then show "unat (PPN (page_at KERNEL_BASE k)) = 0xF0000 + k" by (simp add: unat_PPN)
  have "(0xF0000000 + 4096 * k) div 4194304 = 0x3C0 + k div 1024"
    using div_mult_mult1 [of 4096 k 1024] by (simp add: div_plus_div_distrib_dvd_left)
  then have p: "unat (PDX (page_at KERNEL_BASE k)) = 0x3C0 + k div 1024" by (simp add: unat_PDX u)
  have j: "k div 1024 < 64" using assms by (simp add: less_mult_imp_div_less)
  then have "PDX (page_at KERNEL_BASE k) = 0x3C0 + of_nat (k div 1024)"
    by (simp add: word_unat_eq_iff p unat_word_ariths unat_of_nat_u32 del: of_nat_div)
  then show "PDX (page_at KERNEL_BASE k) \<in> kernel_entries" using j by (auto simp: kernel_entries_def)
  show "in_tables (page_at KERNEL_BASE k)" using p by (auto simp: in_tables_def word_unat_eq_iff)
qed

definition user_envs :: "frame \<Rightarrow> u32 \<Rightarrow> u32 \<Rightarrow> 'z mem_state_scheme \<Rightarrow> bool" where
  "user_envs d n pa s \<longleftrightarrow> (\<forall>k < pages n. bentry d (page_at UENVS k) s = page_at pa k OR (PERM_USER OR PERM_PRESENT))"

definition kernel_bytes :: "'z boot_state_scheme \<Rightarrow> u32" where
  "kernel_bytes s = (if use_kheap s then ptr_free_mem s - KERNEL_BASE else 0xFFFFFFFF - KERNEL_BASE)"

lemma kernel_pages:
  assumes "0xF0000000 < unat (ptr_free_mem s)"
  shows "unat (kernel_bytes s) < 0x10000000" "pages (kernel_bytes s) \<le> 65536" "\<not> use_kheap s \<Longrightarrow> pages (kernel_bytes s) = 65536"
proof -
  have "KERNEL_BASE \<le> ptr_free_mem s" using assms by (simp add: word_le_nat_alt KERNEL_BASE_def)
  then have "unat (ptr_free_mem s - KERNEL_BASE) < 0x10000000"
    using unat_u32_less [of "ptr_free_mem s"] by (simp add: unat_sub) (simp add: KERNEL_BASE_def)
  then show m: "unat (kernel_bytes s) < 0x10000000" by (simp add: kernel_bytes_def KERNEL_BASE_def)
  then show "pages (kernel_bytes s) \<le> 65536" by (simp add: pages_def)
  show "\<not> use_kheap s \<Longrightarrow> pages (kernel_bytes s) = 65536" by (simp add: kernel_bytes_def pages_def KERNEL_BASE_def)
qed

lemma kernel_bytes_write [simp]: "kernel_bytes (write_phys f i v s) = kernel_bytes s"
  by (simp add: kernel_bytes_def)

definition kernel_at_base :: "frame \<Rightarrow> 'z boot_state_scheme \<Rightarrow> bool" where
  "kernel_at_base d s \<longleftrightarrow> (\<forall>k < pages (kernel_bytes s). bentry d (page_at KERNEL_BASE k) s = page_at 0 k OR (PERM_WRITEABLE OR PERM_PRESENT))"

lemma range_keeps:
  assumes "range_mapped d va n e s s'" "unat va + 4096 * n \<le> 2 ^ 32" "in_tables w"
    and "unat (PPN w) < unat va div 4096 \<or> unat va div 4096 + n \<le> unat (PPN w)"
  shows "bentry d w s' = bentry d w s"
proof -
  have "PPN w \<noteq> PPN (page_at va k)" if "k < n" for k
    using PPN_page_at [OF assms(2) that] assms(4) that by (auto simp: word_unat_eq_iff)
  then show ?thesis using assms(1,3) by (simp add: range_mapped_def)
qed

lemma stack_entries_keep:
  assumes "stack_entries d stk s" "\<And>k. k < 8 \<Longrightarrow> bentry d (page_at STACK_BOTTOM k) s' = bentry d (page_at STACK_BOTTOM k) s"
  shows "stack_entries d stk s'"
  using assms(1) assms(2) [of 0] assms(2) by (simp add: stack_entries_def page_at_def)

lemma STACK_in_tables: "k < 8 \<Longrightarrow> in_tables (page_at STACK_BOTTOM k)"
  by (simp add: in_tables_def STACK_pages)

lemma boot_users:
  assumes ok: "boot_ok d s" "dir_entries d I s" "0x3BB \<notin> I" "stack_entries d stk s" and n: "n \<noteq> 0" "unat n \<le> 0x100000"
    and r: "room (up (unat (ptr_free_mem s)) + 4096) (number_of_frames s)"
  shows "\<exists>s'. boot_map_range L d UENVS n pa PERM_USER s = Some s' \<and> boot_ok d s' \<and> boot_step s s' \<and> dir_entries d (insert 0x3BB I) s' \<and>
    unat (ptr_free_mem s') = up (unat (ptr_free_mem s)) + 4096 \<and> stack_entries d stk s' \<and> user_envs d n pa s'"
proof -
  have u: "unat UENVS = 0xEEC00000" by (simp add: UENVS_def UVPT_def PTSIZE_def)
  have pg: "pages n \<le> 256" using n(2) by (simp add: pages_def)
  then have v: "unat UENVS + 4096 * pages n \<le> 2 ^ 32" by (simp add: u)
  have "unat n + 4096 \<le> 2 ^ 32" using n(2) by simp
  moreover have "PDX (page_at UENVS k) = 0x3BB" if "k < pages n" for k using UENVS_pages(1) [of k] that pg by simp
  ultimately obtain s' where
    s': "boot_map_range L d UENVS n pa PERM_USER s = Some s'" "boot_ok d s'" "boot_step s s'" "dir_entries d (insert 0x3BB I) s'"
      "unat (ptr_free_mem s') = up (unat (ptr_free_mem s)) + 4096"
      "range_mapped d UENVS (pages n) (\<lambda>k. page_at pa k OR (PERM_USER OR PERM_PRESENT)) s s'"
    using boot_map_new_table [OF ok(1,2,3), of n UENVS L pa PERM_USER] v n(1) r by auto
  have "stack_entries d stk s'"
    by (rule stack_entries_keep [OF ok(4)], rule range_keeps [OF s'(6) v]) (use pg in \<open>simp_all add: STACK_in_tables STACK_pages u\<close>)
  moreover have "user_envs d n pa s'" using s'(6) by (simp add: user_envs_def range_mapped_def)
  ultimately show ?thesis using s' by blast
qed

lemma boot_kernel:
  assumes ok: "boot_ok d s" "dir_entries d I s" "kernel_entries \<subseteq> I" "stack_entries d stk s" "user_envs d n pa s" "unat n \<le> 0x100000"
  shows "\<exists>s'. boot_map_range L d KERNEL_BASE (kernel_bytes s) 0 PERM_WRITEABLE s = Some s' \<and> boot_ok d s' \<and> boot_step s s' \<and>
    dir_entries d I s' \<and> ptr_free_mem s' = ptr_free_mem s \<and> stack_entries d stk s' \<and> user_envs d n pa s' \<and> kernel_at_base d s'"
proof -
  let ?m = "kernel_bytes s"
  have kb: "unat KERNEL_BASE = 0xF0000000" by (simp add: KERNEL_BASE_def)
  note m = kernel_pages(1) [OF boot_okD(1) [OF ok(1)]] and pg = kernel_pages(2) [OF boot_okD(1) [OF ok(1)]]
  then have v: "unat KERNEL_BASE + 4096 * pages ?m \<le> 2 ^ 32" by (simp add: kb)
  have tb: "in_tables (page_at KERNEL_BASE k) \<and> phys s d (PDX (page_at KERNEL_BASE k)) \<noteq> 0" if "k < pages ?m" for k
    using KERNEL_pages(1,2) [of k] that pg ok(2,3) PDX_less by (auto simp: dir_entries_def)
  from boot_map_range_view [OF ok(1) _ v tb, of L 0 PERM_WRITEABLE] m obtain s' where
    s': "boot_map_range L d KERNEL_BASE ?m 0 PERM_WRITEABLE s = Some s'" "boot_ok d s'" "boot_step s s'" "phys s' d = phys s d"
      "ptr_free_mem s' = ptr_free_mem s" "range_mapped d KERNEL_BASE (pages ?m) (\<lambda>k. page_at 0 k OR (PERM_WRITEABLE OR PERM_PRESENT)) s s'" by auto
  have "stack_entries d stk s'"
    by (rule stack_entries_keep [OF ok(4)], rule range_keeps [OF s'(6) v]) (simp_all add: STACK_in_tables STACK_pages kb)
  moreover have "bentry d (page_at UENVS k) s' = bentry d (page_at UENVS k) s" if "k < pages n" for k
  proof (rule range_keeps [OF s'(6) v])
    have "k < 256" using that ok(6) by (simp add: pages_def)
    then show "in_tables (page_at UENVS k)" "unat (PPN (page_at UENVS k)) < unat KERNEL_BASE div 4096 \<or>
        unat KERNEL_BASE div 4096 + pages ?m \<le> unat (PPN (page_at UENVS k))" by (simp_all add: in_tables_def UENVS_pages kb)
  qed
  then have "user_envs d n pa s'" using ok(5) by (simp add: user_envs_def)
  moreover have "kernel_bytes s' = ?m" using s'(3,5) by (simp add: kernel_bytes_def boot_step_def)
  then have "kernel_at_base d s'" using s'(6) by (simp add: kernel_at_base_def range_mapped_def)
  moreover have "dir_entries d I s'" using ok(2) s'(4) by (simp add: dir_entries_def)
  ultimately show ?thesis using s' by blast
qed

definition boot_entries :: "u32 set" where
  "boot_entries = insert 0x3BB (insert 0x3BD (insert 0x3BF kernel_entries))"

lemma boot_entries_iff:
  assumes "i < 1024"
  shows "i \<in> boot_entries \<longleftrightarrow> i \<in> {PDX VPT, PDX UVPT, PDX (KERN_STACK_TOP - 1), PDX UENVS} \<or> i \<ge> PDX KERNEL_BASE"
proof -
  have c: "PDX VPT = 0x3BF" "PDX UVPT = 0x3BD" "PDX (KERN_STACK_TOP - 1) = 0x3BE" "PDX UENVS = 0x3BB" "PDX KERNEL_BASE = 0x3C0"
    by (simp_all add: PDX_def VPT_def UVPT_def KERN_STACK_TOP_def UENVS_def PTSIZE_def KERNEL_BASE_def)
  have "(\<exists>k < 64. i = 0x3C0 + of_nat k) \<longleftrightarrow> 0x3C0 \<le> i"
  proof
    assume "0x3C0 \<le> i"
    then have "i = 0x3C0 + of_nat (unat i - 0x3C0)" "unat i - 0x3C0 < 64"
      using assms by (simp_all add: word_unat_eq_iff word_le_nat_alt word_less_nat_alt unat_word_ariths unat_of_nat_u32)
    then show "\<exists>k < 64. i = 0x3C0 + of_nat k" by blast
  next
    assume "\<exists>k < 64. i = 0x3C0 + of_nat k"
    then show "0x3C0 \<le> i" by (auto simp: word_le_nat_alt unat_word_ariths unat_of_nat_u32)
  qed
  then show ?thesis unfolding boot_entries_def kernel_entries_def c by (auto simp: image_iff)
qed

lemma PDX_in_boot: "PDX STACK_BOTTOM \<in> boot_entries" "kernel_entries \<subseteq> boot_entries"
  using STACK_pages(1) [of 0] by (auto simp: boot_entries_def kernel_entries_def page_at_def)

lemma boot_entry_used: "dir_entries d boot_entries s \<Longrightarrow> PDX va \<in> boot_entries \<Longrightarrow> phys s d (PDX va) \<noteq> 0"
  by (simp add: dir_entries_def PDX_less)

text \<open>The pages of the kernel, its stack and the users' view of the processes, as the processor sees them.\<close>

lemma boot_pages_seen:
  assumes ok: "boot_ok d s" "dir_entries d boot_entries s"
  shows "kernel_at_base d s \<Longrightarrow> k < pages (kernel_bytes s) \<Longrightarrow> check_va2pa d (page_at KERNEL_BASE k) s = Some (page_at 0 k)"
    and "stack_entries d stk s \<Longrightarrow> 4096 dvd unat stk \<Longrightarrow> j \<in> {1..<8} \<Longrightarrow> check_va2pa d (page_at STACK_BOTTOM j) s = Some (page_at stk j)"
    and "stack_entries d stk s \<Longrightarrow> check_va2pa d STACK_BOTTOM s = Some (NOT 0)"
    and "user_envs d n pa s \<Longrightarrow> 4096 dvd unat pa \<Longrightarrow> unat n \<le> 0x100000 \<Longrightarrow> i < pages n \<Longrightarrow> check_va2pa d (page_at UENVS i) s = Some (page_at pa i)"
proof -
  have W: "EXTRACT_ADDRESS PERM_WRITEABLE = 0" "EXTRACT_ADDRESS PERM_USER = 0"
    by (simp_all add: EXTRACT_ADDRESS_def PERM_WRITEABLE_def PERM_USER_def)
  note m = kernel_pages(2) [OF boot_okD(1) [OF ok(1)]]
  show "check_va2pa d (page_at KERNEL_BASE k) s = Some (page_at 0 k)" if "kernel_at_base d s" "k < pages (kernel_bytes s)"
  proof -
    have k: "k < 65536" using that(2) m by simp
    have u: "PDX (page_at KERNEL_BASE k) \<in> boot_entries" using KERNEL_pages(1) [OF k] PDX_in_boot(2) by blast
    show ?thesis
      by (rule check_boot_entry [OF ok(1) KERNEL_pages(2) [OF k] boot_entry_used [OF ok(2) u] _ _ W(1)]) (use that in \<open>simp_all add: kernel_at_base_def\<close>)
  qed
  have it: "in_tables (page_at STACK_BOTTOM j)" "phys s d (PDX (page_at STACK_BOTTOM j)) \<noteq> 0" if "j < 8" for j
    using STACK_in_tables [OF that] STACK_pages(1) [OF that] STACK_pages(1) [of 0] boot_entry_used [OF ok(2) PDX_in_boot(1)] by (simp_all add: page_at_def)
  show "check_va2pa d (page_at STACK_BOTTOM j) s = Some (page_at stk j)" if "stack_entries d stk s" "4096 dvd unat stk" "j \<in> {1..<8}"
    by (rule check_boot_entry [OF ok(1) it _ _ W(1)]) (use that in \<open>simp_all add: stack_entries_def\<close>)
  show "check_va2pa d STACK_BOTTOM s = Some (NOT 0)" if "stack_entries d stk s"
    using check_va2pa_bentry [OF ok(1) it(1) it(2), of 0] that by (simp add: page_at_def stack_entries_def)
  show "check_va2pa d (page_at UENVS i) s = Some (page_at pa i)" if "user_envs d n pa s" "4096 dvd unat pa" "unat n \<le> 0x100000" "i < pages n"
  proof -
    have "i < 256" using that(3,4) by (simp add: pages_def)
    then have i: "in_tables (page_at UENVS i)" "PDX (page_at UENVS i) \<in> boot_entries" by (simp_all add: in_tables_def UENVS_pages boot_entries_def)
    show ?thesis
      by (rule check_boot_entry [OF ok(1) i(1) boot_entry_used [OF ok(2) i(2)] _ that(2) W(2)]) (use that in \<open>simp add: user_envs_def\<close>)
  qed
qed

lemma check_kernel_pages:
  assumes ok: "boot_ok d s" "dir_entries d boot_entries s" "ptr_page_directory s = d"
    and k: "kernel_at_base d s" and top: "unat (ptr_free_mem s) \<le> 0xFFFFF000" and h: "use_kheap s"
  shows "each_page PAGES_32 (\<lambda>va s. do { assert_that (check_boot_page va (va - KERNEL_BASE) 0 s); Some s }) KERNEL_BASE (ptr_free_mem s) s = Some s"
proof -
  let ?f = "\<lambda>va s. do { assert_that (check_boot_page va (va - KERNEL_BASE) 0 s); Some s }"
  let ?n = "pages (ptr_free_mem s - KERNEL_BASE)"
  note seen = boot_pages_seen(1) [OF ok(1,2)]
  have kb: "unat KERNEL_BASE = 0xF0000000" by (simp add: KERNEL_BASE_def)
  have le: "KERNEL_BASE \<le> ptr_free_mem s" using boot_okD(1) [OF ok(1)] by (simp add: word_le_nat_alt kb)
  then have m: "unat (ptr_free_mem s - KERNEL_BASE) = unat (ptr_free_mem s) - 0xF0000000" by (simp add: unat_sub kb)
  have "\<exists>s'. each_page PAGES_32 ?f (page_at KERNEL_BASE 0) (ptr_free_mem s) s = Some s' \<and> s' = s"
  proof (rule each_page_inv [where n = ?n and P = "\<lambda>k s'. s' = s"])
    fix k s1 assume "k < ?n" "s1 = s"
    moreover have "page_at KERNEL_BASE k - KERNEL_BASE = page_at 0 k" by (simp add: page_at_def)
    ultimately show "\<exists>s'. ?f (page_at KERNEL_BASE k) s1 = Some s' \<and> s' = s"
      using seen [OF k, of k] h ok(3) by (simp add: check_boot_page_def assert_that_def kernel_bytes_def)
  next
    fix k assume "k < ?n"
    then show "page_at KERNEL_BASE k < ptr_free_mem s"
      using unat_u32_less [of "ptr_free_mem s"] by (simp add: pages_bounds m word_less_nat_alt unat_page_at kb)
  next
    have "?n \<le> 0xFFFF" unfolding pages_def m using top by simp
    then have "unat (page_at KERNEL_BASE ?n) = 0xF0000000 + 4096 * ?n" by (simp add: unat_page_at kb)
    moreover have "unat (ptr_free_mem s) - 0xF0000000 \<le> 4096 * ?n" using pages_bounds [of ?n "ptr_free_mem s - KERNEL_BASE"] by (simp add: m)
    ultimately show "\<not> page_at KERNEL_BASE ?n < ptr_free_mem s" by (simp add: word_less_nat_alt)
  qed (use unat_u32_less [of "ptr_free_mem s"] in \<open>simp_all add: pages_def m PAGES_32_def\<close>)
  then show ?thesis by (simp add: page_at_def)
qed

lemma check_boot_pgdir_passes:
  assumes ok: "boot_ok d s" "dir_entries d boot_entries s" "ptr_page_directory s = d"
    and stk: "STATIC_KERNEL_PHYSICAL_ADDRESS (ptr_stack_bottom L) = Some stk" "4096 dvd unat stk" "stack_entries d stk s"
    and k: "kernel_at_base d s" and top: "unat (ptr_free_mem s) \<le> 0xFFFFF000"
  shows "check_boot_pgdir L s = Some s"
proof -
  let ?f = "\<lambda>va s. do { assert_that (check_boot_page va (va - KERNEL_BASE) 0 s); Some s }"
  note seen = boot_pages_seen [OF ok(1,2)]
  have stack: "\<forall>j \<in> set [0..<8]. let i = of_nat j * PAGE_SIZE in
       i mod KERNEL_STACK_SIZE = 0 \<or> check_boot_page (KERN_STACK_TOP - NCPUS * KERNEL_STACK_SIZE) stk i s"
  proof
    fix j assume "j \<in> set [0..<8 :: nat]"
    then have "j = 0 \<or> j \<in> {1..<8}" by auto
    then show "let i = of_nat j * PAGE_SIZE in i mod KERNEL_STACK_SIZE = 0 \<or> check_boot_page (KERN_STACK_TOP - NCPUS * KERNEL_STACK_SIZE) stk i s"
      using seen(2) [OF stk(3,2), of j] ok(3) by (elim disjE) (simp_all add: check_boot_page_def Let_def page_at_def STACK_BOTTOM_def)
  qed
  have pdes: "\<forall>j \<in> set [0..<NPDENTRIES]. check_boot_pde (of_nat j) s"
  proof
    fix j assume "j \<in> set [0..<NPDENTRIES]"
    then have "(of_nat j :: u32) < 1024" by (simp add: NPDENTRIES_def word_less_nat_alt unat_of_nat_u32)
    note lt = this
    show "check_boot_pde (of_nat j) s"
      unfolding check_boot_pde_def ok(3) boot_entries_iff [OF lt, symmetric] using ok(2) lt by (auto simp: dir_entries_def)
  qed
  have "(if use_kheap s then each_page PAGES_32 ?f KERNEL_BASE (ptr_free_mem s) s
     else do { assert_that (\<forall>k \<in> set [0..<65536]. check_boot_page KERNEL_BASE 0 (of_nat k * PAGE_SIZE) s); Some s }) = Some s"
  proof (cases "use_kheap s")
    case True
    then show ?thesis using check_kernel_pages [OF ok k top] by simp
  next
    case False
    have "check_boot_page KERNEL_BASE 0 (of_nat k * PAGE_SIZE) s" if "k \<in> set [0..<65536]" for k
      using seen(1) [OF k, of k] that kernel_pages(3) [OF boot_okD(1) [OF ok(1)] False] ok(3)
      by (simp add: check_boot_page_def page_at_def PAGE_SIZE_def)
    then show ?thesis using False by (simp add: assert_that_def)
  qed
  then show ?thesis using stack pdes stk(1) unfolding check_boot_pgdir_def by (simp add: assert_that_def)
qed

section \<open>Paging\<close>

lemma fold_step: "(\<And>j s. boot_step s (F j s)) \<Longrightarrow> boot_step s (fold F js s)"
  by (induction js arbitrary: s) (auto intro: boot_step_refl boot_step_trans)

lemma fold_ptr: "(\<And>j s. ptr_free_mem (F j s) = ptr_free_mem s) \<Longrightarrow> ptr_free_mem (fold F js s) = ptr_free_mem s"
  by (induction js arbitrary: s) auto

lemma fold_write_other: "f \<noteq> d \<or> i \<notin> of_nat ` set js \<Longrightarrow> phys (fold (\<lambda>j s. write_phys d (of_nat j) (g j s) s) js s) f i = phys s f i"
  by (induction js arbitrary: s) auto

lemma fold_write_zero: "i \<in> of_nat ` set js \<Longrightarrow> phys (fold (\<lambda>j s. write_phys d (of_nat j) 0 s) js s) d i = 0"
proof (induction js arbitrary: s)
  case (Cons j js)
  show ?case
  proof (cases "i \<in> of_nat ` set js")
    case True
    then show ?thesis using Cons.IH by simp
  next
    case False
    then show ?thesis using Cons.prems fold_write_other [of d d i js "\<lambda>_ _. 0" "write_phys d (of_nat j) 0 s"] by auto
  qed
qed simp

text \<open>What the processor's set-up between the two copies of the directory keeps.\<close>

definition paging_same :: "'z boot_state_scheme \<Rightarrow> 'z boot_state_scheme \<Rightarrow> bool" where
  "paging_same s s' \<longleftrightarrow> ptr_free_mem s' = ptr_free_mem s \<and> number_of_frames s' = number_of_frames s \<and>
     ptr_page_directory s' = ptr_page_directory s \<and> use_kheap s' = use_kheap s \<and> envs_at s' = envs_at s \<and> cpu_ok s' = cpu_ok s"

lemma paging_same_trans: "paging_same s1 s2 \<Longrightarrow> paging_same s2 s3 \<Longrightarrow> paging_same s1 s3"
  by (simp add: paging_same_def)

lemma paging_same_fold:
  "(\<And>j s. paging_same s (F j s)) \<Longrightarrow> paging_same s (fold F js s)"
  "(\<And>j s. cr0 (F j s) = cr0 s) \<Longrightarrow> cr0 (fold F js s) = cr0 s"
proof (induction js arbitrary: s)
  case Nil
  { case 1 then show ?case by (simp add: paging_same_def) next case 2 then show ?case by simp }
next
  case (Cons j js)
  { case 1 then show ?case using Cons.IH(1) paging_same_trans by fastforce next case 2 then show ?case using Cons.IH(2) by simp }
qed

lemma load_gdt:
  assumes "cpu_ok s"
  shows "\<exists>s'. popcli ((pushcli s)\<lparr>gdtr := Some (gdt (pushcli s))\<rparr>) = Some s' \<and> paging_same s s' \<and> phys s' = phys s \<and> cr0 s' = cr0 s"
  using assms by (auto simp: pushcli_def popcli_def cli_def sti_def cpu_ok_def Let_def paging_same_def)

lemma write_phys_paging: "paging_same s (write_phys f i v s)" "cr0 (write_phys f i v s) = cr0 s"
  by (simp_all add: paging_same_def write_phys_def cpu_ok_def)

lemma lcr3_paging: "paging_same s (lcr3 c s)" "cr0 (lcr3 c s) = cr0 s" "phys (lcr3 c s) = phys s" "cpu_cr3 (lcr3 c s) = c"
  by (simp_all add: paging_same_def lcr3_def tlbflush_def cpu_ok_def)

lemma turn_on_paging_keeps:
  assumes ok: "cpu_ok s" "dir_entries (ptr_page_directory s) boot_entries s"
  shows "\<exists>s'. turn_on_paging s = Some s' \<and> paging_same s s' \<and> phys s' = phys s \<and>
    cpu_cr3 s' = to_physical_address (ptr_page_directory s) \<and> bit (cr0 s') 31 \<and> bit (cr0 s') 16"
proof -
  let ?d = "ptr_page_directory s" and ?c = "to_physical_address (ptr_page_directory s)"
  let ?js = "[0..<low_entries s]"
  let ?s1 = "fold (\<lambda>j s. write_phys ?d (of_nat j) (phys s ?d (PDX KERNEL_BASE + of_nat j)) s) ?js s"
  let ?s3 = "(lcr3 ?c ?s1)\<lparr>cr0 := (cr0 (lcr3 ?c ?s1) OR CR0_SET) AND NOT CR0_CLEAR\<rparr>"
  have p1: "paging_same s ?s1" by (intro paging_same_fold write_phys_paging)
  have p3: "paging_same s ?s3" using paging_same_trans [OF p1 lcr3_paging(1)] by (simp add: paging_same_def cpu_ok_def)
  from load_gdt [of ?s3] p3 ok(1) obtain s5 where
    s5: "popcli ((pushcli ?s3)\<lparr>gdtr := Some (gdt (pushcli ?s3))\<rparr>) = Some s5" "paging_same ?s3 s5" "phys s5 = phys ?s3" "cr0 s5 = cr0 ?s3"
    by (auto simp: paging_same_def)
  let ?s6 = "s5\<lparr>seg_regs := \<lparr>seg_cs = GD_KT, seg_ds = GD_KD, seg_es = GD_KD, seg_ss = GD_KD, seg_fs = GD_UD OR 3, seg_gs = GD_UD OR 3, seg_ldt = 0\<rparr>\<rparr>"
  have p6: "paging_same s ?s6" using paging_same_trans [OF p3 s5(2)] by (simp add: paging_same_def cpu_ok_def)
  then have low: "low_entries ?s6 = low_entries s" by (simp add: paging_same_def low_entries_def)
  let ?s7 = "fold (\<lambda>j s. write_phys ?d (of_nat j) 0 s) ?js ?s6"
  have p7: "paging_same s ?s7" by (rule paging_same_trans [OF p6]) (intro paging_same_fold write_phys_paging)
  have "phys ?s7 f i = phys s f i" for f i
  proof (cases "f = ?d \<and> i \<in> of_nat ` set ?js")
    case True
    then obtain j where j: "i = of_nat j" "j < low_entries s" by auto
    have "unat (PDX (ptr_free_mem s)) < 1024" using PDX_less [of "ptr_free_mem s"] by (simp add: word_less_nat_alt)
    then have "j < 64" using j(2) by (simp add: low_entries_def PDX_def KERNEL_BASE_def)
    then have "i < 1024" "i \<notin> boot_entries"
      using j(1) by (auto simp: word_less_nat_alt unat_of_nat_u32 boot_entries_def kernel_entries_def word_unat_eq_iff unat_word_ariths)
    then have "phys s ?d i = 0" using ok(2) by (auto simp: dir_entries_def)
    then show ?thesis using True fold_write_zero [of i ?js ?d ?s6] by simp
  next
    case False
    then have n: "f \<noteq> ?d \<or> i \<notin> of_nat ` set ?js" by blast
    show ?thesis using fold_write_other [OF n, of "\<lambda>_ _. 0" ?s6] fold_write_other [OF n, of "\<lambda>j s. phys s ?d (PDX KERNEL_BASE + of_nat j)" s]
      by (simp add: s5(3) lcr3_paging)
  qed
  then have "phys ?s7 = phys s" by (intro ext)
  moreover have "turn_on_paging s = Some (lcr3 ?c ?s7)" using s5(1) low by (simp add: turn_on_paging_def Let_def)
  moreover have "cr0 ?s7 = cr0 ?s6" by (rule paging_same_fold(2)) (rule write_phys_paging(2))
  then have "cr0 ?s7 = cr0 ?s3" using s5(4) by simp
  ultimately show ?thesis
    using paging_same_trans [OF p7 lcr3_paging(1)] by (simp add: lcr3_paging bit_simps CR0_SET_def CR0_CLEAR_def)
qed

section \<open>The kernel's address space\<close>

text \<open>The end of what is allocated at boot: directory, 65 tables, two arrays of frames, the processes and their table.\<close>

definition boot_end :: "boot_layout \<Rightarrow> u32 \<Rightarrow> nat" where
  "boot_end L nf =
     (let tables = up (unat (end_of_kernel L)) + 66 * 4096;
          frames = tables + unat nf * unat (sizeof_FrameInfo L);
          disk = up frames + 133120 * unat (sizeof_FrameInfo L);
          procs = up disk + NENV_of L * unat (sizeof_Env L)
      in up procs + 4096)"

definition boot_env :: "frame \<Rightarrow> u32 \<Rightarrow> bool \<Rightarrow> 'z boot_state_scheme \<Rightarrow> bool" where
  "boot_env d nf h s \<longleftrightarrow> number_of_frames s = nf \<and> use_kheap s = h \<and> ptr_page_directory s = d \<and> cpu_ok s"

lemma boot_env_step: "boot_step s s' \<Longrightarrow> boot_env d nf h s \<Longrightarrow> boot_env d nf h s'"
  by (simp add: boot_env_def boot_step_def cpu_ok_def)

lemma up_mono: "a \<le> b \<Longrightarrow> up a \<le> up b"
  by (simp add: up_def div_le_mono)

lemma NENV_bytes:
  assumes "0 < sizeof_Env L" "unat (sizeof_Env L) \<le> 0x100000"
  shows "unat (of_nat (NENV_of L) * sizeof_Env L) = NENV_of L * unat (sizeof_Env L)" "NENV_of L * unat (sizeof_Env L) \<le> 0x100000"
    "0 < NENV_of L * unat (sizeof_Env L)"
proof -
  let ?z = "unat (sizeof_Env L)"
  have n: "NENV_of L = 0x100000 div ?z" by (simp add: NENV_of_def PTSIZE_def unat_div)
  have z: "0 < ?z" using assms(1) by (simp add: word_less_nat_alt)
  show le: "NENV_of L * ?z \<le> 0x100000" unfolding n by (rule div_times_less_eq_dividend)
  show "0 < NENV_of L * ?z" unfolding n using z assms(2) by (simp add: div_greater_zero_iff)
  have "NENV_of L \<le> 0x100000" unfolding n by (rule div_le_dividend)
  then have "unat (of_nat (NENV_of L) :: u32) = NENV_of L" by (intro unat_of_nat_u32) simp
  then show "unat (of_nat (NENV_of L) * sizeof_Env L) = NENV_of L * ?z" using le by (simp add: unat_word_ariths)
qed

text \<open>The directory, the stack and the tables of the kernel.\<close>

definition boot_stage :: "frame \<Rightarrow> u32 \<Rightarrow> bool \<Rightarrow> u32 set \<Rightarrow> u32 \<Rightarrow> 'z boot_state_scheme \<Rightarrow> bool" where
  "boot_stage d nf h I stk s \<longleftrightarrow> boot_ok d s \<and> dir_entries d I s \<and> boot_env d nf h s \<and> stack_entries d stk s"

lemma boot_stage_keep:
  assumes "boot_stage d nf h I stk s" "boot_ok d s'" "dir_entries d J s'" "boot_step s s'" "\<forall>w. in_tables w \<longrightarrow> bentry d w s' = bentry d w s"
  shows "boot_stage d nf h J stk s'"
  using assms boot_env_step [of s s' d nf h] stack_entries_keep [of d stk s s'] STACK_in_tables by (simp add: boot_stage_def)

lemma boot_stage_fields:
  assumes "boot_stage d nf h I stk s" "phys s' = phys s" "ptr_free_mem s' = ptr_free_mem s" "number_of_frames s' = number_of_frames s"
    "use_kheap s' = use_kheap s" "ptr_page_directory s' = ptr_page_directory s" "cpu_ok s' = cpu_ok s"
  shows "boot_stage d nf h I stk s'"
  using assms boot_cong [OF assms(2-4)] by (simp add: boot_stage_def boot_env_def stack_entries_def)

lemma boot_stage_tables:
  fixes s :: "'z boot_state_scheme"
  assumes s: "boot_ok d s" "dir_entries d {} s" "boot_env d nf h s" "4096 dvd unat (ptr_free_mem s)"
    and r: "room (unat (ptr_free_mem s) + 4096 * 65) nf"
  shows "\<exists>s3 s4 s5. boot_map_range L d STACK_BOTTOM (NCPUS * KERNEL_STACK_SIZE) stk PERM_WRITEABLE s = Some s3 \<and>
    pt_set_page_permissions d STACK_BOTTOM 0 PERM_PRESENT s3 = Some ((), s4) \<and> run_all (boot_table L d) [0..<64] s4 = Some s5 \<and>
    boot_stage d nf h kernel_entries stk s5 \<and> unat (ptr_free_mem s5) = unat (ptr_free_mem s) + 4096 * 65"
proof -
  have nf: "number_of_frames s = nf" using s(3) by (simp add: boot_env_def)
  have "room (up (unat (ptr_free_mem s)) + 4096) (number_of_frames s)" using room_mono [OF r] by (simp add: nf up_id [OF s(4)])
  from boot_stack [OF s(1,2) this, of L stk] obtain s3 s4 where
    s4: "boot_map_range L d STACK_BOTTOM (NCPUS * KERNEL_STACK_SIZE) stk PERM_WRITEABLE s = Some s3"
      "pt_set_page_permissions d STACK_BOTTOM 0 PERM_PRESENT s3 = Some ((), s4)" "boot_ok d s4" "dir_entries d {0x3BE} s4" "boot_step s s4"
      "stack_entries d stk s4" "unat (ptr_free_mem s4) = unat (ptr_free_mem s) + 4096" by (auto simp: up_id [OF s(4)])
  have e4: "boot_env d nf h s4" by (rule boot_env_step [OF s4(5) s(3)])
  have "4096 dvd unat (ptr_free_mem s4)" "room (unat (ptr_free_mem s4) + 4096 * 64) (number_of_frames s4)"
    using s(4) e4 r by (simp_all add: s4(7) boot_env_def add.assoc)
  from boot_kernel_tables [OF s4(3,4) this, of 64 L] obtain s5 where
    s5: "run_all (boot_table L d) [0..<64] s4 = Some s5" "boot_ok d s5" "boot_step s4 s5" "dir_entries d kernel_entries s5"
      "\<forall>w. in_tables w \<longrightarrow> bentry d w s5 = bentry d w s4" "unat (ptr_free_mem s5) = unat (ptr_free_mem s4) + 4096 * 64"
    unfolding kernel_entries_def by auto
  have "boot_stage d nf h {0x3BE} stk s4" using s4 e4 by (simp add: boot_stage_def)
  from boot_stage_keep [OF this s5(2,4,3,5)] show ?thesis using s4(1,2,7) s5(1,6) by (intro exI [of _ s3] exI [of _ s4] exI [of _ s5]) simp
qed

lemma boot_stage_array:
  assumes s: "boot_stage d nf h I stk s" and r: "room (up (unat (ptr_free_mem s)) + unat n) nf"
  shows "\<exists>a s'. boot_allocate_space L n PAGE_SIZE s = (a, s') \<and> boot_stage d nf h I stk s' \<and>
    unat (ptr_free_mem s') = up (unat (ptr_free_mem s)) + unat n \<and> KERNEL_BASE \<le> a \<and> 4096 dvd unat (a - KERNEL_BASE) \<and> boot_step s s'"
proof -
  have "number_of_frames s = nf" using s by (simp add: boot_stage_def boot_env_def)
  then have "room (up (unat (ptr_free_mem s)) + unat n) (number_of_frames s)" using r by simp
  with boot_array [of d s I n L] s obtain a s' where
    "boot_allocate_space L n PAGE_SIZE s = (a, s')" "boot_ok d s'" "dir_entries d I s'" "boot_step s s'"
    "\<forall>w. in_tables w \<longrightarrow> bentry d w s' = bentry d w s" "unat (ptr_free_mem s') = up (unat (ptr_free_mem s)) + unat n" "KERNEL_BASE \<le> a"
    "4096 dvd unat (a - KERNEL_BASE)" by (auto simp: boot_stage_def)
  then show ?thesis using boot_stage_keep [OF s] by blast
qed

lemma boot_stage_listing:
  assumes "boot_stage d nf h I stk s"
  shows "boot_stage d nf h (insert 0x3BD (insert 0x3BF I)) stk (setup_listing_to_all_page_tables_entries s)"
    "ptr_free_mem (setup_listing_to_all_page_tables_entries s) = ptr_free_mem s"
proof -
  let ?pa = "to_physical_address d"
  let ?v = "CONSTRUCT_ENTRY ?pa (PERM_PRESENT OR PERM_WRITEABLE)" and ?w = "?pa OR PERM_USER OR PERM_PRESENT"
  have b: "bit ?v 0" "bit ?w 0" by (simp_all add: CONSTRUCT_ENTRY_def PERM_PRESENT_def PERM_WRITEABLE_def PERM_USER_def bit_simps)
  then have nz: "?v \<noteq> 0" "?w \<noteq> 0" by auto
  have px: "PDX VPT = 0x3BF" "PDX UVPT = 0x3BD" by (simp_all add: PDX_def VPT_def UVPT_def)
  have "ptr_page_directory s = d" using assms by (simp add: boot_stage_def boot_env_def)
  then have e: "setup_listing_to_all_page_tables_entries s = write_phys d 0x3BD ?w (write_phys d 0x3BF ?v s)"
    by (simp add: setup_listing_to_all_page_tables_entries_def Let_def px)
  have ok: "boot_ok d s" "dir_entries d I s" using assms by (simp_all add: boot_stage_def)
  have c: "(0x3BF :: u32) = 0x3BD \<or> (0x3BF :: u32) = 0x3BF" "(0x3BD :: u32) = 0x3BD \<or> (0x3BD :: u32) = 0x3BF" by simp_all
  note w1 = boot_write_listing [OF ok c(1) nz(1)]
  note w2 = boot_write_listing [OF w1(1,2) c(2) nz(2)]
  show "boot_stage d nf h (insert 0x3BD (insert 0x3BF I)) stk (setup_listing_to_all_page_tables_entries s)"
    unfolding e by (rule boot_stage_keep [OF assms w2(1,2) boot_step_trans [OF boot_step_write boot_step_write]]) (simp add: w1(3) w2(3))
  show "ptr_free_mem (setup_listing_to_all_page_tables_entries s) = ptr_free_mem s" unfolding e by simp
qed

text \<open>The three arrays and the entries that list the tables.\<close>

lemma boot_stage_arrays:
  fixes s :: "'z boot_state_scheme"
  assumes s: "boot_stage d nf h kernel_entries stk s" "4096 dvd unat (ptr_free_mem s)"
    and r: "room (up (up (unat (ptr_free_mem s) + unat n1) + unat n2) + unat n3) nf"
  shows "\<exists>fi s6 dfi s8 ea s10. boot_allocate_space L n1 PAGE_SIZE s = (fi, s6) \<and>
    boot_allocate_space L n2 PAGE_SIZE (s6\<lparr>frames_info_at := fi, frames_info := (\<lambda>_. null_frame_info)\<rparr>) = (dfi, s8) \<and>
    boot_allocate_space L n3 PAGE_SIZE (setup_listing_to_all_page_tables_entries (s8\<lparr>disk_frames_info_at := dfi\<rparr>)) = (ea, s10) \<and>
    KERNEL_BASE \<le> ea \<and> 4096 dvd unat (ea - KERNEL_BASE) \<and>
    boot_stage d nf h (insert 0x3BD (insert 0x3BF kernel_entries)) stk (s10\<lparr>envs_at := ea, envs := (\<lambda>_. null_env), nenv := m\<rparr>) \<and>
    unat (ptr_free_mem s10) = up (up (unat (ptr_free_mem s) + unat n1) + unat n2) + unat n3"
proof -
  let ?p = "unat (ptr_free_mem s)"
  have up: "up ?p = ?p" by (rule up_id [OF s(2)])
  have le: "?p + unat n1 \<le> up (?p + unat n1)" "up (?p + unat n1) + unat n2 \<le> up (up (?p + unat n1) + unat n2)" by (rule up_bounds(1))+
  have "room (up ?p + unat n1) nf" unfolding up by (rule room_mono [OF r]) (use le in linarith)
  from boot_stage_array [OF s(1) this, of L] obtain fi s6 where
    s6: "boot_allocate_space L n1 PAGE_SIZE s = (fi, s6)" "boot_stage d nf h kernel_entries stk s6" "unat (ptr_free_mem s6) = ?p + unat n1"
    unfolding up by blast
  let ?s7 = "s6\<lparr>frames_info_at := fi, frames_info := (\<lambda>_. null_frame_info)\<rparr>"
  have st7: "boot_stage d nf h kernel_entries stk ?s7" by (rule boot_stage_fields [OF s6(2)]) (simp_all add: cpu_ok_def)
  have p7: "ptr_free_mem ?s7 = ptr_free_mem s6" by simp
  have "room (up (unat (ptr_free_mem ?s7)) + unat n2) nf" unfolding p7 s6(3) by (rule room_mono [OF r]) (use le in linarith)
  from boot_stage_array [OF st7 this, of L] obtain dfi s8 where
    s8: "boot_allocate_space L n2 PAGE_SIZE ?s7 = (dfi, s8)" "boot_stage d nf h kernel_entries stk s8" "unat (ptr_free_mem s8) = up (?p + unat n1) + unat n2"
    unfolding p7 s6(3) by blast
  let ?s8 = "s8\<lparr>disk_frames_info_at := dfi\<rparr>"
  have "boot_stage d nf h kernel_entries stk ?s8" by (rule boot_stage_fields [OF s8(2)]) (simp_all add: cpu_ok_def)
  note l = boot_stage_listing [OF this]
  let ?s9 = "setup_listing_to_all_page_tables_entries ?s8"
  have p9: "unat (ptr_free_mem ?s9) = up (?p + unat n1) + unat n2" using l(2) s8(3) by simp
  have "room (up (unat (ptr_free_mem ?s9)) + unat n3) nf" unfolding p9 by (rule r)
  from boot_stage_array [OF l(1) this, of L] obtain ea s10 where
    s10: "boot_allocate_space L n3 PAGE_SIZE ?s9 = (ea, s10)" "boot_stage d nf h (insert 0x3BD (insert 0x3BF kernel_entries)) stk s10"
      "unat (ptr_free_mem s10) = up (up (?p + unat n1) + unat n2) + unat n3" "KERNEL_BASE \<le> ea" "4096 dvd unat (ea - KERNEL_BASE)"
    unfolding p9 by blast
  have "boot_stage d nf h (insert 0x3BD (insert 0x3BF kernel_entries)) stk (s10\<lparr>envs_at := ea, envs := (\<lambda>_. null_env), nenv := m\<rparr>)"
    by (rule boot_stage_fields [OF s10(2)]) (simp_all add: cpu_ok_def)
  then show ?thesis using s6(1) s8(1) s10 by blast
qed

text \<open>The mappings of the processes and of the kernel itself, and the check.\<close>

lemma boot_stage_maps:
  fixes s :: "'z boot_state_scheme"
  assumes s: "boot_stage d nf h (insert 0x3BD (insert 0x3BF kernel_entries)) stk s" and n: "n \<noteq> 0" "unat n \<le> 0x100000"
    and r: "room (up (unat (ptr_free_mem s)) + 4096) nf"
    and stk: "STATIC_KERNEL_PHYSICAL_ADDRESS (ptr_stack_bottom L) = Some stk" "4096 dvd unat stk"
  shows "\<exists>s12 s14. boot_map_range L d UENVS n pa PERM_USER s = Some s12 \<and>
    boot_map_range L d KERNEL_BASE (kernel_bytes s12) 0 PERM_WRITEABLE
      (write_phys d (PDX UENVS) (phys s12 d (PDX UENVS) OR (PERM_USER OR (PERM_PRESENT AND NOT PERM_WRITEABLE))) s12) = Some s14 \<and>
    check_boot_pgdir L s14 = Some s14 \<and> boot_stage d nf h boot_entries stk s14 \<and> user_envs d n pa s14 \<and> kernel_at_base d s14 \<and>
    unat (ptr_free_mem s14) = up (unat (ptr_free_mem s)) + 4096 \<and> envs_at s14 = envs_at s"
proof -
  let ?I = "insert 0x3BD (insert 0x3BF kernel_entries)"
  have un: "unat (0x3C0 + of_nat k :: u32) = 0x3C0 + k" if "k < 64" for k using that by (simp add: unat_word_ariths unat_of_nat_u32)
  have ni: "0x3BB \<notin> ?I" using un by (auto simp: kernel_entries_def word_unat_eq_iff)
  have px: "PDX UENVS = 0x3BB" by (simp add: PDX_def UENVS_def UVPT_def PTSIZE_def)
  have D: "boot_ok d s" "dir_entries d ?I s" "stack_entries d stk s" "boot_env d nf h s" using s by (simp_all add: boot_stage_def)
  then have "room (up (unat (ptr_free_mem s)) + 4096) (number_of_frames s)" using r by (simp add: boot_env_def)
  from boot_users [OF D(1,2) ni D(3) n this, of L pa] obtain s12 where
    s12: "boot_map_range L d UENVS n pa PERM_USER s = Some s12" "boot_ok d s12" "boot_step s s12" "dir_entries d boot_entries s12"
      "unat (ptr_free_mem s12) = up (unat (ptr_free_mem s)) + 4096" "stack_entries d stk s12" "user_envs d n pa s12"
    unfolding boot_entries_def by blast
  let ?v = "phys s12 d 0x3BB OR (PERM_USER OR (PERM_PRESENT AND NOT PERM_WRITEABLE))"
  let ?s13 = "write_phys d 0x3BB ?v s12"
  have nz: "phys s12 d 0x3BB \<noteq> 0" using s12(4) by (simp add: dir_entries_def boot_entries_def)
  have "PPN ?v = PPN (phys s12 d 0x3BB)" by (rule PPN_OR) (simp add: PPN_def fos_consts)
  moreover have "bit ?v 0" by (simp add: bit_simps fos_consts)
  ultimately have w: "boot_ok d ?s13" "dir_entries d boot_entries ?s13" "in_tables x \<Longrightarrow> bentry d x ?s13 = bentry d x s12" for x
    using boot_write_pde [OF s12(2,4) _ _ nz] by blast+
  have st13: "stack_entries d stk ?s13" by (rule stack_entries_keep [OF s12(6)]) (simp add: w(3) STACK_in_tables)
  have "in_tables (page_at UENVS k)" if "k < pages n" for k
    using UENVS_pages(1) [of k] that n(2) by (simp add: in_tables_def pages_def)
  then have ue: "user_envs d n pa ?s13" using s12(7) w(3) by (simp add: user_envs_def)
  from boot_kernel [OF w(1,2) PDX_in_boot(2) st13 ue n(2), of L] obtain s14 where
    s14: "boot_map_range L d KERNEL_BASE (kernel_bytes s12) 0 PERM_WRITEABLE ?s13 = Some s14" "boot_ok d s14" "boot_step ?s13 s14"
      "dir_entries d boot_entries s14" "ptr_free_mem s14 = ptr_free_mem s12" "stack_entries d stk s14" "user_envs d n pa s14" "kernel_at_base d s14" by auto
  have bs: "boot_step s s14" by (rule boot_step_trans [OF boot_step_trans [OF s12(3) boot_step_write] s14(3)])
  then have e14: "boot_env d nf h s14" "boot_env d nf h s12" using boot_env_step D(4) s12(3) by blast+
  have "unat (ptr_free_mem s14) \<le> 0xFFFFF000" using r by (simp add: s14(5) s12(5) room_def)
  with check_boot_pgdir_passes [OF s14(2,4) _ stk s14(6,8)] e14(1) have "check_boot_pgdir L s14 = Some s14" by (simp add: boot_env_def)
  moreover have "envs_at s14 = envs_at s" using bs by (simp add: boot_step_def)
  moreover have "boot_stage d nf h boot_entries stk s14" using s14 e14(1) by (simp add: boot_stage_def)
  moreover have "unat (ptr_free_mem s14) = up (unat (ptr_free_mem s)) + 4096" using s14(5) s12(5) by simp
  ultimately show ?thesis unfolding px using s12(1) s14(1,7,8) by blast
qed

lemma boot_sizes:
  assumes L: "0 < sizeof_Env L" "unat (sizeof_Env L) \<le> 0x100000" and r: "boot_end L nf \<le> 0xFFFFF000"
  defines "A \<equiv> nf * sizeof_FrameInfo L" and "B \<equiv> PAGES_PER_FILE * sizeof_FrameInfo L" and "C \<equiv> of_nat (NENV_of L) * sizeof_Env L"
  shows "boot_end L nf = up (up (up (up (unat (end_of_kernel L)) + 66 * 4096 + unat A) + unat B) + unat C) + 4096"
    "up (unat (end_of_kernel L)) + 66 * 4096 + 4096 \<le> boot_end L nf"
    "up (up (up (unat (end_of_kernel L)) + 66 * 4096 + unat A) + unat B) + unat C \<le> boot_end L nf"
proof -
  let ?t = "up (unat (end_of_kernel L)) + 66 * 4096" and ?a = "unat nf * unat (sizeof_FrameInfo L)" and ?b = "133120 * unat (sizeof_FrameInfo L)"
  let ?c = "NENV_of L * unat (sizeof_Env L)"
  have e: "boot_end L nf = up (up (up (?t + ?a) + ?b) + ?c) + 4096" by (simp add: boot_end_def Let_def)
  have le: "?t + ?a \<le> up (?t + ?a)" "up (?t + ?a) + ?b \<le> up (up (?t + ?a) + ?b)"
    "up (up (?t + ?a) + ?b) + ?c \<le> up (up (up (?t + ?a) + ?b) + ?c)" by (rule up_bounds(1))+
  then have "?a \<le> boot_end L nf" "?b \<le> boot_end L nf" unfolding e by linarith+
  then have "?a < 2 ^ 32" "?b < 2 ^ 32" using r by simp_all
  then have u: "unat A = ?a" "unat B = ?b" "unat C = ?c"
    using PAGES_PER_FILE_val NENV_bytes(1) [OF L] by (simp_all add: A_def B_def C_def unat_word_ariths)
  show "boot_end L nf = up (up (up (?t + unat A) + unat B) + unat C) + 4096" unfolding u by (rule e)
  show "?t + 4096 \<le> boot_end L nf" "up (up (?t + unat A) + unat B) + unat C \<le> boot_end L nf" unfolding u using e le by linarith+
qed

lemma initialize_kernel_VM_stages:
  fixes s :: "'z boot_state_scheme"
  assumes s: "ptr_free_mem s = 0" "cpu_ok s" "number_of_frames s = nf" "use_kheap s = h"
    and L: "0xF0000000 \<le> unat (end_of_kernel L)" "0 < sizeof_Env L" "unat (sizeof_Env L) \<le> 0x100000"
    and stk: "STATIC_KERNEL_PHYSICAL_ADDRESS (ptr_stack_bottom L) = Some stk" "4096 dvd unat stk" and r: "room (boot_end L nf) nf"
  shows "\<exists>d s'. initialize_kernel_VM L s = turn_on_paging (s'\<lparr>memory_scarce_threshold_percentage := 25\<rparr>) \<and>
    boot_stage d nf h boot_entries stk s' \<and> user_envs d (of_nat (NENV_of L) * sizeof_Env L) (envs_at s' - KERNEL_BASE) s' \<and>
    4096 dvd unat (envs_at s' - KERNEL_BASE) \<and> kernel_at_base d s' \<and> unat (ptr_free_mem s') = boot_end L nf"
proof -
  let ?E = "up (unat (end_of_kernel L))" and ?n3 = "of_nat (NENV_of L) * sizeof_Env L"
  note M = NENV_bytes [OF L(2,3)] and z = boot_sizes [OF L(2,3), of nf]
  have top: "boot_end L nf \<le> 0xFFFFF000" using r by (simp add: room_def)
  note z = z [OF top]
  have "room (?E + 4096) (number_of_frames s)" unfolding s(3) by (rule room_mono [OF r]) (use z(2) in linarith)
  from boot_directory [OF s(1) L(1) this] obtain a s1 pd where
    s1: "boot_allocate_space L PAGE_SIZE PAGE_SIZE s = (a, s1)" "STATIC_KERNEL_PHYSICAL_ADDRESS a = Some pd"
      "boot_ok (unat (PPN pd)) (s1\<lparr>ptr_page_directory := unat (PPN pd)\<rparr>)" "dir_entries (unat (PPN pd)) {} (s1\<lparr>ptr_page_directory := unat (PPN pd)\<rparr>)"
      "boot_step s (s1\<lparr>ptr_page_directory := ptr_page_directory s\<rparr>)" "unat (ptr_free_mem s1) = ?E + 4096" by blast
  let ?d = "unat (PPN pd)" and ?s2 = "s1\<lparr>ptr_page_directory := unat (PPN pd)\<rparr>"
  have e2: "boot_env ?d nf h ?s2" using s1(5) s(2-4) by (simp add: boot_env_def boot_step_def cpu_ok_def)
  have "room (?E + 66 * 4096) nf" by (rule room_mono [OF r]) (use z(2) in linarith)
  then have "4096 dvd unat (ptr_free_mem ?s2)" "room (unat (ptr_free_mem ?s2) + 4096 * 65) nf"
    using s1(6) up_bounds(3) by (simp_all add: add.commute)
  from boot_stage_tables [OF s1(3,4) e2 this, of L stk] obtain s3 s4 s5 where
    s5: "boot_map_range L ?d STACK_BOTTOM (NCPUS * KERNEL_STACK_SIZE) stk PERM_WRITEABLE ?s2 = Some s3"
      "pt_set_page_permissions ?d STACK_BOTTOM 0 PERM_PRESENT s3 = Some ((), s4)" "run_all (boot_table L ?d) [0..<64] s4 = Some s5"
      "boot_stage ?d nf h kernel_entries stk s5" "unat (ptr_free_mem s5) = ?E + 66 * 4096" using s1(6) by auto
  have nf5: "number_of_frames s5 = nf" "4096 dvd unat (ptr_free_mem s5)"
    using s5(4) up_bounds(3) by (simp_all add: boot_stage_def boot_env_def s5(5))
  from boot_stage_arrays [OF s5(4) nf5(2), of "nf * sizeof_FrameInfo L" "PAGES_PER_FILE * sizeof_FrameInfo L" ?n3 L "NENV_of L"]
    room_mono [OF r z(3)] obtain fi s6 dfi s8 ea s10 where
    s10: "boot_allocate_space L (nf * sizeof_FrameInfo L) PAGE_SIZE s5 = (fi, s6)"
      "boot_allocate_space L (PAGES_PER_FILE * sizeof_FrameInfo L) PAGE_SIZE (s6\<lparr>frames_info_at := fi, frames_info := (\<lambda>_. null_frame_info)\<rparr>) = (dfi, s8)"
      "boot_allocate_space L ?n3 PAGE_SIZE (setup_listing_to_all_page_tables_entries (s8\<lparr>disk_frames_info_at := dfi\<rparr>)) = (ea, s10)"
      "KERNEL_BASE \<le> ea" "4096 dvd unat (ea - KERNEL_BASE)"
      "boot_stage ?d nf h (insert 0x3BD (insert 0x3BF kernel_entries)) stk (s10\<lparr>envs_at := ea, envs := (\<lambda>_. null_env), nenv := NENV_of L\<rparr>)"
      "up (unat (ptr_free_mem s10)) + 4096 = boot_end L nf" unfolding s5(5) z(1) by auto
  let ?s11 = "s10\<lparr>envs_at := ea, envs := (\<lambda>_. null_env), nenv := NENV_of L\<rparr>"
  have n3: "?n3 \<noteq> 0" "unat ?n3 \<le> 0x100000" using M by (auto simp del: unat_0_iff)
  have p11: "ptr_free_mem ?s11 = ptr_free_mem s10" "envs_at ?s11 = ea" by simp_all
  have "room (up (unat (ptr_free_mem ?s11)) + 4096) nf" unfolding p11 s10(7) by (rule r)
  from boot_stage_maps [OF s10(6) n3 this stk, of "ea - KERNEL_BASE"] obtain s12 s14 where
    s14: "boot_map_range L ?d UENVS ?n3 (ea - KERNEL_BASE) PERM_USER ?s11 = Some s12"
      "boot_map_range L ?d KERNEL_BASE (kernel_bytes s12) 0 PERM_WRITEABLE
        (write_phys ?d (PDX UENVS) (phys s12 ?d (PDX UENVS) OR (PERM_USER OR (PERM_PRESENT AND NOT PERM_WRITEABLE))) s12) = Some s14"
      "check_boot_pgdir L s14 = Some s14" "boot_stage ?d nf h boot_entries stk s14" "user_envs ?d ?n3 (ea - KERNEL_BASE) s14"
      "kernel_at_base ?d s14" "unat (ptr_free_mem s14) = boot_end L nf" "envs_at s14 = ea"
    unfolding p11 s10(7) by blast
  have as: "assert_that (NCPUS * KERNEL_STACK_SIZE < PTSIZE) = Some ()" by (simp add: fos_consts)
  have k: "STATIC_KERNEL_PHYSICAL_ADDRESS ea = Some (ea - KERNEL_BASE)" using s10(4) by (simp add: STATIC_KERNEL_PHYSICAL_ADDRESS_def not_less)
  have sb: "KERN_STACK_TOP - KERNEL_STACK_SIZE = STACK_BOTTOM" by (simp add: STACK_BOTTOM_def NCPUS_def)
  have "initialize_kernel_VM L s = turn_on_paging (s14\<lparr>memory_scarce_threshold_percentage := 25\<rparr>)"
    unfolding initialize_kernel_VM_def
    using s1(1,2) as stk(1) s5(1-3) nf5(1) s10(1-3) k s14(1-3) sb by (simp add: Let_def STACK_BOTTOM_def [symmetric] kernel_bytes_def split: if_splits)
  then show ?thesis using s14(4-8) s10(5) by blast
qed

text \<open>
  C24: the kernel's address space.  The start must be the first (\<open>ptr_free_mem\<close> is 0), the kernel is linked above \<open>KERNEL_BASE\<close> with
  its stack at a page, a process structure has at most 1 MB, and the boot data fit below the last page and in memory.  Then
  \<open>initialize_kernel_VM\<close> ends, so that its own check of the directory succeeds, and leaves a directory in which the kernel is mapped
  at \<open>KERNEL_BASE\<close> (up to \<open>ptr_free_mem\<close> with the kernel heap, the whole 256 MB without it), the stack above an unmapped guard page,
  and the process table for the users; all entries of user space are empty, and paging is on with this directory.
\<close>

theorem initialize_kernel_VM_correct:
  fixes s :: "'z boot_state_scheme"
  assumes s: "ptr_free_mem s = 0" "cpu_ok s"
    and L: "0xF0000000 \<le> unat (end_of_kernel L)" "0xF0000000 \<le> unat (ptr_stack_bottom L)" "4096 dvd unat (ptr_stack_bottom L)"
      "0 < sizeof_Env L" "unat (sizeof_Env L) \<le> 0x100000"
    and r: "boot_end L (number_of_frames s) \<le> 0xFFFFF000" "boot_end L (number_of_frames s) \<le> 0xF0000000 + 4096 * unat (number_of_frames s)"
  shows "\<exists>s' d. initialize_kernel_VM L s = Some s' \<and> ptr_page_directory s' = d \<and>
    unat (ptr_free_mem s') = boot_end L (number_of_frames s) \<and> use_kheap s' = use_kheap s \<and>
    (\<forall>k < pages (kernel_bytes s'). check_va2pa d (page_at KERNEL_BASE k) s' = Some (page_at 0 k)) \<and>
    (\<forall>k \<in> {1..<8}. check_va2pa d (page_at STACK_BOTTOM k) s' = Some (page_at (ptr_stack_bottom L - KERNEL_BASE) k)) \<and>
    check_va2pa d STACK_BOTTOM s' = Some (NOT 0) \<and>
    (\<forall>k < pages (of_nat (NENV_of L) * sizeof_Env L). check_va2pa d (page_at UENVS k) s' = Some (page_at (envs_at s' - KERNEL_BASE) k)) \<and>
    (\<forall>i < PDX USER_TOP. phys s' d i = 0) \<and> cpu_cr3 s' = to_physical_address d \<and> bit (cr0 s') 31"
proof -
  let ?nf = "number_of_frames s" and ?h = "use_kheap s" and ?stk = "ptr_stack_bottom L - KERNEL_BASE" and ?n = "of_nat (NENV_of L) * sizeof_Env L"
  have kb: "KERNEL_BASE \<le> ptr_stack_bottom L" using L(2) by (simp add: word_le_nat_alt KERNEL_BASE_def)
  have stk: "STATIC_KERNEL_PHYSICAL_ADDRESS (ptr_stack_bottom L) = Some ?stk" "4096 dvd unat ?stk"
    using kb L(3) by (simp_all add: STATIC_KERNEL_PHYSICAL_ADDRESS_def not_less unat_sub KERNEL_BASE_def dvd_diff_nat)
  have rm: "room (boot_end L ?nf) ?nf" using r by (simp add: room_def)
  from initialize_kernel_VM_stages [OF s _ _ L(1,4,5) stk rm] obtain d s1 where
    s1: "initialize_kernel_VM L s = turn_on_paging (s1\<lparr>memory_scarce_threshold_percentage := 25\<rparr>)" "boot_stage d ?nf ?h boot_entries ?stk s1"
      "user_envs d ?n (envs_at s1 - KERNEL_BASE) s1" "4096 dvd unat (envs_at s1 - KERNEL_BASE)" "kernel_at_base d s1"
      "unat (ptr_free_mem s1) = boot_end L ?nf" by auto
  let ?s2 = "s1\<lparr>memory_scarce_threshold_percentage := 25\<rparr>"
  have d: "ptr_page_directory ?s2 = d" "cpu_ok ?s2" "dir_entries d boot_entries ?s2" "boot_ok d s1" "dir_entries d boot_entries s1" "stack_entries d ?stk s1"
    using s1(2) by (simp_all add: boot_stage_def boot_env_def cpu_ok_def dir_entries_def)
  from turn_on_paging_keeps [of ?s2] d obtain s' where
    s': "turn_on_paging ?s2 = Some s'" "paging_same ?s2 s'" "phys s' = phys s1" "cpu_cr3 s' = to_physical_address d" "bit (cr0 s') 31" by auto
  have v: "check_va2pa d va s' = check_va2pa d va s1" for va
    using s'(2,3) by (simp add: check_va2pa_def STATIC_KERNEL_VIRTUAL_ADDRESS_def paging_same_def Let_def)
  have f: "ptr_page_directory s' = d" "use_kheap s' = use_kheap s" "use_kheap s1 = use_kheap s" "ptr_free_mem s' = ptr_free_mem s1" "envs_at s' = envs_at s1" using s'(2) d(1) s1(2)
    by (simp_all add: paging_same_def boot_stage_def boot_env_def)
  have kb: "kernel_bytes s' = kernel_bytes s1" using f by (simp add: kernel_bytes_def)
  have low: "phys s1 d i = 0" if "i < PDX USER_TOP" for i
  proof -
    have "PDX USER_TOP = 0x3BB" by (simp add: PDX_def USER_TOP_def)
    then have "unat i < 0x3BB" using that by (simp add: word_less_nat_alt)
    then have "i < 1024" "i \<notin> boot_entries"
      by (auto simp: word_less_nat_alt boot_entries_def kernel_entries_def unat_word_ariths unat_of_nat_u32)
    then show ?thesis using d(5) by (auto simp: dir_entries_def)
  qed
  have n: "unat ?n \<le> 0x100000" using NENV_bytes(1,2) [OF L(4,5)] by simp
  note seen = boot_pages_seen [OF d(4,5)]
  show ?thesis
    using s1(1) s'(1,4,5) f kb low v s'(3) s1(6) seen(1) [OF s1(5)] seen(2) [OF d(6) stk(2)] seen(3) [OF d(6)] seen(4) [OF s1(3,4) n]
    by (intro exI [of _ s'] exI [of _ d]) simp
qed

definition layout_ex :: boot_layout where
  "layout_ex = \<lparr>end_of_kernel = 0xF0200000, ptr_stack_bottom = 0xF0110000, sizeof_FrameInfo = 24, sizeof_Env = 512,
     entry_points = (\<lambda>_. 0xF0100000), addr_of_ts = 0xF0120000, sizeof_Taskstate = 104\<rparr>"

definition boot_ex :: boot_state where
  "boot_ex = trap_state.extend (trap_ex\<lparr>number_of_frames := 0x10000\<rparr>)
     (boot_state.fields 0 0 0 0 0 (\<lambda>_. SEG_NULL) (\<lambda>_. None) None None 0
       \<lparr>seg_cs = 8, seg_ds = 0x10, seg_es = 0x10, seg_ss = 0x10, seg_fs = 0x10, seg_gs = 0x10, seg_ldt = 0\<rparr>
       \<lparr>ts_esp0 = 0, ts_ss0 = 0\<rparr> 0 False (0, 0))"

lemma boot_ex_sel: "ptr_free_mem boot_ex = 0" "cpu_ok boot_ex" "use_kheap boot_ex" "number_of_frames boot_ex = 0x10000"
  by (simp_all add: boot_ex_def trap_state.defs boot_state.defs cpu_ok_def)

theorem initialize_kernel_VM_correct_witness:
  "\<exists>s'. initialize_kernel_VM layout_ex boot_ex = Some s' \<and> check_va2pa (ptr_page_directory s') KERNEL_BASE s' = Some 0 \<and>
    check_va2pa (ptr_page_directory s') STACK_BOTTOM s' = Some (NOT 0) \<and> ptr_free_mem s' = 0xF07CF000"
proof -
  have L: "0xF0000000 \<le> unat (end_of_kernel layout_ex)" "0xF0000000 \<le> unat (ptr_stack_bottom layout_ex)" "4096 dvd unat (ptr_stack_bottom layout_ex)"
    "0 < sizeof_Env layout_ex" "unat (sizeof_Env layout_ex) \<le> 0x100000" by (simp_all add: layout_ex_def)
  have e: "boot_end layout_ex (number_of_frames boot_ex) = 0xF07CF000"
    by (simp add: boot_end_def layout_ex_def boot_ex_sel NENV_of_def PTSIZE_def up_def Let_def)
  have r: "boot_end layout_ex (number_of_frames boot_ex) \<le> 0xFFFFF000"
    "boot_end layout_ex (number_of_frames boot_ex) \<le> 0xF0000000 + 4096 * unat (number_of_frames boot_ex)" unfolding e by (simp_all add: boot_ex_sel)
  from initialize_kernel_VM_correct [OF boot_ex_sel(1,2) L r] obtain s' where
    s': "initialize_kernel_VM layout_ex boot_ex = Some s'" "unat (ptr_free_mem s') = 0xF07CF000" "use_kheap s' = use_kheap boot_ex" "check_va2pa (ptr_page_directory s') STACK_BOTTOM s' = Some (NOT 0)"
      "\<forall>k < pages (kernel_bytes s'). check_va2pa (ptr_page_directory s') (page_at KERNEL_BASE k) s' = Some (page_at 0 k)"
    unfolding e by blast
  have "ptr_free_mem s' = 0xF07CF000" using s'(2) by (simp add: word_unat_eq_iff)
  then show ?thesis using s'(1,3,4) s'(5) [rule_format, of 0] by (simp add: boot_ex_sel kernel_bytes_def page_at_def pages_def KERNEL_BASE_def)
qed

end
