(* ===== verification/FOS_Sort.thy ===== *)
theory FOS_Sort
  imports FOS_Prelude "HOL-Library.Multiset"
begin

text \<open>
  The sorting programs that run on the kernel as its load: quicksort (\<open>user/quicksort_noleakage.c\<close>) and its version with pivots from the
  time stamp counter (\<open>user/arrayOperations_quicksort.c\<close>), mergesort on static arrays (\<open>user/mergesort_static.c\<close>) and on
  allocated ones (\<open>user/arrayOperations_mergesort.c\<close>), and the selection of the k-th element (\<open>user/arrayOperations_stats.c\<close>).  The elements are only compared
  and moved, so they are integers; indices are the signed integers of the code, and an access outside the array is
  \<open>None\<close>.  Loops and recursions whose end depends on the elements are partial functions; the theorems prove that they end.
\<close>

section \<open>Arrays\<close>

definition at :: "int list \<Rightarrow> int \<Rightarrow> int option" where
  "at E i = (if 0 \<le> i \<and> i < int (length E) then Some (E ! nat i) else None)"

definition put :: "int list \<Rightarrow> int \<Rightarrow> int \<Rightarrow> int list option" where
  "put E i x = (if 0 \<le> i \<and> i < int (length E) then Some (E[nat i := x]) else None)"

definition Swap :: "int list \<Rightarrow> int \<Rightarrow> int \<Rightarrow> int list option" where
  "Swap E First Second = do {
     Tmp \<leftarrow> at E First;
     x \<leftarrow> at E Second;
     E1 \<leftarrow> put E First x;
     put E1 Second Tmp }"

section \<open>Quicksort\<close>

text \<open>The two inner loops of \<open>QSort\<close>; the test of the second one is \<open>\<le>\<close> here and \<open><\<close> in the selection.\<close>

function scan_up :: "int list \<Rightarrow> int \<Rightarrow> int \<Rightarrow> int \<Rightarrow> int option" where
  "scan_up E startIndex finalIndex i =
     (if i \<le> finalIndex
      then do {
        p \<leftarrow> at E startIndex;
        x \<leftarrow> at E i;
        if p \<ge> x then scan_up E startIndex finalIndex (i + 1) else Some i }
      else Some i)"
  by pat_completeness auto
termination by (relation "measure (\<lambda>(E, s, f, i). nat (f + 1 - i))") auto

function scan_down :: "(int \<Rightarrow> int \<Rightarrow> bool) \<Rightarrow> int list \<Rightarrow> int \<Rightarrow> int \<Rightarrow> int option" where
  "scan_down passes E startIndex j =
     (if j > startIndex
      then do {
        p \<leftarrow> at E startIndex;
        x \<leftarrow> at E j;
        if passes p x then scan_down passes E startIndex (j - 1) else Some j }
      else Some j)"
  by pat_completeness auto
termination by (relation "measure (\<lambda>(c, E, s, j). nat (j - s))") auto

declare scan_up.simps [simp del] scan_down.simps [simp del]

partial_function (option) split_loop ::
  "(int \<Rightarrow> int \<Rightarrow> bool) \<Rightarrow> int \<Rightarrow> int \<Rightarrow> int list \<Rightarrow> int \<Rightarrow> int \<Rightarrow> (int list \<times> int \<times> int) option" where
  "split_loop passes startIndex finalIndex E i j =
     (if i \<le> j
      then do {
        i1 \<leftarrow> scan_up E startIndex finalIndex i;
        j1 \<leftarrow> scan_down passes E startIndex j;
        E1 \<leftarrow> (if i1 \<le> j1 then Swap E i1 j1 else Some E);
        split_loop passes startIndex finalIndex E1 i1 j1 }
      else Some (E, i, j))"

partial_function (option) QSort :: "int list \<Rightarrow> int \<Rightarrow> int \<Rightarrow> int list option" where
  "QSort E startIndex finalIndex =
     (if startIndex \<ge> finalIndex then Some E
      else do {
        (E1, i, j) \<leftarrow> split_loop (\<le>) startIndex finalIndex E (startIndex + 1) finalIndex;
        E2 \<leftarrow> Swap E1 startIndex j;
        E3 \<leftarrow> QSort E2 startIndex (j - 1);
        QSort E3 i finalIndex })"

definition QuickSort :: "int list \<Rightarrow> int \<Rightarrow> int list option" where
  "QuickSort E NumOfElements = QSort E 0 (NumOfElements - 1)"

fun CheckSorted_from :: "nat \<Rightarrow> int list \<Rightarrow> int \<Rightarrow> bool option" where
  "CheckSorted_from 0 E i = Some True"
| "CheckSorted_from (Suc n) E i = do {
     x \<leftarrow> at E i;
     y \<leftarrow> at E (i + 1);
     if x > y then Some False else CheckSorted_from n E (i + 1) }"

definition CheckSorted :: "int list \<Rightarrow> int \<Rightarrow> bool option" where
  "CheckSorted E NumOfElements = CheckSorted_from (nat (NumOfElements - 1)) E 0"

section \<open>Filling the array\<close>

fun fill_from :: "nat \<Rightarrow> (int \<Rightarrow> int option) \<Rightarrow> int list \<Rightarrow> int \<Rightarrow> int list option" where
  "fill_from 0 g E i = Some E"
| "fill_from (Suc n) g E i = do { x \<leftarrow> g i; E1 \<leftarrow> put E i x; fill_from n g E1 (i + 1) }"

definition InitializeAscending :: "int list \<Rightarrow> int \<Rightarrow> int list option" where
  "InitializeAscending E n = fill_from (nat n) (\<lambda>i. Some i) E 0"

definition InitializeDescending :: "int list \<Rightarrow> int \<Rightarrow> int list option" where
  "InitializeDescending E n = fill_from (nat n) (\<lambda>i. Some (n - i - 1)) E 0"

definition InitializeSemiRandom :: "int list \<Rightarrow> int \<Rightarrow> int list option" where
  "InitializeSemiRandom E n =
     (let Repetition = n div 3; Repetition = (if Repetition = 0 then 3 else Repetition)
      in fill_from (nat n) (\<lambda>i. Some (i mod Repetition)) E 0)"

text \<open>\<open>InitializeSemiRandom\<close> of \<open>user/mergesort_noleakage.c\<close> has no test for 0 and divides by it for fewer than three elements.\<close>

definition InitializeSemiRandom_unguarded :: "int list \<Rightarrow> int \<Rightarrow> int list option" where
  "InitializeSemiRandom_unguarded E n =
     (let Repetition = n div 3 in fill_from (nat n) (\<lambda>i. if Repetition = 0 then None else Some (i mod Repetition)) E 0)"

section \<open>Mergesort\<close>

text \<open>\<open>Merge\<close> copies the two parts of the array, which is indexed from 1, to \<open>Left\<close> and \<open>Right\<close> and merges them back.\<close>

fun copy_from :: "nat \<Rightarrow> int list \<Rightarrow> int \<Rightarrow> int list option" where
  "copy_from 0 A i = Some []"
| "copy_from (Suc n) A i = do { x \<leftarrow> at A i; xs \<leftarrow> copy_from n A (i + 1); Some (x # xs) }"

fun merge_back :: "nat \<Rightarrow> int \<Rightarrow> int list \<Rightarrow> int list \<Rightarrow> int list \<Rightarrow> int list option" where
  "merge_back 0 k lft rgt A = Some A"
| "merge_back (Suc n) k (x # lft) (y # rgt) A =
     (if x < y then do { A1 \<leftarrow> put A (k - 1) x; merge_back n (k + 1) lft (y # rgt) A1 }
      else do { A1 \<leftarrow> put A (k - 1) y; merge_back n (k + 1) (x # lft) rgt A1 })"
| "merge_back (Suc n) k (x # lft) [] A = do { A1 \<leftarrow> put A (k - 1) x; merge_back n (k + 1) lft [] A1 }"
| "merge_back (Suc n) k [] (y # rgt) A = do { A1 \<leftarrow> put A (k - 1) y; merge_back n (k + 1) [] rgt A1 }"
| "merge_back (Suc n) k [] [] A = None"

text \<open>\<open>room\<close> is the number of elements that the two temporary arrays can have.\<close>

definition Merge_room :: "int \<Rightarrow> int list \<Rightarrow> int \<Rightarrow> int \<Rightarrow> int \<Rightarrow> int list option" where
  "Merge_room room A p q r = do {
     let leftCapacity = q - p + 1;
     let rightCapacity = r - q;
     assert_that (leftCapacity \<le> room \<and> rightCapacity \<le> room);
     lft \<leftarrow> copy_from (nat leftCapacity) A (p - 1);
     rgt \<leftarrow> copy_from (nat rightCapacity) A q;
     merge_back (nat (r - p + 1)) p lft rgt A }"

function MSort_room :: "int \<Rightarrow> int list \<Rightarrow> int \<Rightarrow> int \<Rightarrow> int list option" where
  "MSort_room room A p r =
     (if p \<ge> r then Some A
      else do {
        let q = (p + r) div 2;
        A1 \<leftarrow> MSort_room room A p q;
        A2 \<leftarrow> MSort_room room A1 (q + 1) r;
        Merge_room room A2 p q r })"
  by pat_completeness auto
termination by (relation "measure (\<lambda>(room, A, p, r). nat (r - p))") auto

declare MSort_room.simps [simp del]

text \<open>The static arrays of \<open>user/mergesort_static.c\<close>.\<close>

definition SIZE :: int where "SIZE = 800000"

definition Merge :: "int list \<Rightarrow> int \<Rightarrow> int \<Rightarrow> int \<Rightarrow> int list option" where
  "Merge A p q r = Merge_room SIZE A p q r"

definition MSort :: "int list \<Rightarrow> int \<Rightarrow> int \<Rightarrow> int list option" where
  "MSort A p r = MSort_room SIZE A p r"

section \<open>Pivots from the time stamp counter\<close>

text \<open>
  \<open>tsc\<close> gives the values of the time stamp counter that \<open>RANDU\<close> reads for the pivots.  \<open>QSort\<close> of \<open>user/arrayOperations_quicksort.c\<close>
  returns the values that it has not used.
\<close>

definition RANDU :: "u32 \<Rightarrow> int \<Rightarrow> int \<Rightarrow> int" where
  "RANDU t s e = uint t mod (e - s) + s"

partial_function (option) QSort_random :: "int list \<Rightarrow> u32 list \<Rightarrow> int \<Rightarrow> int \<Rightarrow> (int list \<times> u32 list) option" where
  "QSort_random E tsc startIndex finalIndex =
     (if startIndex \<ge> finalIndex then Some (E, tsc)
      else do {
        t \<leftarrow> (case tsc of [] \<Rightarrow> None | t # _ \<Rightarrow> Some t);
        let pvtIndex = RANDU t startIndex finalIndex;
        E1 \<leftarrow> Swap E startIndex pvtIndex;
        (E2, i, j) \<leftarrow> split_loop (\<le>) startIndex finalIndex E1 (startIndex + 1) finalIndex;
        E3 \<leftarrow> Swap E2 startIndex j;
        (E4, tsc1) \<leftarrow> QSort_random E3 (tl tsc) startIndex (j - 1);
        QSort_random E4 tsc1 i finalIndex })"

definition QuickSort_random :: "int list \<Rightarrow> u32 list \<Rightarrow> int \<Rightarrow> int list option" where
  "QuickSort_random E tsc NumOfElements = map_option fst (QSort_random E tsc 0 (NumOfElements - 1))"

text \<open>\<open>QSort\<close> of the statistics program: the element and the array as the selection leaves it.\<close>

partial_function (option) QSelect :: "int list \<Rightarrow> u32 list \<Rightarrow> int \<Rightarrow> int \<Rightarrow> int \<Rightarrow> (int \<times> int list) option" where
  "QSelect E tsc startIndex finalIndex kIndex =
     (if startIndex \<ge> finalIndex then do { x \<leftarrow> at E finalIndex; Some (x, E) }
      else do {
        t \<leftarrow> (case tsc of [] \<Rightarrow> None | t # _ \<Rightarrow> Some t);
        let pvtIndex = RANDU t startIndex finalIndex;
        E1 \<leftarrow> Swap E startIndex pvtIndex;
        (E2, i, j) \<leftarrow> split_loop (<) startIndex finalIndex E1 (startIndex + 1) finalIndex;
        E3 \<leftarrow> Swap E2 startIndex j;
        if kIndex = j then do { x \<leftarrow> at E3 kIndex; Some (x, E3) }
        else if kIndex < j then QSelect E3 (tl tsc) startIndex (j - 1) kIndex
        else QSelect E3 (tl tsc) i finalIndex kIndex })"

definition KthElement :: "int list \<Rightarrow> u32 list \<Rightarrow> int \<Rightarrow> int \<Rightarrow> (int \<times> int list) option" where
  "KthElement E tsc NumOfElements k = QSelect E tsc 0 (NumOfElements - 1) (k - 1)"

end
