(* ===== verification/FOS_SortThms.thy ===== *)
theory FOS_SortThms
  imports FOS_Sort
begin

text \<open>
  The sorting programs end, access no element outside the array and compute the sorted list; the check that the programs
  run on the result succeeds.  The locale \<open>sorting_program\<close> is the contract of a sorting routine.
\<close>

section \<open>Scanning and splitting\<close>

lemma at_in [simp]: "0 \<le> i \<Longrightarrow> i < int (length E) \<Longrightarrow> at E i = Some (E ! nat i)"
  by (simp add: at_def)

lemma Swap_in: "0 \<le> i \<Longrightarrow> i < int (length E) \<Longrightarrow> 0 \<le> j \<Longrightarrow> j < int (length E) \<Longrightarrow>
    Swap E i j = Some (E[nat i := E ! nat j, nat j := E ! nat i])"
  by (simp add: Swap_def put_def)

lemma scan_up_spec:
  assumes "0 \<le> s" "s < int (length E)" "f < int (length E)" "0 \<le> i" "i \<le> f + 1"
  shows "\<exists>i1. scan_up E s f i = Some i1 \<and> i \<le> i1 \<and> i1 \<le> f + 1 \<and> (\<forall>k \<in> {i..<i1}. E ! nat k \<le> E ! nat s) \<and>
    (i1 \<le> f \<longrightarrow> E ! nat i1 > E ! nat s)"
  using assms
proof (induction E s f i rule: scan_up.induct)
  case (1 E s f i)
  show ?case
  proof (cases "i \<le> f \<and> E ! nat i \<le> E ! nat s")
    case True
    with 1(1) [of "E ! nat s" "E ! nat i"] 1(2-6) obtain i1 where i1: "scan_up E s f (i + 1) = Some i1" "i + 1 \<le> i1" "i1 \<le> f + 1" "\<forall>k \<in> {i + 1..<i1}. E ! nat k \<le> E ! nat s"
      "i1 \<le> f \<longrightarrow> E ! nat i1 > E ! nat s" by auto
    have "{i..<i1} = insert i {i + 1..<i1}" using i1(2) by auto
    then have "\<forall>k \<in> {i..<i1}. E ! nat k \<le> E ! nat s" using True i1(4) by simp
    moreover have "scan_up E s f i = Some i1" using True i1(1) 1(2-5) by (subst scan_up.simps) simp
    ultimately show ?thesis using i1 by auto
  next
    case False
    then have "scan_up E s f i = Some i" using 1(2-5) by (subst scan_up.simps) auto
    then show ?thesis using 1(2-6) False by auto
  qed
qed

lemma scan_down_spec:
  assumes "0 \<le> s" "s \<le> j" "j < int (length E)"
  shows "\<exists>j1. scan_down passes E s j = Some j1 \<and> s \<le> j1 \<and> j1 \<le> j \<and> (\<forall>k \<in> {j1<..j}. passes (E ! nat s) (E ! nat k)) \<and>
    (s < j1 \<longrightarrow> \<not> passes (E ! nat s) (E ! nat j1))"
  using assms
proof (induction passes E s j rule: scan_down.induct)
  case (1 passes E s j)
  show ?case
  proof (cases "s < j \<and> passes (E ! nat s) (E ! nat j)")
    case True
    with 1(1) [of "E ! nat s" "E ! nat j"] 1(2-4) obtain j1 where j1: "scan_down passes E s (j - 1) = Some j1" "s \<le> j1" "j1 \<le> j - 1"
      "\<forall>k \<in> {j1<..j - 1}. passes (E ! nat s) (E ! nat k)" "s < j1 \<longrightarrow> \<not> passes (E ! nat s) (E ! nat j1)" by auto
    have "{j1<..j} = insert j {j1<..j - 1}" using j1(3) by auto
    then have "\<forall>k \<in> {j1<..j}. passes (E ! nat s) (E ! nat k)" using True j1(4) by simp
    moreover have "scan_down passes E s j = Some j1" using True j1(1) 1(2-4) by (subst scan_down.simps) simp
    ultimately show ?thesis using j1 by auto
  next
    case False
    then have "scan_down passes E s j = Some j" using 1(2-4) by (subst scan_down.simps) auto
    then show ?thesis using 1(2-4) False by auto
  qed
qed

text \<open>A rearrangement of the elements from \<open>s\<close> to \<open>f\<close>, and what the outer loop of \<open>QSort\<close> keeps.\<close>

definition rearranged :: "int \<Rightarrow> int \<Rightarrow> int list \<Rightarrow> int list \<Rightarrow> bool" where
  "rearranged s f E E' \<longleftrightarrow> length E' = length E \<and> mset E' = mset E \<and> (\<forall>k. 0 \<le> k \<longrightarrow> k < s \<or> f < k \<longrightarrow> E' ! nat k = E ! nat k)"

lemma rearranged_refl: "rearranged s f E E" and rearranged_trans: "rearranged s f E1 E2 \<Longrightarrow> rearranged s f E2 E3 \<Longrightarrow> rearranged s f E1 E3"
  by (auto simp: rearranged_def)

lemma rearranged_swap:
  assumes "s \<le> i" "i \<le> f" "s \<le> j" "j \<le> f" "0 \<le> s" "f < int (length E)"
  shows "rearranged s f E (E[nat i := E ! nat j, nat j := E ! nat i])"
proof -
  have "nat i < length E" "nat j < length E" using assms by linarith+
  then have "mset (E[nat i := E ! nat j, nat j := E ! nat i]) = mset E" using mset_swap [of "nat j" E "nat i"] by simp
  moreover have "E[nat i := E ! nat j, nat j := E ! nat i] ! nat k = E ! nat k" if "0 \<le> k" "k < s \<or> f < k" for k
  proof -
    have "nat k \<noteq> nat i" "nat k \<noteq> nat j" using that assms by linarith+
    then show ?thesis by simp
  qed
  ultimately show ?thesis by (simp add: rearranged_def)
qed

definition split_inv :: "(int \<Rightarrow> int \<Rightarrow> bool) \<Rightarrow> int \<Rightarrow> int \<Rightarrow> int \<Rightarrow> int list \<Rightarrow> int \<Rightarrow> int \<Rightarrow> bool" where
  "split_inv passes p s f E i j \<longleftrightarrow> s < i \<and> i \<le> f + 1 \<and> s \<le> j \<and> j \<le> f \<and> E ! nat s = p \<and>
     (\<forall>k \<in> {s<..<i}. E ! nat k \<le> p) \<and> (\<forall>k \<in> {j<..f}. passes p (E ! nat k))"

lemma split_loop_spec:
  assumes pass: "\<And>x y. passes x y \<Longrightarrow> x \<le> y" "\<And>x y. \<not> passes x y \<Longrightarrow> y \<le> x" and s: "0 \<le> s" "f < int (length E)"
  shows "split_inv passes p s f E i j \<Longrightarrow> \<exists>E' i' j'. split_loop passes s f E i j = Some (E', i', j') \<and> split_inv passes p s f E' i' j' \<and> j' < i' \<and> rearranged s f E E'"
  using s(2)
proof (induction "2 * nat (j - i + 1) + (if E ! nat i > p then 1 else 0)" arbitrary: E i j rule: less_induct)
  case less
  note I = less.prems(1) [unfolded split_inv_def]
  show ?case
  proof (cases "i \<le> j")
    case False
    then have "split_loop passes s f E i j = Some (E, i, j)" by (subst split_loop.simps) simp
    then show ?thesis using less.prems(1) False rearranged_refl by auto
  next
    case True
    from scan_up_spec [of s E f i] I s less.prems(2) obtain i1 where
      i1: "scan_up E s f i = Some i1" "i \<le> i1" "i1 \<le> f + 1" "\<forall>k \<in> {i..<i1}. E ! nat k \<le> p" "i1 \<le> f \<longrightarrow> E ! nat i1 > p" by auto
    from scan_down_spec [of s j E passes] I s less.prems(2) obtain j1 where
      j1: "scan_down passes E s j = Some j1" "s \<le> j1" "j1 \<le> j" "\<forall>k \<in> {j1<..j}. passes p (E ! nat k)" "s < j1 \<longrightarrow> \<not> passes p (E ! nat j1)" by auto
    have lo: "\<forall>k \<in> {s<..<i1}. E ! nat k \<le> p" using I i1(4) by (metis atLeastLessThan_iff greaterThanLessThan_iff not_le)
    have hi: "\<forall>k \<in> {j1<..f}. passes p (E ! nat k)" using I j1(4) by (metis greaterThanAtMost_iff not_le)
    have inv: "split_inv passes p s f E i1 j1" using I i1 j1 lo hi by (simp add: split_inv_def)
    show ?thesis
    proof (cases "i1 \<le> j1")
      case False
      then have "split_loop passes s f E i1 j1 = Some (E, i1, j1)" by (subst split_loop.simps) simp
      then have "split_loop passes s f E i j = Some (E, i1, j1)" using True False i1(1) j1(1) by (subst split_loop.simps) simp
      then show ?thesis using inv False rearranged_refl by auto
    next
      case True
      let ?E = "E[nat i1 := E ! nat j1, nat j1 := E ! nat i1]"
      have b: "0 \<le> i1" "s < i1" "i1 \<le> f" "j1 \<le> f" "0 \<le> j1" "j1 < int (length E)" "i1 < int (length E)"
        using True I i1(2) j1(3) s less.prems(2) by linarith+
      have small: "E ! nat j1 \<le> p" "p < E ! nat i1" using j1(5) i1(5) b True pass(2) by auto
      then have ne: "i1 \<noteq> j1" by auto
      have nn: "nat i1 \<noteq> nat j1" "nat i1 < length E" "nat j1 < length E" using ne b by linarith+
      have get: "?E ! nat k = (if k = j1 then E ! nat i1 else if k = i1 then E ! nat j1 else E ! nat k)" if "0 \<le> k" for k
        using that b nn by (auto simp: nth_list_update eq_nat_nat_iff)
      have inv1: "split_inv passes p s f ?E i1 j1"
        using inv get s b True by (auto simp: split_inv_def)
      have E1: "nat (j1 - i1 + 1) \<le> nat (j - i + 1)" "\<not> ?E ! nat i1 > p" using i1(2) j1(3) get [of i1] b small ne by auto
      have "2 * nat (j1 - i1 + 1) + (if ?E ! nat i1 > p then 1 else 0) < 2 * nat (j - i + 1) + (if E ! nat i > p then 1 else 0)"
      proof (cases "E ! nat i > p")
        case True
        then show ?thesis using E1 by simp
      next
        case False
        then have "i \<noteq> i1" using small by auto
        then have "nat (j1 - i1 + 1) < nat (j - i + 1)" using i1(2) j1(3) \<open>i1 \<le> j1\<close> by linarith
        then show ?thesis using E1 by simp
      qed
      from less.hyps [OF this inv1] less.prems(2) obtain E' i' j' where
        e: "split_loop passes s f ?E i1 j1 = Some (E', i', j')" "split_inv passes p s f E' i' j'" "j' < i'" "rearranged s f ?E E'" by auto
      have "Swap E i1 j1 = Some ?E" using b by (intro Swap_in)
      then have "split_loop passes s f E i j = Some (E', i', j')" using \<open>i \<le> j\<close> True i1(1) j1(1) e(1) by (subst split_loop.simps) simp
      moreover have "rearranged s f E E'"
        using rearranged_trans [OF rearranged_swap e(4)] b s j1(2) less.prems(2) by simp
      ultimately show ?thesis using e by blast
    qed
  qed
qed

section \<open>Quicksort\<close>

lemma sort_split:
  fixes p :: int
  assumes "mset Y = mset (A @ p # M @ B)" "\<forall>a \<in> set A. a \<le> p" "\<forall>m \<in> set M. m = p" "\<forall>b \<in> set B. p \<le> b"
  shows "sort Y = sort A @ p # M @ sort B"
proof (rule properties_for_sort)
  have "sorted (sort A @ replicate (Suc (length M)) p @ sort B)" using assms(2,4) by (fastforce simp: sorted_append sorted_replicate)
  moreover have "M = replicate (length M) p" using assms(3) by (simp add: replicate_length_same [symmetric])
  ultimately show "sorted (sort A @ p # M @ sort B)" by (metis append_Cons replicate_Suc)
qed (use assms(1) in simp)

lemma rearranged_segment:
  assumes r: "rearranged s f (X @ Y @ Z) E" and l: "0 \<le> s" "length X = nat s" "f = s + int (length Y) - 1"
  obtains Y' where "E = X @ Y' @ Z" "length Y' = length Y" "mset Y' = mset Y"
proof -
  let ?Y = "take (length Y) (drop (length X) E)"
  have len: "length E = length X + length Y + length Z" using r by (simp add: rearranged_def)
  have out: "E ! k = (X @ Y @ Z) ! k" if "k < length X \<or> length X + length Y \<le> k" for k
  proof -
    have "0 \<le> int k" "int k < s \<or> f < int k" using that l by linarith+
    then show ?thesis using r unfolding rearranged_def by (metis nat_int)
  qed
  have "take (length X) E = X" using len out by (intro nth_equalityI) (auto simp: nth_append)
  moreover have "drop (length X + length Y) E = Z"
    using len out by (intro nth_equalityI) (auto simp: nth_append)
  ultimately have e: "E = X @ ?Y @ Z" by (metis append_assoc append_take_drop_id drop_drop add.commute take_add)
  have "mset (X @ ?Y @ Z) = mset (X @ Y @ Z)" using r e by (simp add: rearranged_def)
  then have "mset ?Y = mset Y" by simp
  moreover have "length ?Y = length Y" using len by simp
  ultimately show ?thesis using that e by blast
qed

lemma partition_spec:
  assumes pass: "\<And>x y. passes x y \<Longrightarrow> x \<le> y" "\<And>x y. \<not> passes x y \<Longrightarrow> y \<le> x"
    and s: "0 \<le> s" "s < f" "length X = nat s" "f = s + int (length Y) - 1"
  obtains E1 i j A M B p where "split_loop passes s f (X @ Y @ Z) (s + 1) f = Some (E1, i, j)" "Swap E1 s j = Some (X @ A @ p # M @ B @ Z)"
    "j = s + int (length A)" "i = j + 1 + int (length M)" "mset Y = mset (A @ p # M @ B)" "length Y = length (A @ p # M @ B)"
    "\<forall>a \<in> set A. a \<le> p" "\<forall>m \<in> set M. m = p \<and> passes p m" "\<forall>b \<in> set B. p \<le> b"
proof -
  let ?E = "X @ Y @ Z"
  define p where "p = ?E ! nat s"
  have f: "f < int (length ?E)" using s by simp
  have "split_inv passes p s f ?E (s + 1) f" using s by (auto simp: split_inv_def p_def)
  from split_loop_spec [OF pass s(1) f this] obtain E1 i j where
    e1: "split_loop passes s f ?E (s + 1) f = Some (E1, i, j)" "split_inv passes p s f E1 i j" "j < i" "rearranged s f ?E E1" by blast
  note I = e1(2) [unfolded split_inv_def]
  have len: "length E1 = length ?E" using e1(4) by (simp add: rearranged_def)
  let ?E2 = "E1[nat s := E1 ! nat j, nat j := E1 ! nat s]"
  have sw: "Swap E1 s j = Some ?E2" using I s f len by (intro Swap_in) auto
  have "rearranged s f ?E ?E2" by (rule rearranged_trans [OF e1(4) rearranged_swap]) (use I s f len in auto)
  from rearranged_segment [OF this s(1,3,4)] obtain Y' where Y': "?E2 = X @ Y' @ Z" "length Y' = length Y" "mset Y' = mset Y" by blast
  have get: "Y' ! k = ?E2 ! (nat s + k)" if "k < length Y" for k using that Y'(1,2) s(3) by (simp add: nth_append)
  define a m where "a = nat (j - s)" and "m = nat (i - j - 1)"
  have b: "s < i" "i \<le> f + 1" "s \<le> j" "j \<le> f" using I by simp_all
  have am: "a + Suc m + nat (f + 1 - i) = length Y" "int a = j - s" "int m = i - j - 1" "a < length Y"
    unfolding a_def m_def using b e1(3) s(4) by linarith+
  have ix: "nat s + k = nat (s + int k)" for k using s(1) by simp
  have E2: "?E2 ! nat k = (if k = j then p else if k = s then E1 ! nat j else E1 ! nat k)" if "s \<le> k" "k \<le> f" for k
    using that I s f len by (auto simp: nth_list_update eq_nat_nat_iff)
  have val: "Y' ! k = (if k = a then p else if k = 0 then E1 ! nat j else E1 ! nat (s + int k))" if "k < length Y" for k
  proof -
    have "s + int k = j \<longleftrightarrow> k = a" using am(2) by linarith
    moreover have "s + int k \<le> f" using that s(4) by linarith
    ultimately show ?thesis using get [OF that] E2 [of "s + int k"] unfolding ix by auto
  qed
  have low: "Y' ! k \<le> p" if "k < a" for k using that val [of k] am I by auto
  have mid: "Y' ! k = p \<and> passes p (Y' ! k)" if "a < k" "k \<le> a + m" for k
  proof -
    have "s + int k \<in> {s<..<i}" "s + int k \<in> {j<..f}" using that am I by auto
    then have "E1 ! nat (s + int k) \<le> p" "passes p (E1 ! nat (s + int k))" using I by blast+
    moreover have "Y' ! k = E1 ! nat (s + int k)" using val [of k] that am by auto
    ultimately show ?thesis using pass(1) by fastforce
  qed
  have high: "p \<le> Y' ! k" if "a + m < k" "k < length Y" for k
  proof -
    have "s + int k \<in> {j<..f}" using that am I s(4) by auto
    then show ?thesis using val [of k] that I pass(1) by auto
  qed
  let ?A = "take a Y'" and ?M = "take m (drop (Suc a) Y')" and ?B = "drop (Suc a + m) Y'"
  have d: "Y' = ?A @ p # ?M @ ?B"
  proof -
    have "Y' = ?A @ drop a Y'" by simp
    moreover have "drop a Y' = Y' ! a # drop (Suc a) Y'" using am(4) Y'(2) by (simp add: Cons_nth_drop_Suc)
    moreover have "drop (Suc a) Y' = ?M @ ?B" by (metis append_take_drop_id drop_drop add.commute)
    ultimately show ?thesis using val [OF am(4)] by simp
  qed
  show ?thesis
  proof (rule that)
    show "split_loop passes s f ?E (s + 1) f = Some (E1, i, j)" by (rule e1(1))
    show "Swap E1 s j = Some (X @ ?A @ p # ?M @ ?B @ Z)" using sw Y'(1) d by simp
    show "j = s + int (length ?A)" "i = j + 1 + int (length ?M)" using am Y'(2) by simp_all
    show "mset Y = mset (?A @ p # ?M @ ?B)" "length Y = length (?A @ p # ?M @ ?B)" using Y'(2,3) d by metis+
    show "\<forall>x \<in> set ?A. x \<le> p" using low by (auto simp: in_set_conv_nth)
    show "\<forall>x \<in> set ?M. x = p \<and> passes p x"
    proof
      fix x
      assume "x \<in> set ?M"
      then obtain n where "n < m" "x = Y' ! (Suc a + n)" using am Y'(2) by (auto simp: in_set_conv_nth)
      then show "x = p \<and> passes p x" using mid [of "Suc a + n"] by fastforce
    qed
    show "\<forall>x \<in> set ?B. p \<le> x" using high Y'(2) by (auto simp: in_set_conv_nth)
  qed
qed

lemma QSort_segment:
  assumes "0 \<le> s" "length X = nat s" "f = s + int (length Y) - 1"
  shows "QSort (X @ Y @ Z) s f = Some (X @ sort Y @ Z)"
  using assms
proof (induction "length Y" arbitrary: X Y Z s f rule: less_induct)
  case less
  show ?case
  proof (cases "s < f")
    case False
    then have "length Y \<le> 1" using less.prems(3) by linarith
    then have "sort Y = Y" by (cases Y) auto
    then show ?thesis using False by (subst QSort.simps) simp
  next
    case True
    have le: "\<And>x y :: int. x \<le> y \<Longrightarrow> x \<le> y" "\<And>x y :: int. \<not> x \<le> y \<Longrightarrow> y \<le> x" by simp_all
    obtain E1 i j A M B p where
      e: "split_loop (\<le>) s f (X @ Y @ Z) (s + 1) f = Some (E1, i, j)" "Swap E1 s j = Some (X @ A @ p # M @ B @ Z)"
      "j = s + int (length A)" "i = j + 1 + int (length M)" "mset Y = mset (A @ p # M @ B)" "length Y = length (A @ p # M @ B)"
      "\<forall>a \<in> set A. a \<le> p" "\<forall>m \<in> set M. m = p \<and> p \<le> m" "\<forall>b \<in> set B. p \<le> b"
      by (rule partition_spec [where passes = "(\<le>)" and Z = Z, OF le less.prems(1) True less.prems(2,3)])
    have "QSort (X @ A @ (p # M @ B @ Z)) s (j - 1) = Some (X @ sort A @ (p # M @ B @ Z))"
      by (rule less.hyps) (use less.prems e in simp_all)
    moreover have "QSort ((X @ sort A @ p # M) @ B @ Z) i f = Some ((X @ sort A @ p # M) @ sort B @ Z)"
      by (rule less.hyps) (use less.prems e in simp_all)
    ultimately show ?thesis
      using e(1,2) True sort_split [OF e(5,7) _ e(9)] e(8) by (subst QSort.simps) simp
  qed
qed

section \<open>Mergesort\<close>

fun merged :: "int list \<Rightarrow> int list \<Rightarrow> int list" where
  "merged [] ys = ys"
| "merged xs [] = xs"
| "merged (x # xs) (y # ys) = (if x < y then x # merged xs (y # ys) else y # merged (x # xs) ys)"

lemma mset_merged [simp]: "mset (merged xs ys) = mset xs + mset ys"
  by (induction xs ys rule: merged.induct) simp_all

lemma set_merged [simp]: "set (merged xs ys) = set xs \<union> set ys"
  by (metis mset_merged set_mset_mset set_mset_union)

lemma sorted_merged: "sorted xs \<Longrightarrow> sorted ys \<Longrightarrow> sorted (merged xs ys)"
  by (induction xs ys rule: merged.induct) (auto simp: le_less_trans less_imp_le intro: order_trans)

lemma sort_merged: "mset Y = mset Y1 + mset Y2 \<Longrightarrow> merged (sort Y1) (sort Y2) = sort Y"
  by (rule sym, rule properties_for_sort) (simp_all add: sorted_merged)

lemma put_segment: "0 < k \<Longrightarrow> length X = nat (k - 1) \<Longrightarrow> put (X @ y # Z) (k - 1) x = Some (X @ x # Z)"
  using list_update_length [of X y Z x] by (simp add: put_def)

lemma merge_back_spec:
  assumes "0 < k" "length X = nat (k - 1)" "length Y = length xs + length ys"
  shows "merge_back (length xs + length ys) k xs ys (X @ Y @ Z) = Some (X @ merged xs ys @ Z)"
  using assms
proof (induction xs ys arbitrary: X Y k rule: merged.induct)
  case (1 ys)
  then show ?case
  proof (induction ys arbitrary: X Y k)
    case (Cons y ys)
    then obtain w W where Y: "Y = w # W" by (cases Y) auto
    show ?case using Cons.IH [of "k + 1" "X @ [y]" W] Cons.prems Y put_segment [of k X w "W @ Z" y] by simp
  qed simp
next
  case (2 x xs)
  then show ?case
  proof (induction xs arbitrary: x X Y k)
    case Nil
    then obtain w where "Y = [w]" by (cases Y) auto
    then show ?case using Nil.prems put_segment [of k X w Z x] by simp
  next
    case (Cons x' xs)
    then obtain w W where Y: "Y = w # W" by (cases Y) auto
    show ?case using Cons.IH [of "k + 1" "X @ [x]" W x'] Cons.prems Y put_segment [of k X w "W @ Z" x] by simp
  qed
next
  case (3 x xs y ys)
  then obtain w W where Y: "Y = w # W" by (cases Y) auto
  show ?case
    using 3(1) [of "k + 1" "X @ [x]" W] 3(2) [of "k + 1" "X @ [y]" W] 3(3-5) Y put_segment [of k X w "W @ Z" x] put_segment [of k X w "W @ Z" y]
    by (simp split: if_split)
qed

lemma copy_from_spec: "0 \<le> i \<Longrightarrow> length X = nat i \<Longrightarrow> copy_from (length Y) (X @ Y @ Z) i = Some Y"
proof (induction Y arbitrary: X i)
  case (Cons y Y)
  have "copy_from (length Y) ((X @ [y]) @ Y @ Z) (i + 1) = Some Y" by (rule Cons.IH) (use Cons.prems in simp_all)
  then show ?case using Cons.prems nth_append_length [of X y "Y @ Z"] by (simp add: at_def)
qed simp

lemma Merge_segment:
  assumes "0 < p" "length X = nat (p - 1)" "q = p + int (length Y1) - 1" "r = q + int (length Y2)" "int (length (Y1 @ Y2)) \<le> room"
  shows "Merge_room room (X @ (Y1 @ Y2) @ Z) p q r = Some (X @ merged Y1 Y2 @ Z)"
proof -
  have c: "q - p + 1 = int (length Y1)" "r - q = int (length Y2)" "r - p + 1 = int (length Y1 + length Y2)" using assms by simp_all
  have "copy_from (length Y1) (X @ Y1 @ (Y2 @ Z)) (p - 1) = Some Y1" by (rule copy_from_spec) (use assms in simp_all)
  moreover have "copy_from (length Y2) ((X @ Y1) @ Y2 @ Z) q = Some Y2" by (rule copy_from_spec) (use assms in simp_all)
  moreover have "merge_back (length Y1 + length Y2) p Y1 Y2 (X @ (Y1 @ Y2) @ Z) = Some (X @ merged Y1 Y2 @ Z)"
    by (rule merge_back_spec) (use assms in simp_all)
  ultimately show ?thesis using assms(5) unfolding Merge_room_def c by (simp add: nat_int_add)
qed

lemma MSort_segment:
  assumes "0 < p" "length X = nat (p - 1)" "r = p + int (length Y) - 1" "int (length Y) \<le> room"
  shows "MSort_room room (X @ Y @ Z) p r = Some (X @ sort Y @ Z)"
  using assms
proof (induction "length Y" arbitrary: X Y Z p r rule: less_induct)
  case less
  show ?case
  proof (cases "p < r")
    case False
    then have "length Y \<le> 1" using less.prems(3) by linarith
    then have "sort Y = Y" by (cases Y) auto
    then show ?thesis using False by (subst MSort_room.simps) simp
  next
    case True
    define q where "q = (p + r) div 2"
    have q: "p \<le> q" "q < r" using True by (simp_all add: q_def)
    define Y1 Y2 where "Y1 = take (nat (q - p + 1)) Y" and "Y2 = drop (nat (q - p + 1)) Y"
    have Y: "Y = Y1 @ Y2" by (simp add: Y1_def Y2_def)
    have l: "int (length Y1) = q - p + 1" "int (length Y2) = r - q" using q less.prems(3) by (simp_all add: Y1_def Y2_def)
    have s: "length Y1 < length Y" "length Y2 < length Y" "int (length Y1) \<le> room" "int (length Y2) \<le> room"
      using l q less.prems(4) arg_cong [OF Y, of length] unfolding length_append by linarith+
    have "MSort_room room (X @ Y1 @ (Y2 @ Z)) p q = Some (X @ sort Y1 @ (Y2 @ Z))"
      by (rule less.hyps [OF s(1)]) (use less.prems l s in simp_all)
    moreover have "MSort_room room ((X @ sort Y1) @ Y2 @ Z) (q + 1) r = Some ((X @ sort Y1) @ sort Y2 @ Z)"
      by (rule less.hyps [OF s(2)]) (use less.prems l q s in simp_all)
    moreover have "Merge_room room (X @ (sort Y1 @ sort Y2) @ Z) p q r = Some (X @ merged (sort Y1) (sort Y2) @ Z)"
      by (rule Merge_segment) (use less.prems l q Y in simp_all)
    moreover have "merged (sort Y1) (sort Y2) = sort Y" by (rule sort_merged) (simp add: Y)
    ultimately show ?thesis using True by (subst MSort_room.simps) (simp add: q_def [symmetric] Y)
  qed
qed

section \<open>Random pivots\<close>

text \<open>The exchange of the first element with the pivot, and the partition after it.\<close>

lemma pivot_spec:
  assumes "0 \<le> s" "length X = nat s" "f = s + int (length Y) - 1" "s < f"
  obtains Y0 where "Swap (X @ Y @ Z) s (RANDU t s f) = Some (X @ Y0 @ Z)" "length Y0 = length Y" "mset Y0 = mset Y"
    "f = s + int (length Y0) - 1"
proof -
  define v where "v = RANDU t s f"
  have v: "s \<le> v" "v \<le> f" using assms(4) pos_mod_bound [of "f - s" "uint t"] pos_mod_sign [of "f - s" "uint t"] unfolding v_def RANDU_def by linarith+
  have fl: "f < int (length (X @ Y @ Z))" using assms by simp
  have "Swap (X @ Y @ Z) s v = Some ((X @ Y @ Z)[nat s := (X @ Y @ Z) ! nat v, nat v := (X @ Y @ Z) ! nat s])"
    by (rule Swap_in) (use v fl assms in linarith)+
  moreover have "rearranged s f (X @ Y @ Z) ((X @ Y @ Z)[nat s := (X @ Y @ Z) ! nat v, nat v := (X @ Y @ Z) ! nat s])"
    by (rule rearranged_swap) (use v fl assms in linarith)+
  ultimately show ?thesis using rearranged_segment assms(1-3) that unfolding v_def by metis
qed

lemma QSort_random_segment:
  assumes "0 \<le> s" "length X = nat s" "f = s + int (length Y) - 1" "length Y \<le> length tsc + 1"
  shows "\<exists>tsc'. QSort_random (X @ Y @ Z) tsc s f = Some (X @ sort Y @ Z, tsc') \<and> length tsc \<le> length tsc' + (length Y - 1)"
  using assms
proof (induction "length Y" arbitrary: X Y Z tsc s f rule: less_induct)
  case less
  show ?case
  proof (cases "s < f")
    case False
    then have "length Y \<le> 1" using less.prems(3) by linarith
    then have "sort Y = Y" by (cases Y) auto
    then show ?thesis using False by (subst QSort_random.simps) simp
  next
    case True
    then obtain t ts where tsc: "tsc = t # ts" using less.prems(3,4) by (cases tsc) auto
    obtain Y0 where Y0: "Swap (X @ Y @ Z) s (RANDU t s f) = Some (X @ Y0 @ Z)" "length Y0 = length Y" "mset Y0 = mset Y"
      "f = s + int (length Y0) - 1"
      by (rule pivot_spec [OF less.prems(1-3) True])
    have le: "\<And>x y :: int. x \<le> y \<Longrightarrow> x \<le> y" "\<And>x y :: int. \<not> x \<le> y \<Longrightarrow> y \<le> x" by simp_all
    obtain E1 i j A M B p where
      e: "split_loop (\<le>) s f (X @ Y0 @ Z) (s + 1) f = Some (E1, i, j)" "Swap E1 s j = Some (X @ A @ p # M @ B @ Z)"
      "j = s + int (length A)" "i = j + 1 + int (length M)" "mset Y0 = mset (A @ p # M @ B)" "length Y0 = length (A @ p # M @ B)"
      "\<forall>a \<in> set A. a \<le> p" "\<forall>m \<in> set M. m = p \<and> p \<le> m" "\<forall>b \<in> set B. p \<le> b"
      by (rule partition_spec [where passes = "(\<le>)" and Z = Z, OF le less.prems(1) True less.prems(2) Y0(4)])
    have len: "length Y = length A + 1 + length M + length B" using e(6) Y0(2) by simp
    have "\<exists>tsc'. QSort_random (X @ A @ (p # M @ B @ Z)) ts s (j - 1) = Some (X @ sort A @ (p # M @ B @ Z), tsc') \<and>
        length ts \<le> length tsc' + (length A - 1)"
      by (rule less.hyps) (use less.prems len e(3) tsc in simp_all)
    then obtain ts1 where l: "QSort_random (X @ A @ (p # M @ B @ Z)) ts s (j - 1) = Some (X @ sort A @ (p # M @ B @ Z), ts1)"
      "length ts \<le> length ts1 + (length A - 1)" by blast
    have "\<exists>tsc'. QSort_random ((X @ sort A @ p # M) @ B @ Z) ts1 i f = Some ((X @ sort A @ p # M) @ sort B @ Z, tsc') \<and>
        length ts1 \<le> length tsc' + (length B - 1)"
      by (rule less.hyps) (use less.prems len e(3,4) tsc l(2) in simp_all)
    then obtain ts2 where r: "QSort_random ((X @ sort A @ p # M) @ B @ Z) ts1 i f = Some ((X @ sort A @ p # M) @ sort B @ Z, ts2)"
      "length ts1 \<le> length ts2 + (length B - 1)" by blast
    have m: "mset Y = mset (A @ p # M @ B)" using e(5) Y0(3) by simp
    have "sort Y = sort A @ p # M @ sort B" by (rule sort_split [OF m e(7) _ e(9)]) (use e(8) in blast)
    moreover have "length tsc \<le> length ts2 + (length Y - 1)" using l(2) r(2) len tsc less.prems(3) True by simp
    ultimately show ?thesis using True tsc Y0(1) e(1,2) l(1) r(1) by (subst QSort_random.simps) simp
  qed
qed

lemma QuickSort_random_sort: "length E \<le> length tsc + 1 \<Longrightarrow> QuickSort_random E tsc (int (length E)) = Some (sort E)"
  using QSort_random_segment [of 0 "[]" "int (length E) - 1" E tsc "[]"] by (auto simp: QuickSort_random_def)

section \<open>Selection of the k-th element\<close>

lemma sort_nth_split:
  fixes p :: int
  assumes "mset Y = mset (A @ p # B)" "\<forall>a \<in> set A. a \<le> p" "\<forall>b \<in> set B. p \<le> b"
  shows "sort Y ! k = (if k < length A then sort A ! k else if k = length A then p else sort B ! (k - length A - 1))"
  using sort_split [of Y A p "[]" B] assms by (simp add: nth_append nth_Cons')

lemma QSelect_segment:
  assumes "0 \<le> s" "length X = nat s" "f = s + int (length Y) - 1" "s \<le> k" "k \<le> f" "length Y \<le> length tsc + 1"
  shows "\<exists>E'. QSelect (X @ Y @ Z) tsc s f k = Some (sort Y ! nat (k - s), E') \<and> mset E' = mset (X @ Y @ Z)"
  using assms
proof (induction "length Y" arbitrary: X Y Z tsc s f rule: less_induct)
  case less
  show ?case
  proof (cases "s < f")
    case False
    then obtain y where "Y = [y]" "f = s" using less.prems(3-5) by (cases Y; cases "tl Y") auto
    then show ?thesis using less.prems nth_append_length [of X y Z] by (subst QSelect.simps) (simp add: at_def)
  next
    case True
    then obtain t ts where tsc: "tsc = t # ts" using less.prems(3,6) by (cases tsc) auto
    obtain Y0 where Y0: "Swap (X @ Y @ Z) s (RANDU t s f) = Some (X @ Y0 @ Z)" "length Y0 = length Y" "mset Y0 = mset Y"
      "f = s + int (length Y0) - 1"
      by (rule pivot_spec [OF less.prems(1-3) True])
    have lt: "\<And>x y :: int. x < y \<Longrightarrow> x \<le> y" "\<And>x y :: int. \<not> x < y \<Longrightarrow> y \<le> x" by simp_all
    obtain E1 i j A M B p where
      e: "split_loop (<) s f (X @ Y0 @ Z) (s + 1) f = Some (E1, i, j)" "Swap E1 s j = Some (X @ A @ p # M @ B @ Z)"
      "j = s + int (length A)" "i = j + 1 + int (length M)" "mset Y0 = mset (A @ p # M @ B)" "length Y0 = length (A @ p # M @ B)"
      "\<forall>a \<in> set A. a \<le> p" "\<forall>m \<in> set M. m = p \<and> p < m" "\<forall>b \<in> set B. p \<le> b"
      by (rule partition_spec [where passes = "(<)" and Z = Z, OF lt less.prems(1) True less.prems(2) Y0(4)])
    have M: "M = []" using e(8) by (cases M) auto
    have m: "mset Y = mset (A @ p # B)" using e(5) M Y0(3) by simp
    have nth: "sort Y ! n = (if n < length A then sort A ! n else if n = length A then p else sort B ! (n - length A - 1))" for n
      using sort_nth_split [of Y A p B n] m e(7,9) by simp
    have len: "length Y = length A + 1 + length B" using e(6) M Y0(2) by simp
    have same: "mset (X @ A @ p # B @ Z) = mset (X @ Y @ Z)" using m by simp
    have run: "QSelect (X @ Y @ Z) tsc s f k = (if k = j then do { x \<leftarrow> at (X @ A @ p # B @ Z) k; Some (x, X @ A @ p # B @ Z) }
        else if k < j then QSelect (X @ A @ p # B @ Z) ts s (j - 1) k else QSelect (X @ A @ p # B @ Z) ts i f k)"
      using True tsc Y0(1) e(1,2) M by (subst QSelect.simps) simp
    consider "k = j" | "k < j" | "j < k" by linarith
    then show ?thesis
    proof cases
      case 1
      then show ?thesis using run e(3) less.prems nth [of "length A"] nth_append_length [of "X @ A" p "B @ Z"] same
        by (simp add: at_def nat_add_distrib)
    next
      case 2
      have "\<exists>E'. QSelect (X @ A @ (p # B @ Z)) ts s (j - 1) k = Some (sort A ! nat (k - s), E') \<and> mset E' = mset (X @ A @ (p # B @ Z))"
        by (rule less.hyps) (use less.prems len 2 e(3) tsc in simp_all)
      then show ?thesis using run 2 nth [of "nat (k - s)"] e(3) less.prems(4) same by auto
    next
      case 3
      have "\<exists>E'. QSelect ((X @ A @ [p]) @ B @ Z) ts i f k = Some (sort B ! nat (k - i), E') \<and> mset E' = mset ((X @ A @ [p]) @ B @ Z)"
        by (rule less.hyps) (use less.prems len 3 e(3,4) M tsc in simp_all)
      moreover have "i = s + int (length A) + 1" using e(3,4) M by simp
      then have "nat (k - s) - length A - 1 = nat (k - i)" "\<not> nat (k - s) < length A" "nat (k - s) \<noteq> length A"
        using 3 e(3) by linarith+
      ultimately show ?thesis using run 3 nth [of "nat (k - s)"] same by auto
    qed
  qed
qed

lemma KthElement_sort:
  assumes "1 \<le> k" "k \<le> int (length E)" "length E \<le> length tsc + 1"
  shows "\<exists>E'. KthElement E tsc (int (length E)) k = Some (sort E ! nat (k - 1), E') \<and> mset E' = mset E"
  using QSelect_segment [of 0 "[]" "int (length E) - 1" E "k - 1" tsc "[]"] assms by (simp add: KthElement_def)

section \<open>The check and the contract of a sorting routine\<close>

lemma CheckSorted_from_spec:
  "int n + i + 1 = int (length E) \<Longrightarrow> 0 \<le> i \<Longrightarrow> CheckSorted_from n E i = Some (sorted (drop (nat i) E))"
proof (induction n E i rule: CheckSorted_from.induct)
  case (1 E i)
  then obtain x where "drop (nat i) E = [x]" by (cases "drop (nat i) E"; cases "tl (drop (nat i) E)") (auto simp: drop_eq_Nil dest: arg_cong [of _ _ length])
  then show ?case by simp
next
  case (2 n E i)
  let ?r = "drop (nat i + 2) E"
  have "nat i < length E" "Suc (nat i) < length E" using 2(2,3) by linarith+
  then have d: "drop (nat i) E = E ! nat i # drop (nat (i + 1)) E" "drop (nat (i + 1)) E = E ! nat (i + 1) # ?r"
    using 2(3) by (simp_all add: Cons_nth_drop_Suc nat_add_distrib)
  have "sorted (drop (nat i) E) \<longleftrightarrow> E ! nat i \<le> E ! nat (i + 1) \<and> sorted (drop (nat (i + 1)) E)"
    unfolding d(1) unfolding d(2) by auto
  then show ?case using 2(1) [of "E ! nat i" "E ! nat (i + 1)"] 2(2,3) by auto
qed

lemma CheckSorted_sorted: "CheckSorted E (int (length E)) = Some (sorted E)"
proof (cases E)
  case (Cons x xs)
  then show ?thesis using CheckSorted_from_spec [of "length xs" 0 E] by (simp add: CheckSorted_def)
qed (simp add: CheckSorted_def)

locale sorting_program =
  fixes sort_array :: "int list \<Rightarrow> int list option"
    and fits :: "int list \<Rightarrow> bool"
  assumes runs: "fits E \<Longrightarrow> sort_array E \<noteq> None"
    and rearranges: "fits E \<Longrightarrow> sort_array E = Some E' \<Longrightarrow> mset E' = mset E"
    and orders: "fits E \<Longrightarrow> sort_array E = Some E' \<Longrightarrow> sorted E'"
begin

lemma sorts: "fits E \<Longrightarrow> sort_array E = Some (sort E)"
  using runs [of E] rearranges [of E] orders [of E] properties_for_sort by (cases "sort_array E") auto

lemma check_succeeds: "fits E \<Longrightarrow> Option.bind (sort_array E) (\<lambda>E'. CheckSorted E' (int (length E))) = Some True"
  using CheckSorted_sorted [of "sort E"] by (simp add: sorts)

lemma idempotent: "fits E \<Longrightarrow> fits (sort E) \<Longrightarrow> Option.bind (sort_array E) sort_array = sort_array E"
  by (simp add: sorts sorted_sort_id)

end

lemma QuickSort_sort: "QuickSort E (int (length E)) = Some (sort E)"
  using QSort_segment [of 0 "[]" "int (length E) - 1" E "[]"] by (simp add: QuickSort_def)

lemma MSort_room_sort: "int (length E) \<le> room \<Longrightarrow> MSort_room room E 1 (int (length E)) = Some (sort E)"
  using MSort_segment [of 1 "[]" "int (length E)" E room "[]"] by simp

lemma MSort_sort: "int (length E) \<le> SIZE \<Longrightarrow> MSort E 1 (int (length E)) = Some (sort E)"
  by (simp add: MSort_def MSort_room_sort)

interpretation quick: sorting_program "\<lambda>E. QuickSort E (int (length E))" "\<lambda>_. True"
  by unfold_locales (auto simp: QuickSort_sort)

interpretation merge: sorting_program "\<lambda>E. MSort E 1 (int (length E))" "\<lambda>E. int (length E) \<le> SIZE"
  by unfold_locales (auto simp: MSort_sort)

text \<open>
  C25: The sorting routines of the user programs sort every array: quicksort and mergesort end, read and write inside the array only
  and return the sorted list (mergesort for the arrays that fit its static buffers), the check that the programs run after them
  answers 1 exactly for a sorted array, and the selection of the statistics program returns the k-th smallest element for all the
  values that the random source may give its pivots, as the quicksort with random pivots sorts for all of them.
\<close>

theorem sorting_programs_correct:
  "QuickSort E (int (length E)) = Some (sort E) \<and>
   (int (length E) \<le> SIZE \<longrightarrow> MSort E 1 (int (length E)) = Some (sort E)) \<and>
   CheckSorted E (int (length E)) = Some (sorted E) \<and>
   (length E \<le> length tsc + 1 \<longrightarrow> QuickSort_random E tsc (int (length E)) = Some (sort E) \<and>
      (1 \<le> k \<and> k \<le> int (length E) \<longrightarrow>
         (\<exists>E'. KthElement E tsc (int (length E)) k = Some (sort E ! nat (k - 1), E') \<and> mset E' = mset E)))"
  using quick.sorts [of E] merge.sorts [of E] CheckSorted_sorted [of E] QuickSort_random_sort [of E tsc] KthElement_sort [of k E tsc]
  by simp

theorem sorting_programs_witness:
  "QuickSort [3, 1, 2] 3 = Some [1, 2, 3] \<and> MSort [3, 1, 2] 1 3 = Some [1, 2, 3] \<and> CheckSorted [3, 1, 2] 3 = Some False \<and>
   QuickSort_random [3, 1, 2] [5, 7] 3 = Some [1, 2, 3] \<and> map_option fst (KthElement [3, 1, 2] [5, 7] 3 2) = Some 2"
  using sorting_programs_correct [where E = "[3, 1, 2]" and k = 2 and tsc = "[5, 7]"] by (auto simp: SIZE_def)

text \<open>The semi-random filling without the test for 0 faults for one or two elements; with it, it fills the array.\<close>

lemma fill_from_spec:
  assumes "\<And>i. 0 \<le> i \<Longrightarrow> g i = Some (h i)"
  shows "length X = nat i \<Longrightarrow> 0 \<le> i \<Longrightarrow> fill_from (length Y) g (X @ Y) i = Some (X @ map (\<lambda>k. h (i + int k)) [0..<length Y])"
proof (induction Y arbitrary: X i)
  case (Cons y Y)
  have "fill_from (length Y) g ((X @ [h i]) @ Y) (i + 1) = Some ((X @ [h i]) @ map (\<lambda>k. h (i + 1 + int k)) [0..<length Y])"
    by (rule Cons.IH) (use Cons.prems in simp_all)
  then show ?case using Cons.prems assms [of i] put_segment [of "i + 1" X y Y "h i"]
    by (simp add: upt_conv_Cons map_Suc_upt [symmetric] o_def add.assoc del: upt_Suc)
qed simp

lemma InitializeSemiRandom_fills: "\<exists>E'. InitializeSemiRandom E (int (length E)) = Some E' \<and> length E' = length E"
  using fill_from_spec [of "\<lambda>i. Some (i mod (if int (length E) div 3 = 0 then 3 else int (length E) div 3))" _ "[]" 0 E]
  by (simp add: InitializeSemiRandom_def Let_def)

lemma InitializeSemiRandom_unguarded_faults: "length E \<in> {1, 2} \<Longrightarrow> InitializeSemiRandom_unguarded E (int (length E)) = None"
  by (auto simp: InitializeSemiRandom_unguarded_def numeral_2_eq_2)

end
