(* ===== verification/FOS_Utilities.thy ===== *)
theory FOS_Utilities
  imports FOS_Command
begin

text \<open>
  The system call that gives user programs the kernel's channels, sleep locks and semaphores, the order of the exit queue, the state of a process
  and the settings by name (\<open>sys_utilities\<close> of \<open>kern/tests/utilities.c\<close>).

  \<open>utilityName\<close> and \<open>value\<close> come from the process; \<open>value\<close> is a number or the address of one.  A branch that blocks ends with
  \<open>Sleeps\<close>, and what the process does when it runs again is \<open>sys_utilities_resume\<close>.  The arrays of the code have 10 semaphores; another
  index is an access outside the array, \<open>None\<close>.
\<close>

record util_state = prompt_state +
  firstTimeSleep :: bool
  firstTimeSleepLock :: bool
  numOfSlaves :: int

record utilenv =
  ue_split :: "string \<Rightarrow> string list"
  ue_strtol :: "string \<Rightarrow> int"

definition maxNumOfKSems :: nat where "maxNumOfKSems = 10"
definition MAX_REF_CNT :: int where "MAX_REF_CNT = 128"

text \<open>The test sleep lock and the semaphores \<open>__ksems\<close> among the sleep locks and semaphores of the kernel.\<close>

definition tstslplk :: nat where "tstslplk = 1"
definition ksem :: "nat \<Rightarrow> nat" where "ksem i = i + 2"

definition starts_with :: "string \<Rightarrow> string \<Rightarrow> bool" where
  "starts_with name p \<longleftrightarrow> take (length p) name = p"

definition token :: "utilenv \<Rightarrow> string \<Rightarrow> nat \<Rightarrow> string option" where
  "token ue name k = argument (ue_split ue name) k"

definition int_token :: "utilenv \<Rightarrow> string \<Rightarrow> nat \<Rightarrow> int option" where
  "int_token ue name k = map_option (\<lambda>t. sint (word_of_int (ue_strtol ue t) :: u32)) (token ue name k)"

definition get_word :: "u32 \<Rightarrow> 'z mem_state_scheme \<Rightarrow> u32 option" where
  "get_word va s = do {
     b0 \<leftarrow> mmu_get_byte va s; b1 \<leftarrow> mmu_get_byte (va + 1) s; b2 \<leftarrow> mmu_get_byte (va + 2) s; b3 \<leftarrow> mmu_get_byte (va + 3) s;
     Some (ucast b0 OR push_bit 8 (ucast b1) OR push_bit 16 (ucast b2) OR push_bit 24 (ucast b3)) }"

definition util_ok :: "'s \<Rightarrow> (outcome \<times> 's) option" where
  "util_ok s = Some (Ret 0, s)"

text \<open>The branches that store one number at \<open>value\<close> while they hold the lock of the queues.\<close>

definition store_locked ::
  "('z util_state_scheme \<Rightarrow> nat) \<Rightarrow> u32 \<Rightarrow> 'z util_state_scheme \<Rightarrow> (outcome \<times> 'z util_state_scheme) option" where
  "store_locked f va s = do {
     s1 \<leftarrow> acquire_kspinlock QLOCK s;
     s2 \<leftarrow> put_word va (of_nat (f s1)) s1;
     s3 \<leftarrow> release_kspinlock QLOCK s2;
     util_ok s3 }"

definition store :: "u32 \<Rightarrow> u32 \<Rightarrow> 'z util_state_scheme \<Rightarrow> (outcome \<times> 'z util_state_scheme) option" where
  "store va w s = do { s1 \<leftarrow> put_word va w s; util_ok s1 }"

section \<open>Priorities and the order of the exit queue\<close>

text \<open>\<open>env_set_nice\<close> is not implemented: it panics.\<close>

definition util_set_nice :: "utilenv \<Rightarrow> string \<Rightarrow> u32 \<Rightarrow> 'z util_state_scheme \<Rightarrow> (outcome \<times> 'z util_state_scheme) option" where
  "util_set_nice ue name value s = None"

definition util_set_priority :: "utilenv \<Rightarrow> string \<Rightarrow> u32 \<Rightarrow> 'z util_state_scheme \<Rightarrow> (outcome \<times> 'z util_state_scheme) option" where
  "util_set_priority ue name value s = do {
     envID \<leftarrow> int_token ue name 1;
     (r, env) \<leftarrow> envid2env envID False s;
     e \<leftarrow> env;
     assert_that (env_id (envs s e) = envID);
     s1 \<leftarrow> env_set_priority envID (sint value) s;
     util_ok s1 }"

text \<open>
  The loop over the exit queue from the process that exited first: the processes of the program are counted down, and their identifiers have to
  ascend, or to descend.
\<close>

fun exit_order :: "bool \<Rightarrow> string \<Rightarrow> env list \<Rightarrow> int \<Rightarrow> int \<Rightarrow> int \<times> bool" where
  "exit_order asc prog [] prevEnvID n = (n, True)"
| "exit_order asc prog (e # es) prevEnvID n =
     (if prog_name e \<noteq> prog then exit_order asc prog es prevEnvID n
      else if (if asc then prevEnvID > env_id e else prevEnvID < env_id e) then (n - 1, False)
      else exit_order asc prog es (env_id e) (n - 1))"

definition under_cons_lock ::
  "('z util_state_scheme \<Rightarrow> 'z util_state_scheme option) \<Rightarrow> 'z util_state_scheme \<Rightarrow> (outcome \<times> 'z util_state_scheme) option" where
  "under_cons_lock rest s = do {
     (r, s1) \<leftarrow> cons_lock s;
     case r of
       Ret _ \<Rightarrow> do { s2 \<leftarrow> rest s1; util_ok s2 }
     | _ \<Rightarrow> Some (r, s1) }"

definition report_exit_order :: "bool \<Rightarrow> u32 \<Rightarrow> 'z util_state_scheme \<Rightarrow> 'z util_state_scheme option" where
  "report_exit_order good va s = do {
     s1 \<leftarrow> cons_unlock s;
     put_word va (if good then 1 else 0) s1 }"

definition util_check_exit_order :: "utilenv \<Rightarrow> string \<Rightarrow> u32 \<Rightarrow> 'z util_state_scheme \<Rightarrow> (outcome \<times> 'z util_state_scheme) option" where
  "util_check_exit_order ue name value s = do {
     progName \<leftarrow> token ue name 1;
     w \<leftarrow> get_word value s;
     let n0 = sint w;
     let asc = (n0 \<ge> 0);
     s1 \<leftarrow> acquire_kspinlock QLOCK s;
     let (n, success) = exit_order asc progName (map (envs s1) (rev (env_exit_queue s1))) (if asc then -1 else 2 ^ 30) \<bar>n0\<bar>;
     s2 \<leftarrow> put_word value (word_of_int n) s1;
     s3 \<leftarrow> release_kspinlock QLOCK s2;
     under_cons_lock (report_exit_order (n = 0 \<and> success) value) s3 }"

section \<open>Settings and the synchronisation objects\<close>

definition util_nth_clock :: "utilenv \<Rightarrow> string \<Rightarrow> u32 \<Rightarrow> 'z util_state_scheme \<Rightarrow> (outcome \<times> 'z util_state_scheme) option" where
  "util_nth_clock ue name value s = do {
     type \<leftarrow> int_token ue name 1;
     let N = (if type = 2 then value * -1 else value);
     under_cons_lock cons_unlock (setPageReplacmentAlgorithmNchanceCLOCK (sint N) s) }"

definition util_sleep :: "'z util_state_scheme \<Rightarrow> (outcome \<times> 'z util_state_scheme) option" where
  "util_sleep s = do {
     let s1 = (if firstTimeSleep s then init_kspinlock TSTCHANLOCK (init_channel TST_CHAN (s\<lparr>firstTimeSleep := False\<rparr>)) else s);
     s2 \<leftarrow> acquire_kspinlock TSTCHANLOCK s1;
     (saved, s3) \<leftarrow> sleep_enter TST_CHAN TSTCHANLOCK s2;
     Some (Sleeps saved, s3) }"

definition util_sleep_resume :: "bool \<Rightarrow> 'z util_state_scheme \<Rightarrow> (outcome \<times> 'z util_state_scheme) option" where
  "util_sleep_resume saved s = do {
     s1 \<leftarrow> sleep_leave TSTCHANLOCK saved s;
     s2 \<leftarrow> release_kspinlock TSTCHANLOCK s1;
     util_ok s2 }"

definition first_ready_queue :: "'z sched_state_scheme \<Rightarrow> nat" where
  "first_ready_queue s = (case env_ready_queues s of [] \<Rightarrow> 0 | q # _ \<Rightarrow> length q)"

definition util_acquire_lock :: "'z util_state_scheme \<Rightarrow> (outcome \<times> 'z util_state_scheme) option" where
  "util_acquire_lock s =
     (let s1 = (if firstTimeSleepLock s then init_sleeplock tstslplk (s\<lparr>firstTimeSleepLock := False\<rparr>) else s)
      in map_option progress_outcome (acquire_sleeplock tstslplk s1))"

definition util_tmp_release :: "'z util_state_scheme \<Rightarrow> (outcome \<times> 'z util_state_scheme) option" where
  "util_tmp_release s =
     (if CONS_LCK_METHOD s = LCK_SLEEP
      then do {
        p \<leftarrow> cpu_proc s;
        s1 \<leftarrow> cons_unlock (s\<lparr>slk_pid := (slk_pid s)(conslock := env_id (envs s p))\<rparr>);
        util_ok s1 }
      else util_ok s)"

definition util_interrupts :: "u32 \<Rightarrow> 'z util_state_scheme \<Rightarrow> (outcome \<times> 'z util_state_scheme) option" where
  "util_interrupts value s =
     (if value = 0 then do { s1 \<leftarrow> set_user_IF False s; util_ok s1 }
      else if value = 1 then do { s1 \<leftarrow> set_user_IF True s; util_ok s1 }
      else util_ok s)"

definition status_code :: "env_status \<Rightarrow> u32" where
  "status_code st = (case st of ENV_FREE \<Rightarrow> 0 | ENV_READY \<Rightarrow> 1 | ENV_RUNNING \<Rightarrow> 2 | ENV_BLOCKED \<Rightarrow> 3 | ENV_NEW \<Rightarrow> 4 | ENV_EXIT \<Rightarrow> 5
     | ENV_KILLED \<Rightarrow> 6 | ENV_UNKNOWN \<Rightarrow> 7)"

definition util_proc_state :: "utilenv \<Rightarrow> string \<Rightarrow> u32 \<Rightarrow> 'z util_state_scheme \<Rightarrow> (outcome \<times> 'z util_state_scheme) option" where
  "util_proc_state ue name value s = do {
     envID \<leftarrow> int_token ue name 1;
     (r, env) \<leftarrow> envid2env envID False s;
     if r = E_BAD_ENV then store value (word_of_int E_BAD_ENV) s
     else do {
       e \<leftarrow> env;
       assert_that (env_id (envs s e) = envID);
       store value (status_code (env_status (envs s e))) s } }"

section \<open>Checks of the kernel stack and of the reference stream\<close>

text \<open>The pages of the kernel stack of a process: the first is a guard without a mapping, the others are mapped.\<close>

fun kstack_pages_ok :: "nat \<Rightarrow> bool \<Rightarrow> frame \<Rightarrow> u32 \<Rightarrow> 'z mem_state_scheme \<Rightarrow> bool option" where
  "kstack_pages_ok 0 guard dir va s = Some True"
| "kstack_pages_ok (Suc n) guard dir va s = do {
     (fi, tbl) \<leftarrow> get_frame_info dir va s;
     bad \<leftarrow> (if guard then do { t \<leftarrow> tbl; Some (phys s t (PTX va) AND PERM_PRESENT \<noteq> 0) } else Some False);
     if bad then Some False
     else if fi = None then Some False
     else kstack_pages_ok n False dir (va + PAGE_SIZE) s }"

definition util_check_kstack :: "u32 \<Rightarrow> 'z util_state_scheme \<Rightarrow> (outcome \<times> 'z util_state_scheme) option" where
  "util_check_kstack value s = do {
     s1 \<leftarrow> put_word value 1 s;
     e \<leftarrow> cpu_proc s1;
     dir \<leftarrow> env_page_directory (envs s1 e);
     good \<leftarrow> kstack_pages_ok (unat (KERNEL_STACK_SIZE div PAGE_SIZE)) True dir (kstack (envs s1 e)) s1;
     if good then util_ok s1 else store value 0 s1 }"

fun same_pages :: "u32 \<Rightarrow> u32 list \<Rightarrow> 'z mem_state_scheme \<Rightarrow> bool option" where
  "same_pages expected [] s = Some True"
| "same_pages expected (r # refs) s = do {
     w \<leftarrow> get_word expected s;
     if ROUNDDOWN w PAGE_SIZE \<noteq> ROUNDDOWN r PAGE_SIZE then Some False else same_pages (expected + 4) refs s }"

definition util_check_refs :: "utilenv \<Rightarrow> string \<Rightarrow> u32 \<Rightarrow> 'z util_state_scheme \<Rightarrow> (outcome \<times> 'z util_state_scheme) option" where
  "util_check_refs ue name value s = do {
     s1 \<leftarrow> put_word value 1 s;
     numOfRefs \<leftarrow> int_token ue name 1;
     assert_that (numOfRefs < MAX_REF_CNT);
     e \<leftarrow> cpu_proc s1;
     let refs = referenceStreamList (envs s1 e);
     if numOfRefs \<noteq> int (length refs) then store value 0 s1
     else do {
       expected \<leftarrow> int_token ue name 2;
       good \<leftarrow> same_pages (word_of_int expected) refs s1;
       if good then util_ok s1 else store value 0 s1 } }"

definition util_invalidate :: "'z util_state_scheme dynalloc \<Rightarrow> u32 \<Rightarrow> 'z util_state_scheme \<Rightarrow> (outcome \<times> 'z util_state_scheme) option" where
  "util_invalidate da va s = do {
     e \<leftarrow> cpu_proc s;
     s1 \<leftarrow> env_page_ws_invalidate da e va s;
     util_ok s1 }"

definition util_slaves :: "utilenv \<Rightarrow> string \<Rightarrow> u32 \<Rightarrow> 'z util_state_scheme \<Rightarrow> (outcome \<times> 'z util_state_scheme) option" where
  "util_slaves ue name value s = do {
     t \<leftarrow> token ue name 1;
     if t = ''Set'' then do { w \<leftarrow> get_word value s; util_ok (s\<lparr>numOfSlaves := sint w\<rparr>) }
     else if t = ''Get'' then store value (word_of_int (numOfSlaves s)) s
     else util_ok s }"

section \<open>Semaphores of user programs\<close>

definition ksem_token :: "utilenv \<Rightarrow> string \<Rightarrow> nat option" where
  "ksem_token ue name = do {
     semNum \<leftarrow> int_token ue name 1;
     assert_that (0 \<le> semNum \<and> semNum < int maxNumOfKSems);
     Some (ksem (nat semNum)) }"

definition util_ksem :: "utilenv \<Rightarrow> string \<Rightarrow> u32 \<Rightarrow> 'z util_state_scheme \<Rightarrow> (outcome \<times> 'z util_state_scheme) option" where
  "util_ksem ue name value s = do {
     action \<leftarrow> token ue name 2;
     if action = ''Init'' then do { n \<leftarrow> ksem_token ue name; w \<leftarrow> get_word value s; util_ok (init_ksemaphore n (sint w) s) }
     else if action = ''Wait'' then do { n \<leftarrow> ksem_token ue name; map_option progress_outcome (wait_ksemaphore n s) }
     else if action = ''Signal'' then do { n \<leftarrow> ksem_token ue name; s1 \<leftarrow> signal_ksemaphore n s; util_ok s1 }
     else if action = ''Get'' then do { n \<leftarrow> ksem_token ue name; store value (word_of_int (sem_count s n)) s }
     else util_ok s }"

section \<open>The call\<close>

text \<open>The replacement strategy is chosen by a negative number.\<close>

definition util_replacement :: "u32 \<Rightarrow> 'z util_state_scheme \<Rightarrow> 'z util_state_scheme option" where
  "util_replacement value s =
     (let v = - sint value in
      if v = 4 then Some (setPageReplacmentAlgorithmFIFO s)
      else if v = 3 then Some (setPageReplacmentAlgorithmCLOCK s)
      else if v = 5 then Some (setPageReplacmentAlgorithmModifiedCLOCK s)
      else if v = 8 then Some (setPageReplacmentAlgorithmOPTIMAL s)
      else if v = 1 then setPageReplacmentAlgorithmLRU PG_REP_LRU_TIME_APPROX s
      else if v = 2 then setPageReplacmentAlgorithmLRU PG_REP_LRU_LISTS_APPROX s
      else if v = 6 then Some (setPageReplacmentAlgorithmNchanceCLOCK 1 s)
      else Some s)"

definition util_branch ::
  "'z util_state_scheme dynalloc \<Rightarrow> utilenv \<Rightarrow> string \<Rightarrow> u32 \<Rightarrow> 'z util_state_scheme \<Rightarrow> (outcome \<times> 'z util_state_scheme) option" where
  "util_branch da ue name value s =
     (if starts_with name ''__BSDSetNice@'' then util_set_nice ue name value s
      else if starts_with name ''__PRIRRSetPriority@'' then util_set_priority ue name value s
      else if starts_with name ''__CheckExitOrder@'' then util_check_exit_order ue name value s
      else if starts_with name ''__NthClkRepl@'' then util_nth_clock ue name value s
      else if name = ''__Sleep__'' then util_sleep s
      else if name = ''__WakeupOne__'' then do { s1 \<leftarrow> wakeup_one TST_CHAN s; util_ok s1 }
      else if name = ''__WakeupAll__'' then do { s1 \<leftarrow> wakeup_all TST_CHAN s; util_ok s1 }
      else if name = ''__GetChanQueueSize__'' then store_locked (\<lambda>s. length (chan_queue s TST_CHAN)) value s
      else if name = ''__GetReadyQueueSize__'' then store_locked first_ready_queue value s
      else if name = ''__AcquireSleepLock__'' then util_acquire_lock s
      else if name = ''__ReleaseSleepLock__'' then do { s1 \<leftarrow> release_sleeplock tstslplk s; util_ok s1 }
      else if name = ''__GetLockQueueSize__'' then store_locked (\<lambda>s. length (chan_queue s (SLK_CHAN tstslplk))) value s
      else if name = ''__GetLockValue__'' then store value (if slk_locked s tstslplk then 1 else 0) s
      else if name = ''__GetLockOwner__'' then store value (word_of_int (slk_pid s tstslplk)) s
      else if name = ''__GetConsLockedCnt__'' then store_locked (\<lambda>s. length (chan_queue s (SLK_CHAN conslock))) value s
      else if name = ''__tmpReleaseConsLock__'' then util_tmp_release s
      else if name = ''__changeInterruptStatus__'' then util_interrupts value s
      else if starts_with name ''__getProcState@'' then util_proc_state ue name value s
      else if name = ''__IsOPTRepl__'' then store value (if PageRepAlgoType s = PG_REP_OPTIMAL then 1 else 0) s
      else if name = ''__CheckUserKernStack__'' then util_check_kstack value s
      else if starts_with name ''__CheckRefStream@'' then util_check_refs ue name value s
      else if name = ''__InvPage__'' then util_invalidate da value s
      else if starts_with name ''__NumOfSlaves@'' then util_slaves ue name value s
      else if starts_with name ''__KSem@'' then util_ksem ue name value s
      else util_ok s)"

definition sys_utilities ::
  "'z util_state_scheme dynalloc \<Rightarrow> utilenv \<Rightarrow> string \<Rightarrow> u32 \<Rightarrow> 'z util_state_scheme \<Rightarrow> (outcome \<times> 'z util_state_scheme) option" where
  "sys_utilities da ue name value s =
     (if \<not> use_kheap s then util_ok s
      else do {
        (r, s1) \<leftarrow> util_branch da ue name value s;
        if sint value < 0 \<and> name = ''__ReplStrat__'' then do { s2 \<leftarrow> util_replacement value s1; Some (r, s2) }
        else Some (r, s1) })"

text \<open>
  What a process does when it runs again after a branch has put it to sleep.  A branch that waits for the console goes on with its \<open>rest\<close>, which is
  the argument of \<open>under_cons_lock\<close>.
\<close>

definition under_cons_lock_resume ::
  "('z util_state_scheme \<Rightarrow> 'z util_state_scheme option) \<Rightarrow> bool \<Rightarrow> 'z util_state_scheme \<Rightarrow> (outcome \<times> 'z util_state_scheme) option" where
  "under_cons_lock_resume rest saved s = do {
     (p, s1) \<leftarrow> (case CONS_LCK_METHOD s of
         LCK_INT \<Rightarrow> None
       | LCK_SLEEP \<Rightarrow> acquire_sleeplock_resume conslock saved s
       | LCK_SEMAPHORE \<Rightarrow> wait_ksemaphore_resume conssem saved s);
     case p of
       Done \<Rightarrow> do { s2 \<leftarrow> rest s1; util_ok s2 }
     | Blocked saved' \<Rightarrow> Some (Sleeps saved', s1) }"

definition sys_utilities_resume ::
  "utilenv \<Rightarrow> string \<Rightarrow> ('z util_state_scheme \<Rightarrow> 'z util_state_scheme option) \<Rightarrow> bool \<Rightarrow> 'z util_state_scheme \<Rightarrow>
   (outcome \<times> 'z util_state_scheme) option" where
  "sys_utilities_resume ue name rest saved s =
     (if name = ''__Sleep__'' then util_sleep_resume saved s
      else if name = ''__AcquireSleepLock__'' then map_option progress_outcome (acquire_sleeplock_resume tstslplk saved s)
      else if starts_with name ''__KSem@'' then do { n \<leftarrow> ksem_token ue name; map_option progress_outcome (wait_ksemaphore_resume n saved s) }
      else under_cons_lock_resume rest saved s)"

text \<open>The call as the system call dispatcher gets it: the name is read from the memory of the process.\<close>

definition utility_calls ::
  "'z util_state_scheme dynalloc \<Rightarrow> utilenv \<Rightarrow> u32 \<Rightarrow> u32 list \<Rightarrow> 'z util_state_scheme \<Rightarrow> (outcome \<times> 'z util_state_scheme) option" where
  "utility_calls da ue n args s =
     (if n = SYS_utilities \<and> length args = 2
      then do { name \<leftarrow> user_string (args ! 0) s; sys_utilities da ue (butlast name) (args ! 1) s }
      else None)"

end
