(* ===== verification/FOS_UtilitiesThms.thy ===== *)
theory FOS_UtilitiesThms
  imports FOS_Utilities FOS_CommandThms
begin

text \<open>
  The utility call: what the check of the exit order decides, which semaphores user programs reach, and how the call is dispatched.
\<close>

section \<open>The order of the exit queue\<close>

definition exited_ids :: "string \<Rightarrow> env list \<Rightarrow> int list" where
  "exited_ids prog es = map env_id (filter (\<lambda>e. prog_name e = prog) es)"

lemma exit_order_ascending:
  "snd (exit_order True prog es p n) \<longleftrightarrow> sorted (p # exited_ids prog es)"
  by (induction es arbitrary: p n) (auto simp: exited_ids_def dest: order_trans)

lemma exit_order_descending:
  "snd (exit_order False prog es p n) \<longleftrightarrow> sorted_wrt (\<ge>) (p # exited_ids prog es)"
  by (induction es arbitrary: p n) (auto simp: exited_ids_def dest: order_trans)

lemma exit_order_count:
  "snd (exit_order asc prog es p n) \<Longrightarrow> fst (exit_order asc prog es p n) = n - int (length (exited_ids prog es))"
  by (induction es arbitrary: p n) (auto simp: exited_ids_def split: if_splits)

text \<open>The check answers 1 when exactly the expected number of instances is in the queue, in the order of their identifiers.\<close>

lemma exit_order_correct:
  assumes "\<forall>i \<in> set (exited_ids prog es). 0 \<le> i" "exit_order True prog es (-1) n = (k, good)"
  shows "k = 0 \<and> good \<longleftrightarrow> int (length (exited_ids prog es)) = n \<and> sorted (exited_ids prog es)"
proof -
  have "good \<longleftrightarrow> sorted (exited_ids prog es)"
    using exit_order_ascending [of prog es "-1" n] assms by force
  moreover have "good \<Longrightarrow> k = n - int (length (exited_ids prog es))"
    using exit_order_count [of True prog es "-1" n] assms(2) by simp
  moreover have "k = 0 \<Longrightarrow> good \<Longrightarrow> int (length (exited_ids prog es)) = n" using calculation(2) by simp
  ultimately show ?thesis by auto
qed

section \<open>Semaphores of user programs\<close>

lemma ksem_apart: "ksem i \<noteq> conssem" "ksem i \<noteq> KBDsem" "ksem i = ksem j \<longleftrightarrow> i = j"
  by (simp_all add: ksem_def conssem_def KBDsem_def)

lemma ksem_not_replacement: "starts_with name ''__KSem@'' \<Longrightarrow> name \<noteq> ''__ReplStrat__''"
  by (auto simp: starts_with_def)

lemma ksem_branch:
  assumes "starts_with name ''__KSem@''"
  shows "util_branch da ue name value s = util_ksem ue name value s"
proof -
  obtain r where r: "name = ''__KSem@'' @ r" using assms by (metis append_take_drop_id starts_with_def)
  show ?thesis by (simp add: util_branch_def r starts_with_def)
qed

lemma sys_utilities_ksem:
  assumes "use_kheap s" "starts_with name ''__KSem@''"
  shows "sys_utilities da ue name value s = util_ksem ue name value s"
  using assms(1) ksem_branch [OF assms(2), of da ue "value" s] ksem_not_replacement [OF assms(2)]
  by (cases "util_ksem ue name value s") (simp_all add: sys_utilities_def split_beta)

text \<open>
  A user program reaches the ten semaphores of \<open>__ksems\<close> by their index, with the operations of the kernel; any other index is an access
  outside that array, because the call does not check it.
\<close>

theorem user_semaphores_correct:
  assumes "use_kheap s" "ue_split ue name = [''__KSem'', num, action]" "starts_with name ''__KSem@''"
    and "i = sint (word_of_int (ue_strtol ue num) :: u32)"
  shows "(0 \<le> i \<and> i < 10 \<longrightarrow>
      (action = ''Wait'' \<longrightarrow> sys_utilities da ue name value s = map_option progress_outcome (wait_ksemaphore (ksem (nat i)) s)) \<and>
      (action = ''Signal'' \<longrightarrow> sys_utilities da ue name value s = map_option (Pair (Ret 0)) (signal_ksemaphore (ksem (nat i)) s))) \<and>
    (\<not> (0 \<le> i \<and> i < 10) \<and> action \<in> {''Init'', ''Wait'', ''Signal'', ''Get''} \<longrightarrow> sys_utilities da ue name value s = None)"
proof -
  have t: "token ue name 2 = Some action" "int_token ue name 1 = Some i"
    using assms(2,4) by (simp_all add: token_def int_token_def argument_def)
  have k: "ksem_token ue name = (if 0 \<le> i \<and> i < 10 then Some (ksem (nat i)) else None)"
    using t(2) by (auto simp: ksem_token_def maxNumOfKSems_def assert_that_def)
  have sig: "do { s1 \<leftarrow> signal_ksemaphore n s; util_ok s1 } = map_option (Pair (Ret 0)) (signal_ksemaphore n s)" for n
    by (cases "signal_ksemaphore n s") (simp_all add: util_ok_def)
  show ?thesis
    using sys_utilities_ksem [OF assms(1,3), of da ue "value"] t(1) k sig
    by (auto simp: util_ksem_def)
qed

definition utilenv_ex :: utilenv where
  "utilenv_ex = \<lparr>ue_split = (\<lambda>name. [''__KSem'', take 1 (drop 7 name), drop 9 name]),
     ue_strtol = (\<lambda>t. case t of c # _ \<Rightarrow> int (of_char c) - 48 | [] \<Rightarrow> 0)\<rparr>"

theorem user_semaphores_correct_witness:
  "\<forall>s :: util_state. let t = s\<lparr>use_kheap := True\<rparr> in
     sys_utilities (ce_da cmdenv_ex) utilenv_ex ''__KSem@3@Wait'' 0 t = map_option progress_outcome (wait_ksemaphore 5 t) \<and>
     sys_utilities (ce_da cmdenv_ex) utilenv_ex ''__KSem@:@Wait'' 0 t = None"
proof (intro allI, unfold Let_def, intro conjI)
  fix s :: util_state
  let ?t = "s\<lparr>use_kheap := True\<rparr>"
  have sp: "ue_split utilenv_ex ''__KSem@3@Wait'' = [''__KSem'', ''3'', ''Wait'']" "ue_split utilenv_ex ''__KSem@:@Wait'' = [''__KSem'', '':'', ''Wait'']"
    "starts_with ''__KSem@3@Wait'' ''__KSem@''" "starts_with ''__KSem@:@Wait'' ''__KSem@''"
    by (simp_all add: utilenv_ex_def starts_with_def)
  have i: "3 = sint (word_of_int (ue_strtol utilenv_ex ''3'') :: u32)" "10 = sint (word_of_int (ue_strtol utilenv_ex '':'') :: u32)"
    by (simp_all add: utilenv_ex_def)
  show "sys_utilities (ce_da cmdenv_ex) utilenv_ex ''__KSem@3@Wait'' 0 ?t = map_option progress_outcome (wait_ksemaphore 5 ?t)"
    using user_semaphores_correct [OF _ sp(1,3) i(1), of ?t "ce_da cmdenv_ex" 0] by (simp add: ksem_def)
  show "sys_utilities (ce_da cmdenv_ex) utilenv_ex ''__KSem@:@Wait'' 0 ?t = None"
    using user_semaphores_correct [OF _ sp(2,4) i(2), of ?t "ce_da cmdenv_ex" 0] by simp
qed

section \<open>Dispatch\<close>

lemma syscall_utilities:
  assumes "cpu_proc s = Some p" "sys_tests v = utility_calls da ue" "user_string a1 s = Some (name @ [NUL])"
  shows "syscall v SYS_utilities a1 a2 a3 a4 a5 s = sys_utilities da ue name a2 s"
  using assms by (simp add: syscall_def sys_consts utility_calls_def)

end
