(* ===== verification/FOS_Loader.thy ===== *)
theory FOS_Loader
  imports FOS_Prelude
begin

unbundle bit_operations_syntax

text \<open>
  The boot loader (\<open>boot/main.c\<close>): it reads the kernel's image from the disk behind its own sector and jumps to the entry point.  Memory is a
  function from addresses to bytes.  The disk is a function from the four bytes of the sector number, as they are written to the
  registers of the controller, to the bytes of the sector; waiting for the controller to be ready is not modelled.
\<close>

type_synonym memory = "u32 \<Rightarrow> u8"
type_synonym disk_sectors = "u8 \<Rightarrow> u8 \<Rightarrow> u8 \<Rightarrow> u8 \<Rightarrow> nat \<Rightarrow> u8"

definition SECTSIZE :: nat where "SECTSIZE = 512"
definition ELFHDR :: u32 where "ELFHDR = 0x10000"
definition LOADER_ELF_MAGIC :: u32 where "LOADER_ELF_MAGIC = 0x464C457F"

definition sector :: "disk_sectors \<Rightarrow> u32 \<Rightarrow> nat \<Rightarrow> u8" where
  "sector disk offset = disk (ucast offset) (ucast (drop_bit 8 offset)) (ucast (drop_bit 16 offset)) (ucast (drop_bit 24 offset OR 0xE0))"

definition readsect :: "disk_sectors \<Rightarrow> u32 \<Rightarrow> u32 \<Rightarrow> memory \<Rightarrow> memory" where
  "readsect disk dst offset m = (\<lambda>a. if unat (a - dst) < SECTSIZE then sector disk offset (unat (a - dst)) else m a)"

text \<open>The loop does not end when the next sector is past the end of the address space.\<close>

partial_function (option) readseg_loop :: "disk_sectors \<Rightarrow> u32 \<Rightarrow> u32 \<Rightarrow> u32 \<Rightarrow> memory \<Rightarrow> memory option" where
  "readseg_loop disk va end_va offset m =
     (if va < end_va then readseg_loop disk (va + 512) end_va (offset + 1) (readsect disk va offset m) else Some m)"

definition readseg :: "disk_sectors \<Rightarrow> u32 \<Rightarrow> u32 \<Rightarrow> u32 \<Rightarrow> memory \<Rightarrow> memory option" where
  "readseg disk va count offset m =
     (let va = va AND 0xFFFFFF;
          end_va = va + count;
          va = va AND NOT (of_nat SECTSIZE - 1);
          offset = offset div of_nat SECTSIZE + 1
      in readseg_loop disk va end_va offset m)"

section \<open>Loading the kernel\<close>

definition load32 :: "memory \<Rightarrow> u32 \<Rightarrow> u32" where
  "load32 m a = ucast (m a) OR push_bit 8 (ucast (m (a + 1))) OR push_bit 16 (ucast (m (a + 2))) OR push_bit 24 (ucast (m (a + 3)))"

definition load16 :: "memory \<Rightarrow> u32 \<Rightarrow> u32" where
  "load16 m a = ucast (m a) OR push_bit 8 (ucast (m (a + 1)))"

datatype boot_end = Enters u32 | Hangs

text \<open>The headers are read from memory as it is when the loop reaches them.\<close>

fun load_segments :: "nat \<Rightarrow> disk_sectors \<Rightarrow> u32 \<Rightarrow> memory \<Rightarrow> memory option" where
  "load_segments 0 disk ph m = Some m"
| "load_segments (Suc n) disk ph m = do {
     m1 \<leftarrow> readseg disk (load32 m (ph + 8)) (load32 m (ph + 20)) (load32 m (ph + 4)) m;
     load_segments n disk (ph + 32) m1 }"

definition cmain :: "disk_sectors \<Rightarrow> memory \<Rightarrow> (boot_end \<times> memory) option" where
  "cmain disk m = do {
     m1 \<leftarrow> readseg disk ELFHDR (of_nat SECTSIZE * 8) 0 m;
     if load32 m1 ELFHDR \<noteq> LOADER_ELF_MAGIC then Some (Hangs, m1)
     else do {
       let ph = ELFHDR + load32 m1 (ELFHDR + 28);
       let eph = ph + 32 * load16 m1 (ELFHDR + 44);
       m2 \<leftarrow> (if ph < eph then load_segments (unat (load16 m1 (ELFHDR + 44))) disk ph m1 else Some m1);
       Some (Enters (load32 m2 (ELFHDR + 24) AND 0xFFFFFF), m2) } }"

section \<open>What is read\<close>

text \<open>The byte of the image at an offset: the image begins in the sector behind the loader.\<close>

definition image_byte :: "disk_sectors \<Rightarrow> nat \<Rightarrow> u8" where
  "image_byte disk j = sector disk (of_nat (j div 512) + 1) (j mod 512)"

lemma readsect_at:
  assumes "unat dst + 512 \<le> 2 ^ 32"
  shows "readsect disk dst off m a =
    (if unat dst \<le> unat a \<and> unat a < unat dst + 512 then sector disk off (unat a - unat dst) else m a)"
proof (cases "unat dst \<le> unat a")
  case True
  then show ?thesis by (auto simp: readsect_def SECTSIZE_def unat_sub_if')
next
  case False
  have "unat a < 2 ^ 32" by (rule order.strict_trans2 [OF unsigned_less]) simp
  with False assms have "unat (a - dst) \<ge> 512" by (simp add: unat_sub_if')
  with False show ?thesis by (simp add: readsect_def SECTSIZE_def)
qed

lemma readseg_loop_run:
  assumes "unat va + 512 * n < 2 ^ 32" "unat end_va \<le> unat va + 512 * n" "n = 0 \<or> unat va + 512 * (n - 1) < unat end_va"
  shows "readseg_loop disk va end_va off m =
    Some (\<lambda>a. if unat va \<le> unat a \<and> unat a < unat va + 512 * n
      then sector disk (off + of_nat ((unat a - unat va) div 512)) ((unat a - unat va) mod 512) else m a)"
  using assms
proof (induction n arbitrary: va off m)
  case 0
  then have "\<not> va < end_va" by (simp add: word_less_nat_alt)
  then show ?case by (subst readseg_loop.simps) (auto intro!: ext)
next
  case (Suc n)
  have va: "unat (va + 512) = unat va + 512" using Suc.prems(1) by (simp add: unat_word_ariths)
  have less: "va < end_va" using Suc.prems(3) by (simp add: word_less_nat_alt)
  have n: "n = 0 \<or> unat (va + 512) + 512 * (n - 1) < unat end_va" using Suc.prems(3) va by (cases n) auto
  let ?m = "readsect disk va off m"
  have "readseg_loop disk va end_va off m = readseg_loop disk (va + 512) end_va (off + 1) ?m"
    using less by (subst readseg_loop.simps) simp
  also have "\<dots> = Some (\<lambda>a. if unat (va + 512) \<le> unat a \<and> unat a < unat (va + 512) + 512 * n
      then sector disk ((off + 1) + of_nat ((unat a - unat (va + 512)) div 512)) ((unat a - unat (va + 512)) mod 512) else ?m a)"
    by (rule Suc.IH) (use Suc.prems va n in simp_all)
  also have "\<dots> = Some (\<lambda>a. if unat va \<le> unat a \<and> unat a < unat va + 512 * Suc n
      then sector disk (off + of_nat ((unat a - unat va) div 512)) ((unat a - unat va) mod 512) else m a)"
  proof (intro arg_cong [of _ _ Some] ext)
    fix a
    have low: "?m a = (if unat va \<le> unat a \<and> unat a < unat va + 512 then sector disk off (unat a - unat va) else m a)"
      by (rule readsect_at) (use Suc.prems(1) in simp)
    show "(if unat (va + 512) \<le> unat a \<and> unat a < unat (va + 512) + 512 * n
        then sector disk ((off + 1) + of_nat ((unat a - unat (va + 512)) div 512)) ((unat a - unat (va + 512)) mod 512) else ?m a) =
      (if unat va \<le> unat a \<and> unat a < unat va + 512 * Suc n
        then sector disk (off + of_nat ((unat a - unat va) div 512)) ((unat a - unat va) mod 512) else m a)"
    proof (cases "unat (va + 512) \<le> unat a")
      case True
      define d where "d = unat a - unat (va + 512)"
      have d: "unat a - unat va = 512 + d" using True va by (simp add: d_def)
      have "(512 + d) div 512 = 1 + d div 512" "(512 + d) mod 512 = d mod 512" by simp_all
      then show ?thesis using True va low unfolding d d_def [symmetric] by (auto simp: add.assoc)
    next
      case False
      then show ?thesis using va low by auto
    qed
  qed
  finally show ?case .
qed

lemma unat_sector_start: "unat ((v :: u32) AND NOT 511) = 512 * (unat v div 512)"
proof -
  have m: "(511 :: u32) = mask 9" by (simp add: mask_eq_exp_minus_1)
  have "v AND NOT 511 = push_bit 9 (drop_bit 9 v)" unfolding m by (rule bit_word_eqI) (auto simp: bit_simps)
  moreover have "take_bit 32 (unat v) = unat v"
    by (rule take_bit_nat_eq_self) (rule order.strict_trans2 [OF unsigned_less], simp)
  ultimately have "unat (v AND NOT 511) = take_bit 32 (push_bit 9 (drop_bit 9 (unat v)))"
    by (simp add: unsigned_push_bit_eq unsigned_drop_bit_eq)
  also have "\<dots> = 512 * (unat v div 512)"
  proof -
    have "unat v < 2 ^ 32" by (rule order.strict_trans2 [OF unsigned_less]) simp
    then have "512 * (unat v div 512) < 2 ^ 32" by (rule le_less_trans [rotated]) simp
    then show ?thesis by (simp add: push_bit_eq_mult drop_bit_eq_div take_bit_nat_eq_self mult.commute)
  qed
  finally show ?thesis .
qed

text \<open>
  C31: Reading a segment ends, and the bytes of the segment are those of the image, for a segment whose address and offset are at the same place in
  a sector and that does not reach the end of the address space; what is outside the sectors that the segment touches stays as it was.
\<close>

theorem readseg_correct:
  assumes v: "v = va AND 0xFFFFFF" and al: "unat offset mod 512 = unat v mod 512" and fit: "unat v + unat count + 511 < 2 ^ 32"
  shows "\<exists>m'. readseg disk va count offset m = Some m' \<and>
    (\<forall>k < unat count. m' (v + of_nat k) = image_byte disk (unat offset + k)) \<and>
    (\<forall>a. unat a < 512 * (unat v div 512) \<or> 512 * ((unat v + unat count + 511) div 512) \<le> unat a \<longrightarrow> m' a = m a)"
proof -
  define b where "b = v AND NOT 511"
  define n where "n = (unat v + unat count + 511) div 512 - unat v div 512"
  have b: "unat b = 512 * (unat v div 512)" unfolding b_def by (rule unat_sector_start)
  have e: "unat (v + count) = unat v + unat count" using fit by (simp add: unat_word_ariths)
  have le: "unat v div 512 \<le> (unat v + unat count + 511) div 512" by (rule div_le_mono) simp
  have end_n: "unat b + 512 * n = 512 * ((unat v + unat count + 511) div 512)" using le by (simp add: b n_def right_diff_distrib')
  have up: "unat v + unat count \<le> unat b + 512 * n" "unat b + 512 * n \<le> unat v + unat count + 511"
    unfolding end_n by (simp_all add: div_mult_self1 algebra_simps)
  have run: "readseg_loop disk b (v + count) (offset div 512 + 1) m =
    Some (\<lambda>a. if unat b \<le> unat a \<and> unat a < unat b + 512 * n
      then sector disk (offset div 512 + 1 + of_nat ((unat a - unat b) div 512)) ((unat a - unat b) mod 512) else m a)" (is "_ = Some ?m'")
    by (rule readseg_loop_run) (use up fit e in \<open>auto intro!: diff_less\<close>)
  have at: "?m' (v + of_nat k) = image_byte disk (unat offset + k)" if "k < unat count" for k
  proof -
    have a: "unat (v + of_nat k) = unat v + k" using fit that by (simp add: unat_word_ariths unat_of_nat)
    define r where "r = unat v mod 512"
    have vr: "unat v = unat b + r" "unat offset = 512 * (unat offset div 512) + r"
      unfolding b r_def al [symmetric] using mult_div_mod_eq [of 512 "unat v"] mult_div_mod_eq [of 512 "unat offset"] al by linarith+
    have d: "(unat offset + k) div 512 = unat offset div 512 + (r + k) div 512" "(unat offset + k) mod 512 = (r + k) mod 512"
      using vr(2) by (metis add.assoc div_mult_self4 mod_mult_self4 zero_neq_numeral)+
    have o: "(of_nat (unat offset div 512) :: u32) = offset div 512"
      by (simp add: word_arith_nat_div)
    have i: "image_byte disk (unat offset + k) = sector disk (offset div 512 + 1 + of_nat ((r + k) div 512)) ((r + k) mod 512)"
      unfolding image_byte_def d of_nat_add o by (simp only: ac_simps)
    have "unat (v + of_nat k) - unat b = r + k" "unat b \<le> unat (v + of_nat k)" "unat (v + of_nat k) < unat b + 512 * n"
      using a vr(1) up(1) that by simp_all
    then show ?thesis unfolding i by simp
  qed
  have same: "?m' a = m a" if "unat a < 512 * (unat v div 512) \<or> 512 * ((unat v + unat count + 511) div 512) \<le> unat a" for a
    using that b end_n by auto
  have "readseg disk va count offset m = Some ?m'"
    using run by (simp add: readseg_def Let_def SECTSIZE_def v [symmetric] b_def)
  then show ?thesis using at same by blast
qed

definition sectors_ex :: disk_sectors where
  "sectors_ex = (\<lambda>a b c d k. of_nat k)"

theorem readseg_correct_witness:
  "\<exists>m'. readseg sectors_ex 0x100010 3 0x210 (\<lambda>_. 0) = Some m' \<and> m' 0x100011 = 17 \<and> m' 0x100400 = 0"
proof -
  have v: "(0x100010 :: u32) = 0x100010 AND 0xFFFFFF" by simp
  from readseg_correct [OF v, of "0x210" 3 sectors_ex "\<lambda>_. 0"] obtain m' where
    m: "readseg sectors_ex 0x100010 3 0x210 (\<lambda>_. 0) = Some m'" "\<forall>k < 3. m' (0x100010 + of_nat k) = image_byte sectors_ex (0x210 + k)"
      "\<forall>a. unat a < 0x100000 \<or> 0x100200 \<le> unat a \<longrightarrow> m' a = 0" by auto
  have "m' 0x100011 = 17" using m(2) [rule_format, of 1] by (simp add: image_byte_def sector_def sectors_ex_def)
  moreover have "m' 0x100400 = 0" using m(3) by simp
  ultimately show ?thesis using m(1) by blast
qed

end
