(* ===== verification/FOS_Kdebug.thy ===== *)
theory FOS_Kdebug
  imports FOS_Mmu
begin

text \<open>
  The search for the function that contains an instruction (\<open>kern/trap/kdebug.c\<close>) in the table of debugging symbols: a binary search among
  entries of one type that are spread over the table, and the description of an address that is made of it.  The tables of the
  kernel come from its linker script, those of a process from the structure at \<open>USTABDATA\<close>; both are arguments.  Indices are the signed integers of
  the code, and an entry outside the table is \<open>None\<close>.  Addresses are pointers to words, so the increment of \<open>addr\<close> adds 4.
\<close>

record Stab =
  n_strx :: u32
  n_type :: u8
  n_other :: u8
  n_desc :: "16 word"
  n_value :: u32

definition N_FUN :: u8 where "N_FUN = 0x24"
definition N_SO :: u8 where "N_SO = 0x64"
definition N_SOL :: u8 where "N_SOL = 0x84"

definition stab_at :: "Stab list \<Rightarrow> int \<Rightarrow> Stab option" where
  "stab_at stabs k = (if 0 \<le> k \<and> k < int (length stabs) then Some (stabs ! nat k) else None)"

section \<open>Binary search\<close>

function back_to_type :: "Stab list \<Rightarrow> u8 \<Rightarrow> int \<Rightarrow> int \<Rightarrow> int option" where
  "back_to_type stabs ty l m =
     (if m \<ge> l then do { x \<leftarrow> stab_at stabs m; if n_type x \<noteq> ty then back_to_type stabs ty l (m - 1) else Some m }
      else Some m)"
  by pat_completeness auto
termination by (relation "measure (\<lambda>(stabs, ty, l, m). nat (m + 1 - l))") auto

declare back_to_type.simps [simp del]

partial_function (option) binsearch_loop ::
  "Stab list \<Rightarrow> u8 \<Rightarrow> int \<Rightarrow> int \<Rightarrow> u32 \<Rightarrow> int \<Rightarrow> int \<Rightarrow> bool \<Rightarrow> (int \<times> int \<times> bool) option" where
  "binsearch_loop stabs ty l r addr region_left region_right any_matches =
     (if l \<le> r
      then do {
        let true_m = (l + r) div 2;
        m \<leftarrow> back_to_type stabs ty l true_m;
        if m < l then binsearch_loop stabs ty (true_m + 1) r addr region_left region_right any_matches
        else do {
          x \<leftarrow> stab_at stabs m;
          if n_value x < addr then binsearch_loop stabs ty (true_m + 1) r addr m region_right True
          else if n_value x > addr then binsearch_loop stabs ty l (m - 1) addr region_left (m - 1) True
          else binsearch_loop stabs ty m r (addr + 4) m region_right True } }
      else Some (region_left, region_right, any_matches))"

text \<open>The last loop goes back from the right end to an entry of the type, at most to \<open>region_left\<close>.\<close>

definition last_of_type :: "Stab list \<Rightarrow> u8 \<Rightarrow> int \<Rightarrow> int \<Rightarrow> int option" where
  "last_of_type stabs ty region_left region_right =
     (if region_right \<le> region_left then Some region_right else back_to_type stabs ty (region_left + 1) region_right)"

definition stab_binsearch :: "Stab list \<Rightarrow> int \<Rightarrow> int \<Rightarrow> u8 \<Rightarrow> u32 \<Rightarrow> (int \<times> int) option" where
  "stab_binsearch stabs region_left region_right ty addr = do {
     (rl, rr, any_matches) \<leftarrow> binsearch_loop stabs ty region_left region_right addr region_left region_right False;
     if \<not> any_matches then Some (rl, rl - 1)
     else do { l \<leftarrow> last_of_type stabs ty rl rr; Some (l, rr) } }"

section \<open>The description of an address\<close>

text \<open>\<open>strfind\<close>, which is not in the repository, gives the length of a name up to the colon.\<close>

record Eipdebuginfo =
  eip_file :: "u8 list option"
  eip_line :: int
  eip_fn_name :: "u8 list option"
  eip_fn_namelen :: int
  eip_fn_addr :: u32
  eip_fn_narg :: int

record stab_tables =
  stabs_of :: "Stab list"
  stabstr_of :: "u8 list"

definition string_from :: "u8 list \<Rightarrow> u32 \<Rightarrow> u8 list" where
  "string_from strs k = takeWhile (\<lambda>c. c \<noteq> 0) (drop (unat k) strs)"

text \<open>The file of a line: the nearest entry of an included file or of a source file before it, at most back to \<open>lfile\<close>.\<close>

function back_to_file :: "Stab list \<Rightarrow> int \<Rightarrow> int \<Rightarrow> int option" where
  "back_to_file stabs lfile lline =
     (if lline \<ge> lfile
      then do {
        x \<leftarrow> stab_at stabs lline;
        if n_type x \<noteq> N_SOL \<and> (n_type x \<noteq> N_SO \<or> n_value x = 0) then back_to_file stabs lfile (lline - 1) else Some lline }
      else Some lline)"
  by pat_completeness auto
termination by (relation "measure (\<lambda>(stabs, lfile, lline). nat (lline + 1 - lfile))") auto

declare back_to_file.simps [simp del]

text \<open>\<open>None\<close> for the file or the function is \<open><unknown>\<close>, whose length is 9.  The result is the return value with the description.\<close>

definition debuginfo_eip ::
  "(u8 list option \<Rightarrow> int) \<Rightarrow> stab_tables \<Rightarrow> stab_tables \<Rightarrow> u32 \<Rightarrow> (int \<times> Eipdebuginfo) option" where
  "debuginfo_eip namelen kern user addr = do {
     let info = \<lparr>eip_file = None, eip_line = 0, eip_fn_name = None, eip_fn_namelen = 9, eip_fn_addr = addr, eip_fn_narg = 0\<rparr>;
     let T = (if addr \<ge> USER_LIMIT then kern else user);
     let stabs = stabs_of T;
     let strs = stabstr_of T;
     if strs = [] \<or> last strs \<noteq> 0 then Some (-1, info)
     else do {
       (lfile, rfile) \<leftarrow> stab_binsearch stabs 0 (int (length stabs) - 1) N_SO addr;
       if lfile = 0 then Some (-1, info)
       else do {
         (lfun, rfun) \<leftarrow> stab_binsearch stabs lfile rfile N_FUN addr;
         (info, lline) \<leftarrow> (if lfun \<le> rfun
            then do {
              x \<leftarrow> stab_at stabs lfun;
              Some (info\<lparr>eip_fn_name := (if unat (n_strx x) < length strs then Some (string_from strs (n_strx x)) else None),
                         eip_fn_addr := n_value x\<rparr>, lfun) }
            else Some (info, lfile));
         let info = info\<lparr>eip_fn_namelen := namelen (eip_fn_name info)\<rparr>;
         lline \<leftarrow> back_to_file stabs lfile lline;
         if lline \<ge> lfile
         then do {
           x \<leftarrow> stab_at stabs lline;
           Some (0, if unat (n_strx x) < length strs then info\<lparr>eip_file := Some (string_from strs (n_strx x))\<rparr> else info) }
         else Some (0, info) } } }"

end
