(* ===== verification/FOS_KdebugThms.thy ===== *)
theory FOS_KdebugThms
  imports FOS_Kdebug
begin

text \<open>
  The binary search ends on every table, and finds the last entry of its type at or before the address when the entries of the type ascend and none
  lies in the four bytes behind an entry at the address itself; when one does, the search can answer it.
\<close>

section \<open>Going back to a type\<close>

definition of_type :: "Stab list \<Rightarrow> u8 \<Rightarrow> int \<Rightarrow> bool" where
  "of_type stabs ty k \<longleftrightarrow> 0 \<le> k \<and> k < int (length stabs) \<and> n_type (stabs ! nat k) = ty"

definition stab_val :: "Stab list \<Rightarrow> int \<Rightarrow> nat" where
  "stab_val stabs k = unat (n_value (stabs ! nat k))"

lemma back_to_type_spec:
  assumes "0 \<le> l" "m < int (length stabs)" "l \<le> m + 1"
  shows "\<exists>k. back_to_type stabs ty l m = Some k \<and> l - 1 \<le> k \<and> k \<le> m \<and> (\<forall>j. k < j \<and> j \<le> m \<longrightarrow> \<not> of_type stabs ty j) \<and>
    (l \<le> k \<longrightarrow> of_type stabs ty k)"
  using assms
proof (induction stabs ty l m rule: back_to_type.induct)
  case (1 stabs ty l m)
  show ?case
  proof (cases "l \<le> m \<and> n_type (stabs ! nat m) \<noteq> ty")
    case True
    then have m: "stab_at stabs m = Some (stabs ! nat m)" using 1(2,3) by (simp add: stab_at_def)
    with 1(1) [of "stabs ! nat m"] True 1(2-4) obtain k where
      k: "back_to_type stabs ty l (m - 1) = Some k" "l - 1 \<le> k" "k \<le> m - 1" "\<forall>j. k < j \<and> j \<le> m - 1 \<longrightarrow> \<not> of_type stabs ty j"
        "l \<le> k \<longrightarrow> of_type stabs ty k" by auto
    have "\<not> of_type stabs ty j" if "k < j" "j \<le> m" for j
      using that k(4) True by (cases "j = m") (auto simp: of_type_def)
    moreover have "back_to_type stabs ty l m = Some k" using True m k(1) by (subst back_to_type.simps) simp
    ultimately show ?thesis using k by auto
  next
    case False
    then have "back_to_type stabs ty l m = Some m" using 1(2,3) by (subst back_to_type.simps) (auto simp: stab_at_def)
    then show ?thesis using False 1(2-4) by (auto simp: of_type_def)
  qed
qed

section \<open>The search\<close>

text \<open>The entries of the type between \<open>L\<close> and \<open>R\<close> ascend.\<close>

definition ascending :: "Stab list \<Rightarrow> u8 \<Rightarrow> int \<Rightarrow> int \<Rightarrow> bool" where
  "ascending stabs ty L R \<longleftrightarrow> (\<forall>i j. L \<le> i \<and> i < j \<and> j \<le> R \<and> of_type stabs ty i \<and> of_type stabs ty j \<longrightarrow>
     stab_val stabs i < stab_val stabs j)"

text \<open>Behind an entry of the type whose value is the address itself the next four bytes exist and hold no other one.\<close>

definition clear_behind :: "Stab list \<Rightarrow> u8 \<Rightarrow> int \<Rightarrow> int \<Rightarrow> u32 \<Rightarrow> bool" where
  "clear_behind stabs ty L R addr \<longleftrightarrow> (\<forall>i. L \<le> i \<and> i \<le> R \<and> of_type stabs ty i \<and> stab_val stabs i = unat addr \<longrightarrow>
     unat addr + 4 < 2 ^ 32 \<and> (\<forall>j. i < j \<and> j \<le> R \<and> of_type stabs ty j \<longrightarrow> unat addr + 4 < stab_val stabs j))"

text \<open>The loop ends whatever the table and the address are.\<close>

lemma binsearch_loop_ends:
  assumes "0 \<le> l" "r < int (length stabs)" "0 \<le> rl" "rr < int (length stabs)"
  shows "\<exists>rl' rr' any'. binsearch_loop stabs ty l r a rl rr any = Some (rl', rr', any') \<and> 0 \<le> rl' \<and> rr' < int (length stabs)"
  using assms
proof (induction "2 * nat (r - l + 1) + (if stab_val stabs l = unat a then 1 else 0)" arbitrary: l r a rl rr any rule: less_induct)
  case less
  show ?case
  proof (cases "l \<le> r")
    case False
    then have "binsearch_loop stabs ty l r a rl rr any = Some (rl, rr, any)" by (subst binsearch_loop.simps) simp
    then show ?thesis using less.prems by blast
  next
    case True
    define t where "t = (l + r) div 2"
    have t: "l \<le> t" "t \<le> r" using True by (simp_all add: t_def)
    obtain m where m: "back_to_type stabs ty l t = Some m" "l - 1 \<le> m" "m \<le> t"
      using back_to_type_spec [of l t stabs ty] less.prems t by auto
    have dec: "2 * nat (r' - l' + 1) + (if b then 1 else 0) < 2 * nat (r - l + 1) + (if b' then 1 else 0)"
      if "r' - l' < r - l" for r' l' :: int and b b' using that True by (cases b; cases b') simp_all
    have same: "2 * nat (r - m + 1) + (if stab_val stabs m = unat (a + 4) then 1 else 0) <
        2 * nat (r - l + 1) + (if stab_val stabs l = unat a then 1 else 0)" if "l \<le> m" "n_value (stabs ! nat m) = a"
    proof (cases "m = l")
      case True
      moreover have "a \<noteq> a + 4" by simp
      ultimately show ?thesis using that(2) by (simp add: stab_val_def word_unat_eq_iff)
    next
      case False
      then show ?thesis using dec [of r m] that(1) by simp
    qed
    note bl = binsearch_loop.simps [of stabs ty l r a rl rr any]
    let ?ends = "\<lambda>l r a rl rr any. \<exists>rl' rr' any'. binsearch_loop stabs ty l r a rl rr any = Some (rl', rr', any') \<and> 0 \<le> rl' \<and>
      rr' < int (length stabs)"
    have ih: "?ends l' r' a' rl' rr' any'" if "r' - l' < r - l" "0 \<le> l'" "r' < int (length stabs)" "0 \<le> rl'" "rr' < int (length stabs)"
      for l' r' rl' rr' :: int and a' any' by (rule less.hyps [OF dec [OF that(1)] that(2-5)])
    show ?thesis
    proof (cases "m < l")
      case True
      have "binsearch_loop stabs ty l r a rl rr any = binsearch_loop stabs ty (t + 1) r a rl rr any"
        using \<open>l \<le> r\<close> m(1) True by (subst bl) (simp add: t_def)
      then show ?thesis using ih [of r "t + 1" rl rr a any] less.prems t by simp
    next
      case False
      then have at: "stab_at stabs m = Some (stabs ! nat m)" using m(3) t less.prems by (simp add: stab_at_def)
      consider "n_value (stabs ! nat m) < a" | "n_value (stabs ! nat m) > a" | "n_value (stabs ! nat m) = a" by (rule linorder_cases)
      then show ?thesis
      proof cases
        case 1
        then have "binsearch_loop stabs ty l r a rl rr any = binsearch_loop stabs ty (t + 1) r a m rr True"
          using \<open>l \<le> r\<close> m(1) at False by (subst bl) (simp add: t_def)
        then show ?thesis using ih [of r "t + 1" m rr a True] less.prems t False by simp
      next
        case 2
        then have "\<not> n_value (stabs ! nat m) < a" by simp
        then have "binsearch_loop stabs ty l r a rl rr any = binsearch_loop stabs ty l (m - 1) a rl (m - 1) True"
          using 2 \<open>l \<le> r\<close> m(1) at False by (subst bl) (simp add: t_def)
        then show ?thesis using ih [of "m - 1" l rl "m - 1" a True] less.prems t m(3) by simp
      next
        case 3
        then have "binsearch_loop stabs ty l r a rl rr any = binsearch_loop stabs ty m r (a + 4) m rr True"
          using \<open>l \<le> r\<close> m(1) at False by (subst bl) (simp add: t_def)
        then show ?thesis using less.hyps [OF same [OF _ 3], of m rr True] less.prems False by simp
      qed
    qed
  qed
qed

lemma stab_binsearch_ends:
  assumes "0 \<le> L" "R < int (length stabs)"
  shows "stab_binsearch stabs L R ty addr \<noteq> None"
proof -
  from binsearch_loop_ends [OF assms assms] obtain rl rr any where
    b: "binsearch_loop stabs ty L R addr L R False = Some (rl, rr, any)" "0 \<le> rl" "rr < int (length stabs)" by blast
  have "last_of_type stabs ty rl rr \<noteq> None" using back_to_type_spec [of "rl + 1" rr stabs ty] b(2,3) by (auto simp: last_of_type_def)
  then show ?thesis using b(1) by (auto simp: stab_binsearch_def)
qed

definition search_inv :: "Stab list \<Rightarrow> u8 \<Rightarrow> int \<Rightarrow> int \<Rightarrow> u32 \<Rightarrow> int \<Rightarrow> int \<Rightarrow> u32 \<Rightarrow> int \<Rightarrow> int \<Rightarrow> bool \<Rightarrow> bool" where
  "search_inv stabs ty L R addr l r a rl rr any \<longleftrightarrow>
     L \<le> l \<and> l \<le> R + 1 \<and> r = rr \<and> rr \<le> R \<and> L - 1 \<le> rr \<and>
     (\<forall>k. L \<le> k \<and> k < l \<and> of_type stabs ty k \<longrightarrow> stab_val stabs k \<le> unat addr) \<and>
     (\<forall>k. rr < k \<and> k \<le> R \<and> of_type stabs ty k \<longrightarrow> unat addr < stab_val stabs k) \<and>
     (rr = R \<or> of_type stabs ty (rr + 1)) \<and>
     (rl = L \<or> L \<le> rl \<and> rl \<le> rr \<and> of_type stabs ty rl \<and> stab_val stabs rl \<le> unat addr) \<and>
     (a = addr \<or> a = addr + 4 \<and> (\<exists>k. L \<le> k \<and> k \<le> R \<and> of_type stabs ty k \<and> stab_val stabs k = unat addr)) \<and>
     (\<not> any \<longrightarrow> rr = R \<and> (\<forall>k. L \<le> k \<and> k < l \<longrightarrow> \<not> of_type stabs ty k))"

lemma search_invD:
  assumes "search_inv stabs ty L R addr l r a rl rr any"
  shows "L \<le> l" "l \<le> R + 1" "r = rr" "rr \<le> R" "L - 1 \<le> rr"
    "\<And>k. L \<le> k \<Longrightarrow> k < l \<Longrightarrow> of_type stabs ty k \<Longrightarrow> stab_val stabs k \<le> unat addr"
    "\<And>k. rr < k \<Longrightarrow> k \<le> R \<Longrightarrow> of_type stabs ty k \<Longrightarrow> unat addr < stab_val stabs k"
    "rr = R \<or> of_type stabs ty (rr + 1)"
    "rl = L \<or> L \<le> rl \<and> rl \<le> rr \<and> of_type stabs ty rl \<and> stab_val stabs rl \<le> unat addr"
    "a = addr \<or> a = addr + 4 \<and> (\<exists>k. L \<le> k \<and> k \<le> R \<and> of_type stabs ty k \<and> stab_val stabs k = unat addr)"
    "\<not> any \<Longrightarrow> rr = R" "\<And>k. \<not> any \<Longrightarrow> L \<le> k \<Longrightarrow> k < l \<Longrightarrow> \<not> of_type stabs ty k"
  using assms unfolding search_inv_def by blast+

lemma search_invI:
  assumes "L \<le> l" "l \<le> R + 1" "r = rr" "rr \<le> R" "L - 1 \<le> rr"
    "\<And>k. L \<le> k \<Longrightarrow> k < l \<Longrightarrow> of_type stabs ty k \<Longrightarrow> stab_val stabs k \<le> unat addr"
    "\<And>k. rr < k \<Longrightarrow> k \<le> R \<Longrightarrow> of_type stabs ty k \<Longrightarrow> unat addr < stab_val stabs k"
    "rr = R \<or> of_type stabs ty (rr + 1)"
    "rl = L \<or> L \<le> rl \<and> rl \<le> rr \<and> of_type stabs ty rl \<and> stab_val stabs rl \<le> unat addr"
    "a = addr \<or> a = addr + 4 \<and> (\<exists>k. L \<le> k \<and> k \<le> R \<and> of_type stabs ty k \<and> stab_val stabs k = unat addr)"
    "\<not> any \<Longrightarrow> rr = R \<and> (\<forall>k. L \<le> k \<and> k < l \<longrightarrow> \<not> of_type stabs ty k)"
  shows "search_inv stabs ty L R addr l r a rl rr any"
  using assms unfolding search_inv_def by blast

lemma binsearch_loop_spec:
  assumes L: "0 \<le> L" "R < int (length stabs)" and asc: "ascending stabs ty L R" and clear: "clear_behind stabs ty L R addr"
  shows "search_inv stabs ty L R addr l r a rl rr any \<Longrightarrow>
    \<exists>l' r' a' rl' rr' any'. binsearch_loop stabs ty l r a rl rr any = Some (rl', rr', any') \<and>
      search_inv stabs ty L R addr l' r' a' rl' rr' any' \<and> r' < l'"
proof (induction "2 * nat (r - l + 1) + (if stab_val stabs l = unat a then 1 else 0)" arbitrary: l r a rl rr any rule: less_induct)
  case less
  note I = less.prems [unfolded search_inv_def]
  note D = search_invD [OF less.prems]
  show ?case
  proof (cases "l \<le> r")
    case False
    then have "binsearch_loop stabs ty l r a rl rr any = Some (rl, rr, any)" by (subst binsearch_loop.simps) simp
    then show ?thesis using less.prems False by (meson not_le)
  next
    case True
    define t where "t = (l + r) div 2"
    have t: "l \<le> t" "t \<le> r" using True by (simp_all add: t_def)
    obtain m where m: "back_to_type stabs ty l t = Some m" "l - 1 \<le> m" "m \<le> t" "\<forall>j. m < j \<and> j \<le> t \<longrightarrow> \<not> of_type stabs ty j"
      "l \<le> m \<longrightarrow> of_type stabs ty m"
      using back_to_type_spec [of l t stabs ty] L I t by auto
    have dec: "2 * nat (r' - l' + 1) + (if b then 1 else 0) < 2 * nat (r - l + 1) + (if b' then 1 else 0)"
      if "r' - l' < r - l" for r' l' :: int and b b' using that True by (cases b; cases b') simp_all
    have ascends: "stab_val stabs i < stab_val stabs j"
      if "L \<le> i" "i < j" "j \<le> R" "of_type stabs ty i" "of_type stabs ty j" for i j
      using asc that unfolding ascending_def by blast
    have exact: "unat (addr + 4) = unat addr + 4" "\<And>j. k < j \<Longrightarrow> j \<le> R \<Longrightarrow> of_type stabs ty j \<Longrightarrow> unat addr + 4 < stab_val stabs j"
      if "L \<le> k" "k \<le> R" "of_type stabs ty k" "stab_val stabs k = unat addr" for k
      using clear that unfolding clear_behind_def by (force simp: unat_word_ariths)+
    have low: "stab_val stabs k \<le> stab_val stabs m" if "L \<le> k" "k \<le> t" "of_type stabs ty k" "l \<le> m" for k
    proof (cases "k < m")
      case True
      then show ?thesis using ascends [of k m] that m t I by auto
    next
      case False
      then have "k = m" using m(4) that by force
      then show ?thesis by simp
    qed
    have less_addr: "stab_val stabs m \<le> unat addr" if "l \<le> m" "stab_val stabs m < unat a"
    proof (rule ccontr)
      assume n: "\<not> ?thesis"
      have "a \<noteq> addr" using n that(2) by auto
      moreover have "a = addr \<or> a = addr + 4 \<and> (\<exists>k. L \<le> k \<and> k \<le> R \<and> of_type stabs ty k \<and> stab_val stabs k = unat addr)"
        using I by blast
      ultimately obtain k where k: "L \<le> k" "k \<le> R" "of_type stabs ty k" "stab_val stabs k = unat addr" "a = addr + 4" by blast
      have mm: "of_type stabs ty m" "L \<le> m" "m \<le> R" using m(3,5) t I that(1) by auto
      have "\<not> m < k" using ascends [of m k] mm k n by auto
      moreover have "m \<noteq> k" using n k(4) by auto
      ultimately have "unat addr + 4 < stab_val stabs m" using exact(2) [OF k(1-4), of m] mm by auto
      then show False using that k(5) exact(1) [OF k(1-4)] by simp
    qed
    show ?thesis
    proof (cases "m < l")
      case True
      have none: "\<not> of_type stabs ty k" if "l \<le> k" "k < t + 1" for k using m(4) True that by auto
      have "search_inv stabs ty L R addr (t + 1) r a rl rr any"
      proof (rule search_invI)
        show "stab_val stabs k \<le> unat addr" if "L \<le> k" "k < t + 1" "of_type stabs ty k" for k
          using D(6) [of k] none [of k] that by (cases "k < l") auto
        show "rr = R \<and> (\<forall>k. L \<le> k \<and> k < t + 1 \<longrightarrow> \<not> of_type stabs ty k)" if "\<not> any"
          using D(11,12) none that by (metis linorder_not_less)
      qed (use D t in auto)
      from less.hyps [OF dec this] t obtain l' r' a' rl' rr' any' where
        "binsearch_loop stabs ty (t + 1) r a rl rr any = Some (rl', rr', any')" "search_inv stabs ty L R addr l' r' a' rl' rr' any'" "r' < l'"
        by auto
      moreover have "binsearch_loop stabs ty l r a rl rr any = binsearch_loop stabs ty (t + 1) r a rl rr any"
        using \<open>l \<le> r\<close> m(1) True by (subst binsearch_loop.simps) (simp add: t_def)
      ultimately show ?thesis by metis
    next
      case False
      then have lm: "l \<le> m" "of_type stabs ty m" "stab_at stabs m = Some (stabs ! nat m)"
        using m(5) by (auto simp: of_type_def stab_at_def)
      have v: "n_value (stabs ! nat m) < a \<longleftrightarrow> stab_val stabs m < unat a" "n_value (stabs ! nat m) > a \<longleftrightarrow> stab_val stabs m > unat a"
        by (simp_all add: stab_val_def word_less_nat_alt)
      consider "stab_val stabs m < unat a" | "stab_val stabs m > unat a" | "stab_val stabs m = unat a" by linarith
      then show ?thesis
      proof cases
        case 1
        have le: "stab_val stabs m \<le> unat addr" by (rule less_addr) (use lm 1 in simp_all)
        have "search_inv stabs ty L R addr (t + 1) r a m rr True"
        proof (rule search_invI)
          show "stab_val stabs k \<le> unat addr" if "L \<le> k" "k < t + 1" "of_type stabs ty k" for k
            using low [OF that(1) _ that(3) lm(1)] le that(2) by simp
          show "m = L \<or> L \<le> m \<and> m \<le> rr \<and> of_type stabs ty m \<and> stab_val stabs m \<le> unat addr" using D(1,3) lm le m(3) t by auto
        qed (use D t in auto)
        from less.hyps [OF dec this] t obtain l' r' a' rl' rr' any' where
          "binsearch_loop stabs ty (t + 1) r a m rr True = Some (rl', rr', any')" "search_inv stabs ty L R addr l' r' a' rl' rr' any'" "r' < l'"
          by auto
        moreover have "binsearch_loop stabs ty l r a rl rr any = binsearch_loop stabs ty (t + 1) r a m rr True"
          using \<open>l \<le> r\<close> m(1) lm 1 v by (subst binsearch_loop.simps) (simp add: t_def)
        ultimately show ?thesis by metis
      next
        case 2
        have above: "unat addr < stab_val stabs m" using D(10)
        proof
          assume "a = addr + 4 \<and> (\<exists>k. L \<le> k \<and> k \<le> R \<and> of_type stabs ty k \<and> stab_val stabs k = unat addr)"
          then show ?thesis using 2 exact(1) by auto
        qed (use 2 in simp)
        have up: "unat addr < stab_val stabs k" if "m - 1 < k" "k \<le> R" "of_type stabs ty k" for k
        proof (cases "k = m")
          case False
          then have "stab_val stabs m < stab_val stabs k" using ascends [of m k] that lm I by auto
          then show ?thesis using above by simp
        qed (use above in simp)
        have rl: "rl = L \<or> L \<le> rl \<and> rl \<le> m - 1 \<and> of_type stabs ty rl \<and> stab_val stabs rl \<le> unat addr"
        proof (cases "rl = L")
          case False
          then have r: "L \<le> rl" "rl \<le> rr" "of_type stabs ty rl" "stab_val stabs rl \<le> unat addr" using I by auto
          then have "\<not> m - 1 < rl" using up [of rl] I by force
          then show ?thesis using r by simp
        qed simp
        have "search_inv stabs ty L R addr l (m - 1) a rl (m - 1) True"
          unfolding search_inv_def using I t m(3) lm rl up by auto
        from less.hyps [OF dec this] t m(3) obtain l' r' a' rl' rr' any' where
          "binsearch_loop stabs ty l (m - 1) a rl (m - 1) True = Some (rl', rr', any')" "search_inv stabs ty L R addr l' r' a' rl' rr' any'" "r' < l'"
          by auto
        moreover have "binsearch_loop stabs ty l r a rl rr any = binsearch_loop stabs ty l (m - 1) a rl (m - 1) True"
          using \<open>l \<le> r\<close> m(1) lm 2 v by (subst binsearch_loop.simps) (simp add: t_def)
        ultimately show ?thesis by metis
      next
        case 3
        have a: "a = addr"
        proof (rule ccontr)
          assume "a \<noteq> addr"
          then obtain k where k: "L \<le> k" "k \<le> R" "of_type stabs ty k" "stab_val stabs k = unat addr" "a = addr + 4" using I by auto
          have m: "L \<le> m" "m \<le> R" using lm(1) D(1,3,4) m(3) t by linarith+
          have v: "stab_val stabs m = unat addr + 4" using 3 k(5) exact(1) [OF k(1-4)] by simp
          have "\<not> m < k" using ascends [of m k] m(1) k lm(2) v by auto
          moreover have "m \<noteq> k" using v k(4) by auto
          ultimately show False using exact(2) [OF k(1-4), of m] m(2) lm(2) v by simp
        qed
        have meas: "2 * nat (r - m + 1) + (if stab_val stabs m = unat (a + 4) then 1 else 0) <
            2 * nat (r - l + 1) + (if stab_val stabs l = unat a then 1 else 0)"
        proof (cases "m = l")
          case True
          then show ?thesis using 3 a exact(1) [of m] lm D(1,3,4) m(3) t by simp
        next
          case False
          then show ?thesis using dec [of r m] lm(1) by simp
        qed
        have "search_inv stabs ty L R addr m r (a + 4) m rr True"
        proof (rule search_invI)
          show "stab_val stabs k \<le> unat addr" if "L \<le> k" "k < m" "of_type stabs ty k" for k
            using low [OF that(1) _ that(3) lm(1)] 3 a m(3) that(2) by simp
          show "m = L \<or> L \<le> m \<and> m \<le> rr \<and> of_type stabs ty m \<and> stab_val stabs m \<le> unat addr"
            using D(1,3) lm m(3) t 3 a by auto
          show "a + 4 = addr \<or> a + 4 = addr + 4 \<and> (\<exists>k. L \<le> k \<and> k \<le> R \<and> of_type stabs ty k \<and> stab_val stabs k = unat addr)"
          proof -
            have "L \<le> m" "m \<le> R" using D(1,3,4) lm(1) m(3) t by linarith+
            then show ?thesis using lm(2) 3 a by auto
          qed
        qed (use D t m(3) lm(1) in auto)
        from less.hyps [OF meas this] obtain l' r' a' rl' rr' any' where
          "binsearch_loop stabs ty m r (a + 4) m rr True = Some (rl', rr', any')" "search_inv stabs ty L R addr l' r' a' rl' rr' any'" "r' < l'"
          by auto
        moreover have "binsearch_loop stabs ty l r a rl rr any = binsearch_loop stabs ty m r (a + 4) m rr True"
          using \<open>l \<le> r\<close> m(1) lm 3 v by (subst binsearch_loop.simps) (simp add: t_def)
        ultimately show ?thesis by metis
      qed
    qed
  qed
qed

lemma stab_binsearch_finds:
  assumes "0 \<le> L" "R < int (length stabs)" "L \<le> R" "ascending stabs ty L R" "clear_behind stabs ty L R addr"
    and g: "L \<le> g" "g \<le> R" "of_type stabs ty g" "stab_val stabs g \<le> unat addr"
    and last: "\<forall>k. g < k \<and> k \<le> R \<and> of_type stabs ty k \<longrightarrow> unat addr < stab_val stabs k"
  shows "\<exists>rr. stab_binsearch stabs L R ty addr = Some (g, rr) \<and> g \<le> rr \<and> rr \<le> R \<and>
    (\<forall>k. g < k \<and> k \<le> rr \<longrightarrow> \<not> of_type stabs ty k) \<and> (rr = R \<or> of_type stabs ty (rr + 1))"
proof -
  have "search_inv stabs ty L R addr L R addr L R False" using assms(3) by (auto simp: search_inv_def)
  from binsearch_loop_spec [OF assms(1,2,4,5) this] obtain l r a rl rr any where
    loop: "binsearch_loop stabs ty L R addr L R False = Some (rl, rr, any)" and inv: "search_inv stabs ty L R addr l r a rl rr any" and "r < l"
    by blast
  note D = search_invD [OF inv]
  have any: "any"
  proof (rule ccontr)
    assume n: "\<not> ?thesis"
    have "g < l" using D(3) D(11) [OF n] \<open>r < l\<close> g(2) by linarith
    then show False using D(12) [OF n g(1)] g(3) by blast
  qed
  have grr: "g \<le> rr"
  proof (rule ccontr)
    assume "\<not> ?thesis"
    then show False using D(7) [of g] g by simp
  qed
  have gap: "\<not> of_type stabs ty k" if "g < k" "k \<le> rr" for k
  proof
    assume k: "of_type stabs ty k"
    have "k < l" "L \<le> k" "k \<le> R" using that D(3,4) \<open>r < l\<close> g(1) by linarith+
    then show False using D(6) [of k] last k that(1) by fastforce
  qed
  have rlg: "rl \<le> g"
  proof (rule ccontr)
    assume n: "\<not> ?thesis"
    then have "rl \<le> rr" "of_type stabs ty rl" using D(9) g(1) by linarith+
    then show False using gap [of rl] n by simp
  qed
  have "last_of_type stabs ty rl rr = Some g"
  proof (cases "rr \<le> rl")
    case True
    then show ?thesis using rlg grr by (simp add: last_of_type_def)
  next
    case False
    from back_to_type_spec [of "rl + 1" rr stabs ty] False D(1,4,9) assms(1,2) g obtain k where
      k: "back_to_type stabs ty (rl + 1) rr = Some k" "rl \<le> k" "k \<le> rr" "\<forall>j. k < j \<and> j \<le> rr \<longrightarrow> \<not> of_type stabs ty j"
        "rl + 1 \<le> k \<longrightarrow> of_type stabs ty k" by auto
    have "k \<le> g"
    proof (rule ccontr)
      assume n: "\<not> ?thesis"
      then show False using k(2,3,5) gap [of k] rlg by linarith
    qed
    moreover have "g \<le> k" using k(4) g(3) grr by (meson not_le)
    ultimately show ?thesis using k(1) False by (simp add: last_of_type_def)
  qed
  then have "stab_binsearch stabs L R ty addr = Some (g, rr)" using loop any by (simp add: stab_binsearch_def)
  then show ?thesis using grr gap D(4,8) by blast
qed

text \<open>
  C32: the search ends for every address on every part of the table.  When the entries of the type ascend between the ends, and no entry of the type lies in
  the four bytes behind one whose value is the address itself, and one of the type at or before the address exists between the ends, then its left
  result is the last such one and its right result is just before the next entry of the type, or the right end.  The condition on the four bytes
  is needed, since \<open>addr++\<close> adds 4 (\<open>stab_binsearch_short_function\<close> below).
\<close>

theorem stab_binsearch_correct:
  assumes "0 \<le> L" "R < int (length stabs)"
  shows "stab_binsearch stabs L R ty addr \<noteq> None \<and>
    (L \<le> R \<and> ascending stabs ty L R \<and> clear_behind stabs ty L R addr \<and>
      L \<le> g \<and> g \<le> R \<and> of_type stabs ty g \<and> stab_val stabs g \<le> unat addr \<and>
      (\<forall>k. g < k \<and> k \<le> R \<and> of_type stabs ty k \<longrightarrow> unat addr < stab_val stabs k) \<longrightarrow>
      (\<exists>rr. stab_binsearch stabs L R ty addr = Some (g, rr) \<and> g \<le> rr \<and> rr \<le> R \<and>
        (\<forall>k. g < k \<and> k \<le> rr \<longrightarrow> \<not> of_type stabs ty k) \<and> (rr = R \<or> of_type stabs ty (rr + 1))))"
  using stab_binsearch_ends [OF assms] stab_binsearch_finds [OF assms] by blast

definition stabs_ex :: "u32 list \<Rightarrow> Stab list" where
  "stabs_ex vs = map (\<lambda>v. \<lparr>n_strx = 0, n_type = N_FUN, n_other = 0, n_desc = 0, n_value = v\<rparr>) vs"

text \<open>The table of the comment in \<open>kdebug.c\<close>, and its search.\<close>

definition so_stabs :: "Stab list" where
  "so_stabs = map (\<lambda>k. \<lparr>n_strx = 0, n_type = (if k \<in> {0, 13, 117, 118, 555, 556, 657} then N_SO else N_FUN), n_other = 0, n_desc = 0,
     n_value = (if k = 0 then 0xf0100000 else if k = 13 then 0xf0100040 else if k = 117 then 0xf0100176 else if k = 118 then 0xf0100178
       else if k = 555 then 0xf0100652 else if k = 556 then 0xf0100654 else if k = 657 then 0xf0100849 else 0)\<rparr>) [0..<658]"

theorem stab_binsearch_correct_witness:
  "stab_binsearch so_stabs 0 657 N_SO 0xf0100184 = Some (118, 554) \<and> stab_binsearch so_stabs 0 657 N_FUN 0 \<noteq> None"
proof -
  have len: "length so_stabs = 658" by (simp add: so_stabs_def)
  have ty: "of_type so_stabs N_SO k \<longleftrightarrow> k \<in> {0, 13, 117, 118, 555, 556, 657}" for k
  proof (cases "0 \<le> k \<and> k < 658")
    case True
    then have "nat k < 658" by linarith
    then show ?thesis using True len by (auto simp: of_type_def so_stabs_def N_SO_def N_FUN_def nat_eq_iff)
  next
    case False
    then show ?thesis using len by (auto simp: of_type_def)
  qed
  have v: "stab_val so_stabs 0 = 0xf0100000" "stab_val so_stabs 13 = 0xf0100040" "stab_val so_stabs 117 = 0xf0100176"
    "stab_val so_stabs 118 = 0xf0100178" "stab_val so_stabs 555 = 0xf0100652" "stab_val so_stabs 556 = 0xf0100654" "stab_val so_stabs 657 = 0xf0100849"
    by (simp_all add: stab_val_def so_stabs_def)
  have asc: "ascending so_stabs N_SO 0 657" unfolding ascending_def ty using v by auto
  have clear: "clear_behind so_stabs N_SO 0 657 0xf0100184" unfolding clear_behind_def ty using v by auto
  have last: "\<forall>k. 118 < k \<and> k \<le> 657 \<and> of_type so_stabs N_SO k \<longrightarrow> unat (0xf0100184 :: u32) < stab_val so_stabs k"
    unfolding ty using v by auto
  from stab_binsearch_correct [of 0 657 so_stabs N_SO "0xf0100184" 118] asc clear last v(4) obtain rr where
    r: "stab_binsearch so_stabs 0 657 N_SO 0xf0100184 = Some (118, rr)" "118 \<le> rr" "rr \<le> 657" "\<forall>k. 118 < k \<and> k \<le> rr \<longrightarrow> \<not> of_type so_stabs N_SO k"
      "rr = 657 \<or> of_type so_stabs N_SO (rr + 1)"
    by (auto simp: len ty)
  have "\<not> 555 \<le> rr" using r(4) [rule_format, of 555] by (auto simp: ty)
  then have "rr = 554" using r(2,5) by (auto simp: ty)
  then show ?thesis using r(1) stab_binsearch_correct [of 0 657 so_stabs N_FUN 0] len by simp
qed

text \<open>With a function of four bytes the search for its first instruction answers the next function.\<close>

lemma stab_binsearch_short_function:
  "stab_binsearch (stabs_ex [0x100, 0x104]) 0 1 N_FUN 0x100 = Some (1, 1)"
  by (simp add: stab_binsearch_def binsearch_loop.simps back_to_type.simps stab_at_def stabs_ex_def last_of_type_def N_FUN_def)

end
