(* ===== verification/FOS_Panic.thy ===== *)
theory FOS_Panic
  imports FOS_SystemOps
begin

text \<open>
  What the kernel does when it panics (\<open>kern/init.c\<close>).  Elsewhere in this development a panic is \<open>None\<close>; here it is followed: a panic prints its
  message, sends the running process to the exit queue and switches to the scheduler, and without a running process it goes to
  the prompt.  The way to the scheduler can panic itself, at the checks of \<open>sched()\<close>; that panic is followed too.  A panic inside an operation on
  the queues is not: \<open>None\<close>.  Messages and the stack pointer are not modelled.
\<close>

datatype panic_end = To_scheduler | To_prompt

text \<open>\<open>sched_exit_env\<close> up to the call of \<open>sched()\<close>: whether it gets there, and the state.\<close>

definition exit_up_to_sched :: "int \<Rightarrow> 'z sched_state_scheme \<Rightarrow> (bool \<times> 'z sched_state_scheme) option" where
  "exit_up_to_sched envId s = do {
     let lock_already_held = held QLOCK s;
     s1 \<leftarrow> (if lock_already_held then Some s else acquire_kspinlock QLOCK s);
     (found_new, s2) \<leftarrow> exit_from_new (env_new_queue s1) envId False s1;
     (ptr_env, s3) \<leftarrow> (if found_new then Some (None, s2)
                       else remove_id_from_ready (num_of_ready_queues s2) 0 envId s2);
     cur_env \<leftarrow> cpu_proc s3;
     let found = (found_new \<or> ptr_env \<noteq> None);
     let (found, ptr_env) = (if \<not> found \<and> env_id (envs s3 cur_env) = envId then (True, Some cur_env)
                             else (found, ptr_env));
     if \<not> found
     then do {
       s4 \<leftarrow> (if lock_already_held then Some s3 else release_kspinlock QLOCK s3);
       Some (False, s4) }
     else do {
       s4 \<leftarrow> sched_insert_exit ptr_env s3;
       if env_id (envs s4 cur_env) = envId then Some (True, s4)
       else do {
         s5 \<leftarrow> (if lock_already_held then Some s4 else release_kspinlock QLOCK s4);
         Some (False, s5) } } }"

lemma sched_exit_env_split:
  "sched_exit_env envId s = do {
     (b, s1) \<leftarrow> exit_up_to_sched envId s;
     if b then do { (saved, s2) \<leftarrow> sched_enter s1; Some (Switch_to_scheduler, s2) } else Some (Returns, s1) }"
  unfolding sched_exit_env_def exit_up_to_sched_def Let_def
  by (auto simp: Option.bind_assoc case_prod_unfold intro!: Option.bind_cong)

text \<open>\<open>_panic\<close>; \<open>_panic_into_prompt\<close> does the same.\<close>

partial_function (option) panic :: "'z sched_state_scheme \<Rightarrow> (panic_end \<times> 'z sched_state_scheme) option" where
  "panic s = do {
     (cur_env, s1) \<leftarrow> get_cpu_proc s;
     case cur_env of
       None \<Rightarrow> Some (To_prompt, get_into_prompt s1)
     | Some e \<Rightarrow>
         if env_status (envs s1 e) \<noteq> ENV_RUNNING then Some (To_prompt, get_into_prompt s1)
         else do {
           (b, s2) \<leftarrow> exit_up_to_sched (env_id (envs s1 e)) s1;
           if \<not> b then Some (To_prompt, get_into_prompt s2)
           else case sched_enter s2 of
             Some (saved, s3) \<Rightarrow> Some (To_scheduler, s3)
           | None \<Rightarrow> panic s2 } }"

definition kpanic_into_prompt :: "'z sched_state_scheme \<Rightarrow> (panic_end \<times> 'z sched_state_scheme) option" where
  "kpanic_into_prompt s = panic s"

text \<open>
  \<open>_panic_all\<close> first empties the ready queues into the exit queue; when the lock of the queues is held, taking it panics.  The rest is that of
  \<open>_panic\<close>.
\<close>

definition kpanic_all :: "'z sched_state_scheme \<Rightarrow> (panic_end \<times> 'z sched_state_scheme) option" where
  "kpanic_all s = do {
     let s1 = pushcli s;
     let sched_stat = scheduler_status s1;
     s2 \<leftarrow> popcli s1;
     if sched_stat = SCH_UNINITIALIZED then Some (To_prompt, get_into_prompt s2)
     else if held QLOCK s2 then panic s2
     else do { s3 \<leftarrow> sched_exit_all_ready_envs s2; panic s3 } }"

end
