(* ===== verification/FOS_PanicThms.thy ===== *)
theory FOS_PanicThms
  imports FOS_Panic FOS_SystemThms
begin

text \<open>
  A panic of a process that holds no other spin lock than the one of the queues ends the process and keeps the invariant of the system; a panic
  with another lock held leaves the lock of the queues taken at the prompt, for ever.
\<close>

section \<open>Exit of the running process\<close>

text \<open>\<open>busy L e s\<close>: the process \<open>e\<close> runs in the kernel and the processor holds the spin locks \<open>L\<close>.\<close>

definition busy :: "lock_id set \<Rightarrow> env_ptr \<Rightarrow> 'z conc_state_scheme \<Rightarrow> bool" where
  "busy L e s \<longleftrightarrow> sched_inv (Some e) s \<and> holds L s \<and> cpu_proc s = Some e \<and> env_status (envs s e) = ENV_RUNNING"

definition exit_put :: "env_ptr \<Rightarrow> 'z sched_state_scheme \<Rightarrow> 'z sched_state_scheme" where
  "exit_put e s = (set_status e ENV_EXIT s)\<lparr>env_exit_queue := e # env_exit_queue s\<rparr>"

lemma exit_put_sel [simp]:
  "klocks (exit_put e s) = klocks s" "ncli (exit_put e s) = ncli s" "eflags_IF (exit_put e s) = eflags_IF s"
  "intena (exit_put e s) = intena s" "cpu_proc (exit_put e s) = cpu_proc s"
  "envs (exit_put e s) = (envs s)(e := (envs s e)\<lparr>env_status := ENV_EXIT\<rparr>)" "env_exit_queue (exit_put e s) = e # env_exit_queue s"
  "env_new_queue (exit_put e s) = env_new_queue s" "env_ready_queues (exit_put e s) = env_ready_queues s"
  "scheduler_status (exit_put e s) = scheduler_status s"
  by (simp_all add: exit_put_def)

lemma refresh_intena_cases: "refresh_intena s = s \<or> refresh_intena s = s\<lparr>intena := eflags_IF s\<rparr>"
  by (simp add: refresh_intena_def)

lemma refresh_intena_sched [simp]:
  "env_ready_queues (refresh_intena s) = env_ready_queues s" "env_new_queue (refresh_intena s) = env_new_queue s"
  "env_exit_queue (refresh_intena s) = env_exit_queue s" "num_of_ready_queues (refresh_intena s) = num_of_ready_queues s"
  by (simp_all add: refresh_intena_def)

lemma sched_inv_intena: "sched_inv p (s\<lparr>intena := b\<rparr>) = sched_inv p s"
  by (intro sched_inv_cong) simp_all

lemma busy_refresh: "busy L e (refresh_intena s) = busy L e s"
proof -
  have "sched_inv (Some e) (refresh_intena s) = sched_inv (Some e) s"
    using refresh_intena_cases [of s] sched_inv_intena by metis
  moreover have "holds L (refresh_intena s) = holds L s" by (rule holds_cong) simp_all
  ultimately show ?thesis by (simp add: busy_def)
qed

lemma exit_put_ok:
  assumes "busy L e s" "QLOCK \<in> L"
  shows "sched_insert_exit (Some e) s = Some (exit_put e s)" "sched_inv (Some e) (exit_put e s)" "holds L (exit_put e s)"
proof -
  have b: "sched_inv (Some e) s" "holds L s" "env_status (envs s e) = ENV_RUNNING" using assms(1) by (simp_all add: busy_def)
  note d = sched_invD [OF b(1)]
  have ne: "e \<notin> set (env_exit_queue s)" using queue_statusD(2) [OF d(1), of e] b(3) by auto
  have h: "held QLOCK s" using holds_basic(3) [OF b(2)] assms(2) by simp
  have buf: "\<not> buffering_enabled s" using d(6) by (simp add: conf_ok_def)
  show "sched_insert_exit (Some e) s = Some (exit_put e s)"
    using ne buf h by (simp add: sched_insert_exit_def enqueue_l_def insert_l_def exit_put_def Let_def)
  note v = sched_inv_status [OF b(1), of e ENV_EXIT]
  have q: "queues_ok (exit_put e s)"
    unfolding exit_put_def using v(1) b(3) ne queue_statusD(2) [OF d(1)] d(1)
    by (intro queues_ok_exit) (auto simp: queues_ok_def exit_ok_def)
  have "all_placed (Some e) (exit_put e s)"
    by (rule all_placedI [OF d(5), of e]) (simp_all add: at_place_def in_ready_def exit_put_def)
  then show "sched_inv (Some e) (exit_put e s)"
    using q v(2-4) b(3) d(6) by (simp add: sched_inv_def conf_ok_def quantum_ok_def exit_put_def)
  show "holds L (exit_put e s)" using b(2) by (subst holds_cong [of _ s]) simp_all
qed

lemma exit_up_to_sched_ok:
  assumes "busy L e s"
  defines "s1 \<equiv> if QLOCK \<in> L then s else entered QLOCK s"
  shows "exit_up_to_sched (env_id (envs s e)) s = Some (True, exit_put e s1)" "busy (insert QLOCK L) e s1"
proof -
  have b: "sched_inv (Some e) s" "holds L s" "cpu_proc s = Some e" "env_status (envs s e) = ENV_RUNNING"
    using assms(1) by (simp_all add: busy_def)
  show busy1: "busy (insert QLOCK L) e s1"
    using b acquire_holds(2) [of L s QLOCK] by (auto simp: busy_def s1_def insert_absorb)
  have acq: "(if held QLOCK s then Some s else acquire_kspinlock QLOCK s) = Some s1"
    using acquire_holds(1) [OF b(2), of QLOCK] holds_basic(3) [OF b(2), of QLOCK] by (simp add: s1_def)
  let ?i = "env_id (envs s e)"
  have ev: "envs s1 = envs s" "cpu_proc s1 = Some e" using b(3) by (simp_all add: s1_def)
  have i: "sched_inv (Some e) s1" using busy1 by (simp add: busy_def)
  note d = sched_invD [OF i]
  have nid: "env_id (envs s1 x) \<noteq> ?i" if "env_status (envs s1 x) \<in> {ENV_NEW, ENV_READY}" for x
  proof -
    have "active (envs s1 x)" "active (envs s1 e)" using that b(4) ev by (auto simp: active_def)
    moreover have "x \<noteq> e" using that b(4) ev by auto
    ultimately show ?thesis using d(4) ev unfolding ids_ok_def by auto
  qed
  have new: "exit_from_new (env_new_queue s1) ?i False s1 = Some (False, s1)"
    using nid queue_statusD(1) [OF d(1)] by (intro exit_from_new_none) auto
  have rdy: "remove_id_from_ready (num_of_ready_queues s1) 0 ?i s1 = Some (None, s1)"
    using nid queue_statusD(3) [OF d(1)] by (intro remove_id_none [OF d(7)]) auto
  show "exit_up_to_sched ?i s = Some (True, exit_put e s1)"
    unfolding exit_up_to_sched_def Let_def using acq new rdy exit_put_ok(1) [OF busy1] ev by simp
qed

section \<open>Panics\<close>

lemma panic_busy:
  assumes "busy L e s"
  shows "\<exists>s1. busy (insert QLOCK L) e s1 \<and> envs s1 = envs s \<and> env_new_queue s1 = env_new_queue s \<and> env_exit_queue s1 = env_exit_queue s \<and>
    env_ready_queues s1 = env_ready_queues s \<and>
    panic s = (case sched_enter (exit_put e s1) of Some (saved, s3) \<Rightarrow> Some (To_scheduler, s3) | None \<Rightarrow> panic (exit_put e s1))"
proof -
  have r: "busy L e (refresh_intena s)" using assms by (simp add: busy_refresh)
  have c: "cpu_ok s" "cpu_proc s = Some e" "env_status (envs s e) = ENV_RUNNING"
    using assms holds_basic(1) [of L s] by (simp_all add: busy_def)
  note x = exit_up_to_sched_ok [OF r]
  let ?s1 = "if QLOCK \<in> L then refresh_intena s else entered QLOCK (refresh_intena s)"
  have "panic s = (case sched_enter (exit_put e ?s1) of Some (saved, s3) \<Rightarrow> Some (To_scheduler, s3) | None \<Rightarrow> panic (exit_put e ?s1))"
    using x(1) c by (subst panic.simps) (simp add: get_cpu_proc_eq)
  then show ?thesis using x(2) by (intro exI [of _ ?s1]) simp
qed

lemma panic_at_prompt:
  assumes "cpu_ok s" "cpu_proc s = None"
  shows "panic s = Some (To_prompt, get_into_prompt (refresh_intena s))"
  using assms by (subst panic.simps) (simp add: get_cpu_proc_eq)

text \<open>
  C39: A panic of a running process that holds no spin lock, or only the lock of the queues, ends this process and nothing else: the process is in the exit
  queue, the status of every other process and the other queues are as before, the invariant of the system holds with the lock of the queues taken, and
  the processor goes on in the scheduler.
\<close>

theorem panic_ends_process:
  assumes "busy L e s" "L \<subseteq> {QLOCK}"
  shows "\<exists>s'. panic s = Some (To_scheduler, s') \<and> gave_up e s' \<and> env_exit_queue s' = e # env_exit_queue s \<and>
    env_new_queue s' = env_new_queue s \<and> env_ready_queues s' = env_ready_queues s \<and>
    (\<forall>x. env_status (envs s' x) = (if x = e then ENV_EXIT else env_status (envs s x)))"
proof -
  from panic_busy [OF assms(1)] obtain s1 where s1: "busy (insert QLOCK L) e s1" "envs s1 = envs s" "env_new_queue s1 = env_new_queue s"
    "env_exit_queue s1 = env_exit_queue s" "env_ready_queues s1 = env_ready_queues s" and
    p: "panic s = (case sched_enter (exit_put e s1) of Some (saved, s3) \<Rightarrow> Some (To_scheduler, s3) | None \<Rightarrow> panic (exit_put e s1))"
    by blast
  have L: "insert QLOCK L = {QLOCK}" using assms(2) by auto
  note x = exit_put_ok [OF s1(1)]
  have h: "holds {QLOCK} (exit_put e s1)" using x(3) L by simp
  have q: "cpu_proc s1 = Some e" using s1(1) by (simp add: busy_def)
  have "sched_enter (exit_put e s1) = Some (intena s1, exit_put e s1)"
    using holds_basic(1,3,4) [OF h] q by (simp add: sched_enter_def cpu_ok_def)
  then have "panic s = Some (To_scheduler, exit_put e s1)" using p by simp
  then show ?thesis using h x(2) q s1 by (auto simp: gave_up_def)
qed

text \<open>
  C40: A panic of a process that holds another spin lock ends at the prompt with all its locks and the lock of the queues still taken, although the nesting
  depth is reset.  From then on no process can be started, the prompt's panics come back to the prompt and no lock is ever released.
\<close>

theorem panic_with_lock_wedges:
  assumes "busy L e s" "l \<in> L" "l \<noteq> QLOCK"
  shows "\<exists>s'. panic s = Some (To_prompt, s') \<and> cpu_proc s' = None \<and> ncli s' = 0 \<and> env_status (envs s' e) = ENV_EXIT \<and>
    (\<forall>k. held k s' \<longleftrightarrow> k = QLOCK \<or> k \<in> L) \<and>
    (\<forall>i. sched_run_env i s' = None) \<and> sched_run_all s' = None \<and> (\<forall>x. sched_new_env x s' = None) \<and>
    (\<exists>s''. panic s' = Some (To_prompt, s'') \<and> klocks s'' = klocks s')"
proof -
  from panic_busy [OF assms(1)] obtain s1 where s1: "busy (insert QLOCK L) e s1" and
    p: "panic s = (case sched_enter (exit_put e s1) of Some (saved, s3) \<Rightarrow> Some (To_scheduler, s3) | None \<Rightarrow> panic (exit_put e s1))"
    by blast
  let ?t = "exit_put e s1"
  let ?s' = "get_into_prompt (refresh_intena ?t)"
  have h: "holds (insert QLOCK L) ?t" using exit_put_ok(3) [OF s1] by simp
  have q: "cpu_proc s1 = Some e" using s1 by (simp add: busy_def)
  have "finite L" using assms(1) by (simp add: busy_def holds_def)
  then have "card {l, QLOCK} \<le> card (insert QLOCK L)" using assms(2) by (intro card_mono) auto
  then have "ncli ?t \<noteq> 1" using holds_basic(4) [OF h] assms(3) by simp
  then have "sched_enter ?t = None" using q by (simp add: sched_enter_def)
  moreover have "panic ?t = Some (To_prompt, ?s')"
    using holds_basic(1) [OF h] q by (subst panic.simps) (simp add: get_cpu_proc_eq)
  ultimately have P: "panic s = Some (To_prompt, ?s')" using p by simp
  have k: "klocks ?s' = klocks ?t" "ncli ?s' = 0" "cpu_proc ?s' = None" "envs ?s' = envs ?t" "eflags_IF ?s' = False"
    by (simp_all add: get_into_prompt_def cli_def)
  have ok: "cpu_ok ?s'" "locks_ok ?s'" using k(1,2,5) holds_basic(2) [OF h] by (simp_all add: cpu_ok_def locks_ok_def)
  have held: "held x ?s' \<longleftrightarrow> x = QLOCK \<or> x \<in> L" for x
    using holds_basic(3) [OF h, of x] k(1) by (simp add: held_def)
  have acq: "acquire_kspinlock QLOCK ?s' = None" using acquire_kspinlock_eq [OF ok] held by simp
  have "panic ?s' = Some (To_prompt, get_into_prompt (refresh_intena ?s'))" by (rule panic_at_prompt [OF ok(1) k(3)])
  moreover have "klocks (get_into_prompt (refresh_intena ?s')) = klocks ?s'" by (simp add: get_into_prompt_def cli_def)
  moreover have "sched_run_env i ?s' = None" "sched_run_all ?s' = None" "sched_new_env x ?s' = None" for i x
    using acq by (simp_all only: sched_run_env_def sched_run_all_def sched_new_env_def Option.bind.simps)
  moreover have "env_status (envs ?s' e) = ENV_EXIT" using k(4) by simp
  ultimately show ?thesis using P k(2,3) held by blast
qed

text \<open>The example system reaches a running process; with the lock of the frames it is a process in \<open>allocate_frame\<close>.\<close>

lemma busy_running: "running e s \<Longrightarrow> busy {} e s"
  by (simp add: running_def busy_def)

theorem panic_ends_process_witness:
  "\<exists>y e s'. sys_reach sys_ex y \<and> panic (st y) = Some (To_scheduler, s') \<and> env_exit_queue s' = e # env_exit_queue (st y)"
proof -
  from sys_ex_runs obtain y e where y: "sys_reach sys_ex y" "running e (st y)" by blast
  from panic_ends_process [OF busy_running [OF y(2)]] y(1) show ?thesis by blast
qed

theorem panic_with_lock_wedges_witness:
  "\<exists>y s'. sys_reach sys_ex y \<and> panic (entered MFLLOCK (st y)) = Some (To_prompt, s') \<and> sched_run_all s' = None"
proof -
  from sys_ex_runs obtain y e where y: "sys_reach sys_ex y" "running e (st y)" by blast
  have b: "busy {} e (st y)" using y(2) by (rule busy_running)
  then have "busy {MFLLOCK} e (entered MFLLOCK (st y))" using acquire_holds(2) [of "{}" "st y" MFLLOCK] by (simp add: busy_def)
  from panic_with_lock_wedges [OF this, of MFLLOCK] y(1) show ?thesis by auto
qed

end
