(* ===== verification/FOS_Procs.thy ===== *)
theory FOS_Procs
  imports FOS_Prelude
begin

text \<open>
  Programs of several processes: the outcome of the next statement of a process, which goes on, has to wait or fails, and the number of processes that
  are at given places of their programs.
\<close>

datatype 'a act = Next 'a | Waits | Fails

definition or_fails :: "'a option \<Rightarrow> 'a act" where
  "or_fails r = (case r of None \<Rightarrow> Fails | Some x \<Rightarrow> Next x)"

lemma or_fails_Next: "or_fails r = Next s' \<longleftrightarrow> r = Some s'"
  by (auto simp: or_fails_def split: option.splits)

section \<open>Counting processes\<close>

fun cnt :: "('a \<Rightarrow> bool) \<Rightarrow> (nat \<Rightarrow> 'a) \<Rightarrow> nat \<Rightarrow> int" where
  "cnt P f 0 = 0"
| "cnt P f (Suc n) = cnt P f n + of_bool (P (f n))"

lemma cnt_cong: "(\<And>k. k < n \<Longrightarrow> P (f k) = Q (g k)) \<Longrightarrow> cnt P f n = cnt Q g n"
  by (induction n) auto

lemma cnt_upd: "k < n \<Longrightarrow> cnt P (f(k := v)) n = cnt P f n + of_bool (P v) - of_bool (P (f k))"
proof (induction n)
  case (Suc n)
  show ?case
  proof (cases "k = n")
    case True
    have "cnt P (f(n := v)) n = cnt P f n" by (rule cnt_cong) auto
    then show ?thesis using True by (simp del: fun_upd_apply) simp
  qed (use Suc in auto)
qed simp

lemma cnt_nonneg [simp]: "0 \<le> cnt P f n"
  by (induction n) auto

lemma cnt_le: "cnt P f n \<le> int n"
  by (induction n) auto

lemma cnt_zero: "cnt P f n = 0 \<longleftrightarrow> (\<forall>k < n. \<not> P (f k))"
proof (induction n)
  case (Suc n)
  have "cnt P f (Suc n) = 0 \<longleftrightarrow> cnt P f n = 0 \<and> \<not> P (f n)" using cnt_nonneg [of P f n] by (auto simp: add_nonneg_eq_0_iff)
  then show ?case using Suc by (auto simp: less_Suc_eq)
qed simp

lemma cnt_pos: "k < n \<Longrightarrow> P (f k) \<Longrightarrow> 1 \<le> cnt P f n"
proof -
  assume "k < n" "P (f k)"
  then have "cnt P f n \<noteq> 0" using cnt_zero [of P f n] by blast
  then show "1 \<le> cnt P f n" using cnt_nonneg [of P f n] by linarith
qed

lemma cnt_two:
  assumes "j < n" "k < n" "j \<noteq> k" "P (f j)" "P (f k)"
  shows "2 \<le> cnt P f n"
  using assms
proof (induction n)
  case (Suc n)
  then show ?case
    using cnt_pos [of j n P f] cnt_pos [of k n P f] by (cases "j = n"; cases "k = n") (auto simp: less_Suc_eq)
qed simp

lemma cnt_full: "cnt P f n = int n \<longleftrightarrow> (\<forall>k < n. P (f k))"
proof (induction n)
  case (Suc n)
  then show ?case using cnt_le [of P f n] by (auto simp: less_Suc_eq)
qed simp

lemma cnt_le_one:
  assumes "\<And>j k. j < n \<Longrightarrow> k < n \<Longrightarrow> P (f j) \<Longrightarrow> P (f k) \<Longrightarrow> j = k"
  shows "cnt P f n \<le> 1"
  using assms
proof (induction n)
  case (Suc n)
  show ?case
  proof (cases "P (f n)")
    case True
    then have "\<not> P (f k)" if "k < n" for k using Suc.prems [of n k] that by auto
    then have "cnt P f n = 0" by (simp add: cnt_zero)
    then show ?thesis using True by simp
  next
    case False
    have "cnt P f n \<le> 1" by (rule Suc.IH) (simp add: Suc.prems)
    then show ?thesis using False by simp
  qed
qed simp

lemma cnt_mono: "(\<And>k. k < n \<Longrightarrow> P (f k) \<Longrightarrow> Q (f k)) \<Longrightarrow> cnt P f n \<le> cnt Q f n"
  by (induction n) (force simp: of_bool_def)+

lemma cnt_less: "k < n \<Longrightarrow> \<not> P (f k) \<Longrightarrow> cnt P f n < int n"
  using cnt_le [of P f n] cnt_full [of P f n] by force

lemma sum_upd_nat: "(k :: nat) < n \<Longrightarrow> (\<Sum>j<n. g ((f(k := v)) j)) + g (f k) = (\<Sum>j<n. g (f j)) + (g v :: nat)"
proof -
  assume k: "k < n"
  have "(\<Sum>j\<in>{..<n} - {k}. g ((f(k := v)) j)) = (\<Sum>j\<in>{..<n} - {k}. g (f j))" by (rule sum.cong) auto
  then show ?thesis using k sum.remove [of "{..<n}" k "\<lambda>j. g ((f(k := v)) j)"] sum.remove [of "{..<n}" k "\<lambda>j. g (f j)"] by simp
qed

end
