(* ===== verification/FOS_Air.thy ===== *)
theory FOS_Air
  imports FOS_Procs
begin

text \<open>
  The air reservation program (\<open>user/tst_air.c\<close>, \<open>tst_air_clerk.c\<close>, \<open>tst_air_customer.c\<close>): a master, three clerks and any number of customers that share
  memory and semaphores.  Each process is at a place of its program, and the step functions say what it does there.  A statement is one step, so the
  processes interleave inside the critical sections too, and that nothing goes wrong there is a theorem.

  The master is modelled from the point where it has made the shared objects and the processes: a process that it has not made yet is one that has
  not run yet.  The final check of the master, which only reads, is one step.  Delays have no effect, and the printing is left out.  The library with the semaphores of user programs is not in the repository; its operations are the
  argument \<open>sem_ops\<close>.  An access outside an array, a panic and a failed assertion are \<open>Fails\<close>.
\<close>

section \<open>State\<close>

datatype asem =
    CAPACITY | FLIGHT1CS | FLIGHT2CS | CUSTCOUNTERCS | CUSTQUEUECS | CLERK | CUST_READY | CUSTTERMINATED | CLERKTERMINATED | CUST_FINISHED int

text \<open>
  \<open>sem_wait\<close> is \<open>None\<close> while the caller has to wait.  \<open>sem_permits\<close> is what a semaphore still grants, and \<open>sem_count\<close> what
  \<open>semaphore_count\<close> returns.
\<close>

record 'm sem_ops =
  sem_wait :: "asem \<Rightarrow> 'm \<Rightarrow> 'm option"
  sem_signal :: "asem \<Rightarrow> 'm \<Rightarrow> 'm"
  sem_permits :: "'m \<Rightarrow> asem \<Rightarrow> nat"
  sem_count :: "'m \<Rightarrow> asem \<Rightarrow> int"

definition sem_laws :: "'m sem_ops \<Rightarrow> bool" where
  "sem_laws ops \<longleftrightarrow>
     (\<forall>x m. sem_wait ops x m = None \<longleftrightarrow> sem_permits ops m x = 0) \<and>
     (\<forall>x m m'. sem_wait ops x m = Some m' \<longrightarrow> sem_permits ops m' = (sem_permits ops m)(x := sem_permits ops m x - 1)) \<and>
     (\<forall>x m. sem_permits ops (sem_signal ops x m) = (sem_permits ops m)(x := sem_permits ops m x + 1)) \<and>
     (\<forall>x m. 0 < sem_permits ops m x \<longrightarrow> sem_count ops m x = int (sem_permits ops m x))"

record customer =
  flightType :: int
  booked :: int

text \<open>The places of a clerk; the first number is that of the customer it serves, the second its flight.\<close>

datatype clerk_at =
    K_open | K_ready | K_queue | K_take | K_none | K_next int | K_left int | K_type int
  | K_wait1 int | K_try1 int | K_sig1 int | K_wait2 int | K_try2 int | K_sig2 int
  | K_wait3a int | K_wait3b int | K_try3 int | K_sig3a int | K_sig3b int
  | K_dec1 int int | K_mark1 int int | K_arr1 int int | K_num1 int int
  | K_dec2 int int | K_mark2 int int | K_arr2 int int | K_num2 int int
  | K_finish int | K_clerk int | K_end | K_done

text \<open>The places of a customer, with its number and its flight.\<close>

datatype customer_at =
    U_start | U_number | U_count int | U_pick int | U_take int int | U_sig int int | U_cap int int | U_clerk int int | U_unbook int int | U_info int int
  | U_qwait int int | U_enq int int | U_qin int int | U_qsig int int | U_ready int int | U_fin int int | U_capsig int int | U_term int int | U_done int int

datatype master_at = M_wait nat | M_check | M_shut | M_mark | M_signal nat | M_join nat | M_done

record air_config =
  numOfCustomers :: nat
  agentCapacity :: nat
  flight1NumOfTickets :: nat
  flight2NumOfTickets :: nat

definition numOfClerks :: nat where "numOfClerks = 3"

record 'm air =
  sems :: 'm
  customers :: "customer list"
  custCounter :: int
  flight1Customers :: int
  flight2Customers :: int
  flight3Customers :: int
  flight1Counter :: int
  flight2Counter :: int
  flight1BookedArr :: "int list"
  flight2BookedArr :: "int list"
  flight1BookedCounter :: nat
  flight2BookedCounter :: nat
  cust_ready_queue :: "int list"
  queue_in :: nat
  queue_out :: nat
  isOpened :: bool
  master :: master_at
  clerk_pc :: "nat \<Rightarrow> clerk_at"
  cust_pc :: "nat \<Rightarrow> customer_at"

definition wait_on :: "'m sem_ops \<Rightarrow> asem \<Rightarrow> ('m air \<Rightarrow> 'm air) \<Rightarrow> 'm air \<Rightarrow> 'm air act" where
  "wait_on ops x f s = (case sem_wait ops x (sems s) of None \<Rightarrow> Waits | Some m \<Rightarrow> Next (f (s\<lparr>sems := m\<rparr>)))"

definition signal_on :: "'m sem_ops \<Rightarrow> asem \<Rightarrow> ('m air \<Rightarrow> 'm air) \<Rightarrow> 'm air \<Rightarrow> 'm air act" where
  "signal_on ops x f s = Next (f (s\<lparr>sems := sem_signal ops x (sems s)\<rparr>))"

definition clerk_to :: "nat \<Rightarrow> clerk_at \<Rightarrow> 'm air \<Rightarrow> 'm air" where
  "clerk_to k pc s = s\<lparr>clerk_pc := (clerk_pc s)(k := pc)\<rparr>"

definition cust_to :: "nat \<Rightarrow> customer_at \<Rightarrow> 'm air \<Rightarrow> 'm air" where
  "cust_to p pc s = s\<lparr>cust_pc := (cust_pc s)(p := pc)\<rparr>"

definition master_to :: "master_at \<Rightarrow> 'm air \<Rightarrow> 'm air" where
  "master_to pc s = s\<lparr>master := pc\<rparr>"

definition in_customers :: "int \<Rightarrow> 'm air \<Rightarrow> bool" where
  "in_customers c s \<longleftrightarrow> 0 \<le> c \<and> c < int (length (customers s))"

section \<open>Clerks\<close>

text \<open>An assignment to the record of a customer.\<close>

definition set_customer :: "int \<Rightarrow> (customer \<Rightarrow> customer) \<Rightarrow> 'm air \<Rightarrow> 'm air option" where
  "set_customer c f s =
     (if in_customers c s then Some (s\<lparr>customers := (customers s)[nat c := f (customers s ! nat c)]\<rparr>) else None)"

definition store_booked1 :: "int \<Rightarrow> 'm air \<Rightarrow> 'm air option" where
  "store_booked1 c s =
     (if flight1BookedCounter s < length (flight1BookedArr s)
      then Some (s\<lparr>flight1BookedArr := (flight1BookedArr s)[flight1BookedCounter s := c]\<rparr>) else None)"

definition store_booked2 :: "int \<Rightarrow> 'm air \<Rightarrow> 'm air option" where
  "store_booked2 c s =
     (if flight2BookedCounter s < length (flight2BookedArr s)
      then Some (s\<lparr>flight2BookedArr := (flight2BookedArr s)[flight2BookedCounter s := c]\<rparr>) else None)"

definition clerk_take :: "nat \<Rightarrow> 'm air \<Rightarrow> 'm air option" where
  "clerk_take k s =
     (if queue_out s < length (cust_ready_queue s)
      then let custId = cust_ready_queue s ! queue_out s
           in Some (if custId = -1 then clerk_to k K_none s else clerk_to k (K_next custId) s)
      else None)"

definition clerk_switch :: "nat \<Rightarrow> int \<Rightarrow> 'm air \<Rightarrow> 'm air option" where
  "clerk_switch k c s =
     (if in_customers c s
      then let t = flightType (customers s ! nat c)
           in if t = 1 then Some (clerk_to k (K_wait1 c) s)
              else if t = 2 then Some (clerk_to k (K_wait2 c) s)
              else if t = 3 then Some (clerk_to k (K_wait3a c) s)
              else None
      else None)"

definition clerk_step :: "'m sem_ops \<Rightarrow> nat \<Rightarrow> 'm air \<Rightarrow> 'm air act" where
  "clerk_step ops k s = (case clerk_pc s k of
     K_open \<Rightarrow> Next (clerk_to k (if isOpened s then K_ready else K_end) s)
   | K_ready \<Rightarrow> wait_on ops CUST_READY (clerk_to k K_queue) s
   | K_queue \<Rightarrow> wait_on ops CUSTQUEUECS (clerk_to k K_take) s
   | K_take \<Rightarrow> or_fails (clerk_take k s)
   | K_none \<Rightarrow> signal_on ops CUSTQUEUECS (clerk_to k K_open) s
   | K_next c \<Rightarrow> Next (clerk_to k (K_left c) (s\<lparr>queue_out := queue_out s + 1\<rparr>))
   | K_left c \<Rightarrow> signal_on ops CUSTQUEUECS (clerk_to k (K_type c)) s
   | K_type c \<Rightarrow> or_fails (clerk_switch k c s)
   | K_wait1 c \<Rightarrow> wait_on ops FLIGHT1CS (clerk_to k (K_try1 c)) s
   | K_try1 c \<Rightarrow> Next (clerk_to k (if flight1Counter s > 0 then K_dec1 c 1 else K_sig1 c) s)
   | K_sig1 c \<Rightarrow> signal_on ops FLIGHT1CS (clerk_to k (K_finish c)) s
   | K_wait2 c \<Rightarrow> wait_on ops FLIGHT2CS (clerk_to k (K_try2 c)) s
   | K_try2 c \<Rightarrow> Next (clerk_to k (if flight2Counter s > 0 then K_dec2 c 2 else K_sig2 c) s)
   | K_sig2 c \<Rightarrow> signal_on ops FLIGHT2CS (clerk_to k (K_finish c)) s
   | K_wait3a c \<Rightarrow> wait_on ops FLIGHT1CS (clerk_to k (K_wait3b c)) s
   | K_wait3b c \<Rightarrow> wait_on ops FLIGHT2CS (clerk_to k (K_try3 c)) s
   | K_try3 c \<Rightarrow> Next (clerk_to k (if flight1Counter s > 0 \<and> flight2Counter s > 0 then K_dec1 c 3 else K_sig3a c) s)
   | K_sig3a c \<Rightarrow> signal_on ops FLIGHT1CS (clerk_to k (K_sig3b c)) s
   | K_sig3b c \<Rightarrow> signal_on ops FLIGHT2CS (clerk_to k (K_finish c)) s
   | K_dec1 c t \<Rightarrow> Next (clerk_to k (K_mark1 c t) (s\<lparr>flight1Counter := flight1Counter s - 1\<rparr>))
   | K_mark1 c t \<Rightarrow> or_fails (map_option (clerk_to k (K_arr1 c t)) (set_customer c (\<lambda>x. x\<lparr>booked := 1\<rparr>) s))
   | K_arr1 c t \<Rightarrow> or_fails (map_option (clerk_to k (K_num1 c t)) (store_booked1 c s))
   | K_num1 c t \<Rightarrow> Next (clerk_to k (if t = 3 then K_dec2 c t else K_sig1 c) (s\<lparr>flight1BookedCounter := flight1BookedCounter s + 1\<rparr>))
   | K_dec2 c t \<Rightarrow> Next (clerk_to k (K_mark2 c t) (s\<lparr>flight2Counter := flight2Counter s - 1\<rparr>))
   | K_mark2 c t \<Rightarrow> or_fails (map_option (clerk_to k (K_arr2 c t)) (set_customer c (\<lambda>x. x\<lparr>booked := 1\<rparr>) s))
   | K_arr2 c t \<Rightarrow> or_fails (map_option (clerk_to k (K_num2 c t)) (store_booked2 c s))
   | K_num2 c t \<Rightarrow> Next (clerk_to k (if t = 3 then K_sig3a c else K_sig2 c) (s\<lparr>flight2BookedCounter := flight2BookedCounter s + 1\<rparr>))
   | K_finish c \<Rightarrow> signal_on ops (CUST_FINISHED c) (clerk_to k (K_clerk c)) s
   | K_clerk c \<Rightarrow> signal_on ops CLERK (clerk_to k K_open) s
   | K_end \<Rightarrow> signal_on ops CLERKTERMINATED (clerk_to k K_done) s
   | K_done \<Rightarrow> Waits)"

section \<open>Customers\<close>

text \<open>
  The choice of a flight with the random number \<open>r\<close> and the test for a place on it, without which the customer chooses again; the
  place is taken by the next statement.
\<close>

definition pick_flight :: "int \<Rightarrow> nat \<Rightarrow> int \<Rightarrow> 'm air \<Rightarrow> 'm air" where
  "pick_flight r p c s =
     (if r = 1 \<and> flight1Customers s > 0 then cust_to p (U_take c 1) s
      else if r = 2 \<and> flight2Customers s > 0 then cust_to p (U_take c 2) s
      else if r = 3 \<and> flight3Customers s > 0 then cust_to p (U_take c 3) s
      else s)"

definition take_place :: "int \<Rightarrow> 'm air \<Rightarrow> 'm air" where
  "take_place t s =
     (if t = 1 then s\<lparr>flight1Customers := flight1Customers s - 1\<rparr>
      else if t = 2 then s\<lparr>flight2Customers := flight2Customers s - 1\<rparr>
      else s\<lparr>flight3Customers := flight3Customers s - 1\<rparr>)"

definition cust_enqueue :: "nat \<Rightarrow> int \<Rightarrow> int \<Rightarrow> 'm air \<Rightarrow> 'm air option" where
  "cust_enqueue p c t s =
     (if queue_in s < length (cust_ready_queue s)
      then Some (cust_to p (U_qin c t) (s\<lparr>cust_ready_queue := (cust_ready_queue s)[queue_in s := c]\<rparr>))
      else None)"

definition cust_step :: "'m sem_ops \<Rightarrow> int \<Rightarrow> nat \<Rightarrow> 'm air \<Rightarrow> 'm air act" where
  "cust_step ops r p s = (case cust_pc s p of
     U_start \<Rightarrow> wait_on ops CUSTCOUNTERCS (cust_to p U_number) s
   | U_number \<Rightarrow> Next (cust_to p (U_count (custCounter s)) s)
   | U_count c \<Rightarrow> Next (cust_to p (U_pick c) (s\<lparr>custCounter := custCounter s + 1\<rparr>))
   | U_pick c \<Rightarrow> Next (pick_flight r p c s)
   | U_take c t \<Rightarrow> Next (cust_to p (U_sig c t) (take_place t s))
   | U_sig c t \<Rightarrow> signal_on ops CUSTCOUNTERCS (cust_to p (U_cap c t)) s
   | U_cap c t \<Rightarrow> wait_on ops CAPACITY (cust_to p (U_clerk c t)) s
   | U_clerk c t \<Rightarrow> wait_on ops CLERK (cust_to p (U_unbook c t)) s
   | U_unbook c t \<Rightarrow> or_fails (map_option (cust_to p (U_info c t)) (set_customer c (\<lambda>x. x\<lparr>booked := 0\<rparr>) s))
   | U_info c t \<Rightarrow> or_fails (map_option (cust_to p (U_qwait c t)) (set_customer c (\<lambda>x. x\<lparr>flightType := t\<rparr>) s))
   | U_qwait c t \<Rightarrow> wait_on ops CUSTQUEUECS (cust_to p (U_enq c t)) s
   | U_enq c t \<Rightarrow> or_fails (cust_enqueue p c t s)
   | U_qin c t \<Rightarrow> Next (cust_to p (U_qsig c t) (s\<lparr>queue_in := queue_in s + 1\<rparr>))
   | U_qsig c t \<Rightarrow> signal_on ops CUSTQUEUECS (cust_to p (U_ready c t)) s
   | U_ready c t \<Rightarrow> signal_on ops CUST_READY (cust_to p (U_fin c t)) s
   | U_fin c t \<Rightarrow> wait_on ops (CUST_FINISHED c) (cust_to p (U_capsig c t)) s
   | U_capsig c t \<Rightarrow> signal_on ops CAPACITY (cust_to p (U_term c t)) s
   | U_term c t \<Rightarrow> signal_on ops CUSTTERMINATED (cust_to p (U_done c t)) s
   | U_done c t \<Rightarrow> Waits)"

section \<open>The master\<close>

fun find_val :: "int list \<Rightarrow> int \<Rightarrow> int" where
  "find_val [] v = 0"
| "find_val (x # xs) v = (if x = v then 1 else find_val xs v)"

definition booking_right :: "'m air \<Rightarrow> customer \<Rightarrow> int \<Rightarrow> bool" where
  "booking_right s x c \<longleftrightarrow> booked x \<noteq> 0 \<longrightarrow>
     \<not> (flightType x = 1 \<and> find_val (flight1BookedArr s) c \<noteq> 1) \<and>
     \<not> (flightType x = 2 \<and> find_val (flight2BookedArr s) c \<noteq> 1) \<and>
     \<not> (flightType x = 3 \<and> find_val (flight1BookedArr s) c + find_val (flight2BookedArr s) c \<noteq> 2)"

text \<open>The array of counters by flight has three entries.\<close>

definition bookings_ok :: "air_config \<Rightarrow> 'm air \<Rightarrow> bool" where
  "bookings_ok cfg s \<longleftrightarrow> list_all (\<lambda>c. let x = customers s ! c in
     (booked x \<noteq> 0 \<longrightarrow> flightType x \<in> {1, 2, 3}) \<and> booking_right s x (int c)) [0..<numOfCustomers cfg]"

definition locks_back :: "'m sem_ops \<Rightarrow> air_config \<Rightarrow> 'm air \<Rightarrow> bool" where
  "locks_back ops cfg s \<longleftrightarrow>
     sem_count ops (sems s) CAPACITY = int (agentCapacity cfg) \<and>
     sem_count ops (sems s) FLIGHT1CS = 1 \<and> sem_count ops (sems s) FLIGHT2CS = 1 \<and>
     sem_count ops (sems s) CUSTCOUNTERCS = 1 \<and> sem_count ops (sems s) CUSTQUEUECS = 1"

definition all_idle :: "'m sem_ops \<Rightarrow> air_config \<Rightarrow> 'm air \<Rightarrow> bool" where
  "all_idle ops cfg s \<longleftrightarrow>
     sem_count ops (sems s) CLERK = 3 \<and> sem_count ops (sems s) CUST_READY = -3 \<and> sem_count ops (sems s) CUSTTERMINATED = 0 \<and>
     list_all (\<lambda>c. sem_count ops (sems s) (CUST_FINISHED (int c)) = 0) [0..<numOfCustomers cfg]"

definition master_step :: "'m sem_ops \<Rightarrow> air_config \<Rightarrow> 'm air \<Rightarrow> 'm air act" where
  "master_step ops cfg s = (case master s of
     M_wait i \<Rightarrow> (if i < numOfCustomers cfg then wait_on ops CUSTTERMINATED (master_to (M_wait (i + 1))) s else Next (master_to M_check s))
   | M_check \<Rightarrow> (if bookings_ok cfg s \<and> locks_back ops cfg s \<and> all_idle ops cfg s then Next (master_to M_shut s) else Fails)
   | M_shut \<Rightarrow> Next (master_to M_mark (s\<lparr>isOpened := False\<rparr>))
   | M_mark \<Rightarrow> (if numOfCustomers cfg < length (cust_ready_queue s)
       then Next (master_to (M_signal 0) (s\<lparr>cust_ready_queue := (cust_ready_queue s)[numOfCustomers cfg := -1]\<rparr>)) else Fails)
   | M_signal k \<Rightarrow> (if k < numOfClerks then signal_on ops CUST_READY (master_to (M_signal (k + 1))) s else Next (master_to (M_join 0) s))
   | M_join k \<Rightarrow> (if k < numOfClerks then wait_on ops CLERKTERMINATED (master_to (M_join (k + 1))) s
       else if sem_count ops (sems s) CLERKTERMINATED = 0 then Next (master_to M_done s) else Fails)
   | M_done \<Rightarrow> Waits)"

section \<open>The program\<close>

inductive air_step :: "'m sem_ops \<Rightarrow> air_config \<Rightarrow> 'm air \<Rightarrow> 'm air \<Rightarrow> bool" for ops cfg where
  a_clerk: "k < numOfClerks \<Longrightarrow> clerk_step ops k s = Next s' \<Longrightarrow> air_step ops cfg s s'"
| a_customer: "p < numOfCustomers cfg \<Longrightarrow> 1 \<le> r \<Longrightarrow> r < 4 \<Longrightarrow> cust_step ops r p s = Next s' \<Longrightarrow> air_step ops cfg s s'"
| a_master: "master_step ops cfg s = Next s' \<Longrightarrow> air_step ops cfg s s'"

text \<open>The start: what the arrays hold does not matter, only their lengths.\<close>

definition air_start :: "'m sem_ops \<Rightarrow> air_config \<Rightarrow> 'm air \<Rightarrow> bool" where
  "air_start ops cfg s \<longleftrightarrow>
     (\<forall>x. sem_permits ops (sems s) x = (case x of
        CAPACITY \<Rightarrow> agentCapacity cfg | CLERK \<Rightarrow> 3 | FLIGHT1CS \<Rightarrow> 1 | FLIGHT2CS \<Rightarrow> 1 | CUSTCOUNTERCS \<Rightarrow> 1 | CUSTQUEUECS \<Rightarrow> 1 | _ \<Rightarrow> 0)) \<and>
     length (customers s) = numOfCustomers cfg + 1 \<and> custCounter s = 0 \<and>
     flight1Customers s = int (numOfCustomers cfg div 3) \<and> flight2Customers s = int (numOfCustomers cfg div 3) \<and>
     flight3Customers s = int (numOfCustomers cfg) - (flight1Customers s + flight2Customers s) \<and>
     flight1Counter s = int (flight1NumOfTickets cfg) \<and> flight2Counter s = int (flight2NumOfTickets cfg) \<and>
     length (flight1BookedArr s) = flight1NumOfTickets cfg \<and> length (flight2BookedArr s) = flight2NumOfTickets cfg \<and>
     flight1BookedCounter s = 0 \<and> flight2BookedCounter s = 0 \<and>
     length (cust_ready_queue s) = numOfCustomers cfg + 1 \<and> queue_in s = 0 \<and> queue_out s = 0 \<and> isOpened s \<and>
     master s = M_wait 0 \<and> (\<forall>k. clerk_pc s k = K_open) \<and> (\<forall>p. cust_pc s p = U_start)"

end
