(* ===== verification/FOS_AirInv.thy ===== *)
theory FOS_AirInv
  imports FOS_Air
begin

text \<open>
  Invariants of the reservation program: how many processes are at which places, what the semaphores grant, the queue of requests and the bookings.
  Each group of invariants is kept by the steps of clerks, of customers and of the master.
\<close>

section \<open>Steps\<close>

definition pm :: "'m sem_ops \<Rightarrow> 'm air \<Rightarrow> asem \<Rightarrow> int" where
  "pm ops s x = int (sem_permits ops (sems s) x)"

lemma pm_nonneg [simp]: "0 \<le> pm ops s x"
  by (simp add: pm_def)

text \<open>The state after a wait or a signal: \<open>moved ops x d s t\<close> says that \<open>t\<close> is \<open>s\<close> with \<open>d\<close> more permits of \<open>x\<close>.\<close>

definition moved :: "'m sem_ops \<Rightarrow> asem \<Rightarrow> int \<Rightarrow> 'm air \<Rightarrow> 'm air \<Rightarrow> bool" where
  "moved ops x d s t \<longleftrightarrow> (\<exists>m. t = s\<lparr>sems := m\<rparr>) \<and> (\<forall>y. pm ops t y = (if y = x then pm ops s x + d else pm ops s y))"

lemma moved_sel:
  assumes "moved ops x d s t"
  shows "customers t = customers s" "custCounter t = custCounter s" "flight1Customers t = flight1Customers s"
    "flight2Customers t = flight2Customers s" "flight3Customers t = flight3Customers s" "flight1Counter t = flight1Counter s"
    "flight2Counter t = flight2Counter s" "flight1BookedArr t = flight1BookedArr s" "flight2BookedArr t = flight2BookedArr s"
    "flight1BookedCounter t = flight1BookedCounter s" "flight2BookedCounter t = flight2BookedCounter s"
    "cust_ready_queue t = cust_ready_queue s" "queue_in t = queue_in s" "queue_out t = queue_out s" "isOpened t = isOpened s"
    "master t = master s" "clerk_pc t = clerk_pc s" "cust_pc t = cust_pc s"
    "pm ops t y = (if y = x then pm ops s x + d else pm ops s y)"
  using assms by (auto simp: moved_def)

lemma wait_on_Next:
  assumes "sem_laws ops" "wait_on ops x f s = Next s'"
  obtains t where "s' = f t" "moved ops x (-1) s t" "0 < pm ops s x"
proof -
  from assms(2) obtain m where m: "sem_wait ops x (sems s) = Some m" "s' = f (s\<lparr>sems := m\<rparr>)"
    by (auto simp: wait_on_def split: option.splits)
  have pos: "0 < sem_permits ops (sems s) x" and p: "sem_permits ops m = (sem_permits ops (sems s))(x := sem_permits ops (sems s) x - 1)"
    using assms(1) m(1) unfolding sem_laws_def by (metis gr0I option.distinct(1), metis)
  have "moved ops x (-1) s (s\<lparr>sems := m\<rparr>)" using pos p by (auto simp: moved_def pm_def of_nat_diff)
  then show thesis using m(2) pos by (intro that [of "s\<lparr>sems := m\<rparr>"]) (simp_all add: pm_def)
qed

lemma wait_on_Waits:
  assumes "sem_laws ops"
  shows "wait_on ops x f s = Waits \<longleftrightarrow> pm ops s x = 0"
proof -
  have "sem_wait ops x (sems s) = None \<longleftrightarrow> sem_permits ops (sems s) x = 0" using assms by (simp add: sem_laws_def)
  then show ?thesis by (cases "sem_wait ops x (sems s)") (simp_all add: wait_on_def pm_def)
qed

lemma wait_on_Fails [simp]: "wait_on ops x f s \<noteq> Fails"
  by (simp add: wait_on_def split: option.splits)

lemma signal_on_Next:
  assumes "sem_laws ops" "signal_on ops x f s = Next s'"
  obtains t where "s' = f t" "moved ops x 1 s t"
proof -
  have "sem_permits ops (sem_signal ops x (sems s)) = (sem_permits ops (sems s))(x := sem_permits ops (sems s) x + 1)"
    using assms(1) by (simp add: sem_laws_def)
  then have "moved ops x 1 s (s\<lparr>sems := sem_signal ops x (sems s)\<rparr>)" by (auto simp: moved_def pm_def)
  then show thesis using assms(2) by (intro that) (auto simp: signal_on_def)
qed

lemma signal_on_other [simp]: "signal_on ops x f s \<noteq> Waits" "signal_on ops x f s \<noteq> Fails"
  by (simp_all add: signal_on_def)

lemma to_sel [simp]:
  "sems (clerk_to k c s) = sems s" "customers (clerk_to k c s) = customers s" "custCounter (clerk_to k c s) = custCounter s"
  "flight1Customers (clerk_to k c s) = flight1Customers s" "flight2Customers (clerk_to k c s) = flight2Customers s"
  "flight3Customers (clerk_to k c s) = flight3Customers s" "flight1Counter (clerk_to k c s) = flight1Counter s"
  "flight2Counter (clerk_to k c s) = flight2Counter s" "flight1BookedArr (clerk_to k c s) = flight1BookedArr s"
  "flight2BookedArr (clerk_to k c s) = flight2BookedArr s" "flight1BookedCounter (clerk_to k c s) = flight1BookedCounter s"
  "flight2BookedCounter (clerk_to k c s) = flight2BookedCounter s" "cust_ready_queue (clerk_to k c s) = cust_ready_queue s"
  "queue_in (clerk_to k c s) = queue_in s" "queue_out (clerk_to k c s) = queue_out s" "isOpened (clerk_to k c s) = isOpened s"
  "master (clerk_to k c s) = master s" "clerk_pc (clerk_to k c s) = (clerk_pc s)(k := c)" "cust_pc (clerk_to k c s) = cust_pc s"
  "sems (cust_to p u s) = sems s" "customers (cust_to p u s) = customers s" "custCounter (cust_to p u s) = custCounter s"
  "flight1Customers (cust_to p u s) = flight1Customers s" "flight2Customers (cust_to p u s) = flight2Customers s"
  "flight3Customers (cust_to p u s) = flight3Customers s" "flight1Counter (cust_to p u s) = flight1Counter s"
  "flight2Counter (cust_to p u s) = flight2Counter s" "flight1BookedArr (cust_to p u s) = flight1BookedArr s"
  "flight2BookedArr (cust_to p u s) = flight2BookedArr s" "flight1BookedCounter (cust_to p u s) = flight1BookedCounter s"
  "flight2BookedCounter (cust_to p u s) = flight2BookedCounter s" "cust_ready_queue (cust_to p u s) = cust_ready_queue s"
  "queue_in (cust_to p u s) = queue_in s" "queue_out (cust_to p u s) = queue_out s" "isOpened (cust_to p u s) = isOpened s"
  "master (cust_to p u s) = master s" "clerk_pc (cust_to p u s) = clerk_pc s" "cust_pc (cust_to p u s) = (cust_pc s)(p := u)"
  "sems (master_to a s) = sems s" "customers (master_to a s) = customers s" "custCounter (master_to a s) = custCounter s"
  "flight1Customers (master_to a s) = flight1Customers s" "flight2Customers (master_to a s) = flight2Customers s"
  "flight3Customers (master_to a s) = flight3Customers s" "flight1Counter (master_to a s) = flight1Counter s"
  "flight2Counter (master_to a s) = flight2Counter s" "flight1BookedArr (master_to a s) = flight1BookedArr s"
  "flight2BookedArr (master_to a s) = flight2BookedArr s" "flight1BookedCounter (master_to a s) = flight1BookedCounter s"
  "flight2BookedCounter (master_to a s) = flight2BookedCounter s" "cust_ready_queue (master_to a s) = cust_ready_queue s"
  "queue_in (master_to a s) = queue_in s" "queue_out (master_to a s) = queue_out s" "isOpened (master_to a s) = isOpened s"
  "master (master_to a s) = a" "clerk_pc (master_to a s) = clerk_pc s" "cust_pc (master_to a s) = cust_pc s"
  by (simp_all add: clerk_to_def cust_to_def master_to_def)

lemma pm_sel [simp]:
  "pm ops (clerk_to k c s) x = pm ops s x" "pm ops (cust_to p u s) x = pm ops s x" "pm ops (master_to a s) x = pm ops s x"
  by (simp_all add: pm_def)

lemma pm_upd [simp]:
  "pm ops (s\<lparr>customers := v1\<rparr>) x = pm ops s x" "pm ops (s\<lparr>custCounter := v2\<rparr>) x = pm ops s x"
  "pm ops (s\<lparr>flight1Customers := v3\<rparr>) x = pm ops s x" "pm ops (s\<lparr>flight2Customers := v3\<rparr>) x = pm ops s x"
  "pm ops (s\<lparr>flight3Customers := v3\<rparr>) x = pm ops s x" "pm ops (s\<lparr>flight1Counter := v3\<rparr>) x = pm ops s x"
  "pm ops (s\<lparr>flight2Counter := v3\<rparr>) x = pm ops s x" "pm ops (s\<lparr>flight1BookedArr := v4\<rparr>) x = pm ops s x"
  "pm ops (s\<lparr>flight2BookedArr := v4\<rparr>) x = pm ops s x" "pm ops (s\<lparr>flight1BookedCounter := v5\<rparr>) x = pm ops s x"
  "pm ops (s\<lparr>flight2BookedCounter := v5\<rparr>) x = pm ops s x" "pm ops (s\<lparr>cust_ready_queue := v6\<rparr>) x = pm ops s x"
  "pm ops (s\<lparr>queue_in := v7\<rparr>) x = pm ops s x" "pm ops (s\<lparr>queue_out := v7\<rparr>) x = pm ops s x" "pm ops (s\<lparr>isOpened := v8\<rparr>) x = pm ops s x"
  by (simp_all add: pm_def)

section \<open>Who is where\<close>

fun k_queue :: "clerk_at \<Rightarrow> bool" where
  "k_queue K_take = True" | "k_queue K_none = True" | "k_queue (K_next c) = True" | "k_queue (K_left c) = True" | "k_queue _ = False"

fun k_mid1 :: "clerk_at \<Rightarrow> bool" where
  "k_mid1 (K_mark1 c t) = True" | "k_mid1 (K_arr1 c t) = True" | "k_mid1 (K_num1 c t) = True" | "k_mid1 _ = False"

fun k_mid2 :: "clerk_at \<Rightarrow> bool" where
  "k_mid2 (K_mark2 c t) = True" | "k_mid2 (K_arr2 c t) = True" | "k_mid2 (K_num2 c t) = True" | "k_mid2 _ = False"

fun k_f1 :: "clerk_at \<Rightarrow> bool" where
  "k_f1 (K_try1 c) = True" | "k_f1 (K_sig1 c) = True" | "k_f1 (K_wait3b c) = True" | "k_f1 (K_try3 c) = True" | "k_f1 (K_sig3a c) = True"
| "k_f1 (K_dec1 c t) = True" | "k_f1 (K_mark1 c t) = True" | "k_f1 (K_arr1 c t) = True" | "k_f1 (K_num1 c t) = True"
| "k_f1 (K_dec2 c t) = (t = 3)" | "k_f1 (K_mark2 c t) = (t = 3)" | "k_f1 (K_arr2 c t) = (t = 3)" | "k_f1 (K_num2 c t) = (t = 3)"
| "k_f1 _ = False"

fun k_f2 :: "clerk_at \<Rightarrow> bool" where
  "k_f2 (K_try2 c) = True" | "k_f2 (K_sig2 c) = True" | "k_f2 (K_try3 c) = True" | "k_f2 (K_sig3a c) = True" | "k_f2 (K_sig3b c) = True"
| "k_f2 (K_dec1 c t) = (t = 3)" | "k_f2 (K_mark1 c t) = (t = 3)" | "k_f2 (K_arr1 c t) = (t = 3)" | "k_f2 (K_num1 c t) = (t = 3)"
| "k_f2 (K_dec2 c t) = True" | "k_f2 (K_mark2 c t) = True" | "k_f2 (K_arr2 c t) = True" | "k_f2 (K_num2 c t) = True"
| "k_f2 _ = False"

fun u_counter :: "customer_at \<Rightarrow> bool" where
  "u_counter U_number = True" | "u_counter (U_count c) = True" | "u_counter (U_pick c) = True" | "u_counter (U_take c t) = True"
| "u_counter (U_sig c t) = True"
| "u_counter _ = False"

fun u_queue :: "customer_at \<Rightarrow> bool" where
  "u_queue (U_enq c t) = True" | "u_queue (U_qin c t) = True" | "u_queue (U_qsig c t) = True" | "u_queue _ = False"

fun u_inside :: "customer_at \<Rightarrow> bool" where
  "u_inside (U_clerk c t) = True" | "u_inside (U_unbook c t) = True" | "u_inside (U_info c t) = True" | "u_inside (U_qwait c t) = True"
| "u_inside (U_enq c t) = True" | "u_inside (U_qin c t) = True" | "u_inside (U_qsig c t) = True" | "u_inside (U_ready c t) = True"
| "u_inside (U_fin c t) = True" | "u_inside (U_capsig c t) = True" | "u_inside _ = False"

fun u_done :: "customer_at \<Rightarrow> bool" where
  "u_done (U_done c t) = True" | "u_done _ = False"

definition waited :: "air_config \<Rightarrow> master_at \<Rightarrow> int" where
  "waited cfg a = (case a of M_wait i \<Rightarrow> int i | _ \<Rightarrow> int (numOfCustomers cfg))"

definition master_ok :: "air_config \<Rightarrow> master_at \<Rightarrow> bool" where
  "master_ok cfg a = (case a of M_wait i \<Rightarrow> i \<le> numOfCustomers cfg | M_signal k \<Rightarrow> k \<le> 3 | M_join k \<Rightarrow> k \<le> 3 | _ \<Rightarrow> True)"

abbreviation clerks_at :: "(clerk_at \<Rightarrow> bool) \<Rightarrow> 'm air \<Rightarrow> int" where
  "clerks_at P s \<equiv> cnt P (clerk_pc s) numOfClerks"

abbreviation custs_at :: "(customer_at \<Rightarrow> bool) \<Rightarrow> air_config \<Rightarrow> 'm air \<Rightarrow> int" where
  "custs_at P cfg s \<equiv> cnt P (cust_pc s) (numOfCustomers cfg)"

section \<open>Locks\<close>

text \<open>A clerk that books both flights has the flight type 3 when it holds both locks.\<close>

fun k_type_ok :: "clerk_at \<Rightarrow> bool" where
  "k_type_ok (K_dec1 c t) = (t \<in> {1, 3})" | "k_type_ok (K_mark1 c t) = (t \<in> {1, 3})" | "k_type_ok (K_arr1 c t) = (t \<in> {1, 3})"
| "k_type_ok (K_num1 c t) = (t \<in> {1, 3})" | "k_type_ok (K_dec2 c t) = (t \<in> {2, 3})" | "k_type_ok (K_mark2 c t) = (t \<in> {2, 3})"
| "k_type_ok (K_arr2 c t) = (t \<in> {2, 3})" | "k_type_ok (K_num2 c t) = (t \<in> {2, 3})" | "k_type_ok _ = True"

definition inv_locks :: "'m sem_ops \<Rightarrow> air_config \<Rightarrow> 'm air \<Rightarrow> bool" where
  "inv_locks ops cfg s \<longleftrightarrow>
     pm ops s CUSTCOUNTERCS + custs_at u_counter cfg s = 1 \<and>
     pm ops s CUSTQUEUECS + custs_at u_queue cfg s + clerks_at k_queue s = 1 \<and>
     pm ops s FLIGHT1CS + clerks_at k_f1 s = 1 \<and>
     pm ops s FLIGHT2CS + clerks_at k_f2 s = 1 \<and>
     pm ops s CAPACITY + custs_at u_inside cfg s = int (agentCapacity cfg) \<and>
     pm ops s CUSTTERMINATED + waited cfg (master s) = custs_at u_done cfg s \<and>
     master_ok cfg (master s) \<and> (\<forall>k < numOfClerks. k_type_ok (clerk_pc s k))"

lemma inv_locks_clerk:
  assumes L: "sem_laws ops" and k: "k < numOfClerks" and step: "clerk_step ops k s = Next s'" and i: "inv_locks ops cfg s"
  shows "inv_locks ops cfg s'"
proof -
  have ty: "k_type_ok (clerk_pc s k)" using i k by (simp add: inv_locks_def)
  show ?thesis
    using step
    by (cases "clerk_pc s k"; simp add: clerk_step_def; (elim wait_on_Next [OF L] signal_on_Next [OF L])?;
      use i k ty in \<open>force simp: inv_locks_def cnt_upd moved_sel or_fails_Next clerk_take_def clerk_switch_def set_customer_def
        store_booked1_def store_booked2_def Let_def split: if_splits\<close>)
qed

lemma inv_locks_customer:
  assumes L: "sem_laws ops" and p: "p < numOfCustomers cfg" and step: "cust_step ops r p s = Next s'" and i: "inv_locks ops cfg s"
  shows "inv_locks ops cfg s'"
  using step
  by (cases "cust_pc s p"; simp add: cust_step_def; (elim wait_on_Next [OF L] signal_on_Next [OF L])?;
    use i p in \<open>force simp: inv_locks_def cnt_upd moved_sel or_fails_Next set_customer_def cust_enqueue_def pick_flight_def take_place_def split: if_splits\<close>)

lemma inv_locks_master:
  assumes L: "sem_laws ops" and step: "master_step ops cfg s = Next s'" and i: "inv_locks ops cfg s"
  shows "inv_locks ops cfg s'"
  using step
  by (cases "master s"; simp add: master_step_def split: if_splits; (elim wait_on_Next [OF L] signal_on_Next [OF L])?;
    use i in \<open>force simp: inv_locks_def moved_sel waited_def master_ok_def numOfClerks_def\<close>)

text \<open>What the counts say: at most one process in a critical section.\<close>

lemma one_clerk:
  assumes "0 \<le> p" "0 \<le> u" "p + u + clerks_at P s = 1" "j < numOfClerks" "k < numOfClerks" "P (clerk_pc s j)" "P (clerk_pc s k)"
  shows "j = k"
  using cnt_two [OF assms(4,5), of P "clerk_pc s"] assms(1-3,6,7) by fastforce

lemma mutex:
  assumes "inv_locks ops cfg s"
  shows "\<And>j k. j < numOfClerks \<Longrightarrow> k < numOfClerks \<Longrightarrow> k_f1 (clerk_pc s j) \<Longrightarrow> k_f1 (clerk_pc s k) \<Longrightarrow> j = k"
    "\<And>j k. j < numOfClerks \<Longrightarrow> k < numOfClerks \<Longrightarrow> k_f2 (clerk_pc s j) \<Longrightarrow> k_f2 (clerk_pc s k) \<Longrightarrow> j = k"
    "\<And>j k. j < numOfClerks \<Longrightarrow> k < numOfClerks \<Longrightarrow> k_queue (clerk_pc s j) \<Longrightarrow> k_queue (clerk_pc s k) \<Longrightarrow> j = k"
    "\<And>p q. p < numOfCustomers cfg \<Longrightarrow> q < numOfCustomers cfg \<Longrightarrow> u_queue (cust_pc s p) \<Longrightarrow> u_queue (cust_pc s q) \<Longrightarrow> p = q"
    "\<And>p k. p < numOfCustomers cfg \<Longrightarrow> k < numOfClerks \<Longrightarrow> u_queue (cust_pc s p) \<Longrightarrow> \<not> k_queue (clerk_pc s k)"
    "\<And>p q. p < numOfCustomers cfg \<Longrightarrow> q < numOfCustomers cfg \<Longrightarrow> u_counter (cust_pc s p) \<Longrightarrow> u_counter (cust_pc s q) \<Longrightarrow> p = q"
proof -
  have i: "pm ops s CUSTCOUNTERCS + custs_at u_counter cfg s = 1"
    "pm ops s CUSTQUEUECS + custs_at u_queue cfg s + clerks_at k_queue s = 1"
    "pm ops s FLIGHT1CS + clerks_at k_f1 s = 1" "pm ops s FLIGHT2CS + clerks_at k_f2 s = 1"
    using assms by (simp_all add: inv_locks_def)
  have n: "0 \<le> pm ops s x" "0 \<le> clerks_at P s" "0 \<le> custs_at Q cfg s" for x P Q by simp_all
  show "j = k" if "j < numOfClerks" "k < numOfClerks" "k_f1 (clerk_pc s j)" "k_f1 (clerk_pc s k)" for j k
    using one_clerk [OF n(1) order.refl _ that, of FLIGHT1CS] i(3) by simp
  show "j = k" if "j < numOfClerks" "k < numOfClerks" "k_f2 (clerk_pc s j)" "k_f2 (clerk_pc s k)" for j k
    using one_clerk [OF n(1) order.refl _ that, of FLIGHT2CS] i(4) by simp
  show "j = k" if "j < numOfClerks" "k < numOfClerks" "k_queue (clerk_pc s j)" "k_queue (clerk_pc s k)" for j k
    using one_clerk [OF n(1,3) _ that, of CUSTQUEUECS] i(2) by simp
  show "p = q" if "p < numOfCustomers cfg" "q < numOfCustomers cfg" "u_queue (cust_pc s p)" "u_queue (cust_pc s q)" for p q
    using cnt_two [of p "numOfCustomers cfg" q u_queue "cust_pc s"] that i(2) n(1) [of CUSTQUEUECS] n(2) [of k_queue] by fastforce
  show "\<not> k_queue (clerk_pc s k)" if "p < numOfCustomers cfg" "k < numOfClerks" "u_queue (cust_pc s p)" for p k
    using cnt_pos [of p "numOfCustomers cfg" u_queue "cust_pc s"] cnt_pos [of k numOfClerks k_queue "clerk_pc s"] that i(2) n(1) [of CUSTQUEUECS] by linarith
  show "p = q" if "p < numOfCustomers cfg" "q < numOfCustomers cfg" "u_counter (cust_pc s p)" "u_counter (cust_pc s q)" for p q
    using cnt_two [of p "numOfCustomers cfg" q u_counter "cust_pc s"] that i(1) n(1) [of CUSTCOUNTERCS] by fastforce
qed

end
