(* ===== verification/FOS_AirQueue.thy ===== *)
theory FOS_AirQueue
  imports FOS_AirInv
begin

text \<open>Numbers of customers, the queue of requests, and who waits for whom in the reservation program.\<close>

section \<open>What a step leaves alone\<close>

lemma clerk_step_frame:
  assumes L: "sem_laws ops" and step: "clerk_step ops k s = Next s'"
  shows "cust_pc s' = cust_pc s" "custCounter s' = custCounter s" "flight1Customers s' = flight1Customers s"
    "flight2Customers s' = flight2Customers s" "flight3Customers s' = flight3Customers s" "master s' = master s"
    "isOpened s' = isOpened s" "queue_in s' = queue_in s" "cust_ready_queue s' = cust_ready_queue s"
    "length (customers s') = length (customers s)"
proof -
  have "cust_pc s' = cust_pc s \<and> custCounter s' = custCounter s \<and> flight1Customers s' = flight1Customers s \<and>
    flight2Customers s' = flight2Customers s \<and> flight3Customers s' = flight3Customers s \<and> master s' = master s \<and>
    isOpened s' = isOpened s \<and> queue_in s' = queue_in s \<and> cust_ready_queue s' = cust_ready_queue s \<and>
    length (customers s') = length (customers s)"
    using step
    by (cases "clerk_pc s k"; simp add: clerk_step_def; (elim wait_on_Next [OF L] signal_on_Next [OF L])?;
      force simp: moved_sel or_fails_Next clerk_take_def clerk_switch_def set_customer_def store_booked1_def store_booked2_def Let_def
        split: if_splits)
  then show "cust_pc s' = cust_pc s" "custCounter s' = custCounter s" "flight1Customers s' = flight1Customers s"
    "flight2Customers s' = flight2Customers s" "flight3Customers s' = flight3Customers s" "master s' = master s"
    "isOpened s' = isOpened s" "queue_in s' = queue_in s" "cust_ready_queue s' = cust_ready_queue s"
    "length (customers s') = length (customers s)" by simp_all
qed

lemma master_step_frame:
  assumes L: "sem_laws ops" and step: "master_step ops cfg s = Next s'"
  shows "cust_pc s' = cust_pc s" "clerk_pc s' = clerk_pc s" "custCounter s' = custCounter s" "flight1Customers s' = flight1Customers s"
    "flight2Customers s' = flight2Customers s" "flight3Customers s' = flight3Customers s" "customers s' = customers s"
    "queue_in s' = queue_in s" "queue_out s' = queue_out s" "flight1Counter s' = flight1Counter s" "flight2Counter s' = flight2Counter s"
    "flight1BookedArr s' = flight1BookedArr s" "flight2BookedArr s' = flight2BookedArr s"
    "flight1BookedCounter s' = flight1BookedCounter s" "flight2BookedCounter s' = flight2BookedCounter s"
    "pm ops s' (CUST_FINISHED c) = pm ops s (CUST_FINISHED c)"
proof -
  have "cust_pc s' = cust_pc s \<and> clerk_pc s' = clerk_pc s \<and> custCounter s' = custCounter s \<and> flight1Customers s' = flight1Customers s \<and>
    flight2Customers s' = flight2Customers s \<and> flight3Customers s' = flight3Customers s \<and> customers s' = customers s \<and>
    queue_in s' = queue_in s \<and> queue_out s' = queue_out s \<and> flight1Counter s' = flight1Counter s \<and> flight2Counter s' = flight2Counter s \<and>
    flight1BookedArr s' = flight1BookedArr s \<and> flight2BookedArr s' = flight2BookedArr s \<and>
    flight1BookedCounter s' = flight1BookedCounter s \<and> flight2BookedCounter s' = flight2BookedCounter s \<and>
    pm ops s' (CUST_FINISHED c) = pm ops s (CUST_FINISHED c)"
    using step
    by (cases "master s"; simp add: master_step_def split: if_splits; (elim wait_on_Next [OF L] signal_on_Next [OF L])?;
      force simp: moved_sel)
  then show "cust_pc s' = cust_pc s" "clerk_pc s' = clerk_pc s" "custCounter s' = custCounter s" "flight1Customers s' = flight1Customers s"
    "flight2Customers s' = flight2Customers s" "flight3Customers s' = flight3Customers s" "customers s' = customers s"
    "queue_in s' = queue_in s" "queue_out s' = queue_out s" "flight1Counter s' = flight1Counter s" "flight2Counter s' = flight2Counter s"
    "flight1BookedArr s' = flight1BookedArr s" "flight2BookedArr s' = flight2BookedArr s"
    "flight1BookedCounter s' = flight1BookedCounter s" "flight2BookedCounter s' = flight2BookedCounter s"
    "pm ops s' (CUST_FINISHED c) = pm ops s (CUST_FINISHED c)" by simp_all
qed

lemma cust_step_frame:
  assumes L: "sem_laws ops" and step: "cust_step ops r p s = Next s'"
  shows "clerk_pc s' = clerk_pc s" "master s' = master s" "isOpened s' = isOpened s" "queue_out s' = queue_out s"
    "flight1Counter s' = flight1Counter s" "flight2Counter s' = flight2Counter s" "flight1BookedArr s' = flight1BookedArr s"
    "flight2BookedArr s' = flight2BookedArr s" "flight1BookedCounter s' = flight1BookedCounter s"
    "flight2BookedCounter s' = flight2BookedCounter s" "length (customers s') = length (customers s)"
    "length (cust_ready_queue s') = length (cust_ready_queue s)"
proof -
  have "clerk_pc s' = clerk_pc s \<and> master s' = master s \<and> isOpened s' = isOpened s \<and> queue_out s' = queue_out s \<and>
    flight1Counter s' = flight1Counter s \<and> flight2Counter s' = flight2Counter s \<and> flight1BookedArr s' = flight1BookedArr s \<and>
    flight2BookedArr s' = flight2BookedArr s \<and> flight1BookedCounter s' = flight1BookedCounter s \<and>
    flight2BookedCounter s' = flight2BookedCounter s \<and> length (customers s') = length (customers s) \<and>
    length (cust_ready_queue s') = length (cust_ready_queue s)"
    using step
    by (cases "cust_pc s p"; simp add: cust_step_def; (elim wait_on_Next [OF L] signal_on_Next [OF L])?;
      force simp: moved_sel or_fails_Next set_customer_def cust_enqueue_def pick_flight_def take_place_def split: if_splits)
  then show "clerk_pc s' = clerk_pc s" "master s' = master s" "isOpened s' = isOpened s" "queue_out s' = queue_out s"
    "flight1Counter s' = flight1Counter s" "flight2Counter s' = flight2Counter s" "flight1BookedArr s' = flight1BookedArr s"
    "flight2BookedArr s' = flight2BookedArr s" "flight1BookedCounter s' = flight1BookedCounter s"
    "flight2BookedCounter s' = flight2BookedCounter s" "length (customers s') = length (customers s)"
    "length (cust_ready_queue s') = length (cust_ready_queue s)" by simp_all
qed

section \<open>Numbers of customers and their choice of flights\<close>

fun u_id :: "customer_at \<Rightarrow> int option" where
  "u_id U_start = None" | "u_id U_number = None" | "u_id (U_count c) = None" | "u_id (U_pick c) = Some c" | "u_id (U_take c t) = Some c"
| "u_id (U_sig c t) = Some c"
| "u_id (U_cap c t) = Some c" | "u_id (U_clerk c t) = Some c" | "u_id (U_unbook c t) = Some c" | "u_id (U_info c t) = Some c"
| "u_id (U_qwait c t) = Some c" | "u_id (U_enq c t) = Some c" | "u_id (U_qin c t) = Some c" | "u_id (U_qsig c t) = Some c"
| "u_id (U_ready c t) = Some c" | "u_id (U_fin c t) = Some c" | "u_id (U_capsig c t) = Some c" | "u_id (U_term c t) = Some c"
| "u_id (U_done c t) = Some c"

fun u_flight :: "customer_at \<Rightarrow> int option" where
  "u_flight U_start = None" | "u_flight U_number = None" | "u_flight (U_count c) = None" | "u_flight (U_pick c) = None"
| "u_flight (U_take c t) = None"
| "u_flight (U_sig c t) = Some t" | "u_flight (U_cap c t) = Some t" | "u_flight (U_clerk c t) = Some t" | "u_flight (U_unbook c t) = Some t"
| "u_flight (U_info c t) = Some t" | "u_flight (U_qwait c t) = Some t" | "u_flight (U_enq c t) = Some t" | "u_flight (U_qin c t) = Some t"
| "u_flight (U_qsig c t) = Some t" | "u_flight (U_ready c t) = Some t" | "u_flight (U_fin c t) = Some t" | "u_flight (U_capsig c t) = Some t"
| "u_flight (U_term c t) = Some t" | "u_flight (U_done c t) = Some t"

definition has_id :: "customer_at \<Rightarrow> bool" where "has_id u \<longleftrightarrow> u_id u \<noteq> None"
definition has_flight :: "customer_at \<Rightarrow> bool" where "has_flight u \<longleftrightarrow> u_flight u \<noteq> None"

text \<open>A customer that is about to take a place has found it free.\<close>

definition place_free :: "int \<Rightarrow> 'm air \<Rightarrow> bool" where
  "place_free t s \<longleftrightarrow> t = 1 \<and> 0 < flight1Customers s \<or> t = 2 \<and> 0 < flight2Customers s \<or> t = 3 \<and> 0 < flight3Customers s"

definition inv_ids :: "air_config \<Rightarrow> 'm air \<Rightarrow> bool" where
  "inv_ids cfg s \<longleftrightarrow>
     custCounter s = custs_at has_id cfg s \<and>
     (\<forall>p < numOfCustomers cfg. \<forall>c. u_id (cust_pc s p) = Some c \<longrightarrow> 0 \<le> c \<and> c < custCounter s) \<and>
     (\<forall>p < numOfCustomers cfg. \<forall>q < numOfCustomers cfg. \<forall>c. u_id (cust_pc s p) = Some c \<longrightarrow> u_id (cust_pc s q) = Some c \<longrightarrow> p = q) \<and>
     (\<forall>p < numOfCustomers cfg. \<forall>c. cust_pc s p = U_count c \<longrightarrow> c = custCounter s) \<and>
     0 \<le> flight1Customers s \<and> 0 \<le> flight2Customers s \<and> 0 \<le> flight3Customers s \<and>
     flight1Customers s + flight2Customers s + flight3Customers s + custs_at has_flight cfg s = int (numOfCustomers cfg) \<and>
     (\<forall>p < numOfCustomers cfg. \<forall>t. u_flight (cust_pc s p) = Some t \<longrightarrow> t = 1 \<or> t = 2 \<or> t = 3) \<and>
     (\<forall>p < numOfCustomers cfg. \<forall>c t. cust_pc s p = U_take c t \<longrightarrow> place_free t s)"

lemma inv_idsD:
  assumes "inv_ids cfg s"
  shows "custCounter s = custs_at has_id cfg s"
    "\<And>p c. p < numOfCustomers cfg \<Longrightarrow> u_id (cust_pc s p) = Some c \<Longrightarrow> 0 \<le> c"
    "\<And>p c. p < numOfCustomers cfg \<Longrightarrow> u_id (cust_pc s p) = Some c \<Longrightarrow> c < custCounter s"
    "\<And>p q c. p < numOfCustomers cfg \<Longrightarrow> q < numOfCustomers cfg \<Longrightarrow> u_id (cust_pc s p) = Some c \<Longrightarrow> u_id (cust_pc s q) = Some c \<Longrightarrow> p = q"
    "\<And>p c. p < numOfCustomers cfg \<Longrightarrow> cust_pc s p = U_count c \<Longrightarrow> c = custCounter s"
    "0 \<le> flight1Customers s" "0 \<le> flight2Customers s" "0 \<le> flight3Customers s"
    "flight1Customers s + flight2Customers s + flight3Customers s + custs_at has_flight cfg s = int (numOfCustomers cfg)"
    "\<And>p t. p < numOfCustomers cfg \<Longrightarrow> u_flight (cust_pc s p) = Some t \<Longrightarrow> t = 1 \<or> t = 2 \<or> t = 3"
    "\<And>p c t. p < numOfCustomers cfg \<Longrightarrow> cust_pc s p = U_take c t \<Longrightarrow> place_free t s"
  using assms unfolding inv_ids_def by blast+

lemma inv_ids_cong:
  assumes "cust_pc s' = cust_pc s" "custCounter s' = custCounter s" "flight1Customers s' = flight1Customers s"
    "flight2Customers s' = flight2Customers s" "flight3Customers s' = flight3Customers s"
  shows "inv_ids cfg s' = inv_ids cfg s"
  using assms by (simp add: inv_ids_def place_free_def)

lemma inv_ids_move:
  assumes i: "inv_ids cfg s" and p: "p < numOfCustomers cfg"
    and same: "cust_pc t = cust_pc s" "custCounter t = custCounter s" "flight1Customers t = flight1Customers s"
      "flight2Customers t = flight2Customers s" "flight3Customers t = flight3Customers s"
    and u: "u_id u = u_id (cust_pc s p)" "u_flight u = u_flight (cust_pc s p)" "\<forall>c. u = U_count c \<longrightarrow> c = custCounter s"
      "\<forall>c t. u = U_take c t \<longrightarrow> place_free t s"
  shows "inv_ids cfg (cust_to p u t)"
proof -
  have c: "custs_at has_id cfg (cust_to p u t) = custs_at has_id cfg s" "custs_at has_flight cfg (cust_to p u t) = custs_at has_flight cfg s"
    using same u p by (simp_all add: cnt_upd has_id_def has_flight_def)
  have e: "u_id (cust_pc (cust_to p u t) q) = u_id (cust_pc s q)" "u_flight (cust_pc (cust_to p u t) q) = u_flight (cust_pc s q)" for q
    using same u by simp_all
  have f: "custCounter (cust_to p u t) = custCounter s" "flight1Customers (cust_to p u t) = flight1Customers s"
    "flight2Customers (cust_to p u t) = flight2Customers s" "flight3Customers (cust_to p u t) = flight3Customers s"
    using same by simp_all
  have n: "\<forall>q < numOfCustomers cfg. \<forall>c. cust_pc (cust_to p u t) q = U_count c \<longrightarrow> c = custCounter s"
    using inv_idsD(5) [OF i] u(3) same by simp
  have m: "place_free x (cust_to p u t)" if "q < numOfCustomers cfg" "cust_pc (cust_to p u t) q = U_take d x" for q d x
    using inv_idsD(11) [OF i, of q d x] u(4) that same by (auto simp: place_free_def split: if_splits)
  show ?thesis using i n m unfolding inv_ids_def c e f by blast
qed

lemma inv_ids_flight:
  assumes i: "inv_ids cfg s" and p: "p < numOfCustomers cfg" and a: "cust_pc s p = U_take c t" and t: "t = 1 \<or> t = 2 \<or> t = 3"
    and l: "inv_locks ops cfg s"
    and same: "cust_pc s1 = cust_pc s" "custCounter s1 = custCounter s"
    and sum: "0 \<le> flight1Customers s1" "0 \<le> flight2Customers s1" "0 \<le> flight3Customers s1"
      "flight1Customers s1 + flight2Customers s1 + flight3Customers s1 = flight1Customers s + flight2Customers s + flight3Customers s - 1"
  shows "inv_ids cfg (cust_to p (U_sig c t) s1)"
proof -
  note d = inv_idsD [OF i]
  let ?s = "cust_to p (U_sig c t) s1"
  have e: "u_id (cust_pc ?s q) = u_id (cust_pc s q)" "u_flight (cust_pc ?s q) = (if q = p then Some t else u_flight (cust_pc s q))" for q
    using same a by simp_all
  have c: "custs_at has_id cfg ?s = custs_at has_id cfg s" "custs_at has_flight cfg ?s = custs_at has_flight cfg s + 1" "custCounter ?s = custCounter s"
    using same a p by (simp_all add: cnt_upd has_id_def has_flight_def)
  have n: "x = custCounter s" if "q < numOfCustomers cfg" "cust_pc ?s q = U_count x" for q x
    using d(5) [of q x] that same by (auto split: if_splits)
  have f: "flight1Customers ?s + flight2Customers ?s + flight3Customers ?s + (custs_at has_flight cfg s + 1) = int (numOfCustomers cfg)"
    "0 \<le> flight1Customers ?s" "0 \<le> flight2Customers ?s" "0 \<le> flight3Customers ?s" using sum d(9) by simp_all
  have r: "x = 1 \<or> x = 2 \<or> x = 3" if "q < numOfCustomers cfg" "(if q = p then Some t else u_flight (cust_pc s q)) = Some x" for q x
    using d(10) [of q x] that t by (auto split: if_splits)
  have "q = p" if "q < numOfCustomers cfg" "cust_pc s q = U_take d x" for q d x
    using mutex(6) [OF l that(1) p] that(2) a by simp
  then have m: "place_free x ?s" if "q < numOfCustomers cfg" "cust_pc ?s q = U_take d x" for q d x
    using that same by (auto split: if_splits)
  show ?thesis using d(1-4) n f r m unfolding inv_ids_def c e by blast
qed

lemma inv_ids_pick:
  assumes "inv_ids cfg s" "p < numOfCustomers cfg" "cust_pc s p = U_pick c"
  shows "inv_ids cfg (pick_flight r p c s)"
  unfolding pick_flight_def using assms by (auto intro!: inv_ids_move [OF assms(1,2)] simp: place_free_def)

lemma inv_ids_take:
  assumes "inv_ids cfg s" "p < numOfCustomers cfg" "cust_pc s p = U_take c t" "inv_locks ops cfg s"
  shows "inv_ids cfg (cust_to p (U_sig c t) (take_place t s))"
proof -
  note d = inv_idsD [OF assms(1)]
  have "t = 1 \<or> t = 2 \<or> t = 3" using d(11) [OF assms(2,3)] by (auto simp: place_free_def)
  from inv_ids_flight [OF assms(1-3) this assms(4), of "take_place t s"] d(6-8) d(11) [OF assms(2,3)]
  show ?thesis by (auto simp: take_place_def place_free_def)
qed

lemma inv_ids_customer:
  assumes L: "sem_laws ops" and p: "p < numOfCustomers cfg" and step: "cust_step ops r p s = Next s'" and i: "inv_ids cfg s"
    and l: "inv_locks ops cfg s"
  shows "inv_ids cfg s'"
proof (cases "\<exists>c t. cust_pc s p = U_count c \<or> cust_pc s p = U_pick c \<or> cust_pc s p = U_take c t")
  case True
  then obtain c t where c: "cust_pc s p = U_count c \<or> cust_pc s p = U_pick c \<or> cust_pc s p = U_take c t" by blast
  then show ?thesis
  proof (elim disjE)
    assume a: "cust_pc s p = U_count c"
    note d = inv_idsD [OF i]
    have c: "c = custCounter s" using d(5) [OF p a] .
    have s': "s' = cust_to p (U_pick c) (s\<lparr>custCounter := custCounter s + 1\<rparr>)" using step a by (simp add: cust_step_def)
    have none: "\<not> (\<exists>d. cust_pc s q = U_count d)" if "q \<noteq> p" "q < numOfCustomers cfg" for q
      using mutex(6) [OF l, of q p] that p a by auto
    have new: "u_id (cust_pc s' q) = (if q = p then Some c else u_id (cust_pc s q))" "u_flight (cust_pc s' q) = u_flight (cust_pc s q)"
      "custCounter s' = custCounter s + 1" for q using a by (simp_all add: s')
    have nn: "0 \<le> custCounter s" using d(1) by simp
    have less: "0 \<le> x \<and> x < custCounter s + 1" if "q < numOfCustomers cfg" "(if q = p then Some c else u_id (cust_pc s q)) = Some x" for q x
      using d(2,3) [of q x] that c nn by (auto split: if_splits)
    have inj: "q = r" if "q < numOfCustomers cfg" "r < numOfCustomers cfg" "(if q = p then Some c else u_id (cust_pc s q)) = Some x"
        "(if r = p then Some c else u_id (cust_pc s r)) = Some x" for q r x
      using d(3) [of q x] d(3) [of r x] d(4) [of q r x] that c by (auto split: if_splits)
    have sums: "custCounter s' = custs_at has_id cfg s'" "custs_at has_flight cfg s' = custs_at has_flight cfg s"
      using d(1) a p by (simp_all add: s' cnt_upd has_id_def has_flight_def)
    have fl: "flight1Customers s' = flight1Customers s" "flight2Customers s' = flight2Customers s" "flight3Customers s' = flight3Customers s"
      by (simp_all add: s')
    have "d = custCounter s'" if "q < numOfCustomers cfg" "cust_pc s' q = U_count d" for q d
      using none that by (auto simp: s' split: if_splits)
    moreover have "place_free x s'" if "q < numOfCustomers cfg" "cust_pc s' q = U_take y x" for q y x
      using d(11) [of q y x] that by (auto simp: s' place_free_def split: if_splits)
    ultimately show ?thesis
      using sums(1) less inj d(6-10) unfolding inv_ids_def new fl sums(2) by blast
  next
    assume a: "cust_pc s p = U_pick c"
    then have "s' = pick_flight r p c s" using step by (simp add: cust_step_def)
    then show ?thesis
      using inv_ids_pick [OF i p a] by simp
  next
    assume a: "cust_pc s p = U_take c t"
    then have "s' = cust_to p (U_sig c t) (take_place t s)" using step by (simp add: cust_step_def)
    then show ?thesis using inv_ids_take [OF i p a l] by simp
  qed
next
  case False
  then show ?thesis
    using step
    by (cases "cust_pc s p"; simp add: cust_step_def; (elim wait_on_Next [OF L] signal_on_Next [OF L])?;
      auto intro!: inv_ids_move [OF i p] simp: moved_sel or_fails_Next set_customer_def cust_enqueue_def cust_to_def [symmetric] split: if_splits)
qed

section \<open>The queue of requests\<close>

fun u_enqueued :: "customer_at \<Rightarrow> bool" where
  "u_enqueued (U_qsig c t) = True" | "u_enqueued (U_ready c t) = True" | "u_enqueued (U_fin c t) = True" | "u_enqueued (U_capsig c t) = True"
| "u_enqueued (U_term c t) = True" | "u_enqueued (U_done c t) = True" | "u_enqueued _ = False"

fun u_unsig :: "customer_at \<Rightarrow> bool" where
  "u_unsig (U_qsig c t) = True" | "u_unsig (U_ready c t) = True" | "u_unsig _ = False"

text \<open>It has a clerk but no clerk knows of it yet.\<close>

fun u_called :: "customer_at \<Rightarrow> bool" where
  "u_called (U_unbook c t) = True" | "u_called (U_info c t) = True" | "u_called (U_qwait c t) = True" | "u_called (U_enq c t) = True"
| "u_called (U_qin c t) = True" | "u_called (U_qsig c t) = True" | "u_called (U_ready c t) = True" | "u_called _ = False"

fun u_wants :: "int \<Rightarrow> customer_at \<Rightarrow> bool" where
  "u_wants d (U_qsig c t) = (c = d)" | "u_wants d (U_ready c t) = (c = d)" | "u_wants d (U_fin c t) = (c = d)" | "u_wants d _ = False"

fun k_ask :: "clerk_at \<Rightarrow> bool" where
  "k_ask K_queue = True" | "k_ask K_take = True" | "k_ask (K_next c) = True" | "k_ask _ = False"

fun k_has :: "int \<Rightarrow> clerk_at \<Rightarrow> bool" where
  "k_has d (K_left c) = (c = d)" | "k_has d (K_type c) = (c = d)" | "k_has d (K_wait1 c) = (c = d)" | "k_has d (K_try1 c) = (c = d)"
| "k_has d (K_sig1 c) = (c = d)" | "k_has d (K_wait2 c) = (c = d)" | "k_has d (K_try2 c) = (c = d)" | "k_has d (K_sig2 c) = (c = d)"
| "k_has d (K_wait3a c) = (c = d)" | "k_has d (K_wait3b c) = (c = d)" | "k_has d (K_try3 c) = (c = d)" | "k_has d (K_sig3a c) = (c = d)"
| "k_has d (K_sig3b c) = (c = d)" | "k_has d (K_dec1 c t) = (c = d)" | "k_has d (K_mark1 c t) = (c = d)" | "k_has d (K_arr1 c t) = (c = d)"
| "k_has d (K_num1 c t) = (c = d)" | "k_has d (K_dec2 c t) = (c = d)" | "k_has d (K_mark2 c t) = (c = d)" | "k_has d (K_arr2 c t) = (c = d)"
| "k_has d (K_num2 c t) = (c = d)" | "k_has d (K_finish c) = (c = d)" | "k_has d _ = False"

fun k_serving :: "clerk_at \<Rightarrow> bool" where
  "k_serving K_open = False" | "k_serving K_ready = False" | "k_serving K_none = False" | "k_serving K_end = False" | "k_serving K_done = False"
| "k_serving _ = True"

fun k_quiet :: "clerk_at \<Rightarrow> bool" where
  "k_quiet K_open = True" | "k_quiet K_ready = True" | "k_quiet K_queue = True" | "k_quiet K_take = True" | "k_quiet K_none = True"
| "k_quiet (K_clerk c) = True" | "k_quiet K_end = True" | "k_quiet K_done = True" | "k_quiet _ = False"

fun k_gone :: "clerk_at \<Rightarrow> bool" where
  "k_gone K_end = True" | "k_gone K_done = True" | "k_gone _ = False"

definition closing :: "'m air \<Rightarrow> bool" where
  "closing s = (case master s of M_signal k \<Rightarrow> True | M_join k \<Rightarrow> True | M_done \<Rightarrow> True | _ \<Rightarrow> False)"

definition pending :: "'m air \<Rightarrow> int list" where
  "pending s = drop (queue_out s) (take (queue_in s) (cust_ready_queue s))"

definition inv_queue :: "'m sem_ops \<Rightarrow> air_config \<Rightarrow> 'm air \<Rightarrow> bool" where
  "inv_queue ops cfg s \<longleftrightarrow>
     length (cust_ready_queue s) = numOfCustomers cfg + 1 \<and> length (customers s) = numOfCustomers cfg + 1 \<and>
     int (queue_in s) = custs_at u_enqueued cfg s \<and> queue_out s \<le> queue_in s \<and>
     (\<forall>c. pm ops s (CUST_FINISHED c) + int (count_list (pending s) c) + clerks_at (k_has c) s = custs_at (u_wants c) cfg s) \<and>
     (\<forall>p < numOfCustomers cfg. \<forall>c t. cust_pc s p = U_qin c t \<longrightarrow> cust_ready_queue s ! queue_in s = c) \<and>
     (\<forall>k < numOfClerks. \<forall>c. clerk_pc s k = K_next c \<longrightarrow> queue_out s < queue_in s \<and> cust_ready_queue s ! queue_out s = c)"

definition inv_flow :: "'m sem_ops \<Rightarrow> air_config \<Rightarrow> 'm air \<Rightarrow> bool" where
  "inv_flow ops cfg s \<longleftrightarrow>
     (isOpened s \<longleftrightarrow> \<not> closing s \<and> master s \<noteq> M_mark) \<and>
     (isOpened s \<longrightarrow> (\<forall>k < numOfClerks. \<not> k_gone (clerk_pc s k))) \<and>
     (if closing s
      then queue_out s = numOfCustomers cfg \<and> cust_ready_queue s ! numOfCustomers cfg = -1 \<and>
        (\<forall>p < numOfCustomers cfg. u_done (cust_pc s p)) \<and> (\<forall>k < numOfClerks. k_quiet (clerk_pc s k))
      else int (queue_in s) = int (queue_out s) + custs_at u_unsig cfg s + pm ops s CUST_READY + clerks_at k_ask s \<and>
        pm ops s CLERK + custs_at u_called cfg s + pm ops s CUST_READY + clerks_at k_serving s = 3 \<and>
        (\<forall>k < numOfClerks. clerk_pc s k \<noteq> K_none))"

lemma inv_queueD:
  assumes "inv_queue ops cfg s"
  shows "length (cust_ready_queue s) = numOfCustomers cfg + 1" "length (customers s) = numOfCustomers cfg + 1"
    "int (queue_in s) = custs_at u_enqueued cfg s" "queue_out s \<le> queue_in s"
    "\<And>c. pm ops s (CUST_FINISHED c) + int (count_list (pending s) c) + clerks_at (k_has c) s = custs_at (u_wants c) cfg s"
    "\<And>p c t. p < numOfCustomers cfg \<Longrightarrow> cust_pc s p = U_qin c t \<Longrightarrow> cust_ready_queue s ! queue_in s = c"
    "\<And>k c. k < numOfClerks \<Longrightarrow> clerk_pc s k = K_next c \<Longrightarrow> queue_out s < queue_in s"
    "\<And>k c. k < numOfClerks \<Longrightarrow> clerk_pc s k = K_next c \<Longrightarrow> cust_ready_queue s ! queue_out s = c"
  using assms unfolding inv_queue_def by blast+

lemma inv_flowD:
  assumes "inv_flow ops cfg s"
  shows "isOpened s \<longleftrightarrow> \<not> closing s \<and> master s \<noteq> M_mark" "\<And>k. isOpened s \<Longrightarrow> k < numOfClerks \<Longrightarrow> \<not> k_gone (clerk_pc s k)"
    "closing s \<Longrightarrow> queue_out s = numOfCustomers cfg" "closing s \<Longrightarrow> cust_ready_queue s ! numOfCustomers cfg = -1"
    "\<And>p. closing s \<Longrightarrow> p < numOfCustomers cfg \<Longrightarrow> u_done (cust_pc s p)" "\<And>k. closing s \<Longrightarrow> k < numOfClerks \<Longrightarrow> k_quiet (clerk_pc s k)"
    "\<not> closing s \<Longrightarrow> int (queue_in s) = int (queue_out s) + custs_at u_unsig cfg s + pm ops s CUST_READY + clerks_at k_ask s"
    "\<not> closing s \<Longrightarrow> pm ops s CLERK + custs_at u_called cfg s + pm ops s CUST_READY + clerks_at k_serving s = 3"
    "\<And>k. \<not> closing s \<Longrightarrow> k < numOfClerks \<Longrightarrow> clerk_pc s k \<noteq> K_none"
  using assms unfolding inv_flow_def by (simp_all split: if_splits)

section \<open>What the counts say\<close>

lemma queue_in_le: "inv_queue ops cfg s \<Longrightarrow> queue_in s \<le> numOfCustomers cfg"
  using inv_queueD(3) [of ops cfg s] cnt_le [of u_enqueued "cust_pc s" "numOfCustomers cfg"] by linarith

lemma queue_in_less:
  assumes "inv_queue ops cfg s" "p < numOfCustomers cfg" "\<not> u_enqueued (cust_pc s p)"
  shows "queue_in s < numOfCustomers cfg"
  using inv_queueD(3) [OF assms(1)] cnt_less [of p _ u_enqueued "cust_pc s", OF assms(2,3)] by linarith

lemma u_wants_id: "u_wants c u \<Longrightarrow> u_id u = Some c"
  by (cases u) auto

lemma wants_le_one:
  assumes "inv_ids cfg s"
  shows "custs_at (u_wants c) cfg s \<le> 1"
proof (rule cnt_le_one)
  fix p q
  assume "p < numOfCustomers cfg" "q < numOfCustomers cfg" "u_wants c (cust_pc s p)" "u_wants c (cust_pc s q)"
  then show "p = q" using inv_idsD(4) [OF assms] u_wants_id by blast
qed

lemma wants_ex:
  assumes "1 \<le> custs_at (u_wants c) cfg s"
  shows "\<exists>p < numOfCustomers cfg. u_wants c (cust_pc s p)"
  using assms cnt_zero [of "u_wants c" "cust_pc s" "numOfCustomers cfg"] by force

text \<open>A request is in one place: in the queue, with a clerk, or answered.\<close>

lemma in_pending_wants:
  assumes "inv_queue ops cfg s" "c \<in> set (pending s)"
  shows "1 \<le> custs_at (u_wants c) cfg s"
proof -
  have "0 < count_list (pending s) c" using assms(2) count_list_0_iff [of "pending s" c] by force
  then show ?thesis using inv_queueD(5) [OF assms(1), of c] pm_nonneg [of ops s "CUST_FINISHED c"] cnt_nonneg [of "k_has c" "clerk_pc s" numOfClerks]
    by linarith
qed

lemma has_wants:
  assumes "inv_queue ops cfg s" "k < numOfClerks" "k_has c (clerk_pc s k)"
  shows "1 \<le> custs_at (u_wants c) cfg s"
  using inv_queueD(5) [OF assms(1), of c] cnt_pos [of k _ "k_has c" "clerk_pc s", OF assms(2,3)] pm_nonneg [of ops s "CUST_FINISHED c"]
  by linarith

lemma has_one:
  assumes "inv_queue ops cfg s" "inv_ids cfg s" "k < numOfClerks" "k_has c (clerk_pc s k)"
  shows "c \<notin> set (pending s)" "pm ops s (CUST_FINISHED c) = 0" "\<And>j. j < numOfClerks \<Longrightarrow> k_has c (clerk_pc s j) \<Longrightarrow> j = k"
proof -
  note e = inv_queueD(5) [OF assms(1), of c] wants_le_one [OF assms(2), of c]
  have p: "1 \<le> clerks_at (k_has c) s" using cnt_pos [of k _ "k_has c" "clerk_pc s", OF assms(3,4)] .
  then have "int (count_list (pending s) c) = 0" using e pm_nonneg [of ops s "CUST_FINISHED c"] by linarith
  then show "c \<notin> set (pending s)" by (simp add: count_list_0_iff)
  show "pm ops s (CUST_FINISHED c) = 0" using e p pm_nonneg [of ops s "CUST_FINISHED c"] by linarith
  show "j = k" if "j < numOfClerks" "k_has c (clerk_pc s j)" for j
    using cnt_two [of j numOfClerks k "k_has c" "clerk_pc s"] that assms(3,4) e pm_nonneg [of ops s "CUST_FINISHED c"] by fastforce
qed

section \<open>Clerks and the queue\<close>

lemma pending_next:
  assumes "queue_out s < queue_in s" "queue_in s \<le> length (cust_ready_queue s)"
  shows "pending s = cust_ready_queue s ! queue_out s # drop (queue_out s + 1) (take (queue_in s) (cust_ready_queue s))"
  using assms by (simp add: pending_def Cons_nth_drop_Suc [symmetric])

lemma pending_cong:
  assumes "queue_out t = queue_out s" "queue_in t = queue_in s" "cust_ready_queue t = cust_ready_queue s"
  shows "pending t = pending s"
  using assms by (simp add: pending_def)

lemma asks_open:
  assumes "inv_flow ops cfg s" "\<not> closing s" "k < numOfClerks" "k_ask (clerk_pc s k)"
  shows "queue_out s < queue_in s"
  using inv_flowD(7) [OF assms(1,2)] cnt_pos [of k _ k_ask "clerk_pc s", OF assms(3,4)] pm_nonneg [of ops s CUST_READY]
    cnt_nonneg [of u_unsig "cust_pc s" "numOfCustomers cfg"] by linarith

text \<open>What a clerk reads from the queue.\<close>

lemma take_reads:
  assumes q: "inv_queue ops cfg s" and d: "inv_ids cfg s" and f: "inv_flow ops cfg s" and k: "k < numOfClerks" "clerk_pc s k = K_take"
  shows "queue_out s < length (cust_ready_queue s)"
    "closing s \<Longrightarrow> cust_ready_queue s ! queue_out s = -1"
    "\<not> closing s \<Longrightarrow> queue_out s < queue_in s \<and> cust_ready_queue s ! queue_out s \<in> set (pending s) \<and> 0 \<le> cust_ready_queue s ! queue_out s"
proof -
  note l = inv_queueD(1) [OF q]
  show "queue_out s < length (cust_ready_queue s)" using l inv_queueD(4) [OF q] queue_in_le [OF q] by simp
  show "cust_ready_queue s ! queue_out s = -1" if "closing s" using inv_flowD(3,4) [OF f that] by simp
  show "queue_out s < queue_in s \<and> cust_ready_queue s ! queue_out s \<in> set (pending s) \<and> 0 \<le> cust_ready_queue s ! queue_out s" if "\<not> closing s"
  proof -
    have less: "queue_out s < queue_in s" using asks_open [OF f that k(1)] k(2) by simp
    then have p: "cust_ready_queue s ! queue_out s \<in> set (pending s)" using pending_next [of s] l queue_in_le [OF q] by simp
    from wants_ex [OF in_pending_wants [OF q p]] u_wants_id inv_idsD(2) [OF d] less p show ?thesis by blast
  qed
qed

lemma clerk_sums:
  assumes L: "sem_laws ops" and k: "k < numOfClerks" and step: "clerk_step ops k s = Next s'" and n: "\<And>c. clerk_pc s k \<noteq> K_next c"
  shows "queue_out s' = queue_out s \<and>
    pm ops s' (CUST_FINISHED c) + clerks_at (k_has c) s' = pm ops s (CUST_FINISHED c) + clerks_at (k_has c) s \<and>
    (\<forall>j. j \<noteq> k \<longrightarrow> clerk_pc s' j = clerk_pc s j) \<and> (clerk_pc s k \<noteq> K_take \<longrightarrow> (\<forall>c. clerk_pc s' k \<noteq> K_next c))"
  using step
  by (cases "clerk_pc s k"; simp add: clerk_step_def; (elim wait_on_Next [OF L] signal_on_Next [OF L])?;
    use k n in \<open>force simp: cnt_upd moved_sel or_fails_Next clerk_take_def clerk_switch_def set_customer_def store_booked1_def
      store_booked2_def Let_def split: if_splits\<close>)

lemma inv_queue_clerk:
  assumes L: "sem_laws ops" and k: "k < numOfClerks" and step: "clerk_step ops k s = Next s'"
    and l: "inv_locks ops cfg s" and d: "inv_ids cfg s" and q: "inv_queue ops cfg s" and f: "inv_flow ops cfg s"
  shows "inv_queue ops cfg s'"
proof (cases "\<exists>c. clerk_pc s k = K_next c")
  case True
  then obtain c where c: "clerk_pc s k = K_next c" by blast
  note Q = inv_queueD [OF q]
  note less = Q(7) [OF k c] and at = Q(8) [OF k c]
  have s': "s' = clerk_to k (K_left c) (s\<lparr>queue_out := queue_out s + 1\<rparr>)" using step c by (simp add: clerk_step_def)
  have p: "pending s = c # pending s'" using pending_next [OF less] at Q(1) queue_in_le [OF q] by (simp add: s' pending_def)
  have e: "pm ops s' (CUST_FINISHED x) + int (count_list (pending s') x) + clerks_at (k_has x) s' = custs_at (u_wants x) cfg s'" for x
    using Q(5) [of x] k c unfolding p by (cases "c = x") (simp_all add: s' cnt_upd)
  have "\<not> (\<exists>x. clerk_pc s j = K_next x)" if "j \<noteq> k" "j < numOfClerks" for j
    using mutex(3) [OF l that(2) k] that(1) c by fastforce
  then have n: "\<forall>j < numOfClerks. \<forall>x. clerk_pc s' j = K_next x \<longrightarrow> queue_out s' < queue_in s' \<and> cust_ready_queue s' ! queue_out s' = x"
    by (simp add: s')
  have x: "length (cust_ready_queue s') = numOfCustomers cfg + 1" "length (customers s') = numOfCustomers cfg + 1"
    "int (queue_in s') = custs_at u_enqueued cfg s'" "queue_out s' \<le> queue_in s'"
    "\<forall>p < numOfCustomers cfg. \<forall>c t. cust_pc s' p = U_qin c t \<longrightarrow> cust_ready_queue s' ! queue_in s' = c"
    using Q(1-3,6) less by (simp_all add: s')
  show ?thesis unfolding inv_queue_def using x e n by blast
next
  case False
  then have nn: "\<And>c. clerk_pc s k \<noteq> K_next c" by blast
  note r = clerk_step_frame [OF L step]
  note Q = inv_queueD [OF q]
  note c = clerk_sums [OF L k step nn]
  have o: "queue_out s' = queue_out s" using c by blast
  have p: "pending s' = pending s" by (rule pending_cong) (simp_all add: o r)
  have e: "pm ops s' (CUST_FINISHED x) + int (count_list (pending s') x) + clerks_at (k_has x) s' = custs_at (u_wants x) cfg s'" for x
    using Q(5) [of x] c [of x] unfolding p r(1) by linarith
  have n: "queue_out s' < queue_in s' \<and> cust_ready_queue s' ! queue_out s' = x" if j: "j < numOfClerks" "clerk_pc s' j = K_next x" for j x
  proof (cases "clerk_pc s' j = clerk_pc s j")
    case True
    then show ?thesis using Q(7,8) [of j x] j by (simp add: o r)
  next
    case False
    have ck: "j \<noteq> k \<longrightarrow> clerk_pc s' j = clerk_pc s j" "clerk_pc s k \<noteq> K_take \<longrightarrow> (\<forall>x. clerk_pc s' k \<noteq> K_next x)"
      using c [of 0] by blast+
    then have jk: "j = k" "clerk_pc s k = K_take" using False j(2) by auto
    note t = take_reads [OF q d f k jk(2)]
    have s': "clerk_take k s = Some s'" using step jk(2) by (simp add: clerk_step_def or_fails_Next)
    then have x: "x = cust_ready_queue s ! queue_out s" "x \<noteq> -1"
      using j(2) jk(1) by (auto simp: clerk_take_def Let_def split: if_splits)
    then have "\<not> closing s" using t(2) by blast
    then show ?thesis using t(3) x(1) by (simp add: o r)
  qed
  have x: "length (cust_ready_queue s') = numOfCustomers cfg + 1" "length (customers s') = numOfCustomers cfg + 1"
    "int (queue_in s') = custs_at u_enqueued cfg s'" "queue_out s' \<le> queue_in s'"
    "\<forall>p < numOfCustomers cfg. \<forall>c t. cust_pc s' p = U_qin c t \<longrightarrow> cust_ready_queue s' ! queue_in s' = c"
    using Q(1-4,6) by (simp_all add: o r)
  show ?thesis unfolding inv_queue_def using x e n by blast
qed

lemma inv_flow_clerk:
  assumes L: "sem_laws ops" and k: "k < numOfClerks" and step: "clerk_step ops k s = Next s'"
    and d: "inv_ids cfg s" and q: "inv_queue ops cfg s" and f: "inv_flow ops cfg s"
  shows "inv_flow ops cfg s'"
proof -
  note r = clerk_step_frame [OF L step]
  note F = inv_flowD [OF f]
  have cl: "closing s' = closing s" using r(6) by (simp add: closing_def)
  have other: "clerk_pc s' j = clerk_pc s j" if "j \<noteq> k" for j
    using step that
    by (cases "clerk_pc s k"; simp add: clerk_step_def; (elim wait_on_Next [OF L] signal_on_Next [OF L])?;
      force simp: moved_sel or_fails_Next clerk_take_def clerk_switch_def set_customer_def store_booked1_def
        store_booked2_def Let_def split: if_splits)
  have gone: "\<not> k_gone (clerk_pc s' j)" if "isOpened s'" "j < numOfClerks" for j
  proof (cases "j = k")
    case True
    have o: "isOpened s" "\<not> k_gone (clerk_pc s k)" using that(1) r(7) F(2) k by auto
    show ?thesis unfolding True using step o
      by (cases "clerk_pc s k"; simp add: clerk_step_def; (elim wait_on_Next [OF L] signal_on_Next [OF L])?;
        force simp: moved_sel or_fails_Next clerk_take_def clerk_switch_def set_customer_def store_booked1_def
          store_booked2_def Let_def split: if_splits)
  qed (use that r(7) F(2) other in auto)
  show ?thesis
  proof (cases "closing s")
    case True
    have nop: "\<not> isOpened s" using F(1) True by blast
    have st: "k_quiet (clerk_pc s' k) \<and> queue_out s' = queue_out s"
    proof (cases "clerk_pc s k = K_take")
      case t: True
      then show ?thesis using step take_reads(2) [OF q d f k t True]
        by (auto simp: clerk_step_def or_fails_Next clerk_take_def Let_def split: if_splits)
    next
      case False
      then show ?thesis using step F(6) [OF True k] nop
        by (cases "clerk_pc s k"; simp add: clerk_step_def; (elim wait_on_Next [OF L] signal_on_Next [OF L])?; force simp: moved_sel)
    qed
    then have "k_quiet (clerk_pc s' j)" if "j < numOfClerks" for j using F(6) [OF True that] other [of j] by (cases "j = k") auto
    then show ?thesis unfolding inv_flow_def cl using True F(1,3-5) gone st r by simp
  next
    case False
    have st: "int (queue_in s') = int (queue_out s') + custs_at u_unsig cfg s' + pm ops s' CUST_READY + clerks_at k_ask s' \<and>
      pm ops s' CLERK + custs_at u_called cfg s' + pm ops s' CUST_READY + clerks_at k_serving s' = 3 \<and> clerk_pc s' k \<noteq> K_none"
    proof (cases "clerk_pc s k = K_take")
      case t: True
      have "cust_ready_queue s ! queue_out s \<noteq> -1" using take_reads(3) [OF q d f k t False] by linarith
      then show ?thesis using step t F(7,8) [OF False] k
        by (auto simp: clerk_step_def or_fails_Next clerk_take_def Let_def cnt_upd split: if_splits)
    next
      case nt: False
      show ?thesis using step nt F(9) [OF False k]
        by (cases "clerk_pc s k"; simp add: clerk_step_def; (elim wait_on_Next [OF L] signal_on_Next [OF L])?;
          use F(7,8) [OF False] k in \<open>force simp: moved_sel cnt_upd or_fails_Next clerk_switch_def set_customer_def store_booked1_def
            store_booked2_def Let_def split: if_splits\<close>)
    qed
    have "clerk_pc s' j \<noteq> K_none" if "j < numOfClerks" for j using F(9) [OF False that] other [of j] st by (cases "j = k") auto
    then show ?thesis unfolding inv_flow_def cl using False F(1) gone st r by simp
  qed
qed

section \<open>Customers and the queue\<close>

lemma cust_sums:
  assumes L: "sem_laws ops" and p: "p < numOfCustomers cfg" and step: "cust_step ops r p s = Next s'"
    and n: "\<And>c t. cust_pc s p \<noteq> U_enq c t" "\<And>c t. cust_pc s p \<noteq> U_qin c t"
  shows "queue_in s' = queue_in s \<and> cust_ready_queue s' = cust_ready_queue s \<and> custs_at u_enqueued cfg s' = custs_at u_enqueued cfg s \<and>
    pm ops s' (CUST_FINISHED x) - custs_at (u_wants x) cfg s' = pm ops s (CUST_FINISHED x) - custs_at (u_wants x) cfg s \<and>
    (\<forall>q c t. cust_pc s' q = U_qin c t \<longrightarrow> cust_pc s q = U_qin c t)"
  using step
  by (cases "cust_pc s p"; simp add: cust_step_def; (elim wait_on_Next [OF L] signal_on_Next [OF L])?;
    use p n in \<open>force simp: cnt_upd moved_sel or_fails_Next set_customer_def pick_flight_def take_place_def split: if_splits\<close>)

lemma inv_queue_customer:
  assumes L: "sem_laws ops" and p: "p < numOfCustomers cfg" and step: "cust_step ops r p s = Next s'"
    and l: "inv_locks ops cfg s" and q: "inv_queue ops cfg s"
  shows "inv_queue ops cfg s'"
proof -
  note fr = cust_step_frame [OF L step]
  note Q = inv_queueD [OF q]
  have len: "length (cust_ready_queue s') = numOfCustomers cfg + 1" "length (customers s') = numOfCustomers cfg + 1"
    using Q(1,2) fr by simp_all
  consider (enq) c t where "cust_pc s p = U_enq c t" | (qin) c t where "cust_pc s p = U_qin c t"
    | (other) "\<And>c t. cust_pc s p \<noteq> U_enq c t" "\<And>c t. cust_pc s p \<noteq> U_qin c t" by metis
  then show ?thesis
  proof cases
    case enq
    have less: "queue_in s < numOfCustomers cfg" by (rule queue_in_less [OF q p]) (simp add: enq)
    have s': "s' = cust_to p (U_qin c t) (s\<lparr>cust_ready_queue := (cust_ready_queue s)[queue_in s := c]\<rparr>)"
      using step enq less Q(1) by (simp add: cust_step_def cust_enqueue_def or_fails_Next)
    have pen: "pending s' = pending s" by (simp add: s' pending_def)
    have e: "pm ops s' (CUST_FINISHED x) + int (count_list (pending s') x) + clerks_at (k_has x) s' = custs_at (u_wants x) cfg s'" for x
      using Q(5) [of x] p enq unfolding pen by (simp add: s' cnt_upd)
    have w: "cust_ready_queue s' ! queue_in s' = x" if "a < numOfCustomers cfg" "cust_pc s' a = U_qin x y" for a x y
    proof (cases "a = p")
      case True
      then show ?thesis using that(2) less Q(1) by (simp add: s')
    next
      case False
      then show ?thesis using mutex(4) [OF l that(1) p] that(2) enq by (simp add: s')
    qed
    have n: "queue_out s' < queue_in s' \<and> cust_ready_queue s' ! queue_out s' = x" if "j < numOfClerks" "clerk_pc s' j = K_next x" for j x
      using Q(7,8) [of j x] that by (simp add: s')
    have c: "int (queue_in s') = custs_at u_enqueued cfg s'" "queue_out s' \<le> queue_in s'" using Q(3,4) p enq by (simp_all add: s' cnt_upd)
    show ?thesis unfolding inv_queue_def using len e w n c by blast
  next
    case qin
    have less: "queue_in s < numOfCustomers cfg" by (rule queue_in_less [OF q p]) (simp add: qin)
    have s': "s' = cust_to p (U_qsig c t) (s\<lparr>queue_in := queue_in s + 1\<rparr>)" using step qin by (simp add: cust_step_def)
    have pen: "pending s' = pending s @ [c]"
      using Q(6) [OF p qin] Q(1,4) less by (simp add: s' pending_def take_Suc_conv_app_nth)
    have e: "pm ops s' (CUST_FINISHED x) + int (count_list (pending s') x) + clerks_at (k_has x) s' = custs_at (u_wants x) cfg s'" for x
      using Q(5) [of x] p qin unfolding pen by (cases "c = x") (simp_all add: s' cnt_upd)
    have w: "cust_ready_queue s' ! queue_in s' = x" if "a < numOfCustomers cfg" "cust_pc s' a = U_qin x y" for a x y
      using mutex(4) [OF l that(1) p] that(2) qin by (simp add: s' split: if_splits)
    have n: "queue_out s' < queue_in s' \<and> cust_ready_queue s' ! queue_out s' = x" if "j < numOfClerks" "clerk_pc s' j = K_next x" for j x
      using Q(7,8) [of j x] that by (simp add: s')
    have c: "int (queue_in s') = custs_at u_enqueued cfg s'" "queue_out s' \<le> queue_in s'" using Q(3,4) p qin by (simp_all add: s' cnt_upd)
    show ?thesis unfolding inv_queue_def using len e w n c by blast
  next
    case other
    note c = cust_sums [OF L p step other]
    have o: "queue_in s' = queue_in s" "cust_ready_queue s' = cust_ready_queue s" using c by blast+
    have pen: "pending s' = pending s" by (rule pending_cong) (simp_all add: o fr)
    have e: "pm ops s' (CUST_FINISHED x) + int (count_list (pending s') x) + clerks_at (k_has x) s' = custs_at (u_wants x) cfg s'" for x
      using Q(5) [of x] c [of x] unfolding pen fr(1) by linarith
    have w: "cust_ready_queue s' ! queue_in s' = x" if "a < numOfCustomers cfg" "cust_pc s' a = U_qin x y" for a x y
      using Q(6) [OF that(1)] c that(2) unfolding o by blast
    have n: "queue_out s' < queue_in s' \<and> cust_ready_queue s' ! queue_out s' = x" if "j < numOfClerks" "clerk_pc s' j = K_next x" for j x
      using Q(7,8) [of j x] that unfolding o fr by blast
    have m: "int (queue_in s') = custs_at u_enqueued cfg s'" "queue_out s' \<le> queue_in s'" using Q(3,4) c by (simp_all add: fr)
    show ?thesis unfolding inv_queue_def using len e w n m by blast
  qed
qed

lemma inv_flow_customer:
  assumes L: "sem_laws ops" and p: "p < numOfCustomers cfg" and step: "cust_step ops r p s = Next s'" and f: "inv_flow ops cfg s"
  shows "inv_flow ops cfg s'"
proof -
  note fr = cust_step_frame [OF L step]
  note F = inv_flowD [OF f]
  have cl: "closing s' = closing s" using fr(2) by (simp add: closing_def)
  have "\<not> u_done (cust_pc s p)" using step by (cases "cust_pc s p") (simp_all add: cust_step_def)
  then have nc: "\<not> closing s" using F(5) [OF _ p] by blast
  have st: "int (queue_in s') = int (queue_out s') + custs_at u_unsig cfg s' + pm ops s' CUST_READY + clerks_at k_ask s' \<and>
    pm ops s' CLERK + custs_at u_called cfg s' + pm ops s' CUST_READY + clerks_at k_serving s' = 3"
    using step
    by (cases "cust_pc s p"; simp add: cust_step_def; (elim wait_on_Next [OF L] signal_on_Next [OF L])?;
      use F(7,8) [OF nc] p in \<open>force simp: cnt_upd moved_sel or_fails_Next set_customer_def pick_flight_def take_place_def cust_enqueue_def split: if_splits\<close>)
  then show ?thesis unfolding inv_flow_def cl using nc F(1,2,9) by (simp add: fr)
qed

section \<open>The master and the queue\<close>

text \<open>When the master has waited for all customers, the clerks have nothing left to do.\<close>

lemma all_done:
  assumes "inv_locks ops cfg s" "waited cfg (master s) = int (numOfCustomers cfg)" "p < numOfCustomers cfg"
  shows "u_done (cust_pc s p)"
proof -
  have "custs_at u_done cfg s = int (numOfCustomers cfg)"
    using assms(1,2) cnt_le [of u_done "cust_pc s" "numOfCustomers cfg"] pm_nonneg [of ops s CUSTTERMINATED]
    unfolding inv_locks_def by linarith
  then show ?thesis using assms(3) by (simp add: cnt_full)
qed

lemma all_served:
  assumes l: "inv_locks ops cfg s" and q: "inv_queue ops cfg s" and f: "inv_flow ops cfg s"
    and w: "waited cfg (master s) = int (numOfCustomers cfg)" and nc: "\<not> closing s"
  shows "queue_in s = numOfCustomers cfg" "queue_out s = numOfCustomers cfg" "\<And>k. k < numOfClerks \<Longrightarrow> k_quiet (clerk_pc s k)"
proof -
  note Q = inv_queueD [OF q] and F = inv_flowD [OF f]
  have dn: "u_done (cust_pc s p)" if "p < numOfCustomers cfg" for p using all_done [OF l w that] .
  have u: "\<not> u_wants c (cust_pc s p)" "u_enqueued (cust_pc s p)" if "p < numOfCustomers cfg" for p c
    using dn [OF that] by (cases "cust_pc s p"; simp)+
  have "custs_at u_enqueued cfg s = int (numOfCustomers cfg)" using u(2) by (simp add: cnt_full)
  then show qi: "queue_in s = numOfCustomers cfg" using Q(3) by simp
  have z: "custs_at (u_wants c) cfg s = 0" for c using u(1) by (simp add: cnt_zero)
  have "count_list (pending s) c = 0" "clerks_at (k_has c) s = 0" for c
    using Q(5) [of c] z [of c] pm_nonneg [of ops s "CUST_FINISHED c"] cnt_nonneg [of "k_has c" "clerk_pc s" numOfClerks] by linarith+
  then have np: "\<And>c. c \<notin> set (pending s)" and nh: "\<And>k c. k < numOfClerks \<Longrightarrow> \<not> k_has c (clerk_pc s k)"
    by (simp_all add: count_list_0_iff cnt_zero)
  have "pending s = []" using np by (cases "pending s") auto
  then show qo: "queue_out s = numOfCustomers cfg" using Q(1,4) qi by (simp add: pending_def)
  have "clerks_at k_ask s = 0"
    using F(7) [OF nc] qi qo pm_nonneg [of ops s CUST_READY] cnt_nonneg [of k_ask "clerk_pc s" numOfClerks]
      cnt_nonneg [of u_unsig "cust_pc s" "numOfCustomers cfg"] by linarith
  then have na: "\<not> k_ask (clerk_pc s k)" if "k < numOfClerks" for k using that by (simp add: cnt_zero)
  show "k_quiet (clerk_pc s k)" if "k < numOfClerks" for k
    using na [OF that] nh [OF that] F(9) [OF nc that] by (cases "clerk_pc s k") auto
qed

lemma inv_queue_master:
  assumes L: "sem_laws ops" and step: "master_step ops cfg s = Next s'" and l: "inv_locks ops cfg s" and q: "inv_queue ops cfg s"
  shows "inv_queue ops cfg s'"
proof -
  note fr = master_step_frame [OF L step]
  note Q = inv_queueD [OF q]
  have c: "cust_ready_queue s' = (if master s = M_mark then (cust_ready_queue s)[numOfCustomers cfg := -1] else cust_ready_queue s)"
    using step
    by (cases "master s"; simp add: master_step_def split: if_splits; (elim wait_on_Next [OF L] signal_on_Next [OF L])?; force simp: moved_sel)
  have qi: "queue_in s \<le> numOfCustomers cfg" by (rule queue_in_le [OF q])
  have pen: "pending s' = pending s" using qi by (simp add: pending_def fr c)
  have w: "cust_ready_queue s' ! queue_in s' = x" if a: "p < numOfCustomers cfg" "cust_pc s' p = U_qin x y" for p x y
  proof (cases "master s = M_mark")
    case True
    then have "u_done (cust_pc s p)" by (intro all_done [OF l _ a(1)]) (simp add: waited_def)
    then show ?thesis using a(2) by (simp add: fr)
  next
    case False
    then show ?thesis using Q(6) [OF a(1)] a(2) by (simp add: fr c)
  qed
  have n: "queue_out s' < queue_in s' \<and> cust_ready_queue s' ! queue_out s' = x" if "j < numOfClerks" "clerk_pc s' j = K_next x" for j x
    using Q(7,8) [of j x] that qi by (simp add: fr c)
  have len: "length (cust_ready_queue s') = numOfCustomers cfg + 1" "length (customers s') = numOfCustomers cfg + 1"
    "int (queue_in s') = custs_at u_enqueued cfg s'" "queue_out s' \<le> queue_in s'" using Q(1-4) by (simp_all add: fr c)
  have e: "pm ops s' (CUST_FINISHED x) + int (count_list (pending s') x) + clerks_at (k_has x) s' = custs_at (u_wants x) cfg s'" for x
    using Q(5) [of x] by (simp add: fr pen)
  show ?thesis unfolding inv_queue_def using len e w n by blast
qed

lemma inv_flow_master:
  assumes L: "sem_laws ops" and step: "master_step ops cfg s = Next s'" and l: "inv_locks ops cfg s" and q: "inv_queue ops cfg s"
    and f: "inv_flow ops cfg s"
  shows "inv_flow ops cfg s'"
proof -
  note fr = master_step_frame [OF L step]
  note F = inv_flowD [OF f]
  show ?thesis
  proof (cases "closing s")
    case True
    then show ?thesis using step f
      by (cases "master s"; simp add: master_step_def closing_def split: if_splits; (elim wait_on_Next [OF L] signal_on_Next [OF L])?;
        auto simp: inv_flow_def closing_def moved_sel)
  next
    case nc: False
    show ?thesis
    proof (cases "master s = M_mark")
      case True
      have w: "waited cfg (master s) = int (numOfCustomers cfg)" using True by (simp add: waited_def)
      note v = all_served [OF l q f w nc]
      have s': "s' = master_to (M_signal 0) (s\<lparr>cust_ready_queue := (cust_ready_queue s)[numOfCustomers cfg := -1]\<rparr>)"
        using step True inv_queueD(1) [OF q] by (simp add: master_step_def)
      have "\<not> isOpened s" using F(1) True by simp
      then show ?thesis using v(2,3) all_done [OF l w] inv_queueD(1) [OF q] by (simp add: s' inv_flow_def closing_def)
    next
      case False
      then show ?thesis using step nc F(1,2,7-9)
        by (cases "master s"; simp add: master_step_def closing_def split: if_splits; (elim wait_on_Next [OF L] signal_on_Next [OF L])?;
          auto simp: inv_flow_def closing_def moved_sel)
    qed
  qed
qed

end
