(* ===== verification/FOS_AirBook.thy ===== *)
theory FOS_AirBook
  imports FOS_AirQueue
begin

text \<open>The bookings of the reservation program: tickets, the arrays of booked customers and the records of the customers agree.\<close>

definition in1 :: "'m air \<Rightarrow> int \<Rightarrow> bool" where "in1 s c \<longleftrightarrow> c \<in> set (take (flight1BookedCounter s) (flight1BookedArr s))"
definition in2 :: "'m air \<Rightarrow> int \<Rightarrow> bool" where "in2 s c \<longleftrightarrow> c \<in> set (take (flight2BookedCounter s) (flight2BookedArr s))"
definition bk :: "'m air \<Rightarrow> int \<Rightarrow> int" where "bk s c = booked (customers s ! nat c)"
definition ft :: "'m air \<Rightarrow> int \<Rightarrow> int" where "ft s c = flightType (customers s ! nat c)"

definition good :: "'m air \<Rightarrow> int \<Rightarrow> bool" where
  "good s c \<longleftrightarrow> (bk s c \<noteq> 0 \<longrightarrow> (ft s c = 1 \<longrightarrow> in1 s c) \<and> (ft s c = 2 \<longrightarrow> in2 s c) \<and> (ft s c = 3 \<longrightarrow> in1 s c \<and> in2 s c))"

section \<open>What holds at each place\<close>

fun k_ok :: "'m air \<Rightarrow> clerk_at \<Rightarrow> bool" where
  "k_ok s (K_left c) = (bk s c = 0 \<and> ft s c \<in> {1, 2, 3})"
| "k_ok s (K_type c) = (bk s c = 0 \<and> ft s c \<in> {1, 2, 3})"
| "k_ok s (K_wait1 c) = (bk s c = 0 \<and> ft s c = 1)"
| "k_ok s (K_try1 c) = (bk s c = 0 \<and> ft s c = 1)"
| "k_ok s (K_wait2 c) = (bk s c = 0 \<and> ft s c = 2)"
| "k_ok s (K_try2 c) = (bk s c = 0 \<and> ft s c = 2)"
| "k_ok s (K_wait3a c) = (bk s c = 0 \<and> ft s c = 3)"
| "k_ok s (K_wait3b c) = (bk s c = 0 \<and> ft s c = 3)"
| "k_ok s (K_try3 c) = (bk s c = 0 \<and> ft s c = 3)"
| "k_ok s (K_dec1 c t) = (ft s c = t \<and> bk s c = 0 \<and> 0 < flight1Counter s \<and> (t = 3 \<longrightarrow> 0 < flight2Counter s))"
| "k_ok s (K_mark1 c t) = (ft s c = t \<and> bk s c = 0 \<and> (t = 3 \<longrightarrow> 0 < flight2Counter s))"
| "k_ok s (K_arr1 c t) = (ft s c = t \<and> bk s c = 1 \<and> \<not> in1 s c \<and> \<not> in2 s c \<and> (t = 3 \<longrightarrow> 0 < flight2Counter s))"
| "k_ok s (K_num1 c t) = (ft s c = t \<and> bk s c = 1 \<and> \<not> in1 s c \<and> \<not> in2 s c \<and> (t = 3 \<longrightarrow> 0 < flight2Counter s) \<and>
     flight1BookedArr s ! flight1BookedCounter s = c)"
| "k_ok s (K_dec2 c t) = (ft s c = t \<and> 0 < flight2Counter s \<and> (if t = 3 then bk s c = 1 \<and> in1 s c \<and> \<not> in2 s c else bk s c = 0))"
| "k_ok s (K_mark2 c t) = (ft s c = t \<and> (if t = 3 then bk s c = 1 \<and> in1 s c \<and> \<not> in2 s c else bk s c = 0))"
| "k_ok s (K_arr2 c t) = (ft s c = t \<and> bk s c = 1 \<and> (t = 3 \<longrightarrow> in1 s c) \<and> \<not> in2 s c)"
| "k_ok s (K_num2 c t) = (ft s c = t \<and> bk s c = 1 \<and> (t = 3 \<longrightarrow> in1 s c) \<and> \<not> in2 s c \<and> flight2BookedArr s ! flight2BookedCounter s = c)"
| "k_ok s (K_sig1 c) = good s c" | "k_ok s (K_sig2 c) = good s c" | "k_ok s (K_sig3a c) = good s c" | "k_ok s (K_sig3b c) = good s c"
| "k_ok s (K_finish c) = good s c"
| "k_ok s _ = True"

fun u_ok :: "'m air \<Rightarrow> customer_at \<Rightarrow> bool" where
  "u_ok s (U_info c t) = (bk s c = 0)"
| "u_ok s (U_qwait c t) = (ft s c = t \<and> bk s c = 0)"
| "u_ok s (U_enq c t) = (ft s c = t \<and> bk s c = 0)"
| "u_ok s (U_qin c t) = (ft s c = t \<and> bk s c = 0)"
| "u_ok s (U_qsig c t) = (ft s c = t)" | "u_ok s (U_ready c t) = (ft s c = t)" | "u_ok s (U_fin c t) = (ft s c = t)"
| "u_ok s (U_capsig c t) = (ft s c = t \<and> good s c)" | "u_ok s (U_term c t) = (ft s c = t \<and> good s c)"
| "u_ok s (U_done c t) = (ft s c = t \<and> good s c)"
| "u_ok s _ = True"

definition recorded :: "air_config \<Rightarrow> 'm air \<Rightarrow> int \<Rightarrow> bool" where
  "recorded cfg s c \<longleftrightarrow> (\<exists>p < numOfCustomers cfg. u_enqueued (cust_pc s p) \<and> u_id (cust_pc s p) = Some c)"

definition inv_tickets :: "air_config \<Rightarrow> 'm air \<Rightarrow> bool" where
  "inv_tickets cfg s \<longleftrightarrow>
     flight1Counter s + int (flight1BookedCounter s) + clerks_at k_mid1 s = int (flight1NumOfTickets cfg) \<and> 0 \<le> flight1Counter s \<and>
     flight2Counter s + int (flight2BookedCounter s) + clerks_at k_mid2 s = int (flight2NumOfTickets cfg) \<and> 0 \<le> flight2Counter s \<and>
     length (flight1BookedArr s) = flight1NumOfTickets cfg \<and> length (flight2BookedArr s) = flight2NumOfTickets cfg \<and>
     distinct (take (flight1BookedCounter s) (flight1BookedArr s)) \<and> distinct (take (flight2BookedCounter s) (flight2BookedArr s))"

definition inv_book :: "'m sem_ops \<Rightarrow> air_config \<Rightarrow> 'm air \<Rightarrow> bool" where
  "inv_book ops cfg s \<longleftrightarrow> inv_tickets cfg s \<and>
     (\<forall>c. in1 s c \<longrightarrow> bk s c = 1 \<and> ft s c \<in> {1, 3} \<and> recorded cfg s c) \<and>
     (\<forall>c. in2 s c \<longrightarrow> bk s c = 1 \<and> ft s c \<in> {2, 3} \<and> recorded cfg s c) \<and>
     (\<forall>k < numOfClerks. k_ok s (clerk_pc s k)) \<and> (\<forall>p < numOfCustomers cfg. u_ok s (cust_pc s p)) \<and>
     (\<forall>c \<in> set (pending s). bk s c = 0) \<and> (\<forall>c. 0 < pm ops s (CUST_FINISHED c) \<longrightarrow> good s c)"

lemma inv_bookD:
  assumes "inv_book ops cfg s"
  shows "inv_tickets cfg s" "\<And>c. in1 s c \<Longrightarrow> bk s c = 1" "\<And>c. in1 s c \<Longrightarrow> ft s c \<in> {1, 3}" "\<And>c. in1 s c \<Longrightarrow> recorded cfg s c"
    "\<And>c. in2 s c \<Longrightarrow> bk s c = 1" "\<And>c. in2 s c \<Longrightarrow> ft s c \<in> {2, 3}" "\<And>c. in2 s c \<Longrightarrow> recorded cfg s c"
    "\<And>k. k < numOfClerks \<Longrightarrow> k_ok s (clerk_pc s k)" "\<And>p. p < numOfCustomers cfg \<Longrightarrow> u_ok s (cust_pc s p)"
    "\<And>c. c \<in> set (pending s) \<Longrightarrow> bk s c = 0" "\<And>c. 0 < pm ops s (CUST_FINISHED c) \<Longrightarrow> good s c"
  using assms unfolding inv_book_def by blast+

lemma inv_bookI:
  assumes "inv_tickets cfg s" "\<And>c. in1 s c \<Longrightarrow> bk s c = 1 \<and> ft s c \<in> {1, 3} \<and> recorded cfg s c"
    "\<And>c. in2 s c \<Longrightarrow> bk s c = 1 \<and> ft s c \<in> {2, 3} \<and> recorded cfg s c"
    "\<And>k. k < numOfClerks \<Longrightarrow> k_ok s (clerk_pc s k)" "\<And>p. p < numOfCustomers cfg \<Longrightarrow> u_ok s (cust_pc s p)"
    "\<And>c. c \<in> set (pending s) \<Longrightarrow> bk s c = 0" "\<And>c. 0 < pm ops s (CUST_FINISHED c) \<Longrightarrow> good s c"
  shows "inv_book ops cfg s"
  using assms unfolding inv_book_def by blast

section \<open>Steps that book nothing\<close>

definition same_book :: "'m air \<Rightarrow> 'm air \<Rightarrow> bool" where
  "same_book s t \<longleftrightarrow> customers t = customers s \<and> flight1Counter t = flight1Counter s \<and> flight2Counter t = flight2Counter s \<and>
     flight1BookedArr t = flight1BookedArr s \<and> flight2BookedArr t = flight2BookedArr s \<and>
     flight1BookedCounter t = flight1BookedCounter s \<and> flight2BookedCounter t = flight2BookedCounter s"

lemma same_book_eq:
  assumes "same_book s t"
  shows "in1 t c = in1 s c" "in2 t c = in2 s c" "bk t c = bk s c" "ft t c = ft s c" "good t c = good s c"
  using assms by (simp_all add: same_book_def in1_def in2_def bk_def ft_def good_def)

lemma same_book_ok:
  assumes "same_book s t"
  shows "k_ok t x = k_ok s x" "u_ok t u = u_ok s u"
proof -
  show "k_ok t x = k_ok s x" using assms by (cases x) (simp_all add: same_book_eq [OF assms] same_book_def)
  show "u_ok t u = u_ok s u" by (cases u) (simp_all add: same_book_eq [OF assms])
qed

lemma same_book_moved: "moved ops x d s t \<Longrightarrow> same_book s t"
  by (simp add: same_book_def moved_sel)

lemma inv_tickets_same:
  assumes "inv_tickets cfg s" "same_book s t" "clerks_at k_mid1 t = clerks_at k_mid1 s" "clerks_at k_mid2 t = clerks_at k_mid2 s"
  shows "inv_tickets cfg t"
  using assms by (simp add: inv_tickets_def same_book_def)

fun k_books :: "clerk_at \<Rightarrow> bool" where
  "k_books (K_dec1 c t) = True" | "k_books (K_mark1 c t) = True" | "k_books (K_arr1 c t) = True" | "k_books (K_num1 c t) = True"
| "k_books (K_dec2 c t) = True" | "k_books (K_mark2 c t) = True" | "k_books (K_arr2 c t) = True" | "k_books (K_num2 c t) = True"
| "k_books _ = False"

lemma clerk_quiet_step:
  assumes L: "sem_laws ops" and step: "clerk_step ops k s = Next s'" and n: "\<not> k_books (clerk_pc s k)"
  shows "same_book s s'" "\<And>j. j \<noteq> k \<Longrightarrow> clerk_pc s' j = clerk_pc s j" "\<not> k_mid1 (clerk_pc s' k) \<and> \<not> k_mid2 (clerk_pc s' k)"
    "\<not> k_mid1 (clerk_pc s k) \<and> \<not> k_mid2 (clerk_pc s k)"
    "pm ops s' (CUST_FINISHED c) = pm ops s (CUST_FINISHED c) \<or> clerk_pc s k = K_finish c"
proof -
  have "same_book s s' \<and> (\<forall>j. j \<noteq> k \<longrightarrow> clerk_pc s' j = clerk_pc s j) \<and> \<not> k_mid1 (clerk_pc s' k) \<and> \<not> k_mid2 (clerk_pc s' k) \<and>
    \<not> k_mid1 (clerk_pc s k) \<and> \<not> k_mid2 (clerk_pc s k) \<and>
    (pm ops s' (CUST_FINISHED c) = pm ops s (CUST_FINISHED c) \<or> clerk_pc s k = K_finish c)"
    using step n
    by (cases "clerk_pc s k"; simp add: clerk_step_def; (elim wait_on_Next [OF L] signal_on_Next [OF L])?;
      force simp: same_book_def moved_sel or_fails_Next clerk_take_def clerk_switch_def Let_def split: if_splits)
  then show "same_book s s'" "\<And>j. j \<noteq> k \<Longrightarrow> clerk_pc s' j = clerk_pc s j" "\<not> k_mid1 (clerk_pc s' k) \<and> \<not> k_mid2 (clerk_pc s' k)"
    "\<not> k_mid1 (clerk_pc s k) \<and> \<not> k_mid2 (clerk_pc s k)"
    "pm ops s' (CUST_FINISHED c) = pm ops s (CUST_FINISHED c) \<or> clerk_pc s k = K_finish c" by blast+
qed

lemma cnt_same: "(\<And>j. j < n \<Longrightarrow> P (f j) = P (g j)) \<Longrightarrow> cnt P f n = cnt P g n"
  by (rule cnt_cong)

text \<open>The record of a customer whose number a clerk takes from the queue.\<close>

lemma pending_record:
  assumes "inv_book ops cfg s" "inv_queue ops cfg s" "inv_ids cfg s" "c \<in> set (pending s)"
  shows "bk s c = 0" "ft s c \<in> {1, 2, 3}"
proof -
  show "bk s c = 0" using inv_bookD(10) [OF assms(1,4)] .
  from wants_ex [OF in_pending_wants [OF assms(2,4)]] obtain p where p: "p < numOfCustomers cfg" "u_wants c (cust_pc s p)" by blast
  from inv_bookD(9) [OF assms(1) p(1)] inv_idsD(10) [OF assms(3) p(1)] p(2) show "ft s c \<in> {1, 2, 3}" by (cases "cust_pc s p") auto
qed

lemma next_pending:
  assumes "inv_queue ops cfg s" "k < numOfClerks" "clerk_pc s k = K_next c"
  shows "c \<in> set (pending s)"
  using pending_next [OF inv_queueD(7) [OF assms]] inv_queueD(1,8) [OF assms(1)] assms(2,3) queue_in_le [OF assms(1)] by simp

lemma inv_book_quiet:
  assumes L: "sem_laws ops" and k: "k < numOfClerks" and step: "clerk_step ops k s = Next s'"
    and d: "inv_ids cfg s" and q: "inv_queue ops cfg s" and b: "inv_book ops cfg s" and n: "\<not> k_books (clerk_pc s k)"
  shows "inv_book ops cfg s'"
proof -
  note r = clerk_step_frame [OF L step] and c = clerk_quiet_step [OF L step n] and B = inv_bookD [OF b]
  note e = same_book_eq [OF c(1)] and ok = same_book_ok [OF c(1)]
  have mid: "clerks_at k_mid1 s' = clerks_at k_mid1 s" "clerks_at k_mid2 s' = clerks_at k_mid2 s"
    using c(2-4) by (intro cnt_same; metis)+
  have rec: "recorded cfg s' x = recorded cfg s x" for x by (simp add: recorded_def r)
  have pen: "set (pending s') \<subseteq> set (pending s)"
  proof (cases "\<exists>x. clerk_pc s k = K_next x")
    case True
    then obtain x where x: "clerk_pc s k = K_next x" by blast
    have s': "s' = clerk_to k (K_left x) (s\<lparr>queue_out := queue_out s + 1\<rparr>)" using step x by (simp add: clerk_step_def)
    have "set (drop (queue_out s + 1) xs) \<subseteq> set (drop (queue_out s) xs)" for xs :: "int list" by (rule set_drop_subset_set_drop) simp
    then show ?thesis by (simp add: s' pending_def)
  next
    case False
    then have "queue_out s' = queue_out s" using clerk_sums [OF L k step] by blast
    then have "pending s' = pending s" by (intro pending_cong) (simp_all add: r)
    then show ?thesis by simp
  qed
  have me: "k_ok s (clerk_pc s' k)"
  proof (cases "\<exists>x. clerk_pc s k = K_next x")
    case True
    then obtain x where x: "clerk_pc s k = K_next x" by blast
    have "clerk_pc s' k = K_left x" using step x by (auto simp: clerk_step_def)
    then show ?thesis using pending_record [OF b q d next_pending [OF q k x]] by simp
  next
    case False
    then show ?thesis using step n B(8) [OF k]
      by (cases "clerk_pc s k"; simp add: clerk_step_def; (elim wait_on_Next [OF L] signal_on_Next [OF L])?;
        force simp: moved_sel or_fails_Next clerk_take_def clerk_switch_def Let_def good_def ft_def split: if_splits)
  qed
  show ?thesis
  proof (rule inv_bookI)
    show "inv_tickets cfg s'" by (rule inv_tickets_same [OF B(1) c(1) mid])
    show "k_ok s' (clerk_pc s' j)" if "j < numOfClerks" for j
      using me B(8) [OF that] c(2) [of j] by (cases "j = k") (simp_all add: ok)
    show "good s' x" if "0 < pm ops s' (CUST_FINISHED x)" for x
    proof (cases "clerk_pc s k = K_finish x")
      case True
      then show ?thesis using B(8) [OF k] by (simp add: e)
    next
      case False
      then have "pm ops s' (CUST_FINISHED x) = pm ops s (CUST_FINISHED x)" using clerk_quiet_step(5) [OF L step n, of x] by blast
      then show ?thesis using B(11) [of x] that by (simp add: e)
    qed
    show "bk s' x = 1 \<and> ft s' x \<in> {1, 3} \<and> recorded cfg s' x" if "in1 s' x" for x using B(2-4) [of x] that by (simp add: e rec)
    show "bk s' x = 1 \<and> ft s' x \<in> {2, 3} \<and> recorded cfg s' x" if "in2 s' x" for x using B(5-7) [of x] that by (simp add: e rec)
    show "u_ok s' (cust_pc s' p)" if "p < numOfCustomers cfg" for p using B(9) [OF that] by (simp add: ok r)
    show "bk s' x = 0" if "x \<in> set (pending s')" for x using B(10) [of x] that pen by (auto simp: e)
  qed
qed

section \<open>Steps that book\<close>

text \<open>A step of a clerk on its customer \<open>c\<close> leaves what the others rely on.\<close>

definition near :: "int \<Rightarrow> 'm air \<Rightarrow> 'm air \<Rightarrow> bool" where
  "near c s t \<longleftrightarrow> (\<forall>x. x \<noteq> c \<longrightarrow> in1 t x = in1 s x \<and> in2 t x = in2 s x \<and> (0 \<le> x \<longrightarrow> bk t x = bk s x)) \<and> (\<forall>x. ft t x = ft s x)"

lemma nearD:
  assumes "near c s t"
  shows "x \<noteq> c \<Longrightarrow> in1 t x = in1 s x" "x \<noteq> c \<Longrightarrow> in2 t x = in2 s x" "x \<noteq> c \<Longrightarrow> 0 \<le> x \<Longrightarrow> bk t x = bk s x" "ft t x = ft s x"
    "x \<noteq> c \<Longrightarrow> 0 \<le> x \<Longrightarrow> good t x = good s x"
  using assms by (simp_all add: near_def good_def)

definition same1 :: "'m air \<Rightarrow> 'm air \<Rightarrow> bool" where
  "same1 s t \<longleftrightarrow> flight1Counter t = flight1Counter s \<and> flight1BookedArr t ! flight1BookedCounter t = flight1BookedArr s ! flight1BookedCounter s"

definition same2 :: "'m air \<Rightarrow> 'm air \<Rightarrow> bool" where
  "same2 s t \<longleftrightarrow> flight2Counter t = flight2Counter s \<and> flight2BookedArr t ! flight2BookedCounter t = flight2BookedArr s ! flight2BookedCounter s"

lemma k_ok_near:
  assumes "near c s t" "k_ok s x" "\<not> k_has c x" "\<And>d. k_has d x \<Longrightarrow> 0 \<le> d" "k_f1 x \<Longrightarrow> same1 s t" "k_f2 x \<Longrightarrow> same2 s t"
  shows "k_ok t x"
  using assms(2-6) by (cases x) (simp_all add: nearD [OF assms(1)] same1_def same2_def split: if_splits)

lemma u_ok_near:
  assumes "near c s t" "u_ok s u" "u_id u \<noteq> Some c \<or> u_wants c u" "\<And>d. u_id u = Some d \<Longrightarrow> 0 \<le> d"
  shows "u_ok t u"
  using assms(2-4) by (cases u) (auto simp: nearD [OF assms(1)])

lemma has_id_nonneg:
  assumes "inv_queue ops cfg s" "inv_ids cfg s" "j < numOfClerks" "k_has x (clerk_pc s j)"
  shows "0 \<le> x"
  using wants_ex [OF has_wants [OF assms(1,3,4)]] inv_idsD(2) [OF assms(2)] u_wants_id by blast

lemma u_wants_enqueued: "u_wants c u \<Longrightarrow> u_enqueued u"
  by (cases u) auto

lemma has_recorded:
  assumes "inv_queue ops cfg s" "k < numOfClerks" "k_has c (clerk_pc s k)"
  shows "recorded cfg s c"
  using wants_ex [OF has_wants [OF assms]] u_wants_id u_wants_enqueued unfolding recorded_def by blast

lemma inv_book_near:
  assumes d: "inv_ids cfg s" and q: "inv_queue ops cfg s" and l: "inv_locks ops cfg s" and b: "inv_book ops cfg s"
    and k: "k < numOfClerks" "k_has c (clerk_pc s k)" and near: "near c s t"
    and pc: "clerk_pc t = (clerk_pc s)(k := x)" "k_ok t x"
    and same: "cust_pc t = cust_pc s" "pending t = pending s" "\<And>y. pm ops t (CUST_FINISHED y) = pm ops s (CUST_FINISHED y)"
    and tickets: "inv_tickets cfg t"
    and at: "in1 t c \<Longrightarrow> bk t c = 1 \<and> ft t c \<in> {1, 3}" "in2 t c \<Longrightarrow> bk t c = 1 \<and> ft t c \<in> {2, 3}"
    and f: "k_f1 (clerk_pc s k) \<or> same1 s t" "k_f2 (clerk_pc s k) \<or> same2 s t"
  shows "inv_book ops cfg t"
proof (rule inv_bookI)
  note B = inv_bookD [OF b] and N = nearD [OF near]
  note one = has_one [OF q d k]
  have rec: "recorded cfg t y = recorded cfg s y" for y using same(1) by (simp add: recorded_def)
  have pos: "0 \<le> y" if "recorded cfg s y" for y using that inv_idsD(2) [OF d] unfolding recorded_def by blast
  show "inv_tickets cfg t" by (rule tickets)
  show "bk t y = 1 \<and> ft t y \<in> {1, 3} \<and> recorded cfg t y" if "in1 t y" for y
  proof (cases "y = c")
    case True
    then show ?thesis using at(1) that has_recorded [OF q k] rec by simp
  next
    case False
    then have "in1 s y" using that N(1) by simp
    then show ?thesis using B(2-4) [of y] pos [of y] False N(3,4) [of y] rec by simp
  qed
  show "bk t y = 1 \<and> ft t y \<in> {2, 3} \<and> recorded cfg t y" if "in2 t y" for y
  proof (cases "y = c")
    case True
    then show ?thesis using at(2) that has_recorded [OF q k] rec by simp
  next
    case False
    then have "in2 s y" using that N(2) by simp
    then show ?thesis using B(5-7) [of y] pos [of y] False N(3,4) [of y] rec by simp
  qed
  show "k_ok t (clerk_pc t j)" if j: "j < numOfClerks" for j
  proof (cases "j = k")
    case False
    have "k_ok t (clerk_pc s j)"
    proof (rule k_ok_near [OF near B(8) [OF j]])
      show "\<not> k_has c (clerk_pc s j)" using one(3) [OF j] False by blast
      show "0 \<le> y" if "k_has y (clerk_pc s j)" for y using has_id_nonneg [OF q d j that] .
      show "same1 s t" if "k_f1 (clerk_pc s j)" using f(1) mutex(1) [OF l j k(1) that] False by blast
      show "same2 s t" if "k_f2 (clerk_pc s j)" using f(2) mutex(2) [OF l j k(1) that] False by blast
    qed
    then show ?thesis using False pc(1) by simp
  qed (simp add: pc)
  show "u_ok t (cust_pc t p)" if p: "p < numOfCustomers cfg" for p
  proof -
    from wants_ex [OF has_wants [OF q k]] obtain r where r: "r < numOfCustomers cfg" "u_wants c (cust_pc s r)" by blast
    have "u_id (cust_pc s p) \<noteq> Some c \<or> u_wants c (cust_pc s p)" using inv_idsD(4) [OF d p r(1)] u_wants_id [OF r(2)] r(2) by blast
    then show ?thesis unfolding same(1) by (rule u_ok_near [OF near B(9) [OF p]]) (rule inv_idsD(2) [OF d p])
  qed
  show "bk t y = 0" if "y \<in> set (pending t)" for y
  proof -
    have y: "y \<in> set (pending s)" using that same(2) by simp
    then have "y \<noteq> c" using one(1) by blast
    moreover have "0 \<le> y" using wants_ex [OF in_pending_wants [OF q y]] inv_idsD(2) [OF d] u_wants_id by blast
    ultimately show ?thesis using N(3) B(10) [OF y] by simp
  qed
  show "good t y" if "0 < pm ops t (CUST_FINISHED y)" for y
  proof -
    have y: "0 < pm ops s (CUST_FINISHED y)" using that same(3) by simp
    then have "1 \<le> custs_at (u_wants y) cfg s"
      using inv_queueD(5) [OF q, of y] cnt_nonneg [of "k_has y" "clerk_pc s" numOfClerks] by linarith
    then have "0 \<le> y" using wants_ex inv_idsD(2) [OF d] u_wants_id by blast
    moreover have "y \<noteq> c" using one(2) y by auto
    ultimately show ?thesis using N(5) B(11) [OF y] by simp
  qed
qed

lemma tickets_mid:
  assumes "inv_tickets cfg s" "k < numOfClerks"
  shows "k_mid1 (clerk_pc s k) \<Longrightarrow> flight1BookedCounter s < length (flight1BookedArr s)"
    "k_mid2 (clerk_pc s k) \<Longrightarrow> flight2BookedCounter s < length (flight2BookedArr s)"
  using assms(1) cnt_pos [of k numOfClerks k_mid1 "clerk_pc s"] cnt_pos [of k numOfClerks k_mid2 "clerk_pc s"] assms(2)
  by (auto simp: inv_tickets_def)

lemma distinct_append1: "i < length xs \<Longrightarrow> distinct (take i xs) \<Longrightarrow> xs ! i \<notin> set (take i xs) \<Longrightarrow> distinct (take (Suc i) xs)"
  by (simp add: take_Suc_conv_app_nth)

text \<open>The counters.\<close>

lemma inv_book_dec1:
  assumes d: "inv_ids cfg s" and q: "inv_queue ops cfg s" and l: "inv_locks ops cfg s" and b: "inv_book ops cfg s"
    and k: "k < numOfClerks" and pc: "clerk_pc s k = K_dec1 c t"
  shows "inv_book ops cfg (clerk_to k (K_mark1 c t) (s\<lparr>flight1Counter := flight1Counter s - 1\<rparr>))" (is "inv_book ops cfg ?t")
proof (rule inv_book_near [OF d q l b k, of c ?t "K_mark1 c t"])
  have o: "k_ok s (clerk_pc s k)" using inv_bookD(8) [OF b k] .
  have e: "in1 ?t x = in1 s x" "in2 ?t x = in2 s x" "bk ?t x = bk s x" "ft ?t x = ft s x" for x
    by (simp_all add: in1_def in2_def bk_def ft_def)
  show "near c s ?t" by (simp add: near_def e)
  show "k_ok ?t (K_mark1 c t)" using o pc by (simp add: e)
  show "inv_tickets cfg ?t" using inv_bookD(1) [OF b] o pc k by (simp add: inv_tickets_def cnt_upd)
  show "in1 ?t c \<Longrightarrow> bk ?t c = 1 \<and> ft ?t c \<in> {1, 3}" "in2 ?t c \<Longrightarrow> bk ?t c = 1 \<and> ft ?t c \<in> {2, 3}"
    using inv_bookD(2,3,5,6) [OF b, of c] by (simp_all add: e)
qed (use pc in \<open>simp_all add: pending_def same1_def same2_def\<close>)

lemma inv_book_dec2:
  assumes d: "inv_ids cfg s" and q: "inv_queue ops cfg s" and l: "inv_locks ops cfg s" and b: "inv_book ops cfg s"
    and k: "k < numOfClerks" and pc: "clerk_pc s k = K_dec2 c t"
  shows "inv_book ops cfg (clerk_to k (K_mark2 c t) (s\<lparr>flight2Counter := flight2Counter s - 1\<rparr>))" (is "inv_book ops cfg ?t")
proof (rule inv_book_near [OF d q l b k, of c ?t "K_mark2 c t"])
  have o: "k_ok s (clerk_pc s k)" using inv_bookD(8) [OF b k] .
  let ?u = "\<lambda>y. clerk_to k y (s\<lparr>flight2Counter := flight2Counter s - 1\<rparr>)"
  have e: "in1 (?u y) x = in1 s x" "in2 (?u y) x = in2 s x" "bk (?u y) x = bk s x" "ft (?u y) x = ft s x" for x y
    by (simp_all add: in1_def in2_def bk_def ft_def)
  show "near c s ?t" by (simp add: near_def e)
  show "k_ok ?t (K_mark2 c t)" using o pc by (simp add: e)
  show "inv_tickets cfg ?t" using inv_bookD(1) [OF b] o pc k by (simp add: inv_tickets_def cnt_upd)
  show "in1 ?t c \<Longrightarrow> bk ?t c = 1 \<and> ft ?t c \<in> {1, 3}" "in2 ?t c \<Longrightarrow> bk ?t c = 1 \<and> ft ?t c \<in> {2, 3}"
    using inv_bookD(2,3,5,6) [OF b, of c] by (simp_all add: e)
qed (use pc in \<open>simp_all add: pending_def same1_def same2_def\<close>)

text \<open>The mark in the record of the customer.\<close>

lemma set_booked_eq:
  assumes "set_customer c (\<lambda>x. x\<lparr>booked := v\<rparr>) s = Some s1"
  shows "in1 (clerk_to k pc s1) x = in1 s x" "in2 (clerk_to k pc s1) x = in2 s x" "ft (clerk_to k pc s1) x = ft s x"
    "0 \<le> x \<Longrightarrow> bk (clerk_to k pc s1) x = (if x = c then v else bk s x)" "0 \<le> c"
    "flight1Counter s1 = flight1Counter s" "flight2Counter s1 = flight2Counter s" "flight1BookedArr s1 = flight1BookedArr s"
    "flight2BookedArr s1 = flight2BookedArr s" "flight1BookedCounter s1 = flight1BookedCounter s"
    "flight2BookedCounter s1 = flight2BookedCounter s" "clerk_pc s1 = clerk_pc s" "cust_pc s1 = cust_pc s" "pending s1 = pending s"
    "pm ops s1 y = pm ops s y"
proof -
  have c: "0 \<le> c" "nat c < length (customers s)" "s1 = s\<lparr>customers := (customers s)[nat c := (customers s ! nat c)\<lparr>booked := v\<rparr>]\<rparr>"
    using assms by (auto simp: set_customer_def in_customers_def split: if_splits)
  show "in1 (clerk_to k pc s1) x = in1 s x" "in2 (clerk_to k pc s1) x = in2 s x" "0 \<le> c"
    "flight1Counter s1 = flight1Counter s" "flight2Counter s1 = flight2Counter s" "flight1BookedArr s1 = flight1BookedArr s"
    "flight2BookedArr s1 = flight2BookedArr s" "flight1BookedCounter s1 = flight1BookedCounter s"
    "flight2BookedCounter s1 = flight2BookedCounter s" "clerk_pc s1 = clerk_pc s" "cust_pc s1 = cust_pc s" "pending s1 = pending s"
    "pm ops s1 y = pm ops s y"
    using c(1) by (simp_all add: c(3) in1_def in2_def pending_def)
  show "ft (clerk_to k pc s1) x = ft s x" using c(2) by (simp add: c(3) ft_def nth_list_update)
  show "bk (clerk_to k pc s1) x = (if x = c then v else bk s x)" if "0 \<le> x"
    using c(2) eq_nat_nat_iff [OF c(1) that] by (auto simp: c(3) bk_def nth_list_update)
qed

lemma inv_book_mark:
  assumes d: "inv_ids cfg s" and q: "inv_queue ops cfg s" and l: "inv_locks ops cfg s" and b: "inv_book ops cfg s"
    and k: "k < numOfClerks" and pc: "clerk_pc s k = K_mark1 c t \<and> pc' = K_arr1 c t \<or> clerk_pc s k = K_mark2 c t \<and> pc' = K_arr2 c t"
    and s1: "set_customer c (\<lambda>x. x\<lparr>booked := 1\<rparr>) s = Some s1"
  shows "inv_book ops cfg (clerk_to k pc' s1)" (is "inv_book ops cfg ?t")
proof (rule inv_book_near [OF d q l b k, of c ?t pc'])
  have o: "k_ok s (clerk_pc s k)" using inv_bookD(8) [OF b k] .
  note S = set_booked_eq [OF s1]
  note B = inv_bookD [OF b]
  have z: "\<not> in1 s c \<and> \<not> in2 s c" if "bk s c = 0" using B(2,5) [of c] that by auto
  show "near c s ?t" using S(1-4) by (simp add: near_def)
  show "k_ok ?t pc'" using o pc z S(1-7) by (auto split: if_splits)
  show "inv_tickets cfg ?t" using B(1) pc k S(6-12) by (auto simp: inv_tickets_def cnt_upd)
  have y: "k_type_ok (clerk_pc s k)" using l k by (simp add: inv_locks_def)
  show "in1 ?t c \<Longrightarrow> bk ?t c = 1 \<and> ft ?t c \<in> {1, 3}" "in2 ?t c \<Longrightarrow> bk ?t c = 1 \<and> ft ?t c \<in> {2, 3}"
    using B(3,6) [of c] S(1-5) by simp_all
  show "k_has c (clerk_pc s k)" using pc by auto
qed (use set_booked_eq(6-15) [OF s1] in \<open>simp_all add: same1_def same2_def pending_def\<close>)

text \<open>The arrays.\<close>

lemma take_update_same: "i \<le> j \<Longrightarrow> take i (xs[j := v]) = take i xs"
  by simp

lemma inv_book_arr1:
  assumes d: "inv_ids cfg s" and q: "inv_queue ops cfg s" and l: "inv_locks ops cfg s" and b: "inv_book ops cfg s"
    and k: "k < numOfClerks" and pc: "clerk_pc s k = K_arr1 c t" and s1: "store_booked1 c s = Some s1"
  shows "inv_book ops cfg (clerk_to k (K_num1 c t) s1)" (is "inv_book ops cfg ?t")
proof (rule inv_book_near [OF d q l b k, of c ?t "K_num1 c t"])
  have o: "k_ok s (clerk_pc s k)" using inv_bookD(8) [OF b k] .
  have c: "flight1BookedCounter s < length (flight1BookedArr s)" "s1 = s\<lparr>flight1BookedArr := (flight1BookedArr s)[flight1BookedCounter s := c]\<rparr>"
    using s1 by (auto simp: store_booked1_def split: if_splits)
  let ?u = "\<lambda>y. clerk_to k y s1"
  have e: "in1 (?u y) x = in1 s x" "in2 (?u y) x = in2 s x" "bk (?u y) x = bk s x" "ft (?u y) x = ft s x" for x y
    by (simp_all add: c(2) in1_def in2_def bk_def ft_def)
  show "near c s ?t" by (simp add: near_def e)
  show "k_ok ?t (K_num1 c t)" using o pc c(1) by (auto simp: e) (simp_all add: c(2))
  show "inv_tickets cfg ?t" using inv_bookD(1) [OF b] o pc k by (simp add: inv_tickets_def cnt_upd c(2))
  show "in1 ?t c \<Longrightarrow> bk ?t c = 1 \<and> ft ?t c \<in> {1, 3}" "in2 ?t c \<Longrightarrow> bk ?t c = 1 \<and> ft ?t c \<in> {2, 3}"
    using inv_bookD(2,3,5,6) [OF b, of c] by (simp_all add: e)
  show "clerk_pc ?t = (clerk_pc s)(k := K_num1 c t)" "cust_pc ?t = cust_pc s" "pending ?t = pending s"
    "k_f2 (clerk_pc s k) \<or> same2 s ?t" "\<And>y. pm ops ?t (CUST_FINISHED y) = pm ops s (CUST_FINISHED y)"
    by (simp_all add: c(2) pending_def same2_def)
qed (use pc in simp_all)

lemma inv_book_arr2:
  assumes d: "inv_ids cfg s" and q: "inv_queue ops cfg s" and l: "inv_locks ops cfg s" and b: "inv_book ops cfg s"
    and k: "k < numOfClerks" and pc: "clerk_pc s k = K_arr2 c t" and s1: "store_booked2 c s = Some s1"
  shows "inv_book ops cfg (clerk_to k (K_num2 c t) s1)" (is "inv_book ops cfg ?t")
proof (rule inv_book_near [OF d q l b k, of c ?t "K_num2 c t"])
  have o: "k_ok s (clerk_pc s k)" using inv_bookD(8) [OF b k] .
  have c: "flight2BookedCounter s < length (flight2BookedArr s)" "s1 = s\<lparr>flight2BookedArr := (flight2BookedArr s)[flight2BookedCounter s := c]\<rparr>"
    using s1 by (auto simp: store_booked2_def split: if_splits)
  let ?u = "\<lambda>y. clerk_to k y s1"
  have e: "in1 (?u y) x = in1 s x" "in2 (?u y) x = in2 s x" "bk (?u y) x = bk s x" "ft (?u y) x = ft s x" for x y
    by (simp_all add: c(2) in1_def in2_def bk_def ft_def)
  show "near c s ?t" by (simp add: near_def e)
  show "k_ok ?t (K_num2 c t)" using o pc c(1) by (auto simp: e) (simp_all add: c(2))
  show "inv_tickets cfg ?t" using inv_bookD(1) [OF b] o pc k by (simp add: inv_tickets_def cnt_upd c(2))
  show "in1 ?t c \<Longrightarrow> bk ?t c = 1 \<and> ft ?t c \<in> {1, 3}" "in2 ?t c \<Longrightarrow> bk ?t c = 1 \<and> ft ?t c \<in> {2, 3}"
    using inv_bookD(2,3,5,6) [OF b, of c] by (simp_all add: e)
  show "clerk_pc ?t = (clerk_pc s)(k := K_num2 c t)" "cust_pc ?t = cust_pc s" "pending ?t = pending s"
    "k_f1 (clerk_pc s k) \<or> same1 s ?t" "\<And>y. pm ops ?t (CUST_FINISHED y) = pm ops s (CUST_FINISHED y)"
    by (simp_all add: c(2) pending_def same1_def)
qed (use pc in simp_all)

text \<open>The numbers of bookings.\<close>

lemma inv_book_num1:
  assumes d: "inv_ids cfg s" and q: "inv_queue ops cfg s" and l: "inv_locks ops cfg s" and b: "inv_book ops cfg s"
    and k: "k < numOfClerks" and pc: "clerk_pc s k = K_num1 c t"
  defines "pc' \<equiv> (if t = 3 then K_dec2 c t else K_sig1 c)"
  shows "inv_book ops cfg (clerk_to k pc' (s\<lparr>flight1BookedCounter := Suc (flight1BookedCounter s)\<rparr>))" (is "inv_book ops cfg ?t")
proof (rule inv_book_near [OF d q l b k, of c ?t pc'])
  have o: "ft s c = t" "bk s c = 1" "\<not> in1 s c" "\<not> in2 s c" "t = 3 \<Longrightarrow> 0 < flight2Counter s"
    "flight1BookedArr s ! flight1BookedCounter s = c" using inv_bookD(8) [OF b k] pc by simp_all
  have ty: "t = 1 \<or> t = 3" using l k pc unfolding inv_locks_def by force
  have c: "flight1BookedCounter s < length (flight1BookedArr s)" using tickets_mid(1) [OF inv_bookD(1) [OF b] k] pc by simp
  let ?u = "\<lambda>y. clerk_to k y (s\<lparr>flight1BookedCounter := Suc (flight1BookedCounter s)\<rparr>)"
  have e: "in1 (?u y) x \<longleftrightarrow> in1 s x \<or> x = c" "in2 (?u y) x = in2 s x" "bk (?u y) x = bk s x" "ft (?u y) x = ft s x" for x y
    using c o(6) by (auto simp: in1_def in2_def bk_def ft_def take_Suc_conv_app_nth)
  show "near c s ?t" by (simp add: near_def e)
  show "k_ok ?t pc'" using o ty by (auto simp: pc'_def e good_def)
  show "inv_tickets cfg ?t"
    using inv_bookD(1) [OF b] o(3,6) c k pc distinct_append1 [OF c] by (auto simp: inv_tickets_def cnt_upd pc'_def in1_def)
  show "in1 ?t c \<Longrightarrow> bk ?t c = 1 \<and> ft ?t c \<in> {1, 3}" "in2 ?t c \<Longrightarrow> bk ?t c = 1 \<and> ft ?t c \<in> {2, 3}"
    using o ty by (auto simp: e)
  show "clerk_pc ?t = (clerk_pc s)(k := pc')" "cust_pc ?t = cust_pc s" "pending ?t = pending s"
    "k_f2 (clerk_pc s k) \<or> same2 s ?t" "\<And>y. pm ops ?t (CUST_FINISHED y) = pm ops s (CUST_FINISHED y)"
    by (simp_all add: pending_def same2_def)
qed (use pc in simp_all)

lemma inv_book_num2:
  assumes d: "inv_ids cfg s" and q: "inv_queue ops cfg s" and l: "inv_locks ops cfg s" and b: "inv_book ops cfg s"
    and k: "k < numOfClerks" and pc: "clerk_pc s k = K_num2 c t"
  defines "pc' \<equiv> (if t = 3 then K_sig3a c else K_sig2 c)"
  shows "inv_book ops cfg (clerk_to k pc' (s\<lparr>flight2BookedCounter := Suc (flight2BookedCounter s)\<rparr>))" (is "inv_book ops cfg ?t")
proof (rule inv_book_near [OF d q l b k, of c ?t pc'])
  have o: "ft s c = t" "bk s c = 1" "t = 3 \<Longrightarrow> in1 s c" "\<not> in2 s c" "flight2BookedArr s ! flight2BookedCounter s = c"
    using inv_bookD(8) [OF b k] pc by simp_all
  have ty: "t = 2 \<or> t = 3" using l k pc unfolding inv_locks_def by force
  have c: "flight2BookedCounter s < length (flight2BookedArr s)" using tickets_mid(2) [OF inv_bookD(1) [OF b] k] pc by simp
  let ?u = "\<lambda>y. clerk_to k y (s\<lparr>flight2BookedCounter := Suc (flight2BookedCounter s)\<rparr>)"
  have e: "in2 (?u y) x \<longleftrightarrow> in2 s x \<or> x = c" "in1 (?u y) x = in1 s x" "bk (?u y) x = bk s x" "ft (?u y) x = ft s x" for x y
    using c o(5) by (auto simp: in1_def in2_def bk_def ft_def take_Suc_conv_app_nth)
  show "near c s ?t" by (simp add: near_def e)
  show "k_ok ?t pc'" using o ty by (auto simp: pc'_def e good_def)
  show "inv_tickets cfg ?t"
    using inv_bookD(1) [OF b] o(4,5) c k pc distinct_append1 [OF c] by (auto simp: inv_tickets_def cnt_upd pc'_def in2_def)
  show "in1 ?t c \<Longrightarrow> bk ?t c = 1 \<and> ft ?t c \<in> {1, 3}" "in2 ?t c \<Longrightarrow> bk ?t c = 1 \<and> ft ?t c \<in> {2, 3}"
    using o ty inv_bookD(3) [OF b, of c] by (auto simp: e)
  show "clerk_pc ?t = (clerk_pc s)(k := pc')" "cust_pc ?t = cust_pc s" "pending ?t = pending s"
    "k_f1 (clerk_pc s k) \<or> same1 s ?t" "\<And>y. pm ops ?t (CUST_FINISHED y) = pm ops s (CUST_FINISHED y)"
    by (simp_all add: pending_def same1_def)
qed (use pc in simp_all)

lemma inv_book_clerk:
  assumes L: "sem_laws ops" and k: "k < numOfClerks" and step: "clerk_step ops k s = Next s'"
    and d: "inv_ids cfg s" and q: "inv_queue ops cfg s" and l: "inv_locks ops cfg s" and b: "inv_book ops cfg s"
  shows "inv_book ops cfg s'"
proof (cases "k_books (clerk_pc s k)")
  case True
  then show ?thesis
    using step
    by (cases "clerk_pc s k")
      (auto simp: clerk_step_def or_fails_Next
        intro: inv_book_dec1 [OF d q l b k] inv_book_dec2 [OF d q l b k] inv_book_mark [OF d q l b k]
          inv_book_arr1 [OF d q l b k] inv_book_arr2 [OF d q l b k] dest: inv_book_num1 [OF d q l b k] inv_book_num2 [OF d q l b k])
qed (rule inv_book_quiet [OF L k step d q b])

section \<open>Customers and the master\<close>

lemma cust_quiet_step:
  assumes L: "sem_laws ops" and step: "cust_step ops r p s = Next s'"
    and n: "\<And>c t. cust_pc s p \<noteq> U_unbook c t" "\<And>c t. cust_pc s p \<noteq> U_info c t"
  shows "same_book s s' \<and> (\<forall>q. q \<noteq> p \<longrightarrow> cust_pc s' q = cust_pc s q) \<and>
    (pm ops s' (CUST_FINISHED c) = pm ops s (CUST_FINISHED c) \<or> pm ops s' (CUST_FINISHED c) = pm ops s (CUST_FINISHED c) - 1) \<and>
    (\<forall>t. cust_pc s p = U_fin c t \<longrightarrow> 0 < pm ops s (CUST_FINISHED c))"
  using step n
  by (cases "cust_pc s p"; simp add: cust_step_def; (elim wait_on_Next [OF L] signal_on_Next [OF L])?;
    force simp: same_book_def moved_sel or_fails_Next pick_flight_def take_place_def cust_enqueue_def split: if_splits)

lemma cust_place_step:
  assumes L: "sem_laws ops" and step: "cust_step ops r p s = Next s'" and u: "u_ok s (cust_pc s p)"
    and n: "\<And>c t. cust_pc s p \<noteq> U_unbook c t" "\<And>c t. cust_pc s p \<noteq> U_info c t" "\<And>c t. cust_pc s p \<noteq> U_fin c t"
  shows "u_ok s (cust_pc s' p)"
  using step n u
  by (cases "cust_pc s p"; simp add: cust_step_def; (elim wait_on_Next [OF L] signal_on_Next [OF L])?;
    force simp: moved_sel or_fails_Next pick_flight_def take_place_def cust_enqueue_def split: if_splits)

lemma cust_recorded:
  assumes L: "sem_laws ops" and p: "p < numOfCustomers cfg" and step: "cust_step ops r p s = Next s'" and rc: "recorded cfg s c"
  shows "recorded cfg s' c"
proof -
  obtain q where q: "q < numOfCustomers cfg" "u_enqueued (cust_pc s q)" "u_id (cust_pc s q) = Some c" using rc unfolding recorded_def by blast
  have "u_enqueued (cust_pc s' q) \<and> u_id (cust_pc s' q) = Some c"
    using step q(2,3)
    by (cases "cust_pc s p"; simp add: cust_step_def; (elim wait_on_Next [OF L] signal_on_Next [OF L])?;
      force simp: moved_sel or_fails_Next pick_flight_def take_place_def set_customer_def cust_enqueue_def split: if_splits)
  then show ?thesis using q(1) unfolding recorded_def by blast
qed

text \<open>What a customer that is not in the queue yet writes into its record nobody relies on.\<close>

lemma inv_book_record:
  assumes d: "inv_ids cfg s" and q: "inv_queue ops cfg s" and l: "inv_locks ops cfg s" and b: "inv_book ops cfg s"
    and p: "p < numOfCustomers cfg" and u: "u_id (cust_pc s p) = Some c" "\<not> u_enqueued (cust_pc s p)"
    and f: "set_customer c f s = Some s1" and pc: "u_ok (cust_to p pc s1) pc" "\<not> u_enqueued pc"
  shows "inv_book ops cfg (cust_to p pc s1)" (is "inv_book ops cfg ?t")
proof -
  note B = inv_bookD [OF b]
  have c: "0 \<le> c" "nat c < length (customers s)" "s1 = s\<lparr>customers := (customers s)[nat c := f (customers s ! nat c)]\<rparr>"
    using f by (auto simp: set_customer_def in_customers_def split: if_splits)
  have e: "in1 ?t x = in1 s x" "in2 ?t x = in2 s x" for x by (simp_all add: c(3) in1_def in2_def)
  have o: "bk ?t x = bk s x" "ft ?t x = ft s x" if "x \<noteq> c" "0 \<le> x" for x
    using c(2) eq_nat_nat_iff [OF c(1) that(2)] that(1) by (auto simp: c(3) bk_def ft_def nth_list_update)
  have nr: "\<not> recorded cfg s c" using inv_idsD(4) [OF d p] u unfolding recorded_def by metis
  have nw: "\<not> 1 \<le> custs_at (u_wants c) cfg s"
    using wants_ex [of c s cfg] inv_idsD(4) [OF d p] u u_wants_id u_wants_enqueued by metis
  have rec: "recorded cfg ?t x" if "recorded cfg s x" for x
    using that u(2) unfolding recorded_def by (auto simp: c(3))
  have pos: "0 \<le> x" if "recorded cfg s x" for x using that inv_idsD(2) [OF d] unfolding recorded_def by blast
  have ids: "0 \<le> x \<and> x \<noteq> c" if "1 \<le> custs_at (u_wants x) cfg s" for x
    using wants_ex [OF that] inv_idsD(2) [OF d] u_wants_id nw that by blast
  show ?thesis
  proof (rule inv_bookI)
    show "inv_tickets cfg ?t" using B(1) by (simp add: inv_tickets_def c(3))
    show "bk ?t x = 1 \<and> ft ?t x \<in> {1, 3} \<and> recorded cfg ?t x" if "in1 ?t x" for x
    proof -
      have x: "in1 s x" using that e by simp
      have "x \<noteq> c" "0 \<le> x" using B(4) [OF x] nr pos by auto
      then show ?thesis using B(2-4) [OF x] o rec by simp
    qed
    show "bk ?t x = 1 \<and> ft ?t x \<in> {2, 3} \<and> recorded cfg ?t x" if "in2 ?t x" for x
    proof -
      have x: "in2 s x" using that e by simp
      have "x \<noteq> c" "0 \<le> x" using B(7) [OF x] nr pos by auto
      then show ?thesis using B(5-7) [OF x] o rec by simp
    qed
    show "k_ok ?t (clerk_pc ?t k)" if k: "k < numOfClerks" for k
    proof -
      have x: "0 \<le> x \<and> x \<noteq> c" if "k_has x (clerk_pc s k)" for x using ids [OF has_wants [OF q k that]] .
      have g: "good ?t x = good s x" if "0 \<le> x \<and> x \<noteq> c" for x using that o e by (simp add: good_def)
      have "k_ok ?t (clerk_pc s k)"
        using B(8) [OF k] x by (cases "clerk_pc s k") (simp_all add: e o g, simp_all add: c(3))
      then show ?thesis by (simp add: c(3))
    qed
    show "u_ok ?t (cust_pc ?t r)" if r: "r < numOfCustomers cfg" for r
    proof (cases "r = p")
      case False
      have x: "0 \<le> x \<and> x \<noteq> c" if "u_id (cust_pc s r) = Some x" for x
        using inv_idsD(2,4) [OF d r] p u(1) that False by blast
      have g: "good ?t x = good s x" if "0 \<le> x \<and> x \<noteq> c" for x using that o e by (simp add: good_def)
      have "u_ok ?t (cust_pc s r)" using B(9) [OF r] x by (cases "cust_pc s r") (simp_all add: o g)
      then show ?thesis using False by (simp add: c(3))
    qed (simp add: pc)
    have pen: "pending ?t = pending s" by (simp add: pending_def c(3))
    show "bk ?t x = 0" if "x \<in> set (pending ?t)" for x
      using that B(10) [of x] ids [OF in_pending_wants [OF q, of x]] o pen by simp
    show "good ?t x" if "0 < pm ops ?t (CUST_FINISHED x)" for x
    proof -
      have x: "0 < pm ops s (CUST_FINISHED x)" using that by (simp add: c(3))
      then have "1 \<le> custs_at (u_wants x) cfg s"
        using inv_queueD(5) [OF q, of x] cnt_nonneg [of "k_has x" "clerk_pc s" numOfClerks] by linarith
      then show ?thesis using ids [of x] B(11) [OF x] o e by (simp add: good_def)
    qed
  qed
qed

text \<open>Other steps of a customer leave the bookings alone.\<close>

lemma cust_pending:
  assumes L: "sem_laws ops" and p: "p < numOfCustomers cfg" and step: "cust_step ops r p s = Next s'" and q: "inv_queue ops cfg s"
    and x: "x \<in> set (pending s')"
  shows "x \<in> set (pending s) \<or> (\<exists>t. cust_pc s p = U_qin x t)"
proof -
  note Q = inv_queueD [OF q]
  consider (enq) c t where "cust_pc s p = U_enq c t" | (qin) c t where "cust_pc s p = U_qin c t"
    | (other) "\<And>c t. cust_pc s p \<noteq> U_enq c t" "\<And>c t. cust_pc s p \<noteq> U_qin c t" by metis
  then show ?thesis
  proof cases
    case enq
    have "s' = cust_to p (U_qin c t) (s\<lparr>cust_ready_queue := (cust_ready_queue s)[queue_in s := c]\<rparr>)"
      using step enq by (simp add: cust_step_def cust_enqueue_def or_fails_Next split: if_splits)
    then show ?thesis using x by (simp add: pending_def)
  next
    case qin
    have less: "queue_in s < numOfCustomers cfg" by (rule queue_in_less [OF q p]) (simp add: qin)
    have s': "s' = cust_to p (U_qsig c t) (s\<lparr>queue_in := queue_in s + 1\<rparr>)" using step qin by (simp add: cust_step_def)
    have "pending s' = pending s @ [c]"
      using Q(6) [OF p qin] Q(1,4) less by (simp add: s' pending_def take_Suc_conv_app_nth)
    then show ?thesis using x qin by auto
  next
    case other
    have "pending s' = pending s"
      using cust_sums [OF L p step other] cust_step_frame(4) [OF L step] by (intro pending_cong) simp_all
    then show ?thesis using x by simp
  qed
qed

lemma inv_book_customer_quiet:
  assumes L: "sem_laws ops" and p: "p < numOfCustomers cfg" and step: "cust_step ops r p s = Next s'"
    and q: "inv_queue ops cfg s" and b: "inv_book ops cfg s"
    and n: "\<And>c t. cust_pc s p \<noteq> U_unbook c t" "\<And>c t. cust_pc s p \<noteq> U_info c t"
  shows "inv_book ops cfg s'"
proof -
  note fr = cust_step_frame [OF L step] and B = inv_bookD [OF b] and C = cust_quiet_step [OF L step n]
  have same: "same_book s s'" using C by blast
  note e = same_book_eq [OF same] and ok = same_book_ok [OF same]
  have rec: "recorded cfg s' x" if "recorded cfg s x" for x by (rule cust_recorded [OF L p step that])
  have me: "u_ok s (cust_pc s' p)"
  proof (cases "\<exists>c t. cust_pc s p = U_fin c t")
    case True
    then obtain c t where c: "cust_pc s p = U_fin c t" by blast
    have "0 < pm ops s (CUST_FINISHED c)" using C [of c] c by blast
    then have "good s c" by (rule B(11))
    moreover have "cust_pc s' p = U_capsig c t"
      using step c by (auto simp: cust_step_def elim!: wait_on_Next [OF L])
    ultimately show ?thesis using B(9) [OF p] c by simp
  next
    case False
    then show ?thesis by (intro cust_place_step [OF L step B(9) [OF p] n]) blast
  qed
  show ?thesis
  proof (rule inv_bookI)
    show "inv_tickets cfg s'" using inv_tickets_same [OF B(1) same] fr(1) by simp
    show "bk s' x = 1 \<and> ft s' x \<in> {1, 3} \<and> recorded cfg s' x" if "in1 s' x" for x using B(2-4) [of x] that rec by (simp add: e)
    show "bk s' x = 1 \<and> ft s' x \<in> {2, 3} \<and> recorded cfg s' x" if "in2 s' x" for x using B(5-7) [of x] that rec by (simp add: e)
    show "k_ok s' (clerk_pc s' k)" if "k < numOfClerks" for k using B(8) [OF that] by (simp add: ok fr)
    show "u_ok s' (cust_pc s' a)" if "a < numOfCustomers cfg" for a
    proof (cases "a = p")
      case False
      then have "cust_pc s' a = cust_pc s a" using C by blast
      then show ?thesis using B(9) [OF that] by (simp add: ok)
    qed (simp add: ok me)
    show "bk s' x = 0" if "x \<in> set (pending s')" for x
      using cust_pending [OF L p step q that] B(9) [OF p] B(10) [of x] by (auto simp: e)
    show "good s' x" if "0 < pm ops s' (CUST_FINISHED x)" for x
    proof -
      have "pm ops s' (CUST_FINISHED x) = pm ops s (CUST_FINISHED x) \<or> pm ops s' (CUST_FINISHED x) = pm ops s (CUST_FINISHED x) - 1"
        using C [of x] by blast
      then have "0 < pm ops s (CUST_FINISHED x)" using that by linarith
      then show ?thesis using B(11) [of x] by (simp add: e)
    qed
  qed
qed

lemma inv_book_customer:
  assumes L: "sem_laws ops" and p: "p < numOfCustomers cfg" and step: "cust_step ops r p s = Next s'"
    and d: "inv_ids cfg s" and q: "inv_queue ops cfg s" and l: "inv_locks ops cfg s" and b: "inv_book ops cfg s"
  shows "inv_book ops cfg s'"
proof -
  note u = inv_bookD(9) [OF b p]
  have set_pos: "\<And>c f s1. set_customer c f s = Some s1 \<Longrightarrow>
      0 \<le> c \<and> nat c < length (customers s) \<and> s1 = s\<lparr>customers := (customers s)[nat c := f (customers s ! nat c)]\<rparr>"
    by (auto simp: set_customer_def in_customers_def split: if_splits)
  consider (unbook) c t where "cust_pc s p = U_unbook c t" | (info) c t where "cust_pc s p = U_info c t"
    | (other) "\<And>c t. cust_pc s p \<noteq> U_unbook c t" "\<And>c t. cust_pc s p \<noteq> U_info c t" by metis
  then show ?thesis
  proof cases
    case unbook
    then obtain s1 where s1: "set_customer c (\<lambda>x. x\<lparr>booked := 0\<rparr>) s = Some s1" "s' = cust_to p (U_info c t) s1"
      using step by (auto simp: cust_step_def or_fails_Next)
    show ?thesis unfolding s1(2)
      by (rule inv_book_record [OF d q l b p _ _ s1(1)]) (use unbook set_pos [OF s1(1)] in \<open>auto simp: bk_def\<close>)
  next
    case info
    then obtain s1 where s1: "set_customer c (\<lambda>x. x\<lparr>flightType := t\<rparr>) s = Some s1" "s' = cust_to p (U_qwait c t) s1"
      using step by (auto simp: cust_step_def or_fails_Next)
    show ?thesis unfolding s1(2)
      by (rule inv_book_record [OF d q l b p _ _ s1(1)]) (use info u set_pos [OF s1(1)] in \<open>auto simp: bk_def ft_def\<close>)
  next
    case other
    show ?thesis by (rule inv_book_customer_quiet [OF L p step q b other])
  qed
qed

lemma inv_book_master:
  assumes L: "sem_laws ops" and step: "master_step ops cfg s = Next s'" and q: "inv_queue ops cfg s" and b: "inv_book ops cfg s"
  shows "inv_book ops cfg s'"
proof -
  note fr = master_step_frame [OF L step] and B = inv_bookD [OF b]
  have c: "cust_ready_queue s' = (if master s = M_mark then (cust_ready_queue s)[numOfCustomers cfg := -1] else cust_ready_queue s)"
    using step
    by (cases "master s"; simp add: master_step_def split: if_splits; (elim wait_on_Next [OF L] signal_on_Next [OF L])?; force simp: moved_sel)
  have pen: "pending s' = pending s" using queue_in_le [OF q] by (simp add: pending_def fr c)
  have same: "same_book s s'" by (simp add: same_book_def fr)
  note e = same_book_eq [OF same] and ok = same_book_ok [OF same]
  have rec: "recorded cfg s' x = recorded cfg s x" for x by (simp add: recorded_def fr)
  have tic: "inv_tickets cfg s'" using inv_tickets_same [OF B(1) same] fr(2) by simp
  show ?thesis by (rule inv_bookI) (use B(3,6) in \<open>simp_all add: B tic e ok rec pen fr\<close>)
qed

end
