(* ===== verification/FOS_AirLive.thy ===== *)
theory FOS_AirLive
  imports FOS_AirBook
begin

text \<open>
  The invariant of the reservation program as a whole, and progress: what the clerks and the master owe each other when the agency closes, which
  processes can be stuck, and a measure that every step lowers.
\<close>

section \<open>Closing\<close>

fun k_over :: "clerk_at \<Rightarrow> bool" where
  "k_over K_done = True" | "k_over _ = False"

fun k_busy :: "clerk_at \<Rightarrow> bool" where
  "k_busy K_ready = False" | "k_busy _ = True"

definition joined :: "master_at \<Rightarrow> int" where
  "joined a = (case a of M_join k \<Rightarrow> int k | M_done \<Rightarrow> 3 | _ \<Rightarrow> 0)"

definition called :: "master_at \<Rightarrow> int" where
  "called a = (case a of M_signal k \<Rightarrow> int k | M_join k \<Rightarrow> 3 | M_done \<Rightarrow> 3 | _ \<Rightarrow> 0)"

definition inv_close :: "'m sem_ops \<Rightarrow> 'm air \<Rightarrow> bool" where
  "inv_close ops s \<longleftrightarrow>
     pm ops s CLERKTERMINATED + joined (master s) = clerks_at k_over s \<and>
     called (master s) \<le> pm ops s CUST_READY + clerks_at k_busy s"

lemma inv_close_clerk:
  assumes L: "sem_laws ops" and k: "k < numOfClerks" and step: "clerk_step ops k s = Next s'" and f: "inv_flow ops cfg s"
    and i: "inv_close ops s"
  shows "inv_close ops s'"
proof (cases "closing s")
  case True
  have n: "\<not> isOpened s" using inv_flowD(1) [OF f] True by blast
  show ?thesis
    using step n
    by (cases "clerk_pc s k"; simp add: clerk_step_def; (elim wait_on_Next [OF L] signal_on_Next [OF L])?;
      use i k in \<open>force simp: inv_close_def cnt_upd moved_sel or_fails_Next clerk_take_def clerk_switch_def set_customer_def
        store_booked1_def store_booked2_def Let_def split: if_splits\<close>)
next
  case False
  have c: "called (master s') = 0" using False clerk_step_frame(6) [OF L step]
    by (auto simp: called_def closing_def split: master_at.splits)
  have "pm ops s' CLERKTERMINATED + joined (master s') = clerks_at k_over s'"
    using step
    by (cases "clerk_pc s k"; simp add: clerk_step_def; (elim wait_on_Next [OF L] signal_on_Next [OF L])?;
      use i k in \<open>force simp: inv_close_def cnt_upd moved_sel or_fails_Next clerk_take_def clerk_switch_def set_customer_def
        store_booked1_def store_booked2_def Let_def split: if_splits\<close>)
  then show ?thesis by (simp add: inv_close_def c add_nonneg_nonneg)
qed

lemma inv_close_customer:
  assumes L: "sem_laws ops" and step: "cust_step ops r p s = Next s'" and i: "inv_close ops s"
  shows "inv_close ops s'"
  using step
  by (cases "cust_pc s p"; simp add: cust_step_def; (elim wait_on_Next [OF L] signal_on_Next [OF L])?;
    use i in \<open>force simp: inv_close_def moved_sel or_fails_Next set_customer_def cust_enqueue_def pick_flight_def take_place_def split: if_splits\<close>)

lemma inv_close_master:
  assumes L: "sem_laws ops" and step: "master_step ops cfg s = Next s'" and l: "inv_locks ops cfg s" and i: "inv_close ops s"
  shows "inv_close ops s'"
  using step
  by (cases "master s"; simp add: master_step_def split: if_splits; (elim wait_on_Next [OF L] signal_on_Next [OF L])?;
    use i l in \<open>force simp: inv_close_def inv_locks_def master_ok_def moved_sel joined_def called_def numOfClerks_def add_nonneg_nonneg\<close>)

section \<open>The invariant\<close>

definition air_inv :: "'m sem_ops \<Rightarrow> air_config \<Rightarrow> 'm air \<Rightarrow> bool" where
  "air_inv ops cfg s \<longleftrightarrow>
     inv_locks ops cfg s \<and> inv_ids cfg s \<and> inv_queue ops cfg s \<and> inv_flow ops cfg s \<and> inv_book ops cfg s \<and> inv_close ops s"

lemma air_invD:
  assumes "air_inv ops cfg s"
  shows "inv_locks ops cfg s" "inv_ids cfg s" "inv_queue ops cfg s" "inv_flow ops cfg s" "inv_book ops cfg s" "inv_close ops s"
  using assms unfolding air_inv_def by blast+

lemma air_inv_step:
  assumes L: "sem_laws ops" and step: "air_step ops cfg s s'" and i: "air_inv ops cfg s"
  shows "air_inv ops cfg s'"
  using step
proof cases
  case (a_clerk k)
  note d = air_invD [OF i]
  show ?thesis
    unfolding air_inv_def
    using inv_locks_clerk [OF L a_clerk d(1)] inv_ids_cong [of s' s cfg] clerk_step_frame [OF L a_clerk(2)] d(2)
      inv_queue_clerk [OF L a_clerk d(1-4)] inv_flow_clerk [OF L a_clerk d(2-4)] inv_book_clerk [OF L a_clerk d(2,3,1,5)]
      inv_close_clerk [OF L a_clerk d(4,6)] by simp
next
  case (a_customer p r)
  note d = air_invD [OF i] and st = a_customer(1,4)
  show ?thesis
    unfolding air_inv_def
    using inv_locks_customer [OF L st d(1)] inv_ids_customer [OF L st d(2,1)] inv_queue_customer [OF L st d(1,3)]
      inv_flow_customer [OF L st d(4)] inv_book_customer [OF L st d(2,3,1,5)] inv_close_customer [OF L st(2) d(6)] by simp
next
  case a_master
  note d = air_invD [OF i]
  show ?thesis
    unfolding air_inv_def
    using inv_locks_master [OF L a_master d(1)] inv_ids_cong [of s' s cfg] master_step_frame(1,3-6) [OF L a_master] d(2)
      inv_queue_master [OF L a_master d(1,3)] inv_flow_master [OF L a_master d(1,3,4)] inv_book_master [OF L a_master d(3,5)]
      inv_close_master [OF L a_master d(1,6)] by simp
qed

lemma air_inv_start:
  assumes st: "air_start ops cfg s"
  shows "air_inv ops cfg s"
proof -
  have pc: "\<forall>k. clerk_pc s k = K_open" "\<forall>p. cust_pc s p = U_start" and m: "master s = M_wait 0"
    and pm: "\<And>x. pm ops s x = int (case x of CAPACITY \<Rightarrow> agentCapacity cfg | CLERK \<Rightarrow> 3 | FLIGHT1CS \<Rightarrow> 1 | FLIGHT2CS \<Rightarrow> 1 | CUSTCOUNTERCS \<Rightarrow> 1
      | CUSTQUEUECS \<Rightarrow> 1 | _ \<Rightarrow> 0)"
    using st unfolding air_start_def pm_def by simp_all
  have cs: "custs_at P cfg s = 0" if "\<not> P U_start" for P using that pc by (simp add: cnt_zero)
  have ks: "clerks_at P s = 0" if "\<not> P K_open" for P using that pc by (simp add: cnt_zero)
  have nc: "\<not> closing s" by (simp add: closing_def m)
  have pe: "pending s = []" using st by (simp add: air_start_def pending_def)
  show ?thesis
    unfolding air_inv_def
  proof (intro conjI)
    show "inv_locks ops cfg s" using pc m pm by (simp add: inv_locks_def cs ks waited_def master_ok_def)
    show "inv_ids cfg s" using st pc by (simp add: inv_ids_def cs has_id_def has_flight_def air_start_def)
    show "inv_queue ops cfg s" using st pc pm by (simp add: inv_queue_def cs ks pe air_start_def)
    show "inv_flow ops cfg s" using st pc pm nc by (simp add: inv_flow_def cs ks air_start_def)
    show "inv_book ops cfg s"
      using st pc pm by (simp add: inv_book_def inv_tickets_def in1_def in2_def cs ks pe air_start_def)
    show "inv_close ops s" using m pm by (simp add: inv_close_def ks joined_def called_def)
  qed
qed

lemma air_inv_reachable:
  assumes "sem_laws ops" "(air_step ops cfg)\<^sup>*\<^sup>* s0 s" "air_start ops cfg s0"
  shows "air_inv ops cfg s"
  using assms(2)
proof (induction rule: rtranclp_induct)
  case base
  show ?case by (rule air_inv_start [OF assms(3)])
next
  case (step y z)
  then show ?case using air_inv_step [OF assms(1)] by blast
qed

section \<open>Nobody is stuck\<close>

text \<open>A clerk that waits.\<close>

fun k_waits :: "clerk_at \<Rightarrow> asem option" where
  "k_waits K_ready = Some CUST_READY" | "k_waits K_queue = Some CUSTQUEUECS" | "k_waits (K_wait1 c) = Some FLIGHT1CS"
| "k_waits (K_wait2 c) = Some FLIGHT2CS" | "k_waits (K_wait3a c) = Some FLIGHT1CS" | "k_waits (K_wait3b c) = Some FLIGHT2CS"
| "k_waits _ = None"

fun u_waits :: "customer_at \<Rightarrow> asem option" where
  "u_waits U_start = Some CUSTCOUNTERCS" | "u_waits (U_cap c t) = Some CAPACITY" | "u_waits (U_clerk c t) = Some CLERK"
| "u_waits (U_qwait c t) = Some CUSTQUEUECS" | "u_waits (U_fin c t) = Some (CUST_FINISHED c)" | "u_waits _ = None"

lemma clerk_stuck:
  assumes "sem_laws ops" "clerk_step ops k s = Waits"
  shows "k_over (clerk_pc s k) \<or> (\<exists>x. k_waits (clerk_pc s k) = Some x \<and> pm ops s x = 0)"
  using assms by (cases "clerk_pc s k") (auto simp: clerk_step_def wait_on_Waits or_fails_def split: option.splits)

lemma cust_stuck:
  assumes "sem_laws ops" "cust_step ops r p s = Waits"
  shows "u_done (cust_pc s p) \<or> (\<exists>x. u_waits (cust_pc s p) = Some x \<and> pm ops s x = 0)"
  using assms by (cases "cust_pc s p") (auto simp: cust_step_def wait_on_Waits or_fails_def split: option.splits)

lemma master_stuck:
  assumes "sem_laws ops" "master_step ops cfg s = Waits"
  shows "master s = M_done \<or> (\<exists>i. master s = M_wait i \<and> i < numOfCustomers cfg \<and> pm ops s CUSTTERMINATED = 0) \<or>
    (\<exists>k. master s = M_join k \<and> k < numOfClerks \<and> pm ops s CLERKTERMINATED = 0)"
  using assms by (cases "master s") (auto simp: master_step_def wait_on_Waits split: if_splits)

text \<open>A semaphore that protects a critical section is only waited for while somebody is inside, and then that one can go on.\<close>

lemma locks_busy:
  assumes "inv_locks ops cfg s"
  shows "pm ops s CUSTCOUNTERCS = 0 \<Longrightarrow> \<exists>p < numOfCustomers cfg. u_counter (cust_pc s p)"
    "pm ops s CUSTQUEUECS = 0 \<Longrightarrow> (\<exists>p < numOfCustomers cfg. u_queue (cust_pc s p)) \<or> (\<exists>k < numOfClerks. k_queue (clerk_pc s k))"
    "pm ops s FLIGHT1CS = 0 \<Longrightarrow> \<exists>k < numOfClerks. k_f1 (clerk_pc s k)"
    "pm ops s FLIGHT2CS = 0 \<Longrightarrow> \<exists>k < numOfClerks. k_f2 (clerk_pc s k)"
proof -
  have z: "cnt P f n \<noteq> 0 \<Longrightarrow> \<exists>i < n. P (f i)" for P :: "'x \<Rightarrow> bool" and f n using cnt_zero [of P f n] by blast
  note i = assms [unfolded inv_locks_def]
  show "\<exists>p < numOfCustomers cfg. u_counter (cust_pc s p)" if "pm ops s CUSTCOUNTERCS = 0" using i that by (intro z) simp
  show "\<exists>k < numOfClerks. k_f1 (clerk_pc s k)" if "pm ops s FLIGHT1CS = 0" using i that by (intro z) simp
  show "\<exists>k < numOfClerks. k_f2 (clerk_pc s k)" if "pm ops s FLIGHT2CS = 0" using i that by (intro z) simp
  show "(\<exists>p < numOfCustomers cfg. u_queue (cust_pc s p)) \<or> (\<exists>k < numOfClerks. k_queue (clerk_pc s k))" if "pm ops s CUSTQUEUECS = 0"
  proof (rule ccontr)
    assume "\<not> ?thesis"
    then have "custs_at u_queue cfg s = 0" "clerks_at k_queue s = 0" by (auto simp: cnt_zero)
    then show False using i that by simp
  qed
qed

lemma queue_free:
  assumes l: "inv_locks ops cfg s"
    and k: "\<And>k. k < numOfClerks \<Longrightarrow> k_over (clerk_pc s k) \<or> (\<exists>x. k_waits (clerk_pc s k) = Some x \<and> pm ops s x = 0)"
    and u: "\<And>p. p < numOfCustomers cfg \<Longrightarrow> u_done (cust_pc s p) \<or> (\<exists>x. u_waits (cust_pc s p) = Some x \<and> pm ops s x = 0)"
  shows "\<And>k. k < numOfClerks \<Longrightarrow> clerk_pc s k = K_done \<or> clerk_pc s k = K_ready \<and> pm ops s CUST_READY = 0"
    "\<And>p. p < numOfCustomers cfg \<Longrightarrow> (\<exists>c t. cust_pc s p = U_done c t \<or> cust_pc s p = U_cap c t \<and> pm ops s CAPACITY = 0 \<or>
      cust_pc s p = U_clerk c t \<and> pm ops s CLERK = 0 \<or> cust_pc s p = U_fin c t \<and> pm ops s (CUST_FINISHED c) = 0)"
proof -
  note lb = locks_busy [OF l]
  have "\<not> k_queue (clerk_pc s j)" if "j < numOfClerks" for j using k [OF that] by (cases "clerk_pc s j") auto
  moreover have "\<not> u_queue (cust_pc s j)" if "j < numOfCustomers cfg" for j using u [OF that] by (cases "cust_pc s j") auto
  ultimately have q: "pm ops s CUSTQUEUECS \<noteq> 0" using lb(2) by blast
  have "\<not> u_counter (cust_pc s j)" if "j < numOfCustomers cfg" for j using u [OF that] by (cases "cust_pc s j") auto
  then have c: "pm ops s CUSTCOUNTERCS \<noteq> 0" using lb(1) by blast
  have "\<not> k_f2 (clerk_pc s j)" if "j < numOfClerks" for j using k [OF that] by (cases "clerk_pc s j") auto
  then have f2: "pm ops s FLIGHT2CS \<noteq> 0" using lb(4) by blast
  have "\<not> k_f1 (clerk_pc s j)" if "j < numOfClerks" for j using k [OF that] f2 by (cases "clerk_pc s j") auto
  then have f1: "pm ops s FLIGHT1CS \<noteq> 0" using lb(3) by blast
  show "clerk_pc s j = K_done \<or> clerk_pc s j = K_ready \<and> pm ops s CUST_READY = 0" if "j < numOfClerks" for j
    using k [OF that] q f1 f2 by (cases "clerk_pc s j") auto
  show "\<exists>c t. cust_pc s j = U_done c t \<or> cust_pc s j = U_cap c t \<and> pm ops s CAPACITY = 0 \<or>
      cust_pc s j = U_clerk c t \<and> pm ops s CLERK = 0 \<or> cust_pc s j = U_fin c t \<and> pm ops s (CUST_FINISHED c) = 0" if "j < numOfCustomers cfg" for j
    using u [OF that] q c by (cases "cust_pc s j") auto
qed

text \<open>While the agency is open, that all wait means that all customers are served and the master may count them.\<close>

lemma open_stuck:
  assumes i: "air_inv ops cfg s" and cap: "0 < agentCapacity cfg" and w: "master s = M_wait i"
    and k: "\<And>k. k < numOfClerks \<Longrightarrow> clerk_pc s k = K_done \<or> clerk_pc s k = K_ready \<and> pm ops s CUST_READY = 0"
    and u: "\<And>p. p < numOfCustomers cfg \<Longrightarrow> (\<exists>c t. cust_pc s p = U_done c t \<or> cust_pc s p = U_cap c t \<and> pm ops s CAPACITY = 0 \<or>
      cust_pc s p = U_clerk c t \<and> pm ops s CLERK = 0 \<or> cust_pc s p = U_fin c t \<and> pm ops s (CUST_FINISHED c) = 0)"
  shows "int i + pm ops s CUSTTERMINATED = int (numOfCustomers cfg)"
proof -
  note d = air_invD [OF i] and F = inv_flowD [OF air_invD(4) [OF i]] and Q = inv_queueD [OF air_invD(3) [OF i]]
  have nc: "\<not> closing s" and op: "isOpened s" using w F(1) by (simp_all add: closing_def)
  have kr: "clerk_pc s j = K_ready \<and> pm ops s CUST_READY = 0" if "j < numOfClerks" for j using k [OF that] F(2) [OF op that] by auto
  have r: "pm ops s CUST_READY = 0" using kr [of 0] by (simp add: numOfClerks_def)
  have kz: "clerks_at P s = 0" if "\<not> P K_ready" for P using that kr by (simp add: cnt_zero)
  have "\<not> u_called (cust_pc s p)" "\<not> u_unsig (cust_pc s p)" if "p < numOfCustomers cfg" for p using u [OF that] by auto
  then have uz: "custs_at u_called cfg s = 0" "custs_at u_unsig cfg s = 0" by (simp_all add: cnt_zero)
  have clerk: "pm ops s CLERK = 3" using F(8) [OF nc] uz r kz by simp
  have "pending s = []" using F(7) [OF nc] uz r kz by (simp add: pending_def)
  then have wants: "pm ops s (CUST_FINISHED c) = custs_at (u_wants c) cfg s" for c using Q(5) [of c] kz by simp
  have nf: "\<not> (\<exists>c t. cust_pc s p = U_fin c t)" if p: "p < numOfCustomers cfg" for p
  proof
    assume "\<exists>c t. cust_pc s p = U_fin c t"
    then obtain c t where c: "cust_pc s p = U_fin c t" by blast
    have "1 \<le> custs_at (u_wants c) cfg s" by (rule cnt_pos [OF p]) (simp add: c)
    then show False using u [OF p] c wants [of c] by auto
  qed
  have "\<not> u_inside (cust_pc s p)" if "p < numOfCustomers cfg" for p using u [OF that] nf [OF that] clerk by auto
  then have "custs_at u_inside cfg s = 0" by (simp add: cnt_zero)
  then have ca: "pm ops s CAPACITY = int (agentCapacity cfg)" using d(1) by (simp add: inv_locks_def)
  have "u_done (cust_pc s p)" if "p < numOfCustomers cfg" for p using u [OF that] nf [OF that] clerk ca cap by auto
  then have "custs_at u_done cfg s = int (numOfCustomers cfg)" by (simp add: cnt_full)
  then show ?thesis using d(1) w by (simp add: inv_locks_def waited_def)
qed

lemma not_all_wait:
  assumes L: "sem_laws ops" and i: "air_inv ops cfg s" and cap: "0 < agentCapacity cfg" and m: "master s \<noteq> M_done"
  shows "(\<exists>k < numOfClerks. clerk_step ops k s \<noteq> Waits) \<or> (\<exists>p < numOfCustomers cfg. cust_step ops r p s \<noteq> Waits) \<or> master_step ops cfg s \<noteq> Waits"
proof (rule ccontr)
  assume a: "\<not> ?thesis"
  note d = air_invD [OF i]
  have k: "k_over (clerk_pc s k) \<or> (\<exists>x. k_waits (clerk_pc s k) = Some x \<and> pm ops s x = 0)" if "k < numOfClerks" for k
    using a that by (intro clerk_stuck [OF L]) blast
  have u: "u_done (cust_pc s p) \<or> (\<exists>x. u_waits (cust_pc s p) = Some x \<and> pm ops s x = 0)" if "p < numOfCustomers cfg" for p
    using a that by (intro cust_stuck [OF L]) blast
  have q1: "clerk_pc s j = K_done \<or> clerk_pc s j = K_ready \<and> pm ops s CUST_READY = 0" if "j < numOfClerks" for j
    by (rule queue_free(1) [OF d(1) _ _ that]) (erule k, erule u)
  have q2: "\<exists>c t. cust_pc s j = U_done c t \<or> cust_pc s j = U_cap c t \<and> pm ops s CAPACITY = 0 \<or>
      cust_pc s j = U_clerk c t \<and> pm ops s CLERK = 0 \<or> cust_pc s j = U_fin c t \<and> pm ops s (CUST_FINISHED c) = 0"
    if "j < numOfCustomers cfg" for j
    by (rule queue_free(2) [OF d(1) _ _ that]) (erule k, erule u)
  have "(\<exists>i. master s = M_wait i \<and> i < numOfCustomers cfg \<and> pm ops s CUSTTERMINATED = 0) \<or>
      (\<exists>k. master s = M_join k \<and> k < numOfClerks \<and> pm ops s CLERKTERMINATED = 0)"
    using master_stuck [OF L, of cfg s] a m by blast
  then show False
  proof
    assume "\<exists>i. master s = M_wait i \<and> i < numOfCustomers cfg \<and> pm ops s CUSTTERMINATED = 0"
    then obtain j where j: "master s = M_wait j" "j < numOfCustomers cfg" "pm ops s CUSTTERMINATED = 0" by blast
    have "int j + pm ops s CUSTTERMINATED = int (numOfCustomers cfg)"
      by (rule open_stuck [OF i cap j(1)]) (erule q1, erule q2)
    then show False using j(2,3) by simp
  next
    assume "\<exists>k. master s = M_join k \<and> k < numOfClerks \<and> pm ops s CLERKTERMINATED = 0"
    then obtain k where k: "master s = M_join k" "k < numOfClerks" "pm ops s CLERKTERMINATED = 0" by blast
    have o: "int k = clerks_at k_over s" "3 \<le> pm ops s CUST_READY + clerks_at k_busy s"
      using d(6) k by (simp_all add: inv_close_def joined_def called_def)
    have "clerks_at k_over s < int numOfClerks" using o(1) k(2) by simp
    then obtain j where j: "j < numOfClerks" "\<not> k_over (clerk_pc s j)" using cnt_full [of k_over "clerk_pc s" numOfClerks] by auto
    then have r: "clerk_pc s j = K_ready" "pm ops s CUST_READY = 0" using q1 [OF j(1)] by auto
    have "clerks_at k_busy s < int numOfClerks" by (rule cnt_less [OF j(1)]) (simp add: r)
    then show False using o(2) r(2) by (simp add: numOfClerks_def)
  qed
qed

end
