(* ===== verification/FOS_AirThms.thy ===== *)
theory FOS_AirThms
  imports FOS_AirLive
begin

text \<open>The properties of the reservation program: it does not fail, books nobody twice and nothing it has not got, and comes to its end.\<close>

section \<open>No failure\<close>

lemma id_in_customers:
  assumes d: "inv_ids cfg s" and q: "inv_queue ops cfg s" and p: "p < numOfCustomers cfg" and c: "u_id (cust_pc s p) = Some c"
  shows "in_customers c s" "0 \<le> c" "c < int (numOfCustomers cfg)"
  using inv_idsD(2,3) [OF d p c] inv_idsD(1) [OF d] cnt_le [of has_id "cust_pc s" "numOfCustomers cfg"] inv_queueD(2) [OF q]
  by (simp_all add: in_customers_def)

lemma has_in_customers:
  assumes d: "inv_ids cfg s" and q: "inv_queue ops cfg s" and k: "k < numOfClerks" "k_has c (clerk_pc s k)"
  shows "in_customers c s"
  using wants_ex [OF has_wants [OF q k]] id_in_customers(1) [OF d q] u_wants_id by blast

lemma clerk_no_failure:
  assumes i: "air_inv ops cfg s" and k: "k < numOfClerks"
  shows "clerk_step ops k s \<noteq> Fails"
proof -
  note d = air_invD [OF i]
  note has = has_in_customers [OF d(2,3) k] and tk = take_reads(1) [OF d(3,2,4) k] and tm = tickets_mid [OF inv_bookD(1) [OF d(5)] k]
  have ok: "k_ok s (clerk_pc s k)" by (rule inv_bookD(8) [OF d(5) k])
  show ?thesis
    using has tk tm ok
    by (cases "clerk_pc s k") (auto simp: clerk_step_def or_fails_def clerk_take_def clerk_switch_def set_customer_def store_booked1_def
      store_booked2_def ft_def Let_def)
qed

lemma customer_no_failure:
  assumes i: "air_inv ops cfg s" and p: "p < numOfCustomers cfg"
  shows "cust_step ops r p s \<noteq> Fails"
proof -
  note d = air_invD [OF i]
  have has: "in_customers c s" if "u_id (cust_pc s p) = Some c" for c by (rule id_in_customers(1) [OF d(2,3) p that])
  have q: "queue_in s < length (cust_ready_queue s)" if "\<not> u_enqueued (cust_pc s p)"
    using queue_in_less [OF d(3) p that] inv_queueD(1) [OF d(3)] by simp
  show ?thesis
    using has q by (cases "cust_pc s p") (auto simp: cust_step_def or_fails_def set_customer_def cust_enqueue_def)
qed

section \<open>The end result\<close>

lemma find_val_in: "v \<in> set xs \<Longrightarrow> find_val xs v = 1"
  by (induction xs) auto

lemma take_find: "v \<in> set (take n xs) \<Longrightarrow> find_val xs v = 1"
  by (rule find_val_in) (rule in_set_takeD)

text \<open>When all customers are done, their numbers are those from zero on.\<close>

lemma all_numbers:
  assumes d: "inv_ids cfg s" and dn: "\<And>p. p < numOfCustomers cfg \<Longrightarrow> u_done (cust_pc s p)" and c: "c < numOfCustomers cfg"
  shows "\<exists>p < numOfCustomers cfg. u_id (cust_pc s p) = Some (int c)"
proof -
  let ?N = "numOfCustomers cfg" and ?f = "\<lambda>p. nat (the (u_id (cust_pc s p)))"
  note D = inv_idsD [OF d]
  have some: "u_id (cust_pc s p) = Some (the (u_id (cust_pc s p)))" if "p < ?N" for p using dn [OF that] by (cases "cust_pc s p") simp_all
  have "has_id (cust_pc s p)" if "p < ?N" for p using dn [OF that] by (cases "cust_pc s p") (simp_all add: has_id_def)
  then have cc: "custCounter s = int ?N" using D(1) by (simp add: cnt_full)
  have in_N: "0 \<le> the (u_id (cust_pc s p)) \<and> the (u_id (cust_pc s p)) < int ?N" if "p < ?N" for p
    using D(2,3) [OF that some [OF that]] cc by simp
  have inj: "inj_on ?f {..<?N}"
  proof (rule inj_onI)
    fix p q
    assume a: "p \<in> {..<?N}" "q \<in> {..<?N}" "?f p = ?f q"
    then have "the (u_id (cust_pc s p)) = the (u_id (cust_pc s q))" using in_N [of p] in_N [of q] by (simp add: eq_nat_nat_iff)
    then show "p = q" using D(4) [of p q] a(1,2) some [of p] some [of q] by simp
  qed
  have sub: "?f ` {..<?N} \<subseteq> {..<?N}" using in_N by (auto simp: nat_less_iff)
  have "?f ` {..<?N} = {..<?N}" by (rule endo_inj_surj [OF _ sub inj]) simp
  then have "c \<in> ?f ` {..<?N}" using c by simp
  then obtain p where p: "p < ?N" "c = ?f p" by blast
  have "the (u_id (cust_pc s p)) = int c" using p(2) in_N [OF p(1)] by simp
  then show ?thesis using p(1) some [OF p(1)] by auto
qed

lemma all_good:
  assumes i: "air_inv ops cfg s" and w: "waited cfg (master s) = int (numOfCustomers cfg)" and c: "c < numOfCustomers cfg"
  shows "good s (int c)" "ft s (int c) \<in> {1, 2, 3}"
proof -
  note d = air_invD [OF i]
  have dn: "\<And>p. p < numOfCustomers cfg \<Longrightarrow> u_done (cust_pc s p)" by (rule all_done [OF d(1) w])
  obtain p where p: "p < numOfCustomers cfg" "u_id (cust_pc s p) = Some (int c)" using all_numbers [OF d(2) dn c] by blast
  obtain x t where u: "cust_pc s p = U_done x t" using dn [OF p(1)] by (cases "cust_pc s p") auto
  have "u_ok s (cust_pc s p)" by (rule inv_bookD(9) [OF d(5) p(1)])
  then show "good s (int c)" "ft s (int c) \<in> {1, 2, 3}" using u p(2) inv_idsD(10) [OF d(2) p(1), of t] by auto
qed

lemma checks_pass:
  assumes L: "sem_laws ops" and i: "air_inv ops cfg s" and w: "waited cfg (master s) = int (numOfCustomers cfg)" and nc: "\<not> closing s"
  shows "bookings_ok cfg s" "0 < agentCapacity cfg \<Longrightarrow> locks_back ops cfg s"
proof -
  note d = air_invD [OF i]
  show "bookings_ok cfg s"
    unfolding bookings_ok_def
  proof (rule list_all_iff [THEN iffD2], intro ballI)
    fix c
    assume "c \<in> set [0..<numOfCustomers cfg]"
    then have c: "c < numOfCustomers cfg" by simp
    note g = all_good [OF i w c]
    show "let x = customers s ! c in (booked x \<noteq> 0 \<longrightarrow> flightType x \<in> {1, 2, 3}) \<and> booking_right s x (int c)"
      using g by (auto simp: Let_def booking_right_def good_def bk_def ft_def in1_def in2_def take_find)
  qed
  have dn: "u_done (cust_pc s p)" if "p < numOfCustomers cfg" for p using all_done [OF d(1) w that] .
  have k: "k_quiet (clerk_pc s j)" "clerk_pc s j \<noteq> K_none" "\<not> k_ask (clerk_pc s j)" if "j < numOfClerks" for j
  proof -
    show "k_quiet (clerk_pc s j)" by (rule all_served(3) [OF d(1,3,4) w nc that])
    show "clerk_pc s j \<noteq> K_none" using inv_flowD(9) [OF d(4) nc that] .
    show "\<not> k_ask (clerk_pc s j)" using asks_open [OF d(4) nc that] all_served(1,2) [OF d(1,3,4) w nc] by auto
  qed
  have kz: "\<not> k_queue (clerk_pc s j)" "\<not> k_f1 (clerk_pc s j)" "\<not> k_f2 (clerk_pc s j)" if "j < numOfClerks" for j
    using k [OF that] by (cases "clerk_pc s j"; simp)+
  have uz: "\<not> u_queue (cust_pc s p)" "\<not> u_inside (cust_pc s p)" "\<not> u_counter (cust_pc s p)" if "p < numOfCustomers cfg" for p
    using dn [OF that] by (cases "cust_pc s p"; simp)+
  have z: "clerks_at k_queue s = 0" "clerks_at k_f1 s = 0" "clerks_at k_f2 s = 0" "custs_at u_queue cfg s = 0"
    "custs_at u_inside cfg s = 0" "custs_at u_counter cfg s = 0" using kz uz by (simp_all add: cnt_zero)
  have pm: "pm ops s CAPACITY = int (agentCapacity cfg)" "pm ops s FLIGHT1CS = 1" "pm ops s FLIGHT2CS = 1" "pm ops s CUSTCOUNTERCS = 1"
    "pm ops s CUSTQUEUECS = 1" using d(1) z by (simp_all add: inv_locks_def)
  have cnt: "sem_count ops (sems s) x = pm ops s x" if "0 < pm ops s x" for x using L that by (simp add: sem_laws_def pm_def)
  show "locks_back ops cfg s" if "0 < agentCapacity cfg" using pm that by (simp add: locks_back_def cnt)
qed

section \<open>A measure\<close>

text \<open>
  How many steps a process has before it at most, between two rounds of a clerk.  A round of a clerk takes one request from the queue, which is
  worth the steps of the round.
\<close>

fun k_left :: "bool \<Rightarrow> clerk_at \<Rightarrow> nat" where
  "k_left b K_open = (if b then 8 else 2)" | "k_left b K_ready = 7" | "k_left b K_queue = 6" | "k_left b K_take = 5"
| "k_left b K_none = 4" | "k_left b (K_next c) = 4" | "k_left b (K_left c) = 25" | "k_left b (K_type c) = 24"
| "k_left b (K_wait1 c) = 22" | "k_left b (K_try1 c) = 21" | "k_left b (K_sig1 c) = 11" | "k_left b (K_wait2 c) = 22"
| "k_left b (K_try2 c) = 21" | "k_left b (K_sig2 c) = 11" | "k_left b (K_wait3a c) = 23" | "k_left b (K_wait3b c) = 22"
| "k_left b (K_try3 c) = 21" | "k_left b (K_sig3a c) = 12" | "k_left b (K_sig3b c) = 11" | "k_left b (K_dec1 c t) = 20"
| "k_left b (K_mark1 c t) = 19" | "k_left b (K_arr1 c t) = 18" | "k_left b (K_num1 c t) = 17" | "k_left b (K_dec2 c t) = 16"
| "k_left b (K_mark2 c t) = 15" | "k_left b (K_arr2 c t) = 14" | "k_left b (K_num2 c t) = 13" | "k_left b (K_finish c) = 10"
| "k_left b (K_clerk c) = 9" | "k_left b K_end = 1" | "k_left b K_done = 0"

fun u_left :: "customer_at \<Rightarrow> nat" where
  "u_left U_start = 18" | "u_left U_number = 17" | "u_left (U_count c) = 16" | "u_left (U_pick c) = 15" | "u_left (U_take c t) = 14"
| "u_left (U_sig c t) = 13"
| "u_left (U_cap c t) = 12" | "u_left (U_clerk c t) = 11" | "u_left (U_unbook c t) = 10" | "u_left (U_info c t) = 9"
| "u_left (U_qwait c t) = 8" | "u_left (U_enq c t) = 7" | "u_left (U_qin c t) = 6" | "u_left (U_qsig c t) = 5" | "u_left (U_ready c t) = 4"
| "u_left (U_fin c t) = 3" | "u_left (U_capsig c t) = 2" | "u_left (U_term c t) = 1" | "u_left (U_done c t) = 0"

definition m_left :: "air_config \<Rightarrow> master_at \<Rightarrow> nat" where
  "m_left cfg a = (case a of M_wait i \<Rightarrow> 12 + (numOfCustomers cfg - i) | M_check \<Rightarrow> 11 | M_shut \<Rightarrow> 10 | M_mark \<Rightarrow> 9
     | M_signal k \<Rightarrow> 8 - k | M_join k \<Rightarrow> 4 - k | M_done \<Rightarrow> 0)"

definition steps_left :: "air_config \<Rightarrow> 'm air \<Rightarrow> nat" where
  "steps_left cfg s = (\<Sum>k<numOfClerks. k_left (isOpened s) (clerk_pc s k)) + (\<Sum>p<numOfCustomers cfg. u_left (cust_pc s p)) +
     22 * (numOfCustomers cfg - queue_out s) + m_left cfg (master s)"

lemma clerk_shorter:
  assumes L: "sem_laws ops" and k: "k < numOfClerks" and step: "clerk_step ops k s = Next s'" and i: "air_inv ops cfg s"
  shows "steps_left cfg s' < steps_left cfg s"
proof -
  note d = air_invD [OF i] and fr = clerk_step_frame [OF L step]
  have o: "queue_out s < numOfCustomers cfg" if "clerk_pc s k = K_next c" for c
    using inv_queueD(7) [OF d(3) k that] queue_in_le [OF d(3)] by simp
  have n: "\<not> isOpened s" if "clerk_pc s k = K_none" using inv_flowD(1,9) [OF d(4)] k that by blast
  have m: "(\<forall>j. j \<noteq> k \<longrightarrow> clerk_pc s' j = clerk_pc s j) \<and>
      k_left (isOpened s) (clerk_pc s' k) + 22 * (numOfCustomers cfg - queue_out s') <
      k_left (isOpened s) (clerk_pc s k) + 22 * (numOfCustomers cfg - queue_out s)"
    using step
    by (cases "clerk_pc s k"; simp add: clerk_step_def; (elim wait_on_Next [OF L] signal_on_Next [OF L])?;
      use o n in \<open>force simp: moved_sel or_fails_Next clerk_take_def clerk_switch_def set_customer_def store_booked1_def store_booked2_def
        Let_def split: if_splits\<close>)
  then have "clerk_pc s' = (clerk_pc s)(k := clerk_pc s' k)" by (auto simp: fun_eq_iff)
  then have "(\<Sum>j<numOfClerks. k_left (isOpened s) (clerk_pc s' j)) + k_left (isOpened s) (clerk_pc s k) =
      (\<Sum>j<numOfClerks. k_left (isOpened s) (clerk_pc s j)) + k_left (isOpened s) (clerk_pc s' k)"
    using sum_upd_nat [OF k, of "k_left (isOpened s)" "clerk_pc s" "clerk_pc s' k"] by simp
  then show ?thesis using m by (simp add: steps_left_def fr)
qed

lemma customer_moves:
  assumes L: "sem_laws ops" and step: "cust_step ops r p s = Next s'" and ne: "s' \<noteq> s \<or> \<not> (\<exists>c. cust_pc s p = U_pick c)"
  shows "u_left (cust_pc s' p) < u_left (cust_pc s p)" "\<And>q. q \<noteq> p \<Longrightarrow> cust_pc s' q = cust_pc s q"
proof -
  have "(\<forall>q. q \<noteq> p \<longrightarrow> cust_pc s' q = cust_pc s q) \<and> u_left (cust_pc s' p) < u_left (cust_pc s p)"
  proof (cases "\<exists>c. cust_pc s p = U_pick c")
    case True
    then show ?thesis using step ne by (auto simp: cust_step_def pick_flight_def split: if_splits)
  next
    case False
    then show ?thesis
      using step
      by (cases "cust_pc s p"; simp add: cust_step_def; (elim wait_on_Next [OF L] signal_on_Next [OF L])?;
        force simp: moved_sel or_fails_Next set_customer_def cust_enqueue_def take_place_def split: if_splits)
  qed
  then show "u_left (cust_pc s' p) < u_left (cust_pc s p)" "\<And>q. q \<noteq> p \<Longrightarrow> cust_pc s' q = cust_pc s q" by blast+
qed

lemma customer_shorter:
  assumes L: "sem_laws ops" and p: "p < numOfCustomers cfg" and step: "cust_step ops r p s = Next s'" and ne: "s' \<noteq> s"
  shows "steps_left cfg s' < steps_left cfg s"
proof -
  note fr = cust_step_frame [OF L step] and m = customer_moves [OF L step disjI1 [OF ne]]
  have "cust_pc s' = (cust_pc s)(p := cust_pc s' p)" using m(2) by (auto simp: fun_eq_iff)
  then have "(\<Sum>j<numOfCustomers cfg. u_left (cust_pc s' j)) + u_left (cust_pc s p) =
      (\<Sum>j<numOfCustomers cfg. u_left (cust_pc s j)) + u_left (cust_pc s' p)"
    using sum_upd_nat [OF p, of u_left "cust_pc s" "cust_pc s' p"] by simp
  then show ?thesis using m(1) by (simp add: steps_left_def fr)
qed

lemma master_shorter:
  assumes L: "sem_laws ops" and step: "master_step ops cfg s = Next s'" and i: "air_inv ops cfg s"
  shows "steps_left cfg s' < steps_left cfg s"
proof -
  note fr = master_step_frame [OF L step]
  have ok: "master_ok cfg (master s)" using air_invD(1) [OF i] by (simp add: inv_locks_def)
  have m: "m_left cfg (master s') < m_left cfg (master s) \<and> (isOpened s' \<longrightarrow> isOpened s)"
    using step
    by (cases "master s"; simp add: master_step_def split: if_splits; (elim wait_on_Next [OF L] signal_on_Next [OF L])?;
      use ok in \<open>force simp: moved_sel m_left_def numOfClerks_def master_ok_def\<close>)
  have "k_left (isOpened s') a \<le> k_left (isOpened s) a" for a using m by (cases a) auto
  then have "(\<Sum>j<numOfClerks. k_left (isOpened s') (clerk_pc s j)) \<le> (\<Sum>j<numOfClerks. k_left (isOpened s) (clerk_pc s j))"
    by (intro sum_mono) blast
  then show ?thesis using m by (simp add: steps_left_def fr)
qed

lemma step_shorter:
  assumes L: "sem_laws ops" and step: "air_step ops cfg s s'" and i: "air_inv ops cfg s" and ne: "s' \<noteq> s"
  shows "steps_left cfg s' < steps_left cfg s"
  using step
  by cases (use clerk_shorter [OF L _ _ i] customer_shorter [OF L _ _ ne] master_shorter [OF L _ i] in blast)+

lemma steps_left_start:
  assumes "air_start ops cfg s"
  shows "steps_left cfg s = 41 * numOfCustomers cfg + 36"
proof -
  have "(\<Sum>k<numOfClerks. k_left (isOpened s) (clerk_pc s k)) = 24" "(\<Sum>p<numOfCustomers cfg. u_left (cust_pc s p)) = 18 * numOfCustomers cfg"
    using assms by (simp_all add: air_start_def numOfClerks_def)
  then show ?thesis using assms by (simp add: steps_left_def m_left_def air_start_def)
qed

section \<open>Progress\<close>

lemma some_flight:
  assumes d: "inv_ids cfg s" and p: "p < numOfCustomers cfg" "cust_pc s p = U_pick c"
  shows "\<exists>r. 1 \<le> r \<and> r < 4 \<and> (\<exists>t. cust_pc (pick_flight r p c s) p = U_take c t)"
proof -
  note D = inv_idsD [OF d]
  have "custs_at has_flight cfg s < int (numOfCustomers cfg)" by (rule cnt_less [OF p(1)]) (simp add: p has_flight_def)
  then have "0 < flight1Customers s \<or> 0 < flight2Customers s \<or> 0 < flight3Customers s" using D(6-9) by linarith
  then show ?thesis
  proof (elim disjE)
    assume "0 < flight1Customers s"
    then show ?thesis by (intro exI [of _ 1]) (simp add: pick_flight_def)
  next
    assume "0 < flight2Customers s"
    then show ?thesis by (intro exI [of _ 2]) (simp add: pick_flight_def)
  next
    assume "0 < flight3Customers s"
    then show ?thesis by (intro exI [of _ 3]) (simp add: pick_flight_def)
  qed
qed

lemma customer_goes_on:
  assumes L: "sem_laws ops" and i: "air_inv ops cfg s" and p: "p < numOfCustomers cfg" and w: "cust_step ops 1 p s \<noteq> Waits"
  shows "\<exists>s'. air_step ops cfg s s' \<and> s' \<noteq> s"
proof (cases "\<exists>c. cust_pc s p = U_pick c")
  case True
  then obtain c where c: "cust_pc s p = U_pick c" by blast
  then obtain r t where r: "1 \<le> r" "r < 4" "cust_pc (pick_flight r p c s) p = U_take c t"
    using some_flight [OF air_invD(2) [OF i] p] by blast
  have "pick_flight r p c s \<noteq> s" using r(3) c by auto
  moreover have "air_step ops cfg s (pick_flight r p c s)" by (rule a_customer [OF p r(1,2)]) (simp add: cust_step_def c)
  ultimately show ?thesis by blast
next
  case False
  obtain s' where s': "cust_step ops 1 p s = Next s'"
    using w customer_no_failure [OF i p] by (cases "cust_step ops 1 p s") auto
  have "s' \<noteq> s" using customer_moves(1) [OF L s'] False by auto
  then show ?thesis using a_customer [OF p _ _ s'] by auto
qed

lemma somebody_goes_on:
  assumes L: "sem_laws ops" and i: "air_inv ops cfg s" and cap: "0 < agentCapacity cfg" and m: "master s \<noteq> M_done" "master_step ops cfg s \<noteq> Fails"
  shows "\<exists>s'. air_step ops cfg s s' \<and> s' \<noteq> s"
  using not_all_wait [OF L i cap m(1), of 1]
proof (elim disjE exE conjE)
  fix k
  assume k: "k < numOfClerks" "clerk_step ops k s \<noteq> Waits"
  obtain s' where s': "clerk_step ops k s = Next s'" using k(2) clerk_no_failure [OF i k(1)] by (cases "clerk_step ops k s") auto
  show ?thesis using clerk_shorter [OF L k(1) s' i] a_clerk [OF k(1) s'] by blast
next
  fix p
  assume "p < numOfCustomers cfg" "cust_step ops 1 p s \<noteq> Waits"
  then show ?thesis by (rule customer_goes_on [OF L i])
next
  assume "master_step ops cfg s \<noteq> Waits"
  then obtain s' where s': "master_step ops cfg s = Next s'" using m(2) by (cases "master_step ops cfg s") auto
  show ?thesis using master_shorter [OF L s' i] a_master [OF s'] by blast
qed

text \<open>The assertions of the master that can fail.\<close>

lemma master_fails:
  assumes L: "sem_laws ops" and i: "air_inv ops cfg s" and cap: "0 < agentCapacity cfg" and f: "master_step ops cfg s = Fails"
  shows "master s = M_check \<and> \<not> all_idle ops cfg s \<or> master s = M_join numOfClerks \<and> sem_count ops (sems s) CLERKTERMINATED \<noteq> 0"
proof (cases "master s")
  case M_check
  then show ?thesis using f checks_pass [OF L i] cap by (simp add: master_step_def waited_def closing_def split: if_splits)
next
  case M_mark
  then show ?thesis using f inv_queueD(1) [OF air_invD(3) [OF i]] by (simp add: master_step_def)
next
  case (M_join k)
  moreover have "master_ok cfg (master s)" using air_invD(1) [OF i] by (simp add: inv_locks_def)
  ultimately show ?thesis using f by (simp add: master_step_def master_ok_def numOfClerks_def split: if_splits)
qed (use f in \<open>simp_all add: master_step_def split: if_splits\<close>)

text \<open>A step that is not a choice of a full flight.\<close>

definition air_move :: "'m sem_ops \<Rightarrow> air_config \<Rightarrow> 'm air \<Rightarrow> 'm air \<Rightarrow> bool" where
  "air_move ops cfg s s' \<longleftrightarrow> air_step ops cfg s s' \<and> s' \<noteq> s"

lemma moves_bounded:
  assumes L: "sem_laws ops" and i: "air_inv ops cfg s0" and run: "(air_move ops cfg ^^ n) s0 s"
  shows "air_inv ops cfg s \<and> n + steps_left cfg s \<le> steps_left cfg s0"
  using run
proof (induction n arbitrary: s)
  case (Suc n)
  from Suc.prems obtain y where y: "(air_move ops cfg ^^ n) s0 y" "air_move ops cfg y s" by (rule relpowp_Suc_E)
  note m = y(2) [unfolded air_move_def]
  note ih = Suc.IH [OF y(1)]
  show ?case using ih air_inv_step [OF L m [THEN conjunct1]] step_shorter [OF L m [THEN conjunct1] _ m [THEN conjunct2]] by fastforce
qed (use i in simp)

section \<open>An example\<close>

text \<open>Semaphores that are counters, an agency for one customer, and one order of the steps up to the check of the master.\<close>

definition plain_sems :: "(asem \<Rightarrow> nat) sem_ops" where
  "plain_sems = \<lparr>sem_wait = \<lambda>x m. if m x = 0 then None else Some (m(x := m x - 1)), sem_signal = \<lambda>x m. m(x := m x + 1),
     sem_permits = \<lambda>m. m, sem_count = \<lambda>m x. int (m x)\<rparr>"

definition small_agency :: air_config where
  "small_agency = \<lparr>numOfCustomers = 1, agentCapacity = 1, flight1NumOfTickets = 1, flight2NumOfTickets = 1\<rparr>"

definition small_start :: "(asem \<Rightarrow> nat) air" where
  "small_start = \<lparr>sems = (\<lambda>x. case x of CAPACITY \<Rightarrow> 1 | CLERK \<Rightarrow> 3 | FLIGHT1CS \<Rightarrow> 1 | FLIGHT2CS \<Rightarrow> 1 | CUSTCOUNTERCS \<Rightarrow> 1 | CUSTQUEUECS \<Rightarrow> 1 | _ \<Rightarrow> 0),
     customers = [\<lparr>flightType = 0, booked = 0\<rparr>, \<lparr>flightType = 0, booked = 0\<rparr>], custCounter = 0,
     flight1Customers = 0, flight2Customers = 0, flight3Customers = 1, flight1Counter = 1, flight2Counter = 1,
     flight1BookedArr = [0], flight2BookedArr = [0], flight1BookedCounter = 0, flight2BookedCounter = 0,
     cust_ready_queue = [0, 0], queue_in = 0, queue_out = 0, isOpened = True, master = M_wait 0, clerk_pc = \<lambda>_. K_open, cust_pc = \<lambda>_. U_start\<rparr>"

lemma plain_sems_laws: "sem_laws plain_sems"
  by (auto simp: sem_laws_def plain_sems_def)

lemma small_start_starts: "air_start plain_sems small_agency small_start"
  by (auto simp: air_start_def plain_sems_def small_agency_def small_start_def split: asem.split)

datatype actor = Clerk nat | Customer nat int | Master

definition act_step :: "'m sem_ops \<Rightarrow> air_config \<Rightarrow> actor \<Rightarrow> 'm air \<Rightarrow> 'm air act" where
  "act_step ops cfg a s = (case a of
     Clerk k \<Rightarrow> if k < numOfClerks then clerk_step ops k s else Fails
   | Customer p r \<Rightarrow> if p < numOfCustomers cfg \<and> 1 \<le> r \<and> r < 4 then cust_step ops r p s else Fails
   | Master \<Rightarrow> master_step ops cfg s)"

fun air_run :: "'m sem_ops \<Rightarrow> air_config \<Rightarrow> actor list \<Rightarrow> 'm air \<Rightarrow> 'm air option" where
  "air_run ops cfg [] s = Some s"
| "air_run ops cfg (a # as) s = (case act_step ops cfg a s of Next t \<Rightarrow> air_run ops cfg as t | _ \<Rightarrow> None)"

lemma act_step_step: "act_step ops cfg a s = Next t \<Longrightarrow> air_step ops cfg s t"
  by (cases a) (auto simp: act_step_def intro: air_step.intros split: if_splits)

lemma air_run_steps: "air_run ops cfg as s = Some t \<Longrightarrow> (air_step ops cfg)\<^sup>*\<^sup>* s t"
proof (induction as arbitrary: s)
  case (Cons a as)
  then show ?case by (auto split: act.splits intro: converse_rtranclp_into_rtranclp dest: act_step_step)
qed simp

definition small_order :: "actor list" where
  "small_order = replicate 15 (Customer 0 3) @ replicate 21 (Clerk 0) @ replicate 3 (Customer 0 3) @ [Master, Master]"

definition small_end :: "(asem \<Rightarrow> nat) air" where
  "small_end = the (air_run plain_sems small_agency small_order small_start)"

lemma small_run: "case air_run plain_sems small_agency small_order small_start of None \<Rightarrow> False
    | Some s \<Rightarrow> master s = M_check \<and> flight1BookedArr s = [0] \<and> flight1BookedCounter s = 1 \<and> sem_count plain_sems (sems s) CLERK = 2"
  by code_simp

section \<open>The properties\<close>

text \<open>
  C34: the reservation program is safe.  For any numbers of customers and tickets, a capacity of the agency of at least 1 and any order of the steps, no
  clerk and no customer accesses outside an array; the four critical sections exclude each other: at most one customer is between the wait and the
  signal of \<open>custCounterCS\<close>, at most one clerk in that of each flight, and at most one process, clerk or customer, in that of the queue; at most as many
  customers as its capacity are inside the agency; no flight is sold beyond its tickets; and when the master looks at the result, every
  booking is right and the semaphores of the critical sections and of the capacity are back at their initial values.  The other assertions of
  the master, on idle clerks, can fail (\<open>idle_check_races\<close> below).
\<close>

theorem air_program_safe:
  assumes "sem_laws ops" "air_start ops cfg s0" "(air_step ops cfg)\<^sup>*\<^sup>* s0 s" "0 < agentCapacity cfg"
  shows "(\<forall>k < numOfClerks. clerk_step ops k s \<noteq> Fails) \<and> (\<forall>p < numOfCustomers cfg. \<forall>r. cust_step ops r p s \<noteq> Fails) \<and>
    flight1BookedCounter s \<le> flight1NumOfTickets cfg \<and> flight2BookedCounter s \<le> flight2NumOfTickets cfg \<and>
    (\<forall>j < numOfClerks. \<forall>k < numOfClerks. j \<noteq> k \<longrightarrow> \<not> (k_f1 (clerk_pc s j) \<and> k_f1 (clerk_pc s k)) \<and> \<not> (k_f2 (clerk_pc s j) \<and> k_f2 (clerk_pc s k)) \<and>
       \<not> (k_queue (clerk_pc s j) \<and> k_queue (clerk_pc s k))) \<and>
    (\<forall>p < numOfCustomers cfg. u_queue (cust_pc s p) \<longrightarrow> (\<forall>k < numOfClerks. \<not> k_queue (clerk_pc s k)) \<and>
       (\<forall>q < numOfCustomers cfg. u_queue (cust_pc s q) \<longrightarrow> q = p)) \<and>
    (\<forall>p < numOfCustomers cfg. \<forall>q < numOfCustomers cfg. u_counter (cust_pc s p) \<and> u_counter (cust_pc s q) \<longrightarrow> p = q) \<and>
    custs_at u_inside cfg s \<le> int (agentCapacity cfg) \<and>
    (master s = M_check \<longrightarrow> bookings_ok cfg s \<and> locks_back ops cfg s)"
proof -
  have i: "air_inv ops cfg s" by (rule air_inv_reachable [OF assms(1,3,2)])
  note m = mutex [OF air_invD(1) [OF i]]
  have t: "flight1BookedCounter s \<le> flight1NumOfTickets cfg \<and> flight2BookedCounter s \<le> flight2NumOfTickets cfg"
    using inv_bookD(1) [OF air_invD(5) [OF i]] cnt_nonneg [of k_mid1 "clerk_pc s" numOfClerks] cnt_nonneg [of k_mid2 "clerk_pc s" numOfClerks]
    unfolding inv_tickets_def by linarith
  have c: "bookings_ok cfg s \<and> locks_back ops cfg s" if "master s = M_check"
    using checks_pass [OF assms(1) i] that assms(4) by (simp add: waited_def closing_def)
  have e: "\<not> (k_f1 (clerk_pc s j) \<and> k_f1 (clerk_pc s k)) \<and> \<not> (k_f2 (clerk_pc s j) \<and> k_f2 (clerk_pc s k)) \<and>
      \<not> (k_queue (clerk_pc s j) \<and> k_queue (clerk_pc s k))" if "j < numOfClerks" "k < numOfClerks" "j \<noteq> k" for j k
    using m(1) [OF that(1,2)] m(2) [OF that(1,2)] m(3) [OF that(1,2)] that(3) by blast
  have q: "(\<forall>k < numOfClerks. \<not> k_queue (clerk_pc s k)) \<and> (\<forall>q < numOfCustomers cfg. u_queue (cust_pc s q) \<longrightarrow> q = p)"
    if "p < numOfCustomers cfg" "u_queue (cust_pc s p)" for p
    using m(4) [OF _ that(1) _ that(2)] m(5) [OF that(1) _ that(2)] by simp
  have f: "\<forall>k < numOfClerks. clerk_step ops k s \<noteq> Fails" "\<forall>p < numOfCustomers cfg. \<forall>r. cust_step ops r p s \<noteq> Fails"
    using clerk_no_failure [OF i] customer_no_failure [OF i] by simp_all
  have n: "\<forall>p < numOfCustomers cfg. \<forall>q < numOfCustomers cfg. u_counter (cust_pc s p) \<and> u_counter (cust_pc s q) \<longrightarrow> p = q"
    using m(6) by blast
  have a: "custs_at u_inside cfg s \<le> int (agentCapacity cfg)"
    using air_invD(1) [OF i] pm_nonneg [of ops s CAPACITY] unfolding inv_locks_def by linarith
  show ?thesis by (intro conjI f n a t [THEN conjunct1] t [THEN conjunct2]) (use e q c in simp_all)
qed

text \<open>
  C35: The result: when the master looks at it, the list of each flight names every customer that is booked on it exactly once and nobody else, a
  customer that wants both flights is booked on both or on neither, and the tickets sold and the tickets left are all the tickets.
\<close>

theorem air_bookings_exact:
  assumes "sem_laws ops" "air_start ops cfg s0" "(air_step ops cfg)\<^sup>*\<^sup>* s0 s" "master s = M_check"
  defines "wants \<equiv> \<lambda>ts. {int c | c. c < numOfCustomers cfg \<and> booked (customers s ! c) \<noteq> 0 \<and> flightType (customers s ! c) \<in> ts}"
  shows "set (take (flight1BookedCounter s) (flight1BookedArr s)) = wants {1, 3} \<and> distinct (take (flight1BookedCounter s) (flight1BookedArr s)) \<and>
    set (take (flight2BookedCounter s) (flight2BookedArr s)) = wants {2, 3} \<and> distinct (take (flight2BookedCounter s) (flight2BookedArr s)) \<and>
    flight1Counter s + int (flight1BookedCounter s) = int (flight1NumOfTickets cfg) \<and>
    flight2Counter s + int (flight2BookedCounter s) = int (flight2NumOfTickets cfg) \<and> 0 \<le> flight1Counter s \<and> 0 \<le> flight2Counter s"
proof -
  have i: "air_inv ops cfg s" by (rule air_inv_reachable [OF assms(1,3,2)])
  note d = air_invD [OF i]
  note B = inv_bookD [OF d(5)]
  have w: "waited cfg (master s) = int (numOfCustomers cfg)" and nc: "\<not> closing s" using assms(4) by (simp_all add: waited_def closing_def)
  have rec: "\<exists>n < numOfCustomers cfg. c = int n" if "recorded cfg s c" for c
    using that id_in_customers(2,3) [OF d(2,3)] unfolding recorded_def by (intro exI [of _ "nat c"]) (auto simp: nat_less_iff)
  have iff: "in1 s (int n) \<longleftrightarrow> booked (customers s ! n) \<noteq> 0 \<and> flightType (customers s ! n) \<in> {1, 3}"
    "in2 s (int n) \<longleftrightarrow> booked (customers s ! n) \<noteq> 0 \<and> flightType (customers s ! n) \<in> {2, 3}" if "n < numOfCustomers cfg" for n
  proof -
    have f: "booked (customers s ! n) = bk s (int n)" "flightType (customers s ! n) = ft s (int n)" by (simp_all add: bk_def ft_def)
    have g: "good s (int n)" "ft s (int n) \<in> {1, 2, 3}" by (rule all_good [OF i w that])+
    show "in1 s (int n) \<longleftrightarrow> booked (customers s ! n) \<noteq> 0 \<and> flightType (customers s ! n) \<in> {1, 3}"
      using B(2,3) [of "int n"] g unfolding f by (cases "in1 s (int n)") (simp_all, auto simp: good_def)
    show "in2 s (int n) \<longleftrightarrow> booked (customers s ! n) \<noteq> 0 \<and> flightType (customers s ! n) \<in> {2, 3}"
      using B(5,6) [of "int n"] g unfolding f by (cases "in2 s (int n)") (simp_all, auto simp: good_def)
  qed
  have sets: "{c. in1 s c} = wants {1, 3}"  "{c. in2 s c} = wants {2, 3}"
  proof -
    show "{c. in1 s c} = wants {1, 3}"
    proof (intro set_eqI iffI)
      fix c
      assume c: "c \<in> {c. in1 s c}"
      then obtain n where "n < numOfCustomers cfg" "c = int n" using rec [OF B(4)] by blast
      then show "c \<in> wants {1, 3}" using c iff(1) [of n] by (auto simp: wants_def)
    qed (use iff(1) in \<open>auto simp: wants_def\<close>)
    show "{c. in2 s c} = wants {2, 3}"
    proof (intro set_eqI iffI)
      fix c
      assume c: "c \<in> {c. in2 s c}"
      then obtain n where "n < numOfCustomers cfg" "c = int n" using rec [OF B(7)] by blast
      then show "c \<in> wants {2, 3}" using c iff(2) [of n] by (auto simp: wants_def)
    qed (use iff(2) in \<open>auto simp: wants_def\<close>)
  qed
  have "k_quiet (clerk_pc s j)" if "j < numOfClerks" for j by (rule all_served(3) [OF d(1,3,4) w nc that])
  then have "\<not> k_mid1 (clerk_pc s j)" "\<not> k_mid2 (clerk_pc s j)" if "j < numOfClerks" for j using that by (cases "clerk_pc s j"; fastforce)+
  then have "clerks_at k_mid1 s = 0" "clerks_at k_mid2 s = 0" by (simp_all add: cnt_zero)
  then show ?thesis using B(1) sets by (simp add: inv_tickets_def in1_def in2_def)
qed

text \<open>
  C36: the program comes to its end.  For a capacity of the agency of at least 1 and however the processes are scheduled, there are at most 41 steps for
  each customer and 36 more, not counting the choices of a flight without a place, which the customer repeats; and some process can make another
  step unless the master is through or stopped at an assertion that fails: the one on idle clerks before it closes the agency, or the last one on
  the value of \<open>clerkTerminated\<close>.  After such a panic of the master nobody tells the clerks to end.
\<close>

theorem air_program_ends:
  assumes "sem_laws ops" "air_start ops cfg s0" "(air_move ops cfg ^^ n) s0 s" "0 < agentCapacity cfg"
  shows "n \<le> 41 * numOfCustomers cfg + 36 \<and> (master s = M_done \<or> (\<exists>s'. air_move ops cfg s s') \<or>
    master s = M_check \<and> \<not> all_idle ops cfg s \<or> master s = M_join numOfClerks \<and> sem_count ops (sems s) CLERKTERMINATED \<noteq> 0)"
proof -
  have i: "air_inv ops cfg s" and n: "n + steps_left cfg s \<le> 41 * numOfCustomers cfg + 36"
    using moves_bounded [OF assms(1) air_inv_start [OF assms(2)] assms(3)] steps_left_start [OF assms(2)] by simp_all
  show ?thesis using n somebody_goes_on [OF assms(1) i assms(4)] master_fails [OF assms(1) i assms(4)] unfolding air_move_def by auto
qed

lemma small_end_reached:
  "(air_step plain_sems small_agency)\<^sup>*\<^sup>* small_start small_end \<and> master small_end = M_check \<and> flight1BookedArr small_end = [0] \<and>
    flight1BookedCounter small_end = 1 \<and> sem_count plain_sems (sems small_end) CLERK = 2"
  using small_run air_run_steps [of plain_sems small_agency small_order small_start]
  by (auto simp: small_end_def split: option.splits)

theorem air_program_safe_witness:
  "master small_end = M_check \<and> bookings_ok small_agency small_end \<and> locks_back plain_sems small_agency small_end"
  using air_program_safe [OF plain_sems_laws small_start_starts small_end_reached [THEN conjunct1]] small_end_reached
  by (simp add: small_agency_def)

theorem air_bookings_exact_witness:
  "set (take (flight1BookedCounter small_end) (flight1BookedArr small_end)) =
    {int c | c. c < 1 \<and> booked (customers small_end ! c) \<noteq> 0 \<and> flightType (customers small_end ! c) \<in> {1, 3}} \<and>
    flight1BookedArr small_end = [0] \<and> flight1Counter small_end = 0"
  using air_bookings_exact [OF plain_sems_laws small_start_starts small_end_reached [THEN conjunct1]] small_end_reached
  by (simp add: small_agency_def)

theorem air_program_ends_witness:
  "(\<exists>s'. air_move plain_sems small_agency small_start s') \<and> (0 :: nat) \<le> 41 * numOfCustomers small_agency + 36"
proof -
  have "master small_start = M_wait 0" "0 < agentCapacity small_agency" by (simp_all add: small_start_def small_agency_def)
  then show ?thesis using air_program_ends [OF plain_sems_laws small_start_starts, of 0 small_start] by simp
qed

text \<open>
  The assertions on idle clerks are not among the properties above: they depend on time.  In this order of the steps the customer is done before its
  clerk has signalled \<open>clerk\<close>, and the check fails although all bookings are right.
\<close>

lemma idle_check_races:
  "\<exists>s. (air_step plain_sems small_agency)\<^sup>*\<^sup>* small_start s \<and> master s = M_check \<and> \<not> all_idle plain_sems small_agency s \<and>
    master_step plain_sems small_agency s = Fails"
  using small_end_reached by (intro exI [of _ small_end]) (simp add: master_step_def all_idle_def)

end
