(* ===== verification/FOS_Arrays.thy ===== *)
theory FOS_Arrays
  imports FOS_Sort FOS_Procs "HOL-Library.Signed_Division"
begin

text \<open>
  The program of the array operations (\<open>user/arrayOperations_Master.c\<close> with the slaves \<open>arrayOperations_quicksort.c\<close>,
  \<open>arrayOperations_mergesort.c\<close> and \<open>arrayOperations_stats.c\<close>): the master fills a shared array and signals, three slaves copy it, sort it or
  compute its statistics and signal that they are finished, and the master compares their results.  It uses three of the semaphores that the
  kernel keeps for user programs (\<open>USE_KERN_SEMAPHORE\<close> is 1), which here are counters that a process waits on while they are 0.

  A statement that touches the shared array or a semaphore is one step; what a slave does to its own copy and the final comparison are one step
  each.  The slaves run from the start.  The memory of the shared objects is assumed to be there, and so is that of \<open>malloc\<close> for \<open>room\<close> elements;
  \<open>tsc\<close> gives the values of the time stamp counter for the pivots.
\<close>

section \<open>Statistics\<close>

type_synonym int64 = "64 word"

text \<open>Division of an \<open>int64\<close> by an \<open>int\<close> rounds towards 0, and by 0 it faults.\<close>

definition div64 :: "int64 \<Rightarrow> int \<Rightarrow> int64 option" where
  "div64 x n = (if n = 0 then None else Some (word_of_int (sint x sdiv n)))"

text \<open>A loop over the elements.\<close>

fun loop_over :: "nat \<Rightarrow> (int \<Rightarrow> 's \<Rightarrow> 's) \<Rightarrow> int list \<Rightarrow> int \<Rightarrow> 's \<Rightarrow> 's option" where
  "loop_over 0 f E i s = Some s"
| "loop_over (Suc n) f E i s = do { x \<leftarrow> at E i; loop_over n f E (i + 1) (f x s) }"

definition sum_step :: "int \<Rightarrow> int64 \<Rightarrow> int64" where
  "sum_step x mean = mean + of_int x"

definition var_step :: "int64 \<Rightarrow> int \<Rightarrow> int64 \<Rightarrow> int64" where
  "var_step mean x var = var + (of_int x - mean) * (of_int x - mean)"

definition min_max_step :: "int \<Rightarrow> int64 \<times> int \<times> int \<Rightarrow> int64 \<times> int \<times> int" where
  "min_max_step x r = (case r of (mean, mn, mx) \<Rightarrow> (sum_step x mean, (if x < mn then x else mn), (if x > mx then x else mx)))"

text \<open>The result and the array, which the selection of the median rearranges.\<close>

definition ArrayStats :: "int list \<Rightarrow> u32 list \<Rightarrow> int \<Rightarrow> ((int64 \<times> int64 \<times> int \<times> int \<times> int) \<times> int list) option" where
  "ArrayStats E tsc NumOfElements = do {
     (mean, mn, mx) \<leftarrow> loop_over (nat NumOfElements) min_max_step E 0 (0, 0x7FFFFFFF, - 0x80000000);
     (med, E1) \<leftarrow> KthElement E tsc NumOfElements ((NumOfElements + 1) sdiv 2);
     mean \<leftarrow> div64 mean NumOfElements;
     var \<leftarrow> loop_over (nat NumOfElements) (var_step mean) E1 0 0;
     var \<leftarrow> div64 var NumOfElements;
     Some ((mean, var, mn, mx, med), E1) }"

text \<open>\<open>ArrayStats\<close> of the master.\<close>

definition ArrayStats_master :: "int list \<Rightarrow> int \<Rightarrow> (int64 \<times> int64) option" where
  "ArrayStats_master E NumOfElements = do {
     mean \<leftarrow> loop_over (nat NumOfElements) sum_step E 0 0;
     mean \<leftarrow> div64 mean NumOfElements;
     var \<leftarrow> loop_over (nat NumOfElements) (var_step mean) E 0 0;
     var \<leftarrow> div64 var NumOfElements;
     Some (mean, var) }"

section \<open>State\<close>

datatype usem = Ready | Finished | Cons_mutex

datatype slave_at =
    S_wait | S_copy nat | S_work | S_cons | S_cons_out | S_share | S_cons2 | S_cons2_out | S_finish | S_over

datatype main_at =
    A_cons | A_create | A_cons_out | A_fill nat | A_signal nat | A_await nat | A_check | A_cons2 | A_cons2_out | A_compare | A_over

datatype fill_kind = Ascending | Descending | Semi_random

record arr_config =
  NumOfElements :: nat
  Chose :: fill_kind
  room :: int

definition numOfSlaveProgs :: nat where "numOfSlaveProgs = 3"

text \<open>Slave 0 is the quicksort, slave 1 the mergesort and slave 2 the statistics.\<close>

record arrays =
  sem_val :: "usem \<Rightarrow> nat"
  Elements :: "int list"
  slave_array :: "nat \<Rightarrow> int list"
  stats :: "(int64 \<times> int64 \<times> int \<times> int \<times> int) option"
  shared_stats :: "(int64 \<times> int64 \<times> int \<times> int \<times> int) option"
  correct_stats :: "(int64 \<times> int64 \<times> int \<times> int \<times> int) option"
  main_pc :: main_at
  slave_pc :: "nat \<Rightarrow> slave_at"

definition main_to :: "main_at \<Rightarrow> arrays \<Rightarrow> arrays" where
  "main_to a s = s\<lparr>main_pc := a\<rparr>"

definition slave_to :: "nat \<Rightarrow> slave_at \<Rightarrow> arrays \<Rightarrow> arrays" where
  "slave_to k u s = s\<lparr>slave_pc := (slave_pc s)(k := u)\<rparr>"

definition sem_wait_on :: "usem \<Rightarrow> arrays \<Rightarrow> arrays act" where
  "sem_wait_on x s = (if sem_val s x = 0 then Waits else Next (s\<lparr>sem_val := (sem_val s)(x := sem_val s x - 1)\<rparr>))"

definition sem_post :: "usem \<Rightarrow> arrays \<Rightarrow> arrays" where
  "sem_post x s = s\<lparr>sem_val := (sem_val s)(x := sem_val s x + 1)\<rparr>"

fun then_do :: "arrays act \<Rightarrow> (arrays \<Rightarrow> arrays) \<Rightarrow> arrays act" where
  "then_do (Next s) f = Next (f s)" | "then_do Waits f = Waits" | "then_do Fails f = Fails"

section \<open>Slaves\<close>

text \<open>The work of a slave on its copy.\<close>

definition slave_work :: "arr_config \<Rightarrow> u32 list \<Rightarrow> nat \<Rightarrow> arrays \<Rightarrow> arrays option" where
  "slave_work cfg tsc k s =
     (let n = int (NumOfElements cfg); A = slave_array s k
      in if k = 0 then do { A1 \<leftarrow> QuickSort_random A tsc n; Some (s\<lparr>slave_array := (slave_array s)(k := A1)\<rparr>) }
         else if k = 1 then do { A1 \<leftarrow> MSort_room (room cfg) A 1 n; Some (s\<lparr>slave_array := (slave_array s)(k := A1)\<rparr>) }
         else do { (r, A1) \<leftarrow> ArrayStats A tsc n; Some (s\<lparr>slave_array := (slave_array s)(k := A1), stats := Some r\<rparr>) })"

definition copy_element :: "nat \<Rightarrow> nat \<Rightarrow> arrays \<Rightarrow> arrays option" where
  "copy_element k i s = do {
     x \<leftarrow> at (Elements s) (int i);
     A \<leftarrow> put (slave_array s k) (int i) x;
     Some (s\<lparr>slave_array := (slave_array s)(k := A)\<rparr>) }"

definition slave_step :: "arr_config \<Rightarrow> u32 list \<Rightarrow> nat \<Rightarrow> arrays \<Rightarrow> arrays act" where
  "slave_step cfg tsc k s = (case slave_pc s k of
     S_wait \<Rightarrow> then_do (sem_wait_on Ready s) (slave_to k (S_copy 0))
   | S_copy i \<Rightarrow> (if i < NumOfElements cfg then or_fails (map_option (slave_to k (S_copy (i + 1))) (copy_element k i s))
       else Next (slave_to k S_work s))
   | S_work \<Rightarrow> or_fails (map_option (slave_to k S_cons) (slave_work cfg tsc k s))
   | S_cons \<Rightarrow> then_do (sem_wait_on Cons_mutex s) (slave_to k S_cons_out)
   | S_cons_out \<Rightarrow> Next (slave_to k (if k = 2 then S_share else S_finish) (sem_post Cons_mutex s))
   | S_share \<Rightarrow> Next (slave_to k S_cons2 (s\<lparr>shared_stats := stats s\<rparr>))
   | S_cons2 \<Rightarrow> then_do (sem_wait_on Cons_mutex s) (slave_to k S_cons2_out)
   | S_cons2_out \<Rightarrow> Next (slave_to k S_finish (sem_post Cons_mutex s))
   | S_finish \<Rightarrow> Next (slave_to k S_over (sem_post Finished s))
   | S_over \<Rightarrow> Waits)"

section \<open>The master\<close>

text \<open>What the array holds when it is made does not matter, as it is filled before anybody reads it.\<close>

definition fill_value :: "arr_config \<Rightarrow> nat \<Rightarrow> int option" where
  "fill_value cfg i = (case Chose cfg of
     Ascending \<Rightarrow> Some (int i)
   | Descending \<Rightarrow> Some (int (NumOfElements cfg) - int i - 1)
   | Semi_random \<Rightarrow> let Repetition = int (NumOfElements cfg) sdiv 3 in if Repetition = 0 then None else Some (int i mod Repetition))"

text \<open>The values that the master expects; it panics when an array is not sorted.\<close>

definition main_check :: "arr_config \<Rightarrow> arrays \<Rightarrow> (int64 \<times> int64 \<times> int \<times> int \<times> int) option" where
  "main_check cfg s = do {
     let n = int (NumOfElements cfg);
     let Q = slave_array s 0;
     sorted \<leftarrow> CheckSorted Q n;
     assert_that sorted;
     sorted \<leftarrow> CheckSorted (slave_array s 1) n;
     assert_that sorted;
     (mean, var) \<leftarrow> ArrayStats_master (Elements s) n;
     correctMin \<leftarrow> at Q 0;
     correctMax \<leftarrow> at Q (n - 1);
     correctMed \<leftarrow> at Q ((n + 1) sdiv 2 - 1);
     Some (mean, var, correctMin, correctMax, correctMed) }"

definition main_step :: "arr_config \<Rightarrow> arrays \<Rightarrow> arrays act" where
  "main_step cfg s = (case main_pc s of
     A_cons \<Rightarrow> then_do (sem_wait_on Cons_mutex s) (main_to A_create)
   | A_create \<Rightarrow> Next (main_to A_cons_out (s\<lparr>Elements := replicate (NumOfElements cfg) 0\<rparr>))
   | A_cons_out \<Rightarrow> Next (main_to (A_fill 0) (sem_post Cons_mutex s))
   | A_fill i \<Rightarrow> (if i < NumOfElements cfg
       then or_fails (do { x \<leftarrow> fill_value cfg i; E \<leftarrow> put (Elements s) (int i) x; Some (main_to (A_fill (i + 1)) (s\<lparr>Elements := E\<rparr>)) })
       else Next (main_to (A_signal 0) s))
   | A_signal k \<Rightarrow> (if k < numOfSlaveProgs then Next (main_to (A_signal (k + 1)) (sem_post Ready s)) else Next (main_to (A_await 0) s))
   | A_await k \<Rightarrow> (if k < numOfSlaveProgs then then_do (sem_wait_on Finished s) (main_to (A_await (k + 1))) else Next (main_to A_check s))
   | A_check \<Rightarrow> or_fails (map_option (\<lambda>r. main_to A_cons2 (s\<lparr>correct_stats := Some r\<rparr>)) (main_check cfg s))
   | A_cons2 \<Rightarrow> then_do (sem_wait_on Cons_mutex s) (main_to A_cons2_out)
   | A_cons2_out \<Rightarrow> Next (main_to A_compare (sem_post Cons_mutex s))
   | A_compare \<Rightarrow> (if shared_stats s \<noteq> None \<and> shared_stats s = correct_stats s then Next (main_to A_over s) else Fails)
   | A_over \<Rightarrow> Waits)"

section \<open>The program\<close>

inductive arr_step :: "arr_config \<Rightarrow> arrays \<Rightarrow> arrays \<Rightarrow> bool" for cfg where
  r_slave: "k < numOfSlaveProgs \<Longrightarrow> NumOfElements cfg \<le> length tsc + 1 \<Longrightarrow> slave_step cfg tsc k s = Next s' \<Longrightarrow> arr_step cfg s s'"
| r_main: "main_step cfg s = Next s' \<Longrightarrow> arr_step cfg s s'"

text \<open>The arrays of the slaves have the length of the shared one when they are made; what they hold then does not matter.\<close>

definition arr_start :: "arr_config \<Rightarrow> arrays \<Rightarrow> bool" where
  "arr_start cfg s \<longleftrightarrow>
     sem_val s = (\<lambda>x. if x = Cons_mutex then 1 else 0) \<and> (\<forall>k. length (slave_array s k) = NumOfElements cfg) \<and>
     main_pc s = A_cons \<and> (\<forall>k. slave_pc s k = S_wait)"

end
