(* ===== verification/FOS_ArraysThms.thy ===== *)
theory FOS_ArraysThms
  imports FOS_Arrays FOS_SortThms
begin

text \<open>The array operations: the statistics of the slave are those of the master, and in every interleaving the program succeeds.\<close>

section \<open>Statistics\<close>

lemma loop_over_fold: "0 \<le> i \<Longrightarrow> nat i + n \<le> length E \<Longrightarrow> loop_over n f E i s = Some (fold f (take n (drop (nat i) E)) s)"
proof (induction n arbitrary: i s)
  case (Suc n)
  have "drop (nat i) E = E ! nat i # drop (nat (i + 1)) E" using Suc.prems by (simp add: Cons_nth_drop_Suc nat_add_distrib)
  then show ?case using Suc.IH [of "i + 1"] Suc.prems by simp
qed simp

lemma loop_over_all: "loop_over (length E) f E 0 s = Some (fold f E s)"
  using loop_over_fold [of 0 "length E" E f s] by simp

lemma sum_fold: "fold sum_step E m = m + sum_list (map of_int E)"
  by (induction E arbitrary: m) (simp_all add: sum_step_def)

lemma var_fold: "fold (var_step mean) E v = v + sum_list (map (\<lambda>x. (of_int x - mean) * (of_int x - mean)) E)"
  by (induction E arbitrary: v) (simp_all add: var_step_def)

lemma min_max_fold: "fold min_max_step E (m, a, b) = (fold sum_step E m, fold min E a, fold max E b)"
proof (induction E arbitrary: m a b)
  case (Cons x E)
  have "min_max_step x (m, a, b) = (sum_step x m, min x a, max x b)" by (simp add: min_max_step_def min_def max_def)
  then show ?case using Cons by simp
qed simp

lemma sort_first: "E \<noteq> [] \<Longrightarrow> sort E ! 0 = Min (set E)" for E :: "int list"
proof (rule Min_eqI [symmetric])
  fix y
  assume "E \<noteq> []" "y \<in> set E"
  then obtain k where "k < length E" "y = sort E ! k" by (metis in_set_conv_nth length_sort set_sort)
  then show "sort E ! 0 \<le> y" by (simp add: sorted_nth_mono)
next
  assume "E \<noteq> []"
  then show "sort E ! 0 \<in> set E" by (metis length_greater_0_conv length_sort nth_mem set_sort)
qed simp

lemma sort_last: "E \<noteq> [] \<Longrightarrow> sort E ! (length E - 1) = Max (set E)" for E :: "int list"
proof (rule Max_eqI [symmetric])
  fix y
  assume "E \<noteq> []" "y \<in> set E"
  then obtain k where "k < length E" "y = sort E ! k" by (metis in_set_conv_nth length_sort set_sort)
  then show "y \<le> sort E ! (length E - 1)" by (simp add: sorted_nth_mono)
next
  assume "E \<noteq> []"
  then have "length E - 1 < length (sort E)" by simp
  then show "sort E ! (length E - 1) \<in> set E" by (metis nth_mem set_sort)
qed simp

lemma sum_list_mset: "mset E' = mset E \<Longrightarrow> sum_list (map g E') = (sum_list (map g E) :: 'a :: comm_monoid_add)"
  by (metis mset_map sum_mset_sum_list)

text \<open>The statistics, with the arithmetic of the code.\<close>

definition mean_of :: "int list \<Rightarrow> int64" where
  "mean_of E = word_of_int (sint (sum_list (map of_int E) :: int64) sdiv int (length E))"

definition var_of :: "int list \<Rightarrow> int64" where
  "var_of E = word_of_int (sint (sum_list (map (\<lambda>x. (of_int x - mean_of E) * (of_int x - mean_of E)) E)) sdiv int (length E))"

definition stats_of :: "int list \<Rightarrow> int64 \<times> int64 \<times> int \<times> int \<times> int" where
  "stats_of E = (mean_of E, var_of E, Min (set E), Max (set E), sort E ! ((length E + 1) div 2 - 1))"

definition ints :: "int list \<Rightarrow> bool" where
  "ints E \<longleftrightarrow> E \<noteq> [] \<and> (\<forall>x \<in> set E. - 0x80000000 \<le> x \<and> x \<le> 0x7FFFFFFF)"

lemma sdiv_two: "0 \<le> n \<Longrightarrow> n sdiv 2 = n div 2" for n :: int
  by (cases "n = 0") (simp_all add: signed_divide_int_def)

lemma ArrayStats_stats:
  assumes "ints E" "length E \<le> length tsc + 1"
  shows "\<exists>E'. ArrayStats E tsc (int (length E)) = Some (stats_of E, E') \<and> length E' = length E"
proof -
  let ?n = "int (length E)" and ?k = "(int (length E) + 1) div 2"
  have ne: "E \<noteq> []" and n: "1 \<le> ?n" using assms(1) by (auto simp: ints_def Suc_le_eq)
  have "fold min E 0x7FFFFFFF = Min (set (0x7FFFFFFF # E))" "fold max E (- 0x80000000) = Max (set (- 0x80000000 # E))"
    by (simp_all add: Min.set_eq_fold Max.set_eq_fold del: list.set)
  moreover have "Min (set E) \<le> 0x7FFFFFFF" "- 0x80000000 \<le> Max (set E)"
    using assms(1) ne Min_in [of "set E"] Max_in [of "set E"] by (auto simp: ints_def)
  then have "Min (set (0x7FFFFFFF # E)) = Min (set E)" "Max (set (- 0x80000000 # E)) = Max (set E)"
    using ne by simp_all
  ultimately have loop: "loop_over (length E) min_max_step E 0 (0, 0x7FFFFFFF, - 0x80000000) =
      Some (sum_list (map of_int E), Min (set E), Max (set E))"
    by (simp add: loop_over_all min_max_fold sum_fold)
  have kb: "1 \<le> ?k" "?k \<le> ?n" using n by linarith+
  obtain E' where E': "KthElement E tsc ?n ?k = Some (sort E ! nat (?k - 1), E')" "mset E' = mset E"
    using KthElement_sort [OF kb assms(2)] by blast
  have len: "length E' = length E" using E'(2) by (rule mset_eq_length)
  have k: "nat (?k - 1) = (length E + 1) div 2 - 1" by linarith
  have var: "loop_over (length E) (var_step m) E' 0 0 = Some (sum_list (map (\<lambda>x. (of_int x - m) * (of_int x - m)) E))" for m
    using loop_over_all [of E' "var_step m" 0] len sum_list_mset [OF E'(2), of "\<lambda>x. (of_int x - m) * (of_int x - m)"]
    by (simp add: var_fold)
  have "ArrayStats E tsc ?n = Some (stats_of E, E')"
    using loop E'(1) var ne n by (simp add: ArrayStats_def sdiv_two div64_def mean_of_def [symmetric] var_of_def [symmetric] stats_of_def k)
  then show ?thesis using len by blast
qed

lemma main_check_stats:
  assumes "ints E" "Elements s = E" "slave_array s 0 = sort E" "slave_array s 1 = sort E" "NumOfElements cfg = length E"
  shows "main_check cfg s = Some (stats_of E)"
proof -
  let ?n = "int (length E)" and ?k = "(int (length E) + 1) div 2"
  have ne: "E \<noteq> []" and n: "1 \<le> ?n" using assms(1) by (auto simp: ints_def Suc_le_eq)
  have "CheckSorted (sort E) ?n = Some True" using CheckSorted_sorted [of "sort E"] by simp
  moreover have "ArrayStats_master E ?n = Some (mean_of E, var_of E)"
    using ne by (simp add: ArrayStats_master_def loop_over_all sum_fold var_fold div64_def mean_of_def [symmetric] var_of_def [symmetric])
  moreover have "at (sort E) 0 = Some (Min (set E))" using n ne by (simp add: sort_first)
  moreover have "nat (?n - 1) = length E - 1" by linarith
  then have "at (sort E) (?n - 1) = Some (Max (set E))" using n ne sort_last [OF ne] by simp
  moreover have "nat (?k - 1) = (length E + 1) div 2 - 1" by linarith
  then have "at (sort E) (?k - 1) = Some (sort E ! ((length E + 1) div 2 - 1))" using n by (subst at_in) auto
  ultimately show ?thesis using assms(2-5) n by (simp add: main_check_def sdiv_two stats_of_def)
qed

section \<open>Who is where\<close>

fun s_past :: "slave_at \<Rightarrow> bool" where
  "s_past S_wait = False" | "s_past _ = True"

fun s_over :: "slave_at \<Rightarrow> bool" where
  "s_over S_over = True" | "s_over _ = False"

fun s_prints :: "slave_at \<Rightarrow> bool" where
  "s_prints S_cons_out = True" | "s_prints S_cons2_out = True" | "s_prints _ = False"

fun a_prints :: "main_at \<Rightarrow> bool" where
  "a_prints A_create = True" | "a_prints A_cons_out = True" | "a_prints A_cons2_out = True" | "a_prints _ = False"

fun a_signalled :: "main_at \<Rightarrow> nat" where
  "a_signalled A_cons = 0" | "a_signalled A_create = 0" | "a_signalled A_cons_out = 0" | "a_signalled (A_fill i) = 0"
| "a_signalled (A_signal k) = k" | "a_signalled _ = 3"

fun a_awaited :: "main_at \<Rightarrow> nat" where
  "a_awaited (A_await k) = k" | "a_awaited A_check = 3" | "a_awaited A_cons2 = 3" | "a_awaited A_cons2_out = 3" | "a_awaited A_compare = 3"
| "a_awaited A_over = 3" | "a_awaited _ = 0"

definition sv :: "arrays \<Rightarrow> usem \<Rightarrow> int" where "sv s x = int (sem_val s x)"

abbreviation slaves_at :: "(slave_at \<Rightarrow> bool) \<Rightarrow> arrays \<Rightarrow> int" where
  "slaves_at P s \<equiv> cnt P (slave_pc s) numOfSlaveProgs"

definition inv_sems :: "arrays \<Rightarrow> bool" where
  "inv_sems s \<longleftrightarrow>
     sv s Ready + slaves_at s_past s = int (a_signalled (main_pc s)) \<and> a_signalled (main_pc s) \<le> 3 \<and>
     sv s Finished + int (a_awaited (main_pc s)) = slaves_at s_over s \<and> a_awaited (main_pc s) \<le> 3 \<and>
     sv s Cons_mutex + slaves_at s_prints s + of_bool (a_prints (main_pc s)) = 1"

text \<open>What the array is filled with, and how far the master and a slave have got.\<close>

definition filled :: "arr_config \<Rightarrow> int list" where
  "filled cfg = map (\<lambda>i. the (fill_value cfg i)) [0..<NumOfElements cfg]"

definition main_ok :: "arr_config \<Rightarrow> arrays \<Rightarrow> bool" where
  "main_ok cfg s = (case main_pc s of
     A_cons \<Rightarrow> True | A_create \<Rightarrow> True
   | A_cons_out \<Rightarrow> length (Elements s) = NumOfElements cfg
   | A_fill i \<Rightarrow> length (Elements s) = NumOfElements cfg \<and> i \<le> NumOfElements cfg \<and> take i (Elements s) = take i (filled cfg)
   | A_signal k \<Rightarrow> Elements s = filled cfg | A_await k \<Rightarrow> Elements s = filled cfg | A_check \<Rightarrow> Elements s = filled cfg
   | _ \<Rightarrow> correct_stats s = Some (stats_of (filled cfg)))"

definition slave_ok :: "arr_config \<Rightarrow> arrays \<Rightarrow> nat \<Rightarrow> bool" where
  "slave_ok cfg s k \<longleftrightarrow> length (slave_array s k) = NumOfElements cfg \<and> (case slave_pc s k of
     S_wait \<Rightarrow> True
   | S_copy i \<Rightarrow> i \<le> NumOfElements cfg \<and> take i (slave_array s k) = take i (filled cfg)
   | S_work \<Rightarrow> slave_array s k = filled cfg
   | u \<Rightarrow> if k = 2 then stats s = Some (stats_of (filled cfg)) \<and>
           (u = S_cons2 \<or> u = S_cons2_out \<or> u = S_finish \<or> u = S_over \<longrightarrow> shared_stats s = Some (stats_of (filled cfg)))
         else slave_array s k = sort (filled cfg) \<and> u \<noteq> S_share \<and> u \<noteq> S_cons2 \<and> u \<noteq> S_cons2_out)"

definition arr_inv :: "arr_config \<Rightarrow> arrays \<Rightarrow> bool" where
  "arr_inv cfg s \<longleftrightarrow> inv_sems s \<and> main_ok cfg s \<and> (\<forall>k < numOfSlaveProgs. slave_ok cfg s k)"

text \<open>What the user has to enter: one element at least, three for the semi-random filling, and not more than an \<open>int\<close> and the memory hold.\<close>

definition arr_input :: "arr_config \<Rightarrow> bool" where
  "arr_input cfg \<longleftrightarrow> 1 \<le> NumOfElements cfg \<and> NumOfElements cfg \<le> 0x7FFFFFFF \<and> int (NumOfElements cfg) \<le> room cfg \<and>
     (Chose cfg = Semi_random \<longrightarrow> 3 \<le> NumOfElements cfg)"

lemma fill_value_range:
  assumes "arr_input cfg" "i < NumOfElements cfg"
  shows "\<exists>x. fill_value cfg i = Some x \<and> 0 \<le> x \<and> x \<le> 0x7FFFFFFF"
proof (cases "Chose cfg")
  case Semi_random
  let ?r = "int (NumOfElements cfg) sdiv 3"
  have r: "?r = int (NumOfElements cfg) div 3" using assms(1) by (cases "NumOfElements cfg = 0") (simp_all add: signed_divide_int_def)
  have "3 \<le> int (NumOfElements cfg)" "int (NumOfElements cfg) \<le> 0x7FFFFFFF" using assms(1) Semi_random by (simp_all add: arr_input_def)
  then have pos: "0 < ?r" "?r \<le> 0x7FFFFFFF" unfolding r by linarith+
  have m: "0 \<le> int i mod ?r \<and> int i mod ?r \<le> 0x7FFFFFFF"
    using pos pos_mod_bound [OF pos(1), of "int i"] pos_mod_sign [OF pos(1), of "int i"] by linarith
  then show ?thesis using pos(1) Semi_random by (simp add: fill_value_def Let_def)
qed (use assms in \<open>auto simp: fill_value_def arr_input_def\<close>)

lemma filled_nth: "arr_input cfg \<Longrightarrow> i < NumOfElements cfg \<Longrightarrow> fill_value cfg i = Some (filled cfg ! i)"
  using fill_value_range [of cfg i] by (auto simp: filled_def)

lemma length_filled [simp]: "length (filled cfg) = NumOfElements cfg"
  by (simp add: filled_def)

lemma filled_ints:
  assumes "arr_input cfg"
  shows "ints (filled cfg)"
proof -
  have "- 0x80000000 \<le> x \<and> x \<le> 0x7FFFFFFF" if "x \<in> set (filled cfg)" for x
  proof -
    have "\<exists>i < NumOfElements cfg. x = filled cfg ! i" using that unfolding in_set_conv_nth length_filled by blast
    then obtain i where "i < NumOfElements cfg" "x = filled cfg ! i" by blast
    then show ?thesis using fill_value_range [OF assms, of i] filled_nth [OF assms, of i] by auto
  qed
  moreover have "filled cfg \<noteq> []" using assms by (simp add: arr_input_def flip: length_0_conv)
  ultimately show ?thesis by (simp add: ints_def)
qed

text \<open>The values are below the number of elements.\<close>

lemma filled_below:
  assumes "arr_input cfg" "x \<in> set (filled cfg)"
  shows "0 \<le> x \<and> x < int (NumOfElements cfg)"
proof -
  obtain i where i: "i < NumOfElements cfg" "x = filled cfg ! i" using assms(2) unfolding in_set_conv_nth length_filled by blast
  have f: "fill_value cfg i = Some x" using filled_nth [OF assms(1) i(1)] i(2) by simp
  show ?thesis
  proof (cases "Chose cfg")
    case Semi_random
    let ?r = "int (NumOfElements cfg) div 3"
    have r: "int (NumOfElements cfg) sdiv 3 = ?r" by (cases "NumOfElements cfg = 0") (simp_all add: signed_divide_int_def)
    have "3 \<le> int (NumOfElements cfg)" using assms(1) Semi_random by (simp add: arr_input_def)
    then have pos: "0 < ?r" "?r < int (NumOfElements cfg)" by linarith+
    have "x = int i mod ?r" using f Semi_random pos(1) by (simp add: fill_value_def r Let_def)
    then show ?thesis using pos pos_mod_bound [OF pos(1), of "int i"] pos_mod_sign [OF pos(1), of "int i"] by linarith
  qed (use f i(1) in \<open>auto simp: fill_value_def\<close>)
qed

lemma take_put:
  assumes "take i A = take i B" "i < length A" "length B = length A"
  shows "take (Suc i) (A[i := B ! i]) = take (Suc i) B"
  using assms by (simp add: take_Suc_conv_app_nth)

section \<open>Steps\<close>

lemma arr_to_sel [simp]:
  "sem_val (main_to a s) = sem_val s" "Elements (main_to a s) = Elements s" "slave_array (main_to a s) = slave_array s"
  "stats (main_to a s) = stats s" "shared_stats (main_to a s) = shared_stats s" "correct_stats (main_to a s) = correct_stats s"
  "main_pc (main_to a s) = a" "slave_pc (main_to a s) = slave_pc s"
  "sem_val (slave_to k u s) = sem_val s" "Elements (slave_to k u s) = Elements s" "slave_array (slave_to k u s) = slave_array s"
  "stats (slave_to k u s) = stats s" "shared_stats (slave_to k u s) = shared_stats s" "correct_stats (slave_to k u s) = correct_stats s"
  "main_pc (slave_to k u s) = main_pc s" "slave_pc (slave_to k u s) = (slave_pc s)(k := u)"
  "Elements (sem_post x s) = Elements s" "slave_array (sem_post x s) = slave_array s" "stats (sem_post x s) = stats s"
  "shared_stats (sem_post x s) = shared_stats s" "correct_stats (sem_post x s) = correct_stats s" "main_pc (sem_post x s) = main_pc s"
  "slave_pc (sem_post x s) = slave_pc s"
  by (simp_all add: main_to_def slave_to_def sem_post_def)

lemma sv_sel [simp]:
  "sv (main_to a s) x = sv s x" "sv (slave_to k u s) x = sv s x" "sv (sem_post y s) x = sv s x + of_bool (x = y)"
  "sv (s\<lparr>Elements := e\<rparr>) x = sv s x" "sv (s\<lparr>slave_array := b\<rparr>) x = sv s x" "sv (s\<lparr>stats := c\<rparr>) x = sv s x"
  "sv (s\<lparr>shared_stats := c\<rparr>) x = sv s x" "sv (s\<lparr>correct_stats := c\<rparr>) x = sv s x"
  by (auto simp: sv_def main_to_def slave_to_def sem_post_def)

lemma sv_nonneg [simp]: "0 \<le> sv s x"
  by (simp add: sv_def)

lemma then_wait_Next:
  assumes "then_do (sem_wait_on x s) f = Next s'"
  obtains v where "s' = f (s\<lparr>sem_val := v\<rparr>)" "0 < sv s x" "\<And>y. sv (s\<lparr>sem_val := v\<rparr>) y = sv s y - of_bool (y = x)"
  using assms that [of "(sem_val s)(x := sem_val s x - 1)"] by (auto simp: sem_wait_on_def sv_def of_nat_diff split: if_splits)

lemma then_wait_Waits: "then_do (sem_wait_on x s) f = Waits \<longleftrightarrow> sv s x = 0"
  by (simp add: sem_wait_on_def sv_def)

lemma then_wait_Fails [simp]: "then_do (sem_wait_on x s) f \<noteq> Fails"
  by (simp add: sem_wait_on_def)

lemma inv_sems_slave:
  assumes "k < numOfSlaveProgs" "slave_step cfg tsc k s = Next s'" "inv_sems s"
  shows "inv_sems s'"
  using assms(2)
  by (cases "slave_pc s k"; simp add: slave_step_def; (elim then_wait_Next)?;
    use assms(1,3) in \<open>force simp: inv_sems_def cnt_upd or_fails_Next slave_work_def copy_element_def Let_def bind_eq_Some_conv split: if_splits\<close>)

lemma inv_sems_main:
  assumes "main_step cfg s = Next s'" "inv_sems s"
  shows "inv_sems s'"
  using assms(1)
  by (cases "main_pc s"; simp add: main_step_def split: if_splits; (elim then_wait_Next)?;
    use assms(2) in \<open>force simp: inv_sems_def or_fails_Next numOfSlaveProgs_def bind_eq_Some_conv split: if_splits\<close>)

text \<open>While a slave is past its wait, the array is filled; when the master looks, all slaves are over.\<close>

lemma past_filled:
  assumes i: "arr_inv cfg s" and k: "k < numOfSlaveProgs" "s_past (slave_pc s k)" "\<not> s_over (slave_pc s k)"
  shows "Elements s = filled cfg"
proof -
  note S = i [unfolded arr_inv_def inv_sems_def]
  have "1 \<le> slaves_at s_past s" by (rule cnt_pos [OF k(1)]) (rule k(2))
  then have a: "0 < a_signalled (main_pc s)" using S sv_nonneg [of s Ready] by linarith
  have "slaves_at s_over s < int numOfSlaveProgs" by (rule cnt_less [OF k(1)]) (rule k(3))
  then have "a_awaited (main_pc s) < 3" using S sv_nonneg [of s Finished] unfolding numOfSlaveProgs_def by linarith
  then show ?thesis using a S by (cases "main_pc s") (simp_all add: main_ok_def)
qed

lemma awaited_over:
  assumes i: "arr_inv cfg s" and a: "a_awaited (main_pc s) = 3" and k: "k < numOfSlaveProgs"
  shows "slave_pc s k = S_over"
proof -
  have "slaves_at s_over s = 3"
    using i a cnt_le [of s_over "slave_pc s" numOfSlaveProgs] sv_nonneg [of s Finished] unfolding arr_inv_def inv_sems_def numOfSlaveProgs_def
    by linarith
  then have "s_over (slave_pc s k)" using k cnt_full [of s_over "slave_pc s" numOfSlaveProgs] by (simp add: numOfSlaveProgs_def)
  then show ?thesis by (cases "slave_pc s k") simp_all
qed

lemma over_results:
  assumes i: "arr_inv cfg s" and a: "a_awaited (main_pc s) = 3"
  shows "slave_array s 0 = sort (filled cfg)" "slave_array s 1 = sort (filled cfg)" "shared_stats s = Some (stats_of (filled cfg))"
proof -
  have o: "slave_ok cfg s k" "slave_pc s k = S_over" if "k < numOfSlaveProgs" for k
    using i awaited_over [OF i a that] that by (simp_all add: arr_inv_def)
  show "slave_array s 0 = sort (filled cfg)" "slave_array s 1 = sort (filled cfg)" "shared_stats s = Some (stats_of (filled cfg))"
    using o [of 0] o [of 1] o [of 2] by (simp_all add: slave_ok_def numOfSlaveProgs_def)
qed

section \<open>The statistics are exact\<close>

lemma sum_list_between:
  assumes "\<forall>x \<in> set E. 0 \<le> x \<and> x \<le> (b :: int)"
  shows "0 \<le> sum_list E \<and> sum_list E \<le> int (length E) * b"
  using assms by (induction E) (auto simp: algebra_simps)

lemma sint_of_int64:
  assumes "0 \<le> S" "S < 2 ^ 63"
  shows "sint (of_int S :: int64) = S"
  using assms by (simp add: signed_of_int signed_take_bit_int_eq_self)

lemma sdiv_div_pos: "0 \<le> a \<Longrightarrow> 0 < b \<Longrightarrow> a sdiv b = a div b" for a b :: int
  by (cases "a = 0") (simp_all add: signed_divide_int_def)

lemma div_below: "0 < n \<Longrightarrow> a < b * n \<Longrightarrow> a div n < b" for a b n :: int
proof -
  assume n: "0 < n" "a < b * n"
  have "a div n * n \<le> a" using pos_mod_sign [OF n(1), of a] div_mult_mod_eq [of a n] by linarith
  then have "a div n * n < b * n" using n(2) by linarith
  then show ?thesis using n(1) by simp
qed

lemma sum_of_int: "sum_list (map of_int E) = (of_int (sum_list E) :: int64)"
  by (induction E) simp_all

text \<open>Values below the number of elements: the mean never overflows, the variance not up to \<open>2 ^ 21\<close> elements.\<close>

lemma mean_exact:
  assumes "\<forall>x \<in> set E. 0 \<le> x \<and> x < int (length E)" "E \<noteq> []" "length E \<le> 0x7FFFFFFF"
  shows "mean_of E = of_int (sum_list E div int (length E))" "0 \<le> sum_list E div int (length E)"
    "sum_list E div int (length E) < int (length E)" "sint (mean_of E) = sum_list E div int (length E)"
proof -
  let ?n = "int (length E)"
  have n: "0 < ?n" "?n \<le> 0x7FFFFFFF" using assms(2,3) by auto
  have b: "0 \<le> sum_list E" "sum_list E \<le> ?n * (?n - 1)" using sum_list_between [of E "?n - 1"] assms(1) by auto
  have "?n * (?n - 1) \<le> 0x7FFFFFFF * 0x7FFFFFFF" by (rule mult_mono) (use n in linarith)+
  then have "sum_list E < 2 ^ 63" using b(2) by simp
  then have s: "sint (of_int (sum_list E) :: int64) = sum_list E" using b(1) by (rule sint_of_int64 [rotated])
  show m: "mean_of E = of_int (sum_list E div ?n)" using s b(1) n(1) by (simp add: mean_of_def sum_of_int sdiv_div_pos)
  show d: "0 \<le> sum_list E div ?n" using b(1) n(1) by (simp add: pos_imp_zdiv_nonneg_iff)
  have "?n * (?n - 1) < ?n * ?n" using n(1) by simp
  then have "sum_list E < ?n * ?n" using b(2) by linarith
  then show e: "sum_list E div ?n < ?n" using n(1) by (rule div_below [rotated])
  show "sint (mean_of E) = sum_list E div ?n" unfolding m using d e n(2) by (intro sint_of_int64) simp_all
qed

lemma var_exact:
  assumes "\<forall>x \<in> set E. 0 \<le> x \<and> x < int (length E)" "E \<noteq> []" "length E \<le> 2 ^ 21"
  defines "\<mu> \<equiv> sum_list E div int (length E)"
  shows "sint (var_of E) = sum_list (map (\<lambda>x. (x - \<mu>) ^ 2) E) div int (length E)"
proof -
  let ?n = "int (length E)" and ?q = "map (\<lambda>x. (x - \<mu>) ^ 2) E"
  have n: "0 < ?n" "?n \<le> 2 ^ 21" using assms(2,3) by auto
  have m: "mean_of E = of_int \<mu>" "0 \<le> \<mu>" "\<mu> < ?n" using mean_exact [OF assms(1,2)] assms(3) unfolding \<mu>_def by simp_all
  have "\<forall>y \<in> set ?q. 0 \<le> y \<and> y \<le> (2 ^ 21 - 1) ^ 2"
  proof
    fix y
    assume "y \<in> set ?q"
    then obtain x where x: "x \<in> set E" "y = (x - \<mu>) ^ 2" by auto
    then have "\<bar>x - \<mu>\<bar> \<le> 2 ^ 21 - 1" using assms(1) m(2,3) n(2) by force
    then have "\<bar>x - \<mu>\<bar> ^ 2 \<le> (2 ^ 21 - 1) ^ 2" by (rule power_mono) simp
    then show "0 \<le> y \<and> y \<le> (2 ^ 21 - 1) ^ 2" using x(2) by simp
  qed
  from sum_list_between [OF this] have b: "0 \<le> sum_list ?q" "sum_list ?q \<le> ?n * (2 ^ 21 - 1) ^ 2" by simp_all
  have "?n * (2 ^ 21 - 1) ^ 2 \<le> 2 ^ 21 * (2 ^ 21 - 1) ^ 2" using n(2) by (rule mult_right_mono) simp
  then have top: "sum_list ?q < 2 ^ 63" using b(2) by simp
  have "sum_list (map (\<lambda>x. (of_int x - mean_of E) * (of_int x - mean_of E)) E) = (of_int (sum_list ?q) :: int64)"
    unfolding m(1) by (induction E) (simp_all add: power2_eq_square)
  then have v: "var_of E = of_int (sum_list ?q div ?n)"
    using sint_of_int64 [OF b(1) top] b(1) n(1) by (simp add: var_of_def sdiv_div_pos)
  have "0 \<le> sum_list ?q div ?n" using b(1) n(1) by (simp add: pos_imp_zdiv_nonneg_iff)
  moreover have "sum_list ?q div ?n \<le> sum_list ?q" using zdiv_mono2 [OF b(1), of 1 ?n] n(1) by simp
  ultimately show ?thesis unfolding v using top by (intro sint_of_int64) simp_all
qed

section \<open>Each process gets on as it should\<close>

text \<open>What a step changes.\<close>

lemma slave_step_frame:
  assumes "slave_step cfg tsc k s = Next s'"
  shows "Elements s' = Elements s" "correct_stats s' = correct_stats s" "main_pc s' = main_pc s"
    "\<And>j. j \<noteq> k \<Longrightarrow> slave_pc s' j = slave_pc s j" "\<And>j. j \<noteq> k \<Longrightarrow> slave_array s' j = slave_array s j"
proof -
  have "Elements s' = Elements s \<and> correct_stats s' = correct_stats s \<and> main_pc s' = main_pc s \<and>
    (\<forall>j. j \<noteq> k \<longrightarrow> slave_pc s' j = slave_pc s j \<and> slave_array s' j = slave_array s j)"
    using assms
    by (cases "slave_pc s k"; simp add: slave_step_def split: if_splits; (elim then_wait_Next)?;
      force simp: or_fails_Next slave_work_def copy_element_def Let_def bind_eq_Some_conv split: if_splits)
  then show "Elements s' = Elements s" "correct_stats s' = correct_stats s" "main_pc s' = main_pc s"
    "\<And>j. j \<noteq> k \<Longrightarrow> slave_pc s' j = slave_pc s j" "\<And>j. j \<noteq> k \<Longrightarrow> slave_array s' j = slave_array s j" by blast+
qed

lemma main_step_frame:
  assumes "main_step cfg s = Next s'"
  shows "slave_pc s' = slave_pc s" "slave_array s' = slave_array s" "stats s' = stats s" "shared_stats s' = shared_stats s"
proof -
  have "slave_pc s' = slave_pc s \<and> slave_array s' = slave_array s \<and> stats s' = stats s \<and> shared_stats s' = shared_stats s"
    using assms
    by (cases "main_pc s"; simp add: main_step_def split: if_splits; (elim then_wait_Next)?;
      force simp: or_fails_Next bind_eq_Some_conv)
  then show "slave_pc s' = slave_pc s" "slave_array s' = slave_array s" "stats s' = stats s" "shared_stats s' = shared_stats s" by blast+
qed

text \<open>The work of a slave on its copy of the array.\<close>

lemma slave_work_right:
  assumes c: "arr_input cfg" and k: "k < numOfSlaveProgs" and A: "slave_array s k = filled cfg" and t: "NumOfElements cfg \<le> length tsc + 1"
  shows "\<exists>s1. slave_work cfg tsc k s = Some s1 \<and> length (slave_array s1 k) = NumOfElements cfg \<and> shared_stats s1 = shared_stats s \<and>
    (if k = 2 then stats s1 = Some (stats_of (filled cfg)) else slave_array s1 k = sort (filled cfg) \<and> stats s1 = stats s)"
proof -
  let ?n = "int (NumOfElements cfg)"
  have q: "QuickSort_random (filled cfg) tsc ?n = Some (sort (filled cfg))" using QuickSort_random_sort [of "filled cfg" tsc] t by simp
  have m: "MSort_room (room cfg) (filled cfg) 1 ?n = Some (sort (filled cfg))"
    using MSort_room_sort [of "filled cfg" "room cfg"] c by (simp add: arr_input_def)
  obtain E' where s: "ArrayStats (filled cfg) tsc ?n = Some (stats_of (filled cfg), E')" "length E' = NumOfElements cfg"
    using ArrayStats_stats [OF filled_ints [OF c], of tsc] t by auto
  have "k = 0 \<or> k = 1 \<or> k = 2" using k by (auto simp: numOfSlaveProgs_def)
  then show ?thesis using A q m s by (elim disjE) (simp_all add: slave_work_def Let_def)
qed

lemma copy_element_right:
  assumes "Elements s = filled cfg" "i < NumOfElements cfg" "length (slave_array s k) = NumOfElements cfg"
    "take i (slave_array s k) = take i (filled cfg)"
  shows "\<exists>s1. copy_element k i s = Some s1 \<and> length (slave_array s1 k) = NumOfElements cfg \<and>
    take (Suc i) (slave_array s1 k) = take (Suc i) (filled cfg)"
  using assms take_put [of i "slave_array s k" "filled cfg"] by (simp add: copy_element_def put_def)

lemma slave_ok_step:
  assumes c: "arr_input cfg" and i: "arr_inv cfg s" and k: "k < numOfSlaveProgs" and t: "NumOfElements cfg \<le> length tsc + 1"
    and step: "slave_step cfg tsc k s = Next s'"
  shows "slave_ok cfg s' k"
proof -
  have o: "slave_ok cfg s k" using i k by (simp add: arr_inv_def)
  have E: "Elements s = filled cfg" if "s_past (slave_pc s k)" "\<not> s_over (slave_pc s k)" by (rule past_filled [OF i k that])
  consider (copy) j where "slave_pc s k = S_copy j" | (work) "slave_pc s k = S_work"
    | (other) "\<And>j. slave_pc s k \<noteq> S_copy j" "slave_pc s k \<noteq> S_work" by metis
  then show ?thesis
  proof cases
    case copy
    have A: "length (slave_array s k) = NumOfElements cfg" "j \<le> NumOfElements cfg" "take j (slave_array s k) = take j (filled cfg)"
      using o copy by (simp_all add: slave_ok_def)
    show ?thesis
    proof (cases "j < NumOfElements cfg")
      case True
      from copy_element_right [OF E True A(1,3)] copy obtain s1 where s1: "copy_element k j s = Some s1"
        "length (slave_array s1 k) = NumOfElements cfg" "take (Suc j) (slave_array s1 k) = take (Suc j) (filled cfg)" by auto
      have "s' = slave_to k (S_copy (Suc j)) s1" using step copy True s1(1) by (simp add: slave_step_def or_fails_Next)
      then show ?thesis using s1(2,3) True by (simp add: slave_ok_def)
    next
      case False
      then have "s' = slave_to k S_work s" using step copy by (simp add: slave_step_def)
      then show ?thesis using A False by (simp add: slave_ok_def)
    qed
  next
    case work
    have A: "slave_array s k = filled cfg" using o work by (simp add: slave_ok_def)
    from slave_work_right [OF c k A t] obtain s1 where s1: "slave_work cfg tsc k s = Some s1" "length (slave_array s1 k) = NumOfElements cfg"
      "if k = 2 then stats s1 = Some (stats_of (filled cfg)) else slave_array s1 k = sort (filled cfg) \<and> stats s1 = stats s" by blast
    have "s' = slave_to k S_cons s1" using step work s1(1) by (simp add: slave_step_def or_fails_Next)
    then show ?thesis using s1(2,3) by (auto simp: slave_ok_def split: if_splits)
  next
    case other
    then show ?thesis
      using step o
      by (cases "slave_pc s k"; simp add: slave_step_def split: if_splits; (elim then_wait_Next)?; auto simp: slave_ok_def split: if_splits)
  qed
qed

text \<open>Only the slave with the statistics changes what is said about them.\<close>

lemma slave_ok_other:
  assumes o: "slave_ok cfg s j" and j: "j \<noteq> k" "j < numOfSlaveProgs" and i: "arr_inv cfg s" and k: "k < numOfSlaveProgs"
    and step: "slave_step cfg tsc k s = Next s'"
  shows "slave_ok cfg s' j"
proof -
  note fr = slave_step_frame [OF step]
  have s: "(stats s' = stats s \<and> shared_stats s' = shared_stats s) \<or> k = 2"
  proof (cases "k = 2")
    case False
    then have "slave_pc s k \<noteq> S_share" "k = 0 \<or> k = 1" using i k by (auto simp: arr_inv_def slave_ok_def numOfSlaveProgs_def)
    then show ?thesis
      using step
      by (cases "slave_pc s k"; simp add: slave_step_def split: if_splits; (elim then_wait_Next)?;
        force simp: or_fails_Next slave_work_def copy_element_def Let_def bind_eq_Some_conv)
  qed simp
  show ?thesis
  proof (cases "j = 2")
    case True
    then show ?thesis using o s fr(4,5) [OF j(1)] j(1) by (auto simp: slave_ok_def split: slave_at.splits)
  next
    case False
    then show ?thesis using o fr(4,5) [OF j(1)] by (auto simp: slave_ok_def split: slave_at.splits)
  qed
qed

lemma arr_inv_slave:
  assumes c: "arr_input cfg" and i: "arr_inv cfg s" and k: "k < numOfSlaveProgs" and t: "NumOfElements cfg \<le> length tsc + 1"
    and step: "slave_step cfg tsc k s = Next s'"
  shows "arr_inv cfg s'"
  unfolding arr_inv_def
proof (intro conjI allI impI)
  show "inv_sems s'" using inv_sems_slave [OF k step] i by (simp add: arr_inv_def)
  have "main_ok cfg s" using i by (simp add: arr_inv_def)
  then show "main_ok cfg s'" unfolding main_ok_def slave_step_frame [OF step] .
  show "slave_ok cfg s' j" if "j < numOfSlaveProgs" for j
    using slave_ok_step [OF c i k t step] slave_ok_other [OF _ _ that i k step] i that by (cases "j = k") (simp_all add: arr_inv_def)
qed

lemma main_ok_step:
  assumes c: "arr_input cfg" and i: "arr_inv cfg s" and step: "main_step cfg s = Next s'"
  shows "main_ok cfg s'"
proof -
  have o: "main_ok cfg s" using i by (simp add: arr_inv_def)
  consider (fill) j where "main_pc s = A_fill j" | (check) "main_pc s = A_check" | (other) "\<And>j. main_pc s \<noteq> A_fill j" "main_pc s \<noteq> A_check" by metis
  then show ?thesis
  proof cases
    case fill
    have E: "length (Elements s) = NumOfElements cfg" "j \<le> NumOfElements cfg" "take j (Elements s) = take j (filled cfg)"
      using o fill by (simp_all add: main_ok_def)
    show ?thesis
    proof (cases "j < NumOfElements cfg")
      case True
      have "s' = main_to (A_fill (Suc j)) (s\<lparr>Elements := (Elements s)[j := filled cfg ! j]\<rparr>)"
        using step fill True filled_nth [OF c True] E(1) by (simp add: main_step_def or_fails_Next put_def)
      then show ?thesis using E True take_put [OF E(3)] by (simp add: main_ok_def)
    next
      case False
      then have "s' = main_to (A_signal 0) s" using step fill by (simp add: main_step_def)
      then show ?thesis using E False by (simp add: main_ok_def)
    qed
  next
    case check
    have "slave_array s 0 = sort (filled cfg)" "slave_array s 1 = sort (filled cfg)" by (rule over_results [OF i]; simp add: check)+
    moreover have "Elements s = filled cfg" using o check by (simp add: main_ok_def)
    ultimately have "main_check cfg s = Some (stats_of (filled cfg))"
      by (intro main_check_stats [OF filled_ints [OF c]]) simp_all
    then have "s' = main_to A_cons2 (s\<lparr>correct_stats := Some (stats_of (filled cfg))\<rparr>)"
      using step check by (simp add: main_step_def or_fails_Next)
    then show ?thesis by (simp add: main_ok_def)
  next
    case other
    then show ?thesis
      using step o
      by (cases "main_pc s"; simp add: main_step_def split: if_splits; (elim then_wait_Next)?; auto simp: main_ok_def)
  qed
qed

lemma arr_inv_step:
  assumes c: "arr_input cfg" and step: "arr_step cfg s s'" and i: "arr_inv cfg s"
  shows "arr_inv cfg s'"
  using step
proof cases
  case (r_slave k tsc)
  then show ?thesis using arr_inv_slave [OF c i] by blast
next
  case r_main
  have "slave_ok cfg s' k" if "k < numOfSlaveProgs" for k
    using i that unfolding arr_inv_def slave_ok_def main_step_frame [OF r_main] by blast
  then show ?thesis using main_ok_step [OF c i r_main] inv_sems_main [OF r_main] i by (simp add: arr_inv_def)
qed

lemma arr_inv_start:
  assumes "arr_start cfg s"
  shows "arr_inv cfg s"
proof -
  have pc: "slave_pc s k = S_wait" for k using assms by (simp add: arr_start_def)
  have "slaves_at P s = 0" if "\<not> P S_wait" for P using that pc by (simp add: cnt_zero)
  then show ?thesis using assms by (simp add: arr_inv_def inv_sems_def main_ok_def slave_ok_def arr_start_def sv_def)
qed

section \<open>No failure, no deadlock\<close>

lemma slave_no_failure:
  assumes c: "arr_input cfg" and i: "arr_inv cfg s" and k: "k < numOfSlaveProgs" and t: "NumOfElements cfg \<le> length tsc + 1"
  shows "slave_step cfg tsc k s \<noteq> Fails"
proof -
  have o: "slave_ok cfg s k" using i k by (simp add: arr_inv_def)
  have E: "Elements s = filled cfg" if "s_past (slave_pc s k)" "\<not> s_over (slave_pc s k)" by (rule past_filled [OF i k that])
  show ?thesis
  proof (cases "slave_pc s k")
    case (S_copy j)
    then have A: "length (slave_array s k) = NumOfElements cfg" "take j (slave_array s k) = take j (filled cfg)"
      using o by (simp_all add: slave_ok_def)
    show ?thesis using copy_element_right [OF E _ A, of] S_copy by (auto simp: slave_step_def or_fails_def)
  next
    case S_work
    then have "slave_array s k = filled cfg" using o by (simp add: slave_ok_def)
    from slave_work_right [OF c k this t] S_work show ?thesis by (auto simp: slave_step_def or_fails_def)
  qed (simp_all add: slave_step_def)
qed

lemma main_no_failure:
  assumes c: "arr_input cfg" and i: "arr_inv cfg s"
  shows "main_step cfg s \<noteq> Fails"
proof -
  have o: "main_ok cfg s" using i by (simp add: arr_inv_def)
  show ?thesis
  proof (cases "main_pc s")
    case (A_fill j)
    then show ?thesis using o filled_nth [OF c, of j] by (auto simp: main_step_def or_fails_def main_ok_def put_def)
  next
    case A_check
    then have "slave_array s 0 = sort (filled cfg)" "slave_array s 1 = sort (filled cfg)" "Elements s = filled cfg"
      using over_results [OF i] o by (simp_all add: main_ok_def)
    then have "main_check cfg s = Some (stats_of (filled cfg))"
      by (intro main_check_stats [OF filled_ints [OF c]]) simp_all
    then show ?thesis using A_check by (simp add: main_step_def or_fails_def)
  next
    case A_compare
    then have "shared_stats s = Some (stats_of (filled cfg))" "correct_stats s = Some (stats_of (filled cfg))"
      using over_results [OF i] o by (simp_all add: main_ok_def)
    then show ?thesis using A_compare by (simp add: main_step_def)
  qed (simp_all add: main_step_def)
qed

text \<open>Who waits, and for what.\<close>

lemma slave_stuck:
  assumes "slave_step cfg tsc k s = Waits"
  shows "slave_pc s k = S_over \<or> slave_pc s k = S_wait \<and> sv s Ready = 0 \<or> (slave_pc s k = S_cons \<or> slave_pc s k = S_cons2) \<and> sv s Cons_mutex = 0"
  using assms by (cases "slave_pc s k") (auto simp: slave_step_def then_wait_Waits or_fails_def split: option.splits if_splits)

lemma main_stuck:
  assumes "main_step cfg s = Waits"
  shows "main_pc s = A_over \<or> (main_pc s = A_cons \<or> main_pc s = A_cons2) \<and> sv s Cons_mutex = 0 \<or>
    (\<exists>k < 3. main_pc s = A_await k) \<and> sv s Finished = 0"
  using assms
  by (cases "main_pc s") (auto simp: main_step_def then_wait_Waits or_fails_def numOfSlaveProgs_def split: option.splits if_splits)

lemma arr_not_stuck:
  assumes i: "arr_inv cfg s" and m: "main_pc s \<noteq> A_over"
  shows "main_step cfg s \<noteq> Waits \<or> (\<exists>k < numOfSlaveProgs. slave_step cfg tsc k s \<noteq> Waits)"
proof (rule ccontr)
  assume n: "\<not> ?thesis"
  note S = i [unfolded arr_inv_def inv_sems_def]
  have main: "(main_pc s = A_cons \<or> main_pc s = A_cons2) \<and> sv s Cons_mutex = 0 \<or> (\<exists>k < 3. main_pc s = A_await k) \<and> sv s Finished = 0"
    using n m main_stuck [of cfg s] by blast
  have slave: "slave_pc s k = S_over \<or> slave_pc s k = S_wait \<and> sv s Ready = 0 \<or> (slave_pc s k = S_cons \<or> slave_pc s k = S_cons2) \<and> sv s Cons_mutex = 0"
    if "k < numOfSlaveProgs" for k
    using n that by (intro slave_stuck [of cfg tsc]) blast
  have "\<not> s_prints (slave_pc s k)" if "k < numOfSlaveProgs" for k using slave [OF that] by auto
  then have "slaves_at s_prints s = 0" by (simp add: cnt_zero)
  moreover have "\<not> a_prints (main_pc s)" using main by auto
  ultimately have mut: "sv s Cons_mutex = 1" using S by simp
  then obtain k where k: "k < 3" "main_pc s = A_await k" "sv s Finished = 0" using main by auto
  then have "slaves_at s_over s < int numOfSlaveProgs" using S by (simp add: numOfSlaveProgs_def)
  then obtain j where j: "j < numOfSlaveProgs" "\<not> s_over (slave_pc s j)" using cnt_full [of s_over "slave_pc s" numOfSlaveProgs] by auto
  then have w: "slave_pc s j = S_wait" "sv s Ready = 0" using slave [OF j(1)] mut by auto
  have "slaves_at s_past s < int numOfSlaveProgs" by (rule cnt_less [OF j(1)]) (simp add: w)
  then show False using S k w(2) by (simp add: numOfSlaveProgs_def)
qed

section \<open>A measure\<close>

fun s_left :: "nat \<Rightarrow> slave_at \<Rightarrow> nat" where
  "s_left n S_wait = n + 11" | "s_left n (S_copy i) = n - i + 10" | "s_left n S_work = 9" | "s_left n S_cons = 8" | "s_left n S_cons_out = 7"
| "s_left n S_share = 6" | "s_left n S_cons2 = 5" | "s_left n S_cons2_out = 4" | "s_left n S_finish = 3" | "s_left n S_over = 0"

fun a_left :: "nat \<Rightarrow> main_at \<Rightarrow> nat" where
  "a_left n A_cons = n + 17" | "a_left n A_create = n + 16" | "a_left n A_cons_out = n + 15" | "a_left n (A_fill i) = n - i + 14"
| "a_left n (A_signal k) = 3 - k + 10" | "a_left n (A_await k) = 3 - k + 6" | "a_left n A_check = 5" | "a_left n A_cons2 = 4"
| "a_left n A_cons2_out = 3" | "a_left n A_compare = 2" | "a_left n A_over = 0"

definition arr_left :: "arr_config \<Rightarrow> arrays \<Rightarrow> nat" where
  "arr_left cfg s = (\<Sum>k<numOfSlaveProgs. s_left (NumOfElements cfg) (slave_pc s k)) + a_left (NumOfElements cfg) (main_pc s)"

lemma arr_step_shorter:
  assumes "arr_step cfg s s'"
  shows "arr_left cfg s' < arr_left cfg s"
  using assms
proof cases
  case (r_slave k tsc)
  note fr = slave_step_frame [OF r_slave(3)]
  have m: "s_left (NumOfElements cfg) (slave_pc s' k) < s_left (NumOfElements cfg) (slave_pc s k)"
    using r_slave(3)
    by (cases "slave_pc s k"; simp add: slave_step_def split: if_splits; (elim then_wait_Next)?;
      force simp: or_fails_Next slave_work_def copy_element_def Let_def bind_eq_Some_conv split: if_splits)
  have "slave_pc s' = (slave_pc s)(k := slave_pc s' k)" using fr(4) by (auto simp: fun_eq_iff)
  then show ?thesis
    using m sum_upd_nat [OF r_slave(1), of "s_left (NumOfElements cfg)" "slave_pc s" "slave_pc s' k"] fr(3) by (simp add: arr_left_def)
next
  case r_main
  have "a_left (NumOfElements cfg) (main_pc s') < a_left (NumOfElements cfg) (main_pc s)"
    using r_main
    by (cases "main_pc s"; simp add: main_step_def split: if_splits; (elim then_wait_Next)?;
      force simp: or_fails_Next bind_eq_Some_conv numOfSlaveProgs_def)
  then show ?thesis using main_step_frame(1) [OF r_main] by (simp add: arr_left_def)
qed

lemma arr_run:
  assumes "arr_input cfg" "arr_start cfg s0" "(arr_step cfg ^^ n) s0 s"
  shows "arr_inv cfg s \<and> n + arr_left cfg s \<le> 4 * NumOfElements cfg + 50"
  using assms(3)
proof (induction n arbitrary: s)
  case 0
  then show ?case using arr_inv_start [OF assms(2)] assms(2) by (simp add: arr_left_def arr_start_def numOfSlaveProgs_def)
next
  case (Suc n)
  from Suc.prems obtain y where y: "(arr_step cfg ^^ n) s0 y" "arr_step cfg y s" by (rule relpowp_Suc_E)
  show ?case using Suc.IH [OF y(1)] arr_inv_step [OF assms(1) y(2)] arr_step_shorter [OF y(2)] by simp
qed

section \<open>The property\<close>

text \<open>
  C37: the array program succeeds.  The input must be one that it can take (\<open>arr_input\<close>): at least one element, at least three for the choice that
  fills the array with repeated values, as fewer make it divide by zero (\<open>array_program_small\<close> below), and not more than an \<open>int\<close> and the memory
  hold.  Then in every interleaving of the master and its three slaves and whatever the pivots, there are at most \<open>4 * n + 50\<close> steps, nobody reads
  outside an array, divides by zero or panics, and somebody can go on until the master is through.  At the end both sorting slaves have the sorted
  array of what the master filled in, and the shared statistics, which are those that the master computes itself, are the mean rounded
  down, the least, the greatest and the median element, and up to \<open>2 ^ 21\<close> elements the variance about that mean, rounded down; beyond that
  the sum of the squares may wrap around in its 64 bits, for the slave and the master alike.
\<close>

theorem array_program_correct:
  assumes "arr_input cfg" "arr_start cfg s0" "(arr_step cfg ^^ n) s0 s"
  defines "E \<equiv> filled cfg" and "N \<equiv> int (NumOfElements cfg)"
  shows "n \<le> 4 * NumOfElements cfg + 50 \<and> main_step cfg s \<noteq> Fails \<and>
    (\<forall>k < numOfSlaveProgs. \<forall>tsc. NumOfElements cfg \<le> length tsc + 1 \<longrightarrow> slave_step cfg tsc k s \<noteq> Fails) \<and>
    (main_pc s = A_over \<or> (\<exists>s'. arr_step cfg s s')) \<and>
    (main_pc s = A_over \<longrightarrow> slave_array s 0 = sort E \<and> slave_array s 1 = sort E \<and> correct_stats s = shared_stats s \<and>
      (\<exists>mean var. shared_stats s = Some (mean, var, Min (set E), Max (set E), sort E ! ((NumOfElements cfg + 1) div 2 - 1)) \<and>
        sint mean = sum_list E div N \<and> (N \<le> 2 ^ 21 \<longrightarrow> sint var = sum_list (map (\<lambda>x. (x - sum_list E div N) ^ 2) E) div N)))"
proof -
  have i: "arr_inv cfg s" and n: "n \<le> 4 * NumOfElements cfg + 50" using arr_run [OF assms(1-3)] by simp_all
  let ?tsc = "replicate (NumOfElements cfg) (0 :: u32)"
  have go: "\<exists>s'. arr_step cfg s s'" if "main_pc s \<noteq> A_over"
    using arr_not_stuck [OF i that, of ?tsc]
  proof (elim disjE exE conjE)
    assume "main_step cfg s \<noteq> Waits"
    then obtain s' where "main_step cfg s = Next s'" using main_no_failure [OF assms(1) i] by (cases "main_step cfg s") auto
    then show ?thesis using r_main by blast
  next
    fix k
    assume k: "k < numOfSlaveProgs" "slave_step cfg ?tsc k s \<noteq> Waits"
    then obtain s' where "slave_step cfg ?tsc k s = Next s'"
      using slave_no_failure [OF assms(1) i k(1), of ?tsc] by (cases "slave_step cfg ?tsc k s") auto
    then show ?thesis using r_slave [OF k(1), of cfg ?tsc] by auto
  qed
  have "correct_stats s = Some (stats_of (filled cfg))" if "main_pc s = A_over" using i that by (simp add: arr_inv_def main_ok_def)
  note over = this [folded E_def]
  have steps: "n \<le> 4 * NumOfElements cfg + 50 \<and> main_step cfg s \<noteq> Fails \<and>
    (\<forall>k < numOfSlaveProgs. \<forall>tsc. NumOfElements cfg \<le> length tsc + 1 \<longrightarrow> slave_step cfg tsc k s \<noteq> Fails) \<and>
    (main_pc s = A_over \<or> (\<exists>s'. arr_step cfg s s'))"
    using n go main_no_failure [OF assms(1) i] slave_no_failure [OF assms(1) i] by blast
  have len: "int (length E) = N" "length E = NumOfElements cfg" by (simp_all add: E_def N_def)
  have b: "\<forall>x \<in> set E. 0 \<le> x \<and> x < int (length E)" "E \<noteq> []" "length E \<le> 0x7FFFFFFF"
    using filled_below [OF assms(1)] assms(1) by (auto simp: E_def arr_input_def simp flip: length_0_conv)
  have results: "main_pc s = A_over \<longrightarrow> slave_array s 0 = sort E \<and> slave_array s 1 = sort E \<and> correct_stats s = shared_stats s \<and>
      (\<exists>mean var. shared_stats s = Some (mean, var, Min (set E), Max (set E), sort E ! ((NumOfElements cfg + 1) div 2 - 1)) \<and>
        sint mean = sum_list E div N \<and> (N \<le> 2 ^ 21 \<longrightarrow> sint var = sum_list (map (\<lambda>x. (x - sum_list E div N) ^ 2) E) div N))"
  proof
    assume o: "main_pc s = A_over"
    then have "a_awaited (main_pc s) = 3" by simp
    then have r: "slave_array s 0 = sort E" "slave_array s 1 = sort E" "shared_stats s = Some (stats_of E)"
      using over_results [OF i] unfolding E_def by blast+
    have "N \<le> 2 ^ 21 \<longrightarrow> sint (var_of E) = sum_list (map (\<lambda>x. (x - sum_list E div N) ^ 2) E) div N"
      using var_exact [OF b(1,2)] unfolding len(1) by (simp add: len(2) N_def)
    then show "slave_array s 0 = sort E \<and> slave_array s 1 = sort E \<and> correct_stats s = shared_stats s \<and>
      (\<exists>mean var. shared_stats s = Some (mean, var, Min (set E), Max (set E), sort E ! ((NumOfElements cfg + 1) div 2 - 1)) \<and>
        sint mean = sum_list E div N \<and> (N \<le> 2 ^ 21 \<longrightarrow> sint var = sum_list (map (\<lambda>x. (x - sum_list E div N) ^ 2) E) div N))"
      using r over [OF o] mean_exact(4) [OF b] unfolding stats_of_def len(1) by (simp add: len(2) E_def [symmetric])
  qed
  from steps results show ?thesis by blast
qed

theorem array_program_correct_witness:
  "\<exists>s'. arr_step \<lparr>NumOfElements = 3, Chose = Semi_random, room = 8\<rparr>
     \<lparr>sem_val = \<lambda>x. if x = Cons_mutex then 1 else 0, Elements = [], slave_array = \<lambda>_. [0, 0, 0], stats = None, shared_stats = None,
       correct_stats = None, main_pc = A_cons, slave_pc = \<lambda>_. S_wait\<rparr> s'"
  using array_program_correct [of "\<lparr>NumOfElements = 3, Chose = Semi_random, room = 8\<rparr>"
    "\<lparr>sem_val = \<lambda>x. if x = Cons_mutex then 1 else 0, Elements = [], slave_array = \<lambda>_. [0, 0, 0], stats = None, shared_stats = None,
       correct_stats = None, main_pc = A_cons, slave_pc = \<lambda>_. S_wait\<rparr>" 0]
  by (simp add: arr_input_def arr_start_def)

text \<open>With one or two elements the semi-random filling divides by zero.\<close>

lemma array_program_small: "NumOfElements cfg \<in> {1, 2} \<Longrightarrow> Chose cfg = Semi_random \<Longrightarrow> fill_value cfg 0 = None"
  by (auto simp: fill_value_def Let_def signed_divide_int_def)

end
