(* ===== verification/FOS_Midterm.thy ===== *)
theory FOS_Midterm
  imports FOS_Procs
begin

text \<open>
  The example of two processes on a shared variable (\<open>user/MidTermEx_Master.c\<close>, \<open>MidTermEx_ProcessA.c\<close>, \<open>MidTermEx_ProcessB.c\<close>): one doubles
  it, the other increments it, and the user chooses whether nothing, semaphores or spin locks keep them in order.  A statement is one step, and
  an assignment to the counter of finished processes is a load and a store.  The master is modelled from the point where it has made the shared objects
  and the processes; delays have no effect and the printing of anything but the result is left out.

  The library with semaphores and spin locks of user programs is not in the repository; its operations are the argument \<open>sync_ops\<close>.  The
  lock of the console is a flag that a process waits for.
\<close>

section \<open>State\<close>

datatype sync_object = SYNC_T | SYNC_finished | SYNC_mutex

text \<open>
  \<open>sync_take\<close> is \<open>wait_semaphore\<close> or \<open>acquire_uspinlock\<close>, and it is \<open>None\<close> while the caller has to wait; \<open>sync_give\<close> is \<open>signal_semaphore\<close> or
  \<open>release_uspinlock\<close>.  \<open>sync_free\<close> is how often an object can still be taken.  Of a lock nothing is said that is released while
  it is free, but the semaphore \<open>finished\<close> can be signalled at any time.
\<close>

record 'm sync_ops =
  sync_take :: "sync_object \<Rightarrow> 'm \<Rightarrow> 'm option"
  sync_give :: "sync_object \<Rightarrow> 'm \<Rightarrow> 'm"
  sync_free :: "'m \<Rightarrow> sync_object \<Rightarrow> nat"

definition sync_laws :: "'m sync_ops \<Rightarrow> bool" where
  "sync_laws ops \<longleftrightarrow>
     (\<forall>x m. sync_take ops x m = None \<longleftrightarrow> sync_free ops m x = 0) \<and>
     (\<forall>x m m'. sync_take ops x m = Some m' \<longrightarrow> sync_free ops m' = (sync_free ops m)(x := sync_free ops m x - 1)) \<and>
     (\<forall>x m. sync_free ops m x = 0 \<or> x = SYNC_finished \<longrightarrow> sync_free ops (sync_give ops x m) = (sync_free ops m)(x := sync_free ops m x + 1))"

datatype prot_type = No_protection | Semaphores | SpinLock

text \<open>The places of a process, with what it has read into its variable \<open>Y\<close> or \<open>Z\<close> or for the counter.\<close>

datatype worker_at =
    W_wait | W_load | W_store u32 | W_release | W_signal | W_lock | W_count | W_incr u32 | W_unlock | W_over

datatype boss_at = B_wait1 | B_wait2 | B_spin | B_print | B_over

record 'm midterm =
  sync :: 'm
  cons_held :: bool
  shared_X :: u32
  finishedCount :: u32
  printed_X :: "u32 option"
  boss :: boss_at
  worker :: "nat \<Rightarrow> worker_at"

definition boss_to :: "boss_at \<Rightarrow> 'm midterm \<Rightarrow> 'm midterm" where
  "boss_to b s = s\<lparr>boss := b\<rparr>"

definition worker_to :: "nat \<Rightarrow> worker_at \<Rightarrow> 'm midterm \<Rightarrow> 'm midterm" where
  "worker_to p w s = s\<lparr>worker := (worker s)(p := w)\<rparr>"

definition take_sync :: "'m sync_ops \<Rightarrow> sync_object \<Rightarrow> ('m midterm \<Rightarrow> 'm midterm) \<Rightarrow> 'm midterm \<Rightarrow> 'm midterm act" where
  "take_sync ops x f s = (case sync_take ops x (sync s) of None \<Rightarrow> Waits | Some m \<Rightarrow> Next (f (s\<lparr>sync := m\<rparr>)))"

definition give_sync :: "'m sync_ops \<Rightarrow> sync_object \<Rightarrow> ('m midterm \<Rightarrow> 'm midterm) \<Rightarrow> 'm midterm \<Rightarrow> 'm midterm act" where
  "give_sync ops x f s = Next (f (s\<lparr>sync := sync_give ops x (sync s)\<rparr>))"

section \<open>The processes\<close>

text \<open>Process 0 is A, process 1 is B.\<close>

definition job :: "nat \<Rightarrow> u32 \<Rightarrow> u32" where
  "job p x = (if p = 0 then x * 2 else x + 1)"

definition worker_step :: "'m sync_ops \<Rightarrow> prot_type \<Rightarrow> nat \<Rightarrow> 'm midterm \<Rightarrow> 'm midterm act" where
  "worker_step ops protType p s = (case worker s p of
     W_wait \<Rightarrow> (if protType = No_protection then Next (worker_to p W_load s) else take_sync ops SYNC_T (worker_to p W_load) s)
   | W_load \<Rightarrow> Next (worker_to p (W_store (job p (shared_X s))) s)
   | W_store v \<Rightarrow> Next (worker_to p (if p = 0 then W_release else W_signal) (s\<lparr>shared_X := v\<rparr>))
   | W_release \<Rightarrow> (if protType = No_protection then Next (worker_to p W_signal s) else give_sync ops SYNC_T (worker_to p W_signal) s)
   | W_signal \<Rightarrow> (if protType = Semaphores then give_sync ops SYNC_finished (worker_to p W_lock) s else Next (worker_to p W_lock s))
   | W_lock \<Rightarrow> (if protType = No_protection
       then if cons_held s then Waits else Next (worker_to p W_count (s\<lparr>cons_held := True\<rparr>))
       else take_sync ops SYNC_mutex (worker_to p W_count) s)
   | W_count \<Rightarrow> Next (worker_to p (W_incr (finishedCount s)) s)
   | W_incr c \<Rightarrow> Next (worker_to p W_unlock (s\<lparr>finishedCount := c + 1\<rparr>))
   | W_unlock \<Rightarrow> (if protType = No_protection then Next (worker_to p W_over (s\<lparr>cons_held := False\<rparr>))
       else give_sync ops SYNC_mutex (worker_to p W_over) s)
   | W_over \<Rightarrow> Waits)"

text \<open>The master waits in a loop for the counter; a round of it that finds the counter too small changes nothing.\<close>

definition boss_step :: "'m sync_ops \<Rightarrow> prot_type \<Rightarrow> 'm midterm \<Rightarrow> 'm midterm act" where
  "boss_step ops protType s = (case boss s of
     B_wait1 \<Rightarrow> (if protType = Semaphores then take_sync ops SYNC_finished (boss_to B_wait2) s else Next (boss_to B_spin s))
   | B_wait2 \<Rightarrow> take_sync ops SYNC_finished (boss_to B_spin) s
   | B_spin \<Rightarrow> (if finishedCount s \<noteq> 2 then Waits else Next (boss_to B_print s))
   | B_print \<Rightarrow> Next (boss_to B_over (s\<lparr>printed_X := Some (shared_X s)\<rparr>))
   | B_over \<Rightarrow> Waits)"

inductive midterm_step :: "'m sync_ops \<Rightarrow> prot_type \<Rightarrow> 'm midterm \<Rightarrow> 'm midterm \<Rightarrow> bool" for ops protType where
  t_worker: "p < 2 \<Longrightarrow> worker_step ops protType p s = Next s' \<Longrightarrow> midterm_step ops protType s s'"
| t_boss: "boss_step ops protType s = Next s' \<Longrightarrow> midterm_step ops protType s s'"

definition midterm_start :: "'m sync_ops \<Rightarrow> 'm midterm \<Rightarrow> bool" where
  "midterm_start ops s \<longleftrightarrow>
     sync_free ops (sync s) SYNC_T = 0 \<and> sync_free ops (sync s) SYNC_finished = 0 \<and> sync_free ops (sync s) SYNC_mutex = 1 \<and>
     \<not> cons_held s \<and> shared_X s = 5 \<and> finishedCount s = 0 \<and> printed_X s = None \<and> boss s = B_wait1 \<and>
     worker s 0 = W_load \<and> worker s 1 = W_wait"

end
