(* ===== verification/FOS_MidtermThms.thy ===== *)
theory FOS_MidtermThms
  imports FOS_Midterm
begin

text \<open>
  The example of two processes on a shared variable: an invariant of every interleaving, the absence of deadlock, and the values that the variable can
  have in the end.
\<close>

section \<open>Who is where\<close>

fun w_done_X :: "worker_at \<Rightarrow> bool" where
  "w_done_X W_wait = False" | "w_done_X W_load = False" | "w_done_X (W_store v) = False" | "w_done_X _ = True"

fun w_early :: "worker_at \<Rightarrow> bool" where
  "w_early W_wait = True" | "w_early W_load = True" | "w_early _ = False"

fun w_released :: "worker_at \<Rightarrow> bool" where
  "w_released W_release = False" | "w_released w = w_done_X w"

fun w_signalled :: "worker_at \<Rightarrow> bool" where
  "w_signalled W_signal = False" | "w_signalled w = w_released w"

fun w_in :: "worker_at \<Rightarrow> bool" where
  "w_in W_count = True" | "w_in (W_incr c) = True" | "w_in W_unlock = True" | "w_in _ = False"

fun w_counted :: "worker_at \<Rightarrow> bool" where
  "w_counted W_unlock = True" | "w_counted W_over = True" | "w_counted _ = False"

fun b_waited :: "boss_at \<Rightarrow> int" where
  "b_waited B_wait1 = 0" | "b_waited B_wait2 = 1" | "b_waited _ = 2"

abbreviation workers_at :: "(worker_at \<Rightarrow> bool) \<Rightarrow> 'm midterm \<Rightarrow> int" where
  "workers_at P s \<equiv> cnt P (worker s) 2"

definition sf :: "'m sync_ops \<Rightarrow> 'm midterm \<Rightarrow> sync_object \<Rightarrow> int" where
  "sf ops s x = int (sync_free ops (sync s) x)"

text \<open>The mutual exclusion, the order of the two processes, the semaphore for the master and the counter of the processes that have finished.\<close>

definition mutex_ok :: "'m sync_ops \<Rightarrow> prot_type \<Rightarrow> 'm midterm \<Rightarrow> bool" where
  "mutex_ok ops prot s \<longleftrightarrow>
     (if prot = No_protection then of_bool (cons_held s) else 1 - sf ops s SYNC_mutex) = workers_at w_in s"

definition order_ok :: "'m sync_ops \<Rightarrow> prot_type \<Rightarrow> 'm midterm \<Rightarrow> bool" where
  "order_ok ops prot s \<longleftrightarrow> worker s 0 \<noteq> W_wait \<and> worker s 1 \<noteq> W_release \<and>
     (prot \<noteq> No_protection \<longrightarrow> sf ops s SYNC_T + of_bool (worker s 1 \<noteq> W_wait) = of_bool (w_released (worker s 0)))"

definition finish_ok :: "'m sync_ops \<Rightarrow> prot_type \<Rightarrow> 'm midterm \<Rightarrow> bool" where
  "finish_ok ops prot s \<longleftrightarrow>
     (if prot = Semaphores then sf ops s SYNC_finished + b_waited (boss s) = workers_at w_signalled s else boss s \<noteq> B_wait2)"

definition count_ok :: "'m midterm \<Rightarrow> bool" where
  "count_ok s \<longleftrightarrow> finishedCount s = word_of_int (workers_at w_counted s) \<and>
     (\<forall>p < 2. \<forall>c. worker s p = W_incr c \<longrightarrow> c = finishedCount s) \<and>
     (boss s = B_print \<or> boss s = B_over \<longrightarrow> workers_at w_counted s = 2)"

text \<open>The value of the variable, by what the two processes have done with it.\<close>

fun data_ok :: "worker_at \<Rightarrow> worker_at \<Rightarrow> prot_type \<Rightarrow> u32 \<Rightarrow> bool" where
  "data_ok a b prot x =
     (if prot = No_protection
      then if w_early a then if w_early b then x = 5 else if w_done_X b then x = 6 else x = 5 \<and> b = W_store 6
        else if w_done_X a
        then if w_early b then x = 10 else if w_done_X b then x \<in> {6, 10, 11, 12} else x = 10 \<and> b \<in> {W_store 6, W_store 11}
        else if w_early b then x = 5 \<and> a = W_store 10 else if w_done_X b then x = 6 \<and> a \<in> {W_store 10, W_store 12}
        else x = 5 \<and> a = W_store 10 \<and> b = W_store 6
      else if w_early a then x = 5
      else if w_done_X a then if w_early b then x = 10 else if w_done_X b then x = 11 else x = 10 \<and> b = W_store 11
      else x = 5 \<and> a = W_store 10)"

declare data_ok.simps [simp del]

definition midterm_inv :: "'m sync_ops \<Rightarrow> prot_type \<Rightarrow> 'm midterm \<Rightarrow> bool" where
  "midterm_inv ops prot s \<longleftrightarrow>
     mutex_ok ops prot s \<and> order_ok ops prot s \<and> finish_ok ops prot s \<and> count_ok s \<and> data_ok (worker s 0) (worker s 1) prot (shared_X s) \<and> (boss s = B_over \<longrightarrow> printed_X s = Some (shared_X s))"

section \<open>The invariant holds\<close>

lemma take_sync_Next:
  assumes "sync_laws ops" "take_sync ops x f s = Next s'"
  obtains m where "s' = f (s\<lparr>sync := m\<rparr>)" "0 < sf ops s x"
    "\<And>y. int (sync_free ops m y) = (if y = x then sf ops s x - 1 else sf ops s y)"
proof -
  from assms(2) obtain m where m: "sync_take ops x (sync s) = Some m" "s' = f (s\<lparr>sync := m\<rparr>)"
    by (auto simp: take_sync_def split: option.splits)
  have pos: "0 < sync_free ops (sync s) x" and p: "sync_free ops m = (sync_free ops (sync s))(x := sync_free ops (sync s) x - 1)"
    using assms(1) m(1) unfolding sync_laws_def by (metis gr0I option.distinct(1), metis)
  show thesis by (rule that [OF m(2)]) (use p pos in \<open>auto simp: sf_def of_nat_diff\<close>)
qed

lemma take_sync_Waits:
  assumes "sync_laws ops"
  shows "take_sync ops x f s = Waits \<longleftrightarrow> sf ops s x = 0"
proof -
  have "sync_take ops x (sync s) = None \<longleftrightarrow> sync_free ops (sync s) x = 0" using assms by (simp add: sync_laws_def)
  then show ?thesis by (cases "sync_take ops x (sync s)") (simp_all add: take_sync_def sf_def)
qed

lemma take_sync_Fails [simp]: "take_sync ops x f s \<noteq> Fails"
  by (simp add: take_sync_def split: option.splits)

lemma give_sync_Next:
  assumes "sync_laws ops" "give_sync ops x f s = Next s'" "sf ops s x = 0 \<or> x = SYNC_finished"
  obtains m where "s' = f (s\<lparr>sync := m\<rparr>)" "\<And>y. int (sync_free ops m y) = (if y = x then sf ops s x + 1 else sf ops s y)"
proof (rule that [of "sync_give ops x (sync s)"])
  have "sync_free ops (sync_give ops x (sync s)) = (sync_free ops (sync s))(x := sync_free ops (sync s) x + 1)"
    using assms(1,3) unfolding sync_laws_def sf_def by (metis of_nat_eq_0_iff)
  then show "int (sync_free ops (sync_give ops x (sync s)) y) = (if y = x then sf ops s x + 1 else sf ops s y)" for y
    by (simp add: sf_def)
qed (use assms(2) in \<open>simp add: give_sync_def\<close>)

lemma give_sync_other [simp]: "give_sync ops x f s \<noteq> Waits" "give_sync ops x f s \<noteq> Fails"
  by (simp_all add: give_sync_def)

lemma to_worker [simp]:
  "sync (worker_to p w s) = sync s" "cons_held (worker_to p w s) = cons_held s" "shared_X (worker_to p w s) = shared_X s"
  "finishedCount (worker_to p w s) = finishedCount s" "printed_X (worker_to p w s) = printed_X s" "boss (worker_to p w s) = boss s"
  "worker (worker_to p w s) = (worker s)(p := w)" "sync (boss_to b s) = sync s" "cons_held (boss_to b s) = cons_held s"
  "shared_X (boss_to b s) = shared_X s" "finishedCount (boss_to b s) = finishedCount s" "printed_X (boss_to b s) = printed_X s"
  "boss (boss_to b s) = b" "worker (boss_to b s) = worker s"
  by (simp_all add: worker_to_def boss_to_def)

lemma less_two: "p < 2 \<longleftrightarrow> p = 0 \<or> p = (1 :: nat)"
  by linarith

text \<open>What is released is not free.\<close>

lemma workers_in: "p < 2 \<Longrightarrow> w_in (worker s p) \<Longrightarrow> 1 \<le> workers_at w_in s"
  by (rule cnt_pos)

lemma mutex_taken:
  assumes "mutex_ok ops prot s" "p < 2" "prot \<noteq> No_protection" "w_in (worker s p)"
  shows "sf ops s SYNC_mutex = 0"
proof -
  have "1 \<le> workers_at w_in s" by (rule workers_in [OF assms(2,4)])
  then show ?thesis using assms(1,3) by (simp add: mutex_ok_def sf_def)
qed

lemma order_taken: "order_ok ops prot s \<Longrightarrow> prot \<noteq> No_protection \<Longrightarrow> p < 2 \<Longrightarrow> worker s p = W_release \<Longrightarrow> sf ops s SYNC_T = 0"
  by (cases "worker s 1 = W_wait") (auto simp: order_ok_def less_two sf_def)

lemma mutex_ok_worker:
  assumes L: "sync_laws ops" and p: "p < 2" and step: "worker_step ops prot p s = Next s'" and i: "mutex_ok ops prot s" "order_ok ops prot s"
  shows "mutex_ok ops prot s'"
proof -
  note t = mutex_taken [OF i(1) p] order_taken [OF i(2) _ p]
  show ?thesis
    using step
    by (cases "worker s p"; simp add: worker_step_def split: if_splits; (elim take_sync_Next [OF L] give_sync_Next [OF L])?;
      cases "prot = No_protection"; cases "cons_held s"; use i(1) p t workers_in [OF p, of s] in \<open>auto simp: mutex_ok_def cnt_upd sf_def\<close>)
qed

lemma order_ok_worker:
  assumes L: "sync_laws ops" and p: "p < 2" and step: "worker_step ops prot p s = Next s'" and i: "mutex_ok ops prot s" "order_ok ops prot s"
  shows "order_ok ops prot s'"
proof -
  note t = mutex_taken [OF i(1) p] order_taken [OF i(2) _ p]
  show ?thesis
    using step
    by (cases "worker s p"; simp add: worker_step_def split: if_splits; (elim take_sync_Next [OF L] give_sync_Next [OF L])?;
      use i(2) p t in \<open>force simp: order_ok_def less_two sf_def split: if_splits\<close>)
qed

lemma finish_ok_worker:
  assumes L: "sync_laws ops" and p: "p < 2" and step: "worker_step ops prot p s = Next s'" and i: "mutex_ok ops prot s" "order_ok ops prot s"
    "finish_ok ops prot s"
  shows "finish_ok ops prot s'"
proof -
  note t = mutex_taken [OF i(1) p] order_taken [OF i(2) _ p]
  show ?thesis
    using step
    by (cases "worker s p"; simp add: worker_step_def split: if_splits; (elim take_sync_Next [OF L] give_sync_Next [OF L])?;
      use i(3) p t in \<open>force simp: finish_ok_def cnt_upd sf_def split: if_splits\<close>)
qed

text \<open>Only one process is at the counter.\<close>

lemma one_inside:
  assumes "mutex_ok ops prot s" "p < 2" "q < 2" "w_in (worker s p)" "w_in (worker s q)"
  shows "p = q"
proof (rule ccontr)
  assume "p \<noteq> q"
  then have "2 \<le> workers_at w_in s" using assms(2-5) by (intro cnt_two [of p 2 q])
  then show False using assms(1) by (cases "cons_held s") (simp_all add: mutex_ok_def sf_def split: if_splits)
qed

lemma count_ok_worker:
  assumes L: "sync_laws ops" and p: "p < 2" and step: "worker_step ops prot p s = Next s'" and i: "mutex_ok ops prot s" "order_ok ops prot s"
    "count_ok s"
  shows "count_ok s'"
proof -
  note t = mutex_taken [OF i(1) p] order_taken [OF i(2) _ p]
  have alone: "worker s q \<noteq> W_incr c" if "q < 2" "q \<noteq> p" "w_in (worker s p)" for q c
    using one_inside [OF i(1) p that(1,3)] that(2) by auto
  have full: "w_counted (worker s p)" if "boss s = B_print \<or> boss s = B_over"
    using i(3) that p cnt_full [of w_counted "worker s" 2] by (auto simp: count_ok_def)
  show ?thesis
    using step
    by (cases "worker s p"; simp add: worker_step_def split: if_splits; (elim take_sync_Next [OF L] give_sync_Next [OF L])?;
      use i(3) p t alone full in \<open>force simp: count_ok_def cnt_upd split: if_splits\<close>)
qed

text \<open>The steps on the variable.\<close>

lemma data_same [simp]:
  "data_ok W_release b prot x = data_ok W_over b prot x" "data_ok W_signal b prot x = data_ok W_over b prot x"
  "data_ok W_lock b prot x = data_ok W_over b prot x" "data_ok W_count b prot x = data_ok W_over b prot x"
  "data_ok (W_incr c) b prot x = data_ok W_over b prot x" "data_ok W_unlock b prot x = data_ok W_over b prot x"
  "data_ok a W_signal prot x = data_ok a W_over prot x" "data_ok a W_lock prot x = data_ok a W_over prot x"
  "data_ok a W_count prot x = data_ok a W_over prot x" "data_ok a (W_incr c) prot x = data_ok a W_over prot x"
  "data_ok a W_unlock prot x = data_ok a W_over prot x" "data_ok a W_wait prot x = data_ok a W_load prot x"
  by (simp_all add: data_ok.simps)

lemma data_A:
  "data_ok W_load b prot x \<Longrightarrow> data_ok (W_store (job 0 x)) b prot x"
  "data_ok (W_store v) W_load prot x \<Longrightarrow> prot \<noteq> No_protection \<Longrightarrow> data_ok W_over W_load prot v"
  "data_ok (W_store v) b No_protection x \<Longrightarrow> data_ok W_over b No_protection v"
  by (auto simp: data_ok.simps job_def split: if_splits)

lemma data_B:
  "data_ok a W_load prot x \<Longrightarrow> prot \<noteq> No_protection \<Longrightarrow> w_done_X a \<Longrightarrow> data_ok a (W_store (job (Suc 0) x)) prot x"
  "data_ok a W_load No_protection x \<Longrightarrow> data_ok a (W_store (job (Suc 0) x)) No_protection x"
  "data_ok a (W_store v) prot x \<Longrightarrow> prot \<noteq> No_protection \<Longrightarrow> w_done_X a \<Longrightarrow> data_ok a W_over prot v"
  "data_ok a (W_store v) No_protection x \<Longrightarrow> data_ok a W_over No_protection v"
  by (cases a; auto simp: data_ok.simps job_def split: if_splits)+

lemma order_facts:
  assumes "order_ok ops prot s" "prot \<noteq> No_protection"
  shows "worker s 0 = W_store v \<Longrightarrow> worker s 1 = W_wait" "worker s 1 \<noteq> W_wait \<Longrightarrow> w_done_X (worker s 0)"
proof -
  show "worker s 0 = W_store v \<Longrightarrow> worker s 1 = W_wait" using assms by (cases "worker s 1 = W_wait") (auto simp: order_ok_def sf_def)
  show "worker s 1 \<noteq> W_wait \<Longrightarrow> w_done_X (worker s 0)" using assms by (cases "worker s 0") (auto simp: order_ok_def sf_def)
qed

lemma data_ok_worker:
  assumes L: "sync_laws ops" and p: "p < 2" and step: "worker_step ops prot p s = Next s'" and i: "mutex_ok ops prot s" "order_ok ops prot s"
    "data_ok (worker s 0) (worker s 1) prot (shared_X s)"
  shows "data_ok (worker s' 0) (worker s' 1) prot (shared_X s')"
proof -
  note t = mutex_taken [OF i(1) p] order_taken [OF i(2) _ p]
  have n: "worker s 0 \<noteq> W_wait" "worker s 1 \<noteq> W_release" using i(2) by (simp_all add: order_ok_def)
  have A: ?thesis if "p = 0"
    using step t i(3) n order_facts [OF i(2)]
    by (cases "worker s 0"; simp add: that worker_step_def split: if_splits; (elim take_sync_Next [OF L] give_sync_Next [OF L])?;
      cases "prot = No_protection"; auto dest: data_A)
  have B: ?thesis if "p = 1"
    using step t i(3) n order_facts [OF i(2)]
    by (cases "worker s 1"; simp add: that worker_step_def split: if_splits; (elim take_sync_Next [OF L] give_sync_Next [OF L])?;
      cases "prot = No_protection"; auto dest: data_B)
  show ?thesis using p A B by (auto simp: less_two)
qed

lemma boss_step_frame:
  assumes "sync_laws ops" "boss_step ops prot s = Next s'"
  shows "worker s' = worker s" "cons_held s' = cons_held s" "shared_X s' = shared_X s" "finishedCount s' = finishedCount s"
    "x \<noteq> SYNC_finished \<Longrightarrow> sf ops s' x = sf ops s x"
  using assms(2)
  by (cases "boss s"; simp add: boss_step_def split: if_splits; (elim take_sync_Next [OF assms(1)])?; force simp: sf_def)+

lemma midterm_inv_step:
  assumes "sync_laws ops" "midterm_inv ops prot s" "midterm_step ops prot s s'"
  shows "midterm_inv ops prot s'"
  using assms(3)
proof cases
  case (t_worker p)
  note i = assms(2) [unfolded midterm_inv_def]
  have over: "printed_X s' = printed_X s" "boss s' = boss s" "boss s = B_over \<longrightarrow> shared_X s' = shared_X s"
    using t_worker i cnt_full [of w_counted "worker s" 2]
    by (cases "worker s p"; simp add: worker_step_def split: if_splits; (elim take_sync_Next [OF assms(1)])?;
      force simp: count_ok_def give_sync_def)+
  show ?thesis
    unfolding midterm_inv_def
  proof (intro conjI)
    show "mutex_ok ops prot s'" by (rule mutex_ok_worker [OF assms(1) t_worker]) (use i in simp_all)
    show "order_ok ops prot s'" by (rule order_ok_worker [OF assms(1) t_worker]) (use i in simp_all)
    show "finish_ok ops prot s'" by (rule finish_ok_worker [OF assms(1) t_worker]) (use i in simp_all)
    show "count_ok s'" by (rule count_ok_worker [OF assms(1) t_worker]) (use i in simp_all)
    show "data_ok (worker s' 0) (worker s' 1) prot (shared_X s')" by (rule data_ok_worker [OF assms(1) t_worker]) (use i in simp_all)
    show "boss s' = B_over \<longrightarrow> printed_X s' = Some (shared_X s')" using i over by simp
  qed
next
  case t_boss
  note i = assms(2) [unfolded midterm_inv_def]
  have c: "workers_at w_counted s = 2" if "finishedCount s = 2"
  proof -
    have "workers_at w_counted s \<in> {0, 1, 2}" using cnt_nonneg [of w_counted "worker s" 2] cnt_le [of w_counted "worker s" 2]
      by (simp del: cnt_nonneg) linarith
    then show ?thesis using i that by (auto simp: count_ok_def)
  qed
  note fr = boss_step_frame [OF assms(1) t_boss]
  have "mutex_ok ops prot s' = mutex_ok ops prot s" "order_ok ops prot s' = order_ok ops prot s" by (simp_all add: mutex_ok_def order_ok_def fr)
  then have "mutex_ok ops prot s'" "order_ok ops prot s'" using i by simp_all
  moreover have "finish_ok ops prot s'" "count_ok s'" "boss s' = B_over \<longrightarrow> printed_X s' = Some (shared_X s')"
    using t_boss
    by (cases "boss s"; simp add: boss_step_def split: if_splits; (elim take_sync_Next [OF assms(1)])?;
      use i c in \<open>auto simp: finish_ok_def count_ok_def sf_def\<close>)+
  ultimately show ?thesis using i by (simp add: midterm_inv_def fr)
qed

lemma midterm_inv_start: "midterm_start ops s \<Longrightarrow> midterm_inv ops prot s"
  by (auto simp: midterm_start_def midterm_inv_def mutex_ok_def order_ok_def finish_ok_def count_ok_def sf_def data_ok.simps
    numeral_2_eq_2 less_Suc_eq)

section \<open>Nobody waits for ever\<close>

lemma worker_stuck:
  assumes "sync_laws ops" "p < 2" "order_ok ops prot s" "worker_step ops prot p s = Waits"
  shows "worker s p = W_over \<or> worker s p = W_wait \<and> prot \<noteq> No_protection \<and> sf ops s SYNC_T = 0 \<or>
    worker s p = W_lock \<and> (if prot = No_protection then cons_held s else sf ops s SYNC_mutex = 0)"
  using assms(4) by (cases "worker s p") (auto simp: worker_step_def take_sync_Waits [OF assms(1)] split: if_splits)

lemma boss_stuck:
  assumes "sync_laws ops" "finish_ok ops prot s" "boss_step ops prot s = Waits" "boss s \<noteq> B_over"
  shows "if boss s = B_spin then finishedCount s \<noteq> 2 else prot = Semaphores \<and> b_waited (boss s) < 2 \<and> sf ops s SYNC_finished = 0"
  using assms(2-4)
  by (cases "boss s") (auto simp: boss_step_def finish_ok_def take_sync_Waits [OF assms(1)] split: if_splits)

lemma midterm_not_stuck:
  assumes L: "sync_laws ops" and i: "midterm_inv ops prot s" and b: "boss s \<noteq> B_over"
  shows "boss_step ops prot s \<noteq> Waits \<or> (\<exists>p < 2. worker_step ops prot p s \<noteq> Waits)"
proof (rule ccontr)
  assume n: "\<not> ?thesis"
  note I = i [unfolded midterm_inv_def]
  have o: "order_ok ops prot s" and f: "finish_ok ops prot s" using I by simp_all
  have w: "worker s p = W_over \<or> worker s p = W_wait \<and> prot \<noteq> No_protection \<and> sf ops s SYNC_T = 0 \<or>
      worker s p = W_lock \<and> (if prot = No_protection then cons_held s else sf ops s SYNC_mutex = 0)" if "p < 2" for p
    using n that by (intro worker_stuck [OF L that o]) blast
  have "\<not> w_in (worker s p)" if "p < 2" for p using w [OF that] by auto
  then have "workers_at w_in s = 0" by (simp add: cnt_zero)
  then have free: "if prot = No_protection then \<not> cons_held s else sf ops s SYNC_mutex = 1"
    using I by (simp add: mutex_ok_def split: if_splits)
  have A: "worker s 0 = W_over" using w [of 0] free o by (auto simp: order_ok_def split: if_splits)
  have B: "worker s 1 = W_over" using w [of 1] free o A by (auto simp: order_ok_def split: if_splits)
  have all: "workers_at w_signalled s = 2" "workers_at w_counted s = 2" using A B by (simp_all add: numeral_2_eq_2)
  then have "finishedCount s = 2" using I by (simp add: count_ok_def)
  then show False using boss_stuck [OF L f _ b] n f all by (auto simp: finish_ok_def split: if_splits)
qed

fun w_left :: "worker_at \<Rightarrow> nat" where
  "w_left W_wait = 9" | "w_left W_load = 8" | "w_left (W_store v) = 7" | "w_left W_release = 6" | "w_left W_signal = 5"
| "w_left W_lock = 4" | "w_left W_count = 3" | "w_left (W_incr c) = 2" | "w_left W_unlock = 1" | "w_left W_over = 0"

fun b_left :: "boss_at \<Rightarrow> nat" where
  "b_left B_wait1 = 4" | "b_left B_wait2 = 3" | "b_left B_spin = 2" | "b_left B_print = 1" | "b_left B_over = 0"

definition midterm_left :: "'m midterm \<Rightarrow> nat" where
  "midterm_left s = (\<Sum>p<2. w_left (worker s p)) + b_left (boss s)"

lemma midterm_step_shorter:
  assumes "sync_laws ops" "midterm_step ops prot s s'"
  shows "midterm_left s' < midterm_left s"
  using assms(2)
proof cases
  case (t_worker p)
  have m: "w_left (worker s' p) < w_left (worker s p)" "boss s' = boss s" "worker s' = (worker s)(p := worker s' p)"
    using t_worker(2)
    by (cases "worker s p"; simp add: worker_step_def split: if_splits; (elim take_sync_Next [OF assms(1)])?; force simp: give_sync_def)+
  then show ?thesis using sum_upd_nat [OF t_worker(1), of w_left "worker s" "worker s' p"] by (simp add: midterm_left_def)
next
  case t_boss
  have "b_left (boss s') < b_left (boss s)" "worker s' = worker s"
    using t_boss by (cases "boss s"; simp add: boss_step_def split: if_splits; (elim take_sync_Next [OF assms(1)])?; force)+
  then show ?thesis by (simp add: midterm_left_def)
qed

lemma midterm_run_inv:
  assumes "sync_laws ops" "midterm_start ops s0" "(midterm_step ops prot ^^ n) s0 s"
  shows "midterm_inv ops prot s \<and> n + midterm_left s \<le> 21"
  using assms(3)
proof (induction n arbitrary: s)
  case 0
  then show ?case
    using midterm_inv_start [OF assms(2)] assms(2) by (simp add: midterm_left_def midterm_start_def numeral_2_eq_2)
next
  case (Suc n)
  from Suc.prems obtain y where y: "(midterm_step ops prot ^^ n) s0 y" "midterm_step ops prot y s" by (rule relpowp_Suc_E)
  show ?case using Suc.IH [OF y(1)] midterm_inv_step [OF assms(1) _ y(2)] midterm_step_shorter [OF assms(1) y(2)] by simp
qed

section \<open>The results\<close>

text \<open>A run that a list of processes describes; 2 is the master.\<close>

fun midterm_run :: "'m sync_ops \<Rightarrow> prot_type \<Rightarrow> nat list \<Rightarrow> 'm midterm \<Rightarrow> 'm midterm option" where
  "midterm_run ops prot [] s = Some s"
| "midterm_run ops prot (p # ps) s = (case (if p < 2 then worker_step ops prot p s else boss_step ops prot s) of
     Next s' \<Rightarrow> midterm_run ops prot ps s' | _ \<Rightarrow> None)"

lemma midterm_run_steps: "midterm_run ops prot ps s = Some s' \<Longrightarrow> (midterm_step ops prot)\<^sup>*\<^sup>* s s'"
proof (induction ps arbitrary: s)
  case (Cons p ps)
  then obtain s1 where s1: "(if p < 2 then worker_step ops prot p s else boss_step ops prot s) = Next s1" "midterm_run ops prot ps s1 = Some s'"
    by (auto split: act.splits)
  then have "midterm_step ops prot s s1" by (auto intro: t_worker t_boss split: if_splits)
  then show ?case using Cons.IH [OF s1(2)] by (rule converse_rtranclp_into_rtranclp)
qed simp

definition schedules :: "(nat list \<times> u32) set" where
  "schedules = {([0, 1, 1, 0, 1], 6), ([0, 1, 1, 1, 0], 10), ([0, 0, 1, 1, 1], 11), ([1, 1, 1, 0, 0], 12)}"

lemma schedules_results: "snd ` schedules = {6, 10, 11, 12}"
  by (simp only: schedules_def image_insert image_empty snd_conv)

lemma midterm_run_result:
  assumes "midterm_start ops s0" "(sched, x) \<in> schedules"
  shows "\<exists>s. midterm_run ops No_protection (sched @ [0, 0, 0, 0, 0, 0, 1, 1, 1, 1, 1, 2, 2, 2]) s0 = Some s \<and> boss s = B_over \<and> printed_X s = Some x"
  using assms(2) assms(1) [unfolded midterm_start_def] unfolding schedules_def
  by (elim insertE emptyE) (simp_all add: worker_step_def boss_step_def job_def worker_to_def boss_to_def)

lemma over_value:
  assumes "midterm_inv ops prot s" "boss s = B_over"
  shows "if prot = No_protection then shared_X s \<in> {6, 10, 11, 12} else shared_X s = 11"
proof -
  note i = assms(1) [unfolded midterm_inv_def]
  have "workers_at w_counted s = 2" using i assms(2) by (simp add: count_ok_def)
  then have "w_counted (worker s p)" if "p < 2" for p using cnt_full [of w_counted "worker s" 2] that by simp
  moreover have "w_done_X a \<and> \<not> w_early a" if "w_counted a" for a using that by (cases a) simp_all
  ultimately have "w_done_X (worker s p) \<and> \<not> w_early (worker s p)" if "p < 2" for p using that by blast
  from this [of 0] this [of 1] show ?thesis using i by (auto simp: data_ok.simps)
qed

text \<open>
  C38: The results of the two processes.  Whatever the interleaving, the program takes at most 21 steps and never gets stuck before the master is
  through.  With semaphores or spin locks the master prints 11: the increment comes after the doubling.  Without protection it prints 6, 10, 11
  or 12, and each of these does occur.
\<close>

theorem midterm_outcomes:
  assumes "sync_laws ops" "midterm_start ops s0"
  shows "(\<forall>n s. (midterm_step ops prot ^^ n) s0 s \<longrightarrow> n \<le> 21 \<and>
      (if boss s = B_over
       then \<exists>x. printed_X s = Some x \<and> (if prot = No_protection then x \<in> {6, 10, 11, 12} else x = 11)
       else \<exists>s'. midterm_step ops prot s s')) \<and>
    (\<forall>x \<in> {6, 10, 11, 12}. \<exists>s. (midterm_step ops No_protection)\<^sup>*\<^sup>* s0 s \<and> boss s = B_over \<and> printed_X s = Some x)"
proof (intro conjI allI impI ballI)
  fix n s
  assume "(midterm_step ops prot ^^ n) s0 s"
  from midterm_run_inv [OF assms this] have i: "midterm_inv ops prot s" and n: "n \<le> 21" by simp_all
  show "n \<le> 21" by (rule n)
  have "\<exists>s'. midterm_step ops prot s s'" if "boss s \<noteq> B_over"
    using midterm_not_stuck [OF assms(1) i that]
  proof (elim disjE exE conjE)
    assume "boss_step ops prot s \<noteq> Waits"
    moreover have "boss_step ops prot s \<noteq> Fails" by (cases "boss s") (simp_all add: boss_step_def)
    ultimately obtain s' where "boss_step ops prot s = Next s'" by (cases "boss_step ops prot s") auto
    then show ?thesis by (blast intro: t_boss)
  next
    fix p
    assume p: "p < 2" "worker_step ops prot p s \<noteq> Waits"
    moreover have "worker_step ops prot p s \<noteq> Fails" by (cases "worker s p") (simp_all add: worker_step_def)
    ultimately obtain s' where "worker_step ops prot p s = Next s'" by (cases "worker_step ops prot p s") auto
    then show ?thesis using p(1) by (blast intro: t_worker)
  qed
  moreover have "printed_X s = Some (shared_X s)" if "boss s = B_over" using i that by (simp add: midterm_inv_def)
  ultimately show "if boss s = B_over
       then \<exists>x. printed_X s = Some x \<and> (if prot = No_protection then x \<in> {6, 10, 11, 12} else x = 11)
       else \<exists>s'. midterm_step ops prot s s'"
    using over_value [OF i] by (cases "boss s = B_over") simp_all
next
  fix x :: u32
  assume "x \<in> {6, 10, 11, 12}"
  then have "x \<in> snd ` schedules" unfolding schedules_results .
  then obtain sched where "(sched, x) \<in> schedules" by (metis imageE prod.collapse)
  from midterm_run_result [OF assms(2) this] obtain s where
    "midterm_run ops No_protection (sched @ [0, 0, 0, 0, 0, 0, 1, 1, 1, 1, 1, 2, 2, 2]) s0 = Some s" "boss s = B_over" "printed_X s = Some x" by blast
  then show "\<exists>s. (midterm_step ops No_protection)\<^sup>*\<^sup>* s0 s \<and> boss s = B_over \<and> printed_X s = Some x"
    using midterm_run_steps by blast
qed

definition counters :: "(sync_object \<Rightarrow> nat) sync_ops" where
  "counters = \<lparr>sync_take = (\<lambda>x m. if m x = 0 then None else Some (m(x := m x - 1))), sync_give = (\<lambda>x m. m(x := m x + 1)), sync_free = (\<lambda>m. m)\<rparr>"

definition midterm_ex :: "(sync_object \<Rightarrow> nat) midterm" where
  "midterm_ex = \<lparr>sync = (\<lambda>x. if x = SYNC_mutex then 1 else 0), cons_held = False, shared_X = 5, finishedCount = 0, printed_X = None,
     boss = B_wait1, worker = (\<lambda>p. if p = 0 then W_load else W_wait)\<rparr>"

lemma counters_laws: "sync_laws counters" "midterm_start counters midterm_ex"
  by (simp_all add: sync_laws_def counters_def midterm_start_def midterm_ex_def)

theorem midterm_outcomes_witness:
  "\<exists>s. (midterm_step counters No_protection)\<^sup>*\<^sup>* midterm_ex s \<and> boss s = B_over \<and> printed_X s = Some 6"
  using midterm_outcomes [OF counters_laws, of Semaphores] by simp

end
