(* ===== verification/FOS_Numeric.thy ===== *)
theory FOS_Numeric
  imports FOS_Prelude
begin

text \<open>
  The programs that compute with numbers: the three versions of the Fibonacci numbers (\<open>user/fos_fibonacci.c\<close>, \<open>fib_loop.c\<close>,
  \<open>fib_memomize.c\<close>), the factorial (\<open>user/fos_factorial.c\<close>) and the matrix operations (\<open>user/matrix_operations.c\<close>).  An \<open>int\<close> of an element is a
  word of 32 bits and an \<open>int64\<close> one of 64 bits, so overflow is the code's; an access outside an array is \<open>None\<close>.  The dialogues and the
  printing are left out, and the memory of \<open>malloc\<close> is assumed to be there.
\<close>

type_synonym i64 = "64 word"

section \<open>Fibonacci numbers and the factorial\<close>

function fibonacci :: "int \<Rightarrow> i64" where
  "fibonacci n = (if n \<le> 1 then 1 else fibonacci (n - 1) + fibonacci (n - 2))"
  by pat_completeness auto
termination by (relation "measure (\<lambda>n. nat n)") auto

definition memo_at :: "i64 list \<Rightarrow> int \<Rightarrow> i64 option" where
  "memo_at memo i = (if 0 \<le> i \<and> i < int (length memo) then Some (memo ! nat i) else None)"

definition memo_put :: "i64 list \<Rightarrow> int \<Rightarrow> i64 \<Rightarrow> i64 list option" where
  "memo_put memo i x = (if 0 \<le> i \<and> i < int (length memo) then Some (memo[nat i := x]) else None)"

text \<open>The rounds of the loop from \<open>i\<close> on.\<close>

function fib_rounds :: "int \<Rightarrow> int \<Rightarrow> i64 list \<Rightarrow> i64 list option" where
  "fib_rounds n i memo =
     (if i \<le> n
      then do {
        x \<leftarrow> (if i \<le> 1 then Some 1 else do { a \<leftarrow> memo_at memo (i - 1); b \<leftarrow> memo_at memo (i - 2); Some (a + b) });
        memo1 \<leftarrow> memo_put memo i x;
        fib_rounds n (i + 1) memo1 }
      else Some memo)"
  by pat_completeness auto
termination by (relation "measure (\<lambda>(n, i, memo). nat (n + 1 - i))") auto

definition fibonacci_loop :: "int \<Rightarrow> i64 list \<Rightarrow> i64 option" where
  "fibonacci_loop n memo = do { memo1 \<leftarrow> fib_rounds n 0 memo; memo_at memo1 n }"

function fibonacci_memo :: "int \<Rightarrow> i64 list \<Rightarrow> (i64 \<times> i64 list) option" where
  "fibonacci_memo n memo = do {
     v \<leftarrow> memo_at memo n;
     if v \<noteq> 0 then Some (v, memo)
     else if n \<le> 1 then do { memo1 \<leftarrow> memo_put memo n 1; Some (1, memo1) }
     else do {
       (a, memo1) \<leftarrow> fibonacci_memo (n - 1) memo;
       (b, memo2) \<leftarrow> fibonacci_memo (n - 2) memo1;
       memo3 \<leftarrow> memo_put memo2 n (a + b);
       Some (a + b, memo3) } }"
  by pat_completeness auto
termination by (relation "measure (\<lambda>(n, memo). nat n)") auto

function factorial :: "int \<Rightarrow> i64" where
  "factorial n = (if n \<le> 1 then 1 else of_int n * factorial (n - 1))"
  by pat_completeness auto
termination by (relation "measure (\<lambda>n. nat n)") auto

declare fibonacci.simps [simp del] fib_rounds.simps [simp del] fibonacci_memo.simps [simp del] factorial.simps [simp del]

section \<open>Matrices\<close>

definition cell :: "'a list list \<Rightarrow> nat \<Rightarrow> nat \<Rightarrow> 'a option" where
  "cell M i j = (if i < length M \<and> j < length (M ! i) then Some (M ! i ! j) else None)"

text \<open>Two loops that assign to each element once, by rows.\<close>

definition each_cell :: "nat \<Rightarrow> (nat \<Rightarrow> nat \<Rightarrow> 'a option) \<Rightarrow> 'a list list option" where
  "each_cell n f = those (map (\<lambda>i. those (map (f i) [0..<n])) [0..<n])"

text \<open>The product is one of 32 bits, and then it is widened and added.\<close>

fun mul_cell :: "u32 list list \<Rightarrow> u32 list list \<Rightarrow> nat \<Rightarrow> nat \<Rightarrow> nat \<Rightarrow> nat \<Rightarrow> i64 \<Rightarrow> i64 option" where
  "mul_cell M1 M2 i j k 0 acc = Some acc"
| "mul_cell M1 M2 i j k (Suc m) acc = do {
     a \<leftarrow> cell M1 i k;
     b \<leftarrow> cell M2 k j;
     mul_cell M1 M2 i j (Suc k) m (acc + scast (a * b)) }"

definition MatrixMultiply :: "u32 list list \<Rightarrow> u32 list list \<Rightarrow> nat \<Rightarrow> i64 list list option" where
  "MatrixMultiply M1 M2 NumOfElements = each_cell NumOfElements (\<lambda>i j. mul_cell M1 M2 i j 0 NumOfElements 0)"

definition MatrixAddition :: "u32 list list \<Rightarrow> u32 list list \<Rightarrow> nat \<Rightarrow> i64 list list option" where
  "MatrixAddition M1 M2 NumOfElements =
     each_cell NumOfElements (\<lambda>i j. do { a \<leftarrow> cell M1 i j; b \<leftarrow> cell M2 i j; Some (scast (a + b)) })"

definition MatrixSubtraction :: "u32 list list \<Rightarrow> u32 list list \<Rightarrow> nat \<Rightarrow> i64 list list option" where
  "MatrixSubtraction M1 M2 NumOfElements =
     each_cell NumOfElements (\<lambda>i j. do { a \<leftarrow> cell M1 i j; b \<leftarrow> cell M2 i j; Some (scast (a - b)) })"

definition MatrixAscending :: "nat \<Rightarrow> u32 list list option" where
  "MatrixAscending NumOfElements = each_cell NumOfElements (\<lambda>i j. Some (of_nat j))"

definition MatrixIdentical :: "nat \<Rightarrow> u32 \<Rightarrow> u32 list list option" where
  "MatrixIdentical NumOfElements value = each_cell NumOfElements (\<lambda>i j. Some value)"

text \<open>\<open>RANDU(0, n)\<close> is the time stamp counter modulo \<open>n\<close>; \<open>tsc i j\<close> is what the counter holds for an element.\<close>

definition MatrixSemiRandom :: "(nat \<Rightarrow> nat \<Rightarrow> u32) \<Rightarrow> nat \<Rightarrow> u32 list list option" where
  "MatrixSemiRandom tsc NumOfElements = each_cell NumOfElements (\<lambda>i j. Some (tsc i j mod of_nat NumOfElements + 0))"

section \<open>The Fibonacci programs\<close>

text \<open>The number that all three are to compute.\<close>

fun fib_number :: "nat \<Rightarrow> nat" where
  "fib_number 0 = 1"
| "fib_number (Suc 0) = 1"
| "fib_number (Suc (Suc n)) = fib_number (Suc n) + fib_number n"

lemma fibonacci_number: "fibonacci (int n) = of_nat (fib_number n)"
proof (induction n rule: fib_number.induct)
  case (3 n)
  have "fibonacci (int (Suc (Suc n))) = fibonacci (int (Suc n)) + fibonacci (int n)"
    by (subst fibonacci.simps) (simp add: algebra_simps)
  then show ?case using 3 by simp
qed (subst fibonacci.simps, simp)+

lemma fibonacci_small: "n \<le> 1 \<Longrightarrow> fibonacci n = 1"
  by (subst fibonacci.simps) simp

lemma fib_number_step: "1 < i \<Longrightarrow> fibonacci (i - 1) + fibonacci (i - 2) = fibonacci i"
  by (subst (3) fibonacci.simps) simp

lemma fib_rounds_spec:
  assumes "length memo = nat (n + 1)" "0 \<le> i" "i \<le> n + 1" "\<And>k. 0 \<le> k \<Longrightarrow> k < i \<Longrightarrow> memo ! nat k = fibonacci k"
  shows "\<exists>memo'. fib_rounds n i memo = Some memo' \<and> length memo' = nat (n + 1) \<and> (\<forall>k. 0 \<le> k \<longrightarrow> k \<le> n \<longrightarrow> memo' ! nat k = fibonacci k)"
  using assms
proof (induction n i memo rule: fib_rounds.induct)
  case (1 n i memo)
  show ?case
  proof (cases "i \<le> n")
    case True
    let ?x = "fibonacci i"
    have x: "(if i \<le> 1 then Some 1 else do { a \<leftarrow> memo_at memo (i - 1); b \<leftarrow> memo_at memo (i - 2); Some (a + b) }) = Some ?x"
    proof (cases "i \<le> 1")
      case False
      have "memo_at memo (i - 1) = Some (fibonacci (i - 1))" "memo_at memo (i - 2) = Some (fibonacci (i - 2))"
        using False True 1(2,5) by (simp_all add: memo_at_def)
      then show ?thesis using False fib_number_step [of i] by simp
    qed (simp add: fibonacci_small)
    have p: "memo_put memo i ?x = Some (memo[nat i := ?x])" using True 1(2,3) by (simp add: memo_put_def)
    have "\<exists>memo'. fib_rounds n (i + 1) (memo[nat i := ?x]) = Some memo' \<and> length memo' = nat (n + 1) \<and>
        (\<forall>k. 0 \<le> k \<longrightarrow> k \<le> n \<longrightarrow> memo' ! nat k = fibonacci k)"
    proof (rule 1(1) [OF True x p])
      show "memo[nat i := ?x] ! nat k = fibonacci k" if "0 \<le> k" "k < i + 1" for k
        using that 1(2,3,5) True by (cases "k = i") (auto simp: nth_list_update eq_nat_nat_iff)
    qed (use True 1(2,3) in simp_all)
    then show ?thesis using True x p by (subst fib_rounds.simps) simp
  next
    case False
    then show ?thesis using 1(2-5) by (subst fib_rounds.simps) auto
  qed
qed

text \<open>Entries of the memory are zero or right; a right entry may be zero too, when the number wraps around.\<close>

definition memo_ok :: "i64 list \<Rightarrow> bool" where
  "memo_ok memo \<longleftrightarrow> (\<forall>k < length memo. memo ! k \<noteq> 0 \<longrightarrow> memo ! k = fibonacci (int k))"

lemma memo_ok_put: "memo_ok memo \<Longrightarrow> 0 \<le> i \<Longrightarrow> memo_ok (memo[nat i := fibonacci i])"
  unfolding memo_ok_def
proof (intro allI impI)
  fix k
  assume a: "\<forall>k < length memo. memo ! k \<noteq> 0 \<longrightarrow> memo ! k = fibonacci (int k)" "0 \<le> i"
    "k < length (memo[nat i := fibonacci i])" "memo[nat i := fibonacci i] ! k \<noteq> 0"
  show "memo[nat i := fibonacci i] ! k = fibonacci (int k)" using a by (cases "k = nat i") auto
qed

lemma fibonacci_memo_spec:
  assumes "0 \<le> n" "n < int (length memo)" "memo_ok memo"
  shows "\<exists>memo'. fibonacci_memo n memo = Some (fibonacci n, memo') \<and> length memo' = length memo \<and> memo_ok memo'"
  using assms
proof (induction "nat n" arbitrary: n memo rule: less_induct)
  case less
  have a: "memo_at memo n = Some (memo ! nat n)" using less.prems by (simp add: memo_at_def)
  have put: "memo_put m n (fibonacci n) = Some (m[nat n := fibonacci n])" if "length m = length memo" for m
    using that less.prems by (simp add: memo_put_def)
  show ?case
  proof (cases "memo ! nat n \<noteq> 0")
    case True
    have "nat n < length memo" using less.prems(1,2) by (simp add: nat_less_iff)
    then have "memo ! nat n = fibonacci n" using less.prems True by (auto simp: memo_ok_def)
    then show ?thesis using a True less.prems by (subst fibonacci_memo.simps) simp
  next
    case zero: False
    show ?thesis
    proof (cases "n \<le> 1")
      case True
      then show ?thesis using a zero put [of memo] less.prems memo_ok_put [of memo n] fibonacci_small [OF True]
        by (subst fibonacci_memo.simps) simp
    next
      case False
      have "\<exists>m. fibonacci_memo (n - 1) memo = Some (fibonacci (n - 1), m) \<and> length m = length memo \<and> memo_ok m"
        by (rule less.hyps) (use False less.prems in linarith | use less.prems in simp)+
      then obtain m1 where m1: "fibonacci_memo (n - 1) memo = Some (fibonacci (n - 1), m1)" "length m1 = length memo" "memo_ok m1" by blast
      have "\<exists>m. fibonacci_memo (n - 2) m1 = Some (fibonacci (n - 2), m) \<and> length m = length m1 \<and> memo_ok m"
        by (rule less.hyps) (use False less.prems m1 in linarith | use m1 in simp)+
      then obtain m2 where m2: "fibonacci_memo (n - 2) m1 = Some (fibonacci (n - 2), m2)" "length m2 = length memo" "memo_ok m2"
        using m1(2) by auto
      have "fibonacci (n - 1) + fibonacci (n - 2) = fibonacci n" using fib_number_step [of n] False by simp
      then show ?thesis
        using a zero False m1(1) m2 put [OF m2(2)] memo_ok_put [OF m2(3) less.prems(1)] by (subst fibonacci_memo.simps) simp
    qed
  qed
qed

text \<open>Up to 91 the numbers fit into the signed result.\<close>

fun fib_up :: "nat \<Rightarrow> nat \<Rightarrow> nat \<Rightarrow> nat" where
  "fib_up 0 a b = a"
| "fib_up (Suc n) a b = fib_up n b (a + b)"

lemma fib_up_numeral: "fib_up (numeral k) a b = fib_up (pred_numeral k) b (a + b)"
  by (simp add: numeral_eq_Suc)

lemma fib_up_one: "fib_up 1 a b = b"
  by simp

lemma fib_up_number: "fib_up n (fib_number k) (fib_number (Suc k)) = fib_number (n + k)"
proof (induction n arbitrary: k)
  case (Suc n)
  show ?case using Suc.IH [of "Suc k"] by (simp add: add.commute)
qed simp

lemma fib_number_91: "fib_number 91 = 7540113804746346429"
proof -
  have "fib_up 91 1 1 = 7540113804746346429" by (simp add: fib_up_numeral fib_up_one del: One_nat_def)
  then show ?thesis using fib_up_number [of 91 0] by (simp only: fib_number.simps add_0_right One_nat_def)
qed

lemma fib_number_mono: "m \<le> n \<Longrightarrow> fib_number m \<le> fib_number n"
proof (rule lift_Suc_mono_le [of fib_number])
  show "fib_number k \<le> fib_number (Suc k)" for k by (cases k) simp_all
qed

lemma sint_exact64: "- (2 ^ 63) \<le> k \<Longrightarrow> k < 2 ^ 63 \<Longrightarrow> sint (word_of_int k :: i64) = k"
  by (simp add: signed_of_int signed_take_bit_int_eq_self)

lemma fibonacci_exact:
  assumes "0 \<le> n" "n \<le> 91"
  shows "sint (fibonacci n) = int (fib_number (nat n))"
proof -
  have "int (fib_number (nat n)) \<le> int (fib_number 91)" using assms by (intro of_nat_mono fib_number_mono) simp
  then have b: "int (fib_number (nat n)) < 2 ^ 63" by (simp add: fib_number_91)
  have "fibonacci n = word_of_int (int (fib_number (nat n)))" using fibonacci_number [of "nat n"] assms(1) by simp
  then show ?thesis using sint_exact64 [OF _ b] by simp
qed

lemma factorial_fact: "factorial (int n) = of_nat (fact n)"
proof (induction n)
  case 0
  show ?case by (subst factorial.simps) simp
next
  case (Suc n)
  show ?case
  proof (cases n)
    case 0
    then show ?thesis by (subst factorial.simps) simp
  next
    case (Suc m)
    then show ?thesis using Suc.IH by (subst factorial.simps) (simp add: algebra_simps)
  qed
qed

lemma factorial_exact:
  assumes "n \<le> 20"
  shows "sint (factorial (int n)) = fact n"
proof -
  have "(fact n :: nat) \<le> fact 20" using assms by (rule fact_mono)
  also have "(fact 20 :: nat) < 2 ^ 63" by (simp add: fact_numeral)
  finally have b: "int (fact n) < 2 ^ 63" by (metis of_nat_less_iff of_nat_numeral of_nat_power)
  have "factorial (int n) = word_of_int (int (fact n))" by (simp only: factorial_fact of_int_of_nat_eq)
  moreover have "sint (word_of_int (int (fact n)) :: i64) = int (fact n)"
    by (rule sint_exact64 [OF _ b]) (rule order_trans [OF _ of_nat_0_le_iff], simp)
  ultimately show ?thesis by simp
qed

theorem fibonacci_programs_agree:
  assumes "0 \<le> n" "length memo = nat (n + 1)"
  shows "fibonacci n = of_nat (fib_number (nat n)) \<and> fibonacci_loop n memo = Some (fibonacci n) \<and>
    (\<exists>memo'. fibonacci_memo n (replicate (nat (n + 1)) 0) = Some (fibonacci n, memo')) \<and>
    (n \<le> 91 \<longrightarrow> sint (fibonacci n) = int (fib_number (nat n)))"
proof -
  have a: "fibonacci n = of_nat (fib_number (nat n))" using fibonacci_number [of "nat n"] assms(1) by simp
  obtain m where m: "fib_rounds n 0 memo = Some m" "length m = nat (n + 1)" "\<forall>k. 0 \<le> k \<longrightarrow> k \<le> n \<longrightarrow> m ! nat k = fibonacci k"
    using fib_rounds_spec [of memo n 0] assms by auto
  have "memo_at m n = Some (fibonacci n)" using m(2,3) assms(1) by (simp add: memo_at_def)
  then have l: "fibonacci_loop n memo = Some (fibonacci n)" using m(1) by (simp add: fibonacci_loop_def)
  have "memo_ok (replicate (nat (n + 1)) 0)" by (simp add: memo_ok_def)
  then have r: "\<exists>memo'. fibonacci_memo n (replicate (nat (n + 1)) 0) = Some (fibonacci n, memo')"
    using fibonacci_memo_spec [of n "replicate (nat (n + 1)) 0"] assms(1) by auto
  show ?thesis using a l r fibonacci_exact assms(1) by blast
qed

text \<open>A negative index, which nothing excludes, reads before the array in two of the programs.\<close>

lemma fibonacci_negative:
  assumes "n < 0"
  shows "fibonacci n = 1 \<and> fibonacci_loop n memo = None \<and> fibonacci_memo n memo = None"
  using assms
  by (simp add: fibonacci_small fibonacci_loop_def fibonacci_memo.simps [of n] fib_rounds.simps [of n 0] memo_at_def)

section \<open>The matrix programs\<close>

definition is_matrix :: "nat \<Rightarrow> 'a list list \<Rightarrow> bool" where
  "is_matrix n M \<longleftrightarrow> length M = n \<and> (\<forall>row \<in> set M. length row = n)"

lemma cell_matrix: "is_matrix n M \<Longrightarrow> i < n \<Longrightarrow> j < n \<Longrightarrow> cell M i j = Some (M ! i ! j)"
  by (simp add: cell_def is_matrix_def)

lemma those_Some: "(\<And>x. x \<in> set xs \<Longrightarrow> f x = Some (g x)) \<Longrightarrow> those (map f xs) = Some (map g xs)"
  by (induction xs) auto

lemma each_cell_Some:
  assumes "\<And>i j. i < n \<Longrightarrow> j < n \<Longrightarrow> f i j = Some (g i j)"
  shows "\<exists>R. each_cell n f = Some R \<and> is_matrix n R \<and> (\<forall>i < n. \<forall>j < n. R ! i ! j = g i j)"
proof -
  have "those (map (f i) [0..<n]) = Some (map (g i) [0..<n])" if "i < n" for i
    by (rule those_Some) (simp add: assms that)
  then have "each_cell n f = Some (map (\<lambda>i. map (g i) [0..<n]) [0..<n])"
    unfolding each_cell_def by (rule those_Some) simp
  then show ?thesis by (auto simp: is_matrix_def)
qed

lemma mul_cell_sum:
  assumes "is_matrix n M1" "is_matrix n M2" "i < n" "j < n" "k + m \<le> n"
  shows "mul_cell M1 M2 i j k m acc = Some (acc + (\<Sum>l\<in>{k..<k + m}. scast (M1 ! i ! l * M2 ! l ! j)))"
  using assms(5)
proof (induction m arbitrary: k acc)
  case (Suc m)
  have c: "cell M1 i k = Some (M1 ! i ! k)" "cell M2 k j = Some (M2 ! k ! j)"
    using Suc.prems assms by (simp_all add: cell_matrix)
  have "{k..<k + Suc m} = insert k {Suc k..<Suc k + m}" by auto
  then show ?case using Suc.IH [of "Suc k"] Suc.prems c by (simp add: algebra_simps)
qed simp

lemma sint_sum64:
  assumes "finite A" "\<And>x. x \<in> A \<Longrightarrow> \<bar>f x\<bar> < 2 ^ 31" "card A < 2 ^ 32"
  shows "sint (\<Sum>x\<in>A. word_of_int (f x) :: i64) = (\<Sum>x\<in>A. f x)"
proof -
  have le: "\<bar>f x\<bar> \<le> 2 ^ 31 - 1" if "x \<in> A" for x using assms(2) [OF that] by simp
  have "\<bar>\<Sum>x\<in>A. f x\<bar> \<le> (\<Sum>x\<in>A. \<bar>f x\<bar>)" by (rule sum_abs)
  also have "\<dots> \<le> (\<Sum>x\<in>A. 2 ^ 31 - 1)" by (rule sum_mono) (rule le)
  also have "\<dots> = int (card A) * (2 ^ 31 - 1)" by simp
  also have "\<dots> < 2 ^ 63" using assms(3) by simp
  finally have "\<bar>\<Sum>x\<in>A. f x\<bar> < 2 ^ 63" .
  moreover have "(\<Sum>x\<in>A. word_of_int (f x) :: i64) = word_of_int (\<Sum>x\<in>A. f x)" by simp
  ultimately show ?thesis using sint_exact64 [of "\<Sum>x\<in>A. f x"] by simp
qed

lemma scast_exact:
  fixes w :: u32
  assumes "sint w = k"
  shows "(scast w :: i64) = word_of_int k"
  using assms by (simp add: scast_eq)

lemma sint_mult32: "\<bar>sint (a :: u32) * sint b\<bar> < 2 ^ 31 \<Longrightarrow> sint (a * b) = sint a * sint b"
  by (simp add: sint_word_mult signed_take_bit_int_eq_self abs_less_iff)

text \<open>The bounds under which the operations compute what the matrices say: every sum, difference and product fits into an \<open>int\<close>.\<close>

definition fits_int :: "int \<Rightarrow> bool" where "fits_int k \<longleftrightarrow> - (2 ^ 31) \<le> k \<and> k < 2 ^ 31"

lemma sint_ops32:
  shows "fits_int (sint (a :: u32) + sint b) \<Longrightarrow> sint (a + b) = sint a + sint b"
    "fits_int (sint a - sint b) \<Longrightarrow> sint (a - b) = sint a - sint b"
  by (simp_all add: sint_word_add sint_word_diff signed_take_bit_int_eq_self fits_int_def)

lemma sint_scast64: "sint (scast (w :: u32) :: i64) = sint w"
proof -
  have b: "- (2 ^ 31) \<le> sint w" "sint w < 2 ^ 31" using sint_ge [of w] sint_lt [of w] by simp_all
  have "sint (word_of_int (sint w) :: i64) = sint w" by (rule sint_exact64) (rule order_trans [OF _ b(1)], simp, rule less_trans [OF b(2)], simp)
  then show ?thesis unfolding scast_exact [OF refl] .
qed

theorem matrix_operations_exact:
  assumes "is_matrix n M1" "is_matrix n M2" "n < 2 ^ 32"
  defines "A \<equiv> \<lambda>i j. sint (M1 ! i ! j)" and "B \<equiv> \<lambda>i j. sint (M2 ! i ! j)"
  shows "(\<forall>i < n. \<forall>j < n. \<forall>k < n. \<bar>A i k * B k j\<bar> < 2 ^ 31) \<Longrightarrow>
      \<exists>R. MatrixMultiply M1 M2 n = Some R \<and> is_matrix n R \<and> (\<forall>i < n. \<forall>j < n. sint (R ! i ! j) = (\<Sum>k<n. A i k * B k j))"
    "(\<forall>i < n. \<forall>j < n. fits_int (A i j + B i j)) \<Longrightarrow>
      \<exists>R. MatrixAddition M1 M2 n = Some R \<and> is_matrix n R \<and> (\<forall>i < n. \<forall>j < n. sint (R ! i ! j) = A i j + B i j)"
    "(\<forall>i < n. \<forall>j < n. fits_int (A i j - B i j)) \<Longrightarrow>
      \<exists>R. MatrixSubtraction M1 M2 n = Some R \<and> is_matrix n R \<and> (\<forall>i < n. \<forall>j < n. sint (R ! i ! j) = A i j - B i j)"
proof -
  let ?g = "\<lambda>i j. (\<Sum>k<n. scast (M1 ! i ! k * M2 ! k ! j)) :: i64"
  assume small: "\<forall>i < n. \<forall>j < n. \<forall>k < n. \<bar>A i k * B k j\<bar> < 2 ^ 31"
  have "mul_cell M1 M2 i j 0 n 0 = Some (?g i j)" if "i < n" "j < n" for i j
    using mul_cell_sum [OF assms(1,2) that, of 0 n 0] by (simp add: atLeast0LessThan)
  then have "\<exists>R. MatrixMultiply M1 M2 n = Some R \<and> is_matrix n R \<and> (\<forall>i < n. \<forall>j < n. R ! i ! j = ?g i j)"
    unfolding MatrixMultiply_def by (rule each_cell_Some)
  moreover have "sint (?g i j) = (\<Sum>k<n. A i k * B k j)" if "i < n" "j < n" for i j
  proof -
    have s: "sint (M1 ! i ! k * M2 ! k ! j) = A i k * B k j" if "k < n" for k
      using small that \<open>i < n\<close> \<open>j < n\<close> unfolding A_def B_def by (intro sint_mult32) blast
    have "?g i j = (\<Sum>k<n. word_of_int (A i k * B k j))" by (rule sum.cong) (simp_all add: scast_exact [OF s])
    then show ?thesis using sint_sum64 [of "{..<n}" "\<lambda>k. A i k * B k j"] small that assms(3) by simp
  qed
  ultimately show "\<exists>R. MatrixMultiply M1 M2 n = Some R \<and> is_matrix n R \<and> (\<forall>i < n. \<forall>j < n. sint (R ! i ! j) = (\<Sum>k<n. A i k * B k j))"
    by auto
next
  assume fit: "\<forall>i < n. \<forall>j < n. fits_int (A i j + B i j)"
  have "\<exists>R. MatrixAddition M1 M2 n = Some R \<and> is_matrix n R \<and> (\<forall>i < n. \<forall>j < n. R ! i ! j = scast (M1 ! i ! j + M2 ! i ! j))"
    unfolding MatrixAddition_def by (rule each_cell_Some) (simp add: cell_matrix [OF assms(1)] cell_matrix [OF assms(2)])
  then show "\<exists>R. MatrixAddition M1 M2 n = Some R \<and> is_matrix n R \<and> (\<forall>i < n. \<forall>j < n. sint (R ! i ! j) = A i j + B i j)"
    using fit by (auto simp: sint_scast64 sint_ops32(1) A_def B_def)
next
  assume fit: "\<forall>i < n. \<forall>j < n. fits_int (A i j - B i j)"
  have "\<exists>R. MatrixSubtraction M1 M2 n = Some R \<and> is_matrix n R \<and> (\<forall>i < n. \<forall>j < n. R ! i ! j = scast (M1 ! i ! j - M2 ! i ! j))"
    unfolding MatrixSubtraction_def by (rule each_cell_Some) (simp add: cell_matrix [OF assms(1)] cell_matrix [OF assms(2)])
  then show "\<exists>R. MatrixSubtraction M1 M2 n = Some R \<and> is_matrix n R \<and> (\<forall>i < n. \<forall>j < n. sint (R ! i ! j) = A i j - B i j)"
    using fit by (auto simp: sint_scast64 sint_ops32(2) A_def B_def)
qed

text \<open>Without the bound on products the result is wrong although it would fit: the product is computed in 32 bits.\<close>

lemma matrix_product_overflow: "MatrixMultiply [[65536]] [[65536]] 1 = Some [[0]]"
  by code_simp

end
