(* ===== verification/FOS_Checks.thy ===== *)
theory FOS_Checks
  imports FOS_Prelude
begin

text \<open>
  Two routines of the kernel that stand alone: the search for a loop in a list of frames (\<open>detect_loop_in_FrameInfo_list\<close> in
  \<open>kern/tests/utilities.c\<close>) and the priorities of programs (\<open>kern/proc/priority_manager.c\<close>).
\<close>

section \<open>Loops in a list\<close>

text \<open>
  The links of the elements, which are numbers, are a function; the null pointer is \<open>None\<close>.  The result says whether a loop is reported, and
  \<open>None\<close> is a search that does not end.
\<close>

partial_function (option) loop_search :: "(nat \<Rightarrow> nat option) \<Rightarrow> nat option \<Rightarrow> nat option \<Rightarrow> bool option" where
  "loop_search LIST_NEXT slowPtr fastPtr = (case (slowPtr, fastPtr) of
     (Some slow, Some fast) \<Rightarrow>
       (let fast1 = LIST_NEXT fast
        in if fast1 = slowPtr then Some True
           else case fast1 of
             None \<Rightarrow> Some False
           | Some f \<Rightarrow>
               (let fast2 = LIST_NEXT f
                in if fast2 = slowPtr then Some True else loop_search LIST_NEXT (LIST_NEXT slow) fast2))
   | _ \<Rightarrow> Some False)"

definition detect_loop_in_FrameInfo_list :: "(nat \<Rightarrow> nat option) \<Rightarrow> nat option \<Rightarrow> bool option" where
  "detect_loop_in_FrameInfo_list LIST_NEXT LIST_FIRST = loop_search LIST_NEXT LIST_FIRST LIST_FIRST"

text \<open>The element after \<open>n\<close> links.\<close>

fun link :: "(nat \<Rightarrow> nat option) \<Rightarrow> nat option \<Rightarrow> nat \<Rightarrow> nat option" where
  "link nx q 0 = q"
| "link nx q (Suc n) = Option.bind (link nx q n) nx"

lemma link_add: "link nx q (m + n) = link nx (link nx q m) n"
  by (induction n) simp_all

lemma link_same: "link nx q i = link nx q j \<Longrightarrow> link nx q (i + n) = link nx q (j + n)"
  by (simp add: link_add)

lemma link_None: "link nx q n = None \<Longrightarrow> n \<le> m \<Longrightarrow> link nx q m = None"
  by (induction m) (auto simp: le_Suc_eq)

declare link.simps(2) [simp del]

text \<open>Elements that are met twice are met again and again.\<close>

lemma link_period:
  assumes "link nx q i = link nx q (i + p)" "i \<le> n"
  shows "link nx q (n + k * p) = link nx q n"
proof (induction k)
  case (Suc k)
  have "link nx q (i + (n - i + k * p)) = link nx q (i + p + (n - i + k * p))" by (rule link_same [OF assms(1)])
  moreover have "i + (n - i + k * p) = n + k * p" "i + p + (n - i + k * p) = n + Suc k * p" using assms(2) by simp_all
  ultimately have "link nx q (n + k * p) = link nx q (n + Suc k * p)" by (simp only:)
  then show ?case using Suc by (simp only:)
qed simp

lemma link_twice_endless:
  assumes "link nx q i = link nx q j" "i < j" "link nx q i \<noteq> None"
  shows "link nx q n \<noteq> None"
proof
  assume n: "link nx q n = None"
  have "link nx q (i + n * (j - i)) = link nx q i" by (rule link_period [of nx q i]) (use assms in simp_all)
  moreover have "n \<le> i + n * (j - i)" using assms(2) by (cases "j - i") simp_all
  ultimately show False using link_None [OF n] assms(3) by metis
qed

text \<open>The search after \<open>k\<close> rounds: the slow pointer is at element \<open>k\<close> and the fast one at element \<open>2 * k\<close>.\<close>

lemma half_met: "link nx q (2 * k) \<noteq> None \<Longrightarrow> link nx q k \<noteq> None"
  using link_None [of nx q k "2 * k"] by fastforce

lemma loop_search_round:
  assumes "link nx q (2 * k) \<noteq> None"
  shows "loop_search nx (link nx q k) (link nx q (2 * k)) =
    (if link nx q (2 * k + 1) = link nx q k \<or> link nx q (2 * k + 1) \<noteq> None \<and> link nx q (2 * k + 2) = link nx q k then Some True
     else if link nx q (2 * k + 1) = None then Some False
     else loop_search nx (link nx q (k + 1)) (link nx q (2 * (k + 1))))"
proof -
  obtain s f where s: "link nx q k = Some s" "link nx q (2 * k) = Some f" using assms half_met [OF assms] by blast
  have l: "link nx q (2 * k + 1) = nx f" "link nx q (k + 1) = nx s" "link nx q (2 * (k + 1)) = Option.bind (nx f) nx"
    "link nx q (2 * k + 2) = Option.bind (nx f) nx"
    using s by (simp_all add: link.simps(2))
  show ?thesis unfolding l using s by (subst loop_search.simps) (auto simp: Let_def split: option.splits)
qed

lemma loop_search_ends:
  assumes "link nx q n = None"
  shows "loop_search nx (link nx q k) (link nx q (2 * k)) = Some False"
  using assms
proof (induction "n - 2 * k" arbitrary: k rule: less_induct)
  case less
  have no: "link nx q i \<noteq> link nx q j" if "i < j" "link nx q i \<noteq> None" for i j
    using link_twice_endless [OF _ that] less.prems by blast
  show ?case
  proof (cases "link nx q (2 * k)")
    case None
    then show ?thesis by (subst loop_search.simps) (simp split: option.splits)
  next
    case (Some f)
    then have f: "link nx q (2 * k) \<noteq> None" by simp
    have k: "link nx q k \<noteq> None" by (rule half_met [OF f])
    have n: "2 * k < n" using f link_None [OF less.prems, of "2 * k"] by (cases "2 * k < n") simp_all
    then have "loop_search nx (link nx q (k + 1)) (link nx q (2 * (k + 1))) = Some False"
      by (intro less.hyps [OF _ less.prems]) (use n in simp)
    moreover have "link nx q (2 * k + 1) \<noteq> link nx q k" "link nx q (2 * k + 2) \<noteq> link nx q k"
      using no [OF _ k, of "2 * k + 1"] no [OF _ k, of "2 * k + 2"] by simp_all
    ultimately show ?thesis using loop_search_round [OF f] by simp
  qed
qed

lemma loop_search_meets:
  assumes "\<And>n. link nx q n \<noteq> None" "k \<le> m" "link nx q (2 * m + 1) = link nx q m"
  shows "loop_search nx (link nx q k) (link nx q (2 * k)) = Some True"
  using assms(2)
proof (induction "m - k" arbitrary: k)
  case 0
  then show ?case using loop_search_round [OF assms(1), of k] assms(3) by simp
next
  case (Suc d)
  then have "loop_search nx (link nx q (k + 1)) (link nx q (2 * (k + 1))) = Some True" by (intro Suc.hyps) simp_all
  then have "loop_search nx (link nx q k) (link nx q (2 * k)) =
      (if link nx q (2 * k + 1) = link nx q k \<or> link nx q (2 * k + 1) \<noteq> None \<and> link nx q (2 * k + 2) = link nx q k then Some True
       else if link nx q (2 * k + 1) = None then Some False else Some True)"
    using loop_search_round [OF assms(1), of k] by (simp only:)
  then show ?case using assms(1) [of "2 * k + 1"] by (simp only: if_False if_cancel)
qed

text \<open>
  C33: The search for a loop is right: on every list with finitely many elements it ends, and it reports a loop exactly when the list has no end, that is
  when the links come back to an element.
\<close>

theorem detect_loop_correct:
  assumes "finite {a. \<exists>n. link LIST_NEXT q n = Some a}"
  shows "detect_loop_in_FrameInfo_list LIST_NEXT q = Some (\<forall>n. link LIST_NEXT q n \<noteq> None) \<and>
    ((\<forall>n. link LIST_NEXT q n \<noteq> None) \<longleftrightarrow> (\<exists>i j. i < j \<and> link LIST_NEXT q i = link LIST_NEXT q j \<and> link LIST_NEXT q i \<noteq> None))"
proof (cases "\<forall>n. link LIST_NEXT q n \<noteq> None")
  case True
  let ?f = "\<lambda>n. the (link LIST_NEXT q n)"
  have s: "link LIST_NEXT q n = Some (?f n)" for n using True by simp
  have "range ?f \<subseteq> {a. \<exists>n. link LIST_NEXT q n = Some a}" using s by blast
  then have "finite (range ?f)" using assms finite_subset by blast
  then have "\<not> inj ?f" using finite_imageD infinite_UNIV_nat by blast
  then obtain i j where ij: "i < j" "?f i = ?f j" unfolding inj_def by (metis nat_neq_iff)
  then have eq: "link LIST_NEXT q i = link LIST_NEXT q j" using s by metis
  define p where "p = j - i"
  define m where "m = Suc i * p - 1"
  have p: "0 < p" "link LIST_NEXT q i = link LIST_NEXT q (i + p)" using ij eq by (simp_all add: p_def)
  have "Suc i \<le> Suc i * p" using p(1) by (cases p) simp_all
  then have m: "i \<le> m" "2 * m + 1 = m + Suc i * p" unfolding m_def by linarith+
  have "link LIST_NEXT q (2 * m + 1) = link LIST_NEXT q m" unfolding m(2) by (rule link_period [OF p(2) m(1)])
  then have "loop_search LIST_NEXT (link LIST_NEXT q 0) (link LIST_NEXT q (2 * 0)) = Some True"
    using True by (intro loop_search_meets [of LIST_NEXT q 0 m]) simp_all
  then show ?thesis using True ij eq by (auto simp: detect_loop_in_FrameInfo_list_def)
next
  case False
  then obtain n where n: "link LIST_NEXT q n = None" by blast
  then have "loop_search LIST_NEXT (link LIST_NEXT q 0) (link LIST_NEXT q (2 * 0)) = Some False" by (rule loop_search_ends)
  then have d: "detect_loop_in_FrameInfo_list LIST_NEXT q = Some False" by (simp add: detect_loop_in_FrameInfo_list_def)
  have e: "(\<exists>i j. i < j \<and> link LIST_NEXT q i = link LIST_NEXT q j \<and> link LIST_NEXT q i \<noteq> None) = False"
    using n link_twice_endless [of LIST_NEXT q _ _ n] by blast
  have f: "(\<forall>n. link LIST_NEXT q n \<noteq> None) = False" using False by simp
  show ?thesis by (simp only: e f d simp_thms)
qed

theorem detect_loop_correct_witness:
  "detect_loop_in_FrameInfo_list (\<lambda>x. if x = 0 then Some 1 else Some 0) (Some 0) = Some True"
proof -
  let ?next = "\<lambda>x :: nat. if x = 0 then Some 1 else Some (0 :: nat)"
  have e: "link ?next (Some 0) n = Some (n mod 2)" for n
    by (induction n) (auto simp: mod_Suc link.simps(2))
  have "{a. \<exists>n. link ?next (Some 0) n = Some a} \<subseteq> {0, 1}" unfolding e by auto
  then have "finite {a. \<exists>n. link ?next (Some 0) n = Some a}" by (rule finite_subset) simp
  from detect_loop_correct [OF this] show ?thesis unfolding e by simp
qed

section \<open>Priorities of programs\<close>

definition PRIORITY_LOW :: int where "PRIORITY_LOW = 1"
definition PRIORITY_BELOWNORMAL :: int where "PRIORITY_BELOWNORMAL = 2"
definition PRIORITY_NORMAL :: int where "PRIORITY_NORMAL = 3"
definition PRIORITY_ABOVENORMAL :: int where "PRIORITY_ABOVENORMAL = 4"
definition PRIORITY_HIGH :: int where "PRIORITY_HIGH = 5"

text \<open>Both functions on the size of the working set panic.\<close>

definition double_WS_Size :: "nat \<Rightarrow> bool \<Rightarrow> unit option" where
  "double_WS_Size env isOneTimeOnly = None"

definition half_WS_Size :: "nat \<Rightarrow> bool \<Rightarrow> unit option" where
  "half_WS_Size env isImmidiate = None"

definition set_program_priority :: "nat option \<Rightarrow> int \<Rightarrow> unit option" where
  "set_program_priority env priority =
     (if priority < 1 \<or> priority > 5 then None
      else case env of
        None \<Rightarrow> Some ()
      | Some e \<Rightarrow>
          if priority = PRIORITY_LOW then half_WS_Size e True
          else if priority = PRIORITY_BELOWNORMAL then half_WS_Size e False
          else if priority = PRIORITY_NORMAL then Some ()
          else if priority = PRIORITY_ABOVENORMAL then double_WS_Size e True
          else if priority = PRIORITY_HIGH then double_WS_Size e False
          else Some ())"

lemma set_program_priority_panics:
  "set_program_priority (Some e) priority = Some () \<longleftrightarrow> priority = PRIORITY_NORMAL"
  by (auto simp: set_program_priority_def half_WS_Size_def double_WS_Size_def PRIORITY_LOW_def PRIORITY_BELOWNORMAL_def
    PRIORITY_NORMAL_def PRIORITY_ABOVENORMAL_def PRIORITY_HIGH_def)

end
