(* ===== verification/FOS_Debug.thy ===== *)
theory FOS_Debug
  imports FOS_Mmu
begin

text \<open>
  The call stack that a spin lock records for debugging when it is acquired (\<open>getcallerpcs\<close> in \<open>kern/conc/kspinlock.c\<close>).
\<close>

text \<open>
  \<open>mem\<close> is the memory by words, and \<open>None\<close> is an address that is not mapped.  \<open>cpu_stack\<close> is the stack of the processor and \<open>kstack\<close> that of the
  current process, if there is one.
\<close>

definition stack_ends :: "u32 \<Rightarrow> u32 option \<Rightarrow> u32 \<Rightarrow> bool" where
  "stack_ends cpu_stack kstack ebp \<longleftrightarrow>
     ebp = 0 \<or> ebp < USER_LIMIT \<or>
     cpu_stack + KERNEL_STACK_SIZE \<le> ebp \<and> ebp < cpu_stack + KERNEL_STACK_SIZE + PAGE_SIZE \<or>
     (case kstack of None \<Rightarrow> False | Some k \<Rightarrow> k + KERNEL_STACK_SIZE \<le> ebp)"

fun callers :: "nat \<Rightarrow> (u32 \<Rightarrow> u32 option) \<Rightarrow> u32 \<Rightarrow> u32 option \<Rightarrow> u32 \<Rightarrow> u32 list option" where
  "callers 0 mem cpu_stack kstack ebp = Some []"
| "callers (Suc n) mem cpu_stack kstack ebp =
     (if stack_ends cpu_stack kstack ebp then Some []
      else do {
        eip \<leftarrow> mem (ebp + 4);
        ebp1 \<leftarrow> mem ebp;
        pcs \<leftarrow> callers n mem cpu_stack kstack ebp1;
        Some (eip # pcs) })"

definition getcallerpcs :: "(u32 \<Rightarrow> u32 option) \<Rightarrow> u32 \<Rightarrow> u32 option \<Rightarrow> u32 \<Rightarrow> (nat \<times> u32 list) option" where
  "getcallerpcs mem cpu_stack kstack v = do {
     pcs \<leftarrow> callers 10 mem cpu_stack kstack (v - 8);
     Some (length pcs, pcs @ replicate (10 - length pcs) 0) }"

text \<open>The frames of the stack from an address on, with their return addresses.\<close>

fun frames_from :: "(u32 \<Rightarrow> u32 option) \<Rightarrow> u32 \<Rightarrow> u32 option \<Rightarrow> u32 \<Rightarrow> u32 list \<Rightarrow> bool" where
  "frames_from mem cpu_stack kstack ebp [] \<longleftrightarrow> stack_ends cpu_stack kstack ebp"
| "frames_from mem cpu_stack kstack ebp (pc # pcs) \<longleftrightarrow>
     \<not> stack_ends cpu_stack kstack ebp \<and> mem (ebp + 4) = Some pc \<and>
     (case mem ebp of None \<Rightarrow> False | Some ebp1 \<Rightarrow> frames_from mem cpu_stack kstack ebp1 pcs)"

lemma callers_frames: "frames_from mem cpu_stack kstack ebp pcs \<Longrightarrow> callers n mem cpu_stack kstack ebp = Some (take n pcs)"
proof (induction pcs arbitrary: n ebp)
  case Nil
  then show ?case by (cases n) simp_all
next
  case (Cons pc pcs)
  then show ?case by (cases n) (auto split: option.splits)
qed

text \<open>The record of a call stack: the return addresses of the innermost ten frames, and zeros when there are fewer.\<close>

theorem getcallerpcs_correct:
  assumes "frames_from mem cpu_stack kstack (v - 8) pcs"
  shows "getcallerpcs mem cpu_stack kstack v = Some (min 10 (length pcs), take 10 (pcs @ replicate 10 0))"
  using callers_frames [OF assms, of 10] by (simp add: getcallerpcs_def min_def)

text \<open>Whatever the chain of frames holds, only the two words of frames from \<open>USER_LIMIT\<close> on are read.\<close>

lemma getcallerpcs_reads:
  assumes "\<And>a. USER_LIMIT \<le> a \<Longrightarrow> mem a = mem' a" "\<And>a. USER_LIMIT \<le> a \<Longrightarrow> mem (a + 4) = mem' (a + 4)"
  shows "getcallerpcs mem cpu_stack kstack v = getcallerpcs mem' cpu_stack kstack v"
proof -
  have "callers n mem cpu_stack kstack ebp = callers n mem' cpu_stack kstack ebp" for n ebp
  proof (induction n arbitrary: ebp)
    case (Suc n)
    show ?case
    proof (cases "stack_ends cpu_stack kstack ebp")
      case False
      then have "USER_LIMIT \<le> ebp" by (auto simp: stack_ends_def)
      then have "mem ebp = mem' ebp" "mem (ebp + 4) = mem' (ebp + 4)" using assms by blast+
      then show ?thesis using Suc by simp
    qed simp
  qed simp
  then show ?thesis by (simp add: getcallerpcs_def)
qed

end
