(* ===== verification/Spec2Isabelle.thy ===== *)
theory Spec2Isabelle
  imports FOS_SystemThms FOS_HeapFree FOS_CommandThms FOS_ReadlineThms FOS_BootThms FOS_SortThms FOS_UtilitiesThms FOS_Loader FOS_KdebugThms
    FOS_PanicThms FOS_AirThms FOS_ArraysThms FOS_MidtermThms FOS_Numeric FOS_Checks FOS_Debug
begin

text \<open>
  FOS, a teaching operating system for the 32-bit PC: verification of its kernel.

  \<^bold>\<open>The program.\<close>  The kernel (\<open>kern/\<close>) is a monolithic kernel for one processor.  Physical memory is
  managed in frames with reference counts and two-level page tables (\<open>kern/mem/memory_manager.c\<close>,
  \<open>paging_helpers.c\<close>); the kernel heap is a page allocator on top of them (\<open>kheap.c\<close>).  Processes are
  entries of the table \<open>envs\<close> (\<open>kern/proc/user_environment.c\<close>) that move between queues
  (\<open>kern/cpu/sched_helpers.c\<close>); the schedulers (\<open>kern/cpu/sched.c\<close>) choose the next one, and the clock interrupt
  (\<open>kern/cpu/kclock.c\<close>, \<open>picirq.c\<close>) preempts it.  Processes block on channels, semaphores and sleep locks
  (\<open>kern/conc/\<close>), which rest on spin locks that disable interrupts (\<open>kern/conc/kspinlock.c\<close>, \<open>kern/cpu/cpu.c\<close>).
  Pages of a process that are not in its working set (\<open>kern/mem/working_set_manager.c\<close>) are in the page file
  (\<open>kern/disk/pagefile_manager.c\<close>), and the fault handler (\<open>kern/trap/fault_handler.c\<close>) brings them back with one
  of several replacement strategies.  Shared memory objects and the kernel part of the user heap are in
  \<open>kern/mem/shared_memory_manager.c\<close> and \<open>chunk_operations.c\<close>, the console in \<open>kern/cons/console.c\<close>.  A process
  enters the kernel through \<open>trap()\<close> (\<open>kern/trap/trap.c\<close>), which serves interrupts, page faults and system calls
  (\<open>kern/trap/syscall.c\<close>); without a process the kernel is at its prompt (\<open>kern/cmd/\<close>).

  \<^bold>\<open>How it is modelled.\<close>  The state is a chain of extensible records, each theory adding the fields of its
  component: \<open>cpu_state\<close>, \<open>mem_state\<close>, \<open>kheap_state\<close>, \<open>clock_state\<close>, \<open>sched_state\<close>, \<open>conc_state\<close>, \<open>disk_state\<close>,
  \<open>vm_state\<close>, \<open>share_state\<close>, \<open>kernel_state\<close>, \<open>trap_state\<close>, \<open>boot_state\<close>,
  \<open>prompt_state\<close>, \<open>util_state\<close>.  An operation of C is a function from a state to an option of a
  result and a state, written with the do-notation of options; \<open>None\<close> is a panic, a failed assertion, an access
  through a null pointer or outside an array, and a loop that does not end.  Integers of C are words of their
  width (\<open>u8\<close>, \<open>u16\<close>, \<open>u32\<close>), so that overflow is the code's.  A pointer to a process is an index of \<open>envs\<close>, a pointer to a
  directory or page table is the number of its frame, and the null pointer is \<open>None\<close>.  Intrusive lists are proved at the
  level of pointers to be sequences (\<open>FOS_Queue\<close>, \<open>FOS_EnvQueue\<close>) and are sequences from there on.  An operation
  that contains a context switch is split there into the function up to the switch and the function from it.

  \<^bold>\<open>The theories.\<close>
  \<^item> \<open>FOS_Prelude\<close>, \<open>FOS_Util\<close>: words, assertions, runs of operations; fixed point numbers and powers of two.
  \<^item> \<open>FOS_Queue\<close>: the macros of \<open>inc/queue.h\<close> on a store of links, refined to sequences through the locales
    \<open>list_ops\<close> and \<open>fifo_ops\<close>; \<open>FOS_EnvQueue\<close>: the queues of processes.
  \<^item> \<open>FOS_Mmu\<close>, \<open>FOS_Memory\<close>, \<open>FOS_Refs\<close>: addresses, frames, page tables; mapping and unmapping keep the reference count of every
    frame equal to the number of entries that map it.
  \<^item> \<open>FOS_Kheap\<close>, \<open>FOS_KheapFit\<close>, \<open>FOS_KheapAlloc\<close>: the kernel heap; the custom-fit search meets its specification,
    and allocations are disjoint and mapped.
  \<^item> \<open>FOS_Cpu\<close>, \<open>FOS_Clock\<close>: nested disabling of interrupts, spin locks, interrupt masks and timer.
  \<^item> \<open>FOS_Sched\<close>, \<open>FOS_Scheduler\<close>, \<open>FOS_SchedInv\<close>, \<open>FOS_SchedThms\<close>, \<open>FOS_Ageing\<close>: process queues and schedulers with their
    invariant, the order of round robin and of priorities, ageing and the absence of starvation.
  \<^item> \<open>FOS_Conc\<close>, \<open>FOS_System\<close>, \<open>FOS_SystemInv\<close>, \<open>FOS_Resource\<close>, \<open>FOS_SystemOps\<close>, \<open>FOS_SystemThms\<close>: blocking synchronisation and the
    step relation of the whole system of interleaved processes; the kernel sections never panic, sleep locks
    exclude each other, semaphores count, no wake-up is lost.  The locale \<open>blocking_object\<close> is the contract that
    semaphores and sleep locks share.
  \<^item> \<open>FOS_Disk\<close>, \<open>FOS_DiskThms\<close>: the page file; disk frames are never shared and a page is read back as it was written,
    over any disk that meets the locale \<open>ide_disk\<close>.
  \<^item> \<open>FOS_WorkingSet\<close>, \<open>FOS_Fault\<close>, \<open>FOS_Optimal\<close>, \<open>FOS_FaultThms\<close>: working sets and the fault handler; the optimal strategy
    is optimal, the clock hand ends at the right page, the error paths.
  \<^item> \<open>FOS_Share\<close>, \<open>FOS_ShareThms\<close>: shared objects map the same frames in every process, over any block allocator that meets
    \<open>block_laws\<close>; the user heap.  \<open>FOS_HeapFree\<close>: freeing a page of the user heap that is in memory, through page file, working
    set, page table and frame.
  \<^item> \<open>FOS_Env\<close>, \<open>FOS_EnvThms\<close>: creating, loading, freeing and killing processes; identifiers, segments of a program.
  \<^item> \<open>FOS_Console\<close>, \<open>FOS_ConsoleThms\<close>: screen, keyboard and input buffer; the locale \<open>input_device\<close> is what the buffer asks of
    a device.
  \<^item> \<open>FOS_Syscall\<close>, \<open>FOS_Trap\<close>, \<open>FOS_TrapThms\<close>: the system calls, their dispatcher, the interrupt table and the path of
    a trap; a call runs with the interrupts of the process, its result reaches the saved registers, and pages that a
    process maps and unmaps keep the reference counts right.
  \<^item> \<open>FOS_Boot\<close>, \<open>FOS_BootThms\<close>: descriptor tables, the kernel's part of the address space and the order of the start; the
    tables are refined to a map from pages to entries, and the kernel's own check of them succeeds.
  \<^item> \<open>FOS_Command\<close>, \<open>FOS_CommandThms\<close>, \<open>FOS_Readline\<close>, \<open>FOS_ReadlineThms\<close>: the commands of the prompt (\<open>kern/cmd/\<close>), their
    dispatch, and the line editor with its history and completion; a line runs the command it names, settings are reported as they
    were made, and edited lines stay inside the buffer as long as the recalled line and the number of keys are together less than its size.
  \<^item> \<open>FOS_Utilities\<close>, \<open>FOS_UtilitiesThms\<close>: the system call \<open>sys_utilities\<close> (\<open>kern/tests/utilities.c\<close>) that gives processes
    semaphores, a sleep lock, a channel and settings by name.
  \<^item> \<open>FOS_Loader\<close>: the boot loader (\<open>boot/main.c\<close>); a segment is read as the image has it.  \<open>FOS_Kdebug\<close>, \<open>FOS_KdebugThms\<close>: the
    search for the function of an address in the debugging symbols (\<open>kern/trap/kdebug.c\<close>), which ends and finds the last entry
    before the address.
  \<^item> \<open>FOS_Sort\<close>, \<open>FOS_SortThms\<close>: the sorting programs under \<open>user/\<close>; the locale \<open>sorting_program\<close> is the contract of a
    sorting routine, which quicksort and mergesort meet.
  \<^item> \<open>FOS_Panic\<close>, \<open>FOS_PanicThms\<close>: a panic of a process (\<open>kern/init.c\<close>) followed to the scheduler or to the prompt; it ends this
    process only, unless the process holds a spin lock.
  \<^item> \<open>FOS_Air\<close>, \<open>FOS_AirInv\<close>, \<open>FOS_AirQueue\<close>, \<open>FOS_AirBook\<close>, \<open>FOS_AirLive\<close>, \<open>FOS_AirThms\<close>: the air reservation program
    (\<open>user/tst_air.c\<close> and its clerks and customers) as a step relation of interleaved processes; counting invariants show mutual
    exclusion and the flow of requests, from which follow that nobody fails, that the bookings are exact, and, with a measure and the
    absence of deadlock, that the program ends.  \<open>FOS_Procs\<close>: what the programs of several processes share.
  \<^item> \<open>FOS_Arrays\<close>, \<open>FOS_ArraysThms\<close>: the program of the array operations (\<open>user/arrayOperations_Master.c\<close> and its three slaves) as a step
    relation; it ends without a failure, with both arrays sorted and the right statistics.
  \<^item> \<open>FOS_Midterm\<close>, \<open>FOS_MidtermThms\<close>: two processes that double and increment a shared variable (\<open>user/MidTermEx_Master.c\<close>); the
    values it can have in the end, with and without protection.
  \<^item> \<open>FOS_Numeric\<close>: the Fibonacci, factorial and matrix programs, with the bounds up to which they are exact.  \<open>FOS_Checks\<close>: the
    search for a loop in a list of frames, which is right on every finite list, and the priorities of programs.  \<open>FOS_Debug\<close>: the
    call stack that a spin lock records, kept apart from the lock.

  \<^bold>\<open>Conditions.\<close>  Theorems about memory name the configuration they hold for: the sources are committed without the kernel heap
  (\<open>inc/memlayout.h\<close>), and processes, shared objects and the user heap need it.  The other conditions, such as page tables that
  are in memory, free frames that are there, or permissions without the bits that the kernel uses itself, are stated with each
  theorem; where one of them is needed because the code fails without it, a lemma beside the theorem shows the failure.

  \<^bold>\<open>Loops and fuel.\<close>  Loops over lists and arrays are structural recursion.  Loops over pages of the address space have
  the fuel \<open>PAGES_32\<close>, the number of pages that exist; the loop over program headers has their number, and the
  interrupt loops of the console have the number of bytes that the device holds.  Running out of fuel is
  \<open>None\<close>, and the theorems about these operations prove a result, not only its correctness when there is one.

  \<^bold>\<open>Parameters.\<close>  The repository has no \<open>lib/\<close> directory: the block allocator (\<open>alloc_block\<close> and its companions),
  \<open>memcpy\<close>, \<open>strtol\<close>, \<open>strsplit\<close>, the formatting of numbers and the disk driver \<open>ide.c\<close> are arguments of the definitions that use
  them.  The images of user programs and the addresses that the linker chooses are arguments too, and so are the time stamp
  counter, the fault address and the two checks of lists that tests run through system calls (record \<open>sysenv\<close>; the
  dispatcher gets \<open>sys_utilities\<close> in the same field).  The semaphores of user programs are the record \<open>sem_ops\<close> with the laws
  \<open>sem_laws\<close>, and for semaphores and spin locks together \<open>sync_ops\<close> with \<open>sync_laws\<close>.

  \<^bold>\<open>Not modelled.\<close>  The assembly of the entry, of context switches and of trap entry; output for
  debugging; the dialogues of the user programs; the test drivers of
  \<open>kern/tests/\<close> and the other user programs, which exercise the kernel.
\<close>

end
